(* ===== verification/Prelude.thy ===== *)
theory Prelude
  imports Main "HOL-Library.Word" "HOL-Library.Multiset" "HOL-Library.Sublist"
    "HOL-Library.Code_Target_Nat"
begin

text \<open>
  Shared vocabulary of the development: byte strings, the bounds of the C integer types on
  the LP64 targets the server is built for, the model of the C allocator, and generic
  lemmas on lists, splitting at a separator and decimal digits.
\<close>

section \<open>Types shared by the components\<close>

text \<open>
  A byte is a \<open>char\<close> of HOL (exactly eight bits), so a C slice \<open>(ptr, len)\<close> is the
  list of the bytes it covers and C string literals are HOL string literals.
\<close>

type_synonym bytes = "char list"
type_synonym u32 = "32 word"
type_synonym u64 = "64 word"

text \<open>
  The allocator: \<open>am n\<close> tells whether a \<open>malloc\<close>, \<open>calloc\<close> or \<open>realloc\<close>
  request for \<open>n\<close> bytes succeeds. Every operation that allocates takes it as its
  first argument, so that each out-of-memory return of the source is a branch of the model.
\<close>

type_synonym allocator = "nat \<Rightarrow> bool"

definition SIZE_MAX :: nat where
  "SIZE_MAX = 2 ^ 64 - 1"

lemma SIZE_MAX_value: "SIZE_MAX = 18446744073709551615"
  by (simp add: SIZE_MAX_def)

definition byte_val :: "char \<Rightarrow> nat" where
  "byte_val c = of_char c"

section \<open>Splitting at a separator\<close>

declare dropWhile_eq_Nil_conv [simp del] takeWhile_eq_all_conv [simp del]

text \<open>The fields of \<open>s\<close> between occurrences of \<open>d\<close>, empty ones included.\<close>

primrec split_on :: "char \<Rightarrow> bytes \<Rightarrow> bytes list" where
  "split_on d [] = [[]]"
| "split_on d (c # cs) =
     (if c = d then [] # split_on d cs
      else (c # hd (split_on d cs)) # tl (split_on d cs))"

lemma split_on_not_Nil [simp]: "split_on d s \<noteq> []"
  by (cases s) auto

lemma split_on_rec:
  "split_on d s =
     (case dropWhile (\<lambda>c. c \<noteq> d) s of [] \<Rightarrow> [s]
      | _ # r \<Rightarrow> takeWhile (\<lambda>c. c \<noteq> d) s # split_on d r)"
proof (induction s)
  case (Cons c s)
  show ?case
  proof (cases "c = d")
    case False
    then show ?thesis using Cons.IH
      by (cases "dropWhile (\<lambda>c. c \<noteq> d) s") simp_all
  qed simp
qed simp

lemma split_on_no_sep: "d \<notin> set s \<Longrightarrow> split_on d s = [s]"
  by (induction s) auto

lemma split_on_append_sep:
  "split_on d (s @ d # t) = split_on d s @ split_on d t"
  by (induction s) auto

lemma split_on_fields: "f \<in> set (split_on d s) \<Longrightarrow> d \<notin> set f \<and> set f \<subseteq> set s"
proof (induction s arbitrary: f)
  case (Cons c s)
  then show ?case
    by (cases "split_on d s") (fastforce split: if_splits)+
qed simp

lemma hd_split_on: "hd (split_on d s) = takeWhile (\<lambda>c. c \<noteq> d) s"
  by (induction s) auto

text \<open>Joining the fields again gives the string, so splitting is injective.\<close>

fun join_with :: "char \<Rightarrow> bytes list \<Rightarrow> bytes" where
  "join_with d [] = []"
| "join_with d [f] = f"
| "join_with d (f # fs) = f @ d # join_with d fs"

lemma join_with_Cons: "fs \<noteq> [] \<Longrightarrow> join_with d (f # fs) = f @ d # join_with d fs"
  by (cases fs) auto

lemma join_split_on [simp]: "join_with d (split_on d s) = s"
proof (induction s)
  case (Cons c s)
  then show ?case
    by (cases "split_on d s"; cases "tl (split_on d s)") (auto simp: join_with_Cons)
qed simp

lemma split_on_inj: "split_on d s = split_on d t \<longleftrightarrow> s = t"
  by (metis join_split_on)

section \<open>Decimal digits\<close>

definition is_digit :: "char \<Rightarrow> bool" where
  "is_digit c \<longleftrightarrow> 48 \<le> byte_val c \<and> byte_val c \<le> 57"

definition digit_val :: "char \<Rightarrow> nat" where
  "digit_val c = byte_val c - 48"

definition digit_char :: "nat \<Rightarrow> char" where
  "digit_char d = char_of (48 + d)"

lemma byte_val_lt [simp]: "byte_val c < 256"
  by (simp add: byte_val_def)

lemma byte_val_inj: "byte_val c = byte_val d \<longleftrightarrow> c = d"
  by (simp add: byte_val_def)

lemma byte_val_char_of [simp]: "n < 256 \<Longrightarrow> byte_val (char_of n) = n"
  by (simp add: byte_val_def)

lemma digit_char_props [simp]:
  "d < 10 \<Longrightarrow> is_digit (digit_char d)" "d < 10 \<Longrightarrow> digit_val (digit_char d) = d"
  by (simp_all add: is_digit_def digit_val_def digit_char_def)

lemma digit_val_lt: "is_digit c \<Longrightarrow> digit_val c < 10"
  by (auto simp: is_digit_def digit_val_def)

lemma digit_char_digit_val: "is_digit c \<Longrightarrow> digit_char (digit_val c) = c"
  by (simp add: is_digit_def digit_val_def digit_char_def byte_val_def)

text \<open>The value of a digit string, most significant digit first, and its inverse.\<close>

definition dec_value :: "bytes \<Rightarrow> nat" where
  "dec_value s = foldl (\<lambda>v c. v * 10 + digit_val c) 0 s"

fun dec_digits :: "nat \<Rightarrow> bytes" where
  "dec_digits n = (if n < 10 then [digit_char n] else dec_digits (n div 10) @ [digit_char (n mod 10)])"

declare dec_digits.simps [simp del]

lemma dec_value_Nil [simp]: "dec_value [] = 0"
  by (simp add: dec_value_def)

lemma dec_value_snoc [simp]: "dec_value (s @ [c]) = dec_value s * 10 + digit_val c"
  by (simp add: dec_value_def)

lemma dec_digits_value: "dec_value (dec_digits n) = n"
proof (induction n rule: dec_digits.induct)
  case (1 n)
  then show ?case
    by (subst dec_digits.simps) (auto simp: dec_value_def)
qed

lemma dec_digits_digits: "c \<in> set (dec_digits n) \<Longrightarrow> is_digit c"
proof (induction n rule: dec_digits.induct)
  case (1 n)
  then show ?case
    by (subst (asm) (2) dec_digits.simps) (auto split: if_splits)
qed

lemma dec_digits_not_Nil [simp]: "dec_digits n \<noteq> []"
  by (subst dec_digits.simps) simp

named_theorems mb_defs "definitions of the model, unfolded by the functional lemmas"
named_theorems mb_inv "preservation of the invariants"

section \<open>Rings\<close>

text \<open>Different positions of a ring are different cells.\<close>

lemma ring_cells_distinct:
  fixes i j s n :: nat
  assumes "i < n" "j < n" "(s + i) mod n = (s + j) mod n"
  shows "i = j"
proof (rule ccontr)
  assume "i \<noteq> j"
  have "\<exists>k. s + i = s + j + n * k \<or> s + j = s + i + n * k" using assms(3) by (metis mod_eq_nat1E mod_eq_nat2E linear)
  then obtain k where "i = j + n * k \<or> j = i + n * k" by auto
  then show False using assms(1,2) \<open>i \<noteq> j\<close> by (cases k) auto
qed

section \<open>State machines\<close>

text \<open>What two threads over a shared state promise: every step of either keeps the invariant.\<close>

locale state_machine =
  fixes step :: "'s \<Rightarrow> 's \<Rightarrow> bool" and inv :: "'s \<Rightarrow> bool"
  assumes step_inv: "step s s' \<Longrightarrow> inv s \<Longrightarrow> inv s'"
begin

lemma reachable_inv: "step\<^sup>*\<^sup>* s s' \<Longrightarrow> inv s \<Longrightarrow> inv s'"
  by (induction rule: rtranclp_induct) (auto intro: step_inv)

end

lemma two_steps: "step s t \<Longrightarrow> step t u \<Longrightarrow> step\<^sup>*\<^sup>* s u"
  by (meson converse_rtranclp_into_rtranclp rtranclp.rtrancl_refl)

end
