(* ===== verification/Array_Buf.thy ===== *)
theory Array_Buf
  imports Prelude
begin

text \<open>
  The growable storage of \<open>src/src/array.c\<close> and \<open>src/src/buf.c\<close>. A growable array
  is the list of its live elements together with the capacity the source keeps beside it;
  a byte buffer likewise. Reserving returns the new capacity or the out-of-memory failure.
\<close>

section \<open>Capacity growth\<close>

text \<open>
  The doubling loop shared by \<open>mb_array_reserve\<close> and \<open>mb_buf_reserve\<close>. Both enter
  it with a positive \<open>nxt\<close>; the first test only makes the function total at 0, where
  the C loop would not end.
\<close>

function grow_cap :: "nat \<Rightarrow> nat \<Rightarrow> nat" where
  "grow_cap nxt need =
     (if nxt = 0 \<or> need \<le> nxt then nxt
      else if SIZE_MAX div 2 < nxt then need
      else grow_cap (nxt * 2) need)"
  by pat_completeness auto
termination
  by (relation "measure (\<lambda>(nxt, need). need - nxt)") auto

declare grow_cap.simps [simp del]

definition mb_array_reserve :: "allocator \<Rightarrow> nat \<Rightarrow> nat \<Rightarrow> nat \<Rightarrow> nat \<Rightarrow> nat option" where
  "mb_array_reserve am cap needed elem_size initial_cap =
     (if elem_size = 0 then None
      else if needed \<le> cap then Some cap
      else let start = (if cap = 0 then initial_cap else cap);
               start = (if start = 0 then 1 else start);
               nxt = grow_cap start needed
           in if SIZE_MAX div elem_size < nxt then None
              else if am (nxt * elem_size) then Some nxt else None)"

section \<open>Byte buffers\<close>

text \<open>\<open>buf_data\<close> is the initialised part \<open>ptr[0..len)\<close>; \<open>len\<close> is its length.\<close>

record mb_buf =
  buf_data :: bytes
  buf_cap :: nat

abbreviation buf_len :: "mb_buf \<Rightarrow> nat" where
  "buf_len b \<equiv> length (buf_data b)"

definition mb_buf_zero :: mb_buf where
  "mb_buf_zero = \<lparr>buf_data = [], buf_cap = 0\<rparr>"

definition mb_buf_reserve :: "allocator \<Rightarrow> mb_buf \<Rightarrow> nat \<Rightarrow> bool \<times> mb_buf" where
  "mb_buf_reserve am buf additional =
     (if SIZE_MAX - buf_len buf < additional then (False, buf)
      else let need = buf_len buf + additional
           in if need \<le> buf_cap buf then (True, buf)
              else let nxt = grow_cap (if buf_cap buf = 0 then 1024 else buf_cap buf) need
                   in if SIZE_MAX div 1 < nxt then (False, buf)
                      else if am (nxt * 1) then (True, buf\<lparr>buf_cap := nxt\<rparr>)
                      else (False, buf))"

text \<open>A source slice is a list, so the \<open>src == NULL\<close> test of a non-empty append never fires.\<close>

definition mb_buf_append :: "allocator \<Rightarrow> mb_buf \<Rightarrow> bytes \<Rightarrow> bool \<times> mb_buf" where
  "mb_buf_append am buf src =
     (if length src = 0 then (True, buf)
      else case mb_buf_reserve am buf (length src) of
             (False, b) \<Rightarrow> (False, b)
           | (True, b) \<Rightarrow> (True, b\<lparr>buf_data := buf_data b @ src\<rparr>))"

definition mb_buf_append_byte :: "allocator \<Rightarrow> mb_buf \<Rightarrow> char \<Rightarrow> bool \<times> mb_buf" where
  "mb_buf_append_byte am buf byte =
     (case mb_buf_reserve am buf 1 of
        (False, b) \<Rightarrow> (False, b)
      | (True, b) \<Rightarrow> (True, b\<lparr>buf_data := buf_data b @ [byte]\<rparr>))"

definition mb_buf_consume :: "mb_buf \<Rightarrow> nat \<Rightarrow> mb_buf" where
  "mb_buf_consume buf n =
     (if buf_len buf \<le> n then buf\<lparr>buf_data := []\<rparr>
      else buf\<lparr>buf_data := drop n (buf_data buf)\<rparr>)"

definition mb_buf_clear :: "mb_buf \<Rightarrow> mb_buf" where
  "mb_buf_clear buf = buf\<lparr>buf_data := []\<rparr>"

definition mb_buf_free :: "mb_buf \<Rightarrow> mb_buf" where
  "mb_buf_free buf = mb_buf_zero"

definition mb_buf_swap :: "mb_buf \<Rightarrow> mb_buf \<Rightarrow> mb_buf \<times> mb_buf" where
  "mb_buf_swap a b = (b, a)"

section \<open>Growth reaches the request\<close>

lemma grow_cap_ge: "0 < nxt \<Longrightarrow> need \<le> grow_cap nxt need"
proof (induction nxt need rule: grow_cap.induct)
  case (1 nxt need)
  then show ?case by (subst grow_cap.simps) auto
qed

lemma grow_cap_le:
  "0 < nxt \<Longrightarrow> need \<le> SIZE_MAX \<Longrightarrow> nxt \<le> SIZE_MAX \<Longrightarrow> grow_cap nxt need \<le> SIZE_MAX"
proof (induction nxt need rule: grow_cap.induct)
  case (1 nxt need)
  show ?case
  proof (cases "nxt < need \<and> nxt \<le> SIZE_MAX div 2")
    case True
    then have "nxt * 2 \<le> SIZE_MAX" by linarith
    with 1 True have "grow_cap (nxt * 2) need \<le> SIZE_MAX" by auto
    with True show ?thesis by (subst grow_cap.simps) auto
  next
    case False
    with 1(2-) show ?thesis by (subst grow_cap.simps) auto
  qed
qed

text \<open>Capacity at most doubles past the request.\<close>

lemma grow_cap_lt_double:
  "0 < nxt \<Longrightarrow> nxt < need \<Longrightarrow> grow_cap nxt need < 2 * need"
proof (induction nxt need rule: grow_cap.induct)
  case (1 nxt need)
  show ?case
  proof (cases "SIZE_MAX div 2 < nxt")
    case True
    with "1.prems" show ?thesis by (subst grow_cap.simps) simp
  next
    case False
    show ?thesis
    proof (cases "nxt * 2 < need")
      case True
      with 1 False have "grow_cap (nxt * 2) need < 2 * need" by simp
      with False "1.prems" show ?thesis by (subst grow_cap.simps) simp
    next
      case ge: False
      then have "grow_cap (nxt * 2) need = nxt * 2" by (subst grow_cap.simps) simp
      with False "1.prems" ge show ?thesis by (subst grow_cap.simps) simp
    qed
  qed
qed

lemma mb_array_reserve_ge: "mb_array_reserve am cap needed es ic = Some c \<Longrightarrow> needed \<le> c"
  by (auto simp: mb_array_reserve_def Let_def intro: grow_cap_ge split: if_splits)

lemma mb_array_reserve_mono: "mb_array_reserve am cap needed es ic = Some c \<Longrightarrow> cap \<le> c"
  using mb_array_reserve_ge [of am cap needed es ic c]
  by (cases "needed \<le> cap") (auto simp: mb_array_reserve_def split: if_splits)

lemma mb_array_reserve_fits [simp]:
  "0 < es \<Longrightarrow> needed \<le> cap \<Longrightarrow> mb_array_reserve am cap needed es ic = Some cap"
  by (simp add: mb_array_reserve_def)

lemma mb_array_reserve_bytes:
  "mb_array_reserve am cap needed es ic = Some c \<Longrightarrow> cap < needed \<Longrightarrow> c * es \<le> SIZE_MAX"
  by (auto simp: mb_array_reserve_def Let_def not_less less_eq_div_iff_mult_less_eq split: if_splits)

lemma array_reserve_with_memory:
  assumes "needed \<le> 2 ^ 48" "es \<le> 1024" "0 < es" "ic \<le> 64"
  obtains c where "mb_array_reserve (\<lambda>_. True) cap needed es ic = Some c"
proof (cases "needed \<le> cap")
  case True
  then show thesis using that assms(3) by simp
next
  case False
  let ?start = "max 1 (if cap = 0 then ic else cap)"
  have start: "(if (if cap = 0 then ic else cap) = 0 then 1 else (if cap = 0 then ic else cap)) = ?start" by simp
  have pos: "0 < ?start" by (simp add: less_max_iff_disj)
  have "grow_cap ?start needed \<le> max 64 (2 * needed)"
  proof (cases "?start < needed")
    case True
    then show ?thesis using grow_cap_lt_double [OF pos True] by linarith
  next
    case ge: False
    then have "grow_cap ?start needed = ?start" unfolding grow_cap.simps [of ?start needed] by (simp only: not_less simp_thms if_True)
    then show ?thesis using False assms(4) ge by auto
  qed
  then have "grow_cap ?start needed * es \<le> 2 ^ 49 * 1024" using assms(1,2) by (intro mult_le_mono) auto
  then have "grow_cap ?start needed \<le> SIZE_MAX div es" using assms(3) by (simp add: less_eq_div_iff_mult_less_eq SIZE_MAX_value)
  then show thesis using that False assms(3) start by (simp add: mb_array_reserve_def Let_def not_less [symmetric])
qed

section \<open>Buffer contents\<close>

definition buf_wf :: "mb_buf \<Rightarrow> bool" where
  "buf_wf b \<longleftrightarrow> buf_len b \<le> buf_cap b \<and> buf_cap b \<le> SIZE_MAX"

lemma mb_buf_reserve_data [simp]: "buf_data (snd (mb_buf_reserve am b n)) = buf_data b"
  by (simp add: mb_buf_reserve_def Let_def)

lemma mb_buf_reserve_cap:
  "fst (mb_buf_reserve am b n) \<Longrightarrow> buf_len b + n \<le> buf_cap (snd (mb_buf_reserve am b n))"
  by (auto simp: mb_buf_reserve_def Let_def intro: grow_cap_ge split: if_splits)

lemma mb_buf_reserve_cap_mono: "buf_cap b \<le> buf_cap (snd (mb_buf_reserve am b n))"
  using grow_cap_ge [of "if buf_cap b = 0 then 1024 else buf_cap b" "buf_len b + n"]
  by (auto simp: mb_buf_reserve_def Let_def)

lemma mb_buf_reserve_wf [mb_inv]: "buf_wf b \<Longrightarrow> buf_wf (snd (mb_buf_reserve am b n))"
proof -
  assume wf: "buf_wf b"
  have "0 < k \<Longrightarrow> k \<le> SIZE_MAX \<Longrightarrow> n \<le> SIZE_MAX - buf_len b \<Longrightarrow>
      buf_len b \<le> grow_cap k (buf_len b + n) \<and> grow_cap k (buf_len b + n) \<le> SIZE_MAX" for k
    using grow_cap_ge [of k "buf_len b + n"] grow_cap_le [of k "buf_len b + n"] wf
    by (auto simp: buf_wf_def)
  moreover have "1024 \<le> SIZE_MAX" by (simp add: SIZE_MAX_def)
  ultimately show ?thesis using wf
    by (auto simp: mb_buf_reserve_def Let_def buf_wf_def not_less split: if_splits)
qed

lemma mb_buf_append_data:
  "buf_data (snd (mb_buf_append am b s)) =
     (if fst (mb_buf_append am b s) then buf_data b @ s else buf_data b)"
  using mb_buf_reserve_data [of am b "length s"]
  by (auto simp: mb_buf_append_def simp del: mb_buf_reserve_data split: prod.splits bool.splits)

lemma mb_buf_append_byte_eq: "mb_buf_append_byte am b c = mb_buf_append am b [c]"
  by (simp add: mb_buf_append_byte_def mb_buf_append_def)

lemma mb_buf_append_True:
  "mb_buf_append am b s = (True, b') \<Longrightarrow> buf_data b' = buf_data b @ s"
  by (metis fst_conv mb_buf_append_data snd_conv)

lemma mb_buf_append_wf [mb_inv]: "buf_wf b \<Longrightarrow> buf_wf (snd (mb_buf_append am b s))"
proof -
  assume wf: "buf_wf b"
  show ?thesis
  proof (cases "mb_buf_reserve am b (length s)")
    case (Pair ok b')
    with wf mb_buf_reserve_wf [OF wf, of am "length s"]
      mb_buf_reserve_cap [of am b "length s"] mb_buf_reserve_data [of am b "length s"]
    show ?thesis by (cases ok) (auto simp: mb_buf_append_def buf_wf_def)
  qed
qed

text \<open>Once reserved, the appends of a frame do not allocate.\<close>

lemma mb_buf_append_reserved:
  "buf_wf b \<Longrightarrow> buf_len b + length s \<le> buf_cap b \<Longrightarrow>
   mb_buf_append am b s = (True, b\<lparr>buf_data := buf_data b @ s\<rparr>)"
  by (auto simp: mb_buf_append_def mb_buf_reserve_def buf_wf_def Let_def)

lemma mb_buf_consume_data: "buf_data (mb_buf_consume b n) = drop n (buf_data b)"
  by (simp add: mb_buf_consume_def)

lemma mb_buf_consume_wf [mb_inv]: "buf_wf b \<Longrightarrow> buf_wf (mb_buf_consume b n)"
  by (auto simp: mb_buf_consume_def buf_wf_def)

text \<open>With memory at hand an append that fits in the address space succeeds.\<close>

lemma buf_append_with_memory:
  assumes "buf_wf b" "length s \<le> SIZE_MAX - buf_len b"
  obtains b' where "mb_buf_append (\<lambda>_. True) b s = (True, b')" "buf_data b' = buf_data b @ s"
proof -
  have "grow_cap (if buf_cap b = 0 then 1024 else buf_cap b) (buf_len b + length s) \<le> SIZE_MAX"
    using assms by (intro grow_cap_le) (auto simp: buf_wf_def SIZE_MAX_value)
  then have "fst (mb_buf_reserve (\<lambda>_. True) b (length s))"
    using assms(2) by (simp add: mb_buf_reserve_def Let_def not_less)
  then obtain b1 where "mb_buf_reserve (\<lambda>_. True) b (length s) = (True, b1)" by (metis prod.collapse)
  then obtain b' where "mb_buf_append (\<lambda>_. True) b s = (True, b')"
    by (cases "s = []") (simp_all add: mb_buf_append_def)
  then show thesis using that mb_buf_append_True by blast
qed

end
