(* ===== verification/Slice.thy ===== *)
theory Slice
  imports Prelude
begin

text \<open>
  Byte slices (\<open>src/src/slice.c\<close>): equality, prefix test, duplication into owned memory
  and the FNV-1a hash that keys the router's and the evaluator's hash indexes.
\<close>

unbundle bit_operations_syntax

definition mb_slice_eq :: "bytes \<Rightarrow> bytes \<Rightarrow> bool" where
  "mb_slice_eq a b \<longleftrightarrow> length a = length b \<and> take (length a) a = take (length a) b"

definition mb_slice_has_prefix :: "bytes \<Rightarrow> bytes \<Rightarrow> bool" where
  "mb_slice_has_prefix s p \<longleftrightarrow> length p \<le> length s \<and> take (length p) s = p"

text \<open>The duplicate lives in a fresh allocation of at least one byte.\<close>

definition mb_slice_dup :: "allocator \<Rightarrow> bytes \<Rightarrow> bytes option" where
  "mb_slice_dup am s = (if am (if length s = 0 then 1 else length s) then Some s else None)"

definition fnv_step :: "u64 \<Rightarrow> char \<Rightarrow> u64" where
  "fnv_step h c = (h XOR word_of_nat (byte_val c)) * 1099511628211"

definition mb_slice_hash :: "bytes \<Rightarrow> u64" where
  "mb_slice_hash s = foldl fnv_step 1469598103934665603 s"

lemma mb_slice_eq_iff [simp]: "mb_slice_eq a b \<longleftrightarrow> a = b"
  by (auto simp: mb_slice_eq_def)

lemma mb_slice_has_prefix_iff: "mb_slice_has_prefix s p \<longleftrightarrow> prefix p s"
  by (auto simp: mb_slice_has_prefix_def prefix_def)
     (metis append_take_drop_id)

lemma mb_slice_has_prefix_append: "mb_slice_has_prefix (p @ s) p"
  by (simp add: mb_slice_has_prefix_iff)

lemma mb_slice_dup_Some: "mb_slice_dup am s = Some t \<Longrightarrow> t = s"
  by (simp add: mb_slice_dup_def split: if_splits)

end
