(* ===== verification/Proto.thy ===== *)
theory Proto
  imports Array_Buf Slice
begin

text \<open>
  The client protocol of \<open>src/src/proto.c\<close>: tokens, subjects, decimal sizes and the
  parser \<open>mb_parse_client_op\<close> for one operation at the front of the receive buffer.
\<close>

section \<open>Limits, statuses and operations\<close>

definition MB_MAX_CONTROL_LINE :: nat where
  "MB_MAX_CONTROL_LINE = 4096"

definition MB_MAX_PAYLOAD :: nat where
  "MB_MAX_PAYLOAD = 1024 * 1024"

datatype mb_parse_status =
    MB_PARSE_OK
  | MB_PARSE_NEED_MORE
  | MB_PARSE_MALFORMED
  | MB_PARSE_UNKNOWN
  | MB_PARSE_INVALID_ARGS
  | MB_PARSE_PAYLOAD_TOO_LARGE
  | MB_PARSE_CONTROL_LINE_TOO_LONG

datatype mb_op_kind = MB_OP_CONNECT | MB_OP_PING | MB_OP_SUB | MB_OP_UNSUB | MB_OP_PUB

record mb_op =
  op_kind :: mb_op_kind
  op_connect :: bytes
  op_subject :: bytes
  op_reply_to :: bytes
  op_queue :: bytes
  op_sid :: bytes
  op_payload :: bytes
  op_max_msgs :: nat
  op_has_max_msgs :: bool

text \<open>A zero-initialised \<open>mb_op\<close>; the first enumerator is the zero kind.\<close>

definition mb_op_zero :: mb_op where
  "mb_op_zero = \<lparr>op_kind = MB_OP_CONNECT, op_connect = [], op_subject = [], op_reply_to = [],
     op_queue = [], op_sid = [], op_payload = [], op_max_msgs = 0, op_has_max_msgs = False\<rparr>"

record mb_parse_result =
  pr_status :: mb_parse_status
  pr_op :: mb_op
  pr_consumed :: nat

definition parse_fail :: "mb_parse_status \<Rightarrow> mb_parse_result" where
  "parse_fail st = \<lparr>pr_status = st, pr_op = mb_op_zero, pr_consumed = 0\<rparr>"

definition parse_ok :: "mb_op \<Rightarrow> nat \<Rightarrow> mb_parse_result" where
  "parse_ok op n = \<lparr>pr_status = MB_PARSE_OK, pr_op = op, pr_consumed = n\<rparr>"

section \<open>Tokens\<close>

definition toupper :: "char \<Rightarrow> char" where
  "toupper c = (if 97 \<le> byte_val c \<and> byte_val c \<le> 122 then char_of (byte_val c - 32) else c)"

definition eq_upper :: "bytes \<Rightarrow> bytes \<Rightarrow> bool" where
  "eq_upper s lit \<longleftrightarrow> length s = length lit \<and> list_all2 (\<lambda>a b. toupper a = b) s lit"

definition TAB :: char where "TAB = CHR 0x09"
definition LF :: char where "LF = CHR 0x0A"
definition CR :: char where "CR = CHR 0x0D"

definition is_space :: "char \<Rightarrow> bool" where
  "is_space c \<longleftrightarrow> c = CHR '' '' \<or> c = TAB"

definition trim_spaces :: "bytes \<Rightarrow> bytes" where
  "trim_spaces s = rev (dropWhile is_space (rev (dropWhile is_space s)))"

text \<open>\<open>next_token rest\<close> is the token, if there is one, and the updated \<open>rest\<close>.\<close>

definition next_token :: "bytes \<Rightarrow> bytes option \<times> bytes" where
  "next_token rest =
     (let rest = trim_spaces rest
      in if length rest = 0 then (None, rest)
         else (Some (takeWhile (\<lambda>c. \<not> is_space c) rest), dropWhile (\<lambda>c. \<not> is_space c) rest))"

definition mb_proto_token_valid :: "bytes \<Rightarrow> bool" where
  "mb_proto_token_valid token \<longleftrightarrow>
     length token \<noteq> 0 \<and> list_all (\<lambda>c. \<not> (byte_val c \<le> 32 \<or> byte_val c = 127)) token"

section \<open>Subjects\<close>

text \<open>The loop over the dot-separated tokens, from the token that starts the argument.\<close>

function subject_tokens_valid :: "bool \<Rightarrow> bytes \<Rightarrow> bool" where
  "subject_tokens_valid allow s =
     (let tok = takeWhile (\<lambda>c. c \<noteq> CHR ''.'') s; rest = dropWhile (\<lambda>c. c \<noteq> CHR ''.'') s
      in if length tok = 0 then False
         else let star = (tok = ''*''); tail = (tok = ''>'')
              in if (star \<or> tail) \<and> (\<not> allow \<or> (tail \<and> rest \<noteq> [])) then False
                 else if \<not> (star \<or> tail) \<and> (CHR ''*'' \<in> set tok \<or> CHR ''>'' \<in> set tok) then False
                 else if rest = [] then True
                 else subject_tokens_valid allow (tl rest))"
  by pat_completeness auto
termination
proof (relation "measure (length \<circ> snd)", goal_cases)
  case (2 allow s tok rest star tail)
  then have "length rest \<le> length s" "rest \<noteq> []"
    using length_dropWhile_le by auto
  then show ?case by (cases rest) auto
qed simp

declare subject_tokens_valid.simps [simp del]

definition mb_proto_subject_valid :: "bytes \<Rightarrow> bool \<Rightarrow> bool" where
  "mb_proto_subject_valid subject allow_wildcards \<longleftrightarrow>
     (if length subject = 0 \<or> \<not> mb_proto_token_valid subject then False
      else subject_tokens_valid allow_wildcards subject)"

section \<open>Decimal sizes\<close>

fun parse_usize_loop :: "nat \<Rightarrow> bytes \<Rightarrow> nat option" where
  "parse_usize_loop v [] = Some v"
| "parse_usize_loop v (c # cs) =
     (if \<not> is_digit c then None
      else let digit = digit_val c
           in if (SIZE_MAX - digit) div 10 < v then None
              else parse_usize_loop (v * 10 + digit) cs)"

definition parse_usize :: "bytes \<Rightarrow> nat option" where
  "parse_usize s = (if length s = 0 then None else parse_usize_loop 0 s)"

section \<open>Operations\<close>

definition parse_sub :: "bytes \<Rightarrow> nat \<Rightarrow> mb_parse_result" where
  "parse_sub rest consumed =
     (case next_token rest of
        (None, _) \<Rightarrow> parse_fail MB_PARSE_INVALID_ARGS
      | (Some subject, rest) \<Rightarrow>
     (case next_token rest of
        (None, _) \<Rightarrow> parse_fail MB_PARSE_INVALID_ARGS
      | (Some second, rest) \<Rightarrow>
        let third = next_token rest
        in if fst third \<noteq> None \<and> fst (next_token (snd third)) \<noteq> None
           then parse_fail MB_PARSE_INVALID_ARGS
           else let (queue, sid) = (case fst third of Some t \<Rightarrow> (second, t) | None \<Rightarrow> ([], second))
                in if \<not> mb_proto_subject_valid subject True \<or> \<not> mb_proto_token_valid sid
                      \<or> (length queue \<noteq> 0 \<and> \<not> mb_proto_token_valid queue)
                   then parse_fail MB_PARSE_INVALID_ARGS
                   else parse_ok (mb_op_zero\<lparr>op_kind := MB_OP_SUB, op_subject := subject,
                                   op_queue := queue, op_sid := sid\<rparr>) consumed))"

definition parse_unsub :: "bytes \<Rightarrow> nat \<Rightarrow> mb_parse_result" where
  "parse_unsub rest consumed =
     (case next_token rest of
        (None, _) \<Rightarrow> parse_fail MB_PARSE_INVALID_ARGS
      | (Some sid, rest) \<Rightarrow>
        if \<not> mb_proto_token_valid sid then parse_fail MB_PARSE_INVALID_ARGS
        else
          let op = mb_op_zero\<lparr>op_kind := MB_OP_UNSUB, op_sid := sid\<rparr>
          in case next_token rest of
               (None, rest) \<Rightarrow>
                 (if fst (next_token rest) \<noteq> None then parse_fail MB_PARSE_INVALID_ARGS
                  else parse_ok op consumed)
             | (Some max_msgs, rest) \<Rightarrow>
                 (case parse_usize max_msgs of
                    None \<Rightarrow> parse_fail MB_PARSE_INVALID_ARGS
                  | Some n \<Rightarrow>
                      if fst (next_token rest) \<noteq> None then parse_fail MB_PARSE_INVALID_ARGS
                      else parse_ok (op\<lparr>op_max_msgs := n, op_has_max_msgs := True\<rparr>) consumed))"

text \<open>The trailer after the payload: \<open>\n\<close> or \<open>\r\n\<close>. \<open>tail\<close> is not empty.\<close>

definition pub_trailer :: "bytes \<Rightarrow> mb_parse_status + nat" where
  "pub_trailer tail =
     (if hd tail = LF then Inr 1
      else if hd tail = CR then
        (if length tail < 2 then Inl MB_PARSE_NEED_MORE
         else if tail ! 1 \<noteq> LF then Inl MB_PARSE_MALFORMED
         else Inr 2)
      else Inl MB_PARSE_MALFORMED)"

definition parse_pub :: "bytes \<Rightarrow> bytes \<Rightarrow> nat \<Rightarrow> mb_parse_result" where
  "parse_pub buf rest line_end =
     (case next_token rest of
        (None, _) \<Rightarrow> parse_fail MB_PARSE_INVALID_ARGS
      | (Some subject, rest) \<Rightarrow>
     (case next_token rest of
        (None, _) \<Rightarrow> parse_fail MB_PARSE_INVALID_ARGS
      | (Some second, rest) \<Rightarrow>
        let third = next_token rest
        in if fst third \<noteq> None \<and> fst (next_token (snd third)) \<noteq> None
           then parse_fail MB_PARSE_INVALID_ARGS
           else let (reply_to, bytes_str) =
                  (case fst third of Some t \<Rightarrow> (second, t) | None \<Rightarrow> ([], second))
           in case parse_usize bytes_str of
                None \<Rightarrow> parse_fail MB_PARSE_INVALID_ARGS
              | Some payload_len \<Rightarrow>
                  if \<not> mb_proto_subject_valid subject False then parse_fail MB_PARSE_INVALID_ARGS
                  else if length reply_to \<noteq> 0 \<and> \<not> mb_proto_subject_valid reply_to False
                  then parse_fail MB_PARSE_INVALID_ARGS
                  else if MB_MAX_PAYLOAD < payload_len then parse_fail MB_PARSE_PAYLOAD_TOO_LARGE
                  else if length buf < line_end then parse_fail MB_PARSE_NEED_MORE
                  else if length buf - line_end \<le> payload_len then parse_fail MB_PARSE_NEED_MORE
                  else let payload = take payload_len (drop line_end buf);
                           tail = drop payload_len (drop line_end buf)
                  in case pub_trailer tail of
                       Inl st \<Rightarrow> parse_fail st
                     | Inr trailer_len \<Rightarrow>
                         if SIZE_MAX - line_end < payload_len
                            \<or> SIZE_MAX - line_end - payload_len < trailer_len
                         then parse_fail MB_PARSE_PAYLOAD_TOO_LARGE
                         else parse_ok (mb_op_zero\<lparr>op_kind := MB_OP_PUB, op_subject := subject,
                                op_reply_to := reply_to, op_payload := payload\<rparr>)
                                (line_end + payload_len + trailer_len)))"

text \<open>The dispatch on the verb of a complete control line.\<close>

definition parse_line :: "bytes \<Rightarrow> bytes \<Rightarrow> nat \<Rightarrow> mb_parse_result" where
  "parse_line buf line line_end =
     (if length line = 0 then parse_fail MB_PARSE_MALFORMED
      else case next_token line of
        (None, _) \<Rightarrow> parse_fail MB_PARSE_MALFORMED
      | (Some verb, rest) \<Rightarrow>
          if eq_upper verb ''PING'' then
            (if length (trim_spaces rest) \<noteq> 0 then parse_fail MB_PARSE_INVALID_ARGS
             else parse_ok (mb_op_zero\<lparr>op_kind := MB_OP_PING\<rparr>) line_end)
          else if eq_upper verb ''CONNECT'' then
            parse_ok (mb_op_zero\<lparr>op_kind := MB_OP_CONNECT, op_connect := trim_spaces rest\<rparr>) line_end
          else if eq_upper verb ''SUB'' then parse_sub rest line_end
          else if eq_upper verb ''UNSUB'' then parse_unsub rest line_end
          else if eq_upper verb ''PUB'' then parse_pub buf rest line_end
          else parse_fail MB_PARSE_UNKNOWN)"

definition strip_cr :: "bytes \<Rightarrow> bytes" where
  "strip_cr s = (if s \<noteq> [] \<and> last s = CR then butlast s else s)"

definition mb_parse_client_op :: "bytes \<Rightarrow> mb_parse_result" where
  "mb_parse_client_op buf =
     (let nl = length (takeWhile (\<lambda>c. c \<noteq> LF) buf)
      in if nl = length buf then
           (if MB_MAX_CONTROL_LINE < length buf then parse_fail MB_PARSE_CONTROL_LINE_TOO_LONG
            else parse_fail MB_PARSE_NEED_MORE)
         else if MB_MAX_CONTROL_LINE < nl then parse_fail MB_PARSE_CONTROL_LINE_TOO_LONG
         else parse_line buf (trim_spaces (strip_cr (take nl buf))) (nl + 1))"

end
