(* ===== verification/Proto_Correct.thy ===== *)
theory Proto_Correct
  imports Proto
begin

text \<open>
  Correctness of the protocol parser: which subjects and sizes it accepts, that a frame
  written by a client is read back field by field, that its verdict does not depend on
  bytes that have not arrived yet, and the bounds it keeps on the receive buffer.
\<close>

section \<open>Subjects\<close>

text \<open>A token of a subject, where \<open>final\<close> marks the last one.\<close>

definition token_ok :: "bool \<Rightarrow> bool \<Rightarrow> bytes \<Rightarrow> bool" where
  "token_ok allow final t \<longleftrightarrow>
     t \<noteq> [] \<and>
     (if t = ''*'' then allow
      else if t = ''>'' then allow \<and> final
      else CHR ''*'' \<notin> set t \<and> CHR ''>'' \<notin> set t)"

fun tokens_ok :: "bool \<Rightarrow> bytes list \<Rightarrow> bool" where
  "tokens_ok allow [] = True"
| "tokens_ok allow (t # ts) \<longleftrightarrow> token_ok allow (ts = []) t \<and> tokens_ok allow ts"

abbreviation subject_tokens :: "bytes \<Rightarrow> bytes list" where
  "subject_tokens s \<equiv> split_on (CHR ''.'') s"

lemma subject_tokens_valid_step:
  "subject_tokens_valid allow s \<longleftrightarrow>
     (let tok = takeWhile (\<lambda>c. c \<noteq> CHR ''.'') s; rest = dropWhile (\<lambda>c. c \<noteq> CHR ''.'') s
      in token_ok allow (rest = []) tok \<and> (rest \<noteq> [] \<longrightarrow> subject_tokens_valid allow (tl rest)))"
proof -
  define tok where "tok = takeWhile (\<lambda>c. c \<noteq> CHR ''.'') s"
  define rest where "rest = dropWhile (\<lambda>c. c \<noteq> CHR ''.'') s"
  show ?thesis
    unfolding subject_tokens_valid.simps [of allow s] Let_def tok_def [symmetric] rest_def [symmetric]
      token_ok_def
    by (cases "tok = ''*''"; cases "tok = ''>''"; cases "rest = []") simp_all
qed

lemma subject_tokens_valid_iff: "subject_tokens_valid allow s \<longleftrightarrow> tokens_ok allow (subject_tokens s)"
proof (induction "length s" arbitrary: s rule: less_induct)
  case less
  let ?tok = "takeWhile (\<lambda>c. c \<noteq> CHR ''.'') s"
  let ?rest = "dropWhile (\<lambda>c. c \<noteq> CHR ''.'') s"
  show ?case
  proof (cases ?rest)
    case Nil
    then have "?tok = s" by (metis append_Nil2 takeWhile_dropWhile_id)
    moreover from Nil have "subject_tokens s = [s]" by (subst split_on_rec) simp
    ultimately show ?thesis using Nil by (simp add: subject_tokens_valid_step [of allow s])
  next
    case (Cons c r)
    then have "length r < length s"
      by (metis length_Cons length_dropWhile_le not_less not_less_eq_eq)
    then have "subject_tokens_valid allow r \<longleftrightarrow> tokens_ok allow (subject_tokens r)"
      by (rule less)
    moreover from Cons have "subject_tokens s = ?tok # subject_tokens r"
      by (subst split_on_rec) simp
    ultimately show ?thesis using Cons by (simp add: subject_tokens_valid_step [of allow s])
  qed
qed

lemma mb_proto_subject_valid_iff:
  "mb_proto_subject_valid s allow \<longleftrightarrow>
     mb_proto_token_valid s \<and> tokens_ok allow (subject_tokens s)"
  by (auto simp: mb_proto_subject_valid_def subject_tokens_valid_iff mb_proto_token_valid_def)

lemma tokens_ok_nth:
  "tokens_ok allow ts \<longleftrightarrow> (\<forall>i<length ts. token_ok allow (Suc i = length ts) (ts ! i))"
proof (induction ts)
  case (Cons t ts)
  then show ?case by (auto simp: nth_Cons' less_Suc_eq_0_disj)
qed simp

lemma token_ok_iff:
  "token_ok allow final t \<longleftrightarrow>
     t \<noteq> [] \<and>
     (CHR ''*'' \<notin> set t \<and> CHR ''>'' \<notin> set t
      \<or> allow \<and> t = ''*'' \<or> allow \<and> t = ''>'' \<and> final)"
  by (cases "t = ''*''"; cases "t = ''>''") (auto simp: token_ok_def)

lemma subject_valid_weaken: "mb_proto_subject_valid s False \<Longrightarrow> mb_proto_subject_valid s True"
proof -
  have "tokens_ok False ts \<Longrightarrow> tokens_ok True ts" for ts
    by (induction ts) (auto simp: token_ok_def)
  then show "mb_proto_subject_valid s False \<Longrightarrow> ?thesis"
    by (simp add: mb_proto_subject_valid_iff)
qed

lemma subject_valid_tokens_nonempty:
  "mb_proto_subject_valid s allow \<Longrightarrow> t \<in> set (subject_tokens s) \<Longrightarrow> t \<noteq> []"
  by (auto simp: mb_proto_subject_valid_iff tokens_ok_nth in_set_conv_nth token_ok_def)

lemma subject_valid_not_empty: "mb_proto_subject_valid s allow \<Longrightarrow> s \<noteq> []"
  by (auto simp: mb_proto_subject_valid_def)

section \<open>Sizes\<close>

lemma parse_usize_loop_iff:
  "v \<le> SIZE_MAX \<Longrightarrow>
   parse_usize_loop v s = Some n \<longleftrightarrow>
     list_all is_digit s \<and> foldl (\<lambda>v c. v * 10 + digit_val c) v s = n \<and> n \<le> SIZE_MAX"
proof (induction s arbitrary: v)
  case (Cons c s)
  have grow: "w \<le> foldl (\<lambda>v c. v * 10 + digit_val c) w s" for w
  proof (induction s arbitrary: w)
    case (Cons a s)
    have "w \<le> w * 10 + digit_val a" by simp
    also note Cons.IH
    finally show ?case by simp
  qed simp
  show ?case
  proof (cases "is_digit c")
    case True
    then have d: "digit_val c < 10" by (rule digit_val_lt)
    then have "digit_val c \<le> SIZE_MAX" by (simp add: SIZE_MAX_def)
    then have iff: "(SIZE_MAX - digit_val c) div 10 < v \<longleftrightarrow> SIZE_MAX < v * 10 + digit_val c"
      by (auto simp: div_less_iff_less_mult)
    show ?thesis
      using True iff Cons.IH [of "v * 10 + digit_val c"] grow [of "v * 10 + digit_val c"]
      by (auto simp: Let_def)
  qed simp
qed auto

lemma parse_usize_iff:
  "parse_usize s = Some n \<longleftrightarrow>
     s \<noteq> [] \<and> list_all is_digit s \<and> n = dec_value s \<and> n \<le> SIZE_MAX"
  by (auto simp: parse_usize_def parse_usize_loop_iff dec_value_def)

lemma parse_usize_dec_digits: "n \<le> SIZE_MAX \<Longrightarrow> parse_usize (dec_digits n) = Some n"
  by (simp add: parse_usize_iff dec_digits_value list_all_iff dec_digits_digits)

section \<open>Words of a control line\<close>

function line_words :: "bytes \<Rightarrow> bytes list" where
  "line_words s =
     (let s' = dropWhile is_space s
      in if s' = [] then [] else takeWhile (\<lambda>c. \<not> is_space c) s' #
           line_words (dropWhile (\<lambda>c. \<not> is_space c) s'))"
  by pat_completeness auto
termination
proof (relation "measure length", goal_cases)
  case (2 s s')
  then have "\<not> is_space (hd s')" using hd_dropWhile [of is_space s] by simp
  with 2(2) have "length (dropWhile (\<lambda>c. \<not> is_space c) s') < length s'"
    by (cases s') (simp_all add: le_imp_less_Suc length_dropWhile_le)
  also have "length s' \<le> length s" using 2 by (simp add: length_dropWhile_le)
  finally show ?case by simp
qed simp

declare line_words.simps [simp del]

lemma line_words_space [simp]: "is_space c \<Longrightarrow> line_words (c # s) = line_words s"
  by (subst (1 2) line_words.simps) simp

lemma line_words_Nil [simp]: "line_words [] = []"
  by (subst line_words.simps) simp

lemma line_words_spaces: "\<forall>c\<in>set s. is_space c \<Longrightarrow> line_words (s @ t) = line_words t"
  by (induction s) auto

lemma line_words_dropWhile [simp]: "line_words (dropWhile is_space s) = line_words s"
  by (subst (1 2) line_words.simps) simp

lemma line_words_append_space: "is_space c \<Longrightarrow> line_words (s @ [c]) = line_words s"
proof (induction s rule: line_words.induct)
  case (1 s)
  let ?s' = "dropWhile is_space s"
  show ?case
  proof (cases "?s' = []")
    case True
    then have "\<forall>x\<in>set (s @ [c]). is_space x" using 1(2) by (auto simp: dropWhile_eq_Nil_conv)
    then have "line_words ((s @ [c]) @ []) = []" by (subst line_words_spaces) auto
    moreover from True have "line_words s = []" by (subst line_words.simps) (simp del: dropWhile_eq_Nil_conv)
    ultimately show ?thesis by simp
  next
    case False
    then have sp: "dropWhile is_space (s @ [c]) = ?s' @ [c]"
      by (metis dropWhile_append1 dropWhile_eq_Nil_conv)
    let ?r = "dropWhile (\<lambda>c. \<not> is_space c) ?s'"
    have r: "takeWhile (\<lambda>c. \<not> is_space c) (?s' @ [c]) = takeWhile (\<lambda>c. \<not> is_space c) ?s'"
        "dropWhile (\<lambda>c. \<not> is_space c) (?s' @ [c]) = ?r @ [c]"
      using 1(2)
      by (auto simp: takeWhile_append dropWhile_append takeWhile_eq_all_conv [THEN iffD2] dropWhile_eq_Nil_conv)
    have "line_words (?r @ [c]) = line_words ?r" using 1 False by simp
    then show ?thesis
      by (subst (1 2) line_words.simps) (simp add: sp r False Let_def del: dropWhile_eq_Nil_conv)
  qed
qed

lemma line_words_rtrim: "line_words (rev (dropWhile is_space (rev s))) = line_words s"
proof (induction s rule: rev_induct)
  case (snoc c s)
  then show ?case by (cases "is_space c") (auto simp: line_words_append_space)
qed simp

lemma line_words_trim [simp]: "line_words (trim_spaces s) = line_words s"
  by (simp add: trim_spaces_def line_words_rtrim)

lemma trim_spaces_eq_Nil: "trim_spaces s = [] \<longleftrightarrow> line_words s = []"
proof -
  have "trim_spaces s = [] \<longleftrightarrow> (\<forall>c\<in>set (dropWhile is_space s). is_space c)"
    by (simp add: trim_spaces_def dropWhile_eq_Nil_conv)
  also have "\<dots> \<longleftrightarrow> dropWhile is_space s = []"
    by (metis dropWhile_eq_Nil_conv dropWhile_idem empty_iff empty_set)
  also have "\<dots> \<longleftrightarrow> line_words s = []"
    by (subst line_words.simps) (simp add: Let_def)
  finally show ?thesis .
qed

lemma trim_spaces_hd: "trim_spaces s \<noteq> [] \<Longrightarrow> \<not> is_space (hd (trim_spaces s))"
proof -
  assume ne: "trim_spaces s \<noteq> []"
  let ?d = "dropWhile is_space s"
  have pre: "prefix (trim_spaces s) ?d"
    unfolding trim_spaces_def by (metis suffix_dropWhile suffix_to_prefix rev_rev_ident)
  with ne have "hd (trim_spaces s) = hd ?d" "?d \<noteq> []"
    by (auto simp: prefix_def)
  then show ?thesis using hd_dropWhile [of is_space s] by simp
qed

lemma line_words_trimmed:
  assumes "trim_spaces s \<noteq> []"
  shows "line_words s = takeWhile (\<lambda>c. \<not> is_space c) (trim_spaces s) #
           line_words (dropWhile (\<lambda>c. \<not> is_space c) (trim_spaces s))"
proof -
  have "dropWhile is_space (trim_spaces s) = trim_spaces s"
    using trim_spaces_hd [OF assms] assms by (cases "trim_spaces s") auto
  then show ?thesis
    using assms line_words.simps [of "trim_spaces s"] by (simp add: Let_def)
qed

text \<open>\<open>next_token\<close> takes the words of the line one at a time.\<close>

lemma next_token_words:
  "fst (next_token s) = (case line_words s of [] \<Rightarrow> None | w # _ \<Rightarrow> Some w)"
  "line_words (snd (next_token s)) = tl (line_words s)"
proof -
  have *: "next_token s = (case line_words s of [] \<Rightarrow> None | w # _ \<Rightarrow> Some w, snd (next_token s))
      \<and> line_words (snd (next_token s)) = tl (line_words s)"
  proof (cases "trim_spaces s = []")
    case True
    then have "line_words s = []" by (simp add: trim_spaces_eq_Nil)
    with True show ?thesis by (simp add: next_token_def)
  next
    case False
    show ?thesis
      by (simp only: line_words_trimmed [OF False]) (simp add: next_token_def Let_def False)
  qed
  then show "fst (next_token s) = (case line_words s of [] \<Rightarrow> None | w # _ \<Rightarrow> Some w)"
    "line_words (snd (next_token s)) = tl (line_words s)"
    by (metis fst_conv, blast)
qed

lemma next_token_cases:
  obtains r where "line_words s = []" "next_token s = (None, r)" "line_words r = []"
  | w r where "line_words s = w # line_words r" "next_token s = (Some w, r)"
proof (cases "line_words s")
  case Nil
  with next_token_words [of s] that(1) show thesis by (metis list.case(1) list.sel(2) prod.collapse)
next
  case (Cons w ws)
  with next_token_words [of s] that(2) show thesis by (metis list.case(2) list.sel(3) prod.collapse)
qed

lemma line_words_word_end:
  "w \<noteq> [] \<Longrightarrow> \<forall>c\<in>set w. \<not> is_space c \<Longrightarrow> line_words w = [w]"
  by (cases w; subst line_words.simps)
     (auto simp: Let_def takeWhile_eq_all_conv [THEN iffD2] dropWhile_eq_Nil_conv [THEN iffD2])

lemma line_words_word:
  assumes "w \<noteq> []" "\<forall>c\<in>set w. \<not> is_space c" "is_space d"
  shows "line_words (w @ d # t) = w # line_words t"
proof -
  have "takeWhile (\<lambda>c. \<not> is_space c) (w @ d # t) = w"
    "dropWhile (\<lambda>c. \<not> is_space c) (w @ d # t) = d # t"
    using assms(2,3) by (simp_all add: takeWhile_append2 dropWhile_append2)
  moreover have "dropWhile is_space (w @ d # t) = w @ d # t"
    using assms(1,2) by (cases w) auto
  ultimately show ?thesis
    using assms(1,3) by (subst line_words.simps) (simp add: Let_def)
qed

section \<open>The operations by the words of their line\<close>

text \<open>What the argument loops of \<open>SUB\<close> and \<open>PUB\<close> make of the words.\<close>

fun two_or_three :: "bytes list \<Rightarrow> (bytes \<times> bytes \<times> bytes) option" where
  "two_or_three [s, b] = Some (s, [], b)"
| "two_or_three [s, a, b] = Some (s, a, b)"
| "two_or_three _ = None"

lemma parse_sub_words:
  "parse_sub rest n =
     (case two_or_three (line_words rest) of
        None \<Rightarrow> parse_fail MB_PARSE_INVALID_ARGS
      | Some (subject, queue, sid) \<Rightarrow>
          if \<not> mb_proto_subject_valid subject True \<or> \<not> mb_proto_token_valid sid
             \<or> (length queue \<noteq> 0 \<and> \<not> mb_proto_token_valid queue)
          then parse_fail MB_PARSE_INVALID_ARGS
          else parse_ok (mb_op_zero\<lparr>op_kind := MB_OP_SUB, op_subject := subject,
                 op_queue := queue, op_sid := sid\<rparr>) n)"
proof (cases rest rule: next_token_cases)
  case (2 w r)
  note first = this
  show ?thesis
  proof (cases r rule: next_token_cases)
    case (2 v r')
    note second = this
    show ?thesis
    proof (cases r' rule: next_token_cases)
      case (2 u r'')
      then show ?thesis
        by (cases r'' rule: next_token_cases) (use first second in \<open>auto simp: parse_sub_def\<close>)
    qed (use first second in \<open>auto simp: parse_sub_def\<close>)
  qed (use first in \<open>auto simp: parse_sub_def\<close>)
qed (auto simp: parse_sub_def)

lemma parse_unsub_words:
  "parse_unsub rest n =
     (case line_words rest of
        [sid] \<Rightarrow>
          if mb_proto_token_valid sid
          then parse_ok (mb_op_zero\<lparr>op_kind := MB_OP_UNSUB, op_sid := sid\<rparr>) n
          else parse_fail MB_PARSE_INVALID_ARGS
      | [sid, max_msgs] \<Rightarrow>
          (case parse_usize max_msgs of
             Some k \<Rightarrow>
               if mb_proto_token_valid sid
               then parse_ok (mb_op_zero\<lparr>op_kind := MB_OP_UNSUB, op_sid := sid,
                      op_max_msgs := k, op_has_max_msgs := True\<rparr>) n
               else parse_fail MB_PARSE_INVALID_ARGS
           | None \<Rightarrow> parse_fail MB_PARSE_INVALID_ARGS)
      | _ \<Rightarrow> parse_fail MB_PARSE_INVALID_ARGS)"
proof (cases rest rule: next_token_cases)
  case (2 w r)
  note first = this
  show ?thesis
  proof (cases r rule: next_token_cases)
    case (1 r')
    then show ?thesis
      by (cases r' rule: next_token_cases) (use first in \<open>auto simp: parse_unsub_def\<close>)
  next
    case (2 v r')
    then show ?thesis
      by (cases r' rule: next_token_cases)
         (use first in \<open>auto simp: parse_unsub_def split: option.splits\<close>)
  qed
qed (auto simp: parse_unsub_def)

definition pub_args_ok :: "bytes \<Rightarrow> bytes \<Rightarrow> bool" where
  "pub_args_ok subject reply_to \<longleftrightarrow>
     mb_proto_subject_valid subject False \<and>
     (length reply_to = 0 \<or> mb_proto_subject_valid reply_to False)"

definition pub_payload :: "bytes \<Rightarrow> nat \<Rightarrow> bytes \<Rightarrow> bytes \<Rightarrow> nat \<Rightarrow> mb_parse_result" where
  "pub_payload buf line_end subject reply_to payload_len =
     (if length buf < line_end then parse_fail MB_PARSE_NEED_MORE
      else if length buf - line_end \<le> payload_len then parse_fail MB_PARSE_NEED_MORE
      else case pub_trailer (drop payload_len (drop line_end buf)) of
             Inl st \<Rightarrow> parse_fail st
           | Inr trailer_len \<Rightarrow>
               if SIZE_MAX - line_end < payload_len \<or> SIZE_MAX - line_end - payload_len < trailer_len
               then parse_fail MB_PARSE_PAYLOAD_TOO_LARGE
               else parse_ok (mb_op_zero\<lparr>op_kind := MB_OP_PUB, op_subject := subject,
                      op_reply_to := reply_to, op_payload := take payload_len (drop line_end buf)\<rparr>)
                      (line_end + payload_len + trailer_len))"

definition pub_with_args :: "bytes \<Rightarrow> nat \<Rightarrow> (bytes \<times> bytes \<times> bytes) option \<Rightarrow> mb_parse_result" where
  "pub_with_args buf line_end args =
     (case args of
        None \<Rightarrow> parse_fail MB_PARSE_INVALID_ARGS
      | Some (subject, reply_to, bytes_str) \<Rightarrow>
          (case parse_usize bytes_str of
             None \<Rightarrow> parse_fail MB_PARSE_INVALID_ARGS
           | Some payload_len \<Rightarrow>
               if \<not> pub_args_ok subject reply_to then parse_fail MB_PARSE_INVALID_ARGS
               else if MB_MAX_PAYLOAD < payload_len then parse_fail MB_PARSE_PAYLOAD_TOO_LARGE
               else pub_payload buf line_end subject reply_to payload_len))"

lemma if_fail_twice:
  "(if a then x else if b then x else y) = (if a \<or> b then x else y)"
  by simp

lemma parse_pub_words:
  "parse_pub buf rest line_end = pub_with_args buf line_end (two_or_three (line_words rest))"
proof -
  note split_off = if_fail_twice parse_pub_def pub_with_args_def pub_payload_def pub_args_ok_def Let_def
  show ?thesis
  proof (cases rest rule: next_token_cases)
    case (2 w r)
    note first = this
    show ?thesis
    proof (cases r rule: next_token_cases)
      case (2 v r')
      note second = this
      show ?thesis
      proof (cases r' rule: next_token_cases)
        case (2 u r'')
        then show ?thesis
          by (cases r'' rule: next_token_cases) (use first second in \<open>simp_all add: split_off cong: option.case_cong if_cong\<close>)
      qed (use first second in \<open>simp add: split_off cong: option.case_cong if_cong\<close>)
    qed (use first in \<open>simp add: split_off cong: option.case_cong if_cong\<close>)
  qed (simp add: split_off)
qed


section \<open>Bytes that arrive later do not change the verdict\<close>

lemma parse_sub_status: "pr_status (parse_sub rest n) \<noteq> MB_PARSE_NEED_MORE"
  by (simp add: parse_sub_words parse_fail_def parse_ok_def split: option.split prod.split)

lemma parse_unsub_status: "pr_status (parse_unsub rest n) \<noteq> MB_PARSE_NEED_MORE"
  by (simp add: parse_unsub_words parse_fail_def parse_ok_def split: list.split option.split)

lemma pub_trailer_append:
  "t \<noteq> [] \<Longrightarrow> pub_trailer t \<noteq> Inl MB_PARSE_NEED_MORE \<Longrightarrow> pub_trailer (t @ late) = pub_trailer t"
  by (cases t; cases "tl t") (auto simp: pub_trailer_def nth_append split: if_splits)

lemma pub_payload_append:
  assumes "pr_status (pub_payload buf e s r n) \<noteq> MB_PARSE_NEED_MORE"
  shows "pub_payload (buf @ late) e s r n = pub_payload buf e s r n"
proof -
  from assms have len: "e \<le> length buf" "n < length buf - e"
    by (auto simp: pub_payload_def parse_fail_def not_less split: if_splits)
  let ?t = "drop n (drop e buf)"
  from len have t: "?t \<noteq> []" by simp
  have d: "drop n (drop e (buf @ late)) = ?t @ late"
    and tk: "take n (drop e (buf @ late)) = take n (drop e buf)"
    using len by simp_all
  have "pub_trailer ?t \<noteq> Inl MB_PARSE_NEED_MORE"
    using assms len by (auto simp: pub_payload_def parse_fail_def)
  then have "pub_trailer (drop n (drop e (buf @ late))) = pub_trailer ?t"
    unfolding d by (intro pub_trailer_append t)
  with len show ?thesis
    unfolding pub_payload_def tk by simp
qed

lemma parse_line_append:
  assumes "pr_status (parse_line buf line e) \<noteq> MB_PARSE_NEED_MORE"
  shows "parse_line (buf @ late) line e = parse_line buf line e"
proof -
  have "parse_pub (buf @ late) rest e = parse_pub buf rest e"
    if "pr_status (parse_pub buf rest e) \<noteq> MB_PARSE_NEED_MORE" for rest
    using that unfolding parse_pub_words pub_with_args_def
    by (auto simp: pub_payload_append split: option.splits if_splits)
  with assms show ?thesis
    by (auto simp: parse_line_def split: option.splits prod.splits)
qed

lemma client_op_append:
  assumes "pr_status (mb_parse_client_op buf) \<noteq> MB_PARSE_NEED_MORE"
  shows "mb_parse_client_op (buf @ late) = mb_parse_client_op buf"
proof (cases "LF \<in> set buf")
  case True
  then have tw: "takeWhile (\<lambda>c. c \<noteq> LF) (buf @ late) = takeWhile (\<lambda>c. c \<noteq> LF) buf"
    by (metis (mono_tags, lifting) takeWhile_append1)
  let ?nl = "length (takeWhile (\<lambda>c. c \<noteq> LF) buf)"
  from True have lt: "?nl < length buf"
    by (metis (mono_tags, lifting) length_takeWhile_le nat_less_le set_takeWhileD takeWhile_eq_take take_all)
  with assms show ?thesis
    unfolding mb_parse_client_op_def tw Let_def
    by (auto simp: parse_line_append)
next
  case False
  then have tw: "takeWhile (\<lambda>c. c \<noteq> LF) buf = buf"
    by (metis (mono_tags, lifting) takeWhile_eq_all_conv)
  then have "length buf \<le> length (takeWhile (\<lambda>c. c \<noteq> LF) (buf @ late))"
    by (metis (mono_tags, lifting) le_add1 length_append takeWhile_eq_all_conv takeWhile_append2)
  with assms tw show ?thesis
    by (auto simp: mb_parse_client_op_def parse_fail_def Let_def split: if_splits)
qed

text \<open>
  \<^bold>\<open>C3\<close> The parser is incremental. Once \<open>mb_parse_client_op\<close> has given any answer other
  than "need more" for the bytes received so far, bytes that arrive later never change
  that answer: not its status, not the operation, not the number of bytes it consumes.
\<close>

theorem parse_client_op_incremental:
  assumes "pr_status (mb_parse_client_op buf) \<noteq> MB_PARSE_NEED_MORE"
  shows "mb_parse_client_op (buf @ late) = mb_parse_client_op buf"
  using assms by (rule client_op_append)

theorem parse_client_op_incremental_witness:
  "mb_parse_client_op ((''UNSUB 7 3'' @ [CR, LF]) @ ''PI'') = mb_parse_client_op (''UNSUB 7 3'' @ [CR, LF])
   \<and> op_max_msgs (pr_op (mb_parse_client_op (''UNSUB 7 3'' @ [CR, LF]))) = 3"
proof -
  have "pr_status (mb_parse_client_op (''UNSUB 7 3'' @ [CR, LF])) \<noteq> MB_PARSE_NEED_MORE" by code_simp
  moreover have "op_max_msgs (pr_op (mb_parse_client_op (''UNSUB 7 3'' @ [CR, LF]))) = 3"
    by code_simp
  ultimately show ?thesis by (intro conjI parse_client_op_incremental)
qed

lemma pub_payload_ok:
  assumes "e \<le> length buf" "drop e buf = payload @ CR # LF # late"
    and "length payload \<le> MB_MAX_PAYLOAD" "e \<le> Suc MB_MAX_CONTROL_LINE"
  shows "pub_payload buf e s r (length payload) =
    parse_ok (mb_op_zero\<lparr>op_kind := MB_OP_PUB, op_subject := s, op_reply_to := r,
      op_payload := payload\<rparr>) (e + length payload + 2)"
proof -
  have "length buf - e = length payload + 2 + length late"
    using arg_cong [OF assms(2), of length] by simp
  moreover have "e + length payload + 2 \<le> SIZE_MAX"
    using assms(3,4) by (simp add: MB_MAX_PAYLOAD_def MB_MAX_CONTROL_LINE_def SIZE_MAX_value)
  moreover have "pub_trailer (CR # LF # late) = Inr 2"
    by (simp add: pub_trailer_def CR_def LF_def)
  ultimately show ?thesis
    using assms(1) by (simp add: pub_payload_def assms(2))
qed

lemma mb_parse_client_op_line:
  assumes "LF \<notin> set line" "length line < MB_MAX_CONTROL_LINE"
  shows "mb_parse_client_op (line @ CR # LF # late) =
    parse_line (line @ CR # LF # late) (trim_spaces line) (length line + 2)"
proof -
  have "takeWhile (\<lambda>c. c \<noteq> LF) (line @ CR # LF # late) = line @ [CR]"
    using assms(1) by (subst takeWhile_append2) (auto simp: CR_def LF_def)
  then show ?thesis
    using assms(2) by (simp add: mb_parse_client_op_def strip_cr_def)
qed

lemma valid_no_space:
  "mb_proto_token_valid t \<Longrightarrow> c \<in> set t \<Longrightarrow> \<not> is_space c \<and> c \<noteq> LF \<and> c \<noteq> CR"
  by (auto simp: mb_proto_token_valid_def is_space_def list_all_iff TAB_def LF_def CR_def byte_val_def)

lemma subject_token_valid: "mb_proto_subject_valid s allow \<Longrightarrow> mb_proto_token_valid s"
  by (simp add: mb_proto_subject_valid_iff)

lemma dec_digits_token: "mb_proto_token_valid (dec_digits n)"
  by (auto simp: mb_proto_token_valid_def list_all_iff is_digit_def dest!: dec_digits_digits)

lemma line_words_token:
  "mb_proto_token_valid w \<Longrightarrow> line_words (w @ CHR '' '' # t) = w # line_words t"
  by (rule line_words_word)
     (auto simp: valid_no_space, auto simp: mb_proto_token_valid_def is_space_def)

lemma line_words_last_token: "mb_proto_token_valid w \<Longrightarrow> line_words w = [w]"
  by (rule line_words_word_end) (auto simp: valid_no_space, auto simp: mb_proto_token_valid_def)

lemma parse_line_verb:
  assumes "line_words line = v # ws"
  obtains rest where "next_token line = (Some v, rest)" "line_words rest = ws" "line \<noteq> []"
proof (cases line rule: next_token_cases)
  case (2 w r)
  moreover have "line \<noteq> []" using assms line_words.simps [of "[]"] by auto
  ultimately show thesis using assms that by auto
qed (use assms in simp)

section \<open>Frames written by a client\<close>

text \<open>
  The \<open>PUB\<close> frame of the protocol; an empty reply subject is left out.
\<close>

definition pub_line :: "bytes \<Rightarrow> bytes \<Rightarrow> bytes \<Rightarrow> bytes" where
  "pub_line subject reply_to payload =
     ''PUB '' @ subject @ CHR '' '' # (if reply_to = [] then [] else reply_to @ '' '')
       @ dec_digits (length payload)"

definition pub_frame :: "bytes \<Rightarrow> bytes \<Rightarrow> bytes \<Rightarrow> bytes" where
  "pub_frame subject reply_to payload =
     pub_line subject reply_to payload @ CR # LF # payload @ [CR, LF]"

lemma pub_line_words:
  assumes "pub_args_ok subject reply_to"
  shows "line_words (pub_line subject reply_to payload) =
    ''PUB'' # subject # (if reply_to = [] then [] else [reply_to]) @ [dec_digits (length payload)]"
proof -
  have "line_words (''PUB'' @ CHR '' '' # t) = ''PUB'' # line_words t" for t
    by (rule line_words_token) (simp add: mb_proto_token_valid_def byte_val_def)
  then have "line_words (''PUB '' @ t) = ''PUB'' # line_words t" for t by simp
  then show ?thesis
    using assms
    by (auto simp: pub_line_def pub_args_ok_def line_words_token line_words_last_token
         subject_token_valid dec_digits_token append_assoc [of reply_to] simp del: append_assoc)
qed


text \<open>
  \<^bold>\<open>C31\<close> Round trip. A \<open>PUB\<close> frame with a valid subject, a valid or absent reply subject
  and a payload within the limits, followed by any further bytes, is parsed back to exactly
  its subject, reply subject and payload, and exactly the bytes of the frame are consumed,
  whatever bytes the payload holds.
\<close>

theorem parse_pub_frame:
  assumes "pub_args_ok subject reply_to"
    and "length payload \<le> MB_MAX_PAYLOAD"
    and "length (pub_line subject reply_to payload) < MB_MAX_CONTROL_LINE"
  shows "mb_parse_client_op (pub_frame subject reply_to payload @ late) =
    parse_ok (mb_op_zero\<lparr>op_kind := MB_OP_PUB, op_subject := subject, op_reply_to := reply_to,
      op_payload := payload\<rparr>) (length (pub_frame subject reply_to payload))"
proof -
  let ?line = "pub_line subject reply_to payload"
  let ?late = "payload @ CR # LF # late"
  let ?buf = "?line @ CR # LF # ?late"
  have "LF \<notin> set ''PUB ''" "LF \<noteq> CHR '' ''" by (simp_all add: LF_def)
  then have "LF \<notin> set ?line"
    using assms(1) dec_digits_token [of "length payload"]
    by (auto simp: pub_line_def pub_args_ok_def dest: subject_token_valid valid_no_space)
  then have 1: "mb_parse_client_op ?buf = parse_line ?buf (trim_spaces ?line) (length ?line + 2)"
    using assms(3) by (rule mb_parse_client_op_line)
  have w: "line_words (trim_spaces ?line) =
      ''PUB'' # subject # (if reply_to = [] then [] else [reply_to]) @ [dec_digits (length payload)]"
    using pub_line_words [OF assms(1)] by simp
  obtain rest where 2: "next_token (trim_spaces ?line) = (Some ''PUB'', rest)"
      "line_words rest = subject # (if reply_to = [] then [] else [reply_to]) @ [dec_digits (length payload)]"
      "trim_spaces ?line \<noteq> []"
    using w by (rule parse_line_verb)
  have 3: "two_or_three (line_words rest) = Some (subject, reply_to, dec_digits (length payload))"
    unfolding 2(2) by simp
  have "length payload \<le> SIZE_MAX"
    using assms(2) by (simp add: MB_MAX_PAYLOAD_def SIZE_MAX_value)
  then have "parse_usize (dec_digits (length payload)) = Some (length payload)"
    by (rule parse_usize_dec_digits)
  then have "parse_line ?buf (trim_spaces ?line) (length ?line + 2) =
    pub_payload ?buf (length ?line + 2) subject reply_to (length payload)"
    using assms(1,2) 2(1,3)
    by (simp add: parse_line_def eq_upper_def toupper_def byte_val_def parse_pub_words 3 pub_with_args_def)
  also have "\<dots> = parse_ok (mb_op_zero\<lparr>op_kind := MB_OP_PUB, op_subject := subject,
      op_reply_to := reply_to, op_payload := payload\<rparr>) (length ?line + 2 + length payload + 2)"
    by (rule pub_payload_ok) (use assms(2,3) in auto)
  finally show ?thesis
    using 1 by (simp add: pub_frame_def)
qed

theorem parse_pub_frame_witness:
  "mb_parse_client_op (pub_frame ''a.b'' ''r'' (LF # ''xy'') @ ''PI'') =
    parse_ok (mb_op_zero\<lparr>op_kind := MB_OP_PUB, op_subject := ''a.b'', op_reply_to := ''r'',
      op_payload := LF # ''xy''\<rparr>) 18"
proof -
  have d: "dec_digits (Suc (Suc (Suc 0))) = ''3''" by code_simp
  have "pub_args_ok ''a.b'' ''r''" by code_simp
  moreover have "length (LF # ''xy'') \<le> MB_MAX_PAYLOAD" by (simp add: MB_MAX_PAYLOAD_def)
  moreover have "length (pub_line ''a.b'' ''r'' (LF # ''xy'')) < MB_MAX_CONTROL_LINE"
    by (simp add: pub_line_def d MB_MAX_CONTROL_LINE_def)
  moreover have "length (pub_frame ''a.b'' ''r'' (LF # ''xy'')) = 18"
    by (simp add: pub_frame_def pub_line_def d)
  ultimately show ?thesis
    using parse_pub_frame [of "''a.b''" "''r''" "LF # ''xy''" "''PI''"] by simp
qed

section \<open>Bounds and validity of accepted operations\<close>

text \<open>What the server relies on when it handles an operation.\<close>

definition op_wf :: "mb_op \<Rightarrow> bool" where
  "op_wf op \<longleftrightarrow>
     (case op_kind op of
        MB_OP_CONNECT \<Rightarrow> True
      | MB_OP_PING \<Rightarrow> True
      | MB_OP_SUB \<Rightarrow> mb_proto_subject_valid (op_subject op) True \<and> mb_proto_token_valid (op_sid op)
          \<and> (op_queue op = [] \<or> mb_proto_token_valid (op_queue op))
      | MB_OP_UNSUB \<Rightarrow> mb_proto_token_valid (op_sid op) \<and> op_max_msgs op \<le> SIZE_MAX
      | MB_OP_PUB \<Rightarrow> pub_args_ok (op_subject op) (op_reply_to op)
          \<and> length (op_payload op) \<le> MB_MAX_PAYLOAD)"

lemma parse_fail_not_ok [simp]:
  "st \<noteq> MB_PARSE_OK \<Longrightarrow> pr_status (parse_fail st) \<noteq> MB_PARSE_OK"
  "pr_status (parse_ok op n) = MB_PARSE_OK" "pr_consumed (parse_ok op n) = n" "pr_op (parse_ok op n) = op"
  by (simp_all add: parse_fail_def parse_ok_def)

lemma parse_sub_ok:
  "pr_status (parse_sub rest e) = MB_PARSE_OK \<Longrightarrow>
   op_wf (pr_op (parse_sub rest e)) \<and> pr_consumed (parse_sub rest e) = e"
  by (auto simp: parse_sub_words op_wf_def split: option.splits if_splits)

lemma parse_usize_le: "parse_usize s = Some n \<Longrightarrow> n \<le> SIZE_MAX"
  by (simp add: parse_usize_iff)

lemma parse_unsub_ok:
  "pr_status (parse_unsub rest e) = MB_PARSE_OK \<Longrightarrow>
   op_wf (pr_op (parse_unsub rest e)) \<and> pr_consumed (parse_unsub rest e) = e"
  by (auto simp: parse_unsub_words op_wf_def mb_op_zero_def parse_usize_le
       split: list.splits option.splits if_splits)

lemma pub_trailer_cases:
  assumes "t \<noteq> []"
  obtains "pub_trailer t = Inr 1" "1 \<le> length t"
  | "pub_trailer t = Inr 2" "2 \<le> length t"
  | "pub_trailer t = Inl MB_PARSE_NEED_MORE" "length t = 1"
  | "pub_trailer t = Inl MB_PARSE_MALFORMED"
proof (cases t)
  case (Cons c u)
  then show thesis
    using that by (cases u; cases "c = LF"; cases "c = CR"; cases "hd u = LF") (simp_all add: pub_trailer_def)
qed (use assms in simp)

lemma pub_payload_ok_bounds:
  assumes "pr_status (pub_payload buf e s r n) = MB_PARSE_OK"
  shows "pr_op (pub_payload buf e s r n) = mb_op_zero\<lparr>op_kind := MB_OP_PUB, op_subject := s,
      op_reply_to := r, op_payload := take n (drop e buf)\<rparr> \<and> n \<le> length buf - e \<and>
    e < pr_consumed (pub_payload buf e s r n) \<and> pr_consumed (pub_payload buf e s r n) \<le> length buf"
proof -
  from assms have len: "e \<le> length buf" "n < length buf - e"
    by (auto simp: pub_payload_def not_less split: if_splits)
  then have "drop n (drop e buf) \<noteq> []" by simp
  then show ?thesis
    by (cases "drop n (drop e buf)" rule: pub_trailer_cases)
       (use assms len in \<open>auto simp: pub_payload_def split: if_splits\<close>)
qed

lemma parse_pub_ok:
  assumes "pr_status (parse_pub buf rest e) = MB_PARSE_OK"
  shows "op_wf (pr_op (parse_pub buf rest e)) \<and> e < pr_consumed (parse_pub buf rest e)
    \<and> pr_consumed (parse_pub buf rest e) \<le> length buf"
  using assms unfolding parse_pub_words pub_with_args_def
  by (auto simp: op_wf_def pub_payload_ok_bounds [THEN conjunct1] dest: pub_payload_ok_bounds
       split: option.splits if_splits)

lemma parse_line_ok:
  assumes "pr_status (parse_line buf line e) = MB_PARSE_OK"
  shows "op_wf (pr_op (parse_line buf line e)) \<and> e \<le> pr_consumed (parse_line buf line e)
    \<and> pr_consumed (parse_line buf line e) \<le> max e (length buf)"
proof -
  from assms obtain verb rest where tok: "line \<noteq> []" "next_token line = (Some verb, rest)"
    by (auto simp: parse_line_def split: if_splits option.splits prod.splits)
  then consider (ping) "parse_line buf line e = parse_ok (mb_op_zero\<lparr>op_kind := MB_OP_PING\<rparr>) e"
    | (connect) c where "parse_line buf line e =
        parse_ok (mb_op_zero\<lparr>op_kind := MB_OP_CONNECT, op_connect := c\<rparr>) e"
    | (sub) "parse_line buf line e = parse_sub rest e"
    | (unsub) "parse_line buf line e = parse_unsub rest e"
    | (pub) "parse_line buf line e = parse_pub buf rest e"
    using assms unfolding parse_line_def by (auto split: if_splits)
  then show ?thesis
  proof cases
    case pub
    then show ?thesis using assms parse_pub_ok [of buf rest e] by (simp add: less_imp_le)
  qed (use assms parse_sub_ok parse_unsub_ok in \<open>auto simp: op_wf_def\<close>)
qed

lemma client_op_line:
  "length (takeWhile (\<lambda>c. c \<noteq> LF) buf) \<noteq> length buf \<Longrightarrow>
   length (takeWhile (\<lambda>c. c \<noteq> LF) buf) < length buf"
  using length_takeWhile_le [of "\<lambda>c. c \<noteq> LF" buf] by linarith

lemma client_op_ok_wf:
  assumes "pr_status (mb_parse_client_op buf) = MB_PARSE_OK"
  shows "op_wf (pr_op (mb_parse_client_op buf)) \<and> 0 < pr_consumed (mb_parse_client_op buf)
    \<and> pr_consumed (mb_parse_client_op buf) \<le> length buf"
proof -
  let ?nl = "length (takeWhile (\<lambda>c. c \<noteq> LF) buf)"
  let ?line = "trim_spaces (strip_cr (take ?nl buf))"
  from assms have eq: "mb_parse_client_op buf = parse_line buf ?line (?nl + 1)"
    and "?nl \<noteq> length buf"
    by (auto simp: mb_parse_client_op_def Let_def split: if_splits)
  then have "?nl + 1 \<le> length buf" using client_op_line by fastforce
  then show ?thesis
    using parse_line_ok [of buf ?line "?nl + 1"] assms unfolding eq by (simp add: max_absorb2)
qed

text \<open>
  \<^bold>\<open>C32\<close> Every accepted operation is well formed and consumes a non-empty prefix of the
  receive buffer: a \<open>SUB\<close> has a valid filter, sid and queue group, an \<open>UNSUB\<close> a valid sid
  and a count that fits \<open>size_t\<close>, a \<open>PUB\<close> a valid literal subject and reply subject and a
  payload of at most \<open>MB_MAX_PAYLOAD\<close> bytes, and the parser never reads past the buffer.
\<close>

theorem parse_client_op_wf:
  assumes "pr_status (mb_parse_client_op buf) = MB_PARSE_OK"
  shows "op_wf (pr_op (mb_parse_client_op buf)) \<and> 0 < pr_consumed (mb_parse_client_op buf)
    \<and> pr_consumed (mb_parse_client_op buf) \<le> length buf"
  using assms by (rule client_op_ok_wf)

theorem parse_client_op_wf_witness:
  "op_wf (pr_op (mb_parse_client_op (''SUB a.* q 7'' @ [LF]))) \<and>
   pr_consumed (mb_parse_client_op (''SUB a.* q 7'' @ [LF])) \<le> 13"
proof -
  have "pr_status (mb_parse_client_op (''SUB a.* q 7'' @ [LF])) = MB_PARSE_OK" by code_simp
  then show ?thesis by (auto dest: parse_client_op_wf)
qed

lemma client_op_need_more:
  assumes "pr_status (mb_parse_client_op buf) = MB_PARSE_NEED_MORE"
  shows "length buf \<le> MB_MAX_CONTROL_LINE + MB_MAX_PAYLOAD + 2"
proof -
  let ?nl = "length (takeWhile (\<lambda>c. c \<noteq> LF) buf)"
  let ?line = "trim_spaces (strip_cr (take ?nl buf))"
  show ?thesis
  proof (cases "?nl = length buf")
    case True
    with assms show ?thesis
      by (auto simp: mb_parse_client_op_def Let_def parse_fail_def split: if_splits)
  next
    case False
    with assms have st: "pr_status (parse_line buf ?line (?nl + 1)) = MB_PARSE_NEED_MORE"
      and nl: "?nl \<le> MB_MAX_CONTROL_LINE"
      by (auto simp: mb_parse_client_op_def Let_def parse_fail_def split: if_splits)
    then obtain rest where "pr_status (parse_pub buf rest (?nl + 1)) = MB_PARSE_NEED_MORE"
      using parse_sub_status parse_unsub_status
      by (auto simp: parse_line_def parse_fail_def parse_ok_def split: option.splits prod.splits if_splits)
    then obtain s r n where "pr_status (pub_payload buf (?nl + 1) s r n) = MB_PARSE_NEED_MORE"
      "n \<le> MB_MAX_PAYLOAD"
      unfolding parse_pub_words pub_with_args_def
      by (auto simp: parse_fail_def not_less split: option.splits if_splits)
    then have "length buf \<le> ?nl + n + 2" using client_op_line [OF False]
      by (auto simp: pub_payload_def parse_fail_def parse_ok_def pub_trailer_def split: sum.splits if_splits)
    with nl \<open>n \<le> MB_MAX_PAYLOAD\<close> show ?thesis by simp
  qed
qed

text \<open>
  \<^bold>\<open>C39\<close> The parser asks for more input only while the buffer is short of one maximal frame,
  so a buffer of \<open>MB_MAX_CONTROL_LINE + MB_MAX_PAYLOAD + 3\<close> bytes or more always gets a
  verdict: a client cannot make the server buffer without bound.
\<close>

theorem parse_client_op_need_more_bound:
  assumes "pr_status (mb_parse_client_op buf) = MB_PARSE_NEED_MORE"
  shows "length buf \<le> MB_MAX_CONTROL_LINE + MB_MAX_PAYLOAD + 2"
  using assms by (rule client_op_need_more)

theorem parse_client_op_need_more_bound_witness:
  "length ''PUB a 5'' \<le> MB_MAX_CONTROL_LINE + MB_MAX_PAYLOAD + 2"
proof -
  have "pr_status (mb_parse_client_op ''PUB a 5'') = MB_PARSE_NEED_MORE" by code_simp
  then show ?thesis by (rule parse_client_op_need_more_bound)
qed

text \<open>
  What a valid subject is: non-empty, without control characters, blanks and DEL, and
  every dot-separated token is non-empty and free of wildcards; where wildcards are allowed
  a token may also be a whole \<open>*\<close>, and the last token a whole \<open>>\<close>.
\<close>

theorem subject_valid_spec:
  "mb_proto_subject_valid s allow \<longleftrightarrow>
     s \<noteq> [] \<and> list_all (\<lambda>c. 32 < byte_val c \<and> byte_val c \<noteq> 127) s \<and>
     list_all (\<lambda>i. let t = subject_tokens s ! i in
        t \<noteq> [] \<and>
        (CHR ''*'' \<notin> set t \<and> CHR ''>'' \<notin> set t
         \<or> allow \<and> t = ''*''
         \<or> allow \<and> t = ''>'' \<and> Suc i = length (subject_tokens s)))
       [0..<length (subject_tokens s)]"
  unfolding mb_proto_subject_valid_iff tokens_ok_nth token_ok_iff mb_proto_token_valid_def list_all_iff
  by (auto simp: Let_def not_le)

end
