(* ===== verification/Proto_Write.thy ===== *)
theory Proto_Write
  imports Proto_Correct
begin

text \<open>
  The writers of \<open>src/src/proto.c\<close>: \<open>PONG\<close>, \<open>INFO\<close>, \<open>-ERR\<close> and \<open>MSG\<close> frames are
  appended to an output buffer whose growth may fail. The theorems give the bytes each
  writer appends and show that a \<open>MSG\<close> frame is written completely or not at all.
\<close>

section \<open>Sequences of appends\<close>

text \<open>A chain \<open>a && b && ...\<close> of appends to one buffer: the first failure stops it.\<close>

fun buf_seq :: "(mb_buf \<Rightarrow> bool \<times> mb_buf) list \<Rightarrow> mb_buf \<Rightarrow> bool \<times> mb_buf" where
  "buf_seq [] out = (True, out)"
| "buf_seq (w # ws) out = (case w out of (False, out) \<Rightarrow> (False, out) | (True, out) \<Rightarrow> buf_seq ws out)"

abbreviation app :: "allocator \<Rightarrow> bytes \<Rightarrow> mb_buf \<Rightarrow> bool \<times> mb_buf" where
  "app am s out \<equiv> mb_buf_append am out s"

abbreviation app_byte :: "allocator \<Rightarrow> char \<Rightarrow> mb_buf \<Rightarrow> bool \<times> mb_buf" where
  "app_byte am c out \<equiv> mb_buf_append_byte am out c"

section \<open>Decimal numbers\<close>

text \<open>The loop that fills \<open>tmp\<close> from its end; \<open>acc\<close> is the filled part \<open>tmp[i..32)\<close>.\<close>

fun decimal_fill :: "nat \<Rightarrow> bytes \<Rightarrow> bytes" where
  "decimal_fill n acc = (if n = 0 then acc else decimal_fill (n div 10) (digit_char (n mod 10) # acc))"

declare decimal_fill.simps [simp del]

definition append_decimal :: "allocator \<Rightarrow> nat \<Rightarrow> mb_buf \<Rightarrow> bool \<times> mb_buf" where
  "append_decimal am n out =
     (if n = 0 then mb_buf_append_byte am out (CHR ''0'')
      else mb_buf_append am out (decimal_fill n []))"

definition append_u64_decimal :: "allocator \<Rightarrow> u64 \<Rightarrow> mb_buf \<Rightarrow> bool \<times> mb_buf" where
  "append_u64_decimal am n out =
     (if n = 0 then mb_buf_append_byte am out (CHR ''0'')
      else mb_buf_append am out (decimal_fill (unat n) []))"

fun decimal_len_loop :: "nat \<Rightarrow> nat \<Rightarrow> nat" where
  "decimal_len_loop n len = (if 10 \<le> n then decimal_len_loop (n div 10) (len + 1) else len)"

declare decimal_len_loop.simps [simp del]

definition decimal_len :: "nat \<Rightarrow> nat" where
  "decimal_len n = decimal_len_loop n 1"

definition add_size :: "nat \<Rightarrow> nat \<Rightarrow> nat option" where
  "add_size tot add = (if SIZE_MAX - tot < add then None else Some (tot + add))"

text \<open>A chain of \<open>add_size\<close> calls on one total.\<close>

fun add_sizes :: "nat \<Rightarrow> nat list \<Rightarrow> nat option" where
  "add_sizes tot [] = Some tot"
| "add_sizes tot (a # as) =
     (case add_size tot a of None \<Rightarrow> None | Some tot \<Rightarrow> add_sizes tot as)"

section \<open>JSON strings\<close>

definition hex_char :: "nat \<Rightarrow> char" where
  "hex_char n = ''0123456789abcdef'' ! n"

definition append_json_char :: "allocator \<Rightarrow> char \<Rightarrow> mb_buf \<Rightarrow> bool \<times> mb_buf" where
  "append_json_char am c out =
     (if c = CHR 0x22 \<or> c = CHR 0x5C then
        buf_seq [app_byte am (CHR 0x5C), app_byte am c] out
      else if byte_val c < 0x20 then
        buf_seq [app am (CHR 0x5C # ''u00''), app_byte am (hex_char (byte_val c div 16)),
                 app_byte am (hex_char (byte_val c mod 16))] out
      else mb_buf_append_byte am out c)"

text \<open>The loop over a C string ends at the first NUL.\<close>

fun append_json_loop :: "allocator \<Rightarrow> bytes \<Rightarrow> mb_buf \<Rightarrow> bool \<times> mb_buf" where
  "append_json_loop am [] out = (True, out)"
| "append_json_loop am (c # cs) out =
     (if c = CHR 0x00 then (True, out)
      else case append_json_char am c out of
             (False, out) \<Rightarrow> (False, out)
           | (True, out) \<Rightarrow> append_json_loop am cs out)"

definition append_json_string :: "allocator \<Rightarrow> bytes \<Rightarrow> mb_buf \<Rightarrow> bool \<times> mb_buf" where
  "append_json_string am s =
     buf_seq [app_byte am (CHR 0x22), append_json_loop am s, app_byte am (CHR 0x22)]"

section \<open>Frames\<close>

text \<open>A quoted member name and its colon, as the literals of \<open>mb_write_info\<close> spell them.\<close>

definition json_key :: "bytes \<Rightarrow> bytes" where
  "json_key name = CHR 0x22 # name @ [CHR 0x22, CHR '':'']"

record mb_info =
  info_server_id :: bytes
  info_host :: bytes
  info_client_ip :: bytes
  info_port :: u32
  info_client_id :: u64
  info_auth_required :: bool
  info_tls_required :: bool

definition mb_write_pong :: "allocator \<Rightarrow> mb_buf \<Rightarrow> bool \<times> mb_buf" where
  "mb_write_pong am out = mb_buf_append am out (''PONG'' @ [CR, LF])"

text \<open>\<open>MB_VERSION\<close> and \<open>MB_BUILD_INFO\<close> come from a header the build generates.\<close>

definition mb_write_info ::
  "bytes \<Rightarrow> bytes \<Rightarrow> allocator \<Rightarrow> mb_buf \<Rightarrow> mb_info \<Rightarrow> bool \<times> mb_buf" where
  "mb_write_info version build am out info =
     buf_seq
       [app am (''INFO {'' @ json_key ''server_id''), append_json_string am (info_server_id info),
        app am (CHR '','' # json_key ''server_name''), append_json_string am (info_server_id info),
        app am (CHR '','' # json_key ''version''), append_json_string am version,
        app am (CHR '','' # json_key ''proto'' @ ''1,'' @ json_key ''headers'' @ ''false,''
                 @ json_key ''max_payload'' @ ''1048576''),
        if info_auth_required info then app am (CHR '','' # json_key ''auth_required'' @ ''true'')
          else Pair True,
        if info_tls_required info then app am (CHR '','' # json_key ''tls_required'' @ ''true'')
          else Pair True,
        app am (CHR '','' # json_key ''host''), append_json_string am (info_host info),
        app am (CHR '','' # json_key ''port''), append_decimal am (unat (info_port info)),
        app am (CHR '','' # json_key ''client_id''), append_u64_decimal am (info_client_id info),
        app am (CHR '','' # json_key ''client_ip''), append_json_string am (info_client_ip info),
        app am (CHR '','' # json_key ''build''), append_json_string am build,
        app am (''}'' @ [CR, LF])] out"

definition mb_write_err :: "allocator \<Rightarrow> mb_buf \<Rightarrow> bytes \<Rightarrow> bool \<times> mb_buf" where
  "mb_write_err am out msg =
     buf_seq [app am (''-ERR '' @ [CHR 0x27]), app am msg, app am [CHR 0x27, CR, LF]] out"

definition mb_msg_frame_len_prefixed_with_reply ::
  "nat \<Rightarrow> bytes \<Rightarrow> bytes \<Rightarrow> bytes \<Rightarrow> bytes \<Rightarrow> nat option" where
  "mb_msg_frame_len_prefixed_with_reply prefix_len subject sid reply_to payload =
     (case add_sizes 0 [4, prefix_len, length subject, 1, length sid, 1] of
        None \<Rightarrow> None
      | Some frame_len \<Rightarrow>
     (case (if length reply_to \<noteq> 0 then add_sizes frame_len [length reply_to, 1] else Some frame_len) of
        None \<Rightarrow> None
      | Some frame_len \<Rightarrow>
          add_sizes frame_len [decimal_len (length payload), 2, length payload, 2]))"

definition mb_msg_frame_len_prefixed :: "nat \<Rightarrow> bytes \<Rightarrow> bytes \<Rightarrow> bytes \<Rightarrow> nat option" where
  "mb_msg_frame_len_prefixed prefix_len subject sid payload =
     mb_msg_frame_len_prefixed_with_reply prefix_len subject sid [] payload"

definition mb_write_msg_prefixed_with_reply ::
  "allocator \<Rightarrow> mb_buf \<Rightarrow> bytes \<Rightarrow> bytes \<Rightarrow> bytes \<Rightarrow> bytes \<Rightarrow> bytes \<Rightarrow> bool \<times> mb_buf" where
  "mb_write_msg_prefixed_with_reply am out pfx subject sid reply_to payload =
     (case mb_msg_frame_len_prefixed_with_reply (length pfx) subject sid reply_to payload of
        None \<Rightarrow> (False, out)
      | Some frame_len \<Rightarrow>
          buf_seq
            [\<lambda>out. mb_buf_reserve am out frame_len,
             app am ''MSG '', app am pfx, app am subject, app_byte am (CHR '' ''),
             app am sid, app_byte am (CHR '' ''),
             if length reply_to \<noteq> 0 then buf_seq [app am reply_to, app_byte am (CHR '' '')]
               else Pair True,
             append_decimal am (length payload), app am [CR, LF], app am payload, app am [CR, LF]] out)"

definition mb_write_msg_prefixed ::
  "allocator \<Rightarrow> mb_buf \<Rightarrow> bytes \<Rightarrow> bytes \<Rightarrow> bytes \<Rightarrow> bytes \<Rightarrow> bool \<times> mb_buf" where
  "mb_write_msg_prefixed am out pfx subject sid payload =
     mb_write_msg_prefixed_with_reply am out pfx subject sid [] payload"

definition mb_write_msg_with_reply ::
  "allocator \<Rightarrow> mb_buf \<Rightarrow> bytes \<Rightarrow> bytes \<Rightarrow> bytes \<Rightarrow> bytes \<Rightarrow> bool \<times> mb_buf" where
  "mb_write_msg_with_reply am out subject sid reply_to payload =
     mb_write_msg_prefixed_with_reply am out [] subject sid reply_to payload"

definition mb_write_msg :: "allocator \<Rightarrow> mb_buf \<Rightarrow> bytes \<Rightarrow> bytes \<Rightarrow> bytes \<Rightarrow> bool \<times> mb_buf" where
  "mb_write_msg am out subject sid payload = mb_write_msg_with_reply am out subject sid [] payload"

section \<open>The contract of a writer\<close>

text \<open>
  A writer \<open>w\<close> for the bytes \<open>s\<close>: success appends all of \<open>s\<close>, failure at most a
  prefix of it, the buffer stays well formed, and it cannot fail on a buffer with room.
\<close>

locale buf_writer =
  fixes w :: "mb_buf \<Rightarrow> bool \<times> mb_buf" and s :: bytes
  assumes keeps_wf: "buf_wf out \<Longrightarrow> buf_wf (snd (w out))"
    and keeps_cap: "buf_wf out \<Longrightarrow> buf_cap out \<le> buf_cap (snd (w out))"
    and appends: "buf_wf out \<Longrightarrow> fst (w out) \<Longrightarrow> buf_data (snd (w out)) = buf_data out @ s"
    and appends_prefix: "buf_wf out \<Longrightarrow> \<exists>p. prefix p s \<and> buf_data (snd (w out)) = buf_data out @ p"
    and room: "buf_wf out \<Longrightarrow> buf_len out + length s \<le> buf_cap out \<Longrightarrow> fst (w out)"
begin

lemma keeps_front: "buf_wf out \<Longrightarrow> prefix (buf_data out) (buf_data (snd (w out)))"
  using appends_prefix by fastforce

lemma writes_with_room:
  assumes "buf_wf out" "buf_len out + length s \<le> buf_cap out"
  shows "\<exists>out'. w out = (True, out') \<and> buf_data out' = buf_data out @ s"
  using room [OF assms] appends [OF assms(1)] by (metis prod.collapse)

lemma success_grows: "buf_wf out \<Longrightarrow> w out = (True, out') \<Longrightarrow> buf_len out' = buf_len out + length s"
  using appends by fastforce

end

lemma buf_writer_append: "buf_writer (app am s) s"
proof
  fix out assume wf: "buf_wf out"
  show "buf_wf (snd (app am s out))" using wf by (rule mb_buf_append_wf)
  show "buf_data (snd (app am s out)) = buf_data out @ s" if "fst (app am s out)"
    using that by (simp add: mb_buf_append_data)
  show "\<exists>p. prefix p s \<and> buf_data (snd (app am s out)) = buf_data out @ p"
    by (metis append_Nil2 mb_buf_append_data prefix_order.refl Nil_prefix)
  show "buf_cap out \<le> buf_cap (snd (app am s out))"
    using mb_buf_reserve_cap_mono [of out am "length s"]
    by (auto simp: mb_buf_append_def split: prod.splits bool.splits)
  show "fst (app am s out)" if "buf_len out + length s \<le> buf_cap out"
    using mb_buf_append_reserved [OF wf that] by simp
qed

lemma buf_writer_append_byte: "buf_writer (app_byte am c) [c]"
  using buf_writer_append [of am "[c]"] by (simp add: mb_buf_append_byte_eq)

lemma buf_writer_True: "buf_writer (Pair True) []"
  by unfold_locales auto

lemma buf_writer_Cons:
  assumes w: "buf_writer w s" and ws: "buf_writer (buf_seq ws) t"
  shows "buf_writer (buf_seq (w # ws)) (s @ t)"
proof
  fix out assume wf: "buf_wf out"
  obtain ok out1 where e: "w out = (ok, out1)" by fastforce
  have f: "buf_wf out1" "buf_cap out \<le> buf_cap out1" "ok \<Longrightarrow> buf_data out1 = buf_data out @ s"
    "\<exists>p. prefix p s \<and> buf_data out1 = buf_data out @ p"
    "buf_len out + length s \<le> buf_cap out \<Longrightarrow> ok"
    using buf_writer.keeps_wf [OF w wf] buf_writer.keeps_cap [OF w wf] buf_writer.appends [OF w wf]
      buf_writer.appends_prefix [OF w wf] buf_writer.room [OF w wf] by (simp_all add: e)
  note g = buf_writer.keeps_wf [OF ws f(1)] buf_writer.keeps_cap [OF ws f(1)]
    buf_writer.appends [OF ws f(1)] buf_writer.appends_prefix [OF ws f(1)] buf_writer.room [OF ws f(1)]
  show "buf_wf (snd (buf_seq (w # ws) out))" using e f g by (cases ok) auto
  show "buf_cap out \<le> buf_cap (snd (buf_seq (w # ws) out))" using e f g by (cases ok) auto
  show "buf_data (snd (buf_seq (w # ws) out)) = buf_data out @ s @ t"
    if "fst (buf_seq (w # ws) out)" using that e f g by (cases ok) auto
  show "\<exists>p. prefix p (s @ t) \<and> buf_data (snd (buf_seq (w # ws) out)) = buf_data out @ p"
    using e f(3,4) g(4) by (cases ok) (auto simp: prefix_append)
  show "fst (buf_seq (w # ws) out)" if "buf_len out + length (s @ t) \<le> buf_cap out"
    using that e f g by (cases ok) auto
qed

lemma buf_writer_seq: "list_all2 buf_writer ws ss \<Longrightarrow> buf_writer (buf_seq ws) (concat ss)"
proof (induction ws ss rule: list_all2_induct)
  case Nil
  have "buf_seq [] = Pair True" by (rule ext) simp
  then show ?case using buf_writer_True by simp
qed (simp add: buf_writer_Cons del: buf_seq.simps)

lemma buf_writer_if:
  "buf_writer w s \<Longrightarrow> buf_writer w' s' \<Longrightarrow> buf_writer (if c then w else w') (if c then s else s')"
  by simp

section \<open>What the writers append\<close>

lemma decimal_fill_eq: "0 < n \<Longrightarrow> decimal_fill n acc = dec_digits n @ acc"
proof (induction n acc rule: decimal_fill.induct)
  case (1 n acc)
  then show ?case
    by (subst decimal_fill.simps, subst dec_digits.simps) (auto simp: decimal_fill.simps [of 0])
qed

lemma decimal_len_loop_eq: "decimal_len_loop n k = length (dec_digits n) + k - 1"
proof (induction n k rule: decimal_len_loop.induct)
  case (1 n k)
  then show ?case
    by (subst decimal_len_loop.simps, subst dec_digits.simps) auto
qed

lemma decimal_len_eq: "decimal_len n = length (dec_digits n)"
  by (simp add: decimal_len_def decimal_len_loop_eq)

lemma dec_digits_0: "dec_digits 0 = ''0''"
  by code_simp

lemma append_decimal_eq: "append_decimal am n = app am (dec_digits n)"
  by (rule ext) (auto simp: append_decimal_def decimal_fill_eq dec_digits_0 mb_buf_append_byte_eq)

lemma append_u64_decimal_eq: "append_u64_decimal am n = app am (dec_digits (unat n))"
  by (rule ext) (auto simp: append_u64_decimal_def decimal_fill_eq dec_digits_0 mb_buf_append_byte_eq
      unat_eq_0 unat_gt_0)

lemma add_sizes_eq:
  "n \<le> SIZE_MAX \<Longrightarrow>
   add_sizes n as = (if n + sum_list as \<le> SIZE_MAX then Some (n + sum_list as) else None)"
  by (induction as arbitrary: n) (auto simp: add_size_def)

definition msg_frame :: "bytes \<Rightarrow> bytes \<Rightarrow> bytes \<Rightarrow> bytes \<Rightarrow> bytes" where
  "msg_frame subject sid reply_to payload =
     ''MSG '' @ subject @ '' '' @ sid @ '' '' @ (if reply_to = [] then [] else reply_to @ '' '')
       @ dec_digits (length payload) @ [CR, LF] @ payload @ [CR, LF]"

lemma frame_len_eq:
  "mb_msg_frame_len_prefixed_with_reply (length pfx) subject sid reply_to payload =
     (let n = length (msg_frame (pfx @ subject) sid reply_to payload)
      in if n \<le> SIZE_MAX then Some n else None)"
  by (auto simp: mb_msg_frame_len_prefixed_with_reply_def add_sizes_eq msg_frame_def
       decimal_len_eq Let_def simp del: add_sizes.simps)

text \<open>The body of a \<open>MSG\<close> write, after the frame has been reserved.\<close>

lemma msg_body_writer:
  "buf_writer
     (buf_seq
       [app am ''MSG '', app am pfx, app am subject, app_byte am (CHR '' ''),
        app am sid, app_byte am (CHR '' ''),
        if length reply_to \<noteq> 0 then buf_seq [app am reply_to, app_byte am (CHR '' '')] else Pair True,
        append_decimal am (length payload), app am [CR, LF], app am payload, app am [CR, LF]])
     (msg_frame (pfx @ subject) sid reply_to payload)"
proof -
  have r: "buf_writer (buf_seq [app am reply_to, app_byte am (CHR '' '')]) (concat [reply_to, '' ''])"
    by (intro buf_writer_seq list.rel_intros buf_writer_append buf_writer_append_byte)
  have "buf_writer
     (buf_seq
       [app am ''MSG '', app am pfx, app am subject, app_byte am (CHR '' ''),
        app am sid, app_byte am (CHR '' ''),
        if length reply_to \<noteq> 0 then buf_seq [app am reply_to, app_byte am (CHR '' '')] else Pair True,
        append_decimal am (length payload), app am [CR, LF], app am payload, app am [CR, LF]])
     (concat [''MSG '', pfx, subject, '' '', sid, '' '',
        if length reply_to \<noteq> 0 then concat [reply_to, '' ''] else [],
        dec_digits (length payload), [CR, LF], payload, [CR, LF]])"
    unfolding append_decimal_eq
    by (intro buf_writer_seq list.rel_intros buf_writer_append buf_writer_append_byte
         buf_writer_if r buf_writer_True)
  then show ?thesis by (simp add: msg_frame_def split: if_splits)
qed

lemma mb_write_msg_atomic:
  assumes "buf_wf out"
  shows "let frame = msg_frame (pfx @ subject) sid reply_to payload;
             (ok, out') = mb_write_msg_prefixed_with_reply am out pfx subject sid reply_to payload
         in buf_wf out' \<and> buf_data out' = (if ok then buf_data out @ frame else buf_data out) \<and>
            (ok \<longleftrightarrow> length frame \<le> SIZE_MAX \<and> fst (mb_buf_reserve am out (length frame)))"
proof -
  let ?frame = "msg_frame (pfx @ subject) sid reply_to payload"
  let ?n = "length ?frame"
  obtain ok out1 where r: "mb_buf_reserve am out ?n = (ok, out1)" by fastforce
  have 1: "buf_wf out1" "buf_data out1 = buf_data out" "ok \<Longrightarrow> buf_len out1 + ?n \<le> buf_cap out1"
    using mb_buf_reserve_wf [OF assms, of am ?n] mb_buf_reserve_data [of am out ?n]
      mb_buf_reserve_cap [of am out ?n] by (simp_all add: r)
  note body = msg_body_writer [of am pfx subject sid reply_to payload]
  have 2: "mb_write_msg_prefixed_with_reply am out pfx subject sid reply_to payload =
      (if ?n \<le> SIZE_MAX then if ok then (True, snd (buf_seq
       [app am ''MSG '', app am pfx, app am subject, app_byte am (CHR '' ''),
        app am sid, app_byte am (CHR '' ''),
        if length reply_to \<noteq> 0 then buf_seq [app am reply_to, app_byte am (CHR '' '')] else Pair True,
        append_decimal am (length payload), app am [CR, LF], app am payload, app am [CR, LF]] out1))
        else (False, out1) else (False, out))"
    using buf_writer.writes_with_room [OF body 1(1)] 1(3) r
    unfolding mb_write_msg_prefixed_with_reply_def frame_len_eq Let_def
    by (cases ok) (auto simp del: buf_seq.simps(2) simp: buf_seq.simps(2) [of "\<lambda>out. mb_buf_reserve am out ?n"])
  show ?thesis
    unfolding 2 using 1 assms buf_writer.writes_with_room [OF body 1(1)] buf_writer.keeps_wf [OF body 1(1)] r
    by (cases ok) (auto simp: Let_def simp del: buf_seq.simps)
qed

text \<open>
  \<^bold>\<open>C30\<close> A \<open>MSG\<close> frame is written completely or not at all. On a well-formed buffer
  \<open>mb_write_msg_prefixed_with_reply\<close> either succeeds and appends exactly the frame, or
  fails and leaves the bytes of the buffer as they were; it can only fail when the frame
  length does not fit \<open>size_t\<close> or the one allocation for the whole frame is refused.
\<close>

theorem write_msg_atomic:
  assumes "buf_wf out"
  shows "let frame = msg_frame (pfx @ subject) sid reply_to payload;
             (ok, out') = mb_write_msg_prefixed_with_reply am out pfx subject sid reply_to payload
         in buf_wf out' \<and> buf_data out' = (if ok then buf_data out @ frame else buf_data out) \<and>
            (ok \<longleftrightarrow> length frame \<le> SIZE_MAX \<and> fst (mb_buf_reserve am out (length frame)))"
  using assms by (rule mb_write_msg_atomic)

theorem write_msg_atomic_witness:
  "buf_data (snd (mb_write_msg_prefixed_with_reply (\<lambda>_. True) mb_buf_zero ''p.'' ''a'' ''7'' [] ''hi''))
     = ''MSG p.a 7 2'' @ [CR, LF] @ ''hi'' @ [CR, LF]"
proof -
  have frame: "msg_frame ''p.a'' ''7'' [] ''hi'' = ''MSG p.a 7 2'' @ [CR, LF] @ ''hi'' @ [CR, LF]"
    by code_simp
  have "buf_wf mb_buf_zero" by (simp add: buf_wf_def mb_buf_zero_def)
  moreover have "fst (mb_write_msg_prefixed_with_reply (\<lambda>_. True) mb_buf_zero ''p.'' ''a'' ''7'' [] ''hi'')"
    by code_simp
  ultimately show ?thesis
    using write_msg_atomic [of mb_buf_zero "''p.''" "''a''" "''7''" "[]" "''hi''" "\<lambda>_. True"] frame
    by (auto simp: Let_def mb_buf_zero_def split: prod.splits)
qed

interpretation write_pong: buf_writer "mb_write_pong am" "''PONG'' @ [CR, LF]" for am
  unfolding mb_write_pong_def by (rule buf_writer_append)

definition err_frame :: "bytes \<Rightarrow> bytes" where
  "err_frame msg = ''-ERR '' @ [CHR 0x27] @ msg @ [CHR 0x27, CR, LF]"

lemma mb_write_err_writer: "buf_writer (\<lambda>out. mb_write_err am out msg) (err_frame msg)"
proof -
  have "buf_writer (buf_seq [app am (''-ERR '' @ [CHR 0x27]), app am msg, app am [CHR 0x27, CR, LF]])
      (concat [''-ERR '' @ [CHR 0x27], msg, [CHR 0x27, CR, LF]])"
    by (rule buf_writer_seq) (simp add: buf_writer_append)
  then show ?thesis by (simp add: mb_write_err_def [abs_def] err_frame_def del: buf_seq.simps)
qed

interpretation write_err: buf_writer "\<lambda>out. mb_write_err am out msg" "err_frame msg" for am msg
  by (rule mb_write_err_writer)


section \<open>JSON strings and the \<open>INFO\<close> line\<close>

definition json_esc :: "char \<Rightarrow> bytes" where
  "json_esc c =
     (if c = CHR 0x22 \<or> c = CHR 0x5C then [CHR 0x5C, c]
      else if byte_val c < 0x20
      then CHR 0x5C # ''u00'' @ [hex_char (byte_val c div 16), hex_char (byte_val c mod 16)]
      else [c])"

definition json_quote :: "bytes \<Rightarrow> bytes" where
  "json_quote s = [CHR 0x22] @ concat (map json_esc (takeWhile (\<lambda>c. c \<noteq> CHR 0x00) s)) @ [CHR 0x22]"

lemma append_json_char_writer: "buf_writer (append_json_char am c) (json_esc c)"
proof -
  have "buf_writer (buf_seq [app_byte am (CHR 0x5C), app_byte am c]) (concat [[CHR 0x5C], [c]])"
    "buf_writer (buf_seq [app am (CHR 0x5C # ''u00''), app_byte am d, app_byte am d'])
       (concat [CHR 0x5C # ''u00'', [d], [d']])" for d d'
    by (intro buf_writer_seq list.rel_intros buf_writer_append buf_writer_append_byte)+
  moreover have "append_json_char am c =
     (if c = CHR 0x22 \<or> c = CHR 0x5C then buf_seq [app_byte am (CHR 0x5C), app_byte am c]
      else if byte_val c < 0x20 then
        buf_seq [app am (CHR 0x5C # ''u00''), app_byte am (hex_char (byte_val c div 16)),
                 app_byte am (hex_char (byte_val c mod 16))]
      else app_byte am c)"
    by (rule ext) (simp add: append_json_char_def del: buf_seq.simps)
  ultimately show ?thesis
    using buf_writer_append_byte [of am c] by (simp add: json_esc_def del: buf_seq.simps)
qed

lemma append_json_loop_Cons:
  "append_json_loop am (c # cs) =
     (if c = CHR 0x00 then Pair True else buf_seq [append_json_char am c, append_json_loop am cs])"
  by (rule ext) (auto split: prod.splits bool.splits)

lemma append_json_loop_writer:
  "buf_writer (append_json_loop am s) (concat (map json_esc (takeWhile (\<lambda>c. c \<noteq> CHR 0x00) s)))"
proof (induction s)
  case Nil
  have "append_json_loop am [] = Pair True" by (rule ext) simp
  then show ?case using buf_writer_True by simp
next
  case (Cons c s)
  have "buf_writer (buf_seq [append_json_char am c, append_json_loop am s])
    (concat [json_esc c, concat (map json_esc (takeWhile (\<lambda>c. c \<noteq> CHR 0x00) s))])"
    by (intro buf_writer_seq list.rel_intros append_json_char_writer Cons.IH)
  then show ?case
    using buf_writer_True by (simp add: append_json_loop_Cons del: append_json_loop.simps buf_seq.simps)
qed

lemma append_json_string_writer: "buf_writer (append_json_string am s) (json_quote s)"
proof -
  have "buf_writer (append_json_string am s) (concat [[CHR 0x22],
      concat (map json_esc (takeWhile (\<lambda>c. c \<noteq> CHR 0x00) s)), [CHR 0x22]])"
    unfolding append_json_string_def
    by (intro buf_writer_seq list.rel_intros buf_writer_append_byte append_json_loop_writer)
  then show ?thesis by (simp add: json_quote_def)
qed

text \<open>A reader of JSON strings: the characters up to the closing quote and the rest.\<close>

definition hex_val :: "char \<Rightarrow> nat" where
  "hex_val c = (if is_digit c then digit_val c else byte_val c - 87)"

fun json_read :: "bytes \<Rightarrow> (bytes \<times> bytes) option" where
  "json_read [] = None"
| "json_read (c # cs) =
     (if c = CHR 0x22 then Some ([], cs)
      else if c \<noteq> CHR 0x5C then map_option (apfst (Cons c)) (json_read cs)
      else case cs of
             e # ds \<Rightarrow>
               if e = CHR ''u''
               then case ds of
                      _ # _ # a # b # rest \<Rightarrow>
                        map_option (apfst (Cons (char_of (16 * hex_val a + hex_val b)))) (json_read rest)
                    | _ \<Rightarrow> None
               else map_option (apfst (Cons e)) (json_read ds)
           | [] \<Rightarrow> None)"

lemma hex_val_hex_char: "n < 16 \<Longrightarrow> hex_val (hex_char n) = n"
proof -
  have "\<forall>n \<in> set [0..<16]. hex_val (hex_char n) = n" by code_simp
  then show "n < 16 \<Longrightarrow> hex_val (hex_char n) = n" by auto
qed

lemma json_read_esc: "json_read (json_esc c @ t) = map_option (apfst (Cons c)) (json_read t)"
proof -
  have "16 * hex_val (hex_char (byte_val c div 16)) + hex_val (hex_char (byte_val c mod 16)) = byte_val c"
    by (simp add: hex_val_hex_char byte_val_def less_mult_imp_div_less)
  then have "char_of (16 * hex_val (hex_char (byte_val c div 16)) + hex_val (hex_char (byte_val c mod 16))) = c"
    by (simp add: byte_val_def)
  then show ?thesis by (auto simp: json_esc_def)
qed

lemma json_read_quote:
  assumes "CHR 0x00 \<notin> set s"
  shows "json_read (tl (json_quote s) @ t) = Some (s, t)"
proof -
  have "takeWhile (\<lambda>c. c \<noteq> CHR 0x00) s = s"
    using assms by (auto simp: takeWhile_eq_all_conv)
  moreover have "json_read (concat (map json_esc s) @ CHR 0x22 # t) = Some (s, t)"
    by (induction s) (simp_all add: json_read_esc)
  ultimately show ?thesis by (simp add: json_quote_def)
qed

lemma json_quote_no_control: "c \<in> set (json_quote s) \<Longrightarrow> 0x20 \<le> byte_val c"
proof -
  have hex: "\<forall>n \<in> set [0..<16]. 0x20 \<le> byte_val (hex_char n)" by code_simp
  have "0x20 \<le> byte_val c" if "c \<in> set (json_esc d)" for d
  proof -
    have "byte_val d div 16 < 16" "byte_val d mod 16 < 16"
      using byte_val_lt [of d] by (simp_all add: less_mult_imp_div_less)
    with hex have "0x20 \<le> byte_val (hex_char (byte_val d div 16))"
      "0x20 \<le> byte_val (hex_char (byte_val d mod 16))" by auto
    with that show ?thesis by (auto simp: json_esc_def byte_val_def split: if_splits)
  qed
  then show "c \<in> set (json_quote s) \<Longrightarrow> 0x20 \<le> byte_val c"
    by (auto simp: json_quote_def byte_val_def)
qed

definition info_body :: "bytes \<Rightarrow> bytes \<Rightarrow> mb_info \<Rightarrow> bytes list" where
  "info_body version build info =
     [''INFO {'' @ json_key ''server_id'', json_quote (info_server_id info),
      CHR '','' # json_key ''server_name'', json_quote (info_server_id info),
      CHR '','' # json_key ''version'', json_quote version,
      CHR '','' # json_key ''proto'' @ ''1,'' @ json_key ''headers'' @ ''false,''
        @ json_key ''max_payload'' @ ''1048576'',
      if info_auth_required info then CHR '','' # json_key ''auth_required'' @ ''true'' else [],
      if info_tls_required info then CHR '','' # json_key ''tls_required'' @ ''true'' else [],
      CHR '','' # json_key ''host'', json_quote (info_host info),
      CHR '','' # json_key ''port'', dec_digits (unat (info_port info)),
      CHR '','' # json_key ''client_id'', dec_digits (unat (info_client_id info)),
      CHR '','' # json_key ''client_ip'', json_quote (info_client_ip info),
      CHR '','' # json_key ''build'', json_quote build]"

lemma mb_write_info_writer:
  "buf_writer (\<lambda>out. mb_write_info version build am out info)
     (concat (info_body version build info @ [''}'' @ [CR, LF]]))"
  unfolding mb_write_info_def info_body_def append_decimal_eq append_u64_decimal_eq append_Cons append_Nil
  by (intro buf_writer_seq list.rel_intros buf_writer_append buf_writer_if buf_writer_True
       append_json_string_writer)

interpretation write_info: buf_writer "\<lambda>out. mb_write_info version build am out info"
  "concat (info_body version build info @ [''}'' @ [CR, LF]])" for version build am info
  by (rule mb_write_info_writer)

definition no_control :: "bytes \<Rightarrow> bool" where
  "no_control s \<longleftrightarrow> (\<forall>c \<in> set s. 0x20 \<le> byte_val c)"

lemma no_control_simps:
  "no_control []" "no_control (c # s) \<longleftrightarrow> 0x20 \<le> byte_val c \<and> no_control s"
  "no_control (s @ t) \<longleftrightarrow> no_control s \<and> no_control t"
  by (auto simp: no_control_def)

lemma no_control_line: "no_control s \<Longrightarrow> LF \<notin> set s \<and> CR \<notin> set s"
proof -
  have "byte_val LF = 10" "byte_val CR = 13" by (simp_all add: LF_def CR_def byte_val_def)
  then show "no_control s \<Longrightarrow> ?thesis" by (auto simp: no_control_def)
qed

lemma no_control_dec: "no_control (dec_digits n)"
  by (auto simp: no_control_def is_digit_def dest!: dec_digits_digits)

lemma info_body_no_control: "no_control (concat (info_body version build info))"
proof -
  have "no_control (json_quote t)" for t
    by (simp add: no_control_def json_quote_no_control)
  then show ?thesis
    by (simp add: info_body_def no_control_simps no_control_dec json_key_def byte_val_def)
qed

text \<open>
  The \<open>INFO\<close> greeting is one protocol line that carries its strings faithfully. On
  success \<open>mb_write_info\<close> appends one line whose only line feed is the last byte, whatever
  the configured server name, host, client address, version and build strings hold, and a
  JSON reader recovers the server id from the position where it was written.
\<close>

theorem write_info_one_line:
  assumes "buf_wf out" and "mb_write_info version build am out info = (True, out')"
  shows "\<exists>line. buf_data out' = buf_data out @ line @ [CR, LF] \<and> LF \<notin> set line \<and> CR \<notin> set line \<and>
    (CHR 0x00 \<notin> set (info_server_id info) \<longrightarrow>
      (\<exists>t. json_read (drop (length (''INFO {'' @ json_key ''server_id'') + 1) line)
         = Some (info_server_id info, t)))"
proof -
  let ?line = "concat (info_body version build info) @ ''}''"
  have "buf_data out' = buf_data out @ ?line @ [CR, LF]"
    using write_info.appends [OF assms(1), of version build am info] assms(2) by simp
  moreover have "LF \<notin> set ?line" "CR \<notin> set ?line"
    using no_control_line [OF info_body_no_control [of version build info]]
    by (simp_all add: LF_def CR_def)
  moreover have "\<exists>t. json_read (drop (length (''INFO {'' @ json_key ''server_id'') + 1) ?line)
      = Some (info_server_id info, t)" if "CHR 0x00 \<notin> set (info_server_id info)"
  proof -
    obtain u where "?line = (''INFO {'' @ json_key ''server_id'') @ json_quote (info_server_id info) @ u"
      by (rule that [of "concat (drop 2 (info_body version build info)) @ ''}''"]) (simp add: info_body_def)
    then have "drop (length (''INFO {'' @ json_key ''server_id'') + 1) ?line =
        tl (json_quote (info_server_id info)) @ u"
      by (simp add: json_quote_def json_key_def)
    then show ?thesis using json_read_quote [OF that] by metis
  qed
  ultimately show ?thesis by blast
qed


theorem write_info_one_line_witness:
  "\<exists>info out' line. mb_write_info ''1.0'' ''dev'' (\<lambda>_. True) mb_buf_zero info = (True, out') \<and>
     info_host info = [LF] \<and> buf_data out' = line @ [CR, LF] \<and> LF \<notin> set line"
proof -
  let ?info = "\<lparr>info_server_id = ''mb'', info_host = [LF], info_client_ip = ''::1'', info_port = 4222,
    info_client_id = 1, info_auth_required = True, info_tls_required = False\<rparr>"
  have "fst (mb_write_info ''1.0'' ''dev'' (\<lambda>_. True) mb_buf_zero ?info)" by code_simp
  then obtain out' where w: "mb_write_info ''1.0'' ''dev'' (\<lambda>_. True) mb_buf_zero ?info = (True, out')"
    by (metis prod.collapse)
  have "buf_wf mb_buf_zero" by (simp add: buf_wf_def mb_buf_zero_def)
  from write_info_one_line [OF this w]
  obtain line where "buf_data out' = line @ [CR, LF]" "LF \<notin> set line"
    by (auto simp: mb_buf_zero_def)
  with w show ?thesis by (intro exI [of _ ?info] exI [of _ out'] exI [of _ line]) simp
qed

end
