(* ===== verification/Hash_Index.thy ===== *)
theory Hash_Index
  imports Array_Buf Slice "HOL-Library.Monad_Syntax"
begin

text \<open>
  The open-addressing hash index of \<open>src/src/router.c\<close> that maps a key to its position in
  an array: probing, insertion, lookup, growth and rebuild. The router keeps three of them
  (literal buckets, wildcard buckets, last-value entries) with one text per index; the
  loops are modelled once here, over the keys of the indexed array. Results are options:
  \<open>None\<close> stands for a probe loop that never ends and for a read outside an array.
\<close>

section \<open>Entries and probing\<close>

record mb_router_index_entry =
  ie_hash :: u64
  ie_index :: nat
  ie_occupied :: bool

definition index_entry_zero :: mb_router_index_entry where
  "index_entry_zero = \<lparr>ie_hash = 0, ie_index = 0, ie_occupied = False\<rparr>"

function next_index_cap_loop :: "nat \<Rightarrow> nat \<Rightarrow> nat" where
  "next_index_cap_loop cap needed =
     (if cap = 0 \<or> needed \<le> cap then cap
      else if SIZE_MAX div 2 < cap then 0
      else next_index_cap_loop (cap * 2) needed)"
  by pat_completeness auto
termination
  by (relation "measure (\<lambda>(cap, needed). needed - cap)") auto

declare next_index_cap_loop.simps [simp del]

definition next_index_cap :: "nat \<Rightarrow> nat" where
  "next_index_cap needed = next_index_cap_loop 16 needed"

definition home_slot :: "nat \<Rightarrow> u64 \<Rightarrow> nat" where
  "home_slot cap hash = unat (hash AND word_of_nat (cap - 1))"

definition next_slot :: "nat \<Rightarrow> nat \<Rightarrow> nat" where
  "next_slot cap slot = (slot + 1) AND (cap - 1)"

text \<open>
  The probe for a free slot. After \<open>cap\<close> steps every slot has been seen, so running out of
  steps means that the loop of the source never ends.
\<close>

fun free_slot :: "mb_router_index_entry list \<Rightarrow> nat \<Rightarrow> nat \<Rightarrow> nat option" where
  "free_slot es slot 0 = None"
| "free_slot es slot (Suc n) =
     (if length es \<le> slot then None
      else if ie_occupied (es ! slot) then free_slot es (next_slot (length es) slot) n
      else Some slot)"

definition index_insert ::
  "mb_router_index_entry list \<Rightarrow> u64 \<Rightarrow> nat \<Rightarrow> mb_router_index_entry list option" where
  "index_insert es hash index =
     do { slot \<leftarrow> free_slot es (home_slot (length es) hash) (length es);
          Some (es[slot := \<lparr>ie_hash = hash, ie_index = index, ie_occupied = True\<rparr>]) }"

definition clear_index :: "mb_router_index_entry list \<Rightarrow> mb_router_index_entry list" where
  "clear_index es = map (\<lambda>_. index_entry_zero) es"

text \<open>The loop that inserts every key of the indexed array, from position \<open>i\<close> on.\<close>

fun index_insert_keys ::
  "mb_router_index_entry list \<Rightarrow> nat \<Rightarrow> bytes list \<Rightarrow> mb_router_index_entry list option" where
  "index_insert_keys es i [] = Some es"
| "index_insert_keys es i (key # keys) =
     do { es \<leftarrow> index_insert es (mb_slice_hash key) i; index_insert_keys es (i + 1) keys }"

text \<open>\<open>sizeof (mb_router_index_entry)\<close> is 24.\<close>

definition index_ensure ::
  "allocator \<Rightarrow> bytes list \<Rightarrow> mb_router_index_entry list \<Rightarrow> nat
   \<Rightarrow> (bool \<times> mb_router_index_entry list) option" where
  "index_ensure am keys es needed =
     (if length es \<noteq> 0 \<and> needed < length es div 2 then Some (True, es)
      else if SIZE_MAX div 4 < needed then Some (False, es)
      else let cap = next_index_cap (if needed = 0 then 16 else needed * 4)
           in if cap = 0 then Some (False, es)
              else if \<not> am (cap * 24) then Some (False, es)
              else do { entries \<leftarrow> index_insert_keys (replicate cap index_entry_zero) 0 keys;
                        Some (True, entries) })"

definition index_refresh ::
  "bytes list \<Rightarrow> mb_router_index_entry list \<Rightarrow> mb_router_index_entry list option" where
  "index_refresh keys es =
     (if length es = 0 then Some es else index_insert_keys (clear_index es) 0 keys)"

fun index_find_loop ::
  "bytes list \<Rightarrow> mb_router_index_entry list \<Rightarrow> bytes \<Rightarrow> u64 \<Rightarrow> nat \<Rightarrow> nat \<Rightarrow> nat option" where
  "index_find_loop keys es key hash slot 0 = None"
| "index_find_loop keys es key hash slot (Suc n) =
     (if length es \<le> slot then None
      else let entry = es ! slot
           in if \<not> ie_occupied entry then Some SIZE_MAX
              else if length keys \<le> ie_index entry then None
              else if ie_hash entry = hash \<and> mb_slice_eq (keys ! ie_index entry) key
              then Some (ie_index entry)
              else index_find_loop keys es key hash (next_slot (length es) slot) n)"

definition index_find ::
  "bytes list \<Rightarrow> mb_router_index_entry list \<Rightarrow> bytes \<Rightarrow> u64 \<Rightarrow> nat option" where
  "index_find keys es key hash =
     (if length es = 0 then Some SIZE_MAX
      else index_find_loop keys es key hash (home_slot (length es) hash) (length es))"

section \<open>Slots of a table whose size is a power of two\<close>

definition index_cap_ok :: "nat \<Rightarrow> bool" where
  "index_cap_ok cap \<longleftrightarrow> (\<exists>n \<le> 63. cap = 2 ^ n)"

lemma index_cap_ok_pos: "index_cap_ok cap \<Longrightarrow> 0 < cap"
  by (auto simp: index_cap_ok_def)

lemma index_cap_ok_lt_SIZE_MAX: "index_cap_ok cap \<Longrightarrow> cap < SIZE_MAX"
proof -
  assume "index_cap_ok cap"
  then obtain n where "n \<le> 63" "cap = 2 ^ n" by (auto simp: index_cap_ok_def)
  then have "cap \<le> 2 ^ 63" using power_increasing [of n 63 "2::nat"] by linarith
  then show ?thesis by (simp add: SIZE_MAX_def)
qed

lemma next_index_cap_loop_spec:
  "index_cap_ok cap \<Longrightarrow> needed \<le> SIZE_MAX \<Longrightarrow>
   next_index_cap_loop cap needed = 0 \<or>
   (index_cap_ok (next_index_cap_loop cap needed) \<and> needed \<le> next_index_cap_loop cap needed)"
proof (induction cap needed rule: next_index_cap_loop.induct)
  case (1 cap needed)
  show ?case
  proof (cases "needed \<le> cap \<or> SIZE_MAX div 2 < cap")
    case True
    with 1(2) index_cap_ok_pos [OF 1(2)] show ?thesis
      by (subst (1 2 3) next_index_cap_loop.simps) auto
  next
    case False
    from 1(2) obtain n where n: "n \<le> 63" "cap = 2 ^ n" by (auto simp: index_cap_ok_def)
    with False have "n < 63"
      by (cases "n = 63") (auto simp: SIZE_MAX_def)
    with n have "index_cap_ok (cap * 2)"
      by (auto simp: index_cap_ok_def intro!: exI [of _ "Suc n"])
    with 1 False index_cap_ok_pos [OF 1(2)] show ?thesis
      by (subst (1 2 3) next_index_cap_loop.simps) auto
  qed
qed

lemma next_index_cap_spec:
  assumes "needed \<le> SIZE_MAX" "next_index_cap needed \<noteq> 0"
  shows "index_cap_ok (next_index_cap needed)" "needed \<le> next_index_cap needed"
proof -
  have "index_cap_ok 16" by (auto simp: index_cap_ok_def intro!: exI [of _ 4])
  with next_index_cap_loop_spec [OF this assms(1)] assms(2)
  show "index_cap_ok (next_index_cap needed)" "needed \<le> next_index_cap needed"
    by (auto simp: next_index_cap_def)
qed

lemma next_slot_mod: "index_cap_ok cap \<Longrightarrow> next_slot cap slot = Suc slot mod cap"
  by (auto simp: index_cap_ok_def next_slot_def take_bit_eq_mod [symmetric] take_bit_eq_mask mask_eq_exp_minus_1)

lemma home_slot_mod:
  assumes "index_cap_ok cap"
  shows "home_slot cap hash = unat hash mod cap"
proof -
  from assms obtain n where n: "n \<le> 63" "cap = 2 ^ n" by (auto simp: index_cap_ok_def)
  have "word_of_nat (cap - 1) = (mask n :: u64)"
    using n by (simp add: mask_eq_exp_minus_1 of_nat_diff)
  then have "home_slot cap hash = unat (take_bit n hash)"
    by (simp add: home_slot_def take_bit_eq_mask)
  also have "\<dots> = take_bit n (unat hash)" by (simp add: unsigned_take_bit_eq)
  finally show ?thesis by (simp add: take_bit_eq_mod n)
qed

lemma home_slot_lt: "index_cap_ok cap \<Longrightarrow> home_slot cap hash < cap"
  by (simp add: home_slot_mod index_cap_ok_pos)

text \<open>The slot after \<open>k\<close> steps of the probe that starts at \<open>h\<close>.\<close>

definition probe :: "nat \<Rightarrow> nat \<Rightarrow> nat \<Rightarrow> nat" where
  "probe cap h k = (h + k) mod cap"

lemma probe_0: "h < cap \<Longrightarrow> probe cap h 0 = h"
  by (simp add: probe_def)

lemma probe_Suc: "index_cap_ok cap \<Longrightarrow> next_slot cap (probe cap h k) = probe cap h (Suc k)"
  by (simp add: probe_def next_slot_mod mod_Suc_eq)

lemma probe_lt: "0 < cap \<Longrightarrow> probe cap h k < cap"
  by (simp add: probe_def)

lemma probe_reaches: "h < cap \<Longrightarrow> s < cap \<Longrightarrow> \<exists>k < cap. probe cap h k = s"
proof -
  assume h: "h < cap" and s: "s < cap"
  show ?thesis
  proof (cases "h \<le> s")
    case True
    then show ?thesis using s by (intro exI [of _ "s - h"]) (simp add: probe_def)
  next
    case False
    then have "h + (cap + s - h) = cap + s" using h by simp
    then show ?thesis using False h s
      by (intro exI [of _ "cap + s - h"]) (simp add: probe_def)
  qed
qed

section \<open>The invariant of an index\<close>

definition occupied_slots :: "mb_router_index_entry list \<Rightarrow> nat set" where
  "occupied_slots es = {s. s < length es \<and> ie_occupied (es ! s)}"

text \<open>Position \<open>i\<close> is found on the probe path of its key: every slot before it is taken.\<close>

definition reachable_at :: "bytes list \<Rightarrow> mb_router_index_entry list \<Rightarrow> nat \<Rightarrow> nat \<Rightarrow> bool" where
  "reachable_at keys es i k \<longleftrightarrow>
     (let path = probe (length es) (home_slot (length es) (mb_slice_hash (keys ! i)))
      in ie_index (es ! path k) = i \<and> (\<forall>j \<le> k. path j \<in> occupied_slots es))"

definition index_table_ok :: "bytes list \<Rightarrow> mb_router_index_entry list \<Rightarrow> bool" where
  "index_table_ok keys es \<longleftrightarrow>
     index_cap_ok (length es) \<and>
     (\<forall>s \<in> occupied_slots es. ie_index (es ! s) < length keys
        \<and> ie_hash (es ! s) = mb_slice_hash (keys ! ie_index (es ! s))) \<and>
     (\<forall>i < length keys. \<exists>k < length es. reachable_at keys es i k) \<and>
     card (occupied_slots es) = length keys"

definition index_ok :: "bytes list \<Rightarrow> mb_router_index_entry list \<Rightarrow> bool" where
  "index_ok keys es \<longleftrightarrow>
     distinct keys \<and>
     (if es = [] then keys = [] else index_table_ok keys es \<and> 2 * length keys \<le> length es)"

lemma occupied_slots_finite [simp]: "finite (occupied_slots es)"
  by (simp add: occupied_slots_def)

lemma occupied_slots_bound: "occupied_slots es \<subseteq> {..<length es}"
  by (auto simp: occupied_slots_def)

lemma free_slot_exists: "card (occupied_slots es) < length es \<Longrightarrow> \<exists>s < length es. s \<notin> occupied_slots es"
  by (metis card_lessThan card_mono lessThan_iff linorder_not_le occupied_slots_finite subsetI)

lemma index_table_ok_empty: "index_cap_ok cap \<Longrightarrow> index_table_ok [] (replicate cap index_entry_zero)"
  by (simp add: index_table_ok_def occupied_slots_def index_entry_zero_def cong: conj_cong)

lemma index_ok_small: "index_ok keys es \<Longrightarrow> length keys < SIZE_MAX"
  using index_cap_ok_lt_SIZE_MAX [of "length es"]
  by (auto simp: index_ok_def index_table_ok_def SIZE_MAX_def split: if_splits)

lemma index_ok_table:
  assumes "index_ok keys es" "es \<noteq> []"
  shows "index_table_ok keys es" "index_cap_ok (length es)" "2 * length keys \<le> length es"
    "length keys < length es"
proof -
  show "index_table_ok keys es" "index_cap_ok (length es)" "2 * length keys \<le> length es"
    using assms by (auto simp: index_ok_def index_table_ok_def)
  moreover have "0 < length es" using assms(2) by simp
  ultimately show "length keys < length es" by linarith
qed

section \<open>Insertion\<close>

lemma free_slot_walk:
  assumes "index_cap_ok (length es)" "\<forall>j < k. probe (length es) h j \<in> occupied_slots es"
    and "probe (length es) h k \<notin> occupied_slots es" "j \<le> k" "k < i"
  shows "free_slot es (probe (length es) h j) (i - j) = Some (probe (length es) h k)"
  using assms(4-)
proof (induction "k - j" arbitrary: j)
  case 0
  then have "j = k" by simp
  with 0 assms probe_lt [OF index_cap_ok_pos [OF assms(1)], of h k] show ?case
    by (cases "i - j") (auto simp: occupied_slots_def)
next
  case (Suc m)
  then have lt: "j < k" and m: "m = k - Suc j" by auto
  with assms(2) have occ: "probe (length es) h j \<in> occupied_slots es" by simp
  have "free_slot es (probe (length es) h (Suc j)) (i - Suc j) = Some (probe (length es) h k)"
    using Suc lt m by (intro Suc.hyps(1)) auto
  moreover have "i - j = Suc (i - Suc j)" using Suc lt by linarith
  ultimately show ?case
    using occ probe_Suc [OF assms(1)] by (auto simp: occupied_slots_def)
qed

lemma free_slot_spec:
  assumes cap: "index_cap_ok (length es)" and "card (occupied_slots es) < length es" "h < length es"
  obtains k where "k < length es" "free_slot es h (length es) = Some (probe (length es) h k)"
    "probe (length es) h k \<notin> occupied_slots es" "\<forall>j < k. probe (length es) h j \<in> occupied_slots es"
proof -
  let ?P = "\<lambda>k. probe (length es) h k \<notin> occupied_slots es"
  obtain k0 where k0: "k0 < length es" "?P k0"
    using free_slot_exists [OF assms(2)] probe_reaches [OF assms(3)] by metis
  define k where "k = (LEAST k. ?P k)"
  have k: "?P k" "\<forall>j < k. \<not> ?P j" "k < length es"
    unfolding k_def using k0 Least_le [of ?P k0] LeastI [of ?P k0] by (auto dest: not_less_Least)
  then have "free_slot es (probe (length es) h 0) (length es - 0) = Some (probe (length es) h k)"
    using free_slot_walk [OF cap, of k h 0 "length es"] by simp
  with k show thesis using that [of k] assms(3) by (simp add: probe_0)
qed

lemma occupied_slots_update:
  "s < length es \<Longrightarrow> ie_occupied e \<Longrightarrow> occupied_slots (es[s := e]) = insert s (occupied_slots es)"
  by (auto simp: occupied_slots_def nth_list_update)

lemma index_insert_spec:
  assumes ok: "index_table_ok keys es" and room: "length keys < length es"
  obtains es' where "index_insert es (mb_slice_hash key) (length keys) = Some es'"
    "index_table_ok (keys @ [key]) es'" "length es' = length es"
proof -
  let ?n = "length es"
  let ?h = "home_slot ?n (mb_slice_hash key)"
  let ?e = "\<lparr>ie_hash = mb_slice_hash key, ie_index = length keys, ie_occupied = True\<rparr>"
  from ok have cap: "index_cap_ok ?n" and card: "card (occupied_slots es) = length keys"
    by (auto simp: index_table_ok_def)
  obtain k where k: "k < ?n" "free_slot es ?h ?n = Some (probe ?n ?h k)"
      "probe ?n ?h k \<notin> occupied_slots es" "\<forall>j < k. probe ?n ?h j \<in> occupied_slots es"
    using free_slot_spec [OF cap _ home_slot_lt [OF cap]] card room by metis
  let ?s = "probe ?n ?h k"
  let ?es = "es[?s := ?e]"
  have s: "?s < ?n" using probe_lt [OF index_cap_ok_pos [OF cap]] .
  have occ: "occupied_slots ?es = insert ?s (occupied_slots es)"
    using s by (rule occupied_slots_update) simp
  have "index_insert es (mb_slice_hash key) (length keys) = Some ?es"
    using k by (simp add: index_insert_def)
  moreover have "index_table_ok (keys @ [key]) ?es"
    unfolding index_table_ok_def
  proof (intro conjI allI ballI impI)
    show "index_cap_ok (length ?es)" using cap by simp
    show "card (occupied_slots ?es) = length (keys @ [key])"
      using card k(3) by (simp add: occ)
    fix t assume "t \<in> occupied_slots ?es"
    then consider "t = ?s" | "t \<noteq> ?s" "t \<in> occupied_slots es" by (auto simp: occ)
    then show "ie_index (?es ! t) < length (keys @ [key])"
      "ie_hash (?es ! t) = mb_slice_hash ((keys @ [key]) ! ie_index (?es ! t))"
      using ok s by (cases; auto simp: index_table_ok_def nth_append less_Suc_eq)+
  next
    fix i assume i: "i < length (keys @ [key])"
    show "\<exists>k < length ?es. reachable_at (keys @ [key]) ?es i k"
    proof (cases "i = length keys")
      case True
      then show ?thesis using k(1,4) s
        by (auto simp: reachable_at_def Let_def occ le_less intro!: exI [of _ k])
    next
      case False
      with i have "i < length keys" by simp
      with ok obtain j where j: "j < ?n" "reachable_at keys es i j"
        unfolding index_table_ok_def by blast
      let ?p = "probe ?n (home_slot ?n (mb_slice_hash (keys ! i)))"
      from j k(3) have "?p j \<noteq> ?s" by (auto simp: reachable_at_def Let_def)
      with j False i show ?thesis
        by (auto simp: reachable_at_def Let_def occ nth_append intro!: exI [of _ j])
    qed
  qed
  ultimately show thesis using that by simp
qed

lemma index_insert_keys_spec:
  assumes "index_table_ok old es" "length old + length keys < length es"
  obtains es' where "index_insert_keys es (length old) keys = Some es'"
    "index_table_ok (old @ keys) es'" "length es' = length es"
  using assms
proof (induction keys arbitrary: thesis "old" es)
  case (Cons key keys)
  obtain es1 where es1: "index_insert es (mb_slice_hash key) (length old) = Some es1"
      "index_table_ok (old @ [key]) es1" "length es1 = length es"
    using index_insert_spec [OF Cons.prems(2)] Cons.prems(3) by (metis add_lessD1)
  obtain es' where "index_insert_keys es1 (length (old @ [key])) keys = Some es'"
      "index_table_ok ((old @ [key]) @ keys) es'" "length es' = length es1"
    using Cons.IH [OF _ es1(2)] es1(3) Cons.prems(3) by auto
  with es1 show ?case by (intro Cons.prems(1) [of es']) auto
qed simp

text \<open>Rebuilding an index that has room for its keys always ends, and gives a right index.\<close>

lemma index_rebuild_spec:
  assumes "index_cap_ok cap" "length keys < cap"
  obtains es where "index_insert_keys (replicate cap index_entry_zero) 0 keys = Some es"
    "index_table_ok keys es" "length es = cap"
  using index_insert_keys_spec [OF index_table_ok_empty [OF assms(1)], of keys] assms(2) by auto


lemma index_ensure_spec:
  assumes "index_ok keys es"
  obtains ok es' where "index_ensure am keys es (length keys + 1) = Some (ok, es')"
    "index_ok keys es'" "ok \<Longrightarrow> es' \<noteq> [] \<and> 2 * (length keys + 1) \<le> length es'" "\<not> ok \<Longrightarrow> es' = es"
proof (cases "length es \<noteq> 0 \<and> length keys + 1 < length es div 2")
  case True
  then show thesis using assms that [of True es] by (auto simp: index_ensure_def)
next
  case False
  let ?cap = "next_index_cap ((length keys + 1) * 4)"
  show thesis
  proof (cases "SIZE_MAX div 4 < length keys + 1 \<or> ?cap = 0 \<or> \<not> am (?cap * 24)")
    case True
    have "index_ensure am keys es (length keys + 1) = Some (False, es)"
      using False True by (auto simp: index_ensure_def Let_def)
    then show thesis using that assms by blast
  next
    case big: False
    then have "length keys + 1 \<le> SIZE_MAX div 4" by simp
    then have "(length keys + 1) * 4 \<le> SIZE_MAX" by (simp add: SIZE_MAX_value)
    with big have cap: "index_cap_ok ?cap" "(length keys + 1) * 4 \<le> ?cap"
      using next_index_cap_spec by blast+
    then have "length keys < ?cap" by simp
    then obtain es' where es': "index_insert_keys (replicate ?cap index_entry_zero) 0 keys = Some es'"
        "index_table_ok keys es'" "length es' = ?cap"
      using index_rebuild_spec cap(1) by blast
    then have "index_ensure am keys es (length keys + 1) = Some (True, es')"
      using False big by (auto simp: index_ensure_def Let_def)
    moreover have "es' \<noteq> []" "2 * (length keys + 1) \<le> length es'" using es'(3) cap(2) by auto
    ultimately show thesis
      using that assms es' by (auto simp: index_ok_def)
  qed
qed

lemma index_ok_append:
  assumes "index_ok keys es" "es \<noteq> []" "2 * (length keys + 1) \<le> length es" "key \<notin> set keys"
  obtains es' where "index_insert es (mb_slice_hash key) (length keys) = Some es'"
    "index_ok (keys @ [key]) es'"
proof -
  from assms have tab: "index_table_ok keys es" "length keys < length es"
    by (auto simp: index_ok_def split: if_splits)
  obtain es' where es': "index_insert es (mb_slice_hash key) (length keys) = Some es'"
      "index_table_ok (keys @ [key]) es'" "length es' = length es"
    using index_insert_spec [OF tab] by blast
  have "distinct keys" using assms(1) by (simp add: index_ok_def)
  with es' assms(2-) show thesis
    by (intro that [of es']) (auto simp: index_ok_def)
qed

lemma index_refresh_spec:
  assumes "index_ok keys es" "distinct keys'" "length keys' \<le> length keys"
  obtains es' where "index_refresh keys' es = Some es'" "index_ok keys' es'" "length es' = length es"
proof (cases "es = []")
  case True
  then show thesis using assms that [of es] by (auto simp: index_ok_def index_refresh_def)
next
  case False
  then have cap: "index_cap_ok (length es)" "2 * length keys' \<le> length es" "length keys' < length es"
    using index_ok_table [OF assms(1)] assms(3) by simp_all
  have "clear_index es = replicate (length es) index_entry_zero"
    by (simp add: clear_index_def map_replicate_const)
  with False obtain es' where "index_refresh keys' es = Some es'"
      "index_table_ok keys' es'" "length es' = length es"
    using index_rebuild_spec [OF cap(1,3)] by (auto simp: index_refresh_def)
  with False cap assms(2) show thesis by (intro that [of es']) (auto simp: index_ok_def)
qed

section \<open>Lookup\<close>

text \<open>The reference: the first position of a key, by linear search.\<close>

definition position :: "bytes \<Rightarrow> bytes list \<Rightarrow> nat" where
  "position key keys = length (takeWhile (\<lambda>k. k \<noteq> key) keys)"

lemma position_lt: "key \<in> set keys \<Longrightarrow> position key keys < length keys"
  unfolding position_def
  by (metis (mono_tags, lifting) length_takeWhile_le nat_less_le set_takeWhileD takeWhile_eq_take take_all)

lemma nth_position: "key \<in> set keys \<Longrightarrow> keys ! position key keys = key"
  using nth_length_takeWhile [of "\<lambda>k. k \<noteq> key" keys] position_lt by (auto simp: position_def)

lemma position_nth: "distinct keys \<Longrightarrow> i < length keys \<Longrightarrow> position (keys ! i) keys = i"
  using nth_position [of "keys ! i" keys] position_lt [of "keys ! i" keys] nth_eq_iff_index_eq by force

lemma index_find_walk:
  fixes es :: "mb_router_index_entry list" and key :: bytes
  defines "p \<equiv> probe (length es) (home_slot (length es) (mb_slice_hash key))"
  assumes tab: "index_table_ok keys es"
    and occ: "\<forall>m < k. p m \<in> occupied_slots es \<and> keys ! ie_index (es ! p m) \<noteq> key"
    and stop: "p k \<notin> occupied_slots es \<or> keys ! ie_index (es ! p k) = key"
    and "j \<le> k" "k < n"
  shows "index_find_loop keys es key (mb_slice_hash key) (p j) (n - j) =
    Some (if p k \<in> occupied_slots es then ie_index (es ! p k) else SIZE_MAX)"
  using assms(5-)
proof (induction "k - j" arbitrary: j)
  case 0
  then have "j = k" "n - j = Suc (n - j - 1)" by auto
  moreover have "p k < length es"
    using tab by (auto simp: p_def index_table_ok_def intro!: probe_lt index_cap_ok_pos)
  moreover have "keys ! ie_index (es ! p k) = key \<and> ie_index (es ! p k) < length keys \<and>
      ie_hash (es ! p k) = mb_slice_hash key" if "p k \<in> occupied_slots es"
    using tab that stop by (auto simp: index_table_ok_def)
  ultimately show ?case
    by (cases "p k \<in> occupied_slots es") (auto simp: occupied_slots_def Let_def)
next
  case (Suc m)
  then have lt: "j < k" and m: "m = k - Suc j" by auto
  have "index_cap_ok (length es)" using tab by (simp add: index_table_ok_def)
  then have nxt: "next_slot (length es) (p j) = p (Suc j)" by (simp add: p_def probe_Suc)
  have "n - j = Suc (n - Suc j)" using Suc by linarith
  moreover have "p j \<in> occupied_slots es" "keys ! ie_index (es ! p j) \<noteq> key" using occ lt by auto
  moreover have "ie_index (es ! p j) < length keys" using tab calculation(2) by (auto simp: index_table_ok_def)
  moreover have "index_find_loop keys es key (mb_slice_hash key) (p (Suc j)) (n - Suc j) =
      Some (if p k \<in> occupied_slots es then ie_index (es ! p k) else SIZE_MAX)"
    using Suc lt m by (intro Suc.hyps(1)) auto
  ultimately show ?case
    by (simp add: occupied_slots_def Let_def nxt)
qed

text \<open>The hashed lookup always ends and agrees with the linear search.\<close>

lemma index_find_spec:
  assumes "index_ok keys es"
  shows "index_find keys es key (mb_slice_hash key) =
    Some (if key \<in> set keys then position key keys else SIZE_MAX)"
proof (cases "es = []")
  case True
  with assms show ?thesis by (simp add: index_ok_def index_find_def)
next
  case False
  with assms have tab: "index_table_ok keys es" and "length keys < length es"
    using index_ok_table by blast+
  have dist: "distinct keys" using assms by (simp add: index_ok_def)
  from tab \<open>length keys < length es\<close>
  have cap: "index_cap_ok (length es)" and room: "card (occupied_slots es) < length es"
    by (simp_all add: index_table_ok_def)
  let ?h = "home_slot (length es) (mb_slice_hash key)"
  let ?p = "probe (length es) ?h"
  let ?stop = "\<lambda>k. ?p k \<notin> occupied_slots es \<or> keys ! ie_index (es ! ?p k) = key"
  obtain s where s: "s < length es" "s \<notin> occupied_slots es" using free_slot_exists [OF room] by blast
  obtain k0 where k0: "k0 < length es" "?p k0 = s"
    using probe_reaches [OF home_slot_lt [OF cap] s(1)] by blast
  then have "?stop k0" using s(2) by blast
  define k where "k = (LEAST k. ?stop k)"
  have k: "k < length es" "?stop k" "\<forall>m < k. \<not> ?stop m"
    unfolding k_def using k0(1) Least_le [of ?stop, OF \<open>?stop k0\<close>] LeastI [of ?stop, OF \<open>?stop k0\<close>]
      not_less_Least [of _ ?stop] by (linarith, blast, blast)
  then have "index_find_loop keys es key (mb_slice_hash key) (?p 0) (length es - 0) =
      Some (if ?p k \<in> occupied_slots es then ie_index (es ! ?p k) else SIZE_MAX)"
    by (intro index_find_walk [OF tab]) auto
  then have find: "index_find keys es key (mb_slice_hash key) =
      Some (if ?p k \<in> occupied_slots es then ie_index (es ! ?p k) else SIZE_MAX)"
    using False by (simp add: index_find_def probe_0 home_slot_lt [OF cap])
  show ?thesis
  proof (cases "key \<in> set keys")
    case True
    let ?i = "position key keys"
    have i: "?i < length keys" "keys ! ?i = key" using True position_lt nth_position by auto
    obtain j where j: "reachable_at keys es ?i j" using tab i(1) by (auto simp: index_table_ok_def)
    then have "?stop j" using i(2) by (simp add: reachable_at_def Let_def)
    then have "k \<le> j" using k(3) by (meson linorder_not_le)
    with j i(2) have "?p k \<in> occupied_slots es" by (auto simp: reachable_at_def Let_def)
    moreover from this k(2) tab have "keys ! ie_index (es ! ?p k) = key" "ie_index (es ! ?p k) < length keys"
      by (auto simp: index_table_ok_def)
    moreover from this have "ie_index (es ! ?p k) = ?i" using position_nth [OF dist] by metis
    ultimately show ?thesis using find True by simp
  next
    case absent: False
    have "?p k \<notin> occupied_slots es"
      using k(2) absent tab nth_mem [of _ keys] unfolding index_table_ok_def by metis
    with find absent show ?thesis by simp
  qed
qed

section \<open>The interface the router uses\<close>

text \<open>
  A table of keyed items with an indexed lookup. The clients of a table reason with these
  laws; the literal, wildcard and last-value tables of the router interpret them.
\<close>

locale keyed_table =
  fixes keys_of :: "'t \<Rightarrow> bytes list" and ok :: "'t \<Rightarrow> bool" and find :: "'t \<Rightarrow> bytes \<Rightarrow> nat option"
  assumes distinct_keys: "ok t \<Longrightarrow> distinct (keys_of t)"
    and small: "ok t \<Longrightarrow> length (keys_of t) < SIZE_MAX"
    and find_position:
      "ok t \<Longrightarrow> find t key = Some (if key \<in> set (keys_of t) then position key (keys_of t) else SIZE_MAX)"
begin

lemma find_ends: "ok t \<Longrightarrow> \<exists>i. find t key = Some i"
  by (simp add: find_position)

lemma find_hit: "ok t \<Longrightarrow> i < length (keys_of t) \<Longrightarrow> find t (keys_of t ! i) = Some i"
  by (simp add: find_position position_nth distinct_keys)

lemma find_miss: "ok t \<Longrightarrow> key \<notin> set (keys_of t) \<Longrightarrow> find t key = Some SIZE_MAX"
  by (simp add: find_position)

lemma find_iff:
  "ok t \<Longrightarrow> i \<noteq> SIZE_MAX \<Longrightarrow> find t key = Some i \<longleftrightarrow> i < length (keys_of t) \<and> keys_of t ! i = key"
  using position_nth [OF distinct_keys, of t i]
  by (auto simp: find_position position_lt nth_position split: if_splits)

lemma find_none_iff: "ok t \<Longrightarrow> find t key = Some SIZE_MAX \<longleftrightarrow> key \<notin> set (keys_of t)"
  using small [of t] position_lt [of key "keys_of t"] by (auto simp: find_position)

end

end
