(* ===== verification/Router_Match.thy ===== *)
theory Router_Match
  imports Proto_Correct
begin

text \<open>
  Subject matching of \<open>src/src/router.c\<close>: the token cursor, the classification of filters
  and the matcher, with its meaning on the dot-separated tokens of filter and subject.
\<close>

section \<open>Tokens of a subject\<close>

text \<open>
  The token at \<open>pos\<close> and the position after it; the position is one past the end after the
  last token. The failing calls leave the position as it was.
\<close>

definition next_subject_token :: "bytes \<Rightarrow> nat \<Rightarrow> (bytes \<times> nat) option" where
  "next_subject_token s pos =
     (if length s < pos then None
      else let tok = takeWhile (\<lambda>c. c \<noteq> CHR ''.'') (drop pos s); p = pos + length tok
           in if p = pos then None
              else Some (tok, if p < length s then p + 1 else length s + 1))"

definition first_token :: "bytes \<Rightarrow> bytes" where
  "first_token s = (case next_subject_token s 0 of None \<Rightarrow> [] | Some (tok, _) \<Rightarrow> tok)"

definition is_wildcard_token :: "bytes \<Rightarrow> bool" where
  "is_wildcard_token tok \<longleftrightarrow> length tok = 1 \<and> (hd tok = CHR ''*'' \<or> hd tok = CHR ''>'')"

definition is_literal_filter :: "bytes \<Rightarrow> bool" where
  "is_literal_filter s \<longleftrightarrow> list_all (\<lambda>c. \<not> (c = CHR ''*'' \<or> c = CHR ''>'')) s"

section \<open>Matching\<close>

lemma next_subject_token_progress:
  "next_subject_token s pos = Some (tok, pos') \<Longrightarrow> pos < pos' \<and> pos' \<le> length s + 1 \<and> pos \<le> length s"
  by (auto simp: next_subject_token_def Let_def split: if_splits)

function subject_matches_loop :: "bytes \<Rightarrow> nat \<Rightarrow> bytes \<Rightarrow> nat \<Rightarrow> bool" where
  "subject_matches_loop flt fp subject sp =
     (case next_subject_token flt fp of
        None \<Rightarrow> length subject < sp
      | Some (ftok, fp') \<Rightarrow>
          if length ftok = 1 \<and> hd ftok = CHR ''>'' then length flt < fp'
          else case next_subject_token subject sp of
                 None \<Rightarrow> False
               | Some (stok, sp') \<Rightarrow>
                   if \<not> (length ftok = 1 \<and> hd ftok = CHR ''*'') \<and> \<not> mb_slice_eq ftok stok then False
                   else subject_matches_loop flt fp' subject sp')"
  by pat_completeness auto
termination
  by (relation "measure (\<lambda>(flt, fp, _, _). length flt + 1 - fp)")
     (auto dest!: next_subject_token_progress)

declare subject_matches_loop.simps [simp del]

definition subject_matches :: "bytes \<Rightarrow> bytes \<Rightarrow> bool" where
  "subject_matches flt subject = subject_matches_loop flt 0 subject 0"

definition mb_router_subject_matches :: "bytes \<Rightarrow> bytes \<Rightarrow> bool" where
  "mb_router_subject_matches flt subject = subject_matches flt subject"

definition MB_LVC_PREFIX :: bytes where "MB_LVC_PREFIX = ''$LVC.''"
definition MB_STATS_PREFIX :: bytes where "MB_STATS_PREFIX = ''$STATS.''"

definition mb_router_subject_has_lvc_prefix :: "bytes \<Rightarrow> bool" where
  "mb_router_subject_has_lvc_prefix subject = mb_slice_has_prefix subject MB_LVC_PREFIX"

definition mb_router_subject_has_stats_prefix :: "bytes \<Rightarrow> bool" where
  "mb_router_subject_has_stats_prefix subject = mb_slice_has_prefix subject MB_STATS_PREFIX"

definition lvc_inner_subject :: "bytes \<Rightarrow> bytes" where
  "lvc_inner_subject subject = drop (length MB_LVC_PREFIX) subject"

section \<open>Matching by tokens\<close>

definition toks_from :: "bytes \<Rightarrow> nat \<Rightarrow> bytes list" where
  "toks_from s pos = (if length s < pos then [] else subject_tokens (drop pos s))"

lemma toks_from_0: "toks_from s 0 = subject_tokens s"
  by (simp add: toks_from_def)

lemma next_subject_token_toks:
  assumes "toks_from s pos = t # ts"
  shows "if t = [] then next_subject_token s pos = None
    else \<exists>pos'. next_subject_token s pos = Some (t, pos') \<and> toks_from s pos' = ts \<and> (length s < pos' \<longleftrightarrow> ts = [])"
proof -
  from assms have le: "pos \<le> length s" and toks: "subject_tokens (drop pos s) = t # ts"
    by (auto simp: toks_from_def split: if_splits)
  let ?d = "drop pos s"
  have t: "t = takeWhile (\<lambda>c. c \<noteq> CHR ''.'') ?d"
    using hd_split_on [of "CHR ''.''" ?d] toks by simp
  have d: "?d = t @ dropWhile (\<lambda>c. c \<noteq> CHR ''.'') ?d"
    by (simp add: t)
  show ?thesis
  proof (cases "dropWhile (\<lambda>c. c \<noteq> CHR ''.'') ?d")
    case Nil
    with toks have "ts = []" using split_on_rec [of "CHR ''.''" ?d] by simp
    moreover from Nil d have "length t = length s - pos" by (metis append_Nil2 length_drop)
    ultimately show ?thesis
      using le by (auto simp: next_subject_token_def t [symmetric] toks_from_def)
  next
    case (Cons c r)
    with toks have ts: "ts = subject_tokens r" using split_on_rec [of "CHR ''.''" ?d] by simp
    have len: "length s - pos = length t + 1 + length r"
      using arg_cong [OF d, of length] Cons by simp
    have "drop (pos + length t + 1) s = drop (length t + 1) ?d" by (simp add: add.commute add.left_commute)
    also have "\<dots> = r" by (subst d) (simp add: Cons)
    finally have "drop (pos + length t + 1) s = r" .
    moreover have "pos + length t + 1 \<le> length s" using le len by linarith
    ultimately have "toks_from s (pos + length t + 1) = ts" by (simp add: toks_from_def ts)
    then show ?thesis
      using le len by (auto simp: next_subject_token_def t [symmetric] ts Let_def)
  qed
qed

lemma next_subject_token_end: "toks_from s pos = [] \<Longrightarrow> next_subject_token s pos = None \<and> length s < pos"
  by (auto simp: toks_from_def next_subject_token_def split: if_splits)

lemma toks_from_Nil: "toks_from s pos = [] \<longleftrightarrow> length s < pos"
  by (simp add: toks_from_def)

text \<open>What a filter token list matches; \<open>>\<close> takes all that is left, nothing included.\<close>

fun tok_match :: "bytes list \<Rightarrow> bytes list \<Rightarrow> bool" where
  "tok_match [] ts \<longleftrightarrow> ts = []"
| "tok_match (f # fs) ts \<longleftrightarrow>
     (if f = ''>'' then fs = []
      else case ts of [] \<Rightarrow> False | t # ts \<Rightarrow> (f = ''*'' \<or> f = t) \<and> tok_match fs ts)"

lemma single_char_iff: "length t = Suc 0 \<and> hd t = c \<longleftrightarrow> t = [c]"
  by (cases t) auto

lemma subject_matches_loop_toks:
  assumes "\<forall>t \<in> set (toks_from flt fp). t \<noteq> []" "\<forall>t \<in> set (toks_from subject sp). t \<noteq> []"
  shows "subject_matches_loop flt fp subject sp \<longleftrightarrow> tok_match (toks_from flt fp) (toks_from subject sp)"
  using assms
proof (induction "toks_from flt fp" arbitrary: fp sp)
  case Nil
  then have e: "toks_from flt fp = []" by simp
  show ?case
    using next_subject_token_end [OF e] by (simp add: e toks_from_Nil subject_matches_loop.simps [of flt fp])
next
  case (Cons f fs)
  note f = Cons.hyps(2) [symmetric]
  have ne: "f \<noteq> []" "\<forall>t \<in> set fs. t \<noteq> []" using Cons.prems(1) by (auto simp: f)
  then obtain fp' where fp': "next_subject_token flt fp = Some (f, fp')"
      "toks_from flt fp' = fs" "length flt < fp' \<longleftrightarrow> fs = []"
    using next_subject_token_toks [OF f] by auto
  note step = subject_matches_loop.simps [of flt fp subject sp] single_char_iff
  show ?case
  proof (cases "toks_from subject sp")
    case Nil
    then show ?thesis
      using fp' next_subject_token_end [OF Nil] by (simp add: step f Nil)
  next
    case (Cons t ts)
    note s = this
    have ne': "t \<noteq> []" "\<forall>t \<in> set ts. t \<noteq> []" using Cons.prems(2) by (auto simp: s)
    then obtain sp' where sp': "next_subject_token subject sp = Some (t, sp')" "toks_from subject sp' = ts"
      using next_subject_token_toks [OF s] by auto
    have "subject_matches_loop flt fp' subject sp' \<longleftrightarrow> tok_match fs ts"
      using Cons.hyps(1) [of fp' sp'] ne ne' by (simp add: fp'(2) sp'(2))
    then show ?thesis
      using fp' sp' by (simp add: step f s)
  qed
qed

lemma subject_matches_tok_match:
  assumes "mb_proto_subject_valid flt a" "mb_proto_subject_valid subject b"
  shows "subject_matches flt subject \<longleftrightarrow> tok_match (subject_tokens flt) (subject_tokens subject)"
  using subject_matches_loop_toks [of flt 0 subject 0] assms
  by (auto simp: subject_matches_def toks_from_0 dest: subject_valid_tokens_nonempty)


section \<open>The meaning of a filter\<close>

abbreviation token_matches :: "bytes \<Rightarrow> bytes \<Rightarrow> bool" where
  "token_matches f t \<equiv> f = ''*'' \<or> f = t"

lemma tok_match_no_tail:
  "''>'' \<notin> set fs \<Longrightarrow> tok_match fs ts \<longleftrightarrow> list_all2 token_matches fs ts"
proof (induction fs arbitrary: ts)
  case (Cons f fs)
  then show ?case by (cases ts) auto
qed auto

lemma tok_match_tail:
  "''>'' \<notin> set fs \<Longrightarrow>
   tok_match (fs @ [''>'']) ts \<longleftrightarrow>
     length fs \<le> length ts \<and> list_all2 token_matches fs (take (length fs) ts)"
proof (induction fs arbitrary: ts)
  case (Cons f fs)
  then show ?case by (cases ts) auto
qed auto

lemma tokens_ok_tail_last: "tokens_ok allow (fs @ [t]) \<Longrightarrow> ''>'' \<notin> set fs"
proof (induction fs)
  case (Cons f fs)
  then show ?case by (auto simp: token_ok_def)
qed simp

text \<open>
  The documented meaning of a filter, on tokens (\<open>docs/patchbay.md\<close>): \<open>*\<close> stands for one token and a final \<open>>\<close>
  for one or more.
\<close>

definition documented_match :: "string list \<Rightarrow> string list \<Rightarrow> bool" where
  "documented_match fs ts \<longleftrightarrow>
    (if last fs = ''>''
     then length fs \<le> length ts \<and> list_all2 token_matches (butlast fs) (take (length fs - 1) ts)
     else list_all2 token_matches fs ts)"

lemma documented_match_tail:
  "documented_match (fs @ [''>'']) ts \<longleftrightarrow> length fs < length ts \<and> list_all2 token_matches fs (take (length fs) ts)"
  by (auto simp: documented_match_def)

lemma tail_or_whole:
  "length fs \<le> length ts \<and> list_all2 P fs (take (length fs) ts) \<longleftrightarrow>
     length fs < length ts \<and> list_all2 P fs (take (length fs) ts) \<or> list_all2 P fs ts"
  by (cases "length fs" "length ts" rule: linorder_cases) (auto dest: list_all2_lengthD)

text \<open>
  \<^bold>\<open>C28\<close> The matcher against the documentation. For a valid filter and a valid subject the matcher accepts
  what the documentation says, a final \<open>>\<close> standing for one or more tokens, and in addition exactly one case that the
  documentation excludes: the filter ends in \<open>>\<close> and its other tokens match the whole subject, so that \<open>>\<close> stands for
  no token at all.
\<close>

theorem subject_matches_spec:
  assumes "mb_proto_subject_valid flt True" "mb_proto_subject_valid subject False"
  defines "fs \<equiv> subject_tokens flt" and "ts \<equiv> subject_tokens subject"
  shows "subject_matches flt subject \<longleftrightarrow>
    documented_match fs ts \<or> (last fs = ''>'' \<and> list_all2 token_matches (butlast fs) ts)"
proof -
  have fs: "fs = butlast fs @ [last fs]" by (simp add: fs_def)
  from assms(1) have "tokens_ok True (butlast fs @ [last fs])"
    unfolding mb_proto_subject_valid_iff fs [symmetric] by (simp add: fs_def)
  then have nt: "''>'' \<notin> set (butlast fs)" by (rule tokens_ok_tail_last)
  have m: "subject_matches flt subject \<longleftrightarrow> tok_match fs ts"
    using subject_matches_tok_match [OF assms(1,2)] by (simp add: fs_def ts_def)
  show ?thesis
  proof (cases "last fs = ''>''")
    case True
    then obtain gs where gs: "fs = gs @ [''>'']" using fs by metis
    then show ?thesis using tok_match_tail [of gs ts] nt m by (simp add: documented_match_tail tail_or_whole)
  next
    case False
    with nt fs have "''>'' \<notin> set fs" by (metis Un_iff empty_iff empty_set insert_iff list.simps(15) set_append)
    with False m show ?thesis by (simp add: tok_match_no_tail documented_match_def)
  qed
qed

theorem subject_matches_spec_witness:
  "subject_matches ''a.*.>'' ''a.b.c.d'' \<and> subject_matches ''a.>'' ''a'' \<and>
   \<not> documented_match (subject_tokens ''a.>'') (subject_tokens ''a'') \<and> \<not> subject_matches ''a.*'' ''a'' \<and>
   \<not> subject_matches ''a.b.>'' ''a''"
proof -
  have "mb_proto_subject_valid ''a.*.>'' True" "mb_proto_subject_valid ''a.b.c.d'' False"
    "mb_proto_subject_valid ''a.>'' True" "mb_proto_subject_valid ''a'' False"
    "mb_proto_subject_valid ''a.*'' True" "mb_proto_subject_valid ''a.b.>'' True"
    by code_simp+
  then show ?thesis
    using subject_matches_spec [of "''a.*.>''" "''a.b.c.d''"] subject_matches_spec [of "''a.>''" "''a''"]
      subject_matches_spec [of "''a.*''" "''a''"] subject_matches_spec [of "''a.b.>''" "''a''"]
    by (simp add: documented_match_def)
qed

section \<open>Facts the router relies on\<close>

lemma first_token_eq: "first_token s = hd (subject_tokens s)"
proof -
  obtain t ts where s: "subject_tokens s = t # ts" by (metis list.exhaust split_on_not_Nil)
  then show ?thesis
    using next_subject_token_toks [of s 0 t ts] by (auto simp: toks_from_0 first_token_def split: if_splits)
qed

lemma literal_filter_tokens:
  assumes "is_literal_filter s" "t \<in> set (subject_tokens s)"
  shows "t \<noteq> ''*'' \<and> t \<noteq> ''>''"
proof -
  have "CHR ''*'' \<notin> set s" "CHR ''>'' \<notin> set s"
    using assms(1) unfolding is_literal_filter_def list_all_iff by blast+
  moreover have "set t \<subseteq> set s" using split_on_fields [OF assms(2)] by simp
  ultimately show ?thesis by auto
qed

lemma literal_matches_iff:
  assumes "mb_proto_subject_valid flt a" "is_literal_filter flt" "mb_proto_subject_valid subject b"
  shows "subject_matches flt subject \<longleftrightarrow> flt = subject"
proof -
  have "tok_match fs ts \<longleftrightarrow> fs = ts" if "\<forall>t \<in> set fs. t \<noteq> ''*'' \<and> t \<noteq> ''>''" for fs ts
    using that
  proof (induction fs arbitrary: ts)
    case (Cons f fs)
    then show ?case by (cases ts) auto
  qed auto
  then show ?thesis
    using subject_matches_tok_match [OF assms(1,3)] literal_filter_tokens [OF assms(2)]
    by (simp add: split_on_inj)
qed

lemma matches_first_token:
  assumes "mb_proto_subject_valid flt a" "mb_proto_subject_valid subject b" "subject_matches flt subject"
    and "\<not> is_wildcard_token (first_token flt)"
  shows "first_token flt = first_token subject"
proof -
  obtain f fs where f: "subject_tokens flt = f # fs" by (metis list.exhaust split_on_not_Nil)
  have "f \<noteq> ''*''" "f \<noteq> ''>''" using assms(4) f by (auto simp: first_token_eq is_wildcard_token_def)
  with assms(3) f show ?thesis
    by (auto simp: subject_matches_tok_match [OF assms(1,2)] first_token_eq split: list.splits)
qed

end
