(* ===== verification/Router_Table.thy ===== *)
theory Router_Table
  imports Hash_Index Router_Match
begin

text \<open>
  The storage of the router (\<open>src/src/router.c\<close>, \<open>src/src/router.h\<close>): subscriptions,
  growable subscription lists with swap removal, and the two bucket tables (literal
  filters by full filter, wildcard filters by first token) with their hash indexes. The
  source spells the operations of the two tables out twice; they are modelled once over a
  \<open>bucket_table\<close>.
\<close>

section \<open>Subscriptions and subscription lists\<close>

text \<open>A connection pointer is the number of the connection in the store of connections.\<close>

type_synonym conn_id = nat

record mb_subscription =
  sub_conn :: conn_id
  sub_subject :: bytes
  sub_queue :: bytes
  sub_sid :: bytes
  sub_delivered :: nat
  sub_max_msgs :: nat
  sub_has_max_msgs :: bool
  sub_is_lvc :: bool

record mb_sub_list =
  sl_items :: "mb_subscription list"
  sl_cap :: nat

definition sub_list_zero :: mb_sub_list where
  "sub_list_zero = \<lparr>sl_items = [], sl_cap = 0\<rparr>"

definition sid_eq :: "mb_subscription \<Rightarrow> bytes \<Rightarrow> bool" where
  "sid_eq sub sid = mb_slice_eq (sub_sid sub) sid"

text \<open>\<open>sizeof (mb_subscription)\<close> is 80.\<close>

definition sub_list_append :: "allocator \<Rightarrow> mb_sub_list \<Rightarrow> mb_subscription \<Rightarrow> bool \<times> mb_sub_list" where
  "sub_list_append am l sub =
     (case mb_array_reserve am (sl_cap l) (length (sl_items l) + 1) 80 8 of
        None \<Rightarrow> (False, l)
      | Some cap \<Rightarrow> (True, l\<lparr>sl_items := sl_items l @ [sub], sl_cap := cap\<rparr>))"

text \<open>The last element moves into the hole at \<open>i\<close>.\<close>

definition swap_remove :: "'a list \<Rightarrow> nat \<Rightarrow> 'a list" where
  "swap_remove xs i =
     (let len = length xs - 1
      in if i \<noteq> len then (take len xs)[i := xs ! len] else take len xs)"

definition sub_list_remove_at :: "mb_sub_list \<Rightarrow> nat \<Rightarrow> mb_sub_list" where
  "sub_list_remove_at l i = l\<lparr>sl_items := swap_remove (sl_items l) i\<rparr>"

section \<open>Connections and the subscription counts\<close>

record mb_router_conn =
  conn_out :: mb_buf
  kick_seen_epoch :: u64
  close_seen_epoch :: u64
  conn_sub_count :: nat
  conn_closed :: bool
  msg_len_fn :: "(bytes \<Rightarrow> bytes \<Rightarrow> bytes \<Rightarrow> bytes \<Rightarrow> bytes \<Rightarrow> nat option) option"
  write_msg_fn :: "(mb_buf \<Rightarrow> bytes \<Rightarrow> bytes \<Rightarrow> bytes \<Rightarrow> bytes \<Rightarrow> bytes \<Rightarrow> bool \<times> mb_buf) option"
  has_kick_fn :: bool
  has_close_fn :: bool

type_synonym conns = "conn_id \<Rightarrow> mb_router_conn"

text \<open>\<open>router->sub_count\<close> together with the connections, whose own counts it mirrors.\<close>

type_synonym counts = "nat \<times> conns"

definition note_sub_removed :: "mb_subscription \<Rightarrow> counts \<Rightarrow> counts" where
  "note_sub_removed sub st =
     (let (n, cs) = st; c = sub_conn sub
      in (if 0 < n then n - 1 else n,
          if 0 < conn_sub_count (cs c) then cs(c := (cs c)\<lparr>conn_sub_count := conn_sub_count (cs c) - 1\<rparr>)
          else cs))"

text \<open>
  The three removal loops over a list (\<open>remove_for_conn_from_list\<close>,
  \<open>unsubscribe_from_list\<close>, \<open>remove_delivered_max\<close>) differ in what they decide for the
  subscription at \<open>i\<close>: \<open>None\<close> removes it and looks at the element moved into its place,
  \<open>Some sub\<close> stores \<open>sub\<close> and goes on.
\<close>

lemma length_swap_remove [simp]: "length (swap_remove xs i) = length xs - 1"
  by (simp add: swap_remove_def Let_def)

function sweep_loop ::
  "(mb_subscription \<Rightarrow> mb_subscription option) \<Rightarrow> nat \<Rightarrow> mb_sub_list \<Rightarrow> counts \<Rightarrow> mb_sub_list \<times> counts" where
  "sweep_loop decide i l st =
     (if length (sl_items l) \<le> i then (l, st)
      else case decide (sl_items l ! i) of
             Some sub \<Rightarrow> sweep_loop decide (i + 1) (l\<lparr>sl_items := (sl_items l)[i := sub]\<rparr>) st
           | None \<Rightarrow> sweep_loop decide i (sub_list_remove_at l i) (note_sub_removed (sl_items l ! i) st))"
  by pat_completeness auto
termination
  by (relation "measure (\<lambda>(decide, i, l, st). length (sl_items l) - i)")
     (auto simp: sub_list_remove_at_def)

declare sweep_loop.simps [simp del]

definition remove_for_conn_from_list :: "conn_id \<Rightarrow> mb_sub_list \<Rightarrow> counts \<Rightarrow> mb_sub_list \<times> counts" where
  "remove_for_conn_from_list c = sweep_loop (\<lambda>sub. if sub_conn sub \<noteq> c then Some sub else None) 0"

definition unsubscribe_sub ::
  "conn_id \<Rightarrow> bytes \<Rightarrow> nat \<Rightarrow> bool \<Rightarrow> mb_subscription \<Rightarrow> mb_subscription option" where
  "unsubscribe_sub c sid max_msgs has_max_msgs sub =
     (if sub_conn sub \<noteq> c \<or> \<not> sid_eq sub sid then Some sub
      else if \<not> has_max_msgs \<or> max_msgs \<le> sub_delivered sub then None
      else Some (sub\<lparr>sub_max_msgs := max_msgs, sub_has_max_msgs := True\<rparr>))"

definition unsubscribe_from_list ::
  "conn_id \<Rightarrow> bytes \<Rightarrow> nat \<Rightarrow> bool \<Rightarrow> mb_sub_list \<Rightarrow> counts \<Rightarrow> mb_sub_list \<times> counts" where
  "unsubscribe_from_list c sid max_msgs has_max_msgs =
     sweep_loop (unsubscribe_sub c sid max_msgs has_max_msgs) 0"

definition remove_delivered_max :: "mb_sub_list \<Rightarrow> counts \<Rightarrow> mb_sub_list \<times> counts" where
  "remove_delivered_max =
     sweep_loop (\<lambda>sub. if sub_has_max_msgs sub \<and> sub_max_msgs sub \<le> sub_delivered sub then None
                       else Some sub) 0"

section \<open>Bucket tables\<close>

record mb_bucket =
  bk_key :: bytes
  bk_subs :: mb_sub_list

record bucket_table =
  bt_items :: "mb_bucket list"
  bt_cap :: nat
  bt_index :: "mb_router_index_entry list"

definition bucket_table_zero :: bucket_table where
  "bucket_table_zero = \<lparr>bt_items = [], bt_cap = 0, bt_index = []\<rparr>"

definition bt_keys :: "bucket_table \<Rightarrow> bytes list" where
  "bt_keys t = map bk_key (bt_items t)"

text \<open>\<open>sizeof (mb_literal_bucket)\<close> and \<open>sizeof (mb_wildcard_bucket)\<close> are 40.\<close>

definition grow_buckets :: "allocator \<Rightarrow> bucket_table \<Rightarrow> bool \<times> bucket_table" where
  "grow_buckets am t =
     (case mb_array_reserve am (bt_cap t) (length (bt_items t) + 1) 40 8 of
        None \<Rightarrow> (False, t)
      | Some cap \<Rightarrow> (True, t\<lparr>bt_cap := cap\<rparr>))"

definition bt_index_ensure :: "allocator \<Rightarrow> bucket_table \<Rightarrow> nat \<Rightarrow> (bool \<times> bucket_table) option" where
  "bt_index_ensure am t needed =
     do { (ok, es) \<leftarrow> index_ensure am (bt_keys t) (bt_index t) needed;
          Some (ok, t\<lparr>bt_index := es\<rparr>) }"

definition bt_index_refresh :: "bucket_table \<Rightarrow> bucket_table option" where
  "bt_index_refresh t =
     do { es \<leftarrow> index_refresh (bt_keys t) (bt_index t); Some (t\<lparr>bt_index := es\<rparr>) }"

definition bt_index_find :: "bucket_table \<Rightarrow> bytes \<Rightarrow> u64 \<Rightarrow> nat option" where
  "bt_index_find t key hash = index_find (bt_keys t) (bt_index t) key hash"

text \<open>The scan of the bucket array when there is no index: the first bucket with the key.\<close>

definition bt_scan :: "bucket_table \<Rightarrow> bytes \<Rightarrow> nat option" where
  "bt_scan t key =
     (let i = length (takeWhile (\<lambda>b. \<not> mb_slice_eq (bk_key b) key) (bt_items t))
      in if i < length (bt_items t) then Some i else None)"

text \<open>
  \<open>literal_bucket\<close> and \<open>wildcard_bucket\<close>: the position of the bucket for \<open>key\<close>,
  created on demand, or \<open>None\<close> for the null pointer.
\<close>

definition bt_bucket ::
  "allocator \<Rightarrow> bucket_table \<Rightarrow> bytes \<Rightarrow> bool \<Rightarrow> (nat option \<times> bucket_table) option" where
  "bt_bucket am t key create =
     do { found \<leftarrow> bt_index_find t key (mb_slice_hash key);
          if found \<noteq> SIZE_MAX then Some (Some found, t)
          else case (if length (bt_index t) = 0 then bt_scan t key else None) of
            Some i \<Rightarrow> Some (Some i, t)
          | None \<Rightarrow>
              if \<not> create then Some (None, t)
              else do { (ok, t) \<leftarrow> bt_index_ensure am t (length (bt_items t) + 1);
                if \<not> ok then Some (None, t)
                else case grow_buckets am t of
                  (False, t) \<Rightarrow> Some (None, t)
                | (True, t) \<Rightarrow>
                    (case mb_slice_dup am key of
                       None \<Rightarrow> Some (None, t)
                     | Some key \<Rightarrow>
                         do { es \<leftarrow> index_insert (bt_index t) (mb_slice_hash key) (length (bt_items t));
                              Some (Some (length (bt_items t)),
                                t\<lparr>bt_items := bt_items t @ [\<lparr>bk_key = key, bk_subs = sub_list_zero\<rparr>],
                                  bt_index := es\<rparr>) }) } }"

definition bt_remove_bucket_at :: "bucket_table \<Rightarrow> nat \<Rightarrow> bucket_table option" where
  "bt_remove_bucket_at t i = bt_index_refresh (t\<lparr>bt_items := swap_remove (bt_items t) i\<rparr>)"

definition bt_set_subs :: "bucket_table \<Rightarrow> nat \<Rightarrow> mb_sub_list \<Rightarrow> bucket_table" where
  "bt_set_subs t i l = t\<lparr>bt_items := (bt_items t)[i := (bt_items t ! i)\<lparr>bk_subs := l\<rparr>]\<rparr>"

lemma bt_remove_bucket_at_length:
  "bt_remove_bucket_at t i = Some t' \<Longrightarrow> length (bt_items t') = length (bt_items t) - 1"
  by (auto simp: bt_remove_bucket_at_def bt_index_refresh_def bind_eq_Some_conv)

text \<open>
  The loop of \<open>mb_router_remove_all_for\<close> and \<open>mb_router_unsubscribe\<close> over the buckets of
  one table: sweep the list of bucket \<open>i\<close>, remove the bucket when it is left empty.
\<close>

function bt_sweep ::
  "(mb_sub_list \<Rightarrow> counts \<Rightarrow> mb_sub_list \<times> counts) \<Rightarrow> nat \<Rightarrow> bucket_table \<Rightarrow> counts
   \<Rightarrow> (bucket_table \<times> counts) option" where
  "bt_sweep sweep i t st =
     (if length (bt_items t) \<le> i then Some (t, st)
      else case sweep (bk_subs (bt_items t ! i)) st of
        (l, st) \<Rightarrow>
          if length (sl_items l) = 0
          then (case bt_remove_bucket_at (bt_set_subs t i l) i of
                  None \<Rightarrow> None
                | Some t' \<Rightarrow> bt_sweep sweep i t' st)
          else bt_sweep sweep (i + 1) (bt_set_subs t i l) st)"
  by pat_completeness auto
termination
  by (relation "measure (\<lambda>(sweep, i, t, st). length (bt_items t) - i)")
     (auto simp: bt_set_subs_def dest!: bt_remove_bucket_at_length)

declare bt_sweep.simps [simp del]

end
