(* ===== verification/Router_Table_Correct.thy ===== *)
theory Router_Table_Correct
  imports Router_Table
begin

text \<open>
  Correctness of the router's storage: swap removal keeps the other elements, a sweep
  removes exactly what it decides to remove and accounts for it, a bucket table keeps its
  hash index right under creation, sweeping and removal of buckets, and every loop ends.
\<close>

section \<open>Swap removal\<close>

lemma swap_remove_split:
  assumes "i < length xs"
  obtains ys where "swap_remove xs i = take i xs @ ys" "mset ys = mset (drop (Suc i) xs)"
proof (cases "drop (Suc i) xs" rule: rev_cases)
  case Nil
  then have "i = length xs - 1" using assms by simp
  then show thesis using Nil that [of "[]"] by (simp add: swap_remove_def)
next
  case (snoc zs z)
  then have xs: "xs = take i xs @ xs ! i # zs @ [z]"
    using id_take_nth_drop [OF assms] by simp
  have len: "length xs = i + Suc (Suc (length zs))"
    using arg_cong [OF xs, of length] assms by simp
  define pre where "pre = take i xs"
  have "length pre = i" using assms by (simp add: pre_def)
  have xs': "xs = pre @ (xs ! i # zs) @ [z]" using xs by (simp add: pre_def)
  have "take (length xs - 1) xs = pre @ xs ! i # zs" "xs ! (length xs - 1) = z"
    using xs' len \<open>length pre = i\<close> by (metis append_assoc butlast_conv_take butlast_snoc,
      metis append_assoc append_is_Nil_conv last_conv_nth last_snoc list.distinct(1))
  then have "swap_remove xs i = pre @ z # zs"
    using len \<open>length pre = i\<close> by (simp add: swap_remove_def Let_def list_update_append)
  then show thesis using snoc that [of "z # zs"] by (simp add: pre_def)
qed

lemma mset_swap_remove: "i < length xs \<Longrightarrow> add_mset (xs ! i) (mset (swap_remove xs i)) = mset xs"
proof -
  assume i: "i < length xs"
  obtain ys where "swap_remove xs i = take i xs @ ys" "mset ys = mset (drop (Suc i) xs)"
    using swap_remove_split [OF i] .
  then show ?thesis
    using arg_cong [OF id_take_nth_drop [OF i], of mset] by simp
qed

lemma set_swap_remove: "i < length xs \<Longrightarrow> set (swap_remove xs i) \<subseteq> set xs"
  using mset_swap_remove [of i xs] by (metis set_mset_add_mset_insert set_mset_mset subset_insertI)

lemma map_swap_remove: "i < length xs \<Longrightarrow> map f (swap_remove xs i) = swap_remove (map f xs) i"
  by (simp add: swap_remove_def Let_def map_update take_map)

lemma distinct_swap_remove: "distinct xs \<Longrightarrow> i < length xs \<Longrightarrow> distinct (swap_remove xs i)"
proof -
  assume "distinct xs" and i: "i < length xs"
  have "mset xs = mset (xs ! i # swap_remove xs i)" using mset_swap_remove [OF i] by simp
  with \<open>distinct xs\<close> have "distinct (xs ! i # swap_remove xs i)" by (metis mset_eq_imp_distinct_iff)
  then show ?thesis by simp
qed

section \<open>What a sweep keeps, drops and counts\<close>

definition kept :: "('a \<Rightarrow> 'a option) \<Rightarrow> 'a multiset \<Rightarrow> 'a multiset" where
  "kept decide M = image_mset (the \<circ> decide) (filter_mset (\<lambda>s. decide s \<noteq> None) M)"

definition dropped :: "('a \<Rightarrow> 'a option) \<Rightarrow> 'a multiset \<Rightarrow> 'a multiset" where
  "dropped decide M = filter_mset (\<lambda>s. decide s = None) M"

lemma kept_simps [simp]:
  "kept decide {#} = {#}" "kept decide (M + N) = kept decide M + kept decide N"
  "kept decide (add_mset s M) =
     (case decide s of None \<Rightarrow> kept decide M | Some s' \<Rightarrow> add_mset s' (kept decide M))"
  by (auto simp: kept_def split: option.split)

lemma dropped_simps [simp]:
  "dropped decide {#} = {#}" "dropped decide (M + N) = dropped decide M + dropped decide N"
  "dropped decide (add_mset s M) =
     (if decide s = None then add_mset s (dropped decide M) else dropped decide M)"
  by (auto simp: dropped_def)

lemma size_kept_dropped: "size (kept decide M) + size (dropped decide M) = size M"
  by (induction M) (auto split: option.split)

definition subs_of :: "conn_id \<Rightarrow> mb_subscription multiset \<Rightarrow> nat" where
  "subs_of c M = size (filter_mset (\<lambda>s. sub_conn s = c) M)"

lemma subs_of_simps [simp]:
  "subs_of c {#} = 0" "subs_of c (M + N) = subs_of c M + subs_of c N"
  "subs_of c (add_mset s M) = (if sub_conn s = c then Suc (subs_of c M) else subs_of c M)"
  by (simp_all add: subs_of_def)

lemma subs_of_le: "subs_of c M \<le> size M"
  by (simp add: subs_of_def size_filter_mset_lesseq)

lemma subs_of_kept:
  assumes "\<And>s s'. decide s = Some s' \<Longrightarrow> sub_conn s' = sub_conn s"
  shows "subs_of c (kept decide M) + subs_of c (dropped decide M) = subs_of c M"
  using assms by (induction M) (auto split: option.split)

definition drop_counts :: "mb_subscription multiset \<Rightarrow> counts \<Rightarrow> counts" where
  "drop_counts M st =
     (fst st - size M,
      \<lambda>c. (snd st c)\<lparr>conn_sub_count := conn_sub_count (snd st c) - subs_of c M\<rparr>)"

lemma drop_counts_empty [simp]: "drop_counts {#} st = st"
  by (cases st) (auto simp: drop_counts_def)

lemma drop_counts_plus: "drop_counts M (drop_counts N st) = drop_counts (N + M) st"
  by (auto simp: drop_counts_def)

lemma note_sub_removed_eq: "note_sub_removed sub st = drop_counts {#sub#} st"
  by (cases st) (auto simp: note_sub_removed_def drop_counts_def Let_def fun_eq_iff)

lemma sweep_loop_spec:
  "sweep_loop decide i l st = (l', st') \<Longrightarrow>
   mset (sl_items l') = mset (take i (sl_items l)) + kept decide (mset (drop i (sl_items l))) \<and>
   sl_cap l' = sl_cap l \<and> st' = drop_counts (dropped decide (mset (drop i (sl_items l)))) st"
proof (induction decide i l st rule: sweep_loop.induct)
  case (1 decide i l st)
  show ?case
  proof (cases "length (sl_items l) \<le> i")
    case True
    with "1.prems" show ?thesis by (simp add: sweep_loop.simps [of decide i])
  next
    case False
    then have i: "i < length (sl_items l)" by simp
    let ?s = "sl_items l ! i"
    have tail: "drop i (sl_items l) = ?s # drop (Suc i) (sl_items l)" using i by (rule Cons_nth_drop_Suc [symmetric])
    show ?thesis
    proof (cases "decide ?s")
      case None
      obtain ys where ys: "swap_remove (sl_items l) i = take i (sl_items l) @ ys"
          "mset ys = mset (drop (Suc i) (sl_items l))"
        using swap_remove_split [OF i] .
      have "sweep_loop decide i (sub_list_remove_at l i) (note_sub_removed ?s st) = (l', st')"
        using "1.prems" False None by (simp add: sweep_loop.simps [of decide i l])
      from "1.IH"(1) [OF False None this]
      show ?thesis
        using i None by (simp add: sub_list_remove_at_def ys tail note_sub_removed_eq drop_counts_plus)
    next
      case (Some sub)
      have "sweep_loop decide (i + 1) (l\<lparr>sl_items := (sl_items l)[i := sub]\<rparr>) st = (l', st')"
        using "1.prems" False Some by (simp add: sweep_loop.simps [of decide i l])
      from "1.IH"(2) [OF False Some this]
      show ?thesis using i Some by (simp add: tail take_Suc_conv_app_nth)
    qed
  qed
qed

lemma sweep_all_spec:
  assumes "sweep_loop decide 0 l st = (l', st')"
  shows "mset (sl_items l') = kept decide (mset (sl_items l))" "sl_cap l' = sl_cap l"
    "st' = drop_counts (dropped decide (mset (sl_items l))) st"
  using sweep_loop_spec [OF assms] by simp_all


section \<open>Bucket tables\<close>

definition bucket_subs :: "mb_bucket \<Rightarrow> mb_subscription multiset" where
  "bucket_subs b = mset (sl_items (bk_subs b))"

definition buckets_subs :: "mb_bucket list \<Rightarrow> mb_subscription multiset" where
  "buckets_subs bs = sum_list (map bucket_subs bs)"

definition bt_subs :: "bucket_table \<Rightarrow> mb_subscription multiset" where
  "bt_subs t = buckets_subs (bt_items t)"

lemma buckets_subs_simps [simp]:
  "buckets_subs [] = {#}" "buckets_subs (b # bs) = bucket_subs b + buckets_subs bs"
  "buckets_subs (bs @ cs) = buckets_subs bs + buckets_subs cs"
  by (simp_all add: buckets_subs_def)

lemma buckets_subs_mset_eq: "mset bs = mset cs \<Longrightarrow> buckets_subs bs = buckets_subs cs"
  unfolding buckets_subs_def by (metis mset_map sum_mset_sum_list)

lemma in_buckets_subs: "s \<in># buckets_subs bs \<longleftrightarrow> (\<exists>b \<in> set bs. s \<in># bucket_subs b)"
  by (induction bs) auto

text \<open>Which subscriptions may be in the bucket of a key is \<open>belongs\<close>.\<close>

definition sub_list_wf :: "mb_sub_list \<Rightarrow> bool" where
  "sub_list_wf l \<longleftrightarrow> length (sl_items l) \<le> sl_cap l"

definition bt_ok :: "(bytes \<Rightarrow> mb_subscription \<Rightarrow> bool) \<Rightarrow> bucket_table \<Rightarrow> bool" where
  "bt_ok belongs t \<longleftrightarrow>
     index_ok (bt_keys t) (bt_index t) \<and> length (bt_items t) \<le> bt_cap t \<and>
     (\<forall>b \<in> set (bt_items t). sub_list_wf (bk_subs b) \<and> (\<forall>s. s \<in># bucket_subs b \<longrightarrow> belongs (bk_key b) s))"

interpretation bucket_table: keyed_table bt_keys "bt_ok belongs"
  "\<lambda>t key. bt_index_find t key (mb_slice_hash key)" for belongs
  by unfold_locales
     (simp add: bt_ok_def index_ok_def, blast dest: index_ok_small bt_ok_def [THEN iffD1],
      simp add: bt_ok_def bt_index_find_def index_find_spec)

lemma bt_ok_zero [simp]: "bt_ok belongs bucket_table_zero"
  by (simp add: bt_ok_def bucket_table_zero_def bt_keys_def index_ok_def)

lemma bt_ok_bucket:
  assumes "bt_ok belongs t" "i < length (bt_items t)"
  shows "sub_list_wf (bk_subs (bt_items t ! i))"
    "s \<in># bucket_subs (bt_items t ! i) \<Longrightarrow> belongs (bk_key (bt_items t ! i)) s"
  using assms nth_mem [of i "bt_items t"] by (auto simp: bt_ok_def)

lemma bt_keys_set_subs [simp]: "i < length (bt_items t) \<Longrightarrow> bt_keys (bt_set_subs t i l) = bt_keys t"
proof -
  assume "i < length (bt_items t)"
  then have "(map bk_key (bt_items t))[i := bk_key (bt_items t ! i)] = map bk_key (bt_items t)"
    by (metis list_update_id nth_map)
  then show ?thesis by (simp add: bt_keys_def bt_set_subs_def map_update)
qed

lemma bt_ok_set_subs:
  assumes "bt_ok belongs t" "i < length (bt_items t)" "sub_list_wf l"
    and "\<And>s. s \<in> set (sl_items l) \<Longrightarrow> belongs (bk_key (bt_items t ! i)) s"
  shows "bt_ok belongs (bt_set_subs t i l)"
proof -
  have eqs: "bt_index (bt_set_subs t i l) = bt_index t" "bt_cap (bt_set_subs t i l) = bt_cap t"
    "length (bt_items (bt_set_subs t i l)) = length (bt_items t)"
    by (simp_all add: bt_set_subs_def)
  have "sub_list_wf (bk_subs b) \<and> (\<forall>s. s \<in># bucket_subs b \<longrightarrow> belongs (bk_key b) s)"
    if "b \<in> set (bt_items (bt_set_subs t i l))" for b
  proof -
    have "b \<in> insert ((bt_items t ! i)\<lparr>bk_subs := l\<rparr>) (set (bt_items t))"
      using that set_update_subset_insert by (fastforce simp: bt_set_subs_def)
    then show ?thesis
      using assms by (elim insertE) (simp_all add: bt_ok_def bucket_subs_def)
  qed
  with assms(1,2) eqs show ?thesis by (simp add: bt_ok_def)
qed

lemma bt_remove_bucket_at_spec:
  assumes "bt_ok belongs t" "i < length (bt_items t)"
  obtains t' where "bt_remove_bucket_at t i = Some t'" "bt_ok belongs t'"
    "bt_items t' = swap_remove (bt_items t) i"
proof -
  let ?items = "swap_remove (bt_items t) i"
  have ix: "index_ok (bt_keys t) (bt_index t)" using assms(1) by (simp add: bt_ok_def)
  have "map bk_key ?items = swap_remove (bt_keys t) i"
    using assms(2) by (simp add: bt_keys_def map_swap_remove)
  moreover have "distinct (swap_remove (bt_keys t) i)"
    using bucket_table.distinct_keys [OF assms(1)] assms(2)
    by (intro distinct_swap_remove) (simp_all add: bt_keys_def)
  moreover have "length (swap_remove (bt_keys t) i) \<le> length (bt_keys t)" by simp
  ultimately obtain es where es: "index_refresh (map bk_key ?items) (bt_index t) = Some es"
      "index_ok (map bk_key ?items) es"
    using index_refresh_spec [OF ix] by metis
  let ?t = "t\<lparr>bt_items := ?items, bt_index := es\<rparr>"
  have "bt_remove_bucket_at t i = Some ?t"
    using es by (simp add: bt_remove_bucket_at_def bt_index_refresh_def bt_keys_def)
  moreover have "bt_ok belongs ?t"
    using assms es set_swap_remove [OF assms(2)] by (auto simp: bt_ok_def bt_keys_def)
  ultimately show thesis using that by simp
qed

lemma buckets_subs_split:
  assumes "i < length bs"
  shows "buckets_subs (drop i bs) = bucket_subs (bs ! i) + buckets_subs (drop (Suc i) bs)"
  using Cons_nth_drop_Suc [OF assms, symmetric] by simp

lemma kept_belongs:
  assumes "\<And>s s'. belongs k s \<Longrightarrow> decide s = Some s' \<Longrightarrow> belongs k s'"
    and "\<And>s. s \<in># M \<Longrightarrow> belongs k s" "s \<in># kept decide M"
  shows "belongs k s"
proof -
  from assms(3) obtain x where "x \<in># M" "decide x = Some s" by (auto simp: kept_def)
  then show ?thesis using assms(1,2) by blast
qed

lemma sweep_keeps_wf:
  assumes "sub_list_wf l" "sweep_loop decide 0 l st = (l', st')"
  shows "sub_list_wf l'"
  using assms(1) sweep_all_spec [OF assms(2)] size_kept_dropped [of decide "mset (sl_items l)"]
  by (metis add_leE dual_order.trans size_mset sub_list_wf_def)

text \<open>
  A sweep over a table ends, keeps the table and its index right, and removes, changes and
  accounts for exactly the subscriptions of the buckets from \<open>i\<close> on.
\<close>

lemma bt_sweep_spec:
  assumes "bt_ok belongs t" "i \<le> length (bt_items t)"
    and keep: "\<And>k s s'. belongs k s \<Longrightarrow> decide s = Some s' \<Longrightarrow> belongs k s'"
  shows "\<exists>t'. bt_sweep (sweep_loop decide 0) i t st =
      Some (t', drop_counts (dropped decide (buckets_subs (drop i (bt_items t)))) st) \<and>
    bt_ok belongs t' \<and>
    bt_subs t' = buckets_subs (take i (bt_items t)) + kept decide (buckets_subs (drop i (bt_items t)))"
  using assms(1,2)
proof (induction "length (bt_items t) - i" arbitrary: i t st rule: less_induct)
  case less
  show ?case
  proof (cases "i < length (bt_items t)")
    case False
    then show ?thesis using less.prems by (subst bt_sweep.simps) (simp add: bt_subs_def)
  next
    case True
    let ?b = "bt_items t ! i"
    obtain l st1 where sw: "sweep_loop decide 0 (bk_subs ?b) st = (l, st1)" by (metis prod.exhaust)
    note l = sweep_all_spec [OF sw]
    have l_wf: "sub_list_wf l" using sweep_keeps_wf [OF bt_ok_bucket(1) [OF less.prems(1) True] sw] .
    let ?t = "bt_set_subs t i l"
    have bel: "belongs (bk_key ?b) s" if "s \<in> set (sl_items l)" for s
    proof -
      have "s \<in># kept decide (bucket_subs ?b)" using that l(1) by (metis bucket_subs_def set_mset_mset)
      then show ?thesis
        using kept_belongs [of belongs "bk_key ?b" decide "bucket_subs ?b" s] keep
          bt_ok_bucket(2) [OF less.prems(1) True] by blast
    qed
    then have ok: "bt_ok belongs ?t" using bt_ok_set_subs [OF less.prems(1) True l_wf] by blast
    have len: "length (bt_items ?t) = length (bt_items t)" by (simp add: bt_set_subs_def)
    have items: "drop (Suc i) (bt_items ?t) = drop (Suc i) (bt_items t)"
      "take i (bt_items ?t) = take i (bt_items t)" "bt_items ?t ! i = ?b\<lparr>bk_subs := l\<rparr>"
      using True by (simp_all add: bt_set_subs_def)
    have split: "buckets_subs (drop i (bt_items t)) = bucket_subs ?b + buckets_subs (drop (Suc i) (bt_items t))"
      using True by (rule buckets_subs_split)
    have lb: "mset (sl_items l) = kept decide (bucket_subs ?b)" "st1 = drop_counts (dropped decide (bucket_subs ?b)) st"
      using l by (simp_all add: bucket_subs_def)
    show ?thesis
    proof (cases "sl_items l = []")
      case empty: True
      obtain t1 where t1: "bt_remove_bucket_at ?t i = Some t1" "bt_ok belongs t1"
          "bt_items t1 = swap_remove (bt_items ?t) i"
        using bt_remove_bucket_at_spec [OF ok, of i] True len by auto
      obtain ys where ys: "bt_items t1 = take i (bt_items t) @ ys"
          "mset ys = mset (drop (Suc i) (bt_items t))"
        using swap_remove_split [of i "bt_items ?t"] True len items t1(3) by metis
      have "length (bt_items t1) = length (bt_items t) - 1" using t1(3) len by simp
      with True have "length (bt_items t1) - i < length (bt_items t) - i" "i \<le> length (bt_items t1)" by linarith+
      then obtain t' where t': "bt_sweep (sweep_loop decide 0) i t1 st1 =
            Some (t', drop_counts (dropped decide (buckets_subs (drop i (bt_items t1)))) st1)"
          "bt_ok belongs t'"
          "bt_subs t' = buckets_subs (take i (bt_items t1)) + kept decide (buckets_subs (drop i (bt_items t1)))"
        using less.hyps [of t1 i st1] t1(2) by blast
      have "drop i (bt_items t1) = ys" "take i (bt_items t1) = take i (bt_items t)"
        using ys True by simp_all
      with t' show ?thesis
        using True empty sw t1(1) lb buckets_subs_mset_eq [OF ys(2)]
        by (subst bt_sweep.simps) (simp add: split drop_counts_plus flip: lb(1))
    next
      case False
      have less_Sucs: "length (bt_items ?t) - Suc i < length (bt_items t) - i" "Suc i \<le> length (bt_items ?t)"
        using True len by linarith+
      obtain t' where t': "bt_sweep (sweep_loop decide 0) (Suc i) ?t st1 =
            Some (t', drop_counts (dropped decide (buckets_subs (drop (Suc i) (bt_items ?t)))) st1)"
          "bt_ok belongs t'"
          "bt_subs t' = buckets_subs (take (Suc i) (bt_items ?t)) + kept decide (buckets_subs (drop (Suc i) (bt_items ?t)))"
        using less.hyps [of ?t "Suc i" st1] ok less_Sucs by blast
      have "buckets_subs (take (Suc i) (bt_items ?t)) = buckets_subs (take i (bt_items t)) + mset (sl_items l)"
        using True len items by (simp add: take_Suc_conv_app_nth bucket_subs_def)
      with t' show ?thesis
        using True False sw lb items
        by (subst bt_sweep.simps) (simp add: split drop_counts_plus add.assoc)
    qed
  qed
qed

lemma bt_sweep_all:
  assumes "bt_ok belongs t" "\<And>k s s'. belongs k s \<Longrightarrow> decide s = Some s' \<Longrightarrow> belongs k s'"
  obtains t' where "bt_sweep (sweep_loop decide 0) 0 t st = Some (t', drop_counts (dropped decide (bt_subs t)) st)"
    "bt_ok belongs t'" "bt_subs t' = kept decide (bt_subs t)"
  using bt_sweep_spec [of belongs t 0 decide st] assms by (auto simp: bt_subs_def)


lemma bt_scan_None: "bt_index t = [] \<Longrightarrow> bt_ok belongs t \<Longrightarrow> bt_scan t key = None"
  by (simp add: bt_scan_def bt_ok_def index_ok_def bt_keys_def)

text \<open>Looking a bucket up without creating it.\<close>

lemma bt_bucket_lookup:
  assumes "bt_ok belongs t"
  shows "bt_bucket am t key False =
    Some (if key \<in> set (bt_keys t) then Some (position key (bt_keys t)) else None, t)"
  using bucket_table.find_position [OF assms, of key] bucket_table.small [OF assms]
    position_lt [of key "bt_keys t"] bt_scan_None [OF _ assms]
  by (auto simp: bt_bucket_def)

text \<open>
  Looking it up with creation: always ends, keeps the table right and its subscriptions as
  they are, and a bucket it returns is the bucket of the key.
\<close>

lemma bt_bucket_create:
  assumes "bt_ok belongs t"
  obtains r t' where "bt_bucket am t key True = Some (r, t')" "bt_ok belongs t'" "bt_subs t' = bt_subs t"
    "\<And>i. r = Some i \<Longrightarrow> i < length (bt_items t') \<and> bk_key (bt_items t' ! i) = key"
proof (cases "key \<in> set (bt_keys t)")
  case True
  let ?i = "position key (bt_keys t)"
  have i: "?i < length (bt_items t)" "bk_key (bt_items t ! ?i) = key"
    using position_lt [OF True] nth_position [OF True] by (simp_all add: bt_keys_def)
  then have "bt_bucket am t key True = Some (Some ?i, t)"
    using bucket_table.find_position [OF assms, of key] bucket_table.small [OF assms] True
    by (simp add: bt_bucket_def bt_keys_def)
  then show thesis using that assms i by auto
next
  case False
  have ix: "index_ok (bt_keys t) (bt_index t)" and n: "length (bt_keys t) = length (bt_items t)"
    using assms by (simp_all add: bt_ok_def bt_keys_def)
  obtain ok es where ens: "index_ensure am (bt_keys t) (bt_index t) (length (bt_keys t) + 1) = Some (ok, es)"
      "index_ok (bt_keys t) es" "ok \<Longrightarrow> es \<noteq> [] \<and> 2 * (length (bt_keys t) + 1) \<le> length es"
    using index_ensure_spec [OF ix, of am] by metis
  let ?t1 = "t\<lparr>bt_index := es\<rparr>"
  have step: "bt_bucket am t key True =
      (if \<not> ok then Some (None, ?t1)
       else case grow_buckets am ?t1 of
          (False, t) \<Rightarrow> Some (None, t)
        | (True, t) \<Rightarrow>
            (case mb_slice_dup am key of
               None \<Rightarrow> Some (None, t)
             | Some key \<Rightarrow>
                 do { es \<leftarrow> index_insert (bt_index t) (mb_slice_hash key) (length (bt_items t));
                      Some (Some (length (bt_items t)),
                        t\<lparr>bt_items := bt_items t @ [\<lparr>bk_key = key, bk_subs = sub_list_zero\<rparr>],
                          bt_index := es\<rparr>) }))"
    using bucket_table.find_miss [OF assms False] bt_scan_None [OF _ assms, of key] ens(1) n
    by (auto simp: bt_bucket_def bt_index_ensure_def)
  have ok1: "bt_ok belongs ?t1" "bt_subs ?t1 = bt_subs t"
    using assms ens(2) by (simp_all add: bt_ok_def bt_keys_def bt_subs_def)
  show thesis
  proof (cases "ok \<and> fst (grow_buckets am ?t1)")
    case False
    obtain g t2 where g: "grow_buckets am ?t1 = (g, t2)" by fastforce
    have "bt_bucket am t key True = Some (None, ?t1)"
      using step False g by (auto simp: grow_buckets_def split: option.splits)
    then show thesis using that ok1 by blast
  next
    case True
    then obtain cap where cap: "mb_array_reserve am (bt_cap t) (length (bt_items t) + 1) 40 8 = Some cap"
      "grow_buckets am ?t1 = (True, ?t1\<lparr>bt_cap := cap\<rparr>)"
      by (auto simp: grow_buckets_def split: option.splits)
    have le: "length (bt_items t) + 1 \<le> cap" using mb_array_reserve_ge [OF cap(1)] .
    let ?t2 = "?t1\<lparr>bt_cap := cap\<rparr>"
    have ok2: "bt_ok belongs ?t2" "bt_subs ?t2 = bt_subs t"
      using ok1 le by (simp_all add: bt_ok_def bt_keys_def bt_subs_def)
    show thesis
    proof (cases "mb_slice_dup am key")
      case None
      then have "bt_bucket am t key True = Some (None, ?t2)" using step True cap by simp
      then show thesis using that ok2 by blast
    next
      case (Some k)
      then have k: "mb_slice_dup am key = Some key" using mb_slice_dup_Some by metis
      obtain es' where es': "index_insert es (mb_slice_hash key) (length (bt_keys t)) = Some es'"
          "index_ok (bt_keys t @ [key]) es'"
        using index_ok_append [OF ens(2) _ _ False] ens(3) True by metis
      let ?b = "\<lparr>bk_key = key, bk_subs = sub_list_zero\<rparr>"
      let ?t3 = "?t2\<lparr>bt_items := bt_items t @ [?b], bt_index := es'\<rparr>"
      have "bt_bucket am t key True = Some (Some (length (bt_items t)), ?t3)"
        using step True cap k es'(1) n by simp
      moreover have "bt_ok belongs ?t3" "bt_subs ?t3 = bt_subs t"
        using ok2 es'(2) le
        by (auto simp: bt_ok_def bt_keys_def bt_subs_def sub_list_wf_def sub_list_zero_def bucket_subs_def)
      ultimately show thesis by (rule that) auto
    qed
  qed
qed

section \<open>The subscriptions of a bucket\<close>

lemma bt_set_subs_subs:
  assumes "i < length (bt_items t)"
  shows "bt_subs (bt_set_subs t i l) + bucket_subs (bt_items t ! i) = bt_subs t + mset (sl_items l)"
proof -
  have "bt_items t = take i (bt_items t) @ bt_items t ! i # drop (Suc i) (bt_items t)"
    using assms by (rule id_take_nth_drop)
  from arg_cong [OF this, of buckets_subs]
  have "bt_subs t = buckets_subs (take i (bt_items t)) + bucket_subs (bt_items t ! i)
      + buckets_subs (drop (Suc i) (bt_items t))"
    by (simp add: bt_subs_def)
  moreover have "bt_subs (bt_set_subs t i l) =
      buckets_subs (take i (bt_items t)) + mset (sl_items l) + buckets_subs (drop (Suc i) (bt_items t))"
    using assms by (simp add: bt_subs_def bt_set_subs_def upd_conv_take_nth_drop bucket_subs_def)
  ultimately show ?thesis by simp
qed

text \<open>With distinct keys, filtering the table by key is reading the bucket of the key.\<close>

lemma bt_subs_of_key:
  assumes ok: "bt_ok belongs t" and sep: "\<And>k s. belongs k s \<Longrightarrow> P s \<Longrightarrow> k = key"
  shows "filter_mset P (bt_subs t) =
    (if key \<in> set (bt_keys t)
     then filter_mset P (bucket_subs (bt_items t ! position key (bt_keys t))) else {#})"
proof -
  have other: "filter_mset P (bucket_subs b) = {#}" if "b \<in> set (bt_items t)" "bk_key b \<noteq> key" for b
    using that ok sep by (auto simp: bt_ok_def filter_mset_eq_conv)
  have "filter_mset P (buckets_subs bs) =
      (if key \<in> set (map bk_key bs)
       then filter_mset P (bucket_subs (bs ! position key (map bk_key bs))) else {#})"
    if "distinct (map bk_key bs)" "set bs \<subseteq> set (bt_items t)" for bs
    using that
  proof (induction bs)
    case (Cons b bs)
    have rest: "filter_mset P (buckets_subs bs) = (if key \<in> set (map bk_key bs)
         then filter_mset P (bucket_subs (bs ! position key (map bk_key bs))) else {#})"
      using Cons by auto
    show ?case
    proof (cases "bk_key b = key")
      case True
      then show ?thesis using rest Cons.prems(1) by (auto simp: position_def)
    next
      case False
      then show ?thesis using rest other [of b] Cons.prems(2) by (auto simp: position_def)
    qed
  qed simp
  from this [of "bt_items t"] show ?thesis
    using bucket_table.distinct_keys [OF ok] by (simp add: bt_subs_def bt_keys_def)
qed

end
