(* ===== verification/Router_LVC.thy ===== *)
theory Router_LVC
  imports Router_Table_Correct Proto_Write
begin

text \<open>
  The last-value cache of \<open>src/src/router.c\<close>: configured filters, the store of the latest
  payload per subject with its byte and entry limits, lookup, and the replay of cached
  values to a new subscriber. The \<open>lvc_*\<close> fields of \<open>mb_router\<close> are one record here.
\<close>

section \<open>State\<close>

definition MB_MAX_PENDING :: nat where "MB_MAX_PENDING = 64 * 1024 * 1024"
definition MB_MAX_LVC_ENTRIES :: nat where "MB_MAX_LVC_ENTRIES = 65536"
definition MB_MAX_LVC_BYTES :: nat where "MB_MAX_LVC_BYTES = 64 * 1024 * 1024"

record mb_lvc_entry =
  le_subject :: bytes
  le_payload :: mb_buf

record mb_lvc =
  lvc_items :: "mb_lvc_entry list"
  lvc_cap :: nat
  lvc_payload_bytes :: nat
  lvc_index :: "mb_router_index_entry list"
  lvc_filters :: "bytes list"
  lvc_filter_cap :: nat
  lvc_enabled :: bool

definition lvc_zero :: mb_lvc where
  "lvc_zero = \<lparr>lvc_items = [], lvc_cap = 0, lvc_payload_bytes = 0, lvc_index = [], lvc_filters = [],
     lvc_filter_cap = 0, lvc_enabled = False\<rparr>"

section \<open>Configuration\<close>

definition mb_router_disable_lvc :: "mb_lvc \<Rightarrow> mb_lvc" where
  "mb_router_disable_lvc v = v\<lparr>lvc_enabled := False\<rparr>"

text \<open>
  \<open>sizeof (mb_lvc_filter)\<close> is 16. A refused duplicate of any filter leaves no filter.
\<close>

definition mb_router_configure_lvc :: "allocator \<Rightarrow> mb_lvc \<Rightarrow> bytes list \<Rightarrow> bool \<times> mb_lvc" where
  "mb_router_configure_lvc am v filters =
     (let v = v\<lparr>lvc_enabled := False, lvc_filters := []\<rparr>
      in if length filters = 0 then (True, v)
         else if \<not> list_all (\<lambda>f. mb_proto_subject_valid f True) filters then (False, v)
         else case mb_array_reserve am (lvc_filter_cap v) (length filters) 16 8 of
                None \<Rightarrow> (False, v)
              | Some cap \<Rightarrow>
                  let v = v\<lparr>lvc_filter_cap := cap\<rparr>
                  in case those (map (mb_slice_dup am) filters) of
                       None \<Rightarrow> (False, v)
                     | Some fs \<Rightarrow> (True, v\<lparr>lvc_filters := fs, lvc_enabled := True\<rparr>))"

definition lvc_subject_enabled :: "mb_lvc \<Rightarrow> bytes \<Rightarrow> bool" where
  "lvc_subject_enabled v subject =
     (if \<not> lvc_enabled v then False
      else list_ex (\<lambda>f. subject_matches f subject) (lvc_filters v))"

definition lvc_stats_subject_enabled :: "mb_lvc \<Rightarrow> bytes \<Rightarrow> bool" where
  "lvc_stats_subject_enabled v subject =
     (if \<not> lvc_enabled v then False
      else list_ex (\<lambda>f. mb_router_subject_has_stats_prefix f \<and> subject_matches f subject) (lvc_filters v))"

section \<open>Lookup and store\<close>

definition lvc_keys :: "mb_lvc \<Rightarrow> bytes list" where
  "lvc_keys v = map le_subject (lvc_items v)"

definition lvc_index_ensure :: "allocator \<Rightarrow> mb_lvc \<Rightarrow> nat \<Rightarrow> (bool \<times> mb_lvc) option" where
  "lvc_index_ensure am v needed =
     do { (ok, es) \<leftarrow> index_ensure am (lvc_keys v) (lvc_index v) needed;
          Some (ok, v\<lparr>lvc_index := es\<rparr>) }"

definition lvc_index_find :: "mb_lvc \<Rightarrow> bytes \<Rightarrow> u64 \<Rightarrow> nat option" where
  "lvc_index_find v key hash = index_find (lvc_keys v) (lvc_index v) key hash"

text \<open>The scan of the entries when there is no index.\<close>

definition lvc_scan :: "mb_lvc \<Rightarrow> bytes \<Rightarrow> nat option" where
  "lvc_scan v subject =
     (let i = length (takeWhile (\<lambda>e. \<not> mb_slice_eq (le_subject e) subject) (lvc_items v))
      in if i < length (lvc_items v) then Some i else None)"

text \<open>The position of the entry of a subject, \<open>None\<close> for the null pointer.\<close>

definition lvc_entry_find :: "mb_lvc \<Rightarrow> bytes \<Rightarrow> nat option option" where
  "lvc_entry_find v subject =
     do { found \<leftarrow> lvc_index_find v subject (mb_slice_hash subject);
          if found \<noteq> SIZE_MAX then Some (Some found)
          else if length (lvc_index v) = 0 then Some (lvc_scan v subject)
          else Some None }"

text \<open>The write of the payload into the entry at \<open>i\<close>, which may be fresh.\<close>

definition lvc_put :: "allocator \<Rightarrow> mb_lvc \<Rightarrow> nat \<Rightarrow> nat \<Rightarrow> bytes \<Rightarrow> bool \<times> mb_lvc" where
  "lvc_put am v i payload_base payload =
     (let entry = lvc_items v ! i;
          (ok, buf) = mb_buf_append am (mb_buf_clear (le_payload entry)) payload;
          v = v\<lparr>lvc_items := (lvc_items v)[i := entry\<lparr>le_payload := buf\<rparr>]\<rparr>
      in if \<not> ok then (False, v) else (True, v\<lparr>lvc_payload_bytes := payload_base + length payload\<rparr>))"

text \<open>The entry for a subject that has none; \<open>sizeof (mb_lvc_entry)\<close> is 40.\<close>

definition lvc_add :: "allocator \<Rightarrow> mb_lvc \<Rightarrow> bytes \<Rightarrow> (bool \<times> mb_lvc) option" where
  "lvc_add am v subject =
     (if MB_MAX_LVC_ENTRIES \<le> length (lvc_items v) then Some (False, v)
      else do { (ok, v) \<leftarrow> lvc_index_ensure am v (length (lvc_items v) + 1);
        if \<not> ok then Some (False, v)
        else case mb_array_reserve am (lvc_cap v) (length (lvc_items v) + 1) 40 16 of
          None \<Rightarrow> Some (False, v)
        | Some cap \<Rightarrow>
            let v = v\<lparr>lvc_cap := cap\<rparr>
            in case mb_slice_dup am subject of
                 None \<Rightarrow> Some (False, v)
               | Some subject \<Rightarrow>
                   do { es \<leftarrow> index_insert (lvc_index v) (mb_slice_hash subject) (length (lvc_items v));
                        Some (True, v\<lparr>lvc_items := lvc_items v @ [\<lparr>le_subject = subject, le_payload = mb_buf_zero\<rparr>],
                                lvc_index := es\<rparr>) } })"

text \<open>Whether a publish on \<open>subject\<close> is cached at all.\<close>

definition lvc_wanted :: "mb_lvc \<Rightarrow> bytes \<Rightarrow> bool" where
  "lvc_wanted v subject =
     (if mb_router_subject_has_lvc_prefix subject then False
      else if mb_router_subject_has_stats_prefix subject then lvc_stats_subject_enabled v subject
      else lvc_subject_enabled v subject)"

definition lvc_store :: "allocator \<Rightarrow> mb_lvc \<Rightarrow> bytes \<Rightarrow> bytes \<Rightarrow> (bool \<times> mb_lvc) option" where
  "lvc_store am v subject payload =
     (if \<not> lvc_wanted v subject then Some (True, v)
      else if \<not> mb_proto_subject_valid subject False then Some (False, v)
      else do { entry \<leftarrow> lvc_entry_find v subject;
        let old_payload_len = (case entry of None \<Rightarrow> 0 | Some i \<Rightarrow> buf_len (le_payload (lvc_items v ! i)));
        if lvc_payload_bytes v < old_payload_len then Some (False, v)
        else do {
          let payload_base = lvc_payload_bytes v - old_payload_len;
          if MB_MAX_LVC_BYTES < payload_base \<or> MB_MAX_LVC_BYTES - payload_base < length payload
          then Some (False, v)
          else case entry of
                 Some i \<Rightarrow> Some (lvc_put am v i payload_base payload)
               | None \<Rightarrow>
                   do { (ok, v) \<leftarrow> lvc_add am v subject;
                        if \<not> ok then Some (False, v)
                        else Some (lvc_put am v (length (lvc_items v) - 1) payload_base payload) } } })"

definition mb_router_store_lvc :: "allocator \<Rightarrow> mb_lvc \<Rightarrow> bytes \<Rightarrow> bytes \<Rightarrow> (bool \<times> mb_lvc) option" where
  "mb_router_store_lvc am v subject payload = lvc_store am v subject payload"

definition mb_router_lvc_count :: "mb_lvc \<Rightarrow> nat" where
  "mb_router_lvc_count v = length (lvc_items v)"

definition mb_router_lvc_entry :: "mb_lvc \<Rightarrow> nat \<Rightarrow> (bytes \<times> bytes) option" where
  "mb_router_lvc_entry v index =
     (if length (lvc_items v) \<le> index then None
      else let entry = lvc_items v ! index in Some (le_subject entry, buf_data (le_payload entry)))"

definition mb_router_lvc_latest :: "mb_lvc \<Rightarrow> bytes \<Rightarrow> bytes option option" where
  "mb_router_lvc_latest v subject =
     (if \<not> mb_proto_subject_valid subject False \<or> \<not> lvc_subject_enabled v subject then Some None
      else do { found \<leftarrow> lvc_index_find v subject (mb_slice_hash subject);
        if found \<noteq> SIZE_MAX then Some (Some (buf_data (le_payload (lvc_items v ! found))))
        else if length (lvc_index v) = 0
        then Some (map_option (\<lambda>i. buf_data (le_payload (lvc_items v ! i))) (lvc_scan v subject))
        else Some None })"

section \<open>Replay to a new subscriber\<close>

fun emit_cached_loop :: "allocator \<Rightarrow> mb_lvc \<Rightarrow> mb_lvc_entry list \<Rightarrow> mb_buf \<Rightarrow> bytes \<Rightarrow> bytes \<Rightarrow> bool \<times> mb_buf" where
  "emit_cached_loop am v [] out flt sid = (True, out)"
| "emit_cached_loop am v (entry # entries) out flt sid =
     (let subject = le_subject entry
      in if \<not> lvc_subject_enabled v subject then emit_cached_loop am v entries out flt sid
         else if \<not> subject_matches flt subject then emit_cached_loop am v entries out flt sid
         else let payload = buf_data (le_payload entry)
         in case mb_msg_frame_len_prefixed (length MB_LVC_PREFIX) subject sid payload of
              None \<Rightarrow> (False, out)
            | Some frame_len \<Rightarrow>
                if MB_MAX_PENDING < buf_len out \<or> MB_MAX_PENDING - buf_len out < frame_len then (False, out)
                else case mb_write_msg_prefixed am out MB_LVC_PREFIX subject sid payload of
                       (False, out) \<Rightarrow> (False, out)
                     | (True, out) \<Rightarrow> emit_cached_loop am v entries out flt sid)"

definition emit_cached :: "allocator \<Rightarrow> mb_lvc \<Rightarrow> mb_buf \<Rightarrow> bytes \<Rightarrow> bytes \<Rightarrow> bool \<times> mb_buf" where
  "emit_cached am v out flt sid =
     (if \<not> lvc_enabled v then (False, out) else emit_cached_loop am v (lvc_items v) out flt sid)"

end
