(* ===== verification/Router_LVC_Correct.thy ===== *)
theory Router_LVC_Correct
  imports Router_LVC
begin

text \<open>
  The last-value cache implements a bounded map from subjects to payloads: its invariant,
  the refinement of store and lookup, and the accounting of the cached bytes.
\<close>

section \<open>Invariant and abstraction\<close>

definition lvc_bytes :: "mb_lvc_entry list \<Rightarrow> nat" where
  "lvc_bytes es = sum_list (map (\<lambda>e. buf_len (le_payload e)) es)"

definition lvc_ok :: "mb_lvc \<Rightarrow> bool" where
  "lvc_ok v \<longleftrightarrow>
     index_ok (lvc_keys v) (lvc_index v) \<and> length (lvc_items v) \<le> lvc_cap v \<and>
     length (lvc_items v) \<le> MB_MAX_LVC_ENTRIES \<and>
     lvc_bytes (lvc_items v) \<le> lvc_payload_bytes v \<and> lvc_payload_bytes v \<le> MB_MAX_LVC_BYTES \<and>
     (\<forall>e \<in> set (lvc_items v). mb_proto_subject_valid (le_subject e) False \<and> buf_wf (le_payload e)) \<and>
     (\<forall>f \<in> set (lvc_filters v). mb_proto_subject_valid f True)"

definition lvc_map :: "mb_lvc \<Rightarrow> bytes \<rightharpoonup> bytes" where
  "lvc_map v = map_of (map (\<lambda>e. (le_subject e, buf_data (le_payload e))) (lvc_items v))"

interpretation lvc_table: keyed_table lvc_keys lvc_ok "\<lambda>v key. lvc_index_find v key (mb_slice_hash key)"
  by unfold_locales
     (simp add: lvc_ok_def index_ok_def, blast dest: index_ok_small lvc_ok_def [THEN iffD1],
      simp add: lvc_ok_def lvc_index_find_def index_find_spec)

lemma lvc_ok_zero [simp]: "lvc_ok lvc_zero"
  by (simp add: lvc_ok_def lvc_zero_def lvc_keys_def index_ok_def lvc_bytes_def)

lemma lvc_map_dom: "lvc_map v s = None \<longleftrightarrow> s \<notin> set (lvc_keys v)"
  by (simp add: lvc_map_def lvc_keys_def map_of_eq_None_iff image_image)

lemma lvc_map_nth:
  assumes "lvc_ok v" "i < length (lvc_items v)"
  shows "lvc_map v (le_subject (lvc_items v ! i)) = Some (buf_data (le_payload (lvc_items v ! i)))"
proof -
  have "distinct (map fst (map (\<lambda>e. (le_subject e, buf_data (le_payload e))) (lvc_items v)))"
    using lvc_table.distinct_keys [OF assms(1)] by (simp add: lvc_keys_def comp_def)
  moreover have "(le_subject (lvc_items v ! i), buf_data (le_payload (lvc_items v ! i)))
      \<in> set (map (\<lambda>e. (le_subject e, buf_data (le_payload e))) (lvc_items v))"
    using assms(2) by auto
  ultimately show ?thesis unfolding lvc_map_def by (rule map_of_is_SomeI)
qed

lemma lvc_position:
  assumes "s \<in> set (lvc_keys v)"
  shows "position s (lvc_keys v) < length (lvc_items v)"
    "le_subject (lvc_items v ! position s (lvc_keys v)) = s"
  using position_lt [OF assms] nth_position [OF assms] by (simp_all add: lvc_keys_def)

lemma lvc_scan_None: "lvc_index v = [] \<Longrightarrow> lvc_ok v \<Longrightarrow> lvc_scan v s = None"
  by (simp add: lvc_scan_def lvc_ok_def index_ok_def lvc_keys_def)

lemma lvc_find_not_max:
  assumes "lvc_ok v" "s \<in> set (lvc_keys v)"
  shows "position s (lvc_keys v) \<noteq> SIZE_MAX"
  using lvc_table.small [OF assms(1)] position_lt [OF assms(2)] by simp

lemma lvc_entry_find_spec:
  assumes "lvc_ok v"
  shows "lvc_entry_find v s = Some (if s \<in> set (lvc_keys v) then Some (position s (lvc_keys v)) else None)"
  using lvc_table.find_position [OF assms, of s] lvc_find_not_max [OF assms, of s] lvc_scan_None [OF _ assms, of s]
  by (auto simp: lvc_entry_find_def)

lemma lvc_latest_spec:
  assumes "lvc_ok v"
  shows "mb_router_lvc_latest v s =
    Some (if mb_proto_subject_valid s False \<and> lvc_subject_enabled v s then lvc_map v s else None)"
proof (cases "s \<in> set (lvc_keys v)")
  case True
  then have "lvc_map v s = Some (buf_data (le_payload (lvc_items v ! position s (lvc_keys v))))"
    using lvc_map_nth [OF assms lvc_position(1) [OF True]] lvc_position(2) [OF True] by simp
  then show ?thesis
    using True lvc_table.find_position [OF assms, of s] lvc_find_not_max [OF assms True]
    by (simp add: mb_router_lvc_latest_def)
next
  case False
  then show ?thesis
    using lvc_table.find_miss [OF assms False] lvc_scan_None [OF _ assms, of s] lvc_map_dom [of v s]
    by (simp add: mb_router_lvc_latest_def)
qed

section \<open>Store\<close>

lemma map_of_update_nth:
  "distinct (map fst xs) \<Longrightarrow> i < length xs \<Longrightarrow>
   map_of (xs[i := (fst (xs ! i), y)]) = (map_of xs)(fst (xs ! i) \<mapsto> y)"
proof (induction xs arbitrary: i)
  case (Cons x xs)
  show ?case
  proof (cases i)
    case (Suc j)
    with Cons have "fst (xs ! j) \<noteq> fst x" by (metis Suc_less_eq distinct.simps(2) length_Cons length_map list.simps(9) nth_map nth_mem)
    with Suc Cons show ?thesis by (auto simp: fun_eq_iff)
  qed (simp add: fun_eq_iff)
qed simp

lemma lvc_map_update:
  assumes "lvc_ok v" "i < length (lvc_items v)"
  shows "lvc_map (v\<lparr>lvc_items := (lvc_items v)[i := (lvc_items v ! i)\<lparr>le_payload := buf\<rparr>]\<rparr>) =
    (lvc_map v)(le_subject (lvc_items v ! i) \<mapsto> buf_data buf)"
proof -
  let ?xs = "map (\<lambda>e. (le_subject e, buf_data (le_payload e))) (lvc_items v)"
  have "distinct (map fst ?xs)"
    using lvc_table.distinct_keys [OF assms(1)] by (simp add: lvc_keys_def comp_def)
  then have "map_of (?xs[i := (fst (?xs ! i), buf_data buf)]) = (map_of ?xs)(fst (?xs ! i) \<mapsto> buf_data buf)"
    using assms(2) by (intro map_of_update_nth) auto
  then show ?thesis using assms(2) by (simp add: lvc_map_def map_update)
qed

lemma lvc_bytes_update:
  assumes "i < length es"
  shows "lvc_bytes (es[i := e]) + buf_len (le_payload (es ! i)) = lvc_bytes es + buf_len (le_payload e)"
proof -
  have "es = take i es @ es ! i # drop (Suc i) es" using assms by (rule id_take_nth_drop)
  from arg_cong [OF this, of lvc_bytes] show ?thesis
    using assms by (simp add: lvc_bytes_def upd_conv_take_nth_drop)
qed

lemma lvc_put_spec:
  assumes ok: "lvc_ok v" and i: "i < length (lvc_items v)"
    and base: "lvc_payload_bytes v = base + buf_len (le_payload (lvc_items v ! i))"
    and lim: "base + length payload \<le> MB_MAX_LVC_BYTES"
    and put: "lvc_put am v i base payload = (r, v')"
  shows "lvc_ok v'" "lvc_filters v' = lvc_filters v" "lvc_enabled v' = lvc_enabled v"
    "lvc_map v' = (lvc_map v)(le_subject (lvc_items v ! i) \<mapsto> (if r then payload else []))"
proof -
  let ?e = "lvc_items v ! i"
  obtain r' buf where app: "mb_buf_append am (mb_buf_clear (le_payload ?e)) payload = (r', buf)" by fastforce
  let ?v1 = "v\<lparr>lvc_items := (lvc_items v)[i := ?e\<lparr>le_payload := buf\<rparr>]\<rparr>"
  have r: "r' = r" and v': "v' = (if r then ?v1\<lparr>lvc_payload_bytes := base + length payload\<rparr> else ?v1)"
    using put app by (auto simp: lvc_put_def Let_def split: if_splits)
  have e_in: "?e \<in> set (lvc_items v)" using i by simp
  then have "buf_wf (le_payload ?e)" using ok by (auto simp: lvc_ok_def)
  then have "buf_wf (mb_buf_clear (le_payload ?e))" by (simp add: buf_wf_def mb_buf_clear_def)
  then have wf: "buf_wf buf" using mb_buf_append_wf [of _ am payload] app by (metis snd_conv)
  have data: "buf_data buf = (if r then payload else [])"
    using mb_buf_append_data [of am "mb_buf_clear (le_payload ?e)" payload] app r by (simp add: mb_buf_clear_def)
  have keys: "lvc_keys ?v1 = lvc_keys v"
    using i by (simp add: lvc_keys_def map_update) (metis list_update_id nth_map)
  have members: "mb_proto_subject_valid (le_subject e) False \<and> buf_wf (le_payload e)"
    if "e \<in> set ((lvc_items v)[i := ?e\<lparr>le_payload := buf\<rparr>])" for e
  proof -
    from that have "e \<in> insert (?e\<lparr>le_payload := buf\<rparr>) (set (lvc_items v))"
      using set_update_subset_insert by fast
    then show ?thesis using ok e_in wf by (elim insertE) (simp_all add: lvc_ok_def)
  qed
  have "lvc_bytes ((lvc_items v)[i := ?e\<lparr>le_payload := buf\<rparr>]) + buf_len (le_payload ?e) =
      lvc_bytes (lvc_items v) + (if r then length payload else 0)"
    using lvc_bytes_update [OF i, of "?e\<lparr>le_payload := buf\<rparr>"] data by simp
  then have "lvc_bytes (lvc_items v') \<le> lvc_payload_bytes v'" "lvc_payload_bytes v' \<le> MB_MAX_LVC_BYTES"
    using ok base lim by (auto simp: v' lvc_ok_def)
  with ok keys members show "lvc_ok v'"
    by (auto simp: v' lvc_ok_def lvc_keys_def)
  show "lvc_filters v' = lvc_filters v" "lvc_enabled v' = lvc_enabled v" by (simp_all add: v')
  show "lvc_map v' = (lvc_map v)(le_subject ?e \<mapsto> (if r then payload else []))"
    using lvc_map_update [OF ok i, of buf] data by (simp add: v' lvc_map_def)
qed

lemma lvc_add_spec:
  assumes ok: "lvc_ok v" and new: "s \<notin> set (lvc_keys v)" and val: "mb_proto_subject_valid s False"
  obtains r v' where "lvc_add am v s = Some (r, v')" "lvc_ok v'"
    "lvc_items v' = (if r then lvc_items v @ [\<lparr>le_subject = s, le_payload = mb_buf_zero\<rparr>] else lvc_items v)"
    "lvc_filters v' = lvc_filters v" "lvc_enabled v' = lvc_enabled v" "lvc_payload_bytes v' = lvc_payload_bytes v"
proof -
  have n: "length (lvc_keys v) = length (lvc_items v)" by (simp add: lvc_keys_def)
  have ix: "index_ok (lvc_keys v) (lvc_index v)" using ok by (simp add: lvc_ok_def)
  obtain g es where ens: "index_ensure am (lvc_keys v) (lvc_index v) (length (lvc_keys v) + 1) = Some (g, es)"
      "index_ok (lvc_keys v) es" "g \<Longrightarrow> es \<noteq> [] \<and> 2 * (length (lvc_keys v) + 1) \<le> length es"
    using index_ensure_spec [OF ix, of am] by metis
  let ?v1 = "v\<lparr>lvc_index := es\<rparr>"
  have ok1: "lvc_ok ?v1" using ok ens(2) by (simp add: lvc_ok_def lvc_keys_def)
  consider (full) "MB_MAX_LVC_ENTRIES \<le> length (lvc_items v)"
    | (noindex) "length (lvc_items v) < MB_MAX_LVC_ENTRIES" "\<not> g"
    | (noroom) "length (lvc_items v) < MB_MAX_LVC_ENTRIES" g
        "mb_array_reserve am (lvc_cap v) (length (lvc_items v) + 1) 40 16 = None"
    | (room) cap where "length (lvc_items v) < MB_MAX_LVC_ENTRIES" g
        "mb_array_reserve am (lvc_cap v) (length (lvc_items v) + 1) 40 16 = Some cap"
    by (meson linorder_not_less not_None_eq)
  then show thesis
  proof cases
    case full
    then show thesis using that [of False v] ok by (simp add: lvc_add_def)
  next
    case noindex
    then have "lvc_add am v s = Some (False, ?v1)"
      using ens(1) n by (simp add: lvc_add_def lvc_index_ensure_def)
    then show thesis using that [of False ?v1] ok1 by simp
  next
    case noroom
    then have "lvc_add am v s = Some (False, ?v1)"
      using ens(1) n by (simp add: lvc_add_def lvc_index_ensure_def)
    then show thesis using that [of False ?v1] ok1 by simp
  next
    case room
    have le: "length (lvc_items v) + 1 \<le> cap" using mb_array_reserve_ge [OF room(3)] .
    let ?v2 = "?v1\<lparr>lvc_cap := cap\<rparr>"
    have ok2: "lvc_ok ?v2" using ok1 le by (simp add: lvc_ok_def lvc_keys_def)
    show thesis
    proof (cases "mb_slice_dup am s")
      case None
      then have "lvc_add am v s = Some (False, ?v2)"
        using room ens(1) n by (simp add: lvc_add_def lvc_index_ensure_def Let_def)
      then show thesis using that [of False ?v2] ok2 by simp
    next
      case (Some s')
      then have dup: "mb_slice_dup am s = Some s" using mb_slice_dup_Some by metis
      obtain es' where es': "index_insert es (mb_slice_hash s) (length (lvc_keys v)) = Some es'"
          "index_ok (lvc_keys v @ [s]) es'"
        using index_ok_append [OF ens(2) _ _ new] ens(3) room(2) by metis
      let ?v3 = "?v2\<lparr>lvc_items := lvc_items v @ [\<lparr>le_subject = s, le_payload = mb_buf_zero\<rparr>], lvc_index := es'\<rparr>"
      have "lvc_add am v s = Some (True, ?v3)"
        using room ens(1) n dup es'(1) by (simp add: lvc_add_def lvc_index_ensure_def Let_def)
      moreover have "lvc_ok ?v3"
        using ok2 es'(2) le room(1) val
        by (auto simp: lvc_ok_def lvc_keys_def lvc_bytes_def mb_buf_zero_def buf_wf_def)
      ultimately show thesis using that [of True ?v3] by simp
    qed
  qed
qed


text \<open>The step of \<open>lvc_store\<close> for a subject that is cached.\<close>

lemma lvc_store_wanted:
  assumes "lvc_ok v" "lvc_wanted v s"
  obtains r v' where "lvc_store am v s p = Some (r, v')" "lvc_ok v'"
    "lvc_filters v' = lvc_filters v" "lvc_enabled v' = lvc_enabled v"
    "r \<Longrightarrow> lvc_map v' = (lvc_map v)(s \<mapsto> p)" "\<And>t. t \<noteq> s \<Longrightarrow> lvc_map v' t = lvc_map v t"
proof (cases "mb_proto_subject_valid s False")
  case False
  then show thesis using that [of False v] assms by (simp add: lvc_store_def)
next
  case val: True
  let ?i = "position s (lvc_keys v)"
  let ?old = "if s \<in> set (lvc_keys v) then buf_len (le_payload (lvc_items v ! ?i)) else 0"
  let ?base = "lvc_payload_bytes v - ?old"
  note find = lvc_entry_find_spec [OF assms(1), of s]
  show thesis
  proof (cases "lvc_payload_bytes v < ?old \<or> MB_MAX_LVC_BYTES < ?base \<or> MB_MAX_LVC_BYTES - ?base < length p")
    case True
    then have "lvc_store am v s p = Some (False, v)"
      using find val assms(2) by (auto simp: lvc_store_def Let_def)
    then show thesis using that assms(1) by blast
  next
    case fits: False
    show thesis
    proof (cases "s \<in> set (lvc_keys v)")
      case True
      note i = lvc_position [OF True]
      obtain r v' where put: "lvc_put am v ?i ?base p = (r, v')" by fastforce
      have "lvc_store am v s p = Some (r, v')"
        using find val assms(2) fits True put by (auto simp: lvc_store_def Let_def)
      moreover note lvc_put_spec [OF assms(1) i(1) _ _ put]
      ultimately show thesis
        using fits True i(2) by (intro that [of r v']) auto
    next
      case False
      obtain g v1 where add: "lvc_add am v s = Some (g, v1)" "lvc_ok v1"
          "lvc_items v1 = (if g then lvc_items v @ [\<lparr>le_subject = s, le_payload = mb_buf_zero\<rparr>] else lvc_items v)"
          "lvc_filters v1 = lvc_filters v" "lvc_enabled v1 = lvc_enabled v"
          "lvc_payload_bytes v1 = lvc_payload_bytes v"
        using lvc_add_spec [OF assms(1) False val, of am] by metis
      show thesis
      proof (cases g)
        case no: False
        have "lvc_store am v s p = Some (False, v1)"
          using find val assms(2) fits False add(1) no by (auto simp: lvc_store_def Let_def)
        then show thesis
          using that add no by (simp add: lvc_map_def)
      next
        case True
        let ?k = "length (lvc_items v1) - 1"
        have k: "?k < length (lvc_items v1)" "le_subject (lvc_items v1 ! ?k) = s"
          "buf_len (le_payload (lvc_items v1 ! ?k)) = 0"
          using add(3) True by (simp_all add: mb_buf_zero_def)
        obtain r v' where put: "lvc_put am v1 ?k ?base p = (r, v')" by fastforce
        have "lvc_store am v s p = Some (r, v')"
          using find val assms(2) fits False add(1) True put by (auto simp: lvc_store_def Let_def)
        moreover have "lvc_payload_bytes v1 = ?base + buf_len (le_payload (lvc_items v1 ! ?k))"
          "?base + length p \<le> MB_MAX_LVC_BYTES"
          using add(6) k(3) False fits by (simp, linarith)
        note spec = lvc_put_spec [OF add(2) k(1) this put]
        have "lvc_map v1 t = lvc_map v t" if "t \<noteq> s" for t
          using add(3) True that by (simp add: lvc_map_def map_add_def split: option.split)
        moreover have "(lvc_map v1)(s \<mapsto> p) = (lvc_map v)(s \<mapsto> p)"
          using calculation(2) by (auto simp: fun_eq_iff)
        ultimately show thesis
          using add(4,5) k(2) spec by (intro that [of r v']) auto
      qed
    qed
  qed
qed

lemma lvc_store_spec:
  assumes "lvc_ok v"
  obtains r v' where "lvc_store am v s p = Some (r, v')" "lvc_ok v'"
    "lvc_filters v' = lvc_filters v" "lvc_enabled v' = lvc_enabled v"
    "\<not> lvc_wanted v s \<Longrightarrow> r \<and> v' = v"
    "lvc_wanted v s \<Longrightarrow> r \<Longrightarrow> lvc_map v' = (lvc_map v)(s \<mapsto> p)"
    "\<And>t. t \<noteq> s \<Longrightarrow> lvc_map v' t = lvc_map v t"
proof (cases "lvc_wanted v s")
  case True
  with lvc_store_wanted [OF assms True, of am p] that show thesis by metis
next
  case False
  then have "lvc_store am v s p = Some (True, v)" by (simp add: lvc_store_def)
  with False that assms show thesis by blast
qed

lemma lvc_wanted_enabled: "lvc_wanted v s \<Longrightarrow> lvc_subject_enabled v s"
  by (auto simp: lvc_wanted_def lvc_stats_subject_enabled_def lvc_subject_enabled_def list_ex_iff
       split: if_splits)

lemma lvc_enabled_cong:
  "lvc_filters v' = lvc_filters v \<Longrightarrow> lvc_enabled v' = lvc_enabled v \<Longrightarrow>
   lvc_subject_enabled v' s = lvc_subject_enabled v s"
  by (simp add: lvc_subject_enabled_def)

text \<open>
  \<^bold>\<open>C11\<close> The cache is a bounded map. From any state within its limits \<open>lvc_store\<close> ends and
  leaves the cache within its limits (at most \<open>MB_MAX_LVC_ENTRIES\<close> subjects, cached payload
  bytes never above the accounted bytes, those never above \<open>MB_MAX_LVC_BYTES\<close>, the hash
  index consistent); a successful store of a cached subject makes exactly that subject map
  to the payload, a store of a subject outside the filters changes nothing, and no store,
  failed ones included, changes what another subject maps to.
\<close>

theorem lvc_store_refines:
  assumes "lvc_ok v"
  shows "\<exists>r v'. lvc_store am v s p = Some (r, v') \<and> lvc_ok v' \<and>
    (\<not> lvc_wanted v s \<longrightarrow> r \<and> v' = v) \<and>
    (lvc_wanted v s \<and> r \<longrightarrow> lvc_map v' = (lvc_map v)(s \<mapsto> p)) \<and>
    (\<forall>t. t \<noteq> s \<longrightarrow> lvc_map v' t = lvc_map v t)"
proof -
  obtain r v' where "lvc_store am v s p = Some (r, v')" "lvc_ok v'"
    "\<not> lvc_wanted v s \<Longrightarrow> r \<and> v' = v"
    "lvc_wanted v s \<Longrightarrow> r \<Longrightarrow> lvc_map v' = (lvc_map v)(s \<mapsto> p)"
    "\<And>t. t \<noteq> s \<Longrightarrow> lvc_map v' t = lvc_map v t"
    using lvc_store_spec [OF assms, of am s p] by metis
  then show ?thesis by blast
qed

text \<open>The example cache of the witnesses: everything under \<open>a\<close> is cached.\<close>

definition example_lvc :: mb_lvc where
  "example_lvc = lvc_zero\<lparr>lvc_filters := [''a.>''], lvc_enabled := True\<rparr>"

lemma example_lvc_ok: "lvc_ok example_lvc" "lvc_wanted example_lvc ''a.b''"
  "mb_proto_subject_valid ''a.b'' False"
proof -
  have "mb_proto_subject_valid ''a.>'' True" by code_simp
  then show "lvc_ok example_lvc"
    by (simp add: example_lvc_def lvc_ok_def lvc_zero_def lvc_keys_def index_ok_def lvc_bytes_def)
qed code_simp+

theorem lvc_store_refines_witness:
  "\<exists>v'. lvc_store (\<lambda>_. True) example_lvc ''a.b'' ''42'' = Some (True, v') \<and> lvc_ok v' \<and>
     lvc_map v' ''a.b'' = Some ''42''"
proof -
  obtain r v' where st: "lvc_store (\<lambda>_. True) example_lvc ''a.b'' ''42'' = Some (r, v')" "lvc_ok v'"
      "r \<Longrightarrow> lvc_map v' = (lvc_map example_lvc)(''a.b'' \<mapsto> ''42'')"
    using lvc_store_refines [OF example_lvc_ok(1), of "\<lambda>_. True" "''a.b''" "''42''"] example_lvc_ok(2) by auto
  have "map_option fst (lvc_store (\<lambda>_. True) example_lvc ''a.b'' ''42'') = Some True" by code_simp
  with st show ?thesis by auto
qed

text \<open>
  \<^bold>\<open>C29\<close> A cached publish is what the next lookup returns: when a store of a cached, valid
  subject succeeds, \<open>mb_router_lvc_latest\<close> ends and returns the stored payload for that
  subject, and for every other subject what it returned before.
\<close>

theorem lvc_latest_after_store:
  assumes "lvc_ok v" "lvc_wanted v s" "mb_proto_subject_valid s False"
    and "lvc_store am v s p = Some (True, v')"
  shows "mb_router_lvc_latest v' s = Some (Some p) \<and>
    (\<forall>t. t \<noteq> s \<longrightarrow> mb_router_lvc_latest v' t = mb_router_lvc_latest v t)"
proof -
  have v': "lvc_ok v'" "lvc_filters v' = lvc_filters v" "lvc_enabled v' = lvc_enabled v"
      "lvc_map v' = (lvc_map v)(s \<mapsto> p)"
    using lvc_store_spec [OF assms(1), of am s p] assms(2,4) by (metis Pair_inject option.inject)+
  have "lvc_subject_enabled v' t = lvc_subject_enabled v t" for t
    using v'(2,3) by (rule lvc_enabled_cong)
  then show ?thesis
    using assms(2,3) lvc_wanted_enabled v' by (simp add: lvc_latest_spec assms(1))
qed

theorem lvc_latest_after_store_witness:
  "\<exists>v'. lvc_store (\<lambda>_. True) example_lvc ''a.b'' ''42'' = Some (True, v') \<and>
     mb_router_lvc_latest v' ''a.b'' = Some (Some ''42'')"
proof -
  have "map_option fst (lvc_store (\<lambda>_. True) example_lvc ''a.b'' ''42'') = Some True" by code_simp
  then obtain v' where st: "lvc_store (\<lambda>_. True) example_lvc ''a.b'' ''42'' = Some (True, v')" by auto
  from lvc_latest_after_store [OF example_lvc_ok st] st show ?thesis by blast
qed

lemma configure_lvc_ok:
  assumes "lvc_ok v" "mb_router_configure_lvc am v filters = (r, v')"
  shows "lvc_ok v'" "lvc_items v' = lvc_items v"
    "r \<Longrightarrow> lvc_filters v' = filters \<and> (lvc_enabled v' \<longleftrightarrow> filters \<noteq> [])"
    "\<not> r \<Longrightarrow> \<not> lvc_enabled v'"
proof -
  have dup: "those (map (mb_slice_dup am) fs) = Some gs \<Longrightarrow> gs = fs" for fs gs
  proof (induction fs arbitrary: gs)
    case (Cons f fs)
    then show ?case by (auto simp: mb_slice_dup_def split: if_splits)
  qed simp
  show "lvc_ok v'" "lvc_items v' = lvc_items v"
    "r \<Longrightarrow> lvc_filters v' = filters \<and> (lvc_enabled v' \<longleftrightarrow> filters \<noteq> [])" "\<not> r \<Longrightarrow> \<not> lvc_enabled v'"
    using assms
    by (auto simp: mb_router_configure_lvc_def Let_def lvc_ok_def lvc_keys_def list_all_iff dest!: dup
        split: if_splits option.splits)
qed


section \<open>Replay\<close>

definition cached_frames :: "mb_lvc \<Rightarrow> mb_lvc_entry list \<Rightarrow> bytes \<Rightarrow> bytes \<Rightarrow> bytes list" where
  "cached_frames v es flt sid =
     map (\<lambda>e. msg_frame (MB_LVC_PREFIX @ le_subject e) sid [] (buf_data (le_payload e)))
       (filter (\<lambda>e. lvc_subject_enabled v (le_subject e) \<and> subject_matches flt (le_subject e)) es)"

lemma write_msg_prefixed_cases:
  assumes "buf_wf out" "mb_write_msg_prefixed am out pfx subject sid payload = (ok, out')"
  shows "buf_wf out'"
    "buf_data out' = (if ok then buf_data out @ msg_frame (pfx @ subject) sid [] payload else buf_data out)"
  using mb_write_msg_atomic [OF assms(1), of pfx subject sid "[]" payload am] assms(2)
  by (simp_all add: mb_write_msg_prefixed_def Let_def)

lemma frame_len_Some:
  "mb_msg_frame_len_prefixed (length pfx) subject sid payload = Some n \<Longrightarrow>
   n = length (msg_frame (pfx @ subject) sid [] payload)"
  unfolding mb_msg_frame_len_prefixed_def frame_len_eq by (simp add: Let_def split: if_splits)

lemma emit_cached_loop_spec:
  assumes "buf_wf out" "emit_cached_loop am v es out flt sid = (ok, out')"
  shows "buf_wf out' \<and> buf_len out' \<le> max (buf_len out) MB_MAX_PENDING \<and>
    (\<exists>fs. prefix fs (cached_frames v es flt sid) \<and> buf_data out' = buf_data out @ concat fs \<and>
      (ok \<longrightarrow> fs = cached_frames v es flt sid))"
  using assms
proof (induction es arbitrary: out)
  case Nil
  then show ?case by (auto simp: cached_frames_def)
next
  case (Cons e es)
  let ?s = "le_subject e" and ?p = "buf_data (le_payload e)"
  let ?f = "msg_frame (MB_LVC_PREFIX @ ?s) sid [] ?p"
  show ?case
  proof (cases "lvc_subject_enabled v ?s \<and> subject_matches flt ?s")
    case False
    then have "emit_cached_loop am v es out flt sid = (ok, out')"
      using Cons.prems(2) by (auto simp: Let_def split: if_splits)
    moreover have "cached_frames v (e # es) flt sid = cached_frames v es flt sid"
      using False by (auto simp: cached_frames_def)
    ultimately show ?thesis using Cons.IH [OF Cons.prems(1)] by simp
  next
    case True
    have frames: "cached_frames v (e # es) flt sid = ?f # cached_frames v es flt sid"
      using True by (simp add: cached_frames_def)
    obtain w out1 where w: "mb_write_msg_prefixed am out MB_LVC_PREFIX ?s sid ?p = (w, out1)" by fastforce
    note out1 = write_msg_prefixed_cases [OF Cons.prems(1) w]
    consider (stop) "ok = False" "out' = out" | (fail) "ok = False" "out' = out1" "\<not> w"
      | (go) w "buf_len out + length ?f \<le> MB_MAX_PENDING" "emit_cached_loop am v es out1 flt sid = (ok, out')"
      using Cons.prems(2) True w frame_len_Some [of MB_LVC_PREFIX ?s sid ?p]
      by (auto simp: Let_def not_less split: option.splits if_splits bool.splits)
    then show ?thesis
    proof cases
      case go
      then have "buf_len out1 \<le> MB_MAX_PENDING" using out1(2) by simp
      then obtain fs where "buf_wf out'" "buf_len out' \<le> MB_MAX_PENDING" "prefix fs (cached_frames v es flt sid)"
          "buf_data out' = buf_data out1 @ concat fs" "ok \<longrightarrow> fs = cached_frames v es flt sid"
        using Cons.IH [OF out1(1) go(3)] by (auto simp: max_absorb2)
      then show ?thesis
        using go(1) out1(2) by (auto simp: frames intro!: exI [of _ "?f # fs"])
    qed (use Cons.prems out1 in \<open>auto intro!: exI [of _ "[]"]\<close>)
  qed
qed

lemma emit_cached_spec:
  assumes "buf_wf out" "emit_cached am v out flt sid = (ok, out')"
  shows "buf_wf out' \<and> buf_len out' \<le> max (buf_len out) MB_MAX_PENDING \<and>
    (\<exists>fs. prefix fs (cached_frames v (lvc_items v) flt sid) \<and> buf_data out' = buf_data out @ concat fs \<and>
      (ok \<longrightarrow> fs = cached_frames v (lvc_items v) flt sid \<and> lvc_enabled v))"
proof (cases "lvc_enabled v")
  case True
  with assms(2) have "emit_cached_loop am v (lvc_items v) out flt sid = (ok, out')"
    by (simp add: emit_cached_def)
  from emit_cached_loop_spec [OF assms(1) this] True show ?thesis by blast
next
  case False
  with assms show ?thesis by (auto simp: emit_cached_def intro!: exI [of _ "[]"])
qed

end
