(* ===== verification/Router.thy ===== *)
theory Router
  imports Router_LVC_Correct
begin

text \<open>
  The router of \<open>src/src/router.c\<close>: its state, subscribing, unsubscribing and removing a
  connection. The connections are a store indexed by connection number, because
  subscriptions share them and the operations update them through pointers.
\<close>

section \<open>State\<close>

definition MB_MAX_SUBS_PER_CONN :: nat where "MB_MAX_SUBS_PER_CONN = 4096"
definition MB_MAX_SUBS_TOTAL :: nat where "MB_MAX_SUBS_TOTAL = 65536"

text \<open>
  The scratch arrays appear with their capacities only: their contents live for one
  publish. \<open>has_bridge\<close> tells that both \<open>bridge_fn\<close> and \<open>bridge_ctx\<close> are set.
\<close>

record mb_router =
  rt_literal :: bucket_table
  rt_wildcard :: bucket_table
  wildcard_global :: mb_sub_list
  kick_cap :: nat
  close_cap :: nat
  queue_cap :: nat
  kick_epoch :: u64
  queue_rng :: u64
  rt_sub_count :: nat
  rt_lvc :: mb_lvc
  has_bridge :: bool

definition router_zero :: mb_router where
  "router_zero = \<lparr>rt_literal = bucket_table_zero, rt_wildcard = bucket_table_zero,
     wildcard_global = sub_list_zero, kick_cap = 0, close_cap = 0, queue_cap = 0, kick_epoch = 0,
     queue_rng = 0, rt_sub_count = 0, rt_lvc = lvc_zero, has_bridge = False\<rparr>"

definition mb_router_init :: mb_router where
  "mb_router_init = router_zero\<lparr>queue_rng := 0x9e3779b97f4a7c15\<rparr>"

definition mb_router_free :: "mb_router \<Rightarrow> mb_router" where
  "mb_router_free r = router_zero"

section \<open>Buckets of the router\<close>

definition literal_bucket :: "allocator \<Rightarrow> mb_router \<Rightarrow> bytes \<Rightarrow> bool \<Rightarrow> (nat option \<times> mb_router) option" where
  "literal_bucket am r key create =
     do { (i, t) \<leftarrow> bt_bucket am (rt_literal r) key create; Some (i, r\<lparr>rt_literal := t\<rparr>) }"

definition wildcard_bucket :: "allocator \<Rightarrow> mb_router \<Rightarrow> bytes \<Rightarrow> bool \<Rightarrow> (nat option \<times> mb_router) option" where
  "wildcard_bucket am r key create =
     do { (i, t) \<leftarrow> bt_bucket am (rt_wildcard r) key create; Some (i, r\<lparr>rt_wildcard := t\<rparr>) }"

text \<open>The scratch arrays of pointers hold 8 bytes, of queue deliveries 56 bytes per element.\<close>

definition ensure_kick_capacity :: "allocator \<Rightarrow> mb_router \<Rightarrow> nat \<Rightarrow> bool \<times> mb_router" where
  "ensure_kick_capacity am r needed =
     (case mb_array_reserve am (kick_cap r) needed 8 1 of
        None \<Rightarrow> (False, r) | Some cap \<Rightarrow> (True, r\<lparr>kick_cap := cap\<rparr>))"

definition ensure_close_capacity :: "allocator \<Rightarrow> mb_router \<Rightarrow> nat \<Rightarrow> bool \<times> mb_router" where
  "ensure_close_capacity am r needed =
     (case mb_array_reserve am (close_cap r) needed 8 1 of
        None \<Rightarrow> (False, r) | Some cap \<Rightarrow> (True, r\<lparr>close_cap := cap\<rparr>))"

definition ensure_queue_capacity :: "allocator \<Rightarrow> mb_router \<Rightarrow> nat \<Rightarrow> bool \<times> mb_router" where
  "ensure_queue_capacity am r needed =
     (case mb_array_reserve am (queue_cap r) needed 56 1 of
        None \<Rightarrow> (False, r) | Some cap \<Rightarrow> (True, r\<lparr>queue_cap := cap\<rparr>))"

definition ensure_publish_capacity :: "allocator \<Rightarrow> mb_router \<Rightarrow> nat \<Rightarrow> bool \<times> mb_router" where
  "ensure_publish_capacity am r needed =
     (case ensure_kick_capacity am r needed of
        (False, r) \<Rightarrow> (False, r)
      | (True, r) \<Rightarrow>
     (case ensure_close_capacity am r needed of
        (False, r) \<Rightarrow> (False, r)
      | (True, r) \<Rightarrow> ensure_queue_capacity am r needed))"

section \<open>Removing subscriptions\<close>

text \<open>The shape shared by \<open>mb_router_remove_all_for\<close> and \<open>mb_router_unsubscribe\<close>.\<close>

definition router_sweep ::
  "(mb_sub_list \<Rightarrow> counts \<Rightarrow> mb_sub_list \<times> counts) \<Rightarrow> mb_router \<Rightarrow> conns \<Rightarrow> (mb_router \<times> conns) option" where
  "router_sweep sweep r cs =
     do { (lit, st) \<leftarrow> bt_sweep sweep 0 (rt_literal r) (rt_sub_count r, cs);
          (wild, st) \<leftarrow> bt_sweep sweep 0 (rt_wildcard r) st;
          let (glob, st) = sweep (wildcard_global r) st;
          Some (r\<lparr>rt_literal := lit, rt_wildcard := wild, wildcard_global := glob, rt_sub_count := fst st\<rparr>,
                snd st) }"

definition mb_router_remove_all_for :: "mb_router \<Rightarrow> conns \<Rightarrow> conn_id \<Rightarrow> (mb_router \<times> conns) option" where
  "mb_router_remove_all_for r cs c = router_sweep (remove_for_conn_from_list c) r cs"

definition mb_router_unsubscribe ::
  "mb_router \<Rightarrow> conns \<Rightarrow> conn_id \<Rightarrow> bytes \<Rightarrow> nat \<Rightarrow> bool \<Rightarrow> (mb_router \<times> conns) option" where
  "mb_router_unsubscribe r cs c sid max_msgs has_max_msgs =
     router_sweep (unsubscribe_from_list c sid max_msgs has_max_msgs) r cs"

section \<open>Subscribing\<close>

text \<open>The three duplicates of the new subscription; a refused one frees the others.\<close>

definition new_sub :: "allocator \<Rightarrow> conn_id \<Rightarrow> bool \<Rightarrow> bytes \<Rightarrow> bytes \<Rightarrow> bytes \<Rightarrow> mb_subscription option" where
  "new_sub am c is_lvc subject queue sid =
     do { subject \<leftarrow> mb_slice_dup am subject;
          queue \<leftarrow> (if length queue \<noteq> 0 then mb_slice_dup am queue else Some []);
          sid \<leftarrow> mb_slice_dup am sid;
          Some \<lparr>sub_conn = c, sub_subject = subject, sub_queue = queue, sub_sid = sid, sub_delivered = 0,
                sub_max_msgs = 0, sub_has_max_msgs = False, sub_is_lvc = is_lvc\<rparr> }"

text \<open>The placement of the subscription in the bucket of its filter.\<close>

definition place_sub :: "allocator \<Rightarrow> mb_router \<Rightarrow> bytes \<Rightarrow> mb_subscription \<Rightarrow> (bool \<times> mb_router) option" where
  "place_sub am r subject sub =
     (if is_literal_filter subject then
        do { (b, r) \<leftarrow> literal_bucket am r subject True;
             case b of
               None \<Rightarrow> Some (False, r)
             | Some i \<Rightarrow>
                 let (ok, l) = sub_list_append am (bk_subs (bt_items (rt_literal r) ! i)) sub
                 in Some (ok, r\<lparr>rt_literal := bt_set_subs (rt_literal r) i l\<rparr>) }
      else let first = first_token subject
      in if is_wildcard_token first then
           let (ok, l) = sub_list_append am (wildcard_global r) sub
           in Some (ok, r\<lparr>wildcard_global := l\<rparr>)
         else
           do { (b, r) \<leftarrow> wildcard_bucket am r first True;
                case b of
                  None \<Rightarrow> Some (False, r)
                | Some i \<Rightarrow>
                    let (ok, l) = sub_list_append am (bk_subs (bt_items (rt_wildcard r) ! i)) sub
                    in Some (ok, r\<lparr>rt_wildcard := bt_set_subs (rt_wildcard r) i l\<rparr>) })"

text \<open>\<open>mb_router_subscribe_queue\<close> after its checks of the request.\<close>

definition subscribe_commit ::
  "allocator \<Rightarrow> mb_router \<Rightarrow> conns \<Rightarrow> conn_id \<Rightarrow> bool \<Rightarrow> bytes \<Rightarrow> bytes \<Rightarrow> bytes
   \<Rightarrow> (bool \<times> mb_router \<times> conns) option" where
  "subscribe_commit am r cs c is_lvc match_subject queue sid =
     (case ensure_publish_capacity am r (rt_sub_count r + 1) of
        (False, r) \<Rightarrow> Some (False, r, cs)
      | (True, r) \<Rightarrow>
          (case new_sub am c is_lvc match_subject queue sid of
             None \<Rightarrow> Some (False, r, cs)
           | Some sub \<Rightarrow>
               do { (ok, r) \<leftarrow> place_sub am r match_subject sub;
                    if \<not> ok then Some (False, r, cs)
                    else do {
                      let r = r\<lparr>rt_sub_count := rt_sub_count r + 1\<rparr>;
                      let cs = cs(c := (cs c)\<lparr>conn_sub_count := conn_sub_count (cs c) + 1\<rparr>);
                      if is_lvc then do {
                        let (ok, b) = emit_cached am (rt_lvc r) (conn_out (cs c)) match_subject sid;
                        let cs = cs(c := (cs c)\<lparr>conn_out := b\<rparr>);
                        if \<not> ok
                        then do { (r, cs) \<leftarrow> mb_router_unsubscribe r cs c sid 0 False; Some (False, r, cs) }
                        else Some (True, r, cs) }
                      else Some (True, r, cs) } }))"

definition mb_router_subscribe_queue ::
  "allocator \<Rightarrow> mb_router \<Rightarrow> conns \<Rightarrow> conn_id option \<Rightarrow> bytes \<Rightarrow> bytes \<Rightarrow> bytes
   \<Rightarrow> (bool \<times> mb_router \<times> conns) option" where
  "mb_router_subscribe_queue am r cs conn subject queue sid =
     (case conn of
        None \<Rightarrow> Some (False, r, cs)
      | Some c \<Rightarrow>
     let is_lvc = mb_router_subject_has_lvc_prefix subject;
         match_subject = (if is_lvc then lvc_inner_subject subject else subject)
     in if is_lvc \<and> (\<not> lvc_enabled (rt_lvc r) \<or> length match_subject = 0) then Some (False, r, cs)
        else if \<not> mb_proto_subject_valid match_subject True \<or> \<not> mb_proto_token_valid sid
                \<or> (length queue \<noteq> 0 \<and> \<not> mb_proto_token_valid queue)
        then Some (False, r, cs)
        else if MB_MAX_SUBS_PER_CONN \<le> conn_sub_count (cs c) \<or> MB_MAX_SUBS_TOTAL \<le> rt_sub_count r
        then Some (False, r, cs)
        else subscribe_commit am r cs c is_lvc match_subject queue sid)"

definition mb_router_subscribe ::
  "allocator \<Rightarrow> mb_router \<Rightarrow> conns \<Rightarrow> conn_id option \<Rightarrow> bytes \<Rightarrow> bytes \<Rightarrow> (bool \<times> mb_router \<times> conns) option" where
  "mb_router_subscribe am r cs conn subject sid = mb_router_subscribe_queue am r cs conn subject [] sid"

section \<open>The invariant\<close>

text \<open>Where a subscription belongs: the literal bucket of its filter, ...\<close>

definition sub_valid :: "mb_subscription \<Rightarrow> bool" where
  "sub_valid s \<longleftrightarrow>
     mb_proto_subject_valid (sub_subject s) True \<and> mb_proto_token_valid (sub_sid s) \<and>
     (sub_queue s = [] \<or> mb_proto_token_valid (sub_queue s))"

definition lit_belongs :: "bytes \<Rightarrow> mb_subscription \<Rightarrow> bool" where
  "lit_belongs key s \<longleftrightarrow> sub_valid s \<and> sub_subject s = key \<and> is_literal_filter (sub_subject s)"

text \<open>... the wildcard bucket of its first token, ...\<close>

definition wild_belongs :: "bytes \<Rightarrow> mb_subscription \<Rightarrow> bool" where
  "wild_belongs key s \<longleftrightarrow>
     sub_valid s \<and> first_token (sub_subject s) = key \<and> \<not> is_literal_filter (sub_subject s) \<and>
     \<not> is_wildcard_token (first_token (sub_subject s))"

text \<open>... or the global list, when the first token is itself a wildcard.\<close>

definition glob_belongs :: "mb_subscription \<Rightarrow> bool" where
  "glob_belongs s \<longleftrightarrow>
     sub_valid s \<and> \<not> is_literal_filter (sub_subject s) \<and> is_wildcard_token (first_token (sub_subject s))"

definition all_subs :: "mb_router \<Rightarrow> mb_subscription multiset" where
  "all_subs r = bt_subs (rt_literal r) + bt_subs (rt_wildcard r) + mset (sl_items (wildcard_global r))"

definition store_ok :: "mb_router \<Rightarrow> bool" where
  "store_ok r \<longleftrightarrow>
     bt_ok lit_belongs (rt_literal r) \<and> bt_ok wild_belongs (rt_wildcard r) \<and>
     sub_list_wf (wildcard_global r) \<and> (\<forall>s \<in> set (sl_items (wildcard_global r)). glob_belongs s)"

definition counts_ok :: "mb_subscription multiset \<Rightarrow> counts \<Rightarrow> bool" where
  "counts_ok M st \<longleftrightarrow> fst st = size M \<and> (\<forall>c. conn_sub_count (snd st c) = subs_of c M)"

definition limits_ok :: "mb_subscription multiset \<Rightarrow> bool" where
  "limits_ok M \<longleftrightarrow> size M \<le> MB_MAX_SUBS_TOTAL \<and> (\<forall>c. subs_of c M \<le> MB_MAX_SUBS_PER_CONN)"

definition scratch_ok :: "mb_router \<Rightarrow> bool" where
  "scratch_ok r \<longleftrightarrow> rt_sub_count r \<le> kick_cap r \<and> rt_sub_count r \<le> close_cap r \<and> rt_sub_count r \<le> queue_cap r"

definition router_inv :: "mb_router \<Rightarrow> conns \<Rightarrow> bool" where
  "router_inv r cs \<longleftrightarrow>
     store_ok r \<and> counts_ok (all_subs r) (rt_sub_count r, cs) \<and> limits_ok (all_subs r) \<and>
     scratch_ok r \<and> lvc_ok (rt_lvc r) \<and> (\<forall>c. buf_wf (conn_out (cs c)))"

end
