(* ===== verification/Router_Correct.thy ===== *)
theory Router_Correct
  imports Router
begin

text \<open>
  The router implements a multiset of subscriptions: subscribing adds one, unsubscribing
  and removing a connection filter it, and every operation ends and keeps the invariant
  (placement of every subscription, hash indexes, counts, limits, scratch capacities).
\<close>

section \<open>The initial router\<close>

lemma router_inv_init:
  assumes "\<And>c. conn_sub_count (cs c) = 0" "\<And>c. buf_wf (conn_out (cs c))"
  shows "router_inv mb_router_init cs"
  using assms
  by (simp add: router_inv_def mb_router_init_def router_zero_def store_ok_def counts_ok_def limits_ok_def
      scratch_ok_def all_subs_def sub_list_wf_def sub_list_zero_def bt_subs_def bucket_table_zero_def
      bt_ok_zero [unfolded bucket_table_zero_def])

section \<open>Sweeps\<close>

lemma counts_ok_drop:
  assumes "counts_ok M st" "\<And>s s'. decide s = Some s' \<Longrightarrow> sub_conn s' = sub_conn s"
  shows "counts_ok (kept decide M) (drop_counts (dropped decide M) st)"
proof -
  have "subs_of c (kept decide M) = subs_of c M - subs_of c (dropped decide M)" for c
    using subs_of_kept [of decide c M] assms(2) by (metis add_diff_cancel_right')
  moreover have "size (kept decide M) = size M - size (dropped decide M)"
    using size_kept_dropped [of decide M] by linarith
  ultimately show ?thesis using assms(1) by (simp add: counts_ok_def drop_counts_def)
qed

lemma limits_ok_kept:
  assumes "limits_ok M" "\<And>s s'. decide s = Some s' \<Longrightarrow> sub_conn s' = sub_conn s"
  shows "limits_ok (kept decide M)"
proof -
  have "subs_of c (kept decide M) \<le> subs_of c M" for c
    using subs_of_kept [of decide c M] assms(2) by (metis le_add1)
  moreover have "size (kept decide M) \<le> size M"
    using size_kept_dropped [of decide M] by linarith
  ultimately show ?thesis using assms(1) by (auto simp: limits_ok_def intro: order_trans)
qed

text \<open>A decision that respects where subscriptions belong.\<close>

definition decision_ok :: "(mb_subscription \<Rightarrow> mb_subscription option) \<Rightarrow> bool" where
  "decision_ok decide \<longleftrightarrow>
     (\<forall>s s'. decide s = Some s' \<longrightarrow>
        sub_conn s' = sub_conn s \<and> sub_subject s' = sub_subject s \<and> sub_sid s' = sub_sid s \<and>
        sub_queue s' = sub_queue s)"

lemma decision_belongs:
  assumes "decision_ok decide" "decide s = Some s'"
  shows "lit_belongs k s \<Longrightarrow> lit_belongs k s'" "wild_belongs k s \<Longrightarrow> wild_belongs k s'"
    "glob_belongs s \<Longrightarrow> glob_belongs s'" "sub_conn s' = sub_conn s"
  using assms by (auto simp: decision_ok_def lit_belongs_def wild_belongs_def glob_belongs_def sub_valid_def)

lemma kept_members:
  "s \<in># kept decide M \<longleftrightarrow> (\<exists>s0. s0 \<in># M \<and> decide s0 = Some s)"
  by (force simp: kept_def)

lemma router_sweep_spec:
  assumes inv: "router_inv r cs" and dec: "decision_ok decide"
  obtains r' cs' where "router_sweep (sweep_loop decide 0) r cs = Some (r', cs')" "router_inv r' cs'"
    "all_subs r' = kept decide (all_subs r)" "rt_lvc r' = rt_lvc r" "kick_epoch r' = kick_epoch r"
    "\<And>c. cs' c = (cs c)\<lparr>conn_sub_count := subs_of c (all_subs r')\<rparr>"
proof -
  note lit_keep = decision_belongs(1) [OF dec] and wild_keep = decision_belongs(2) [OF dec]
    and glob_keep = decision_belongs(3) [OF dec] and conn_keep = decision_belongs(4) [OF dec]
  have st: "bt_ok lit_belongs (rt_literal r)" "bt_ok wild_belongs (rt_wildcard r)"
      "sub_list_wf (wildcard_global r)" "\<forall>s \<in> set (sl_items (wildcard_global r)). glob_belongs s"
    using inv by (auto simp: router_inv_def store_ok_def)
  let ?st0 = "(rt_sub_count r, cs)"
  let ?st1 = "drop_counts (dropped decide (bt_subs (rt_literal r))) ?st0"
  let ?st2 = "drop_counts (dropped decide (bt_subs (rt_wildcard r))) ?st1"
  obtain lit where lit: "bt_sweep (sweep_loop decide 0) 0 (rt_literal r) ?st0 = Some (lit, ?st1)"
      "bt_ok lit_belongs lit" "bt_subs lit = kept decide (bt_subs (rt_literal r))"
    using bt_sweep_all [OF st(1)] lit_keep by metis
  obtain wild where wild: "bt_sweep (sweep_loop decide 0) 0 (rt_wildcard r) ?st1 = Some (wild, ?st2)"
      "bt_ok wild_belongs wild" "bt_subs wild = kept decide (bt_subs (rt_wildcard r))"
    using bt_sweep_all [OF st(2)] wild_keep by metis
  obtain glob st3 where glob: "sweep_loop decide 0 (wildcard_global r) ?st2 = (glob, st3)" by (metis prod.exhaust)
  note gs = sweep_all_spec [OF glob] sweep_keeps_wf [OF st(3) glob]
  let ?M = "all_subs r"
  have st3: "st3 = drop_counts (dropped decide ?M) ?st0"
    by (simp add: gs(3) drop_counts_plus all_subs_def add.assoc)
  define r' where "r' = r\<lparr>rt_literal := lit, rt_wildcard := wild, wildcard_global := glob, rt_sub_count := fst st3\<rparr>"
  have all: "all_subs r' = kept decide ?M"
    by (simp add: r'_def all_subs_def lit(3) wild(3) gs(1))
  have cnt: "counts_ok (all_subs r') st3"
    using counts_ok_drop [of ?M ?st0 decide] inv conn_keep by (simp add: all st3 router_inv_def)
  have "\<forall>s \<in> set (sl_items glob). glob_belongs s"
    using st(4) glob_keep gs(1) by (metis kept_members set_mset_mset)
  then have "store_ok r'" using lit(2) wild(2) gs(4) by (simp add: store_ok_def r'_def)
  moreover have "limits_ok (all_subs r')"
    using inv conn_keep by (simp add: all router_inv_def limits_ok_kept)
  moreover have "scratch_ok r'"
    using inv by (auto simp: router_inv_def scratch_ok_def r'_def st3 drop_counts_def)
  moreover have "snd st3 c = (cs c)\<lparr>conn_sub_count := subs_of c (all_subs r')\<rparr>" for c
  proof -
    have "conn_sub_count (snd st3 c) = subs_of c (all_subs r')" using cnt by (simp add: counts_ok_def)
    then show ?thesis by (auto simp: st3 drop_counts_def)
  qed
  moreover have "router_sweep (sweep_loop decide 0) r cs = Some (r', snd st3)"
    using lit(1) wild(1) glob by (simp add: router_sweep_def r'_def Let_def)
  moreover have "rt_sub_count r' = fst st3" "rt_lvc r' = rt_lvc r" "kick_epoch r' = kick_epoch r"
    by (simp_all add: r'_def)
  ultimately show thesis
    using that [of r' "snd st3"] inv cnt all by (simp add: router_inv_def)
qed

lemma decision_remove: "decision_ok (\<lambda>sub. if sub_conn sub \<noteq> c then Some sub else None)"
  by (auto simp: decision_ok_def split: if_splits)

lemma decision_unsubscribe: "decision_ok (unsubscribe_sub c sid n has)"
  by (auto simp: decision_ok_def unsubscribe_sub_def split: if_splits)

lemma kept_filter: "kept (\<lambda>s. if P s then Some s else None) M = filter_mset P M"
  by (induction M) auto

lemma subs_of_filter_other: "subs_of c (filter_mset (\<lambda>s. sub_conn s \<noteq> c') M) = (if c = c' then 0 else subs_of c M)"
  by (induction M) auto


section \<open>Removing\<close>

lemma remove_all_for_spec:
  assumes inv: "router_inv r cs"
  obtains r' cs' where "mb_router_remove_all_for r cs c = Some (r', cs')" "router_inv r' cs'"
    "all_subs r' = filter_mset (\<lambda>s. sub_conn s \<noteq> c) (all_subs r)"
    "conn_sub_count (cs' c) = 0" "\<And>d. d \<noteq> c \<Longrightarrow> cs' d = cs d" "rt_lvc r' = rt_lvc r"
    "\<And>d. conn_out (cs' d) = conn_out (cs d)"
proof -
  obtain r' cs' where s: "router_sweep (sweep_loop (\<lambda>sub. if sub_conn sub \<noteq> c then Some sub else None) 0) r cs
        = Some (r', cs')" "router_inv r' cs'"
      "all_subs r' = kept (\<lambda>sub. if sub_conn sub \<noteq> c then Some sub else None) (all_subs r)"
      "rt_lvc r' = rt_lvc r" "kick_epoch r' = kick_epoch r"
      "\<And>d. cs' d = (cs d)\<lparr>conn_sub_count := subs_of d (all_subs r')\<rparr>"
    by (rule router_sweep_spec [OF inv decision_remove [of c]]) blast
  have all: "all_subs r' = filter_mset (\<lambda>s. sub_conn s \<noteq> c) (all_subs r)"
    by (simp add: s(3) kept_filter)
  have "cs' d = cs d" if "d \<noteq> c" for d
    using s(6) [of d] inv that by (simp add: all subs_of_filter_other router_inv_def counts_ok_def)
  moreover have "conn_sub_count (cs' c) = 0" using s(6) [of c] by (simp add: all subs_of_filter_other)
  ultimately show thesis
    using that s all by (simp add: mb_router_remove_all_for_def remove_for_conn_from_list_def)
qed

lemma unsubscribe_spec:
  assumes inv: "router_inv r cs"
  obtains r' cs' where "mb_router_unsubscribe r cs c sid n has = Some (r', cs')" "router_inv r' cs'"
    "all_subs r' = kept (unsubscribe_sub c sid n has) (all_subs r)" "rt_lvc r' = rt_lvc r"
    "\<And>d. conn_out (cs' d) = conn_out (cs d)"
  using router_sweep_spec [OF inv decision_unsubscribe, of c sid n has]
  unfolding mb_router_unsubscribe_def unsubscribe_from_list_def by (metis mb_router_conn.select_convs(1)
    mb_router_conn.surjective mb_router_conn.update_convs(4))

text \<open>
  \<^bold>\<open>C17\<close> Removing a connection is exact. From every state of the router that satisfies the
  invariant, \<open>mb_router_remove_all_for\<close> ends, keeps the invariant (both hash indexes, the
  placement of every subscription and all counts), removes precisely the subscriptions of
  that connection, leaves that connection with a count of zero and every other connection
  untouched.
\<close>

theorem router_remove_all_exact:
  assumes "router_inv r cs"
  shows "\<exists>r' cs'. mb_router_remove_all_for r cs c = Some (r', cs') \<and> router_inv r' cs' \<and>
    all_subs r' = filter_mset (\<lambda>s. sub_conn s \<noteq> c) (all_subs r) \<and>
    conn_sub_count (cs' c) = 0 \<and> (\<forall>d. d \<noteq> c \<longrightarrow> cs' d = cs d)"
proof -
  obtain r' cs' where "mb_router_remove_all_for r cs c = Some (r', cs')" "router_inv r' cs'"
    "all_subs r' = filter_mset (\<lambda>s. sub_conn s \<noteq> c) (all_subs r)"
    "conn_sub_count (cs' c) = 0" "\<And>d. d \<noteq> c \<Longrightarrow> cs' d = cs d"
    using remove_all_for_spec [OF assms, of c] by metis
  then show ?thesis by blast
qed

text \<open>
  \<^bold>\<open>C16\<close> \<open>UNSUB\<close> is exact. \<open>mb_router_unsubscribe\<close> ends and keeps the invariant. Without a
  limit it removes precisely the connection's subscriptions with that sid. With a limit it
  removes those of them that have delivered that many messages already, records the limit
  in the others, and changes no other subscription.
\<close>

theorem router_unsubscribe_exact:
  assumes "router_inv r cs"
  shows "\<exists>r' cs'. mb_router_unsubscribe r cs c sid n has = Some (r', cs') \<and> router_inv r' cs' \<and>
    all_subs r' =
      filter_mset (\<lambda>s. \<not> (sub_conn s = c \<and> sub_sid s = sid)) (all_subs r) +
      (if has
       then image_mset (\<lambda>s. s\<lparr>sub_max_msgs := n, sub_has_max_msgs := True\<rparr>)
              (filter_mset (\<lambda>s. sub_conn s = c \<and> sub_sid s = sid \<and> sub_delivered s < n) (all_subs r))
       else {#})"
proof -
  obtain r' cs' where s: "mb_router_unsubscribe r cs c sid n has = Some (r', cs')" "router_inv r' cs'"
    "all_subs r' = kept (unsubscribe_sub c sid n has) (all_subs r)"
    using unsubscribe_spec [OF assms, of c sid n has] by metis
  have "kept (unsubscribe_sub c sid n has) M =
      filter_mset (\<lambda>s. \<not> (sub_conn s = c \<and> sub_sid s = sid)) M +
      (if has
       then image_mset (\<lambda>s. s\<lparr>sub_max_msgs := n, sub_has_max_msgs := True\<rparr>)
              (filter_mset (\<lambda>s. sub_conn s = c \<and> sub_sid s = sid \<and> sub_delivered s < n) M)
       else {#})" for M
    by (induction M) (auto simp: unsubscribe_sub_def sid_eq_def not_le)
  with s show ?thesis by auto
qed

section \<open>Subscribing\<close>

lemma sub_list_append_spec:
  assumes "sub_list_append am l sub = (ok, l')"
  shows "sl_items l' = (if ok then sl_items l @ [sub] else sl_items l)" "sub_list_wf l \<Longrightarrow> sub_list_wf l'"
  using assms by (auto simp: sub_list_append_def sub_list_wf_def split: option.splits dest: mb_array_reserve_ge)

lemma bt_append_spec:
  assumes "bt_ok belongs t" "i < length (bt_items t)" "belongs (bk_key (bt_items t ! i)) sub"
    and "sub_list_append am (bk_subs (bt_items t ! i)) sub = (ok, l)"
  shows "bt_ok belongs (bt_set_subs t i l)"
    "bt_subs (bt_set_subs t i l) = (if ok then add_mset sub (bt_subs t) else bt_subs t)"
proof -
  note l = sub_list_append_spec [OF assms(4)]
  show "bt_ok belongs (bt_set_subs t i l)"
    using assms l bt_ok_bucket [OF assms(1,2)]
    by (intro bt_ok_set_subs) (auto simp: bucket_subs_def split: if_splits)
  show "bt_subs (bt_set_subs t i l) = (if ok then add_mset sub (bt_subs t) else bt_subs t)"
    using bt_set_subs_subs [OF assms(2), of l] l(1) by (auto simp: bucket_subs_def)
qed

lemma place_sub_spec:
  assumes st: "store_ok r" and val: "sub_valid sub" and subj: "sub_subject sub = subject"
  obtains ok r' where "place_sub am r subject sub = Some (ok, r')" "store_ok r'"
    "all_subs r' = (if ok then add_mset sub (all_subs r) else all_subs r)"
    "rt_lvc r' = rt_lvc r" "rt_sub_count r' = rt_sub_count r" "kick_epoch r' = kick_epoch r"
    "kick_cap r' = kick_cap r" "close_cap r' = close_cap r" "queue_cap r' = queue_cap r"
proof -
  let ?first = "first_token subject"
  consider (lit) "is_literal_filter subject" | (glob) "\<not> is_literal_filter subject" "is_wildcard_token ?first"
    | (wild) "\<not> is_literal_filter subject" "\<not> is_wildcard_token ?first" by blast
  then show thesis
  proof cases
    case lit
    obtain b t where b: "bt_bucket am (rt_literal r) subject True = Some (b, t)" "bt_ok lit_belongs t"
        "bt_subs t = bt_subs (rt_literal r)"
        "\<And>i. b = Some i \<Longrightarrow> i < length (bt_items t) \<and> bk_key (bt_items t ! i) = subject"
      using bt_bucket_create [of lit_belongs "rt_literal r" am subject] st by (metis store_ok_def)
    show thesis
    proof (cases b)
      case None
      then have "place_sub am r subject sub = Some (False, r\<lparr>rt_literal := t\<rparr>)"
        using lit b(1) by (simp add: place_sub_def literal_bucket_def)
      then show thesis using that [of False "r\<lparr>rt_literal := t\<rparr>"] st b(2,3)
        by (simp add: store_ok_def all_subs_def)
    next
      case (Some i)
      note i = b(4) [OF Some]
      obtain ok l where app: "sub_list_append am (bk_subs (bt_items t ! i)) sub = (ok, l)" by fastforce
      have "lit_belongs (bk_key (bt_items t ! i)) sub" using i lit val subj by (simp add: lit_belongs_def)
      note upd = bt_append_spec [OF b(2) _ this app]
      have "place_sub am r subject sub = Some (ok, r\<lparr>rt_literal := bt_set_subs t i l\<rparr>)"
        using lit b(1) Some app by (simp add: place_sub_def literal_bucket_def)
      then show thesis using that [of ok "r\<lparr>rt_literal := bt_set_subs t i l\<rparr>"] st b(3) upd i
        by (simp add: store_ok_def all_subs_def)
    qed
  next
    case glob
    obtain ok l where app: "sub_list_append am (wildcard_global r) sub = (ok, l)" by fastforce
    note l = sub_list_append_spec [OF app]
    have "place_sub am r subject sub = Some (ok, r\<lparr>wildcard_global := l\<rparr>)"
      using glob app by (simp add: place_sub_def Let_def)
    moreover have "glob_belongs sub" using glob val subj by (simp add: glob_belongs_def)
    ultimately show thesis using that [of ok "r\<lparr>wildcard_global := l\<rparr>"] st l
      by (simp add: store_ok_def all_subs_def split: if_splits)
  next
    case wild
    obtain b t where b: "bt_bucket am (rt_wildcard r) ?first True = Some (b, t)" "bt_ok wild_belongs t"
        "bt_subs t = bt_subs (rt_wildcard r)"
        "\<And>i. b = Some i \<Longrightarrow> i < length (bt_items t) \<and> bk_key (bt_items t ! i) = ?first"
      using bt_bucket_create [of wild_belongs "rt_wildcard r" am ?first] st by (metis store_ok_def)
    show thesis
    proof (cases b)
      case None
      then have "place_sub am r subject sub = Some (False, r\<lparr>rt_wildcard := t\<rparr>)"
        using wild b(1) by (simp add: place_sub_def wildcard_bucket_def Let_def)
      then show thesis using that [of False "r\<lparr>rt_wildcard := t\<rparr>"] st b(2,3)
        by (simp add: store_ok_def all_subs_def)
    next
      case (Some i)
      note i = b(4) [OF Some]
      obtain ok l where app: "sub_list_append am (bk_subs (bt_items t ! i)) sub = (ok, l)" by fastforce
      have "wild_belongs (bk_key (bt_items t ! i)) sub" using i wild val subj by (simp add: wild_belongs_def)
      note upd = bt_append_spec [OF b(2) _ this app]
      have "place_sub am r subject sub = Some (ok, r\<lparr>rt_wildcard := bt_set_subs t i l\<rparr>)"
        using wild b(1) Some app by (simp add: place_sub_def wildcard_bucket_def Let_def)
      then show thesis using that [of ok "r\<lparr>rt_wildcard := bt_set_subs t i l\<rparr>"] st b(3) upd i
        by (simp add: store_ok_def all_subs_def)
    qed
  qed
qed


lemma ensure_publish_capacity_spec:
  assumes "ensure_publish_capacity am r n = (ok, r')"
  shows "r' = r\<lparr>kick_cap := kick_cap r', close_cap := close_cap r', queue_cap := queue_cap r'\<rparr>"
    "kick_cap r \<le> kick_cap r'" "close_cap r \<le> close_cap r'" "queue_cap r \<le> queue_cap r'"
    "ok \<Longrightarrow> n \<le> kick_cap r' \<and> n \<le> close_cap r' \<and> n \<le> queue_cap r'"
  using assms
  by (auto simp: ensure_publish_capacity_def ensure_kick_capacity_def ensure_close_capacity_def
      ensure_queue_capacity_def split: option.splits dest: mb_array_reserve_ge mb_array_reserve_mono)

lemma ensure_publish_capacity_inv:
  assumes "ensure_publish_capacity am r n = (ok, r')" "router_inv r cs"
  shows "router_inv r' cs" "all_subs r' = all_subs r" "rt_sub_count r' = rt_sub_count r" "rt_lvc r' = rt_lvc r"
proof -
  note e = ensure_publish_capacity_spec [OF assms(1)]
  have same: "rt_literal r' = rt_literal r" "rt_wildcard r' = rt_wildcard r"
    "wildcard_global r' = wildcard_global r" "rt_sub_count r' = rt_sub_count r" "rt_lvc r' = rt_lvc r"
    by (subst e(1), simp)+
  then show all: "all_subs r' = all_subs r" "rt_sub_count r' = rt_sub_count r" "rt_lvc r' = rt_lvc r"
    by (simp_all add: all_subs_def)
  show "router_inv r' cs"
    using assms(2) e(2-4) same by (simp add: router_inv_def store_ok_def scratch_ok_def all_subs_def)
qed

text \<open>A fresh subscription, and the one a request asks for.\<close>

definition fresh_sub :: "conn_id \<Rightarrow> bool \<Rightarrow> bytes \<Rightarrow> bytes \<Rightarrow> bytes \<Rightarrow> mb_subscription" where
  "fresh_sub c is_lvc subject queue sid =
     \<lparr>sub_conn = c, sub_subject = subject, sub_queue = queue, sub_sid = sid, sub_delivered = 0,
       sub_max_msgs = 0, sub_has_max_msgs = False, sub_is_lvc = is_lvc\<rparr>"

definition requested_sub :: "conn_id \<Rightarrow> bytes \<Rightarrow> bytes \<Rightarrow> bytes \<Rightarrow> mb_subscription" where
  "requested_sub c subject queue sid =
     (let is_lvc = mb_router_subject_has_lvc_prefix subject
      in fresh_sub c is_lvc (if is_lvc then lvc_inner_subject subject else subject) queue sid)"

lemma new_sub_Some:
  "new_sub am c is_lvc subject queue sid = Some sub \<Longrightarrow>
   sub = fresh_sub c is_lvc subject queue sid"
  by (auto simp: new_sub_def fresh_sub_def bind_eq_Some_conv dest!: mb_slice_dup_Some split: if_splits)

lemma router_inv_added:
  assumes inv: "router_inv r cs" and st: "store_ok r'" and all: "all_subs r' = add_mset sub (all_subs r)"
    and same: "rt_lvc r' = rt_lvc r" "rt_sub_count r' = rt_sub_count r"
    and cap: "Suc (rt_sub_count r) \<le> kick_cap r'" "Suc (rt_sub_count r) \<le> close_cap r'"
      "Suc (rt_sub_count r) \<le> queue_cap r'"
    and room: "conn_sub_count (cs (sub_conn sub)) < MB_MAX_SUBS_PER_CONN" "rt_sub_count r < MB_MAX_SUBS_TOTAL"
    and out: "buf_wf b"
  shows "router_inv (r'\<lparr>rt_sub_count := Suc (rt_sub_count r)\<rparr>)
    (cs(sub_conn sub := (cs (sub_conn sub))\<lparr>conn_sub_count := Suc (conn_sub_count (cs (sub_conn sub))), conn_out := b\<rparr>))"
proof -
  let ?r = "r'\<lparr>rt_sub_count := Suc (rt_sub_count r)\<rparr>"
  have "all_subs ?r = add_mset sub (all_subs r)" using all by (simp add: all_subs_def)
  moreover have "store_ok ?r" using st by (simp add: store_ok_def)
  ultimately show ?thesis
    using inv same cap room out
    by (auto simp: router_inv_def counts_ok_def limits_ok_def scratch_ok_def)
qed

lemma subscribe_commit_spec:
  assumes inv: "router_inv r cs"
    and sv: "sub_valid (fresh_sub c lvc m queue sid)"
    and room: "conn_sub_count (cs c) < MB_MAX_SUBS_PER_CONN" "rt_sub_count r < MB_MAX_SUBS_TOTAL"
  obtains ok r' cs' where "subscribe_commit am r cs c lvc m queue sid = Some (ok, r', cs')"
    "router_inv r' cs'" "rt_lvc r' = rt_lvc r"
    "ok \<Longrightarrow> all_subs r' = add_mset (fresh_sub c lvc m queue sid) (all_subs r)"
    "\<not> ok \<Longrightarrow> all_subs r' = all_subs r \<or>
      lvc \<and> all_subs r' = filter_mset (\<lambda>s. \<not> (sub_conn s = c \<and> sub_sid s = sid)) (all_subs r)"
proof -
  let ?S = "subscribe_commit am r cs c lvc m queue sid"
  let ?sub = "fresh_sub c lvc m queue sid"
  have sub_sel: "sub_subject ?sub = m" "sub_conn ?sub = c" "sub_sid ?sub = sid" by (simp_all add: fresh_sub_def)
  obtain ok1 r1 where e: "ensure_publish_capacity am r (rt_sub_count r + 1) = (ok1, r1)" by fastforce
  note r1 = ensure_publish_capacity_inv [OF e inv] and caps = ensure_publish_capacity_spec [OF e]
  show thesis
  proof (cases "ok1 \<and> new_sub am c lvc m queue sid \<noteq> None")
    case False
    then have "?S = Some (False, r1, cs)" using e by (cases ok1) (auto simp: subscribe_commit_def)
    then show thesis using that r1 by blast
  next
    case True
    then have sub: "new_sub am c lvc m queue sid = Some ?sub" using new_sub_Some by fastforce
    have "store_ok r1" using r1(1) by (simp add: router_inv_def)
    from place_sub_spec [OF this sv sub_sel(1), of am]
    obtain ok2 r2 where p: "place_sub am r1 m ?sub = Some (ok2, r2)" "store_ok r2"
        "all_subs r2 = (if ok2 then add_mset ?sub (all_subs r1) else all_subs r1)"
        "rt_lvc r2 = rt_lvc r1" "rt_sub_count r2 = rt_sub_count r1"
        "kick_cap r2 = kick_cap r1" "close_cap r2 = close_cap r1" "queue_cap r2 = queue_cap r1"
      by metis
    let ?r3 = "r2\<lparr>rt_sub_count := Suc (rt_sub_count r1)\<rparr>"
    let ?cs3 = "cs(c := (cs c)\<lparr>conn_sub_count := Suc (conn_sub_count (cs c))\<rparr>)"
    obtain ok3 b where emit: "emit_cached am (rt_lvc r2) (conn_out (cs c)) m sid = (ok3, b)" by fastforce
    let ?cs4 = "cs(c := (cs c)\<lparr>conn_sub_count := Suc (conn_sub_count (cs c)), conn_out := b\<rparr>)"
    have S: "?S = (if \<not> ok2 then Some (False, r2, cs)
        else if \<not> lvc then Some (True, ?r3, ?cs3)
        else if ok3 then Some (True, ?r3, ?cs4)
        else do { (r, cs) \<leftarrow> mb_router_unsubscribe ?r3 ?cs4 c sid 0 False; Some (False, r, cs) })"
      using e sub True p(1) emit p(5) by (simp add: subscribe_commit_def Let_def)
    show thesis
    proof (cases ok2)
      case False
      then have "router_inv r2 cs" using r1 p by (simp add: router_inv_def scratch_ok_def)
      then show thesis using that [of False r2 cs] S False p r1 by simp
    next
      case placed: True
      have cap: "Suc (rt_sub_count r1) \<le> kick_cap r2" "Suc (rt_sub_count r1) \<le> close_cap r2"
          "Suc (rt_sub_count r1) \<le> queue_cap r2"
        using caps(5) True r1(3) p(6-8) by auto
      have add: "router_inv ?r3 (cs(c := (cs c)\<lparr>conn_sub_count := Suc (conn_sub_count (cs c)), conn_out := o'\<rparr>))"
        if "buf_wf o'" for o'
        using router_inv_added [OF r1(1) p(2) _ p(4,5) cap _ _ that, of ?sub] placed p(3) room r1(3) sub_sel(2)
        by simp
      have all3: "all_subs ?r3 = add_mset ?sub (all_subs r)" using p(3) placed r1(2) by (simp add: all_subs_def)
      have wf: "buf_wf (conn_out (cs c))" using inv by (simp add: router_inv_def)
      have "(cs c)\<lparr>conn_sub_count := n\<rparr> = (cs c)\<lparr>conn_sub_count := n, conn_out := conn_out (cs c)\<rparr>" for n by simp
      then have inv3: "router_inv ?r3 ?cs3" using add [OF wf] by metis
      have inv4: "router_inv ?r3 ?cs4" using add emit_cached_spec [OF wf emit] by blast
      consider (plain) "\<not> lvc" | (cached) lvc ok3 | (undo) lvc "\<not> ok3" by blast
      then show thesis
      proof cases
        case plain
        then show thesis using that [of True ?r3 ?cs3] S placed inv3 all3 p(4) r1(4) by simp
      next
        case cached
        then show thesis using that [of True ?r3 ?cs4] S placed inv4 all3 p(4) r1(4) by simp
      next
        case undo
        obtain r4 cs5 where u: "mb_router_unsubscribe ?r3 ?cs4 c sid 0 False = Some (r4, cs5)" "router_inv r4 cs5"
            "all_subs r4 = kept (unsubscribe_sub c sid 0 False) (all_subs ?r3)" "rt_lvc r4 = rt_lvc ?r3"
          using unsubscribe_spec [OF inv4, of c sid 0 False] by metis
        have "unsubscribe_sub c sid 0 False =
            (\<lambda>s. if \<not> (sub_conn s = c \<and> sub_sid s = sid) then Some s else None)"
          by (auto simp: unsubscribe_sub_def sid_eq_def)
        then have "all_subs r4 = filter_mset (\<lambda>s. \<not> (sub_conn s = c \<and> sub_sid s = sid)) (all_subs r)"
          using u(3) all3 sub_sel by (simp add: kept_filter)
        then show thesis using that [of False r4 cs5] S placed undo u p(4) r1(4) by simp
      qed
    qed
  qed
qed

lemma subscribe_spec:
  assumes inv: "router_inv r cs"
  obtains ok r' cs' where "mb_router_subscribe_queue am r cs conn subject queue sid = Some (ok, r', cs')"
    "router_inv r' cs'" "rt_lvc r' = rt_lvc r"
    "ok \<Longrightarrow> \<exists>c. conn = Some c \<and> all_subs r' = add_mset (requested_sub c subject queue sid) (all_subs r)"
    "\<not> ok \<Longrightarrow> all_subs r' = all_subs r \<or>
      (\<exists>c. conn = Some c \<and> mb_router_subject_has_lvc_prefix subject \<and>
        all_subs r' = filter_mset (\<lambda>s. \<not> (sub_conn s = c \<and> sub_sid s = sid)) (all_subs r))"
proof (cases conn)
  case None
  then show thesis using that [of False r cs] inv by (simp add: mb_router_subscribe_queue_def)
next
  case (Some c)
  define lvc where "lvc = mb_router_subject_has_lvc_prefix subject"
  define m where "m = (if lvc then lvc_inner_subject subject else subject)"
  let ?S = "mb_router_subscribe_queue am r cs conn subject queue sid"
  have S: "?S = (if lvc \<and> (\<not> lvc_enabled (rt_lvc r) \<or> length m = 0) then Some (False, r, cs)
        else if \<not> mb_proto_subject_valid m True \<or> \<not> mb_proto_token_valid sid
                \<or> (length queue \<noteq> 0 \<and> \<not> mb_proto_token_valid queue)
        then Some (False, r, cs)
        else if MB_MAX_SUBS_PER_CONN \<le> conn_sub_count (cs c) \<or> MB_MAX_SUBS_TOTAL \<le> rt_sub_count r
        then Some (False, r, cs)
        else subscribe_commit am r cs c lvc m queue sid)"
    unfolding mb_router_subscribe_queue_def Some option.case Let_def lvc_def [symmetric] m_def [symmetric] ..
  have req: "requested_sub c subject queue sid = fresh_sub c lvc m queue sid"
    by (simp add: requested_sub_def lvc_def m_def Let_def)
  show thesis
  proof (cases "?S = Some (False, r, cs)")
    case True
    then show thesis using that inv by blast
  next
    case False
    then have commit: "?S = subscribe_commit am r cs c lvc m queue sid"
      and "sub_valid (fresh_sub c lvc m queue sid)"
        "conn_sub_count (cs c) < MB_MAX_SUBS_PER_CONN" "rt_sub_count r < MB_MAX_SUBS_TOTAL"
      unfolding S by (auto simp: sub_valid_def fresh_sub_def not_le split: if_splits)
    note pre = this(2-4)
    obtain ok r' cs' where "subscribe_commit am r cs c lvc m queue sid = Some (ok, r', cs')"
      "router_inv r' cs'" "rt_lvc r' = rt_lvc r"
      "ok \<Longrightarrow> all_subs r' = add_mset (fresh_sub c lvc m queue sid) (all_subs r)"
      "\<not> ok \<Longrightarrow> all_subs r' = all_subs r \<or>
        lvc \<and> all_subs r' = filter_mset (\<lambda>s. \<not> (sub_conn s = c \<and> sub_sid s = sid)) (all_subs r)"
      by (rule subscribe_commit_spec [OF inv pre]) blast
    then show thesis using that [of ok r' cs'] commit Some req lvc_def by auto
  qed
qed

text \<open>
  \<^bold>\<open>C15\<close> Subscribing is exact. From every state that satisfies the invariant
  \<open>mb_router_subscribe_queue\<close> ends and keeps the invariant, whatever the request and
  whichever allocations are refused. A successful call adds exactly the requested
  subscription (with the \<open>$LVC.\<close> prefix stripped and recorded as a flag). A failed call
  leaves the set of subscriptions as it was, except when the replay of cached values of an
  \<open>$LVC.\<close> subscription fails: then all subscriptions of that connection with that sid go.
\<close>

theorem router_subscribe_exact:
  assumes "router_inv r cs"
  shows "\<exists>ok r' cs'. mb_router_subscribe_queue am r cs conn subject queue sid = Some (ok, r', cs') \<and>
    router_inv r' cs' \<and>
    (if ok then \<exists>c. conn = Some c \<and> all_subs r' = add_mset (requested_sub c subject queue sid) (all_subs r)
     else all_subs r' = all_subs r \<or>
      (\<exists>c. conn = Some c \<and> mb_router_subject_has_lvc_prefix subject \<and>
        all_subs r' = filter_mset (\<lambda>s. \<not> (sub_conn s = c \<and> sub_sid s = sid)) (all_subs r)))"
proof -
  obtain ok r' cs' where "mb_router_subscribe_queue am r cs conn subject queue sid = Some (ok, r', cs')"
    "router_inv r' cs'" "rt_lvc r' = rt_lvc r"
    "ok \<Longrightarrow> \<exists>c. conn = Some c \<and> all_subs r' = add_mset (requested_sub c subject queue sid) (all_subs r)"
    "\<not> ok \<Longrightarrow> all_subs r' = all_subs r \<or>
      (\<exists>c. conn = Some c \<and> mb_router_subject_has_lvc_prefix subject \<and>
        all_subs r' = filter_mset (\<lambda>s. \<not> (sub_conn s = c \<and> sub_sid s = sid)) (all_subs r))"
    by (rule subscribe_spec [OF assms]) blast
  then show ?thesis by (intro exI [of _ ok] exI [of _ r'] exI [of _ cs']) simp
qed

text \<open>A fresh connection, and the initial router over fresh connections.\<close>

definition fresh_conn :: mb_router_conn where
  "fresh_conn = \<lparr>conn_out = mb_buf_zero, kick_seen_epoch = 0, close_seen_epoch = 0, conn_sub_count = 0,
     conn_closed = False, msg_len_fn = None, write_msg_fn = None, has_kick_fn = True, has_close_fn = True\<rparr>"

lemma fresh_router_inv: "router_inv mb_router_init (\<lambda>_. fresh_conn)"
  by (rule router_inv_init) (simp_all add: fresh_conn_def mb_buf_zero_def buf_wf_def)

theorem router_subscribe_exact_witness:
  "\<exists>r' cs'. mb_router_subscribe_queue (\<lambda>_. True) mb_router_init (\<lambda>_. fresh_conn) (Some 1) ''a.*'' ''q'' ''7''
     = Some (True, r', cs') \<and> router_inv r' cs' \<and> all_subs r' = {#requested_sub 1 ''a.*'' ''q'' ''7''#}"
proof -
  have "map_option fst (mb_router_subscribe_queue (\<lambda>_. True) mb_router_init (\<lambda>_. fresh_conn) (Some 1)
      ''a.*'' ''q'' ''7'') = Some True" by code_simp
  moreover have "all_subs mb_router_init = {#}"
    by (simp add: all_subs_def mb_router_init_def router_zero_def bt_subs_def bucket_table_zero_def sub_list_zero_def)
  ultimately show ?thesis
    using router_subscribe_exact [OF fresh_router_inv, of "\<lambda>_. True" "Some 1" "''a.*''" "''q''" "''7''"] by auto
qed

text \<open>A plain subscription changes nothing of the connections but one count.\<close>

lemma subscribe_conns:
  assumes "mb_router_subscribe_queue am r cs (Some c) subject queue sid = Some (True, r', cs')"
    and "\<not> mb_router_subject_has_lvc_prefix subject"
  shows "cs' = cs(c := (cs c)\<lparr>conn_sub_count := conn_sub_count (cs c) + 1\<rparr>)"
  using assms
  by (auto simp: mb_router_subscribe_queue_def subscribe_commit_def Let_def bind_eq_Some_conv
      split: if_splits prod.splits bool.splits option.splits)

text \<open>A router with one wildcard subscription of connection 1.\<close>

definition one_sub_state :: "mb_router \<times> conns" where
  "one_sub_state =
     (case mb_router_subscribe (\<lambda>_. True) mb_router_init (\<lambda>_. fresh_conn) (Some 1) ''a.*'' ''7'' of
        Some (_, w) \<Rightarrow> w | None \<Rightarrow> (mb_router_init, \<lambda>_. fresh_conn))"

lemma one_sub_state:
  shows "router_inv (fst one_sub_state) (snd one_sub_state)"
    and "all_subs (fst one_sub_state) = {#requested_sub 1 ''a.*'' [] ''7''#}"
    and "snd one_sub_state = (\<lambda>_. fresh_conn)(1 := fresh_conn\<lparr>conn_sub_count := 1\<rparr>)"
proof -
  have "map_option fst (mb_router_subscribe_queue (\<lambda>_. True) mb_router_init (\<lambda>_. fresh_conn) (Some 1) ''a.*'' [] ''7'')
      = Some True" by code_simp
  then obtain r cs where s: "mb_router_subscribe_queue (\<lambda>_. True) mb_router_init (\<lambda>_. fresh_conn) (Some 1) ''a.*'' [] ''7''
      = Some (True, r, cs)" by auto
  then have eq: "one_sub_state = (r, cs)" by (simp add: one_sub_state_def mb_router_subscribe_def)
  have init: "all_subs mb_router_init = {#}"
    by (simp add: all_subs_def mb_router_init_def router_zero_def bt_subs_def bucket_table_zero_def sub_list_zero_def)
  obtain ok' r' cs' where t: "mb_router_subscribe_queue (\<lambda>_. True) mb_router_init (\<lambda>_. fresh_conn) (Some 1) ''a.*'' [] ''7''
      = Some (ok', r', cs')" "router_inv r' cs'"
      "ok' \<Longrightarrow> \<exists>c. Some 1 = Some c \<and> all_subs r' = add_mset (requested_sub c ''a.*'' [] ''7'') (all_subs mb_router_init)"
    by (rule subscribe_spec [OF fresh_router_inv, of "\<lambda>_. True" "Some 1" "''a.*''" "[]" "''7''"]) blast
  then show "router_inv (fst one_sub_state) (snd one_sub_state)"
    and "all_subs (fst one_sub_state) = {#requested_sub 1 ''a.*'' [] ''7''#}"
    using s init unfolding eq by auto
  have "\<not> mb_router_subject_has_lvc_prefix ''a.*''" by code_simp
  then show "snd one_sub_state = (\<lambda>_. fresh_conn)(1 := fresh_conn\<lparr>conn_sub_count := 1\<rparr>)"
    using subscribe_conns [OF s] unfolding eq by (simp add: fresh_conn_def)
qed

theorem router_remove_all_exact_witness:
  "\<exists>r' cs'. mb_router_remove_all_for (fst one_sub_state) (snd one_sub_state) 1 = Some (r', cs') \<and>
     router_inv r' cs' \<and> all_subs r' = {#} \<and> conn_sub_count (cs' 1) = 0"
  using router_remove_all_exact [OF one_sub_state(1), of 1] one_sub_state(2) by (auto simp: requested_sub_def fresh_sub_def Let_def)

theorem router_unsubscribe_exact_witness:
  "\<exists>r' cs'. mb_router_unsubscribe (fst one_sub_state) (snd one_sub_state) 1 ''7'' 2 True = Some (r', cs') \<and>
     router_inv r' cs' \<and>
     all_subs r' = {#(requested_sub 1 ''a.*'' [] ''7'')\<lparr>sub_max_msgs := 2, sub_has_max_msgs := True\<rparr>#}"
  using router_unsubscribe_exact [OF one_sub_state(1), of 1 "''7''" 2 True] one_sub_state(2)
  by (auto simp: requested_sub_def fresh_sub_def Let_def)

end
