(* ===== verification/Router_Publish.thy ===== *)
theory Router_Publish
  imports Router_Correct
begin

text \<open>
  Publishing (\<open>src/src/router.c\<close>): the choice of one member per queue group, the delivery
  of a message to the matching subscriptions of the three lists, auto-unsubscription, and
  the deferred close, kick and bridge callbacks.
\<close>

section \<open>State of one publish\<close>

record mb_queue_delivery =
  qd_subject :: bytes
  qd_queue :: bytes
  qd_selected :: nat
  qd_seen :: nat
  qd_is_lvc :: bool

record mb_router_publish_options =
  opt_replaying :: bool
  opt_has_assumed_ts_ms :: bool
  opt_assumed_ts_ms :: int

definition publish_options_zero :: mb_router_publish_options where
  "publish_options_zero = \<lparr>opt_replaying = False, opt_has_assumed_ts_ms = False, opt_assumed_ts_ms = 0\<rparr>"

text \<open>
  The connections together with the used parts \<open>kicked[0..kicked_len)\<close> and
  \<open>closed[0..closed_len)\<close> of the scratch arrays.
\<close>

record pub_state =
  ps_conns :: conns
  ps_kicked :: "conn_id list"
  ps_closed :: "conn_id list"

text \<open>An update of the connection \<open>c\<close>.\<close>

definition upd_conn :: "conn_id \<Rightarrow> (mb_router_conn \<Rightarrow> mb_router_conn) \<Rightarrow> pub_state \<Rightarrow> pub_state" where
  "upd_conn c f ps = ps\<lparr>ps_conns := (ps_conns ps)(c := f (ps_conns ps c))\<rparr>"

section \<open>Queue groups\<close>

definition queue_random :: "u64 \<Rightarrow> u64 \<times> u64" where
  "queue_random rng =
     (let x = rng; x = x XOR drop_bit 12 x; x = x XOR push_bit 25 x; x = x XOR drop_bit 27 x;
          rng = (if x = 0 then 0x9e3779b97f4a7c15 else x)
      in (rng, rng * 2685821657736338717))"

definition sub_deliverable :: "mb_router \<Rightarrow> conns \<Rightarrow> mb_subscription \<Rightarrow> bytes \<Rightarrow> bool \<Rightarrow> bool" where
  "sub_deliverable r cs sub subject check_filter =
     (if conn_closed (cs (sub_conn sub)) then False
      else if check_filter \<and> \<not> subject_matches (sub_subject sub) subject then False
      else \<not> sub_is_lvc sub \<or> lvc_subject_enabled (rt_lvc r) subject)"

definition queue_group_eq :: "mb_queue_delivery \<Rightarrow> mb_subscription \<Rightarrow> bool" where
  "queue_group_eq grp sub \<longleftrightarrow>
     qd_is_lvc grp = sub_is_lvc sub \<and> mb_slice_eq (qd_subject grp) (sub_subject sub) \<and>
     mb_slice_eq (qd_queue grp) (sub_queue sub)"

text \<open>
  \<open>groups\<close> is the used part of \<open>queue_scratch\<close>; the result is the group count test, the
  groups and the generator state.
\<close>

definition collect_queue_delivery ::
  "nat \<Rightarrow> u64 \<Rightarrow> mb_subscription \<Rightarrow> nat \<Rightarrow> mb_queue_delivery list \<Rightarrow> bool \<times> mb_queue_delivery list \<times> u64" where
  "collect_queue_delivery cap rng sub index groups =
     (let k = length (takeWhile (\<lambda>g. \<not> queue_group_eq g sub) groups)
      in if k = length groups \<and> cap \<le> length groups then (False, groups, rng)
         else let groups = (if k < length groups then groups
                else groups @ [\<lparr>qd_subject = sub_subject sub, qd_queue = sub_queue sub, qd_selected = index,
                                qd_seen = 0, qd_is_lvc = sub_is_lvc sub\<rparr>]);
                  grp = (groups ! k)\<lparr>qd_seen := qd_seen (groups ! k) + 1\<rparr>
         in if qd_seen grp = 1 then (True, groups[k := grp\<lparr>qd_selected := index\<rparr>], rng)
            else let (rng, v) = queue_random rng
                 in (True, groups[k := (if unat v mod qd_seen grp = 0 then grp\<lparr>qd_selected := index\<rparr> else grp)],
                     rng))"

text \<open>The first loop of \<open>deliver_matching_list\<close>, from position \<open>i\<close> on.\<close>

fun collect_loop ::
  "mb_router \<Rightarrow> conns \<Rightarrow> bytes \<Rightarrow> bool \<Rightarrow> nat \<Rightarrow> mb_subscription list \<Rightarrow> mb_queue_delivery list \<Rightarrow> u64
   \<Rightarrow> bool \<times> mb_queue_delivery list \<times> u64" where
  "collect_loop r cs subject check_filter i [] groups rng = (True, groups, rng)"
| "collect_loop r cs subject check_filter i (sub # subs) groups rng =
     (if length (sub_queue sub) = 0 \<or> \<not> sub_deliverable r cs sub subject check_filter
      then collect_loop r cs subject check_filter (i + 1) subs groups rng
      else case collect_queue_delivery (queue_cap r) rng sub i groups of
             (False, groups, rng) \<Rightarrow> (False, groups, rng)
           | (True, groups, rng) \<Rightarrow> collect_loop r cs subject check_filter (i + 1) subs groups rng)"

definition queue_selected :: "mb_queue_delivery list \<Rightarrow> mb_subscription \<Rightarrow> nat \<Rightarrow> bool" where
  "queue_selected groups sub index =
     (if length (sub_queue sub) = 0 then True
      else list_ex (\<lambda>g. qd_selected g = index \<and> queue_group_eq g sub) groups)"

section \<open>Delivery\<close>

definition queue_conn_close :: "mb_router \<Rightarrow> conn_id \<Rightarrow> pub_state \<Rightarrow> bool \<times> pub_state" where
  "queue_conn_close r c ps =
     (if conn_closed (ps_conns ps c) then (True, ps)
      else let ps = upd_conn c (\<lambda>conn. conn\<lparr>conn_closed := True\<rparr>) ps
           in if \<not> has_close_fn (ps_conns ps c) \<or> close_seen_epoch (ps_conns ps c) = kick_epoch r then (True, ps)
              else if close_cap r \<le> length (ps_closed ps) then (False, ps)
              else (True, (upd_conn c (\<lambda>conn. conn\<lparr>close_seen_epoch := kick_epoch r\<rparr>) ps)
                             \<lparr>ps_closed := ps_closed ps @ [c]\<rparr>))"

text \<open>\<open>delivered\<close> is a \<open>size_t\<close>.\<close>

definition count_delivered :: "mb_subscription \<Rightarrow> mb_subscription" where
  "count_delivered sub = sub\<lparr>sub_delivered := (sub_delivered sub + 1) mod 2 ^ 64\<rparr>"

definition msg_prefix :: "mb_subscription \<Rightarrow> bytes" where
  "msg_prefix sub = (if sub_is_lvc sub then MB_LVC_PREFIX else [])"

definition measure_msg :: "mb_router_conn \<Rightarrow> bytes \<Rightarrow> bytes \<Rightarrow> bytes \<Rightarrow> bytes \<Rightarrow> bytes \<Rightarrow> nat option" where
  "measure_msg conn pfx subject sid reply_to payload =
     (case msg_len_fn conn of
        Some f \<Rightarrow> f pfx subject sid reply_to payload
      | None \<Rightarrow> mb_msg_frame_len_prefixed_with_reply (length pfx) subject sid reply_to payload)"

definition write_msg ::
  "allocator \<Rightarrow> mb_router_conn \<Rightarrow> bytes \<Rightarrow> bytes \<Rightarrow> bytes \<Rightarrow> bytes \<Rightarrow> bytes \<Rightarrow> bool \<times> mb_buf" where
  "write_msg am conn pfx subject sid reply_to payload =
     (case write_msg_fn conn of
        Some f \<Rightarrow> f (conn_out conn) pfx subject sid reply_to payload
      | None \<Rightarrow> mb_write_msg_prefixed_with_reply am (conn_out conn) pfx subject sid reply_to payload)"

text \<open>\<open>None\<close> is the write \<open>kicked[*kicked_len]\<close> outside the scratch array.\<close>

definition deliver_to_sub ::
  "allocator \<Rightarrow> mb_router \<Rightarrow> mb_subscription \<Rightarrow> bytes \<Rightarrow> bytes \<Rightarrow> bytes \<Rightarrow> pub_state
   \<Rightarrow> (bool \<times> mb_subscription \<times> pub_state) option" where
  "deliver_to_sub am r sub subject payload reply_to ps =
     (let c = sub_conn sub; conn = ps_conns ps c
      in case measure_msg conn (msg_prefix sub) subject (sub_sid sub) reply_to payload of
           None \<Rightarrow> Some (False, sub, ps)
         | Some frame_len \<Rightarrow>
             if frame_len = 0 then Some (True, count_delivered sub, ps)
             else if MB_MAX_PENDING < buf_len (conn_out conn) \<or> MB_MAX_PENDING - buf_len (conn_out conn) < frame_len
             then let (ok, ps) = queue_conn_close r c ps in Some (ok, sub, ps)
             else case write_msg am conn (msg_prefix sub) subject (sub_sid sub) reply_to payload of
               (wrote, b) \<Rightarrow>
                 let ps = upd_conn c (\<lambda>conn. conn\<lparr>conn_out := b\<rparr>) ps
                 in if \<not> wrote then Some (False, sub, ps)
                    else let sub = count_delivered sub
                    in if has_kick_fn (ps_conns ps c) \<and> kick_seen_epoch (ps_conns ps c) \<noteq> kick_epoch r
                       then if kick_cap r \<le> length (ps_kicked ps) then None
                            else Some (True, sub, (upd_conn c (\<lambda>conn. conn\<lparr>kick_seen_epoch := kick_epoch r\<rparr>) ps)
                                                    \<lparr>ps_kicked := ps_kicked ps @ [c]\<rparr>)
                       else Some (True, sub, ps))"

text \<open>The second loop of \<open>deliver_matching_list\<close>: the subscriptions as it leaves them.\<close>

fun deliver_loop ::
  "allocator \<Rightarrow> mb_router \<Rightarrow> bytes \<Rightarrow> bytes \<Rightarrow> bytes \<Rightarrow> bool \<Rightarrow> mb_queue_delivery list \<Rightarrow> nat
   \<Rightarrow> mb_subscription list \<Rightarrow> pub_state \<Rightarrow> (bool \<times> mb_subscription list \<times> pub_state) option" where
  "deliver_loop am r subject payload reply_to check_filter groups i [] ps = Some (True, [], ps)"
| "deliver_loop am r subject payload reply_to check_filter groups i (sub # subs) ps =
     (if \<not> sub_deliverable r (ps_conns ps) sub subject check_filter \<or> \<not> queue_selected groups sub i
      then do { (ok, subs, ps) \<leftarrow> deliver_loop am r subject payload reply_to check_filter groups (i + 1) subs ps;
                Some (ok, sub # subs, ps) }
      else do { (ok, sub, ps) \<leftarrow> deliver_to_sub am r sub subject payload reply_to ps;
                if \<not> ok then Some (False, sub # subs, ps)
                else do { (ok, subs, ps) \<leftarrow> deliver_loop am r subject payload reply_to check_filter groups (i + 1) subs ps;
                          Some (ok, sub # subs, ps) } })"

text \<open>The list as the call leaves it, and the router with its counts and generator.\<close>

definition deliver_matching_list ::
  "allocator \<Rightarrow> mb_router \<Rightarrow> mb_sub_list \<Rightarrow> bytes \<Rightarrow> bytes \<Rightarrow> bytes \<Rightarrow> bool \<Rightarrow> pub_state
   \<Rightarrow> (bool \<times> mb_sub_list \<times> mb_router \<times> pub_state) option" where
  "deliver_matching_list am r l subject payload reply_to check_filter ps =
     (case collect_loop r (ps_conns ps) subject check_filter 0 (sl_items l) [] (queue_rng r) of
        (False, groups, rng) \<Rightarrow> Some (False, l, r\<lparr>queue_rng := rng\<rparr>, ps)
      | (True, groups, rng) \<Rightarrow>
          do { (ok, subs, ps) \<leftarrow>
                 deliver_loop am r subject payload reply_to check_filter groups 0 (sl_items l) ps;
               let (l, n, cs) = remove_delivered_max (l\<lparr>sl_items := subs\<rparr>) (rt_sub_count r, ps_conns ps);
               Some (ok, l, r\<lparr>queue_rng := rng, rt_sub_count := n\<rparr>, ps\<lparr>ps_conns := cs\<rparr>) })"

section \<open>Publish\<close>

definition publish_literal ::
  "allocator \<Rightarrow> bytes \<Rightarrow> bytes \<Rightarrow> bytes \<Rightarrow> mb_router \<Rightarrow> pub_state \<Rightarrow> (bool \<times> mb_router \<times> pub_state) option" where
  "publish_literal am subject payload reply_to r ps =
     do { (b, r) \<leftarrow> literal_bucket am r subject False;
          case b of
            None \<Rightarrow> Some (True, r, ps)
          | Some i \<Rightarrow>
              do { (ok, l, r, ps) \<leftarrow>
                     deliver_matching_list am r (bk_subs (bt_items (rt_literal r) ! i)) subject payload reply_to False ps;
                   Some (ok, r\<lparr>rt_literal := bt_set_subs (rt_literal r) i l\<rparr>, ps) } }"

definition publish_wildcard ::
  "allocator \<Rightarrow> bytes \<Rightarrow> bytes \<Rightarrow> bytes \<Rightarrow> mb_router \<Rightarrow> pub_state \<Rightarrow> (bool \<times> mb_router \<times> pub_state) option" where
  "publish_wildcard am subject payload reply_to r ps =
     do { (b, r) \<leftarrow> wildcard_bucket am r (first_token subject) False;
          case b of
            None \<Rightarrow> Some (True, r, ps)
          | Some i \<Rightarrow>
              do { (ok, l, r, ps) \<leftarrow>
                     deliver_matching_list am r (bk_subs (bt_items (rt_wildcard r) ! i)) subject payload reply_to True ps;
                   Some (ok, r\<lparr>rt_wildcard := bt_set_subs (rt_wildcard r) i l\<rparr>, ps) } }"

definition publish_global ::
  "allocator \<Rightarrow> bytes \<Rightarrow> bytes \<Rightarrow> bytes \<Rightarrow> mb_router \<Rightarrow> pub_state \<Rightarrow> (bool \<times> mb_router \<times> pub_state) option" where
  "publish_global am subject payload reply_to r ps =
     do { (ok, l, r, ps) \<leftarrow> deliver_matching_list am r (wildcard_global r) subject payload reply_to True ps;
          Some (ok, r\<lparr>wildcard_global := l\<rparr>, ps) }"

definition next_epoch :: "u64 \<Rightarrow> u64" where
  "next_epoch e = (if e + 1 = 0 then 1 else e + 1)"

text \<open>The deliveries, before any callback runs: a step runs when those before it were fine.\<close>

definition publish_deliver ::
  "allocator \<Rightarrow> bytes \<Rightarrow> bytes \<Rightarrow> bytes \<Rightarrow> mb_router \<Rightarrow> conns \<Rightarrow> (bool \<times> mb_router \<times> pub_state) option" where
  "publish_deliver am subject payload reply_to r cs =
     do { let r = r\<lparr>kick_epoch := next_epoch (kick_epoch r)\<rparr>;
          (ok, r, ps) \<leftarrow> publish_literal am subject payload reply_to r \<lparr>ps_conns = cs, ps_kicked = [], ps_closed = []\<rparr>;
          (ok, r, ps) \<leftarrow> (if ok then publish_wildcard am subject payload reply_to r ps else Some (ok, r, ps));
          if ok then publish_global am subject payload reply_to r ps else Some (ok, r, ps) }"

text \<open>
  The function pointers \<open>close_fn\<close>, \<open>kick_fn\<close> and \<open>bridge_fn\<close> belong to the callers of the
  router; they may change the router, the connections and whatever else (\<open>'w\<close>) they reach.
  \<open>None\<close> stands for a call that does not return.
\<close>

type_synonym 'w world = "mb_router \<times> conns \<times> 'w"

record 'w router_callbacks =
  cb_close :: "conn_id \<Rightarrow> 'w world \<Rightarrow> 'w world option"
  cb_kick :: "conn_id \<Rightarrow> 'w world \<Rightarrow> 'w world option"
  cb_bridge :: "bytes \<Rightarrow> bytes \<Rightarrow> mb_router_publish_options \<Rightarrow> 'w world \<Rightarrow> 'w world option"

fun run_closed :: "'w router_callbacks \<Rightarrow> conn_id list \<Rightarrow> 'w world \<Rightarrow> 'w world option" where
  "run_closed cb [] w = Some w"
| "run_closed cb (c # closed) w =
     (case w of (r, cs, x) \<Rightarrow>
        do { w \<leftarrow> (if has_close_fn (cs c) then cb_close cb c w else Some w); run_closed cb closed w })"

fun run_kicked :: "'w router_callbacks \<Rightarrow> conn_id list \<Rightarrow> 'w world \<Rightarrow> 'w world option" where
  "run_kicked cb [] w = Some w"
| "run_kicked cb (c # kicked) w =
     (case w of (r, cs, x) \<Rightarrow>
        do { w \<leftarrow> (if \<not> conn_closed (cs c) \<and> has_kick_fn (cs c) then cb_kick cb c w else Some w);
             run_kicked cb kicked w })"

definition mb_router_publish_with_reply_and_options ::
  "allocator \<Rightarrow> 'w router_callbacks \<Rightarrow> 'w world \<Rightarrow> bytes \<Rightarrow> bytes \<Rightarrow> bytes \<Rightarrow> mb_router_publish_options
   \<Rightarrow> (bool \<times> 'w world) option" where
  "mb_router_publish_with_reply_and_options am cb w subject payload reply_to options =
     (case w of (r, cs, x) \<Rightarrow>
      if \<not> mb_proto_subject_valid subject False then Some (False, w)
      else if length reply_to \<noteq> 0 \<and> \<not> mb_proto_subject_valid reply_to False then Some (False, w)
      else if mb_router_subject_has_lvc_prefix subject then Some (False, w)
      else do { (stored, v) \<leftarrow> lvc_store am (rt_lvc r) subject payload;
        let r = r\<lparr>rt_lvc := v\<rparr>;
        if \<not> stored then Some (False, r, cs, x)
        else if kick_cap r < rt_sub_count r \<or> close_cap r < rt_sub_count r \<or> queue_cap r < rt_sub_count r
        then Some (False, r, cs, x)
        else do { (ok, r, ps) \<leftarrow> publish_deliver am subject payload reply_to r cs;
          w \<leftarrow> run_closed cb (ps_closed ps) (r, ps_conns ps, x);
          w \<leftarrow> run_kicked cb (ps_kicked ps) w;
          w \<leftarrow> (if ok \<and> has_bridge (fst w) then cb_bridge cb subject payload options w else Some w);
          Some (ok, w) } })"

definition mb_router_publish_with_options ::
  "allocator \<Rightarrow> 'w router_callbacks \<Rightarrow> 'w world \<Rightarrow> bytes \<Rightarrow> bytes \<Rightarrow> mb_router_publish_options
   \<Rightarrow> (bool \<times> 'w world) option" where
  "mb_router_publish_with_options am cb w subject payload options =
     mb_router_publish_with_reply_and_options am cb w subject payload [] options"

definition mb_router_publish_with_reply ::
  "allocator \<Rightarrow> 'w router_callbacks \<Rightarrow> 'w world \<Rightarrow> bytes \<Rightarrow> bytes \<Rightarrow> bytes \<Rightarrow> (bool \<times> 'w world) option" where
  "mb_router_publish_with_reply am cb w subject payload reply_to =
     mb_router_publish_with_reply_and_options am cb w subject payload reply_to publish_options_zero"

definition mb_router_publish ::
  "allocator \<Rightarrow> 'w router_callbacks \<Rightarrow> 'w world \<Rightarrow> bytes \<Rightarrow> bytes \<Rightarrow> (bool \<times> 'w world) option" where
  "mb_router_publish am cb w subject payload = mb_router_publish_with_reply am cb w subject payload []"

end
