(* ===== verification/Router_Queue_Correct.thy ===== *)
theory Router_Queue_Correct
  imports Router_Publish
begin

text \<open>
  Queue groups: the collection pass of a delivery selects exactly one deliverable member
  of every group that has one, and never runs out of the reserved scratch space.
\<close>

section \<open>Groups\<close>

definition group_key :: "mb_queue_delivery \<Rightarrow> bool \<times> bytes \<times> bytes" where
  "group_key g = (qd_is_lvc g, qd_subject g, qd_queue g)"

definition sub_key :: "mb_subscription \<Rightarrow> bool \<times> bytes \<times> bytes" where
  "sub_key s = (sub_is_lvc s, sub_subject s, sub_queue s)"

lemma queue_group_eq_iff: "queue_group_eq g s \<longleftrightarrow> group_key g = sub_key s"
  by (auto simp: queue_group_eq_def group_key_def sub_key_def)

text \<open>
  After \<open>i\<close> subscriptions: one group per key of a queue candidate seen, and its selected
  member is a candidate of the group.
\<close>

definition groups_ok ::
  "(mb_subscription \<Rightarrow> bool) \<Rightarrow> mb_subscription list \<Rightarrow> nat \<Rightarrow> mb_queue_delivery list \<Rightarrow> bool" where
  "groups_ok cand items i groups \<longleftrightarrow>
     distinct (map group_key groups) \<and> length groups \<le> i \<and>
     (\<forall>g \<in> set groups. 1 \<le> qd_seen g \<and> qd_selected g < i \<and> cand (items ! qd_selected g)
        \<and> sub_key (items ! qd_selected g) = group_key g) \<and>
     (\<forall>j < i. cand (items ! j) \<longrightarrow> sub_key (items ! j) \<in> group_key ` set groups)"

lemma groups_ok_0: "groups_ok cand items 0 []"
  by (simp add: groups_ok_def)

lemma groups_ok_skip: "groups_ok cand items i groups \<Longrightarrow> \<not> cand (items ! i) \<Longrightarrow> groups_ok cand items (Suc i) groups"
  by (auto simp: groups_ok_def less_Suc_eq)

text \<open>Counting a candidate in an existing group, selecting it or not.\<close>

lemma groups_ok_count:
  assumes ok: "groups_ok cand items i groups" and c: "cand (items ! i)" and k: "k < length groups"
    and key: "group_key (groups ! k) = sub_key (items ! i)"
    and g: "g = (groups ! k)\<lparr>qd_seen := qd_seen (groups ! k) + 1\<rparr> \<or>
      g = (groups ! k)\<lparr>qd_seen := qd_seen (groups ! k) + 1, qd_selected := i\<rparr>"
  shows "groups_ok cand items (Suc i) (groups[k := g])"
proof -
  have gk: "group_key g = group_key (groups ! k)" using g by (auto simp: group_key_def)
  then have keys: "map group_key (groups[k := g]) = map group_key groups"
    using k by (simp add: map_update) (metis list_update_id nth_map)
  have "1 \<le> qd_seen h \<and> qd_selected h < Suc i \<and> cand (items ! qd_selected h) \<and>
      sub_key (items ! qd_selected h) = group_key h" if "h \<in> set (groups[k := g])" for h
  proof -
    have "h \<in> insert g (set groups)" using that set_update_subset_insert by fast
    moreover have "groups ! k \<in> set groups" using k by simp
    ultimately show ?thesis using ok c key g gk by (auto simp: groups_ok_def group_key_def)
  qed
  moreover have "group_key ` set (groups[k := g]) = group_key ` set groups"
    using keys by (metis list.set_map)
  moreover have "sub_key (items ! i) \<in> group_key ` set groups"
    using key k by (metis imageI nth_mem)
  ultimately show ?thesis
    using ok keys unfolding groups_ok_def by (auto simp: less_Suc_eq)
qed

lemma groups_ok_new:
  assumes ok: "groups_ok cand items i groups" and c: "cand (items ! i)"
    and new: "sub_key (items ! i) \<notin> group_key ` set groups"
    and g: "group_key g = sub_key (items ! i)" "qd_selected g = i" "qd_seen g = 1"
  shows "groups_ok cand items (Suc i) (groups @ [g])"
  using assms by (auto simp: groups_ok_def less_Suc_eq)

lemma collect_queue_delivery_spec:
  assumes ok: "groups_ok cand items i groups" and c: "cand (items ! i)" and cap: "length groups < cap"
  obtains groups' rng' where "collect_queue_delivery cap rng (items ! i) i groups = (True, groups', rng')"
    "groups_ok cand items (Suc i) groups'"
proof -
  let ?s = "items ! i"
  let ?k = "length (takeWhile (\<lambda>g. \<not> queue_group_eq g ?s) groups)"
  show thesis
  proof (cases "?k < length groups")
    case True
    have key: "group_key (groups ! ?k) = sub_key ?s"
      using nth_length_takeWhile [OF True] by (simp add: queue_group_eq_iff)
    let ?g = "(groups ! ?k)\<lparr>qd_seen := qd_seen (groups ! ?k) + 1\<rparr>"
    have "1 \<le> qd_seen (groups ! ?k)" using ok True by (auto simp: groups_ok_def)
    then have ne: "qd_seen ?g \<noteq> 1" by simp
    obtain rng' v where rng': "queue_random rng = (rng', v)" by fastforce
    let ?h = "if unat v mod qd_seen ?g = 0 then ?g\<lparr>qd_selected := i\<rparr> else ?g"
    have "collect_queue_delivery cap rng ?s i groups = (True, groups[?k := ?h], rng')"
      using True ne rng' by (simp add: collect_queue_delivery_def Let_def)
    moreover have "groups_ok cand items (Suc i) (groups[?k := ?h])"
      by (rule groups_ok_count [OF ok c True key]) simp
    ultimately show thesis by (rule that)
  next
    case False
    then have k: "?k = length groups" using length_takeWhile_le [of _ groups] by (metis le_neq_implies_less)
    then have "takeWhile (\<lambda>g. \<not> queue_group_eq g ?s) groups = groups"
      by (metis takeWhile_eq_take take_all_iff order_refl)
    then have new: "sub_key ?s \<notin> group_key ` set groups"
      by (metis (mono_tags, lifting) imageE queue_group_eq_iff takeWhile_eq_all_conv)
    let ?g = "\<lparr>qd_subject = sub_subject ?s, qd_queue = sub_queue ?s, qd_selected = i,
        qd_seen = 1, qd_is_lvc = sub_is_lvc ?s\<rparr>"
    have "collect_queue_delivery cap rng ?s i groups = (True, groups @ [?g], rng)"
      using k cap by (simp add: collect_queue_delivery_def Let_def)
    moreover have "groups_ok cand items (Suc i) (groups @ [?g])"
      by (rule groups_ok_new [OF ok c new]) (simp_all add: group_key_def sub_key_def)
    ultimately show thesis by (rule that)
  qed
qed

abbreviation queue_candidate :: "mb_router \<Rightarrow> conns \<Rightarrow> bytes \<Rightarrow> bool \<Rightarrow> mb_subscription \<Rightarrow> bool" where
  "queue_candidate r cs subject check s \<equiv> sub_queue s \<noteq> [] \<and> sub_deliverable r cs s subject check"

lemma collect_loop_spec:
  assumes "groups_ok (queue_candidate r cs subject check) items i groups" "i + length subs = length items"
    and "drop i items = subs" "length items \<le> queue_cap r"
  obtains groups' rng' where "collect_loop r cs subject check i subs groups rng = (True, groups', rng')"
    "groups_ok (queue_candidate r cs subject check) items (length items) groups'"
  using assms
proof (induction subs arbitrary: i groups rng thesis)
  case Nil
  then show ?case by simp
next
  case (Cons s subs)
  let ?cand = "queue_candidate r cs subject check"
  have i: "i < length items" using Cons.prems(3) by simp
  have s: "items ! i = s" using Cons.prems(4) by (rule nth_via_drop)
  have "drop (Suc i) items = tl (drop i items)" by (simp add: drop_Suc tl_drop)
  then have rest: "drop (Suc i) items = subs" by (simp add: Cons.prems(4))
  have len: "Suc i + length subs = length items" using Cons.prems(3) by simp
  have lt: "length groups < queue_cap r" using Cons.prems(2,5) i by (simp add: groups_ok_def)
  show ?case
  proof (cases "?cand s")
    case True
    obtain groups1 rng1 where g: "collect_queue_delivery (queue_cap r) rng s i groups = (True, groups1, rng1)"
        "groups_ok ?cand items (Suc i) groups1"
      by (rule collect_queue_delivery_spec [OF Cons.prems(2) _ lt, of rng]) (use True s in auto)
    obtain groups' rng' where "collect_loop r cs subject check (Suc i) subs groups1 rng1 = (True, groups', rng')"
        "groups_ok ?cand items (length items) groups'"
      using Cons.IH [OF _ g(2) len rest Cons.prems(5)] by blast
    then show ?thesis using True g(1) by (intro Cons.prems(1)) auto
  next
    case False
    then have g: "groups_ok ?cand items (Suc i) groups"
      using groups_ok_skip [OF Cons.prems(2)] s by blast
    obtain groups' rng' where "collect_loop r cs subject check (Suc i) subs groups rng = (True, groups', rng')"
        "groups_ok ?cand items (length items) groups'"
      using Cons.IH [OF _ g len rest Cons.prems(5)] by blast
    then show ?thesis using False by (intro Cons.prems(1)) auto
  qed
qed

lemma collect_all_spec:
  assumes "length items \<le> queue_cap r"
  obtains groups rng' where "collect_loop r cs subject check 0 items [] rng = (True, groups, rng')"
    "groups_ok (queue_candidate r cs subject check) items (length items) groups"
  using collect_loop_spec [of r cs subject check items 0 "[]" items rng thesis] assms
  by (auto simp: groups_ok_0)

lemma selected_unique:
  assumes ok: "groups_ok cand items n groups" and j: "j < n" "cand (items ! j)" "sub_queue (items ! j) \<noteq> []"
  shows "\<exists>!k. k < n \<and> sub_key (items ! k) = sub_key (items ! j) \<and> queue_selected groups (items ! k) k"
    "k < n \<Longrightarrow> sub_key (items ! k) = sub_key (items ! j) \<Longrightarrow> queue_selected groups (items ! k) k \<Longrightarrow> cand (items ! k)"
proof -
  from ok j obtain g where g: "g \<in> set groups" "group_key g = sub_key (items ! j)"
    by (auto simp: groups_ok_def)
  have uniq: "h = g" if "h \<in> set groups" "group_key h = group_key g" for h
    using ok that g(1) by (auto simp: groups_ok_def distinct_map inj_on_def)
  have sel: "queue_selected groups (items ! k) k \<longleftrightarrow> qd_selected g = k"
    if "sub_key (items ! k) = sub_key (items ! j)" for k
  proof -
    have "sub_queue (items ! k) \<noteq> []" using that j(3) by (auto simp: sub_key_def)
    then have "queue_selected groups (items ! k) k \<longleftrightarrow>
        (\<exists>h \<in> set groups. qd_selected h = k \<and> group_key h = group_key g)"
      by (simp add: queue_selected_def list_ex_iff queue_group_eq_iff that g(2))
    then show ?thesis using g(1) uniq by blast
  qed
  have "qd_selected g < n" "sub_key (items ! qd_selected g) = sub_key (items ! j)" "cand (items ! qd_selected g)"
    using ok g by (auto simp: groups_ok_def)
  with sel show "\<exists>!k. k < n \<and> sub_key (items ! k) = sub_key (items ! j) \<and> queue_selected groups (items ! k) k"
    "k < n \<Longrightarrow> sub_key (items ! k) = sub_key (items ! j) \<Longrightarrow> queue_selected groups (items ! k) k \<Longrightarrow> cand (items ! k)"
    by auto
qed

text \<open>
  \<^bold>\<open>C6\<close> The choice of a member of a queue group. With scratch space for the list, the
  collection pass succeeds; whenever some deliverable subscription of the list is in a queue
  group, the pass selects exactly one position among the subscriptions of that group (same
  queue name, same filter, same kind), and the subscription at that position was deliverable
  when the pass ran, whatever the generator draws. The theorem is about the choice: whether the
  delivery that follows reaches the connection is decided in \<open>deliver_to_sub\<close>, which drops the
  message when the connection chosen is over its pending limit.
\<close>

theorem queue_group_exactly_one:
  assumes "length items \<le> queue_cap r" "j < length items" "sub_queue (items ! j) \<noteq> []"
    and "sub_deliverable r cs (items ! j) subject check"
  shows "\<exists>groups rng'. collect_loop r cs subject check 0 items [] rng = (True, groups, rng') \<and>
    (\<exists>!k. k < length items \<and> sub_key (items ! k) = sub_key (items ! j) \<and> queue_selected groups (items ! k) k) \<and>
    (\<forall>k < length items. sub_key (items ! k) = sub_key (items ! j) \<and> queue_selected groups (items ! k) k
       \<longrightarrow> sub_deliverable r cs (items ! k) subject check)"
proof -
  obtain groups rng' where g: "collect_loop r cs subject check 0 items [] rng = (True, groups, rng')"
      "groups_ok (queue_candidate r cs subject check) items (length items) groups"
    using collect_all_spec [OF assms(1)] by blast
  note u = selected_unique [OF g(2) assms(2) _ assms(3)]
  show ?thesis using g(1) u assms(3,4) by blast
qed

theorem queue_group_exactly_one_witness:
  "let items = [requested_sub 1 ''a'' ''q'' ''1'', requested_sub 2 ''a'' ''q'' ''2''];
       r = mb_router_init\<lparr>queue_cap := 2\<rparr>
   in \<exists>groups rng'. collect_loop r (\<lambda>_. fresh_conn) ''a'' False 0 items [] (queue_rng r) = (True, groups, rng') \<and>
        (\<exists>!k. k < length items \<and> sub_key (items ! k) = sub_key (items ! 0) \<and> queue_selected groups (items ! k) k)"
proof -
  let ?items = "[requested_sub 1 ''a'' ''q'' ''1'', requested_sub 2 ''a'' ''q'' ''2'']"
  let ?r = "mb_router_init\<lparr>queue_cap := 2\<rparr>"
  have "length ?items \<le> queue_cap ?r" "0 < length ?items" by simp_all
  moreover have "sub_queue (?items ! 0) \<noteq> []" "sub_deliverable ?r (\<lambda>_. fresh_conn) (?items ! 0) ''a'' False"
    by code_simp+
  ultimately show ?thesis
    using queue_group_exactly_one [of ?items ?r 0 "\<lambda>_. fresh_conn" "''a''" False "queue_rng ?r"]
    unfolding Let_def by blast
qed

end
