(* ===== verification/Router_Publish_Correct.thy ===== *)
theory Router_Publish_Correct
  imports Router_Queue_Correct
begin

text \<open>
  Correctness of publishing: the hashed buckets hold exactly the matching subscriptions, a
  publish never writes outside its scratch arrays, keeps the invariant of the router, only
  appends to output buffers and respects the pending limit.
\<close>

section \<open>The interface of a connection's message functions\<close>

text \<open>
  What the router relies on when a connection brings its own \<open>msg_len_fn\<close> and
  \<open>write_msg_fn\<close>: a write appends at most the measured number of bytes.
\<close>

locale conn_writer =
  fixes measure :: "bytes \<Rightarrow> bytes \<Rightarrow> bytes \<Rightarrow> bytes \<Rightarrow> bytes \<Rightarrow> nat option"
    and wr :: "mb_buf \<Rightarrow> bytes \<Rightarrow> bytes \<Rightarrow> bytes \<Rightarrow> bytes \<Rightarrow> bytes \<Rightarrow> bool \<times> mb_buf"
  assumes write_wf: "buf_wf b \<Longrightarrow> wr b pfx subject sid reply payload = (ok, b') \<Longrightarrow> buf_wf b'"
    and write_appends: "buf_wf b \<Longrightarrow> wr b pfx subject sid reply payload = (ok, b') \<Longrightarrow>
      prefix (buf_data b) (buf_data b')"
    and write_measured: "buf_wf b \<Longrightarrow> measure pfx subject sid reply payload = Some n \<Longrightarrow>
      wr b pfx subject sid reply payload = (ok, b') \<Longrightarrow> buf_len b' \<le> buf_len b + n"
begin

lemma write_pending:
  assumes "buf_wf b" "measure pfx subject sid reply payload = Some n"
    and "wr b pfx subject sid reply payload = (ok, b')" "buf_len b \<le> limit" "n \<le> limit - buf_len b"
  shows "buf_len b' \<le> limit"
  using write_measured [OF assms(1-3)] assms(4,5) by linarith

end

text \<open>The functions the router itself uses satisfy the interface.\<close>

interpretation plain_writer: conn_writer
  "\<lambda>pfx. mb_msg_frame_len_prefixed_with_reply (length pfx)" "mb_write_msg_prefixed_with_reply am" for am
proof
  fix b pfx subject sid reply payload ok b'
  assume wf: "buf_wf b" and w: "mb_write_msg_prefixed_with_reply am b pfx subject sid reply payload = (ok, b')"
  have at: "buf_wf b'" "buf_data b' = (if ok then buf_data b @ msg_frame (pfx @ subject) sid reply payload else buf_data b)"
    using mb_write_msg_atomic [OF wf, of pfx subject sid reply payload am] w by (simp_all add: Let_def)
  then show "buf_wf b'" "prefix (buf_data b) (buf_data b')" by simp_all
  show "buf_len b' \<le> buf_len b + n"
    if "mb_msg_frame_len_prefixed_with_reply (length pfx) subject sid reply payload = Some n" for n
    using that at(2) by (auto simp: frame_len_eq Let_def split: if_splits)
qed

definition io_ok :: "allocator \<Rightarrow> mb_router_conn \<Rightarrow> bool" where
  "io_ok am conn \<longleftrightarrow> conn_writer (measure_msg conn) (\<lambda>b. write_msg am (conn\<lparr>conn_out := b\<rparr>))"

lemma io_ok_plain: "msg_len_fn conn = None \<Longrightarrow> write_msg_fn conn = None \<Longrightarrow> io_ok am conn"
  using plain_writer.conn_writer_axioms [of am]
  by (simp add: io_ok_def measure_msg_def [abs_def] write_msg_def [abs_def])

section \<open>What one step of a publish may do to a connection\<close>

definition conn_step :: "mb_router_conn \<Rightarrow> mb_router_conn \<Rightarrow> bool" where
  "conn_step c c' \<longleftrightarrow>
     msg_len_fn c' = msg_len_fn c \<and> write_msg_fn c' = write_msg_fn c \<and>
     has_kick_fn c' = has_kick_fn c \<and> has_close_fn c' = has_close_fn c \<and>
     (buf_wf (conn_out c) \<longrightarrow> buf_wf (conn_out c')) \<and>
     prefix (buf_data (conn_out c)) (buf_data (conn_out c')) \<and>
     buf_len (conn_out c') \<le> max (buf_len (conn_out c)) MB_MAX_PENDING \<and>
     (conn_closed c \<longrightarrow> conn_closed c' \<and> conn_out c' = conn_out c)"

lemma conn_step_refl [simp]: "conn_step c c"
  by (simp add: conn_step_def)

lemma conn_step_trans: "conn_step a b \<Longrightarrow> conn_step b c \<Longrightarrow> conn_step a c"
  by (auto simp: conn_step_def intro: prefix_order.trans)

lemma conn_step_fields [simp]:
  "conn_step c (c\<lparr>conn_sub_count := n\<rparr>)" "conn_step c (c\<lparr>kick_seen_epoch := e\<rparr>)"
  "conn_step c (c\<lparr>close_seen_epoch := e\<rparr>)" "conn_step c (c\<lparr>conn_closed := True\<rparr>)"
  by (simp_all add: conn_step_def)

lemma conn_step_io: "conn_step c c' \<Longrightarrow> io_ok am c \<Longrightarrow> io_ok am c'"
proof -
  assume st: "conn_step c c'" and io: "io_ok am c"
  have "measure_msg c' = measure_msg c"
    using st by (simp add: conn_step_def measure_msg_def [abs_def])
  moreover have "(\<lambda>b. write_msg am (c'\<lparr>conn_out := b\<rparr>)) = (\<lambda>b. write_msg am (c\<lparr>conn_out := b\<rparr>))"
    using st by (intro ext) (simp add: conn_step_def write_msg_def split: option.split)
  ultimately show "io_ok am c'" using io by (simp add: io_ok_def)
qed

text \<open>
  The scratch arrays of a publish: connections of \<open>C\<close>, each at most once, marked with the
  epoch of this publish.
\<close>

definition pub_inv :: "mb_router \<Rightarrow> conn_id set \<Rightarrow> pub_state \<Rightarrow> bool" where
  "pub_inv r C ps \<longleftrightarrow>
     distinct (ps_kicked ps) \<and> set (ps_kicked ps) \<subseteq> C \<and>
     (\<forall>c \<in> set (ps_kicked ps). kick_seen_epoch (ps_conns ps c) = kick_epoch r) \<and>
     distinct (ps_closed ps) \<and> set (ps_closed ps) \<subseteq> C \<and>
     (\<forall>c \<in> set (ps_closed ps). close_seen_epoch (ps_conns ps c) = kick_epoch r)"

definition room :: "mb_router \<Rightarrow> conn_id set \<Rightarrow> bool" where
  "room r C \<longleftrightarrow> finite C \<and> card C \<le> kick_cap r \<and> card C \<le> close_cap r"

lemma room_for_one_more:
  assumes "finite C" "distinct xs" "set xs \<subseteq> C" "c \<in> C" "c \<notin> set xs"
  shows "length xs < card C"
  by (metis assms card_seteq distinct_card linorder_not_less subset_iff)

definition conns_ok :: "allocator \<Rightarrow> conns \<Rightarrow> bool" where
  "conns_ok am cs \<longleftrightarrow> (\<forall>c. buf_wf (conn_out (cs c)) \<and> io_ok am (cs c))"

lemma conns_ok_step: "conns_ok am cs \<Longrightarrow> (\<And>c. conn_step (cs c) (cs' c)) \<Longrightarrow> conns_ok am cs'"
  using conn_step_io by (fastforce simp: conns_ok_def conn_step_def)

definition counts_kept :: "conns \<Rightarrow> conns \<Rightarrow> bool" where
  "counts_kept cs cs' \<longleftrightarrow> (\<forall>c. conn_sub_count (cs' c) = conn_sub_count (cs c))"

lemma queue_conn_close_spec:
  assumes "pub_inv r C ps" "room r C" "c \<in> C"
  shows "\<exists>ps'. queue_conn_close r c ps = (True, ps') \<and> pub_inv r C ps' \<and>
    (\<forall>d. conn_step (ps_conns ps d) (ps_conns ps' d)) \<and> counts_kept (ps_conns ps) (ps_conns ps') \<and>
    conn_closed (ps_conns ps' c) \<and> (\<forall>d. d \<noteq> c \<longrightarrow> ps_conns ps' d = ps_conns ps d)"
proof (cases "conn_closed (ps_conns ps c) \<or> \<not> has_close_fn (ps_conns ps c) \<or> close_seen_epoch (ps_conns ps c) = kick_epoch r")
  case True
  then show ?thesis
    using assms(1) by (auto simp: queue_conn_close_def pub_inv_def upd_conn_def counts_kept_def Let_def)
next
  case False
  then have "c \<notin> set (ps_closed ps)" using assms(1) by (auto simp: pub_inv_def)
  then have "length (ps_closed ps) < card C"
    using assms by (intro room_for_one_more) (auto simp: pub_inv_def room_def)
  then have "length (ps_closed ps) < close_cap r" using assms(2) by (simp add: room_def)
  then show ?thesis
    using False assms(1,3) \<open>c \<notin> set (ps_closed ps)\<close>
    by (auto simp: queue_conn_close_def pub_inv_def upd_conn_def counts_kept_def Let_def conn_step_def)
qed

lemma conn_step_write:
  assumes io: "io_ok am conn" and wf: "buf_wf (conn_out conn)" and opn: "\<not> conn_closed conn"
    and m: "measure_msg conn pfx subject sid reply payload = Some n"
    and fits: "buf_len (conn_out conn) \<le> MB_MAX_PENDING" "n \<le> MB_MAX_PENDING - buf_len (conn_out conn)"
    and w: "write_msg am conn pfx subject sid reply payload = (ok, b)"
  shows "conn_step conn (conn\<lparr>conn_out := b\<rparr>)"
proof -
  have cw: "conn_writer (measure_msg conn) (\<lambda>b. write_msg am (conn\<lparr>conn_out := b\<rparr>))"
    using io by (simp add: io_ok_def)
  have w': "write_msg am (conn\<lparr>conn_out := conn_out conn\<rparr>) pfx subject sid reply payload = (ok, b)" using w by simp
  show ?thesis
    using conn_writer.write_wf [OF cw wf w'] conn_writer.write_appends [OF cw wf w']
      conn_writer.write_pending [OF cw wf m w' fits] opn
    by (simp add: conn_step_def)
qed

text \<open>Delivering to one subscription never writes outside the scratch arrays.\<close>

lemma deliver_to_sub_spec:
  assumes pi: "pub_inv r C ps" and rm: "room r C" and c: "sub_conn sub \<in> C"
    and ok: "conns_ok am (ps_conns ps)" and opn: "\<not> conn_closed (ps_conns ps (sub_conn sub))"
  obtains g sub' ps' where "deliver_to_sub am r sub subject payload reply ps = Some (g, sub', ps')"
    "sub' = sub \<or> sub' = count_delivered sub" "pub_inv r C ps'"
    "\<And>d. conn_step (ps_conns ps d) (ps_conns ps' d)" "counts_kept (ps_conns ps) (ps_conns ps')"
proof -
  let ?c = "sub_conn sub"
  let ?conn = "ps_conns ps ?c"
  let ?m = "measure_msg ?conn (msg_prefix sub) subject (sub_sid sub) reply payload"
  have wf: "buf_wf (conn_out ?conn)" "io_ok am ?conn" using ok by (simp_all add: conns_ok_def)
  consider (unmeasured) "?m = None" | (empty) "?m = Some 0"
    | (full) n where "?m = Some n" "n \<noteq> 0"
        "MB_MAX_PENDING < buf_len (conn_out ?conn) \<or> MB_MAX_PENDING - buf_len (conn_out ?conn) < n"
    | (fits) n where "?m = Some n" "n \<noteq> 0"
        "buf_len (conn_out ?conn) \<le> MB_MAX_PENDING" "n \<le> MB_MAX_PENDING - buf_len (conn_out ?conn)"
    by (metis linorder_not_less not_None_eq)
  then show thesis
  proof cases
    case unmeasured
    then show thesis using that [of False sub ps] pi by (simp add: deliver_to_sub_def Let_def counts_kept_def)
  next
    case empty
    then show thesis using that [of True "count_delivered sub" ps] pi
      by (simp add: deliver_to_sub_def Let_def counts_kept_def)
  next
    case full
    obtain ps' where "queue_conn_close r ?c ps = (True, ps')" "pub_inv r C ps'"
        "\<forall>d. conn_step (ps_conns ps d) (ps_conns ps' d)" "counts_kept (ps_conns ps) (ps_conns ps')"
      using queue_conn_close_spec [OF pi rm c] by blast
    then show thesis using that [of True sub ps'] full by (simp add: deliver_to_sub_def Let_def)
  next
    case fits
    obtain wrote b where w: "write_msg am ?conn (msg_prefix sub) subject (sub_sid sub) reply payload = (wrote, b)"
      by fastforce
    have st: "conn_step ?conn (?conn\<lparr>conn_out := b\<rparr>)"
      using conn_step_write [OF wf(2,1) opn fits(1,3,4) w] .
    let ?ps1 = "upd_conn ?c (\<lambda>conn. conn\<lparr>conn_out := b\<rparr>) ps"
    have ps1: "pub_inv r C ?ps1" "\<And>d. conn_step (ps_conns ps d) (ps_conns ?ps1 d)"
        "counts_kept (ps_conns ps) (ps_conns ?ps1)"
      using pi st by (auto simp: pub_inv_def upd_conn_def counts_kept_def)
    show thesis
    proof (cases "wrote \<and> has_kick_fn ?conn \<and> kick_seen_epoch ?conn \<noteq> kick_epoch r")
      case False
      then have "deliver_to_sub am r sub subject payload reply ps =
          Some (wrote, if wrote then count_delivered sub else sub, ?ps1)"
        using fits w by (auto simp: deliver_to_sub_def Let_def upd_conn_def)
      then show thesis by (rule that) (use ps1 in auto)
    next
      case True
      then have fresh: "?c \<notin> set (ps_kicked ps)" using pi by (auto simp: pub_inv_def)
      then have "length (ps_kicked ps) < card C"
        using pi rm c by (intro room_for_one_more) (auto simp: pub_inv_def room_def)
      then have lt: "length (ps_kicked ps) < kick_cap r" using rm by (simp add: room_def)
      let ?ps2 = "(upd_conn ?c (\<lambda>conn. conn\<lparr>kick_seen_epoch := kick_epoch r\<rparr>) ?ps1)\<lparr>ps_kicked := ps_kicked ps @ [?c]\<rparr>"
      have "deliver_to_sub am r sub subject payload reply ps = Some (True, count_delivered sub, ?ps2)"
        using fits w True lt by (simp add: deliver_to_sub_def Let_def upd_conn_def)
      moreover have "pub_inv r C ?ps2" "counts_kept (ps_conns ps) (ps_conns ?ps2)"
        using pi fresh c by (auto simp: pub_inv_def upd_conn_def counts_kept_def)
      moreover have "conn_step (ps_conns ps d) (ps_conns ?ps2 d)" for d
        using st conn_step_trans [OF st conn_step_fields(2)] by (auto simp: upd_conn_def)
      ultimately show thesis by (intro that [of True "count_delivered sub" ?ps2]) simp_all
    qed
  qed
qed


section \<open>Delivery to a list\<close>

abbreviation delivered_rel :: "mb_subscription \<Rightarrow> mb_subscription \<Rightarrow> bool" where
  "delivered_rel s s' \<equiv> s' = s \<or> s' = count_delivered s"

lemma deliver_loop_spec:
  assumes "pub_inv r C ps" "room r C" "sub_conn ` set subs \<subseteq> C" "conns_ok am (ps_conns ps)"
  obtains g subs' ps' where
    "deliver_loop am r subject payload reply check groups i subs ps = Some (g, subs', ps')"
    "list_all2 delivered_rel subs subs'" "pub_inv r C ps'"
    "\<And>d. conn_step (ps_conns ps d) (ps_conns ps' d)" "counts_kept (ps_conns ps) (ps_conns ps')"
  using assms
proof (induction subs arbitrary: i ps thesis)
  case Nil
  then show ?case by (simp add: counts_kept_def)
next
  case (Cons s subs)
  have sub: "sub_conn s \<in> C" "sub_conn ` set subs \<subseteq> C" using Cons.prems(4) by auto
  show ?case
  proof (cases "\<not> sub_deliverable r (ps_conns ps) s subject check \<or> \<not> queue_selected groups s i")
    case True
    obtain g subs' ps' where
        "deliver_loop am r subject payload reply check groups (i + 1) subs ps = Some (g, subs', ps')"
        "list_all2 delivered_rel subs subs'" "pub_inv r C ps'"
        "\<And>d. conn_step (ps_conns ps d) (ps_conns ps' d)" "counts_kept (ps_conns ps) (ps_conns ps')"
      by (rule Cons.IH [OF _ Cons.prems(2,3) sub(2) Cons.prems(5), of "i + 1"]) blast
    then show ?thesis using True by (intro Cons.prems(1) [of g "s # subs'" ps']) auto
  next
    case False
    then have opn: "\<not> conn_closed (ps_conns ps (sub_conn s))" by (auto simp: sub_deliverable_def)
    obtain g1 s' ps1 where d: "deliver_to_sub am r s subject payload reply ps = Some (g1, s', ps1)"
        "delivered_rel s s'" "pub_inv r C ps1"
        "\<And>d. conn_step (ps_conns ps d) (ps_conns ps1 d)" "counts_kept (ps_conns ps) (ps_conns ps1)"
      by (rule deliver_to_sub_spec [OF Cons.prems(2,3) sub(1) Cons.prems(5) opn]) blast
    show ?thesis
    proof (cases g1)
      case fail: False
      then have "deliver_loop am r subject payload reply check groups i (s # subs) ps = Some (False, s' # subs, ps1)"
        using False d(1) by simp
      moreover have "list_all2 delivered_rel (s # subs) (s' # subs)"
        using d(2) by (simp add: list_all2_same)
      ultimately show ?thesis using d by (intro Cons.prems(1) [of False "s' # subs" ps1]) auto
    next
      case True
      have ok1: "conns_ok am (ps_conns ps1)" using conns_ok_step [OF Cons.prems(5) d(4)] .
      obtain g subs' ps' where l:
          "deliver_loop am r subject payload reply check groups (i + 1) subs ps1 = Some (g, subs', ps')"
          "list_all2 delivered_rel subs subs'" "pub_inv r C ps'"
          "\<And>d. conn_step (ps_conns ps1 d) (ps_conns ps' d)" "counts_kept (ps_conns ps1) (ps_conns ps')"
        by (rule Cons.IH [OF _ d(3) Cons.prems(3) sub(2) ok1, of "i + 1"]) blast
      have "conn_step (ps_conns ps e) (ps_conns ps' e)" for e using conn_step_trans [OF d(4) l(4)] .
      moreover have "counts_kept (ps_conns ps) (ps_conns ps')" using d(5) l(5) by (simp add: counts_kept_def)
      ultimately show ?thesis
        using False True d(1,2) l(1-3) by (intro Cons.prems(1) [of g "s' # subs'" ps']) auto
    qed
  qed
qed

lemma count_delivered_sel [simp]:
  "sub_conn (count_delivered s) = sub_conn s" "sub_subject (count_delivered s) = sub_subject s"
  "sub_sid (count_delivered s) = sub_sid s" "sub_queue (count_delivered s) = sub_queue s"
  by (simp_all add: count_delivered_def)

lemma delivered_rel_counts:
  "list_all2 delivered_rel xs ys \<Longrightarrow> size (mset ys) = size (mset xs) \<and> subs_of c (mset ys) = subs_of c (mset xs)"
  by (induction xs ys rule: list_all2_induct) auto

abbreviation max_decide :: "mb_subscription \<Rightarrow> mb_subscription option" where
  "max_decide sub \<equiv>
     (if sub_has_max_msgs sub \<and> sub_max_msgs sub \<le> sub_delivered sub then None else Some sub)"

text \<open>What becomes of the subscriptions of the list: some counted, the exhausted ones gone.\<close>

definition list_outcome :: "mb_subscription list \<Rightarrow> mb_subscription list \<Rightarrow> bool" where
  "list_outcome xs ys \<longleftrightarrow>
     (\<exists>zs. list_all2 delivered_rel xs zs \<and>
       mset ys \<in> {mset xs, filter_mset (\<lambda>s. \<not> (sub_has_max_msgs s \<and> sub_max_msgs s \<le> sub_delivered s)) (mset zs)})"

lemma list_outcome_member:
  assumes "list_outcome xs ys" "y \<in> set ys"
  shows "\<exists>x \<in> set xs. delivered_rel x y"
proof -
  from assms(1) obtain zs where zs: "list_all2 delivered_rel xs zs" "mset ys = mset xs \<or>
      mset ys = filter_mset (\<lambda>s. \<not> (sub_has_max_msgs s \<and> sub_max_msgs s \<le> sub_delivered s)) (mset zs)"
    by (auto simp: list_outcome_def)
  have "y \<in># mset ys" using assms(2) by simp
  with zs(2) have "y \<in> set xs \<or> y \<in> set zs" by (elim disjE) auto
  then show ?thesis
  proof
    assume "y \<in> set zs"
    then obtain i where i: "i < length zs" "zs ! i = y" by (auto simp: in_set_conv_nth)
    then have "i < length xs" "delivered_rel (xs ! i) y"
      using zs(1) by (auto simp: list_all2_conv_all_nth)
    then show ?thesis using nth_mem by blast
  qed blast
qed

lemma counts_ok_drop_part:
  assumes "counts_ok (A + N) st" "\<And>s s'. decide s = Some s' \<Longrightarrow> sub_conn s' = sub_conn s"
  shows "counts_ok (A + kept decide N) (drop_counts (dropped decide N) st)"
proof -
  have "subs_of c (kept decide N) = subs_of c N - subs_of c (dropped decide N) \<and> subs_of c (dropped decide N) \<le> subs_of c N" for c
    using subs_of_kept [of decide c N] assms(2) by (metis add_diff_cancel_right' le_add2)
  moreover have "size (kept decide N) = size N - size (dropped decide N)" "size (dropped decide N) \<le> size N"
    using size_kept_dropped [of decide N] by linarith+
  ultimately show ?thesis using assms(1) by (simp add: counts_ok_def drop_counts_def)
qed

lemma deliver_matching_list_spec:
  assumes pi: "pub_inv r C ps" and rm: "room r C" and sub: "sub_conn ` set (sl_items l) \<subseteq> C"
    and ok: "conns_ok am (ps_conns ps)" and wf: "sub_list_wf l"
    and cap: "length (sl_items l) \<le> queue_cap r"
    and cnt: "counts_ok (A + mset (sl_items l)) (rt_sub_count r, ps_conns ps)"
  obtains g l' rng n ps' where
    "deliver_matching_list am r l subject payload reply check ps =
       Some (g, l', r\<lparr>queue_rng := rng, rt_sub_count := n\<rparr>, ps')"
    "list_outcome (sl_items l) (sl_items l')" "sub_list_wf l'" "n \<le> rt_sub_count r"
    "counts_ok (A + mset (sl_items l')) (n, ps_conns ps')" "\<And>c. subs_of c (mset (sl_items l')) \<le> subs_of c (mset (sl_items l))"
    "pub_inv r C ps'" "\<And>d. conn_step (ps_conns ps d) (ps_conns ps' d)"
proof -
  obtain groups rng where col: "collect_loop r (ps_conns ps) subject check 0 (sl_items l) [] (queue_rng r) = (True, groups, rng)"
    by (rule collect_all_spec [OF cap]) blast
  obtain g subs' ps1 where d:
      "deliver_loop am r subject payload reply check groups 0 (sl_items l) ps = Some (g, subs', ps1)"
      "list_all2 delivered_rel (sl_items l) subs'" "pub_inv r C ps1"
      "\<And>d. conn_step (ps_conns ps d) (ps_conns ps1 d)" "counts_kept (ps_conns ps) (ps_conns ps1)"
    by (rule deliver_loop_spec [OF pi rm sub ok]) blast
  define l' st where "l' = fst (sweep_loop max_decide 0 (l\<lparr>sl_items := subs'\<rparr>) (rt_sub_count r, ps_conns ps1))"
    and "st = snd (sweep_loop max_decide 0 (l\<lparr>sl_items := subs'\<rparr>) (rt_sub_count r, ps_conns ps1))"
  then have sw: "sweep_loop max_decide 0 (l\<lparr>sl_items := subs'\<rparr>) (rt_sub_count r, ps_conns ps1) = (l', st)"
    by simp
  note l' = sweep_all_spec [OF sw]
  have len: "length subs' = length (sl_items l)" using d(2) by (simp add: list_all2_lengthD)
  have kept: "mset (sl_items l') =
      filter_mset (\<lambda>s. \<not> (sub_has_max_msgs s \<and> sub_max_msgs s \<le> sub_delivered s)) (mset subs')"
  proof -
    have "max_decide = (\<lambda>s. if \<not> (sub_has_max_msgs s \<and> sub_max_msgs s \<le> sub_delivered s) then Some s else None)"
      by auto
    then show ?thesis using l'(1) kept_filter by simp
  qed
  have cnt1: "counts_ok (A + mset subs') (rt_sub_count r, ps_conns ps1)"
    using cnt d(5) delivered_rel_counts [OF d(2)] by (simp add: counts_ok_def counts_kept_def)
  have "\<And>s s'. max_decide s = Some s' \<Longrightarrow> sub_conn s' = sub_conn s" by (simp split: if_splits)
  from counts_ok_drop_part [OF cnt1 this]
  have cnt2: "counts_ok (A + mset (sl_items l')) st" using l' by simp
  have st: "st = drop_counts (dropped max_decide (mset subs')) (rt_sub_count r, ps_conns ps1)"
    using l'(3) by simp
  let ?ps' = "ps1\<lparr>ps_conns := snd st\<rparr>"
  have step: "conn_step (ps_conns ps e) (ps_conns ?ps' e)" for e
    using conn_step_trans [OF d(4) conn_step_fields(1)] by (simp add: st drop_counts_def)
  have "deliver_matching_list am r l subject payload reply check ps =
      Some (g, l', r\<lparr>queue_rng := rng, rt_sub_count := fst st\<rparr>, ?ps')"
    using col d(1) sw by (simp add: deliver_matching_list_def remove_delivered_max_def Let_def split: prod.splits)
  moreover have "list_outcome (sl_items l) (sl_items l')"
    using d(2) kept by (auto simp: list_outcome_def)
  moreover have "sub_list_wf l'"
    using sweep_keeps_wf [OF _ sw] wf len by (simp add: sub_list_wf_def)
  moreover have "fst st \<le> rt_sub_count r" by (simp add: st drop_counts_def)
  moreover have "counts_ok (A + mset (sl_items l')) (fst st, ps_conns ?ps')" using cnt2 by (simp add: counts_ok_def)
  moreover have "subs_of c (mset (sl_items l')) \<le> subs_of c (mset (sl_items l))" for c
  proof -
    have "subs_of c (mset (sl_items l')) \<le> subs_of c (mset subs')"
      unfolding kept subs_of_def by (intro size_mset_mono multiset_filter_mono multiset_filter_subset)
    then show ?thesis using delivered_rel_counts [OF d(2), of c] by simp
  qed
  moreover have "pub_inv r C ?ps'" using d(3) by (simp add: pub_inv_def st drop_counts_def)
  ultimately show thesis using step by (rule that)
qed


section \<open>The three deliveries keep the invariant\<close>

lemma delivered_belongs:
  assumes "delivered_rel s s'"
  shows "lit_belongs k s \<Longrightarrow> lit_belongs k s'" "wild_belongs k s \<Longrightarrow> wild_belongs k s'"
    "glob_belongs s \<Longrightarrow> glob_belongs s'"
  using assms by (auto simp: lit_belongs_def wild_belongs_def glob_belongs_def sub_valid_def)

text \<open>The state in which the lists of a publish are delivered.\<close>

definition publishing :: "allocator \<Rightarrow> conn_id set \<Rightarrow> mb_router \<Rightarrow> pub_state \<Rightarrow> bool" where
  "publishing am C r ps \<longleftrightarrow>
     router_inv r (ps_conns ps) \<and> pub_inv r C ps \<and> room r C \<and> conns_ok am (ps_conns ps) \<and>
     sub_conn ` set_mset (all_subs r) \<subseteq> C"

definition publish_effect :: "mb_router \<Rightarrow> pub_state \<Rightarrow> mb_router \<Rightarrow> pub_state \<Rightarrow> bool" where
  "publish_effect r ps r' ps' \<longleftrightarrow>
     (\<forall>d. conn_step (ps_conns ps d) (ps_conns ps' d)) \<and> kick_epoch r' = kick_epoch r \<and>
     kick_cap r' = kick_cap r \<and> close_cap r' = close_cap r \<and> rt_lvc r' = rt_lvc r"

lemma publish_effect_refl [simp]: "publish_effect r ps r ps"
  by (simp add: publish_effect_def)

lemma publish_effect_trans:
  "publish_effect r ps r1 ps1 \<Longrightarrow> publish_effect r1 ps1 r2 ps2 \<Longrightarrow> publish_effect r ps r2 ps2"
  by (auto simp: publish_effect_def intro: conn_step_trans)

text \<open>
  One delivery, given how its list sits in the router: \<open>put\<close> stores the list back, \<open>A\<close> are
  the other subscriptions.
\<close>

lemma delivery_stage:
  assumes pub: "publishing am C r ps"
    and all: "all_subs r = A + mset (sl_items l)" and wf: "sub_list_wf l"
    and put_all: "\<And>l' rng n. all_subs (put l' (r\<lparr>queue_rng := rng, rt_sub_count := n\<rparr>)) = A + mset (sl_items l')"
    and put_store: "\<And>l' rng n. list_outcome (sl_items l) (sl_items l') \<Longrightarrow> sub_list_wf l' \<Longrightarrow>
      store_ok (put l' (r\<lparr>queue_rng := rng, rt_sub_count := n\<rparr>))"
    and put_sel: "\<And>l' r0. rt_sub_count (put l' r0) = rt_sub_count r0 \<and> kick_cap (put l' r0) = kick_cap r0 \<and>
      close_cap (put l' r0) = close_cap r0 \<and> queue_cap (put l' r0) = queue_cap r0 \<and>
      rt_lvc (put l' r0) = rt_lvc r0 \<and> kick_epoch (put l' r0) = kick_epoch r0"
  obtains g l' r0 ps' where "deliver_matching_list am r l subject payload reply check ps = Some (g, l', r0, ps')"
    "publishing am C (put l' r0) ps'" "publish_effect r ps (put l' r0) ps'"
proof -
  have inv: "router_inv r (ps_conns ps)" and pi: "pub_inv r C ps" and rm: "room r C"
    and ok: "conns_ok am (ps_conns ps)" and C: "sub_conn ` set_mset (all_subs r) \<subseteq> C"
    using pub by (auto simp: publishing_def)
  have sub: "sub_conn ` set (sl_items l) \<subseteq> C" using C by (auto simp: all)
  have "size (all_subs r) \<le> queue_cap r" using inv by (simp add: router_inv_def counts_ok_def scratch_ok_def)
  then have cap: "length (sl_items l) \<le> queue_cap r" by (simp add: all)
  have cnt: "counts_ok (A + mset (sl_items l)) (rt_sub_count r, ps_conns ps)"
    using inv by (simp add: router_inv_def all)
  obtain g l' rng n ps' where d:
      "deliver_matching_list am r l subject payload reply check ps =
         Some (g, l', r\<lparr>queue_rng := rng, rt_sub_count := n\<rparr>, ps')"
      "list_outcome (sl_items l) (sl_items l')" "sub_list_wf l'" "n \<le> rt_sub_count r"
      "counts_ok (A + mset (sl_items l')) (n, ps_conns ps')"
      "\<And>c. subs_of c (mset (sl_items l')) \<le> subs_of c (mset (sl_items l))"
      "pub_inv r C ps'" "\<And>d. conn_step (ps_conns ps d) (ps_conns ps' d)"
    by (rule deliver_matching_list_spec [OF pi rm sub ok wf cap cnt]) blast
  let ?q = "r\<lparr>queue_rng := rng, rt_sub_count := n\<rparr>"
  let ?r = "put l' ?q"
  have all': "all_subs ?r = A + mset (sl_items l')" by (rule put_all)
  have sel: "rt_sub_count ?r = n" "kick_cap ?r = kick_cap r" "close_cap ?r = close_cap r"
      "queue_cap ?r = queue_cap r" "rt_lvc ?r = rt_lvc r" "kick_epoch ?r = kick_epoch r"
    using put_sel [of l' ?q] by simp_all
  have "limits_ok (all_subs ?r)"
  proof -
    have "size (A + mset (sl_items l')) = n" using d(5) by (simp add: counts_ok_def)
    moreover have "rt_sub_count r = size (all_subs r)" using inv by (simp add: router_inv_def counts_ok_def)
    moreover have "subs_of c (A + mset (sl_items l')) \<le> subs_of c (all_subs r)" for c
      using d(6) [of c] by (simp add: all)
    ultimately show ?thesis
      using inv d(4) by (auto simp: router_inv_def limits_ok_def all' intro: order_trans)
  qed
  moreover have "scratch_ok ?r" using inv d(4) by (simp add: router_inv_def scratch_ok_def sel)
  moreover have "\<forall>c. buf_wf (conn_out (ps_conns ps' c))"
    using conns_ok_step [OF ok d(8)] by (simp add: conns_ok_def)
  ultimately have "router_inv ?r (ps_conns ps')"
    using inv put_store [OF d(2,3)] d(5) by (simp add: router_inv_def all' sel)
  moreover have "sub_conn ` set_mset (all_subs ?r) \<subseteq> C"
  proof -
    have "sub_conn y \<in> C" if "y \<in> set (sl_items l')" for y
      using list_outcome_member [OF d(2) that] sub by auto
    then show ?thesis using C by (auto simp: all all')
  qed
  ultimately have "publishing am C ?r ps'"
    using d(7) rm conns_ok_step [OF ok d(8)] by (simp add: publishing_def pub_inv_def room_def sel)
  moreover have "publish_effect r ps ?r ps'" using d(8) by (simp add: publish_effect_def sel)
  ultimately show thesis using d(1) that by blast
qed

lemma bt_outcome_ok:
  assumes ok: "bt_ok belongs t" and i: "i < length (bt_items t)"
    and keep: "\<And>k s s'. delivered_rel s s' \<Longrightarrow> belongs k s \<Longrightarrow> belongs k s'"
    and out: "list_outcome (sl_items (bk_subs (bt_items t ! i))) (sl_items l')" and wf: "sub_list_wf l'"
  shows "bt_ok belongs (bt_set_subs t i l')"
proof (rule bt_ok_set_subs [OF ok i wf])
  fix s assume "s \<in> set (sl_items l')"
  then obtain s0 where "s0 \<in> set (sl_items (bk_subs (bt_items t ! i)))" "delivered_rel s0 s"
    using list_outcome_member [OF out] by blast
  then show "belongs (bk_key (bt_items t ! i)) s"
    using keep bt_ok_bucket(2) [OF ok i] by (metis bucket_subs_def set_mset_mset)
qed


lemma mset_replace:
  fixes X A B D R :: "'a multiset"
  assumes "X + B = R + D" "R = A + B"
  shows "X = A + D"
proof -
  have "X + B = (A + D) + B" using assms by (simp add: ac_simps)
  then show ?thesis by simp
qed

lemma publish_literal_spec:
  assumes pub: "publishing am C r ps"
  obtains g r' ps' where "publish_literal am subject payload reply r ps = Some (g, r', ps')"
    "publishing am C r' ps'" "publish_effect r ps r' ps'"
proof -
  let ?t = "rt_literal r"
  have inv: "router_inv r (ps_conns ps)" using pub by (simp add: publishing_def)
  then have bt: "bt_ok lit_belongs ?t" and st: "store_ok r" by (auto simp: router_inv_def store_ok_def)
  show thesis
  proof (cases "subject \<in> set (bt_keys ?t)")
    case False
    then have "publish_literal am subject payload reply r ps = Some (True, r, ps)"
      by (simp add: publish_literal_def literal_bucket_def bt_bucket_lookup [OF bt])
    then show thesis using that pub by simp
  next
    case True
    let ?i = "position subject (bt_keys ?t)"
    let ?l = "bk_subs (bt_items ?t ! ?i)"
    let ?put = "\<lambda>l' r0. r0\<lparr>rt_literal := bt_set_subs (rt_literal r0) ?i l'\<rparr>"
    have i: "?i < length (bt_items ?t)" using position_lt [OF True] by (simp add: bt_keys_def)
    let ?A = "all_subs r - mset (sl_items ?l)"
    have part: "bt_subs (bt_set_subs ?t ?i l') + mset (sl_items ?l) = bt_subs ?t + mset (sl_items l')" for l'
      using bt_set_subs_subs [OF i, of l'] by (simp add: bucket_subs_def)
    have "mset (sl_items ?l) \<subseteq># bt_subs ?t"
      using part [of "sub_list_zero"] by (metis add.right_neutral mset.simps(1) mset_subset_eq_add_right sub_list_zero_def mb_sub_list.select_convs(1))
    then have sub: "mset (sl_items ?l) \<subseteq># all_subs r"
      by (simp add: all_subs_def subset_mset.add_increasing2)
    have all: "all_subs r = ?A + mset (sl_items ?l)" using sub by simp
    have put: "all_subs (?put l' (r\<lparr>queue_rng := rng, rt_sub_count := n\<rparr>)) = ?A + mset (sl_items l')" for l' rng n
    proof -
      have "all_subs (?put l' (r\<lparr>queue_rng := rng, rt_sub_count := n\<rparr>)) + mset (sl_items ?l) =
          all_subs r + mset (sl_items l')"
        using part [of l'] by (simp add: all_subs_def ac_simps)
      then show ?thesis using all by (rule mset_replace)
    qed
    have wf: "sub_list_wf ?l" using bt_ok_bucket(1) [OF bt i] .
    have store: "store_ok (?put l' (r\<lparr>queue_rng := rng, rt_sub_count := n\<rparr>))"
      if "list_outcome (sl_items ?l) (sl_items l')" "sub_list_wf l'" for l' rng n
      using bt_outcome_ok [OF bt i delivered_belongs(1) that] st by (simp add: store_ok_def)
    obtain g l' r0 ps' where "deliver_matching_list am r ?l subject payload reply False ps = Some (g, l', r0, ps')"
        "publishing am C (?put l' r0) ps'" "publish_effect r ps (?put l' r0) ps'"
      by (rule delivery_stage [where put = ?put, OF pub all wf put store]) (simp_all, blast)
    then show thesis
      using True by (intro that [of g "?put l' r0" ps'])
        (simp_all add: publish_literal_def literal_bucket_def bt_bucket_lookup [OF bt])
  qed
qed

lemma publish_wildcard_spec:
  assumes pub: "publishing am C r ps"
  obtains g r' ps' where "publish_wildcard am subject payload reply r ps = Some (g, r', ps')"
    "publishing am C r' ps'" "publish_effect r ps r' ps'"
proof -
  let ?t = "rt_wildcard r"
  let ?key = "first_token subject"
  have inv: "router_inv r (ps_conns ps)" using pub by (simp add: publishing_def)
  then have bt: "bt_ok wild_belongs ?t" and st: "store_ok r" by (auto simp: router_inv_def store_ok_def)
  show thesis
  proof (cases "?key \<in> set (bt_keys ?t)")
    case False
    then have "publish_wildcard am subject payload reply r ps = Some (True, r, ps)"
      by (simp add: publish_wildcard_def wildcard_bucket_def bt_bucket_lookup [OF bt])
    then show thesis using that pub by simp
  next
    case True
    let ?i = "position ?key (bt_keys ?t)"
    let ?l = "bk_subs (bt_items ?t ! ?i)"
    let ?put = "\<lambda>l' r0. r0\<lparr>rt_wildcard := bt_set_subs (rt_wildcard r0) ?i l'\<rparr>"
    have i: "?i < length (bt_items ?t)" using position_lt [OF True] by (simp add: bt_keys_def)
    let ?A = "all_subs r - mset (sl_items ?l)"
    have part: "bt_subs (bt_set_subs ?t ?i l') + mset (sl_items ?l) = bt_subs ?t + mset (sl_items l')" for l'
      using bt_set_subs_subs [OF i, of l'] by (simp add: bucket_subs_def)
    have "mset (sl_items ?l) \<subseteq># bt_subs ?t"
      using part [of "sub_list_zero"] by (metis add.right_neutral mset.simps(1) mset_subset_eq_add_right sub_list_zero_def mb_sub_list.select_convs(1))
    then have sub: "mset (sl_items ?l) \<subseteq># all_subs r"
      by (simp add: all_subs_def subset_mset.add_increasing subset_mset.add_increasing2)
    have all: "all_subs r = ?A + mset (sl_items ?l)" using sub by simp
    have put: "all_subs (?put l' (r\<lparr>queue_rng := rng, rt_sub_count := n\<rparr>)) = ?A + mset (sl_items l')" for l' rng n
    proof -
      have "all_subs (?put l' (r\<lparr>queue_rng := rng, rt_sub_count := n\<rparr>)) + mset (sl_items ?l) =
          all_subs r + mset (sl_items l')"
        using part [of l'] by (simp add: all_subs_def ac_simps)
      then show ?thesis using all by (rule mset_replace)
    qed
    have wf: "sub_list_wf ?l" using bt_ok_bucket(1) [OF bt i] .
    have store: "store_ok (?put l' (r\<lparr>queue_rng := rng, rt_sub_count := n\<rparr>))"
      if "list_outcome (sl_items ?l) (sl_items l')" "sub_list_wf l'" for l' rng n
      using bt_outcome_ok [OF bt i delivered_belongs(2) that] st by (simp add: store_ok_def)
    obtain g l' r0 ps' where "deliver_matching_list am r ?l subject payload reply True ps = Some (g, l', r0, ps')"
        "publishing am C (?put l' r0) ps'" "publish_effect r ps (?put l' r0) ps'"
      by (rule delivery_stage [where put = ?put, OF pub all wf put store]) (simp_all, blast)
    then show thesis
      using True by (intro that [of g "?put l' r0" ps'])
        (simp_all add: publish_wildcard_def wildcard_bucket_def bt_bucket_lookup [OF bt])
  qed
qed

lemma publish_global_spec:
  assumes pub: "publishing am C r ps"
  obtains g r' ps' where "publish_global am subject payload reply r ps = Some (g, r', ps')"
    "publishing am C r' ps'" "publish_effect r ps r' ps'"
proof -
  let ?l = "wildcard_global r"
  let ?A = "bt_subs (rt_literal r) + bt_subs (rt_wildcard r)"
  let ?put = "\<lambda>l' r0. r0\<lparr>wildcard_global := l'\<rparr>"
  have inv: "router_inv r (ps_conns ps)" using pub by (simp add: publishing_def)
  then have st: "store_ok r" and wf: "sub_list_wf ?l" by (auto simp: router_inv_def store_ok_def)
  have all: "all_subs r = ?A + mset (sl_items ?l)" by (simp add: all_subs_def)
  have store: "store_ok (?put l' (r\<lparr>queue_rng := rng, rt_sub_count := n\<rparr>))"
    if "list_outcome (sl_items ?l) (sl_items l')" "sub_list_wf l'" for l' rng n
  proof -
    have "glob_belongs s" if s: "s \<in> set (sl_items l')" for s
      using list_outcome_member [OF \<open>list_outcome (sl_items ?l) (sl_items l')\<close> s] st delivered_belongs(3)
      by (auto simp: store_ok_def)
    then show ?thesis using st that(2) by (simp add: store_ok_def)
  qed
  obtain g l' r0 ps' where "deliver_matching_list am r ?l subject payload reply True ps = Some (g, l', r0, ps')"
      "publishing am C (?put l' r0) ps'" "publish_effect r ps (?put l' r0) ps'"
    by (rule delivery_stage [where put = ?put, OF pub all wf _ store]) (simp_all add: all_subs_def, blast)
  then show thesis by (intro that [of g "?put l' r0" ps']) (simp_all add: publish_global_def)
qed


section \<open>A whole publish\<close>

lemma card_set_mset_le: "card (set_mset M) \<le> size M"
  by (induction M) (auto simp: card_insert_if)

lemma room_of_subs:
  assumes "router_inv r cs"
  shows "room r (sub_conn ` set_mset (all_subs r))"
proof -
  have "card (sub_conn ` set_mset (all_subs r)) \<le> card (set_mset (all_subs r))" by (intro card_image_le) simp
  also have "\<dots> \<le> size (all_subs r)" by (rule card_set_mset_le)
  finally show ?thesis using assms by (auto simp: room_def router_inv_def counts_ok_def scratch_ok_def)
qed

lemma publish_deliver_spec:
  assumes inv: "router_inv r cs" and ok: "conns_ok am cs"
  obtains g r' ps where "publish_deliver am subject payload reply r cs = Some (g, r', ps)"
    "publishing am (sub_conn ` set_mset (all_subs r)) r' ps"
    "publish_effect (r\<lparr>kick_epoch := next_epoch (kick_epoch r)\<rparr>) \<lparr>ps_conns = cs, ps_kicked = [], ps_closed = []\<rparr> r' ps"
proof -
  let ?C = "sub_conn ` set_mset (all_subs r)"
  let ?q = "r\<lparr>kick_epoch := next_epoch (kick_epoch r)\<rparr>"
  let ?ps = "\<lparr>ps_conns = cs, ps_kicked = [], ps_closed = []\<rparr>"
  have all: "all_subs ?q = all_subs r" by (simp add: all_subs_def)
  have "router_inv ?q cs"
    using inv by (simp add: router_inv_def store_ok_def scratch_ok_def all)
  moreover have "room ?q ?C" using room_of_subs [OF inv] by (simp add: room_def)
  ultimately have pub: "publishing am ?C ?q ?ps"
    using ok by (simp add: publishing_def pub_inv_def all)
  obtain g1 r1 ps1 where 1: "publish_literal am subject payload reply ?q ?ps = Some (g1, r1, ps1)"
      "publishing am ?C r1 ps1" "publish_effect ?q ?ps r1 ps1"
    by (rule publish_literal_spec [OF pub]) blast
  obtain g2 r2 ps2 where 2: "publish_wildcard am subject payload reply r1 ps1 = Some (g2, r2, ps2)"
      "publishing am ?C r2 ps2" "publish_effect r1 ps1 r2 ps2"
    by (rule publish_wildcard_spec [OF 1(2)]) blast
  obtain g3 r3 ps3 where 3: "publish_global am subject payload reply r2 ps2 = Some (g3, r3, ps3)"
      "publishing am ?C r3 ps3" "publish_effect r2 ps2 r3 ps3"
    by (rule publish_global_spec [OF 2(2)]) blast
  note def = publish_deliver_def [of am subject payload reply r cs]
  consider (a) "\<not> g1" | (b) g1 "\<not> g2" | (c) g1 g2 by blast
  then show thesis
  proof cases
    case a
    then show thesis using that [of False r1 ps1] def 1 by (simp add: Let_def)
  next
    case b
    then show thesis
      using that [of False r2 ps2] def 1 2 publish_effect_trans [OF 1(3) 2(3)] by (simp add: Let_def)
  next
    case c
    then show thesis
      using that [of g3 r3 ps3] def 1 2 3 publish_effect_trans [OF publish_effect_trans [OF 1(3) 2(3)] 3(3)]
      by (simp add: Let_def)
  qed
qed

text \<open>
  \<^bold>\<open>C18\<close> A publish is memory safe and keeps the invariant. From every state that satisfies
  the invariant the deliveries end, the unchecked writes into the kick scratch array stay
  inside it, no connection is kicked or closed twice, the invariant holds afterwards, every
  output buffer only grows at its end, and none grows past \<open>MB_MAX_PENDING\<close>.
\<close>

theorem publish_deliver_safe:
  assumes "router_inv r cs" and "conns_ok am cs"
  shows "\<exists>ok r' ps. publish_deliver am subject payload reply r cs = Some (ok, r', ps) \<and>
    router_inv r' (ps_conns ps) \<and>
    length (ps_kicked ps) \<le> kick_cap r \<and> distinct (ps_kicked ps) \<and>
    length (ps_closed ps) \<le> close_cap r \<and> distinct (ps_closed ps) \<and>
    (\<forall>c. prefix (buf_data (conn_out (cs c))) (buf_data (conn_out (ps_conns ps c))) \<and>
         buf_len (conn_out (ps_conns ps c)) \<le> max (buf_len (conn_out (cs c))) MB_MAX_PENDING)"
proof -
  let ?C = "sub_conn ` set_mset (all_subs r)"
  obtain g r' ps where p: "publish_deliver am subject payload reply r cs = Some (g, r', ps)" "publishing am ?C r' ps"
      "publish_effect (r\<lparr>kick_epoch := next_epoch (kick_epoch r)\<rparr>) \<lparr>ps_conns = cs, ps_kicked = [], ps_closed = []\<rparr> r' ps"
    by (rule publish_deliver_spec [OF assms]) blast
  have "length xs \<le> card ?C" if "distinct xs" "set xs \<subseteq> ?C" for xs
    using that by (metis card_mono distinct_card finite_imageI finite_set_mset)
  moreover have "card ?C \<le> kick_cap r" "card ?C \<le> close_cap r"
    using room_of_subs [OF assms(1)] by (simp_all add: room_def)
  moreover have "distinct (ps_kicked ps)" "set (ps_kicked ps) \<subseteq> ?C" "distinct (ps_closed ps)"
      "set (ps_closed ps) \<subseteq> ?C" "router_inv r' (ps_conns ps)"
    using p(2) by (auto simp: publishing_def pub_inv_def)
  ultimately have "length (ps_kicked ps) \<le> kick_cap r" "length (ps_closed ps) \<le> close_cap r"
    by (meson order_trans)+
  moreover have "\<forall>c. prefix (buf_data (conn_out (cs c))) (buf_data (conn_out (ps_conns ps c))) \<and>
      buf_len (conn_out (ps_conns ps c)) \<le> max (buf_len (conn_out (cs c))) MB_MAX_PENDING"
    using p(3) by (simp add: publish_effect_def conn_step_def)
  ultimately show ?thesis
    using p(1) \<open>router_inv r' (ps_conns ps)\<close> \<open>distinct (ps_kicked ps)\<close> \<open>distinct (ps_closed ps)\<close> by blast
qed

lemma fresh_conns_ok: "conns_ok am (\<lambda>_. fresh_conn)"
  using io_ok_plain [of fresh_conn am] by (simp add: conns_ok_def fresh_conn_def mb_buf_zero_def buf_wf_def)

lemma one_sub_conns_ok: "conns_ok am (snd one_sub_state)"
proof -
  have "io_ok am fresh_conn" "io_ok am (fresh_conn\<lparr>conn_sub_count := 1\<rparr>)"
    by (rule io_ok_plain; simp add: fresh_conn_def)+
  then show ?thesis by (simp add: one_sub_state(3) conns_ok_def fresh_conn_def mb_buf_zero_def buf_wf_def)
qed

theorem publish_deliver_safe_witness:
  "\<exists>ok r' ps. publish_deliver (\<lambda>_. True) ''a.b'' ''hi'' [] (fst one_sub_state) (snd one_sub_state) = Some (ok, r', ps)
     \<and> router_inv r' (ps_conns ps)"
  using publish_deliver_safe [OF one_sub_state(1) one_sub_conns_ok, of "\<lambda>_. True" "''a.b''" "''hi''" "[]"] by blast

section \<open>The index finds every matching subscription\<close>

definition routed_subs :: "allocator \<Rightarrow> mb_router \<Rightarrow> bytes \<Rightarrow> mb_subscription list option" where
  "routed_subs am r subject =
     do { (b, _) \<leftarrow> literal_bucket am r subject False;
          (w, _) \<leftarrow> wildcard_bucket am r (first_token subject) False;
          let matching = filter (\<lambda>s. subject_matches (sub_subject s) subject);
          Some ((case b of None \<Rightarrow> [] | Some i \<Rightarrow> sl_items (bk_subs (bt_items (rt_literal r) ! i)))
            @ matching (case w of None \<Rightarrow> [] | Some i \<Rightarrow> sl_items (bk_subs (bt_items (rt_wildcard r) ! i)))
            @ matching (sl_items (wildcard_global r))) }"

lemma literal_part:
  assumes ok: "bt_ok lit_belongs t" and val: "mb_proto_subject_valid subject False"
  shows "filter_mset (\<lambda>s. subject_matches (sub_subject s) subject) (bt_subs t) =
    (if subject \<in> set (bt_keys t) then bucket_subs (bt_items t ! position subject (bt_keys t)) else {#})"
proof -
  have sep: "k = subject" if "lit_belongs k s" "subject_matches (sub_subject s) subject" for k s
    using that literal_matches_iff [of "sub_subject s" True subject False] val
    by (auto simp: lit_belongs_def sub_valid_def)
  have "filter_mset (\<lambda>s. subject_matches (sub_subject s) subject) (bucket_subs (bt_items t ! position subject (bt_keys t)))
      = bucket_subs (bt_items t ! position subject (bt_keys t))" if "subject \<in> set (bt_keys t)"
  proof -
    let ?i = "position subject (bt_keys t)"
    have i: "?i < length (bt_items t)" "bk_key (bt_items t ! ?i) = subject"
      using position_lt [OF that] nth_position [OF that] by (simp_all add: bt_keys_def)
    have "subject_matches (sub_subject s) subject" if "s \<in># bucket_subs (bt_items t ! ?i)" for s
      using bt_ok_bucket(2) [OF ok i(1) that] i(2) val literal_matches_iff [of subject True subject False]
      by (auto simp: lit_belongs_def sub_valid_def)
    then show ?thesis by (simp add: filter_mset_eq_conv)
  qed
  then show ?thesis
    using bt_subs_of_key [OF ok, of "\<lambda>s. subject_matches (sub_subject s) subject" subject] sep by auto
qed

lemma wildcard_part:
  assumes ok: "bt_ok wild_belongs t" and val: "mb_proto_subject_valid subject False"
  shows "filter_mset (\<lambda>s. subject_matches (sub_subject s) subject) (bt_subs t) =
    (if first_token subject \<in> set (bt_keys t)
     then filter_mset (\<lambda>s. subject_matches (sub_subject s) subject)
       (bucket_subs (bt_items t ! position (first_token subject) (bt_keys t))) else {#})"
proof (rule bt_subs_of_key [OF ok])
  fix k s assume "wild_belongs k s" "subject_matches (sub_subject s) subject"
  then show "k = first_token subject"
    using matches_first_token [OF _ val, of "sub_subject s" True] by (auto simp: wild_belongs_def sub_valid_def)
qed

lemma routed_subs_spec:
  assumes inv: "router_inv r cs" and val: "mb_proto_subject_valid subject False"
  obtains xs where "routed_subs am r subject = Some xs"
    "mset xs = filter_mset (\<lambda>s. subject_matches (sub_subject s) subject) (all_subs r)"
proof -
  have bt: "bt_ok lit_belongs (rt_literal r)" "bt_ok wild_belongs (rt_wildcard r)"
    using inv by (auto simp: router_inv_def store_ok_def)
  show thesis
    by (rule that, simp add: routed_subs_def literal_bucket_def wildcard_bucket_def
          bt_bucket_lookup [OF bt(1)] bt_bucket_lookup [OF bt(2)] Let_def)
       (simp add: all_subs_def literal_part [OF bt(1) val] wildcard_part [OF bt(2) val] bucket_subs_def)
qed

text \<open>
  \<^bold>\<open>C10\<close> Routing is complete and exact. For every valid subject, the subscriptions the
  router consults (the literal bucket of the subject, and of the wildcard bucket of its
  first token and the global list those that pass the filter check) are exactly the
  subscriptions of the whole router whose filter matches the subject, each as often as it
  is subscribed; the hash lookups always end.
\<close>

theorem routing_complete:
  assumes "router_inv r cs" "mb_proto_subject_valid subject False"
  shows "\<exists>xs. routed_subs am r subject = Some xs \<and>
    mset xs = filter_mset (\<lambda>s. subject_matches (sub_subject s) subject) (all_subs r)"
  using routed_subs_spec [OF assms, of am] by blast

theorem routing_complete_witness:
  "\<exists>xs. routed_subs (\<lambda>_. True) (fst one_sub_state) ''a.b'' = Some xs \<and> mset xs = {#requested_sub 1 ''a.*'' [] ''7''#}"
proof -
  have "mb_proto_subject_valid ''a.b'' False" "subject_matches ''a.*'' ''a.b''" by code_simp+
  moreover have "sub_subject (requested_sub 1 ''a.*'' [] ''7'') = ''a.*''" by code_simp
  ultimately show ?thesis
    using routing_complete [OF one_sub_state(1), of "''a.b''" "\<lambda>_. True"] one_sub_state(2) by auto
qed

end
