(* ===== verification/Router_Delivery.thy ===== *)
theory Router_Delivery
  imports Router_Publish_Correct
begin

text \<open>
  End to end: what a successful publish puts on the wire of a connection, and that the
  whole operation, callbacks included, keeps the invariant.
\<close>

section \<open>Frames\<close>

definition sub_frame :: "bytes \<Rightarrow> bytes \<Rightarrow> bytes \<Rightarrow> mb_subscription \<Rightarrow> bytes" where
  "sub_frame subject payload reply_to s = msg_frame (msg_prefix s @ subject) (sub_sid s) reply_to payload"

lemma sub_frame_not_Nil: "sub_frame subject payload reply_to s \<noteq> []"
  by (simp add: sub_frame_def msg_frame_def)

text \<open>The subscriptions of connection \<open>c\<close> that a delivery of \<open>subject\<close> is for.\<close>

definition wanted :: "mb_router \<Rightarrow> conn_id \<Rightarrow> bytes \<Rightarrow> bool \<Rightarrow> mb_subscription \<Rightarrow> bool" where
  "wanted r c subject check s \<longleftrightarrow>
     sub_conn s = c \<and> (check \<longrightarrow> subject_matches (sub_subject s) subject) \<and>
     (sub_is_lvc s \<longrightarrow> lvc_subject_enabled (rt_lvc r) subject)"

lemma deliverable_wanted:
  "\<not> conn_closed (cs c) \<Longrightarrow> sub_conn s = c \<Longrightarrow> sub_deliverable r cs s subject check \<longleftrightarrow> wanted r c subject check s"
  by (auto simp: sub_deliverable_def wanted_def)

abbreviation plain_conn :: "mb_router_conn \<Rightarrow> bool" where
  "plain_conn conn \<equiv> msg_len_fn conn = None \<and> write_msg_fn conn = None"

lemma deliver_to_sub_other:
  assumes "deliver_to_sub am r s subject payload reply ps = Some (g, s', ps')" "sub_conn s \<noteq> c"
  shows "ps_conns ps' c = ps_conns ps c"
  using assms
  by (auto simp: deliver_to_sub_def queue_conn_close_def upd_conn_def Let_def
      split: option.splits if_splits prod.splits)

lemma deliver_to_sub_plain:
  assumes d: "deliver_to_sub am r s subject payload reply ps = Some (True, s', ps')"
    and plain: "plain_conn (ps_conns ps (sub_conn s))" and wf: "buf_wf (conn_out (ps_conns ps (sub_conn s)))"
  shows "conn_closed (ps_conns ps' (sub_conn s)) \<or>
    buf_data (conn_out (ps_conns ps' (sub_conn s))) =
      buf_data (conn_out (ps_conns ps (sub_conn s))) @ sub_frame subject payload reply s"
proof -
  let ?conn = "ps_conns ps (sub_conn s)"
  let ?f = "sub_frame subject payload reply s"
  have m: "measure_msg ?conn (msg_prefix s) subject (sub_sid s) reply payload =
      (if length ?f \<le> SIZE_MAX then Some (length ?f) else None)"
    using plain by (simp add: measure_msg_def frame_len_eq sub_frame_def Let_def)
  obtain w b where wr: "write_msg am ?conn (msg_prefix s) subject (sub_sid s) reply payload = (w, b)" by fastforce
  have "buf_data b = (if w then buf_data (conn_out ?conn) @ ?f else buf_data (conn_out ?conn))"
    using mb_write_msg_atomic [OF wf, of "msg_prefix s" subject "sub_sid s" reply payload am] wr plain
    by (simp add: write_msg_def sub_frame_def Let_def)
  then show ?thesis
    using d m wr sub_frame_not_Nil [of subject payload reply s]
    by (auto simp: deliver_to_sub_def queue_conn_close_def upd_conn_def Let_def split: if_splits)
qed

text \<open>
  The delivery loop: when it succeeds and the connection is still open, the connection got
  one frame per wanted subscription that is selected, in the order of the list.
\<close>

lemma deliver_loop_frames:
  assumes "pub_inv r C ps" "room r C" "sub_conn ` set subs \<subseteq> C" "conns_ok am (ps_conns ps)"
    and "deliver_loop am r subject payload reply check groups i subs ps = Some (True, subs', ps')"
    and "plain_conn (ps_conns ps c)" "\<not> conn_closed (ps_conns ps' c)"
    and "\<forall>s \<in> set subs. wanted r c subject check s \<longrightarrow> sub_queue s = []"
  shows "buf_data (conn_out (ps_conns ps' c)) = buf_data (conn_out (ps_conns ps c)) @
    concat (map (sub_frame subject payload reply) (filter (wanted r c subject check) subs))"
  using assms
proof (induction subs arbitrary: i ps subs')
  case Nil
  then show ?case by simp
next
  case (Cons s subs)
  have sub: "sub_conn s \<in> C" "sub_conn ` set subs \<subseteq> C" using Cons.prems(3) by auto
  have rest: "\<forall>s \<in> set subs. wanted r c subject check s \<longrightarrow> sub_queue s = []" using Cons.prems(8) by simp
  obtain g0 subs0 ps0 where all: "deliver_loop am r subject payload reply check groups i (s # subs) ps = Some (g0, subs0, ps0)"
      "\<And>d. conn_step (ps_conns ps d) (ps_conns ps0 d)"
    by (rule deliver_loop_spec [OF Cons.prems(1-4)]) blast
  then have "conn_step (ps_conns ps c) (ps_conns ps' c)" using Cons.prems(5) by simp
  then have opn: "\<not> conn_closed (ps_conns ps c)" using Cons.prems(7) by (auto simp: conn_step_def)
  show ?case
  proof (cases "\<not> sub_deliverable r (ps_conns ps) s subject check \<or> \<not> queue_selected groups s i")
    case True
    have "\<not> wanted r c subject check s"
    proof
      assume w: "wanted r c subject check s"
      then have "sub_deliverable r (ps_conns ps) s subject check"
        using deliverable_wanted [of "ps_conns ps" c s] opn by (simp add: wanted_def)
      moreover have "queue_selected groups s i" using w Cons.prems(8) by (simp add: queue_selected_def)
      ultimately show False using True by simp
    qed
    moreover obtain subs1 where
      "deliver_loop am r subject payload reply check groups (i + 1) subs ps = Some (True, subs1, ps')"
      using Cons.prems(5) True by (auto simp: bind_eq_Some_conv)
    ultimately show ?thesis
      using Cons.IH [OF Cons.prems(1,2) sub(2) Cons.prems(4) _ Cons.prems(6,7) rest, of "i + 1" subs1] by simp
  next
    case False
    then have opn_s: "\<not> conn_closed (ps_conns ps (sub_conn s))" by (auto simp: sub_deliverable_def)
    obtain s1 ps1 subs1 where d: "deliver_to_sub am r s subject payload reply ps = Some (True, s1, ps1)"
        "deliver_loop am r subject payload reply check groups (i + 1) subs ps1 = Some (True, subs1, ps')"
      using Cons.prems(5) False by (auto simp: bind_eq_Some_conv split: if_splits)
    obtain g2 s2 ps2 where "deliver_to_sub am r s subject payload reply ps = Some (g2, s2, ps2)"
        "pub_inv r C ps2" "\<And>d. conn_step (ps_conns ps d) (ps_conns ps2 d)"
      by (rule deliver_to_sub_spec [OF Cons.prems(1,2) sub(1) Cons.prems(4) opn_s]) blast
    then have ps1: "pub_inv r C ps1" "\<And>d. conn_step (ps_conns ps d) (ps_conns ps1 d)" using d(1) by simp_all
    have ok1: "conns_ok am (ps_conns ps1)" using conns_ok_step [OF Cons.prems(4) ps1(2)] .
    have plain1: "plain_conn (ps_conns ps1 c)" using Cons.prems(6) ps1(2) [of c] by (simp add: conn_step_def)
    have tail: "buf_data (conn_out (ps_conns ps' c)) = buf_data (conn_out (ps_conns ps1 c)) @
        concat (map (sub_frame subject payload reply) (filter (wanted r c subject check) subs))"
      using Cons.IH [OF ps1(1) Cons.prems(2) sub(2) ok1 d(2) plain1 Cons.prems(7) rest] .
    show ?thesis
    proof (cases "sub_conn s = c")
      case True
      then have w: "wanted r c subject check s" using False deliverable_wanted [of "ps_conns ps" c s] opn by blast
      obtain g3 subs3 ps3 where "deliver_loop am r subject payload reply check groups (i + 1) subs ps1 = Some (g3, subs3, ps3)"
          "\<And>d. conn_step (ps_conns ps1 d) (ps_conns ps3 d)"
        by (rule deliver_loop_spec [OF ps1(1) Cons.prems(2) sub(2) ok1]) blast
      then have "\<not> conn_closed (ps_conns ps1 c)" using d(2) Cons.prems(7) by (auto simp: conn_step_def)
      then show ?thesis
        using deliver_to_sub_plain [OF d(1)] Cons.prems(4,6) True tail w by (simp add: conns_ok_def)
    next
      case ne: False
      then have "\<not> wanted r c subject check s" by (simp add: wanted_def)
      then show ?thesis using tail deliver_to_sub_other [OF d(1) ne] by simp
    qed
  qed
qed

text \<open>The sweep touches nothing of a connection but its count.\<close>

lemma sweep_loop_conns:
  "sweep_loop decide i l st = (l', st') \<Longrightarrow>
   conn_out (snd st' c) = conn_out (snd st c) \<and> conn_closed (snd st' c) = conn_closed (snd st c)"
proof (induction decide i l st arbitrary: l' st' rule: sweep_loop.induct)
  case (1 decide i l st)
  have n: "conn_out (snd (note_sub_removed s st) c) = conn_out (snd st c)"
      "conn_closed (snd (note_sub_removed s st) c) = conn_closed (snd st c)" for s
    by (simp_all add: note_sub_removed_def Let_def split: prod.splits)
  show ?case
  proof (cases "length (sl_items l) \<le> i")
    case True
    then show ?thesis using "1.prems" by (simp add: sweep_loop.simps [of decide i l])
  next
    case False
    then show ?thesis using "1.prems" "1.IH" n by (cases "decide (sl_items l ! i)") (auto simp: sweep_loop.simps [of decide i l])
  qed
qed

text \<open>The same for one whole list.\<close>

lemma deliver_matching_list_frames:
  assumes pub: "publishing am C r ps" and C: "sub_conn ` set (sl_items l) \<subseteq> C"
    and d: "deliver_matching_list am r l subject payload reply check ps = Some (True, l', r', ps')"
    and c: "plain_conn (ps_conns ps c)" "\<not> conn_closed (ps_conns ps' c)"
    and noq: "\<forall>s \<in> set (sl_items l). wanted r c subject check s \<longrightarrow> sub_queue s = []"
  shows "buf_data (conn_out (ps_conns ps' c)) = buf_data (conn_out (ps_conns ps c)) @
      concat (map (sub_frame subject payload reply) (filter (wanted r c subject check) (sl_items l)))"
    and "rt_literal r' = rt_literal r \<and> rt_wildcard r' = rt_wildcard r \<and> wildcard_global r' = wildcard_global r \<and>
      rt_lvc r' = rt_lvc r"
proof -
  obtain groups rng where col: "collect_loop r (ps_conns ps) subject check 0 (sl_items l) [] (queue_rng r) = (True, groups, rng)"
    using d by (auto simp: deliver_matching_list_def split: prod.splits bool.splits)
  obtain g subs ps1 where dl: "deliver_loop am r subject payload reply check groups 0 (sl_items l) ps = Some (g, subs, ps1)"
  proof (cases "deliver_loop am r subject payload reply check groups 0 (sl_items l) ps")
    case None
    then show thesis using d col by (simp add: deliver_matching_list_def)
  next
    case (Some x)
    then show thesis using that by (cases x) auto
  qed
  obtain l1 n cs where sw: "remove_delivered_max (l\<lparr>sl_items := subs\<rparr>) (rt_sub_count r, ps_conns ps1) = (l1, n, cs)"
    by (metis prod_cases3)
  have eqs: "g = True" "l1 = l'" "r' = r\<lparr>queue_rng := rng, rt_sub_count := n\<rparr>" "ps' = ps1\<lparr>ps_conns := cs\<rparr>"
    using d col dl sw by (auto simp: deliver_matching_list_def)
  then have del: "deliver_loop am r subject payload reply check groups 0 (sl_items l) ps = Some (True, subs, ps1)"
    and sw': "remove_delivered_max (l\<lparr>sl_items := subs\<rparr>) (rt_sub_count r, ps_conns ps1) = (l', n, cs)"
      "r' = r\<lparr>queue_rng := rng, rt_sub_count := n\<rparr>" "ps' = ps1\<lparr>ps_conns := cs\<rparr>"
    using dl sw by simp_all
  then have same: "conn_out (ps_conns ps' c) = conn_out (ps_conns ps1 c)" "conn_closed (ps_conns ps' c) = conn_closed (ps_conns ps1 c)"
    using sweep_loop_conns [of _ 0 "l\<lparr>sl_items := subs\<rparr>" "(rt_sub_count r, ps_conns ps1)" l' "(n, cs)" c]
    by (simp_all add: remove_delivered_max_def)
  have "pub_inv r C ps" "room r C" "conns_ok am (ps_conns ps)" using pub by (simp_all add: publishing_def)
  then show "buf_data (conn_out (ps_conns ps' c)) = buf_data (conn_out (ps_conns ps c)) @
      concat (map (sub_frame subject payload reply) (filter (wanted r c subject check) (sl_items l)))"
    using deliver_loop_frames [OF _ _ C _ del c(1) _ noq] c(2) same by simp
  show "rt_literal r' = rt_literal r \<and> rt_wildcard r' = rt_wildcard r \<and> wildcard_global r' = wildcard_global r \<and>
      rt_lvc r' = rt_lvc r" by (simp add: sw'(2))
qed


text \<open>The list a bucket table holds for a key, and what each stage of a publish sends from it.\<close>

definition list_of :: "bucket_table \<Rightarrow> bytes \<Rightarrow> mb_subscription list" where
  "list_of t key = (if key \<in> set (bt_keys t) then sl_items (bk_subs (bt_items t ! position key (bt_keys t))) else [])"

lemma list_of_subset:
  assumes "s \<in> set (list_of t key)"
  shows "s \<in># bt_subs t"
proof -
  have i: "key \<in> set (bt_keys t)" using assms by (auto simp: list_of_def split: if_splits)
  have lt: "position key (bt_keys t) < length (bt_items t)" using position_lt [OF i] by (simp add: bt_keys_def)
  have "bt_subs (bt_set_subs t (position key (bt_keys t)) sub_list_zero) + mset (list_of t key) = bt_subs t"
    using bt_set_subs_subs [OF lt, of sub_list_zero] i by (simp add: bucket_subs_def list_of_def sub_list_zero_def)
  then show ?thesis using assms by (metis set_mset_mset union_iff)
qed

lemma publish_literal_frames:
  assumes pub: "publishing am C r ps"
    and d: "publish_literal am subject payload reply r ps = Some (True, r', ps')"
    and c: "plain_conn (ps_conns ps c)" "\<not> conn_closed (ps_conns ps' c)"
    and noq: "\<forall>s \<in># all_subs r. wanted r c subject False s \<longrightarrow> s \<in> set (list_of (rt_literal r) subject) \<longrightarrow> sub_queue s = []"
  shows "buf_data (conn_out (ps_conns ps' c)) = buf_data (conn_out (ps_conns ps c)) @
      concat (map (sub_frame subject payload reply) (filter (wanted r c subject False) (list_of (rt_literal r) subject)))"
    and "rt_wildcard r' = rt_wildcard r \<and> wildcard_global r' = wildcard_global r \<and> rt_lvc r' = rt_lvc r"
proof -
  have bt: "bt_ok lit_belongs (rt_literal r)" using pub by (simp add: publishing_def router_inv_def store_ok_def)
  let ?l = "list_of (rt_literal r) subject"
  have in_all: "s \<in># all_subs r" if "s \<in> set ?l" for s using list_of_subset [OF that] by (simp add: all_subs_def)
  have C: "sub_conn ` set ?l \<subseteq> C" using in_all pub by (auto simp: publishing_def)
  have q: "\<forall>s \<in> set ?l. wanted r c subject False s \<longrightarrow> sub_queue s = []" using noq in_all by blast
  note def = publish_literal_def literal_bucket_def bt_bucket_lookup [OF bt]
  have "buf_data (conn_out (ps_conns ps' c)) = buf_data (conn_out (ps_conns ps c)) @
      concat (map (sub_frame subject payload reply) (filter (wanted r c subject False) ?l)) \<and>
     rt_wildcard r' = rt_wildcard r \<and> wildcard_global r' = wildcard_global r \<and> rt_lvc r' = rt_lvc r"
  proof (cases "subject \<in> set (bt_keys (rt_literal r))")
    case False
    then show ?thesis using d by (simp add: def list_of_def)
  next
    case True
    let ?bl = "bk_subs (bt_items (rt_literal r) ! position subject (bt_keys (rt_literal r)))"
    have l: "?l = sl_items ?bl" using True by (simp add: list_of_def)
    obtain l' r1 where m: "deliver_matching_list am r ?bl subject payload reply False ps = Some (True, l', r1, ps')"
        "r' = r1\<lparr>rt_literal := bt_set_subs (rt_literal r1) (position subject (bt_keys (rt_literal r))) l'\<rparr>"
      using d True by (auto simp: def bind_eq_Some_conv)
    show ?thesis
      using deliver_matching_list_frames [OF pub C [unfolded l] m(1) c q [unfolded l]] m(2) l by simp
  qed
  then show "buf_data (conn_out (ps_conns ps' c)) = buf_data (conn_out (ps_conns ps c)) @
      concat (map (sub_frame subject payload reply) (filter (wanted r c subject False) ?l))"
    and "rt_wildcard r' = rt_wildcard r \<and> wildcard_global r' = wildcard_global r \<and> rt_lvc r' = rt_lvc r" by blast+
qed

lemma publish_wildcard_frames:
  assumes pub: "publishing am C r ps"
    and d: "publish_wildcard am subject payload reply r ps = Some (True, r', ps')"
    and c: "plain_conn (ps_conns ps c)" "\<not> conn_closed (ps_conns ps' c)"
    and noq: "\<forall>s \<in> set (list_of (rt_wildcard r) (first_token subject)). wanted r c subject True s \<longrightarrow> sub_queue s = []"
  shows "buf_data (conn_out (ps_conns ps' c)) = buf_data (conn_out (ps_conns ps c)) @
      concat (map (sub_frame subject payload reply) (filter (wanted r c subject True) (list_of (rt_wildcard r) (first_token subject))))"
    and "wildcard_global r' = wildcard_global r \<and> rt_lvc r' = rt_lvc r"
proof -
  have bt: "bt_ok wild_belongs (rt_wildcard r)" using pub by (simp add: publishing_def router_inv_def store_ok_def)
  let ?key = "first_token subject"
  let ?l = "list_of (rt_wildcard r) ?key"
  have in_all: "s \<in># all_subs r" if "s \<in> set ?l" for s using list_of_subset [OF that] by (simp add: all_subs_def)
  have C: "sub_conn ` set ?l \<subseteq> C" using in_all pub by (auto simp: publishing_def)
  note def = publish_wildcard_def wildcard_bucket_def bt_bucket_lookup [OF bt]
  have "buf_data (conn_out (ps_conns ps' c)) = buf_data (conn_out (ps_conns ps c)) @
      concat (map (sub_frame subject payload reply) (filter (wanted r c subject True) ?l)) \<and>
     wildcard_global r' = wildcard_global r \<and> rt_lvc r' = rt_lvc r"
  proof (cases "?key \<in> set (bt_keys (rt_wildcard r))")
    case False
    then show ?thesis using d by (simp add: def list_of_def)
  next
    case True
    let ?bl = "bk_subs (bt_items (rt_wildcard r) ! position ?key (bt_keys (rt_wildcard r)))"
    have l: "?l = sl_items ?bl" using True by (simp add: list_of_def)
    obtain l' r1 where m: "deliver_matching_list am r ?bl subject payload reply True ps = Some (True, l', r1, ps')"
        "r' = r1\<lparr>rt_wildcard := bt_set_subs (rt_wildcard r1) (position ?key (bt_keys (rt_wildcard r))) l'\<rparr>"
      using d True by (auto simp: def bind_eq_Some_conv)
    show ?thesis
      using deliver_matching_list_frames [OF pub C [unfolded l] m(1) c noq [unfolded l]] m(2) l by simp
  qed
  then show "buf_data (conn_out (ps_conns ps' c)) = buf_data (conn_out (ps_conns ps c)) @
      concat (map (sub_frame subject payload reply) (filter (wanted r c subject True) ?l))"
    and "wildcard_global r' = wildcard_global r \<and> rt_lvc r' = rt_lvc r" by blast+
qed

lemma publish_global_frames:
  assumes pub: "publishing am C r ps"
    and d: "publish_global am subject payload reply r ps = Some (True, r', ps')"
    and c: "plain_conn (ps_conns ps c)" "\<not> conn_closed (ps_conns ps' c)"
    and noq: "\<forall>s \<in> set (sl_items (wildcard_global r)). wanted r c subject True s \<longrightarrow> sub_queue s = []"
  shows "buf_data (conn_out (ps_conns ps' c)) = buf_data (conn_out (ps_conns ps c)) @
      concat (map (sub_frame subject payload reply) (filter (wanted r c subject True) (sl_items (wildcard_global r))))"
proof -
  obtain l' r1 where m: "deliver_matching_list am r (wildcard_global r) subject payload reply True ps = Some (True, l', r1, ps')"
    using d by (auto simp: publish_global_def bind_eq_Some_conv)
  have C: "sub_conn ` set (sl_items (wildcard_global r)) \<subseteq> C"
    using pub by (auto simp: publishing_def all_subs_def)
  show ?thesis using deliver_matching_list_frames(1) [OF pub C m c noq] .
qed


section \<open>A whole delivery\<close>

lemma wanted_cong: "rt_lvc r' = rt_lvc r \<Longrightarrow> wanted r' = wanted r"
  by (intro ext) (simp add: wanted_def)

lemma literal_wanted:
  assumes "bt_ok lit_belongs (rt_literal r)" "mb_proto_subject_valid subject False"
    and s: "s \<in> set (list_of (rt_literal r) subject)"
  shows "wanted r c subject False s \<longleftrightarrow> wanted r c subject True s"
proof -
  have "mset (list_of (rt_literal r) subject) =
      filter_mset (\<lambda>s. subject_matches (sub_subject s) subject) (bt_subs (rt_literal r))"
    using literal_part [OF assms(1,2)] by (simp add: list_of_def bucket_subs_def)
  then have "subject_matches (sub_subject s) subject" using s by (metis mem_Collect_eq set_mset_filter set_mset_mset)
  then show ?thesis by (simp add: wanted_def)
qed

text \<open>The wanted subscriptions, in the order in which the three stages visit them.\<close>

definition wanted_subs :: "mb_router \<Rightarrow> conn_id \<Rightarrow> bytes \<Rightarrow> mb_subscription list" where
  "wanted_subs r c subject = filter (wanted r c subject True)
     (list_of (rt_literal r) subject @ list_of (rt_wildcard r) (first_token subject) @ sl_items (wildcard_global r))"

lemma mset_wanted_subs:
  assumes inv: "router_inv r cs" and val: "mb_proto_subject_valid subject False"
  shows "mset (wanted_subs r c subject) = filter_mset (wanted r c subject True) (all_subs r)"
proof -
  let ?M = "\<lambda>s. subject_matches (sub_subject s) subject"
  have bt: "bt_ok lit_belongs (rt_literal r)" "bt_ok wild_belongs (rt_wildcard r)"
    using inv by (auto simp: router_inv_def store_ok_def)
  have W: "filter_mset (wanted r c subject True) A = filter_mset (wanted r c subject True) (filter_mset ?M A)" for A
    by (auto simp: filter_filter_mset wanted_def intro!: filter_mset_cong)
  have "filter_mset (wanted r c subject True) (bt_subs (rt_literal r)) =
      filter_mset (wanted r c subject True) (mset (list_of (rt_literal r) subject))"
    using literal_part [OF bt(1) val] W [of "bt_subs (rt_literal r)"] by (simp add: list_of_def bucket_subs_def)
  moreover have "filter_mset (wanted r c subject True) (bt_subs (rt_wildcard r)) =
      filter_mset (wanted r c subject True) (mset (list_of (rt_wildcard r) (first_token subject)))"
    using wildcard_part [OF bt(2) val] W [of "bt_subs (rt_wildcard r)"]
      W [of "mset (list_of (rt_wildcard r) (first_token subject))"]
    by (simp add: list_of_def bucket_subs_def)
  ultimately show ?thesis by (simp add: wanted_subs_def all_subs_def)
qed

lemma publish_deliver_frames:
  assumes inv: "router_inv r cs" and ok: "conns_ok am cs" and val: "mb_proto_subject_valid subject False"
    and d: "publish_deliver am subject payload reply r cs = Some (True, r', ps)"
    and c: "plain_conn (cs c)" "\<not> conn_closed (ps_conns ps c)"
    and noq: "\<forall>s \<in># all_subs r. wanted r c subject True s \<longrightarrow> sub_queue s = []"
  shows "buf_data (conn_out (ps_conns ps c)) =
    buf_data (conn_out (cs c)) @ concat (map (sub_frame subject payload reply) (wanted_subs r c subject))"
proof -
  let ?C = "sub_conn ` set_mset (all_subs r)"
  let ?q = "r\<lparr>kick_epoch := next_epoch (kick_epoch r)\<rparr>"
  let ?ps = "\<lparr>ps_conns = cs, ps_kicked = [], ps_closed = []\<rparr>"
  have all: "all_subs ?q = all_subs r" by (simp add: all_subs_def)
  have pub: "publishing am ?C ?q ?ps"
    using inv ok room_of_subs [OF inv]
    by (simp add: publishing_def pub_inv_def room_def router_inv_def store_ok_def scratch_ok_def all)
  have wq: "wanted ?q = wanted r" by (rule wanted_cong) simp
  have bt: "bt_ok lit_belongs (rt_literal ?q)" using inv by (simp add: router_inv_def store_ok_def)
  obtain g1 r1 ps1 where 1: "publish_literal am subject payload reply ?q ?ps = Some (g1, r1, ps1)"
      "publishing am ?C r1 ps1" "publish_effect ?q ?ps r1 ps1"
    by (rule publish_literal_spec [OF pub]) blast
  obtain g2 r2 ps2 where 2: "publish_wildcard am subject payload reply r1 ps1 = Some (g2, r2, ps2)"
      "publishing am ?C r2 ps2" "publish_effect r1 ps1 r2 ps2"
    by (rule publish_wildcard_spec [OF 1(2)]) blast
  obtain g3 r3 ps3 where 3: "publish_global am subject payload reply r2 ps2 = Some (g3, r3, ps3)"
      "publish_effect r2 ps2 r3 ps3"
    by (rule publish_global_spec [OF 2(2)]) blast
  note def = publish_deliver_def [of am subject payload reply r cs]
  have g: "g1" "g2" "g3" "r3 = r'" "ps3 = ps"
    using d def 1(1) 2(1) 3(1) by (cases g1; cases g2; simp add: Let_def)+
  have op2: "\<not> conn_closed (ps_conns ps2 c)" using 3(2) c(2) g by (auto simp: publish_effect_def conn_step_def)
  have op1: "\<not> conn_closed (ps_conns ps1 c)" using 2(3) op2 by (auto simp: publish_effect_def conn_step_def)
  have pl1: "plain_conn (ps_conns ps1 c)" using 1(3) c(1) by (simp add: publish_effect_def conn_step_def)
  have pl2: "plain_conn (ps_conns ps2 c)" using 2(3) pl1 by (simp add: publish_effect_def conn_step_def)
  have lit: "filter (wanted r c subject False) (list_of (rt_literal r) subject) =
      filter (wanted r c subject True) (list_of (rt_literal r) subject)"
    using literal_wanted [OF _ val, of r] inv by (auto simp: router_inv_def store_ok_def intro: filter_cong)
  have q1: "\<forall>s \<in># all_subs ?q. wanted ?q c subject False s \<longrightarrow> s \<in> set (list_of (rt_literal ?q) subject) \<longrightarrow> sub_queue s = []"
    using noq literal_wanted [OF bt val] wq by (auto simp: all)
  note L = publish_literal_frames [OF pub 1(1) [unfolded g(1) [THEN eqTrueI]] _ op1 q1, simplified wq]
  have l: "buf_data (conn_out (ps_conns ps1 c)) = buf_data (conn_out (cs c)) @
      concat (map (sub_frame subject payload reply) (filter (wanted r c subject True) (list_of (rt_literal r) subject)))"
    "rt_wildcard r1 = rt_wildcard r" "wildcard_global r1 = wildcard_global r" "rt_lvc r1 = rt_lvc r"
    using L c(1) lit by simp_all
  have w1: "wanted r1 = wanted r" by (rule wanted_cong) (rule l)
  have q2: "\<forall>s \<in> set (list_of (rt_wildcard r1) (first_token subject)). wanted r1 c subject True s \<longrightarrow> sub_queue s = []"
    using noq list_of_subset by (fastforce simp: all_subs_def l w1)
  note W = publish_wildcard_frames [OF 1(2) 2(1) [unfolded g(2) [THEN eqTrueI]] pl1 op2 q2, unfolded l(2) w1]
  have w2: "wanted r2 = wanted r" using W(2) l(4) by (intro wanted_cong) simp
  have wg: "wildcard_global r2 = wildcard_global r" using W(2) l(3) by simp
  have q3: "\<forall>s \<in> set (sl_items (wildcard_global r2)). wanted r2 c subject True s \<longrightarrow> sub_queue s = []"
    using noq by (auto simp: all_subs_def w2 wg)
  have "\<not> conn_closed (ps_conns ps3 c)" using c(2) g by simp
  note G = publish_global_frames [OF 2(2) 3(1) [unfolded g(3) [THEN eqTrueI]] pl2 this q3, unfolded wg w2]
  show ?thesis using G W(1) l(1) g(5) by (simp add: wanted_subs_def)
qed

text \<open>
  \<^bold>\<open>C2\<close> Delivery is exact. When a publish of a valid subject succeeds, the bytes it adds to
  the output of an open connection with the plain NATS framing and no matching queue
  subscription are the concatenation of one \<open>MSG\<close> frame for each of the connection's
  subscriptions whose filter matches the subject (for an \<open>$LVC\<close> subscription: and whose
  subject the cache serves), each exactly once, no other byte, and nothing interleaved.
\<close>

theorem publish_delivers_exactly:
  assumes "router_inv r cs" "conns_ok am cs" "mb_proto_subject_valid subject False"
    and "publish_deliver am subject payload reply r cs = Some (True, r', ps)"
    and "msg_len_fn (cs c) = None" "write_msg_fn (cs c) = None" "\<not> conn_closed (ps_conns ps c)"
    and "\<forall>s \<in># all_subs r. wanted r c subject True s \<longrightarrow> sub_queue s = []"
  shows "\<exists>subs. mset subs = filter_mset (wanted r c subject True) (all_subs r) \<and>
    buf_data (conn_out (ps_conns ps c)) =
      buf_data (conn_out (cs c)) @ concat (map (sub_frame subject payload reply) subs)"
proof -
  have "buf_data (conn_out (ps_conns ps c)) =
      buf_data (conn_out (cs c)) @ concat (map (sub_frame subject payload reply) (wanted_subs r c subject))"
    by (rule publish_deliver_frames [OF assms(1-4) _ assms(7,8)]) (simp add: assms(5,6))
  then show ?thesis using mset_wanted_subs [OF assms(1,3)] by blast
qed


theorem publish_delivers_exactly_witness:
  "\<exists>r' ps. publish_deliver (\<lambda>_. True) ''a.b'' ''hi'' [] (fst one_sub_state) (snd one_sub_state) = Some (True, r', ps)
     \<and> buf_data (conn_out (ps_conns ps 1)) = ''MSG a.b 7 2'' @ [CHR 0x0D, CHR 0x0A] @ ''hi'' @ [CHR 0x0D, CHR 0x0A]"
proof -
  let ?r = "fst one_sub_state" and ?cs = "snd one_sub_state"
  let ?s = "requested_sub 1 ''a.*'' [] ''7''"
  have "map_option (\<lambda>(ok, r, ps). (ok, conn_closed (ps_conns ps 1)))
      (publish_deliver (\<lambda>_. True) ''a.b'' ''hi'' [] ?r ?cs) = Some (True, False)" by code_simp
  then obtain r' ps where d: "publish_deliver (\<lambda>_. True) ''a.b'' ''hi'' [] ?r ?cs = Some (True, r', ps)"
      "\<not> conn_closed (ps_conns ps 1)" by auto
  have val: "mb_proto_subject_valid ''a.b'' False" by code_simp
  have q: "sub_queue ?s = []" "wanted ?r 1 ''a.b'' True ?s"
      "sub_frame ''a.b'' ''hi'' [] ?s = ''MSG a.b 7 2'' @ [CHR 0x0D, CHR 0x0A] @ ''hi'' @ [CHR 0x0D, CHR 0x0A]" by code_simp+
  have plain: "msg_len_fn (?cs 1) = None" "write_msg_fn (?cs 1) = None"
    by (simp_all add: one_sub_state(3) fresh_conn_def)
  have "\<forall>s \<in># all_subs ?r. wanted ?r 1 ''a.b'' True s \<longrightarrow> sub_queue s = []" using q(1) by (simp add: one_sub_state(2))
  then obtain subs where "mset subs = filter_mset (wanted ?r 1 ''a.b'' True) (all_subs ?r)"
      "buf_data (conn_out (ps_conns ps 1)) = buf_data (conn_out (?cs 1)) @ concat (map (sub_frame ''a.b'' ''hi'' []) subs)"
    using publish_delivers_exactly [OF one_sub_state(1) one_sub_conns_ok val d(1) plain d(2)] by blast
  moreover have "buf_data (conn_out (?cs 1)) = []"
    by (simp add: one_sub_state(3) fresh_conn_def mb_buf_zero_def)
  ultimately show ?thesis using d(1) q by (simp add: one_sub_state(2))
qed

section \<open>The whole operation\<close>

text \<open>
  The contract between the router and whoever owns the connections. The client keeps an
  invariant \<open>I\<close> of the whole world that contains the router's own and that a publish cannot
  break by storing a last value and delivering; each of its callbacks returns and keeps \<open>I\<close>.
\<close>

locale router_client =
  fixes am :: allocator
    and cb :: "'w router_callbacks"
    and I :: "'w world \<Rightarrow> bool"
  assumes client_inv: "I (r, cs, x) \<Longrightarrow> router_inv r cs \<and> conns_ok am cs"
    and client_store: "I (r, cs, x) \<Longrightarrow> lvc_ok v \<Longrightarrow> I (r\<lparr>rt_lvc := v\<rparr>, cs, x)"
    and client_deliver: "I (r, cs, x) \<Longrightarrow>
      publish_effect (r\<lparr>kick_epoch := next_epoch (kick_epoch r)\<rparr>) \<lparr>ps_conns = cs, ps_kicked = [], ps_closed = []\<rparr> r' ps \<Longrightarrow>
      publishing am (sub_conn ` set_mset (all_subs r)) r' ps \<Longrightarrow> I (r', ps_conns ps, x)"
    and client_close: "I w \<Longrightarrow> \<exists>w'. cb_close cb c w = Some w' \<and> I w'"
    and client_kick: "I w \<Longrightarrow> \<exists>w'. cb_kick cb c w = Some w' \<and> I w'"
    and client_bridge: "I w \<Longrightarrow> \<exists>w'. cb_bridge cb subject payload options w = Some w' \<and> I w'"
begin

lemma run_closed_returns: "I w \<Longrightarrow> \<exists>w'. run_closed cb closed w = Some w' \<and> I w'"
proof (induction closed arbitrary: w)
  case (Cons c closed)
  obtain r cs x where w: "w = (r, cs, x)" using prod_cases3 by blast
  obtain w1 where "(if has_close_fn (cs c) then cb_close cb c w else Some w) = Some w1" "I w1"
    using client_close [OF Cons.prems, of c] Cons.prems by (cases "has_close_fn (cs c)") auto
  then show ?case using Cons.IH [of w1] by (auto simp: w split: if_splits)
qed simp

lemma run_kicked_returns: "I w \<Longrightarrow> \<exists>w'. run_kicked cb kicked w = Some w' \<and> I w'"
proof (induction kicked arbitrary: w)
  case (Cons c kicked)
  obtain r cs x where w: "w = (r, cs, x)" using prod_cases3 by blast
  obtain w1 where "(if \<not> conn_closed (cs c) \<and> has_kick_fn (cs c) then cb_kick cb c w else Some w) = Some w1" "I w1"
    using client_kick [OF Cons.prems, of c] Cons.prems by (cases "\<not> conn_closed (cs c) \<and> has_kick_fn (cs c)") auto
  then show ?case using Cons.IH [of w1] by (auto simp: w split: if_splits)
qed simp

lemma publish_returns:
  assumes w: "I w"
  obtains ok w' where "mb_router_publish_with_reply_and_options am cb w subject payload reply options = Some (ok, w')"
    "I w'"
    "ok \<Longrightarrow> mb_proto_subject_valid subject False \<and> \<not> mb_router_subject_has_lvc_prefix subject \<and>
      (reply = [] \<or> mb_proto_subject_valid reply False)"
proof -
  obtain r cs x where w': "w = (r, cs, x)" using prod_cases3 by blast
  have inv: "router_inv r cs" and ok: "conns_ok am cs" using client_inv w by (simp_all add: w')
  note def = mb_router_publish_with_reply_and_options_def [of am cb]
  show thesis
  proof (cases "\<not> mb_proto_subject_valid subject False \<or> reply \<noteq> [] \<and> \<not> mb_proto_subject_valid reply False \<or>
      mb_router_subject_has_lvc_prefix subject")
    case True
    then have "mb_router_publish_with_reply_and_options am cb w subject payload reply options = Some (False, w)"
      by (auto simp: def w')
    then show thesis using that w by blast
  next
    case False
    have "lvc_ok (rt_lvc r)" using inv by (simp add: router_inv_def)
    then obtain stored v where v: "lvc_store am (rt_lvc r) subject payload = Some (stored, v)" "lvc_ok v"
      by (rule lvc_store_spec [of "rt_lvc r" am subject payload]) blast
    let ?r = "r\<lparr>rt_lvc := v\<rparr>"
    have I1: "I (?r, cs, x)" using client_store [OF _ v(2)] w by (simp add: w')
    then have inv1: "router_inv ?r cs" using client_inv by blast
    then have caps: "\<not> (kick_cap ?r < rt_sub_count ?r \<or> close_cap ?r < rt_sub_count ?r \<or> queue_cap ?r < rt_sub_count ?r)"
      by (simp add: router_inv_def scratch_ok_def)
    obtain g r2 ps where d: "publish_deliver am subject payload reply ?r cs = Some (g, r2, ps)"
        "publishing am (sub_conn ` set_mset (all_subs ?r)) r2 ps"
        "publish_effect (?r\<lparr>kick_epoch := next_epoch (kick_epoch ?r)\<rparr>) \<lparr>ps_conns = cs, ps_kicked = [], ps_closed = []\<rparr> r2 ps"
      by (rule publish_deliver_spec [OF inv1 ok]) blast
    obtain w1 where w1: "run_closed cb (ps_closed ps) (r2, ps_conns ps, x) = Some w1" "I w1"
      using run_closed_returns [OF client_deliver [OF I1 d(3,2)]] by blast
    obtain w2 where w2: "run_kicked cb (ps_kicked ps) w1 = Some w2" "I w2" using run_kicked_returns [OF w1(2)] by blast
    obtain w3 where w3: "(if g \<and> has_bridge (fst w2) then cb_bridge cb subject payload options w2 else Some w2) = Some w3" "I w3"
      using client_bridge [OF w2(2), of subject payload options] w2(2) by (cases "g \<and> has_bridge (fst w2)") auto
    have "mb_router_publish_with_reply_and_options am cb w subject payload reply options =
        Some (if stored then (g, w3) else (False, ?r, cs, x))"
      using False v caps d(1) w1(1) w2(1) w3(1) by (cases stored) (auto simp: def w' Let_def)
    then show thesis using that I1 w3(2) False by (cases stored) auto
  qed
qed

end

end
