(* ===== verification/Server_State.thy ===== *)
theory Server_State
  imports Router_Delivery
begin

text \<open>
  The state of the server (\<open>src/src/server/server.h\<close>, \<open>src/src/server/conn.h\<close>): the client
  connections beside their router part, the fields of the server the connections use, and the
  interface to the libraries outside the repository (libuv, OpenSSL, yyjson).
\<close>

section \<open>Connections and server\<close>

datatype mb_conn_tls_state = MB_CONN_TLS_OFF | MB_CONN_TLS_INFO | MB_CONN_TLS_HANDSHAKE | MB_CONN_TLS_READY

text \<open>
  A \<open>struct mb_conn\<close> less its \<open>router_conn\<close>, which is the entry of the connection in the
  store of router connections, and less the handles and buffers that libuv and OpenSSL own.
  Pointers to connections are connection numbers, \<open>None\<close> the null pointer.
\<close>

record mb_conn =
  cn_rx :: mb_buf
  cn_in_flight :: mb_buf
  cn_tls_plain :: mb_buf
  cn_tls_out :: mb_buf
  cn_tls_plain_off :: nat
  cn_client_ip :: bytes
  cn_client_id :: u64
  cn_tls_state :: mb_conn_tls_state
  cn_write_pending :: bool
  cn_authorized :: bool
  cn_closing :: bool
  cn_counted :: bool
  cn_prev :: "conn_id option"
  cn_next :: "conn_id option"

definition mb_conn_zero :: mb_conn where
  "mb_conn_zero = \<lparr>cn_rx = mb_buf_zero, cn_in_flight = mb_buf_zero, cn_tls_plain = mb_buf_zero,
     cn_tls_out = mb_buf_zero, cn_tls_plain_off = 0, cn_client_ip = [], cn_client_id = 0,
     cn_tls_state = MB_CONN_TLS_OFF, cn_write_pending = False, cn_authorized = False, cn_closing = False,
     cn_counted = False, cn_prev = None, cn_next = None\<rparr>"

definition MB_READ_CHUNK :: nat where "MB_READ_CHUNK = 16 * 1024"
definition MB_MAX_RX :: nat where "MB_MAX_RX = MB_MAX_CONTROL_LINE + MB_MAX_PAYLOAD + 64"
definition MB_MAX_CONNECTIONS :: nat where "MB_MAX_CONNECTIONS = 1024"
definition INT_MAX :: nat where "INT_MAX = 2 ^ 31 - 1"
definition UINT_MAX :: nat where "UINT_MAX = 2 ^ 32 - 1"

datatype mb_auth_mode = MB_AUTH_NONE | MB_AUTH_TOKEN | MB_AUTH_USER_PASS

text \<open>The secrets are C strings, \<open>None\<close> the null pointer.\<close>

record mb_auth_config =
  auth_mode :: mb_auth_mode
  auth_token :: "bytes option"
  auth_user :: "bytes option"
  auth_pass :: "bytes option"

datatype mb_client_publish_status =
    MB_CLIENT_PUBLISH_OK
  | MB_CLIENT_PUBLISH_DISABLED
  | MB_CLIENT_PUBLISH_LVC_READ_ONLY
  | MB_CLIENT_PUBLISH_STATS_READ_ONLY
  | MB_CLIENT_PUBLISH_ROUTER_FAILED
  | MB_CLIENT_PUBLISH_PATCHBAY_FAILED

text \<open>
  \<open>sv_ext\<close> is the state the libraries keep (event loop, sockets, TLS sessions) and the
  patchbay program. The router of the server stands beside the server in the world.
\<close>

record 'x mb_server =
  sv_conn :: "conn_id \<Rightarrow> mb_conn"
  sv_conns :: "conn_id option"
  sv_conn_count :: nat
  sv_next_client_id :: u64
  sv_auth :: mb_auth_config
  sv_server_id :: bytes
  sv_host :: bytes
  sv_port :: u32
  sv_total_pubs :: u64
  sv_clock_offset_ms :: int
  sv_timer_started :: bool
  sv_closing :: bool
  sv_lvc_enabled :: bool
  sv_client_pubs_enabled :: bool
  sv_tls_enabled :: bool
  sv_snapshot_path :: "bytes option"
  sv_snapshot_job :: "bytes option"
  sv_snapshot_write_pending :: bool
  sv_snapshot_write_again :: bool
  sv_ext :: 'x

type_synonym 'x server_world = "'x mb_server world"

abbreviation w_router :: "'x server_world \<Rightarrow> mb_router" where "w_router w \<equiv> fst w"
abbreviation w_conns :: "'x server_world \<Rightarrow> conns" where "w_conns w \<equiv> fst (snd w)"
abbreviation w_server :: "'x server_world \<Rightarrow> 'x mb_server" where "w_server w \<equiv> snd (snd w)"

definition cn :: "conn_id \<Rightarrow> 'x server_world \<Rightarrow> mb_conn" where
  "cn c w = sv_conn (w_server w) c"

definition rc :: "conn_id \<Rightarrow> 'x server_world \<Rightarrow> mb_router_conn" where
  "rc c w = w_conns w c"

definition upd_sv :: "('x mb_server \<Rightarrow> 'x mb_server) \<Rightarrow> 'x server_world \<Rightarrow> 'x server_world" where
  "upd_sv f w = (case w of (r, cs, s) \<Rightarrow> (r, cs, f s))"

definition upd_cn :: "conn_id \<Rightarrow> (mb_conn \<Rightarrow> mb_conn) \<Rightarrow> 'x server_world \<Rightarrow> 'x server_world" where
  "upd_cn c f = upd_sv (\<lambda>s. s\<lparr>sv_conn := (sv_conn s)(c := f (sv_conn s c))\<rparr>)"

definition upd_rc :: "conn_id \<Rightarrow> (mb_router_conn \<Rightarrow> mb_router_conn) \<Rightarrow> 'x server_world \<Rightarrow> 'x server_world" where
  "upd_rc c f w = (case w of (r, cs, s) \<Rightarrow> (r, cs(c := f (cs c)), s))"

section \<open>Libraries\<close>

datatype bio_result = BIO_DATA bytes | BIO_EMPTY | BIO_FAILED
datatype ssl_read_result = SSL_DATA bytes | SSL_READ_WANT | SSL_READ_CLOSED | SSL_READ_FAILED
datatype ssl_write_result = SSL_WROTE nat | SSL_WRITE_WANT | SSL_WRITE_FAILED
datatype handshake_result = HANDSHAKE_DONE | HANDSHAKE_WANT | HANDSHAKE_FAILED
datatype peer_name = PEER_IPV4 bytes | PEER_IPV6 bytes | PEER_OTHER

text \<open>
  The calls the connections make into libuv, OpenSSL and yyjson, as functions of the state
  \<open>'x\<close>; a Boolean result says that the call returned 0 (libuv) or a non-null object. The
  evaluation of the patchbay program on a publish, its next deadline and the bridge callback
  reach the connections through the same record, as the connections come before them: the fields
  \<open>eval_publish\<close>, \<open>next_clock_deadline\<close> and \<open>bridge_fn\<close> are filled with the definitions of these components by
  \<open>wired_env\<close> in theory \<open>Wired\<close>.
\<close>

record 'x env =
  uv_write :: "conn_id \<Rightarrow> bytes \<Rightarrow> 'x \<Rightarrow> bool \<times> 'x"
  uv_read_start :: "conn_id \<Rightarrow> 'x \<Rightarrow> bool \<times> 'x"
  uv_read_stop :: "conn_id \<Rightarrow> 'x \<Rightarrow> 'x"
  uv_is_closing :: "conn_id \<Rightarrow> 'x \<Rightarrow> bool"
  uv_close :: "conn_id \<Rightarrow> 'x \<Rightarrow> 'x"
  uv_tcp_init :: "conn_id \<Rightarrow> 'x \<Rightarrow> bool \<times> 'x"
  uv_accept :: "conn_id \<Rightarrow> 'x \<Rightarrow> bool \<times> 'x"
  uv_peer_name :: "conn_id \<Rightarrow> 'x \<Rightarrow> peer_name option"
  uv_update_time :: "'x \<Rightarrow> 'x"
  uv_now :: "'x \<Rightarrow> u64"
  uv_gettimeofday :: "'x \<Rightarrow> (int \<times> int) option"
  calloc_conn :: "'x \<Rightarrow> conn_id option \<times> 'x"
  bio_read :: "conn_id \<Rightarrow> 'x \<Rightarrow> bio_result \<times> 'x"
  bio_write :: "conn_id \<Rightarrow> bytes \<Rightarrow> 'x \<Rightarrow> int \<times> 'x"
  ssl_new :: "conn_id \<Rightarrow> 'x \<Rightarrow> bool \<times> 'x"
  ssl_do_handshake :: "conn_id \<Rightarrow> 'x \<Rightarrow> handshake_result \<times> 'x"
  ssl_read :: "conn_id \<Rightarrow> 'x \<Rightarrow> ssl_read_result \<times> 'x"
  ssl_write :: "conn_id \<Rightarrow> bytes \<Rightarrow> 'x \<Rightarrow> ssl_write_result \<times> 'x"
  json_object :: "bytes \<Rightarrow> (bytes \<Rightarrow> bytes option) option"
  timer_start :: "u64 \<Rightarrow> 'x \<Rightarrow> 'x"
  timer_stop :: "'x \<Rightarrow> 'x"
  next_clock_deadline :: "'x \<Rightarrow> u64 option"
  eval_publish :: "bytes \<Rightarrow> bytes \<Rightarrow> u64 \<Rightarrow> int \<Rightarrow> 'x server_world \<Rightarrow> (bool \<times> 'x server_world) option"
  bridge_fn :: "bytes \<Rightarrow> bytes \<Rightarrow> mb_router_publish_options \<Rightarrow> 'x server_world \<Rightarrow> 'x server_world option"

definition ext :: "('x \<Rightarrow> 'a \<times> 'x) \<Rightarrow> 'x server_world \<Rightarrow> 'a \<times> 'x server_world" where
  "ext f w = (case f (sv_ext (w_server w)) of (a, x) \<Rightarrow> (a, upd_sv (\<lambda>s. s\<lparr>sv_ext := x\<rparr>) w))"

definition ext_do :: "('x \<Rightarrow> 'x) \<Rightarrow> 'x server_world \<Rightarrow> 'x server_world" where
  "ext_do f = upd_sv (\<lambda>s. s\<lparr>sv_ext := f (sv_ext s)\<rparr>)"

section \<open>Selectors after updates\<close>

named_theorems world_simps \<open>projections of updated worlds\<close>

lemma upd_simps [world_simps]:
  "w_router (upd_sv f w) = w_router w" "w_conns (upd_sv f w) = w_conns w" "w_server (upd_sv f w) = f (w_server w)"
  "w_router (upd_cn c g w) = w_router w" "w_conns (upd_cn c g w) = w_conns w"
  "w_server (upd_cn c g w) = (w_server w)\<lparr>sv_conn := (sv_conn (w_server w))(c := g (cn c w))\<rparr>"
  "w_router (upd_rc c h w) = w_router w" "w_conns (upd_rc c h w) = (w_conns w)(c := h (w_conns w c))"
  "w_server (upd_rc c h w) = w_server w"
  "w_router (ext_do e w) = w_router w" "w_conns (ext_do e w) = w_conns w"
  "w_server (ext_do e w) = (w_server w)\<lparr>sv_ext := e (sv_ext (w_server w))\<rparr>"
  by (simp_all add: upd_sv_def upd_cn_def upd_rc_def ext_do_def cn_def split: prod.splits)

lemma cn_upd [world_simps]:
  "cn d (upd_cn c f w) = (if d = c then f (cn c w) else cn d w)"
  "cn d (upd_rc c h w) = cn d w" "cn d (ext_do e w) = cn d w"
  "rc d (upd_cn c f w) = rc d w" "rc d (upd_rc c h w) = (if d = c then h (rc c w) else rc d w)"
  "rc d (ext_do e w) = rc d w" "rc d (upd_sv g w) = rc d w"
  by (simp_all add: cn_def rc_def world_simps)

lemma ext_result:
  assumes "ext f w = (a, w')"
  shows "w_router w' = w_router w" "w_conns w' = w_conns w" "cn c w' = cn c w" "rc c w' = rc c w"
    "w_server w' = (w_server w)\<lparr>sv_ext := snd (f (sv_ext (w_server w)))\<rparr>"
  using assms by (auto simp: ext_def world_simps cn_def rc_def split: prod.splits)

end
