(* ===== verification/Conn_Write.thy ===== *)
theory Conn_Write
  imports Server_State
begin

text \<open>
  Closing and writing of client connections (\<open>src/src/server/conn.c\<close>): the doubly linked list
  of connections, the close sequence, the slow-consumer check, the TLS write side and the one
  guarded write in flight. Operations return an option; \<open>None\<close> stands for a call that does
  not return. \<open>ev\<close> are the libraries, \<open>am\<close> the allocator.
\<close>

section \<open>Closing\<close>

text \<open>Every read of a link happens in the state the previous write left.\<close>

definition unlink_conn :: "conn_id \<Rightarrow> 'x server_world \<Rightarrow> 'x server_world" where
  "unlink_conn c w =
     (if cn_prev (cn c w) = None \<and> cn_next (cn c w) = None \<and> sv_conns (w_server w) \<noteq> Some c then w
      else let w = (case cn_prev (cn c w) of
                      Some p \<Rightarrow> upd_cn p (\<lambda>k. k\<lparr>cn_next := cn_next (cn c w)\<rparr>) w
                    | None \<Rightarrow> upd_sv (\<lambda>s. s\<lparr>sv_conns := cn_next (cn c w)\<rparr>) w);
               w = (case cn_next (cn c w) of
                      Some n \<Rightarrow> upd_cn n (\<lambda>k. k\<lparr>cn_prev := cn_prev (cn c w)\<rparr>) w
                    | None \<Rightarrow> w)
           in upd_cn c (\<lambda>k. k\<lparr>cn_prev := None, cn_next := None\<rparr>) w)"

text \<open>The callback of \<open>uv_close\<close>, which frees the connection.\<close>

definition close_cb :: "conn_id \<Rightarrow> 'x server_world \<Rightarrow> 'x server_world" where
  "close_cb c w =
     (let w = (if cn_counted (cn c w) \<and> 0 < sv_conn_count (w_server w)
               then upd_sv (\<lambda>s. s\<lparr>sv_conn_count := sv_conn_count s - 1\<rparr>) w else w);
          w = upd_cn c (\<lambda>k. k\<lparr>cn_rx := mb_buf_free (cn_rx k)\<rparr>) w;
          w = upd_rc c (\<lambda>k. k\<lparr>conn_out := mb_buf_free (conn_out k)\<rparr>) w;
          w = upd_cn c (\<lambda>k. k\<lparr>cn_in_flight := mb_buf_free (cn_in_flight k)\<rparr>) w;
          w = upd_cn c (\<lambda>k. k\<lparr>cn_tls_plain := mb_buf_free (cn_tls_plain k)\<rparr>) w
      in upd_cn c (\<lambda>k. k\<lparr>cn_tls_out := mb_buf_free (cn_tls_out k)\<rparr>) w)"

definition mb_conn_begin_close :: "'x env \<Rightarrow> conn_id \<Rightarrow> 'x server_world \<Rightarrow> 'x server_world option" where
  "mb_conn_begin_close ev c w =
     (if cn_closing (cn c w) then Some w
      else do {
        let w = upd_cn c (\<lambda>k. k\<lparr>cn_closing := True\<rparr>) w;
        let w = upd_rc c (\<lambda>k. k\<lparr>conn_closed := True\<rparr>) w;
        (r, cs) \<leftarrow> mb_router_remove_all_for (w_router w) (w_conns w) c;
        let w = unlink_conn c (r, cs, w_server w);
        let w = ext_do (uv_read_stop ev c) w;
        if \<not> uv_is_closing ev c (sv_ext (w_server w)) then Some (ext_do (uv_close ev c) w) else Some w })"

definition close_conn_from_router :: "'x env \<Rightarrow> conn_id \<Rightarrow> 'x server_world \<Rightarrow> 'x server_world option" where
  "close_conn_from_router ev c w = mb_conn_begin_close ev c w"

section \<open>Slow consumers\<close>

definition add_pending :: "nat \<Rightarrow> nat \<Rightarrow> nat" where
  "add_pending a b = (if SIZE_MAX - b < a then SIZE_MAX else a + b)"

definition pending_bytes :: "conn_id \<Rightarrow> 'x server_world \<Rightarrow> nat" where
  "pending_bytes c w =
     (let pending = add_pending (buf_len (conn_out (rc c w))) (buf_len (cn_in_flight (cn c w)));
          pending = add_pending pending (buf_len (cn_tls_out (cn c w)))
      in if cn_tls_plain_off (cn c w) < buf_len (cn_tls_plain (cn c w))
         then add_pending pending (buf_len (cn_tls_plain (cn c w)) - cn_tls_plain_off (cn c w))
         else pending)"

definition close_if_slow_consumer :: "'x env \<Rightarrow> conn_id \<Rightarrow> 'x server_world \<Rightarrow> (bool \<times> 'x server_world) option" where
  "close_if_slow_consumer ev c w =
     (if pending_bytes c w \<le> MB_MAX_PENDING then Some (False, w)
      else do { w \<leftarrow> mb_conn_begin_close ev c w; Some (True, w) })"

definition write_err_or_close ::
  "allocator \<Rightarrow> 'x env \<Rightarrow> conn_id \<Rightarrow> bytes \<Rightarrow> 'x server_world \<Rightarrow> 'x server_world option" where
  "write_err_or_close am ev c msg w =
     (case mb_write_err am (conn_out (rc c w)) msg of
        (ok, b) \<Rightarrow>
          let w = upd_rc c (\<lambda>k. k\<lparr>conn_out := b\<rparr>) w
          in if ok then Some w else mb_conn_begin_close ev c w)"

section \<open>The TLS write side\<close>

text \<open>Both loops run for as long as OpenSSL hands out bytes or takes them.\<close>

partial_function (option) tls_drain_wbio ::
  "allocator \<Rightarrow> 'x env \<Rightarrow> conn_id \<Rightarrow> 'x server_world \<Rightarrow> (bool \<times> 'x server_world) option" where
  "tls_drain_wbio am ev c w =
     (case ext (bio_read ev c) w of
        (BIO_DATA d, w) \<Rightarrow>
          (case mb_buf_append am (cn_tls_out (cn c w)) d of
             (ok, b) \<Rightarrow>
               let w = upd_cn c (\<lambda>k. k\<lparr>cn_tls_out := b\<rparr>) w
               in if \<not> ok then do { w \<leftarrow> mb_conn_begin_close ev c w; Some (False, w) }
                  else tls_drain_wbio am ev c w)
      | (BIO_EMPTY, w) \<Rightarrow> Some (True, w)
      | (BIO_FAILED, w) \<Rightarrow> do { w \<leftarrow> mb_conn_begin_close ev c w; Some (False, w) })"

text \<open>The refill of the plain text buffer: it tells whether there is anything to encrypt.\<close>

definition tls_refill :: "conn_id \<Rightarrow> 'x server_world \<Rightarrow> bool \<times> 'x server_world" where
  "tls_refill c w =
     (if cn_tls_plain_off (cn c w) = buf_len (cn_tls_plain (cn c w)) then
        let w = upd_cn c (\<lambda>k. k\<lparr>cn_tls_plain := mb_buf_clear (cn_tls_plain k)\<rparr>) w;
            w = upd_cn c (\<lambda>k. k\<lparr>cn_tls_plain_off := 0\<rparr>) w
        in if buf_len (conn_out (rc c w)) = 0 then (False, w)
           else case mb_buf_swap (conn_out (rc c w)) (cn_tls_plain (cn c w)) of
             (out, plain) \<Rightarrow>
               (True, upd_cn c (\<lambda>k. k\<lparr>cn_tls_plain := plain\<rparr>) (upd_rc c (\<lambda>k. k\<lparr>conn_out := out\<rparr>) w))
      else (True, w))"

partial_function (option) tls_encrypt_loop ::
  "allocator \<Rightarrow> 'x env \<Rightarrow> conn_id \<Rightarrow> 'x server_world \<Rightarrow> (bool \<times> 'x server_world) option" where
  "tls_encrypt_loop am ev c w =
     (case tls_refill c w of
        (go, w) \<Rightarrow>
          if \<not> go then Some (True, w)
          else case ext (ssl_write ev c (take INT_MAX (drop (cn_tls_plain_off (cn c w)) (buf_data (cn_tls_plain (cn c w)))))) w of
               (res, w) \<Rightarrow>
                 do { (drained, w) \<leftarrow> tls_drain_wbio am ev c w;
                      if \<not> drained then Some (False, w)
                      else case res of
                        SSL_WROTE n \<Rightarrow>
                          tls_encrypt_loop am ev c (upd_cn c (\<lambda>k. k\<lparr>cn_tls_plain_off := cn_tls_plain_off k + n\<rparr>) w)
                      | SSL_WRITE_WANT \<Rightarrow> Some (True, w)
                      | SSL_WRITE_FAILED \<Rightarrow> do { w \<leftarrow> mb_conn_begin_close ev c w; Some (False, w) } })"

definition tls_encrypt_pending ::
  "allocator \<Rightarrow> 'x env \<Rightarrow> conn_id \<Rightarrow> 'x server_world \<Rightarrow> (bool \<times> 'x server_world) option" where
  "tls_encrypt_pending am ev c w =
     (if cn_tls_state (cn c w) \<noteq> MB_CONN_TLS_READY then Some (True, w) else tls_encrypt_loop am ev c w)"

section \<open>The write in flight\<close>

text \<open>The buffer a write takes its bytes from: \<open>router_conn.out\<close> or \<open>tls_out\<close>.\<close>

datatype write_src = FROM_OUT | FROM_TLS_OUT

definition src_buf :: "write_src \<Rightarrow> conn_id \<Rightarrow> 'x server_world \<Rightarrow> mb_buf" where
  "src_buf src c w = (case src of FROM_OUT \<Rightarrow> conn_out (rc c w) | FROM_TLS_OUT \<Rightarrow> cn_tls_out (cn c w))"

definition set_src_buf :: "write_src \<Rightarrow> conn_id \<Rightarrow> mb_buf \<Rightarrow> 'x server_world \<Rightarrow> 'x server_world" where
  "set_src_buf src c b =
     (case src of FROM_OUT \<Rightarrow> upd_rc c (\<lambda>k. k\<lparr>conn_out := b\<rparr>) | FROM_TLS_OUT \<Rightarrow> upd_cn c (\<lambda>k. k\<lparr>cn_tls_out := b\<rparr>))"

definition write_socket_from ::
  "'x env \<Rightarrow> conn_id \<Rightarrow> write_src \<Rightarrow> 'x server_world \<Rightarrow> (bool \<times> 'x server_world) option" where
  "write_socket_from ev c src w =
     (if cn_closing (cn c w) \<or> cn_write_pending (cn c w) \<or> buf_len (src_buf src c w) = 0 then Some (True, w)
      else case mb_buf_swap (src_buf src c w) (cn_in_flight (cn c w)) of
        (b, fl) \<Rightarrow>
          let w = upd_cn c (\<lambda>k. k\<lparr>cn_in_flight := fl\<rparr>) (set_src_buf src c b w)
          in if UINT_MAX < buf_len (cn_in_flight (cn c w))
             then do { w \<leftarrow> mb_conn_begin_close ev c w; Some (False, w) }
             else let w = upd_cn c (\<lambda>k. k\<lparr>cn_write_pending := True\<rparr>) w
             in case ext (uv_write ev c (buf_data (cn_in_flight (cn c w)))) w of
                  (True, w) \<Rightarrow> Some (True, w)
                | (False, w) \<Rightarrow>
                    do { w \<leftarrow> mb_conn_begin_close ev c (upd_cn c (\<lambda>k. k\<lparr>cn_write_pending := False\<rparr>) w);
                         Some (False, w) })"

definition mb_conn_kick_write :: "allocator \<Rightarrow> 'x env \<Rightarrow> conn_id \<Rightarrow> 'x server_world \<Rightarrow> 'x server_world option" where
  "mb_conn_kick_write am ev c w =
     (if cn_closing (cn c w) then Some w
      else do {
        (slow, w) \<leftarrow> close_if_slow_consumer ev c w;
        if slow \<or> cn_write_pending (cn c w) then Some w
        else case cn_tls_state (cn c w) of
          MB_CONN_TLS_OFF \<Rightarrow> do { (_, w) \<leftarrow> write_socket_from ev c FROM_OUT w; Some w }
        | MB_CONN_TLS_INFO \<Rightarrow> do { (_, w) \<leftarrow> write_socket_from ev c FROM_OUT w; Some w }
        | MB_CONN_TLS_HANDSHAKE \<Rightarrow> do { (_, w) \<leftarrow> write_socket_from ev c FROM_TLS_OUT w; Some w }
        | MB_CONN_TLS_READY \<Rightarrow>
            do { (ok, w) \<leftarrow> tls_encrypt_pending am ev c w;
                 if \<not> ok then Some w
                 else do { (_, w) \<leftarrow> write_socket_from ev c FROM_TLS_OUT w; Some w } } })"

end
