(* ===== verification/Conn.thy ===== *)
theory Conn
  imports Conn_Write
begin

text \<open>
  The read side of a client connection (\<open>src/src/server/conn.c\<close>) and the operations of the
  server it calls (\<open>src/src/server/server.c\<close>): authentication, publishing on behalf of a
  client, the handling of one operation, the loop over the receive buffer, the TLS read side
  and the life of a connection.
\<close>

section \<open>Authentication\<close>

text \<open>The comparison touches every byte whatever the outcome.\<close>

definition secret_diff :: "bytes \<Rightarrow> bytes \<Rightarrow> u64" where
  "secret_diff expected got =
     fold (\<lambda>(e, g) diff. diff OR (word_of_nat (byte_val e) XOR word_of_nat (byte_val g))) (zip expected got) 0"

definition secret_matches_slice :: "bytes option \<Rightarrow> bytes \<Rightarrow> bool" where
  "secret_matches_slice expected got =
     (case expected of
        None \<Rightarrow> False
      | Some e \<Rightarrow> if length e \<noteq> length got then False else secret_diff e got = 0)"

definition mb_auth_token_matches :: "mb_auth_config \<Rightarrow> bytes \<Rightarrow> bool" where
  "mb_auth_token_matches auth token \<longleftrightarrow>
     auth_mode auth = MB_AUTH_TOKEN \<and> secret_matches_slice (auth_token auth) token"

definition mb_auth_user_pass_matches :: "mb_auth_config \<Rightarrow> bytes \<Rightarrow> bytes \<Rightarrow> bool" where
  "mb_auth_user_pass_matches auth user pass \<longleftrightarrow>
     auth_mode auth = MB_AUTH_USER_PASS \<and> secret_matches_slice (auth_user auth) user \<and>
     secret_matches_slice (auth_pass auth) pass"

text \<open>
  \<open>json_object\<close> stands for yyjson: \<open>None\<close> when the text is no JSON object, otherwise its
  members that are strings.
\<close>

definition connect_auth_matches :: "'x env \<Rightarrow> mb_auth_config \<Rightarrow> bytes \<Rightarrow> bool" where
  "connect_auth_matches ev auth json =
     (if auth_mode auth = MB_AUTH_NONE then True
      else if length json = 0 then False
      else case json_object ev json of
        None \<Rightarrow> False
      | Some get \<Rightarrow>
          (case auth_mode auth of
             MB_AUTH_TOKEN \<Rightarrow>
               (case get ''auth_token'' of None \<Rightarrow> False | Some token \<Rightarrow> mb_auth_token_matches auth token)
           | MB_AUTH_USER_PASS \<Rightarrow>
               (case (get ''user'', get ''pass'') of
                  (Some user, Some pass) \<Rightarrow> mb_auth_user_pass_matches auth user pass
                | _ \<Rightarrow> False)
           | MB_AUTH_NONE \<Rightarrow> False))"

section \<open>Clocks\<close>

definition mb_wall_clock_ms :: "'x env \<Rightarrow> 'x \<Rightarrow> int" where
  "mb_wall_clock_ms ev x =
     (case uv_gettimeofday ev x of None \<Rightarrow> 0 | Some (sec, usec) \<Rightarrow> sec * 1000 + usec div 1000)"

definition UINT64_MAX :: u64 where "UINT64_MAX = - 1"

text \<open>\<open>offset_ms\<close> is an \<open>int64_t\<close>.\<close>

definition add_clock_offset :: "u64 \<Rightarrow> int \<Rightarrow> u64" where
  "add_clock_offset now_ms offset_ms =
     (if 0 \<le> offset_ms then
        let add = word_of_int offset_ms in if UINT64_MAX - add < now_ms then UINT64_MAX else now_ms + add
      else
        let sub = (if offset_ms = - (2 ^ 63) then word_of_nat (2 ^ 63 - 1) + 1 else word_of_int (- offset_ms))
        in if sub < now_ms then now_ms - sub else 0)"

definition mb_server_patchbay_now_ms :: "'x env \<Rightarrow> 'x server_world \<Rightarrow> u64" where
  "mb_server_patchbay_now_ms ev w =
     add_clock_offset (uv_now ev (sv_ext (w_server w))) (sv_clock_offset_ms (w_server w))"

definition mb_server_set_patchbay_clock_offset :: "int \<Rightarrow> 'x server_world \<Rightarrow> 'x server_world" where
  "mb_server_set_patchbay_clock_offset offset_ms = upd_sv (\<lambda>s. s\<lparr>sv_clock_offset_ms := offset_ms\<rparr>)"

definition mb_server_reschedule_patchbay_clock :: "'x env \<Rightarrow> 'x server_world \<Rightarrow> 'x server_world" where
  "mb_server_reschedule_patchbay_clock ev w =
     (if \<not> sv_timer_started (w_server w) then w
      else case next_clock_deadline ev (sv_ext (w_server w)) of
        None \<Rightarrow> ext_do (timer_stop ev) w
      | Some deadline \<Rightarrow>
          let w = ext_do (uv_update_time ev) w;
              now = mb_server_patchbay_now_ms ev w;
              due = (if deadline \<le> now then 0 else deadline - now)
          in ext_do (timer_start ev due) w)"

section \<open>Publishing for a client\<close>

definition server_callbacks :: "allocator \<Rightarrow> 'x env \<Rightarrow> 'x mb_server router_callbacks" where
  "server_callbacks am ev =
     \<lparr>cb_close = close_conn_from_router ev, cb_kick = mb_conn_kick_write am ev, cb_bridge = bridge_fn ev\<rparr>"

text \<open>
  Publishing for a client. The callbacks are those of the connections the router may reach: client
  connections only, or also HTTP streams.
\<close>

definition client_publish_via ::
  "'x mb_server router_callbacks \<Rightarrow> allocator \<Rightarrow> 'x env \<Rightarrow> bytes \<Rightarrow> bytes \<Rightarrow> bytes \<Rightarrow> 'x server_world
   \<Rightarrow> (mb_client_publish_status \<times> 'x server_world) option" where
  "client_publish_via cbs am ev subject payload reply_to w =
     (if \<not> sv_client_pubs_enabled (w_server w) then Some (MB_CLIENT_PUBLISH_DISABLED, w)
      else if mb_router_subject_has_lvc_prefix subject then Some (MB_CLIENT_PUBLISH_LVC_READ_ONLY, w)
      else if mb_router_subject_has_stats_prefix subject then Some (MB_CLIENT_PUBLISH_STATS_READ_ONLY, w)
      else do {
        (ok, w) \<leftarrow> mb_router_publish_with_reply am cbs w subject payload reply_to;
        if \<not> ok then Some (MB_CLIENT_PUBLISH_ROUTER_FAILED, w)
        else do {
          let w = upd_sv (\<lambda>s. s\<lparr>sv_total_pubs := sv_total_pubs s + 1\<rparr>) w;
          let w = ext_do (uv_update_time ev) w;
          (ok, w) \<leftarrow> eval_publish ev subject payload (mb_server_patchbay_now_ms ev w)
                       (mb_wall_clock_ms ev (sv_ext (w_server w))) w;
          if \<not> ok then Some (MB_CLIENT_PUBLISH_PATCHBAY_FAILED, w)
          else Some (MB_CLIENT_PUBLISH_OK, mb_server_reschedule_patchbay_clock ev w) } })"

definition mb_server_client_publish ::
  "allocator \<Rightarrow> 'x env \<Rightarrow> bytes \<Rightarrow> bytes \<Rightarrow> bytes \<Rightarrow> 'x server_world
   \<Rightarrow> (mb_client_publish_status \<times> 'x server_world) option" where
  "mb_server_client_publish am ev = client_publish_via (server_callbacks am ev) am ev"

section \<open>One operation\<close>

definition op_mutates_server_state :: "mb_op \<Rightarrow> bool" where
  "op_mutates_server_state op \<longleftrightarrow> op_kind op = MB_OP_SUB \<or> op_kind op = MB_OP_UNSUB \<or> op_kind op = MB_OP_PUB"

definition auth_violation :: "allocator \<Rightarrow> 'x env \<Rightarrow> conn_id \<Rightarrow> 'x server_world \<Rightarrow> 'x server_world option" where
  "auth_violation am ev c w =
     do { w \<leftarrow> write_err_or_close am ev c ''Authorization Violation'' w; mb_conn_begin_close ev c w }"

text \<open>The answer to a client publish.\<close>

definition answer_publish ::
  "allocator \<Rightarrow> 'x env \<Rightarrow> conn_id \<Rightarrow> mb_client_publish_status \<Rightarrow> 'x server_world \<Rightarrow> 'x server_world option" where
  "answer_publish am ev c status w =
     (case status of
        MB_CLIENT_PUBLISH_DISABLED \<Rightarrow> write_err_or_close am ev c ''Client Publish Disabled'' w
      | MB_CLIENT_PUBLISH_LVC_READ_ONLY \<Rightarrow> write_err_or_close am ev c ''$LVC is read-only'' w
      | MB_CLIENT_PUBLISH_STATS_READ_ONLY \<Rightarrow> write_err_or_close am ev c ''$STATS is read-only'' w
      | MB_CLIENT_PUBLISH_ROUTER_FAILED \<Rightarrow> write_err_or_close am ev c ''Publish Failed'' w
      | MB_CLIENT_PUBLISH_PATCHBAY_FAILED \<Rightarrow> write_err_or_close am ev c ''Patchbay Failed'' w
      | MB_CLIENT_PUBLISH_OK \<Rightarrow> Some w)"

text \<open>The trace output of \<open>handle_op\<close> has no effect on the state.\<close>

definition handle_op ::
  "allocator \<Rightarrow> 'x env \<Rightarrow> conn_id \<Rightarrow> mb_op \<Rightarrow> 'x server_world \<Rightarrow> 'x server_world option" where
  "handle_op am ev c op w =
     (if \<not> cn_authorized (cn c w) then
        (if op_kind op \<noteq> MB_OP_CONNECT \<or> \<not> connect_auth_matches ev (sv_auth (w_server w)) (op_connect op)
         then auth_violation am ev c w
         else Some (upd_cn c (\<lambda>k. k\<lparr>cn_authorized := True\<rparr>) w))
      else if sv_closing (w_server w) \<and> op_mutates_server_state op
      then write_err_or_close am ev c ''Server Shutting Down'' w
      else case op_kind op of
        MB_OP_CONNECT \<Rightarrow> Some w
      | MB_OP_PING \<Rightarrow>
          (case mb_write_pong am (conn_out (rc c w)) of
             (ok, b) \<Rightarrow>
               let w = upd_rc c (\<lambda>k. k\<lparr>conn_out := b\<rparr>) w
               in if ok then Some w else mb_conn_begin_close ev c w)
      | MB_OP_SUB \<Rightarrow>
          if mb_router_subject_has_lvc_prefix (op_subject op) \<and> \<not> sv_lvc_enabled (w_server w)
          then write_err_or_close am ev c ''$LVC is disabled'' w
          else do {
            (ok, r, cs) \<leftarrow> mb_router_subscribe_queue am (w_router w) (w_conns w) (Some c)
                             (op_subject op) (op_queue op) (op_sid op);
            let w = (r, cs, w_server w);
            if ok then Some w else write_err_or_close am ev c ''Subscribe Failed'' w }
      | MB_OP_UNSUB \<Rightarrow>
          do { (r, cs) \<leftarrow> mb_router_unsubscribe (w_router w) (w_conns w) c (op_sid op)
                            (op_max_msgs op) (op_has_max_msgs op);
               Some (r, cs, w_server w) }
      | MB_OP_PUB \<Rightarrow>
          do { (status, w) \<leftarrow> mb_server_client_publish am ev (op_subject op) (op_payload op) (op_reply_to op) w;
               answer_publish am ev c status w })"

section \<open>The receive buffer\<close>

abbreviation fatal_status :: "mb_parse_status \<Rightarrow> bool" where
  "fatal_status st \<equiv> st = MB_PARSE_CONTROL_LINE_TOO_LONG \<or> st = MB_PARSE_MALFORMED \<or> st = MB_PARSE_PAYLOAD_TOO_LARGE"

abbreviation status_msg :: "mb_parse_status \<Rightarrow> bytes" where
  "status_msg st \<equiv> (if st = MB_PARSE_UNKNOWN then ''Unknown Protocol Operation'' else ''Invalid Operation'')"

text \<open>
  The loop of \<open>process_rx\<close>. The first component of its result is the cursor after a break,
  and \<open>None\<close> when the whole function returned because the connection is closing.
\<close>

partial_function (option) process_rx_loop ::
  "allocator \<Rightarrow> 'x env \<Rightarrow> conn_id \<Rightarrow> nat \<Rightarrow> 'x server_world \<Rightarrow> (nat option \<times> 'x server_world) option" where
  "process_rx_loop am ev c cursor w =
     (let rest = drop cursor (buf_data (cn_rx (cn c w)));
          result = mb_parse_client_op rest
      in if rest = [] then Some (Some cursor, w)
         else if pr_status result = MB_PARSE_NEED_MORE then Some (Some cursor, w)
         else if pr_status result \<noteq> MB_PARSE_OK then
           (if fatal_status (pr_status result) then
              do { w \<leftarrow> write_err_or_close am ev c ''Protocol Violation'' w;
                   w \<leftarrow> mb_conn_begin_close ev c w;
                   Some (None, w) }
            else do {
              w \<leftarrow> write_err_or_close am ev c (status_msg (pr_status result)) w;
              if cn_closing (cn c w) then Some (None, w)
              else let rest = drop cursor (buf_data (cn_rx (cn c w)))
                   in if LF \<in> set rest
                      then process_rx_loop am ev c (cursor + length (takeWhile (\<lambda>ch. ch \<noteq> LF) rest) + 1) w
                      else Some (Some cursor, w) })
         else do {
           w \<leftarrow> handle_op am ev c (pr_op result) w;
           if cn_closing (cn c w) then Some (None, w)
           else process_rx_loop am ev c (cursor + pr_consumed result) w })"

definition process_rx :: "allocator \<Rightarrow> 'x env \<Rightarrow> conn_id \<Rightarrow> 'x server_world \<Rightarrow> 'x server_world option" where
  "process_rx am ev c w =
     do { (res, w) \<leftarrow> process_rx_loop am ev c 0 w;
          case res of
            None \<Rightarrow> Some w
          | Some cursor \<Rightarrow>
              let w = (if 0 < cursor then upd_cn c (\<lambda>k. k\<lparr>cn_rx := mb_buf_consume (cn_rx k) cursor\<rparr>) w else w)
              in if MB_MAX_RX < buf_len (cn_rx (cn c w)) then mb_conn_begin_close ev c w else Some w }"

definition start_reading :: "'x env \<Rightarrow> conn_id \<Rightarrow> 'x server_world \<Rightarrow> (bool \<times> 'x server_world) option" where
  "start_reading ev c w =
     (case ext (uv_read_start ev c) w of
        (True, w) \<Rightarrow> Some (True, w)
      | (False, w) \<Rightarrow> do { w \<leftarrow> mb_conn_begin_close ev c w; Some (False, w) })"

section \<open>The TLS read side\<close>

partial_function (option) tls_drain_plain ::
  "allocator \<Rightarrow> 'x env \<Rightarrow> conn_id \<Rightarrow> 'x server_world \<Rightarrow> (bool \<times> 'x server_world) option" where
  "tls_drain_plain am ev c w =
     (case ext (ssl_read ev c) w of
        (res, w) \<Rightarrow>
          do { (drained, w) \<leftarrow> tls_drain_wbio am ev c w;
               if \<not> drained then Some (False, w)
               else case res of
                 SSL_DATA plain \<Rightarrow>
                   (case mb_buf_append am (cn_rx (cn c w)) plain of
                      (ok, b) \<Rightarrow>
                        let w = upd_cn c (\<lambda>k. k\<lparr>cn_rx := b\<rparr>) w
                        in if \<not> ok then do { w \<leftarrow> mb_conn_begin_close ev c w; Some (False, w) }
                           else do { w \<leftarrow> process_rx am ev c w;
                                     if cn_closing (cn c w) then Some (False, w) else tls_drain_plain am ev c w })
               | SSL_READ_WANT \<Rightarrow> Some (True, w)
               | SSL_READ_CLOSED \<Rightarrow> do { w \<leftarrow> mb_conn_begin_close ev c w; Some (False, w) }
               | SSL_READ_FAILED \<Rightarrow> do { w \<leftarrow> mb_conn_begin_close ev c w; Some (False, w) } })"

definition tls_drive_handshake ::
  "allocator \<Rightarrow> 'x env \<Rightarrow> conn_id \<Rightarrow> 'x server_world \<Rightarrow> (bool \<times> 'x server_world) option" where
  "tls_drive_handshake am ev c w =
     (if cn_tls_state (cn c w) \<noteq> MB_CONN_TLS_HANDSHAKE then Some (True, w)
      else case ext (ssl_do_handshake ev c) w of
        (res, w) \<Rightarrow>
          do { (drained, w) \<leftarrow> tls_drain_wbio am ev c w;
               if \<not> drained then Some (False, w)
               else case res of
                 HANDSHAKE_DONE \<Rightarrow> tls_drain_plain am ev c (upd_cn c (\<lambda>k. k\<lparr>cn_tls_state := MB_CONN_TLS_READY\<rparr>) w)
               | HANDSHAKE_WANT \<Rightarrow> Some (True, w)
               | HANDSHAKE_FAILED \<Rightarrow> do { w \<leftarrow> mb_conn_begin_close ev c w; Some (False, w) } })"

text \<open>
  The loop that feeds the cipher text to OpenSSL; \<open>BIO_write\<close> takes at most what it is
  offered. \<open>False\<close> is the return of the whole function after a failure.
\<close>

partial_function (option) tls_feed_loop ::
  "'x env \<Rightarrow> conn_id \<Rightarrow> bytes \<Rightarrow> 'x server_world \<Rightarrow> (bool \<times> 'x server_world) option" where
  "tls_feed_loop ev c data w =
     (if data = [] then Some (True, w)
      else case ext (bio_write ev c (take INT_MAX data)) w of
        (n, w) \<Rightarrow>
          if n \<le> 0 then do { w \<leftarrow> mb_conn_begin_close ev c w; Some (False, w) }
          else tls_feed_loop ev c (drop (nat n) data) w)"

definition tls_feed_encrypted ::
  "allocator \<Rightarrow> 'x env \<Rightarrow> conn_id \<Rightarrow> bytes \<Rightarrow> 'x server_world \<Rightarrow> (bool \<times> 'x server_world) option" where
  "tls_feed_encrypted am ev c data w =
     do { (fed, w) \<leftarrow> tls_feed_loop ev c data w;
          if \<not> fed then Some (False, w)
          else case cn_tls_state (cn c w) of
            MB_CONN_TLS_HANDSHAKE \<Rightarrow> tls_drive_handshake am ev c w
          | MB_CONN_TLS_READY \<Rightarrow> tls_drain_plain am ev c w
          | _ \<Rightarrow> Some (True, w) }"

definition tls_start ::
  "allocator \<Rightarrow> 'x env \<Rightarrow> conn_id \<Rightarrow> 'x server_world \<Rightarrow> (bool \<times> 'x server_world) option" where
  "tls_start am ev c w =
     (case ext (ssl_new ev c) w of
        (False, w) \<Rightarrow> do { w \<leftarrow> mb_conn_begin_close ev c w; Some (False, w) }
      | (True, w) \<Rightarrow>
          do { let w = upd_cn c (\<lambda>k. k\<lparr>cn_tls_state := MB_CONN_TLS_HANDSHAKE\<rparr>) w;
               (started, w) \<leftarrow> start_reading ev c w;
               if \<not> started then Some (False, w)
               else do { (ok, w) \<leftarrow> tls_drive_handshake am ev c w;
                         if \<not> ok then Some (False, w)
                         else do { w \<leftarrow> mb_conn_kick_write am ev c w; Some (True, w) } } })"

section \<open>Callbacks of the event loop\<close>

definition alloc_cb :: "nat \<Rightarrow> nat" where
  "alloc_cb suggested_size = (if suggested_size < MB_READ_CHUNK then suggested_size else MB_READ_CHUNK)"

definition write_cb :: "allocator \<Rightarrow> 'x env \<Rightarrow> conn_id \<Rightarrow> int \<Rightarrow> 'x server_world \<Rightarrow> 'x server_world option" where
  "write_cb am ev c status w =
     (if status < 0 \<or> cn_closing (cn c w)
      then mb_conn_begin_close ev c (upd_cn c (\<lambda>k. k\<lparr>cn_write_pending := False\<rparr>) w)
      else do {
        let w = upd_cn c (\<lambda>k. k\<lparr>cn_in_flight := mb_buf_clear (cn_in_flight k)\<rparr>) w;
        let w = upd_cn c (\<lambda>k. k\<lparr>cn_write_pending := False\<rparr>) w;
        case cn_tls_state (cn c w) of
          MB_CONN_TLS_INFO \<Rightarrow> do { (_, w) \<leftarrow> tls_start am ev c w; Some w }
        | MB_CONN_TLS_HANDSHAKE \<Rightarrow>
            do { (ok, w) \<leftarrow> tls_drive_handshake am ev c w;
                 if ok \<and> \<not> cn_closing (cn c w) then mb_conn_kick_write am ev c w else Some w }
        | _ \<Rightarrow> mb_conn_kick_write am ev c w })"

text \<open>\<open>nread\<close> is negative for an error or the end of the stream; \<open>data\<close> holds \<open>nread\<close> bytes otherwise.\<close>

definition read_cb ::
  "allocator \<Rightarrow> 'x env \<Rightarrow> conn_id \<Rightarrow> int \<Rightarrow> bytes \<Rightarrow> 'x server_world \<Rightarrow> 'x server_world option" where
  "read_cb am ev c nread data w =
     (if nread < 0 then mb_conn_begin_close ev c w
      else if nread = 0 then Some w
      else case cn_tls_state (cn c w) of
        MB_CONN_TLS_INFO \<Rightarrow> mb_conn_begin_close ev c w
      | MB_CONN_TLS_OFF \<Rightarrow>
          (case mb_buf_append am (cn_rx (cn c w)) data of
             (ok, b) \<Rightarrow>
               let w = upd_cn c (\<lambda>k. k\<lparr>cn_rx := b\<rparr>) w
               in if \<not> ok then mb_conn_begin_close ev c w
                  else do { w \<leftarrow> process_rx am ev c w;
                            if \<not> cn_closing (cn c w) then mb_conn_kick_write am ev c w else Some w })
      | _ \<Rightarrow>
          do { (ok, w) \<leftarrow> tls_feed_encrypted am ev c data w;
               if ok \<and> \<not> cn_closing (cn c w) then mb_conn_kick_write am ev c w else Some w })"

section \<open>Accepting a connection\<close>

definition set_client_ip :: "'x env \<Rightarrow> conn_id \<Rightarrow> 'x server_world \<Rightarrow> 'x server_world" where
  "set_client_ip ev c w =
     upd_cn c (\<lambda>k. k\<lparr>cn_client_ip :=
       (case uv_peer_name ev c (sv_ext (w_server w)) of
          None \<Rightarrow> [] | Some PEER_OTHER \<Rightarrow> [] | Some (PEER_IPV4 name) \<Rightarrow> name | Some (PEER_IPV6 name) \<Rightarrow> name)\<rparr>) w"

text \<open>The zeroed connection with its callbacks, TLS state and authorization set.\<close>

definition new_conn :: "conn_id \<Rightarrow> 'x server_world \<Rightarrow> 'x server_world" where
  "new_conn c w =
     (let sv = w_server w;
          w = upd_cn c (\<lambda>_. mb_conn_zero\<lparr>cn_client_id := sv_next_client_id sv,
                cn_tls_state := (if sv_tls_enabled sv then MB_CONN_TLS_INFO else MB_CONN_TLS_OFF),
                cn_authorized := (auth_mode (sv_auth sv) = MB_AUTH_NONE)\<rparr>) w;
          w = upd_sv (\<lambda>s. s\<lparr>sv_next_client_id := sv_next_client_id s + 1\<rparr>) w
      in upd_rc c (\<lambda>_. \<lparr>conn_out = mb_buf_zero, kick_seen_epoch = 0, close_seen_epoch = 0, conn_sub_count = 0,
           conn_closed = False, msg_len_fn = None, write_msg_fn = None, has_kick_fn = True, has_close_fn = True\<rparr>) w)"

definition conn_info :: "conn_id \<Rightarrow> 'x server_world \<Rightarrow> mb_info" where
  "conn_info c w =
     \<lparr>info_server_id = sv_server_id (w_server w), info_host = sv_host (w_server w),
      info_client_ip = cn_client_ip (cn c w), info_port = sv_port (w_server w),
      info_client_id = cn_client_id (cn c w),
      info_auth_required = (auth_mode (sv_auth (w_server w)) \<noteq> MB_AUTH_NONE),
      info_tls_required = sv_tls_enabled (w_server w)\<rparr>"

definition link_conn :: "conn_id \<Rightarrow> 'x server_world \<Rightarrow> 'x server_world" where
  "link_conn c w =
     (let w = upd_cn c (\<lambda>k. k\<lparr>cn_next := sv_conns (w_server w)\<rparr>) w;
          w = (case sv_conns (w_server w) of
                 Some h \<Rightarrow> upd_cn h (\<lambda>k. k\<lparr>cn_prev := Some c\<rparr>) w | None \<Rightarrow> w);
          w = upd_sv (\<lambda>s. s\<lparr>sv_conns := Some c\<rparr>) w;
          w = upd_cn c (\<lambda>k. k\<lparr>cn_counted := True\<rparr>) w
      in upd_sv (\<lambda>s. s\<lparr>sv_conn_count := sv_conn_count s + 1\<rparr>) w)"

text \<open>\<open>version\<close> and \<open>build\<close> are the strings of the generated version header.\<close>

definition mb_conn_create ::
  "bytes \<Rightarrow> bytes \<Rightarrow> allocator \<Rightarrow> 'x env \<Rightarrow> 'x server_world \<Rightarrow> (bool \<times> 'x server_world) option" where
  "mb_conn_create version build am ev w =
     (case ext (calloc_conn ev) w of
        (None, w) \<Rightarrow> Some (False, w)
      | (Some c, w) \<Rightarrow>
          let w = new_conn c w
          in case ext (uv_tcp_init ev c) w of
               (False, w) \<Rightarrow> Some (False, w)
             | (True, w) \<Rightarrow>
          (case ext (uv_accept ev c) w of
               (False, w) \<Rightarrow> Some (False, ext_do (uv_close ev c) w)
             | (True, w) \<Rightarrow>
          (case (let w = set_client_ip ev c w in (w, mb_write_info version build am (conn_out (rc c w)) (conn_info c w))) of
             (w, ok, b) \<Rightarrow>
               let w = upd_rc c (\<lambda>k. k\<lparr>conn_out := b\<rparr>) w
               in if \<not> ok then do { w \<leftarrow> mb_conn_begin_close ev c w; Some (False, w) }
                  else do {
                    let w = link_conn c w;
                    (started, w) \<leftarrow> (if sv_tls_enabled (w_server w) then Some (True, w) else start_reading ev c w);
                    if \<not> started then do { w \<leftarrow> mb_conn_begin_close ev c w; Some (False, w) }
                    else do { w \<leftarrow> mb_conn_kick_write am ev c w; Some (True, w) } })))"

end
