(* ===== verification/Conn_Inv.thy ===== *)
theory Conn_Inv
  imports Conn
begin

text \<open>
  The invariant of the server: the router's invariant, the doubly linked list of open
  connections, and that no subscription points to a connection that is being closed (its
  memory is freed in \<open>close_cb\<close>).
\<close>

section \<open>Doubly linked lists\<close>

text \<open>
  \<open>dll h p x as l y\<close>: from \<open>x\<close> the links of \<open>h\<close> run through \<open>as\<close> to \<open>y\<close>; the node before
  the segment is \<open>p\<close>, the last node before \<open>y\<close> is \<open>l\<close>.
\<close>

primrec dll ::
  "(conn_id \<Rightarrow> mb_conn) \<Rightarrow> conn_id option \<Rightarrow> conn_id option \<Rightarrow> conn_id list \<Rightarrow> conn_id option \<Rightarrow> conn_id option \<Rightarrow> bool" where
  "dll h p x [] l y \<longleftrightarrow> x = y \<and> p = l"
| "dll h p x (a # as) l y \<longleftrightarrow> x = Some a \<and> cn_prev (h a) = p \<and> dll h (Some a) (cn_next (h a)) as l y"

lemma dll_append: "dll h p x (as @ bs) l y \<longleftrightarrow> (\<exists>m z. dll h p x as m z \<and> dll h m z bs l y)"
  by (induction as arbitrary: p x) auto

lemma dll_cong:
  "(\<And>a. a \<in> set as \<Longrightarrow> cn_prev (h a) = cn_prev (h' a) \<and> cn_next (h a) = cn_next (h' a)) \<Longrightarrow>
   dll h p x as l y = dll h' p x as l y"
  by (induction as arbitrary: p x) auto

lemma dll_upd [simp]: "c \<notin> set as \<Longrightarrow> dll (h(c := v)) p x as l y = dll h p x as l y"
  by (rule dll_cong) auto

definition linked :: "(conn_id \<Rightarrow> mb_conn) \<Rightarrow> conn_id option \<Rightarrow> conn_id list \<Rightarrow> bool" where
  "linked h x xs \<longleftrightarrow>
     distinct xs \<and> (\<exists>l. dll h None x xs l None) \<and> (\<forall>a. a \<notin> set xs \<longrightarrow> cn_prev (h a) = None \<and> cn_next (h a) = None)"

lemma linked_cong:
  assumes "linked h x xs" "\<And>a. cn_prev (h' a) = cn_prev (h a) \<and> cn_next (h' a) = cn_next (h a)"
  shows "linked h' x xs"
  using assms dll_cong [of xs h' h] by (simp add: linked_def)

lemma linked_hd: "linked h x xs \<Longrightarrow> x = (case xs of [] \<Rightarrow> None | a # _ \<Rightarrow> Some a)"
  by (cases xs) (auto simp: linked_def)

text \<open>The head and the links after \<open>unlink_conn\<close>, as functions of those before.\<close>

lemma unlink_conn_linked:
  assumes l: "linked (sv_conn (w_server w)) (sv_conns (w_server w)) xs"
  shows "linked (sv_conn (w_server (unlink_conn c w))) (sv_conns (w_server (unlink_conn c w))) (removeAll c xs)"
proof (cases "c \<in> set xs")
  case False
  then have "cn_prev (cn c w) = None" "cn_next (cn c w) = None" "sv_conns (w_server w) \<noteq> Some c"
    using l linked_hd [OF l] by (auto simp: linked_def cn_def split: list.splits)
  then show ?thesis using l False by (simp add: unlink_conn_def)
next
  case True
  let ?h = "sv_conn (w_server w)"
  obtain ys zs where xs: "xs = ys @ c # zs" using split_list [OF True] by blast
  have dist: "distinct xs" and c: "c \<notin> set ys" "c \<notin> set zs" using l xs by (auto simp: linked_def)
  have rm: "removeAll c xs = ys @ zs" using c by (simp add: xs removeAll_id)
  obtain m z last where d: "dll ?h None (sv_conns (w_server w)) ys m (Some c)" "cn_prev (?h c) = m"
      "dll ?h (Some c) (cn_next (?h c)) zs last None"
    using l by (auto simp: linked_def xs dll_append)
  have out: "\<forall>a. a \<notin> set xs \<longrightarrow> cn_prev (?h a) = None \<and> cn_next (?h a) = None" using l by (simp add: linked_def)
  have head: "sv_conns (w_server w) = Some c" if "ys = []" using d(1) that by simp
  show ?thesis
  proof (cases ys rule: rev_cases)
    case Nil
    have m: "m = None" using d(1) Nil by simp
    show ?thesis
    proof (cases zs)
      case Nil
      then show ?thesis
        using d m \<open>ys = []\<close> head out
        by (auto simp: unlink_conn_def linked_def rm xs world_simps cn_def Let_def)
    next
      case (Cons n zs')
      then show ?thesis
        using d m \<open>ys = []\<close> head out dist c
        by (auto simp: unlink_conn_def linked_def rm xs world_simps cn_def Let_def)
    qed
  next
    case (snoc ys' p)
    have m: "m = Some p" using d(1) snoc by (auto simp: dll_append)
    have pc: "p \<noteq> c" "p \<notin> set ys'" "p \<notin> set zs" using c dist snoc xs by auto
    show ?thesis
    proof (cases zs)
      case Nil
      then show ?thesis
        using d m snoc out dist c pc
        by (auto simp: unlink_conn_def linked_def rm xs world_simps cn_def Let_def dll_append)
    next
      case (Cons n zs')
      have "n \<noteq> c" "n \<noteq> p" "n \<notin> set ys'" "n \<notin> set zs'" using c dist snoc xs Cons by auto
      then show ?thesis
        using d m snoc out dist c pc Cons
        by (auto simp: unlink_conn_def linked_def rm xs world_simps cn_def Let_def dll_append)
    qed
  qed
qed

section \<open>What the router leaves of a connection\<close>

definition same_io :: "mb_router_conn \<Rightarrow> mb_router_conn \<Rightarrow> bool" where
  "same_io k k' \<longleftrightarrow>
     msg_len_fn k' = msg_len_fn k \<and> write_msg_fn k' = write_msg_fn k \<and> has_kick_fn k' = has_kick_fn k \<and>
     has_close_fn k' = has_close_fn k \<and> conn_closed k' = conn_closed k"

lemma same_io_refl [simp]: "same_io k k"
  by (simp add: same_io_def)

lemma same_io_fields [simp]: "same_io k (k\<lparr>conn_out := b\<rparr>)" "same_io k (k\<lparr>conn_sub_count := n\<rparr>)"
  by (simp_all add: same_io_def)

lemma same_io_trans: "same_io a b \<Longrightarrow> same_io b c \<Longrightarrow> same_io a c"
  by (simp add: same_io_def)

lemma io_ok_same: "same_io k k' \<Longrightarrow> io_ok am k \<Longrightarrow> io_ok am k'"
proof -
  assume st: "same_io k k'" and io: "io_ok am k"
  have "measure_msg k' = measure_msg k"
    using st by (simp add: same_io_def measure_msg_def [abs_def])
  moreover have "(\<lambda>b. write_msg am (k'\<lparr>conn_out := b\<rparr>)) = (\<lambda>b. write_msg am (k\<lparr>conn_out := b\<rparr>))"
    using st by (simp add: same_io_def write_msg_def fun_eq_iff split: option.split)
  ultimately show "io_ok am k'" using io by (simp add: io_ok_def)
qed

lemma conns_ok_same:
  "conns_ok am cs \<Longrightarrow> router_inv r cs' \<Longrightarrow> (\<And>d. same_io (cs d) (cs' d)) \<Longrightarrow> conns_ok am cs'"
  unfolding conns_ok_def router_inv_def by (metis io_ok_same)

lemma router_sweep_same_io:
  "sweep_loop decide i l st = (l', st') \<Longrightarrow> same_io (snd st d) (snd st' d)"
proof (induction decide i l st arbitrary: l' st' rule: sweep_loop.induct)
  case (1 decide i l st)
  have n: "same_io (snd st d) (snd (note_sub_removed s st) d)" for s
    by (auto simp: note_sub_removed_def Let_def split: prod.splits)
  show ?case
  proof (cases "length (sl_items l) \<le> i")
    case True
    then show ?thesis using "1.prems" by (simp add: sweep_loop.simps [of decide i l])
  next
    case False
    show ?thesis
    proof (cases "decide (sl_items l ! i)")
      case None
      then have "same_io (snd (note_sub_removed (sl_items l ! i) st) d) (snd st' d)"
        using "1.prems" "1.IH"(1) [OF False None] False by (simp add: sweep_loop.simps [of decide i l])
      then show ?thesis using same_io_trans [OF n] by blast
    next
      case (Some s)
      then show ?thesis using "1.prems" "1.IH"(2) [OF False Some] False by (simp add: sweep_loop.simps [of decide i l])
    qed
  qed
qed

lemma bt_sweep_same_io:
  "bt_sweep (sweep_loop decide 0) i t st = Some (t', st') \<Longrightarrow> same_io (snd st d) (snd st' d)"
proof (induction "sweep_loop decide 0" i t st arbitrary: t' st' rule: bt_sweep.induct)
  case (1 i t st)
  show ?case
  proof (cases "length (bt_items t) \<le> i")
    case True
    then show ?thesis using "1.prems" by (simp add: bt_sweep.simps [of _ i t])
  next
    case False
    obtain l st1 where s: "sweep_loop decide 0 (bk_subs (bt_items t ! i)) st = (l, st1)"
      using prod.exhaust by blast
    have "same_io (snd st1 d) (snd st' d)"
      using "1.prems" "1.hyps" [OF False s [symmetric]] False s
      by (auto simp: bt_sweep.simps [of _ i t] split: if_splits option.splits)
    then show ?thesis using same_io_trans [OF router_sweep_same_io [OF s]] by blast
  qed
qed

lemma sweep_same_io:
  assumes "router_sweep (sweep_loop decide 0) r cs = Some (r', cs')"
  shows "same_io (cs d) (cs' d)"
proof -
  obtain lit st1 where a: "bt_sweep (sweep_loop decide 0) 0 (rt_literal r) (rt_sub_count r, cs) = Some (lit, st1)"
    using assms by (auto simp: router_sweep_def bind_eq_Some_conv)
  obtain wild st2 where b: "bt_sweep (sweep_loop decide 0) 0 (rt_wildcard r) st1 = Some (wild, st2)"
    using assms a by (auto simp: router_sweep_def bind_eq_Some_conv)
  obtain glob st3 where g: "sweep_loop decide 0 (wildcard_global r) st2 = (glob, st3)" using prod.exhaust by blast
  have "cs' = snd st3" using assms a b g by (auto simp: router_sweep_def Let_def split: prod.splits)
  then show ?thesis
    using bt_sweep_same_io [OF a, of d] bt_sweep_same_io [OF b, of d] router_sweep_same_io [OF g, of d]
    by (metis same_io_trans snd_conv)
qed

lemma unsubscribe_io: "mb_router_unsubscribe r cs c sid n has = Some (r', cs') \<Longrightarrow> same_io (cs d) (cs' d)"
  unfolding mb_router_unsubscribe_def unsubscribe_from_list_def by (rule sweep_same_io)

lemma remove_all_io: "mb_router_remove_all_for r cs c = Some (r', cs') \<Longrightarrow> same_io (cs d) (cs' d)"
  unfolding mb_router_remove_all_for_def remove_for_conn_from_list_def by (rule sweep_same_io)

lemma subscribe_commit_io:
  assumes "subscribe_commit am r cs c lvc m queue sid = Some (ok, r', cs')"
  shows "same_io (cs d) (cs' d)"
proof -
  obtain ok1 r1 where e: "ensure_publish_capacity am r (rt_sub_count r + 1) = (ok1, r1)" by fastforce
  show ?thesis
  proof (cases "ok1 \<and> new_sub am c lvc m queue sid \<noteq> None")
    case False
    then show ?thesis using assms e by (cases ok1) (auto simp: subscribe_commit_def)
  next
    case True
    then obtain sub where sub: "new_sub am c lvc m queue sid = Some sub" by blast
    obtain ok2 r2 where p: "place_sub am r1 m sub = Some (ok2, r2)"
      using assms e True sub by (auto simp: subscribe_commit_def bind_eq_Some_conv)
    obtain ok3 b where em: "emit_cached am (rt_lvc r2) (conn_out (cs c)) m sid = (ok3, b)" by fastforce
    let ?cs3 = "cs(c := (cs c)\<lparr>conn_sub_count := conn_sub_count (cs c) + 1\<rparr>)"
    let ?cs4 = "cs(c := (cs c)\<lparr>conn_sub_count := conn_sub_count (cs c) + 1, conn_out := b\<rparr>)"
    have io: "same_io (cs d) (?cs3 d)" "same_io (cs d) (?cs4 d)" by (simp_all add: same_io_def)
    consider (no) "\<not> ok2" "cs' = cs" | (plain) "cs' = ?cs3" | (cached) "cs' = ?cs4"
      | (undo) r3 r4 where "mb_router_unsubscribe r3 ?cs4 c sid 0 False = Some (r4, cs')"
      using assms e True sub p em by (cases ok2; cases lvc; cases ok3) (auto simp: subscribe_commit_def Let_def bind_eq_Some_conv)
    then show ?thesis
    proof cases
      case undo
      then show ?thesis using same_io_trans [OF io(2) unsubscribe_io [OF undo]] by blast
    qed (use io in simp_all)
  qed
qed

lemma subscribe_io:
  assumes "mb_router_subscribe_queue am r cs (Some c) subject queue sid = Some (ok, r', cs')"
  shows "same_io (cs d) (cs' d)"
  using assms subscribe_commit_io
  by (auto simp: mb_router_subscribe_queue_def Let_def split: if_splits)

section \<open>The invariant\<close>

definition cn_bufs_wf :: "mb_conn \<Rightarrow> bool" where
  "cn_bufs_wf k \<longleftrightarrow>
     buf_wf (cn_rx k) \<and> buf_wf (cn_in_flight k) \<and> buf_wf (cn_tls_plain k) \<and> buf_wf (cn_tls_out k)"

definition server_inv :: "allocator \<Rightarrow> 'x server_world \<Rightarrow> bool" where
  "server_inv am w \<longleftrightarrow>
     router_inv (w_router w) (w_conns w) \<and> conns_ok am (w_conns w) \<and>
     (\<forall>s \<in># all_subs (w_router w). \<not> cn_closing (cn (sub_conn s) w)) \<and>
     (\<forall>c. cn_closing (cn c w) \<longrightarrow> conn_closed (rc c w)) \<and> (\<forall>c. cn_bufs_wf (cn c w)) \<and>
     (\<exists>xs. linked (sv_conn (w_server w)) (sv_conns (w_server w)) xs \<and> (\<forall>c \<in> set xs. \<not> cn_closing (cn c w)))"

text \<open>The invariant depends on the links, the closing flags, the router and its connections only.\<close>

lemma server_inv_cong:
  assumes inv: "server_inv am w" and r: "w_router w' = w_router w"
    and cs: "router_inv (w_router w) (w_conns w') \<and> conns_ok am (w_conns w')"
      "\<And>c. conn_closed (rc c w) \<Longrightarrow> conn_closed (rc c w')"
    and cn: "\<And>c. cn_closing (cn c w') = cn_closing (cn c w) \<and> cn_prev (cn c w') = cn_prev (cn c w) \<and>
        cn_next (cn c w') = cn_next (cn c w) \<and> cn_bufs_wf (cn c w')"
    and hd: "sv_conns (w_server w') = sv_conns (w_server w)"
  shows "server_inv am w'"
proof -
  obtain xs where xs: "linked (sv_conn (w_server w)) (sv_conns (w_server w)) xs" "\<forall>c \<in> set xs. \<not> cn_closing (cn c w)"
    using inv by (auto simp: server_inv_def)
  have "linked (sv_conn (w_server w')) (sv_conns (w_server w')) xs"
    using linked_cong [OF xs(1), of "sv_conn (w_server w')"] cn by (simp add: cn_def hd)
  then show ?thesis using inv r cs cn xs(2) by (auto simp: server_inv_def)
qed

lemma router_inv_out:
  assumes "router_inv r cs" "buf_wf (conn_out k)" "conn_sub_count k = conn_sub_count (cs c)"
  shows "router_inv r (cs(c := k))"
  using assms by (auto simp: router_inv_def counts_ok_def)

lemma server_inv_upd_rc:
  assumes inv: "server_inv am w" and wf: "buf_wf (conn_out (f (rc c w)))"
    and io: "same_io (rc c w) (f (rc c w))" and n: "conn_sub_count (f (rc c w)) = conn_sub_count (rc c w)"
  shows "server_inv am (upd_rc c f w)"
proof (rule server_inv_cong [OF inv])
  have ri: "router_inv (w_router w) (w_conns w)" and ok: "conns_ok am (w_conns w)" using inv by (simp_all add: server_inv_def)
  have r: "router_inv (w_router w) (w_conns (upd_rc c f w))"
    using router_inv_out [OF ri wf] n by (simp add: world_simps rc_def)
  moreover have "conns_ok am (w_conns (upd_rc c f w))"
    by (rule conns_ok_same [OF ok r]) (use io in \<open>simp add: world_simps rc_def\<close>)
  ultimately show "router_inv (w_router w) (w_conns (upd_rc c f w)) \<and> conns_ok am (w_conns (upd_rc c f w))" by blast
qed (use io inv in \<open>auto simp: world_simps same_io_def server_inv_def\<close>)

lemma server_inv_upd_cn:
  assumes "server_inv am w"
    and "cn_closing (f (cn c w)) = cn_closing (cn c w)" "cn_prev (f (cn c w)) = cn_prev (cn c w)"
      "cn_next (f (cn c w)) = cn_next (cn c w)" "cn_bufs_wf (f (cn c w))"
  shows "server_inv am (upd_cn c f w)"
  by (rule server_inv_cong [OF assms(1)]) (use assms in \<open>auto simp: world_simps rc_def server_inv_def\<close>)

lemma server_inv_upd_sv:
  assumes "server_inv am w" "sv_conn (f (w_server w)) = sv_conn (w_server w)" "sv_conns (f (w_server w)) = sv_conns (w_server w)"
  shows "server_inv am (upd_sv f w)"
  by (rule server_inv_cong [OF assms(1)]) (use assms in \<open>auto simp: world_simps cn_def rc_def server_inv_def\<close>)

lemma server_inv_ext_do: "server_inv am w \<Longrightarrow> server_inv am (ext_do f w)"
  unfolding ext_do_def by (rule server_inv_upd_sv) simp_all

lemma server_inv_ext: "server_inv am w \<Longrightarrow> ext f w = (a, w') \<Longrightarrow> server_inv am w'"
  by (auto simp: ext_def intro!: server_inv_upd_sv split: prod.splits)

section \<open>What the operations leave of the connections\<close>

text \<open>
  The frame of every operation on behalf of a connection: receive buffers and TLS states stay,
  a connection that is closing stays so, and so do the fields of the server in \<open>sv_fixed\<close>.
\<close>

definition sv_fixed :: "'x mb_server \<Rightarrow> bool \<times> bool \<times> bytes option \<times> bool \<times> bool" where
  "sv_fixed s = (sv_tls_enabled s, sv_closing s, sv_snapshot_job s, sv_snapshot_write_pending s, sv_snapshot_write_again s)"

lemma sv_fixed_upd [simp]:
  "sv_fixed (s\<lparr>sv_conn := a\<rparr>) = sv_fixed s" "sv_fixed (s\<lparr>sv_conns := b\<rparr>) = sv_fixed s"
  "sv_fixed (s\<lparr>sv_ext := x\<rparr>) = sv_fixed s" "sv_fixed (s\<lparr>sv_total_pubs := n\<rparr>) = sv_fixed s"
  "sv_fixed (s\<lparr>sv_next_client_id := n\<rparr>) = sv_fixed s" "sv_fixed (s\<lparr>sv_conn_count := m\<rparr>) = sv_fixed s"
  by (simp_all add: sv_fixed_def)

definition keep :: "'x server_world \<Rightarrow> 'x server_world \<Rightarrow> bool" where
  "keep w w' \<longleftrightarrow>
     sv_fixed (w_server w') = sv_fixed (w_server w) \<and>
     (\<forall>d. cn_rx (cn d w') = cn_rx (cn d w) \<and> cn_tls_state (cn d w') = cn_tls_state (cn d w) \<and>
        (cn_closing (cn d w) \<longrightarrow> cn_closing (cn d w')))"

lemma keep_refl [simp]: "keep w w"
  by (simp add: keep_def)

lemma keep_trans: "keep a b \<Longrightarrow> keep b c \<Longrightarrow> keep a c"
  by (auto simp: keep_def)

lemma keep_upd [simp]: "keep w (upd_rc c f w)" "keep w (ext_do g w)"
  "(\<And>k. cn_rx (h k) = cn_rx k \<and> cn_tls_state (h k) = cn_tls_state k \<and> (cn_closing k \<longrightarrow> cn_closing (h k))) \<Longrightarrow>
   keep w (upd_cn c h w)"
  "(\<And>s. sv_conn (k s) = sv_conn s \<and> sv_fixed (k s) = sv_fixed s) \<Longrightarrow> keep w (upd_sv k w)"
  by (auto simp: keep_def world_simps cn_def)

lemma keep_ext: "ext f w = (a, w') \<Longrightarrow> keep w w'"
  by (simp add: keep_def ext_result(3,5))

lemma keep_router [simp]: "keep w (r, cs, w_server w)"
  by (simp add: keep_def cn_def)

lemma unlink_keep: "keep w (unlink_conn c w)"
proof -
  have "cn_rx (cn d (unlink_conn c w)) = cn_rx (cn d w) \<and> cn_tls_state (cn d (unlink_conn c w)) = cn_tls_state (cn d w) \<and>
     cn_closing (cn d (unlink_conn c w)) = cn_closing (cn d w)" for d
    by (simp add: unlink_conn_def Let_def world_simps cn_def split: option.split)
  moreover have "sv_fixed (w_server (unlink_conn c w)) = sv_fixed (w_server w)"
    by (simp add: unlink_conn_def Let_def world_simps split: option.split)
  ultimately show ?thesis by (simp add: keep_def)
qed

lemma unlink_other [simp]:
  "w_router (unlink_conn c w) = w_router w" "w_conns (unlink_conn c w) = w_conns w"
  "cn_closing (cn d (unlink_conn c w)) = cn_closing (cn d w)" "rc d (unlink_conn c w) = rc d w"
  by (simp_all add: unlink_conn_def Let_def world_simps cn_def rc_def split: option.split)


lemma unlink_bufs:
  "cn_rx (cn d (unlink_conn c w)) = cn_rx (cn d w)" "cn_in_flight (cn d (unlink_conn c w)) = cn_in_flight (cn d w)"
  "cn_tls_plain (cn d (unlink_conn c w)) = cn_tls_plain (cn d w)" "cn_tls_out (cn d (unlink_conn c w)) = cn_tls_out (cn d w)"
  by (simp_all add: unlink_conn_def Let_def world_simps cn_def split: option.split)


lemma server_inv_flags:
  assumes "server_inv am w"
  shows "server_inv am (upd_cn c (\<lambda>k. k\<lparr>cn_write_pending := p\<rparr>) w)"
    and "server_inv am (upd_cn c (\<lambda>k. k\<lparr>cn_authorized := p\<rparr>) w)"
    and "server_inv am (upd_cn c (\<lambda>k. k\<lparr>cn_tls_state := st\<rparr>) w)"
    and "server_inv am (upd_cn c (\<lambda>k. k\<lparr>cn_tls_plain_off := n\<rparr>) w)"
    and "server_inv am (upd_cn c (\<lambda>k. k\<lparr>cn_client_ip := ip\<rparr>) w)"
    and "buf_wf b \<Longrightarrow> server_inv am (upd_cn c (\<lambda>k. k\<lparr>cn_rx := b\<rparr>) w)"
    and "buf_wf b \<Longrightarrow> server_inv am (upd_cn c (\<lambda>k. k\<lparr>cn_tls_out := b\<rparr>) w)"
    and "buf_wf b \<Longrightarrow> server_inv am (upd_cn c (\<lambda>k. k\<lparr>cn_tls_plain := b\<rparr>) w)"
    and "buf_wf b \<Longrightarrow> server_inv am (upd_cn c (\<lambda>k. k\<lparr>cn_in_flight := b\<rparr>) w)"
proof -
  have "cn_bufs_wf (cn c w)" using assms by (simp add: server_inv_def)
  then show "server_inv am (upd_cn c (\<lambda>k. k\<lparr>cn_write_pending := p\<rparr>) w)"
    "server_inv am (upd_cn c (\<lambda>k. k\<lparr>cn_authorized := p\<rparr>) w)"
    "server_inv am (upd_cn c (\<lambda>k. k\<lparr>cn_tls_state := st\<rparr>) w)"
    "server_inv am (upd_cn c (\<lambda>k. k\<lparr>cn_tls_plain_off := n\<rparr>) w)"
    "server_inv am (upd_cn c (\<lambda>k. k\<lparr>cn_client_ip := ip\<rparr>) w)"
    "buf_wf b \<Longrightarrow> server_inv am (upd_cn c (\<lambda>k. k\<lparr>cn_rx := b\<rparr>) w)"
    "buf_wf b \<Longrightarrow> server_inv am (upd_cn c (\<lambda>k. k\<lparr>cn_tls_out := b\<rparr>) w)"
    "buf_wf b \<Longrightarrow> server_inv am (upd_cn c (\<lambda>k. k\<lparr>cn_tls_plain := b\<rparr>) w)"
    "buf_wf b \<Longrightarrow> server_inv am (upd_cn c (\<lambda>k. k\<lparr>cn_in_flight := b\<rparr>) w)"
    by (simp_all add: server_inv_upd_cn [OF assms] cn_bufs_wf_def)
qed


text \<open>Replacing the router and its connections by what a router operation returns.\<close>

lemma server_inv_router':
  assumes inv: "server_inv am w" and ri: "router_inv r cs" and io: "\<And>d. same_io (w_conns w d) (cs d)"
    and sub: "\<And>s. s \<in># all_subs r \<Longrightarrow> \<not> cn_closing (cn (sub_conn s) w)"
  shows "server_inv am (r, cs, w_server w)"
proof -
  have "conns_ok am cs" using inv by (intro conns_ok_same [OF _ ri io]) (simp add: server_inv_def)
  moreover have "\<forall>c. cn_closing (cn c w) \<longrightarrow> conn_closed (cs c)"
    using inv io by (auto simp: server_inv_def rc_def same_io_def)
  ultimately show ?thesis using inv ri sub by (simp add: server_inv_def cn_def rc_def)
qed

lemma server_inv_router:
  assumes inv: "server_inv am w" and "router_inv r cs" "\<And>d. same_io (w_conns w d) (cs d)"
    and sub: "\<And>s. s \<in># all_subs r \<Longrightarrow> \<exists>t. t \<in># all_subs (w_router w) \<and> sub_conn t = sub_conn s"
  shows "server_inv am (r, cs, w_server w)"
proof (rule server_inv_router' [OF assms(1-3)])
  fix s assume "s \<in># all_subs r"
  then obtain t where "t \<in># all_subs (w_router w)" "sub_conn t = sub_conn s" using sub by blast
  then show "\<not> cn_closing (cn (sub_conn s) w)" using inv by (auto simp: server_inv_def)
qed


lemma dll_unique: "dll h p x as l None \<Longrightarrow> dll h p x bs l' None \<Longrightarrow> as = bs"
proof (induction as arbitrary: p x bs)
  case Nil
  then show ?case by (cases bs) auto
next
  case (Cons a as)
  then show ?case by (cases bs) auto
qed

lemma linked_unique: "linked h x as \<Longrightarrow> linked h x bs \<Longrightarrow> as = bs"
  using dll_unique by (auto simp: linked_def)


end
