(* ===== verification/Conn_Correct.thy ===== *)
theory Conn_Correct
  imports Conn_Inv
begin

text \<open>
  The operations of a client connection keep the invariant of the server. For a server
  without TLS every one of them returns.
\<close>

text \<open>A world is a triple; quantified worlds are kept whole.\<close>

declare split_paired_Ex [simp del] split_paired_All [simp del]

section \<open>Closing\<close>

lemma begin_close_spec:
  assumes inv: "server_inv am w"
  obtains w' where "mb_conn_begin_close ev c w = Some w'" "server_inv am w'" "keep w w'" "cn_closing (cn c w')"
    "\<not> cn_closing (cn c w) \<Longrightarrow> all_subs (w_router w') = filter_mset (\<lambda>s. sub_conn s \<noteq> c) (all_subs (w_router w))"
    "rt_lvc (w_router w') = rt_lvc (w_router w)" "\<And>d. conn_out (rc d w') = conn_out (rc d w)"
    "\<And>d. d \<noteq> c \<Longrightarrow> cn_closing (cn d w') = cn_closing (cn d w) \<and> rc d w' = rc d w"
    "\<And>xs. \<not> cn_closing (cn c w) \<Longrightarrow> linked (sv_conn (w_server w)) (sv_conns (w_server w)) xs \<Longrightarrow>
      linked (sv_conn (w_server w')) (sv_conns (w_server w')) (removeAll c xs)"
proof (cases "cn_closing (cn c w)")
  case True
  then show thesis using that [of w] inv by (simp add: mb_conn_begin_close_def)
next
  case False
  let ?w1 = "upd_rc c (\<lambda>k. k\<lparr>conn_closed := True\<rparr>) (upd_cn c (\<lambda>k. k\<lparr>cn_closing := True\<rparr>) w)"
  have ri: "router_inv (w_router w) (w_conns w)" and ok: "conns_ok am (w_conns w)"
    and stale: "\<forall>s \<in># all_subs (w_router w). \<not> cn_closing (cn (sub_conn s) w)"
    and marked: "\<forall>c. cn_closing (cn c w) \<longrightarrow> conn_closed (rc c w)"
    using inv by (simp_all add: server_inv_def)
  obtain xs where xs: "linked (sv_conn (w_server w)) (sv_conns (w_server w)) xs" "\<forall>c \<in> set xs. \<not> cn_closing (cn c w)"
    using inv by (auto simp: server_inv_def)
  have "buf_wf (conn_out ((w_conns w c)\<lparr>conn_closed := True\<rparr>))" using ri by (simp add: router_inv_def)
  then have ri1: "router_inv (w_router ?w1) (w_conns ?w1)"
    using router_inv_out [OF ri] by (simp add: world_simps)
  have ok1: "conns_ok am (w_conns ?w1)" by (rule conns_ok_step [OF ok]) (simp add: world_simps)
  obtain r cs where r: "mb_router_remove_all_for (w_router ?w1) (w_conns ?w1) c = Some (r, cs)" "router_inv r cs"
      "all_subs r = filter_mset (\<lambda>s. sub_conn s \<noteq> c) (all_subs (w_router ?w1))"
      "\<And>d. d \<noteq> c \<Longrightarrow> cs d = w_conns ?w1 d" "rt_lvc r = rt_lvc (w_router ?w1)"
      "\<And>d. conn_out (cs d) = conn_out (w_conns ?w1 d)"
    by (rule remove_all_for_spec [OF ri1, of c]) blast
  have io: "same_io (w_conns ?w1 d) (cs d)" for d by (rule remove_all_io [OF r(1)])
  have ok2: "conns_ok am cs" by (rule conns_ok_same [OF ok1 r(2) io])
  let ?w2 = "(r, cs, w_server ?w1)"
  let ?w3 = "unlink_conn c ?w2"
  have cl: "cn_closing (cn d ?w3) \<longleftrightarrow> d = c \<or> cn_closing (cn d w)" for d
    unfolding unlink_other by (simp add: world_simps cn_def)
  have links2: "linked (sv_conn (w_server ?w2)) (sv_conns (w_server ?w2)) xs"
    if "linked (sv_conn (w_server w)) (sv_conns (w_server w)) xs" for xs
    using linked_cong [OF that, of "sv_conn (w_server ?w2)"] by (simp add: world_simps cn_def)
  from unlink_conn_linked [OF links2 [OF xs(1)], of c] have inv3: "server_inv am ?w3"
    unfolding server_inv_def
  proof (intro conjI exI)
    show "router_inv (w_router ?w3) (w_conns ?w3)" "conns_ok am (w_conns ?w3)" using r(2) ok2 by simp_all
    show "\<forall>s \<in># all_subs (w_router ?w3). \<not> cn_closing (cn (sub_conn s) ?w3)"
      using stale cl by (auto simp: r(3) world_simps)
    show "\<forall>c. cn_closing (cn c ?w3) \<longrightarrow> conn_closed (rc c ?w3)"
    proof (intro allI impI)
      fix d assume "cn_closing (cn d ?w3)"
      then have "d = c \<or> cn_closing (cn d w)" using cl by blast
      then show "conn_closed (rc d ?w3)"
        using marked io [of d] by (auto simp: world_simps rc_def same_io_def)
    qed
    have "cn_bufs_wf (cn d ?w3)" for d
    proof -
      have "cn_bufs_wf (cn d w)" using inv by (simp add: server_inv_def)
      moreover have "cn_rx (cn d ?w3) = cn_rx (cn d w) \<and> cn_in_flight (cn d ?w3) = cn_in_flight (cn d w) \<and>
          cn_tls_plain (cn d ?w3) = cn_tls_plain (cn d w) \<and> cn_tls_out (cn d ?w3) = cn_tls_out (cn d w)"
        unfolding unlink_bufs by (simp add: world_simps cn_def)
      ultimately show ?thesis by (simp add: cn_bufs_wf_def)
    qed
    then show "\<forall>d. cn_bufs_wf (cn d ?w3)" by blast
    show "\<forall>d \<in> set (removeAll c xs). \<not> cn_closing (cn d ?w3)" using xs(2) cl by simp
  qed
  let ?w4 = "ext_do (uv_read_stop ev c) ?w3"
  let ?w5 = "if \<not> uv_is_closing ev c (sv_ext (w_server ?w4)) then ext_do (uv_close ev c) ?w4 else ?w4"
  have res: "mb_conn_begin_close ev c w = Some ?w5" using r(1) False by (simp add: mb_conn_begin_close_def)
  have k3: "keep w ?w3"
  proof -
    have "keep w ?w2" by (simp add: keep_def world_simps cn_def)
    then show ?thesis using unlink_keep keep_trans by blast
  qed
  have k5: "keep w ?w5" using keep_trans [OF k3] keep_trans [of w ?w4] by simp
  have i5: "server_inv am ?w5" using inv3 by (simp add: server_inv_ext_do)
  have all5: "all_subs (w_router ?w5) = filter_mset (\<lambda>s. sub_conn s \<noteq> c) (all_subs (w_router w))"
      "rt_lvc (w_router ?w5) = rt_lvc (w_router w)"
    by (simp_all add: world_simps r(3,5))
  have rc5: "rc d ?w5 = cs d" for d by (simp add: world_simps rc_def)
  have out5: "conn_out (rc d ?w5) = conn_out (rc d w)" for d
    using r(6) [of d] by (simp add: rc5 world_simps) (simp add: rc_def)
  have cl5: "cn_closing (cn d ?w5) \<longleftrightarrow> d = c \<or> cn_closing (cn d w)" for d using cl [of d] by (simp add: world_simps)
  have oth5: "rc d ?w5 = rc d w" if "d \<noteq> c" for d using r(4) [OF that] that by (simp add: rc5 world_simps) (simp add: rc_def)
  have links5: "linked (sv_conn (w_server ?w5)) (sv_conns (w_server ?w5)) (removeAll c xs)"
    if "linked (sv_conn (w_server w)) (sv_conns (w_server w)) xs" for xs
    using unlink_conn_linked [OF links2 [OF that], of c] by (simp add: world_simps)
  show thesis
    by (rule that [OF res i5 k5 _ all5(1,2) out5]) (use cl5 oth5 links5 in simp_all)
qed

lemma write_err_or_close_spec:
  assumes inv: "server_inv am w"
  obtains w' where "write_err_or_close am ev c msg w = Some w'" "server_inv am w'" "keep w w'"
    "cn_closing (cn c w') \<or> w_router w' = w_router w"
proof -
  obtain ok b where wr: "mb_write_err am (conn_out (rc c w)) msg = (ok, b)" by fastforce
  have "buf_wf (conn_out (rc c w))" using inv by (simp add: server_inv_def router_inv_def rc_def)
  then have wf: "buf_wf b" using write_err.keeps_wf [of "conn_out (rc c w)" am msg] wr by simp
  let ?w = "upd_rc c (\<lambda>k. k\<lparr>conn_out := b\<rparr>) w"
  have i: "server_inv am ?w" by (rule server_inv_upd_rc [OF inv]) (simp_all add: wf)
  obtain w2 where w2: "mb_conn_begin_close ev c ?w = Some w2" "server_inv am w2" "keep ?w w2" "cn_closing (cn c w2)"
    by (rule begin_close_spec [OF i, of ev c]) blast
  show thesis
  proof (cases ok)
    case True
    then have "write_err_or_close am ev c msg w = Some ?w" using wr by (simp add: write_err_or_close_def Let_def)
    then show thesis using that i by (simp add: world_simps)
  next
    case False
    then have "write_err_or_close am ev c msg w = Some w2" using wr w2(1) by (simp add: write_err_or_close_def Let_def)
    then show thesis using that w2 keep_trans [OF keep_upd(1) w2(3)] by blast
  qed
qed


section \<open>Writing\<close>

definition tls_off :: "'x server_world \<Rightarrow> bool" where
  "tls_off w \<longleftrightarrow> (\<forall>c. cn_tls_state (cn c w) = MB_CONN_TLS_OFF)"

lemma tls_off_keep: "tls_off w \<Longrightarrow> keep w w' \<Longrightarrow> tls_off w'"
  by (simp add: tls_off_def keep_def)

lemma write_socket_from_spec:
  assumes inv: "server_inv am w"
  obtains ok w' where "write_socket_from ev c src w = Some (ok, w')" "server_inv am w'" "keep w w'"
proof (cases "cn_closing (cn c w) \<or> cn_write_pending (cn c w) \<or> buf_len (src_buf src c w) = 0")
  case True
  then show thesis using that [of True w] inv by (simp add: write_socket_from_def)
next
  case False
  have wf: "cn_bufs_wf (cn c w)" "buf_wf (conn_out (rc c w))"
    using inv by (simp_all add: server_inv_def router_inv_def rc_def)
  let ?w1 = "upd_cn c (\<lambda>k. k\<lparr>cn_in_flight := src_buf src c w\<rparr>) (set_src_buf src c (cn_in_flight (cn c w)) w)"
  have 1: "server_inv am ?w1" "keep w ?w1"
  proof -
    have s: "server_inv am (set_src_buf src c (cn_in_flight (cn c w)) w)" "keep w (set_src_buf src c (cn_in_flight (cn c w)) w)"
      using inv wf
      by (cases src; auto simp: set_src_buf_def cn_bufs_wf_def intro!: server_inv_upd_rc server_inv_upd_cn)+
    show "server_inv am ?w1"
      by (rule server_inv_upd_cn [OF s(1)])
         (use wf in \<open>cases src; simp add: cn_bufs_wf_def set_src_buf_def src_buf_def world_simps\<close>)+
    show "keep w ?w1" using keep_trans [OF s(2)] by simp
  qed
  show thesis
  proof (cases "UINT_MAX < buf_len (cn_in_flight (cn c ?w1))")
    case True
    obtain w2 where "mb_conn_begin_close ev c ?w1 = Some w2" "server_inv am w2" "keep ?w1 w2"
      by (rule begin_close_spec [OF 1(1), of ev c]) blast
    then show thesis
      using that [of False w2] False True keep_trans [OF 1(2)] by (simp add: write_socket_from_def mb_buf_swap_def)
  next
    case fits: False
    let ?w2 = "upd_cn c (\<lambda>k. k\<lparr>cn_write_pending := True\<rparr>) ?w1"
    obtain ok w3 where w3: "ext (uv_write ev c (buf_data (cn_in_flight (cn c ?w2)))) ?w2 = (ok, w3)"
      using prod.exhaust by blast
    have i2: "server_inv am ?w2" by (rule server_inv_flags(1) [OF 1(1)])
    have k2: "keep w ?w2" using keep_trans [OF 1(2)] by simp
    have i3: "server_inv am w3" "keep w w3"
      using server_inv_ext [OF i2 w3] keep_trans [OF k2 keep_ext [OF w3]] by blast+
    show thesis
    proof (cases ok)
      case True
      then show thesis
        using that [of True w3] i3 False fits w3 by (simp add: write_socket_from_def mb_buf_swap_def Let_def)
    next
      case bad: False
      let ?w4 = "upd_cn c (\<lambda>k. k\<lparr>cn_write_pending := False\<rparr>) w3"
      have i4: "server_inv am ?w4" by (rule server_inv_flags(1) [OF i3(1)])
      obtain w5 where w5: "mb_conn_begin_close ev c ?w4 = Some w5" "server_inv am w5" "keep ?w4 w5"
        by (rule begin_close_spec [OF i4, of ev c]) blast
      have "keep w w5" using keep_trans [OF keep_trans [OF i3(2)] w5(3)] by simp
      then show thesis
        using that [of False w5] w5 False fits w3 bad by (simp add: write_socket_from_def mb_buf_swap_def Let_def)
    qed
  qed
qed

lemma kick_write_spec:
  assumes inv: "server_inv am w" and off: "tls_off w"
  obtains w' where "mb_conn_kick_write am ev c w = Some w'" "server_inv am w'" "keep w w'"
proof (cases "cn_closing (cn c w)")
  case True
  then show thesis using that [of w] inv by (simp add: mb_conn_kick_write_def)
next
  case False
  obtain w1 where w1: "mb_conn_begin_close ev c w = Some w1" "server_inv am w1" "keep w w1"
    by (rule begin_close_spec [OF inv, of ev c]) blast
  obtain ok w2 where w2: "write_socket_from ev c FROM_OUT w = Some (ok, w2)" "server_inv am w2" "keep w w2"
    by (rule write_socket_from_spec [OF inv]) blast
  have st: "cn_tls_state (cn c w) = MB_CONN_TLS_OFF" using off by (simp add: tls_off_def)
  have "mb_conn_kick_write am ev c w =
      Some (if \<not> pending_bytes c w \<le> MB_MAX_PENDING then w1 else if cn_write_pending (cn c w) then w else w2)"
    using False w1(1) w2(1) st by (auto simp: mb_conn_kick_write_def close_if_slow_consumer_def)
  then show thesis using that w1 w2 inv by (auto split: if_splits)
qed


section \<open>The server as a client of the router\<close>

text \<open>
  What a server without TLS relies on: the evaluation of the patchbay program and the bridge
  return, keep the invariant and leave receive buffers alone.
\<close>

locale plain_server =
  fixes am :: allocator and ev :: "'x env"
  assumes eval_returns: "server_inv am w \<Longrightarrow> tls_off w \<Longrightarrow>
      \<exists>ok w'. eval_publish ev subject payload now wall w = Some (ok, w') \<and> server_inv am w' \<and> keep w w'"
    and bridge_returns: "server_inv am w \<Longrightarrow> tls_off w \<Longrightarrow>
      \<exists>w'. bridge_fn ev subject payload options w = Some w' \<and> server_inv am w' \<and> keep w w'"

text \<open>The contract of the router holds, in the frame of any starting state.\<close>

lemma server_inv_store:
  assumes inv: "server_inv am (r, cs, s)" and v: "lvc_ok v"
  shows "server_inv am (r\<lparr>rt_lvc := v\<rparr>, cs, s)"
proof -
  have all: "all_subs (r\<lparr>rt_lvc := v\<rparr>) = all_subs r" by (simp add: all_subs_def)
  have "router_inv (r\<lparr>rt_lvc := v\<rparr>) cs"
    using inv v by (simp add: server_inv_def router_inv_def store_ok_def scratch_ok_def all)
  then show ?thesis using inv by (simp add: server_inv_def all cn_def rc_def)
qed

lemma server_inv_deliver:
  assumes inv: "server_inv am (r, cs, s)"
    and eff: "publish_effect (r\<lparr>kick_epoch := e\<rparr>) \<lparr>ps_conns = cs, ps_kicked = [], ps_closed = []\<rparr> r' ps"
    and pub: "publishing am (sub_conn ` set_mset (all_subs r)) r' ps"
  shows "server_inv am (r', ps_conns ps, s)"
proof -
  have "\<forall>t \<in># all_subs r'. \<not> cn_closing (sv_conn s (sub_conn t))"
  proof
    fix t assume "t \<in># all_subs r'"
    then obtain t' where "t' \<in># all_subs r" "sub_conn t = sub_conn t'" using pub by (auto simp: publishing_def)
    then show "\<not> cn_closing (sv_conn s (sub_conn t))" using inv by (simp add: server_inv_def cn_def)
  qed
  moreover have "\<forall>c. cn_closing (sv_conn s c) \<longrightarrow> conn_closed (ps_conns ps c)"
    using inv eff by (simp add: server_inv_def cn_def rc_def publish_effect_def conn_step_def)
  ultimately show ?thesis
    using inv pub by (simp add: server_inv_def publishing_def cn_def rc_def)
qed

sublocale plain_server \<subseteq> client: router_client am "server_callbacks am ev" "\<lambda>w. server_inv am w \<and> tls_off w \<and> keep w0 w" for w0
proof
  fix r cs x v ps r' w c subject payload options
  let ?I = "\<lambda>w. server_inv am w \<and> tls_off w \<and> keep w0 w"
  show "router_inv r cs \<and> conns_ok am cs" if "?I (r, cs, x)" using that by (simp add: server_inv_def)
  show "?I (r\<lparr>rt_lvc := v\<rparr>, cs, x)" if "?I (r, cs, x)" "lvc_ok v"
    using that server_inv_store by (auto simp: tls_off_def keep_def cn_def)
  show "?I (r', ps_conns ps, x)" if "?I (r, cs, x)"
    "publish_effect (r\<lparr>kick_epoch := next_epoch (kick_epoch r)\<rparr>) \<lparr>ps_conns = cs, ps_kicked = [], ps_closed = []\<rparr> r' ps"
    "publishing am (sub_conn ` set_mset (all_subs r)) r' ps"
    using that server_inv_deliver by (auto simp: tls_off_def keep_def cn_def)
  have step: "\<exists>w'. f w = Some w' \<and> ?I w'"
    if "?I w" "\<exists>w'. f w = Some w' \<and> server_inv am w' \<and> keep w w'" for f :: "'x server_world \<Rightarrow> 'x server_world option"
    using that tls_off_keep keep_trans by blast
  show "\<exists>w'. cb_close (server_callbacks am ev) c w = Some w' \<and> ?I w'" if "?I w"
  proof (rule step [OF that])
    have inv: "server_inv am w" using that by blast
    obtain w' where "mb_conn_begin_close ev c w = Some w'" "server_inv am w'" "keep w w'"
      by (rule begin_close_spec [OF inv, of ev c]) blast
    then show "\<exists>w'. cb_close (server_callbacks am ev) c w = Some w' \<and> server_inv am w' \<and> keep w w'"
      by (simp add: server_callbacks_def close_conn_from_router_def)
  qed
  show "\<exists>w'. cb_kick (server_callbacks am ev) c w = Some w' \<and> ?I w'" if "?I w"
  proof (rule step [OF that])
    have inv: "server_inv am w" and off: "tls_off w" using that by blast+
    obtain w' where "mb_conn_kick_write am ev c w = Some w'" "server_inv am w'" "keep w w'"
      by (rule kick_write_spec [OF inv off, of ev c]) blast
    then show "\<exists>w'. cb_kick (server_callbacks am ev) c w = Some w' \<and> server_inv am w' \<and> keep w w'"
      by (simp add: server_callbacks_def)
  qed
  show "\<exists>w'. cb_bridge (server_callbacks am ev) subject payload options w = Some w' \<and> ?I w'" if "?I w"
    by (rule step [OF that]) (use bridge_returns that in \<open>simp add: server_callbacks_def\<close>)
qed


section \<open>One operation\<close>

context plain_server
begin

lemma client_publish_returns:
  assumes inv: "server_inv am w" and off: "tls_off w"
  shows "\<exists>st w'. mb_server_client_publish am ev subject payload reply w = Some (st, w') \<and> server_inv am w' \<and> keep w w'"
proof (cases "\<not> sv_client_pubs_enabled (w_server w) \<or> mb_router_subject_has_lvc_prefix subject \<or>
    mb_router_subject_has_stats_prefix subject")
  case True
  then show ?thesis using inv by (auto simp: mb_server_client_publish_def client_publish_via_def)
next
  case False
  have I: "server_inv am w \<and> tls_off w \<and> keep w w" using inv off by simp
  obtain ok w1 where p: "mb_router_publish_with_reply am (server_callbacks am ev) w subject payload reply = Some (ok, w1)"
      "server_inv am w1 \<and> tls_off w1 \<and> keep w w1"
    unfolding mb_router_publish_with_reply_def
    by (rule client.publish_returns [OF I, of subject payload reply publish_options_zero]) blast
  let ?w2 = "ext_do (uv_update_time ev) (upd_sv (\<lambda>s. s\<lparr>sv_total_pubs := sv_total_pubs s + 1\<rparr>) w1)"
  have i2: "server_inv am ?w2" using p(2) by (intro server_inv_ext_do server_inv_upd_sv) auto
  have "keep w1 ?w2" by (rule keep_trans [OF keep_upd(4) keep_upd(2)]) simp
  then have k2: "keep w ?w2" using p(2) keep_trans by blast
  have off2: "tls_off ?w2" by (rule tls_off_keep [OF off k2])
  obtain ok2 w3 where e: "eval_publish ev subject payload (mb_server_patchbay_now_ms ev ?w2)
      (mb_wall_clock_ms ev (sv_ext (w_server ?w2))) ?w2 = Some (ok2, w3)" "server_inv am w3" "keep ?w2 w3"
    using eval_returns [OF i2 off2] by blast
  have k3: "keep w w3" by (rule keep_trans [OF k2 e(3)])
  let ?w4 = "mb_server_reschedule_patchbay_clock ev w3"
  have i4: "server_inv am ?w4" "keep w3 ?w4"
    using e(2) by (auto simp: mb_server_reschedule_patchbay_clock_def Let_def server_inv_ext_do
        intro: keep_trans [OF keep_upd(2) keep_upd(2)] split: option.split)
  have "mb_server_client_publish am ev subject payload reply w =
      Some (if \<not> ok then (MB_CLIENT_PUBLISH_ROUTER_FAILED, w1)
        else if \<not> ok2 then (MB_CLIENT_PUBLISH_PATCHBAY_FAILED, w3) else (MB_CLIENT_PUBLISH_OK, ?w4))"
    using False p(1) e(1) by (simp add: mb_server_client_publish_def client_publish_via_def Let_def)
  then show ?thesis using p(2) e(2) k3 i4 keep_trans [OF k3 i4(2)] by (cases ok; cases ok2) auto
qed

lemma handle_op_returns:
  assumes inv: "server_inv am w" and off: "tls_off w" and opn: "\<not> cn_closing (cn c w)"
  shows "\<exists>w'. handle_op am ev c op w = Some w' \<and> server_inv am w' \<and> keep w w'"
proof -
  have err: "\<exists>w'. write_err_or_close am ev c msg u = Some w' \<and> server_inv am w' \<and> keep w w'"
    if "server_inv am u" "keep w u" for msg u
    using write_err_or_close_spec [OF that(1), of ev c msg] keep_trans [OF that(2)] by metis
  have close: "\<exists>w'. mb_conn_begin_close ev c u = Some w' \<and> server_inv am w' \<and> keep w w'"
    if "server_inv am u" "keep w u" for u
    using begin_close_spec [OF that(1), of ev c] keep_trans [OF that(2)] by metis
  have viol: "\<exists>w'. auth_violation am ev c w = Some w' \<and> server_inv am w' \<and> keep w w'"
    using err [OF inv keep_refl, of "''Authorization Violation''"] close by (auto simp: auth_violation_def)
  consider (unauth) "\<not> cn_authorized (cn c w)" | (down) "cn_authorized (cn c w)" "sv_closing (w_server w) \<and> op_mutates_server_state op"
    | (run) "cn_authorized (cn c w)" "\<not> (sv_closing (w_server w) \<and> op_mutates_server_state op)" by blast
  then show ?thesis
  proof cases
    case unauth
    then show ?thesis
      using viol server_inv_flags(2) [OF inv] by (auto simp: handle_op_def)
  next
    case down
    then show ?thesis using err [OF inv keep_refl] by (simp add: handle_op_def)
  next
    case run
    show ?thesis
    proof (cases "op_kind op")
      case MB_OP_CONNECT
      then show ?thesis using run inv by (auto simp: handle_op_def)
    next
      case MB_OP_PING
      obtain ok b where wr: "mb_write_pong am (conn_out (rc c w)) = (ok, b)" by fastforce
      have "buf_wf (conn_out (rc c w))" using inv by (simp add: server_inv_def router_inv_def rc_def)
      then have wf: "buf_wf b" using write_pong.keeps_wf [of "conn_out (rc c w)" am] wr by simp
      have "server_inv am (upd_rc c (\<lambda>k. k\<lparr>conn_out := b\<rparr>) w)"
        by (rule server_inv_upd_rc [OF inv]) (simp_all add: wf)
      then show ?thesis using MB_OP_PING run wr close by (auto simp: handle_op_def Let_def)
    next
      case MB_OP_UNSUB
      have ri: "router_inv (w_router w) (w_conns w)" and ok: "conns_ok am (w_conns w)" using inv by (simp_all add: server_inv_def)
      obtain r cs where u: "mb_router_unsubscribe (w_router w) (w_conns w) c (op_sid op) (op_max_msgs op) (op_has_max_msgs op) = Some (r, cs)"
          "router_inv r cs" "all_subs r = kept (unsubscribe_sub c (op_sid op) (op_max_msgs op) (op_has_max_msgs op)) (all_subs (w_router w))"
        using unsubscribe_spec [OF ri, of c "op_sid op" "op_max_msgs op" "op_has_max_msgs op"] by metis
      have sub: "\<exists>t. t \<in># all_subs (w_router w) \<and> sub_conn t = sub_conn s" if "s \<in># all_subs r" for s
        using that unfolding u(3) kept_members by (auto simp: unsubscribe_sub_def split: if_splits)
      have "server_inv am (r, cs, w_server w)"
        by (rule server_inv_router [OF inv u(2) unsubscribe_io [OF u(1)] sub])
      then show ?thesis using MB_OP_UNSUB run u(1) by (auto simp: handle_op_def)
    next
      case MB_OP_SUB
      have ri: "router_inv (w_router w) (w_conns w)" using inv by (simp add: server_inv_def)
      obtain ok r cs where u: "mb_router_subscribe_queue am (w_router w) (w_conns w) (Some c) (op_subject op) (op_queue op) (op_sid op) = Some (ok, r, cs)"
          "router_inv r cs"
          "ok \<Longrightarrow> \<exists>c'. Some c = Some c' \<and> all_subs r = add_mset (requested_sub c' (op_subject op) (op_queue op) (op_sid op)) (all_subs (w_router w))"
          "\<not> ok \<Longrightarrow> all_subs r = all_subs (w_router w) \<or> (\<exists>c'. Some c = Some c' \<and> mb_router_subject_has_lvc_prefix (op_subject op) \<and>
             all_subs r = filter_mset (\<lambda>s. \<not> (sub_conn s = c' \<and> sub_sid s = op_sid op)) (all_subs (w_router w)))"
        by (rule subscribe_spec [OF ri, of am "Some c" "op_subject op" "op_queue op" "op_sid op"]) blast
      have sub: "\<not> cn_closing (cn (sub_conn s) w)" if "s \<in># all_subs r" for s
        using that u(3,4) inv opn by (cases ok) (auto simp: server_inv_def requested_sub_def fresh_sub_def Let_def)
      have "server_inv am (r, cs, w_server w)"
        by (rule server_inv_router' [OF inv u(2) subscribe_io [OF u(1)] sub])
      then show ?thesis
        using MB_OP_SUB run u(1) err [of "(r, cs, w_server w)"] err [OF inv keep_refl] by (auto simp: handle_op_def Let_def)
    next
      case MB_OP_PUB
      obtain st w1 where p: "mb_server_client_publish am ev (op_subject op) (op_payload op) (op_reply_to op) w = Some (st, w1)"
          "server_inv am w1" "keep w w1" using client_publish_returns [OF inv off] by blast
      have "\<exists>w'. answer_publish am ev c st w1 = Some w' \<and> server_inv am w' \<and> keep w w'"
        using err [OF p(2,3)] p(2,3) by (cases st) (auto simp: answer_publish_def)
      then show ?thesis using MB_OP_PUB run p(1) by (auto simp: handle_op_def)
    qed
  qed
qed

end


section \<open>The receive loop\<close>

context plain_server
begin

lemma process_rx_loop_returns:
  assumes "server_inv am w" "tls_off w" "\<not> cn_closing (cn c w)"
  shows "\<exists>res w'. process_rx_loop am ev c cursor w = Some (res, w') \<and> server_inv am w' \<and> keep w w' \<and>
    (res = None \<longrightarrow> cn_closing (cn c w'))"
  using assms
proof (induction "length (buf_data (cn_rx (cn c w))) - cursor" arbitrary: cursor w rule: less_induct)
  case less
  let ?data = "buf_data (cn_rx (cn c w))"
  let ?rest = "drop cursor ?data"
  let ?res = "mb_parse_client_op ?rest"
  note loop = process_rx_loop.simps [of am ev c cursor w]
  consider (stop) "?rest = [] \<or> pr_status ?res = MB_PARSE_NEED_MORE"
    | (fatal) "?rest \<noteq> []" "fatal_status (pr_status ?res)"
    | (bad) "?rest \<noteq> []" "pr_status ?res \<noteq> MB_PARSE_NEED_MORE" "pr_status ?res \<noteq> MB_PARSE_OK" "\<not> fatal_status (pr_status ?res)"
    | (ok) "?rest \<noteq> []" "pr_status ?res = MB_PARSE_OK" by blast
  then show ?case
  proof cases
    case stop
    then have "process_rx_loop am ev c cursor w = Some (Some cursor, w)" by (auto simp: loop Let_def)
    then show ?thesis using less.prems(1) by simp
  next
    case fatal
    obtain w1 where w1: "write_err_or_close am ev c ''Protocol Violation'' w = Some w1" "server_inv am w1" "keep w w1"
      by (rule write_err_or_close_spec [OF less.prems(1)]) blast
    obtain w2 where w2: "mb_conn_begin_close ev c w1 = Some w2" "server_inv am w2" "keep w1 w2" "cn_closing (cn c w2)"
      by (rule begin_close_spec [OF w1(2), of ev c]) blast
    have "process_rx_loop am ev c cursor w = Some (None, w2)" using fatal w1(1) w2(1) by (auto simp: loop Let_def)
    then show ?thesis using w2 keep_trans [OF w1(3) w2(3)] by simp
  next
    case bad
    obtain w1 where w1: "write_err_or_close am ev c (status_msg (pr_status ?res)) w = Some w1" "server_inv am w1" "keep w w1"
      by (rule write_err_or_close_spec [OF less.prems(1)]) blast
    have same: "buf_data (cn_rx (cn c w1)) = ?data" using w1(3) by (simp add: keep_def)
    let ?next = "cursor + length (takeWhile (\<lambda>ch. ch \<noteq> LF) ?rest) + 1"
    have step: "process_rx_loop am ev c cursor w =
        (if cn_closing (cn c w1) then Some (None, w1)
         else if LF \<in> set ?rest then process_rx_loop am ev c ?next w1 else Some (Some cursor, w1))"
      using bad w1(1) same by (simp add: loop Let_def)
    show ?thesis
    proof (cases "\<not> cn_closing (cn c w1) \<and> LF \<in> set ?rest")
      case True
      have "length (buf_data (cn_rx (cn c w1))) - ?next < length ?data - cursor" using bad(1) same by auto
      from less.hyps [OF this w1(2) tls_off_keep [OF less.prems(2) w1(3)]] True obtain res w' where
        "process_rx_loop am ev c ?next w1 = Some (res, w')" "server_inv am w'" "keep w1 w'"
        "res = None \<longrightarrow> cn_closing (cn c w')" by blast
      then show ?thesis using step True keep_trans [OF w1(3)] by auto
    next
      case False
      then show ?thesis using step w1 by auto
    qed
  next
    case ok
    obtain w1 where w1: "handle_op am ev c (pr_op ?res) w = Some w1" "server_inv am w1" "keep w w1"
      using handle_op_returns [OF less.prems] by blast
    have same: "buf_data (cn_rx (cn c w1)) = ?data" using w1(3) by (simp add: keep_def)
    have step: "process_rx_loop am ev c cursor w =
        (if cn_closing (cn c w1) then Some (None, w1)
         else process_rx_loop am ev c (cursor + pr_consumed ?res) w1)"
      using ok w1(1) by (simp add: loop Let_def)
    show ?thesis
    proof (cases "cn_closing (cn c w1)")
      case True
      then show ?thesis using step w1 by auto
    next
      case False
      have "0 < pr_consumed ?res" using client_op_ok_wf [OF ok(2)] by simp
      then have "length (buf_data (cn_rx (cn c w1))) - (cursor + pr_consumed ?res) < length ?data - cursor"
        using ok(1) same by auto
      from less.hyps [OF this w1(2) tls_off_keep [OF less.prems(2) w1(3)] False] obtain res w' where
        "process_rx_loop am ev c (cursor + pr_consumed ?res) w1 = Some (res, w')" "server_inv am w'" "keep w1 w'"
        "res = None \<longrightarrow> cn_closing (cn c w')" by blast
      then show ?thesis using step False keep_trans [OF w1(3)] by auto
    qed
  qed
qed

end


section \<open>Callbacks of the event loop\<close>

text \<open>The frame of the callbacks, which also fill and drain the receive buffer.\<close>

definition keep_tls :: "'x server_world \<Rightarrow> 'x server_world \<Rightarrow> bool" where
  "keep_tls w w' \<longleftrightarrow> sv_fixed (w_server w') = sv_fixed (w_server w) \<and>
     (\<forall>d. cn_tls_state (cn d w') = cn_tls_state (cn d w) \<and> (cn_closing (cn d w) \<longrightarrow> cn_closing (cn d w')))"

lemma keep_tls: "keep w w' \<Longrightarrow> keep_tls w w'"
  by (simp add: keep_def keep_tls_def)

lemma keep_tls_trans: "keep_tls a b \<Longrightarrow> keep_tls b c \<Longrightarrow> keep_tls a c"
  by (simp add: keep_tls_def)

lemma keep_tls_rx [simp]: "keep_tls w (upd_cn c (\<lambda>k. k\<lparr>cn_rx := f k\<rparr>) w)"
  by (simp add: keep_tls_def world_simps)

lemma tls_off_keep_tls: "tls_off w \<Longrightarrow> keep_tls w w' \<Longrightarrow> tls_off w'"
  by (simp add: tls_off_def keep_tls_def)

lemma buf_wf_consume: "buf_wf b \<Longrightarrow> buf_wf (mb_buf_consume b n)"
  by (auto simp: buf_wf_def mb_buf_consume_def)

lemma server_inv_consume:
  assumes inv: "server_inv am w"
  shows "server_inv am (upd_cn c (\<lambda>k. k\<lparr>cn_rx := mb_buf_consume (cn_rx k) n\<rparr>) w)"
proof -
  have "cn_bufs_wf (cn c w)" using inv by (simp add: server_inv_def)
  then show ?thesis by (intro server_inv_upd_cn [OF inv]) (auto simp: cn_bufs_wf_def buf_wf_consume)
qed

context plain_server
begin

lemma process_rx_returns:
  assumes inv: "server_inv am w" and off: "tls_off w" and opn: "\<not> cn_closing (cn c w)"
  shows "\<exists>w'. process_rx am ev c w = Some w' \<and> server_inv am w' \<and> keep_tls w w'"
proof -
  obtain res w1 where l: "process_rx_loop am ev c 0 w = Some (res, w1)" "server_inv am w1" "keep w w1"
    using process_rx_loop_returns [OF assms] by blast
  show ?thesis
  proof (cases res)
    case None
    then have "process_rx am ev c w = Some w1" using l(1) by (simp add: process_rx_def)
    then show ?thesis using l(2,3) keep_tls by blast
  next
    case (Some cursor)
    define w2 where "w2 = (if 0 < cursor then upd_cn c (\<lambda>k. k\<lparr>cn_rx := mb_buf_consume (cn_rx k) cursor\<rparr>) w1 else w1)"
    have i2: "server_inv am w2" using server_inv_consume [OF l(2)] l(2) by (simp add: w2_def)
    have "keep_tls w1 w2" by (simp add: w2_def keep_tls)
    then have k2: "keep_tls w w2" using keep_tls [OF l(3)] keep_tls_trans by blast
    obtain w3 where w3: "mb_conn_begin_close ev c w2 = Some w3" "server_inv am w3" "keep w2 w3"
      by (rule begin_close_spec [OF i2, of ev c]) blast
    have "process_rx am ev c w = Some (if MB_MAX_RX < buf_len (cn_rx (cn c w2)) then w3 else w2)"
      using l(1) Some w3(1) by (simp add: process_rx_def Let_def w2_def [symmetric])
    then show ?thesis using i2 k2 w3(2) keep_tls_trans [OF k2 keep_tls [OF w3(3)]] by (auto split: if_splits)
  qed
qed

lemma read_cb_returns:
  assumes inv: "server_inv am w" and off: "tls_off w" and opn: "\<not> cn_closing (cn c w)"
  shows "\<exists>w'. read_cb am ev c nread data w = Some w' \<and> server_inv am w' \<and> keep_tls w w'"
proof -
  have st: "cn_tls_state (cn c w) = MB_CONN_TLS_OFF" using off by (simp add: tls_off_def)
  have close: "\<exists>w'. mb_conn_begin_close ev c u = Some w' \<and> server_inv am w' \<and> keep_tls w w'"
    if "server_inv am u" "keep_tls w u" for u
    using begin_close_spec [OF that(1), of ev c] keep_tls_trans [OF that(2) keep_tls] by metis
  consider (err) "nread < 0" | (none) "nread = 0" | (data) "0 < nread" by linarith
  then show ?thesis
  proof cases
    case err
    then show ?thesis using close [OF inv keep_tls [OF keep_refl]] by (simp add: read_cb_def)
  next
    case none
    then show ?thesis using inv keep_tls [OF keep_refl] by (simp add: read_cb_def)
  next
    case data
    obtain ok b where ap: "mb_buf_append am (cn_rx (cn c w)) data = (ok, b)" by fastforce
    have "buf_wf (cn_rx (cn c w))" using inv by (simp add: server_inv_def cn_bufs_wf_def)
    then have wf: "buf_wf b" using mb_buf_append_wf [of "cn_rx (cn c w)" am data] ap by simp
    let ?w1 = "upd_cn c (\<lambda>k. k\<lparr>cn_rx := b\<rparr>) w"
    have i1: "server_inv am ?w1" by (rule server_inv_flags(6) [OF inv wf])
    have k1: "keep_tls w ?w1" by simp
    have off1: "tls_off ?w1" by (rule tls_off_keep_tls [OF off k1])
    have opn1: "\<not> cn_closing (cn c ?w1)" using opn by (simp add: world_simps)
    obtain w2 where w2: "process_rx am ev c ?w1 = Some w2" "server_inv am w2" "keep_tls ?w1 w2"
      using process_rx_returns [OF i1 off1 opn1] by blast
    have k2: "keep_tls w w2" by (rule keep_tls_trans [OF k1 w2(3)])
    obtain w3 where w3: "mb_conn_kick_write am ev c w2 = Some w3" "server_inv am w3" "keep w2 w3"
      by (rule kick_write_spec [OF w2(2) tls_off_keep_tls [OF off k2], of ev c]) blast
    have "read_cb am ev c nread data w =
        (if \<not> ok then mb_conn_begin_close ev c ?w1 else Some (if cn_closing (cn c w2) then w2 else w3))"
      using data st ap w2(1) w3(1) by (simp add: read_cb_def Let_def)
    then show ?thesis
      using close [OF i1 k1] w2(2) k2 w3(2) keep_tls_trans [OF k2 keep_tls [OF w3(3)]] by (auto split: if_splits)
  qed
qed

lemma write_cb_returns:
  assumes inv: "server_inv am w" and off: "tls_off w"
  shows "\<exists>w'. write_cb am ev c status w = Some w' \<and> server_inv am w' \<and> keep_tls w w'"
proof -
  let ?w1 = "upd_cn c (\<lambda>k. k\<lparr>cn_write_pending := False\<rparr>) w"
  have i1: "server_inv am ?w1" by (rule server_inv_flags(1) [OF inv])
  obtain w2 where w2: "mb_conn_begin_close ev c ?w1 = Some w2" "server_inv am w2" "keep ?w1 w2"
    by (rule begin_close_spec [OF i1, of ev c]) blast
  let ?w3 = "upd_cn c (\<lambda>k. k\<lparr>cn_write_pending := False\<rparr>) (upd_cn c (\<lambda>k. k\<lparr>cn_in_flight := mb_buf_clear (cn_in_flight k)\<rparr>) w)"
  have "cn_bufs_wf (cn c w)" using inv by (simp add: server_inv_def)
  then have "server_inv am (upd_cn c (\<lambda>k. k\<lparr>cn_in_flight := mb_buf_clear (cn_in_flight k)\<rparr>) w)"
    by (intro server_inv_upd_cn [OF inv]) (auto simp: cn_bufs_wf_def mb_buf_clear_def buf_wf_def)
  then have i3: "server_inv am ?w3" by (rule server_inv_flags(1))
  have k3: "keep w ?w3" by (rule keep_trans [OF keep_upd(3) keep_upd(3)]) simp_all
  obtain w4 where w4: "mb_conn_kick_write am ev c ?w3 = Some w4" "server_inv am w4" "keep ?w3 w4"
    by (rule kick_write_spec [OF i3 tls_off_keep [OF off k3], of ev c]) blast
  have st: "cn_tls_state (cn c ?w3) = MB_CONN_TLS_OFF" using tls_off_keep [OF off k3] by (simp add: tls_off_def)
  have "write_cb am ev c status w = Some (if status < 0 \<or> cn_closing (cn c w) then w2 else w4)"
    using w2(1) w4(1) st by (simp add: write_cb_def Let_def)
  moreover have "keep_tls w w2" using keep_tls [OF keep_trans [OF keep_upd(3) w2(3)]] by simp
  moreover have "keep_tls w w4" by (rule keep_tls [OF keep_trans [OF k3 w4(3)]])
  ultimately show ?thesis using w2(2) w4(2) by (auto split: if_splits)
qed

end


section \<open>Accepting\<close>

text \<open>A pointer that \<open>calloc\<close> may return: no connection of the list and no subscription uses it.\<close>

definition fresh_id :: "conn_id \<Rightarrow> 'x server_world \<Rightarrow> bool" where
  "fresh_id c w \<longleftrightarrow>
     (\<forall>s \<in># all_subs (w_router w). sub_conn s \<noteq> c) \<and>
     (\<forall>xs. linked (sv_conn (w_server w)) (sv_conns (w_server w)) xs \<longrightarrow> c \<notin> set xs)"

lemma buf_wf_zero [simp]: "buf_wf mb_buf_zero"
  by (simp add: buf_wf_def mb_buf_zero_def)

lemma subs_of_fresh: "(\<And>s. s \<in># M \<Longrightarrow> sub_conn s \<noteq> c) \<Longrightarrow> subs_of c M = 0"
  by (auto simp: subs_of_def)

lemma new_conn_inv:
  assumes inv: "server_inv am w" and fresh: "fresh_id c w"
  shows "server_inv am (new_conn c w)"
proof -
  let ?k = "\<lparr>conn_out = mb_buf_zero, kick_seen_epoch = 0, close_seen_epoch = 0, conn_sub_count = 0,
      conn_closed = False, msg_len_fn = None, write_msg_fn = None, has_kick_fn = True, has_close_fn = True\<rparr>"
  let ?w = "new_conn c w"
  have cs: "w_conns ?w = (w_conns w)(c := ?k)" "w_router ?w = w_router w" "sv_conns (w_server ?w) = sv_conns (w_server w)"
    by (simp_all add: new_conn_def Let_def world_simps)
  have cnd: "cn d ?w = (if d = c then mb_conn_zero\<lparr>cn_client_id := sv_next_client_id (w_server w),
        cn_tls_state := (if sv_tls_enabled (w_server w) then MB_CONN_TLS_INFO else MB_CONN_TLS_OFF),
        cn_authorized := (auth_mode (sv_auth (w_server w)) = MB_AUTH_NONE)\<rparr> else cn d w)" for d
    by (simp add: new_conn_def Let_def world_simps cn_def)
  have ri: "router_inv (w_router w) (w_conns w)" and ok: "conns_ok am (w_conns w)" using inv by (simp_all add: server_inv_def)
  have "conn_sub_count (w_conns w c) = subs_of c (all_subs (w_router w))" using ri by (simp add: router_inv_def counts_ok_def)
  then have "conn_sub_count ?k = conn_sub_count (w_conns w c)" using fresh subs_of_fresh by (simp add: fresh_id_def)
  then have r: "router_inv (w_router w) (w_conns ?w)" using router_inv_out [OF ri, of ?k c] by (simp add: cs)
  have "io_ok am ?k" by (rule io_ok_plain) simp_all
  then have ok': "conns_ok am (w_conns ?w)" using ok by (simp add: conns_ok_def cs)
  obtain xs where xs: "linked (sv_conn (w_server w)) (sv_conns (w_server w)) xs" "\<forall>d \<in> set xs. \<not> cn_closing (cn d w)"
    using inv by (auto simp: server_inv_def)
  have c: "c \<notin> set xs" using fresh xs(1) by (simp add: fresh_id_def)
  have "linked (sv_conn (w_server ?w)) (sv_conns (w_server ?w)) xs"
  proof (rule linked_cong)
    show "linked (sv_conn (w_server w)) (sv_conns (w_server ?w)) xs" using xs(1) by (simp add: cs)
    show "cn_prev (sv_conn (w_server ?w) a) = cn_prev (sv_conn (w_server w) a) \<and>
        cn_next (sv_conn (w_server ?w) a) = cn_next (sv_conn (w_server w) a)" for a
      using cnd [of a] c xs(1) by (auto simp: cn_def mb_conn_zero_def linked_def)
  qed
  moreover have "\<forall>d \<in> set xs. \<not> cn_closing (cn d ?w)" using xs(2) c by (auto simp: cnd)
  moreover have "\<forall>s \<in># all_subs (w_router ?w). \<not> cn_closing (cn (sub_conn s) ?w)"
    using inv fresh by (auto simp: server_inv_def cs cnd fresh_id_def)
  moreover have "\<forall>d. cn_closing (cn d ?w) \<longrightarrow> conn_closed (rc d ?w)"
    using inv by (auto simp: server_inv_def cnd rc_def cs mb_conn_zero_def)
  moreover have "\<forall>d. cn_bufs_wf (cn d ?w)"
    using inv by (auto simp: server_inv_def cnd cn_bufs_wf_def mb_conn_zero_def)
  ultimately show ?thesis using r ok' by (auto simp: server_inv_def cs(2))
qed

lemma link_conn_inv:
  assumes inv: "server_inv am w" and opn: "\<not> cn_closing (cn c w)"
    and out: "\<And>xs. linked (sv_conn (w_server w)) (sv_conns (w_server w)) xs \<Longrightarrow> c \<notin> set xs"
  shows "server_inv am (link_conn c w)"
proof -
  let ?w = "link_conn c w"
  obtain xs where xs: "linked (sv_conn (w_server w)) (sv_conns (w_server w)) xs" "\<forall>d \<in> set xs. \<not> cn_closing (cn d w)"
    using inv by (auto simp: server_inv_def)
  have c: "c \<notin> set xs" "cn_prev (cn c w) = None" using out [OF xs(1)] xs(1) by (auto simp: linked_def cn_def)
  note hd = linked_hd [OF xs(1)]
  have "linked (sv_conn (w_server ?w)) (sv_conns (w_server ?w)) (c # xs)"
    using xs(1) c hd
    by (cases xs) (auto simp: linked_def link_conn_def Let_def world_simps cn_def)
  moreover have same: "cn_closing (cn d ?w) = cn_closing (cn d w)" "cn_bufs_wf (cn d ?w) = cn_bufs_wf (cn d w)" for d
    by (auto simp: link_conn_def Let_def world_simps cn_def cn_bufs_wf_def split: option.split)
  moreover have "w_router ?w = w_router w" "w_conns ?w = w_conns w"
    by (simp_all add: link_conn_def Let_def world_simps split: option.split)
  ultimately show ?thesis using inv xs(2) opn by (auto simp: server_inv_def rc_def intro!: exI [of _ "c # xs"])
qed


lemma set_client_ip_inv: "server_inv am w \<Longrightarrow> server_inv am (set_client_ip ev c w)"
  unfolding set_client_ip_def by (rule server_inv_flags(5))

text \<open>The updates before the connection is linked leave the list and the closing flag of the newcomer alone.\<close>

lemma set_client_ip_same [simp]:
  "cn_closing (cn d (set_client_ip ev c w)) = cn_closing (cn d w)" "cn_tls_state (cn d (set_client_ip ev c w)) = cn_tls_state (cn d w)"
  "cn_prev (cn d (set_client_ip ev c w)) = cn_prev (cn d w)" "cn_next (cn d (set_client_ip ev c w)) = cn_next (cn d w)"
  "sv_conns (w_server (set_client_ip ev c w)) = sv_conns (w_server w)"
  "sv_tls_enabled (w_server (set_client_ip ev c w)) = sv_tls_enabled (w_server w)"
  "sv_fixed (w_server (set_client_ip ev c w)) = sv_fixed (w_server w)"
  by (simp_all add: set_client_ip_def world_simps)

context plain_server
begin

lemma conn_create_returns:
  assumes inv: "server_inv am w" and off: "tls_off w" "\<not> sv_tls_enabled (w_server w)"
    and fresh: "\<And>c. fst (calloc_conn ev (sv_ext (w_server w))) = Some c \<Longrightarrow> fresh_id c w"
  shows "\<exists>ok w'. mb_conn_create version build am ev w = Some (ok, w') \<and> server_inv am w' \<and> tls_off w' \<and>
    sv_fixed (w_server w') = sv_fixed (w_server w)"
proof -
  obtain co w1 where w1: "ext (calloc_conn ev) w = (co, w1)" using prod.exhaust by blast
  have i1: "server_inv am w1" by (rule server_inv_ext [OF inv w1])
  have sv1: "w_router w1 = w_router w" "sv_conn (w_server w1) = sv_conn (w_server w)"
      "sv_conns (w_server w1) = sv_conns (w_server w)" "sv_tls_enabled (w_server w1) = sv_tls_enabled (w_server w)"
      "sv_fixed (w_server w1) = sv_fixed (w_server w)"
    using ext_result(1,5) [OF w1] by simp_all
  show ?thesis
  proof (cases co)
    case None
    then have "mb_conn_create version build am ev w = Some (False, w1)" using w1 by (simp add: mb_conn_create_def)
    then show ?thesis using i1 off sv1 by (auto simp: tls_off_def cn_def)
  next
    case (Some c)
    then have "fresh_id c w" using fresh w1 by (auto simp: ext_def split: prod.splits)
    then have f1: "fresh_id c w1" by (simp add: fresh_id_def sv1)
    let ?w2 = "new_conn c w1"
    have i2: "server_inv am ?w2" by (rule new_conn_inv [OF i1 f1])
    have cn2: "cn d ?w2 = (if d = c then mb_conn_zero\<lparr>cn_client_id := sv_next_client_id (w_server w1),
        cn_tls_state := (if sv_tls_enabled (w_server w1) then MB_CONN_TLS_INFO else MB_CONN_TLS_OFF),
        cn_authorized := (auth_mode (sv_auth (w_server w1)) = MB_AUTH_NONE)\<rparr> else cn d w1)" for d
      by (simp add: new_conn_def Let_def world_simps cn_def)
    have off2: "tls_off ?w2" using off sv1 by (simp add: tls_off_def cn2) (simp add: cn_def)
    have opn2: "\<not> cn_closing (cn c ?w2)" by (simp add: cn2 mb_conn_zero_def)
    have hd2: "sv_conns (w_server ?w2) = sv_conns (w_server w1)" "sv_tls_enabled (w_server ?w2) = sv_tls_enabled (w_server w1)"
        "sv_fixed (w_server ?w2) = sv_fixed (w_server w1)"
      by (simp_all add: new_conn_def Let_def world_simps)
    have out2: "c \<notin> set xs" if "linked (sv_conn (w_server ?w2)) (sv_conns (w_server ?w2)) xs" for xs
    proof -
      obtain ys where ys: "linked (sv_conn (w_server w1)) (sv_conns (w_server w1)) ys" using i1 by (auto simp: server_inv_def)
      have c: "c \<notin> set ys" using f1 ys by (simp add: fresh_id_def)
      have "linked (sv_conn (w_server ?w2)) (sv_conns (w_server ?w2)) ys"
        unfolding hd2
        by (rule linked_cong [OF ys]) (use cn2 c ys in \<open>auto simp: cn_def mb_conn_zero_def linked_def\<close>)
      then have "xs = ys" using that linked_unique by blast
      then show ?thesis using c by simp
    qed
    obtain ok3 w3 where w3: "ext (uv_tcp_init ev c) ?w2 = (ok3, w3)" using prod.exhaust by blast
    have i3: "server_inv am w3" "keep ?w2 w3" using server_inv_ext [OF i2 w3] keep_ext [OF w3] by auto
    obtain ok4 w4 where w4: "ext (uv_accept ev c) w3 = (ok4, w4)" using prod.exhaust by blast
    have i4: "server_inv am w4" "keep ?w2 w4" using server_inv_ext [OF i3(1) w4] keep_trans [OF i3(2) keep_ext [OF w4]] by auto
    have off3: "tls_off w3" "tls_off w4" using off2 i3(2) i4(2) tls_off_keep by blast+
    have sv4: "sv_conn (w_server w4) = sv_conn (w_server ?w2)" "sv_conns (w_server w4) = sv_conns (w_server ?w2)"
        "sv_tls_enabled (w_server w4) = sv_tls_enabled (w_server ?w2)"
      using ext_result(5) [OF w3] ext_result(5) [OF w4] by simp_all
    let ?w5 = "set_client_ip ev c w4"
    have i5: "server_inv am ?w5" by (rule set_client_ip_inv [OF i4(1)])
    obtain ok6 b where wi: "mb_write_info version build am (conn_out (rc c ?w5)) (conn_info c ?w5) = (ok6, b)"
      using prod.exhaust by blast
    have "buf_wf (conn_out (rc c ?w5))" using i5 by (simp add: server_inv_def router_inv_def rc_def)
    then have wf: "buf_wf b" using write_info.keeps_wf [of "conn_out (rc c ?w5)" version build am "conn_info c ?w5"] wi by simp
    let ?w6 = "upd_rc c (\<lambda>k. k\<lparr>conn_out := b\<rparr>) ?w5"
    have i6: "server_inv am ?w6" by (rule server_inv_upd_rc [OF i5]) (simp_all add: wf)
    have off6: "tls_off ?w6" using off3 by (simp add: tls_off_def world_simps)
    obtain w7 where w7: "mb_conn_begin_close ev c ?w6 = Some w7" "server_inv am w7" "keep ?w6 w7"
      by (rule begin_close_spec [OF i6, of ev c]) blast
    have hd6: "sv_conns (w_server ?w6) = sv_conns (w_server ?w2)" by (simp add: world_simps sv4)
    have links: "cn_prev (sv_conn (w_server ?w2) a) = cn_prev (sv_conn (w_server ?w6) a) \<and>
        cn_next (sv_conn (w_server ?w2) a) = cn_next (sv_conn (w_server ?w6) a)" for a
      by (simp add: set_client_ip_def world_simps cn_def sv4)
    let ?w8 = "link_conn c ?w6"
    have i8: "server_inv am ?w8"
    proof (rule link_conn_inv [OF i6])
      show "\<not> cn_closing (cn c ?w6)" using opn2 sv4 by (simp add: world_simps) (simp add: cn_def)
      fix xs assume "linked (sv_conn (w_server ?w6)) (sv_conns (w_server ?w6)) xs"
      then have "linked (sv_conn (w_server ?w2)) (sv_conns (w_server ?w2)) xs"
        using linked_cong [OF _ links] by (simp add: hd6)
      then show "c \<notin> set xs" by (rule out2)
    qed
    have off8: "tls_off ?w8" using off6 by (auto simp: tls_off_def link_conn_def Let_def world_simps cn_def split: option.split)
    have en8: "\<not> sv_tls_enabled (w_server ?w8)"
      using off(2) sv1 hd2 sv4 by (simp add: link_conn_def Let_def world_simps split: option.split)
    obtain ok9 w9 where w9: "ext (uv_read_start ev c) ?w8 = (ok9, w9)" using prod.exhaust by blast
    have i9: "server_inv am w9" "tls_off w9" using server_inv_ext [OF i8 w9] tls_off_keep [OF off8 keep_ext [OF w9]] by auto
    obtain wa where wa: "mb_conn_begin_close ev c w9 = Some wa" "server_inv am wa" "keep w9 wa"
      "cn_closing (cn c wa)" by (rule begin_close_spec [OF i9(1), of ev c]) blast
    have wa2: "mb_conn_begin_close ev c wa = Some wa" using wa(4) by (simp add: mb_conn_begin_close_def)
    obtain wb where wb: "mb_conn_kick_write am ev c w9 = Some wb" "server_inv am wb" "keep w9 wb"
      by (rule kick_write_spec [OF i9, of ev c]) blast
    have "mb_conn_create version build am ev w =
        Some (if \<not> ok3 then (False, w3) else if \<not> ok4 then (False, ext_do (uv_close ev c) w4)
          else if \<not> ok6 then (False, w7) else if ok9 then (True, wb) else (False, wa))"
      using w1 Some w3 w4 wi w7(1) w9 wa(1) wa2 wb(1) en8
      by (cases ok3; cases ok4; cases ok6; cases ok9) (simp_all add: mb_conn_create_def Let_def start_reading_def)
    moreover have fx: "sv_fixed (w_server w3) = sv_fixed (w_server w)" "sv_fixed (w_server w4) = sv_fixed (w_server w)"
        "sv_fixed (w_server w7) = sv_fixed (w_server w)" "sv_fixed (w_server w9) = sv_fixed (w_server w)"
        "sv_fixed (w_server wa) = sv_fixed (w_server w)" "sv_fixed (w_server wb) = sv_fixed (w_server w)"
    proof -
      show f: "sv_fixed (w_server w3) = sv_fixed (w_server w)" "sv_fixed (w_server w4) = sv_fixed (w_server w)"
        using i3(2) i4(2) by (simp_all add: keep_def hd2 sv1)
      then show "sv_fixed (w_server w7) = sv_fixed (w_server w)" using w7(3) by (simp add: keep_def world_simps)
      have "sv_fixed (w_server ?w8) = sv_fixed (w_server w)"
        using f by (simp add: link_conn_def Let_def world_simps split: option.split)
      then show f9: "sv_fixed (w_server w9) = sv_fixed (w_server w)" using keep_ext [OF w9] by (simp add: keep_def)
      show "sv_fixed (w_server wa) = sv_fixed (w_server w)" "sv_fixed (w_server wb) = sv_fixed (w_server w)"
        using f9 wa(3) wb(3) by (simp_all add: keep_def)
    qed
    ultimately show ?thesis
      using i3(1) off3 server_inv_ext_do [OF i4(1), of "uv_close ev c"] tls_off_keep [OF off3(2) keep_upd(2)]
        w7(2) tls_off_keep [OF off6 w7(3)] wb(2) tls_off_keep [OF i9(2) wb(3)] wa(2) tls_off_keep [OF i9(2) wa(3)]
      by (cases ok3; cases ok4; cases ok6; cases ok9) (auto simp: world_simps)
  qed
qed

end


end
