(* ===== verification/Conn_Guarded.thy ===== *)
theory Conn_Guarded
  imports Conn_Correct
begin

text \<open>
  A server whose patchbay program need not return. The evaluator may run out of its bounds, so what
  the connections can rely on is a guarantee for the evaluations that do return. The same server with
  an evaluator that always returns satisfies \<open>plain_server\<close>, and every computation of the server that
  returns does the same in both.
\<close>

section \<open>The library calls do not see the evaluator\<close>

lemma env_fields:
  "uv_write (ev\<lparr>eval_publish := g\<rparr>) = uv_write ev" "uv_read_start (ev\<lparr>eval_publish := g\<rparr>) = uv_read_start ev"
  "uv_read_stop (ev\<lparr>eval_publish := g\<rparr>) = uv_read_stop ev" "uv_is_closing (ev\<lparr>eval_publish := g\<rparr>) = uv_is_closing ev"
  "uv_close (ev\<lparr>eval_publish := g\<rparr>) = uv_close ev" "uv_tcp_init (ev\<lparr>eval_publish := g\<rparr>) = uv_tcp_init ev"
  "uv_accept (ev\<lparr>eval_publish := g\<rparr>) = uv_accept ev" "uv_peer_name (ev\<lparr>eval_publish := g\<rparr>) = uv_peer_name ev"
  "uv_update_time (ev\<lparr>eval_publish := g\<rparr>) = uv_update_time ev" "uv_now (ev\<lparr>eval_publish := g\<rparr>) = uv_now ev"
  "uv_gettimeofday (ev\<lparr>eval_publish := g\<rparr>) = uv_gettimeofday ev" "calloc_conn (ev\<lparr>eval_publish := g\<rparr>) = calloc_conn ev"
  "bio_read (ev\<lparr>eval_publish := g\<rparr>) = bio_read ev" "bio_write (ev\<lparr>eval_publish := g\<rparr>) = bio_write ev"
  "ssl_new (ev\<lparr>eval_publish := g\<rparr>) = ssl_new ev" "ssl_do_handshake (ev\<lparr>eval_publish := g\<rparr>) = ssl_do_handshake ev"
  "ssl_read (ev\<lparr>eval_publish := g\<rparr>) = ssl_read ev" "ssl_write (ev\<lparr>eval_publish := g\<rparr>) = ssl_write ev"
  "json_object (ev\<lparr>eval_publish := g\<rparr>) = json_object ev" "timer_start (ev\<lparr>eval_publish := g\<rparr>) = timer_start ev"
  "timer_stop (ev\<lparr>eval_publish := g\<rparr>) = timer_stop ev"
  "next_clock_deadline (ev\<lparr>eval_publish := g\<rparr>) = next_clock_deadline ev"
  "bridge_fn (ev\<lparr>eval_publish := g\<rparr>) = bridge_fn ev"
  by simp_all

lemma begin_close_eval [simp]: "mb_conn_begin_close (ev\<lparr>eval_publish := g\<rparr>) = mb_conn_begin_close ev"
  unfolding mb_conn_begin_close_def env_fields ..

lemma tls_drain_wbio_eval1:
  "tls_drain_wbio am ev c w = Some y \<Longrightarrow> tls_drain_wbio am (ev\<lparr>eval_publish := g\<rparr>) c w = Some y"
proof (erule tls_drain_wbio.raw_induct
    [where P = "\<lambda>am ev c w y. tls_drain_wbio am (ev\<lparr>eval_publish := g\<rparr>) c w = Some y", rotated])
  fix f am ev c w y
  assume IH: "\<And>am ev c w y. f am ev c w = Some y \<Longrightarrow> tls_drain_wbio am (ev\<lparr>eval_publish := g\<rparr>) c w = Some y"
    and body: "(case ext (bio_read ev c) w of
        (BIO_DATA d, w) \<Rightarrow>
          (case mb_buf_append am (cn_tls_out (cn c w)) d of
             (ok, b) \<Rightarrow>
               let w = upd_cn c (\<lambda>k. k\<lparr>cn_tls_out := b\<rparr>) w
               in if \<not> ok then do { w \<leftarrow> mb_conn_begin_close ev c w; Some (False, w) } else f am ev c w)
      | (BIO_EMPTY, w) \<Rightarrow> Some (True, w)
      | (BIO_FAILED, w) \<Rightarrow> do { w \<leftarrow> mb_conn_begin_close ev c w; Some (False, w) }) = Some y"
  show "tls_drain_wbio am (ev\<lparr>eval_publish := g\<rparr>) c w = Some y"
    using body by (subst tls_drain_wbio.simps) (auto simp: Let_def dest: IH split: prod.splits bio_result.splits)
qed

lemma tls_drain_wbio_eval [simp]: "tls_drain_wbio am (ev\<lparr>eval_publish := g\<rparr>) c w = tls_drain_wbio am ev c w"
  using tls_drain_wbio_eval1 [of am ev c w _ g] tls_drain_wbio_eval1 [of am "ev\<lparr>eval_publish := g\<rparr>" c w _ "eval_publish ev"]
  by (cases "tls_drain_wbio am ev c w"; cases "tls_drain_wbio am (ev\<lparr>eval_publish := g\<rparr>) c w") auto

lemma tls_encrypt_loop_eval1:
  "tls_encrypt_loop am ev c w = Some y \<Longrightarrow> tls_encrypt_loop am (ev\<lparr>eval_publish := g\<rparr>) c w = Some y"
proof (erule tls_encrypt_loop.raw_induct
    [where P = "\<lambda>am ev c w y. tls_encrypt_loop am (ev\<lparr>eval_publish := g\<rparr>) c w = Some y", rotated])
  fix f am ev c w y
  assume IH: "\<And>am ev c w y. f am ev c w = Some y \<Longrightarrow> tls_encrypt_loop am (ev\<lparr>eval_publish := g\<rparr>) c w = Some y"
    and body: "(case tls_refill c w of
        (go, w) \<Rightarrow>
          if \<not> go then Some (True, w)
          else case ext (ssl_write ev c (take INT_MAX (drop (cn_tls_plain_off (cn c w)) (buf_data (cn_tls_plain (cn c w)))))) w of
               (res, w) \<Rightarrow>
                 do { (drained, w) \<leftarrow> tls_drain_wbio am ev c w;
                      if \<not> drained then Some (False, w)
                      else case res of
                        SSL_WROTE n \<Rightarrow> f am ev c (upd_cn c (\<lambda>k. k\<lparr>cn_tls_plain_off := cn_tls_plain_off k + n\<rparr>) w)
                      | SSL_WRITE_WANT \<Rightarrow> Some (True, w)
                      | SSL_WRITE_FAILED \<Rightarrow> do { w \<leftarrow> mb_conn_begin_close ev c w; Some (False, w) } }) = Some y"
  obtain go w1 where r: "tls_refill c w = (go, w1)" by fastforce
  obtain res w2 where s: "ext (ssl_write ev c (take INT_MAX (drop (cn_tls_plain_off (cn c w1)) (buf_data (cn_tls_plain (cn c w1)))))) w1
      = (res, w2)" by fastforce
  show "tls_encrypt_loop am (ev\<lparr>eval_publish := g\<rparr>) c w = Some y"
  proof (cases "tls_drain_wbio am ev c w2")
    case None
    then show ?thesis using body by (subst tls_encrypt_loop.simps) (simp add: r s split: if_splits)
  next
    case (Some d)
    then show ?thesis using body
      by (cases d; cases res) (subst tls_encrypt_loop.simps, simp add: r s IH split: if_splits)+
  qed
qed

lemma tls_encrypt_loop_eval [simp]: "tls_encrypt_loop am (ev\<lparr>eval_publish := g\<rparr>) c w = tls_encrypt_loop am ev c w"
  using tls_encrypt_loop_eval1 [of am ev c w _ g] tls_encrypt_loop_eval1 [of am "ev\<lparr>eval_publish := g\<rparr>" c w _ "eval_publish ev"]
  by (cases "tls_encrypt_loop am ev c w"; cases "tls_encrypt_loop am (ev\<lparr>eval_publish := g\<rparr>) c w") auto

lemma conn_write_eval [simp]:
  "write_err_or_close am (ev\<lparr>eval_publish := g\<rparr>) c msg w = write_err_or_close am ev c msg w"
  "mb_conn_kick_write am (ev\<lparr>eval_publish := g\<rparr>) c w = mb_conn_kick_write am ev c w"
  "auth_violation am (ev\<lparr>eval_publish := g\<rparr>) c w = auth_violation am ev c w"
  "start_reading (ev\<lparr>eval_publish := g\<rparr>) c w = start_reading ev c w"
  "answer_publish am (ev\<lparr>eval_publish := g\<rparr>) c st w = answer_publish am ev c st w"
  "mb_server_reschedule_patchbay_clock (ev\<lparr>eval_publish := g\<rparr>) w = mb_server_reschedule_patchbay_clock ev w"
  "mb_server_patchbay_now_ms (ev\<lparr>eval_publish := g\<rparr>) w = mb_server_patchbay_now_ms ev w"
  "mb_wall_clock_ms (ev\<lparr>eval_publish := g\<rparr>) x = mb_wall_clock_ms ev x"
  "connect_auth_matches (ev\<lparr>eval_publish := g\<rparr>) auth json = connect_auth_matches ev auth json"
  "mb_conn_create version build am (ev\<lparr>eval_publish := g\<rparr>) w = mb_conn_create version build am ev w"
  unfolding write_err_or_close_def mb_conn_kick_write_def close_if_slow_consumer_def tls_encrypt_pending_def write_socket_from_def
    auth_violation_def start_reading_def answer_publish_def mb_server_reschedule_patchbay_clock_def mb_server_patchbay_now_ms_def
    mb_wall_clock_ms_def connect_auth_matches_def mb_conn_create_def set_client_ip_def
    begin_close_eval tls_encrypt_loop_eval env_fields
  by (rule refl)+

lemma server_callbacks_eval [simp]: "server_callbacks am (ev\<lparr>eval_publish := g\<rparr>) = server_callbacks am ev"
proof -
  have "close_conn_from_router (ev\<lparr>eval_publish := g\<rparr>) = close_conn_from_router ev"
    "mb_conn_kick_write am (ev\<lparr>eval_publish := g\<rparr>) = mb_conn_kick_write am ev"
    by (intro ext; simp add: close_conn_from_router_def)+
  then show ?thesis by (simp add: server_callbacks_def)
qed

section \<open>The evaluator that always returns\<close>

text \<open>Where the evaluation does not return, this one reports a failure and changes nothing.\<close>

definition total_env :: "'x env \<Rightarrow> 'x env" where
  "total_env ev = ev\<lparr>eval_publish := \<lambda>subject payload now wall w.
     case eval_publish ev subject payload now wall w of None \<Rightarrow> Some (False, w) | Some r \<Rightarrow> Some r\<rparr>"

lemma total_env_simps [simp]:
  "mb_conn_begin_close (total_env ev) = mb_conn_begin_close ev" "server_callbacks am (total_env ev) = server_callbacks am ev"
  "write_err_or_close am (total_env ev) c msg w = write_err_or_close am ev c msg w"
  "mb_conn_kick_write am (total_env ev) c w = mb_conn_kick_write am ev c w"
  "mb_server_reschedule_patchbay_clock (total_env ev) w = mb_server_reschedule_patchbay_clock ev w"
  "mb_conn_create version build am (total_env ev) w = mb_conn_create version build am ev w"
  "calloc_conn (total_env ev) = calloc_conn ev" "uv_update_time (total_env ev) = uv_update_time ev"
  "bridge_fn (total_env ev) = bridge_fn ev" "mb_server_patchbay_now_ms (total_env ev) w = mb_server_patchbay_now_ms ev w"
  "mb_wall_clock_ms (total_env ev) x = mb_wall_clock_ms ev x" "auth_violation am (total_env ev) c w = auth_violation am ev c w"
  "connect_auth_matches (total_env ev) a j = connect_auth_matches ev a j"
  "answer_publish am (total_env ev) c st w = answer_publish am ev c st w"
  unfolding total_env_def by simp_all

lemma eval_total: "eval_publish ev s p now wall w = Some r \<Longrightarrow> eval_publish (total_env ev) s p now wall w = Some r"
  by (simp add: total_env_def)

lemma client_publish_total:
  "mb_server_client_publish am ev subject payload reply w = Some r \<Longrightarrow>
   mb_server_client_publish am (total_env ev) subject payload reply w = Some r"
  by (auto simp: mb_server_client_publish_def client_publish_via_def bind_eq_Some_conv Let_def eval_total split: if_splits)

lemma handle_op_total: "handle_op am ev c op w = Some w' \<Longrightarrow> handle_op am (total_env ev) c op w = Some w'"
  unfolding handle_op_def total_env_simps
  by (cases "op_kind op") (auto simp: bind_eq_Some_conv client_publish_total split: if_splits)

text \<open>The loop over the receive buffer.\<close>

lemma process_rx_loop_total:
  "process_rx_loop am ev c cursor w = Some y \<Longrightarrow> process_rx_loop am (total_env ev) c cursor w = Some y"
proof (erule process_rx_loop.raw_induct
    [where P = "\<lambda>am ev c cursor w y. process_rx_loop am (total_env ev) c cursor w = Some y", rotated])
  fix f am ev c cursor w y
  let ?rest = "drop cursor (buf_data (cn_rx (cn c w)))"
  let ?result = "mb_parse_client_op ?rest"
  assume IH: "\<And>am ev c cursor w y. f am ev c cursor w = Some y \<Longrightarrow> process_rx_loop am (total_env ev) c cursor w = Some y"
    and body: "(let rest = ?rest; result = mb_parse_client_op rest
      in if rest = [] then Some (Some cursor, w)
         else if pr_status result = MB_PARSE_NEED_MORE then Some (Some cursor, w)
         else if pr_status result \<noteq> MB_PARSE_OK then
           (if fatal_status (pr_status result) then
              do { w \<leftarrow> write_err_or_close am ev c ''Protocol Violation'' w;
                   w \<leftarrow> mb_conn_begin_close ev c w;
                   Some (None, w) }
            else do {
              w \<leftarrow> write_err_or_close am ev c (status_msg (pr_status result)) w;
              if cn_closing (cn c w) then Some (None, w)
              else let rest = drop cursor (buf_data (cn_rx (cn c w)))
                   in if LF \<in> set rest
                      then f am ev c (cursor + length (takeWhile (\<lambda>ch. ch \<noteq> LF) rest) + 1) w
                      else Some (Some cursor, w) })
         else do {
           w \<leftarrow> handle_op am ev c (pr_op result) w;
           if cn_closing (cn c w) then Some (None, w)
           else f am ev c (cursor + pr_consumed result) w }) = Some y"
  note step = process_rx_loop.simps [of am "total_env ev" c cursor w, unfolded total_env_simps]
  consider (stop) "?rest = [] \<or> pr_status ?result = MB_PARSE_NEED_MORE"
    | (ok) "?rest \<noteq> []" "pr_status ?result = MB_PARSE_OK"
    | (err) "?rest \<noteq> []" "pr_status ?result \<noteq> MB_PARSE_NEED_MORE" "pr_status ?result \<noteq> MB_PARSE_OK" by blast
  then show "process_rx_loop am (total_env ev) c cursor w = Some y"
  proof cases
    case stop
    then show ?thesis using body unfolding step by (auto simp: Let_def split: if_splits)
  next
    case ok
    then obtain w1 where w1: "handle_op am ev c (pr_op ?result) w = Some w1"
        "(if cn_closing (cn c w1) then Some (None, w1) else f am ev c (cursor + pr_consumed ?result) w1) = Some y"
      using body by (auto simp: Let_def bind_eq_Some_conv)
    show ?thesis unfolding step using ok handle_op_total [OF w1(1)] w1(2) IH by (auto simp: Let_def split: if_splits)
  next
    case err
    then show ?thesis using body unfolding step
      by (auto simp: Let_def bind_eq_Some_conv intro: IH split: if_splits)
  qed
qed

lemma read_side_total:
  "process_rx am ev c w = Some w' \<Longrightarrow> process_rx am (total_env ev) c w = Some w'"
  "cn_tls_state (cn c w) = MB_CONN_TLS_OFF \<Longrightarrow> read_cb am ev c nread data w = Some w' \<Longrightarrow> read_cb am (total_env ev) c nread data w = Some w'"
  "cn_tls_state (cn c w) = MB_CONN_TLS_OFF \<Longrightarrow> write_cb am (total_env ev) c status w = write_cb am ev c status w"
proof -
  show rx: "process_rx am (total_env ev) c w = Some w'" if "process_rx am ev c w = Some w'" for w w'
    using that process_rx_loop_total unfolding process_rx_def total_env_simps by (fastforce simp: bind_eq_Some_conv)
  show "read_cb am (total_env ev) c nread data w = Some w'"
    if "cn_tls_state (cn c w) = MB_CONN_TLS_OFF" "read_cb am ev c nread data w = Some w'"
  proof -
    obtain ok b where b: "mb_buf_append am (cn_rx (cn c w)) data = (ok, b)" by fastforce
    then show ?thesis
      using that unfolding read_cb_def total_env_simps
      by (auto simp: bind_eq_Some_conv Let_def rx split: if_splits)
  qed
  show "write_cb am (total_env ev) c status w = write_cb am ev c status w" if "cn_tls_state (cn c w) = MB_CONN_TLS_OFF"
    using that unfolding write_cb_def total_env_simps by (simp add: Let_def world_simps)
qed

section \<open>The contract\<close>

text \<open>
  What a server without TLS relies on: an evaluation of the patchbay program that returns keeps the
  invariant and leaves receive buffers alone; the bridge does so and returns.
\<close>

locale guarded_server =
  fixes am :: allocator and ev :: "'x env"
  assumes eval_keeps_server: "server_inv am w \<Longrightarrow> tls_off w \<Longrightarrow> eval_publish ev subject payload now wall w = Some (ok, w') \<Longrightarrow>
      server_inv am w' \<and> keep w w'"
    and bridge_returns: "server_inv am w \<Longrightarrow> tls_off w \<Longrightarrow>
      \<exists>w'. bridge_fn ev subject payload options w = Some w' \<and> server_inv am w' \<and> keep w w'"

sublocale guarded_server \<subseteq> total: plain_server am "total_env ev"
proof
  fix w :: "'x server_world" and subject payload now wall options
  assume inv: "server_inv am w" "tls_off w"
  show "\<exists>ok w'. eval_publish (total_env ev) subject payload now wall w = Some (ok, w') \<and> server_inv am w' \<and> keep w w'"
    using inv eval_keeps_server [OF inv, of subject payload now wall]
    by (cases "eval_publish ev subject payload now wall w") (auto simp: total_env_def)
  show "\<exists>w'. bridge_fn (total_env ev) subject payload options w = Some w' \<and> server_inv am w' \<and> keep w w'"
    using bridge_returns [OF inv] by simp
qed

context guarded_server
begin

lemma handle_op_keeps:
  assumes "server_inv am w" "tls_off w" "\<not> cn_closing (cn c w)" "handle_op am ev c op w = Some w'"
  shows "server_inv am w'" "keep w w'"
  using total.handle_op_returns [OF assms(1-3), of op] handle_op_total [OF assms(4)] by auto

end

end
