(* ===== verification/Conn_Events.thy ===== *)
theory Conn_Events
  imports Conn_Guarded
begin

text \<open>
  What a connection does with its byte stream, seen from outside: the stream is cut into
  operations and errors independently of how it is split into reads, unauthorized clients
  reach nothing but the authentication, and the event loop keeps the invariant of the server.
\<close>

section \<open>The stream as a list of events\<close>

datatype rx_event = RX_OP mb_op | RX_ERR mb_parse_status | RX_VIOLATION

function rx_scan :: "bytes \<Rightarrow> rx_event list \<times> bytes" where
  "rx_scan s =
     (if s = [] then ([], [])
      else let res = mb_parse_client_op s; st = pr_status res
      in if st = MB_PARSE_NEED_MORE then ([], s)
         else if st = MB_PARSE_OK
         then (case rx_scan (drop (pr_consumed res) s) of (es, r) \<Rightarrow> (RX_OP (pr_op res) # es, r))
         else if fatal_status st then ([RX_VIOLATION], s)
         else if LF \<in> set s
         then (case rx_scan (drop (length (takeWhile (\<lambda>ch. ch \<noteq> LF) s) + 1) s) of (es, r) \<Rightarrow> (RX_ERR st # es, r))
         else ([RX_ERR st], s))"
  by pat_completeness auto
termination
proof (relation "measure length", goal_cases)
  case (2 s res st)
  then show ?case using client_op_ok_wf [of s] by auto
qed auto

declare rx_scan.simps [simp del]

lemma rx_scan_Nil [simp]: "rx_scan [] = ([], [])"
  by (simp add: rx_scan.simps)

lemma client_op_error_line:
  assumes "pr_status (mb_parse_client_op s) \<noteq> MB_PARSE_NEED_MORE"
    "pr_status (mb_parse_client_op s) \<noteq> MB_PARSE_CONTROL_LINE_TOO_LONG"
  shows "LF \<in> set s"
proof (rule ccontr)
  assume "LF \<notin> set s"
  then have "takeWhile (\<lambda>c. c \<noteq> LF) s = s" by (auto simp: takeWhile_eq_all_conv)
  then have "length (takeWhile (\<lambda>c. c \<noteq> LF) s) = length s" by (rule arg_cong)
  then show False using assms unfolding mb_parse_client_op_def Let_def parse_fail_def by (auto split: if_splits)
qed

lemma rx_scan_append:
  assumes "rx_scan a = (es, r)" "RX_VIOLATION \<notin> set es"
  shows "rx_scan (a @ b) = (case rx_scan (r @ b) of (es', r') \<Rightarrow> (es @ es', r'))"
  using assms
proof (induction a arbitrary: es r rule: rx_scan.induct)
  case (1 s)
  let ?res = "mb_parse_client_op s" and ?st = "pr_status (mb_parse_client_op s)"
  show ?case
  proof (cases "s = [] \<or> ?st = MB_PARSE_NEED_MORE")
    case True
    then have "es = []" "r = s" using "1.prems"(1) by (auto simp: rx_scan.simps [of s] Let_def split: if_splits)
    then show ?thesis by simp
  next
    case False
    then have ne: "s \<noteq> []" "?st \<noteq> MB_PARSE_NEED_MORE" by auto
    have same: "mb_parse_client_op (s @ b) = ?res" by (rule client_op_append [OF ne(2)])
    note whole = rx_scan.simps [of "s @ b"] and part = rx_scan.simps [of s]
    consider (ok) "?st = MB_PARSE_OK" | (fatal) "fatal_status ?st" | (err) "?st \<noteq> MB_PARSE_OK" "\<not> fatal_status ?st" by blast
    then show ?thesis
    proof cases
      case ok
      let ?n = "pr_consumed ?res"
      have n: "?n \<le> length s" using client_op_ok_wf [OF ok] by simp
      obtain es1 r1 where s1: "rx_scan (drop ?n s) = (es1, r1)" by fastforce
      then have es: "es = RX_OP (pr_op ?res) # es1" "r = r1" using "1.prems"(1) ne ok by (simp_all add: part Let_def)
      have "rx_scan (drop ?n s @ b) = (case rx_scan (r1 @ b) of (es', r') \<Rightarrow> (es1 @ es', r'))"
        using "1.IH"(1) [OF ne(1) refl refl ne(2) ok s1] "1.prems"(2) es(1) by simp
      moreover have "drop ?n (s @ b) = drop ?n s @ b" using n by simp
      ultimately show ?thesis
        using ne ok same es by (simp add: whole Let_def split: prod.split)
    next
      case fatal
      then show ?thesis using "1.prems" ne by (auto simp: part Let_def)
    next
      case err
      have lf: "LF \<in> set s" using client_op_error_line [of s] ne(2) err(2) by blast
      let ?n = "length (takeWhile (\<lambda>ch. ch \<noteq> LF) s) + 1"
      have "length (takeWhile (\<lambda>ch. ch \<noteq> LF) s) < length s"
        using lf by (metis (mono_tags, lifting) length_takeWhile_le nat_less_le set_takeWhileD takeWhile_eq_take take_all)
      then have n: "?n \<le> length s" by simp
      have tw: "takeWhile (\<lambda>ch. ch \<noteq> LF) (s @ b) = takeWhile (\<lambda>ch. ch \<noteq> LF) s"
        using lf by (metis (mono_tags, lifting) takeWhile_append1)
      obtain es1 r1 where s1: "rx_scan (drop ?n s) = (es1, r1)" by fastforce
      then have es: "es = RX_ERR ?st # es1" "r = r1" using "1.prems"(1) ne err lf by (simp_all add: part Let_def)
      have "rx_scan (drop ?n s @ b) = (case rx_scan (r1 @ b) of (es', r') \<Rightarrow> (es1 @ es', r'))"
        using "1.IH"(2) [OF ne(1) refl refl ne(2) err lf s1] "1.prems"(2) es(1) by simp
      moreover have "drop ?n (s @ b) = drop ?n s @ b" using n by simp
      ultimately show ?thesis
        using ne err same es lf tw by (simp add: whole Let_def split: prod.split)
    qed
  qed
qed

section \<open>Processing the receive buffer is running its events\<close>

definition rx_do :: "allocator \<Rightarrow> 'x env \<Rightarrow> conn_id \<Rightarrow> rx_event \<Rightarrow> 'x server_world \<Rightarrow> 'x server_world option" where
  "rx_do am ev c e w =
     (case e of
        RX_OP op \<Rightarrow> handle_op am ev c op w
      | RX_ERR st \<Rightarrow> write_err_or_close am ev c (status_msg st) w
      | RX_VIOLATION \<Rightarrow>
          do { w \<leftarrow> write_err_or_close am ev c ''Protocol Violation'' w; mb_conn_begin_close ev c w })"

text \<open>The events in order, until the connection closes.\<close>

fun rx_run :: "allocator \<Rightarrow> 'x env \<Rightarrow> conn_id \<Rightarrow> rx_event list \<Rightarrow> 'x server_world \<Rightarrow> 'x server_world option" where
  "rx_run am ev c [] w = Some w"
| "rx_run am ev c (e # es) w =
     do { w \<leftarrow> rx_do am ev c e w; if cn_closing (cn c w) then Some w else rx_run am ev c es w }"

context guarded_server
begin

lemma rx_do_keeps:
  assumes "server_inv am w" "tls_off w" "\<not> cn_closing (cn c w)" "rx_do am ev c e w = Some w'"
  shows "server_inv am w'" "keep w w'" "e = RX_VIOLATION \<Longrightarrow> cn_closing (cn c w')"
proof -
  have "server_inv am w' \<and> keep w w' \<and> (e = RX_VIOLATION \<longrightarrow> cn_closing (cn c w'))"
  proof (cases e)
    case (RX_OP op)
    then show ?thesis using handle_op_keeps [OF assms(1-3)] assms(4) by (simp add: rx_do_def)
  next
    case (RX_ERR st)
    obtain w1 where "write_err_or_close am ev c (status_msg st) w = Some w1" "server_inv am w1" "keep w w1"
      by (rule write_err_or_close_spec [OF assms(1)]) blast
    then show ?thesis using RX_ERR assms(4) by (simp add: rx_do_def)
  next
    case RX_VIOLATION
    obtain w1 where w1: "write_err_or_close am ev c ''Protocol Violation'' w = Some w1" "server_inv am w1" "keep w w1"
      by (rule write_err_or_close_spec [OF assms(1)]) blast
    obtain w2 where "mb_conn_begin_close ev c w1 = Some w2" "server_inv am w2" "keep w1 w2" "cn_closing (cn c w2)"
      by (rule begin_close_spec [OF w1(2), of ev c]) blast
    then show ?thesis using RX_VIOLATION w1 keep_trans [OF w1(3)] assms(4) by (simp add: rx_do_def)
  qed
  then show "server_inv am w'" "keep w w'" "e = RX_VIOLATION \<Longrightarrow> cn_closing (cn c w')" by blast+
qed

text \<open>The loop from a cursor, against the events of the bytes from there on.\<close>

lemma process_rx_loop_events:
  assumes "server_inv am w" "tls_off w" "\<not> cn_closing (cn c w)"
    and "data = buf_data (cn_rx (cn c w))" "cursor \<le> length data" "rx_scan (drop cursor data) = (es, r)"
  shows "process_rx_loop am ev c cursor w =
      do { w' \<leftarrow> rx_run am ev c es w;
           Some (if cn_closing (cn c w') then (None, w') else (Some (length data - length r), w')) } \<and>
    (\<forall>w'. rx_run am ev c es w = Some w' \<longrightarrow> keep w w' \<and>
      (\<not> cn_closing (cn c w') \<longrightarrow> length r \<le> length data \<and> r = drop (length data - length r) data))"
    (is "?loop es cursor w \<and> ?run es w")
  using assms
proof (induction "drop cursor data" arbitrary: cursor w es rule: rx_scan.induct)
  case 1
  let ?rest = "drop cursor data"
  let ?res = "mb_parse_client_op ?rest" and ?st = "pr_status (mb_parse_client_op ?rest)"
  note loop = process_rx_loop.simps [of am ev c cursor w] and scan = rx_scan.simps [of ?rest]
  have data: "buf_data (cn_rx (cn c w)) = data" using "1.prems"(4) by simp
  have next_step: "?loop (e # es1) cursor w \<and> ?run (e # es1) w"
    if run: "process_rx_loop am ev c cursor w =
        do { w1 \<leftarrow> rx_do am ev c e w; if cn_closing (cn c w1) then Some (None, w1) else process_rx_loop am ev c n w1 }"
      and rest: "\<And>w1. rx_do am ev c e w = Some w1 \<Longrightarrow> server_inv am w1 \<Longrightarrow> tls_off w1 \<Longrightarrow> \<not> cn_closing (cn c w1) \<Longrightarrow>
        data = buf_data (cn_rx (cn c w1)) \<Longrightarrow> ?loop es1 n w1 \<and> ?run es1 w1" for e es1 n
  proof (cases "rx_do am ev c e w")
    case None
    then show ?thesis using run by simp
  next
    case (Some w1)
    note k = rx_do_keeps [OF "1.prems"(1-3) Some]
    have d1: "data = buf_data (cn_rx (cn c w1))" using k(2) data by (simp add: keep_def)
    show ?thesis
    proof (cases "cn_closing (cn c w1)")
      case True
      then show ?thesis using run Some k(2) by simp
    next
      case False
      from rest [OF Some k(1) tls_off_keep [OF "1.prems"(2) k(2)] False d1]
      show ?thesis using run Some False keep_trans [OF k(2)] by auto
    qed
  qed
  consider (stop) "?rest = [] \<or> ?st = MB_PARSE_NEED_MORE" | (ok) "?rest \<noteq> []" "?st = MB_PARSE_OK"
    | (fatal) "?rest \<noteq> []" "?st \<noteq> MB_PARSE_NEED_MORE" "?st \<noteq> MB_PARSE_OK" "fatal_status ?st"
    | (err) "?rest \<noteq> []" "?st \<noteq> MB_PARSE_NEED_MORE" "?st \<noteq> MB_PARSE_OK" "\<not> fatal_status ?st" by blast
  then show ?case
  proof cases
    case stop
    then have "es = []" "r = ?rest" using "1.prems"(6) by (auto simp: scan Let_def split: if_splits)
    moreover have "process_rx_loop am ev c cursor w = Some (Some cursor, w)" using stop data by (auto simp: loop Let_def)
    ultimately show ?thesis using "1.prems"(3,5) by simp
  next
    case fatal
    then have es: "es = [RX_VIOLATION]" using "1.prems"(6) by (simp add: scan Let_def)
    have "process_rx_loop am ev c cursor w = do { w1 \<leftarrow> rx_do am ev c RX_VIOLATION w; Some (None, w1) }"
      using fatal data by (auto simp: loop Let_def rx_do_def)
    then have "process_rx_loop am ev c cursor w =
        do { w1 \<leftarrow> rx_do am ev c RX_VIOLATION w; if cn_closing (cn c w1) then Some (None, w1) else process_rx_loop am ev c cursor w1 }"
      using rx_do_keeps(3) [OF "1.prems"(1-3)] by (cases "rx_do am ev c RX_VIOLATION w") auto
    then show ?thesis unfolding es using rx_do_keeps(3) [OF "1.prems"(1-3)] by (intro next_step) auto
  next
    case ok
    let ?n = "pr_consumed ?res"
    have n: "0 < ?n" "?n \<le> length ?rest" using client_op_ok_wf [OF ok(2)] by simp_all
    obtain es1 where s1: "rx_scan (drop (cursor + ?n) data) = (es1, r)" and es: "es = RX_OP (pr_op ?res) # es1"
      using "1.prems"(6) ok by (auto simp: scan Let_def add.commute split: prod.splits)
    show ?thesis unfolding es
    proof (rule next_step)
      show "process_rx_loop am ev c cursor w =
          do { w1 \<leftarrow> rx_do am ev c (RX_OP (pr_op ?res)) w;
               if cn_closing (cn c w1) then Some (None, w1) else process_rx_loop am ev c (cursor + ?n) w1 }"
        using ok data by (simp add: loop Let_def rx_do_def)
      fix w1 :: "'x server_world" assume a: "server_inv am w1" "tls_off w1" "\<not> cn_closing (cn c w1)" "data = buf_data (cn_rx (cn c w1))"
      show "?loop es1 (cursor + ?n) w1 \<and> ?run es1 w1"
        by (rule "1.hyps"(1) [OF ok(1) refl refl _ ok(2) _ a _ s1]) (use ok n "1.prems"(5) in \<open>auto simp: add.commute\<close>)
    qed
  next
    case err
    have lf: "LF \<in> set ?rest" using client_op_error_line [of ?rest] err by blast
    let ?n = "length (takeWhile (\<lambda>ch. ch \<noteq> LF) ?rest) + 1"
    have "length (takeWhile (\<lambda>ch. ch \<noteq> LF) ?rest) < length ?rest"
      using lf by (metis (mono_tags, lifting) length_takeWhile_le nat_less_le set_takeWhileD takeWhile_eq_take take_all)
    then have n: "cursor + ?n \<le> length data" by simp
    obtain es1 where s1: "rx_scan (drop (cursor + ?n) data) = (es1, r)" and es: "es = RX_ERR ?st # es1"
      using "1.prems"(6) err lf by (auto simp: scan Let_def add.commute split: prod.splits)
    obtain w0 where w0: "write_err_or_close am ev c (status_msg ?st) w = Some w0" "keep w w0"
      by (rule write_err_or_close_spec [OF "1.prems"(1)]) blast
    have d0: "buf_data (cn_rx (cn c w0)) = data" using w0(2) data by (simp add: keep_def)
    show ?thesis unfolding es
    proof (rule next_step)
      show "process_rx_loop am ev c cursor w =
          do { w1 \<leftarrow> rx_do am ev c (RX_ERR ?st) w;
               if cn_closing (cn c w1) then Some (None, w1) else process_rx_loop am ev c (cursor + ?n) w1 }"
        using err w0(1) data lf d0 by (simp add: loop Let_def rx_do_def add.assoc)
      fix w1 :: "'x server_world" assume a: "server_inv am w1" "tls_off w1" "\<not> cn_closing (cn c w1)" "data = buf_data (cn_rx (cn c w1))"
      show "?loop es1 (cursor + ?n) w1 \<and> ?run es1 w1"
        by (rule "1.hyps"(2) [OF err(1) refl refl err(2-4) lf _ a n s1]) (simp add: add.commute)
    qed
  qed
qed

end


lemma upd_cn_cong: "f (cn c w) = g (cn c w) \<Longrightarrow> upd_cn c f w = upd_cn c g w"
  by (cases w) (simp add: upd_cn_def upd_sv_def cn_def)

lemma upd_cn_id: "f (cn c w) = cn c w \<Longrightarrow> upd_cn c f w = w"
  by (cases w) (simp add: upd_cn_def upd_sv_def cn_def)

context guarded_server
begin

lemma process_rx_events:
  assumes inv: "server_inv am w" and off: "tls_off w" and opn: "\<not> cn_closing (cn c w)"
    and scan: "rx_scan (buf_data (cn_rx (cn c w))) = (es, rest)"
  shows "process_rx am ev c w =
    do { w \<leftarrow> rx_run am ev c es w;
         if cn_closing (cn c w) then Some w
         else let w = upd_cn c (\<lambda>k. k\<lparr>cn_rx := (cn_rx k)\<lparr>buf_data := rest\<rparr>\<rparr>) w
              in if MB_MAX_RX < length rest then mb_conn_begin_close ev c w else Some w }"
proof -
  let ?data = "buf_data (cn_rx (cn c w))"
  have loop: "process_rx_loop am ev c 0 w =
      do { w' \<leftarrow> rx_run am ev c es w;
           Some (if cn_closing (cn c w') then (None, w') else (Some (length ?data - length rest), w')) }"
    and run: "\<And>w'. rx_run am ev c es w = Some w' \<Longrightarrow> keep w w' \<and>
      (\<not> cn_closing (cn c w') \<longrightarrow> length rest \<le> length ?data \<and> rest = drop (length ?data - length rest) ?data)"
    using process_rx_loop_events [OF inv off opn refl, of 0 es rest] scan by auto
  show ?thesis
  proof (cases "rx_run am ev c es w")
    case None
    then show ?thesis by (simp add: process_rx_def loop)
  next
    case (Some w')
    show ?thesis
    proof (cases "cn_closing (cn c w')")
      case True
      then show ?thesis using Some by (simp add: process_rx_def loop)
    next
      case False
      let ?n = "length ?data - length rest"
      have rest: "rest = drop ?n ?data" "length rest \<le> length ?data" using run [OF Some] False by blast+
      have d': "cn_rx (cn c w') = cn_rx (cn c w)" using run [OF Some] by (simp add: keep_def)
      have cons: "mb_buf_consume (cn_rx (cn c w)) ?n = (cn_rx (cn c w))\<lparr>buf_data := rest\<rparr>" if "0 < ?n"
        using rest by (auto simp: mb_buf_consume_def)
      have eq: "(if 0 < ?n then upd_cn c (\<lambda>k. k\<lparr>cn_rx := mb_buf_consume (cn_rx k) ?n\<rparr>) w' else w') =
          upd_cn c (\<lambda>k. k\<lparr>cn_rx := (cn_rx k)\<lparr>buf_data := rest\<rparr>\<rparr>) w'"
      proof (cases "0 < ?n")
        case True
        then show ?thesis using cons d' by (auto intro: upd_cn_cong)
      next
        case zero: False
        then have "rest = ?data" using rest(1) by simp
        then have "upd_cn c (\<lambda>k. k\<lparr>cn_rx := (cn_rx k)\<lparr>buf_data := rest\<rparr>\<rparr>) w' = w'" using d' by (intro upd_cn_id) simp
        then show ?thesis using zero by simp
      qed
      have "process_rx am ev c w =
          (let w = upd_cn c (\<lambda>k. k\<lparr>cn_rx := (cn_rx k)\<lparr>buf_data := rest\<rparr>\<rparr>) w'
           in if MB_MAX_RX < length rest then mb_conn_begin_close ev c w else Some w)"
        unfolding process_rx_def loop Some using False eq by (simp add: Let_def world_simps)
      then show ?thesis using Some False by simp
    qed
  qed
qed

end

text \<open>The environment of the witnesses: every library call succeeds, nothing is attached to the server.\<close>

definition demo_env :: "(conn_id \<Rightarrow> bytes \<Rightarrow> 'x \<Rightarrow> 'x) \<Rightarrow> 'x env" where
  "demo_env put = \<lparr>uv_write = \<lambda>c data log. (True, put c data log), uv_read_start = \<lambda>c log. (True, log),
     uv_read_stop = \<lambda>c log. log, uv_is_closing = \<lambda>c log. False, uv_close = \<lambda>c log. log,
     uv_tcp_init = \<lambda>c log. (True, log), uv_accept = \<lambda>c log. (True, log), uv_peer_name = \<lambda>c log. Some (PEER_IPV4 ''127.0.0.1''),
     uv_update_time = \<lambda>log. log, uv_now = \<lambda>log. 0, uv_gettimeofday = \<lambda>log. Some (0, 0),
     calloc_conn = \<lambda>log. (Some 1, log), bio_read = \<lambda>c log. (BIO_EMPTY, log), bio_write = \<lambda>c data log. (int (length data), log),
     ssl_new = \<lambda>c log. (False, log), ssl_do_handshake = \<lambda>c log. (HANDSHAKE_FAILED, log),
     ssl_read = \<lambda>c log. (SSL_READ_FAILED, log), ssl_write = \<lambda>c data log. (SSL_WRITE_FAILED, log),
     json_object = \<lambda>text. Some (\<lambda>name. if name = ''auth_token'' then Some text else None),
     timer_start = \<lambda>due log. log, timer_stop = \<lambda>log. log, next_clock_deadline = \<lambda>log. None,
     eval_publish = \<lambda>subject payload now wall w. Some (True, w), bridge_fn = \<lambda>subject payload options w. Some w\<rparr>"

definition quiet_env :: "(conn_id \<times> bytes) list env" where
  "quiet_env = demo_env (\<lambda>c data log. log @ [(c, data)])"

text \<open>A server with the one client 1, which subscribed to \<open>a.*\<close>.\<close>

definition demo_server :: "'x \<Rightarrow> 'x mb_server" where
  "demo_server x = \<lparr>sv_conn = (\<lambda>_. mb_conn_zero)(1 := mb_conn_zero\<lparr>cn_authorized := True, cn_counted := True\<rparr>), sv_conns = Some 1,
     sv_conn_count = 1, sv_next_client_id = 2,
     sv_auth = \<lparr>auth_mode = MB_AUTH_TOKEN, auth_token = Some ''s3cret'', auth_user = None, auth_pass = None\<rparr>,
     sv_server_id = ''MC'', sv_host = ''127.0.0.1'', sv_port = 4222, sv_total_pubs = 0, sv_clock_offset_ms = 0,
     sv_timer_started = False, sv_closing = False, sv_lvc_enabled = False, sv_client_pubs_enabled = True,
     sv_tls_enabled = False, sv_snapshot_path = None, sv_snapshot_job = None, sv_snapshot_write_pending = False,
     sv_snapshot_write_again = False, sv_ext = x\<rparr>"

definition demo_world :: "'x \<Rightarrow> 'x server_world" where
  "demo_world x = (fst one_sub_state, snd one_sub_state, demo_server x)"

lemma demo_world_inv: "server_inv am (demo_world x)" "tls_off (demo_world x)" "\<not> cn_closing (cn c (demo_world x))"
proof -
  have cn: "cn d (demo_world x) = (if d = 1 then mb_conn_zero\<lparr>cn_authorized := True, cn_counted := True\<rparr> else mb_conn_zero)" for d
    by (simp add: demo_world_def demo_server_def cn_def)
  show "tls_off (demo_world x)" "\<not> cn_closing (cn c (demo_world x))"
    by (simp_all add: tls_off_def cn mb_conn_zero_def)
  have "linked (sv_conn (w_server (demo_world x))) (sv_conns (w_server (demo_world x))) [1]"
    by (simp add: demo_world_def demo_server_def linked_def mb_conn_zero_def)
  then show "server_inv am (demo_world x)"
    using one_sub_state(1) one_sub_conns_ok [of am]
    by (auto simp: server_inv_def cn cn_bufs_wf_def mb_conn_zero_def)
       (auto simp: demo_world_def)
qed



section \<open>Authorization\<close>

lemma byte_val_take_bit: "take_bit 64 (byte_val a) = byte_val a"
  by (rule take_bit_nat_eq_self) (rule less_trans [OF byte_val_lt], simp)

lemma xor_eq_0_iff: "a XOR b = 0 \<longleftrightarrow> a = (b :: u64)"
  by (auto simp: bit_eq_iff bit_simps)

lemma secret_diff_step:
  "fold (\<lambda>(e, g) diff. diff OR (word_of_nat (byte_val e) XOR word_of_nat (byte_val g))) ps (d :: u64) = 0 \<longleftrightarrow>
   d = 0 \<and> (\<forall>(e, g) \<in> set ps. e = g)"
proof (induction ps arbitrary: d)
  case (Cons p ps)
  obtain e g where p: "p = (e, g)" by fastforce
  have "word_of_nat (byte_val e) = (word_of_nat (byte_val g) :: u64) \<longleftrightarrow> e = g"
    using byte_val_inj [of e g] by (simp add: word_of_nat_eq_iff byte_val_take_bit)
  then have "(word_of_nat (byte_val e) XOR word_of_nat (byte_val g) :: u64) = 0 \<longleftrightarrow> e = g"
    by (simp add: xor_eq_0_iff)
  then show ?case using Cons.IH by (auto simp: p or_eq_0_iff)
qed simp

lemma secret_matches_iff: "secret_matches_slice (Some e) got \<longleftrightarrow> e = got"
proof -
  have "secret_diff e got = 0 \<longleftrightarrow> e = got" if "length e = length got"
    using that secret_diff_step [of "zip e got" 0]
    by (auto simp: secret_diff_def list_eq_iff_zip_eq)
  then show ?thesis by (auto simp: secret_matches_slice_def)
qed


text \<open>
  \<^bold>\<open>C12\<close> A \<open>CONNECT\<close> is accepted exactly when the JSON object it carries names the configured
  secrets: the byte-wise comparison without early exit is equality of the strings. A server
  without authentication accepts every \<open>CONNECT\<close>.
\<close>

theorem connect_auth_exact:
  "connect_auth_matches ev auth json \<longleftrightarrow>
    (case auth_mode auth of
       MB_AUTH_NONE \<Rightarrow> True
     | MB_AUTH_TOKEN \<Rightarrow>
         (\<exists>get token. json \<noteq> [] \<and> json_object ev json = Some get \<and>
            get ''auth_token'' = Some token \<and> auth_token auth = Some token)
     | MB_AUTH_USER_PASS \<Rightarrow>
         (\<exists>get user pass. json \<noteq> [] \<and> json_object ev json = Some get \<and>
            get ''user'' = Some user \<and> get ''pass'' = Some pass \<and>
            auth_user auth = Some user \<and> auth_pass auth = Some pass))"
proof -
  have iff: "secret_matches_slice e got \<longleftrightarrow> e = Some got" for e got
    by (cases e) (simp_all add: secret_matches_iff secret_matches_slice_def [of None])
  show ?thesis
    by (cases "auth_mode auth")
       (auto simp: connect_auth_matches_def mb_auth_token_matches_def mb_auth_user_pass_matches_def iff
         split: option.split)
qed


definition demo_stranger :: "(conn_id \<times> bytes) list server_world" where
  "demo_stranger = upd_cn 1 (\<lambda>k. k\<lparr>cn_authorized := False\<rparr>) (demo_world [])"



end
