(* ===== verification/Server.thy ===== *)
theory Server
  imports Conn_Events
begin

text \<open>
  The server around the connections (\<open>src/src/server/server.c\<close>): accepting, statistics, the
  snapshot job and shutting down. \<open>'x server_ext\<close> holds what these operations call outside
  this file: ticks and counters of the patchbay program, the counters of the bridge and of the importer,
  the encoder of snapshots and libuv's work queue. All but the calls of libuv and of \<open>calloc\<close>
  are filled with the definitions of these components by \<open>wired_server_ext\<close> in theory \<open>Wired\<close>.
\<close>

record 'x server_ext =
  stats_refresh :: "('x server_world \<Rightarrow> 'x server_world) option"
  rule_stats :: "'x \<Rightarrow> (u64 \<times> u64) list"
  bridge_attached :: bool
  bridge_published :: "'x \<Rightarrow> u64"
  bridge_dropped :: "'x \<Rightarrow> u64"
  import_attached :: bool
  import_received :: "'x \<Rightarrow> u64"
  import_processed :: "'x \<Rightarrow> u64"
  import_dropped :: "'x \<Rightarrow> u64"
  import_failed :: "'x \<Rightarrow> u64"
  snapshot_build :: "mb_router \<Rightarrow> 'x \<Rightarrow> bytes option"
  calloc_job :: "'x \<Rightarrow> bool \<times> 'x"
  uv_queue_work :: "bytes \<Rightarrow> 'x \<Rightarrow> bool \<times> 'x"
  drop_pending :: "'x \<Rightarrow> 'x"
  uv_signal_stop :: "'x \<Rightarrow> 'x"
  uv_stop :: "'x \<Rightarrow> 'x"
  program_tick :: "u64 \<Rightarrow> int \<Rightarrow> 'x server_world \<Rightarrow> (bool \<times> 'x server_world) option"

section \<open>The clock of the patchbay\<close>

definition on_patchbay_timer :: "'x env \<Rightarrow> 'x server_ext \<Rightarrow> 'x server_world \<Rightarrow> 'x server_world option" where
  "on_patchbay_timer ev sx w =
     do { let w = ext_do (uv_update_time ev) w;
          (_, w) \<leftarrow> program_tick sx (mb_server_patchbay_now_ms ev w) (mb_wall_clock_ms ev (sv_ext (w_server w))) w;
          Some (mb_server_reschedule_patchbay_clock ev w) }"

section \<open>Statistics\<close>

text \<open>The decimal rendering of a 64-bit number has at most 20 digits and fits the buffer of 32.\<close>

definition publish_stat ::
  "allocator \<Rightarrow> 'x env \<Rightarrow> bytes \<Rightarrow> u64 \<Rightarrow> 'x server_world \<Rightarrow> (bool \<times> 'x server_world) option" where
  "publish_stat am ev subject value w =
     mb_router_publish am (server_callbacks am ev) w subject (dec_digits (unat value))"

text \<open>Publishes a list of counters in order, each read when it is sent; all of them, even after a failure.\<close>

fun publish_stats ::
  "allocator \<Rightarrow> 'x env \<Rightarrow> (bytes \<times> ('x \<Rightarrow> u64)) list \<Rightarrow> bool \<Rightarrow> 'x server_world \<Rightarrow> (bool \<times> 'x server_world) option" where
  "publish_stats am ev [] ok w = Some (ok, w)"
| "publish_stats am ev ((subject, counter) # stats) ok w =
     do { (sent, w) \<leftarrow> publish_stat am ev subject (counter (sv_ext (w_server w))) w; publish_stats am ev stats (sent \<and> ok) w }"

definition rule_subject :: "nat \<Rightarrow> bytes \<Rightarrow> bytes" where
  "rule_subject i what = ''$STATS.rules.'' @ dec_digits i @ ''.'' @ what"

text \<open>The loop over the rules from \<open>i\<close> on, \<open>n\<close> of them; the counters are read when they are sent.\<close>

fun publish_rule_stats ::
  "allocator \<Rightarrow> 'x env \<Rightarrow> 'x server_ext \<Rightarrow> nat \<Rightarrow> nat \<Rightarrow> bool \<Rightarrow> 'x server_world \<Rightarrow> (bool \<times> 'x server_world) option" where
  "publish_rule_stats am ev sx i 0 ok w = Some (ok, w)"
| "publish_rule_stats am ev sx i (Suc n) ok w =
     do { (sent, w) \<leftarrow> publish_stat am ev (rule_subject i ''emitted'') (fst (rule_stats sx (sv_ext (w_server w)) ! i)) w;
          let ok = (sent \<and> ok);
          (sent, w) \<leftarrow> publish_stat am ev (rule_subject i ''suppressed'') (snd (rule_stats sx (sv_ext (w_server w)) ! i)) w;
          publish_rule_stats am ev sx (i + 1) n (sent \<and> ok) w }"

definition mb_server_emit_stats ::
  "allocator \<Rightarrow> 'x env \<Rightarrow> 'x server_ext \<Rightarrow> 'x server_world \<Rightarrow> (bool \<times> 'x server_world) option" where
  "mb_server_emit_stats am ev sx w =
     do { let w = (case stats_refresh sx of None \<Rightarrow> w | Some f \<Rightarrow> f w);
          (ok, w) \<leftarrow> publish_stat am ev ''$STATS.global.pubs'' (sv_total_pubs (w_server w)) w;
          (ok, w) \<leftarrow> publish_rule_stats am ev sx 0 (length (rule_stats sx (sv_ext (w_server w)))) ok w;
          (ok, w) \<leftarrow> (if bridge_attached sx
                      then publish_stats am ev [(''$STATS.bridge.published'', bridge_published sx),
                                                (''$STATS.bridge.dropped'', bridge_dropped sx)] ok w
                      else Some (ok, w));
          if import_attached sx
          then publish_stats am ev
                 [(''$STATS.import.received'', import_received sx), (''$STATS.import.processed'', import_processed sx),
                  (''$STATS.import.dropped'', import_dropped sx), (''$STATS.import.failed'', import_failed sx)] ok w
          else Some (ok, w) }"

definition on_stats_timer ::
  "allocator \<Rightarrow> 'x env \<Rightarrow> 'x server_ext \<Rightarrow> 'x server_world \<Rightarrow> 'x server_world option" where
  "on_stats_timer am ev sx w =
     (if sv_closing (w_server w) then Some w
      else do { (_, w) \<leftarrow> mb_server_emit_stats am ev sx w; Some w })"

section \<open>Snapshots\<close>

text \<open>At most one snapshot is being written; \<open>sv_snapshot_job\<close> are its bytes.\<close>

definition on_snapshot_timer :: "'x server_ext \<Rightarrow> 'x server_world \<Rightarrow> 'x server_world" where
  "on_snapshot_timer sx w =
     (if sv_closing (w_server w) \<or> sv_snapshot_path (w_server w) = None then w
      else if sv_snapshot_write_pending (w_server w)
      then upd_sv (\<lambda>s. s\<lparr>sv_snapshot_write_again := True\<rparr>) w
      else case ext (calloc_job sx) w of
        (False, w) \<Rightarrow> w
      | (True, w) \<Rightarrow>
          (case snapshot_build sx (w_router w) (sv_ext (w_server w)) of
             None \<Rightarrow> w
           | Some snapshot \<Rightarrow>
               let w = upd_sv (\<lambda>s. s\<lparr>sv_snapshot_write_pending := True, sv_snapshot_job := Some snapshot\<rparr>) w
               in case ext (uv_queue_work sx snapshot) w of
                    (True, w) \<Rightarrow> w
                  | (False, w) \<Rightarrow>
                      upd_sv (\<lambda>s. s\<lparr>sv_snapshot_write_pending := False, sv_snapshot_job := None\<rparr>) w))"

definition snapshot_after_work_cb :: "'x server_ext \<Rightarrow> 'x server_world \<Rightarrow> 'x server_world" where
  "snapshot_after_work_cb sx w =
     (let w = upd_sv (\<lambda>s. s\<lparr>sv_snapshot_job := None, sv_snapshot_write_pending := False\<rparr>) w
      in if \<not> sv_closing (w_server w) \<and> sv_snapshot_write_again (w_server w)
         then on_snapshot_timer sx (upd_sv (\<lambda>s. s\<lparr>sv_snapshot_write_again := False\<rparr>) w)
         else w)"

section \<open>Accepting and shutting down\<close>

definition on_connection ::
  "bytes \<Rightarrow> bytes \<Rightarrow> allocator \<Rightarrow> 'x env \<Rightarrow> 'x server_ext \<Rightarrow> int \<Rightarrow> 'x server_world \<Rightarrow> 'x server_world option" where
  "on_connection version build am ev sx status w =
     (if status < 0 then Some w
      else if sv_closing (w_server w) then Some w
      else if MB_MAX_CONNECTIONS \<le> sv_conn_count (w_server w) then Some (ext_do (drop_pending sx) w)
      else do { (_, w) \<leftarrow> mb_conn_create version build am ev w; Some w })"

definition on_signal :: "'x server_ext \<Rightarrow> 'x server_world \<Rightarrow> 'x server_world" where
  "on_signal sx w =
     ext_do (\<lambda>x. uv_stop sx (uv_signal_stop sx x))
       (upd_sv (\<lambda>s. s\<lparr>sv_closing := True, sv_snapshot_write_again := False\<rparr>) w)"

text \<open>The loop of \<open>mb_server_close\<close> over the connections, which closes the first until there is none.\<close>

partial_function (option) close_conns :: "'x env \<Rightarrow> 'x server_world \<Rightarrow> 'x server_world option" where
  "close_conns ev w =
     (case sv_conns (w_server w) of
        None \<Rightarrow> Some w
      | Some c \<Rightarrow> do { w \<leftarrow> mb_conn_begin_close ev c w; close_conns ev w })"

text \<open>The server identifier: \<open>MC\<close> and the 16 random bytes in hexadecimal.\<close>

definition make_server_id :: "bytes \<Rightarrow> bytes" where
  "make_server_id random =
     ''MC'' @ concat (map (\<lambda>b. [''0123456789ABCDEF'' ! (byte_val b div 16), ''0123456789ABCDEF'' ! (byte_val b mod 16)]) random)"

end
