(* ===== verification/Server_Correct.thy ===== *)
theory Server_Correct
  imports Server
begin

text \<open>
  What the clock of the patchbay, the snapshot job and the loop that closes the connections do.
\<close>

section \<open>The clock\<close>

text \<open>
  \<^bold>\<open>C40\<close> The patchbay clock is the loop's clock plus the configured offset, computed exactly
  and clamped to the range of \<open>uint64_t\<close>; no intermediate result wraps around, for every
  \<open>int64_t\<close> offset including \<open>INT64_MIN\<close>.
\<close>

theorem add_clock_offset_clamps:
  assumes "- (2 ^ 63) \<le> offset" "offset < 2 ^ 63"
  shows "uint (add_clock_offset now offset) = max 0 (min (2 ^ 64 - 1) (uint now + offset))"
proof (cases "0 \<le> offset")
  case True
  have u: "uint (word_of_int offset :: u64) = offset" using True assms by (simp add: uint_word_of_int)
  have m: "uint (UINT64_MAX - word_of_int offset) = 2 ^ 64 - 1 - offset"
    using u assms(2) by (subst uint_sub_if_size) (simp add: UINT64_MAX_def word_size unsigned_minus_1_eq_mask mask_eq_exp_minus_1)
  have n: "uint now < 2 ^ 64" using uint_bounded [of now] by simp
  show ?thesis
    using True n m u by (auto simp: add_clock_offset_def Let_def word_less_def uint_plus_if_size word_size UINT64_MAX_def unsigned_minus_1_eq_mask mask_eq_exp_minus_1)
next
  case False
  define sub :: u64 where "sub = (if offset = - (2 ^ 63) then word_of_nat (2 ^ 63 - 1) + 1 else word_of_int (- offset))"
  have u: "uint sub = - offset" using False assms by (auto simp: sub_def uint_word_of_int simp del: of_int_minus)
  have n: "uint now < 2 ^ 64" using uint_bounded [of now] by simp
  have "add_clock_offset now offset = (if sub < now then now - sub else 0)"
    using False by (simp add: add_clock_offset_def sub_def Let_def)
  then show ?thesis using False n u by (auto simp: word_less_def uint_sub_if_size word_size)
qed

theorem add_clock_offset_clamps_witness:
  "uint (add_clock_offset 5 (- (2 ^ 63))) = max 0 (min (2 ^ 64 - 1) (uint (5 :: u64) + - (2 ^ 63)))"
  by (rule add_clock_offset_clamps) simp_all

section \<open>Snapshots\<close>

text \<open>At most one job, and its flag says whether there is one.\<close>

definition snapshot_inv :: "'x server_world \<Rightarrow> bool" where
  "snapshot_inv w \<longleftrightarrow>
     (sv_snapshot_write_pending (w_server w) \<longleftrightarrow> sv_snapshot_job (w_server w) \<noteq> None) \<and>
     (sv_snapshot_write_again (w_server w) \<longrightarrow> sv_snapshot_write_pending (w_server w) \<and> \<not> sv_closing (w_server w))"

text \<open>What the snapshot callbacks leave alone.\<close>

definition snapshot_frame :: "'x server_world \<Rightarrow> 'x server_world \<Rightarrow> bool" where
  "snapshot_frame w w' \<longleftrightarrow>
     w_router w' = w_router w \<and> w_conns w' = w_conns w \<and> sv_conn (w_server w') = sv_conn (w_server w) \<and>
     sv_conns (w_server w') = sv_conns (w_server w) \<and> sv_tls_enabled (w_server w') = sv_tls_enabled (w_server w)"

lemma server_inv_frame: "server_inv am w \<Longrightarrow> snapshot_frame w w' \<Longrightarrow> server_inv am w'"
  unfolding server_inv_def snapshot_frame_def cn_def rc_def by simp

lemma tls_off_frame: "tls_off w \<Longrightarrow> snapshot_frame w w' \<Longrightarrow> tls_off w'"
  by (simp add: tls_off_def snapshot_frame_def cn_def)

lemma snapshot_timer_frame: "snapshot_frame w (on_snapshot_timer sx w)"
  by (auto simp: on_snapshot_timer_def snapshot_frame_def ext_def Let_def world_simps split: prod.splits option.split bool.splits)

lemma snapshot_after_frame: "snapshot_frame w (snapshot_after_work_cb sx w)"
  using snapshot_timer_frame [of "upd_sv (\<lambda>s. s\<lparr>sv_snapshot_job := None, sv_snapshot_write_pending := False, sv_snapshot_write_again := False\<rparr>) w" sx]
  by (auto simp: snapshot_after_work_cb_def snapshot_frame_def Let_def upd_sv_def world_simps split: prod.splits)

lemma snapshot_timer_inv: "snapshot_inv w \<Longrightarrow> snapshot_inv (on_snapshot_timer sx w)"
  by (auto simp: on_snapshot_timer_def snapshot_inv_def ext_def Let_def world_simps split: prod.splits option.split bool.splits)

lemma snapshot_after_inv:
  assumes "snapshot_inv w"
  shows "snapshot_inv (snapshot_after_work_cb sx w)"
proof -
  let ?w = "upd_sv (\<lambda>s. s\<lparr>sv_snapshot_job := None, sv_snapshot_write_pending := False\<rparr>) w"
  have "snapshot_inv (on_snapshot_timer sx (upd_sv (\<lambda>s. s\<lparr>sv_snapshot_write_again := False\<rparr>) ?w))"
    using assms by (intro snapshot_timer_inv) (simp add: snapshot_inv_def world_simps)
  moreover have "snapshot_inv ?w" if "sv_closing (w_server w) \<or> \<not> sv_snapshot_write_again (w_server w)"
    using assms that by (auto simp: snapshot_inv_def world_simps)
  ultimately show ?thesis
    by (simp add: snapshot_after_work_cb_def Let_def world_simps)
qed

section \<open>Shutting down\<close>

text \<open>Closing the first connection until there is none: one round per connection of the list.\<close>

lemma close_conns_spec:
  assumes "server_inv am w" "linked (sv_conn (w_server w)) (sv_conns (w_server w)) xs"
    "\<forall>c \<in> set xs. \<not> cn_closing (cn c w)"
  shows "\<exists>w'. close_conns ev w = Some w' \<and> server_inv am w' \<and> keep w w' \<and> sv_conns (w_server w') = None \<and>
    list_all (\<lambda>c. cn_closing (cn c w')) xs \<and>
    rt_lvc (w_router w') = rt_lvc (w_router w) \<and>
    all_subs (w_router w') = filter_mset (\<lambda>s. sub_conn s \<notin> set xs) (all_subs (w_router w))"
  using assms
proof (induction xs arbitrary: w)
  case Nil
  then have "sv_conns (w_server w) = None" using linked_hd by fastforce
  then show ?case using Nil(1) by (simp add: close_conns.simps)
next
  case (Cons c xs)
  have hd: "sv_conns (w_server w) = Some c" using linked_hd [OF Cons.prems(2)] by simp
  have c: "\<not> cn_closing (cn c w)" "c \<notin> set xs" using Cons.prems by (auto simp: linked_def)
  obtain w1 where w1: "mb_conn_begin_close ev c w = Some w1" "server_inv am w1" "keep w w1" "cn_closing (cn c w1)"
      "all_subs (w_router w1) = filter_mset (\<lambda>s. sub_conn s \<noteq> c) (all_subs (w_router w))"
      "rt_lvc (w_router w1) = rt_lvc (w_router w)"
      "\<And>d. d \<noteq> c \<Longrightarrow> cn_closing (cn d w1) = cn_closing (cn d w) \<and> rc d w1 = rc d w"
      "linked (sv_conn (w_server w1)) (sv_conns (w_server w1)) (removeAll c (c # xs))"
    by (rule begin_close_spec [OF Cons.prems(1), of ev c]) (use c Cons.prems(2) in blast)
  have l1: "linked (sv_conn (w_server w1)) (sv_conns (w_server w1)) xs" using w1(8) c by (simp add: removeAll_id)
  have "\<forall>d \<in> set xs. \<not> cn_closing (cn d w1)" using w1(7) c Cons.prems(3) by (metis list.set_intros(2))
  then obtain w2 where w2: "close_conns ev w1 = Some w2" "server_inv am w2" "keep w1 w2" "sv_conns (w_server w2) = None"
      "list_all (\<lambda>d. cn_closing (cn d w2)) xs"
      "rt_lvc (w_router w2) = rt_lvc (w_router w1)"
      "all_subs (w_router w2) = filter_mset (\<lambda>s. sub_conn s \<notin> set xs) (all_subs (w_router w1))"
    using Cons.IH [OF w1(2) l1] by blast
  have "close_conns ev w = Some w2" using hd w1(1) w2(1) by (simp add: close_conns.simps [of ev w])
  moreover have "all_subs (w_router w2) = filter_mset (\<lambda>s. sub_conn s \<notin> set (c # xs)) (all_subs (w_router w))"
    by (simp add: w2(7) w1(5) filter_filter_mset)
  ultimately show ?case using w2(2-6) keep_trans [OF w1(3) w2(3)] w1(4,6) by (simp add: keep_def)
qed

text \<open>The world of the witnesses.\<close>

abbreviation quiet_world :: "(conn_id \<times> bytes) list server_world" where
  "quiet_world \<equiv> demo_world []"

text \<open>
  \<^bold>\<open>C37\<close> The loop \<open>while (server->conns != NULL) mb_conn_begin_close (server->conns)\<close> of \<open>mb_server_close\<close>
  ends: it closes the client connections one by one until the list is empty, whatever state they are
  in. Afterwards no connection is linked, every connection of the list is closing, none of their
  subscriptions is left, and the last values are kept. What \<open>mb_server_close\<close> does before and after the
  loop is not part of the statement.
\<close>

theorem close_conns_ends:
  assumes "server_inv am w" "linked (sv_conn (w_server w)) (sv_conns (w_server w)) xs"
  shows "\<exists>w'. close_conns ev w = Some w' \<and> sv_conns (w_server w') = None \<and>
    list_all (\<lambda>c. cn_closing (cn c w')) xs \<and> server_inv am w' \<and> rt_lvc (w_router w') = rt_lvc (w_router w) \<and>
    all_subs (w_router w') = filter_mset (\<lambda>s. sub_conn s \<notin> set xs) (all_subs (w_router w))"
proof -
  obtain ys where ys: "linked (sv_conn (w_server w)) (sv_conns (w_server w)) ys" "\<forall>c \<in> set ys. \<not> cn_closing (cn c w)"
    using assms(1) by (auto simp: server_inv_def)
  have "xs = ys" using linked_unique [OF assms(2) ys(1)] .
  then show ?thesis using close_conns_spec [OF assms(1), of ys ev] ys by auto
qed

theorem close_conns_ends_witness:
  "\<exists>w'. close_conns quiet_env quiet_world = Some w' \<and> sv_conns (w_server w') = None \<and>
    list_all (\<lambda>c. cn_closing (cn c w')) [1] \<and> server_inv (\<lambda>_. True) w' \<and> rt_lvc (w_router w') = rt_lvc (w_router quiet_world) \<and>
    all_subs (w_router w') = filter_mset (\<lambda>s. sub_conn s \<notin> set [1]) (all_subs (w_router quiet_world))"
proof (rule close_conns_ends)
  show "server_inv (\<lambda>_. True) quiet_world" by (rule demo_world_inv)
  show "linked (sv_conn (w_server quiet_world)) (sv_conns (w_server quiet_world)) [1]"
    by (simp add: demo_world_def demo_server_def linked_def mb_conn_zero_def)
qed


section \<open>A snapshot that is owed\<close>

text \<open>A server with nothing attached, in the environment of the witnesses.\<close>

definition quiet_ext :: "(conn_id \<times> bytes) list server_ext" where
  "quiet_ext = \<lparr>stats_refresh = None, rule_stats = \<lambda>log. [(3, 4)], bridge_attached = False, bridge_published = \<lambda>log. 0,
     bridge_dropped = \<lambda>log. 0, import_attached = False, import_received = \<lambda>log. 0, import_processed = \<lambda>log. 0,
     import_dropped = \<lambda>log. 0, import_failed = \<lambda>log. 0, snapshot_build = \<lambda>r log. Some ''MBSS'',
     calloc_job = \<lambda>log. (True, log), uv_queue_work = \<lambda>b log. (True, log), drop_pending = \<lambda>log. log,
     uv_signal_stop = \<lambda>log. log, uv_stop = \<lambda>log. log, program_tick = \<lambda>now wall w. Some (True, w)\<rparr>"

text \<open>
  A snapshot that falls due while one is being written is not lost: when the running
  job ends, a job with the state of that moment is started, provided memory and the work
  queue allow it, and no further one is owed.
\<close>

theorem snapshot_request_served:
  assumes "snapshot_inv w" "sv_snapshot_job (w_server w) = Some running" "\<not> sv_closing (w_server w)"
    "sv_snapshot_path (w_server w) = Some path"
    and "calloc_job sx (sv_ext (w_server w)) = (True, x)" "snapshot_build sx (w_router w) x = Some snapshot"
    "uv_queue_work sx snapshot x = (True, x')"
  shows "sv_snapshot_job (w_server (on_snapshot_timer sx w)) = Some running \<and>
    sv_snapshot_job (w_server (snapshot_after_work_cb sx (on_snapshot_timer sx w))) = Some snapshot \<and>
    sv_snapshot_write_pending (w_server (snapshot_after_work_cb sx (on_snapshot_timer sx w))) \<and>
    \<not> sv_snapshot_write_again (w_server (snapshot_after_work_cb sx (on_snapshot_timer sx w)))"
proof -
  have t: "on_snapshot_timer sx w = upd_sv (\<lambda>s. s\<lparr>sv_snapshot_write_again := True\<rparr>) w"
    using assms by (simp add: on_snapshot_timer_def snapshot_inv_def)
  show ?thesis
    unfolding t using assms by (simp add: snapshot_after_work_cb_def on_snapshot_timer_def ext_def Let_def world_simps)
qed

theorem snapshot_request_served_witness:
  "sv_snapshot_job (w_server (snapshot_after_work_cb quiet_ext (on_snapshot_timer quiet_ext
     (upd_sv (\<lambda>s. s\<lparr>sv_snapshot_path := Some ''snap'', sv_snapshot_job := Some [], sv_snapshot_write_pending := True\<rparr>) quiet_world))))
   = Some ''MBSS''"
  using snapshot_request_served [of "upd_sv (\<lambda>s. s\<lparr>sv_snapshot_path := Some ''snap'', sv_snapshot_job := Some [],
      sv_snapshot_write_pending := True\<rparr>) quiet_world" "[]" "''snap''" quiet_ext "[]" "''MBSS''" "[]"]
  by (simp add: quiet_ext_def snapshot_inv_def world_simps demo_world_def demo_server_def)


end
