(* ===== verification/Arena.thy ===== *)
theory Arena
  imports "HOL-Library.Word" Prelude
begin

text \<open>
  The bump allocator of the patchbay (\<open>src/src/patchbay/pb_arena.c\<close>). A block is the address
  of its data, how much of it is used and its capacity; an arena is the chain of its blocks from
  the head. Addresses are natural numbers up to \<open>UINTPTR_MAX\<close>, which is \<open>SIZE_MAX\<close>.
\<close>

unbundle bit_operations_syntax

section \<open>Model\<close>

record pb_arena_block =
  blk_data :: nat
  blk_used :: nat
  blk_cap :: nat

type_synonym pb_arena = "pb_arena_block list"

text \<open>\<open>malloc\<close> for a new block: the address of its data, or the null pointer. It may depend on the arena.\<close>

type_synonym block_malloc = "pb_arena \<Rightarrow> nat \<Rightarrow> nat option"

definition BLOCK_HEADER :: nat where "BLOCK_HEADER = 24"

definition is_power_of_two :: "nat \<Rightarrow> bool" where
  "is_power_of_two n \<longleftrightarrow> n \<noteq> 0 \<and> n AND (n - 1) = 0"

text \<open>\<open>x & ~mask\<close> is written as \<open>x - (x & mask)\<close>.\<close>

definition align_ptr_offset :: "nat \<Rightarrow> nat \<Rightarrow> nat \<Rightarrow> nat option" where
  "align_ptr_offset base used align =
     (if \<not> is_power_of_two align then None
      else if SIZE_MAX - base < used then None
      else let addr = base + used; mask = align - 1
           in if SIZE_MAX - mask < addr then None
              else let aligned = (addr + mask) - ((addr + mask) AND mask)
                   in if aligned < base then None else Some (aligned - base))"

text \<open>
  The loop over the blocks: \<open>None\<close> when \<open>pb_arena_alloc\<close> gives up inside it, otherwise the pointer
  into the first block with room, if there is one.
\<close>

fun alloc_in_blocks :: "pb_arena \<Rightarrow> nat \<Rightarrow> nat \<Rightarrow> (nat option \<times> pb_arena) option" where
  "alloc_in_blocks [] sz align = Some (None, [])"
| "alloc_in_blocks (b # bs) sz align =
     (case align_ptr_offset (blk_data b) (blk_used b) align of
        None \<Rightarrow> None
      | Some off \<Rightarrow>
          if off \<le> blk_cap b \<and> sz \<le> blk_cap b - off
          then Some (Some (blk_data b + off), b\<lparr>blk_used := off + sz\<rparr> # bs)
          else map_option (\<lambda>(p, bs). (p, b # bs)) (alloc_in_blocks bs sz align))"

text \<open>The capacity of a new block: 4096, doubled until \<open>min_cap\<close> fits.\<close>

function new_cap :: "nat \<Rightarrow> nat \<Rightarrow> nat" where
  "new_cap cap min_cap =
     (if min_cap \<le> cap \<or> cap = 0 then cap else if SIZE_MAX div 2 < cap then min_cap else new_cap (2 * cap) min_cap)"
  by auto
termination by (relation "measure (\<lambda>(cap, min_cap). min_cap - cap)") auto

declare new_cap.simps [simp del]

definition pb_arena_alloc :: "block_malloc \<Rightarrow> pb_arena \<Rightarrow> nat \<Rightarrow> nat \<Rightarrow> nat option \<times> pb_arena" where
  "pb_arena_alloc malloc arena sz align =
     (let align = (if align = 0 then 8 else align)
      in if \<not> is_power_of_two align then (None, arena)
         else case alloc_in_blocks arena sz align of
           None \<Rightarrow> (None, arena)
         | Some (Some p, arena) \<Rightarrow> (Some p, arena)
         | Some (None, _) \<Rightarrow>
             if SIZE_MAX - align < sz then (None, arena)
             else let cap = new_cap 4096 (sz + align)
                  in if SIZE_MAX - BLOCK_HEADER < cap then (None, arena)
                     else case malloc arena (BLOCK_HEADER + cap) of
                       None \<Rightarrow> (None, arena)
                     | Some data \<Rightarrow>
                         (case align_ptr_offset data 0 align of
                            None \<Rightarrow> (None, arena)
                          | Some off \<Rightarrow>
                              if cap < off \<or> cap - off < sz then (None, arena)
                              else (Some (data + off), \<lparr>blk_data = data, blk_used = off + sz, blk_cap = cap\<rparr> # arena)))"

text \<open>A copy of \<open>len\<close> bytes; only whether it succeeds is observable, the copy has the bytes of the source.\<close>

definition pb_arena_memdup :: "block_malloc \<Rightarrow> pb_arena \<Rightarrow> bytes \<Rightarrow> bytes option \<times> pb_arena" where
  "pb_arena_memdup malloc arena src =
     (case pb_arena_alloc malloc arena (if src = [] then 1 else length src) 1 of
        (None, arena) \<Rightarrow> (None, arena)
      | (Some _, arena) \<Rightarrow> (Some src, arena))"

definition pb_arena_reset :: "pb_arena \<Rightarrow> pb_arena" where
  "pb_arena_reset arena = map (\<lambda>b. b\<lparr>blk_used := 0\<rparr>) arena"

fun trim_blocks :: "nat \<Rightarrow> nat \<Rightarrow> pb_arena \<Rightarrow> pb_arena" where
  "trim_blocks keep_cap retained [] = []"
| "trim_blocks keep_cap retained (b # bs) =
     (let over_budget = (keep_cap \<le> retained \<or> keep_cap - retained < blk_cap b)
      in if blk_used b = 0 \<and> over_budget then trim_blocks keep_cap retained bs
         else b # trim_blocks keep_cap (if SIZE_MAX - blk_cap b < retained then SIZE_MAX else retained + blk_cap b) bs)"

definition pb_arena_trim :: "pb_arena \<Rightarrow> nat \<Rightarrow> pb_arena" where
  "pb_arena_trim arena keep_cap = trim_blocks keep_cap 0 arena"

definition pb_arena_free :: "pb_arena \<Rightarrow> pb_arena" where
  "pb_arena_free arena = []"

section \<open>Alignment\<close>

lemma power_of_two_iff: "is_power_of_two n \<longleftrightarrow> (\<exists>k. n = 2 ^ k)"
proof
  assume a: "is_power_of_two n"
  show "\<exists>k. n = 2 ^ k"
    using a
  proof (induction n rule: less_induct)
    case (less n)
    show ?case
    proof (cases "n = 1")
      case False
      then have n: "1 < n" "n AND (n - 1) = 0" using less.prems by (auto simp: is_power_of_two_def)
      have ev: "even n"
      proof (rule ccontr)
        assume odd: "odd n"
        then obtain m where m: "n = 2 * m + 1" by (elim oddE)
        then have "n AND (n - 1) = 2 * m" by (simp add: and_nat_unfold [of "Suc (2 * m)"] m and.idem)
        then show False using n m by simp
      qed
      then obtain m where m: "n = 2 * m" by (elim evenE)
      have "m AND (m - 1) = 0"
      proof -
        obtain j where j: "m = Suc j" using n(1) m by (cases m) auto
        have "n - 1 = 2 * j + 1" using m j by simp
        then have "n AND (n - 1) = 2 * (m AND j)" by (subst and_nat_unfold) (simp add: m)
        then have "n AND (n - 1) = 2 * (m AND (m - 1))" using j by simp
        then show ?thesis using n(2) by simp
      qed
      then have "is_power_of_two m" using n(1) m by (auto simp: is_power_of_two_def)
      then obtain k where "m = 2 ^ k" using less.IH [of m] m n(1) by auto
      then show ?thesis using m by (metis power_Suc)
    qed (auto intro: exI [of _ 0])
  qed
next
  assume "\<exists>k. n = 2 ^ k"
  then obtain k where k: "n = 2 ^ k" by blast
  have "(2 ^ k :: nat) AND (2 ^ k - 1) = take_bit k (2 ^ k)"
    by (simp add: take_bit_eq_mask mask_eq_exp_minus_1)
  then show "is_power_of_two n" by (simp add: is_power_of_two_def k)
qed

lemma and_mask_mod:
  assumes "is_power_of_two align"
  shows "x AND (align - 1) = x mod (align :: nat)"
proof -
  obtain k where k: "align = 2 ^ k" using assms power_of_two_iff by blast
  have "x AND (2 ^ k - 1) = x mod 2 ^ k" using take_bit_eq_mask [of k x] by (simp add: mask_eq_exp_minus_1 take_bit_eq_mod)
  then show ?thesis by (simp add: k)
qed

lemma align_ptr_offset_spec:
  assumes "align_ptr_offset base used align = Some off"
  shows "(base + off) mod align = 0" "used \<le> off" "off < used + align" "base + off \<le> SIZE_MAX"
proof -
  let ?x = "base + used + (align - 1)"
  have p: "is_power_of_two align" and fits: "base + used \<le> SIZE_MAX - (align - 1)"
    and off': "off = (?x - (?x AND (align - 1))) - base" and le': "base \<le> ?x - (?x AND (align - 1))"
    using assms by (simp_all add: align_ptr_offset_def Let_def split: if_splits)
  have pos: "0 < align" using p by (simp add: is_power_of_two_def)
  have off: "off = (?x - ?x mod align) - base" and le: "base \<le> ?x - ?x mod align"
    using off' le' by (simp_all only: and_mask_mod [OF p])
  have m: "?x mod align < align" using pos by simp
  have bo: "base + off = ?x - ?x mod align" using off le by linarith
  then have "base + off = ?x div align * align" by (simp add: minus_mod_eq_div_mult)
  then show "(base + off) mod align = 0" by simp
  show "used \<le> off" "off < used + align" using bo m pos by linarith+
  show "base + off \<le> SIZE_MAX"
  proof (cases "align - 1 \<le> SIZE_MAX")
    case True
    then show ?thesis using bo fits by linarith
  next
    case False
    then have "?x < align" using fits by simp
    then show ?thesis using bo by simp
  qed
qed

section \<open>Allocations do not overlap\<close>

definition blk_range :: "pb_arena_block \<Rightarrow> nat set" where
  "blk_range b = {blk_data b ..< blk_data b + blk_cap b}"

definition blk_taken :: "pb_arena_block \<Rightarrow> nat set" where
  "blk_taken b = {blk_data b ..< blk_data b + blk_used b}"

text \<open>The addresses handed out since the last reset.\<close>

definition arena_taken :: "pb_arena \<Rightarrow> nat set" where
  "arena_taken arena = (\<Union>b \<in> set arena. blk_taken b)"

fun arena_ok :: "pb_arena \<Rightarrow> bool" where
  "arena_ok [] = True"
| "arena_ok (b # bs) \<longleftrightarrow> blk_used b \<le> blk_cap b \<and> (\<forall>c \<in> set bs. blk_range b \<inter> blk_range c = {}) \<and> arena_ok bs"

text \<open>What \<open>malloc\<close> promises: the new block shares no address with the blocks of the arena.\<close>

definition malloc_ok :: "block_malloc \<Rightarrow> bool" where
  "malloc_ok malloc \<longleftrightarrow>
     (\<forall>arena n data. malloc arena n = Some data \<longrightarrow>
        (\<forall>b \<in> set arena. {data ..< data + (n - BLOCK_HEADER)} \<inter> blk_range b = {}))"

lemma blk_taken_range: "blk_used b \<le> blk_cap b \<Longrightarrow> blk_taken b \<subseteq> blk_range b"
  by (auto simp: blk_taken_def blk_range_def)

lemma arena_taken_simps [simp]: "arena_taken [] = {}" "arena_taken (b # bs) = blk_taken b \<union> arena_taken bs"
  by (simp_all add: arena_taken_def)

lemma arena_ok_disjoint: "arena_ok (b # bs) \<Longrightarrow> S \<subseteq> blk_range b \<Longrightarrow> S \<inter> arena_taken bs = {}"
proof (induction bs)
  case (Cons c bs)
  then have "blk_taken c \<subseteq> blk_range c" "blk_range b \<inter> blk_range c = {}" by (simp_all add: blk_taken_range)
  then show ?case using Cons by (simp add: Int_Un_distrib) (meson disjoint_iff subset_iff)
qed simp

text \<open>What one allocation of \<open>sz\<close> bytes at \<open>p\<close> does to the arena.\<close>

definition alloc_spec :: "pb_arena \<Rightarrow> nat \<Rightarrow> nat \<Rightarrow> nat \<Rightarrow> pb_arena \<Rightarrow> bool" where
  "alloc_spec arena sz align p arena' \<longleftrightarrow>
     p mod align = 0 \<and> {p ..< p + sz} \<inter> arena_taken arena = {} \<and>
     {p ..< p + sz} \<union> arena_taken arena \<subseteq> arena_taken arena' \<and>
     (\<exists>b \<in> set arena'. {p ..< p + sz} \<subseteq> blk_range b) \<and> arena_ok arena'"

lemma alloc_in_blocks_ranges:
  "alloc_in_blocks bs sz align = Some (po, bs') \<Longrightarrow> map blk_range bs' = map blk_range bs"
  by (induction bs sz align arbitrary: bs' rule: alloc_in_blocks.induct)
     (auto simp: blk_range_def split: option.splits if_splits)

lemma alloc_in_blocks_none: "alloc_in_blocks bs sz align = Some (None, bs') \<Longrightarrow> bs' = bs"
  by (induction bs sz align arbitrary: bs' rule: alloc_in_blocks.induct) (auto split: option.splits if_splits)

lemma alloc_in_blocks_spec:
  "alloc_in_blocks bs sz align = Some (Some p, bs') \<Longrightarrow> arena_ok bs \<Longrightarrow> alloc_spec bs sz align p bs'"
proof (induction bs sz align arbitrary: bs' rule: alloc_in_blocks.induct)
  case (2 b bs sz align)
  obtain off where off: "align_ptr_offset (blk_data b) (blk_used b) align = Some off"
    using 2(2) by (cases "align_ptr_offset (blk_data b) (blk_used b) align") auto
  note o = align_ptr_offset_spec [OF off]
  show ?case
  proof (cases "off \<le> blk_cap b \<and> sz \<le> blk_cap b - off")
    case True
    let ?b = "b\<lparr>blk_used := off + sz\<rparr>"
    have r: "p = blk_data b + off" "bs' = ?b # bs" using 2(2) off True by auto
    have rng: "blk_range ?b = blk_range b" by (simp add: blk_range_def)
    have t: "blk_taken ?b = {blk_data b ..< blk_data b + (off + sz)}" by (simp add: blk_taken_def)
    have in_b: "{p ..< p + sz} \<subseteq> blk_range b" using r True by (auto simp: blk_range_def)
    have "{p ..< p + sz} \<inter> blk_taken b = {}" using r o(2) by (auto simp: blk_taken_def)
    moreover have "{p ..< p + sz} \<inter> arena_taken bs = {}" using arena_ok_disjoint [OF 2(3) in_b] .
    moreover have "{p ..< p + sz} \<union> blk_taken b \<subseteq> blk_taken ?b" using r o(2) by (auto simp: t blk_taken_def)
    moreover have "off + sz \<le> blk_cap b" using True by linarith
    then have "arena_ok bs'" using 2(3) by (simp add: r(2) rng)
    ultimately show ?thesis using o(1) in_b rng by (auto simp: alloc_spec_def r)
  next
    case False
    obtain cs where cs: "alloc_in_blocks bs sz align = Some (Some p, cs)" "bs' = b # cs" using 2(2) off False by auto
    have ih: "alloc_spec bs sz align p cs" using 2(1) [OF off False cs(1)] 2(3) by simp
    have m: "map blk_range cs = map blk_range bs" by (rule alloc_in_blocks_ranges [OF cs(1)])
    have rngs: "blk_range ` set cs = blk_range ` set bs" using arg_cong [OF m, of set] by simp
    have "{p ..< p + sz} \<inter> blk_taken b = {}"
    proof -
      obtain c where "c \<in> set cs" "{p ..< p + sz} \<subseteq> blk_range c" using ih by (auto simp: alloc_spec_def)
      then obtain d where "d \<in> set bs" "{p ..< p + sz} \<subseteq> blk_range d" using rngs by (metis image_iff)
      then show ?thesis using 2(3) blk_taken_range [of b] by fastforce
    qed
    moreover have "\<forall>c \<in> set cs. blk_range b \<inter> blk_range c = {}"
    proof
      fix c assume "c \<in> set cs"
      then obtain d where "d \<in> set bs" "blk_range c = blk_range d" using rngs by (metis image_iff)
      then show "blk_range b \<inter> blk_range c = {}" using 2(3) by simp
    qed
    ultimately show ?thesis using ih 2(3) by (auto simp: alloc_spec_def cs(2))
  qed
qed simp

text \<open>
  \<^bold>\<open>C34\<close> The arena never hands out memory twice: a successful allocation is aligned as
  requested, lies inside one block, and shares no byte with what was handed out since the last
  reset; what was handed out stays handed out.
\<close>

theorem arena_alloc_fresh:
  assumes "malloc_ok malloc" "arena_ok arena" "pb_arena_alloc malloc arena sz align = (Some p, arena')"
  shows "alloc_spec arena sz (if align = 0 then 8 else align) p arena'"
proof -
  let ?al = "if align = 0 then 8 else align"
  consider (old) "alloc_in_blocks arena sz ?al = Some (Some p, arena')"
    | (new) data off where "malloc arena (BLOCK_HEADER + new_cap 4096 (sz + ?al)) = Some data"
        "align_ptr_offset data 0 ?al = Some off" "off \<le> new_cap 4096 (sz + ?al)" "sz \<le> new_cap 4096 (sz + ?al) - off"
        "p = data + off" "arena' = \<lparr>blk_data = data, blk_used = off + sz, blk_cap = new_cap 4096 (sz + ?al)\<rparr> # arena"
    using assms(3) unfolding pb_arena_alloc_def Let_def by (auto split: if_splits option.splits)
  then show ?thesis
  proof cases
    case old
    then show ?thesis using alloc_in_blocks_spec assms(2) by blast
  next
    case new
    note o = align_ptr_offset_spec [OF new(2)]
    let ?b = "\<lparr>blk_data = data, blk_used = off + sz, blk_cap = new_cap 4096 (sz + ?al)\<rparr>"
    have "\<forall>c \<in> set arena. blk_range ?b \<inter> blk_range c = {}"
      using assms(1) new(1) by (fastforce simp: malloc_ok_def blk_range_def)
    then have ok: "arena_ok arena'" using assms(2) new by simp
    have in_b: "{p ..< p + sz} \<subseteq> blk_range ?b" using new by (auto simp: blk_range_def)
    have "{p ..< p + sz} \<inter> arena_taken arena = {}" using arena_ok_disjoint [of ?b arena] ok in_b new(6) by simp
    moreover have "{p ..< p + sz} \<subseteq> blk_taken ?b" using new by (auto simp: blk_taken_def)
    ultimately show ?thesis using ok in_b o(1) new(5,6) by (auto simp: alloc_spec_def)
  qed
qed

text \<open>A \<open>malloc\<close> that places every block after all others.\<close>

definition stack_malloc :: block_malloc where
  "stack_malloc arena n = Some (sum_list (map (\<lambda>b. blk_data b + blk_cap b) arena) + BLOCK_HEADER)"

lemma stack_malloc_ok: "malloc_ok stack_malloc"
proof -
  have le: "b \<in> set arena \<Longrightarrow> blk_data b + blk_cap b \<le> sum_list (map (\<lambda>b. blk_data b + blk_cap b) arena)" for b arena
    by (rule member_le_sum_list) auto
  show ?thesis
    unfolding malloc_ok_def stack_malloc_def blk_range_def using le by fastforce
qed

theorem arena_alloc_fresh_witness:
  "alloc_spec [\<lparr>blk_data = 24, blk_used = 3, blk_cap = 4096\<rparr>] 16 8 32 [\<lparr>blk_data = 24, blk_used = 24, blk_cap = 4096\<rparr>]"
  using arena_alloc_fresh [OF stack_malloc_ok, of "[\<lparr>blk_data = 24, blk_used = 3, blk_cap = 4096\<rparr>]" 16 8 32
      "[\<lparr>blk_data = 24, blk_used = 24, blk_cap = 4096\<rparr>]"]
  by (simp add: pb_arena_alloc_def align_ptr_offset_def is_power_of_two_def SIZE_MAX_def)

section \<open>Enough memory\<close>

text \<open>
  Memory that is never refused: \<open>malloc\<close> gives every request of up to \<open>2^62\<close> bytes an address in the
  lower half of the address space. In an arena of such blocks no allocation fails.
\<close>

definition plenty :: "block_malloc \<Rightarrow> bool" where
  "plenty malloc \<longleftrightarrow> (\<forall>arena n. n \<le> 2 ^ 62 \<longrightarrow> (\<exists>data. malloc arena n = Some data \<and> data + n \<le> 2 ^ 63))"

definition arena_room :: "pb_arena \<Rightarrow> bool" where
  "arena_room arena \<longleftrightarrow> (\<forall>b \<in> set arena. blk_used b \<le> blk_cap b \<and> blk_data b + blk_cap b \<le> 2 ^ 63)"

lemma align_ptr_offset_room:
  assumes "is_power_of_two align" "base + used + align \<le> SIZE_MAX"
  shows "\<exists>off. align_ptr_offset base used align = Some off"
proof -
  let ?x = "base + used + (align - 1)"
  have pos: "0 < align" using assms(1) by (simp add: is_power_of_two_def)
  then have "?x AND (align - 1) \<le> align - 1"
    unfolding and_mask_mod [OF assms(1)] using mod_less_divisor [of align ?x] by linarith
  then have "base \<le> ?x - (?x AND (align - 1))" by linarith
  then show ?thesis using assms pos by (auto simp: align_ptr_offset_def Let_def)
qed

lemma new_cap_bounds: "0 < cap \<Longrightarrow> min_cap \<le> SIZE_MAX div 4 \<Longrightarrow> min_cap \<le> new_cap cap min_cap \<and> new_cap cap min_cap \<le> max cap (2 * min_cap)"
proof (induction cap min_cap rule: new_cap.induct)
  case (1 cap min_cap)
  show ?case
  proof (cases "min_cap \<le> cap \<or> SIZE_MAX div 2 < cap")
    case True
    then show ?thesis using "1.prems" by (auto simp: new_cap.simps [of cap min_cap])
  next
    case False
    then have "new_cap cap min_cap = new_cap (2 * cap) min_cap" using "1.prems"(1) by (simp add: new_cap.simps [of cap min_cap])
    then show ?thesis using "1.IH" "1.prems" False by auto
  qed
qed

lemma alloc_in_blocks_room:
  assumes "arena_room bs" "is_power_of_two align" "align \<le> 8"
  shows "\<exists>po bs'. alloc_in_blocks bs sz align = Some (po, bs') \<and> arena_room bs'"
  using assms(1)
proof (induction bs)
  case (Cons b bs)
  have "blk_data b + blk_used b + align \<le> SIZE_MAX" using Cons.prems assms(3) by (simp add: arena_room_def SIZE_MAX_value)
  then obtain off where off: "align_ptr_offset (blk_data b) (blk_used b) align = Some off" using align_ptr_offset_room [OF assms(2)] by blast
  have "arena_room bs" using Cons.prems by (simp add: arena_room_def)
  then obtain po bs' where "alloc_in_blocks bs sz align = Some (po, bs')" "arena_room bs'" using Cons.IH by blast
  then show ?case using off Cons.prems by (auto simp: arena_room_def)
qed (simp add: arena_room_def)

lemma arena_alloc_room:
  assumes "plenty malloc" "arena_room arena" "is_power_of_two align" "align \<le> 8" "sz \<le> 2 ^ 56"
  obtains p arena' where "pb_arena_alloc malloc arena sz align = (Some p, arena')" "arena_room arena'"
proof -
  have al: "align \<noteq> 0" using assms(3) by (simp add: is_power_of_two_def)
  obtain po bs' where b: "alloc_in_blocks arena sz align = Some (po, bs')" "arena_room bs'"
    using alloc_in_blocks_room [OF assms(2-4)] by blast
  let ?cap = "new_cap 4096 (sz + align)"
  have cap: "sz + align \<le> ?cap" "?cap \<le> 2 ^ 60"
    using new_cap_bounds [of 4096 "sz + align"] assms(4,5) by (auto simp: SIZE_MAX_value)
  then have "BLOCK_HEADER + ?cap \<le> 2 ^ 62" by (simp add: BLOCK_HEADER_def)
  then obtain data where d: "malloc arena (BLOCK_HEADER + ?cap) = Some data" "data + (BLOCK_HEADER + ?cap) \<le> 2 ^ 63"
    using assms(1) unfolding plenty_def by blast
  obtain off where off: "align_ptr_offset data 0 align = Some off"
    using align_ptr_offset_room [OF assms(3), of data 0] d(2) assms(4) by (auto simp: SIZE_MAX_value)
  have "off < align" using align_ptr_offset_spec(3) [OF off] by simp
  then have fits: "off \<le> ?cap" "sz \<le> ?cap - off" using cap(1) by auto
  show thesis
  proof (cases po)
    case None
    let ?b = "\<lparr>blk_data = data, blk_used = off + sz, blk_cap = ?cap\<rparr>"
    have "pb_arena_alloc malloc arena sz align = (Some (data + off), ?b # arena)"
      using al b(1) None d off fits cap assms(3-5) by (simp add: pb_arena_alloc_def Let_def SIZE_MAX_value BLOCK_HEADER_def)
    moreover have "arena_room (?b # arena)" using assms(2) d(2) fits by (auto simp: arena_room_def)
    ultimately show thesis by (rule that)
  next
    case (Some p)
    then show thesis using that b al assms(3) by (simp add: pb_arena_alloc_def Let_def)
  qed
qed

lemma trim_blocks_bound:
  "\<forall>b \<in> set bs. blk_used b = 0 \<Longrightarrow> retained \<le> keep_cap \<Longrightarrow> keep_cap \<le> SIZE_MAX \<Longrightarrow>
   retained + sum_list (map blk_cap (trim_blocks keep_cap retained bs)) \<le> keep_cap"
proof (induction keep_cap retained bs rule: trim_blocks.induct)
  case (2 keep_cap retained b bs)
  show ?case
  proof (cases "keep_cap \<le> retained \<or> keep_cap - retained < blk_cap b")
    case True
    then show ?thesis using 2 by (simp add: Let_def)
  next
    case False
    then have "retained + blk_cap b \<le> keep_cap" "\<not> SIZE_MAX - blk_cap b < retained" using 2(5) by linarith+
    then show ?thesis using 2(2) [OF refl] False 2(3,5) by (simp add: Let_def)
  qed
qed simp

text \<open>
  After a reset and a trim the arena retains at most the given budget, so scratch memory
  does not stay at its high-water mark.
\<close>

theorem arena_trim_bounded:
  assumes "keep_cap \<le> SIZE_MAX"
  shows "sum_list (map blk_cap (pb_arena_trim (pb_arena_reset arena) keep_cap)) \<le> keep_cap"
  using trim_blocks_bound [of "pb_arena_reset arena" 0 keep_cap] assms
  by (auto simp: pb_arena_trim_def pb_arena_reset_def)

theorem arena_trim_bounded_witness:
  "sum_list (map blk_cap (pb_arena_trim (pb_arena_reset [\<lparr>blk_data = 24, blk_used = 3, blk_cap = 4096\<rparr>]) 4000)) \<le> 4000"
  by (rule arena_trim_bounded) (simp add: SIZE_MAX_def)

end
