(* ===== verification/Float64.thy ===== *)
theory Float64
  imports Complex_Main Prelude
begin

text \<open>
  The C type \<open>double\<close> (IEEE 754 binary64, rounding to nearest, ties to even) with the operations the
  patchbay uses. A finite non-zero number is its exact rational value; zeros keep their sign.
\<close>

datatype double = D_NAN | D_INF bool | D_ZERO bool | D_NUM rat

section \<open>Rounding\<close>

function bit_len :: "int \<Rightarrow> int" where
  "bit_len n = (if n \<le> 0 then 0 else bit_len (n div 2) + 1)"
  by auto
termination by (relation "measure nat") auto

declare bit_len.simps [simp del]

definition pow2 :: "int \<Rightarrow> rat" where
  "pow2 e = (if 0 \<le> e then of_int (2 ^ nat e) else 1 / of_int (2 ^ nat (- e)))"

definition round_half_even :: "rat \<Rightarrow> int" where
  "round_half_even x =
     (let f = \<lfloor>x\<rfloor>; d = x - of_int f
      in if d < 1 / 2 then f else if 1 / 2 < d then f + 1 else if even f then f else f + 1)"

text \<open>The binary exponent of a positive number: \<open>pow2 e \<le> r < pow2 (e + 1)\<close>.\<close>

definition exponent_of :: "rat \<Rightarrow> int" where
  "exponent_of r =
     (case quotient_of r of (p, q) \<Rightarrow>
        let k = bit_len p - bit_len q in if r < pow2 k then k - 1 else k)"

text \<open>The exponent of the last place: 53 significant bits, never below the least subnormal.\<close>

definition ulp_exponent :: "rat \<Rightarrow> int" where
  "ulp_exponent r = max (exponent_of r - 52) (- 1074)"

definition round_mag :: "rat \<Rightarrow> rat" where
  "round_mag r = of_int (round_half_even (r / pow2 (ulp_exponent r))) * pow2 (ulp_exponent r)"

text \<open>The exact result \<open>r\<close> of an operation as a \<open>double\<close>; \<open>neg\<close> is the sign of a zero result.\<close>

definition round_double :: "bool \<Rightarrow> rat \<Rightarrow> double" where
  "round_double neg r =
     (if r = 0 then D_ZERO neg
      else let m = round_mag \<bar>r\<bar>
           in if m = 0 then D_ZERO (r < 0)
              else if 1024 \<le> exponent_of m then D_INF (r < 0)
              else D_NUM (if r < 0 then - m else m))"

definition d_of_int :: "int \<Rightarrow> double" where
  "d_of_int n = round_double False (of_int n)"

abbreviation d_of_nat :: "nat \<Rightarrow> double" where "d_of_nat n \<equiv> d_of_int (int n)"

section \<open>Arithmetic\<close>

fun d_sign :: "double \<Rightarrow> bool" where
  "d_sign D_NAN = False" | "d_sign (D_INF s) = s" | "d_sign (D_ZERO s) = s" | "d_sign (D_NUM r) = (r < 0)"

text \<open>The value of a finite number.\<close>

fun d_val :: "double \<Rightarrow> rat" where
  "d_val (D_NUM r) = r" | "d_val _ = 0"

fun d_finite :: "double \<Rightarrow> bool" where
  "d_finite D_NAN = False" | "d_finite (D_INF _) = False" | "d_finite _ = True"

fun d_neg :: "double \<Rightarrow> double" where
  "d_neg D_NAN = D_NAN" | "d_neg (D_INF s) = D_INF (\<not> s)" | "d_neg (D_ZERO s) = D_ZERO (\<not> s)" | "d_neg (D_NUM r) = D_NUM (- r)"

fun d_abs :: "double \<Rightarrow> double" where
  "d_abs D_NAN = D_NAN" | "d_abs (D_INF _) = D_INF False" | "d_abs (D_ZERO _) = D_ZERO False" | "d_abs (D_NUM r) = D_NUM \<bar>r\<bar>"

fun d_add :: "double \<Rightarrow> double \<Rightarrow> double" where
  "d_add D_NAN _ = D_NAN"
| "d_add _ D_NAN = D_NAN"
| "d_add (D_INF s) (D_INF t) = (if s = t then D_INF s else D_NAN)"
| "d_add (D_INF s) _ = D_INF s"
| "d_add _ (D_INF t) = D_INF t"
| "d_add (D_ZERO s) (D_ZERO t) = D_ZERO (s \<and> t)"
| "d_add x y = round_double False (d_val x + d_val y)"

definition d_sub :: "double \<Rightarrow> double \<Rightarrow> double" where
  "d_sub x y = d_add x (d_neg y)"

fun d_mul :: "double \<Rightarrow> double \<Rightarrow> double" where
  "d_mul D_NAN _ = D_NAN"
| "d_mul _ D_NAN = D_NAN"
| "d_mul (D_INF s) y = (case y of D_ZERO _ \<Rightarrow> D_NAN | _ \<Rightarrow> D_INF (s \<noteq> d_sign y))"
| "d_mul x (D_INF t) = (case x of D_ZERO _ \<Rightarrow> D_NAN | _ \<Rightarrow> D_INF (d_sign x \<noteq> t))"
| "d_mul x y = round_double (d_sign x \<noteq> d_sign y) (d_val x * d_val y)"

fun d_div :: "double \<Rightarrow> double \<Rightarrow> double" where
  "d_div D_NAN _ = D_NAN"
| "d_div _ D_NAN = D_NAN"
| "d_div (D_INF _) (D_INF _) = D_NAN"
| "d_div (D_INF s) y = D_INF (s \<noteq> d_sign y)"
| "d_div x (D_INF t) = D_ZERO (d_sign x \<noteq> t)"
| "d_div (D_ZERO _) (D_ZERO _) = D_NAN"
| "d_div x (D_ZERO t) = D_INF (d_sign x \<noteq> t)"
| "d_div x y = round_double (d_sign x \<noteq> d_sign y) (d_val x / d_val y)"

section \<open>Comparison\<close>

text \<open>Every comparison with a NaN is false; the two zeros are equal.\<close>

fun d_lt :: "double \<Rightarrow> double \<Rightarrow> bool" where
  "d_lt D_NAN _ = False"
| "d_lt _ D_NAN = False"
| "d_lt (D_INF s) y = (s \<and> y \<noteq> D_INF True)"
| "d_lt x (D_INF t) = (\<not> t)"
| "d_lt x y = (d_val x < d_val y)"

fun d_eq :: "double \<Rightarrow> double \<Rightarrow> bool" where
  "d_eq D_NAN _ = False"
| "d_eq _ D_NAN = False"
| "d_eq (D_INF s) y = (y = D_INF s)"
| "d_eq x (D_INF t) = False"
| "d_eq x y = (d_val x = d_val y)"

definition d_le :: "double \<Rightarrow> double \<Rightarrow> bool" where
  "d_le x y \<longleftrightarrow> d_lt x y \<or> d_eq x y"

section \<open>The mathematical library\<close>

text \<open>\<open>floor\<close> and \<open>round\<close> (halves away from zero) give integers, which a \<open>double\<close> of that size holds exactly.\<close>

fun d_floor :: "double \<Rightarrow> double" where
  "d_floor (D_NUM r) = round_double (r < 0) (of_int \<lfloor>r\<rfloor>)"
| "d_floor x = x"

definition round_away :: "rat \<Rightarrow> int" where
  "round_away r = (if r < 0 then - \<lfloor>- r + 1 / 2\<rfloor> else \<lfloor>r + 1 / 2\<rfloor>)"

fun d_round :: "double \<Rightarrow> double" where
  "d_round (D_NUM r) = round_double (r < 0) (of_int (round_away r))"
| "d_round x = x"

text \<open>\<open>pow (10.0, n)\<close> for a whole number \<open>n\<close>, correctly rounded.\<close>

fun d_pow10 :: "double \<Rightarrow> double" where
  "d_pow10 D_NAN = D_NAN"
| "d_pow10 (D_INF s) = (if s then D_ZERO False else D_INF False)"
| "d_pow10 x = (if 400 \<le> d_val x then D_INF False else round_double False (10 ^ nat \<lfloor>d_val x\<rfloor>))"

text \<open>The integer square root, and the correctly rounded root of a positive number: 54 bits of it and a sticky bit.\<close>

function isqrt :: "int \<Rightarrow> int" where
  "isqrt n = (if n \<le> 0 then 0 else let r = 2 * isqrt (n div 4) in if (r + 1) * (r + 1) \<le> n then r + 1 else r)"
  by auto
termination by (relation "measure nat") auto

declare isqrt.simps [simp del]

definition sqrt_mag :: "rat \<Rightarrow> rat" where
  "sqrt_mag r =
     (let k = (exponent_of r - 110) div 2;
          y = r / pow2 (2 * k);
          s = isqrt \<lfloor>y\<rfloor>
      in (of_int s + (if of_int (s * s) = y then 0 else 1 / 2)) * pow2 k)"

fun d_sqrt :: "double \<Rightarrow> double" where
  "d_sqrt (D_NUM r) = (if r < 0 then D_NAN else round_double False (sqrt_mag r))"
| "d_sqrt (D_INF s) = (if s then D_NAN else D_INF s)"
| "d_sqrt x = x"

section \<open>Facts\<close>

lemma d_lt_irrefl [simp]: "\<not> d_lt x x"
  by (cases x) auto

lemma d_lt_trans: "d_lt x y \<Longrightarrow> d_lt y z \<Longrightarrow> d_lt x z"
  by (cases x; cases y; cases z) auto

lemma d_eq_sym: "d_eq x y = d_eq y x"
  by (cases x; cases y) auto

lemma d_eq_refl: "x \<noteq> D_NAN \<Longrightarrow> d_eq x x"
  by (cases x) auto

lemma d_not_lt: "x \<noteq> D_NAN \<Longrightarrow> y \<noteq> D_NAN \<Longrightarrow> \<not> d_lt x y \<longleftrightarrow> d_le y x"
  by (cases x; cases y) (auto simp: d_le_def)

lemma d_le_trans: "d_le x y \<Longrightarrow> d_le y z \<Longrightarrow> d_le x z"
  by (cases x; cases y; cases z) (auto simp: d_le_def)

subsection \<open>Exact results\<close>

lemma pow2_powi: "pow2 e = 2 powi e"
  by (simp add: pow2_def power_int_def field_simps)

lemma pow2_add: "pow2 (a + b) = pow2 a * pow2 b"
  by (simp add: pow2_powi power_int_add)

lemma pow2_pos [simp]: "0 < pow2 e"
  by (simp add: pow2_def)

lemma pow2_not_0 [simp]: "pow2 e \<noteq> 0"
  by (simp add: pow2_def)

lemma pow2_mono: "a \<le> b \<Longrightarrow> pow2 a \<le> pow2 b"
  by (simp add: pow2_powi power_int_increasing)

lemma pow2_nat: "pow2 (int n) = 2 ^ n"
  by (simp add: pow2_def)

lemma pow2_diff: "pow2 (a - b) = pow2 a / pow2 b"
  by (simp add: pow2_powi power_int_diff)

lemma bit_len_bounds: "0 < n \<Longrightarrow> 1 \<le> bit_len n \<and> pow2 (bit_len n - 1) \<le> of_int n \<and> of_int n < pow2 (bit_len n)"
proof (induction n rule: bit_len.induct)
  case (1 n)
  show ?case
  proof (cases "n = 1")
    case True
    then show ?thesis by (simp add: bit_len.simps [of 1] bit_len.simps [of 0] pow2_def)
  next
    case False
    then have h: "0 < n div 2" using 1(2) by auto
    define k where "k = bit_len (n div 2)"
    have ih: "1 \<le> k" "pow2 (k - 1) \<le> of_int (n div 2)" "of_int (n div 2) < pow2 k" using 1 h by (simp_all add: k_def)
    have l: "bit_len n = k + 1" using 1(2) by (simp add: bit_len.simps [of n] k_def)
    have z: "pow2 j = of_int (2 ^ nat j)" if "0 \<le> j" for j using that by (simp add: pow2_def)
    have ih': "2 ^ nat (k - 1) \<le> n div 2" "n div 2 < 2 ^ nat k"
      using ih by (simp_all only: z of_int_le_iff of_int_less_iff)
    obtain j where "k = int j + 1" using ih(1) by (metis add.commute le_add_diff_inverse zero_le_imp_eq_int diff_ge_0_iff_ge)
    then have "nat k = Suc j" "nat (k - 1) = j" "nat (k + 1) = Suc (Suc j)" by auto
    then have "(2::int) ^ nat k = 2 * 2 ^ nat (k - 1)" "(2::int) ^ nat (k + 1) = 2 * 2 ^ nat k" by simp_all
    with ih' have "2 ^ nat k \<le> n \<and> n < 2 ^ nat (k + 1)" by linarith
    then show ?thesis using ih(1) by (simp add: l z del: of_int_power)
  qed
qed

lemma exponent_of_bounds:
  assumes "0 < r"
  shows "pow2 (exponent_of r) \<le> r" "r < pow2 (exponent_of r + 1)"
proof -
  obtain p q where pq: "quotient_of r = (p, q)" by fastforce
  have q: "0 < q" using quotient_of_denom_pos [OF pq] .
  have r: "r = of_int p / of_int q" using quotient_of_div [OF pq] .
  have p: "0 < p" using assms r q by (simp add: zero_less_divide_iff)
  define a b where "a = bit_len p" and "b = bit_len q"
  have pb: "pow2 (a - 1) \<le> of_int p" "of_int p < pow2 a" using bit_len_bounds [OF p] by (simp_all add: a_def)
  have qb: "pow2 (b - 1) \<le> of_int q" "of_int q < pow2 b" using bit_len_bounds [OF q] by (simp_all add: b_def)
  let ?k = "a - b"
  have q': "(0::rat) < of_int q" using q by simp
  have "pow2 (?k - 1) * of_int q \<le> pow2 (?k - 1) * pow2 b" using qb(2) by simp
  also have "\<dots> = pow2 (a - 1)" by (simp add: pow2_add [symmetric])
  also note pb(1)
  finally have lo: "pow2 (?k - 1) \<le> r" using q' by (simp add: r pos_le_divide_eq)
  note pb(2)
  also have "pow2 a = pow2 (?k + 1) * pow2 (b - 1)" by (simp add: pow2_add [symmetric])
  also have "\<dots> \<le> pow2 (?k + 1) * of_int q" using qb(1) by simp
  finally have hi: "r < pow2 (?k + 1)" using q' by (simp add: r pos_divide_less_eq)
  have e: "exponent_of r = (if r < pow2 ?k then ?k - 1 else ?k)" by (simp add: exponent_of_def pq a_def b_def Let_def)
  show "pow2 (exponent_of r) \<le> r" "r < pow2 (exponent_of r + 1)" using lo hi by (auto simp: e)
qed

lemma round_half_even_int [simp]: "round_half_even (of_int n) = n"
  by (simp add: round_half_even_def Let_def)

text \<open>A number with at most 53 significant bits is not rounded.\<close>

lemma round_mag_exact:
  assumes "0 < m" "m < 2 ^ 53" "- 1074 \<le> e" and r: "r = of_int m * pow2 e"
  shows "round_mag r = r"
proof -
  have pos: "0 < r" using assms by simp
  have "of_int m < (2 :: rat) ^ 53"
    using assms(2) by (metis of_int_less_iff of_int_numeral of_int_power)
  then have "r < pow2 53 * pow2 e" unfolding r by (intro mult_strict_right_mono) (simp_all add: pow2_def [of 53])
  then have "pow2 (exponent_of r) < pow2 (53 + e)" using exponent_of_bounds(1) [OF pos] by (simp add: pow2_add)
  then have "exponent_of r < 53 + e" using pow2_mono by (meson leI not_le)
  then have u: "ulp_exponent r \<le> e" using assms(3) by (simp add: ulp_exponent_def)
  have "r / pow2 (ulp_exponent r) = of_int m * pow2 (e - ulp_exponent r)" by (simp add: r pow2_diff)
  also have "\<dots> = of_int (m * 2 ^ nat (e - ulp_exponent r))" using u by (simp add: pow2_def)
  finally have "round_half_even (r / pow2 (ulp_exponent r)) = m * 2 ^ nat (e - ulp_exponent r)"
    by (metis round_half_even_int)
  then have "round_mag r = of_int m * pow2 (e - ulp_exponent r) * pow2 (ulp_exponent r)"
    using u by (simp add: round_mag_def pow2_def)
  then show ?thesis by (simp add: r pow2_diff)
qed

text \<open>Whole numbers below \<open>2 ^ 53\<close> are held exactly.\<close>

lemma d_of_int_exact:
  assumes "\<bar>n\<bar> < 2 ^ 53"
  shows "d_of_int n = (if n = 0 then D_ZERO False else D_NUM (of_int n))"
proof (cases "n = 0")
  case False
  have m: "round_mag \<bar>of_int n\<bar> = \<bar>of_int n\<bar>"
    by (rule round_mag_exact [of "\<bar>n\<bar>" 0]) (use assms False in \<open>auto simp: pow2_def\<close>)
  have "(of_int \<bar>n\<bar> :: rat) < of_int (2 ^ 53)" using assms by (simp only: of_int_less_iff)
  then have "\<bar>of_int n\<bar> < pow2 53" by (simp add: pow2_def)
  then have "pow2 (exponent_of \<bar>of_int n\<bar>) < pow2 53" using exponent_of_bounds(1) [of "\<bar>of_int n\<bar>"] False by simp
  then have "exponent_of \<bar>of_int n\<bar> < 53" using pow2_mono by (meson leI not_le)
  then show ?thesis using False m by (simp add: d_of_int_def round_double_def Let_def abs_if)
qed (simp add: d_of_int_def round_double_def)


end
