(* ===== verification/C_Text.thy ===== *)
theory C_Text
  imports Float64
begin

text \<open>
  What the patchbay uses of the C library to read and write numbers: \<open>strtod\<close> and the
  conversions \<open>%.*f\<close>, \<open>%.*g\<close> of \<open>snprintf\<close>, in the "C" locale. Both are correctly rounded. The
  sign of a NaN is not kept: it prints as \<open>nan\<close>.
\<close>

section \<open>Digits\<close>

text \<open>The integer versions of the digit functions of the prelude.\<close>

function int_digits :: "int \<Rightarrow> bytes" where
  "int_digits n = (if n < 10 then [digit_char (nat n)] else int_digits (n div 10) @ [digit_char (nat (n mod 10))])"
  by auto
termination by (relation "measure nat") auto

declare int_digits.simps [simp del]

definition int_value :: "int \<Rightarrow> (char \<Rightarrow> nat) \<Rightarrow> bytes \<Rightarrow> int" where
  "int_value base dig s = foldl (\<lambda>v c. v * base + int (dig c)) 0 s"

definition pow10 :: "int \<Rightarrow> rat" where
  "pow10 e = (if 0 \<le> e then of_int (10 ^ nat e) else 1 / of_int (10 ^ nat (- e)))"

definition is_hex_digit :: "char \<Rightarrow> bool" where
  "is_hex_digit c \<longleftrightarrow> is_digit c \<or> 65 \<le> byte_val c \<and> byte_val c \<le> 70 \<or> 97 \<le> byte_val c \<and> byte_val c \<le> 102"

definition hex_digit_val :: "char \<Rightarrow> nat" where
  "hex_digit_val c = (if is_digit c then digit_val c else if byte_val c \<le> 70 then byte_val c - 55 else byte_val c - 87)"

definition c_isspace :: "char \<Rightarrow> bool" where
  "c_isspace c \<longleftrightarrow> byte_val c = 32 \<or> 9 \<le> byte_val c \<and> byte_val c \<le> 13"

definition c_tolower :: "char \<Rightarrow> char" where
  "c_tolower c = (if 65 \<le> byte_val c \<and> byte_val c \<le> 90 then char_of (byte_val c + 32) else c)"

definition has_prefix_ci :: "bytes \<Rightarrow> bytes \<Rightarrow> bool" where
  "has_prefix_ci p s \<longleftrightarrow> length p \<le> length s \<and> map c_tolower (take (length p) s) = p"

section \<open>Reading\<close>

text \<open>
  Digits with an optional point: the digits before and after it and the rest of the input;
  \<open>None\<close> when there is no digit.
\<close>

definition scan_mantissa :: "(char \<Rightarrow> bool) \<Rightarrow> bytes \<Rightarrow> (bytes \<times> bytes \<times> bytes) option" where
  "scan_mantissa dig s =
     (let ip = takeWhile dig s; rest = dropWhile dig s
      in case rest of
           c # more \<Rightarrow>
             if c = CHR ''.'' then
               let fp = takeWhile dig more
               in if ip = [] \<and> fp = [] then None else Some (ip, fp, dropWhile dig more)
             else if ip = [] then None else Some (ip, [], rest)
         | [] \<Rightarrow> if ip = [] then None else Some (ip, [], rest))"

text \<open>An optional exponent after the letter \<open>mark\<close>: its value and the rest of the input.\<close>

definition scan_exponent :: "char \<Rightarrow> bytes \<Rightarrow> int \<times> bytes" where
  "scan_exponent mark s =
     (case s of
        [] \<Rightarrow> (0, s)
      | c # t \<Rightarrow>
          if c_tolower c \<noteq> mark then (0, s)
          else let neg = (t \<noteq> [] \<and> hd t = CHR ''-'');
                   u = (if t \<noteq> [] \<and> (hd t = CHR ''-'' \<or> hd t = CHR ''+'') then tl t else t);
                   ds = takeWhile is_digit u
               in if ds = [] then (0, s)
                  else let v = int_value 10 digit_val ds in (if neg then - v else v, dropWhile is_digit u))"

text \<open>
  The number \<open>r\<close> read from the input, with \<open>True\<close> when \<open>errno\<close> becomes \<open>ERANGE\<close>: it is too large,
  or too small for a normal number and not exact.
\<close>

definition read_rat :: "bool \<Rightarrow> rat \<Rightarrow> double \<times> bool" where
  "read_rat neg r =
     (let d = round_double neg (if neg then - r else r)
      in (d, case d of
               D_INF _ \<Rightarrow> True
             | D_ZERO _ \<Rightarrow> r \<noteq> 0
             | D_NUM v \<Rightarrow> exponent_of \<bar>v\<bar> < - 1022 \<and> \<bar>v\<bar> \<noteq> r
             | D_NAN \<Rightarrow> False))"

text \<open>The unsigned part of the subject sequence: the value, \<open>ERANGE\<close> and what is left of the input.\<close>

definition scan_number :: "bool \<Rightarrow> bytes \<Rightarrow> ((double \<times> bool) \<times> bytes) option" where
  "scan_number neg s =
     (if has_prefix_ci ''infinity'' s then Some ((D_INF neg, False), drop 8 s)
      else if has_prefix_ci ''inf'' s then Some ((D_INF neg, False), drop 3 s)
      else if has_prefix_ci ''nan'' s then
        (let rest = drop 3 s;
             seq = dropWhile (\<lambda>c. is_hex_digit c \<or> CHR ''_'' = c \<or> 97 \<le> byte_val (c_tolower c) \<and> byte_val (c_tolower c) \<le> 122) (tl rest)
         in if rest \<noteq> [] \<and> hd rest = CHR ''('' \<and> seq \<noteq> [] \<and> hd seq = CHR '')'' then Some ((D_NAN, False), tl seq)
            else Some ((D_NAN, False), rest))
      else if has_prefix_ci ''0x'' s \<and> scan_mantissa is_hex_digit (drop 2 s) \<noteq> None then
        (case the (scan_mantissa is_hex_digit (drop 2 s)) of (ip, fp, rest) \<Rightarrow>
           case scan_exponent (CHR ''p'') rest of (e, rest) \<Rightarrow>
             Some (read_rat neg (of_int (int_value 16 hex_digit_val (ip @ fp)) * pow2 (e - 4 * int (length fp))), rest))
      else case scan_mantissa is_digit s of
        None \<Rightarrow> None
      | Some (ip, fp, rest) \<Rightarrow>
          (case scan_exponent (CHR ''e'') rest of (e, rest) \<Rightarrow>
             Some (read_rat neg (of_int (int_value 10 digit_val (ip @ fp)) * pow10 (e - int (length fp))), rest)))"

text \<open>
  \<open>strtod\<close> on the bytes up to the first NUL: the value, the number of bytes used and whether
  \<open>errno\<close> is set. Without a number nothing is used and the value is zero.
\<close>

definition c_string :: "bytes \<Rightarrow> bytes" where
  "c_string s = takeWhile (\<lambda>c. byte_val c \<noteq> 0) s"

definition strtod :: "bytes \<Rightarrow> double \<times> nat \<times> bool" where
  "strtod text =
     (let s = c_string text;
          t = dropWhile c_isspace s;
          neg = (t \<noteq> [] \<and> hd t = CHR ''-'');
          u = (if t \<noteq> [] \<and> (hd t = CHR ''-'' \<or> hd t = CHR ''+'') then tl t else t)
      in case scan_number neg u of
           None \<Rightarrow> (D_ZERO False, 0, False)
         | Some ((d, erange), rest) \<Rightarrow> (d, length s - length rest, erange))"

section \<open>Writing\<close>

definition minus_sign :: "double \<Rightarrow> bytes" where
  "minus_sign d = (if d_sign d then ''-'' else [])"

fun d_special :: "double \<Rightarrow> bytes option" where
  "d_special D_NAN = Some ''nan''"
| "d_special (D_INF s) = Some (if s then ''-inf'' else ''inf'')"
| "d_special _ = None"

text \<open>The decimal digits of \<open>n\<close>, padded with zeros on the left to \<open>w\<close> digits.\<close>

definition pad_digits :: "nat \<Rightarrow> int \<Rightarrow> bytes" where
  "pad_digits w n = (let ds = int_digits n in replicate (w - length ds) (CHR ''0'') @ ds)"

text \<open>\<open>%.pf\<close>\<close>

definition format_f :: "nat \<Rightarrow> double \<Rightarrow> bytes" where
  "format_f p d =
     (case d_special d of
        Some s \<Rightarrow> s
      | None \<Rightarrow>
          let n = round_half_even (\<bar>d_val d\<bar> * of_int (10 ^ p))
          in minus_sign d @ int_digits (n div 10 ^ p) @ (if p = 0 then [] else ''.'' @ pad_digits p (n mod 10 ^ p)))"

text \<open>The decimal exponent of a positive number: \<open>pow10 e \<le> r < pow10 (e + 1)\<close>.\<close>

definition exponent10_of :: "rat \<Rightarrow> int" where
  "exponent10_of r =
     (case quotient_of r of (p, q) \<Rightarrow>
        let k = int (length (int_digits p)) - int (length (int_digits q)) in if r < pow10 k then k - 1 else k)"

text \<open>The first \<open>p\<close> significant digits of a positive number as an integer, and its decimal exponent, after rounding.\<close>

definition sig_digits :: "nat \<Rightarrow> rat \<Rightarrow> int \<times> int" where
  "sig_digits p r =
     (let e = exponent10_of r; n = round_half_even (r / pow10 (e - int p + 1))
      in if n = 10 ^ p then (10 ^ (p - 1), e + 1) else (n, e))"

definition strip_zeros :: "bytes \<Rightarrow> bytes" where
  "strip_zeros s = rev (dropWhile (\<lambda>c. c = CHR ''0'') (rev s))"

definition with_fraction :: "bytes \<Rightarrow> bytes \<Rightarrow> bytes" where
  "with_fraction ip fp = (if strip_zeros fp = [] then ip else ip @ ''.'' @ strip_zeros fp)"

text \<open>\<open>%.pg\<close>, for \<open>p\<close> at least 1\<close>

definition format_g :: "nat \<Rightarrow> double \<Rightarrow> bytes" where
  "format_g p d =
     (case d_special d of
        Some s \<Rightarrow> s
      | None \<Rightarrow>
          if d_val d = 0 then minus_sign d @ ''0''
          else case sig_digits p \<bar>d_val d\<bar> of (n, e) \<Rightarrow>
            let ds = int_digits n
            in minus_sign d @
               (if e < - 4 \<or> int p \<le> e then
                  with_fraction (take 1 ds) (drop 1 ds) @ ''e'' @ (if e < 0 then ''-'' else ''+'') @ pad_digits 2 \<bar>e\<bar>
                else if 0 \<le> e then with_fraction (take (nat e + 1) ds) (drop (nat e + 1) ds)
                else with_fraction ''0'' (replicate (nat (- e) - 1) (CHR ''0'') @ ds)))"

section \<open>Whole numbers\<close>

lemma int_digits_eq: "0 \<le> n \<Longrightarrow> int_digits n = dec_digits (nat n)"
proof (induction n rule: int_digits.induct)
  case (1 n)
  then show ?case
    by (subst int_digits.simps, subst dec_digits.simps) (auto simp: nat_div_distrib nat_mod_distrib)
qed

lemma int_value_dec: "\<forall>c \<in> set s. is_digit c \<Longrightarrow> int_value 10 digit_val s = int (dec_value s)"
proof (induction s rule: rev_induct)
  case (snoc c s)
  then show ?case by (simp add: int_value_def)
qed (simp add: int_value_def)

lemma int_digits_props:
  assumes "0 \<le> n"
  shows "int_digits n \<noteq> []" "c \<in> set (int_digits n) \<Longrightarrow> is_digit c" "int_value 10 digit_val (int_digits n) = n"
  using assms int_value_dec [of "dec_digits (nat n)"]
  by (auto simp: int_digits_eq dec_digits_value intro: dec_digits_digits)

lemma digit_not_special:
  assumes "is_digit c"
  shows "c_tolower c = c" "\<not> c_isspace c" "byte_val c \<noteq> 0" "c \<noteq> CHR ''-''" "c \<noteq> CHR ''+''" "c \<noteq> CHR ''.''"
    "c \<noteq> CHR ''i''" "c \<noteq> CHR ''n''" "c \<noteq> CHR ''x''"
  using assms by (auto simp: is_digit_def c_tolower_def c_isspace_def byte_val_def)

lemma has_prefix_ci_digits:
  assumes "\<forall>c \<in> set s. is_digit c" "p \<noteq> []" "\<exists>c \<in> set p. \<not> is_digit c"
  shows "\<not> has_prefix_ci p s"
proof
  assume "has_prefix_ci p s"
  then have "map c_tolower (take (length p) s) = p" by (simp add: has_prefix_ci_def)
  moreover have "map c_tolower (take (length p) s) = take (length p) s"
    using assms(1) by (intro map_idI) (meson digit_not_special(1) in_set_takeD)
  ultimately show False using assms(1,3) by (metis in_set_takeD)
qed

lemma scan_mantissa_all: "s \<noteq> [] \<Longrightarrow> \<forall>c \<in> set s. dig c \<Longrightarrow> scan_mantissa dig s = Some (s, [], [])"
proof -
  assume s: "s \<noteq> []" "\<forall>c \<in> set s. dig c"
  then have t: "takeWhile dig s = s" "dropWhile dig s = []" by auto
  show ?thesis unfolding scan_mantissa_def t using s(1) by simp
qed

lemma read_int:
  assumes "0 \<le> n" "n < 2 ^ 53"
  shows "read_rat False (of_int n) = (d_of_int n, False)"
  using d_of_int_exact [of n] assms
  by (auto simp: read_rat_def Let_def d_of_int_def)

text \<open>\<open>strtod\<close> reads a whole number below \<open>2 ^ 53\<close> exactly.\<close>

lemma strtod_int:
  assumes "0 \<le> n" "n < 2 ^ 53"
  shows "strtod (int_digits n) = (d_of_int n, length (int_digits n), False)"
proof -
  let ?s = "int_digits n"
  note ds = int_digits_props(2) [OF assms(1)]
  obtain c t where ct: "?s = c # t" using int_digits_props(1) [OF assms(1)] by (cases ?s) auto
  have c: "is_digit c" using ds ct by simp
  have s: "c_string ?s = ?s" unfolding c_string_def takeWhile_eq_all_conv using ds digit_not_special(3) by blast
  have w: "dropWhile c_isspace ?s = ?s" using digit_not_special(2) [OF c] ct by simp
  have np: "\<not> has_prefix_ci ''infinity'' ?s" "\<not> has_prefix_ci ''inf'' ?s" "\<not> has_prefix_ci ''nan'' ?s" "\<not> has_prefix_ci ''0x'' ?s"
    using has_prefix_ci_digits [of ?s "''infinity''"] has_prefix_ci_digits [of ?s "''inf''"] has_prefix_ci_digits [of ?s "''nan''"]
      has_prefix_ci_digits [of ?s "''0x''"] ds by (simp_all add: is_digit_def byte_val_def)
  have m: "scan_mantissa is_digit ?s = Some (?s, [], [])"
    using scan_mantissa_all [of ?s is_digit] int_digits_props(1) [OF assms(1)] ds by blast
  have "scan_number False ?s = Some ((d_of_int n, False), [])"
    using np m int_digits_props(3) [OF assms(1)] read_int [OF assms]
    by (simp add: scan_number_def scan_exponent_def pow10_def)
  then show ?thesis
    using s w ct digit_not_special(4,5) [OF c] by (simp add: strtod_def Let_def)
qed

text \<open>\<open>%.0f\<close> writes a whole number below \<open>2 ^ 53\<close> exactly.\<close>

lemma format_f_int:
  assumes "0 \<le> n" "n < 2 ^ 53"
  shows "format_f 0 (d_of_int n) = int_digits n"
  using d_of_int_exact [of n] assms round_half_even_int [of 0, simplified]
  by (auto simp: format_f_def minus_sign_def Let_def)


end
