(* ===== verification/Sexpr.thy ===== *)
theory Sexpr
  imports "HOL-Library.Monad_Syntax" Array_Buf Arena C_Text Proto
begin

text \<open>
  The patchbay syntax (\<open>src/src/patchbay/pb_sexpr.c\<close>). The cursor \<open>src\<close>, \<open>len\<close>, \<open>pos\<close> of the parser is the
  rest of the input from \<open>pos\<close> on; an error carries the rest at which it is reported. Recursion
  is bounded by fuel; \<open>None\<close> is running out of it. The code recurses on the C stack with no limit on
  the nesting; the size of that stack is not modelled.
\<close>

section \<open>Values\<close>

datatype pb_value =
    PB_NIL
  | PB_BOOL bool
  | PB_NUMBER double
  | PB_SYMBOL bytes
  | PB_KEYWORD bytes
  | PB_STRING bytes
  | PB_LIST "pb_value list"
  | PB_VECTOR "pb_value list"

datatype pb_parse_error =
    PB_PARSE_OOM
  | PB_PARSE_UNEXPECTED_EOF
  | PB_PARSE_UNEXPECTED_RPAREN
  | PB_PARSE_UNEXPECTED_RBRACKET
  | PB_PARSE_MISMATCHED_BRACKET
  | PB_PARSE_UNTERMINATED_STRING
  | PB_PARSE_INVALID_ESCAPE
  | PB_PARSE_INVALID_NUMBER
  | PB_PARSE_INVALID_LIST_HEAD
  | PB_PARSE_INVALID_JSON
  | PB_PARSE_INVALID_YAML

definition PB_VALUE_SIZE :: nat where "PB_VALUE_SIZE = 24"
definition PB_VALUE_ALIGN :: nat where "PB_VALUE_ALIGN = 8"

definition pb_slice_eq :: "bytes \<Rightarrow> bytes \<Rightarrow> bool" where
  "pb_slice_eq a b \<longleftrightarrow> length a = length b \<and> take (length a) a = take (length a) b"

definition pb_slice_eq_lit :: "bytes \<Rightarrow> bytes \<Rightarrow> bool" where
  "pb_slice_eq_lit s lit \<longleftrightarrow> length s = length lit \<and> take (length lit) s = take (length lit) lit"

lemma pb_slice_eq_iff [simp]: "pb_slice_eq a b \<longleftrightarrow> a = b" "pb_slice_eq_lit a b \<longleftrightarrow> a = b"
  by (auto simp: pb_slice_eq_def pb_slice_eq_lit_def)

section \<open>Tokens\<close>

definition ws_char :: "char \<Rightarrow> bool" where
  "ws_char c \<longleftrightarrow> c = CHR '' '' \<or> c = TAB \<or> c = CR \<or> c = LF"

function skip_ws :: "bytes \<Rightarrow> bytes" where
  "skip_ws [] = []"
| "skip_ws (c # s) =
     (if ws_char c then skip_ws s
      else if c = CHR '';'' then skip_ws (dropWhile (\<lambda>c. c \<noteq> LF) s)
      else c # s)"
  by pat_completeness auto
termination by (relation "measure length") (auto simp: le_imp_less_Suc length_dropWhile_le)

text \<open>A temporary vector of values is the list of its items and its capacity.\<close>

definition vec_push :: "allocator \<Rightarrow> pb_value list \<times> nat \<Rightarrow> pb_value \<Rightarrow> (pb_value list \<times> nat) option" where
  "vec_push am v item =
     map_option (\<lambda>cap. (fst v @ [item], cap)) (mb_array_reserve am (snd v) (length (fst v) + 1) PB_VALUE_SIZE 8)"

text \<open>A number token; \<open>None\<close> also when the copy of the token cannot be allocated.\<close>

definition parse_number :: "allocator \<Rightarrow> bytes \<Rightarrow> double option" where
  "parse_number am tok =
     (if tok = [] then None
      else let first = hd tok;
               numeric = (is_digit first \<or>
                 ((first = CHR ''-'' \<or> first = CHR ''+'') \<and> 1 < length tok \<and> is_digit (tok ! 1)) \<or> first = CHR ''.'')
           in if \<not> numeric then None
              else if \<not> am (length tok + 1) then None
              else case strtod tok of (n, used, erange) \<Rightarrow>
                     if \<not> erange \<and> used = length tok then Some n else None)"

section \<open>The parser\<close>

type_synonym 'a parsed = "(pb_parse_error + 'a) \<times> pb_arena \<times> bytes"

definition escape_char :: "char \<Rightarrow> char option" where
  "escape_char c =
     (if c = CHR ''n'' then Some LF else if c = CHR ''r'' then Some CR else if c = CHR ''t'' then Some TAB
      else if c = CHR 0x5C then Some (CHR 0x5C) else if c = CHR 0x22 then Some (CHR 0x22) else None)"

text \<open>
  The loop of \<open>parse_string\<close>: from the bytes \<open>tmp\<close> collected so far with capacity \<open>cap\<close>, the bytes of
  the literal and the rest after the closing quote. \<open>opn\<close> is the input at the opening quote.
\<close>

fun string_loop :: "allocator \<Rightarrow> bytes \<Rightarrow> bytes \<Rightarrow> nat \<Rightarrow> bytes \<Rightarrow> (pb_parse_error + bytes) \<times> bytes" where
  "string_loop am opn tmp cap [] = (Inl PB_PARSE_UNTERMINATED_STRING, opn)"
| "string_loop am opn tmp cap (c # s) =
     (if c = CHR 0x22 then (Inr tmp, s)
      else if c = CHR 0x5C then
        (case s of
           [] \<Rightarrow> (Inl PB_PARSE_UNTERMINATED_STRING, opn)
         | e # t \<Rightarrow>
             (case escape_char e of
                None \<Rightarrow> (Inl PB_PARSE_INVALID_ESCAPE, s)
              | Some x \<Rightarrow>
                  (case mb_array_reserve am cap (length tmp + 1) 1 16 of
                     None \<Rightarrow> (Inl PB_PARSE_OOM, s)
                   | Some cap \<Rightarrow> string_loop am opn (tmp @ [x]) cap t)))
      else case mb_array_reserve am cap (length tmp + 1) 1 16 of
             None \<Rightarrow> (Inl PB_PARSE_OOM, c # s)
           | Some cap \<Rightarrow> string_loop am opn (tmp @ [c]) cap s)"

text \<open>A copy in the arena becomes the text of a value.\<close>

definition owned_text :: "block_malloc \<Rightarrow> pb_arena \<Rightarrow> (bytes \<Rightarrow> pb_value) \<Rightarrow> bytes \<Rightarrow> bytes \<Rightarrow> pb_value parsed" where
  "owned_text malloc arena f s rest =
     (case pb_arena_memdup malloc arena s of
        (None, arena) \<Rightarrow> (Inl PB_PARSE_OOM, arena, rest)
      | (Some owned, arena) \<Rightarrow> (Inr (f owned), arena, rest))"

definition parse_string :: "allocator \<Rightarrow> block_malloc \<Rightarrow> pb_arena \<Rightarrow> bytes \<Rightarrow> pb_value parsed" where
  "parse_string am malloc arena rest =
     (case string_loop am rest [] 0 (tl rest) of
        (Inl err, rest) \<Rightarrow> (Inl err, arena, rest)
      | (Inr s, rest) \<Rightarrow> owned_text malloc arena PB_STRING s rest)"

definition atom_end :: "char \<Rightarrow> bool" where
  "atom_end c \<longleftrightarrow> ws_char c \<or> c = CHR ''('' \<or> c = CHR '')'' \<or> c = CHR ''['' \<or> c = CHR '']'' \<or> c = CHR '';''"

definition parse_atom :: "allocator \<Rightarrow> block_malloc \<Rightarrow> pb_arena \<Rightarrow> bytes \<Rightarrow> pb_value parsed" where
  "parse_atom am malloc arena input =
     (let tok = takeWhile (\<lambda>c. \<not> atom_end c) input; rest = dropWhile (\<lambda>c. \<not> atom_end c) input
      in if tok = [] then (Inl PB_PARSE_UNEXPECTED_EOF, arena, input)
         else if pb_slice_eq_lit tok ''nil'' then (Inr PB_NIL, arena, rest)
         else if pb_slice_eq_lit tok ''true'' then (Inr (PB_BOOL True), arena, rest)
         else if pb_slice_eq_lit tok ''false'' then (Inr (PB_BOOL False), arena, rest)
         else case parse_number am tok of
           Some n \<Rightarrow> (Inr (PB_NUMBER n), arena, rest)
         | None \<Rightarrow>
             if hd tok = CHR '':'' \<and> 1 < length tok then owned_text malloc arena PB_KEYWORD (tl tok) rest
             else owned_text malloc arena PB_SYMBOL tok rest)"

text \<open>The items of a sequence, copied into the arena.\<close>

definition freeze :: "block_malloc \<Rightarrow> pb_arena \<Rightarrow> pb_value list \<Rightarrow> bool \<times> pb_arena" where
  "freeze malloc arena items =
     (case pb_arena_alloc malloc arena (length items * PB_VALUE_SIZE) PB_VALUE_ALIGN of
        (p, arena) \<Rightarrow> (p \<noteq> None \<or> items = [], arena))"

definition is_symbol :: "pb_value \<Rightarrow> bool" where
  "is_symbol v \<longleftrightarrow> (case v of PB_SYMBOL _ \<Rightarrow> True | _ \<Rightarrow> False)"

text \<open>
  \<open>parse_seq\<close> from inside the brackets: \<open>is_list\<close> says whether it reads a list or a vector,
  \<open>opn\<close> is the input at the opening bracket.
\<close>

fun parse_one :: "nat \<Rightarrow> allocator \<Rightarrow> block_malloc \<Rightarrow> pb_arena \<Rightarrow> bytes \<Rightarrow> pb_value parsed option"
  and parse_seq :: "nat \<Rightarrow> allocator \<Rightarrow> block_malloc \<Rightarrow> bool \<Rightarrow> bytes \<Rightarrow> pb_value list \<times> nat \<Rightarrow> pb_arena \<Rightarrow> bytes \<Rightarrow> pb_value parsed option" where
  "parse_one 0 am malloc arena input = None"
| "parse_one (Suc fuel) am malloc arena input =
     (let input = skip_ws input
      in case input of
           [] \<Rightarrow> Some (Inl PB_PARSE_UNEXPECTED_EOF, arena, input)
         | c # rest \<Rightarrow>
             if c = CHR ''('' then parse_seq fuel am malloc True input ([], 0) arena rest
             else if c = CHR ''['' then parse_seq fuel am malloc False input ([], 0) arena rest
             else if c = CHR '')'' then Some (Inl PB_PARSE_UNEXPECTED_RPAREN, arena, input)
             else if c = CHR '']'' then Some (Inl PB_PARSE_UNEXPECTED_RBRACKET, arena, input)
             else if c = CHR 0x22 then Some (parse_string am malloc arena input)
             else Some (parse_atom am malloc arena input))"
| "parse_seq 0 am malloc is_list opn items arena input = None"
| "parse_seq (Suc fuel) am malloc is_list opn items arena input =
     (let input = skip_ws input
      in case input of
           [] \<Rightarrow> Some (Inl PB_PARSE_UNEXPECTED_EOF, arena, input)
         | c # rest \<Rightarrow>
             if c = (if is_list then CHR '')'' else CHR '']'') then
               (case freeze malloc arena (fst items) of
                  (False, arena) \<Rightarrow> Some (Inl PB_PARSE_OOM, arena, rest)
                | (True, arena) \<Rightarrow>
                    if is_list \<and> (fst items = [] \<or> \<not> is_symbol (hd (fst items)))
                    then Some (Inl PB_PARSE_INVALID_LIST_HEAD, arena, opn)
                    else Some (Inr (if is_list then PB_LIST (fst items) else PB_VECTOR (fst items)), arena, rest))
             else if c = (if is_list then CHR '']'' else CHR '')'') then Some (Inl PB_PARSE_MISMATCHED_BRACKET, arena, input)
             else case parse_one fuel am malloc arena input of
                    None \<Rightarrow> None
                  | Some (Inl err, arena, input) \<Rightarrow> Some (Inl err, arena, input)
                  | Some (Inr item, arena, input) \<Rightarrow>
                      (case vec_push am items item of
                         None \<Rightarrow> Some (Inl PB_PARSE_OOM, arena, input)
                       | Some items \<Rightarrow> parse_seq fuel am malloc is_list opn items arena input))"

text \<open>The loop of \<open>pb_parse_all\<close>.\<close>

fun parse_forms :: "nat \<Rightarrow> allocator \<Rightarrow> block_malloc \<Rightarrow> pb_value list \<times> nat \<Rightarrow> pb_arena \<Rightarrow> bytes \<Rightarrow> pb_value list parsed option" where
  "parse_forms 0 am malloc forms arena input = None"
| "parse_forms (Suc fuel) am malloc forms arena input =
     (let input = skip_ws input
      in if input = [] then
           (case freeze malloc arena (fst forms) of
              (False, arena) \<Rightarrow> Some (Inl PB_PARSE_OOM, arena, input)
            | (True, arena) \<Rightarrow> Some (Inr (fst forms), arena, input))
         else case parse_one fuel am malloc arena input of
                None \<Rightarrow> None
              | Some (Inl err, arena, input) \<Rightarrow> Some (Inl err, arena, input)
              | Some (Inr v, arena, input) \<Rightarrow>
                  (case vec_push am forms v of
                     None \<Rightarrow> Some (Inl PB_PARSE_OOM, arena, input)
                   | Some forms \<Rightarrow> parse_forms fuel am malloc forms arena input))"

text \<open>
  The result of \<open>pb_parse_all\<close>: the top-level forms, or the error and its offset; with the arena
  after it. The fuel is enough for every input (\<open>sexpr_parser_total\<close>).
\<close>

definition pb_parse_all :: "allocator \<Rightarrow> block_malloc \<Rightarrow> pb_arena \<Rightarrow> bytes \<Rightarrow> (((pb_parse_error \<times> nat) + pb_value list) \<times> pb_arena) option" where
  "pb_parse_all am malloc arena src =
     map_option
       (\<lambda>(result, arena, input). (case result of Inl err \<Rightarrow> Inl (err, length src - length input) | Inr forms \<Rightarrow> Inr forms, arena))
       (parse_forms (2 * length src + 2) am malloc ([], 0) arena src)"

definition pb_parse_error_name :: "pb_parse_error option \<Rightarrow> bytes" where
  "pb_parse_error_name err =
     (case err of
        None \<Rightarrow> ''ok''
      | Some PB_PARSE_OOM \<Rightarrow> ''out of memory''
      | Some PB_PARSE_UNEXPECTED_EOF \<Rightarrow> ''unexpected eof''
      | Some PB_PARSE_UNEXPECTED_RPAREN \<Rightarrow> ''unexpected '' @ [CHR 0x27] @ '')'' @ [CHR 0x27]
      | Some PB_PARSE_UNEXPECTED_RBRACKET \<Rightarrow> ''unexpected '' @ [CHR 0x27] @ '']'' @ [CHR 0x27]
      | Some PB_PARSE_MISMATCHED_BRACKET \<Rightarrow> ''mismatched bracket''
      | Some PB_PARSE_UNTERMINATED_STRING \<Rightarrow> ''unterminated string''
      | Some PB_PARSE_INVALID_ESCAPE \<Rightarrow> ''invalid escape''
      | Some PB_PARSE_INVALID_NUMBER \<Rightarrow> ''invalid number''
      | Some PB_PARSE_INVALID_LIST_HEAD \<Rightarrow> ''invalid list head''
      | Some PB_PARSE_INVALID_JSON \<Rightarrow> ''invalid json''
      | Some PB_PARSE_INVALID_YAML \<Rightarrow> ''invalid yaml'')"

end
