(* ===== verification/Eval_State.thy ===== *)
theory Eval_State
  imports Hash_Index Sexpr
begin

text \<open>
  Values and the long-lived state of the patchbay evaluator (\<open>src/src/patchbay/pb_eval.c\<close>, first half):
  coercions between values, numbers and text, and the slots of the stateful forms with their
  hash index.
\<close>

section \<open>Results and coercions\<close>

datatype pb_eval_error =
    PB_EVAL_OOM
  | PB_EVAL_UNKNOWN_SYMBOL
  | PB_EVAL_TYPE
  | PB_EVAL_ARITY
  | PB_EVAL_INVALID_SUBJECT
  | PB_EVAL_PUBLISH_FAILED

type_synonym pb_eval_result = "pb_eval_error + pb_value"

text \<open>
  What the evaluator calls outside the repository: \<open>malloc\<close>, for memory of its own and for blocks of
  the arena; the conversion of a \<open>double\<close> outside the range of \<open>uint64_t\<close>, which C leaves open; \<open>qsort\<close> with
  the comparison \<open>cmp_double\<close>, whose order of equal elements C leaves open, and its result on NaNs
  altogether; and the JSON reader yyjson, which takes its memory from the arena.
\<close>

datatype json = J_NULL | J_BOOL bool | J_NUM double | J_STR bytes | J_ARR "json list" | J_OBJ "(bytes \<times> json) list"

record pb_lib =
  heap :: allocator
  blocks :: block_malloc
  cast_oob :: "double \<Rightarrow> u64"
  qsort_doubles :: "double list \<Rightarrow> double list"
  yyjson_read :: "bytes \<Rightarrow> pb_arena \<Rightarrow> json option \<times> pb_arena"

definition d_to_u64 :: "pb_lib \<Rightarrow> double \<Rightarrow> u64" where
  "d_to_u64 lib d =
     (if d_finite d \<and> - 1 < d_val d \<and> d_val d < 2 ^ 64
      then word_of_int (if d_val d < 0 then 0 else \<lfloor>d_val d\<rfloor>) else cast_oob lib d)"

definition truthy :: "pb_value \<Rightarrow> bool" where
  "truthy v \<longleftrightarrow> v \<noteq> PB_NIL \<and> v \<noteq> PB_BOOL False"

definition text_number :: "bytes \<Rightarrow> double option" where
  "text_number s =
     (if 128 \<le> length s then None
      else case strtod s of (n, used, erange) \<Rightarrow> if erange \<or> used \<noteq> length s then None else Some n)"

fun as_number :: "pb_value \<Rightarrow> double option" where
  "as_number (PB_NUMBER d) = Some d"
| "as_number (PB_STRING s) = text_number s"
| "as_number (PB_SYMBOL s) = text_number s"
| "as_number _ = None"

fun as_string :: "pb_value \<Rightarrow> bytes option" where
  "as_string (PB_STRING s) = Some s"
| "as_string (PB_SYMBOL s) = Some s"
| "as_string (PB_BOOL b) = Some (if b then ''true'' else ''false'')"
| "as_string PB_NIL = Some []"
| "as_string _ = None"

text \<open>The shortest of the precisions 15, 16 and 17 that reads back as the same number; the last one otherwise.\<close>

fun shortest_g :: "nat \<Rightarrow> nat \<Rightarrow> double \<Rightarrow> bytes option" where
  "shortest_g 0 precision d = None"
| "shortest_g (Suc n) precision d =
     (let tmp = format_g precision d
      in if 32 \<le> length tmp then None
         else case strtod tmp of (roundtrip, used, erange) \<Rightarrow>
           if \<not> erange \<and> used = length tmp \<and> d_eq roundtrip d \<or> n = 0 then Some tmp
           else shortest_g n (precision + 1) d)"

definition coerce_payload :: "pb_lib \<Rightarrow> pb_value \<Rightarrow> pb_arena \<Rightarrow> bytes option \<times> pb_arena" where
  "coerce_payload lib v arena =
     (case as_string v of
        Some s \<Rightarrow> (Some s, arena)
      | None \<Rightarrow>
          (case v of
             PB_NUMBER d \<Rightarrow>
               (case shortest_g 3 15 d of
                  None \<Rightarrow> (None, arena)
                | Some tmp \<Rightarrow> pb_arena_memdup (blocks lib) arena tmp)
           | _ \<Rightarrow> (None, arena)))"

fun value_eq :: "pb_value \<Rightarrow> pb_value \<Rightarrow> bool" where
  "value_eq PB_NIL PB_NIL = True"
| "value_eq (PB_BOOL a) (PB_BOOL b) = (a = b)"
| "value_eq (PB_NUMBER a) (PB_NUMBER b) = d_eq a b"
| "value_eq (PB_SYMBOL a) (PB_SYMBOL b) = pb_slice_eq a b"
| "value_eq (PB_KEYWORD a) (PB_KEYWORD b) = pb_slice_eq a b"
| "value_eq (PB_STRING a) (PB_STRING b) = pb_slice_eq a b"
| "value_eq _ _ = False"

section \<open>Slots\<close>

datatype pb_eval_state_kind =
    PB_EVAL_STATE_EMPTY | PB_EVAL_STATE_NUMBER | PB_EVAL_STATE_BYTES | PB_EVAL_STATE_RING | PB_EVAL_STATE_BAR | PB_EVAL_STATE_CLOCK

datatype pb_eval_clock_kind =
    PB_EVAL_CLOCK_NONE | PB_EVAL_CLOCK_ON_SILENCE | PB_EVAL_CLOCK_DROPOUT | PB_EVAL_CLOCK_DEBOUNCE | PB_EVAL_CLOCK_SAMPLE
  | PB_EVAL_CLOCK_AGGREGATE

datatype pb_eval_metric_kind =
    PB_EVAL_METRIC_NONE | PB_EVAL_METRIC_AVG | PB_EVAL_METRIC_SUM | PB_EVAL_METRIC_MIN | PB_EVAL_METRIC_MAX
  | PB_EVAL_METRIC_COUNT | PB_EVAL_METRIC_RATE

text \<open>
  The arrays of the ring have \<open>ring_cap\<close> cells; a cell that was never written holds zero in the
  model. \<open>ring_times_ms\<close> is empty when the pointer is null. The slices of the forms and of the body
  are the values they point to.
\<close>

record pb_eval_state_entry =
  se_rule_id :: nat
  se_op :: bytes
  se_subject :: bytes
  se_kind :: pb_eval_state_kind
  se_number :: double
  se_bytes :: bytes
  se_bytes_cap :: nat
  ring_values :: "double list"
  ring_times_ms :: "u64 list"
  ring_cap :: nat
  ring_len :: nat
  ring_start :: nat
  ring_sum :: double
  ring_window_ms :: u64
  ring_time_window :: bool
  bar_open :: double
  bar_high :: double
  bar_low :: double
  bar_last_close :: double
  bar_count :: u32
  bar_cap :: u32
  bar_window_ms :: u64
  bar_window_start_ms :: u64
  bar_time_window :: bool
  clock_kind :: pb_eval_clock_kind
  metric_kind :: pb_eval_metric_kind
  clock_interval_ms :: u64
  clock_deadline_ms :: u64
  clock_armed :: bool
  dropout_lost :: bool
  lost_form :: pb_value
  found_form :: pb_value
  clock_body :: "pb_value list"
  emit_subject :: bytes
  emit_subject_cap :: nat

definition state_entry_zero :: pb_eval_state_entry where
  "state_entry_zero = \<lparr>se_rule_id = 0, se_op = [], se_subject = [], se_kind = PB_EVAL_STATE_EMPTY, se_number = D_ZERO False,
     se_bytes = [], se_bytes_cap = 0, ring_values = [], ring_times_ms = [], ring_cap = 0, ring_len = 0, ring_start = 0,
     ring_sum = D_ZERO False, ring_window_ms = 0, ring_time_window = False, bar_open = D_ZERO False, bar_high = D_ZERO False,
     bar_low = D_ZERO False, bar_last_close = D_ZERO False, bar_count = 0, bar_cap = 0, bar_window_ms = 0,
     bar_window_start_ms = 0, bar_time_window = False, clock_kind = PB_EVAL_CLOCK_NONE, metric_kind = PB_EVAL_METRIC_NONE,
     clock_interval_ms = 0, clock_deadline_ms = 0, clock_armed = False, dropout_lost = False, lost_form = PB_NIL,
     found_form = PB_NIL, clock_body = [], emit_subject = [], emit_subject_cap = 0\<rparr>"

definition STATE_ENTRY_SIZE :: nat where "STATE_ENTRY_SIZE = 328"

record pb_eval_state =
  st_items :: "pb_eval_state_entry list"
  st_index :: "mb_router_index_entry list"
  st_cap :: nat

definition eval_state_zero :: pb_eval_state where
  "eval_state_zero = \<lparr>st_items = [], st_index = [], st_cap = 0\<rparr>"

definition pb_eval_state_free :: "pb_eval_state \<Rightarrow> pb_eval_state" where
  "pb_eval_state_free st = eval_state_zero"

section \<open>The index of the slots\<close>

definition state_hash_update :: "u64 \<Rightarrow> bytes \<Rightarrow> u64" where
  "state_hash_update h s = foldl fnv_step h s"

text \<open>The eight bytes of a \<open>size_t\<close> in memory, least significant first.\<close>

definition size_bytes :: "nat \<Rightarrow> bytes" where
  "size_bytes n = map (\<lambda>i. char_of (n div 256 ^ i mod 256)) [0..<8]"

definition state_key_hash :: "nat \<Rightarrow> bytes \<Rightarrow> bytes \<Rightarrow> u64" where
  "state_key_hash rule_id op subject =
     (let h = 1469598103934665603;
          h = state_hash_update h (size_bytes rule_id);
          h = state_hash_update h op;
          h = (h XOR 0xff) * 1099511628211
      in state_hash_update h subject)"

definition state_key_eq :: "pb_eval_state_entry \<Rightarrow> nat \<Rightarrow> bytes \<Rightarrow> bytes \<Rightarrow> bool" where
  "state_key_eq e rule_id op subject \<longleftrightarrow>
     se_rule_id e = rule_id \<and> pb_slice_eq (se_op e) op \<and> pb_slice_eq (se_subject e) subject"

definition state_index_cap_for :: "nat \<Rightarrow> nat" where
  "state_index_cap_for needed =
     (if SIZE_MAX div 4 < needed then 0 else next_index_cap_loop 16 (if needed = 0 then 16 else needed * 4))"

definition state_index_insert :: "mb_router_index_entry list \<Rightarrow> u64 \<Rightarrow> nat \<Rightarrow> mb_router_index_entry list option" where
  "state_index_insert index hash item_index = index_insert index hash item_index"

fun state_insert_all :: "mb_router_index_entry list \<Rightarrow> nat \<Rightarrow> pb_eval_state_entry list \<Rightarrow> mb_router_index_entry list option" where
  "state_insert_all index i [] = Some index"
| "state_insert_all index i (e # es) =
     do { index \<leftarrow> state_index_insert index (state_key_hash (se_rule_id e) (se_op e) (se_subject e)) i;
          state_insert_all index (i + 1) es }"

text \<open>\<open>None\<close> is a probe that never ends.\<close>

definition state_index_rebuild :: "allocator \<Rightarrow> pb_eval_state \<Rightarrow> nat \<Rightarrow> (bool \<times> pb_eval_state) option" where
  "state_index_rebuild am st needed =
     (if st_index st \<noteq> [] \<and> needed < length (st_index st) div 2 then Some (True, st)
      else let cap = state_index_cap_for needed
           in if cap = 0 then Some (False, st)
              else if \<not> am (cap * 24) then Some (False, st)
              else do { index \<leftarrow> state_insert_all (replicate cap index_entry_zero) 0 (st_items st);
                        Some (True, st\<lparr>st_index := index\<rparr>) })"

text \<open>The inner \<open>None\<close> is the null pointer, otherwise the position of the slot.\<close>

fun state_find_loop :: "pb_eval_state \<Rightarrow> nat \<Rightarrow> bytes \<Rightarrow> bytes \<Rightarrow> u64 \<Rightarrow> nat \<Rightarrow> nat \<Rightarrow> nat option option" where
  "state_find_loop st rule_id op subject hash slot 0 = None"
| "state_find_loop st rule_id op subject hash slot (Suc n) =
     (if length (st_index st) \<le> slot then None
      else let entry = st_index st ! slot
           in if \<not> ie_occupied entry then Some None
              else if length (st_items st) \<le> ie_index entry then None
              else if ie_hash entry = hash \<and> state_key_eq (st_items st ! ie_index entry) rule_id op subject
              then Some (Some (ie_index entry))
              else state_find_loop st rule_id op subject hash (next_slot (length (st_index st)) slot) n)"

definition state_index_find :: "pb_eval_state \<Rightarrow> nat \<Rightarrow> bytes \<Rightarrow> bytes \<Rightarrow> u64 \<Rightarrow> nat option option" where
  "state_index_find st rule_id op subject hash =
     (if st_index st = [] then Some None
      else state_find_loop st rule_id op subject hash (home_slot (length (st_index st)) hash) (length (st_index st)))"

definition heap_dup_slice :: "allocator \<Rightarrow> bytes \<Rightarrow> bytes option" where
  "heap_dup_slice am s = (if am (if length s = 0 then 1 else length s) then Some s else None)"

text \<open>The linear search when there is no index.\<close>

fun state_scan :: "pb_eval_state_entry list \<Rightarrow> nat \<Rightarrow> nat \<Rightarrow> bytes \<Rightarrow> bytes \<Rightarrow> nat option" where
  "state_scan [] i rule_id op subject = None"
| "state_scan (e # es) i rule_id op subject =
     (if state_key_eq e rule_id op subject then Some i else state_scan es (i + 1) rule_id op subject)"

text \<open>Appending a fresh slot.\<close>

definition state_append :: "allocator \<Rightarrow> pb_eval_state \<Rightarrow> nat \<Rightarrow> bytes \<Rightarrow> bytes \<Rightarrow> u64 \<Rightarrow> (nat option \<times> pb_eval_state) option" where
  "state_append am st rule_id op subject hash =
     (case mb_array_reserve am (st_cap st) (length (st_items st) + 1) STATE_ENTRY_SIZE 8 of
        None \<Rightarrow> Some (None, st)
      | Some cap \<Rightarrow>
          let st = st\<lparr>st_cap := cap\<rparr>
          in case (heap_dup_slice am op, heap_dup_slice am subject) of
               (Some op, Some subject) \<Rightarrow>
                 do { let pos = length (st_items st);
                      let st = st\<lparr>st_items := st_items st @ [state_entry_zero\<lparr>se_rule_id := rule_id, se_op := op, se_subject := subject\<rparr>]\<rparr>;
                      if st_index st = [] then Some (Some pos, st)
                      else do { index \<leftarrow> state_index_insert (st_index st) hash pos;
                                Some (Some pos, st\<lparr>st_index := index\<rparr>) } }
             | _ \<Rightarrow> Some (None, st))"

text \<open>\<open>state_slot\<close>: the position of the slot of an operation and subject, created when there is none.\<close>

definition state_slot_in :: "allocator \<Rightarrow> pb_eval_state \<Rightarrow> nat \<Rightarrow> bytes \<Rightarrow> bytes \<Rightarrow> (nat option \<times> pb_eval_state) option" where
  "state_slot_in am st rule_id op subject =
     do { let hash = state_key_hash rule_id op subject;
          (_, st) \<leftarrow> (if st_index st = [] \<and> 8 \<le> length (st_items st)
                      then state_index_rebuild am st (length (st_items st)) else Some (True, st));
          found \<leftarrow> state_index_find st rule_id op subject hash;
          case found of
            Some i \<Rightarrow> Some (Some i, st)
          | None \<Rightarrow>
              (case (if st_index st = [] then state_scan (st_items st) 0 rule_id op subject else None) of
                 Some i \<Rightarrow> Some (Some i, st)
               | None \<Rightarrow>
                   do { (ok, st) \<leftarrow> (if st_index st \<noteq> [] \<or> 8 \<le> length (st_items st)
                                     then state_index_rebuild am st (length (st_items st) + 1) else Some (True, st));
                        if \<not> ok then Some (None, st) else state_append am st rule_id op subject hash }) }"

section \<open>Text of a slot\<close>

definition state_set_bytes :: "allocator \<Rightarrow> pb_eval_state_entry \<Rightarrow> bytes \<Rightarrow> bool \<times> pb_eval_state_entry" where
  "state_set_bytes am e s =
     (if se_bytes_cap e < length s \<and> \<not> am (if length s = 0 then 1 else length s) then (False, e)
      else (True, e\<lparr>se_bytes_cap := max (se_bytes_cap e) (length s), se_bytes := s, se_kind := PB_EVAL_STATE_BYTES\<rparr>))"

definition state_set_emit_subject :: "allocator \<Rightarrow> pb_eval_state_entry \<Rightarrow> bytes \<Rightarrow> bool \<times> pb_eval_state_entry" where
  "state_set_emit_subject am e s =
     (if emit_subject_cap e < length s \<and> \<not> am (if length s = 0 then 1 else length s) then (False, e)
      else (True, e\<lparr>emit_subject_cap := max (emit_subject_cap e) (length s), emit_subject := s\<rparr>))"

end
