(* ===== verification/Forms.thy ===== *)
theory Forms
  imports Eval_State Router_Match
begin

text \<open>
  The evaluation context and the forms without state of their own (\<open>src/src/patchbay/pb_form_numbers.c\<close>,
  \<open>src/src/patchbay/pb_form_text.c\<close>).
\<close>

section \<open>Context and state of an evaluation\<close>

text \<open>
  What an evaluation reads and changes: the scratch arena, the slots of every rule, the counters
  of suppressed publishes, what was printed, and the rest of the program with the router.
\<close>

record 'w eval_st =
  ev_arena :: pb_arena
  ev_states :: "nat \<Rightarrow> pb_eval_state"
  ev_suppressed :: "nat \<Rightarrow> u64"
  ev_stderr :: bytes
  ev_world :: 'w

type_synonym 'w ev = "'w eval_st \<Rightarrow> (pb_eval_result \<times> 'w eval_st) option"

text \<open>\<open>cx_rule_id\<close> selects the state; the hooks are absent when their pointers are null.\<close>

record 'w pb_eval_ctx =
  cx_has_state :: bool
  cx_rule_id :: nat
  cx_now_ms :: u64
  cx_wall_ms :: int
  cx_replaying :: bool
  cx_subject :: bytes
  cx_payload :: bytes
  cx_publish :: "(bytes \<Rightarrow> bytes \<Rightarrow> 'w eval_st \<Rightarrow> (bool \<times> 'w eval_st) option) option"
  cx_user_symbol :: "(bytes \<Rightarrow> 'w eval_st \<Rightarrow> (pb_eval_result option \<times> 'w eval_st) option) option"
  cx_user_call :: "(bytes \<Rightarrow> pb_value list \<Rightarrow> 'w eval_st \<Rightarrow> (pb_eval_result option \<times> 'w eval_st) option) option"

definition ev_ok :: "pb_value \<Rightarrow> 'w ev" where
  "ev_ok v s = Some (Inr v, s)"

definition ev_nil :: "'w ev" where
  "ev_nil s = Some (Inr PB_NIL, s)"

definition ev_fail :: "pb_eval_error \<Rightarrow> 'w ev" where
  "ev_fail err s = Some (Inl err, s)"

text \<open>A form that does not touch the state.\<close>

definition ev_pure :: "pb_eval_result \<Rightarrow> 'w ev" where
  "ev_pure r s = Some (r, s)"

definition note_suppressed :: "'w pb_eval_ctx \<Rightarrow> 'w eval_st \<Rightarrow> 'w eval_st" where
  "note_suppressed ctx s = s\<lparr>ev_suppressed := (ev_suppressed s)(cx_rule_id ctx := ev_suppressed s (cx_rule_id ctx) + 1)\<rparr>"

definition arena_alloc :: "pb_lib \<Rightarrow> nat \<Rightarrow> nat \<Rightarrow> 'w eval_st \<Rightarrow> bool \<times> 'w eval_st" where
  "arena_alloc lib n align s =
     (case pb_arena_alloc (blocks lib) (ev_arena s) n align of (p, arena) \<Rightarrow> (p \<noteq> None, s\<lparr>ev_arena := arena\<rparr>))"

definition arena_memdup :: "pb_lib \<Rightarrow> bytes \<Rightarrow> 'w eval_st \<Rightarrow> bytes option \<times> 'w eval_st" where
  "arena_memdup lib t s =
     (case pb_arena_memdup (blocks lib) (ev_arena s) t of (p, arena) \<Rightarrow> (p, s\<lparr>ev_arena := arena\<rparr>))"

definition payload_of :: "pb_lib \<Rightarrow> pb_value \<Rightarrow> 'w eval_st \<Rightarrow> bytes option \<times> 'w eval_st" where
  "payload_of lib v s = (case coerce_payload lib v (ev_arena s) of (p, arena) \<Rightarrow> (p, s\<lparr>ev_arena := arena\<rparr>))"

definition do_publish :: "'w pb_eval_ctx \<Rightarrow> bytes \<Rightarrow> bytes \<Rightarrow> 'w eval_st \<Rightarrow> (bool \<times> 'w eval_st) option" where
  "do_publish ctx subject payload s = (case cx_publish ctx of None \<Rightarrow> Some (False, s) | Some f \<Rightarrow> f subject payload s)"

text \<open>The end of a publishing form.\<close>

definition publish_or_fail :: "'w pb_eval_ctx \<Rightarrow> bytes \<Rightarrow> bytes \<Rightarrow> 'w ev" where
  "publish_or_fail ctx subject payload s =
     do { (ok, s) \<leftarrow> do_publish ctx subject payload s;
          if ok then ev_nil s else ev_fail PB_EVAL_PUBLISH_FAILED s }"

section \<open>Numeric forms\<close>

text \<open>\<open>gmtime_r\<close>: the civil date of a day number counted from 1970-01-01, in the Gregorian calendar.\<close>

definition civil_from_days :: "int \<Rightarrow> int \<times> int \<times> int" where
  "civil_from_days days =
     (let z = days + 719468; era = z div 146097; doe = z mod 146097;
          yoe = (doe - doe div 1460 + doe div 36524 - doe div 146096) div 365;
          doy = doe - (365 * yoe + yoe div 4 - yoe div 100);
          mp = (5 * doy + 2) div 153;
          d = doy - (153 * mp + 2) div 5 + 1;
          m = (if mp < 10 then mp + 3 else mp - 9)
      in (yoe + era * 400 + (if m \<le> 2 then 1 else 0), m, d))"

text \<open>\<open>%04d\<close>\<close>

definition pad_year :: "int \<Rightarrow> bytes" where
  "pad_year y = (if y < 0 then CHR ''-'' # pad_digits 3 (- y) else pad_digits 4 y)"

definition call_now :: "pb_lib \<Rightarrow> 'w pb_eval_ctx \<Rightarrow> pb_value list \<Rightarrow> 'w ev" where
  "call_now lib ctx args s =
     (case args of
        [PB_KEYWORD unit] \<Rightarrow>
          (let sec = (if cx_wall_ms ctx < 0 then - (- cx_wall_ms ctx div 1000) else cx_wall_ms ctx div 1000);
               sod = sec mod 86400
           in case civil_from_days (sec div 86400) of (y, m, d) \<Rightarrow>
             let date = pad_year y @ ''-'' @ pad_digits 2 m @ ''-'' @ pad_digits 2 d;
                 tmp = (if unit = ''date'' then Some date
                        else if unit = ''hour'' then Some (date @ ''T'' @ pad_digits 2 (sod div 3600))
                        else if unit = ''minute'' then Some (date @ ''T'' @ pad_digits 2 (sod div 3600) @ pad_digits 2 (sod mod 3600 div 60))
                        else None)
             in case tmp of
                  None \<Rightarrow> ev_fail PB_EVAL_UNKNOWN_SYMBOL s
                | Some tmp \<Rightarrow>
                    if 18 \<le> length tmp then ev_fail PB_EVAL_TYPE s
                    else (case arena_memdup lib tmp s of
                            (None, s) \<Rightarrow> ev_fail PB_EVAL_OOM s
                          | (Some owned, s) \<Rightarrow> ev_ok (PB_STRING owned) s))
      | _ \<Rightarrow> ev_fail PB_EVAL_ARITY s)"

definition call_not :: "pb_value list \<Rightarrow> pb_eval_result" where
  "call_not args = (case args of [v] \<Rightarrow> Inr (PB_BOOL (\<not> truthy v)) | _ \<Rightarrow> Inl PB_EVAL_ARITY)"

definition call_eq :: "pb_value list \<Rightarrow> pb_eval_result" where
  "call_eq args = (if length args < 2 then Inl PB_EVAL_ARITY else Inr (PB_BOOL (list_all (value_eq (hd args)) (tl args))))"

datatype cmp_op = CMP_GT | CMP_LT | CMP_GE | CMP_LE

fun cmp_pass :: "cmp_op \<Rightarrow> double \<Rightarrow> double \<Rightarrow> bool" where
  "cmp_pass CMP_GT a b = d_lt b a"
| "cmp_pass CMP_LT a b = d_lt a b"
| "cmp_pass CMP_GE a b = d_le b a"
| "cmp_pass CMP_LE a b = d_le a b"

fun cmp_loop :: "cmp_op \<Rightarrow> pb_value list \<Rightarrow> pb_eval_result" where
  "cmp_loop op (u # v # rest) =
     (case (as_number u, as_number v) of
        (Some a, Some b) \<Rightarrow> if cmp_pass op a b then cmp_loop op (v # rest) else Inr (PB_BOOL False)
      | _ \<Rightarrow> Inl PB_EVAL_TYPE)"
| "cmp_loop op _ = Inr (PB_BOOL True)"

definition call_cmp :: "pb_value list \<Rightarrow> cmp_op \<Rightarrow> pb_eval_result" where
  "call_cmp args op = (if length args < 2 then Inl PB_EVAL_ARITY else cmp_loop op args)"

datatype arith_op = ARITH_ADD | ARITH_SUB | ARITH_MUL | ARITH_DIV

fun arith :: "arith_op \<Rightarrow> double \<Rightarrow> double \<Rightarrow> double" where
  "arith ARITH_ADD a x = d_add a x"
| "arith ARITH_SUB a x = d_sub a x"
| "arith ARITH_MUL a x = d_mul a x"
| "arith ARITH_DIV a x = d_div a x"

fun arith_loop :: "arith_op \<Rightarrow> double \<Rightarrow> pb_value list \<Rightarrow> pb_eval_result" where
  "arith_loop op acc [] = Inr (PB_NUMBER acc)"
| "arith_loop op acc (v # rest) =
     (case as_number v of None \<Rightarrow> Inl PB_EVAL_TYPE | Some x \<Rightarrow> arith_loop op (arith op acc x) rest)"

definition call_arith :: "pb_value list \<Rightarrow> arith_op \<Rightarrow> pb_eval_result" where
  "call_arith args op =
     (case args of
        [] \<Rightarrow> Inl PB_EVAL_ARITY
      | v # rest \<Rightarrow>
          (case as_number v of
             None \<Rightarrow> Inl PB_EVAL_TYPE
           | Some acc \<Rightarrow>
               if rest = [] then
                 Inr (PB_NUMBER (if op = ARITH_SUB then d_neg acc else if op = ARITH_DIV then d_div (d_of_int 1) acc else acc))
               else arith_loop op acc rest))"

text \<open>A whole number: \<open>floor (x) == x\<close>, which also holds of the infinities.\<close>

definition d_whole :: "double \<Rightarrow> bool" where
  "d_whole x \<longleftrightarrow> d_eq (d_floor x) x"

definition call_round :: "pb_value list \<Rightarrow> pb_eval_result" where
  "call_round args =
     (case args of
        [p, v] \<Rightarrow>
          (case (as_number p, as_number v) of
             (Some places, Some x) \<Rightarrow>
               if d_lt places (D_ZERO False) \<or> \<not> d_whole places then Inl PB_EVAL_TYPE
               else let factor = d_pow10 places in Inr (PB_NUMBER (d_div (d_round (d_mul x factor)) factor))
           | _ \<Rightarrow> Inl PB_EVAL_TYPE)
      | _ \<Rightarrow> Inl PB_EVAL_ARITY)"

definition call_quantize :: "pb_value list \<Rightarrow> pb_eval_result" where
  "call_quantize args =
     (case args of
        [p, v] \<Rightarrow>
          (case (as_number p, as_number v) of
             (Some step, Some x) \<Rightarrow>
               if d_le step (D_ZERO False) then Inl PB_EVAL_TYPE else Inr (PB_NUMBER (d_mul (d_round (d_div x step)) step))
           | _ \<Rightarrow> Inl PB_EVAL_TYPE)
      | _ \<Rightarrow> Inl PB_EVAL_ARITY)"

definition call_clamp :: "pb_value list \<Rightarrow> pb_eval_result" where
  "call_clamp args =
     (case args of
        [l, h, v] \<Rightarrow>
          (case (as_number l, as_number h, as_number v) of
             (Some lo, Some hi, Some x) \<Rightarrow>
               (let x = (if d_lt x lo then lo else x); x = (if d_lt hi x then hi else x) in Inr (PB_NUMBER x))
           | _ \<Rightarrow> Inl PB_EVAL_TYPE)
      | _ \<Rightarrow> Inl PB_EVAL_ARITY)"

datatype minmax_kind = MINMAX_MIN | MINMAX_MAX

fun minmax :: "minmax_kind \<Rightarrow> double \<Rightarrow> double \<Rightarrow> double" where
  "minmax MINMAX_MIN acc x = (if d_lt x acc then x else acc)"
| "minmax MINMAX_MAX acc x = (if d_lt acc x then x else acc)"

fun minmax_loop :: "minmax_kind \<Rightarrow> double \<Rightarrow> pb_value list \<Rightarrow> pb_eval_result" where
  "minmax_loop kind acc [] = Inr (PB_NUMBER acc)"
| "minmax_loop kind acc (v # rest) =
     (case as_number v of None \<Rightarrow> Inl PB_EVAL_TYPE | Some x \<Rightarrow> minmax_loop kind (minmax kind acc x) rest)"

definition call_minmax :: "pb_value list \<Rightarrow> minmax_kind \<Rightarrow> pb_eval_result" where
  "call_minmax args kind =
     (case args of
        [] \<Rightarrow> Inl PB_EVAL_ARITY
      | v # rest \<Rightarrow> (case as_number v of None \<Rightarrow> Inl PB_EVAL_TYPE | Some acc \<Rightarrow> minmax_loop kind acc rest))"

definition call_abs :: "pb_value list \<Rightarrow> pb_eval_result" where
  "call_abs args =
     (case args of
        [v] \<Rightarrow> (case as_number v of None \<Rightarrow> Inl PB_EVAL_TYPE | Some x \<Rightarrow> Inr (PB_NUMBER (d_abs x)))
      | _ \<Rightarrow> Inl PB_EVAL_ARITY)"

definition call_sign :: "pb_value list \<Rightarrow> pb_eval_result" where
  "call_sign args =
     (case args of
        [v] \<Rightarrow>
          (case as_number v of
             None \<Rightarrow> Inl PB_EVAL_TYPE
           | Some x \<Rightarrow> Inr (PB_NUMBER (d_of_int ((if d_lt (D_ZERO False) x then 1 else 0) - (if d_lt x (D_ZERO False) then 1 else 0)))))
      | _ \<Rightarrow> Inl PB_EVAL_ARITY)"

end
