(* ===== verification/Forms_Text.thy ===== *)
theory Forms_Text
  imports Forms
begin

text \<open>Text, subject and publish forms (\<open>src/src/patchbay/pb_form_text.c\<close>).\<close>

definition keyword_eq :: "pb_value \<Rightarrow> bytes \<Rightarrow> bool" where
  "keyword_eq v lit \<longleftrightarrow> (case v of PB_KEYWORD s \<Rightarrow> pb_slice_eq_lit s lit | _ \<Rightarrow> False)"

definition publish_subject_valid :: "bytes \<Rightarrow> bool" where
  "publish_subject_valid subject \<longleftrightarrow>
     mb_proto_subject_valid subject False \<and> \<not> mb_router_subject_has_lvc_prefix subject \<and>
     \<not> mb_router_subject_has_stats_prefix subject"

definition parse_decimal_places :: "pb_value \<Rightarrow> nat option" where
  "parse_decimal_places v =
     (case as_number v of
        None \<Rightarrow> None
      | Some places \<Rightarrow>
          if d_lt places (D_ZERO False) \<or> d_lt (d_of_int 15) places \<or> \<not> d_whole places then None
          else Some (nat \<lfloor>d_val places\<rfloor>))"

text \<open>\<open>snprintf\<close> returns the length as an \<open>int\<close>; the text of a \<open>double\<close> with 15 decimals is shorter than 400 bytes.\<close>

definition format_number_dp :: "pb_lib \<Rightarrow> double \<Rightarrow> nat \<Rightarrow> 'w eval_st \<Rightarrow> bytes option \<times> 'w eval_st" where
  "format_number_dp lib number places s =
     (let t = format_f places number
      in case arena_alloc lib (length t + 1) 1 s of (ok, s) \<Rightarrow> (if ok then Some t else None, s))"

fun concat_strings :: "pb_value list \<Rightarrow> bytes option" where
  "concat_strings [] = Some []"
| "concat_strings (v # vs) = do { t \<leftarrow> as_string v; u \<leftarrow> concat_strings vs; Some (t @ u) }"

definition call_str_concat :: "pb_lib \<Rightarrow> pb_value list \<Rightarrow> 'w ev" where
  "call_str_concat lib args s =
     (case concat_strings args of
        None \<Rightarrow> ev_fail PB_EVAL_TYPE s
      | Some out \<Rightarrow>
          (case arena_alloc lib (if length out = 0 then 1 else length out) 1 s of
             (False, s) \<Rightarrow> ev_fail PB_EVAL_OOM s
           | (True, s) \<Rightarrow> ev_ok (PB_STRING out) s))"

text \<open>The search for \<open>needle\<close> from every position where it fits.\<close>

fun contains_loop :: "bytes \<Rightarrow> bytes \<Rightarrow> bool" where
  "contains_loop hay needle =
     (if length hay < length needle then False
      else if take (length needle) hay = needle then True
      else case hay of [] \<Rightarrow> False | c # rest \<Rightarrow> contains_loop rest needle)"

declare contains_loop.simps [simp del]

definition call_contains :: "pb_value list \<Rightarrow> pb_eval_result" where
  "call_contains args =
     (case args of
        [a, b] \<Rightarrow>
          (case a of
             PB_VECTOR items \<Rightarrow> Inr (PB_BOOL (list_ex (\<lambda>item. value_eq item b) items))
           | _ \<Rightarrow>
               (case (as_string a, as_string b) of
                  (Some hay, Some needle) \<Rightarrow>
                    Inr (PB_BOOL (if needle = [] then True else contains_loop hay needle))
                | _ \<Rightarrow> Inl PB_EVAL_TYPE))
      | _ \<Rightarrow> Inl PB_EVAL_ARITY)"

datatype affix_kind = AFFIX_STARTS | AFFIX_ENDS

definition call_affix :: "pb_value list \<Rightarrow> affix_kind \<Rightarrow> pb_eval_result" where
  "call_affix args kind =
     (case args of
        [a, b] \<Rightarrow>
          (case (as_string a, as_string b) of
             (Some t, Some affix) \<Rightarrow>
               if length t < length affix then Inr (PB_BOOL False)
               else let window = (case kind of AFFIX_STARTS \<Rightarrow> t | AFFIX_ENDS \<Rightarrow> drop (length t - length affix) t)
                    in Inr (PB_BOOL (take (length affix) window = affix))
           | _ \<Rightarrow> Inl PB_EVAL_TYPE)
      | _ \<Rightarrow> Inl PB_EVAL_ARITY)"

definition call_subject_append :: "pb_lib \<Rightarrow> 'w pb_eval_ctx \<Rightarrow> pb_value list \<Rightarrow> 'w ev" where
  "call_subject_append lib ctx args s =
     (case args of
        [v] \<Rightarrow>
          (case as_string v of
             None \<Rightarrow> ev_fail PB_EVAL_TYPE s
           | Some suff \<Rightarrow>
               let out = cx_subject ctx @ ''.'' @ suff
               in case arena_alloc lib (length out) 1 s of
                    (False, s) \<Rightarrow> ev_fail PB_EVAL_OOM s
                  | (True, s) \<Rightarrow> ev_ok (PB_STRING out) s)
      | _ \<Rightarrow> ev_fail PB_EVAL_ARITY s)"

text \<open>The loop over a subject: \<open>cur\<close> is the part of token number \<open>tok\<close> seen so far.\<close>

fun token_loop :: "bytes \<Rightarrow> bytes \<Rightarrow> nat \<Rightarrow> nat \<Rightarrow> bytes option" where
  "token_loop [] cur tok want = (if tok = want then Some cur else None)"
| "token_loop (c # t) cur tok want =
     (if c = CHR ''.'' then (if tok = want then Some cur else token_loop t [] (tok + 1) want)
      else token_loop t (cur @ [c]) tok want)"

definition call_subject_token :: "pb_lib \<Rightarrow> 'w pb_eval_ctx \<Rightarrow> pb_value list \<Rightarrow> pb_eval_result" where
  "call_subject_token lib ctx args =
     (case args of
        PB_NUMBER n # rest \<Rightarrow>
          if 1 < length rest \<or> d_lt n (D_ZERO False) \<or> \<not> d_whole n then Inl PB_EVAL_ARITY
          else (case (if rest = [] then Some (cx_subject ctx) else as_string (hd rest)) of
                  None \<Rightarrow> Inl PB_EVAL_TYPE
                | Some subject \<Rightarrow>
                    (case token_loop subject [] 0 (unat (d_to_u64 lib n)) of
                       Some t \<Rightarrow> Inr (PB_STRING t)
                     | None \<Rightarrow> Inr PB_NIL))
      | _ \<Rightarrow> Inl PB_EVAL_ARITY)"

text \<open>The tokens of a new subject as text; \<open>None\<close> when one of them has no text or an empty one.\<close>

fun coerce_parts :: "pb_lib \<Rightarrow> pb_value list \<Rightarrow> 'w eval_st \<Rightarrow> bytes list option \<times> 'w eval_st" where
  "coerce_parts lib [] s = (Some [], s)"
| "coerce_parts lib (v # vs) s =
     (case payload_of lib v s of
        (None, s) \<Rightarrow> (None, s)
      | (Some part, s) \<Rightarrow>
          if part = [] then (None, s)
          else case coerce_parts lib vs s of (parts, s) \<Rightarrow> (map_option ((#) part) parts, s))"

definition PB_SLICE_SIZE :: nat where "PB_SLICE_SIZE = 16"
definition PB_SLICE_ALIGN :: nat where "PB_SLICE_ALIGN = 8"

definition call_subject_with :: "pb_lib \<Rightarrow> pb_value list \<Rightarrow> 'w ev" where
  "call_subject_with lib args s =
     (let toks = (case args of [PB_VECTOR items] \<Rightarrow> items | _ \<Rightarrow> args)
      in if toks = [] then ev_fail PB_EVAL_ARITY s
         else case arena_alloc lib (length toks * PB_SLICE_SIZE) PB_SLICE_ALIGN s of
           (False, s) \<Rightarrow> ev_fail PB_EVAL_OOM s
         | (True, s) \<Rightarrow>
             (case coerce_parts lib toks s of
                (None, s) \<Rightarrow> ev_fail PB_EVAL_TYPE s
              | (Some parts, s) \<Rightarrow>
                  let out = join_with (CHR ''.'') parts
                  in case arena_alloc lib (length out) 1 s of
                       (False, s) \<Rightarrow> ev_fail PB_EVAL_OOM s
                     | (True, s) \<Rightarrow>
                         if publish_subject_valid out then ev_ok (PB_STRING out) s
                         else ev_fail PB_EVAL_INVALID_SUBJECT s))"

section \<open>Printing\<close>

fun print_value :: "pb_value \<Rightarrow> bytes" where
  "print_value PB_NIL = ''nil''"
| "print_value (PB_BOOL b) = (if b then ''true'' else ''false'')"
| "print_value (PB_NUMBER d) = format_g 17 d"
| "print_value (PB_STRING t) = t"
| "print_value (PB_SYMBOL t) = t"
| "print_value (PB_KEYWORD t) = CHR '':'' # t"
| "print_value (PB_VECTOR vs) = CHR ''['' # join_with (CHR '' '') (map print_value vs) @ '']''"
| "print_value (PB_LIST vs) = CHR ''('' # join_with (CHR '' '') (map print_value vs) @ '')''"

definition call_print :: "'w pb_eval_ctx \<Rightarrow> pb_value list \<Rightarrow> 'w ev" where
  "call_print ctx args s =
     (if length args \<noteq> 1 \<and> length args \<noteq> 2 then ev_fail PB_EVAL_ARITY s
      else let value = last args
           in case (if length args = 2 then as_string (hd args) else Some []) of
                None \<Rightarrow> ev_fail PB_EVAL_TYPE s
              | Some label \<Rightarrow>
                  ev_ok value (s\<lparr>ev_stderr := ev_stderr s @ ''print! ['' @ cx_subject ctx @ ''] '' @
                    (if length args = 2 then label @ '' = '' else []) @ print_value value @ [LF]\<rparr>))"

section \<open>Publishing\<close>

text \<open>The position of the value among four arguments and the number of decimals, or the error.\<close>

definition publish_places :: "pb_value list \<Rightarrow> pb_eval_error + (nat \<times> nat option)" where
  "publish_places args =
     (if length args = 4 then
        if keyword_eq (args ! 1) ''dp'' then
          (case parse_decimal_places (args ! 2) of None \<Rightarrow> Inl PB_EVAL_TYPE | Some p \<Rightarrow> Inr (3, Some p))
        else if keyword_eq (args ! 2) ''dp'' then
          (case parse_decimal_places (args ! 3) of None \<Rightarrow> Inl PB_EVAL_TYPE | Some p \<Rightarrow> Inr (1, Some p))
        else Inl PB_EVAL_ARITY
      else Inr (1, None))"

definition publish_payload :: "pb_lib \<Rightarrow> nat option \<Rightarrow> pb_value \<Rightarrow> 'w eval_st \<Rightarrow> bytes option \<times> 'w eval_st" where
  "publish_payload lib places v s =
     (case places of
        None \<Rightarrow> payload_of lib v s
      | Some p \<Rightarrow> (case v of PB_NUMBER d \<Rightarrow> format_number_dp lib d p s | _ \<Rightarrow> (None, s)))"

definition call_publish :: "pb_lib \<Rightarrow> 'w pb_eval_ctx \<Rightarrow> pb_value list \<Rightarrow> 'w ev" where
  "call_publish lib ctx args s =
     (if length args \<noteq> 2 \<and> length args \<noteq> 4 then ev_fail PB_EVAL_ARITY s
      else case publish_places args of
        Inl err \<Rightarrow> ev_fail err s
      | Inr (value_idx, places) \<Rightarrow>
          if args ! value_idx = PB_NIL then ev_nil s
          else case as_string (args ! 0) of
            None \<Rightarrow> ev_fail PB_EVAL_TYPE s
          | Some subject \<Rightarrow>
              (case publish_payload lib places (args ! value_idx) s of
                 (None, s) \<Rightarrow> ev_fail PB_EVAL_TYPE s
               | (Some payload, s) \<Rightarrow>
                   if publish_subject_valid subject then publish_or_fail ctx subject payload s
                   else ev_fail PB_EVAL_INVALID_SUBJECT s))"

end
