(* ===== verification/Forms_State.thy ===== *)
theory Forms_State
  imports Forms_Text
begin

text \<open>
  The forms that keep numbers or bytes in a slot (\<open>src/src/patchbay/pb_form_state.c\<close>). A slot pointer is
  the position of the slot among the slots of the rule. The outer \<open>None\<close> of a form is a publish
  that does not return, or a step the C code has no result for (a division by zero, a null
  pointer).
\<close>

section \<open>Slots\<close>

definition state_slot :: "pb_lib \<Rightarrow> 'w pb_eval_ctx \<Rightarrow> bytes \<Rightarrow> 'w eval_st \<Rightarrow> (nat option \<times> 'w eval_st) option" where
  "state_slot lib ctx op s =
     (if \<not> cx_has_state ctx then Some (None, s)
      else do { (pos, st) \<leftarrow> state_slot_in (heap lib) (ev_states s (cx_rule_id ctx)) (cx_rule_id ctx) op (cx_subject ctx);
                Some (pos, s\<lparr>ev_states := (ev_states s)(cx_rule_id ctx := st)\<rparr>) })"

definition slot_at :: "'w pb_eval_ctx \<Rightarrow> nat \<Rightarrow> 'w eval_st \<Rightarrow> pb_eval_state_entry" where
  "slot_at ctx i s = st_items (ev_states s (cx_rule_id ctx)) ! i"

definition put_slot :: "'w pb_eval_ctx \<Rightarrow> nat \<Rightarrow> pb_eval_state_entry \<Rightarrow> 'w eval_st \<Rightarrow> 'w eval_st" where
  "put_slot ctx i e s =
     (let st = ev_states s (cx_rule_id ctx)
      in s\<lparr>ev_states := (ev_states s)(cx_rule_id ctx := st\<lparr>st_items := (st_items st)[i := e]\<rparr>)\<rparr>)"

text \<open>The common start of the stateful forms: the slot, or the failure when there is no memory for it.\<close>

definition with_slot :: "pb_lib \<Rightarrow> 'w pb_eval_ctx \<Rightarrow> bytes \<Rightarrow> (nat \<Rightarrow> pb_eval_state_entry \<Rightarrow> 'w ev) \<Rightarrow> 'w ev" where
  "with_slot lib ctx op f s =
     do { (pos, s) \<leftarrow> state_slot lib ctx op s;
          case pos of
            None \<Rightarrow> ev_fail PB_EVAL_OOM s
          | Some i \<Rightarrow> f i (slot_at ctx i s) s }"

definition d_of_bool :: "bool \<Rightarrow> double" where
  "d_of_bool b = (if b then d_of_int 1 else D_ZERO False)"

section \<open>Changes\<close>

definition encode_state_value :: "pb_lib \<Rightarrow> pb_value \<Rightarrow> 'w eval_st \<Rightarrow> bytes option \<times> 'w eval_st" where
  "encode_state_value lib v s =
     (case v of
        PB_NUMBER _ \<Rightarrow> payload_of lib v s
      | PB_STRING _ \<Rightarrow> (as_string v, s)
      | PB_SYMBOL _ \<Rightarrow> (as_string v, s)
      | PB_BOOL _ \<Rightarrow> (as_string v, s)
      | PB_NIL \<Rightarrow> (as_string v, s)
      | _ \<Rightarrow> (None, s))"

text \<open>The end of \<open>stateful_changed\<close>.\<close>

definition changed_result :: "'w pb_eval_ctx \<Rightarrow> bool \<Rightarrow> pb_value \<Rightarrow> bool \<Rightarrow> 'w ev" where
  "changed_result ctx bool_mode v changed s =
     (let s = (if changed then s else note_suppressed ctx s)
      in ev_ok (if bool_mode then PB_BOOL changed else if changed then v else PB_NIL) s)"

definition stateful_changed :: "pb_lib \<Rightarrow> 'w pb_eval_ctx \<Rightarrow> bytes \<Rightarrow> pb_value \<Rightarrow> bool \<Rightarrow> 'w ev" where
  "stateful_changed lib ctx op v bool_mode =
     with_slot lib ctx op (\<lambda>i slot s.
       case v of
         PB_NUMBER x \<Rightarrow>
           (let changed = (se_kind slot \<noteq> PB_EVAL_STATE_NUMBER \<or> \<not> d_eq (se_number slot) x)
            in changed_result ctx bool_mode v changed (put_slot ctx i (slot\<lparr>se_kind := PB_EVAL_STATE_NUMBER, se_number := x\<rparr>) s))
       | _ \<Rightarrow>
           (case encode_state_value lib v s of
              (None, s) \<Rightarrow> ev_fail PB_EVAL_TYPE s
            | (Some t, s) \<Rightarrow>
                let changed = (se_kind slot \<noteq> PB_EVAL_STATE_BYTES \<or> se_bytes slot \<noteq> t)
                in if changed then
                     (case state_set_bytes (heap lib) slot t of
                        (False, slot) \<Rightarrow> ev_fail PB_EVAL_OOM s
                      | (True, slot) \<Rightarrow> changed_result ctx bool_mode v changed (put_slot ctx i slot s))
                   else changed_result ctx bool_mode v changed s))"

definition call_squelch :: "pb_lib \<Rightarrow> 'w pb_eval_ctx \<Rightarrow> pb_value list \<Rightarrow> 'w ev" where
  "call_squelch lib ctx args = (case args of [v] \<Rightarrow> stateful_changed lib ctx ''squelch'' v False | _ \<Rightarrow> ev_fail PB_EVAL_ARITY)"

definition call_changed :: "pb_lib \<Rightarrow> 'w pb_eval_ctx \<Rightarrow> pb_value list \<Rightarrow> 'w ev" where
  "call_changed lib ctx args = (case args of [v] \<Rightarrow> stateful_changed lib ctx ''changed?'' v True | _ \<Rightarrow> ev_fail PB_EVAL_ARITY)"

definition d_now :: "'w pb_eval_ctx \<Rightarrow> double" where
  "d_now ctx = d_of_nat (unat (cx_now_ms ctx))"

definition call_hold_off :: "pb_lib \<Rightarrow> 'w pb_eval_ctx \<Rightarrow> pb_value list \<Rightarrow> 'w ev" where
  "call_hold_off lib ctx args =
     (case args of
        [w, v] \<Rightarrow>
          (case as_number w of
             None \<Rightarrow> ev_fail PB_EVAL_TYPE
           | Some window_ms \<Rightarrow>
               if d_lt window_ms (D_ZERO False) \<or> \<not> d_whole window_ms then ev_fail PB_EVAL_TYPE
               else with_slot lib ctx ''hold-off'' (\<lambda>i slot s.
                 if se_kind slot = PB_EVAL_STATE_EMPTY
                 then ev_ok v (put_slot ctx i (slot\<lparr>se_kind := PB_EVAL_STATE_NUMBER, se_number := d_now ctx\<rparr>) s)
                 else if se_kind slot \<noteq> PB_EVAL_STATE_NUMBER then ev_fail PB_EVAL_TYPE s
                 else if d_lt (d_now ctx) (se_number slot) \<or> d_lt (d_sub (d_now ctx) (se_number slot)) window_ms
                 then ev_nil (note_suppressed ctx s)
                 else ev_ok v (put_slot ctx i (slot\<lparr>se_number := d_now ctx\<rparr>) s)))
      | _ \<Rightarrow> ev_fail PB_EVAL_ARITY)"

definition call_edge :: "pb_lib \<Rightarrow> 'w pb_eval_ctx \<Rightarrow> pb_value list \<Rightarrow> bool \<Rightarrow> 'w ev" where
  "call_edge lib ctx args rising =
     (case args of
        [v] \<Rightarrow>
          (let cur = truthy v
           in with_slot lib ctx (if rising then ''rising-edge'' else ''falling-edge'') (\<lambda>i slot s.
                if se_kind slot = PB_EVAL_STATE_EMPTY
                then ev_nil (note_suppressed ctx (put_slot ctx i (slot\<lparr>se_kind := PB_EVAL_STATE_NUMBER, se_number := d_of_bool cur\<rparr>) s))
                else if se_kind slot \<noteq> PB_EVAL_STATE_NUMBER then ev_fail PB_EVAL_TYPE s
                else let prev = (\<not> d_eq (se_number slot) (D_ZERO False));
                         s = put_slot ctx i (slot\<lparr>se_number := d_of_bool cur\<rparr>) s;
                         fire = (if rising then \<not> prev \<and> cur else prev \<and> \<not> cur)
                     in if fire then ev_ok (PB_BOOL True) s else ev_nil (note_suppressed ctx s)))
      | _ \<Rightarrow> ev_fail PB_EVAL_ARITY)"

definition call_deadband :: "pb_lib \<Rightarrow> 'w pb_eval_ctx \<Rightarrow> pb_value list \<Rightarrow> 'w ev" where
  "call_deadband lib ctx args =
     (case args of
        [t, v] \<Rightarrow>
          (case (as_number t, as_number v) of
             (Some threshold, Some x) \<Rightarrow>
               if d_lt threshold (D_ZERO False) then ev_fail PB_EVAL_TYPE
               else with_slot lib ctx ''deadband'' (\<lambda>i slot s.
                 if se_kind slot \<noteq> PB_EVAL_STATE_NUMBER \<or> d_le threshold (d_abs (d_sub x (se_number slot)))
                 then ev_ok (PB_NUMBER x) (put_slot ctx i (slot\<lparr>se_kind := PB_EVAL_STATE_NUMBER, se_number := x\<rparr>) s)
                 else ev_nil (note_suppressed ctx s))
           | _ \<Rightarrow> ev_fail PB_EVAL_TYPE)
      | _ \<Rightarrow> ev_fail PB_EVAL_ARITY)"

definition call_delta :: "pb_lib \<Rightarrow> 'w pb_eval_ctx \<Rightarrow> pb_value list \<Rightarrow> 'w ev" where
  "call_delta lib ctx args =
     (case args of
        [v] \<Rightarrow>
          (case as_number v of
             None \<Rightarrow> ev_fail PB_EVAL_TYPE
           | Some x \<Rightarrow>
               with_slot lib ctx ''delta'' (\<lambda>i slot s.
                 let prev = (if se_kind slot = PB_EVAL_STATE_NUMBER then se_number slot else x)
                 in ev_ok (PB_NUMBER (d_sub x prev)) (put_slot ctx i (slot\<lparr>se_kind := PB_EVAL_STATE_NUMBER, se_number := x\<rparr>) s)))
      | _ \<Rightarrow> ev_fail PB_EVAL_ARITY)"

section \<open>Counting\<close>

text \<open>The condition and the subject among the arguments of \<open>count\<close>, each if given.\<close>

definition count_args :: "pb_value list \<Rightarrow> pb_eval_error + (pb_value option \<times> bytes option)" where
  "count_args args =
     (if 3 < length args then Inl PB_EVAL_ARITY
      else case args of
        [a] \<Rightarrow> if keyword_eq a ''subject'' then Inl PB_EVAL_ARITY else Inr (Some a, None)
      | [a, b] \<Rightarrow>
          (if \<not> keyword_eq a ''subject'' then Inl PB_EVAL_TYPE
           else case as_string b of None \<Rightarrow> Inl PB_EVAL_TYPE | Some t \<Rightarrow> Inr (None, Some t))
      | [a, b, c] \<Rightarrow>
          if keyword_eq a ''subject'' then
            (case as_string b of None \<Rightarrow> Inl PB_EVAL_TYPE | Some t \<Rightarrow> Inr (Some c, Some t))
          else if keyword_eq b ''subject'' then
            (case as_string c of None \<Rightarrow> Inl PB_EVAL_TYPE | Some t \<Rightarrow> Inr (Some a, Some t))
          else Inl PB_EVAL_TYPE
      | _ \<Rightarrow> Inr (None, None))"

text \<open>Counting once the subject is known.\<close>

definition count_publish :: "pb_lib \<Rightarrow> 'w pb_eval_ctx \<Rightarrow> bytes \<Rightarrow> 'w ev" where
  "count_publish lib ctx subject s =
     (if \<not> publish_subject_valid subject then ev_fail PB_EVAL_INVALID_SUBJECT s
      else with_slot lib ctx ''count'' (\<lambda>i slot s.
        let nxt = d_add (if se_kind slot = PB_EVAL_STATE_NUMBER then se_number slot else D_ZERO False) (d_of_int 1);
            s = put_slot ctx i (slot\<lparr>se_kind := PB_EVAL_STATE_NUMBER, se_number := nxt\<rparr>) s;
            tmp = format_f 0 nxt
        in if 32 \<le> length tmp then ev_fail PB_EVAL_TYPE s
           else case arena_memdup lib tmp s of
             (None, s) \<Rightarrow> ev_fail PB_EVAL_OOM s
           | (Some payload, s) \<Rightarrow> publish_or_fail ctx subject payload s) s)"

definition call_count :: "pb_lib \<Rightarrow> 'w pb_eval_ctx \<Rightarrow> pb_value list \<Rightarrow> 'w ev" where
  "call_count lib ctx args s =
     (case count_args args of
        Inl err \<Rightarrow> ev_fail err s
      | Inr (cond, subject) \<Rightarrow>
          if (case cond of None \<Rightarrow> False | Some v \<Rightarrow> \<not> truthy v) then ev_nil (note_suppressed ctx s)
          else case subject of
            Some subject \<Rightarrow> count_publish lib ctx subject s
          | None \<Rightarrow>
              let subject = cx_subject ctx @ ''.count''
              in case arena_alloc lib (length subject) 1 s of
                   (False, s) \<Rightarrow> ev_fail PB_EVAL_OOM s
                 | (True, s) \<Rightarrow> count_publish lib ctx subject s)"

end
