(* ===== verification/Forms_Windows.thy ===== *)
theory Forms_Windows
  imports Forms_State
begin

text \<open>
  The ring-window forms (\<open>src/src/patchbay/pb_form_windows.c\<close>): moving statistics, percentiles, rates and
  throttling over the last values or the values of the last milliseconds. An access outside the
  arrays of a ring, which have as many cells as were allocated, is \<open>None\<close>.
\<close>

section \<open>Windows\<close>

datatype window_calc = WINDOW_SUM | WINDOW_AVG | WINDOW_MIN | WINDOW_MAX | WINDOW_VARIANCE | WINDOW_STDDEV

definition window_op :: "bytes \<Rightarrow> bool \<Rightarrow> bytes option" where
  "window_op name time_window =
     (let op = name @ ''/'' @ (if time_window then ''m'' else ''t'')
      in if length op < 64 then Some op else None)"

definition d_count :: "double \<Rightarrow> bool" where
  "d_count n \<longleftrightarrow> \<not> (d_lt n (d_of_int 1) \<or> \<not> d_whole n)"

definition parse_count :: "pb_lib \<Rightarrow> double \<Rightarrow> nat option" where
  "parse_count lib n = (if d_count n then Some (unat (d_to_u64 lib n)) else None)"

text \<open>The position after the window, whether it is a time window, the count and the milliseconds.\<close>

definition parse_window :: "pb_lib \<Rightarrow> pb_value list \<Rightarrow> (nat \<times> bool \<times> nat \<times> u64) option" where
  "parse_window lib args =
     (if 2 \<le> length args \<and> keyword_eq (hd args) ''ms'' then
        (case as_number (args ! 1) of
           None \<Rightarrow> None
         | Some n \<Rightarrow> if d_count n then Some (2, True, 0, d_to_u64 lib n) else None)
      else case args of
        [] \<Rightarrow> None
      | a # _ \<Rightarrow>
          (case as_number a of
             None \<Rightarrow> None
           | Some n \<Rightarrow> map_option (\<lambda>cnt. (1, False, cnt, 0)) (parse_count lib n)))"

section \<open>Rings\<close>

definition cell :: "'a list \<Rightarrow> nat \<Rightarrow> 'a option" where
  "cell xs i = (if i < length xs then Some (xs ! i) else None)"

definition set_cell :: "'a list \<Rightarrow> nat \<Rightarrow> 'a \<Rightarrow> 'a list option" where
  "set_cell xs i v = (if i < length xs then Some (xs[i := v]) else None)"

text \<open>The cell of the \<open>i\<close>-th value of the ring.\<close>

definition ring_idx :: "pb_eval_state_entry \<Rightarrow> nat \<Rightarrow> nat" where
  "ring_idx slot i = (if ring_cap slot = 0 then 0 else (ring_start slot + i) mod ring_cap slot)"

text \<open>The first cells of a new array of \<open>cells\<close> cells filled with the values of the ring.\<close>

definition ring_copy :: "pb_eval_state_entry \<Rightarrow> 'a list \<Rightarrow> nat \<Rightarrow> 'a \<Rightarrow> 'a list option" where
  "ring_copy slot xs cells z =
     (if cells < ring_len slot then None
      else map_option (\<lambda>ys. ys @ replicate (cells - ring_len slot) z) (those (map (\<lambda>i. cell xs (ring_idx slot i)) [0..<ring_len slot])))"

text \<open>The size of the request wraps around, so the array may have fewer than \<open>cap\<close> cells.\<close>

definition ring_reserve :: "allocator \<Rightarrow> pb_eval_state_entry \<Rightarrow> nat \<Rightarrow> bool \<Rightarrow> (bool \<times> pb_eval_state_entry) option" where
  "ring_reserve am slot cap with_times =
     (if cap \<le> ring_cap slot then Some (True, slot)
      else let n = cap * 8 mod 2 ^ 64; cells = n div 8
           in if \<not> am n then Some (False, slot)
              else if with_times \<and> \<not> am n then Some (False, slot)
              else do { values \<leftarrow> ring_copy slot (ring_values slot) cells (D_ZERO False);
                        times \<leftarrow> (if \<not> with_times then Some []
                                 else if ring_times_ms slot = [] then Some (replicate cells 0)
                                 else ring_copy slot (ring_times_ms slot) cells 0);
                        Some (True, slot\<lparr>ring_values := values, ring_times_ms := times, ring_cap := cap, ring_start := 0\<rparr>) })"

definition ring_push_count :: "pb_eval_state_entry \<Rightarrow> double \<Rightarrow> pb_eval_state_entry option" where
  "ring_push_count slot x =
     (if ring_len slot < ring_cap slot then
        do { values \<leftarrow> set_cell (ring_values slot) (ring_idx slot (ring_len slot)) x;
             Some (slot\<lparr>ring_values := values, ring_len := ring_len slot + 1, ring_sum := d_add (ring_sum slot) x\<rparr>) }
      else
        do { old \<leftarrow> cell (ring_values slot) (ring_start slot);
             values \<leftarrow> set_cell (ring_values slot) (ring_start slot) x;
             if ring_cap slot = 0 then None
             else Some (slot\<lparr>ring_values := values, ring_sum := d_add (d_sub (ring_sum slot) old) x,
                             ring_start := (ring_start slot + 1) mod ring_cap slot\<rparr>) })"

function ring_evict_time :: "pb_eval_state_entry \<Rightarrow> u64 \<Rightarrow> pb_eval_state_entry option" where
  "ring_evict_time slot cutoff_ms =
     (if ring_len slot = 0 then Some slot
      else do { t \<leftarrow> cell (ring_times_ms slot) (ring_start slot);
                if cutoff_ms \<le> t then Some slot
                else do { x \<leftarrow> cell (ring_values slot) (ring_start slot);
                          if ring_cap slot = 0 then None
                          else ring_evict_time (slot\<lparr>ring_sum := d_sub (ring_sum slot) x,
                                 ring_start := (ring_start slot + 1) mod ring_cap slot, ring_len := ring_len slot - 1\<rparr>) cutoff_ms } })"
  by pat_completeness auto
termination
  by (relation "measure (\<lambda>(slot, _). ring_len slot)") auto

declare ring_evict_time.simps [simp del]

definition ring_push_time :: "allocator \<Rightarrow> pb_eval_state_entry \<Rightarrow> double \<Rightarrow> u64 \<Rightarrow> (bool \<times> pb_eval_state_entry) option" where
  "ring_push_time am slot x t_ms =
     do { (ok, slot) \<leftarrow> (if ring_len slot = ring_cap slot
                         then ring_reserve am slot (if ring_cap slot = 0 then 16 else ring_cap slot * 2 mod 2 ^ 64) True
                         else Some (True, slot));
          if \<not> ok then Some (False, slot)
          else if ring_cap slot = 0 then None
          else do { let idx = ring_idx slot (ring_len slot);
                    values \<leftarrow> set_cell (ring_values slot) idx x;
                    times \<leftarrow> set_cell (ring_times_ms slot) idx t_ms;
                    Some (True, slot\<lparr>ring_values := values, ring_times_ms := times, ring_len := ring_len slot + 1,
                                     ring_sum := d_add (ring_sum slot) x\<rparr>) } }"

definition window_cutoff :: "u64 \<Rightarrow> u64 \<Rightarrow> u64" where
  "window_cutoff now_ms ms = (if ms < now_ms then now_ms - ms else 0)"

definition window_push :: "allocator \<Rightarrow> pb_eval_state_entry \<Rightarrow> bool \<Rightarrow> nat \<Rightarrow> u64 \<Rightarrow> u64 \<Rightarrow> double \<Rightarrow> (bool \<times> pb_eval_state_entry) option" where
  "window_push am slot time_window cnt ms now_ms x =
     (if time_window then
        do { let configured = (if ring_window_ms slot = 0 then ms else ring_window_ms slot);
             slot \<leftarrow> ring_evict_time slot (window_cutoff now_ms configured);
             ring_push_time am slot x now_ms }
      else
        do { (ok, slot) \<leftarrow> (if ring_cap slot = 0 then ring_reserve am slot cnt False else Some (True, slot));
             if \<not> ok then Some (False, slot)
             else map_option (Pair True) (ring_push_count slot x) })"

definition ring_value_at :: "pb_eval_state_entry \<Rightarrow> nat \<Rightarrow> double option" where
  "ring_value_at slot i = cell (ring_values slot) (ring_idx slot i)"

text \<open>The values the loops over a ring read, oldest first.\<close>

definition ring_contents :: "pb_eval_state_entry \<Rightarrow> double list option" where
  "ring_contents slot = those (map (ring_value_at slot) [0..<ring_len slot])"

fun calc_values :: "window_calc \<Rightarrow> double \<Rightarrow> double list \<Rightarrow> double" where
  "calc_values WINDOW_SUM tot xs = tot"
| "calc_values WINDOW_AVG tot xs = d_div tot (d_of_nat (length xs))"
| "calc_values WINDOW_MIN tot xs = foldl (\<lambda>acc x. if d_lt x acc then x else acc) (hd xs) (tl xs)"
| "calc_values WINDOW_MAX tot xs = foldl (\<lambda>acc x. if d_lt acc x then x else acc) (hd xs) (tl xs)"
| "calc_values calc tot xs =
     (let mean = d_div tot (d_of_nat (length xs));
          sumsq = foldl (\<lambda>acc x. let d = d_sub x mean in d_add acc (d_mul d d)) (D_ZERO False) xs;
          var = d_div sumsq (d_of_nat (length xs))
      in if calc = WINDOW_STDDEV then d_sqrt var else var)"

definition calc_ring :: "pb_eval_state_entry \<Rightarrow> window_calc \<Rightarrow> pb_value option" where
  "calc_ring slot calc =
     (if ring_len slot = 0 then Some PB_NIL
      else if calc = WINDOW_SUM then Some (PB_NUMBER (ring_sum slot))
      else if calc = WINDOW_AVG then Some (PB_NUMBER (d_div (ring_sum slot) (d_of_nat (ring_len slot))))
      else map_option (\<lambda>xs. PB_NUMBER (calc_values calc (ring_sum slot) xs)) (ring_contents slot))"

section \<open>The forms\<close>

definition window_slot :: "pb_lib \<Rightarrow> 'w pb_eval_ctx \<Rightarrow> bytes \<Rightarrow> bool \<Rightarrow> nat \<Rightarrow> u64 \<Rightarrow> 'w eval_st \<Rightarrow> (nat option \<times> 'w eval_st) option" where
  "window_slot lib ctx name time_window cnt ms s =
     (case window_op name time_window of
        None \<Rightarrow> Some (None, s)
      | Some op \<Rightarrow>
          do { (pos, s) \<leftarrow> state_slot lib ctx op s;
               case pos of
                 None \<Rightarrow> Some (None, s)
               | Some i \<Rightarrow>
                   do { let slot = slot_at ctx i s;
                        (ok, slot) \<leftarrow>
                          (if se_kind slot = PB_EVAL_STATE_EMPTY then
                             (let slot = slot\<lparr>se_kind := PB_EVAL_STATE_RING, ring_time_window := time_window, ring_window_ms := ms\<rparr>
                              in if time_window then Some (True, slot) else ring_reserve (heap lib) slot cnt False)
                           else Some (True, slot));
                        let s = put_slot ctx i slot s;
                        if \<not> ok \<or> se_kind slot \<noteq> PB_EVAL_STATE_RING \<or> ring_time_window slot \<noteq> time_window then Some (None, s)
                        else Some (Some i, s) } })"

text \<open>Finding the ring and pushing a value, as all the forms but \<open>throttle\<close> do; the result is its slot.\<close>

definition window_push_slot ::
  "pb_lib \<Rightarrow> 'w pb_eval_ctx \<Rightarrow> bytes \<Rightarrow> bool \<Rightarrow> nat \<Rightarrow> u64 \<Rightarrow> double \<Rightarrow> (pb_eval_state_entry \<Rightarrow> 'w ev) \<Rightarrow> 'w ev" where
  "window_push_slot lib ctx name time_window cnt ms x k s =
     do { (pos, s) \<leftarrow> window_slot lib ctx name time_window cnt ms s;
          case pos of
            None \<Rightarrow> ev_fail PB_EVAL_OOM s
          | Some i \<Rightarrow>
              do { (ok, slot) \<leftarrow> window_push (heap lib) (slot_at ctx i s) time_window cnt ms (cx_now_ms ctx) x;
                   let s = put_slot ctx i slot s;
                   if ok then k slot s else ev_fail PB_EVAL_OOM s } }"

definition call_window_calc :: "pb_lib \<Rightarrow> 'w pb_eval_ctx \<Rightarrow> pb_value list \<Rightarrow> bytes \<Rightarrow> window_calc \<Rightarrow> 'w ev" where
  "call_window_calc lib ctx args op calc s =
     (case parse_window lib args of
        None \<Rightarrow> ev_fail PB_EVAL_ARITY s
      | Some (pos, time_window, cnt, ms) \<Rightarrow>
          if pos + 1 \<noteq> length args then ev_fail PB_EVAL_ARITY s
          else case as_number (args ! pos) of
            None \<Rightarrow> ev_fail PB_EVAL_TYPE s
          | Some x \<Rightarrow>
              window_push_slot lib ctx op time_window cnt ms x
                (\<lambda>slot s. do { v \<leftarrow> calc_ring slot calc; ev_ok v s }) s)"

text \<open>Reading the percentile off the values of the ring.\<close>

definition percentile_of :: "pb_lib \<Rightarrow> double \<Rightarrow> pb_eval_state_entry \<Rightarrow> 'w ev" where
  "percentile_of lib p slot s =
     (case arena_alloc lib (ring_len slot * 8) 8 s of
        (False, s) \<Rightarrow> ev_fail PB_EVAL_OOM s
      | (True, s) \<Rightarrow>
          do { xs \<leftarrow> ring_contents slot;
               let idx = (if ring_len slot = 1 then 0
                          else unat (d_to_u64 lib (d_floor (d_mul p (d_of_nat (ring_len slot - 1))))));
               x \<leftarrow> cell (qsort_doubles lib xs) idx;
               ev_ok (PB_NUMBER x) s })"

definition percentile_args :: "pb_value list \<Rightarrow> nat \<Rightarrow> bool \<Rightarrow> pb_eval_error + (double \<times> double)" where
  "percentile_args args pos median =
     (case (if median then Some (D_NUM (1 / 2))
            else if length args \<le> pos then None
            else case as_number (args ! pos) of
              None \<Rightarrow> None
            | Some p \<Rightarrow> if d_lt p (D_ZERO False) \<or> d_lt (d_of_int 1) p then None else Some p) of
        None \<Rightarrow> Inl PB_EVAL_TYPE
      | Some p \<Rightarrow>
          let pos = (if median then pos else pos + 1)
          in if pos + 1 \<noteq> length args then Inl PB_EVAL_ARITY
             else case as_number (args ! pos) of None \<Rightarrow> Inl PB_EVAL_TYPE | Some x \<Rightarrow> Inr (p, x))"

definition call_percentile :: "pb_lib \<Rightarrow> 'w pb_eval_ctx \<Rightarrow> pb_value list \<Rightarrow> bool \<Rightarrow> 'w ev" where
  "call_percentile lib ctx args median s =
     (case parse_window lib args of
        None \<Rightarrow> ev_fail PB_EVAL_ARITY s
      | Some (pos, time_window, cnt, ms) \<Rightarrow>
          (case percentile_args args pos median of
             Inl err \<Rightarrow> ev_fail err s
           | Inr (p, x) \<Rightarrow>
               window_push_slot lib ctx (if median then ''median'' else ''percentile'') time_window cnt ms x (percentile_of lib p) s))"

definition call_rate :: "pb_lib \<Rightarrow> 'w pb_eval_ctx \<Rightarrow> pb_value list \<Rightarrow> 'w ev" where
  "call_rate lib ctx args s =
     (if length args \<noteq> 3 \<or> \<not> keyword_eq (hd args) ''ms'' then ev_fail PB_EVAL_ARITY s
      else case as_number (args ! 1) of
        None \<Rightarrow> ev_fail PB_EVAL_TYPE s
      | Some ms_d \<Rightarrow>
          if \<not> d_count ms_d then ev_fail PB_EVAL_TYPE s
          else window_push_slot lib ctx ''rate'' True 0 (d_to_u64 lib ms_d) (d_of_int 1)
            (\<lambda>slot. ev_ok (PB_NUMBER (d_div (d_mul (d_of_nat (ring_len slot)) (d_of_int 1000)) ms_d))) s)"

definition call_throttle :: "pb_lib \<Rightarrow> 'w pb_eval_ctx \<Rightarrow> pb_value list \<Rightarrow> 'w ev" where
  "call_throttle lib ctx args s =
     (case parse_window lib args of
        None \<Rightarrow> ev_fail PB_EVAL_ARITY s
      | Some (pos, time_window, cnt, ms) \<Rightarrow>
          if pos + 2 \<noteq> length args then ev_fail PB_EVAL_ARITY s
          else case as_number (args ! pos) of
            None \<Rightarrow> ev_fail PB_EVAL_TYPE s
          | Some max_d \<Rightarrow>
              if \<not> d_count max_d then ev_fail PB_EVAL_TYPE s
              else
              do { let max_n = unat (d_to_u64 lib max_d);
                   (slot_pos, s) \<leftarrow> window_slot lib ctx ''throttle'' time_window cnt ms s;
                   case slot_pos of
                     None \<Rightarrow> ev_fail PB_EVAL_OOM s
                   | Some i \<Rightarrow>
                       if time_window then
                         do { slot \<leftarrow> ring_evict_time (slot_at ctx i s) (window_cutoff (cx_now_ms ctx) ms);
                              if max_n \<le> ring_len slot then ev_nil (note_suppressed ctx (put_slot ctx i slot s))
                              else do { (ok, slot) \<leftarrow> ring_push_time (heap lib) slot (d_of_int 1) (cx_now_ms ctx);
                                        let s = put_slot ctx i slot s;
                                        if ok then ev_ok (args ! (pos + 1)) s else ev_fail PB_EVAL_OOM s } }
                       else
                         do { let slot = slot_at ctx i s;
                              let pass = d_lt (ring_sum slot) (d_of_nat max_n);
                              slot \<leftarrow> ring_push_count slot (d_of_bool pass);
                              let s = put_slot ctx i slot s;
                              if pass then ev_ok (args ! (pos + 1)) s else ev_nil (note_suppressed ctx s) } })"

end
