(* ===== verification/Forms_Clocks.thy ===== *)
theory Forms_Clocks
  imports Forms_Windows
begin

text \<open>
  Bars (\<open>src/src/patchbay/pb_form_bar.c\<close>) and the clocked forms (\<open>src/src/patchbay/pb_form_clocks.c\<close>). The forms
  that evaluate expressions take the evaluator as an argument. A stored body or form is the value
  it points to, which is what the code reads as long as the expression belongs to the program.
\<close>

section \<open>Bars\<close>

record bar_close =
  bc_open :: double
  bc_high :: double
  bc_low :: double
  bc_close :: double

definition emit_one_bar_field :: "pb_lib \<Rightarrow> 'w pb_eval_ctx \<Rightarrow> bytes \<Rightarrow> double \<Rightarrow> 'w eval_st \<Rightarrow> (bool \<times> 'w eval_st) option" where
  "emit_one_bar_field lib ctx name v s =
     (let subject = cx_subject ctx @ ''.bar.'' @ name; tmp = format_g 17 v
      in case arena_alloc lib (length subject) 1 s of
           (False, s) \<Rightarrow> Some (False, s)
         | (True, s) \<Rightarrow>
             if 32 \<le> length tmp then Some (False, s)
             else case arena_memdup lib tmp s of
               (None, s) \<Rightarrow> Some (False, s)
             | (Some payload, s) \<Rightarrow> do_publish ctx subject payload s)"

fun emit_bar_list :: "pb_lib \<Rightarrow> 'w pb_eval_ctx \<Rightarrow> (bytes \<times> double) list \<Rightarrow> 'w ev" where
  "emit_bar_list lib ctx [] s = ev_nil s"
| "emit_bar_list lib ctx ((name, v) # fs) s =
     do { (ok, s) \<leftarrow> emit_one_bar_field lib ctx name v s;
          if ok then emit_bar_list lib ctx fs s else ev_fail PB_EVAL_PUBLISH_FAILED s }"

definition emit_bar_fields :: "pb_lib \<Rightarrow> 'w pb_eval_ctx \<Rightarrow> bar_close \<Rightarrow> 'w ev" where
  "emit_bar_fields lib ctx c =
     emit_bar_list lib ctx [(''open'', bc_open c), (''high'', bc_high c), (''low'', bc_low c), (''close'', bc_close c)]"

text \<open>The bar starting at \<open>x\<close>, and the bar widened by \<open>x\<close>.\<close>

definition bar_first :: "pb_eval_state_entry \<Rightarrow> double \<Rightarrow> pb_eval_state_entry" where
  "bar_first slot x = slot\<lparr>bar_open := x, bar_high := x, bar_low := x, bar_count := 1\<rparr>"

definition bar_more :: "pb_eval_state_entry \<Rightarrow> double \<Rightarrow> pb_eval_state_entry" where
  "bar_more slot x =
     slot\<lparr>bar_high := (if d_lt (bar_high slot) x then x else bar_high slot),
          bar_low := (if d_lt x (bar_low slot) then x else bar_low slot),
          bar_count := bar_count slot + 1\<rparr>"

definition bar_closed :: "pb_eval_state_entry \<Rightarrow> double \<Rightarrow> bar_close" where
  "bar_closed slot c = \<lparr>bc_open = bar_open slot, bc_high = bar_high slot, bc_low = bar_low slot, bc_close = c\<rparr>"

definition bar_tick_update :: "pb_eval_state_entry \<Rightarrow> double \<Rightarrow> bar_close option \<times> pb_eval_state_entry" where
  "bar_tick_update slot x =
     (let slot = (if bar_count slot = 0 then bar_first slot x else bar_more slot x)
      in if bar_count slot < bar_cap slot then (None, slot) else (Some (bar_closed slot x), slot\<lparr>bar_count := 0\<rparr>))"

text \<open>The outer \<open>None\<close> is a division by zero.\<close>

definition bar_time_update :: "pb_eval_state_entry \<Rightarrow> u64 \<Rightarrow> double \<Rightarrow> (bar_close option \<times> pb_eval_state_entry) option" where
  "bar_time_update slot now x =
     (if bar_window_ms slot = 0 then None
      else let aligned = (now div bar_window_ms slot) * bar_window_ms slot;
               fresh = (bar_first slot x)\<lparr>bar_window_start_ms := aligned, bar_last_close := x\<rparr>
           in if bar_count slot = 0 then Some (None, fresh)
              else if bar_window_start_ms slot \<noteq> aligned then Some (Some (bar_closed slot (bar_last_close slot)), fresh)
              else Some (None, (bar_more slot x)\<lparr>bar_last_close := x\<rparr>))"

definition bar_time_tick :: "pb_eval_state_entry \<Rightarrow> u64 \<Rightarrow> bar_close option \<times> pb_eval_state_entry" where
  "bar_time_tick slot now =
     (if se_kind slot \<noteq> PB_EVAL_STATE_BAR \<or> \<not> bar_time_window slot \<or> bar_count slot = 0 then (None, slot)
      else if now - bar_window_start_ms slot < bar_window_ms slot then (None, slot)
      else (Some (bar_closed slot (bar_last_close slot)), slot\<lparr>bar_count := 0, bar_window_start_ms := 0\<rparr>))"

text \<open>The window of a \<open>bar!\<close>: whether it is a time window, the count, the milliseconds, and the input.\<close>

definition bar_args :: "pb_lib \<Rightarrow> pb_value list \<Rightarrow> pb_eval_error + (bool \<times> u32 \<times> u64 \<times> pb_value)" where
  "bar_args lib args =
     (case args of
        [n, v] \<Rightarrow>
          (case as_number n of
             None \<Rightarrow> Inl PB_EVAL_TYPE
           | Some n \<Rightarrow> if \<not> d_count n \<or> d_lt (d_of_int 4294967295) n then Inl PB_EVAL_TYPE
                       else Inr (False, ucast (d_to_u64 lib n), 0, v))
      | [k, ms, v] \<Rightarrow>
          if \<not> keyword_eq k ''ms'' then Inl PB_EVAL_ARITY
          else (case as_number ms of
             None \<Rightarrow> Inl PB_EVAL_TYPE
           | Some ms \<Rightarrow> if \<not> d_count ms then Inl PB_EVAL_TYPE else Inr (True, 0, d_to_u64 lib ms, v))
      | _ \<Rightarrow> Inl PB_EVAL_ARITY)"

definition call_bar :: "pb_lib \<Rightarrow> 'w pb_eval_ctx \<Rightarrow> pb_value list \<Rightarrow> 'w ev" where
  "call_bar lib ctx args s =
     (case bar_args lib args of
        Inl err \<Rightarrow> ev_fail err s
      | Inr (time_window, cnt, window_ms, input) \<Rightarrow>
          (case as_number input of
             None \<Rightarrow> ev_fail PB_EVAL_TYPE s
           | Some x \<Rightarrow>
               with_slot lib ctx (if time_window then ''bar/m'' else ''bar/t'') (\<lambda>i slot s.
                 let slot = (if se_kind slot = PB_EVAL_STATE_EMPTY
                             then slot\<lparr>se_kind := PB_EVAL_STATE_BAR, bar_time_window := time_window, bar_cap := cnt, bar_window_ms := window_ms\<rparr>
                             else slot)
                 in if se_kind slot \<noteq> PB_EVAL_STATE_BAR \<or> bar_time_window slot \<noteq> time_window
                    then ev_fail PB_EVAL_TYPE (put_slot ctx i slot s)
                    else do { (closed, slot) \<leftarrow> (if time_window then bar_time_update slot (cx_now_ms ctx) x
                                                 else Some (bar_tick_update slot x));
                              let s = put_slot ctx i slot s;
                              case closed of
                                None \<Rightarrow> ev_nil (note_suppressed ctx s)
                              | Some c \<Rightarrow> emit_bar_fields lib ctx c s }) s))"

section \<open>Clocked publishes\<close>

definition clock_publish :: "'w pb_eval_ctx \<Rightarrow> pb_eval_state_entry \<Rightarrow> 'w ev" where
  "clock_publish ctx slot = publish_or_fail ctx (emit_subject slot) (se_bytes slot)"

definition retain_publish ::
  "pb_lib \<Rightarrow> 'w pb_eval_ctx \<Rightarrow> bytes \<Rightarrow> pb_eval_clock_kind \<Rightarrow> u64 \<Rightarrow> pb_value \<Rightarrow> pb_value \<Rightarrow> bool \<Rightarrow> 'w ev" where
  "retain_publish lib ctx op kind ms subject_v value_v reset_deadline s =
     (case as_string subject_v of
        None \<Rightarrow> ev_fail PB_EVAL_TYPE s
      | Some subject \<Rightarrow>
          (case payload_of lib value_v s of
             (None, s) \<Rightarrow> ev_fail PB_EVAL_TYPE s
           | (Some payload, s) \<Rightarrow>
               with_slot lib ctx op (\<lambda>i slot s.
                 let slot = slot\<lparr>clock_kind := kind, clock_interval_ms := ms, clock_armed := True\<rparr>;
                     slot = (if reset_deadline \<or> clock_deadline_ms slot = 0 then slot\<lparr>clock_deadline_ms := cx_now_ms ctx + ms\<rparr> else slot)
                 in case state_set_emit_subject (heap lib) slot subject of
                      (False, slot) \<Rightarrow> ev_fail PB_EVAL_OOM (put_slot ctx i slot s)
                    | (True, slot) \<Rightarrow>
                        (case state_set_bytes (heap lib) slot payload of
                           (False, slot) \<Rightarrow> ev_fail PB_EVAL_OOM (put_slot ctx i slot s)
                         | (True, slot) \<Rightarrow> ev_nil (put_slot ctx i (slot\<lparr>se_kind := PB_EVAL_STATE_CLOCK\<rparr>) s))) s))"

text \<open>The milliseconds after the keyword \<open>:ms\<close>.\<close>

definition clock_ms :: "pb_lib \<Rightarrow> pb_value \<Rightarrow> u64 option" where
  "clock_ms lib v = (case as_number v of None \<Rightarrow> None | Some ms \<Rightarrow> if d_count ms then Some (d_to_u64 lib ms) else None)"

definition call_debounce :: "pb_lib \<Rightarrow> 'w pb_eval_ctx \<Rightarrow> pb_value list \<Rightarrow> 'w ev" where
  "call_debounce lib ctx args s =
     (if length args \<noteq> 4 \<or> \<not> keyword_eq (hd args) ''ms'' then ev_fail PB_EVAL_ARITY s
      else case clock_ms lib (args ! 1) of
        None \<Rightarrow> ev_fail PB_EVAL_TYPE s
      | Some ms \<Rightarrow> retain_publish lib ctx ''debounce'' PB_EVAL_CLOCK_DEBOUNCE ms (args ! 2) (args ! 3) True s)"

definition call_sample :: "pb_lib \<Rightarrow> 'w pb_eval_ctx \<Rightarrow> pb_value list \<Rightarrow> 'w ev" where
  "call_sample lib ctx args s =
     (if length args \<noteq> 4 \<or> \<not> keyword_eq (hd args) ''ms'' then ev_fail PB_EVAL_ARITY s
      else case clock_ms lib (args ! 1) of
        None \<Rightarrow> ev_fail PB_EVAL_TYPE s
      | Some ms \<Rightarrow> retain_publish lib ctx ''sample'' PB_EVAL_CLOCK_SAMPLE ms (args ! 2) (args ! 3) False s)"

fun aggregate_metric :: "pb_value \<Rightarrow> pb_eval_metric_kind" where
  "aggregate_metric (PB_KEYWORD t) =
     (if pb_slice_eq_lit t ''rate'' then PB_EVAL_METRIC_RATE
      else if pb_slice_eq_lit t ''count'' then PB_EVAL_METRIC_COUNT
      else if pb_slice_eq_lit t ''max'' then PB_EVAL_METRIC_MAX
      else if pb_slice_eq_lit t ''min'' then PB_EVAL_METRIC_MIN
      else if pb_slice_eq_lit t ''sum'' then PB_EVAL_METRIC_SUM
      else if pb_slice_eq_lit t ''avg'' then PB_EVAL_METRIC_AVG
      else PB_EVAL_METRIC_NONE)"
| "aggregate_metric _ = PB_EVAL_METRIC_NONE"

definition is_keyword :: "pb_value \<Rightarrow> bool" where
  "is_keyword v \<longleftrightarrow> (case v of PB_KEYWORD _ \<Rightarrow> True | _ \<Rightarrow> False)"

definition call_aggregate :: "pb_lib \<Rightarrow> 'w pb_eval_ctx \<Rightarrow> pb_value list \<Rightarrow> 'w ev" where
  "call_aggregate lib ctx args s =
     (if length args \<noteq> 5 \<or> \<not> keyword_eq (hd args) ''ms'' \<or> \<not> is_keyword (args ! 3) then ev_fail PB_EVAL_ARITY s
      else case (clock_ms lib (args ! 1), as_number (args ! 4)) of
        (Some ms, Some x) \<Rightarrow>
          (let metric = aggregate_metric (args ! 3)
           in if metric = PB_EVAL_METRIC_NONE then ev_fail PB_EVAL_UNKNOWN_SYMBOL s
              else case as_string (args ! 2) of
                None \<Rightarrow> ev_fail PB_EVAL_TYPE s
              | Some subject \<Rightarrow>
                  with_slot lib ctx ''aggregate'' (\<lambda>i slot s.
                    let slot = (if se_kind slot = PB_EVAL_STATE_EMPTY
                                then slot\<lparr>clock_kind := PB_EVAL_CLOCK_AGGREGATE, clock_interval_ms := ms,
                                          clock_deadline_ms := cx_now_ms ctx + ms, clock_armed := True\<rparr>
                                else slot);
                        slot = slot\<lparr>metric_kind := metric\<rparr>
                    in case state_set_emit_subject (heap lib) slot subject of
                         (False, slot) \<Rightarrow> ev_fail PB_EVAL_OOM (put_slot ctx i slot s)
                       | (True, slot) \<Rightarrow>
                           do { (ok, slot) \<leftarrow> ring_push_time (heap lib) slot x (cx_now_ms ctx);
                                if ok then ev_nil (put_slot ctx i (slot\<lparr>se_kind := PB_EVAL_STATE_CLOCK\<rparr>) s)
                                else ev_fail PB_EVAL_OOM (put_slot ctx i slot s) }) s)
      | _ \<Rightarrow> ev_fail PB_EVAL_TYPE s)"

section \<open>Silence and dropouts\<close>

type_synonym 'w evaluator = "'w pb_eval_ctx \<Rightarrow> pb_value \<Rightarrow> 'w ev"

fun eval_body :: "'w evaluator \<Rightarrow> 'w pb_eval_ctx \<Rightarrow> pb_value \<Rightarrow> pb_value list \<Rightarrow> 'w ev" where
  "eval_body eval ctx last_v [] s = ev_ok last_v s"
| "eval_body eval ctx last_v (e # es) s =
     do { (r, s) \<leftarrow> eval ctx e s;
          case r of Inl err \<Rightarrow> ev_fail err s | Inr v \<Rightarrow> eval_body eval ctx v es s }"

definition eval_clock_body :: "'w evaluator \<Rightarrow> 'w pb_eval_ctx \<Rightarrow> pb_value list \<Rightarrow> 'w ev" where
  "eval_clock_body eval ctx body = eval_body eval ctx PB_NIL body"

text \<open>The milliseconds are an expression here.\<close>

definition raw_ms :: "'w evaluator \<Rightarrow> pb_lib \<Rightarrow> 'w pb_eval_ctx \<Rightarrow> pb_value \<Rightarrow> (u64 \<Rightarrow> 'w ev) \<Rightarrow> 'w ev" where
  "raw_ms eval lib ctx e k s =
     do { (r, s) \<leftarrow> eval ctx e s;
          case r of
            Inl _ \<Rightarrow> ev_fail PB_EVAL_TYPE s
          | Inr v \<Rightarrow> (case clock_ms lib v of None \<Rightarrow> ev_fail PB_EVAL_TYPE s | Some ms \<Rightarrow> k ms s) }"

definition pb_eval_call_on_silence :: "'w evaluator \<Rightarrow> pb_lib \<Rightarrow> 'w pb_eval_ctx \<Rightarrow> pb_value list \<Rightarrow> 'w ev" where
  "pb_eval_call_on_silence eval lib ctx raw_args s =
     (if length raw_args < 3 \<or> \<not> keyword_eq (hd raw_args) ''ms'' then ev_fail PB_EVAL_ARITY s
      else raw_ms eval lib ctx (raw_args ! 1) (\<lambda>ms. with_slot lib ctx ''on-silence'' (\<lambda>i slot s.
        if se_kind slot \<noteq> PB_EVAL_STATE_EMPTY \<and> (se_kind slot \<noteq> PB_EVAL_STATE_CLOCK \<or> clock_kind slot \<noteq> PB_EVAL_CLOCK_ON_SILENCE)
        then ev_fail PB_EVAL_TYPE s
        else let slot = (if se_kind slot = PB_EVAL_STATE_EMPTY
                         then slot\<lparr>clock_kind := PB_EVAL_CLOCK_ON_SILENCE, clock_body := drop 2 raw_args\<rparr> else slot);
                 slot = slot\<lparr>clock_interval_ms := ms, clock_armed := True, clock_deadline_ms := cx_now_ms ctx + ms\<rparr>
             in case state_set_bytes (heap lib) slot (cx_payload ctx) of
                  (False, slot) \<Rightarrow> ev_fail PB_EVAL_OOM (put_slot ctx i slot s)
                | (True, slot) \<Rightarrow> ev_nil (put_slot ctx i (slot\<lparr>se_kind := PB_EVAL_STATE_CLOCK\<rparr>) s))) s)"

definition pb_eval_call_dropout :: "'w evaluator \<Rightarrow> pb_lib \<Rightarrow> 'w pb_eval_ctx \<Rightarrow> pb_value list \<Rightarrow> 'w ev" where
  "pb_eval_call_dropout eval lib ctx raw_args s =
     (if length raw_args \<noteq> 6 \<or> \<not> keyword_eq (hd raw_args) ''ms'' \<or> \<not> keyword_eq (raw_args ! 2) ''lost'' \<or>
         \<not> keyword_eq (raw_args ! 4) ''found''
      then ev_fail PB_EVAL_ARITY s
      else raw_ms eval lib ctx (raw_args ! 1) (\<lambda>ms. with_slot lib ctx ''dropout'' (\<lambda>i slot s.
        if se_kind slot \<noteq> PB_EVAL_STATE_EMPTY \<and> (se_kind slot \<noteq> PB_EVAL_STATE_CLOCK \<or> clock_kind slot \<noteq> PB_EVAL_CLOCK_DROPOUT)
        then ev_fail PB_EVAL_TYPE s
        else let slot = (if se_kind slot = PB_EVAL_STATE_EMPTY
                         then slot\<lparr>se_kind := PB_EVAL_STATE_CLOCK, clock_kind := PB_EVAL_CLOCK_DROPOUT, clock_interval_ms := ms,
                                   lost_form := raw_args ! 3, found_form := raw_args ! 5\<rparr> else slot);
                 slot = slot\<lparr>clock_armed := True, clock_deadline_ms := cx_now_ms ctx + ms\<rparr>
             in if dropout_lost slot
                then eval ctx (found_form slot) (put_slot ctx i (slot\<lparr>dropout_lost := False\<rparr>) s)
                else ev_nil (put_slot ctx i slot s))) s)"

section \<open>Ticks\<close>

text \<open>The value an aggregate publishes; the inner \<open>None\<close> stands for an unknown metric.\<close>

fun metric_value :: "pb_eval_state_entry \<Rightarrow> pb_eval_metric_kind \<Rightarrow> pb_value option option" where
  "metric_value e PB_EVAL_METRIC_AVG = map_option Some (calc_ring e WINDOW_AVG)"
| "metric_value e PB_EVAL_METRIC_SUM = map_option Some (calc_ring e WINDOW_SUM)"
| "metric_value e PB_EVAL_METRIC_MIN = map_option Some (calc_ring e WINDOW_MIN)"
| "metric_value e PB_EVAL_METRIC_MAX = map_option Some (calc_ring e WINDOW_MAX)"
| "metric_value e PB_EVAL_METRIC_COUNT = Some (Some (PB_NUMBER (d_of_nat (ring_len e))))"
| "metric_value e PB_EVAL_METRIC_RATE =
     Some (Some (PB_NUMBER (d_div (d_mul (d_of_nat (ring_len e)) (d_of_int 1000)) (d_of_nat (unat (clock_interval_ms e))))))"
| "metric_value e PB_EVAL_METRIC_NONE = Some None"

definition tick_aggregate :: "pb_lib \<Rightarrow> 'w pb_eval_ctx \<Rightarrow> nat \<Rightarrow> 'w ev" where
  "tick_aggregate lib ctx i s =
     (let e = slot_at ctx i s; later = clock_deadline_ms e + clock_interval_ms e
      in if ring_len e = 0 then ev_nil (put_slot ctx i (e\<lparr>clock_deadline_ms := later\<rparr>) s)
         else do { r \<leftarrow> metric_value e (metric_kind e);
                   case r of
                     None \<Rightarrow> ev_fail PB_EVAL_TYPE s
                   | Some v \<Rightarrow>
                       (case payload_of lib v s of
                          (None, s) \<Rightarrow> ev_fail PB_EVAL_OOM s
                        | (Some payload, s) \<Rightarrow>
                            (case state_set_bytes (heap lib) e payload of
                               (False, e) \<Rightarrow> ev_fail PB_EVAL_OOM s
                             | (True, e) \<Rightarrow>
                                 let e = e\<lparr>se_kind := PB_EVAL_STATE_CLOCK, ring_len := 0, ring_start := 0, ring_sum := D_ZERO False,
                                           clock_deadline_ms := later\<rparr>
                                 in clock_publish ctx e (put_slot ctx i e s))) })"

definition tick_clock_state_entry :: "'w evaluator \<Rightarrow> pb_lib \<Rightarrow> 'w pb_eval_ctx \<Rightarrow> nat \<Rightarrow> 'w ev" where
  "tick_clock_state_entry eval lib ctx i s =
     (let e = slot_at ctx i s
      in if \<not> clock_armed e \<or> cx_now_ms ctx < clock_deadline_ms e then ev_nil s
         else case clock_kind e of
           PB_EVAL_CLOCK_ON_SILENCE \<Rightarrow>
             eval_clock_body eval (ctx\<lparr>cx_payload := se_bytes e\<rparr>) (clock_body e) (put_slot ctx i (e\<lparr>clock_armed := False\<rparr>) s)
         | PB_EVAL_CLOCK_DROPOUT \<Rightarrow>
             eval ctx (lost_form e) (put_slot ctx i (e\<lparr>dropout_lost := True, clock_armed := False\<rparr>) s)
         | PB_EVAL_CLOCK_DEBOUNCE \<Rightarrow> clock_publish ctx e (put_slot ctx i (e\<lparr>clock_armed := False\<rparr>) s)
         | PB_EVAL_CLOCK_SAMPLE \<Rightarrow>
             clock_publish ctx e (put_slot ctx i (e\<lparr>clock_deadline_ms := clock_deadline_ms e + clock_interval_ms e\<rparr>) s)
         | PB_EVAL_CLOCK_AGGREGATE \<Rightarrow> tick_aggregate lib ctx i s
         | PB_EVAL_CLOCK_NONE \<Rightarrow> ev_nil s)"

end
