(* ===== verification/Forms_Json.thy ===== *)
theory Forms_Json
  imports Forms_State
begin

text \<open>
  The JSON forms (\<open>src/src/patchbay/pb_form_json.c\<close>). Reading a document is the library call \<open>yyjson_read\<close>, whose
  result is the tree of its values; numbers of every JSON kind are doubles, as \<open>yyjson_get_num\<close> gives
  them.
\<close>

section \<open>Paths\<close>

definition DOT :: char where "DOT = CHR ''.''"

text \<open>The next token of the rest of a path, and what follows the dot after it.\<close>

definition path_token :: "bytes \<Rightarrow> (bytes \<times> bytes) option" where
  "path_token rest =
     (let tok = takeWhile (\<lambda>c. c \<noteq> DOT) rest; after = dropWhile (\<lambda>c. c \<noteq> DOT) rest
      in if tok = [] then None else Some (tok, drop 1 after))"

fun token_index_loop :: "nat \<Rightarrow> bytes \<Rightarrow> nat option" where
  "token_index_loop n [] = Some n"
| "token_index_loop n (c # cs) =
     (if byte_val c < byte_val (CHR ''0'') \<or> byte_val (CHR ''9'') < byte_val c then None
      else token_index_loop ((n * 10 + (byte_val c - byte_val (CHR ''0''))) mod 2 ^ 64) cs)"

definition token_index :: "bytes \<Rightarrow> nat option" where
  "token_index s = (if s = [] then None else token_index_loop 0 s)"

lemma path_token_shorter: "path_token rest = Some (tok, rest') \<Longrightarrow> length rest' < length rest"
  using length_dropWhile_le [of "\<lambda>c. c \<noteq> DOT" "tl rest"]
  by (cases rest) (auto simp: path_token_def Let_def split: if_splits)

definition json_member :: "json \<Rightarrow> bytes \<Rightarrow> json option" where
  "json_member cur tok =
     (case cur of
        J_OBJ ms \<Rightarrow> map_of ms tok
      | J_ARR xs \<Rightarrow>
          (case token_index tok of
             None \<Rightarrow> None
           | Some idx \<Rightarrow> if idx < length xs then Some (xs ! idx) else None)
      | _ \<Rightarrow> None)"

function json_lookup :: "json \<Rightarrow> bytes \<Rightarrow> json option" where
  "json_lookup cur rest =
     (case path_token rest of
        None \<Rightarrow> if rest = [] then Some cur else None
      | Some (tok, rest') \<Rightarrow>
          (case json_member cur tok of
             None \<Rightarrow> None
           | Some v \<Rightarrow> json_lookup v rest'))"
  by pat_completeness auto
termination
  by (relation "measure (\<lambda>(_, rest). length rest)") (auto dest: path_token_shorter)

declare json_lookup.simps [simp del]

text \<open>The scan of a path: at least one token, none empty, and at most four. \<open>first\<close> tells whether the
  character is the first of the path.\<close>

fun json_path_loop :: "bool \<Rightarrow> nat \<Rightarrow> bytes \<Rightarrow> bool" where
  "json_path_loop first tokens [] = True"
| "json_path_loop first tokens (c # cs) =
     (if c \<noteq> DOT then json_path_loop False tokens cs
      else if first \<or> cs = [] \<or> hd cs = DOT then False
      else if 4 < tokens + 1 then False
      else json_path_loop False (tokens + 1) cs)"

definition json_path_valid :: "bytes \<Rightarrow> bool" where
  "json_path_valid path \<longleftrightarrow> path \<noteq> [] \<and> json_path_loop True 1 path"

section \<open>Reading and lookups\<close>

definition read_json_slice :: "pb_lib \<Rightarrow> bytes \<Rightarrow> 'w eval_st \<Rightarrow> json option \<times> 'w eval_st" where
  "read_json_slice lib source s =
     (case yyjson_read lib source (ev_arena s) of (doc, arena) \<Rightarrow> (doc, s\<lparr>ev_arena := arena\<rparr>))"

fun json_scalar_value :: "pb_lib \<Rightarrow> json option \<Rightarrow> 'w eval_st \<Rightarrow> pb_eval_result \<times> 'w eval_st" where
  "json_scalar_value lib (Some (J_BOOL b)) s = (Inr (PB_BOOL b), s)"
| "json_scalar_value lib (Some (J_NUM d)) s = (Inr (PB_NUMBER d), s)"
| "json_scalar_value lib (Some (J_STR t)) s =
     (case arena_memdup lib t s of
        (None, s) \<Rightarrow> (Inl PB_EVAL_OOM, s)
      | (Some t, s) \<Rightarrow> (Inr (PB_STRING t), s))"
| "json_scalar_value lib _ s = (Inr PB_NIL, s)"

definition call_json_get :: "pb_lib \<Rightarrow> pb_value list \<Rightarrow> 'w ev" where
  "call_json_get lib args s =
     (case args of
        [p, t] \<Rightarrow>
          (case (as_string p, as_string t) of
             (Some path, Some payload) \<Rightarrow>
               if \<not> json_path_valid path then ev_fail PB_EVAL_TYPE s
               else (case read_json_slice lib payload s of
                 (None, s) \<Rightarrow> ev_nil s
               | (Some doc, s) \<Rightarrow> (case json_scalar_value lib (json_lookup doc path) s of (r, s) \<Rightarrow> ev_pure r s))
           | _ \<Rightarrow> ev_fail PB_EVAL_TYPE s)
      | _ \<Rightarrow> ev_fail PB_EVAL_ARITY s)"

section \<open>Demultiplexing\<close>

definition path_leaf :: "bytes \<Rightarrow> bytes" where
  "path_leaf path = rev (takeWhile (\<lambda>c. c \<noteq> DOT) (rev path))"

fun spec_text :: "pb_value \<Rightarrow> bytes option" where
  "spec_text (PB_STRING t) = Some t"
| "spec_text (PB_SYMBOL t) = Some t"
| "spec_text _ = None"

definition demux_override_spec :: "pb_value \<Rightarrow> (bytes \<times> bytes) option" where
  "demux_override_spec spec =
     (case spec of
        PB_VECTOR [a, b] \<Rightarrow> (case (spec_text a, spec_text b) of (Some p, Some t) \<Rightarrow> Some (p, t) | _ \<Rightarrow> None)
      | _ \<Rightarrow> None)"

definition demux_spec :: "pb_value \<Rightarrow> bool \<Rightarrow> (bytes \<times> bytes) option" where
  "demux_spec spec leaf =
     (case (case spec_text spec of
              Some t \<Rightarrow> Some (t, if leaf then path_leaf t else t)
            | None \<Rightarrow> demux_override_spec spec) of
        None \<Rightarrow> None
      | Some (path, sfx) \<Rightarrow> if json_path_valid path \<and> length sfx \<noteq> 0 then Some (path, sfx) else None)"

text \<open>The result is the error, if any.\<close>

definition publish_json_demux_one :: "pb_lib \<Rightarrow> 'w pb_eval_ctx \<Rightarrow> json \<Rightarrow> pb_value \<Rightarrow> bool \<Rightarrow> 'w eval_st
    \<Rightarrow> (pb_eval_error option \<times> 'w eval_st) option" where
  "publish_json_demux_one lib ctx doc spec leaf s =
     (case demux_spec spec leaf of
        None \<Rightarrow> Some (Some PB_EVAL_TYPE, s)
      | Some (path, sfx) \<Rightarrow>
          (case json_scalar_value lib (json_lookup doc path) s of
             (Inl err, s) \<Rightarrow> Some (Some err, s)
           | (Inr v, s) \<Rightarrow>
               if v = PB_NIL then Some (None, s)
               else let subject = cx_subject ctx @ DOT # sfx
                    in case arena_alloc lib (length subject) 1 s of
                         (False, s) \<Rightarrow> Some (Some PB_EVAL_OOM, s)
                       | (True, s) \<Rightarrow>
                           if \<not> publish_subject_valid subject then Some (Some PB_EVAL_INVALID_SUBJECT, s)
                           else (case payload_of lib v s of
                             (None, s) \<Rightarrow> Some (Some PB_EVAL_TYPE, s)
                           | (Some payload, s) \<Rightarrow>
                               do { (ok, s) \<leftarrow> do_publish ctx subject payload s;
                                    Some (if ok then None else Some PB_EVAL_PUBLISH_FAILED, s) })))"

fun demux_all :: "pb_lib \<Rightarrow> 'w pb_eval_ctx \<Rightarrow> json \<Rightarrow> bool \<Rightarrow> pb_value list \<Rightarrow> 'w ev" where
  "demux_all lib ctx doc leaf [] s = ev_nil s"
| "demux_all lib ctx doc leaf (spec # specs) s =
     do { (err, s) \<leftarrow> publish_json_demux_one lib ctx doc spec leaf s;
          case err of Some err \<Rightarrow> ev_fail err s | None \<Rightarrow> demux_all lib ctx doc leaf specs s }"

text \<open>The specs of a demux: those of a single vector that is not itself one, or the arguments.\<close>

definition demux_specs :: "pb_value list \<Rightarrow> pb_value list" where
  "demux_specs specs =
     (case specs of
        [PB_VECTOR vs] \<Rightarrow> if demux_override_spec (PB_VECTOR vs) = None then vs else specs
      | _ \<Rightarrow> specs)"

definition call_json_demux :: "pb_lib \<Rightarrow> 'w pb_eval_ctx \<Rightarrow> pb_value list \<Rightarrow> 'w ev" where
  "call_json_demux lib ctx args s =
     (if length args < 2 then ev_fail PB_EVAL_ARITY s
      else case as_string (last args) of
        None \<Rightarrow> ev_fail PB_EVAL_TYPE s
      | Some payload \<Rightarrow>
          (case (case hd args of
                   PB_KEYWORD t \<Rightarrow>
                     if \<not> pb_slice_eq_lit t ''leaf'' then Inl PB_EVAL_UNKNOWN_SYMBOL
                     else if length args \<le> 2 then Inl PB_EVAL_ARITY
                     else Inr (True, butlast (tl args))
                 | _ \<Rightarrow> Inr (False, butlast args)) of
             Inl err \<Rightarrow> ev_fail err s
           | Inr (leaf, specs) \<Rightarrow>
               (case read_json_slice lib payload s of
                  (None, s) \<Rightarrow> ev_nil s
                | (Some doc, s) \<Rightarrow> demux_all lib ctx doc leaf (demux_specs specs) s)))"

end
