(* ===== verification/Eval.thy ===== *)
theory Eval
  imports Forms_Clocks Forms_Json
begin

text \<open>
  The evaluator (\<open>src/src/patchbay/pb_eval.c\<close>, second half, and the dispatch of \<open>src/src/patchbay/pb_forms.c\<close>). The C
  functions call each other recursively on parts of the expression; \<open>pb_eval\<close> takes the depth of
  calls it may make, and \<open>None\<close> is a depth that was too small, a publish that does not return, or
  a step without a result in C.
\<close>

section \<open>The table of forms\<close>

datatype pb_form =
    PB_FORM_DO | PB_FORM_IF | PB_FORM_WHEN | PB_FORM_AND | PB_FORM_OR | PB_FORM_THREAD | PB_FORM_TRANSITION
  | PB_FORM_ON_SILENCE | PB_FORM_DROPOUT | PB_FORM_NOW | PB_FORM_NOT | PB_FORM_EQ | PB_FORM_GT | PB_FORM_LT | PB_FORM_GE
  | PB_FORM_LE | PB_FORM_ADD | PB_FORM_SUB | PB_FORM_MUL | PB_FORM_DIV | PB_FORM_STR_CONCAT | PB_FORM_CONTAINS
  | PB_FORM_STARTS_WITH | PB_FORM_ENDS_WITH | PB_FORM_SUBJECT_APPEND | PB_FORM_SUBJECT_TOKEN | PB_FORM_SUBJECT_WITH
  | PB_FORM_PRINT | PB_FORM_PUBLISH | PB_FORM_JSON_GET | PB_FORM_JSON_DEMUX | PB_FORM_ROUND | PB_FORM_QUANTIZE
  | PB_FORM_CLAMP | PB_FORM_MIN | PB_FORM_MAX | PB_FORM_ABS | PB_FORM_SIGN | PB_FORM_SQUELCH | PB_FORM_DEADBAND
  | PB_FORM_CHANGED | PB_FORM_HOLD_OFF | PB_FORM_RISING_EDGE | PB_FORM_FALLING_EDGE | PB_FORM_DELTA | PB_FORM_COUNT
  | PB_FORM_MOVING_AVG | PB_FORM_MOVING_SUM | PB_FORM_MOVING_MAX | PB_FORM_MOVING_MIN | PB_FORM_MEDIAN
  | PB_FORM_PERCENTILE | PB_FORM_STDDEV | PB_FORM_VARIANCE | PB_FORM_RATE | PB_FORM_THROTTLE | PB_FORM_DEBOUNCE
  | PB_FORM_SAMPLE | PB_FORM_AGGREGATE | PB_FORM_BAR

record pb_form_entry =
  fe_name :: bytes
  fe_form :: pb_form
  fe_special :: bool

definition FORMS :: "pb_form_entry list" where
  "FORMS =
     map (\<lambda>(n, f). \<lparr>fe_name = n, fe_form = f, fe_special = True\<rparr>)
       [(''do'', PB_FORM_DO), (''if'', PB_FORM_IF), (''when'', PB_FORM_WHEN), (''and'', PB_FORM_AND), (''or'', PB_FORM_OR),
        (''->'', PB_FORM_THREAD), (''transition'', PB_FORM_TRANSITION), (''on-silence'', PB_FORM_ON_SILENCE),
        (''dropout'', PB_FORM_DROPOUT)]
     @ map (\<lambda>(n, f). \<lparr>fe_name = n, fe_form = f, fe_special = False\<rparr>)
       [(''now'', PB_FORM_NOW), (''not'', PB_FORM_NOT), (''='', PB_FORM_EQ), (''>'', PB_FORM_GT), (''<'', PB_FORM_LT),
        (''>='', PB_FORM_GE), (''<='', PB_FORM_LE), (''+'', PB_FORM_ADD), (''-'', PB_FORM_SUB), (''*'', PB_FORM_MUL),
        (''/'', PB_FORM_DIV), (''round'', PB_FORM_ROUND), (''quantize'', PB_FORM_QUANTIZE), (''clamp'', PB_FORM_CLAMP),
        (''min'', PB_FORM_MIN), (''max'', PB_FORM_MAX), (''abs'', PB_FORM_ABS), (''sign'', PB_FORM_SIGN),
        (''str-concat'', PB_FORM_STR_CONCAT), (''contains?'', PB_FORM_CONTAINS), (''starts-with?'', PB_FORM_STARTS_WITH),
        (''ends-with?'', PB_FORM_ENDS_WITH), (''subject-append'', PB_FORM_SUBJECT_APPEND),
        (''subject-token'', PB_FORM_SUBJECT_TOKEN), (''subject-with'', PB_FORM_SUBJECT_WITH), (''print!'', PB_FORM_PRINT),
        (''publish!'', PB_FORM_PUBLISH), (''publish'', PB_FORM_PUBLISH), (''publish-to!'', PB_FORM_PUBLISH),
        (''publish-to'', PB_FORM_PUBLISH),
        (''json-get'', PB_FORM_JSON_GET), (''json-demux!'', PB_FORM_JSON_DEMUX), (''json-demux'', PB_FORM_JSON_DEMUX),
        (''squelch'', PB_FORM_SQUELCH), (''deadband'', PB_FORM_DEADBAND), (''changed?'', PB_FORM_CHANGED),
        (''hold-off'', PB_FORM_HOLD_OFF), (''rising-edge'', PB_FORM_RISING_EDGE), (''falling-edge'', PB_FORM_FALLING_EDGE),
        (''delta'', PB_FORM_DELTA), (''count!'', PB_FORM_COUNT), (''count'', PB_FORM_COUNT),
        (''moving-avg'', PB_FORM_MOVING_AVG), (''moving-sum'', PB_FORM_MOVING_SUM), (''moving-max'', PB_FORM_MOVING_MAX),
        (''moving-min'', PB_FORM_MOVING_MIN), (''median'', PB_FORM_MEDIAN), (''percentile'', PB_FORM_PERCENTILE),
        (''stddev'', PB_FORM_STDDEV), (''variance'', PB_FORM_VARIANCE), (''rate'', PB_FORM_RATE),
        (''throttle'', PB_FORM_THROTTLE),
        (''debounce!'', PB_FORM_DEBOUNCE), (''sample!'', PB_FORM_SAMPLE), (''aggregate!'', PB_FORM_AGGREGATE),
        (''bar!'', PB_FORM_BAR), (''bar'', PB_FORM_BAR)]"

definition find_form :: "bytes \<Rightarrow> pb_form_entry option" where
  "find_form name = find (\<lambda>e. pb_slice_eq_lit name (fe_name e)) FORMS"

section \<open>Dispatch of the eager forms\<close>

definition call_window_form :: "pb_lib \<Rightarrow> 'w pb_eval_ctx \<Rightarrow> pb_form \<Rightarrow> pb_value list \<Rightarrow> 'w ev" where
  "call_window_form lib ctx form args =
     (case form of
        PB_FORM_MOVING_AVG \<Rightarrow> call_window_calc lib ctx args ''moving-avg'' WINDOW_AVG
      | PB_FORM_MOVING_SUM \<Rightarrow> call_window_calc lib ctx args ''moving-sum'' WINDOW_SUM
      | PB_FORM_MOVING_MAX \<Rightarrow> call_window_calc lib ctx args ''moving-max'' WINDOW_MAX
      | PB_FORM_MOVING_MIN \<Rightarrow> call_window_calc lib ctx args ''moving-min'' WINDOW_MIN
      | PB_FORM_MEDIAN \<Rightarrow> call_percentile lib ctx args True
      | PB_FORM_PERCENTILE \<Rightarrow> call_percentile lib ctx args False
      | PB_FORM_STDDEV \<Rightarrow> call_window_calc lib ctx args ''stddev'' WINDOW_STDDEV
      | PB_FORM_VARIANCE \<Rightarrow> call_window_calc lib ctx args ''variance'' WINDOW_VARIANCE
      | PB_FORM_RATE \<Rightarrow> call_rate lib ctx args
      | PB_FORM_THROTTLE \<Rightarrow> call_throttle lib ctx args
      | _ \<Rightarrow> ev_fail PB_EVAL_UNKNOWN_SYMBOL)"

definition call_clock_form :: "pb_lib \<Rightarrow> 'w pb_eval_ctx \<Rightarrow> pb_form \<Rightarrow> pb_value list \<Rightarrow> 'w ev" where
  "call_clock_form lib ctx form args =
     (case form of
        PB_FORM_DEBOUNCE \<Rightarrow> call_debounce lib ctx args
      | PB_FORM_SAMPLE \<Rightarrow> call_sample lib ctx args
      | PB_FORM_AGGREGATE \<Rightarrow> call_aggregate lib ctx args
      | _ \<Rightarrow> ev_fail PB_EVAL_UNKNOWN_SYMBOL)"

definition pb_eval_call_form :: "pb_lib \<Rightarrow> 'w pb_eval_ctx \<Rightarrow> pb_form \<Rightarrow> pb_value list \<Rightarrow> 'w ev" where
  "pb_eval_call_form lib ctx form args =
     (case form of
        PB_FORM_NOW \<Rightarrow> call_now lib ctx args
      | PB_FORM_NOT \<Rightarrow> ev_pure (call_not args)
      | PB_FORM_EQ \<Rightarrow> ev_pure (call_eq args)
      | PB_FORM_GT \<Rightarrow> ev_pure (call_cmp args CMP_GT)
      | PB_FORM_LT \<Rightarrow> ev_pure (call_cmp args CMP_LT)
      | PB_FORM_GE \<Rightarrow> ev_pure (call_cmp args CMP_GE)
      | PB_FORM_LE \<Rightarrow> ev_pure (call_cmp args CMP_LE)
      | PB_FORM_ADD \<Rightarrow> ev_pure (call_arith args ARITH_ADD)
      | PB_FORM_SUB \<Rightarrow> ev_pure (call_arith args ARITH_SUB)
      | PB_FORM_MUL \<Rightarrow> ev_pure (call_arith args ARITH_MUL)
      | PB_FORM_DIV \<Rightarrow> ev_pure (call_arith args ARITH_DIV)
      | PB_FORM_ROUND \<Rightarrow> ev_pure (call_round args)
      | PB_FORM_QUANTIZE \<Rightarrow> ev_pure (call_quantize args)
      | PB_FORM_CLAMP \<Rightarrow> ev_pure (call_clamp args)
      | PB_FORM_MIN \<Rightarrow> ev_pure (call_minmax args MINMAX_MIN)
      | PB_FORM_MAX \<Rightarrow> ev_pure (call_minmax args MINMAX_MAX)
      | PB_FORM_ABS \<Rightarrow> ev_pure (call_abs args)
      | PB_FORM_SIGN \<Rightarrow> ev_pure (call_sign args)
      | PB_FORM_STR_CONCAT \<Rightarrow> call_str_concat lib args
      | PB_FORM_CONTAINS \<Rightarrow> ev_pure (call_contains args)
      | PB_FORM_STARTS_WITH \<Rightarrow> ev_pure (call_affix args AFFIX_STARTS)
      | PB_FORM_ENDS_WITH \<Rightarrow> ev_pure (call_affix args AFFIX_ENDS)
      | PB_FORM_SUBJECT_APPEND \<Rightarrow> call_subject_append lib ctx args
      | PB_FORM_SUBJECT_TOKEN \<Rightarrow> ev_pure (call_subject_token lib ctx args)
      | PB_FORM_SUBJECT_WITH \<Rightarrow> call_subject_with lib args
      | PB_FORM_PRINT \<Rightarrow> call_print ctx args
      | PB_FORM_PUBLISH \<Rightarrow> call_publish lib ctx args
      | PB_FORM_JSON_GET \<Rightarrow> call_json_get lib args
      | PB_FORM_JSON_DEMUX \<Rightarrow> call_json_demux lib ctx args
      | PB_FORM_SQUELCH \<Rightarrow> call_squelch lib ctx args
      | PB_FORM_DEADBAND \<Rightarrow> call_deadband lib ctx args
      | PB_FORM_CHANGED \<Rightarrow> call_changed lib ctx args
      | PB_FORM_HOLD_OFF \<Rightarrow> call_hold_off lib ctx args
      | PB_FORM_RISING_EDGE \<Rightarrow> call_edge lib ctx args True
      | PB_FORM_FALLING_EDGE \<Rightarrow> call_edge lib ctx args False
      | PB_FORM_DELTA \<Rightarrow> call_delta lib ctx args
      | PB_FORM_COUNT \<Rightarrow> call_count lib ctx args
      | PB_FORM_MOVING_AVG \<Rightarrow> call_window_form lib ctx form args
      | PB_FORM_MOVING_SUM \<Rightarrow> call_window_form lib ctx form args
      | PB_FORM_MOVING_MAX \<Rightarrow> call_window_form lib ctx form args
      | PB_FORM_MOVING_MIN \<Rightarrow> call_window_form lib ctx form args
      | PB_FORM_MEDIAN \<Rightarrow> call_window_form lib ctx form args
      | PB_FORM_PERCENTILE \<Rightarrow> call_window_form lib ctx form args
      | PB_FORM_STDDEV \<Rightarrow> call_window_form lib ctx form args
      | PB_FORM_VARIANCE \<Rightarrow> call_window_form lib ctx form args
      | PB_FORM_RATE \<Rightarrow> call_window_form lib ctx form args
      | PB_FORM_THROTTLE \<Rightarrow> call_window_form lib ctx form args
      | PB_FORM_DEBOUNCE \<Rightarrow> call_clock_form lib ctx form args
      | PB_FORM_SAMPLE \<Rightarrow> call_clock_form lib ctx form args
      | PB_FORM_AGGREGATE \<Rightarrow> call_clock_form lib ctx form args
      | PB_FORM_BAR \<Rightarrow> call_bar lib ctx args
      | _ \<Rightarrow> ev_fail PB_EVAL_UNKNOWN_SYMBOL)"

section \<open>Special forms\<close>

text \<open>Each takes the evaluator of its subexpressions.\<close>

definition eval_symbol :: "'w pb_eval_ctx \<Rightarrow> bytes \<Rightarrow> 'w ev" where
  "eval_symbol ctx name s =
     (if pb_slice_eq_lit name ''subject'' then ev_ok (PB_STRING (cx_subject ctx)) s
      else if pb_slice_eq_lit name ''payload'' then ev_ok (PB_STRING (cx_payload ctx)) s
      else if pb_slice_eq_lit name ''replaying?'' then ev_ok (PB_BOOL (cx_replaying ctx)) s
      else if pb_slice_eq_lit name ''payload-float'' \<or> pb_slice_eq_lit name ''payload-int'' then
        (case as_number (PB_STRING (cx_payload ctx)) of
           None \<Rightarrow> ev_fail PB_EVAL_TYPE s
         | Some n \<Rightarrow>
             if pb_slice_eq_lit name ''payload-int'' \<and> \<not> d_whole n then ev_fail PB_EVAL_TYPE s
             else ev_ok (PB_NUMBER n) s)
      else case cx_user_symbol ctx of
        None \<Rightarrow> ev_fail PB_EVAL_UNKNOWN_SYMBOL s
      | Some f \<Rightarrow>
          do { (r, s) \<leftarrow> f name s;
               case r of Some r \<Rightarrow> ev_pure r s | None \<Rightarrow> ev_fail PB_EVAL_UNKNOWN_SYMBOL s })"

fun eval_items :: "'w evaluator \<Rightarrow> 'w pb_eval_ctx \<Rightarrow> pb_value list \<Rightarrow> 'w eval_st \<Rightarrow> ((pb_eval_error + pb_value list) \<times> 'w eval_st) option" where
  "eval_items eval ctx [] s = Some (Inr [], s)"
| "eval_items eval ctx (e # es) s =
     do { (r, s) \<leftarrow> eval ctx e s;
          case r of
            Inl err \<Rightarrow> Some (Inl err, s)
          | Inr v \<Rightarrow> do { (rs, s) \<leftarrow> eval_items eval ctx es s; Some (map_sum id (Cons v) rs, s) } }"

text \<open>The array of the values is allocated before they are computed.\<close>

definition eval_args :: "'w evaluator \<Rightarrow> pb_lib \<Rightarrow> 'w pb_eval_ctx \<Rightarrow> pb_value list \<Rightarrow> 'w eval_st \<Rightarrow> ((pb_eval_error + pb_value list) \<times> 'w eval_st) option" where
  "eval_args eval lib ctx raw s =
     (case arena_alloc lib (length raw * PB_VALUE_SIZE) PB_VALUE_ALIGN s of
        (ok, s) \<Rightarrow> if \<not> ok \<and> raw \<noteq> [] then Some (Inl PB_EVAL_OOM, s) else eval_items eval ctx raw s)"

definition eval_do :: "'w evaluator \<Rightarrow> 'w pb_eval_ctx \<Rightarrow> pb_value list \<Rightarrow> 'w ev" where
  "eval_do eval ctx args = eval_body eval ctx PB_NIL args"

definition eval_if :: "'w evaluator \<Rightarrow> 'w pb_eval_ctx \<Rightarrow> pb_value list \<Rightarrow> 'w ev" where
  "eval_if eval ctx args s =
     (if length args \<noteq> 2 \<and> length args \<noteq> 3 then ev_fail PB_EVAL_ARITY s
      else do { (c, s) \<leftarrow> eval ctx (args ! 0) s;
                case c of
                  Inl err \<Rightarrow> ev_fail err s
                | Inr v \<Rightarrow> if truthy v then eval ctx (args ! 1) s
                           else if length args = 3 then eval ctx (args ! 2) s
                           else ev_nil s })"

definition eval_when :: "'w evaluator \<Rightarrow> 'w pb_eval_ctx \<Rightarrow> pb_value list \<Rightarrow> 'w ev" where
  "eval_when eval ctx args s =
     (case args of
        [] \<Rightarrow> ev_fail PB_EVAL_ARITY s
      | c # body \<Rightarrow>
          do { (r, s) \<leftarrow> eval ctx c s;
               case r of
                 Inl err \<Rightarrow> ev_fail err s
               | Inr v \<Rightarrow> if truthy v then eval_do eval ctx body s else ev_nil s })"

fun eval_and :: "'w evaluator \<Rightarrow> 'w pb_eval_ctx \<Rightarrow> pb_value \<Rightarrow> pb_value list \<Rightarrow> 'w ev" where
  "eval_and eval ctx last_v [] s = ev_ok last_v s"
| "eval_and eval ctx last_v (e # es) s =
     do { (r, s) \<leftarrow> eval ctx e s;
          case r of
            Inl err \<Rightarrow> ev_fail err s
          | Inr v \<Rightarrow> if truthy v then eval_and eval ctx v es s else ev_ok v s }"

fun eval_or :: "'w evaluator \<Rightarrow> 'w pb_eval_ctx \<Rightarrow> pb_value list \<Rightarrow> 'w ev" where
  "eval_or eval ctx [] s = ev_nil s"
| "eval_or eval ctx (e # es) s =
     do { (r, s) \<leftarrow> eval ctx e s;
          case r of
            Inl err \<Rightarrow> ev_fail err s
          | Inr v \<Rightarrow> if truthy v then ev_ok v s else eval_or eval ctx es s }"

definition eval_call_with_threaded :: "('w pb_eval_ctx \<Rightarrow> pb_value list \<Rightarrow> 'w ev) \<Rightarrow> pb_lib \<Rightarrow> 'w pb_eval_ctx \<Rightarrow> pb_value \<Rightarrow> pb_value \<Rightarrow> 'w ev" where
  "eval_call_with_threaded call lib ctx form threaded s =
     (case form of
        PB_SYMBOL t \<Rightarrow> call ctx [form, threaded] s
      | PB_LIST items \<Rightarrow>
          if items = [] \<or> \<not> is_symbol (hd items) then ev_fail PB_EVAL_TYPE s
          else (case arena_alloc lib ((length items + 1) * PB_VALUE_SIZE) PB_VALUE_ALIGN s of
                  (False, s) \<Rightarrow> ev_fail PB_EVAL_OOM s
                | (True, s) \<Rightarrow> call ctx (items @ [threaded]) s)
      | _ \<Rightarrow> ev_fail PB_EVAL_TYPE s)"

text \<open>The steps of a thread after its first expression; a \<open>nil\<close> ends it.\<close>

fun eval_thread_steps :: "('w pb_eval_ctx \<Rightarrow> pb_value list \<Rightarrow> 'w ev) \<Rightarrow> pb_lib \<Rightarrow> 'w pb_eval_ctx \<Rightarrow> pb_value \<Rightarrow> pb_value list \<Rightarrow> 'w ev" where
  "eval_thread_steps call lib ctx cur [] s = ev_ok cur s"
| "eval_thread_steps call lib ctx cur (form # forms) s =
     (if cur = PB_NIL then ev_ok cur s
      else do { (r, s) \<leftarrow> eval_call_with_threaded call lib ctx form cur s;
                case r of Inl err \<Rightarrow> ev_fail err s | Inr v \<Rightarrow> eval_thread_steps call lib ctx v forms s })"

definition eval_thread :: "'w evaluator \<Rightarrow> ('w pb_eval_ctx \<Rightarrow> pb_value list \<Rightarrow> 'w ev) \<Rightarrow> pb_lib \<Rightarrow> 'w pb_eval_ctx \<Rightarrow> pb_value list \<Rightarrow> 'w ev" where
  "eval_thread eval call lib ctx args s =
     (case args of
        [] \<Rightarrow> ev_fail PB_EVAL_ARITY s
      | e # forms \<Rightarrow>
          do { (r, s) \<leftarrow> eval ctx e s;
               case r of Inl err \<Rightarrow> ev_fail err s | Inr v \<Rightarrow> eval_thread_steps call lib ctx v forms s })"

definition eval_transition :: "'w evaluator \<Rightarrow> pb_lib \<Rightarrow> 'w pb_eval_ctx \<Rightarrow> pb_value list \<Rightarrow> 'w ev" where
  "eval_transition eval lib ctx args s =
     (if length args \<noteq> 3 then ev_fail PB_EVAL_ARITY s
      else do { (c, s) \<leftarrow> eval ctx (args ! 0) s;
                case c of
                  Inl err \<Rightarrow> ev_fail err s
                | Inr v \<Rightarrow>
                    let cur = truthy v
                    in with_slot lib ctx ''transition'' (\<lambda>i slot s.
                         if se_kind slot = PB_EVAL_STATE_EMPTY
                         then ev_nil (note_suppressed ctx (put_slot ctx i (slot\<lparr>se_kind := PB_EVAL_STATE_NUMBER, se_number := d_of_bool cur\<rparr>) s))
                         else if se_kind slot \<noteq> PB_EVAL_STATE_NUMBER then ev_fail PB_EVAL_TYPE s
                         else let prev = (\<not> d_eq (se_number slot) (D_ZERO False));
                                  s = put_slot ctx i (slot\<lparr>se_number := d_of_bool cur\<rparr>) s
                              in if \<not> prev \<and> cur then eval ctx (args ! 1) s
                                 else if prev \<and> \<not> cur then eval ctx (args ! 2) s
                                 else ev_nil (note_suppressed ctx s)) s })"

section \<open>The evaluator\<close>

text \<open>The head of a call: every list the parser, the threads and the front ends build starts with a symbol.\<close>

definition head_text :: "pb_value list \<Rightarrow> bytes" where
  "head_text call = (case call of PB_SYMBOL t # _ \<Rightarrow> t | _ \<Rightarrow> [])"

definition eval_special :: "'w evaluator \<Rightarrow> ('w pb_eval_ctx \<Rightarrow> pb_value list \<Rightarrow> 'w ev) \<Rightarrow> pb_lib \<Rightarrow> 'w pb_eval_ctx \<Rightarrow> pb_form \<Rightarrow> pb_value list \<Rightarrow> 'w ev" where
  "eval_special eval call lib ctx form raw_args =
     (case form of
        PB_FORM_DO \<Rightarrow> eval_do eval ctx raw_args
      | PB_FORM_IF \<Rightarrow> eval_if eval ctx raw_args
      | PB_FORM_WHEN \<Rightarrow> eval_when eval ctx raw_args
      | PB_FORM_AND \<Rightarrow> eval_and eval ctx (PB_BOOL True) raw_args
      | PB_FORM_OR \<Rightarrow> eval_or eval ctx raw_args
      | PB_FORM_THREAD \<Rightarrow> eval_thread eval call lib ctx raw_args
      | PB_FORM_TRANSITION \<Rightarrow> eval_transition eval lib ctx raw_args
      | PB_FORM_ON_SILENCE \<Rightarrow> pb_eval_call_on_silence eval lib ctx raw_args
      | PB_FORM_DROPOUT \<Rightarrow> pb_eval_call_dropout eval lib ctx raw_args
      | _ \<Rightarrow> ev_fail PB_EVAL_UNKNOWN_SYMBOL)"

definition eval_list_body :: "'w evaluator \<Rightarrow> ('w pb_eval_ctx \<Rightarrow> pb_value list \<Rightarrow> 'w ev) \<Rightarrow> pb_lib \<Rightarrow> 'w pb_eval_ctx \<Rightarrow> pb_value list \<Rightarrow> 'w ev" where
  "eval_list_body eval call lib ctx items s =
     (let head = head_text items; raw_args = tl items
      in case find_form head of
           None \<Rightarrow>
             (case cx_user_call ctx of
                None \<Rightarrow> ev_fail PB_EVAL_UNKNOWN_SYMBOL s
              | Some f \<Rightarrow>
                  do { (args, s) \<leftarrow> eval_args eval lib ctx raw_args s;
                       case args of
                         Inl err \<Rightarrow> ev_fail err s
                       | Inr args \<Rightarrow>
                           do { (r, s) \<leftarrow> f head args s;
                                case r of Some r \<Rightarrow> ev_pure r s | None \<Rightarrow> ev_fail PB_EVAL_UNKNOWN_SYMBOL s } })
         | Some entry \<Rightarrow>
             if fe_special entry then eval_special eval call lib ctx (fe_form entry) raw_args s
             else do { (args, s) \<leftarrow> eval_args eval lib ctx raw_args s;
                       case args of
                         Inl err \<Rightarrow> ev_fail err s
                       | Inr args \<Rightarrow> pb_eval_call_form lib ctx (fe_form entry) args s })"

definition eval_value_body :: "'w evaluator \<Rightarrow> ('w pb_eval_ctx \<Rightarrow> pb_value list \<Rightarrow> 'w ev) \<Rightarrow> pb_lib \<Rightarrow> 'w pb_eval_ctx \<Rightarrow> pb_value \<Rightarrow> 'w ev" where
  "eval_value_body eval call lib ctx e s =
     (case e of
        PB_SYMBOL name \<Rightarrow> eval_symbol ctx name s
      | PB_VECTOR es \<Rightarrow>
          do { (vs, s) \<leftarrow> eval_args eval lib ctx es s;
               case vs of Inl err \<Rightarrow> ev_fail err s | Inr vs \<Rightarrow> ev_ok (PB_VECTOR vs) s }
      | PB_LIST items \<Rightarrow> call ctx items s
      | _ \<Rightarrow> ev_ok e s)"

fun pb_eval :: "nat \<Rightarrow> pb_lib \<Rightarrow> 'w evaluator"
  and eval_list :: "nat \<Rightarrow> pb_lib \<Rightarrow> 'w pb_eval_ctx \<Rightarrow> pb_value list \<Rightarrow> 'w ev" where
  "pb_eval 0 lib = (\<lambda>ctx e s. None)"
| "pb_eval (Suc n) lib = eval_value_body (pb_eval n lib) (eval_list n lib) lib"
| "eval_list 0 lib = (\<lambda>ctx items s. None)"
| "eval_list (Suc n) lib = eval_list_body (pb_eval n lib) (eval_list n lib) lib"

section \<open>Ticks\<close>

definition pb_eval_tick_state_entry :: "nat \<Rightarrow> pb_lib \<Rightarrow> 'w pb_eval_ctx \<Rightarrow> nat \<Rightarrow> 'w ev" where
  "pb_eval_tick_state_entry n lib ctx i s =
     (let entry = slot_at ctx i s
      in if se_kind entry = PB_EVAL_STATE_CLOCK then tick_clock_state_entry (pb_eval n lib) lib ctx i s
         else do { entry \<leftarrow> (if se_kind entry = PB_EVAL_STATE_RING \<and> ring_time_window entry \<and> 0 < ring_len entry
                             then ring_evict_time entry (window_cutoff (cx_now_ms ctx) (ring_window_ms entry)) else Some entry);
                   case bar_time_tick entry (cx_now_ms ctx) of
                     (None, entry) \<Rightarrow> ev_nil (put_slot ctx i entry s)
                   | (Some c, entry) \<Rightarrow> emit_bar_fields lib ctx c (put_slot ctx i entry s) })"

fun pb_eval_error_name :: "pb_eval_error option \<Rightarrow> bytes" where
  "pb_eval_error_name None = ''ok''"
| "pb_eval_error_name (Some PB_EVAL_OOM) = ''out of memory''"
| "pb_eval_error_name (Some PB_EVAL_UNKNOWN_SYMBOL) = ''unknown symbol''"
| "pb_eval_error_name (Some PB_EVAL_TYPE) = ''type mismatch''"
| "pb_eval_error_name (Some PB_EVAL_ARITY) = ''arity mismatch''"
| "pb_eval_error_name (Some PB_EVAL_INVALID_SUBJECT) = ''invalid subject''"
| "pb_eval_error_name (Some PB_EVAL_PUBLISH_FAILED) = ''publish failed''"

end
