(* ===== verification/Program.thy ===== *)
theory Program
  imports Eval Router_Publish
begin

text \<open>
  The patchbay program at run time (\<open>src/src/patchbay/pb_program.c\<close>): the index of the rules by the first
  token of their filters, the evaluation of the rules on a publish with the publishes they make,
  the ticks and the next deadline.
\<close>

section \<open>The program\<close>

record pb_rule =
  rl_filter :: bytes
  rl_body :: pb_value
  rl_emitted :: u64
  rl_suppressed :: u64
  rl_reentrant :: bool
  rl_state :: pb_eval_state

text \<open>A growable array of rule numbers: its items and its capacity.\<close>

type_synonym pb_rule_ref_list = "nat list \<times> nat"

record pb_rule_bucket =
  rb_key :: bytes
  rb_rules :: pb_rule_ref_list

text \<open>The settings of a remote NATS server; a \<open>has_\<close> flag and its field are one optional field.\<close>

record pb_bridge_config =
  br_servers :: "bytes list \<times> nat"
  br_exports :: "bytes list \<times> nat"
  br_name :: "bytes option"
  br_creds :: "bytes option"
  br_user :: "bytes option"
  br_password :: "bytes option"
  br_token :: "bytes option"
  br_tls_ca :: "bytes option"
  br_tls_cert :: "bytes option"
  br_tls_key :: "bytes option"
  br_connect_timeout_ms :: "int option"
  br_ping_interval_ms :: "int option"
  br_reconnect_wait_ms :: "int option"
  br_max_reconnect :: "int option"
  br_tls :: bool
  br_tls_skip_verify :: bool
  br_origin_header :: bool
  br_replay_header :: bool

record pb_import_config =
  im_servers :: "bytes list \<times> nat"
  im_subjects :: "bytes list \<times> nat"
  im_name :: "bytes option"
  im_creds :: "bytes option"
  im_user :: "bytes option"
  im_password :: "bytes option"
  im_token :: "bytes option"
  im_tls_ca :: "bytes option"
  im_tls_cert :: "bytes option"
  im_tls_key :: "bytes option"
  im_connect_timeout_ms :: "int option"
  im_ping_interval_ms :: "int option"
  im_reconnect_wait_ms :: "int option"
  im_max_reconnect :: "int option"
  im_max_pending :: "nat option"
  im_tls :: bool
  im_tls_skip_verify :: bool
  im_origin_header :: bool

record pb_import_stream_config =
  is_source :: pb_import_config
  is_stream :: "bytes option"
  is_consumer :: "bytes option"
  is_catch_up :: bool
  is_has_catch_up :: bool

record pb_imports_config =
  ic_cores :: "pb_import_config list \<times> nat"
  ic_streams :: "pb_import_stream_config list \<times> nat"

text \<open>The pointers to the user hooks are parameters of the evaluation; \<open>None\<close> is a form that is not present.\<close>

record pb_program =
  pg_parse_arena :: pb_arena
  pg_scratch :: pb_arena
  pg_rules :: "pb_rule list"
  pg_rules_cap :: nat
  pg_buckets :: "pb_rule_bucket list"
  pg_bucket_cap :: nat
  pg_global :: pb_rule_ref_list
  pg_lvc :: "bytes list \<times> nat"
  pg_bridge :: "pb_bridge_config option"
  pg_importer :: "pb_imports_config option"
  pg_uses_wall_clock :: bool
  pg_uses_clock_timer :: bool
  pg_eval_depth :: nat

definition program_zero :: pb_program where
  "program_zero = \<lparr>pg_parse_arena = [], pg_scratch = [], pg_rules = [], pg_rules_cap = 0, pg_buckets = [], pg_bucket_cap = 0,
     pg_global = ([], 0), pg_lvc = ([], 0), pg_bridge = None, pg_importer = None, pg_uses_wall_clock = False,
     pg_uses_clock_timer = False, pg_eval_depth = 0\<rparr>"

definition PB_PROGRAM_MAX_REENTRY_DEPTH :: nat where "PB_PROGRAM_MAX_REENTRY_DEPTH = 8"
definition PB_PROGRAM_SCRATCH_RETAIN_BYTES :: nat where "PB_PROGRAM_SCRATCH_RETAIN_BYTES = 4 * 1024 * 1024"

definition reset_scratch :: "pb_program \<Rightarrow> pb_program" where
  "reset_scratch p = p\<lparr>pg_scratch := pb_arena_trim (pb_arena_reset (pg_scratch p)) PB_PROGRAM_SCRATCH_RETAIN_BYTES\<rparr>"

definition slice_match :: "bytes \<Rightarrow> bytes \<Rightarrow> bool" where
  "slice_match flt subject = mb_router_subject_matches flt subject"

section \<open>The index of the rules\<close>

definition first_subject_token :: "bytes \<Rightarrow> bytes option" where
  "first_subject_token s = (let tok = takeWhile (\<lambda>c. c \<noteq> CHR ''.'') s in if tok = [] then None else Some tok)"

definition wildcard_token :: "bytes \<Rightarrow> bool" where
  "wildcard_token tok \<longleftrightarrow> length tok = 1 \<and> (hd tok = CHR ''*'' \<or> hd tok = CHR ''>'')"

definition rule_ref_append :: "allocator \<Rightarrow> pb_rule_ref_list \<Rightarrow> nat \<Rightarrow> pb_rule_ref_list option" where
  "rule_ref_append am refs rule_idx =
     (case mb_array_reserve am (snd refs) (length (fst refs) + 1) 8 8 of
        None \<Rightarrow> None
      | Some cap \<Rightarrow> Some (fst refs @ [rule_idx], cap))"

text \<open>\<open>sizeof (pb_rule_bucket)\<close>.\<close>

definition RULE_BUCKET_SIZE :: nat where "RULE_BUCKET_SIZE = 40"

definition rule_bucket :: "allocator \<Rightarrow> pb_program \<Rightarrow> bytes \<Rightarrow> nat option \<times> pb_program" where
  "rule_bucket am p key =
     (let i = length (takeWhile (\<lambda>b. \<not> pb_slice_eq (rb_key b) key) (pg_buckets p))
      in if i < length (pg_buckets p) then (Some i, p)
         else case mb_array_reserve am (pg_bucket_cap p) (length (pg_buckets p) + 1) RULE_BUCKET_SIZE 8 of
           None \<Rightarrow> (None, p)
         | Some cap \<Rightarrow> (Some i, p\<lparr>pg_buckets := pg_buckets p @ [\<lparr>rb_key = key, rb_rules = ([], 0)\<rparr>], pg_bucket_cap := cap\<rparr>))"

definition rule_index_free :: "pb_program \<Rightarrow> pb_program" where
  "rule_index_free p = p\<lparr>pg_buckets := [], pg_bucket_cap := 0, pg_global := ([], 0)\<rparr>"

definition index_rule :: "allocator \<Rightarrow> pb_program \<Rightarrow> nat \<Rightarrow> bool \<times> pb_program" where
  "index_rule am p i =
     (case first_subject_token (rl_filter (pg_rules p ! i)) of
        Some first \<Rightarrow>
          if wildcard_token first then
            (case rule_ref_append am (pg_global p) i of None \<Rightarrow> (False, p) | Some g \<Rightarrow> (True, p\<lparr>pg_global := g\<rparr>))
          else
            (case rule_bucket am p first of
               (None, p) \<Rightarrow> (False, p)
             | (Some b, p) \<Rightarrow>
                 (case rule_ref_append am (rb_rules (pg_buckets p ! b)) i of
                    None \<Rightarrow> (False, p)
                  | Some refs \<Rightarrow> (True, p\<lparr>pg_buckets := (pg_buckets p)[b := (pg_buckets p ! b)\<lparr>rb_rules := refs\<rparr>]\<rparr>)))
      | None \<Rightarrow> (case rule_ref_append am (pg_global p) i of None \<Rightarrow> (False, p) | Some g \<Rightarrow> (True, p\<lparr>pg_global := g\<rparr>)))"

fun index_rules :: "allocator \<Rightarrow> nat list \<Rightarrow> pb_program \<Rightarrow> bool \<times> pb_program" where
  "index_rules am [] p = (True, p)"
| "index_rules am (i # is) p = (case index_rule am p i of (False, p) \<Rightarrow> (False, p) | (True, p) \<Rightarrow> index_rules am is p)"

definition build_rule_index :: "allocator \<Rightarrow> pb_program \<Rightarrow> bool \<times> pb_program" where
  "build_rule_index am p = index_rules am [0..<length (pg_rules p)] (rule_index_free p)"

definition rule_refs_for_subject :: "pb_program \<Rightarrow> bytes \<Rightarrow> nat list" where
  "rule_refs_for_subject p subject =
     (case first_subject_token subject of
        None \<Rightarrow> []
      | Some first \<Rightarrow>
          (case find (\<lambda>b. pb_slice_eq (rb_key b) first) (pg_buckets p) of
             None \<Rightarrow> []
           | Some b \<Rightarrow> fst (rb_rules b)))"

section \<open>Evaluation on a publish\<close>

text \<open>
  An evaluation runs on the scratch arena, the slots and the counters of the rules, and the router
  with the rest of the server. The emitted counters and the router are the world of the evaluator.
\<close>

record 'w prog_world =
  pw_emitted :: "nat \<Rightarrow> u64"
  pw_world :: "'w world"

type_synonym 'w run = "'w prog_world eval_st"

definition enter_program :: "pb_program \<Rightarrow> 'w world \<Rightarrow> 'w run" where
  "enter_program p w =
     \<lparr>ev_arena = pg_scratch p, ev_states = (\<lambda>i. rl_state (pg_rules p ! i)),
      ev_suppressed = (\<lambda>i. rl_suppressed (pg_rules p ! i)), ev_stderr = [],
      ev_world = \<lparr>pw_emitted = (\<lambda>i. rl_emitted (pg_rules p ! i)), pw_world = w\<rparr>\<rparr>"

definition leave_program :: "pb_program \<Rightarrow> 'w run \<Rightarrow> pb_program" where
  "leave_program p s =
     p\<lparr>pg_scratch := ev_arena s,
       pg_rules := map (\<lambda>i. (pg_rules p ! i)\<lparr>rl_state := ev_states s i, rl_suppressed := ev_suppressed s i,
                                             rl_emitted := pw_emitted (ev_world s) i\<rparr>) [0..<length (pg_rules p)]\<rparr>"

text \<open>
  What the program calls: the libraries of the evaluator, the allocator and the callbacks of the
  router, and the user hooks. \<open>ho_fuel\<close> bounds the depth of the calls of \<open>pb_eval\<close> and the length of
  the loops over slots that can grow.
\<close>

record 'w pb_host =
  ho_lib :: pb_lib
  ho_router :: allocator
  ho_cb :: "'w router_callbacks"
  ho_user_symbol :: "(bytes \<Rightarrow> 'w run \<Rightarrow> (pb_eval_result option \<times> 'w run) option) option"
  ho_user_call :: "(bytes \<Rightarrow> pb_value list \<Rightarrow> 'w run \<Rightarrow> (pb_eval_result option \<times> 'w run) option) option"
  ho_fuel :: nat

definition log_line :: "bytes \<Rightarrow> 'w run \<Rightarrow> 'w run" where
  "log_line t s = s\<lparr>ev_stderr := ev_stderr s @ t\<rparr>"

record publish_ctx =
  pc_now_ms :: u64
  pc_wall_ms :: int
  pc_rule_idx :: nat
  pc_depth :: nat
  pc_reentrant :: bool
  pc_replaying :: bool

text \<open>\<open>again\<close> evaluates the rules on what was published; its result is ignored.\<close>

definition publish_cb ::
  "'w pb_host \<Rightarrow> pb_program \<Rightarrow> publish_ctx \<Rightarrow> (bytes \<Rightarrow> bytes \<Rightarrow> 'w run \<Rightarrow> (bool \<times> 'w run) option)
   \<Rightarrow> bytes \<Rightarrow> bytes \<Rightarrow> 'w run \<Rightarrow> (bool \<times> 'w run) option" where
  "publish_cb host p pc again subject payload s =
     (if \<not> mb_proto_subject_valid subject False \<or> mb_router_subject_has_lvc_prefix subject \<or> mb_router_subject_has_stats_prefix subject
      then Some (False, s)
      else do { (sent, w) \<leftarrow> mb_router_publish_with_options (ho_router host) (ho_cb host) (pw_world (ev_world s)) subject payload
                  \<lparr>opt_replaying = pc_replaying pc, opt_has_assumed_ts_ms = (0 \<le> pc_wall_ms pc), opt_assumed_ts_ms = pc_wall_ms pc\<rparr>;
                let s = s\<lparr>ev_world := (ev_world s)\<lparr>pw_world := w\<rparr>\<rparr>;
                if \<not> sent then Some (False, s)
                else do { let s = (if pc_rule_idx pc < length (pg_rules p)
                                   then s\<lparr>ev_world := (ev_world s)\<lparr>pw_emitted := (pw_emitted (ev_world s))
                                          (pc_rule_idx pc := pw_emitted (ev_world s) (pc_rule_idx pc) + 1)\<rparr>\<rparr> else s);
                          if \<not> pc_reentrant pc then Some (True, s)
                          else if PB_PROGRAM_MAX_REENTRY_DEPTH \<le> pc_depth pc
                          then Some (True, log_line (''patchbay: reentry depth cap reached'' @ [LF]) s)
                          else do { (_, s) \<leftarrow> again subject payload s; Some (True, s) } } })"

definition program_ctx ::
  "'w pb_host \<Rightarrow> nat \<Rightarrow> u64 \<Rightarrow> int \<Rightarrow> bool \<Rightarrow> bytes \<Rightarrow> bytes \<Rightarrow> (bytes \<Rightarrow> bytes \<Rightarrow> 'w run \<Rightarrow> (bool \<times> 'w run) option)
   \<Rightarrow> 'w prog_world pb_eval_ctx" where
  "program_ctx host rule_idx now_ms wall_ms replaying subject payload publish =
     \<lparr>cx_has_state = True, cx_rule_id = rule_idx, cx_now_ms = now_ms, cx_wall_ms = wall_ms, cx_replaying = replaying,
      cx_subject = subject, cx_payload = payload, cx_publish = Some publish,
      cx_user_symbol = ho_user_symbol host, cx_user_call = ho_user_call host\<rparr>"

definition rule_failed :: "bytes \<Rightarrow> nat \<Rightarrow> pb_eval_error \<Rightarrow> 'w run \<Rightarrow> 'w run" where
  "rule_failed what rule_idx err =
     log_line (''patchbay: rule '' @ dec_digits rule_idx @ what @ pb_eval_error_name (Some err) @ [LF])"

definition eval_rule_for_publish ::
  "'w pb_host \<Rightarrow> pb_program \<Rightarrow> nat \<Rightarrow> bytes \<Rightarrow> bytes \<Rightarrow> u64 \<Rightarrow> int \<Rightarrow> nat \<Rightarrow> bool
   \<Rightarrow> (bytes \<Rightarrow> bytes \<Rightarrow> 'w run \<Rightarrow> (bool \<times> 'w run) option) \<Rightarrow> 'w run \<Rightarrow> (bool \<times> 'w run) option" where
  "eval_rule_for_publish host p rule_idx subject payload now_ms wall_ms depth replaying again s =
     (let rule = pg_rules p ! rule_idx
      in if \<not> slice_match (rl_filter rule) subject then Some (True, s)
         else let pub = \<lparr>pc_now_ms = now_ms, pc_wall_ms = wall_ms, pc_rule_idx = rule_idx, pc_depth = depth,
                         pc_reentrant = rl_reentrant rule, pc_replaying = replaying\<rparr>;
                  ctx = program_ctx host rule_idx now_ms wall_ms replaying subject payload (publish_cb host p pub again)
         in do { (r, s) \<leftarrow> pb_eval (ho_fuel host) (ho_lib host) ctx (rl_body rule) s;
                 case r of
                   Inl err \<Rightarrow> Some (False, rule_failed '' eval failed: '' rule_idx err s)
                 | Inr _ \<Rightarrow> Some (True, s) })"

text \<open>
  The two lists of rule numbers are walked together, the smaller number first. A list that is
  used up counts as \<open>SIZE_MAX\<close>, which no rule number reaches.
\<close>

fun eval_refs :: "(nat \<Rightarrow> 'w run \<Rightarrow> (bool \<times> 'w run) option) \<Rightarrow> nat list \<Rightarrow> nat list \<Rightarrow> bool \<Rightarrow> 'w run \<Rightarrow> (bool \<times> 'w run) option" where
  "eval_refs f [] [] ok s = Some (ok, s)"
| "eval_refs f (i # bucket) [] ok s = do { (r, s) \<leftarrow> f i s; eval_refs f bucket [] (r \<and> ok) s }"
| "eval_refs f [] (g # global) ok s = do { (r, s) \<leftarrow> f g s; eval_refs f [] global (r \<and> ok) s }"
| "eval_refs f (i # bucket) (g # global) ok s =
     (if i < g then do { (r, s) \<leftarrow> f i s; eval_refs f bucket (g # global) (r \<and> ok) s }
      else do { (r, s) \<leftarrow> f g s; eval_refs f (i # bucket) global (r \<and> ok) s })"

text \<open>The guard repeats the test of \<open>publish_cb\<close>, which never asks for a deeper evaluation.\<close>

function eval_publish_slices ::
  "'w pb_host \<Rightarrow> pb_program \<Rightarrow> bytes \<Rightarrow> bytes \<Rightarrow> u64 \<Rightarrow> int \<Rightarrow> nat \<Rightarrow> bool \<Rightarrow> 'w run \<Rightarrow> (bool \<times> 'w run) option" where
  "eval_publish_slices host p subject payload now_ms wall_ms depth replaying s =
     (if pg_rules p = [] then Some (True, s)
      else eval_refs
        (\<lambda>rule_idx. eval_rule_for_publish host p rule_idx subject payload now_ms wall_ms depth replaying
           (\<lambda>subject payload s.
              if depth < PB_PROGRAM_MAX_REENTRY_DEPTH
              then eval_publish_slices host p subject payload now_ms wall_ms (depth + 1) replaying s else None))
        (rule_refs_for_subject p subject) (fst (pg_global p)) True s)"
  by pat_completeness auto
termination
  by (relation "measure (\<lambda>(host, p, subject, payload, now_ms, wall_ms, depth, replaying, s). PB_PROGRAM_MAX_REENTRY_DEPTH - depth)")
     (auto simp: PB_PROGRAM_MAX_REENTRY_DEPTH_def)

declare eval_publish_slices.simps [simp del]

definition finish_program :: "bool \<Rightarrow> pb_program \<Rightarrow> pb_program" where
  "finish_program outer p = (if outer then reset_scratch p else p)"

definition pb_program_eval_publish_with_options ::
  "'w pb_host \<Rightarrow> pb_program \<Rightarrow> 'w world \<Rightarrow> bytes \<Rightarrow> bytes \<Rightarrow> u64 \<Rightarrow> int \<Rightarrow> bool \<Rightarrow> (bool \<times> pb_program \<times> 'w world) option" where
  "pb_program_eval_publish_with_options host p w subject payload now_ms wall_ms replaying =
     (if pg_rules p = [] then Some (True, p, w)
      else do { (ok, s) \<leftarrow> eval_publish_slices host p subject payload now_ms wall_ms 0 replaying (enter_program p w);
                Some (ok, finish_program (pg_eval_depth p = 0) (leave_program p s), pw_world (ev_world s)) })"

definition pb_program_eval_publish ::
  "'w pb_host \<Rightarrow> pb_program \<Rightarrow> 'w world \<Rightarrow> bytes \<Rightarrow> bytes \<Rightarrow> u64 \<Rightarrow> int \<Rightarrow> (bool \<times> pb_program \<times> 'w world) option" where
  "pb_program_eval_publish host p w subject payload now_ms wall_ms =
     pb_program_eval_publish_with_options host p w subject payload now_ms wall_ms False"

section \<open>Ticks\<close>

text \<open>
  The code holds a pointer to the slot where the model has its index. Every branch of
  \<open>pb_eval_tick_state_entry\<close> reads and writes through that pointer before it starts an evaluation or a publish and
  not after, so a nested evaluation that moves the array of slots is not seen through it. The byte
  buffers of the slot (\<open>subject\<close>, \<open>bytes\<close>, \<open>emit_subject\<close>) are passed on as slices and are values here: a nested
  evaluation of a reentrant rule that replaces them while they are read is outside the model.
\<close>

definition tick_entry ::
  "'w pb_host \<Rightarrow> pb_program \<Rightarrow> u64 \<Rightarrow> int \<Rightarrow> bool \<Rightarrow> nat \<Rightarrow> nat \<Rightarrow> 'w run \<Rightarrow> (bool \<times> 'w run) option" where
  "tick_entry host p now_ms wall_ms replaying rule_idx state_idx s =
     (let rule = pg_rules p ! rule_idx;
          pub = \<lparr>pc_now_ms = now_ms, pc_wall_ms = wall_ms, pc_rule_idx = rule_idx, pc_depth = 0,
                 pc_reentrant = rl_reentrant rule, pc_replaying = replaying\<rparr>;
          subject = se_subject (st_items (ev_states s rule_idx) ! state_idx);
          again = (\<lambda>subject payload s. eval_publish_slices host p subject payload now_ms wall_ms 1 replaying s);
          ctx = program_ctx host rule_idx now_ms wall_ms replaying subject [] (publish_cb host p pub again)
      in do { (r, s) \<leftarrow> pb_eval_tick_state_entry (ho_fuel host) (ho_lib host) ctx state_idx s;
              case r of
                Inl err \<Rightarrow> Some (False, rule_failed '' clock tick failed: '' rule_idx err s)
              | Inr _ \<Rightarrow> Some (True, s) })"

text \<open>The number of slots is read before every step, since a tick may add slots.\<close>

fun tick_states ::
  "nat \<Rightarrow> 'w pb_host \<Rightarrow> pb_program \<Rightarrow> u64 \<Rightarrow> int \<Rightarrow> bool \<Rightarrow> nat \<Rightarrow> nat \<Rightarrow> bool \<Rightarrow> 'w run \<Rightarrow> (bool \<times> 'w run) option" where
  "tick_states 0 host p now_ms wall_ms replaying rule_idx state_idx ok s = None"
| "tick_states (Suc n) host p now_ms wall_ms replaying rule_idx state_idx ok s =
     (if length (st_items (ev_states s rule_idx)) \<le> state_idx then Some (ok, s)
      else do { (r, s) \<leftarrow> tick_entry host p now_ms wall_ms replaying rule_idx state_idx s;
                tick_states n host p now_ms wall_ms replaying rule_idx (state_idx + 1) (r \<and> ok) s })"

fun tick_rules ::
  "'w pb_host \<Rightarrow> pb_program \<Rightarrow> u64 \<Rightarrow> int \<Rightarrow> bool \<Rightarrow> nat list \<Rightarrow> bool \<Rightarrow> 'w run \<Rightarrow> (bool \<times> 'w run) option" where
  "tick_rules host p now_ms wall_ms replaying [] ok s = Some (ok, s)"
| "tick_rules host p now_ms wall_ms replaying (i # is) ok s =
     do { (ok, s) \<leftarrow> tick_states (ho_fuel host) host p now_ms wall_ms replaying i 0 ok s;
          tick_rules host p now_ms wall_ms replaying is ok s }"

definition pb_program_tick_with_options ::
  "'w pb_host \<Rightarrow> pb_program \<Rightarrow> 'w world \<Rightarrow> u64 \<Rightarrow> int \<Rightarrow> bool \<Rightarrow> (bool \<times> pb_program \<times> 'w world) option" where
  "pb_program_tick_with_options host p w now_ms wall_ms replaying =
     (if pg_rules p = [] then Some (True, p, w)
      else do { (ok, s) \<leftarrow> tick_rules host p now_ms wall_ms replaying [0..<length (pg_rules p)] True (enter_program p w);
                Some (ok, finish_program (pg_eval_depth p = 0) (leave_program p s), pw_world (ev_world s)) })"

definition pb_program_tick :: "'w pb_host \<Rightarrow> pb_program \<Rightarrow> 'w world \<Rightarrow> u64 \<Rightarrow> int \<Rightarrow> (bool \<times> pb_program \<times> 'w world) option" where
  "pb_program_tick host p w now_ms wall_ms = pb_program_tick_with_options host p w now_ms wall_ms False"

section \<open>Deadlines\<close>

definition UINT64_MAX :: u64 where "UINT64_MAX = - 1"

text \<open>The outer \<open>None\<close> is an access outside the times of the ring.\<close>

definition entry_deadline :: "pb_eval_state_entry \<Rightarrow> u64 option option" where
  "entry_deadline e =
     (if se_kind e = PB_EVAL_STATE_RING \<and> ring_time_window e \<and> 0 < ring_len e then
        do { t \<leftarrow> cell (ring_times_ms e) (ring_start e);
             Some (Some (if t \<le> UINT64_MAX - ring_window_ms e
                         then let deadline = t + ring_window_ms e in if deadline < UINT64_MAX then deadline + 1 else deadline
                         else UINT64_MAX)) }
      else if se_kind e = PB_EVAL_STATE_BAR \<and> bar_time_window e \<and> 0 < bar_count e
      then Some (Some (bar_window_start_ms e + bar_window_ms e))
      else if se_kind e = PB_EVAL_STATE_CLOCK \<and> clock_armed e then Some (Some (clock_deadline_ms e))
      else Some None)"

fun best_deadline :: "u64 option \<Rightarrow> pb_eval_state_entry list \<Rightarrow> u64 option option" where
  "best_deadline best [] = Some best"
| "best_deadline best (e # es) =
     do { d \<leftarrow> entry_deadline e;
          best_deadline (case d of
                           None \<Rightarrow> best
                         | Some d \<Rightarrow> (case best of None \<Rightarrow> Some d | Some b \<Rightarrow> if d < b then Some d else best)) es }"

definition pb_program_next_clock_deadline :: "pb_program \<Rightarrow> u64 option option" where
  "pb_program_next_clock_deadline p =
     (if \<not> pg_uses_clock_timer p then Some None
      else best_deadline None (concat (map (\<lambda>rule. st_items (rl_state rule)) (pg_rules p))))"

text \<open>The replay clock: ticks at every deadline up to \<open>now_ms\<close>.\<close>

fun pb_program_tick_until ::
  "nat \<Rightarrow> 'w pb_host \<Rightarrow> bool \<Rightarrow> pb_program \<Rightarrow> 'w world \<Rightarrow> u64 \<Rightarrow> int \<Rightarrow> bool \<Rightarrow> (bool \<times> pb_program \<times> 'w world) option" where
  "pb_program_tick_until 0 host ok p w now_ms wall_ms replaying = None"
| "pb_program_tick_until (Suc n) host ok p w now_ms wall_ms replaying =
     do { d \<leftarrow> pb_program_next_clock_deadline p;
          case d of
            None \<Rightarrow> Some (ok, p, w)
          | Some deadline \<Rightarrow>
              if now_ms < deadline then Some (ok, p, w)
              else do { let delta = unat (now_ms - deadline);
                        let tick_wall_ms = (if delta < 2 ^ 63 then wall_ms - int delta else wall_ms);
                        (r, p, w) \<leftarrow> pb_program_tick_with_options host p w deadline tick_wall_ms replaying;
                        pb_program_tick_until n host (r \<and> ok) p w now_ms wall_ms replaying } }"

end
