(* ===== verification/Program_Load.thy ===== *)
theory Program_Load
  imports Program
begin

text \<open>
  Loading a patchbay program (\<open>src/src/patchbay/pb_program.c\<close>): the top-level forms of a source become rules,
  last-value filters and the settings of the bridge and the importer. The messages for the
  operator are not modelled.
\<close>

section \<open>Configuration values\<close>

text \<open>
  The allocators, the environment of the process, and what the conversion of a \<open>double\<close> outside
  the range of \<open>int64_t\<close> gives, which C leaves open.
\<close>

record load_env =
  ld_heap :: allocator
  ld_blocks :: block_malloc
  ld_getenv :: "bytes \<Rightarrow> bytes option"
  ld_i64_oob :: "double \<Rightarrow> int"

definition NUL :: char where "NUL = CHR 0x00"

definition value_is_env_form :: "pb_value \<Rightarrow> bool" where
  "value_is_env_form v \<longleftrightarrow> (case v of PB_LIST [PB_SYMBOL t, _] \<Rightarrow> pb_slice_eq_lit t ''env'' | _ \<Rightarrow> False)"

text \<open>The name in \<open>(env NAME)\<close>.\<close>

definition env_form_name :: "pb_value \<Rightarrow> bytes option" where
  "env_form_name v =
     (if \<not> value_is_env_form v then None
      else case v of PB_LIST [_, PB_STRING t] \<Rightarrow> if t = [] then None else Some t | _ \<Rightarrow> None)"

definition non_empty :: "bytes \<Rightarrow> bytes option" where
  "non_empty t = (if t = [] then None else Some t)"

text \<open>Only the parse arena changes; a name with a zero byte ends there, as C strings do.\<close>

definition load_config_string :: "load_env \<Rightarrow> pb_arena \<Rightarrow> pb_value \<Rightarrow> bytes option \<times> pb_arena" where
  "load_config_string env arena v =
     (case v of
        PB_STRING t \<Rightarrow> (non_empty t, arena)
      | _ \<Rightarrow>
          (case env_form_name v of
             None \<Rightarrow> (None, arena)
           | Some name \<Rightarrow>
               if \<not> ld_heap env (length name + 1) then (None, arena)
               else let t = (case ld_getenv env (takeWhile (\<lambda>c. c \<noteq> NUL) name) of None \<Rightarrow> [] | Some t \<Rightarrow> t)
                    in case pb_arena_memdup (ld_blocks env) arena t of
                         (None, arena) \<Rightarrow> (None, arena)
                       | (Some t, arena) \<Rightarrow> (non_empty t, arena)))"

text \<open>A growable array of slices; \<open>init\<close> is its first capacity.\<close>

definition slice_vec_append :: "allocator \<Rightarrow> bytes list \<times> nat \<Rightarrow> bytes \<Rightarrow> (bytes list \<times> nat) option" where
  "slice_vec_append am v t =
     (case mb_array_reserve am (snd v) (length (fst v) + 1) PB_SLICE_SIZE 4 of
        None \<Rightarrow> None
      | Some cap \<Rightarrow> Some (fst v @ [t], cap))"

definition lvc_vec_append :: "allocator \<Rightarrow> pb_program \<Rightarrow> bytes \<Rightarrow> pb_program option" where
  "lvc_vec_append am p flt = map_option (\<lambda>v. p\<lparr>pg_lvc := v\<rparr>) (slice_vec_append am (pg_lvc p) flt)"

definition RULE_SIZE :: nat where "RULE_SIZE = 104"

definition rule_vec_append :: "allocator \<Rightarrow> pb_program \<Rightarrow> pb_rule \<Rightarrow> pb_program option" where
  "rule_vec_append am p rule =
     (case mb_array_reserve am (pg_rules_cap p) (length (pg_rules p) + 1) RULE_SIZE 8 of
        None \<Rightarrow> None
      | Some cap \<Rightarrow> Some (p\<lparr>pg_rules := pg_rules p @ [rule], pg_rules_cap := cap\<rparr>))"

definition load_remote_bool :: "pb_value \<Rightarrow> bool option" where
  "load_remote_bool v = (case v of PB_BOOL b \<Rightarrow> Some b | _ \<Rightarrow> None)"

text \<open>The conversion truncates towards zero.\<close>

definition d_to_i64 :: "load_env \<Rightarrow> double \<Rightarrow> int" where
  "d_to_i64 env d =
     (if d_finite d \<and> - (2 ^ 63) - 1 < d_val d \<and> d_val d < 2 ^ 63
      then (if d_val d < 0 then \<lceil>d_val d\<rceil> else \<lfloor>d_val d\<rfloor>) else ld_i64_oob env d)"

definition load_remote_i64 :: "load_env \<Rightarrow> pb_value \<Rightarrow> int option" where
  "load_remote_i64 env v =
     (case v of
        PB_NUMBER d \<Rightarrow> (let n = d_to_i64 env d in if d_eq (d_of_int n) d then Some n else None)
      | _ \<Rightarrow> None)"

definition load_remote_int :: "load_env \<Rightarrow> pb_value \<Rightarrow> int option" where
  "load_remote_int env v =
     (case load_remote_i64 env v of
        None \<Rightarrow> None
      | Some n \<Rightarrow> if n < - (2 ^ 31) \<or> 2 ^ 31 - 1 < n then None else Some n)"

definition load_remote_size :: "load_env \<Rightarrow> pb_value \<Rightarrow> nat option" where
  "load_remote_size env v =
     (case load_remote_i64 env v of
        None \<Rightarrow> None
      | Some n \<Rightarrow> if n \<le> 0 \<or> int SIZE_MAX < n then None else Some (nat n))"

fun load_strings :: "load_env \<Rightarrow> pb_arena \<Rightarrow> bytes list \<times> nat \<Rightarrow> pb_value list \<Rightarrow> (bytes list \<times> nat) option \<times> pb_arena" where
  "load_strings env arena out [] = (Some out, arena)"
| "load_strings env arena out (v # vs) =
     (case load_config_string env arena v of
        (None, arena) \<Rightarrow> (None, arena)
      | (Some t, arena) \<Rightarrow>
          (case slice_vec_append (ld_heap env) out t of
             None \<Rightarrow> (None, arena)
           | Some out \<Rightarrow> load_strings env arena out vs))"

definition load_remote_list :: "load_env \<Rightarrow> pb_arena \<Rightarrow> bytes list \<times> nat \<Rightarrow> pb_value \<Rightarrow> (bytes list \<times> nat) option \<times> pb_arena" where
  "load_remote_list env arena out v =
     (if (case v of PB_STRING _ \<Rightarrow> True | _ \<Rightarrow> False) \<or> value_is_env_form v then load_strings env arena out [v]
      else case v of
        PB_VECTOR vs \<Rightarrow> if vs = [] then (None, arena) else load_strings env arena out vs
      | PB_LIST vs \<Rightarrow> if vs = [] then (None, arena) else load_strings env arena out vs
      | _ \<Rightarrow> (None, arena))"

section \<open>Last-value filters\<close>

definition load_lvc_filter_value :: "load_env \<Rightarrow> pb_program \<Rightarrow> pb_value \<Rightarrow> bool \<times> pb_program" where
  "load_lvc_filter_value env p v =
     (case load_config_string env (pg_parse_arena p) v of
        (None, arena) \<Rightarrow> (False, p\<lparr>pg_parse_arena := arena\<rparr>)
      | (Some flt, arena) \<Rightarrow>
          let p = p\<lparr>pg_parse_arena := arena\<rparr>
          in case lvc_vec_append (ld_heap env) p flt of None \<Rightarrow> (False, p) | Some p \<Rightarrow> (True, p))"

fun load_lvc_filters :: "load_env \<Rightarrow> pb_program \<Rightarrow> pb_value list \<Rightarrow> bool \<times> pb_program" where
  "load_lvc_filters env p [] = (True, p)"
| "load_lvc_filters env p (v # vs) =
     (case load_lvc_filter_value env p v of (False, p) \<Rightarrow> (False, p) | (True, p) \<Rightarrow> load_lvc_filters env p vs)"

definition load_lvc_form :: "load_env \<Rightarrow> pb_program \<Rightarrow> pb_value list \<Rightarrow> bool \<times> pb_program" where
  "load_lvc_form env p items =
     (case tl items of
        [] \<Rightarrow> (False, p)
      | [PB_VECTOR vs] \<Rightarrow> if vs = [] then (False, p) else load_lvc_filters env p vs
      | vs \<Rightarrow> load_lvc_filters env p vs)"

section \<open>The bridge\<close>

definition is_export_config_head :: "bytes \<Rightarrow> bool" where
  "is_export_config_head t \<longleftrightarrow> pb_slice_eq_lit t ''bridge'' \<or> pb_slice_eq_lit t ''export''"

text \<open>The three ways an option sets a field: from a list of strings, a string, or a value without memory.\<close>

definition set_list :: "load_env \<Rightarrow> pb_arena \<Rightarrow> bytes list \<times> nat \<Rightarrow> pb_value \<Rightarrow> (bytes list \<times> nat \<Rightarrow> 'c) \<Rightarrow> 'c option \<times> pb_arena" where
  "set_list env arena out v f = (case load_remote_list env arena out v of (r, arena) \<Rightarrow> (map_option f r, arena))"

definition set_string :: "load_env \<Rightarrow> pb_arena \<Rightarrow> pb_value \<Rightarrow> (bytes option \<Rightarrow> 'c) \<Rightarrow> 'c option \<times> pb_arena" where
  "set_string env arena v f = (case load_config_string env arena v of (r, arena) \<Rightarrow> (map_option (\<lambda>t. f (Some t)) r, arena))"

definition set_plain :: "pb_arena \<Rightarrow> 'a option \<Rightarrow> ('a \<Rightarrow> 'c) \<Rightarrow> 'c option \<times> pb_arena" where
  "set_plain arena r f = (map_option f r, arena)"

definition bridge_zero :: pb_bridge_config where
  "bridge_zero = \<lparr>br_servers = ([], 0), br_exports = ([], 0), br_name = None, br_creds = None, br_user = None, br_password = None,
     br_token = None, br_tls_ca = None, br_tls_cert = None, br_tls_key = None, br_connect_timeout_ms = None,
     br_ping_interval_ms = None, br_reconnect_wait_ms = None, br_max_reconnect = None, br_tls = False,
     br_tls_skip_verify = False, br_origin_header = False, br_replay_header = False\<rparr>"

definition load_bridge_option :: "load_env \<Rightarrow> pb_arena \<Rightarrow> pb_bridge_config \<Rightarrow> bytes \<Rightarrow> pb_value \<Rightarrow> pb_bridge_config option \<times> pb_arena" where
  "load_bridge_option env arena b key v =
     (if pb_slice_eq_lit key ''servers'' then set_list env arena (br_servers b) v (\<lambda>x. b\<lparr>br_servers := x\<rparr>)
      else if pb_slice_eq_lit key ''export'' then set_list env arena (br_exports b) v (\<lambda>x. b\<lparr>br_exports := x\<rparr>)
      else if pb_slice_eq_lit key ''name'' then set_string env arena v (\<lambda>x. b\<lparr>br_name := x\<rparr>)
      else if pb_slice_eq_lit key ''creds'' then set_string env arena v (\<lambda>x. b\<lparr>br_creds := x\<rparr>)
      else if pb_slice_eq_lit key ''user'' then set_string env arena v (\<lambda>x. b\<lparr>br_user := x\<rparr>)
      else if pb_slice_eq_lit key ''password'' then set_string env arena v (\<lambda>x. b\<lparr>br_password := x\<rparr>)
      else if pb_slice_eq_lit key ''token'' then set_string env arena v (\<lambda>x. b\<lparr>br_token := x\<rparr>)
      else if pb_slice_eq_lit key ''tls'' then set_plain arena (load_remote_bool v) (\<lambda>x. b\<lparr>br_tls := x\<rparr>)
      else if pb_slice_eq_lit key ''tls-ca'' then set_string env arena v (\<lambda>x. b\<lparr>br_tls_ca := x\<rparr>)
      else if pb_slice_eq_lit key ''tls-cert'' then set_string env arena v (\<lambda>x. b\<lparr>br_tls_cert := x\<rparr>)
      else if pb_slice_eq_lit key ''tls-key'' then set_string env arena v (\<lambda>x. b\<lparr>br_tls_key := x\<rparr>)
      else if pb_slice_eq_lit key ''tls-skip-verify'' then set_plain arena (load_remote_bool v) (\<lambda>x. b\<lparr>br_tls_skip_verify := x\<rparr>)
      else if pb_slice_eq_lit key ''origin-header'' then set_plain arena (load_remote_bool v) (\<lambda>x. b\<lparr>br_origin_header := x\<rparr>)
      else if pb_slice_eq_lit key ''replay-header'' then set_plain arena (load_remote_bool v) (\<lambda>x. b\<lparr>br_replay_header := x\<rparr>)
      else if pb_slice_eq_lit key ''connect-timeout-ms''
      then set_plain arena (load_remote_i64 env v) (\<lambda>x. b\<lparr>br_connect_timeout_ms := Some x\<rparr>)
      else if pb_slice_eq_lit key ''ping-interval-ms''
      then set_plain arena (load_remote_i64 env v) (\<lambda>x. b\<lparr>br_ping_interval_ms := Some x\<rparr>)
      else if pb_slice_eq_lit key ''reconnect-wait-ms''
      then set_plain arena (load_remote_i64 env v) (\<lambda>x. b\<lparr>br_reconnect_wait_ms := Some x\<rparr>)
      else if pb_slice_eq_lit key ''max-reconnect''
      then set_plain arena (load_remote_int env v) (\<lambda>x. b\<lparr>br_max_reconnect := Some x\<rparr>)
      else (None, arena))"

text \<open>A list of keywords and values given to a setter of options.\<close>

fun load_options :: "(pb_arena \<Rightarrow> 'c \<Rightarrow> bytes \<Rightarrow> pb_value \<Rightarrow> 'c option \<times> pb_arena) \<Rightarrow> pb_arena \<Rightarrow> 'c \<Rightarrow> pb_value list \<Rightarrow> 'c option \<times> pb_arena" where
  "load_options f arena c (PB_KEYWORD key # v # rest) =
     (case f arena c key v of
        (None, arena) \<Rightarrow> (None, arena)
      | (Some c, arena) \<Rightarrow> load_options f arena c rest)"
| "load_options f arena c [] = (Some c, arena)"
| "load_options f arena c _ = (None, arena)"

definition load_bridge_form :: "load_env \<Rightarrow> pb_program \<Rightarrow> pb_value list \<Rightarrow> bool \<times> pb_program" where
  "load_bridge_form env p items =
     (if pg_bridge p \<noteq> None then (False, p)
      else if length items < 3 \<or> even (length items) then (False, p)
      else case load_options (load_bridge_option env) (pg_parse_arena p) bridge_zero (tl items) of
        (None, arena) \<Rightarrow> (False, p\<lparr>pg_parse_arena := arena\<rparr>)
      | (Some b, arena) \<Rightarrow>
          if fst (br_servers b) = [] then (False, p\<lparr>pg_parse_arena := arena\<rparr>)
          else (True, p\<lparr>pg_parse_arena := arena, pg_bridge := Some b\<rparr>))"

section \<open>Imports\<close>

definition import_zero :: pb_import_config where
  "import_zero = \<lparr>im_servers = ([], 0), im_subjects = ([], 0), im_name = None, im_creds = None, im_user = None, im_password = None,
     im_token = None, im_tls_ca = None, im_tls_cert = None, im_tls_key = None, im_connect_timeout_ms = None,
     im_ping_interval_ms = None, im_reconnect_wait_ms = None, im_max_reconnect = None, im_max_pending = None, im_tls = False,
     im_tls_skip_verify = False, im_origin_header = False\<rparr>"

definition import_key_is_nested :: "bytes \<Rightarrow> bool" where
  "import_key_is_nested key \<longleftrightarrow> pb_slice_eq_lit key ''core'' \<or> pb_slice_eq_lit key ''streams''"

text \<open>The outer \<open>None\<close> is a key that did not match.\<close>

definition load_import_common_option ::
  "load_env \<Rightarrow> pb_arena \<Rightarrow> pb_import_config \<Rightarrow> bytes \<Rightarrow> pb_value \<Rightarrow> (pb_import_config option \<times> pb_arena) option" where
  "load_import_common_option env arena b key v =
     (if pb_slice_eq_lit key ''servers'' then Some (set_list env arena (im_servers b) v (\<lambda>x. b\<lparr>im_servers := x\<rparr>))
      else if pb_slice_eq_lit key ''subject'' \<or> pb_slice_eq_lit key ''subjects''
      then Some (set_list env arena (im_subjects b) v (\<lambda>x. b\<lparr>im_subjects := x\<rparr>))
      else if pb_slice_eq_lit key ''name'' then Some (set_string env arena v (\<lambda>x. b\<lparr>im_name := x\<rparr>))
      else if pb_slice_eq_lit key ''creds'' then Some (set_string env arena v (\<lambda>x. b\<lparr>im_creds := x\<rparr>))
      else if pb_slice_eq_lit key ''user'' then Some (set_string env arena v (\<lambda>x. b\<lparr>im_user := x\<rparr>))
      else if pb_slice_eq_lit key ''password'' then Some (set_string env arena v (\<lambda>x. b\<lparr>im_password := x\<rparr>))
      else if pb_slice_eq_lit key ''token'' then Some (set_string env arena v (\<lambda>x. b\<lparr>im_token := x\<rparr>))
      else if pb_slice_eq_lit key ''tls'' then Some (set_plain arena (load_remote_bool v) (\<lambda>x. b\<lparr>im_tls := x\<rparr>))
      else if pb_slice_eq_lit key ''tls-ca'' then Some (set_string env arena v (\<lambda>x. b\<lparr>im_tls_ca := x\<rparr>))
      else if pb_slice_eq_lit key ''tls-cert'' then Some (set_string env arena v (\<lambda>x. b\<lparr>im_tls_cert := x\<rparr>))
      else if pb_slice_eq_lit key ''tls-key'' then Some (set_string env arena v (\<lambda>x. b\<lparr>im_tls_key := x\<rparr>))
      else if pb_slice_eq_lit key ''tls-skip-verify''
      then Some (set_plain arena (load_remote_bool v) (\<lambda>x. b\<lparr>im_tls_skip_verify := x\<rparr>))
      else if pb_slice_eq_lit key ''origin-header''
      then Some (set_plain arena (load_remote_bool v) (\<lambda>x. b\<lparr>im_origin_header := x\<rparr>))
      else if pb_slice_eq_lit key ''connect-timeout-ms''
      then Some (set_plain arena (load_remote_i64 env v) (\<lambda>x. b\<lparr>im_connect_timeout_ms := Some x\<rparr>))
      else if pb_slice_eq_lit key ''ping-interval-ms''
      then Some (set_plain arena (load_remote_i64 env v) (\<lambda>x. b\<lparr>im_ping_interval_ms := Some x\<rparr>))
      else if pb_slice_eq_lit key ''reconnect-wait-ms''
      then Some (set_plain arena (load_remote_i64 env v) (\<lambda>x. b\<lparr>im_reconnect_wait_ms := Some x\<rparr>))
      else if pb_slice_eq_lit key ''max-reconnect''
      then Some (set_plain arena (load_remote_int env v) (\<lambda>x. b\<lparr>im_max_reconnect := Some x\<rparr>))
      else if pb_slice_eq_lit key ''max-pending''
      then Some (set_plain arena (load_remote_size env v) (\<lambda>x. b\<lparr>im_max_pending := Some x\<rparr>))
      else None)"

definition validate_import_core :: "pb_import_config \<Rightarrow> bool" where
  "validate_import_core c \<longleftrightarrow> fst (im_servers c) \<noteq> [] \<and> fst (im_subjects c) \<noteq> []"

definition load_import_core_option :: "load_env \<Rightarrow> pb_arena \<Rightarrow> pb_import_config \<Rightarrow> bytes \<Rightarrow> pb_value \<Rightarrow> pb_import_config option \<times> pb_arena" where
  "load_import_core_option env arena c key v =
     (case load_import_common_option env arena c key v of None \<Rightarrow> (None, arena) | Some r \<Rightarrow> r)"

definition load_import_core_entry :: "load_env \<Rightarrow> pb_arena \<Rightarrow> pb_value list \<Rightarrow> pb_import_config option \<times> pb_arena" where
  "load_import_core_entry env arena items =
     (if items = [] \<or> odd (length items) then (None, arena)
      else case load_options (load_import_core_option env) arena import_zero items of
        (None, arena) \<Rightarrow> (None, arena)
      | (Some c, arena) \<Rightarrow> (if validate_import_core c then Some c else None, arena))"

definition load_import_stream_option ::
  "load_env \<Rightarrow> pb_arena \<Rightarrow> pb_import_stream_config \<Rightarrow> bytes \<Rightarrow> pb_value \<Rightarrow> pb_import_stream_config option \<times> pb_arena" where
  "load_import_stream_option env arena c key v =
     (case load_import_common_option env arena (is_source c) key v of
        Some (r, arena) \<Rightarrow> (map_option (\<lambda>x. c\<lparr>is_source := x\<rparr>) r, arena)
      | None \<Rightarrow>
          if pb_slice_eq_lit key ''stream'' then set_string env arena v (\<lambda>x. c\<lparr>is_stream := x\<rparr>)
          else if pb_slice_eq_lit key ''consumer'' then set_string env arena v (\<lambda>x. c\<lparr>is_consumer := x\<rparr>)
          else if pb_slice_eq_lit key ''catch-up''
          then set_plain arena (load_remote_bool v) (\<lambda>x. c\<lparr>is_catch_up := x, is_has_catch_up := True\<rparr>)
          else (None, arena))"

definition stream_zero :: pb_import_stream_config where
  "stream_zero = \<lparr>is_source = import_zero, is_stream = None, is_consumer = None, is_catch_up = True, is_has_catch_up = False\<rparr>"

definition load_import_stream_entry :: "load_env \<Rightarrow> pb_arena \<Rightarrow> pb_value list \<Rightarrow> pb_import_stream_config option \<times> pb_arena" where
  "load_import_stream_entry env arena items =
     (if items = [] \<or> odd (length items) then (None, arena)
      else case load_options (load_import_stream_option env) arena stream_zero items of
        (None, arena) \<Rightarrow> (None, arena)
      | (Some c, arena) \<Rightarrow>
          (if validate_import_core (is_source c) \<and> length (fst (im_subjects (is_source c))) = 1 \<and> is_stream c \<noteq> None \<and> is_consumer c \<noteq> None
           then Some c else None, arena))"

definition IMPORT_CONFIG_SIZE :: nat where "IMPORT_CONFIG_SIZE = 240"
definition IMPORT_STREAM_SIZE :: nat where "IMPORT_STREAM_SIZE = 280"

definition import_core_append :: "allocator \<Rightarrow> pb_imports_config \<Rightarrow> pb_import_config \<Rightarrow> pb_imports_config option" where
  "import_core_append am ic c =
     (case mb_array_reserve am (snd (ic_cores ic)) (length (fst (ic_cores ic)) + 1) IMPORT_CONFIG_SIZE 2 of
        None \<Rightarrow> None
      | Some cap \<Rightarrow> Some (ic\<lparr>ic_cores := (fst (ic_cores ic) @ [c], cap)\<rparr>))"

definition import_stream_append :: "allocator \<Rightarrow> pb_imports_config \<Rightarrow> pb_import_stream_config \<Rightarrow> pb_imports_config option" where
  "import_stream_append am ic c =
     (case mb_array_reserve am (snd (ic_streams ic)) (length (fst (ic_streams ic)) + 1) IMPORT_STREAM_SIZE 2 of
        None \<Rightarrow> None
      | Some cap \<Rightarrow> Some (ic\<lparr>ic_streams := (fst (ic_streams ic) @ [c], cap)\<rparr>))"

text \<open>The entries of a vector, each a vector of options.\<close>

fun load_entries ::
  "(pb_arena \<Rightarrow> pb_value list \<Rightarrow> 'e option \<times> pb_arena) \<Rightarrow> (pb_imports_config \<Rightarrow> 'e \<Rightarrow> pb_imports_config option)
   \<Rightarrow> pb_arena \<Rightarrow> pb_imports_config \<Rightarrow> pb_value list \<Rightarrow> pb_imports_config option \<times> pb_arena" where
  "load_entries load add arena ic [] = (Some ic, arena)"
| "load_entries load add arena ic (v # vs) =
     (case v of
        PB_VECTOR items \<Rightarrow>
          (case load arena items of
             (None, arena) \<Rightarrow> (None, arena)
           | (Some e, arena) \<Rightarrow>
               (case add ic e of None \<Rightarrow> (None, arena) | Some ic \<Rightarrow> load_entries load add arena ic vs))
      | _ \<Rightarrow> (None, arena))"

definition load_import_core_entries :: "load_env \<Rightarrow> pb_arena \<Rightarrow> pb_imports_config \<Rightarrow> pb_value \<Rightarrow> pb_imports_config option \<times> pb_arena" where
  "load_import_core_entries env arena ic v =
     (case v of
        PB_VECTOR (e # es) \<Rightarrow> load_entries (load_import_core_entry env) (import_core_append (ld_heap env)) arena ic (e # es)
      | _ \<Rightarrow> (None, arena))"

definition load_import_stream_entries :: "load_env \<Rightarrow> pb_arena \<Rightarrow> pb_imports_config \<Rightarrow> pb_value \<Rightarrow> pb_imports_config option \<times> pb_arena" where
  "load_import_stream_entries env arena ic v =
     (case v of
        PB_VECTOR (e # es) \<Rightarrow> load_entries (load_import_stream_entry env) (import_stream_append (ld_heap env)) arena ic (e # es)
      | _ \<Rightarrow> (None, arena))"

fun load_import_nested :: "load_env \<Rightarrow> pb_arena \<Rightarrow> pb_imports_config \<Rightarrow> bytes \<Rightarrow> pb_value \<Rightarrow> pb_imports_config option \<times> pb_arena" where
  "load_import_nested env arena ic key v =
     (if pb_slice_eq_lit key ''core'' then load_import_core_entries env arena ic v
      else if pb_slice_eq_lit key ''streams'' then load_import_stream_entries env arena ic v
      else (None, arena))"

text \<open>The keys of a list of options, \<open>None\<close> when one is no keyword.\<close>

fun option_keys :: "pb_value list \<Rightarrow> bytes list option" where
  "option_keys (PB_KEYWORD key # v # rest) = map_option (Cons key) (option_keys rest)"
| "option_keys [] = Some []"
| "option_keys _ = None"

definition imports_zero :: pb_imports_config where
  "imports_zero = \<lparr>ic_cores = ([], 0), ic_streams = ([], 0)\<rparr>"

definition load_imports :: "load_env \<Rightarrow> pb_arena \<Rightarrow> bool \<Rightarrow> pb_value list \<Rightarrow> pb_imports_config option \<times> pb_arena" where
  "load_imports env arena nested items =
     (if nested then load_options (load_import_nested env) arena imports_zero items
      else case load_import_core_entry env arena items of
        (None, arena) \<Rightarrow> (None, arena)
      | (Some c, arena) \<Rightarrow> (import_core_append (ld_heap env) imports_zero c, arena))"

definition load_import_form :: "load_env \<Rightarrow> pb_program \<Rightarrow> pb_value list \<Rightarrow> bool \<times> pb_program" where
  "load_import_form env p items =
     (if pg_importer p \<noteq> None then (False, p)
      else if length items < 3 \<or> even (length items) then (False, p)
      else case option_keys (tl items) of
        None \<Rightarrow> (False, p)
      | Some keys \<Rightarrow>
          let saw_nested = list_ex import_key_is_nested keys; saw_flat = list_ex (\<lambda>k. \<not> import_key_is_nested k) keys
          in if saw_nested \<and> saw_flat then (False, p)
             else case load_imports env (pg_parse_arena p) saw_nested (tl items) of
               (None, arena) \<Rightarrow> (False, p\<lparr>pg_parse_arena := arena\<rparr>)
             | (Some ic, arena) \<Rightarrow>
                 if fst (ic_cores ic) = [] \<and> fst (ic_streams ic) = [] then (False, p\<lparr>pg_parse_arena := arena\<rparr>)
                 else (True, p\<lparr>pg_parse_arena := arena, pg_importer := Some ic\<rparr>))"

section \<open>Rules\<close>

text \<open>The options between the filter and the body of a rule; the result is whether it is reentrant.\<close>

fun load_on_options :: "bool \<Rightarrow> pb_value list \<Rightarrow> bool option" where
  "load_on_options reentrant [] = Some reentrant"
| "load_on_options reentrant (PB_KEYWORD key # v # rest) =
     (if \<not> pb_slice_eq_lit key ''reentrant'' then None
      else case v of PB_BOOL b \<Rightarrow> load_on_options b rest | _ \<Rightarrow> None)"
| "load_on_options reentrant _ = None"

definition new_rule :: "bytes \<Rightarrow> pb_value \<Rightarrow> bool \<Rightarrow> pb_rule" where
  "new_rule flt body reentrant =
     \<lparr>rl_filter = flt, rl_body = body, rl_emitted = 0, rl_suppressed = 0, rl_reentrant = reentrant, rl_state = eval_state_zero\<rparr>"

definition load_on_form :: "load_env \<Rightarrow> pb_program \<Rightarrow> pb_value \<Rightarrow> bool \<times> pb_program" where
  "load_on_form env p form =
     (case form of
        PB_LIST (PB_SYMBOL head # args) \<Rightarrow>
          (let items = PB_SYMBOL head # args
           in if pb_slice_eq_lit head ''lvc'' then load_lvc_form env p items
              else if is_export_config_head head then load_bridge_form env p items
              else if pb_slice_eq_lit head ''import'' then load_import_form env p items
              else if \<not> pb_slice_eq_lit head ''on'' then (True, p)
              else case args of
                PB_STRING flt # rest \<Rightarrow>
                  if rest = [] then (False, p)
                  else (case load_on_options False (butlast rest) of
                          None \<Rightarrow> (False, p)
                        | Some reentrant \<Rightarrow>
                            (case rule_vec_append (ld_heap env) p (new_rule flt (last rest) reentrant) of
                               None \<Rightarrow> (False, p)
                             | Some p \<Rightarrow> (True, p)))
              | _ \<Rightarrow> (False, p))
      | _ \<Rightarrow> (False, p))"

section \<open>Clocks\<close>

definition value_head_eq :: "pb_value \<Rightarrow> bytes \<Rightarrow> bool" where
  "value_head_eq v lit \<longleftrightarrow> (case v of PB_LIST (PB_SYMBOL t # _) \<Rightarrow> pb_slice_eq_lit t lit | _ \<Rightarrow> False)"

definition call_has_ms_window :: "pb_value \<Rightarrow> bool" where
  "call_has_ms_window v \<longleftrightarrow> (case v of PB_LIST (_ # PB_KEYWORD t # _ # _) \<Rightarrow> pb_slice_eq_lit t ''ms'' | _ \<Rightarrow> False)"

definition windowed_forms :: "bytes list" where
  "windowed_forms = [''bar!'', ''bar'', ''moving-avg'', ''moving-sum'', ''moving-min'', ''moving-max'', ''median'', ''percentile'',
     ''stddev'', ''variance'', ''rate'', ''throttle'']"

definition timer_forms :: "bytes list" where
  "timer_forms = [''on-silence'', ''dropout'', ''debounce!'', ''sample!'', ''aggregate!'']"

definition note_clock_form :: "pb_value \<Rightarrow> pb_program \<Rightarrow> pb_program" where
  "note_clock_form v p =
     p\<lparr>pg_uses_wall_clock := pg_uses_wall_clock p \<or> value_head_eq v ''now'',
       pg_uses_clock_timer := pg_uses_clock_timer p \<or> (list_ex (value_head_eq v) windowed_forms \<and> call_has_ms_window v)
         \<or> list_ex (value_head_eq v) timer_forms\<rparr>"

fun scan_clock_forms :: "pb_value \<Rightarrow> pb_program \<Rightarrow> pb_program" where
  "scan_clock_forms (PB_LIST vs) p = fold scan_clock_forms vs (note_clock_form (PB_LIST vs) p)"
| "scan_clock_forms (PB_VECTOR vs) p = fold scan_clock_forms vs (note_clock_form (PB_VECTOR vs) p)"
| "scan_clock_forms v p = note_clock_form v p"

section \<open>Loading a source\<close>

definition pb_program_free :: "pb_program \<Rightarrow> pb_program" where
  "pb_program_free p = program_zero"

fun load_forms :: "load_env \<Rightarrow> pb_value list \<Rightarrow> pb_program \<Rightarrow> bool \<times> pb_program" where
  "load_forms env [] p = (True, p)"
| "load_forms env (form # forms) p =
     (case load_on_form env p form of
        (False, p) \<Rightarrow> (False, p)
      | (True, p) \<Rightarrow> load_forms env forms (scan_clock_forms form p))"

text \<open>\<open>parsed\<close> is the result of parsing into the fresh parse arena.\<close>

definition load_source :: "load_env \<Rightarrow> ((pb_parse_error \<times> nat) + pb_value list) \<times> pb_arena \<Rightarrow> bool \<times> pb_program" where
  "load_source env parsed =
     (case parsed of
        (Inl _, arena) \<Rightarrow> (False, program_zero)
      | (Inr forms, arena) \<Rightarrow>
          (case load_forms env forms (program_zero\<lparr>pg_parse_arena := arena\<rparr>) of
             (False, p) \<Rightarrow> (False, pb_program_free p)
           | (True, p) \<Rightarrow>
               (case build_rule_index (ld_heap env) p of
                  (False, p) \<Rightarrow> (False, pb_program_free p)
                | (True, p) \<Rightarrow> (True, p))))"

end
