(* ===== verification/Nats_Common.thy ===== *)
theory Nats_Common
  imports Program_Load
begin

text \<open>
  What the bridge and the importers share (\<open>src/src/nats_common.c\<close>): the options of a connection to a
  NATS server and the count of the users of the client library. The library is a parameter: an
  options object is the list of the settings it has accepted, and the status of the next
  setting is a function of that list.
\<close>

datatype nats_status = NATS_OK | NATS_TIMEOUT | NATS_NOT_FOUND | NATS_OTHER int

definition set_status :: "nats_status \<Rightarrow> bool" where
  "set_status status \<longleftrightarrow> status = NATS_OK"

datatype nats_option =
    SetServers "bytes list" | SetName bytes | SetUserCredentialsFromFiles bytes | SetUserInfo bytes bytes | SetToken bytes
  | SetSecure bool | LoadCATrustedCertificates bytes | LoadCertificatesChain bytes bytes | SkipServerVerification bool
  | SetTimeout int | SetPingInterval int | SetMaxReconnect int | SetReconnectWait int

section \<open>Strings\<close>

text \<open>What C reads of a slice it has copied and terminated.\<close>

definition c_string :: "bytes \<Rightarrow> bytes" where
  "c_string t = takeWhile (\<lambda>c. c \<noteq> NUL) t"

type_synonym mb_nats_strings = "bytes list \<times> nat"

definition mb_nats_strings_free :: "mb_nats_strings \<Rightarrow> mb_nats_strings" where
  "mb_nats_strings_free strings = ([], 0)"

definition slice_to_cstr :: "allocator \<Rightarrow> bytes \<Rightarrow> bytes option" where
  "slice_to_cstr am t = (if am (length t + 1) then Some (c_string t) else None)"

definition cstr_dup :: "allocator \<Rightarrow> bytes \<Rightarrow> bytes option" where
  "cstr_dup am t = (if am (length t + 1) then Some t else None)"

text \<open>\<open>host\<close> is what \<open>gethostname\<close> wrote, \<open>None\<close> when it failed; the last byte of the buffer is always zero.\<close>

definition mb_nats_origin_header_value :: "allocator \<Rightarrow> bytes option \<Rightarrow> bytes option" where
  "mb_nats_origin_header_value am host =
     (case host of
        None \<Rightarrow> cstr_dup am ''unknown''
      | Some t \<Rightarrow> if c_string t = [] then cstr_dup am ''unknown'' else cstr_dup am (take 255 (c_string t)))"

definition mb_nats_track_cstr :: "allocator \<Rightarrow> mb_nats_strings \<Rightarrow> bytes \<Rightarrow> bytes option \<times> mb_nats_strings" where
  "mb_nats_track_cstr am strings t =
     (case mb_array_reserve am (snd strings) (length (fst strings) + 1) 8 8 of
        None \<Rightarrow> (None, strings)
      | Some cap \<Rightarrow>
          (case slice_to_cstr am t of
             None \<Rightarrow> (None, fst strings, cap)
           | Some s \<Rightarrow> (Some s, fst strings @ [s], cap)))"

section \<open>Options\<close>

record mb_nats_options_config =
  no_servers :: "bytes list"
  no_name :: "bytes option"
  no_creds :: "bytes option"
  no_user :: "bytes option"
  no_password :: "bytes option"
  no_token :: "bytes option"
  no_tls_ca :: "bytes option"
  no_tls_cert :: "bytes option"
  no_tls_key :: "bytes option"
  no_connect_timeout_ms :: "int option"
  no_ping_interval_ms :: "int option"
  no_reconnect_wait_ms :: "int option"
  no_max_reconnect :: "int option"
  no_tls :: bool
  no_tls_skip_verify :: bool

definition mb_nats_options_from_bridge :: "pb_bridge_config \<Rightarrow> mb_nats_options_config" where
  "mb_nats_options_from_bridge c =
     \<lparr>no_servers = fst (br_servers c), no_name = br_name c, no_creds = br_creds c, no_user = br_user c,
      no_password = br_password c, no_token = br_token c, no_tls_ca = br_tls_ca c, no_tls_cert = br_tls_cert c,
      no_tls_key = br_tls_key c, no_connect_timeout_ms = br_connect_timeout_ms c, no_ping_interval_ms = br_ping_interval_ms c,
      no_reconnect_wait_ms = br_reconnect_wait_ms c, no_max_reconnect = br_max_reconnect c, no_tls = br_tls c,
      no_tls_skip_verify = br_tls_skip_verify c\<rparr>"

definition mb_nats_options_from_import :: "pb_import_config \<Rightarrow> mb_nats_options_config" where
  "mb_nats_options_from_import c =
     \<lparr>no_servers = fst (im_servers c), no_name = im_name c, no_creds = im_creds c, no_user = im_user c,
      no_password = im_password c, no_token = im_token c, no_tls_ca = im_tls_ca c, no_tls_cert = im_tls_cert c,
      no_tls_key = im_tls_key c, no_connect_timeout_ms = im_connect_timeout_ms c, no_ping_interval_ms = im_ping_interval_ms c,
      no_reconnect_wait_ms = im_reconnect_wait_ms c, no_max_reconnect = im_max_reconnect c, no_tls = im_tls c,
      no_tls_skip_verify = im_tls_skip_verify c\<rparr>"

text \<open>The settings accepted so far and the tracked strings.\<close>

type_synonym nats_opts = "nats_option list \<times> mb_nats_strings"
type_synonym opt_stage = "nats_opts \<Rightarrow> bool \<times> nats_opts"
type_synonym opt_status = "nats_option list \<Rightarrow> nats_option \<Rightarrow> nats_status"

definition then_stage :: "opt_stage \<Rightarrow> opt_stage \<Rightarrow> opt_stage" where
  "then_stage f g st = (case f st of (False, st) \<Rightarrow> (False, st) | (True, st) \<Rightarrow> g st)"

definition skip_stage :: opt_stage where
  "skip_stage st = (True, st)"

definition fail_stage :: opt_stage where
  "fail_stage st = (False, st)"

definition set_option :: "opt_status \<Rightarrow> nats_option \<Rightarrow> opt_stage" where
  "set_option ns opt st = (if set_status (ns (fst st) opt) then (True, fst st @ [opt], snd st) else (False, st))"

definition set_cstr :: "allocator \<Rightarrow> opt_status \<Rightarrow> bytes \<Rightarrow> (bytes \<Rightarrow> nats_option) \<Rightarrow> opt_stage" where
  "set_cstr am ns t opt st =
     (case mb_nats_track_cstr am (snd st) t of
        (None, strings) \<Rightarrow> (False, fst st, strings)
      | (Some s, strings) \<Rightarrow> set_option ns (opt s) (fst st, strings))"

text \<open>Two strings are tracked before either is looked at.\<close>

definition set_cstr2 :: "allocator \<Rightarrow> opt_status \<Rightarrow> bytes \<Rightarrow> bytes \<Rightarrow> (bytes \<Rightarrow> bytes \<Rightarrow> nats_option) \<Rightarrow> opt_stage" where
  "set_cstr2 am ns t u opt st =
     (case mb_nats_track_cstr am (snd st) t of
        (r, strings) \<Rightarrow>
          (case mb_nats_track_cstr am strings u of
             (r', strings) \<Rightarrow>
               (case (r, r') of
                  (Some s, Some s') \<Rightarrow> set_option ns (opt s s') (fst st, strings)
                | _ \<Rightarrow> (False, fst st, strings))))"

fun track_servers :: "allocator \<Rightarrow> bytes list \<Rightarrow> bytes list \<Rightarrow> mb_nats_strings \<Rightarrow> bytes list option \<times> mb_nats_strings" where
  "track_servers am [] out strings = (Some out, strings)"
| "track_servers am (t # ts) out strings =
     (case mb_nats_track_cstr am strings t of
        (None, strings) \<Rightarrow> (None, strings)
      | (Some s, strings) \<Rightarrow> track_servers am ts (out @ [s]) strings)"

definition set_servers :: "allocator \<Rightarrow> opt_status \<Rightarrow> bytes list \<Rightarrow> opt_stage" where
  "set_servers am ns servers st =
     (if 2 ^ 31 - 1 < length servers then (False, st)
      else if \<not> am (length servers * 8) then (False, st)
      else case track_servers am servers [] (snd st) of
        (None, strings) \<Rightarrow> (False, fst st, strings)
      | (Some names, strings) \<Rightarrow> set_option ns (SetServers names) (fst st, strings))"

definition set_auth :: "allocator \<Rightarrow> opt_status \<Rightarrow> mb_nats_options_config \<Rightarrow> opt_stage" where
  "set_auth am ns c =
     (case no_creds c of
        Some creds \<Rightarrow> set_cstr am ns creds SetUserCredentialsFromFiles
      | None \<Rightarrow>
          (case (no_user c, no_password c) of
             (Some user, Some password) \<Rightarrow> set_cstr2 am ns user password SetUserInfo
           | (None, None) \<Rightarrow> (case no_token c of Some token \<Rightarrow> set_cstr am ns token SetToken | None \<Rightarrow> skip_stage)
           | _ \<Rightarrow> fail_stage))"

definition set_tls :: "allocator \<Rightarrow> opt_status \<Rightarrow> mb_nats_options_config \<Rightarrow> opt_stage" where
  "set_tls am ns c =
     then_stage
       (if no_tls c \<or> no_tls_ca c \<noteq> None \<or> no_tls_cert c \<noteq> None \<or> no_tls_skip_verify c then set_option ns (SetSecure True) else skip_stage)
       (then_stage (case no_tls_ca c of Some ca \<Rightarrow> set_cstr am ns ca LoadCATrustedCertificates | None \<Rightarrow> skip_stage)
       (then_stage
         (case (no_tls_cert c, no_tls_key c) of
            (Some cert, Some key) \<Rightarrow> set_cstr2 am ns cert key LoadCertificatesChain
          | (None, None) \<Rightarrow> skip_stage
          | _ \<Rightarrow> fail_stage)
         (if no_tls_skip_verify c then set_option ns (SkipServerVerification True) else skip_stage)))"

definition set_number :: "opt_status \<Rightarrow> int option \<Rightarrow> (int \<Rightarrow> nats_option) \<Rightarrow> opt_stage" where
  "set_number ns x opt = (case x of Some n \<Rightarrow> set_option ns (opt n) | None \<Rightarrow> skip_stage)"

definition mb_nats_set_options :: "allocator \<Rightarrow> opt_status \<Rightarrow> mb_nats_options_config \<Rightarrow> opt_stage" where
  "mb_nats_set_options am ns c =
     then_stage (set_servers am ns (no_servers c))
       (then_stage (case no_name c of Some name \<Rightarrow> set_cstr am ns name SetName | None \<Rightarrow> skip_stage)
       (then_stage (set_auth am ns c)
       (then_stage (set_tls am ns c)
       (then_stage (set_number ns (no_connect_timeout_ms c) SetTimeout)
       (then_stage (set_number ns (no_ping_interval_ms c) SetPingInterval)
       (then_stage (set_number ns (no_max_reconnect c) SetMaxReconnect)
         (set_number ns (no_reconnect_wait_ms c) SetReconnectWait)))))))"

section \<open>Users of the library\<close>

text \<open>The count of users, and how often \<open>nats_Close\<close> was called.\<close>

type_synonym nats_users = "nat \<times> nat"

definition mb_nats_retain :: "nats_users \<Rightarrow> nats_users" where
  "mb_nats_retain u = ((fst u + 1) mod 2 ^ 64, snd u)"

definition mb_nats_release :: "nats_users \<Rightarrow> nats_users" where
  "mb_nats_release u =
     (if fst u = 0 then u
      else let n = fst u - 1 in (n, if n = 0 then snd u + 1 else snd u))"

end
