(* ===== verification/Bridge.thy ===== *)
theory Bridge
  imports Nats_Common Router_Publish
begin

text \<open>
  The bridge (\<open>src/src/bridge.c\<close>): messages of the router whose subjects match an export filter are
  published to a remote NATS server. What the server receives is the list of published
  messages; the answers of the client library are parameters.
\<close>

definition MB_NATS_ORIGIN_HEADER :: bytes where "MB_NATS_ORIGIN_HEADER = ''x-monoblok''"
definition MB_NATS_REPLAY_HEADER :: bytes where "MB_NATS_REPLAY_HEADER = ''x-monoblok-replay''"
definition MB_NATS_ASSUMED_TS_HEADER :: bytes where "MB_NATS_ASSUMED_TS_HEADER = ''x-monoblok-assumed-ts''"

record nats_msg =
  nm_subject :: bytes
  nm_payload :: bytes
  nm_headers :: "(bytes \<times> bytes) list"

text \<open>The calls of the library: \<open>nc_set\<close> for options, and for a message its creation, each header, and its publication.\<close>

record nats_client =
  nc_create_options :: nats_status
  nc_set :: opt_status
  nc_connect :: "nats_option list \<Rightarrow> nats_status"
  nc_header_support :: nats_status
  nc_create_msg :: "nats_msg \<Rightarrow> nats_status"
  nc_set_header :: "nats_msg \<Rightarrow> bytes \<times> bytes \<Rightarrow> nats_status"
  nc_publish :: "nats_msg \<Rightarrow> nats_status"

text \<open>\<open>bg_conn\<close> holds the options the connection was made with.\<close>

record mb_bridge =
  bg_conn :: "nats_option list option"
  bg_config :: "pb_bridge_config option"
  bg_subject_scratch_cap :: nat
  bg_origin_header_value :: "bytes option"
  bg_published :: u64
  bg_dropped :: u64
  bg_last_status :: nats_status
  bg_started :: bool

definition bridge_new :: "pb_bridge_config option \<Rightarrow> mb_bridge" where
  "bridge_new config =
     \<lparr>bg_conn = None, bg_config = config, bg_subject_scratch_cap = 0, bg_origin_header_value = None, bg_published = 0,
      bg_dropped = 0, bg_last_status = NATS_OK, bg_started = False\<rparr>"

text \<open>The part after the options are set; \<open>origin\<close> is the value of the origin header.\<close>

definition bridge_connect ::
  "nats_client \<Rightarrow> pb_bridge_config \<Rightarrow> nats_option list \<Rightarrow> bytes option \<Rightarrow> mb_bridge \<Rightarrow> nats_users \<Rightarrow> bool \<times> mb_bridge \<times> nats_users" where
  "bridge_connect nc config opts origin b u =
     (let u = mb_nats_retain u;
          ok = set_status (nc_connect nc opts);
          ok = (if ok \<and> (br_origin_header config \<or> br_replay_header config) then set_status (nc_header_support nc) else ok)
      in if ok then (True, b\<lparr>bg_conn := Some opts, bg_origin_header_value := origin, bg_started := True\<rparr>, u)
         else (False, b, mb_nats_release u))"

definition mb_bridge_start ::
  "allocator \<Rightarrow> nats_client \<Rightarrow> bytes option \<Rightarrow> pb_bridge_config option \<Rightarrow> nats_users \<Rightarrow> bool \<times> mb_bridge \<times> nats_users" where
  "mb_bridge_start am nc host config u =
     (let b = bridge_new config
      in case config of
           None \<Rightarrow> (True, b, u)
         | Some c \<Rightarrow>
             if \<not> set_status (nc_create_options nc) then (False, b, u)
             else case mb_nats_set_options am (nc_set nc) (mb_nats_options_from_bridge c) ([], ([], 0)) of
               (False, _) \<Rightarrow> (False, b, u)
             | (True, opts, _) \<Rightarrow>
                 if br_origin_header c then
                   (case mb_nats_origin_header_value am host of
                      None \<Rightarrow> (False, b, u)
                    | Some origin \<Rightarrow> bridge_connect nc c opts (Some origin) b u)
                 else bridge_connect nc c opts None b u)"

definition bridge_matches_export :: "pb_bridge_config \<Rightarrow> bytes \<Rightarrow> bool" where
  "bridge_matches_export config subject \<longleftrightarrow> list_ex (\<lambda>flt. mb_router_subject_matches flt subject) (fst (br_exports config))"

text \<open>The headers of a message; the time is printed in decimal.\<close>

definition int_text :: "int \<Rightarrow> bytes" where
  "int_text n = (if n < 0 then CHR ''-'' # dec_digits (nat (- n)) else dec_digits (nat n))"

definition bridge_headers :: "mb_bridge \<Rightarrow> pb_bridge_config \<Rightarrow> mb_router_publish_options \<Rightarrow> (bytes \<times> bytes) list" where
  "bridge_headers b c options =
     (let add_replay_header = br_replay_header c \<and> opt_replaying options
      in (case bg_origin_header_value b of None \<Rightarrow> [] | Some v \<Rightarrow> [(MB_NATS_ORIGIN_HEADER, v)])
         @ (if add_replay_header then [(MB_NATS_REPLAY_HEADER, ''true'')] else [])
         @ (if add_replay_header \<and> opt_has_assumed_ts_ms options
            then [(MB_NATS_ASSUMED_TS_HEADER, int_text (opt_assumed_ts_ms options))] else []))"

text \<open>Setting the headers of a created message, and then publishing it.\<close>

fun send_with_headers :: "nats_client \<Rightarrow> nats_msg \<Rightarrow> (bytes \<times> bytes) list \<Rightarrow> nats_status \<times> nats_msg list" where
  "send_with_headers nc msg [] = (let status = nc_publish nc msg in (status, if status = NATS_OK then [msg] else []))"
| "send_with_headers nc msg (h # hs) =
     (let status = nc_set_header nc msg h
      in if status \<noteq> NATS_OK then (status, []) else send_with_headers nc (msg\<lparr>nm_headers := nm_headers msg @ [h]\<rparr>) hs)"

definition bridge_send :: "nats_client \<Rightarrow> nats_msg \<Rightarrow> (bytes \<times> bytes) list \<Rightarrow> nats_status \<times> nats_msg list" where
  "bridge_send nc msg hs =
     (if hs = [] then send_with_headers nc msg []
      else let status = nc_create_msg nc msg in if status \<noteq> NATS_OK then (status, []) else send_with_headers nc msg hs)"

definition mb_bridge_publish_with_options ::
  "allocator \<Rightarrow> nats_client \<Rightarrow> mb_bridge \<Rightarrow> bytes \<Rightarrow> bytes \<Rightarrow> mb_router_publish_options \<Rightarrow> mb_bridge \<times> nats_msg list" where
  "mb_bridge_publish_with_options am nc b subject payload options =
     (case bg_config b of
        None \<Rightarrow> (b, [])
      | Some c \<Rightarrow>
          if \<not> bg_started b \<or> bg_conn b = None \<or> \<not> bridge_matches_export c subject then (b, [])
          else if 2 ^ 31 - 1 < length payload then (b\<lparr>bg_dropped := bg_dropped b + 1\<rparr>, [])
          else case mb_array_reserve am (bg_subject_scratch_cap b) (length subject + 1) 1 64 of
            None \<Rightarrow> (b\<lparr>bg_dropped := bg_dropped b + 1\<rparr>, [])
          | Some cap \<Rightarrow>
              let b = b\<lparr>bg_subject_scratch_cap := cap\<rparr>;
                  msg = \<lparr>nm_subject = c_string subject, nm_payload = payload, nm_headers = []\<rparr>
              in case bridge_send nc msg (bridge_headers b c options) of
                   (status, sent) \<Rightarrow>
                     if status = NATS_OK then (b\<lparr>bg_published := bg_published b + 1\<rparr>, sent)
                     else (b\<lparr>bg_dropped := bg_dropped b + 1, bg_last_status := status\<rparr>, sent))"

definition mb_bridge_publish :: "allocator \<Rightarrow> nats_client \<Rightarrow> mb_bridge \<Rightarrow> bytes \<Rightarrow> bytes \<Rightarrow> mb_bridge \<times> nats_msg list" where
  "mb_bridge_publish am nc b subject payload =
     mb_bridge_publish_with_options am nc b subject payload
       \<lparr>opt_replaying = False, opt_has_assumed_ts_ms = False, opt_assumed_ts_ms = 0\<rparr>"

definition mb_bridge_close :: "mb_bridge \<Rightarrow> nats_users \<Rightarrow> mb_bridge \<times> nats_users" where
  "mb_bridge_close b u = (bridge_new None, if bg_started b then mb_nats_release u else u)"

end
