(* ===== verification/Importer.thy ===== *)
theory Importer
  imports Bridge
begin

text \<open>
  The importer of a core NATS subscription (\<open>src/src/importer.c\<close>). A worker thread copies what it receives into
  a ring; the event loop drains the ring into the patchbay. Every section under the lock is one
  definition; the two threads are put together from these sections below.
\<close>

definition MB_IMPORT_DEFAULT_MAX_PENDING :: nat where "MB_IMPORT_DEFAULT_MAX_PENDING = 4096"

text \<open>\<open>sl_bytes\<close> is what was last copied to the slot.\<close>

record mb_import_slot =
  sl_bytes :: bytes
  sl_cap :: nat
  sl_subject_len :: nat
  sl_payload_len :: nat

definition IMPORT_SLOT_SIZE :: nat where "IMPORT_SLOT_SIZE = 32"

text \<open>
  \<open>ip_async_pending\<close> says that \<open>uv_async_send\<close> was called and the callback has not run since;
  calls before that are merged into one.
\<close>

record mb_importer =
  ip_config :: "pb_import_config option"
  ip_conn :: "nats_option list option"
  ip_subs :: "bytes list \<times> nat"
  ip_ring :: "mb_import_slot list"
  ip_head :: nat
  ip_len :: nat
  ip_pending_received :: u64
  ip_pending_dropped :: u64
  ip_received :: u64
  ip_processed :: u64
  ip_dropped :: u64
  ip_failed :: u64
  ip_last_status :: nats_status
  ip_drain_scratch :: mb_buf
  ip_async_pending :: bool
  ip_lock_started :: bool
  ip_async_started :: bool
  ip_thread_started :: bool
  ip_started :: bool
  ip_closing :: bool

definition importer_new :: "pb_import_config option \<Rightarrow> mb_importer" where
  "importer_new config =
     \<lparr>ip_config = config, ip_conn = None, ip_subs = ([], 0), ip_ring = [], ip_head = 0, ip_len = 0,
      ip_pending_received = 0, ip_pending_dropped = 0, ip_received = 0, ip_processed = 0, ip_dropped = 0, ip_failed = 0,
      ip_last_status = NATS_OK, ip_drain_scratch = mb_buf_zero, ip_async_pending = False, ip_lock_started = False,
      ip_async_started = False, ip_thread_started = False, ip_started = False, ip_closing = False\<rparr>"

section \<open>The worker\<close>

definition slot_reserve :: "allocator \<Rightarrow> mb_import_slot \<Rightarrow> nat \<Rightarrow> bool \<times> mb_import_slot" where
  "slot_reserve am slot needed =
     (if needed \<le> sl_cap slot then (True, slot)
      else if am (if needed = 0 then 1 else needed) then (True, slot\<lparr>sl_cap := needed\<rparr>)
      else (False, slot))"

definition import_wake :: "mb_importer \<Rightarrow> mb_importer" where
  "import_wake p = (if ip_async_started p then p\<lparr>ip_async_pending := True\<rparr> else p)"

definition import_wake_open :: "mb_importer \<Rightarrow> mb_importer" where
  "import_wake_open p = (if ip_closing p then p else import_wake p)"

definition import_record_drop :: "mb_importer \<Rightarrow> mb_importer" where
  "import_record_drop p =
     import_wake_open (p\<lparr>ip_pending_received := ip_pending_received p + 1, ip_pending_dropped := ip_pending_dropped p + 1\<rparr>)"

text \<open>The section under the lock; the subject and the payload have been checked.\<close>

definition import_enqueue :: "allocator \<Rightarrow> mb_importer \<Rightarrow> bytes \<Rightarrow> bytes \<Rightarrow> mb_importer" where
  "import_enqueue am p subject payload =
     (let p = p\<lparr>ip_pending_received := ip_pending_received p + 1\<rparr>
      in if ip_closing p \<or> length (ip_ring p) \<le> ip_len p
         then import_wake_open (p\<lparr>ip_pending_dropped := ip_pending_dropped p + 1\<rparr>)
         else let idx = (ip_head p + ip_len p) mod length (ip_ring p); slot = ip_ring p ! idx
              in case slot_reserve am slot (length subject + length payload) of
                   (False, slot) \<Rightarrow> import_wake_open (p\<lparr>ip_pending_dropped := ip_pending_dropped p + 1\<rparr>)
                 | (True, slot) \<Rightarrow>
                     import_wake
                       (p\<lparr>ip_ring := (ip_ring p)[idx := slot\<lparr>sl_bytes := subject @ payload, sl_subject_len := length subject,
                                                            sl_payload_len := length payload\<rparr>],
                          ip_len := ip_len p + 1\<rparr>))"

text \<open>The pointers are \<open>None\<close> when they are null.\<close>

definition import_queue_msg :: "allocator \<Rightarrow> mb_importer \<Rightarrow> bytes option \<Rightarrow> bytes option \<Rightarrow> nat \<Rightarrow> mb_importer" where
  "import_queue_msg am p subject payload payload_len =
     (case subject of
        None \<Rightarrow> import_record_drop p
      | Some subject \<Rightarrow>
          if (payload = None \<and> payload_len \<noteq> 0) \<or> MB_MAX_PAYLOAD < payload_len then import_record_drop p
          else if \<not> mb_proto_subject_valid subject False \<or> mb_router_subject_has_lvc_prefix subject
               \<or> mb_router_subject_has_stats_prefix subject \<or> SIZE_MAX - length subject < payload_len then import_record_drop p
          else import_enqueue am p subject (case payload of None \<Rightarrow> [] | Some t \<Rightarrow> take payload_len t))"

text \<open>A received message: its subject, its data and their length, and the answer to asking for the origin header.\<close>

record import_msg =
  rm_subject :: "bytes option"
  rm_data :: "bytes option"
  rm_len :: int
  rm_origin :: "nats_status \<times> bytes option"

definition import_has_origin_header :: "mb_importer \<Rightarrow> import_msg \<Rightarrow> bool \<times> mb_importer" where
  "import_has_origin_header p msg =
     (case ip_config p of
        None \<Rightarrow> (False, p)
      | Some c \<Rightarrow>
          if \<not> im_origin_header c then (False, p)
          else case rm_origin msg of
            (NATS_OK, v) \<Rightarrow> (case v of None \<Rightarrow> (False, p) | Some t \<Rightarrow> (t \<noteq> [], p))
          | (NATS_NOT_FOUND, _) \<Rightarrow> (False, p)
          | (status, _) \<Rightarrow> (False, p\<lparr>ip_last_status := status\<rparr>))"

definition import_handle_nats_msg :: "allocator \<Rightarrow> mb_importer \<Rightarrow> import_msg option \<Rightarrow> mb_importer" where
  "import_handle_nats_msg am p msg =
     (case msg of
        None \<Rightarrow> p
      | Some msg \<Rightarrow>
          (case import_has_origin_header p msg of
             (True, p) \<Rightarrow> import_record_drop p
           | (False, p) \<Rightarrow>
               if rm_len msg < 0 then import_record_drop p
               else import_queue_msg am p (rm_subject msg) (rm_data msg) (nat (rm_len msg))))"

text \<open>One answer of \<open>natsSubscription_NextMsg\<close> in the loop of the worker.\<close>

definition import_poll :: "allocator \<Rightarrow> mb_importer \<Rightarrow> nats_status \<Rightarrow> import_msg option \<Rightarrow> mb_importer" where
  "import_poll am p status msg =
     (if status = NATS_OK then import_handle_nats_msg am p msg
      else if status \<noteq> NATS_TIMEOUT \<and> status \<noteq> NATS_NOT_FOUND then p\<lparr>ip_last_status := status\<rparr>
      else p)"

section \<open>Draining\<close>

definition import_flush_pending_counters :: "mb_importer \<Rightarrow> mb_importer" where
  "import_flush_pending_counters p =
     p\<lparr>ip_received := ip_received p + ip_pending_received p, ip_dropped := ip_dropped p + ip_pending_dropped p,
       ip_pending_received := 0, ip_pending_dropped := 0\<rparr>"

text \<open>The first section: \<open>None\<close> when the ring is empty, otherwise the size of the oldest message.\<close>

definition drain_peek :: "mb_importer \<Rightarrow> nat option \<times> mb_importer" where
  "drain_peek p =
     (let p = import_flush_pending_counters p
      in if ip_len p = 0 then (None, p)
         else let slot = ip_ring p ! ip_head p in (Some (sl_subject_len slot + sl_payload_len slot), p))"

definition drain_reserve :: "allocator \<Rightarrow> mb_importer \<Rightarrow> nat \<Rightarrow> bool \<times> mb_importer" where
  "drain_reserve am p n =
     (case mb_buf_reserve am (mb_buf_clear (ip_drain_scratch p)) n of (ok, b) \<Rightarrow> (ok, p\<lparr>ip_drain_scratch := b\<rparr>))"

definition drain_pop :: "mb_importer \<Rightarrow> mb_importer" where
  "drain_pop p = p\<lparr>ip_head := (ip_head p + 1) mod length (ip_ring p), ip_len := ip_len p - 1\<rparr>"

text \<open>The section after a failed reserve.\<close>

definition drain_fail :: "mb_importer \<Rightarrow> mb_importer" where
  "drain_fail p =
     (let p = import_flush_pending_counters p
      in if ip_len p = 0 then p else (drain_pop p)\<lparr>ip_failed := ip_failed p + 1\<rparr>)"

text \<open>
  The section that copies: the outer \<open>None\<close> is a copy that does not fit in the buffer, the inner
  one an empty ring. The lengths of the subject and of the payload come with it.
\<close>

definition drain_copy :: "mb_importer \<Rightarrow> ((nat \<times> nat) option \<times> mb_importer) option" where
  "drain_copy p =
     (let p = import_flush_pending_counters p
      in if ip_len p = 0 then Some (None, p)
         else let slot = ip_ring p ! ip_head p; n = sl_subject_len slot + sl_payload_len slot
              in if buf_cap (ip_drain_scratch p) < n \<or> length (sl_bytes slot) < n then None
                 else Some (Some (sl_subject_len slot, sl_payload_len slot),
                            drain_pop (p\<lparr>ip_drain_scratch := (ip_drain_scratch p)\<lparr>buf_data := take n (sl_bytes slot)\<rparr>\<rparr>)))"

definition drain_message :: "mb_importer \<Rightarrow> nat \<times> nat \<Rightarrow> bytes \<times> bytes" where
  "drain_message p lens =
     (take (fst lens) (buf_data (ip_drain_scratch p)), take (snd lens) (drop (fst lens) (buf_data (ip_drain_scratch p))))"

definition drain_count :: "mb_importer \<Rightarrow> bool \<Rightarrow> mb_importer" where
  "drain_count p ok = (if ok then p\<lparr>ip_processed := ip_processed p + 1\<rparr> else p\<lparr>ip_failed := ip_failed p + 1\<rparr>)"

text \<open>
  The whole loop when no other thread runs; \<open>w\<close> is the state the handler works on. In the program the
  worker may take the lock between two sections of a round; \<open>import_step\<close> interleaves the
  sections, and the properties of the importer are about it.
\<close>

fun drain_loop ::
  "nat \<Rightarrow> allocator \<Rightarrow> (bytes \<Rightarrow> bytes \<Rightarrow> 'w \<Rightarrow> bool \<times> 'w) \<Rightarrow> mb_importer \<Rightarrow> 'w \<Rightarrow> (mb_importer \<times> 'w) option" where
  "drain_loop 0 am handler p w = None"
| "drain_loop (Suc n) am handler p w =
     (case drain_peek p of
        (None, p) \<Rightarrow> Some (p, w)
      | (Some n_bytes, p) \<Rightarrow>
          (case drain_reserve am p n_bytes of
             (False, p) \<Rightarrow> drain_loop n am handler (drain_fail p) w
           | (True, p) \<Rightarrow>
               do { (lens, p) \<leftarrow> drain_copy p;
                    case lens of
                      None \<Rightarrow> drain_loop n am handler p w
                    | Some lens \<Rightarrow>
                        (case drain_message p lens of
                           (subject, payload) \<Rightarrow>
                             (case handler subject payload w of (ok, w) \<Rightarrow> drain_loop n am handler (drain_count p ok) w)) }))"

text \<open>Each round removes a message, so one more round than messages is enough.\<close>

definition mb_importer_drain ::
  "allocator \<Rightarrow> (bytes \<Rightarrow> bytes \<Rightarrow> 'w \<Rightarrow> bool \<times> 'w) \<Rightarrow> mb_importer \<Rightarrow> 'w \<Rightarrow> (mb_importer \<times> 'w) option" where
  "mb_importer_drain am handler p w =
     (if \<not> ip_lock_started p then Some (p, w) else drain_loop (ip_len p + 1) am handler p w)"

section \<open>Starting and closing\<close>

definition sub_vec_append :: "allocator \<Rightarrow> mb_importer \<Rightarrow> bytes \<Rightarrow> mb_importer option" where
  "sub_vec_append am p sub =
     (case mb_array_reserve am (snd (ip_subs p)) (length (fst (ip_subs p)) + 1) 8 4 of
        None \<Rightarrow> None
      | Some cap \<Rightarrow> Some (p\<lparr>ip_subs := (fst (ip_subs p) @ [sub], cap)\<rparr>))"

text \<open>The first section of a close; then the worker is joined.\<close>

definition close_mark :: "mb_importer \<Rightarrow> mb_importer" where
  "close_mark p = (if ip_lock_started p then import_flush_pending_counters (p\<lparr>ip_closing := True\<rparr>) else p\<lparr>ip_closing := True\<rparr>)"

definition close_release :: "mb_importer \<Rightarrow> nats_users \<Rightarrow> mb_importer \<times> nats_users" where
  "close_release p u =
     (p\<lparr>ip_thread_started := False, ip_subs := ([], 0), ip_conn := None, ip_started := False, ip_async_started := False,
        ip_async_pending := False, ip_ring := [], ip_head := 0, ip_len := 0, ip_drain_scratch := mb_buf_free (ip_drain_scratch p),
        ip_lock_started := False\<rparr>,
      if ip_started p then mb_nats_release u else u)"

definition mb_importer_close :: "mb_importer \<Rightarrow> nats_users \<Rightarrow> mb_importer \<times> nats_users" where
  "mb_importer_close p u = close_release (close_mark p) u"

text \<open>What the libraries answer while an importer starts.\<close>

record import_io =
  ii_client :: nats_client
  ii_mutex_init :: bool
  ii_async_init :: bool
  ii_subscribe :: "bytes \<Rightarrow> nats_status"
  ii_thread_create :: bool

fun import_subscribe ::
  "allocator \<Rightarrow> import_io \<Rightarrow> bytes list \<Rightarrow> mb_nats_strings \<Rightarrow> mb_importer \<Rightarrow> bool \<times> mb_importer" where
  "import_subscribe am io [] strings p = (True, p)"
| "import_subscribe am io (t # ts) strings p =
     (case mb_nats_track_cstr am strings t of
        (None, strings) \<Rightarrow> (False, p)
      | (Some subject, strings) \<Rightarrow>
          if \<not> set_status (ii_subscribe io subject) then (False, p)
          else case sub_vec_append am p subject of
            None \<Rightarrow> (False, p)
          | Some p \<Rightarrow> import_subscribe am io ts strings p)"

definition import_connect ::
  "import_io \<Rightarrow> pb_import_config \<Rightarrow> nats_option list \<Rightarrow> mb_importer \<Rightarrow> nats_users \<Rightarrow> bool \<times> mb_importer \<times> nats_users" where
  "import_connect io c opts p u =
     (let u = mb_nats_retain u;
          ok = set_status (nc_connect (ii_client io) opts);
          ok = (if ok \<and> im_origin_header c then set_status (nc_header_support (ii_client io)) else ok)
      in if ok then (True, p\<lparr>ip_conn := Some opts, ip_started := True\<rparr>, u) else (False, p, mb_nats_release u))"

text \<open>What follows the set-up of the handles; a failure closes the importer.\<close>

definition import_open ::
  "allocator \<Rightarrow> import_io \<Rightarrow> pb_import_config \<Rightarrow> mb_importer \<Rightarrow> nats_users \<Rightarrow> bool \<times> mb_importer \<times> nats_users" where
  "import_open am io c p u =
     (case mb_nats_set_options am (nc_set (ii_client io)) (mb_nats_options_from_import c) ([], ([], 0)) of
        (False, _) \<Rightarrow> (False, p, u)
      | (True, opts, strings) \<Rightarrow>
          (case import_connect io c opts p u of
             (False, p, u) \<Rightarrow> (False, p, u)
           | (True, p, u) \<Rightarrow>
               (case import_subscribe am io (fst (im_subjects c)) strings p of
                  (False, p) \<Rightarrow> (False, p, u)
                | (True, p) \<Rightarrow>
                    if ii_thread_create io then (True, p\<lparr>ip_thread_started := True\<rparr>, u) else (False, p, u))))"

definition slot_zero :: mb_import_slot where
  "slot_zero = \<lparr>sl_bytes = [], sl_cap = 0, sl_subject_len = 0, sl_payload_len = 0\<rparr>"

text \<open>\<open>calloc\<close> refuses a product above \<open>SIZE_MAX\<close>.\<close>

definition mb_importer_start ::
  "allocator \<Rightarrow> import_io \<Rightarrow> pb_import_config option \<Rightarrow> nats_users \<Rightarrow> bool \<times> mb_importer \<times> nats_users" where
  "mb_importer_start am io config u =
     (let p = importer_new config; failed = (\<lambda>p u. (False, mb_importer_close p u))
      in case config of
           None \<Rightarrow> (True, p, u)
         | Some c \<Rightarrow>
             let max_pending = (case im_max_pending c of Some n \<Rightarrow> n | None \<Rightarrow> MB_IMPORT_DEFAULT_MAX_PENDING)
             in if SIZE_MAX < max_pending * IMPORT_SLOT_SIZE \<or> \<not> am (max_pending * IMPORT_SLOT_SIZE) then (False, p, u)
                else let p = p\<lparr>ip_ring := replicate max_pending slot_zero\<rparr>
                     in if \<not> ii_mutex_init io then failed p u
                        else let p = p\<lparr>ip_lock_started := True\<rparr>
                             in if \<not> ii_async_init io then failed p u
                                else let p = p\<lparr>ip_async_started := True\<rparr>
                                     in if \<not> set_status (nc_create_options (ii_client io)) then failed p u
                                        else case import_open am io c p u of
                                          (False, p, u) \<Rightarrow> failed p u
                                        | (True, p, u) \<Rightarrow> (True, p, u))"

end
