(* ===== verification/Jetstream.thy ===== *)
theory Jetstream
  imports Importer
begin

text \<open>
  The importer of JetStream consumers (\<open>src/src/jetstream.c\<close>). At start-up a stream is caught up on the loop's thread; afterwards a
  worker fetches one message at a time and hands it to the event loop, which runs the patchbay and acknowledges it.
  The world \<open>'w\<close> holds the server and the patchbay: a fetch, an acknowledgement and the handler change
  it, and these are parameters. Every section under the lock is one definition.
\<close>

definition MB_JS_CATCHUP_BATCH :: nat where "MB_JS_CATCHUP_BATCH = 64"

record js_meta =
  mt_timestamp :: int
  mt_stream_seq :: u64
  mt_num_delivered :: u64

text \<open>A message: its address, the answer to asking for its metadata, its subject, data and length.\<close>

record js_msg =
  jm_ptr :: nat
  jm_meta :: "nats_status \<times> js_meta"
  jm_subject :: "bytes option"
  jm_data :: "bytes option"
  jm_len :: int

text \<open>
  The answers of the libraries. \<open>je_stream_info\<close> is the last sequence number of a stream,
  \<open>je_consumer_info\<close> the number of pending messages and the acknowledgement floor of a consumer.
\<close>

record 'w js_env =
  je_client :: nats_client
  je_mutex_init :: bool
  je_cond_init :: bool
  je_async_init :: bool
  je_thread_create :: bool
  je_jetstream :: nats_status
  je_sub_options :: nats_status
  je_pull_subscribe :: "bytes \<Rightarrow> bytes \<Rightarrow> bytes \<Rightarrow> nats_status"
  je_stream_info :: "bytes \<Rightarrow> 'w \<Rightarrow> nats_status \<times> u64"
  je_consumer_info :: "bytes \<Rightarrow> bytes \<Rightarrow> 'w \<Rightarrow> nats_status \<times> u64 \<times> u64"
  je_fetch :: "nat \<Rightarrow> 'w \<Rightarrow> nats_status \<times> js_msg option list \<times> 'w"
  je_handler :: "pb_import_stream_config \<Rightarrow> bytes \<Rightarrow> bytes \<Rightarrow> u64 \<Rightarrow> int \<Rightarrow> bool \<Rightarrow> 'w \<Rightarrow> bool \<times> 'w"
  je_ack :: "js_msg \<Rightarrow> 'w \<Rightarrow> nats_status \<times> 'w"

record mb_js_stream =
  jt_config :: pb_import_stream_config
  jt_conn :: "nats_option list option"
  jt_sub :: "(bytes \<times> bytes \<times> bytes) option"
  jt_pending_msg :: "js_msg option"
  jt_catchup_to :: u64
  jt_last_stream_seq :: u64
  jt_last_event_now_ms :: u64
  jt_last_event_wall_ms :: int
  jt_received :: u64
  jt_processed :: u64
  jt_acked :: u64
  jt_redelivered :: u64
  jt_failed :: u64
  jt_last_status :: nats_status
  jt_lock_started :: bool
  jt_cond_started :: bool
  jt_async_started :: bool
  jt_thread_started :: bool
  jt_started :: bool
  jt_closing :: bool
  jt_pending_ready :: bool
  jt_pending_in_process :: bool
  jt_pending_done :: bool
  jt_pending_ok :: bool

definition js_stream_zero :: "pb_import_stream_config \<Rightarrow> mb_js_stream" where
  "js_stream_zero config =
     \<lparr>jt_config = config, jt_conn = None, jt_sub = None, jt_pending_msg = None, jt_catchup_to = 0, jt_last_stream_seq = 0,
      jt_last_event_now_ms = 0, jt_last_event_wall_ms = 0, jt_received = 0, jt_processed = 0, jt_acked = 0, jt_redelivered = 0,
      jt_failed = 0, jt_last_status = NATS_OK, jt_lock_started = False, jt_cond_started = False, jt_async_started = False,
      jt_thread_started = False, jt_started = False, jt_closing = False, jt_pending_ready = False, jt_pending_in_process = False,
      jt_pending_done = False, jt_pending_ok = False\<rparr>"

definition js_set_status :: "mb_js_stream \<Rightarrow> nats_status \<Rightarrow> bool \<times> mb_js_stream" where
  "js_set_status st status = (if status = NATS_OK then (True, st) else (False, st\<lparr>jt_last_status := status\<rparr>))"

text \<open>A string that is not configured is an empty slice.\<close>

definition opt_text :: "bytes option \<Rightarrow> bytes" where
  "opt_text t = (case t of None \<Rightarrow> [] | Some t \<Rightarrow> t)"

section \<open>Connecting\<close>

text \<open>All three strings are tracked before any of them is looked at.\<close>

definition stream_config_strings ::
  "allocator \<Rightarrow> pb_import_stream_config \<Rightarrow> mb_nats_strings \<Rightarrow> (bytes \<times> bytes \<times> bytes) option" where
  "stream_config_strings am c strings =
     (case fst (im_subjects (is_source c)) of
        [t] \<Rightarrow>
          (case mb_nats_track_cstr am strings t of
             (subject, strings) \<Rightarrow>
               (case mb_nats_track_cstr am strings (opt_text (is_stream c)) of
                  (stream_name, strings) \<Rightarrow>
                    (case mb_nats_track_cstr am strings (opt_text (is_consumer c)) of
                       (consumer_name, strings) \<Rightarrow>
                         (case (subject, stream_name, consumer_name) of
                            (Some s, Some n, Some d) \<Rightarrow> Some (s, n, d)
                          | _ \<Rightarrow> None))))
      | _ \<Rightarrow> None)"

text \<open>What follows \<open>mb_nats_retain\<close>; a failure releases the library again.\<close>

definition js_open :: "allocator \<Rightarrow> 'w js_env \<Rightarrow> nats_option list \<Rightarrow> mb_nats_strings \<Rightarrow> mb_js_stream \<Rightarrow> bool \<times> mb_js_stream" where
  "js_open am env opts strings st =
     (case js_set_status st (nc_connect (je_client env) opts) of
        (False, st) \<Rightarrow> (False, st)
      | (True, st) \<Rightarrow>
          (case js_set_status st (je_jetstream env) of
             (False, st) \<Rightarrow> (False, st)
           | (True, st) \<Rightarrow>
               (case stream_config_strings am (jt_config st) strings of
                  None \<Rightarrow> (False, st)
                | Some (subject, stream_name, consumer_name) \<Rightarrow>
                    (case js_set_status st (je_sub_options env) of
                       (False, st) \<Rightarrow> (False, st)
                     | (True, st) \<Rightarrow>
                         (case js_set_status st (je_pull_subscribe env subject stream_name consumer_name) of
                            (False, st) \<Rightarrow> (False, st)
                          | (True, st) \<Rightarrow>
                              (True, st\<lparr>jt_conn := Some opts, jt_sub := Some (subject, stream_name, consumer_name), jt_started := True\<rparr>))))))"

definition js_stream_connect :: "allocator \<Rightarrow> 'w js_env \<Rightarrow> mb_js_stream \<Rightarrow> nats_users \<Rightarrow> bool \<times> mb_js_stream \<times> nats_users" where
  "js_stream_connect am env st u =
     (case js_set_status st (nc_create_options (je_client env)) of
        (False, st) \<Rightarrow> (False, st, u)
      | (True, st) \<Rightarrow>
          (case mb_nats_set_options am (nc_set (je_client env)) (mb_nats_options_from_import (is_source (jt_config st))) ([], ([], 0)) of
             (False, _) \<Rightarrow> (False, st, u)
           | (True, opts, strings) \<Rightarrow>
               let u = mb_nats_retain u
               in (case js_open am env opts strings st of
                     (True, st) \<Rightarrow> (True, st, u)
                   | (False, st) \<Rightarrow> (False, st, mb_nats_release u))))"

definition js_stream_load_highwater :: "allocator \<Rightarrow> 'w js_env \<Rightarrow> mb_js_stream \<Rightarrow> 'w \<Rightarrow> bool \<times> mb_js_stream" where
  "js_stream_load_highwater am env st w =
     (case mb_nats_track_cstr am ([], 0) (opt_text (is_stream (jt_config st))) of
        (None, _) \<Rightarrow> (False, st)
      | (Some name, _) \<Rightarrow>
          (case je_stream_info env name w of
             (status, last_seq) \<Rightarrow>
               (case js_set_status st status of
                  (False, st) \<Rightarrow> (False, st)
                | (True, st) \<Rightarrow> (True, st\<lparr>jt_catchup_to := last_seq\<rparr>))))"

section \<open>One message\<close>

definition subject_allowed :: "bytes \<Rightarrow> bool" where
  "subject_allowed subject \<longleftrightarrow>
     mb_proto_subject_valid subject False \<and> \<not> mb_router_subject_has_lvc_prefix subject \<and> \<not> mb_router_subject_has_stats_prefix subject"

text \<open>The event's time in milliseconds, never before that of the last acknowledged event.\<close>

definition event_time_from_msg :: "mb_js_stream \<Rightarrow> js_msg \<Rightarrow> (js_meta \<times> u64 \<times> int) option \<times> mb_js_stream" where
  "event_time_from_msg st msg =
     (case js_set_status st (fst (jm_meta msg)) of
        (False, st) \<Rightarrow> (None, st)
      | (True, st) \<Rightarrow>
          let meta = snd (jm_meta msg)
          in if mt_timestamp meta \<le> 0 then (None, st)
             else let wall = mt_timestamp meta div 1000000;
                      wall = (if jt_last_event_wall_ms st \<noteq> 0 \<and> wall < jt_last_event_wall_ms st then jt_last_event_wall_ms st else wall)
                  in if wall < 0 then (None, st) else (Some (meta, word_of_int wall, wall), st))"

definition js_failed :: "mb_js_stream \<Rightarrow> mb_js_stream" where
  "js_failed st = st\<lparr>jt_failed := jt_failed st + 1\<rparr>"

text \<open>The subject and the payload of a well-formed frame.\<close>

definition js_frame :: "js_msg \<Rightarrow> (bytes \<times> bytes) option" where
  "js_frame msg =
     (case jm_subject msg of
        None \<Rightarrow> None
      | Some subject \<Rightarrow>
          if jm_len msg < 0 \<or> (jm_data msg = None \<and> jm_len msg \<noteq> 0) \<or> MB_MAX_PAYLOAD < nat (jm_len msg) then None
          else Some (subject, take (nat (jm_len msg)) (opt_text (jm_data msg))))"

definition js_acknowledge :: "'w js_env \<Rightarrow> mb_js_stream \<Rightarrow> js_msg \<Rightarrow> js_meta \<Rightarrow> u64 \<Rightarrow> int \<Rightarrow> 'w \<Rightarrow> bool \<times> mb_js_stream \<times> 'w" where
  "js_acknowledge env st msg meta now wall w =
     (case je_ack env msg w of
        (status, w) \<Rightarrow>
          (case js_set_status st status of
             (False, st) \<Rightarrow> (False, js_failed st, w)
           | (True, st) \<Rightarrow>
               (True, st\<lparr>jt_acked := jt_acked st + 1, jt_processed := jt_processed st + 1, jt_last_stream_seq := mt_stream_seq meta,
                         jt_last_event_now_ms := now, jt_last_event_wall_ms := wall\<rparr>, w)))"

definition js_stream_process_msg :: "'w js_env \<Rightarrow> mb_js_stream \<Rightarrow> js_msg \<Rightarrow> bool \<Rightarrow> 'w \<Rightarrow> bool \<times> mb_js_stream \<times> 'w" where
  "js_stream_process_msg env st msg replaying w =
     (case event_time_from_msg (st\<lparr>jt_received := jt_received st + 1\<rparr>) msg of
        (None, st) \<Rightarrow> (False, js_failed st, w)
      | (Some (meta, now, wall), st) \<Rightarrow>
          (case js_frame msg of
             None \<Rightarrow> (False, js_failed st, w)
           | Some (subject, payload) \<Rightarrow>
               if \<not> subject_allowed subject then (False, js_failed st, w)
               else let st = (if 1 < mt_num_delivered meta then st\<lparr>jt_redelivered := jt_redelivered st + 1\<rparr> else st)
                    in (case je_handler env (jt_config st) subject payload now wall replaying w of
                          (False, w) \<Rightarrow> (False, js_failed st, w)
                        | (True, w) \<Rightarrow> js_acknowledge env st msg meta now wall w)))"

section \<open>Catching up\<close>

definition js_stream_pending_zero :: "allocator \<Rightarrow> 'w js_env \<Rightarrow> mb_js_stream \<Rightarrow> 'w \<Rightarrow> bool option \<times> mb_js_stream" where
  "js_stream_pending_zero am env st w =
     (case mb_nats_track_cstr am ([], 0) (opt_text (is_stream (jt_config st))) of
        (name, strings) \<Rightarrow>
          (case mb_nats_track_cstr am strings (opt_text (is_consumer (jt_config st))) of
             (consumer, _) \<Rightarrow>
               (case (name, consumer) of
                  (Some name, Some consumer) \<Rightarrow>
                    (case je_consumer_info env name consumer w of
                       (status, pending, ack_floor) \<Rightarrow>
                         (case js_set_status st status of
                            (False, st) \<Rightarrow> (None, st)
                          | (True, st) \<Rightarrow>
                              (Some (pending = 0),
                               if pending = 0 \<and> jt_last_stream_seq st < ack_floor then st\<lparr>jt_last_stream_seq := ack_floor\<rparr> else st)))
                | _ \<Rightarrow> (None, st))))"

text \<open>The loop over a batch: every message is processed, also after a failure.\<close>

fun process_batch :: "'w js_env \<Rightarrow> bool \<Rightarrow> js_msg option list \<Rightarrow> bool \<Rightarrow> mb_js_stream \<Rightarrow> 'w \<Rightarrow> bool \<times> mb_js_stream \<times> 'w" where
  "process_batch env replaying [] ok st w = (ok, st, w)"
| "process_batch env replaying (None # msgs) ok st w = process_batch env replaying msgs ok st w"
| "process_batch env replaying (Some msg # msgs) ok st w =
     (case js_stream_process_msg env st msg replaying w of
        (ok', st, w) \<Rightarrow> process_batch env replaying msgs (ok' \<and> ok) st w)"

text \<open>Whether it succeeded, and whether it timed out.\<close>

definition js_stream_fetch_and_process ::
  "'w js_env \<Rightarrow> mb_js_stream \<Rightarrow> nat \<Rightarrow> bool \<Rightarrow> 'w \<Rightarrow> bool \<times> bool \<times> mb_js_stream \<times> 'w" where
  "js_stream_fetch_and_process env st batch replaying w =
     (case je_fetch env batch w of
        (status, msgs, w) \<Rightarrow>
          if status = NATS_TIMEOUT \<or> status = NATS_NOT_FOUND then (True, True, st, w)
          else (case js_set_status st status of
                  (False, st) \<Rightarrow> (False, False, st, w)
                | (True, st) \<Rightarrow>
                    (case process_batch env replaying msgs True st w of (ok, st, w) \<Rightarrow> (ok, False, st, w))))"

text \<open>Nothing bounds this loop: \<open>None\<close> is a catch-up that never ends.\<close>

partial_function (option) catch_up_loop :: "allocator \<Rightarrow> 'w js_env \<Rightarrow> mb_js_stream \<Rightarrow> 'w \<Rightarrow> (bool \<times> mb_js_stream \<times> 'w) option" where
  "catch_up_loop am env st w =
     (if jt_closing st then Some (False, st, w)
      else if jt_catchup_to st = 0 \<or> jt_catchup_to st \<le> jt_last_stream_seq st then Some (True, st, w)
      else (case js_stream_fetch_and_process env st MB_JS_CATCHUP_BATCH True w of
              (ok, timed_out, st, w) \<Rightarrow>
                if \<not> ok then Some (False, st, w)
                else if jt_catchup_to st \<le> jt_last_stream_seq st then Some (True, st, w)
                else if timed_out \<or> jt_last_stream_seq st < jt_catchup_to st then
                  (case js_stream_pending_zero am env st w of
                     (zero, st) \<Rightarrow> if zero = Some True then Some (True, st, w) else catch_up_loop am env st w)
                else catch_up_loop am env st w))"

declare catch_up_loop.simps [code]

definition js_stream_catch_up :: "allocator \<Rightarrow> 'w js_env \<Rightarrow> mb_js_stream \<Rightarrow> 'w \<Rightarrow> (bool \<times> mb_js_stream \<times> 'w) option" where
  "js_stream_catch_up am env st w =
     (if \<not> is_catch_up (jt_config st) then Some (True, st, w)
      else case js_stream_load_highwater am env st w of
        (False, st) \<Rightarrow> Some (False, st, w)
      | (True, st) \<Rightarrow> catch_up_loop am env st w)"

section \<open>The sections of the live handoff\<close>

text \<open>The first section of \<open>on_js_async\<close>: takes the pending message.\<close>

definition async_take :: "mb_js_stream \<Rightarrow> js_msg option \<times> mb_js_stream" where
  "async_take st =
     (case (if jt_pending_ready st then jt_pending_msg st else None) of
        None \<Rightarrow> (None, st)
      | Some msg \<Rightarrow> (Some msg, st\<lparr>jt_pending_msg := None, jt_pending_ready := False, jt_pending_in_process := True\<rparr>))"

text \<open>The second one: tells the worker.\<close>

definition async_done :: "bool \<Rightarrow> mb_js_stream \<Rightarrow> mb_js_stream" where
  "async_done ok st = st\<lparr>jt_pending_in_process := False, jt_pending_ok := ok, jt_pending_done := True\<rparr>"

text \<open>What the worker does under the lock: wait for a broadcast, post the message, or return.\<close>

datatype handoff_step = H_SLEEP | H_POSTED | H_RETURN bool bool

text \<open>Up to the post; \<open>sent\<close> is whether \<open>uv_async_send\<close> succeeds. The first flag of a return is \<open>consumed\<close>, the second the result.\<close>

definition handoff_post :: "bool \<Rightarrow> js_msg \<Rightarrow> mb_js_stream \<Rightarrow> handoff_step \<times> mb_js_stream" where
  "handoff_post sent msg st =
     (if \<not> jt_closing st \<and> (jt_pending_ready st \<or> jt_pending_in_process st) then (H_SLEEP, st)
      else if jt_closing st then (H_RETURN False False, st)
      else let st = st\<lparr>jt_pending_msg := Some msg, jt_pending_ready := True, jt_pending_done := False, jt_pending_ok := False,
                       jt_pending_in_process := False\<rparr>
           in if sent then (H_POSTED, st) else (H_RETURN False False, st\<lparr>jt_pending_msg := None, jt_pending_ready := False\<rparr>))"

definition handoff_wait :: "js_msg \<Rightarrow> mb_js_stream \<Rightarrow> handoff_step \<times> mb_js_stream" where
  "handoff_wait msg st =
     (if jt_pending_done st then (H_RETURN True (jt_pending_ok st), st)
      else if jt_closing st \<and> jt_pending_ready st \<and> map_option jm_ptr (jt_pending_msg st) = Some (jm_ptr msg) \<and> \<not> jt_pending_in_process st
      then (H_RETURN False False, st\<lparr>jt_pending_msg := None, jt_pending_ready := False\<rparr>)
      else (H_SLEEP, st))"

section \<open>Starting and closing\<close>

definition js_stream_start_live :: "'w js_env \<Rightarrow> mb_js_stream \<Rightarrow> bool \<times> mb_js_stream" where
  "js_stream_start_live env st =
     (if jt_thread_started st then (True, st)
      else if je_thread_create env then (True, st\<lparr>jt_thread_started := True\<rparr>)
      else (False, st))"

definition js_stream_init ::
  "allocator \<Rightarrow> 'w js_env \<Rightarrow> pb_import_stream_config \<Rightarrow> nats_users \<Rightarrow> bool \<times> mb_js_stream \<times> nats_users" where
  "js_stream_init am env config u =
     (let st = js_stream_zero config
      in if \<not> je_mutex_init env then (False, st, u)
         else let st = st\<lparr>jt_lock_started := True\<rparr>
              in if \<not> je_cond_init env then (False, st, u)
                 else let st = st\<lparr>jt_cond_started := True\<rparr>
                      in if \<not> je_async_init env then (False, st, u)
                         else js_stream_connect am env (st\<lparr>jt_async_started := True\<rparr>) u)"

text \<open>The first section of a close; then the worker is joined. What is released after that, with a message left over.\<close>

definition js_close_mark :: "mb_js_stream \<Rightarrow> mb_js_stream" where
  "js_close_mark st = st\<lparr>jt_closing := True\<rparr>"

definition js_close_release :: "mb_js_stream \<Rightarrow> nats_users \<Rightarrow> js_msg option \<times> mb_js_stream \<times> nats_users" where
  "js_close_release st u =
     (jt_pending_msg st,
      st\<lparr>jt_thread_started := False, jt_pending_msg := None, jt_sub := None, jt_conn := None, jt_started := False,
         jt_async_started := False, jt_cond_started := False, jt_lock_started := False\<rparr>,
      if jt_started st then mb_nats_release u else u)"

definition js_stream_close :: "mb_js_stream \<Rightarrow> nats_users \<Rightarrow> mb_js_stream \<times> nats_users" where
  "js_stream_close st u = snd (js_close_release (js_close_mark st) u)"

record mb_js_importer =
  ji_streams :: "mb_js_stream list"
  ji_config :: "pb_imports_config option"
  ji_received :: u64
  ji_processed :: u64
  ji_acked :: u64
  ji_redelivered :: u64
  ji_failed :: u64

definition js_importer_zero :: "pb_imports_config option \<Rightarrow> mb_js_importer" where
  "js_importer_zero config =
     \<lparr>ji_streams = [], ji_config = config, ji_received = 0, ji_processed = 0, ji_acked = 0, ji_redelivered = 0, ji_failed = 0\<rparr>"

definition mb_js_importer_refresh :: "mb_js_importer \<Rightarrow> mb_js_importer" where
  "mb_js_importer_refresh p =
     p\<lparr>ji_received := sum_list (map jt_received (ji_streams p)), ji_processed := sum_list (map jt_processed (ji_streams p)),
       ji_acked := sum_list (map jt_acked (ji_streams p)), ji_redelivered := sum_list (map jt_redelivered (ji_streams p)),
       ji_failed := sum_list (map jt_failed (ji_streams p))\<rparr>"

fun close_streams :: "mb_js_stream list \<Rightarrow> nats_users \<Rightarrow> nats_users" where
  "close_streams [] u = u"
| "close_streams (st # sts) u = close_streams sts (snd (js_stream_close st u))"

definition mb_js_importer_close :: "mb_js_importer \<Rightarrow> nats_users \<Rightarrow> mb_js_importer \<times> nats_users" where
  "mb_js_importer_close p u = (js_importer_zero None, close_streams (ji_streams p) u)"

text \<open>
  The streams of the array: those already set up, and in a failure also the one that failed. Closing a stream that was not reached does
  nothing, as its fields are zero. \<open>env i\<close> answers for the stream at index \<open>i\<close>.
\<close>

fun init_streams ::
  "nat \<Rightarrow> allocator \<Rightarrow> (nat \<Rightarrow> 'w js_env) \<Rightarrow> pb_import_stream_config list \<Rightarrow> mb_js_stream list \<Rightarrow> nats_users
    \<Rightarrow> bool \<times> mb_js_stream list \<times> nats_users" where
  "init_streams i am env [] sts u = (True, sts, u)"
| "init_streams i am env (c # cs) sts u =
     (case js_stream_init am (env i) c u of
        (False, st, u) \<Rightarrow> (False, sts @ [st], u)
      | (True, st, u) \<Rightarrow> init_streams (i + 1) am env cs (sts @ [st]) u)"

text \<open>Each stream is caught up before the next one starts.\<close>

fun catch_up_streams ::
  "nat \<Rightarrow> allocator \<Rightarrow> (nat \<Rightarrow> 'w js_env) \<Rightarrow> mb_js_stream list \<Rightarrow> mb_js_stream list \<Rightarrow> 'w \<Rightarrow> (bool \<times> mb_js_stream list \<times> 'w) option" where
  "catch_up_streams i am env acc [] w = Some (True, acc, w)"
| "catch_up_streams i am env acc (st # sts) w =
     do { (ok, st, w) \<leftarrow> js_stream_catch_up am (env i) st w;
          if ok then catch_up_streams (i + 1) am env (acc @ [st]) sts w else Some (False, acc @ [st] @ sts, w) }"

text \<open>\<open>js_alloc n\<close> is whether \<open>calloc\<close> gives an array of \<open>n\<close> streams.\<close>

definition mb_js_importer_start ::
  "(nat \<Rightarrow> bool) \<Rightarrow> allocator \<Rightarrow> (nat \<Rightarrow> 'w js_env) \<Rightarrow> pb_imports_config option \<Rightarrow> 'w \<Rightarrow> nats_users
    \<Rightarrow> (bool \<times> mb_js_importer \<times> 'w \<times> nats_users) option" where
  "mb_js_importer_start js_alloc am env config w u =
     (let p = js_importer_zero config
      in case config of
           None \<Rightarrow> Some (True, p, w, u)
         | Some c \<Rightarrow>
             let configs = fst (ic_streams c)
             in if configs = [] then Some (True, p, w, u)
                else if \<not> js_alloc (length configs) then Some (False, p, w, u)
                else case init_streams 0 am env configs [] u of
                  (False, sts, u) \<Rightarrow> (case mb_js_importer_close (p\<lparr>ji_streams := sts\<rparr>) u of (p, u) \<Rightarrow> Some (False, p, w, u))
                | (True, sts, u) \<Rightarrow>
                    do { (ok, sts, w) \<leftarrow> catch_up_streams 0 am env [] sts w;
                         let p = p\<lparr>ji_streams := sts\<rparr>;
                         if ok then Some (True, mb_js_importer_refresh p, w, u)
                         else case mb_js_importer_close p u of (p, u) \<Rightarrow> Some (False, p, w, u) })"

fun start_live_streams :: "nat \<Rightarrow> (nat \<Rightarrow> 'w js_env) \<Rightarrow> mb_js_stream list \<Rightarrow> bool \<times> mb_js_stream list" where
  "start_live_streams i env [] = (True, [])"
| "start_live_streams i env (st # sts) =
     (case js_stream_start_live (env i) st of
        (False, st) \<Rightarrow> (False, st # sts)
      | (True, st) \<Rightarrow> (case start_live_streams (i + 1) env sts of (ok, sts) \<Rightarrow> (ok, st # sts)))"

definition mb_js_importer_start_live :: "(nat \<Rightarrow> 'w js_env) \<Rightarrow> mb_js_importer \<Rightarrow> bool \<times> mb_js_importer" where
  "mb_js_importer_start_live env p = (case start_live_streams 0 env (ji_streams p) of (ok, sts) \<Rightarrow> (ok, p\<lparr>ji_streams := sts\<rparr>))"

end
