(* ===== verification/Ingress.thy ===== *)
theory Ingress
  imports Server Jetstream
begin

text \<open>
  What \<open>src/src/main.c\<close> puts between the importers and the server: the handlers that run the patchbay on an imported message, the group
  of importers with its counters, and the authentication settings taken from the environment. The
  loop of \<open>main\<close> over the arguments and the order of start and stop are not modelled.
\<close>

section \<open>Authentication settings\<close>

definition env_secret :: "(bytes \<Rightarrow> bytes option) \<Rightarrow> bytes \<Rightarrow> bytes option" where
  "env_secret getenv name = (case getenv name of None \<Rightarrow> None | Some t \<Rightarrow> if t = [] then None else Some t)"

definition auth_config_zero :: mb_auth_config where
  "auth_config_zero = \<lparr>auth_mode = MB_AUTH_NONE, auth_token = None, auth_user = None, auth_pass = None\<rparr>"

text \<open>The arguments are the names of variables, \<open>None\<close> for an option that was not given.\<close>

definition load_auth_config ::
  "(bytes \<Rightarrow> bytes option) \<Rightarrow> bytes option \<Rightarrow> bytes option \<Rightarrow> bytes option \<Rightarrow> bool \<times> mb_auth_config" where
  "load_auth_config getenv token_env user_env pass_env =
     (let out = auth_config_zero
      in if token_env \<noteq> None \<and> (user_env \<noteq> None \<or> pass_env \<noteq> None) then (False, out)
         else if (user_env \<noteq> None) \<noteq> (pass_env \<noteq> None) then (False, out)
         else case token_env of
           Some name \<Rightarrow>
             (let out = out\<lparr>auth_mode := MB_AUTH_TOKEN\<rparr>
              in case env_secret getenv name of None \<Rightarrow> (False, out) | Some t \<Rightarrow> (True, out\<lparr>auth_token := Some t\<rparr>))
         | None \<Rightarrow>
             (case (user_env, pass_env) of
                (Some user, Some pass) \<Rightarrow>
                  (let out = out\<lparr>auth_mode := MB_AUTH_USER_PASS\<rparr>
                   in case env_secret getenv user of
                        None \<Rightarrow> (False, out)
                      | Some t \<Rightarrow>
                          (let out = out\<lparr>auth_user := Some t\<rparr>
                           in case env_secret getenv pass of None \<Rightarrow> (False, out) | Some t \<Rightarrow> (True, out\<lparr>auth_pass := Some t\<rparr>)))
              | _ \<Rightarrow> (True, out)))"

section \<open>Handlers\<close>

definition import_ingress :: "'x env \<Rightarrow> bytes \<Rightarrow> bytes \<Rightarrow> 'x server_world \<Rightarrow> (bool \<times> 'x server_world) option" where
  "import_ingress ev subject payload w =
     (if sv_closing (w_server w) then Some (False, w)
      else do { let w = upd_sv (\<lambda>s. s\<lparr>sv_total_pubs := sv_total_pubs s + 1\<rparr>) w;
                let w = ext_do (uv_update_time ev) w;
                (ok, w) \<leftarrow> eval_publish ev subject payload (mb_server_patchbay_now_ms ev w) (mb_wall_clock_ms ev (sv_ext (w_server w))) w;
                Some (ok, mb_server_reschedule_patchbay_clock ev w) })"

text \<open>The patchbay program with the options of a replay: ticking up to a time, and evaluating a message.\<close>

record 'x replay_program =
  program_tick_until :: "u64 \<Rightarrow> int \<Rightarrow> bool \<Rightarrow> 'x server_world \<Rightarrow> (bool \<times> 'x server_world) option"
  program_eval_options :: "bytes \<Rightarrow> bytes \<Rightarrow> u64 \<Rightarrow> int \<Rightarrow> bool \<Rightarrow> 'x server_world \<Rightarrow> (bool \<times> 'x server_world) option"

definition jetstream_ingress ::
  "'x env \<Rightarrow> 'x replay_program \<Rightarrow> bytes \<Rightarrow> bytes \<Rightarrow> u64 \<Rightarrow> int \<Rightarrow> bool \<Rightarrow> 'x server_world \<Rightarrow> (bool \<times> 'x server_world) option" where
  "jetstream_ingress ev rp subject payload event_now_ms event_wall_ms replaying w =
     (if sv_closing (w_server w) then Some (False, w)
      else do { let w = upd_sv (\<lambda>s. s\<lparr>sv_total_pubs := sv_total_pubs s + 1\<rparr>) w;
                (tick_ok, w) \<leftarrow> program_tick_until rp event_now_ms event_wall_ms replaying w;
                (eval_ok, w) \<leftarrow> program_eval_options rp subject payload event_now_ms event_wall_ms replaying w;
                let w = (if replaying then w else mb_server_reschedule_patchbay_clock ev w);
                Some (tick_ok \<and> eval_ok, w) })"

section \<open>The group of importers\<close>

record import_group =
  gr_items :: "mb_importer list"
  gr_received :: u64
  gr_processed :: u64
  gr_dropped :: u64
  gr_failed :: u64

definition import_group_zero :: import_group where
  "import_group_zero = \<lparr>gr_items = [], gr_received = 0, gr_processed = 0, gr_dropped = 0, gr_failed = 0\<rparr>"

definition import_group_refresh :: "import_group \<Rightarrow> import_group" where
  "import_group_refresh g =
     g\<lparr>gr_received := sum_list (map ip_received (gr_items g)), gr_processed := sum_list (map ip_processed (gr_items g)),
       gr_dropped := sum_list (map ip_dropped (gr_items g)), gr_failed := sum_list (map ip_failed (gr_items g))\<rparr>"

fun close_importers :: "mb_importer list \<Rightarrow> nats_users \<Rightarrow> nats_users" where
  "close_importers [] u = u"
| "close_importers (p # ps) u = close_importers ps (snd (mb_importer_close p u))"

definition import_group_close :: "import_group \<Rightarrow> nats_users \<Rightarrow> import_group \<times> nats_users" where
  "import_group_close g u = (import_group_zero, close_importers (gr_items g) u)"

text \<open>As for the JetStream importer, closing an importer that was not reached does nothing, as its fields are zero.\<close>

fun start_importers ::
  "nat \<Rightarrow> allocator \<Rightarrow> (nat \<Rightarrow> import_io) \<Rightarrow> pb_import_config list \<Rightarrow> mb_importer list \<Rightarrow> nats_users \<Rightarrow> bool \<times> mb_importer list \<times> nats_users" where
  "start_importers i am io [] ps u = (True, ps, u)"
| "start_importers i am io (c # cs) ps u =
     (case mb_importer_start am (io i) (Some c) u of
        (False, p, u) \<Rightarrow> (False, ps @ [p], u)
      | (True, p, u) \<Rightarrow> start_importers (i + 1) am io cs (ps @ [p]) u)"

text \<open>\<open>im_alloc n\<close> is whether \<open>calloc\<close> gives an array of \<open>n\<close> importers.\<close>

definition import_group_start ::
  "(nat \<Rightarrow> bool) \<Rightarrow> allocator \<Rightarrow> (nat \<Rightarrow> import_io) \<Rightarrow> import_group \<Rightarrow> pb_imports_config option \<Rightarrow> nats_users \<Rightarrow> bool \<times> import_group \<times> nats_users" where
  "import_group_start im_alloc am io g config u =
     (case config of
        None \<Rightarrow> (True, g, u)
      | Some c \<Rightarrow>
          let cores = fst (ic_cores c)
          in if cores = [] then (True, g, u)
             else if \<not> im_alloc (length cores) then (False, g\<lparr>gr_items := []\<rparr>, u)
             else case start_importers 0 am io cores [] u of
               (False, ps, u) \<Rightarrow> (False, import_group_close (g\<lparr>gr_items := ps\<rparr>) u)
             | (True, ps, u) \<Rightarrow> (True, import_group_refresh (g\<lparr>gr_items := ps\<rparr>), u))"

record import_totals =
  tt_core :: "import_group option"
  tt_jetstream :: "mb_js_importer option"
  tt_received :: u64
  tt_processed :: u64
  tt_dropped :: u64
  tt_failed :: u64

definition import_totals_refresh :: "import_totals \<Rightarrow> import_totals" where
  "import_totals_refresh t =
     (let t = t\<lparr>tt_received := 0, tt_processed := 0, tt_dropped := 0, tt_failed := 0\<rparr>;
          t = (case tt_core t of
                 None \<Rightarrow> t
               | Some g \<Rightarrow>
                   let g = import_group_refresh g
                   in t\<lparr>tt_core := Some g, tt_received := tt_received t + gr_received g, tt_processed := tt_processed t + gr_processed g,
                        tt_dropped := tt_dropped t + gr_dropped g, tt_failed := tt_failed t + gr_failed g\<rparr>)
      in case tt_jetstream t of
           None \<Rightarrow> t
         | Some p \<Rightarrow>
             let p = mb_js_importer_refresh p
             in t\<lparr>tt_jetstream := Some p, tt_received := tt_received t + ji_received p, tt_processed := tt_processed t + ji_processed p,
                  tt_failed := tt_failed t + ji_failed p\<rparr>)"

end
