(* ===== verification/Server_Steps.thy ===== *)
theory Server_Steps
  imports Server_Correct Ingress
begin

text \<open>
  The server as a state machine: the callbacks of the event loop and the messages of the importers
  as one step relation, with the invariant of \<open>Conn_Inv\<close> in every reachable state. What the server
  calls in the patchbay, the bridge and the importers enters through the locale \<open>guarded_full\<close>;
  \<open>Wired\<close> discharges it with the definitions of these components.
\<close>

declare split_paired_Ex [simp del] split_paired_All [simp del]

section \<open>The callbacks of the event loop\<close>

text \<open>
  The callbacks libuv runs, one after the other on one thread, and the messages the importers hand
  to that thread: \<open>EV_INGRESS\<close> a message of a core subscription, \<open>EV_STREAM\<close> one of a JetStream consumer.
\<close>

datatype server_event =
    EV_CONNECTION int
  | EV_READ conn_id int bytes
  | EV_WRITTEN conn_id int
  | EV_CLOSED conn_id
  | EV_PATCHBAY_TIMER
  | EV_STATS_TIMER
  | EV_SNAPSHOT_TIMER
  | EV_SNAPSHOT_DONE
  | EV_SIGNAL
  | EV_INGRESS bytes bytes
  | EV_STREAM bytes bytes u64 int bool

fun server_do ::
  "bytes \<Rightarrow> bytes \<Rightarrow> allocator \<Rightarrow> 'x env \<Rightarrow> 'x server_ext \<Rightarrow> 'x replay_program \<Rightarrow> server_event \<Rightarrow> 'x server_world \<Rightarrow> 'x server_world option" where
  "server_do version build am ev sx rp (EV_CONNECTION status) w = on_connection version build am ev sx status w"
| "server_do version build am ev sx rp (EV_READ c nread data) w = read_cb am ev c nread data w"
| "server_do version build am ev sx rp (EV_WRITTEN c status) w = write_cb am ev c status w"
| "server_do version build am ev sx rp (EV_CLOSED c) w = Some (close_cb c w)"
| "server_do version build am ev sx rp EV_PATCHBAY_TIMER w = on_patchbay_timer ev sx w"
| "server_do version build am ev sx rp EV_STATS_TIMER w = on_stats_timer am ev sx w"
| "server_do version build am ev sx rp EV_SNAPSHOT_TIMER w = Some (on_snapshot_timer sx w)"
| "server_do version build am ev sx rp EV_SNAPSHOT_DONE w = Some (snapshot_after_work_cb sx w)"
| "server_do version build am ev sx rp EV_SIGNAL w = Some (on_signal sx w)"
| "server_do version build am ev sx rp (EV_INGRESS subject payload) w = map_option snd (import_ingress ev subject payload w)"
| "server_do version build am ev sx rp (EV_STREAM subject payload now wall replaying) w =
     map_option snd (jetstream_ingress ev rp subject payload now wall replaying w)"

text \<open>
  When libuv may run a callback: no read callback comes after \<open>uv_read_stop\<close>, the close
  callback comes after \<open>uv_close\<close>, the completion of a job while there is one; \<open>calloc\<close>
  returns memory that is not in use.
\<close>

fun event_enabled :: "'x env \<Rightarrow> server_event \<Rightarrow> 'x server_world \<Rightarrow> bool" where
  "event_enabled ev (EV_CONNECTION status) w =
     (case fst (calloc_conn ev (sv_ext (w_server w))) of None \<Rightarrow> True | Some c \<Rightarrow> fresh_id c w)"
| "event_enabled ev (EV_READ c nread data) w = (\<not> cn_closing (cn c w))"
| "event_enabled ev (EV_WRITTEN c status) w = cn_write_pending (cn c w)"
| "event_enabled ev (EV_CLOSED c) w = cn_closing (cn c w)"
| "event_enabled ev EV_SNAPSHOT_DONE w = (sv_snapshot_job (w_server w) \<noteq> None)"
| "event_enabled ev _ w = True"

inductive server_reach ::
  "bytes \<Rightarrow> bytes \<Rightarrow> allocator \<Rightarrow> 'x env \<Rightarrow> 'x server_ext \<Rightarrow> 'x replay_program \<Rightarrow> 'x server_world \<Rightarrow> 'x server_world \<Rightarrow> bool"
  for version build am ev sx rp w0 where
  start: "server_reach version build am ev sx rp w0 w0"
| step: "server_reach version build am ev sx rp w0 w \<Longrightarrow> event_enabled ev e w \<Longrightarrow>
    server_do version build am ev sx rp e w = Some w' \<Longrightarrow> server_reach version build am ev sx rp w0 w'"

text \<open>
  What the whole server relies on beside its connections: refreshing the statistics keeps the
  invariant, and so do ticks and replayed messages of the patchbay program, when they return.
\<close>

locale guarded_full = guarded_server am ev for am :: allocator and ev :: "'x env" +
  fixes sx :: "'x server_ext" and rp :: "'x replay_program"
  assumes refresh_keeps: "stats_refresh sx = Some f \<Longrightarrow> server_inv am w \<Longrightarrow> tls_off w \<Longrightarrow> server_inv am (f w) \<and> keep w (f w)"
    and tick_keeps: "server_inv am w \<Longrightarrow> tls_off w \<Longrightarrow> program_tick sx now wall w = Some (ok, w') \<Longrightarrow> server_inv am w' \<and> keep w w'"
    and until_keeps: "server_inv am w \<Longrightarrow> tls_off w \<Longrightarrow> program_tick_until rp now wall replaying w = Some (ok, w') \<Longrightarrow>
      server_inv am w' \<and> keep w w'"
    and options_keep: "server_inv am w \<Longrightarrow> tls_off w \<Longrightarrow>
      program_eval_options rp subject payload now wall replaying w = Some (ok, w') \<Longrightarrow> server_inv am w' \<and> keep w w'"

definition server_ok :: "allocator \<Rightarrow> 'x server_world \<Rightarrow> bool" where
  "server_ok am w \<longleftrightarrow> server_inv am w \<and> tls_off w \<and> \<not> sv_tls_enabled (w_server w) \<and> snapshot_inv w"

lemma server_ok_fixed:
  assumes "server_ok am w" "server_inv am w'" "tls_off w'" "sv_fixed (w_server w') = sv_fixed (w_server w)"
  shows "server_ok am w'"
  using assms by (auto simp: server_ok_def snapshot_inv_def sv_fixed_def)

lemma server_ok_keep: "server_ok am w \<Longrightarrow> server_inv am w' \<Longrightarrow> keep w w' \<Longrightarrow> server_ok am w'"
  by (rule server_ok_fixed) (auto simp: server_ok_def tls_off_def keep_def)

lemma server_ok_keep_tls: "server_ok am w \<Longrightarrow> server_inv am w' \<Longrightarrow> keep_tls w w' \<Longrightarrow> server_ok am w'"
  by (rule server_ok_fixed) (auto simp: server_ok_def tls_off_def keep_tls_def)

lemma server_ok_frame: "server_ok am w \<Longrightarrow> snapshot_frame w w' \<Longrightarrow> snapshot_inv w' \<Longrightarrow> server_ok am w'"
  using server_inv_frame tls_off_frame unfolding server_ok_def by (metis snapshot_frame_def)

lemma close_cb_inv:
  assumes inv: "server_inv am w"
  shows "server_inv am (close_cb c w)" "keep_tls w (close_cb c w)"
proof -
  define w1 where "w1 = (if cn_counted (cn c w) \<and> 0 < sv_conn_count (w_server w)
    then upd_sv (\<lambda>s. s\<lparr>sv_conn_count := sv_conn_count s - 1\<rparr>) w else w)"
  have i1: "server_inv am w1" unfolding w1_def using server_inv_upd_sv [OF inv] inv by simp
  have "server_inv am (upd_rc c (\<lambda>k. k\<lparr>conn_out := mb_buf_zero\<rparr>) (upd_cn c (\<lambda>k. k\<lparr>cn_rx := mb_buf_zero\<rparr>) w1))"
    by (rule server_inv_upd_rc [OF server_inv_flags(6) [OF i1]]) simp_all
  then show "server_inv am (close_cb c w)"
    by (simp add: close_cb_def Let_def w1_def [symmetric] mb_buf_free_def server_inv_flags(7-9))
  show "keep_tls w (close_cb c w)"
    by (simp add: keep_tls_def close_cb_def Let_def world_simps cn_def sv_fixed_def)
qed


text \<open>The callbacks that run the patchbay program. A read of no bytes or with an error does not.\<close>

fun runs_program :: "server_event \<Rightarrow> bool" where
  "runs_program (EV_READ c nread data) \<longleftrightarrow> 0 < nread"
| "runs_program EV_PATCHBAY_TIMER = True"
| "runs_program (EV_INGRESS subject payload) = True"
| "runs_program (EV_STREAM subject payload now wall replaying) = True"
| "runs_program _ = False"

context guarded_full
begin

lemma publish_stat_returns:
  assumes "server_inv am w" "tls_off w" "keep w0 w"
  shows "\<exists>ok w'. publish_stat am ev subject value w = Some (ok, w') \<and> server_inv am w' \<and> tls_off w' \<and> keep w0 w'"
proof -
  have I: "server_inv am w \<and> tls_off w \<and> keep w0 w" using assms by simp
  show ?thesis
    unfolding publish_stat_def mb_router_publish_def mb_router_publish_with_reply_def
    by (rule total.client.publish_returns [OF I, unfolded total_env_simps]) blast
qed

lemma publish_stats_returns:
  "server_inv am w \<Longrightarrow> tls_off w \<Longrightarrow> keep w0 w \<Longrightarrow>
   \<exists>ok' w'. publish_stats am ev stats ok w = Some (ok', w') \<and> server_inv am w' \<and> tls_off w' \<and> keep w0 w'"
proof (induction stats arbitrary: ok w)
  case (Cons p stats)
  obtain subject counter where p: "p = (subject, counter)" by fastforce
  obtain sent w1 where "publish_stat am ev subject (counter (sv_ext (w_server w))) w = Some (sent, w1)"
      "server_inv am w1" "tls_off w1" "keep w0 w1"
    using publish_stat_returns [OF Cons.prems] by blast
  then show ?case using Cons.IH [of w1] by (simp add: p)
qed simp

lemma attached_stats_returns:
  assumes "server_inv am w" "tls_off w" "keep w0 w"
  shows "\<exists>ok' w'. (if attached then publish_stats am ev stats ok w else Some (ok, w)) = Some (ok', w') \<and>
    server_inv am w' \<and> tls_off w' \<and> keep w0 w'"
  using publish_stats_returns [OF assms] assms by (cases attached) auto

lemma publish_rule_stats_returns:
  "server_inv am w \<Longrightarrow> tls_off w \<Longrightarrow> keep w0 w \<Longrightarrow>
   \<exists>ok' w'. publish_rule_stats am ev sx i n ok w = Some (ok', w') \<and> server_inv am w' \<and> tls_off w' \<and> keep w0 w'"
proof (induction n arbitrary: i ok w)
  case (Suc n)
  obtain sent w1 where w1: "publish_stat am ev (rule_subject i ''emitted'') (fst (rule_stats sx (sv_ext (w_server w)) ! i)) w
      = Some (sent, w1)" "server_inv am w1" "tls_off w1" "keep w0 w1"
    using publish_stat_returns [OF Suc.prems] by blast
  obtain sent' w2 where w2: "publish_stat am ev (rule_subject i ''suppressed'') (snd (rule_stats sx (sv_ext (w_server w1)) ! i)) w1
      = Some (sent', w2)" "server_inv am w2" "tls_off w2" "keep w0 w2"
    using publish_stat_returns [OF w1(2-4)] by blast
  show ?case using w1(1) w2(1) Suc.IH [OF w2(2-4)] by simp
qed simp

lemma emit_stats_returns:
  assumes inv: "server_inv am w" and off: "tls_off w"
  shows "\<exists>ok w'. mb_server_emit_stats am ev sx w = Some (ok, w') \<and> server_inv am w' \<and> keep w w'"
proof -
  define w1 where "w1 = (case stats_refresh sx of None \<Rightarrow> w | Some f \<Rightarrow> f w)"
  have k1: "server_inv am w1" "keep w w1"
    using refresh_keeps inv off by (auto simp: w1_def split: option.split)
  obtain ok2 w2 where w2: "publish_stat am ev ''$STATS.global.pubs'' (sv_total_pubs (w_server w1)) w1 = Some (ok2, w2)"
      "server_inv am w2" "tls_off w2" "keep w w2"
    using publish_stat_returns [OF k1(1) tls_off_keep [OF off k1(2)] k1(2)] by blast
  obtain ok3 w3 where w3: "publish_rule_stats am ev sx 0 (length (rule_stats sx (sv_ext (w_server w2)))) ok2 w2 = Some (ok3, w3)"
      "server_inv am w3" "tls_off w3" "keep w w3"
    using publish_rule_stats_returns [OF w2(2-4)] by blast
  obtain ok4 w4 where w4: "(if bridge_attached sx
      then publish_stats am ev [(''$STATS.bridge.published'', bridge_published sx), (''$STATS.bridge.dropped'', bridge_dropped sx)] ok3 w3
      else Some (ok3, w3)) = Some (ok4, w4)" "server_inv am w4" "tls_off w4" "keep w w4"
    using attached_stats_returns [OF w3(2-4)] by blast
  obtain ok5 w5 where w5: "(if import_attached sx
      then publish_stats am ev
             [(''$STATS.import.received'', import_received sx), (''$STATS.import.processed'', import_processed sx),
              (''$STATS.import.dropped'', import_dropped sx), (''$STATS.import.failed'', import_failed sx)] ok4 w4
      else Some (ok4, w4)) = Some (ok5, w5)" "server_inv am w5" "tls_off w5" "keep w w5"
    using attached_stats_returns [OF w4(2-4)] by blast
  have "mb_server_emit_stats am ev sx w = Some (ok5, w5)"
    unfolding mb_server_emit_stats_def Let_def w1_def [symmetric]
    by (simp only: w2(1) w3(1) w4(1) w5(1) bind.bind_lunit prod.case)
  then show ?thesis using w5 by blast
qed

lemma reschedule_keeps:
  "server_inv am w \<Longrightarrow> server_inv am (mb_server_reschedule_patchbay_clock ev w)"
  "keep w (mb_server_reschedule_patchbay_clock ev w)"
  by (auto simp: mb_server_reschedule_patchbay_clock_def Let_def server_inv_ext_do
      intro: keep_trans [OF keep_upd(2) keep_upd(2)] split: option.split)

lemma count_publish_keeps:
  assumes "server_inv am w"
  shows "server_inv am (upd_sv (\<lambda>s. s\<lparr>sv_total_pubs := sv_total_pubs s + 1\<rparr>) w)"
    "keep w (upd_sv (\<lambda>s. s\<lparr>sv_total_pubs := sv_total_pubs s + 1\<rparr>) w)"
  using assms by (auto intro: server_inv_upd_sv keep_upd(4))

lemma ingress_keeps:
  assumes ok: "server_ok am w" and run: "import_ingress ev subject payload w = Some (r, w')"
  shows "server_ok am w'"
proof (cases "sv_closing (w_server w)")
  case True
  then show ?thesis using assms by (auto simp: import_ingress_def)
next
  case False
  have inv: "server_inv am w" and off: "tls_off w" using ok by (auto simp: server_ok_def)
  let ?w1 = "upd_sv (\<lambda>s. s\<lparr>sv_total_pubs := sv_total_pubs s + 1\<rparr>) w"
  let ?w2 = "ext_do (uv_update_time ev) ?w1"
  have k2: "server_inv am ?w2" "keep w ?w2"
    using server_inv_ext_do [OF count_publish_keeps(1) [OF inv]] keep_trans [OF count_publish_keeps(2) [OF inv] keep_upd(2)] by auto
  obtain w3 where w3: "eval_publish ev subject payload (mb_server_patchbay_now_ms ev ?w2) (mb_wall_clock_ms ev (sv_ext (w_server ?w2))) ?w2
      = Some (r, w3)" "w' = mb_server_reschedule_patchbay_clock ev w3"
    using run False by (auto simp: import_ingress_def Let_def bind_eq_Some_conv)
  have k3: "server_inv am w3 \<and> keep ?w2 w3" by (rule eval_keeps_server [OF k2(1) tls_off_keep [OF off k2(2)] w3(1)])
  show ?thesis
    unfolding w3(2) using k3 reschedule_keeps [of w3] keep_trans [OF k2(2)] keep_trans
    by (intro server_ok_keep [OF ok]) blast+
qed

lemma stream_keeps:
  assumes ok: "server_ok am w" and run: "jetstream_ingress ev rp subject payload now wall replaying w = Some (r, w')"
  shows "server_ok am w'"
proof (cases "sv_closing (w_server w)")
  case True
  then show ?thesis using assms by (auto simp: jetstream_ingress_def)
next
  case False
  have inv: "server_inv am w" and off: "tls_off w" using ok by (auto simp: server_ok_def)
  let ?w1 = "upd_sv (\<lambda>s. s\<lparr>sv_total_pubs := sv_total_pubs s + 1\<rparr>) w"
  note k1 = count_publish_keeps [OF inv]
  obtain t w2 e w3 where w2: "program_tick_until rp now wall replaying ?w1 = Some (t, w2)"
    and w3: "program_eval_options rp subject payload now wall replaying w2 = Some (e, w3)"
    and w': "w' = (if replaying then w3 else mb_server_reschedule_patchbay_clock ev w3)"
    using run False unfolding jetstream_ingress_def Let_def by (auto simp: bind_eq_Some_conv) blast+
  have k2: "server_inv am w2 \<and> keep ?w1 w2" by (rule until_keeps [OF k1(1) tls_off_keep [OF off k1(2)] w2])
  then have k2': "server_inv am w2" "keep w w2" using keep_trans [OF k1(2)] by blast+
  have "server_inv am w3 \<and> keep w2 w3" by (rule options_keep [OF k2'(1) tls_off_keep [OF off k2'(2)] w3])
  then have k3: "server_inv am w3" "keep w w3" using keep_trans [OF k2'(2)] by blast+
  have "server_inv am w'" "keep w w'"
    unfolding w' using k3 reschedule_keeps [of w3] keep_trans [OF k3(2) reschedule_keeps(2)] by auto
  then show ?thesis by (rule server_ok_keep [OF ok])
qed

text \<open>The callbacks that do not run the program return, and keep the invariant.\<close>

lemma plain_event_returns:
  assumes ok: "server_ok am w" and en: "event_enabled ev e w" and plain: "\<not> runs_program e"
  shows "\<exists>w'. server_do version build am ev sx rp e w = Some w' \<and> server_ok am w'"
proof -
  have inv: "server_inv am w" and off: "tls_off w" "\<not> sv_tls_enabled (w_server w)" using ok by (auto simp: server_ok_def)
  show ?thesis
  proof (cases e)
    case (EV_CONNECTION status)
    have "fresh_id c w" if "fst (calloc_conn ev (sv_ext (w_server w))) = Some c" for c
      using en that EV_CONNECTION by simp
    then obtain ok' w' where w': "mb_conn_create version build am ev w = Some (ok', w')" "server_inv am w'" "tls_off w'"
        "sv_fixed (w_server w') = sv_fixed (w_server w)"
      using total.conn_create_returns [OF inv off, of version build, unfolded total_env_simps] by blast
    have "server_ok am w'" by (rule server_ok_fixed [OF ok w'(2-4)])
    moreover have "server_ok am (ext_do (drop_pending sx) w)"
      by (rule server_ok_keep [OF ok server_inv_ext_do [OF inv] keep_upd(2)])
    ultimately show ?thesis using ok w'(1) EV_CONNECTION by (auto simp: on_connection_def)
  next
    case (EV_READ c nread data)
    then have "read_cb am (total_env ev) c nread data w = read_cb am ev c nread data w"
      using plain by (simp add: read_cb_def)
    moreover have "\<not> cn_closing (cn c w)" using en EV_READ by simp
    ultimately show ?thesis
      using total.read_cb_returns [OF inv off(1), of c nread data] server_ok_keep_tls [OF ok] EV_READ by auto
  next
    case (EV_WRITTEN c status)
    have "cn_tls_state (cn c w) = MB_CONN_TLS_OFF" using off(1) by (simp add: tls_off_def)
    then have "write_cb am (total_env ev) c status w = write_cb am ev c status w" by (rule read_side_total(3))
    then show ?thesis
      using total.write_cb_returns [OF inv off(1), of c status] server_ok_keep_tls [OF ok] EV_WRITTEN by auto
  next
    case (EV_CLOSED c)
    then show ?thesis using server_ok_keep_tls [OF ok close_cb_inv [OF inv]] by simp
  next
    case EV_STATS_TIMER
    then show ?thesis using emit_stats_returns [OF inv off(1)] server_ok_keep [OF ok] ok by (auto simp: on_stats_timer_def)
  next
    case EV_SNAPSHOT_TIMER
    have "snapshot_inv (on_snapshot_timer sx w)" using ok by (intro snapshot_timer_inv) (simp add: server_ok_def)
    then show ?thesis using server_ok_frame [OF ok snapshot_timer_frame] EV_SNAPSHOT_TIMER by simp
  next
    case EV_SNAPSHOT_DONE
    have "snapshot_inv (snapshot_after_work_cb sx w)" using ok by (intro snapshot_after_inv) (simp add: server_ok_def)
    then show ?thesis using server_ok_frame [OF ok snapshot_after_frame] EV_SNAPSHOT_DONE by simp
  next
    case EV_SIGNAL
    have "snapshot_frame w (on_signal sx w)" "snapshot_inv (on_signal sx w)"
      using ok by (simp_all add: on_signal_def snapshot_frame_def snapshot_inv_def server_ok_def world_simps)
    then show ?thesis using server_ok_frame [OF ok] EV_SIGNAL by simp
  qed (use plain in simp_all)
qed

lemma event_keeps:
  assumes ok: "server_ok am w" and en: "event_enabled ev e w" and run: "server_do version build am ev sx rp e w = Some w'"
  shows "server_ok am w'"
proof (cases "runs_program e")
  case False
  then show ?thesis using plain_event_returns [OF ok en False, of version build] run by simp
next
  case True
  have inv: "server_inv am w" and off: "tls_off w" using ok by (auto simp: server_ok_def)
  show ?thesis
  proof (cases e)
    case (EV_READ c nread data)
    have "cn_tls_state (cn c w) = MB_CONN_TLS_OFF" using off by (simp add: tls_off_def)
    then have "read_cb am (total_env ev) c nread data w = Some w'" using run EV_READ read_side_total(2) by simp
    moreover have "\<not> cn_closing (cn c w)" using en EV_READ by simp
    ultimately show ?thesis using total.read_cb_returns [OF inv off, of c nread data] server_ok_keep_tls [OF ok] by auto
  next
    case EV_PATCHBAY_TIMER
    let ?w1 = "ext_do (uv_update_time ev) w"
    have k1: "server_inv am ?w1" "keep w ?w1" using server_inv_ext_do [OF inv] by auto
    obtain b w2 where w2: "program_tick sx (mb_server_patchbay_now_ms ev ?w1) (mb_wall_clock_ms ev (sv_ext (w_server ?w1))) ?w1
        = Some (b, w2)" "w' = mb_server_reschedule_patchbay_clock ev w2"
      using run EV_PATCHBAY_TIMER by (auto simp: on_patchbay_timer_def Let_def bind_eq_Some_conv)
    have k2: "server_inv am w2 \<and> keep ?w1 w2" by (rule tick_keeps [OF k1(1) tls_off_keep [OF off k1(2)] w2(1)])
    then show ?thesis
      unfolding w2(2) using reschedule_keeps [of w2] keep_trans [OF k1(2)] keep_trans
      by (intro server_ok_keep [OF ok]) blast+
  next
    case (EV_INGRESS subject payload)
    then show ?thesis using run ingress_keeps [OF ok] by auto
  next
    case (EV_STREAM subject payload now wall replaying)
    then show ?thesis using run stream_keeps [OF ok] by auto
  qed (use True in simp_all)
qed

lemma reach_ok:
  assumes "server_reach version build am ev sx rp w0 w" "server_ok am w0"
  shows "server_ok am w"
  using assms
proof (induction rule: server_reach.induct)
  case (step w e w')
  then show ?case using event_keeps by blast
qed

end

section \<open>A first state\<close>

lemma demo_world_ok: "server_ok am (demo_world x)"
  using demo_world_inv(1) [of am x] demo_world_inv(2) [of x]
  by (simp add: server_ok_def snapshot_inv_def demo_world_def demo_server_def)

end
