(* ===== verification/Eval_Frame.thy ===== *)
theory Eval_Frame
  imports Program
begin

text \<open>
  The frame of an evaluation: the evaluator reaches the rest of the server only through the publish
  callback and the user hooks. A property of the world that these keep is kept by every form, by
  the evaluator, by a publish into the rules and by a tick, whenever they return. The rules below are
  those of a partial-correctness logic with one rule per construct of the model; each function then
  has one lemma.
\<close>

section \<open>Outcomes that keep a property\<close>

definition kept :: "('w \<Rightarrow> bool) \<Rightarrow> ('a \<times> 'w eval_st) option \<Rightarrow> bool" where
  "kept P x \<longleftrightarrow> (\<forall>r s. x = Some (r, s) \<longrightarrow> P (ev_world s))"

text \<open>What the evaluator calls outside keeps the property.\<close>

definition ctx_keeps :: "('w \<Rightarrow> bool) \<Rightarrow> 'w pb_eval_ctx \<Rightarrow> bool" where
  "ctx_keeps P ctx \<longleftrightarrow>
     (\<forall>f. cx_publish ctx = Some f \<longrightarrow> (\<forall>subject payload s. P (ev_world s) \<longrightarrow> kept P (f subject payload s))) \<and>
     (\<forall>f. cx_user_symbol ctx = Some f \<longrightarrow> (\<forall>name s. P (ev_world s) \<longrightarrow> kept P (f name s))) \<and>
     (\<forall>f. cx_user_call ctx = Some f \<longrightarrow> (\<forall>name args s. P (ev_world s) \<longrightarrow> kept P (f name args s)))"

lemma keptD: "kept P x \<Longrightarrow> x = Some (r, s) \<Longrightarrow> P (ev_world s)"
  by (simp add: kept_def)

named_theorems kept_rules \<open>one rule per construct of the evaluator\<close>
named_theorems world_kept \<open>steps that leave the world alone\<close>

lemma kept_basic [kept_rules]:
  "P (ev_world s) \<Longrightarrow> kept P (Some (r, s))" "kept P None" "P (ev_world s) \<Longrightarrow> kept P (ev_ok v s)"
  "P (ev_world s) \<Longrightarrow> kept P (ev_nil s)" "P (ev_world s) \<Longrightarrow> kept P (ev_fail e s)" "P (ev_world s) \<Longrightarrow> kept P (ev_pure r' s)"
  by (simp_all add: kept_def ev_ok_def ev_nil_def ev_fail_def ev_pure_def)

lemma kept_bind:
  "kept P x \<Longrightarrow> (\<And>r s. P (ev_world s) \<Longrightarrow> kept P (f (r, s))) \<Longrightarrow> kept P (Option.bind x f)"
  by (cases x) (auto simp: kept_def)

lemma kept_bind_plain: "(\<And>v. kept P (f v)) \<Longrightarrow> kept P (Option.bind x f)"
  by (cases x) (auto simp: kept_def)

text \<open>A pair whose second component is a state; other pairs are merely taken apart.\<close>

lemma kept_pair_known: "kept P (f r s) \<Longrightarrow> kept P (case (r, s) of (r, s) \<Rightarrow> f r s)"
  by simp

lemma kept_pair:
  "P (ev_world (snd x)) \<Longrightarrow> (\<And>r s. P (ev_world s) \<Longrightarrow> kept P (f r s)) \<Longrightarrow> kept P (case x of (r, s) \<Rightarrow> f r s)"
  by (cases x) simp

lemma kept_pair_plain: "(\<And>a b. kept P (f a b)) \<Longrightarrow> kept P (case x of (a, b) \<Rightarrow> f a b)"
  by (cases x) simp

lemma kept_pair_app: "(\<And>a b. kept P (f a b s)) \<Longrightarrow> kept P ((case x of (a, b) \<Rightarrow> f a b) s)"
  by (cases x) simp

lemma kept_cases [kept_rules]:
  "kept P a \<Longrightarrow> kept P b \<Longrightarrow> kept P (if c then a else b)"
  "kept P (f s) \<Longrightarrow> kept P (g s) \<Longrightarrow> kept P ((if c then f else g) s)"
  "kept P a \<Longrightarrow> kept P b \<Longrightarrow> kept P (case c of True \<Rightarrow> a | False \<Rightarrow> b)"
  "kept P u \<Longrightarrow> (\<And>v. kept P (k v)) \<Longrightarrow> kept P (case x of None \<Rightarrow> u | Some v \<Rightarrow> k v)"
  "kept P (u' s) \<Longrightarrow> (\<And>v. kept P (k' v s)) \<Longrightarrow> kept P ((case x of None \<Rightarrow> u' | Some v \<Rightarrow> k' v) s)"
  "(\<And>e. kept P (l e)) \<Longrightarrow> (\<And>v. kept P (m v)) \<Longrightarrow> kept P (case y of Inl e \<Rightarrow> l e | Inr v \<Rightarrow> m v)"
  "kept P p \<Longrightarrow> (\<And>z zs. kept P (q z zs)) \<Longrightarrow> kept P (case xs of [] \<Rightarrow> p | z # zs \<Rightarrow> q z zs)"
  "kept P (p' s) \<Longrightarrow> (\<And>z zs. kept P (q' z zs s)) \<Longrightarrow> kept P ((case xs of [] \<Rightarrow> p' | z # zs \<Rightarrow> q' z zs) s)"
  "kept P (h d) \<Longrightarrow> kept P (Let d h)" "kept P (h' d s) \<Longrightarrow> kept P (Let d h' s)"
  by (auto simp: Let_def split: bool.split option.split sum.split list.split)

lemma kept_value_cases [kept_rules]:
  "kept P a1 \<Longrightarrow> (\<And>b. kept P (a2 b)) \<Longrightarrow> (\<And>d. kept P (a3 d)) \<Longrightarrow> (\<And>t. kept P (a4 t)) \<Longrightarrow> (\<And>t. kept P (a5 t)) \<Longrightarrow>
   (\<And>t. kept P (a6 t)) \<Longrightarrow> (\<And>vs. kept P (a7 vs)) \<Longrightarrow> (\<And>vs. kept P (a8 vs)) \<Longrightarrow> kept P (case_pb_value a1 a2 a3 a4 a5 a6 a7 a8 v)"
  "kept P (b1 s) \<Longrightarrow> (\<And>b. kept P (b2 b s)) \<Longrightarrow> (\<And>d. kept P (b3 d s)) \<Longrightarrow> (\<And>t. kept P (b4 t s)) \<Longrightarrow> (\<And>t. kept P (b5 t s)) \<Longrightarrow>
   (\<And>t. kept P (b6 t s)) \<Longrightarrow> (\<And>vs. kept P (b7 vs s)) \<Longrightarrow> (\<And>vs. kept P (b8 vs s)) \<Longrightarrow>
   kept P (case_pb_value b1 b2 b3 b4 b5 b6 b7 b8 v s)"
  by (cases v; simp)+

lemma kept_clock_cases [kept_rules]:
  "kept P a1 \<Longrightarrow> kept P a2 \<Longrightarrow> kept P a3 \<Longrightarrow> kept P a4 \<Longrightarrow> kept P a5 \<Longrightarrow> kept P a6 \<Longrightarrow> kept P (case_pb_eval_clock_kind a1 a2 a3 a4 a5 a6 k)"
  by (cases k; simp)

lemma ctx_publish_kept [kept_rules]: "ctx_keeps P ctx \<Longrightarrow> P (ev_world s) \<Longrightarrow> kept P (do_publish ctx subject payload s)"
  by (auto simp: do_publish_def ctx_keeps_def kept_def split: option.splits)

lemma ctx_keeps_payload [simp]: "ctx_keeps P (ctx\<lparr>cx_payload := t\<rparr>) = ctx_keeps P ctx"
  by (simp add: ctx_keeps_def)

section \<open>Steps that leave the world alone\<close>

lemma world_unchanged [simp, world_kept]:
  "ev_world (note_suppressed ctx s) = ev_world s" "ev_world (put_slot ctx i e s) = ev_world s"
  "ev_world (snd (arena_alloc lib n align s)) = ev_world s" "ev_world (snd (arena_memdup lib t s)) = ev_world s"
  "ev_world (snd (payload_of lib v s)) = ev_world s" "ev_world (snd (read_json_slice lib src s)) = ev_world s"
  by (auto simp: note_suppressed_def put_slot_def arena_alloc_def arena_memdup_def payload_of_def read_json_slice_def Let_def
      split: prod.split)

lemma world_unchangedD:
  "arena_alloc lib n align s = (ok, s') \<Longrightarrow> ev_world s' = ev_world s" "arena_memdup lib t s = (p, s') \<Longrightarrow> ev_world s' = ev_world s"
  "payload_of lib v s = (p, s') \<Longrightarrow> ev_world s' = ev_world s"
  by (metis snd_conv world_unchanged(3)) (metis snd_conv world_unchanged(4), metis snd_conv world_unchanged(5))

lemma coerce_parts_world [simp, world_kept]: "ev_world (snd (coerce_parts lib vs s)) = ev_world s"
proof (induction vs arbitrary: s)
  case (Cons v vs)
  obtain p s1 where "payload_of lib v s = (p, s1)" "ev_world s1 = ev_world s" using world_unchangedD(3) by (metis surj_pair)
  then show ?case using Cons.IH [of s1] by (auto split: prod.split option.split)
qed simp

lemma world_unchanged_text [simp, world_kept]:
  "ev_world (snd (format_number_dp lib d n s)) = ev_world s" "ev_world (snd (encode_state_value lib v s)) = ev_world s"
  "ev_world (snd (publish_payload lib places v s)) = ev_world s" "ev_world (snd (json_scalar_value lib j s)) = ev_world s"
proof -
  show f: "ev_world (snd (format_number_dp lib d n s)) = ev_world s" for d n
    by (auto simp: format_number_dp_def Let_def dest: world_unchangedD split: prod.split)
  show "ev_world (snd (encode_state_value lib v s)) = ev_world s"
    by (cases v) (simp_all add: encode_state_value_def)
  show "ev_world (snd (publish_payload lib places v s)) = ev_world s"
    by (cases v) (simp_all add: publish_payload_def f split: option.split)
  show "ev_world (snd (json_scalar_value lib j s)) = ev_world s"
    by (cases "(lib, j, s)" rule: json_scalar_value.cases) (auto dest: world_unchangedD split: prod.split option.split)
qed

section \<open>The forms\<close>

text \<open>The rules for computations on states come before those for other data.\<close>

lemmas kept_steps = kept_pair_known kept_bind kept_pair
lemmas kept_plain_steps = kept_bind_plain kept_pair_plain kept_pair_app

lemma publish_or_fail_kept [kept_rules]:
  "ctx_keeps P ctx \<Longrightarrow> P (ev_world s) \<Longrightarrow> kept P (publish_or_fail ctx subject payload s)"
  unfolding publish_or_fail_def by (rule kept_rules kept_steps | assumption | simp)+

lemma state_slot_kept [kept_rules]: "P (ev_world s) \<Longrightarrow> kept P (state_slot lib ctx op s)"
  unfolding state_slot_def by (rule kept_rules kept_steps | rule kept_plain_steps | assumption | simp)+

lemma with_slot_kept [kept_rules]:
  "P (ev_world s) \<Longrightarrow> (\<And>i slot s. P (ev_world s) \<Longrightarrow> kept P (f i slot s)) \<Longrightarrow> kept P (with_slot lib ctx op f s)"
  unfolding with_slot_def by (rule kept_rules kept_steps | rule kept_plain_steps | assumption | simp)+

lemma changed_kept [kept_rules]:
  "P (ev_world s) \<Longrightarrow> kept P (changed_result ctx bool_mode v changed s)"
  "P (ev_world s) \<Longrightarrow> kept P (stateful_changed lib ctx op v bool_mode s)"
  unfolding changed_result_def stateful_changed_def by (rule kept_rules kept_steps | rule kept_plain_steps | assumption | simp add: changed_result_def)+

text \<open>Text, the slots of one value, and the rings do not publish.\<close>

lemma text_forms_kept [kept_rules]:
  assumes "P (ev_world s)"
  shows "kept P (call_now lib ctx args s)"
    "kept P (call_str_concat lib args s)"
    "kept P (call_subject_append lib ctx args s)"
    "kept P (call_subject_with lib args s)"
    "kept P (call_print ctx args s)"
    "kept P (call_json_get lib args s)"
  using assms unfolding call_now_def call_str_concat_def call_subject_append_def call_subject_with_def call_print_def call_json_get_def
  by - (rule kept_rules kept_steps | rule kept_plain_steps | assumption | simp)+

lemma state_forms_kept [kept_rules]:
  assumes "P (ev_world s)"
  shows "kept P (call_squelch lib ctx args s)"
    "kept P (call_changed lib ctx args s)"
    "kept P (call_hold_off lib ctx args s)"
    "kept P (call_edge lib ctx args rising s)"
    "kept P (call_deadband lib ctx args s)"
    "kept P (call_delta lib ctx args s)"
  using assms unfolding call_squelch_def call_changed_def call_hold_off_def call_edge_def call_deadband_def call_delta_def
  by - (rule kept_rules kept_steps | rule kept_plain_steps | assumption | simp)+

lemma window_slot_kept [kept_rules]:
  assumes "P (ev_world s)"
  shows "kept P (window_slot lib ctx name time_window cnt ms s)"
  using assms unfolding window_slot_def
  by - (rule kept_rules kept_steps | rule kept_plain_steps | assumption | simp)+

lemma window_push_slot_kept [kept_rules]:
  assumes "P (ev_world s)" "\<And>slot s. P (ev_world s) \<Longrightarrow> kept P (k slot s)"
  shows "kept P (window_push_slot lib ctx name time_window cnt ms x k s)"
  using assms unfolding window_push_slot_def
  by - (rule kept_rules kept_steps | rule kept_plain_steps | assumption | simp)+

lemma percentile_of_kept [kept_rules]:
  assumes "P (ev_world s)"
  shows "kept P (percentile_of lib p slot s)"
  using assms unfolding percentile_of_def
  by - (rule kept_rules kept_steps | rule kept_plain_steps | assumption | simp)+

lemma window_forms_kept [kept_rules]:
  assumes "P (ev_world s)"
  shows "kept P (call_window_calc lib ctx args op calc s)"
    "kept P (call_percentile lib ctx args median s)"
    "kept P (call_rate lib ctx args s)"
    "kept P (call_throttle lib ctx args s)"
  using assms unfolding call_window_calc_def call_percentile_def call_rate_def call_throttle_def
  by - (rule kept_rules kept_steps | rule kept_plain_steps | assumption | simp)+

lemma retain_kept [kept_rules]:
  assumes "P (ev_world s)"
  shows "kept P (retain_publish lib ctx op kind ms sv vv reset s)"
    "kept P (call_debounce lib ctx args s)"
    "kept P (call_sample lib ctx args s)"
    "kept P (call_aggregate lib ctx args s)"
  using assms unfolding retain_publish_def call_debounce_def call_sample_def call_aggregate_def
  by - (rule kept_rules kept_steps | rule kept_plain_steps | assumption | simp)+

text \<open>The forms that publish.\<close>

lemma publishing_kept [kept_rules]:
  assumes "ctx_keeps P ctx" "P (ev_world s)"
  shows "kept P (call_publish lib ctx args s)"
    "kept P (count_publish lib ctx subject s)"
    "kept P (call_count lib ctx args s)"
    "kept P (emit_one_bar_field lib ctx name v s)"
    "kept P (publish_json_demux_one lib ctx doc spec leaf s)"
    "kept P (clock_publish ctx slot s)"
  using assms unfolding call_publish_def count_publish_def call_count_def emit_one_bar_field_def publish_json_demux_one_def clock_publish_def
  by - (rule kept_rules kept_steps | rule kept_plain_steps | assumption | simp)+

lemma emit_bar_kept [kept_rules]:
  assumes "ctx_keeps P ctx" "P (ev_world s)"
  shows "kept P (emit_bar_list lib ctx fs s)" "kept P (demux_all lib ctx doc leaf specs s)"
proof -
  show "kept P (emit_bar_list lib ctx fs s)" using assms(2)
  proof (induction fs arbitrary: s)
    case (Cons f fs)
    obtain name v where "f = (name, v)" by (cases f)
    with Cons show ?case using assms(1) by (simp, intro kept_bind) (auto intro!: kept_rules)
  qed (simp add: kept_rules)
  show "kept P (demux_all lib ctx doc leaf specs s)" using assms(2)
  proof (induction specs arbitrary: s)
    case (Cons spec specs)
    then show ?case using assms(1) by (simp, intro kept_bind) (auto intro!: kept_rules)
  qed (simp add: kept_rules)
qed

lemma publishing_lists_kept [kept_rules]:
  assumes "ctx_keeps P ctx" "P (ev_world s)"
  shows "kept P (emit_bar_fields lib ctx c s)"
    "kept P (call_bar lib ctx args s)"
    "kept P (call_json_demux lib ctx args s)"
    "kept P (tick_aggregate lib ctx i s)"
  using assms unfolding emit_bar_fields_def call_bar_def call_json_demux_def tick_aggregate_def
  by - (rule kept_rules kept_steps | rule kept_plain_steps | assumption | simp)+

lemma window_form_kept:
  assumes "P (ev_world s)"
  shows "kept P (call_window_form lib ctx form args s)" "kept P (call_clock_form lib ctx form args s)"
  unfolding call_window_form_def call_clock_form_def
  by (cases form; simp only: pb_form.case; rule kept_rules assms)+

lemma call_form_kept [kept_rules]:
  assumes "ctx_keeps P ctx" "P (ev_world s)"
  shows "kept P (pb_eval_call_form lib ctx form args s)"
  unfolding pb_eval_call_form_def
  by (cases form; simp only: pb_form.case; (rule kept_rules window_form_kept assms)+)

section \<open>The evaluator\<close>

text \<open>An evaluator of subexpressions, and a caller of forms, that keep the property.\<close>

definition eval_keeps :: "('w \<Rightarrow> bool) \<Rightarrow> 'w evaluator \<Rightarrow> bool" where
  "eval_keeps P eval \<longleftrightarrow> (\<forall>ctx e s. ctx_keeps P ctx \<longrightarrow> P (ev_world s) \<longrightarrow> kept P (eval ctx e s))"

definition call_keeps :: "('w \<Rightarrow> bool) \<Rightarrow> ('w pb_eval_ctx \<Rightarrow> pb_value list \<Rightarrow> 'w ev) \<Rightarrow> bool" where
  "call_keeps P call \<longleftrightarrow> (\<forall>ctx items s. ctx_keeps P ctx \<longrightarrow> P (ev_world s) \<longrightarrow> kept P (call ctx items s))"

lemma evalD: "eval_keeps P eval \<Longrightarrow> ctx_keeps P ctx \<Longrightarrow> P (ev_world s) \<Longrightarrow> kept P (eval ctx e s)"
  by (simp add: eval_keeps_def)

lemma callD: "call_keeps P call \<Longrightarrow> ctx_keeps P ctx \<Longrightarrow> P (ev_world s) \<Longrightarrow> kept P (call ctx items s)"
  by (simp add: call_keeps_def)

lemma eval_lists_kept [kept_rules]:
  assumes "eval_keeps P eval" "ctx_keeps P ctx" "P (ev_world s)"
  shows "kept P (eval_body eval ctx v es s)" "kept P (eval_and eval ctx v es s)" "kept P (eval_items eval ctx es s)"
    "kept P (eval_or eval ctx es s)"
proof -
  show "kept P (eval_body eval ctx v es s)" using assms(3)
  proof (induction es arbitrary: v s)
    case (Cons e es)
    show ?case unfolding eval_body.simps
      by (rule kept_rules kept_steps evalD [OF assms(1)] Cons.IH Cons.prems assms(2) | rule kept_plain_steps | assumption)+
  qed (simp add: kept_rules)
  show "kept P (eval_and eval ctx v es s)" using assms(3)
  proof (induction es arbitrary: v s)
    case (Cons e es)
    show ?case unfolding eval_and.simps
      by (rule kept_rules kept_steps evalD [OF assms(1)] Cons.IH Cons.prems assms(2) | rule kept_plain_steps | assumption)+
  qed (simp add: kept_rules)
  show "kept P (eval_items eval ctx es s)" using assms(3)
  proof (induction es arbitrary: s)
    case (Cons e es)
    show ?case unfolding eval_items.simps
      by (rule kept_rules kept_steps evalD [OF assms(1)] Cons.IH Cons.prems assms(2) | rule kept_plain_steps | assumption)+
  qed (simp add: kept_rules)
  show "kept P (eval_or eval ctx es s)" using assms(3)
  proof (induction es arbitrary: s)
    case (Cons e es)
    show ?case unfolding eval_or.simps
      by (rule kept_rules kept_steps evalD [OF assms(1)] Cons.IH Cons.prems assms(2) | rule kept_plain_steps | assumption)+
  qed (simp add: kept_rules)
qed

lemma eval_args_kept [kept_rules]:
  assumes "eval_keeps P eval" "ctx_keeps P ctx" "P (ev_world s)"
  shows "kept P (eval_args eval lib ctx raw s)" "kept P (eval_do eval ctx raw s)" "kept P (eval_clock_body eval ctx raw s)"
  using assms unfolding eval_args_def eval_do_def eval_clock_body_def
  by - (rule kept_rules kept_steps evalD [OF assms(1)] | rule kept_plain_steps | assumption | simp)+

lemma special_forms_kept [kept_rules]:
  assumes "eval_keeps P eval" "ctx_keeps P ctx" "P (ev_world s)"
  shows "kept P (eval_if eval ctx args s)" "kept P (eval_when eval ctx args s)" "kept P (eval_transition eval lib ctx args s)"
    "kept P (pb_eval_call_on_silence eval lib ctx args s)" "kept P (pb_eval_call_dropout eval lib ctx args s)"
    "kept P (tick_clock_state_entry eval lib ctx i s)"
  using assms
  unfolding eval_if_def eval_when_def eval_transition_def pb_eval_call_on_silence_def pb_eval_call_dropout_def raw_ms_def
    tick_clock_state_entry_def
  by - (rule kept_rules kept_steps evalD [OF assms(1)] | rule kept_plain_steps | assumption | simp)+

lemma thread_kept:
  assumes "call_keeps P call" "ctx_keeps P ctx" "P (ev_world s)"
  shows "kept P (eval_call_with_threaded call lib ctx form threaded s)" "kept P (eval_thread_steps call lib ctx cur forms s)"
proof -
  have one: "kept P (eval_call_with_threaded call lib ctx form threaded s)" if "P (ev_world s)" for s form threaded
    using that assms(2) unfolding eval_call_with_threaded_def
    by - (rule kept_rules kept_steps callD [OF assms(1)] | rule kept_plain_steps | assumption | simp)+
  then show "kept P (eval_call_with_threaded call lib ctx form threaded s)" using assms(3) .
  show "kept P (eval_thread_steps call lib ctx cur forms s)" using assms(3)
  proof (induction forms arbitrary: cur s)
    case (Cons form forms)
    show ?case unfolding eval_thread_steps.simps
      by (rule kept_rules kept_steps one Cons.IH Cons.prems | rule kept_plain_steps | assumption)+
  qed (simp add: kept_rules)
qed

lemma special_kept:
  assumes "eval_keeps P eval" "call_keeps P call" "ctx_keeps P ctx" "P (ev_world s)"
  shows "kept P (eval_thread eval call lib ctx args s)" "kept P (eval_special eval call lib ctx form args s)"
proof -
  show thread: "kept P (eval_thread eval call lib ctx args s)"
    using assms(3,4) unfolding eval_thread_def
    by - (rule kept_rules kept_steps evalD [OF assms(1)] thread_kept [OF assms(2)] | rule kept_plain_steps | assumption)+
  show "kept P (eval_special eval call lib ctx form args s)"
    unfolding eval_special_def
    by (cases form; simp only: pb_form.case; (rule thread kept_rules assms)+)
qed

lemma eval_bodies_kept:
  fixes P :: "'w \<Rightarrow> bool"
  assumes "eval_keeps P eval" "call_keeps P call"
  shows "call_keeps P (eval_list_body eval call lib)" "eval_keeps P (eval_value_body eval call lib)"
proof -
  have sym: "kept P (eval_symbol ctx name s)" if "ctx_keeps P ctx" "P (ev_world s)" for ctx name s
  proof (cases "cx_user_symbol ctx")
    case None
    then show ?thesis using that(2) unfolding eval_symbol_def None option.case
      by - (rule kept_rules | assumption)+
  next
    case (Some f)
    then have "kept P (f name s)" using that by (simp add: ctx_keeps_def)
    then show ?thesis using that(2) unfolding eval_symbol_def Some option.case
      by - (rule kept_rules kept_steps | rule kept_plain_steps | assumption)+
  qed
  have user: "kept P (f name args s)" if "cx_user_call ctx = Some f" "ctx_keeps P ctx" "P (ev_world s)" for ctx f name args s
    using that by (simp add: ctx_keeps_def)
  show "call_keeps P (eval_list_body eval call lib)"
    unfolding call_keeps_def
  proof (intro allI impI)
    fix ctx items and s :: "'w eval_st" assume c: "ctx_keeps P ctx" and s: "P (ev_world s)"
    show "kept P (eval_list_body eval call lib ctx items s)"
      unfolding eval_list_body_def
      by (cases "cx_user_call ctx"; simp only: option.case;
          (rule kept_rules kept_steps user special_kept [OF assms] c s | rule kept_plain_steps | assumption | rule assms(1))+)
  qed
  show "eval_keeps P (eval_value_body eval call lib)"
    unfolding eval_keeps_def
  proof (intro allI impI)
    fix ctx e and s :: "'w eval_st" assume c: "ctx_keeps P ctx" and s: "P (ev_world s)"
    show "kept P (eval_value_body eval call lib ctx e s)"
      unfolding eval_value_body_def
      by (rule kept_rules kept_steps sym callD [OF assms(2)] c s | rule kept_plain_steps | assumption | rule assms(1))+
  qed
qed

lemma pb_eval_kept:
  "eval_keeps P (pb_eval n lib)" "call_keeps P (eval_list n lib)"
proof (induction n)
  case 0
  show "eval_keeps P (pb_eval 0 lib)" "call_keeps P (eval_list 0 lib)" by (simp_all add: eval_keeps_def call_keeps_def kept_basic)
next
  case (Suc n)
  show "eval_keeps P (pb_eval (Suc n) lib)" "call_keeps P (eval_list (Suc n) lib)"
    using eval_bodies_kept [OF Suc] by simp_all
qed

lemma tick_state_entry_kept:
  assumes "ctx_keeps P ctx" "P (ev_world s)"
  shows "kept P (pb_eval_tick_state_entry n lib ctx i s)"
  using assms unfolding pb_eval_tick_state_entry_def
  by - (rule kept_rules kept_steps pb_eval_kept | rule kept_plain_steps | assumption | simp)+

section \<open>The program\<close>

text \<open>
  The host of a program keeps a property of the router and the server: its publishes do, when they
  return, and so do its user hooks.
\<close>

definition host_keeps :: "('w world \<Rightarrow> bool) \<Rightarrow> 'w pb_host \<Rightarrow> bool" where
  "host_keeps I host \<longleftrightarrow>
     (\<forall>w subject payload options ok w'. I w \<longrightarrow>
        mb_router_publish_with_options (ho_router host) (ho_cb host) w subject payload options = Some (ok, w') \<longrightarrow> I w') \<and>
     (\<forall>f. ho_user_symbol host = Some f \<longrightarrow> (\<forall>name s. I (pw_world (ev_world s)) \<longrightarrow> kept (\<lambda>p. I (pw_world p)) (f name s))) \<and>
     (\<forall>f. ho_user_call host = Some f \<longrightarrow> (\<forall>name args s. I (pw_world (ev_world s)) \<longrightarrow> kept (\<lambda>p. I (pw_world p)) (f name args s)))"

definition again_keeps :: "('w world \<Rightarrow> bool) \<Rightarrow> (bytes \<Rightarrow> bytes \<Rightarrow> 'w run \<Rightarrow> (bool \<times> 'w run) option) \<Rightarrow> bool" where
  "again_keeps I again \<longleftrightarrow>
     (\<forall>subject payload s. I (pw_world (ev_world s)) \<longrightarrow> kept (\<lambda>p. I (pw_world p)) (again subject payload s))"

lemma log_world [simp]:
  "ev_world (log_line t s) = ev_world s" "ev_world (rule_failed what i err s) = ev_world s"
  by (simp_all add: log_line_def rule_failed_def)

lemma publish_cb_kept:
  assumes host: "host_keeps I host" and again: "again_keeps I again" and s: "I (pw_world (ev_world s))"
  shows "kept (\<lambda>p. I (pw_world p)) (publish_cb host p pc again subject payload s)"
proof -
  let ?sent = "mb_router_publish_with_options (ho_router host) (ho_cb host) (pw_world (ev_world s)) subject payload
    \<lparr>opt_replaying = pc_replaying pc, opt_has_assumed_ts_ms = (0 \<le> pc_wall_ms pc), opt_assumed_ts_ms = pc_wall_ms pc\<rparr>"
  have again': "kept (\<lambda>p. I (pw_world p)) (again subject payload s')" if "I (pw_world (ev_world s'))" for s'
    using again that by (simp add: again_keeps_def)
  have w: "I w" if "?sent = Some (sent, w)" for sent w using host s that unfolding host_keeps_def by blast
  show ?thesis
  proof (cases ?sent)
    case None
    then show ?thesis using s by (simp add: publish_cb_def kept_basic)
  next
    case (Some r)
    obtain sent w' where r: "r = (sent, w')" by (cases r)
    then have "I w'" using w Some by simp
    then show ?thesis
      using s unfolding publish_cb_def Some r bind.simps prod.case Let_def
      by - (rule kept_rules kept_bind kept_pair_known again' | assumption | simp)+
  qed
qed

lemma program_ctx_keeps:
  assumes "host_keeps I host" "again_keeps I again"
  shows "ctx_keeps (\<lambda>p. I (pw_world p)) (program_ctx host i now wall replaying subject payload (publish_cb host p pc again))"
  using assms publish_cb_kept [OF assms] by (simp add: ctx_keeps_def program_ctx_def host_keeps_def)

lemma eval_rule_kept:
  assumes "host_keeps I host" "again_keeps I again" "I (pw_world (ev_world s))"
  shows "kept (\<lambda>p. I (pw_world p)) (eval_rule_for_publish host p i subject payload now wall depth replaying again s)"
  using program_ctx_keeps [OF assms(1,2)] assms(3) unfolding eval_rule_for_publish_def Let_def
  by - (rule kept_rules kept_steps evalD [OF pb_eval_kept(1)] | assumption | simp)+

lemma kept_bind_result:
  "kept P x \<Longrightarrow> (\<And>r s. x = Some (r, s) \<Longrightarrow> P (ev_world s) \<Longrightarrow> kept P (f r s)) \<Longrightarrow> kept P (Option.bind x (\<lambda>(r, s). f r s))"
  by (cases x) (auto simp: kept_def)

lemma eval_refs_kept:
  assumes "\<And>i s. P (ev_world s) \<Longrightarrow> kept P (f i s)" "P (ev_world s)"
  shows "kept P (eval_refs f bucket global ok s)"
  using assms
proof (induction f bucket global ok s rule: eval_refs.induct)
  case (1 f ok s)
  then show ?case by (simp add: kept_basic)
next
  case (2 f i bucket ok s)
  show ?case unfolding eval_refs.simps
    by (rule kept_bind_result [OF "2.prems"(1) [OF "2.prems"(2)]]) (rule "2.IH" [OF _ refl "2.prems"(1)]; assumption)
next
  case (3 f g global ok s)
  show ?case unfolding eval_refs.simps
    by (rule kept_bind_result [OF "3.prems"(1) [OF "3.prems"(2)]]) (rule "3.IH" [OF _ refl "3.prems"(1)]; assumption)
next
  case (4 f i bucket g global ok s)
  have "kept P (f i s \<bind> (\<lambda>(r, s). eval_refs f bucket (g # global) (r \<and> ok) s))" if "i < g"
    by (rule kept_bind_result [OF "4.prems"(1) [OF "4.prems"(2)]]) (rule "4.IH"(1) [OF that _ refl "4.prems"(1)]; assumption)
  moreover have "kept P (f g s \<bind> (\<lambda>(r, s). eval_refs f (i # bucket) global (r \<and> ok) s))" if "\<not> i < g"
    by (rule kept_bind_result [OF "4.prems"(1) [OF "4.prems"(2)]]) (rule "4.IH"(2) [OF that _ refl "4.prems"(1)]; assumption)
  ultimately show ?case by simp
qed

lemma eval_publish_slices_kept:
  assumes "host_keeps I host" "I (pw_world (ev_world s))"
  shows "kept (\<lambda>p. I (pw_world p)) (eval_publish_slices host p subject payload now wall depth replaying s)"
  using assms
proof (induction host p subject payload now wall depth replaying s rule: eval_publish_slices.induct)
  case (1 host p subject payload now wall depth replaying s)
  let ?again = "\<lambda>subject payload s. if depth < PB_PROGRAM_MAX_REENTRY_DEPTH
    then eval_publish_slices host p subject payload now wall (depth + 1) replaying s else None"
  have "again_keeps I ?again" if "pg_rules p \<noteq> []"
    using "1.IH" [OF that] "1.prems"(1) by (auto simp: again_keeps_def kept_basic)
  then show ?case
    using "1.prems" eval_refs_kept [of "\<lambda>p. I (pw_world p)", OF eval_rule_kept [OF "1.prems"(1), of ?again] "1.prems"(2)]
    by (simp add: eval_publish_slices.simps [of host p] kept_basic)
qed

lemma tick_kept:
  assumes host: "host_keeps I host" and s: "I (pw_world (ev_world s))"
  shows "kept (\<lambda>p. I (pw_world p)) (tick_entry host p now wall replaying i state_idx s)"
    "kept (\<lambda>p. I (pw_world p)) (tick_states n host p now wall replaying i state_idx ok s)"
    "kept (\<lambda>p. I (pw_world p)) (tick_rules host p now wall replaying is ok s)"
proof -
  let ?P = "\<lambda>p. I (pw_world p)"
  have again: "again_keeps I (\<lambda>subject payload s. eval_publish_slices host p subject payload now wall 1 replaying s)"
    using eval_publish_slices_kept [OF host] by (simp add: again_keeps_def)
  have one: "kept ?P (tick_entry host p now wall replaying i state_idx s)" if "I (pw_world (ev_world s))" for i state_idx s
    using that program_ctx_keeps [OF host again] unfolding tick_entry_def Let_def
    by - (rule kept_rules kept_steps tick_state_entry_kept | assumption | simp)+
  have states: "kept ?P (tick_states n host p now wall replaying i state_idx ok s)" if "I (pw_world (ev_world s))" for n i state_idx ok s
    using that
  proof (induction n arbitrary: state_idx ok s)
    case (Suc n)
    show ?case unfolding tick_states.simps
      by (rule kept_rules kept_steps one Suc.IH Suc.prems | assumption)+
  qed (simp add: kept_basic)
  show "kept ?P (tick_entry host p now wall replaying i state_idx s)" by (rule one [OF s])
  show "kept ?P (tick_states n host p now wall replaying i state_idx ok s)" by (rule states [OF s])
  show "kept ?P (tick_rules host p now wall replaying is ok s)" using s
  proof (induction "is" arbitrary: ok s)
    case (Cons i "is")
    show ?case unfolding tick_rules.simps
      by (rule kept_rules kept_steps states Cons.IH Cons.prems | assumption)+
  qed (simp add: kept_basic)
qed

text \<open>
  The evaluation of a message, a tick and the replay of ticks keep every property of the router and
  the server that the publishes of the host keep.
\<close>

lemma program_keeps:
  assumes "host_keeps I host" "I w"
  shows "pb_program_eval_publish_with_options host p w subject payload now wall replaying = Some (ok, p', w') \<Longrightarrow> I w'"
    "pb_program_tick_with_options host p w now wall replaying = Some (ok, p', w') \<Longrightarrow> I w'"
proof -
  have e: "I (pw_world (ev_world (enter_program p w)))" using assms(2) by (simp add: enter_program_def)
  show "I w'" if "pb_program_eval_publish_with_options host p w subject payload now wall replaying = Some (ok, p', w')"
    using that assms(2) keptD [OF eval_publish_slices_kept [OF assms(1) e]]
    by (auto simp: pb_program_eval_publish_with_options_def bind_eq_Some_conv split: if_splits)
  show "I w'" if "pb_program_tick_with_options host p w now wall replaying = Some (ok, p', w')"
    using that assms(2) keptD [OF tick_kept(3) [OF assms(1) e]]
    by (auto simp: pb_program_tick_with_options_def bind_eq_Some_conv split: if_splits)
qed

lemma tick_until_keeps:
  assumes "host_keeps I host" "I w" "pb_program_tick_until n host ok p w now wall replaying = Some (ok', p', w')"
  shows "I w'"
  using assms(2,3)
proof (induction n arbitrary: ok p w)
  case (Suc n)
  obtain d where d: "pb_program_next_clock_deadline p = Some d" using Suc.prems(2) by (auto simp: bind_eq_Some_conv)
  show ?case
  proof (cases "d = None \<or> now < the d")
    case True
    then show ?thesis using Suc.prems d by (auto split: option.splits)
  next
    case False
    then obtain due wall' r p1 w1 where t: "pb_program_tick_with_options host p w due wall' replaying = Some (r, p1, w1)"
        "pb_program_tick_until n host (r \<and> ok) p1 w1 now wall replaying = Some (ok', p', w')"
      using Suc.prems(2) d by (auto simp: bind_eq_Some_conv Let_def split: option.splits)
    show ?thesis by (rule Suc.IH [OF program_keeps(2) [OF assms(1) Suc.prems(1) t(1)] t(2)])
  qed
qed simp

end
