(* ===== verification/Float_Bits.thy ===== *)
theory Float_Bits
  imports Float64
begin

text \<open>
  The bits of a \<open>double\<close>, which \<open>src/src/snapshot.c\<close> reads and writes with \<open>memcpy\<close>: one sign
  bit, eleven bits of exponent and 52 of fraction. The model has a single NaN, so the bits of a NaN are
  an argument.
\<close>

type_synonym bits64 = "64 word"

definition pack_bits :: "bool \<Rightarrow> int \<Rightarrow> int \<Rightarrow> bits64" where
  "pack_bits neg ex fr = word_of_int ((if neg then 2 ^ 63 else 0) + ex * 2 ^ 52 + fr)"

fun bits_of_double :: "bits64 \<Rightarrow> double \<Rightarrow> bits64" where
  "bits_of_double nan D_NAN = nan"
| "bits_of_double nan (D_INF s) = pack_bits s 2047 0"
| "bits_of_double nan (D_ZERO s) = pack_bits s 0 0"
| "bits_of_double nan (D_NUM r) =
     (let m = \<bar>r\<bar>; e = exponent_of m
      in if e < - 1022 then pack_bits (r < 0) 0 \<lfloor>m / pow2 (- 1074)\<rfloor>
         else pack_bits (r < 0) (e + 1023) (\<lfloor>m / pow2 (e - 52)\<rfloor> - 2 ^ 52))"

definition double_of_bits :: "bits64 \<Rightarrow> double" where
  "double_of_bits b =
     (let neg = 2 ^ 63 \<le> uint b; ex = uint b div 2 ^ 52 mod 2 ^ 11; fr = uint b mod 2 ^ 52;
          sg = (\<lambda>m. D_NUM (if neg then - m else m))
      in if ex = 2047 then (if fr = 0 then D_INF neg else D_NAN)
         else if ex = 0 then (if fr = 0 then D_ZERO neg else sg (of_int fr * pow2 (- 1074)))
         else sg (of_int (fr + 2 ^ 52) * pow2 (ex - 1075)))"

section \<open>The numbers a \<open>double\<close> holds\<close>

text \<open>A finite non-zero \<open>double\<close> is a whole number of at most 53 bits times a power of two.\<close>

definition mag_ok :: "rat \<Rightarrow> bool" where
  "mag_ok r \<longleftrightarrow> 0 < r \<and> exponent_of r < 1024 \<and> (\<exists>k::int. r = of_int k * pow2 (ulp_exponent r))"

fun double_ok :: "double \<Rightarrow> bool" where
  "double_ok (D_NUM r) = (r \<noteq> 0 \<and> mag_ok \<bar>r\<bar>)"
| "double_ok _ = True"

lemma exponent_of_unique:
  assumes "pow2 e \<le> r" "r < pow2 (e + 1)"
  shows "exponent_of r = e"
proof -
  have "0 < r" using assms(1) pow2_pos [of e] by linarith
  note b = exponent_of_bounds [OF this]
  have lt: "a < b'" if "pow2 a < pow2 b'" for a b' using that pow2_mono by (meson leI not_le)
  have "exponent_of r < e + 1" "e < exponent_of r + 1" using lt b assms by (meson le_less_trans)+
  then show ?thesis by simp
qed

text \<open>Rounding gives such a number, so every operation of the model does.\<close>

lemma round_half_even_mono_bounds: "of_int a \<le> x \<Longrightarrow> x \<le> of_int b \<Longrightarrow> a \<le> round_half_even x \<and> round_half_even x \<le> b"
  by (auto simp: round_half_even_def Let_def le_floor_iff floor_le_iff) linarith+

lemma round_mag_ok:
  assumes "0 < r" "round_mag r \<noteq> 0" "exponent_of (round_mag r) < 1024"
  shows "mag_ok (round_mag r)"
proof -
  let ?u = "ulp_exponent r" and ?m = "round_mag r"
  let ?k = "round_half_even (r / pow2 ?u)"
  have r0: "0 \<le> r / pow2 ?u" using assms(1) pow2_pos [of ?u] by (simp add: zero_le_divide_iff less_imp_le)
  then have k0: "0 \<le> ?k" using round_half_even_mono_bounds [of 0 "r / pow2 ?u" "\<lceil>r / pow2 ?u\<rceil>"] by simp
  have m: "?m = of_int ?k * pow2 ?u" by (simp add: round_mag_def)
  have pos: "0 < ?m" using k0 assms(2) unfolding m by (simp add: zero_less_mult_iff)
  have bnd: "r / pow2 ?u < pow2 53"
  proof -
    have "r < pow2 (exponent_of r + 1)" by (rule exponent_of_bounds [OF assms(1)])
    also have "\<dots> \<le> pow2 (53 + ?u)" by (rule pow2_mono) (simp add: ulp_exponent_def)
    finally show ?thesis by (simp add: pow2_add pos_divide_less_eq)
  qed
  have "(pow2 53 :: rat) = of_int (2 ^ 53)" by (simp add: pow2_def)
  then have kle: "?k \<le> 2 ^ 53" using round_half_even_mono_bounds [of 0 "r / pow2 ?u" "2 ^ 53"] bnd r0 by simp
  show ?thesis
  proof (cases "?k = 2 ^ 53")
    case True
    then have m': "?m = pow2 (53 + ?u)" by (simp add: m pow2_add pow2_def [of 53])
    then have e: "exponent_of ?m = 53 + ?u" by (intro exponent_of_unique) (simp_all add: pow2_add pow2_def [of 53] pow2_def [of 54])
    have "- 1074 \<le> ?u" by (simp add: ulp_exponent_def)
    then have "ulp_exponent ?m = ?u + 1" by (simp add: ulp_exponent_def e)
    then have "?m = of_int (2 ^ 52) * pow2 (ulp_exponent ?m)" using m' by (simp add: pow2_add pow2_def [of 53] pow2_def [of 1])
    then show ?thesis using pos assms(3) unfolding mag_ok_def by blast
  next
    case False
    then have "?k < 2 ^ 53" using kle by simp
    then have "(of_int ?k :: rat) < of_int (2 ^ 53)" by (simp only: of_int_less_iff)
    then have "?m < pow2 53 * pow2 ?u" unfolding m by (intro mult_strict_right_mono) (simp_all add: pow2_def [of 53])
    then have "pow2 (exponent_of ?m) < pow2 (53 + ?u)" using exponent_of_bounds(1) [OF pos] by (simp add: pow2_add)
    then have "exponent_of ?m < 53 + ?u" using pow2_mono by (meson leI not_le)
    moreover have "- 1074 \<le> ?u" by (simp add: ulp_exponent_def)
    ultimately have u: "ulp_exponent ?m \<le> ?u" by (simp add: ulp_exponent_def)
    then have "pow2 (?u - ulp_exponent ?m) = of_int (2 ^ nat (?u - ulp_exponent ?m))" by (simp add: pow2_def)
    then have "pow2 ?u = of_int (2 ^ nat (?u - ulp_exponent ?m)) * pow2 (ulp_exponent ?m)"
      using pow2_add [of "?u - ulp_exponent ?m" "ulp_exponent ?m"] by simp
    then have "?m = of_int (?k * 2 ^ nat (?u - ulp_exponent ?m)) * pow2 (ulp_exponent ?m)" unfolding m by simp
    then show ?thesis using pos assms(3) unfolding mag_ok_def by blast
  qed
qed

lemma round_double_ok [simp]: "double_ok (round_double neg r)"
  using round_mag_ok [of "\<bar>r\<bar>"] by (auto simp: round_double_def Let_def abs_if mag_ok_def)

section \<open>Bits and back\<close>

lemma double_of_pack:
  assumes "0 \<le> ex" "ex < 2048" "0 \<le> fr" "fr < 2 ^ 52"
  shows "double_of_bits (pack_bits neg ex fr) =
    (let sg = (\<lambda>m. D_NUM (if neg then - m else m))
     in if ex = 2047 then (if fr = 0 then D_INF neg else D_NAN)
        else if ex = 0 then (if fr = 0 then D_ZERO neg else sg (of_int fr * pow2 (- 1074)))
        else sg (of_int (fr + 2 ^ 52) * pow2 (ex - 1075)))"
proof -
  let ?x = "(if neg then 2 ^ 63 else 0) + ex * 2 ^ 52 + fr"
  have "0 \<le> ?x" "?x < 2 ^ 64" using assms by auto
  then have "uint (word_of_int ?x :: bits64) = ?x" unfolding uint_word_of_int by (intro mod_pos_pos_trivial) simp_all
  then have x: "uint (pack_bits neg ex fr) = ?x" by (simp only: pack_bits_def)
  have q: "?x = fr + ((if neg then 2048 else 0) + ex) * 2 ^ 52" by simp
  have "?x div 2 ^ 52 = (if neg then 2048 else 0) + ex" "?x mod 2 ^ 52 = fr"
    unfolding q mod_mult_self1 using assms by (simp_all add: div_pos_pos_trivial)
  then have parts: "(2 ^ 63 \<le> ?x) = neg" "?x div 2 ^ 52 mod 2 ^ 11 = ex" "?x mod 2 ^ 52 = fr" using assms by auto
  show ?thesis unfolding double_of_bits_def x parts Let_def ..
qed

lemma mantissa_bounds:
  assumes "r = of_int k * pow2 u" "pow2 (a + u) \<le> r" "r < pow2 (b + u)" "0 \<le> a" "0 \<le> b"
  shows "2 ^ nat a \<le> k" "k < 2 ^ nat b" "\<lfloor>r / pow2 u\<rfloor> = k"
proof -
  have "pow2 a \<le> of_int k" "of_int k < pow2 b" using assms(1-3) by (simp_all add: pow2_add)
  then have "(of_int (2 ^ nat a) :: rat) \<le> of_int k" "of_int k < (of_int (2 ^ nat b) :: rat)"
    using assms(4,5) by (simp_all add: pow2_def)
  then show "2 ^ nat a \<le> k" "k < 2 ^ nat b" by (simp_all only: of_int_le_iff of_int_less_iff)
  show "\<lfloor>r / pow2 u\<rfloor> = k" using assms(1) by simp
qed

lemma double_bits_roundtrip:
  assumes "double_ok d" "double_of_bits nan = D_NAN"
  shows "double_of_bits (bits_of_double nan d) = d"
proof (cases d)
  case (D_NUM r)
  define m e where "m = \<bar>r\<bar>" and "e = exponent_of m"
  have ok: "r \<noteq> 0" "0 < m" "e < 1024" using assms(1) D_NUM by (auto simp: mag_ok_def m_def e_def)
  obtain k where k: "m = of_int k * pow2 (ulp_exponent m)" using assms(1) D_NUM by (auto simp: mag_ok_def m_def)
  note b = exponent_of_bounds [OF ok(2), folded e_def]
  have r: "r = (if r < 0 then - m else m)" by (simp add: m_def)
  show ?thesis
  proof (cases "e < - 1022")
    case True
    then have u: "ulp_exponent m = - 1074" by (simp add: ulp_exponent_def e_def)
    have "pow2 (e + 1) \<le> pow2 (52 + - 1074)" using True by (intro pow2_mono) simp
    then have lt: "m < pow2 (52 + - 1074)" using b(2) by linarith
    have "of_int k * pow2 (- 1074) > 0" using ok(2) k u by simp
    then have "0 < k" using pow2_pos [of "- 1074"] by (simp add: zero_less_mult_iff)
    then have "(1::rat) \<le> of_int k" by simp
    then have ge: "pow2 (0 + - 1074) \<le> m" using k u by simp
    have kb: "k < 2 ^ 52" "\<lfloor>m / pow2 (- 1074)\<rfloor> = k" using mantissa_bounds [OF k [unfolded u] ge lt] by simp_all
    have "double_of_bits (bits_of_double nan d) = double_of_bits (pack_bits (r < 0) 0 k)"
      using True kb(2) by (simp add: D_NUM Let_def flip: m_def e_def)
    also have "\<dots> = D_NUM (if r < 0 then - m else m)"
      using double_of_pack [of 0 k "r < 0"] \<open>0 < k\<close> kb(1) k u by (simp add: Let_def)
    finally show ?thesis using r D_NUM by simp
  next
    case False
    then have u: "ulp_exponent m = e - 52" by (simp add: ulp_exponent_def e_def)
    have kb: "2 ^ 52 \<le> k" "k < 2 ^ 53" "\<lfloor>m / pow2 (e - 52)\<rfloor> = k"
      using mantissa_bounds [of m k "e - 52" 52 53] k u b by (simp_all add: add.commute)
    have "double_of_bits (bits_of_double nan d) = double_of_bits (pack_bits (r < 0) (e + 1023) (k - 2 ^ 52))"
      using False kb(3) by (simp add: D_NUM Let_def flip: m_def e_def)
    also have "\<dots> = D_NUM (if r < 0 then - m else m)"
      using double_of_pack [of "e + 1023" "k - 2 ^ 52" "r < 0"] False ok(3) kb(1,2) k u by (simp add: Let_def)
    finally show ?thesis using r D_NUM by simp
  qed
qed (use assms(2) in \<open>simp_all add: double_of_pack\<close>)

end
