(* ===== verification/Files.thy ===== *)
theory Files
  imports Array_Buf
begin

text \<open>
  Whole files (\<open>src/src/fs.c\<close>). What the calls of the C library answer is an argument; a write is
  modelled with every state of the directory it passes through, since another process, or the
  program after a crash, may see any of them.
\<close>

section \<open>Reading\<close>

text \<open>The answer of one \<open>fread\<close>: the bytes, and \<open>feof\<close> and \<open>ferror\<close> after it.\<close>

datatype fread = FREAD (fr_bytes: bytes) (fr_eof: bool) (fr_error: bool)

text \<open>\<open>ri_reads\<close> is \<open>None\<close> when \<open>fopen\<close> fails; \<open>ri_enoent\<close> says that \<open>errno\<close> is \<open>ENOENT\<close> in the end.\<close>

record read_io =
  ri_reads :: "fread list option"
  ri_close_ok :: bool
  ri_enoent :: bool

fun read_chunks :: "allocator \<Rightarrow> fread list \<Rightarrow> mb_buf \<Rightarrow> bool \<times> mb_buf" where
  "read_chunks am [] out = (True, out)"
| "read_chunks am (FREAD tmp eof err # reads) out =
     (case (if length tmp \<noteq> 0 then mb_buf_append am out tmp else (True, out)) of
        (False, out) \<Rightarrow> (False, out)
      | (True, out) \<Rightarrow> if err then (False, out) else if eof then (True, out) else read_chunks am reads out)"

definition mb_read_file :: "allocator \<Rightarrow> read_io \<Rightarrow> mb_buf \<Rightarrow> bool \<times> mb_buf" where
  "mb_read_file am io out =
     (case ri_reads io of
        None \<Rightarrow> (False, out)
      | Some reads \<Rightarrow> (case read_chunks am reads out of (ok, out) \<Rightarrow> (ok \<and> ri_close_ok io, out)))"

section \<open>Writing\<close>

type_synonym files = "bytes \<rightharpoonup> bytes"

text \<open>
  \<open>wi_count\<close> is the result of \<open>fwrite\<close>. Until \<open>fflush\<close> succeeds only \<open>wi_on_disk\<close> of the bytes
  accepted so far are in the file.
\<close>

record write_io =
  wi_open_ok :: bool
  wi_count :: nat
  wi_on_disk :: nat
  wi_flush_ok :: bool
  wi_close_ok :: bool
  wi_rename_ok :: bool
  wi_remove_ok :: bool

definition remove_file :: "write_io \<Rightarrow> bytes \<Rightarrow> files \<Rightarrow> files" where
  "remove_file io path fs = (if wi_remove_ok io then fs(path := None) else fs)"

definition rename_file :: "bytes \<Rightarrow> bytes \<Rightarrow> files \<Rightarrow> files" where
  "rename_file from to fs = (fs(to := fs from))(from := None)"

text \<open>The result, and the states of the directory in order, the first one the initial state.\<close>

definition mb_write_file_atomic :: "allocator \<Rightarrow> write_io \<Rightarrow> bytes \<Rightarrow> bytes \<Rightarrow> files \<Rightarrow> bool \<times> files list" where
  "mb_write_file_atomic am io path data fs =
     (if SIZE_MAX - 5 < length path then (False, [fs])
      else if \<not> am (length path + 5) then (False, [fs])
      else let tmp_path = path @ ''.tmp''
           in if \<not> wi_open_ok io then (False, [fs])
              else let created = fs(tmp_path \<mapsto> []);
                       ok = (length data = 0 \<or> wi_count io = length data);
                       flushed = (ok \<and> wi_flush_ok io);
                       part = fs(tmp_path \<mapsto> (if flushed then data else take (wi_on_disk io) data));
                       ok = (flushed \<and> wi_close_ok io)
                   in if \<not> ok then (False, [fs, created, part, remove_file io tmp_path part])
                      else if \<not> wi_rename_ok io then (False, [fs, created, part, remove_file io tmp_path part])
                      else (True, [fs, created, part, rename_file tmp_path path part]))"

text \<open>\<^bold>\<open>C33\<close> A file is replaced as a whole. Whatever the C library answers, in every state of the directory that
  \<open>mb_write_file_atomic\<close> passes through the file holds either its old contents or all of the new
  ones, only the temporary file beside it changes otherwise, and the function returns true exactly
  when the new contents are in place.\<close>

theorem write_file_atomic_old_or_new:
  "case mb_write_file_atomic am io path data fs of
     (ok, states) \<Rightarrow>
       list_all (\<lambda>fs'. (fs' path = fs path \<or> fs' path = Some data) \<and>
         (fs' |` (- {path, path @ ''.tmp''}) = fs |` (- {path, path @ ''.tmp''}))) states \<and>
       last states path = (if ok then Some data else fs path)"
proof -
  have ne: "path @ ''.tmp'' \<noteq> path" "path \<noteq> path @ ''.tmp''" by simp_all
  have other: "(fs(path @ ''.tmp'' := x)) |` (- {path, path @ ''.tmp''}) = fs |` (- {path, path @ ''.tmp''})"
    "(fs(path := y, path @ ''.tmp'' := x)) |` (- {path, path @ ''.tmp''}) = fs |` (- {path, path @ ''.tmp''})" for x y
    by (auto simp: restrict_map_def fun_eq_iff)
  show ?thesis
    using ne by (auto simp: mb_write_file_atomic_def Let_def remove_file_def rename_file_def other fun_upd_twist)
qed

end
