(* ===== verification/Snapshot.thy ===== *)
theory Snapshot
  imports Float_Bits Files Program
begin

text \<open>
  Snapshots (\<open>src/src/snapshot.c\<close>): the last values of the router and the slots of the patchbay rules
  are written as one byte string and read back at the next start. A position in the bytes is the
  rest of the bytes from there on. The bits of a NaN are the argument \<open>nan\<close>.
\<close>

definition SNAP_VERSION :: nat where "SNAP_VERSION = 4"
definition SNAP_MIN_READ_VERSION :: nat where "SNAP_MIN_READ_VERSION = 3"
definition SNAP_KIND_LVC :: char where "SNAP_KIND_LVC = CHR 0x01"
definition SNAP_KIND_RULE_STATE :: char where "SNAP_KIND_RULE_STATE = CHR 0x02"
definition SNAP_MAX_FIELD :: nat where "SNAP_MAX_FIELD = 16 * 1024 * 1024"
definition UINT32_MAX :: nat where "UINT32_MAX = 2 ^ 32 - 1"

section \<open>Writing fields\<close>

definition append_u8 :: "allocator \<Rightarrow> char \<Rightarrow> mb_buf \<Rightarrow> bool \<times> mb_buf" where
  "append_u8 am v buf = mb_buf_append_byte am buf v"

text \<open>The first \<open>n\<close> bytes of a word, least significant first.\<close>

definition word_bytes :: "nat \<Rightarrow> 'a::len word \<Rightarrow> bytes" where
  "word_bytes n v = map (\<lambda>i. char_of (unat (drop_bit (i * 8) v AND 0xff))) [0..<n]"

definition append_u32 :: "allocator \<Rightarrow> u32 \<Rightarrow> mb_buf \<Rightarrow> bool \<times> mb_buf" where
  "append_u32 am v buf = mb_buf_append am buf (word_bytes 4 v)"

definition append_u64 :: "allocator \<Rightarrow> u64 \<Rightarrow> mb_buf \<Rightarrow> bool \<times> mb_buf" where
  "append_u64 am v buf = mb_buf_append am buf (word_bytes 8 v)"

definition append_f64 :: "allocator \<Rightarrow> bits64 \<Rightarrow> double \<Rightarrow> mb_buf \<Rightarrow> bool \<times> mb_buf" where
  "append_f64 am nan v buf = append_u64 am (bits_of_double nan v) buf"

definition append_len_prefixed :: "allocator \<Rightarrow> bytes \<Rightarrow> mb_buf \<Rightarrow> bool \<times> mb_buf" where
  "append_len_prefixed am s buf =
     (if SNAP_MAX_FIELD < length s then (False, buf)
      else buf_seq [append_u32 am (word_of_nat (length s)), app am s] buf)"

section \<open>Reading fields\<close>

definition read_u8 :: "bytes \<Rightarrow> (char \<times> bytes) option" where
  "read_u8 bs = (case bs of [] \<Rightarrow> None | b # bs \<Rightarrow> Some (b, bs))"

text \<open>The word made of some bytes, the first of them at byte \<open>i\<close>.\<close>

fun bytes_word :: "nat \<Rightarrow> bytes \<Rightarrow> 'a::len word" where
  "bytes_word i [] = 0"
| "bytes_word i (b # bs) = push_bit (i * 8) (word_of_nat (byte_val b)) OR bytes_word (i + 1) bs"

definition read_u32 :: "bytes \<Rightarrow> (u32 \<times> bytes) option" where
  "read_u32 bs = (if length bs < 4 then None else Some (bytes_word 0 (take 4 bs), drop 4 bs))"

definition read_u64 :: "bytes \<Rightarrow> (u64 \<times> bytes) option" where
  "read_u64 bs = (if length bs < 8 then None else Some (bytes_word 0 (take 8 bs), drop 8 bs))"

definition read_f64 :: "bytes \<Rightarrow> (double \<times> bytes) option" where
  "read_f64 bs = do { (b, bs) \<leftarrow> read_u64 bs; Some (double_of_bits b, bs) }"

definition skip_bytes :: "nat \<Rightarrow> bytes \<Rightarrow> bytes option" where
  "skip_bytes n bs = (if length bs < n then None else Some (drop n bs))"

definition checked_field_bytes :: "u32 \<Rightarrow> nat \<Rightarrow> nat option" where
  "checked_field_bytes cnt elem_size =
     (if elem_size = 0 \<or> SNAP_MAX_FIELD div elem_size < unat cnt then None else Some (unat cnt * elem_size))"

definition read_len_prefixed :: "bytes \<Rightarrow> (bytes \<times> bytes) option" where
  "read_len_prefixed bs =
     do { (n, bs) \<leftarrow> read_u32 bs;
          if SNAP_MAX_FIELD < unat n \<or> length bs < unat n then None else Some (take (unat n) bs, drop (unat n) bs) }"

text \<open>The rule number, the filter, the key and the variant that every state record begins with.\<close>

definition read_state_head :: "bytes \<Rightarrow> (nat \<times> bytes \<times> bytes \<times> char \<times> bytes) option" where
  "read_state_head bs =
     do { (rule_idx, bs) \<leftarrow> read_u32 bs;
          (flt, bs) \<leftarrow> read_len_prefixed bs;
          (key, bs) \<leftarrow> read_len_prefixed bs;
          (variant, bs) \<leftarrow> read_u8 bs;
          Some (unat rule_idx, flt, key, variant, bs) }"

definition skip_state_value :: "nat \<Rightarrow> bytes \<Rightarrow> bytes option" where
  "skip_state_value variant bs =
     (if variant = 0 then Some bs
      else if variant = 1 then map_option snd (read_len_prefixed bs)
      else if variant = 2 then skip_bytes 8 bs
      else if variant = 3 then
        do { (cap, bs) \<leftarrow> read_u32 bs;
             cap_bytes \<leftarrow> checked_field_bytes cap 8;
             bs \<leftarrow> skip_bytes (8 + 8 + cap_bytes) bs;
             (max_len, bs) \<leftarrow> read_u32 bs;
             max_bytes \<leftarrow> checked_field_bytes max_len 8;
             bs \<leftarrow> skip_bytes max_bytes bs;
             (min_len, bs) \<leftarrow> read_u32 bs;
             min_bytes \<leftarrow> checked_field_bytes min_len 8;
             skip_bytes min_bytes bs }
      else if variant = 4 then skip_bytes (8 + 8 + 8 + 4 + 4 + 8 + 8 + 8) bs
      else if variant = 5 then
        do { bs \<leftarrow> skip_bytes 8 bs;
             (n, bs) \<leftarrow> read_u32 bs;
             sample_bytes \<leftarrow> checked_field_bytes n 16;
             skip_bytes sample_bytes bs }
      else None)"

definition skip_rule_state :: "bytes \<Rightarrow> bytes option" where
  "skip_rule_state bs =
     do { (_, _, _, variant, bs) \<leftarrow> read_state_head bs;
          skip_state_value (byte_val variant) bs }"

section \<open>Loading a slot\<close>

definition split_key :: "bytes \<Rightarrow> (bytes \<times> bytes) option" where
  "split_key key =
     (let op = takeWhile (\<lambda>c. c \<noteq> CHR '':'') key
      in if length op < length key then Some (op, drop (length op + 1) key) else None)"

definition upd_rule :: "nat \<Rightarrow> (pb_rule \<Rightarrow> pb_rule) \<Rightarrow> pb_program \<Rightarrow> pb_program" where
  "upd_rule i f p = p\<lparr>pg_rules := (pg_rules p)[i := f (pg_rules p ! i)]\<rparr>"

definition append_state :: "allocator \<Rightarrow> pb_program \<Rightarrow> nat \<Rightarrow> bytes \<Rightarrow> bytes \<Rightarrow> bool \<times> pb_program" where
  "append_state am p rule_idx flt key =
     (if length (pg_rules p) \<le> rule_idx then (False, p)
      else let rule = pg_rules p ! rule_idx; st = rl_state rule
           in if \<not> mb_slice_eq (rl_filter rule) flt then (False, p)
              else case split_key key of
                     None \<Rightarrow> (False, p)
                   | Some (op, subject) \<Rightarrow>
                       (case mb_array_reserve am (st_cap st) (length (st_items st) + 1) STATE_ENTRY_SIZE 8 of
                          None \<Rightarrow> (False, p)
                        | Some cap \<Rightarrow>
                            let st = st\<lparr>st_cap := cap\<rparr>;
                                set_state = (\<lambda>st. upd_rule rule_idx (\<lambda>r. r\<lparr>rl_state := st\<rparr>) p)
                            in case (mb_slice_dup am op, mb_slice_dup am subject) of
                                 (Some op, Some subject) \<Rightarrow>
                                   (True, set_state (st\<lparr>st_items := st_items st @
                                      [state_entry_zero\<lparr>se_rule_id := rule_idx, se_op := op, se_subject := subject\<rparr>]\<rparr>))
                               | _ \<Rightarrow> (False, set_state st)))"

text \<open>
  What a record stores in its slot: whether the memory was there, and the slot. The slot comes
  out changed even when a second allocation fails.
\<close>

type_synonym slot_store = "allocator \<Rightarrow> pb_eval_state_entry \<Rightarrow> bool \<times> pb_eval_state_entry"

definition load_bytes :: "bytes \<Rightarrow> (slot_store \<times> bytes) option" where
  "load_bytes bs =
     do { (data, bs) \<leftarrow> read_len_prefixed bs;
          Some (\<lambda>am e. if \<not> am (if length data = 0 then 1 else length data) then (False, e)
                       else (True, e\<lparr>se_bytes := data, se_bytes_cap := length data, se_kind := PB_EVAL_STATE_BYTES\<rparr>), bs) }"

definition load_number :: "bytes \<Rightarrow> (slot_store \<times> bytes) option" where
  "load_number bs =
     do { (n, bs) \<leftarrow> read_f64 bs;
          Some (\<lambda>am e. (True, e\<lparr>se_kind := PB_EVAL_STATE_NUMBER, se_number := n\<rparr>), bs) }"

text \<open>The loops that read the cells of a ring: how far they came, and whether to the end.\<close>

fun read_values :: "nat \<Rightarrow> bytes \<Rightarrow> bool \<times> double list" where
  "read_values 0 bs = (True, [])"
| "read_values (Suc n) bs =
     (case read_f64 bs of
        None \<Rightarrow> (False, [])
      | Some (v, bs) \<Rightarrow> (case read_values n bs of (ok, vs) \<Rightarrow> (ok, v # vs)))"

fun read_samples :: "nat \<Rightarrow> bytes \<Rightarrow> bool \<times> (double \<times> u64) list" where
  "read_samples 0 bs = (True, [])"
| "read_samples (Suc n) bs =
     (case do { (v, bs) \<leftarrow> read_f64 bs; (ts, bs) \<leftarrow> read_u64 bs; Some (v, ts, bs) } of
        None \<Rightarrow> (False, [])
      | Some (v, ts, bs) \<Rightarrow> (case read_samples n bs of (ok, vs) \<Rightarrow> (ok, (v, ts) # vs)))"

definition fill_cells :: "nat \<Rightarrow> 'a \<Rightarrow> 'a list \<Rightarrow> 'a list" where
  "fill_cells cells z xs = xs @ replicate (cells - length xs) z"

definition load_ring :: "bytes \<Rightarrow> (slot_store \<times> bytes) option" where
  "load_ring bs =
     do { (cap, bs) \<leftarrow> read_u32 bs;
          (saved_len, bs) \<leftarrow> read_u64 bs;
          (tot, bs) \<leftarrow> read_f64 bs;
          cap_bytes \<leftarrow> checked_field_bytes cap 8;
          if unat cap < unat saved_len then None else do {
          let values = bs;
          bs \<leftarrow> skip_bytes cap_bytes bs;
          (max_len, bs) \<leftarrow> read_u32 bs;
          bs \<leftarrow> skip_bytes (unat max_len * 8) bs;
          (min_len, bs) \<leftarrow> read_u32 bs;
          bs \<leftarrow> skip_bytes (unat min_len * 8) bs;
          Some (\<lambda>am e.
            let cells = (if cap = 0 then 1 else unat cap)
            in if \<not> am (cells * 8) then (False, e)
               else case read_values (unat saved_len) values of (ok, vs) \<Rightarrow>
                 let e = e\<lparr>ring_values := fill_cells cells (D_ZERO False) vs\<rparr>
                 in if \<not> ok then (False, e)
                    else (True, e\<lparr>se_kind := PB_EVAL_STATE_RING, ring_cap := unat cap, ring_len := unat saved_len, ring_sum := tot\<rparr>), bs) } }"

definition load_bar :: "bytes \<Rightarrow> (slot_store \<times> bytes) option" where
  "load_bar bs =
     do { (b_open, bs) \<leftarrow> read_f64 bs;
          (high, bs) \<leftarrow> read_f64 bs;
          (low, bs) \<leftarrow> read_f64 bs;
          (cnt, bs) \<leftarrow> read_u32 bs;
          (cap, bs) \<leftarrow> read_u32 bs;
          (window_ms, bs) \<leftarrow> read_u64 bs;
          (window_start_ms, bs) \<leftarrow> read_u64 bs;
          (last_close, bs) \<leftarrow> read_f64 bs;
          Some (\<lambda>am e. (True, e\<lparr>se_kind := PB_EVAL_STATE_BAR, bar_open := b_open, bar_high := high, bar_low := low, bar_count := cnt,
                         bar_cap := cap, bar_window_ms := window_ms, bar_window_start_ms := window_start_ms,
                         bar_last_close := last_close, bar_time_window := (window_ms \<noteq> 0)\<rparr>), bs) }"

definition load_samples :: "bytes \<Rightarrow> (slot_store \<times> bytes) option" where
  "load_samples bs =
     do { (window_ms, bs) \<leftarrow> read_u64 bs;
          (n, bs) \<leftarrow> read_u32 bs;
          let samples = bs;
          bs \<leftarrow> skip_bytes (unat n * 16) bs;
          Some (\<lambda>am e.
            let cells = (if n = 0 then 1 else unat n)
            in if \<not> am (cells * 8) then (False, e)
               else case read_samples (unat n) samples of (ok, vs) \<Rightarrow>
                 let e = e\<lparr>ring_values := fill_cells cells (D_ZERO False) (map fst vs), ring_times_ms := fill_cells cells 0 (map snd vs)\<rparr>
                 in if \<not> ok then (False, e)
                    else (True, e\<lparr>se_kind := PB_EVAL_STATE_RING, ring_cap := unat n, ring_len := unat n,
                           ring_sum := foldl d_add (D_ZERO False) (map fst vs), ring_window_ms := window_ms, ring_time_window := True\<rparr>), bs) }"

definition load_state_value :: "nat \<Rightarrow> bytes \<Rightarrow> (slot_store \<times> bytes) option" where
  "load_state_value variant bs =
     (if variant = 0 then Some (\<lambda>am e. (True, e\<lparr>se_kind := PB_EVAL_STATE_EMPTY\<rparr>), bs)
      else if variant = 1 then load_bytes bs
      else if variant = 2 then load_number bs
      else if variant = 3 then load_ring bs
      else if variant = 4 then load_bar bs
      else if variant = 5 then load_samples bs
      else None)"

definition upd_last_slot :: "nat \<Rightarrow> pb_eval_state_entry \<Rightarrow> pb_program \<Rightarrow> pb_program" where
  "upd_last_slot rule_idx e =
     upd_rule rule_idx (\<lambda>r. r\<lparr>rl_state := (rl_state r)\<lparr>st_items := butlast (st_items (rl_state r)) @ [e]\<rparr>\<rparr>)"

text \<open>The rest of the bytes, \<open>None\<close> when the load fails; the program; and the number of slots loaded.\<close>

definition load_rule_state :: "allocator \<Rightarrow> bytes \<Rightarrow> pb_program \<Rightarrow> nat \<Rightarrow> bytes option \<times> pb_program \<times> nat" where
  "load_rule_state am bs p loaded =
     (case read_state_head bs of
        None \<Rightarrow> (None, p, loaded)
      | Some (rule_idx, flt, key, variant, bs) \<Rightarrow>
          (case append_state am p rule_idx flt key of (present, p) \<Rightarrow>
             case load_state_value (byte_val variant) bs of
               None \<Rightarrow> (None, p, loaded)
             | Some (store, bs) \<Rightarrow>
                 if \<not> present then (Some bs, p, loaded)
                 else case store am (last (st_items (rl_state (pg_rules p ! rule_idx)))) of
                        (False, e) \<Rightarrow> (None, upd_last_slot rule_idx e p, loaded)
                      | (True, e) \<Rightarrow> (Some bs, upd_last_slot rule_idx e p, loaded + 1)))"

section \<open>Loading a snapshot\<close>

text \<open>Every reader leaves a rest that is no longer than what it was given.\<close>

lemma read_lengths:
  "read_u8 bs = Some (c, bs') \<Longrightarrow> length bs' < length bs"
  "read_u32 bs = Some (u, bs') \<Longrightarrow> length bs' \<le> length bs"
  "read_u64 bs = Some (w, bs') \<Longrightarrow> length bs' \<le> length bs"
  "read_f64 bs = Some (d, bs') \<Longrightarrow> length bs' \<le> length bs"
  "skip_bytes n bs = Some bs' \<Longrightarrow> length bs' \<le> length bs"
  "read_len_prefixed bs = Some (s, bs') \<Longrightarrow> length bs' \<le> length bs"
  by (auto simp: read_u8_def read_u32_def read_u64_def read_f64_def skip_bytes_def read_len_prefixed_def
      split: list.splits if_splits prod.splits bind_splits)

lemma skip_rule_state_length:
  assumes "skip_rule_state bs = Some bs'"
  shows "length bs' \<le> length bs"
  using assms
  by (auto simp: skip_rule_state_def skip_state_value_def read_state_head_def split: prod.splits if_splits bind_splits
      dest!: read_lengths)

lemma load_state_value_length:
  assumes "load_state_value variant bs = Some (store, bs')"
  shows "length bs' \<le> length bs"
  using assms
  by (auto simp: load_state_value_def load_bytes_def load_number_def load_ring_def load_bar_def load_samples_def Let_def
      split: prod.splits if_splits bind_splits dest!: read_lengths)

lemma load_rule_state_length:
  assumes "load_rule_state am bs p loaded = (Some bs', p', loaded')"
  shows "length bs' \<le> length bs"
  using assms
  by (auto simp: load_rule_state_def read_state_head_def split: option.splits prod.splits if_splits bind_splits bool.splits
      dest!: read_lengths load_state_value_length)

record mb_snapshot_counts =
  sc_lvc :: nat
  sc_rule_state :: nat

text \<open>The loop over the records. The program may be absent; the outer option is that of \<open>lvc_store\<close>.\<close>

function load_records ::
  "allocator \<Rightarrow> bytes \<Rightarrow> mb_lvc \<Rightarrow> pb_program option \<Rightarrow> mb_snapshot_counts \<Rightarrow>
   (bool \<times> mb_lvc \<times> pb_program option \<times> mb_snapshot_counts) option" where
  "load_records am bs v prog counts =
     (case read_u8 bs of
        None \<Rightarrow> Some (True, v, prog, counts)
      | Some (kind, bs) \<Rightarrow>
          if kind = SNAP_KIND_LVC then
            (case do { (subject, bs) \<leftarrow> read_len_prefixed bs; (payload, bs) \<leftarrow> read_len_prefixed bs; Some (subject, payload, bs) } of
               None \<Rightarrow> Some (False, v, prog, counts)
             | Some (subject, payload, bs) \<Rightarrow>
                 do { (ok, v) \<leftarrow> mb_router_store_lvc am v subject payload;
                      if \<not> ok then Some (False, v, prog, counts)
                      else load_records am bs v prog (counts\<lparr>sc_lvc := sc_lvc counts + 1\<rparr>) })
          else if kind = SNAP_KIND_RULE_STATE then
            (case prog of
               None \<Rightarrow>
                 (case skip_rule_state bs of
                    None \<Rightarrow> Some (False, v, prog, counts)
                  | Some bs \<Rightarrow> load_records am bs v prog counts)
             | Some p \<Rightarrow>
                 (case load_rule_state am bs p (sc_rule_state counts) of
                    (None, p, loaded) \<Rightarrow> Some (False, v, Some p, counts\<lparr>sc_rule_state := loaded\<rparr>)
                  | (Some bs, p, loaded) \<Rightarrow> load_records am bs v (Some p) (counts\<lparr>sc_rule_state := loaded\<rparr>)))
          else Some (False, v, prog, counts))"
  by pat_completeness auto
termination
  by (relation "measure (\<lambda>(am, bs, v, prog, counts). length bs)")
    (auto split: bind_splits dest!: read_lengths skip_rule_state_length load_rule_state_length [OF sym])

declare load_records.simps [simp del]

definition mb_snapshot_load ::
  "allocator \<Rightarrow> read_io \<Rightarrow> mb_lvc \<Rightarrow> pb_program option \<Rightarrow> (bool \<times> mb_lvc \<times> pb_program option \<times> mb_snapshot_counts) option" where
  "mb_snapshot_load am io v prog =
     (let counts = \<lparr>sc_lvc = 0, sc_rule_state = 0\<rparr>
      in case mb_read_file am io mb_buf_zero of
           (False, _) \<Rightarrow> Some (ri_enoent io, v, prog, counts)
         | (True, file) \<Rightarrow>
             let bs = buf_data file
             in if length bs < 8 \<or> take 4 bs \<noteq> ''MBLK'' \<or> byte_val (bs ! 4) < SNAP_MIN_READ_VERSION \<or> SNAP_VERSION < byte_val (bs ! 4)
                then Some (True, v, prog, counts)
                else load_records am (drop 8 bs) v prog counts)"

section \<open>Building a snapshot\<close>

definition append_key :: "allocator \<Rightarrow> pb_eval_state_entry \<Rightarrow> mb_buf \<Rightarrow> bool \<times> mb_buf" where
  "append_key am e out =
     (let tot = length (se_op e) + 1 + length (se_subject e)
      in if SNAP_MAX_FIELD < tot then (False, out)
         else buf_seq [append_u32 am (word_of_nat tot), app am (se_op e), append_u8 am (CHR '':''), app am (se_subject e)] out)"

definition append_pb_slice :: "allocator \<Rightarrow> bytes \<Rightarrow> mb_buf \<Rightarrow> bool \<times> mb_buf" where
  "append_pb_slice am s out = append_len_prefixed am s out"

text \<open>Appends of values read from the cells of a ring, \<open>None\<close> for a cell outside of it.\<close>

fun append_cells :: "(mb_buf \<Rightarrow> bool \<times> mb_buf) option list \<Rightarrow> mb_buf \<Rightarrow> (bool \<times> mb_buf) option" where
  "append_cells [] out = Some (True, out)"
| "append_cells (w # ws) out =
     do { f \<leftarrow> w;
          case f out of (False, out) \<Rightarrow> Some (False, out) | (True, out) \<Rightarrow> append_cells ws out }"

definition append_ring_value :: "allocator \<Rightarrow> bits64 \<Rightarrow> pb_eval_state_entry \<Rightarrow> mb_buf \<Rightarrow> (bool \<times> mb_buf) option" where
  "append_ring_value am nan e out =
     (if ring_time_window e then
        if UINT32_MAX < ring_len e then Some (False, out)
        else append_cells
               ([Some (append_u8 am (CHR 0x05)), Some (append_u64 am (ring_window_ms e)), Some (append_u32 am (word_of_nat (ring_len e)))]
                @ concat (map (\<lambda>i. [map_option (append_f64 am nan) (cell (ring_values e) (ring_idx e i)),
                                    map_option (append_u64 am) (cell (ring_times_ms e) (ring_idx e i))]) [0..<ring_len e])) out
      else if UINT32_MAX < ring_cap e \<or> ring_cap e < ring_len e then Some (False, out)
      else append_cells
             ([Some (append_u8 am (CHR 0x03)), Some (append_u32 am (word_of_nat (ring_cap e))),
               Some (append_u64 am (word_of_nat (ring_len e))), Some (append_f64 am nan (ring_sum e))]
              @ map (\<lambda>i. if i < ring_len e then map_option (append_f64 am nan) (cell (ring_values e) (ring_idx e i))
                          else Some (append_f64 am nan (D_ZERO False))) [0..<ring_cap e]
              @ [Some (append_u32 am 0), Some (append_u32 am 0)]) out)"

definition append_bar_value :: "allocator \<Rightarrow> bits64 \<Rightarrow> pb_eval_state_entry \<Rightarrow> mb_buf \<Rightarrow> bool \<times> mb_buf" where
  "append_bar_value am nan e =
     buf_seq [append_u8 am (CHR 0x04), append_f64 am nan (bar_open e), append_f64 am nan (bar_high e), append_f64 am nan (bar_low e),
              append_u32 am (bar_count e), append_u32 am (bar_cap e),
              append_u64 am (if bar_time_window e then bar_window_ms e else 0), append_u64 am (bar_window_start_ms e),
              append_f64 am nan (bar_last_close e)]"

definition append_state_value :: "allocator \<Rightarrow> bits64 \<Rightarrow> pb_eval_state_entry \<Rightarrow> mb_buf \<Rightarrow> (bool \<times> mb_buf) option" where
  "append_state_value am nan e out =
     (case se_kind e of
        PB_EVAL_STATE_EMPTY \<Rightarrow> Some (append_u8 am (CHR 0x00) out)
      | PB_EVAL_STATE_BYTES \<Rightarrow> Some (buf_seq [append_u8 am (CHR 0x01), append_len_prefixed am (se_bytes e)] out)
      | PB_EVAL_STATE_NUMBER \<Rightarrow> Some (buf_seq [append_u8 am (CHR 0x02), append_f64 am nan (se_number e)] out)
      | PB_EVAL_STATE_RING \<Rightarrow> append_ring_value am nan e out
      | PB_EVAL_STATE_BAR \<Rightarrow> Some (append_bar_value am nan e out)
      | PB_EVAL_STATE_CLOCK \<Rightarrow> Some (True, out))"

definition append_slot :: "allocator \<Rightarrow> bits64 \<Rightarrow> nat \<Rightarrow> bytes \<Rightarrow> pb_eval_state_entry \<Rightarrow> mb_buf \<Rightarrow> (bool \<times> mb_buf) option" where
  "append_slot am nan rule_idx flt e out =
     (if se_kind e = PB_EVAL_STATE_CLOCK then Some (True, out)
      else case buf_seq [append_u8 am SNAP_KIND_RULE_STATE, append_u32 am (word_of_nat rule_idx),
                         append_pb_slice am flt, append_key am e] out of
             (False, out) \<Rightarrow> Some (False, out)
           | (True, out) \<Rightarrow> append_state_value am nan e out)"

fun append_slots :: "allocator \<Rightarrow> bits64 \<Rightarrow> nat \<Rightarrow> bytes \<Rightarrow> pb_eval_state_entry list \<Rightarrow> mb_buf \<Rightarrow> (bool \<times> mb_buf) option" where
  "append_slots am nan rule_idx flt [] out = Some (True, out)"
| "append_slots am nan rule_idx flt (e # es) out =
     do { (ok, out) \<leftarrow> append_slot am nan rule_idx flt e out;
          if \<not> ok then Some (False, out) else append_slots am nan rule_idx flt es out }"

fun append_rules :: "allocator \<Rightarrow> bits64 \<Rightarrow> nat \<Rightarrow> pb_rule list \<Rightarrow> mb_buf \<Rightarrow> (bool \<times> mb_buf) option" where
  "append_rules am nan rule_idx [] out = Some (True, out)"
| "append_rules am nan rule_idx (r # rs) out =
     do { (ok, out) \<leftarrow> append_slots am nan rule_idx (rl_filter r) (st_items (rl_state r)) out;
          if \<not> ok then Some (False, out) else append_rules am nan (rule_idx + 1) rs out }"

definition append_rule_state :: "allocator \<Rightarrow> bits64 \<Rightarrow> pb_program option \<Rightarrow> mb_buf \<Rightarrow> (bool \<times> mb_buf) option" where
  "append_rule_state am nan prog out =
     (case prog of None \<Rightarrow> Some (True, out) | Some p \<Rightarrow> append_rules am nan 0 (pg_rules p) out)"

definition append_lvc_entry :: "allocator \<Rightarrow> mb_lvc \<Rightarrow> nat \<Rightarrow> mb_buf \<Rightarrow> bool \<times> mb_buf" where
  "append_lvc_entry am v i out =
     (case mb_router_lvc_entry v i of
        None \<Rightarrow> (False, out)
      | Some (subject, payload) \<Rightarrow>
          buf_seq [append_u8 am SNAP_KIND_LVC, append_len_prefixed am subject, append_len_prefixed am payload] out)"

definition mb_snapshot_build :: "allocator \<Rightarrow> bits64 \<Rightarrow> mb_buf \<Rightarrow> mb_lvc \<Rightarrow> pb_program option \<Rightarrow> (bool \<times> mb_buf) option" where
  "mb_snapshot_build am nan out v prog =
     (case buf_seq ([app am ''MBLK'', append_u8 am (char_of SNAP_VERSION), app am [CHR 0x00, CHR 0x00, CHR 0x00]]
                    @ map (append_lvc_entry am v) [0..<mb_router_lvc_count v]) out of
        (False, out) \<Rightarrow> Some (False, out)
      | (True, out) \<Rightarrow> append_rule_state am nan prog out)"

definition mb_snapshot_write_bytes :: "allocator \<Rightarrow> write_io \<Rightarrow> bytes \<Rightarrow> mb_buf \<Rightarrow> files \<Rightarrow> bool \<times> files list" where
  "mb_snapshot_write_bytes am io path snapshot fs = mb_write_file_atomic am io path (buf_data snapshot) fs"

definition mb_snapshot_write ::
  "allocator \<Rightarrow> bits64 \<Rightarrow> write_io \<Rightarrow> bytes \<Rightarrow> mb_lvc \<Rightarrow> pb_program option \<Rightarrow> files \<Rightarrow> (bool \<times> files list) option" where
  "mb_snapshot_write am nan io path v prog fs =
     do { (ok, out) \<leftarrow> mb_snapshot_build am nan mb_buf_zero v prog;
          if \<not> ok then Some (False, [fs]) else Some (mb_snapshot_write_bytes am io path out fs) }"

end
