(* ===== verification/Wired.thy ===== *)
theory Wired
  imports Server_Steps Eval_Frame Bridge Snapshot
begin

text \<open>
  The server with its parts connected as \<open>src/src/main.c\<close> connects them: the patchbay program is
  evaluated by \<open>pb_program_eval_publish\<close> and ticked by \<open>pb_program_tick\<close>, the router hands every publish to
  \<open>mb_bridge_publish_with_options\<close>, statistics read the counters of the rules, the bridge and the
  importers, and snapshots are built by \<open>mb_snapshot_build\<close>. The contracts of \<open>guarded_full\<close> are discharged
  for these definitions, with no assumption on the program; only calls of libraries outside the
  repository (libuv, OpenSSL, yyjson, the NATS client, \<open>malloc\<close>) stay parameters, and may return anything.
\<close>

declare split_paired_Ex [simp del] split_paired_All [simp del]

section \<open>The parts of the running server\<close>

text \<open>\<open>wx_sent\<close> are the messages the remote NATS server received from the bridge.\<close>

record 'l wired =
  wx_lib :: 'l
  wx_program :: pb_program
  wx_bridge :: mb_bridge
  wx_sent :: "nats_msg list"
  wx_totals :: import_totals

text \<open>
  The libraries of the evaluator and of the bridge, the bits of a stored NaN, and the bound of the
  evaluator's recursion and of its loops over slots.
\<close>

record wiring =
  wi_lib :: pb_lib
  wi_nats :: nats_client
  wi_nan :: bits64
  wi_fuel :: nat

abbreviation wx :: "'l wired server_world \<Rightarrow> 'l wired" where
  "wx w \<equiv> sv_ext (w_server w)"

text \<open>
  \<open>main\<close> sets \<open>bridge_fn\<close> when the program has a bridge. Without one the bridge here has no connection,
  and a publish to it changes nothing.
\<close>

definition wired_bridge ::
  "allocator \<Rightarrow> wiring \<Rightarrow> bytes \<Rightarrow> bytes \<Rightarrow> mb_router_publish_options \<Rightarrow> 'l wired server_world \<Rightarrow> 'l wired server_world option" where
  "wired_bridge am wi subject payload options w =
     (case mb_bridge_publish_with_options am (wi_nats wi) (wx_bridge (wx w)) subject payload options of
        (b, sent) \<Rightarrow> Some (ext_do (\<lambda>x. x\<lparr>wx_bridge := b, wx_sent := wx_sent x @ sent\<rparr>) w))"

text \<open>A deadline that would be read outside a ring counts as none.\<close>

definition wired_deadline :: "'l wired \<Rightarrow> u64 option" where
  "wired_deadline x = (case pb_program_next_clock_deadline (wx_program x) of None \<Rightarrow> None | Some d \<Rightarrow> d)"

definition wired_base :: "allocator \<Rightarrow> wiring \<Rightarrow> 'l wired env \<Rightarrow> 'l wired env" where
  "wired_base am wi ev = ev\<lparr>bridge_fn := wired_bridge am wi, next_clock_deadline := wired_deadline\<rparr>"

text \<open>The program publishes through the router with the callbacks of the server. The server sets no user hooks.\<close>

definition wired_host :: "allocator \<Rightarrow> wiring \<Rightarrow> 'l wired env \<Rightarrow> 'l wired mb_server pb_host" where
  "wired_host am wi ev =
     \<lparr>ho_lib = wi_lib wi, ho_router = am, ho_cb = server_callbacks am (wired_base am wi ev),
      ho_user_symbol = None, ho_user_call = None, ho_fuel = wi_fuel wi\<rparr>"

text \<open>Running the program of the server: the callbacks do not touch it meanwhile.\<close>

definition on_program ::
  "(pb_program \<Rightarrow> 'l wired server_world \<Rightarrow> (bool \<times> pb_program \<times> 'l wired server_world) option)
   \<Rightarrow> 'l wired server_world \<Rightarrow> (bool \<times> 'l wired server_world) option" where
  "on_program f w = do { (ok, p, w) \<leftarrow> f (wx_program (wx w)) w; Some (ok, ext_do (\<lambda>x. x\<lparr>wx_program := p\<rparr>) w) }"

definition wired_env :: "allocator \<Rightarrow> wiring \<Rightarrow> 'l wired env \<Rightarrow> 'l wired env" where
  "wired_env am wi ev = (wired_base am wi ev)\<lparr>eval_publish := \<lambda>subject payload now wall.
     on_program (\<lambda>p w. pb_program_eval_publish (wired_host am wi ev) p w subject payload now wall)\<rparr>"

text \<open>A snapshot whose rings cannot be read is not taken.\<close>

definition wired_server_ext :: "allocator \<Rightarrow> wiring \<Rightarrow> 'l wired env \<Rightarrow> 'l wired server_ext \<Rightarrow> 'l wired server_ext" where
  "wired_server_ext am wi ev sx = sx\<lparr>
     stats_refresh := map_option (\<lambda>_. ext_do (\<lambda>x. x\<lparr>wx_totals := import_totals_refresh (wx_totals x)\<rparr>)) (stats_refresh sx),
     rule_stats := \<lambda>x. map (\<lambda>r. (rl_emitted r, rl_suppressed r)) (pg_rules (wx_program x)),
     bridge_published := \<lambda>x. bg_published (wx_bridge x), bridge_dropped := \<lambda>x. bg_dropped (wx_bridge x),
     import_received := \<lambda>x. tt_received (wx_totals x), import_processed := \<lambda>x. tt_processed (wx_totals x),
     import_dropped := \<lambda>x. tt_dropped (wx_totals x), import_failed := \<lambda>x. tt_failed (wx_totals x),
     snapshot_build := \<lambda>r x. (case mb_snapshot_build am (wi_nan wi) mb_buf_zero (rt_lvc r) (Some (wx_program x)) of
        Some (True, out) \<Rightarrow> Some (buf_data out) | _ \<Rightarrow> None),
     program_tick := \<lambda>now wall. on_program (\<lambda>p w. pb_program_tick (wired_host am wi ev) p w now wall)\<rparr>"

definition wired_replay :: "allocator \<Rightarrow> wiring \<Rightarrow> 'l wired env \<Rightarrow> 'l wired replay_program" where
  "wired_replay am wi ev =
     \<lparr>program_tick_until = \<lambda>now wall replaying.
        on_program (\<lambda>p w. pb_program_tick_until (wi_fuel wi) (wired_host am wi ev) True p w now wall replaying),
      program_eval_options = \<lambda>subject payload now wall replaying.
        on_program (\<lambda>p w. pb_program_eval_publish_with_options (wired_host am wi ev) p w subject payload now wall replaying)\<rparr>"

section \<open>The contracts hold\<close>

text \<open>The router and its callbacks do not depend on the program: the server with a program that does nothing.\<close>

definition idle_env :: "allocator \<Rightarrow> wiring \<Rightarrow> 'l wired env \<Rightarrow> 'l wired env" where
  "idle_env am wi ev = (wired_base am wi ev)\<lparr>eval_publish := \<lambda>subject payload now wall w. Some (True, w)\<rparr>"

lemma wired_bridge_returns:
  "server_inv am' w \<Longrightarrow> \<exists>w'. wired_bridge am wi subject payload options w = Some w' \<and> server_inv am' w' \<and> keep w w'"
  by (auto simp: wired_bridge_def intro: server_inv_ext_do keep_upd(2) split: prod.split)

interpretation idle: plain_server am "idle_env am wi ev" for am wi ev
  by unfold_locales (auto simp: idle_env_def wired_base_def intro: wired_bridge_returns)

lemma wired_callbacks:
  "server_callbacks am (idle_env am wi ev) = server_callbacks am (wired_base am wi ev)"
  "server_callbacks am (wired_env am wi ev) = server_callbacks am (wired_base am wi ev)"
  by (simp_all add: idle_env_def wired_env_def)

lemma wired_publish_returns:
  assumes "server_inv am w" "tls_off w" "keep w0 w"
  obtains ok w' where
    "mb_router_publish_with_reply_and_options am (server_callbacks am (wired_base am wi ev)) w subject payload reply options = Some (ok, w')"
    "server_inv am w'" "tls_off w'" "keep w0 w'"
    "ok \<Longrightarrow> mb_proto_subject_valid subject False \<and> \<not> mb_router_subject_has_lvc_prefix subject \<and>
      (reply = [] \<or> mb_proto_subject_valid reply False)"
proof -
  have "server_inv am w \<and> tls_off w \<and> keep w0 w" using assms by simp
  from idle.client.publish_returns [OF this, where wi = wi and ev = ev, unfolded wired_callbacks]
  show thesis using that by blast
qed

text \<open>The publishes of the program keep the invariant of the server.\<close>

lemma wired_host_keeps: "host_keeps (\<lambda>w. server_inv am w \<and> tls_off w \<and> keep w0 w) (wired_host am wi ev)"
proof -
  have "server_inv am w' \<and> tls_off w' \<and> keep w0 w'"
    if "server_inv am w \<and> tls_off w \<and> keep w0 w"
      "mb_router_publish_with_options am (server_callbacks am (wired_base am wi ev)) w subject payload options = Some (ok, w')"
    for w subject payload options ok w'
  proof -
    have w: "server_inv am w" "tls_off w" "keep w0 w" using that(1) by blast+
    obtain ok1 w1 where "mb_router_publish_with_reply_and_options am (server_callbacks am (wired_base am wi ev)) w subject payload [] options
        = Some (ok1, w1)" "server_inv am w1" "tls_off w1" "keep w0 w1"
      by (rule wired_publish_returns [OF w])
    then show ?thesis using that(2) by (simp add: mb_router_publish_with_options_def)
  qed
  note publish = this
  show ?thesis
    unfolding host_keeps_def wired_host_def pb_host.simps
    by (rule conjI) (intro allI impI, rule publish, assumption+, simp)
qed

text \<open>Whatever the program is, an evaluation or a tick that returns keeps the invariant.\<close>

lemma on_program_keeps:
  assumes inv: "server_inv am w" "tls_off w" and run: "on_program f w = Some (ok, w')"
    and f: "\<And>p ok p' w'. f p w = Some (ok, p', w') \<Longrightarrow> server_inv am w' \<and> tls_off w' \<and> keep w w'"
  shows "server_inv am w' \<and> keep w w'"
proof -
  obtain p w1 where w1: "f (wx_program (wx w)) w = Some (ok, p, w1)" "w' = ext_do (\<lambda>x. x\<lparr>wx_program := p\<rparr>) w1"
    using run by (auto simp: on_program_def bind_eq_Some_conv)
  have "server_inv am w1 \<and> tls_off w1 \<and> keep w w1" by (rule f [OF w1(1)])
  then show ?thesis unfolding w1(2) using server_inv_ext_do keep_upd(2) keep_trans by blast
qed

lemma wired_program_keeps:
  assumes inv: "server_inv am w" "tls_off w"
  shows "on_program (\<lambda>p w. pb_program_eval_publish_with_options (wired_host am wi ev) p w subject payload now wall replaying) w
      = Some (ok, w') \<Longrightarrow> server_inv am w' \<and> keep w w'"
    "on_program (\<lambda>p w. pb_program_tick_with_options (wired_host am wi ev) p w now wall replaying) w = Some (ok, w') \<Longrightarrow>
      server_inv am w' \<and> keep w w'"
    "on_program (\<lambda>p w. pb_program_tick_until n (wired_host am wi ev) True p w now wall replaying) w = Some (ok, w') \<Longrightarrow>
      server_inv am w' \<and> keep w w'"
proof -
  have I: "server_inv am w \<and> tls_off w \<and> keep w w" using inv by simp
  note host = wired_host_keeps [of am w wi ev]
  show "server_inv am w' \<and> keep w w'"
    if "on_program (\<lambda>p w. pb_program_eval_publish_with_options (wired_host am wi ev) p w subject payload now wall replaying) w = Some (ok, w')"
    by (rule on_program_keeps [OF inv that]) (rule program_keeps(1) [OF host I])
  show "server_inv am w' \<and> keep w w'"
    if "on_program (\<lambda>p w. pb_program_tick_with_options (wired_host am wi ev) p w now wall replaying) w = Some (ok, w')"
    by (rule on_program_keeps [OF inv that]) (rule program_keeps(2) [OF host I])
  show "server_inv am w' \<and> keep w w'"
    if "on_program (\<lambda>p w. pb_program_tick_until n (wired_host am wi ev) True p w now wall replaying) w = Some (ok, w')"
    by (rule on_program_keeps [OF inv that]) (rule tick_until_keeps [OF host I])
qed

interpretation wired: guarded_full am "wired_env am wi ev" "wired_server_ext am wi ev sx" "wired_replay am wi ev" for am wi ev sx
proof
  fix w w' :: "'a wired server_world" and ok f subject payload now wall options replaying
  assume inv: "server_inv am w" "tls_off w"
  show "server_inv am w' \<and> keep w w'" if "eval_publish (wired_env am wi ev) subject payload now wall w = Some (ok, w')"
    using wired_program_keeps(1) [OF inv, of wi ev subject payload now wall False] that
    by (simp add: wired_env_def pb_program_eval_publish_def)
  show "\<exists>w'. bridge_fn (wired_env am wi ev) subject payload options w = Some w' \<and> server_inv am w' \<and> keep w w'"
    using wired_bridge_returns [OF inv(1)] by (simp add: wired_env_def wired_base_def)
  show "server_inv am w' \<and> keep w w'" if "program_tick (wired_server_ext am wi ev sx) now wall w = Some (ok, w')"
    using wired_program_keeps(2) [OF inv, of wi ev now wall False] that by (simp add: wired_server_ext_def pb_program_tick_def)
  show "server_inv am w' \<and> keep w w'" if "program_tick_until (wired_replay am wi ev) now wall replaying w = Some (ok, w')"
    using wired_program_keeps(3) [OF inv] that by (simp add: wired_replay_def)
  show "server_inv am w' \<and> keep w w'"
    if "program_eval_options (wired_replay am wi ev) subject payload now wall replaying w = Some (ok, w')"
    using wired_program_keeps(1) [OF inv] that by (simp add: wired_replay_def)
next
  fix w :: "'a wired server_world" and f
  assume "stats_refresh (wired_server_ext am wi ev sx) = Some f" "server_inv am w" "tls_off w"
  then show "server_inv am (f w) \<and> keep w (f w)"
    by (auto simp: wired_server_ext_def intro: server_inv_ext_do keep_upd(2))
qed

section \<open>A running server\<close>

text \<open>
  The server of the witnesses: its one rule publishes the payload of a message on \<open>a.*\<close> to \<open>b\<close>, a
  bridge that is not connected, and a library state that records what was written to the sockets.
\<close>

definition demo_wiring :: wiring where
  "demo_wiring =
     \<lparr>wi_lib = \<lparr>heap = (\<lambda>_. True), blocks = stack_malloc, cast_oob = (\<lambda>_. 0), qsort_doubles = id,
                yyjson_read = (\<lambda>_ arena. (None, arena))\<rparr>,
      wi_nats = \<lparr>nc_create_options = NATS_OK, nc_set = (\<lambda>_ _. NATS_OK), nc_connect = (\<lambda>_. NATS_OK), nc_header_support = NATS_OK,
                 nc_create_msg = (\<lambda>_. NATS_OK), nc_set_header = (\<lambda>_ _. NATS_OK), nc_publish = (\<lambda>_. NATS_OK)\<rparr>,
      wi_nan = 0x7FF8000000000000, wi_fuel = 10\<rparr>"

definition forwarding_rule :: pb_rule where
  "forwarding_rule =
     \<lparr>rl_filter = ''a.*'', rl_body = PB_LIST [PB_SYMBOL ''publish!'', PB_STRING ''b'', PB_SYMBOL ''payload''], rl_emitted = 0,
      rl_suppressed = 0, rl_reentrant = False, rl_state = eval_state_zero\<rparr>"

definition demo_wired :: "(conn_id \<times> bytes) list wired" where
  "demo_wired =
     \<lparr>wx_lib = [], wx_program = snd (build_rule_index (\<lambda>_. True) (program_zero\<lparr>pg_rules := [forwarding_rule]\<rparr>)),
      wx_bridge = bridge_new None, wx_sent = [],
      wx_totals = \<lparr>tt_core = None, tt_jetstream = None, tt_received = 0, tt_processed = 0, tt_dropped = 0, tt_failed = 0\<rparr>\<rparr>"

definition socket_env :: "(conn_id \<times> bytes) list wired env" where
  "socket_env = demo_env (\<lambda>c data x. x\<lparr>wx_lib := wx_lib x @ [(c, data)]\<rparr>)"

definition demo_ext :: "(conn_id \<times> bytes) list wired server_ext" where
  "demo_ext = \<lparr>stats_refresh = None, rule_stats = \<lambda>x. [], bridge_attached = False, bridge_published = \<lambda>x. 0,
     bridge_dropped = \<lambda>x. 0, import_attached = False, import_received = \<lambda>x. 0, import_processed = \<lambda>x. 0,
     import_dropped = \<lambda>x. 0, import_failed = \<lambda>x. 0, snapshot_build = \<lambda>r x. None, calloc_job = \<lambda>x. (True, x),
     uv_queue_work = \<lambda>b x. (True, x), drop_pending = \<lambda>x. x, uv_signal_stop = \<lambda>x. x, uv_stop = \<lambda>x. x,
     program_tick = \<lambda>now wall w. Some (True, w)\<rparr>"

abbreviation demo_do :: "server_event \<Rightarrow> (conn_id \<times> bytes) list wired server_world \<Rightarrow> (conn_id \<times> bytes) list wired server_world option" where
  "demo_do \<equiv> server_do [] [] (\<lambda>_. True) (wired_env (\<lambda>_. True) demo_wiring socket_env)
     (wired_server_ext (\<lambda>_. True) demo_wiring socket_env demo_ext) (wired_replay (\<lambda>_. True) demo_wiring socket_env)"

declare process_rx_loop.simps [code]

text \<open>
  A client publishes to \<open>a.b\<close>: it gets the message through its own subscription to \<open>a.*\<close>, and the rule
  publishes once.
\<close>

definition demo_publish :: server_event where
  "demo_publish = EV_READ 1 16 (''PUB a.b 2'' @ [CR, LF] @ ''hi'' @ [CR, LF])"

lemma demo_run:
  "map_option (\<lambda>w. (wx_lib (wx w), map rl_emitted (pg_rules (wx_program (wx w))))) (demo_do demo_publish (demo_world demo_wired)) =
   Some ([(1, ''MSG a.b 7 2'' @ [CR, LF] @ ''hi'' @ [CR, LF])], [1])"
  by code_simp

text \<open>
  \<^bold>\<open>C1\<close> No dangling connection. Whatever callbacks ran, in whatever order - clients connect, send
  anything, disconnect, time out, writes fail, timers fire, the importers hand over messages, the
  signal comes - every subscription of the router belongs to a connection that is not being closed,
  the list of connections is a well-linked list of exactly such connections, and so \<open>close_cb\<close> frees
  no connection that the router or the list can still reach. There is at most one snapshot job, and
  a request for another one is only remembered while it runs. The patchbay program, the bridge, the
  statistics and the snapshots are those of the repository; nothing is assumed of the program, of
  what the libraries return or of memory. The server has no TLS, and HTTP clients are not among the
  callbacks.
\<close>

theorem no_dangling_connections:
  assumes "server_ok am w0"
    "server_reach version build am (wired_env am wi ev) (wired_server_ext am wi ev sx) (wired_replay am wi ev) w0 w"
  shows "(\<forall>s. s \<in># all_subs (w_router w) \<longrightarrow> \<not> cn_closing (cn (sub_conn s) w)) \<and>
    (\<exists>xs. linked (sv_conn (w_server w)) (sv_conns (w_server w)) xs \<and> list_all (\<lambda>c. \<not> cn_closing (cn c w)) xs) \<and>
    router_inv (w_router w) (w_conns w) \<and> snapshot_inv w"
  using wired.reach_ok [OF assms(2,1)] by (auto simp: server_ok_def server_inv_def list_all_iff)

theorem no_dangling_connections_witness:
  "\<exists>w. demo_do demo_publish (demo_world demo_wired) = Some w \<and> map rl_emitted (pg_rules (wx_program (wx w))) = [1] \<and>
     router_inv (w_router w) (w_conns w) \<and> snapshot_inv w"
proof -
  obtain w where w: "demo_do demo_publish (demo_world demo_wired) = Some w" "map rl_emitted (pg_rules (wx_program (wx w))) = [1]"
    using demo_run by (auto simp: map_option_case split: option.splits)
  have en: "event_enabled (wired_env (\<lambda>_. True) demo_wiring socket_env) demo_publish (demo_world demo_wired)"
    by (simp add: demo_publish_def demo_world_inv)
  note reach = server_reach.step [OF server_reach.start en w(1)]
  have "router_inv (w_router w) (w_conns w) \<and> snapshot_inv w"
    by (rule no_dangling_connections [OF demo_world_ok reach, THEN conjunct2, THEN conjunct2])
  with w(2) show ?thesis by (intro exI [of _ w] conjI w(1)) simp_all
qed



text \<open>
  \<^bold>\<open>C14\<close> The whole publish operation, with the close and kick callbacks of the client connections and
  the bridge, always returns and keeps the invariants of the router and of the server. Whatever
  subject, reply subject and payload it is given (an invalid subject, an invalid reply subject and a
  \<open>$LVC\<close> subject are refused), whether or not an allocation or a library call fails, from every state
  of a server without TLS that satisfies the invariant it ends, without an access outside its
  scratch arrays, in a state that satisfies it.
\<close>

theorem publish_preserves_inv:
  assumes "server_inv am w" "tls_off w"
  shows "\<exists>ok w'. mb_router_publish_with_reply_and_options am (server_callbacks am (wired_env am wi ev)) w subject payload reply options
      = Some (ok, w') \<and>
    server_inv am w' \<and> router_inv (w_router w') (w_conns w') \<and> conns_ok am (w_conns w') \<and> keep w w' \<and>
    (ok \<longrightarrow> mb_proto_subject_valid subject False \<and> \<not> mb_router_subject_has_lvc_prefix subject \<and>
      (reply = [] \<or> mb_proto_subject_valid reply False))"
proof -
  obtain ok w' where
    p: "mb_router_publish_with_reply_and_options am (server_callbacks am (wired_base am wi ev)) w subject payload reply options = Some (ok, w')"
    "server_inv am w'" "tls_off w'" "keep w w'"
    "ok \<Longrightarrow> mb_proto_subject_valid subject False \<and> \<not> mb_router_subject_has_lvc_prefix subject \<and>
      (reply = [] \<or> mb_proto_subject_valid reply False)"
    using wired_publish_returns [OF assms keep_refl, where wi = wi and ev = ev] by metis
  then show ?thesis by (auto simp: wired_callbacks server_inv_def)
qed

theorem publish_preserves_inv_witness:
  "\<exists>w'. mb_router_publish_with_reply_and_options (\<lambda>_. True) (server_callbacks (\<lambda>_. True) (wired_env (\<lambda>_. True) demo_wiring socket_env))
     (demo_world demo_wired) ''a.b'' ''hi'' [] publish_options_zero = Some (True, w') \<and>
     router_inv (w_router w') (w_conns w') \<and> wx_lib (wx w') = [(1, ''MSG a.b 7 2'' @ [CR, LF] @ ''hi'' @ [CR, LF])]"
proof -
  have "map_option (\<lambda>(ok, w). (ok, wx_lib (wx w))) (mb_router_publish_with_reply_and_options (\<lambda>_. True)
      (server_callbacks (\<lambda>_. True) (wired_env (\<lambda>_. True) demo_wiring socket_env)) (demo_world demo_wired) ''a.b'' ''hi'' [] publish_options_zero)
      = Some (True, [(1, ''MSG a.b 7 2'' @ [CR, LF] @ ''hi'' @ [CR, LF])])" by code_simp
  then show ?thesis
    using publish_preserves_inv [OF demo_world_inv(1) [where x = demo_wired] demo_world_inv(2) [where x = demo_wired],
      where wi = demo_wiring and ev = socket_env and subject = "''a.b''" and payload = "''hi''" and reply = "[]" and
      options = publish_options_zero and am = "\<lambda>_. True"]
    by (auto simp: map_option_case split: option.splits)
qed

text \<open>
  \<^bold>\<open>C7\<close> Processing the receive buffer of a client is running the events of its bytes, one after the
  other until the connection closes, then keeping exactly the bytes of the unfinished frame, or
  closing when they exceed \<open>MB_MAX_RX\<close>. The operations run against the program, the bridge and the router
  of the server, whatever the program is; where an evaluation does not return, neither side does.
\<close>

theorem process_rx_refines_events:
  assumes "server_inv am w" "tls_off w" "\<not> cn_closing (cn c w)" "rx_scan (buf_data (cn_rx (cn c w))) = (es, rest)"
  shows "process_rx am (wired_env am wi ev) c w =
    do { w \<leftarrow> rx_run am (wired_env am wi ev) c es w;
         if cn_closing (cn c w) then Some w
         else let w = upd_cn c (\<lambda>k. k\<lparr>cn_rx := (cn_rx k)\<lparr>buf_data := rest\<rparr>\<rparr>) w
              in if MB_MAX_RX < length rest then mb_conn_begin_close (wired_env am wi ev) c w else Some w }"
  by (rule wired.process_rx_events [OF assms])

definition demo_rx :: "(conn_id \<times> bytes) list wired server_world" where
  "demo_rx = upd_cn 1 (\<lambda>k. k\<lparr>cn_rx := \<lparr>buf_data = ''PING'' @ [LF] @ ''SU'', buf_cap = 1024\<rparr>\<rparr>) (demo_world demo_wired)"

lemma demo_rx_inv: "server_inv am demo_rx" "tls_off demo_rx" "\<not> cn_closing (cn c demo_rx)"
proof -
  have "buf_wf \<lparr>buf_data = ''PING'' @ [LF] @ ''SU'', buf_cap = 1024\<rparr>" by (simp add: buf_wf_def SIZE_MAX_def)
  then show "server_inv am demo_rx" unfolding demo_rx_def by (rule server_inv_flags(6) [OF demo_world_inv(1)])
  show "tls_off demo_rx" "\<not> cn_closing (cn c demo_rx)"
    using demo_world_inv(2) [of demo_wired] demo_world_inv(3) [where x = demo_wired] by (simp_all add: demo_rx_def tls_off_def world_simps)
qed

theorem process_rx_refines_events_witness:
  "\<exists>w. process_rx (\<lambda>_. True) (wired_env (\<lambda>_. True) demo_wiring socket_env) 1 demo_rx = Some w \<and>
     buf_data (cn_rx (cn 1 w)) = ''SU'' \<and> buf_data (conn_out (rc 1 w)) = ''PONG'' @ [CR, LF]"
proof -
  let ?e = "RX_OP (mb_op_zero\<lparr>op_kind := MB_OP_PING\<rparr>)"
  have scan: "rx_scan (buf_data (cn_rx (cn 1 demo_rx))) = ([?e], ''SU'')" by code_simp
  have "map_option (\<lambda>w. (cn_closing (cn 1 w), buf_data (conn_out (rc 1 w))))
      (rx_run (\<lambda>_. True) (wired_env (\<lambda>_. True) demo_wiring socket_env) 1 [?e] demo_rx) = Some (False, ''PONG'' @ [CR, LF])" by code_simp
  then obtain w where w: "rx_run (\<lambda>_. True) (wired_env (\<lambda>_. True) demo_wiring socket_env) 1 [?e] demo_rx = Some w"
      "\<not> cn_closing (cn 1 w)" "buf_data (conn_out (rc 1 w)) = ''PONG'' @ [CR, LF]"
    by (auto simp: map_option_case split: option.splits)
  have "\<not> MB_MAX_RX < length ''SU''" by (simp add: MB_MAX_RX_def)
  then show ?thesis
    unfolding process_rx_refines_events [OF demo_rx_inv scan] w(1) bind.bind_lunit using w(2,3) by (simp add: world_simps Let_def)
qed

end
