(* ===== verification/Yaml.thy ===== *)
theory Yaml
  imports Forms
begin

text \<open>
  The YAML front end (\<open>src/src/patchbay/pb_yaml.c\<close>): a subset of YAML is read into a tree, and the tree is
  lowered to the same top-level forms the s-expressions give. The cursor over the lines is the
  list of the lines left, the cursor over a flow value its offset and the text left. The tree is
  freed at the end, which has no effect here. The code recurses on the C stack for nested blocks
  and brackets with no limit of its own; the size of that stack is not modelled.
\<close>

section \<open>The tree\<close>

datatype y_scalar = Y_TEXT bytes | Y_NUMBER double | Y_BOOL bool | Y_NULL

datatype y_node = Y_SCALAR nat y_scalar | Y_LIST nat "y_node list" | Y_MAP nat "y_pair list"
  and y_pair = Y_PAIR (yp_key: bytes) (yp_value: y_node)

fun y_offset :: "y_node \<Rightarrow> nat" where
  "y_offset (Y_SCALAR off _) = off"
| "y_offset (Y_LIST off _) = off"
| "y_offset (Y_MAP off _) = off"

record y_line =
  yl_indent :: nat
  yl_text :: bytes
  yl_offset :: nat

text \<open>The first error of a parse and its offset; \<open>None\<close> is \<open>PB_PARSE_OK\<close>.\<close>

type_synonym y_err = "(pb_parse_error \<times> nat) option"

text \<open>The sizes of \<open>y_node\<close>, of a pointer, of \<open>y_pair\<close> and of \<open>y_line\<close>.\<close>

definition Y_NODE_SIZE :: nat where "Y_NODE_SIZE = 104"
definition Y_PTR_SIZE :: nat where "Y_PTR_SIZE = 8"
definition Y_PAIR_SIZE :: nat where "Y_PAIR_SIZE = 24"
definition Y_LINE_SIZE :: nat where "Y_LINE_SIZE = 32"

definition blank :: "char \<Rightarrow> bool" where
  "blank c \<longleftrightarrow> c = CHR '' '' \<or> c = TAB"

definition rtrim :: "bytes \<Rightarrow> bytes" where
  "rtrim s = rev (dropWhile blank (rev s))"

definition trim_slice :: "bytes \<Rightarrow> bytes" where
  "trim_slice s = rtrim (dropWhile blank s)"

definition set_err :: "y_err \<Rightarrow> nat \<Rightarrow> y_err" where
  "set_err e off = (case e of None \<Rightarrow> Some (PB_PARSE_INVALID_YAML, off) | Some x \<Rightarrow> Some x)"

definition node_new :: "allocator \<Rightarrow> y_err \<Rightarrow> nat \<Rightarrow> bool \<times> y_err" where
  "node_new am e off =
     (if am Y_NODE_SIZE then (True, e)
      else (False, case e of None \<Rightarrow> Some (PB_PARSE_OOM, off) | Some x \<Rightarrow> Some x))"

text \<open>The items of a list and the pairs of a map grow with their capacity.\<close>

definition node_list_push :: "allocator \<Rightarrow> y_err \<Rightarrow> y_node list \<times> nat \<Rightarrow> y_node \<Rightarrow> (y_node list \<times> nat) option \<times> y_err" where
  "node_list_push am e items item =
     (case mb_array_reserve am (snd items) (length (fst items) + 1) Y_PTR_SIZE 8 of
        None \<Rightarrow> (None, Some (PB_PARSE_OOM, y_offset item))
      | Some cap \<Rightarrow> (Some (fst items @ [item], cap), e))"

definition node_map_put :: "allocator \<Rightarrow> y_err \<Rightarrow> y_pair list \<times> nat \<Rightarrow> bytes \<Rightarrow> y_node \<Rightarrow> (y_pair list \<times> nat) option \<times> y_err" where
  "node_map_put am e ps key v =
     (if key = [] then (None, set_err e (y_offset v))
      else case mb_array_reserve am (snd ps) (length (fst ps) + 1) Y_PAIR_SIZE 8 of
        None \<Rightarrow> (None, Some (PB_PARSE_OOM, y_offset v))
      | Some cap \<Rightarrow> (Some (fst ps @ [Y_PAIR key v], cap), e))"

section \<open>Lines\<close>

definition DQUOTE :: char where "DQUOTE = CHR 0x22"
definition SQUOTE :: char where "SQUOTE = CHR 0x27"
definition BACKSLASH :: char where "BACKSLASH = CHR 0x5C"

text \<open>The length of the text before a comment; the first argument is the open quote, the second the depth of brackets.\<close>

fun strip_comment_len :: "char option \<Rightarrow> nat \<Rightarrow> bytes \<Rightarrow> nat" where
  "strip_comment_len q d [] = 0"
| "strip_comment_len q d (c # s) =
     (case q of
        Some quote \<Rightarrow>
          if c = quote then Suc (strip_comment_len None d s)
          else if c = BACKSLASH \<and> quote = DQUOTE \<and> s \<noteq> [] then Suc (Suc (strip_comment_len q d (tl s)))
          else Suc (strip_comment_len q d s)
      | None \<Rightarrow>
          if c = DQUOTE \<or> c = SQUOTE then Suc (strip_comment_len (Some c) d s)
          else if c = CHR ''['' then Suc (strip_comment_len q (d + 1) s)
          else if c = CHR '']'' \<and> d \<noteq> 0 then Suc (strip_comment_len q (d - 1) s)
          else if c = CHR ''#'' \<and> d = 0 then 0
          else Suc (strip_comment_len q d s))"

definition line_vec_push :: "allocator \<Rightarrow> y_line list \<times> nat \<Rightarrow> y_line \<Rightarrow> (y_line list \<times> nat) option" where
  "line_vec_push am ls l =
     (case mb_array_reserve am (snd ls) (length (fst ls) + 1) Y_LINE_SIZE 16 of
        None \<Rightarrow> None
      | Some cap \<Rightarrow> Some (fst ls @ [l], cap))"

definition strip_line_cr :: "bytes \<Rightarrow> bytes" where
  "strip_line_cr s = (if s \<noteq> [] \<and> last s = CR then butlast s else s)"

text \<open>\<open>src\<close> is the text from \<open>start\<close> on.\<close>

function collect_lines :: "allocator \<Rightarrow> nat \<Rightarrow> bytes \<Rightarrow> y_line list \<times> nat \<Rightarrow> (pb_parse_error \<times> nat) + y_line list \<times> nat" where
  "collect_lines am start src ls =
     (let line = takeWhile (\<lambda>c. c \<noteq> LF) src;
          rest = drop (length line) src;
          raw = strip_line_cr line;
          indent = length (takeWhile (\<lambda>c. c = CHR '' '') raw);
          content = drop indent raw
      in if content \<noteq> [] \<and> hd content = TAB then Inl (PB_PARSE_INVALID_YAML, start + indent)
         else let text = rtrim (take (strip_comment_len None 0 content) content)
              in case (if text = [] then Some ls
                       else line_vec_push am ls \<lparr>yl_indent = indent, yl_text = text, yl_offset = start + indent\<rparr>) of
                   None \<Rightarrow> Inl (PB_PARSE_OOM, start + indent)
                 | Some ls \<Rightarrow> if rest = [] then Inr ls else collect_lines am (start + length line + 1) (tl rest) ls)"
  by pat_completeness auto
termination
  by (relation "measure (\<lambda>(am, start, src, ls). length src)") (auto simp: Let_def)

declare collect_lines.simps [simp del]

definition line_is_seq :: "y_line \<Rightarrow> bool" where
  "line_is_seq l \<longleftrightarrow>
     (case yl_text l of [] \<Rightarrow> False | [c] \<Rightarrow> c = CHR ''-'' | c # d # _ \<Rightarrow> c = CHR ''-'' \<and> d = CHR '' '')"

text \<open>\<open>isalnum\<close> in the C locale.\<close>

definition is_alnum :: "char \<Rightarrow> bool" where
  "is_alnum c \<longleftrightarrow> (let b = byte_val c in 48 \<le> b \<and> b \<le> 57 \<or> 65 \<le> b \<and> b \<le> 90 \<or> 97 \<le> b \<and> b \<le> 122)"

definition simple_key :: "bytes \<Rightarrow> bool" where
  "simple_key key \<longleftrightarrow> key \<noteq> [] \<and> list_all (\<lambda>c. is_alnum c \<or> c = CHR ''_'' \<or> c = CHR ''-'') key"

text \<open>The loop at position \<open>i\<close> of \<open>s\<close>, with the text from there on.\<close>

fun key_colon_loop :: "bytes \<Rightarrow> nat \<Rightarrow> char option \<Rightarrow> nat \<Rightarrow> bytes \<Rightarrow> nat option" where
  "key_colon_loop s i q d [] = None"
| "key_colon_loop s i q d (c # cs) =
     (case q of
        Some quote \<Rightarrow>
          if c = quote then key_colon_loop s (i + 1) None d cs
          else if c = BACKSLASH \<and> quote = DQUOTE \<and> cs \<noteq> [] then key_colon_loop s (i + 2) q d (tl cs)
          else key_colon_loop s (i + 1) q d cs
      | None \<Rightarrow>
          if c = DQUOTE \<or> c = SQUOTE then key_colon_loop s (i + 1) (Some c) d cs
          else if c = CHR ''['' then key_colon_loop s (i + 1) q (d + 1) cs
          else if c = CHR '']'' \<and> d \<noteq> 0 then key_colon_loop s (i + 1) q (d - 1) cs
          else if c = CHR '':'' \<and> d = 0 \<and> (cs = [] \<or> blank (hd cs)) then
            (if simple_key (trim_slice (take i s)) then Some i else None)
          else key_colon_loop s (i + 1) q d cs)"

definition find_key_colon :: "bytes \<Rightarrow> nat option" where
  "find_key_colon s = key_colon_loop s 0 None 0 s"

section \<open>Scalars and flow values\<close>

definition quoted_by :: "char \<Rightarrow> bytes \<Rightarrow> bool" where
  "quoted_by q s \<longleftrightarrow> 2 \<le> length s \<and> hd s = q \<and> last s = q"

definition scalar_of :: "bytes \<Rightarrow> y_scalar" where
  "scalar_of raw =
     (if quoted_by DQUOTE raw \<or> quoted_by SQUOTE raw then Y_TEXT (butlast (tl raw))
      else if pb_slice_eq_lit raw ''null'' \<or> pb_slice_eq_lit raw ''nil'' \<or> pb_slice_eq_lit raw ''~'' then Y_NULL
      else if pb_slice_eq_lit raw ''true'' \<or> pb_slice_eq_lit raw ''false'' then Y_BOOL (pb_slice_eq_lit raw ''true'')
      else case text_number raw of Some d \<Rightarrow> Y_NUMBER d | None \<Rightarrow> Y_TEXT raw)"

definition scalar_from_slice :: "allocator \<Rightarrow> y_err \<Rightarrow> bytes \<Rightarrow> nat \<Rightarrow> y_node option \<times> y_err" where
  "scalar_from_slice am e raw off =
     (case node_new am e off of
        (False, e) \<Rightarrow> (None, e)
      | (True, e) \<Rightarrow> (Some (Y_SCALAR off (scalar_of (trim_slice raw))), e))"

type_synonym y_cursor = "nat \<times> bytes"

definition flow_skip :: "nat \<Rightarrow> y_cursor \<Rightarrow> y_cursor" where
  "flow_skip k cur = (fst cur + min k (length (snd cur)), drop k (snd cur))"

definition flow_skip_ws :: "y_cursor \<Rightarrow> y_cursor" where
  "flow_skip_ws cur = flow_skip (length (takeWhile blank (snd cur))) cur"

text \<open>The number of characters up to and with the closing quote, \<open>None\<close> when there is none.\<close>

fun quoted_len :: "char \<Rightarrow> bytes \<Rightarrow> nat option" where
  "quoted_len q [] = None"
| "quoted_len q (c # s) =
     (if c = q then Some 1
      else if c = BACKSLASH \<and> q = DQUOTE \<and> s \<noteq> [] then map_option (\<lambda>k. k + 2) (quoted_len q (tl s))
      else map_option (\<lambda>k. k + 1) (quoted_len q s))"

definition parse_flow_scalar :: "allocator \<Rightarrow> y_cursor \<Rightarrow> y_err \<Rightarrow> y_node option \<times> y_cursor \<times> y_err" where
  "parse_flow_scalar am cur e =
     (let s = snd cur
      in if s \<noteq> [] \<and> (hd s = DQUOTE \<or> hd s = SQUOTE) then
           (case quoted_len (hd s) (tl s) of
              None \<Rightarrow> (None, flow_skip (length s) cur, set_err e (fst cur))
            | Some k \<Rightarrow>
                (case scalar_from_slice am e (take (k + 1) s) (fst cur) of (n, e) \<Rightarrow> (n, flow_skip (k + 1) cur, e)))
         else let raw0 = takeWhile (\<lambda>c. c \<noteq> CHR '','' \<and> c \<noteq> CHR '']'') s;
                  cur' = flow_skip (length raw0) cur;
                  raw = trim_slice raw0
              in if raw = [] then (None, cur', set_err e (fst cur))
                 else (case scalar_from_slice am e raw (fst cur) of (n, e) \<Rightarrow> (n, cur', e)))"

text \<open>
  The loop of an array, given the parser of one value; and the parser of a value, which takes the
  depth of brackets it may enter. \<open>None\<close> is a loop or a nesting that goes on after that.
\<close>

type_synonym y_flow = "y_cursor \<Rightarrow> y_err \<Rightarrow> (y_node option \<times> y_cursor \<times> y_err) option"

fun flow_items :: "nat \<Rightarrow> y_flow \<Rightarrow> allocator \<Rightarrow> nat \<Rightarrow> y_node list \<times> nat \<Rightarrow> y_flow" where
  "flow_items 0 val am off items cur e = None"
| "flow_items (Suc n) val am off items cur e =
     do { (item, cur, e) \<leftarrow> val cur e;
          case item of
            None \<Rightarrow> Some (None, cur, e)
          | Some item \<Rightarrow>
              (case node_list_push am e items item of
                 (None, e) \<Rightarrow> Some (None, cur, e)
               | (Some items, e) \<Rightarrow>
                   let cur = flow_skip_ws cur
                   in (case snd cur of
                         [] \<Rightarrow> Some (None, cur, set_err e (fst cur))
                       | c # _ \<Rightarrow>
                           if c = CHR '']'' then Some (Some (Y_LIST off (fst items)), flow_skip 1 cur, e)
                           else if c \<noteq> CHR '','' then Some (None, cur, set_err e (fst cur))
                           else flow_items n val am off items (flow_skip_ws (flow_skip 1 cur)) e)) }"

definition parse_flow_array :: "y_flow \<Rightarrow> allocator \<Rightarrow> y_flow" where
  "parse_flow_array val am cur e =
     (case node_new am e (fst cur) of
        (False, e) \<Rightarrow> Some (None, cur, e)
      | (True, e) \<Rightarrow>
          let off = fst cur; cur = flow_skip_ws (flow_skip 1 cur)
          in if snd cur \<noteq> [] \<and> hd (snd cur) = CHR '']'' then Some (Some (Y_LIST off []), flow_skip 1 cur, e)
             else flow_items (length (snd cur) + 1) val am off ([], 0) cur e)"

fun parse_flow_value :: "nat \<Rightarrow> allocator \<Rightarrow> y_flow" where
  "parse_flow_value 0 am cur e = None"
| "parse_flow_value (Suc n) am cur e =
     (let cur = flow_skip_ws cur
      in if snd cur \<noteq> [] \<and> hd (snd cur) = CHR ''['' then parse_flow_array (parse_flow_value n am) am cur e
         else Some (parse_flow_scalar am cur e))"

definition parse_inline_value :: "allocator \<Rightarrow> y_err \<Rightarrow> bytes \<Rightarrow> nat \<Rightarrow> (y_node option \<times> y_err) option" where
  "parse_inline_value am e raw off =
     (let raw = trim_slice raw
      in if raw = [] then Some (None, set_err e off)
         else if hd raw = CHR ''['' then
           do { (n, cur, e) \<leftarrow> parse_flow_array (parse_flow_value (length raw) am) am (off, raw) e;
                let cur = flow_skip_ws cur;
                if n = None \<or> snd cur \<noteq> [] then Some (None, set_err e (fst cur)) else Some (n, e) }
         else Some (scalar_from_slice am e raw off))"

section \<open>Blocks\<close>

text \<open>The lines left and the error; a parser of blocks is given the indent it expects.\<close>

type_synonym y_st = "y_line list \<times> y_err"
type_synonym y_block = "nat \<Rightarrow> y_st \<Rightarrow> (y_node option \<times> y_st) option"

text \<open>The value of a key or item with nothing after it: a block on the next lines, deeper than \<open>indent\<close>.\<close>

definition block_below :: "y_block \<Rightarrow> nat \<Rightarrow> nat \<Rightarrow> y_st \<Rightarrow> (y_node option \<times> y_st) option" where
  "block_below blk indent off st =
     (case fst st of
        [] \<Rightarrow> Some (None, fst st, set_err (snd st) off)
      | l # _ \<Rightarrow> if yl_indent l \<le> indent then Some (None, fst st, set_err (snd st) off) else blk (yl_indent l) st)"

text \<open>Putting a parsed value into a map.\<close>

definition put_value :: "allocator \<Rightarrow> y_pair list \<times> nat \<Rightarrow> bytes \<Rightarrow> y_node option \<Rightarrow> y_st \<Rightarrow> (y_pair list \<times> nat) option \<times> y_st" where
  "put_value am ps key v st =
     (case v of
        None \<Rightarrow> (None, st)
      | Some v \<Rightarrow> (case node_map_put am (snd st) ps key v of (ps, e) \<Rightarrow> (ps, fst st, e)))"

text \<open>
  \<open>st\<close> holds the lines after the line of the pair; \<open>advance_line\<close> is true in every call. A value
  on the line is parsed there, otherwise it is the block below.
\<close>

definition parse_map_pair_from_line ::
  "y_block \<Rightarrow> allocator \<Rightarrow> y_pair list \<times> nat \<Rightarrow> y_line \<Rightarrow> y_st \<Rightarrow> ((y_pair list \<times> nat) option \<times> y_st) option" where
  "parse_map_pair_from_line blk am ps line st =
     (case find_key_colon (yl_text line) of
        None \<Rightarrow> Some (None, fst st, set_err (snd st) (yl_offset line))
      | Some colon \<Rightarrow>
          let key = trim_slice (take colon (yl_text line)); raw_value = trim_slice (drop (colon + 1) (yl_text line))
          in do { (v, st) \<leftarrow> (if raw_value \<noteq> []
                             then do { (v, e) \<leftarrow> parse_inline_value am (snd st) raw_value (yl_offset line + colon + 1); Some (v, fst st, e) }
                             else block_below blk (yl_indent line) (yl_offset line + colon) st);
                  Some (put_value am ps key v st) })"

text \<open>The lines of a map, in a loop that may run \<open>n\<close> times.\<close>

fun map_loop :: "nat \<Rightarrow> y_block \<Rightarrow> allocator \<Rightarrow> nat \<Rightarrow> y_pair list \<times> nat \<Rightarrow> y_st \<Rightarrow> ((y_pair list \<times> nat) option \<times> y_st) option" where
  "map_loop 0 blk am indent ps st = None"
| "map_loop (Suc n) blk am indent ps st =
     (case fst st of
        [] \<Rightarrow> Some (Some ps, st)
      | line # rest \<Rightarrow>
          if yl_indent line \<noteq> indent \<or> line_is_seq line then Some (Some ps, st)
          else do { (ps, st) \<leftarrow> parse_map_pair_from_line blk am ps line (rest, snd st);
                    case ps of None \<Rightarrow> Some (None, st) | Some ps \<Rightarrow> map_loop n blk am indent ps st })"

definition parse_map :: "y_block \<Rightarrow> allocator \<Rightarrow> nat \<Rightarrow> y_line \<Rightarrow> y_st \<Rightarrow> (y_node option \<times> y_st) option" where
  "parse_map blk am indent line st =
     (case node_new am (snd st) (yl_offset line) of
        (False, e) \<Rightarrow> Some (None, fst st, e)
      | (True, e) \<Rightarrow>
          do { (ps, st) \<leftarrow> map_loop (length (fst st) + 1) blk am indent ([], 0) (fst st, e);
               Some (case ps of
                 None \<Rightarrow> (None, st)
               | Some ps \<Rightarrow>
                   if fst ps = [] then (None, fst st, set_err (snd st) (yl_offset line))
                   else (Some (Y_MAP (yl_offset line) (fst ps)), st)) })"

text \<open>The further keys of a map that starts on the line of its dash.\<close>

fun child_loop :: "nat \<Rightarrow> y_block \<Rightarrow> allocator \<Rightarrow> nat \<Rightarrow> y_pair list \<times> nat \<Rightarrow> y_st \<Rightarrow> ((y_pair list \<times> nat) option \<times> y_st) option" where
  "child_loop 0 blk am indent ps st = None"
| "child_loop (Suc n) blk am indent ps st =
     (case fst st of
        [] \<Rightarrow> Some (Some ps, st)
      | child # rest \<Rightarrow>
          if yl_indent child \<le> indent then Some (Some ps, st)
          else if yl_indent child \<noteq> indent + 2 \<or> line_is_seq child
          then Some (None, fst st, set_err (snd st) (yl_offset child))
          else do { (ps, st) \<leftarrow> parse_map_pair_from_line blk am ps child (rest, snd st);
                    case ps of None \<Rightarrow> Some (None, st) | Some ps \<Rightarrow> child_loop n blk am indent ps st })"

text \<open>\<open>rest\<close> is the text after the dash, at \<open>rest_at\<close> in the line; \<open>st\<close> holds the lines after it.\<close>

definition parse_seq_map_item ::
  "y_block \<Rightarrow> allocator \<Rightarrow> y_line \<Rightarrow> bytes \<Rightarrow> nat \<Rightarrow> nat \<Rightarrow> nat \<Rightarrow> y_st \<Rightarrow> (y_node option \<times> y_st) option" where
  "parse_seq_map_item blk am line rest rest_at colon indent st =
     (case node_new am (snd st) (yl_offset line) of
        (False, e) \<Rightarrow> Some (None, fst st, e)
      | (True, e) \<Rightarrow>
          let key = trim_slice (take colon rest); after = drop (colon + 1) rest; raw_value = trim_slice after;
              value_at = rest_at + colon + 1 + length (takeWhile blank after)
          in do { (v, st) \<leftarrow> (if raw_value \<noteq> []
                             then do { (v, e) \<leftarrow> parse_inline_value am e raw_value (yl_offset line + value_at); Some (v, fst st, e) }
                             else block_below blk indent (yl_offset line + rest_at + colon) (fst st, e));
                  case put_value am ([], 0) key v st of
                    (None, st) \<Rightarrow> Some (None, st)
                  | (Some ps, st) \<Rightarrow>
                      do { (ps, st) \<leftarrow> child_loop (length (fst st) + 1) blk am indent ps st;
                           Some (map_option (\<lambda>ps. Y_MAP (yl_offset line) (fst ps)) ps, st) } })"

text \<open>One item of a sequence, with the lines after that of its dash.\<close>

definition parse_seq_item :: "y_block \<Rightarrow> allocator \<Rightarrow> nat \<Rightarrow> y_line \<Rightarrow> y_st \<Rightarrow> (y_node option \<times> y_st) option" where
  "parse_seq_item blk am indent line st =
     (let after = tl (yl_text line); rest = trim_slice after; rest_at = 1 + length (takeWhile blank after)
      in if rest = [] then block_below blk indent (yl_offset line) st
         else case find_key_colon rest of
           Some colon \<Rightarrow> parse_seq_map_item blk am line rest rest_at colon indent st
         | None \<Rightarrow> do { (v, e) \<leftarrow> parse_inline_value am (snd st) rest (yl_offset line + rest_at); Some (v, fst st, e) })"

fun seq_loop :: "nat \<Rightarrow> y_block \<Rightarrow> allocator \<Rightarrow> nat \<Rightarrow> y_node list \<times> nat \<Rightarrow> y_st \<Rightarrow> ((y_node list \<times> nat) option \<times> y_st) option" where
  "seq_loop 0 blk am indent items st = None"
| "seq_loop (Suc n) blk am indent items st =
     (case fst st of
        [] \<Rightarrow> Some (Some items, st)
      | line # rest \<Rightarrow>
          if yl_indent line \<noteq> indent \<or> \<not> line_is_seq line then Some (Some items, st)
          else do { (item, st) \<leftarrow> parse_seq_item blk am indent line (rest, snd st);
                    case item of
                      None \<Rightarrow> Some (None, st)
                    | Some item \<Rightarrow>
                        (case node_list_push am (snd st) items item of
                           (None, e) \<Rightarrow> Some (None, fst st, e)
                         | (Some items, e) \<Rightarrow> seq_loop n blk am indent items (fst st, e)) })"

definition parse_yaml_seq :: "y_block \<Rightarrow> allocator \<Rightarrow> nat \<Rightarrow> y_line \<Rightarrow> y_st \<Rightarrow> (y_node option \<times> y_st) option" where
  "parse_yaml_seq blk am indent line st =
     (case node_new am (snd st) (yl_offset line) of
        (False, e) \<Rightarrow> Some (None, fst st, e)
      | (True, e) \<Rightarrow>
          do { (items, st) \<leftarrow> seq_loop (length (fst st) + 1) blk am indent ([], 0) (fst st, e);
               Some (case items of
                 None \<Rightarrow> (None, st)
               | Some items \<Rightarrow>
                   if fst items = [] then (None, fst st, set_err (snd st) (yl_offset line))
                   else (Some (Y_LIST (yl_offset line) (fst items)), st)) })"

text \<open>\<open>len\<close> is the length of the source. The first argument bounds the nesting of blocks.\<close>

fun parse_block :: "nat \<Rightarrow> allocator \<Rightarrow> nat \<Rightarrow> y_block" where
  "parse_block 0 am len indent st = None"
| "parse_block (Suc n) am len indent st =
     (case fst st of
        [] \<Rightarrow> Some (None, fst st, set_err (snd st) len)
      | line # _ \<Rightarrow>
          if yl_indent line \<noteq> indent then Some (None, fst st, set_err (snd st) (yl_offset line))
          else if line_is_seq line then parse_yaml_seq (parse_block n am len) am indent line st
          else parse_map (parse_block n am len) am indent line st)"

section \<open>Lowering\<close>

text \<open>The first pair with a key.\<close>

fun map_find :: "y_pair list \<Rightarrow> bytes \<Rightarrow> y_node option" where
  "map_find [] key = None"
| "map_find (Y_PAIR k v # ps) key = (if pb_slice_eq_lit k key then Some v else map_find ps key)"

lemma map_find_size: "map_find ps key = Some v \<Longrightarrow> size v < size_list size ps"
  by (induction ps key rule: map_find.induct) (auto split: if_splits)

type_synonym 'a lowered = "'a option \<times> pb_arena"
type_synonym build_vec = "pb_value list \<times> nat"

definition arena_text :: "block_malloc \<Rightarrow> (bytes \<Rightarrow> pb_value) \<Rightarrow> bytes \<Rightarrow> pb_arena \<Rightarrow> pb_value lowered" where
  "arena_text bl kind t arena = (case pb_arena_memdup bl arena t of (r, arena) \<Rightarrow> (map_option kind r, arena))"

text \<open>Pushing what was lowered, and freezing the array into the arena.\<close>

definition push_lowered :: "allocator \<Rightarrow> build_vec \<Rightarrow> pb_value lowered \<Rightarrow> build_vec lowered" where
  "push_lowered am vec r =
     (case r of (None, arena) \<Rightarrow> (None, arena) | (Some v, arena) \<Rightarrow> (vec_push am vec v, arena))"

definition freeze_pb_vec :: "block_malloc \<Rightarrow> (pb_value list \<Rightarrow> pb_value) \<Rightarrow> build_vec lowered \<Rightarrow> pb_value lowered" where
  "freeze_pb_vec bl kind r =
     (case r of
        (None, arena) \<Rightarrow> (None, arena)
      | (Some vec, arena) \<Rightarrow>
          (case freeze bl arena (fst vec) of (ok, arena) \<Rightarrow> (if ok then Some (kind (fst vec)) else None, arena)))"

definition start_form :: "allocator \<Rightarrow> block_malloc \<Rightarrow> bytes \<Rightarrow> pb_arena \<Rightarrow> build_vec lowered" where
  "start_form am bl head arena = push_lowered am ([], 0) (arena_text bl PB_SYMBOL head arena)"

definition scalar_is_bound :: "bytes \<Rightarrow> bool" where
  "scalar_is_bound t \<longleftrightarrow>
     list_ex (pb_slice_eq_lit t) [''subject'', ''payload'', ''payload-float'', ''payload-int'', ''replaying?'']"

definition lower_scalar :: "block_malloc \<Rightarrow> bool \<Rightarrow> y_scalar \<Rightarrow> pb_arena \<Rightarrow> pb_value lowered" where
  "lower_scalar bl expr n arena =
     (case n of
        Y_NULL \<Rightarrow> (Some PB_NIL, arena)
      | Y_BOOL b \<Rightarrow> (Some (PB_BOOL b), arena)
      | Y_NUMBER d \<Rightarrow> (Some (PB_NUMBER d), arena)
      | Y_TEXT t \<Rightarrow>
          if 1 < length t \<and> hd t = CHR '':'' then arena_text bl PB_KEYWORD (tl t) arena
          else arena_text bl (if expr \<and> scalar_is_bound t then PB_SYMBOL else PB_STRING) t arena)"

text \<open>The seed and the steps of a thread, from a list or from a map.\<close>

definition thread_parts :: "y_node \<Rightarrow> (y_node \<times> y_node list) option" where
  "thread_parts n =
     (case n of
        Y_LIST _ (from # steps) \<Rightarrow> Some (from, steps)
      | Y_MAP _ ps \<Rightarrow>
          (case (map_find ps ''from'', map_find ps ''steps'') of
             (Some from, Some (Y_LIST _ steps)) \<Rightarrow> Some (from, steps)
           | _ \<Rightarrow> None)
      | _ \<Rightarrow> None)"

lemma thread_parts_size:
  assumes "thread_parts n = Some (from, steps)"
  shows "size from < size n \<and> size_list size steps < size n"
  using assms map_find_size [of _ "''from''"] map_find_size [of _ "''steps''"]
  by (fastforce simp: thread_parts_def split: y_node.splits list.splits option.splits)+

text \<open>The test and the body of a \<open>when\<close>.\<close>

definition when_parts :: "y_node \<Rightarrow> (y_node \<times> y_node) option" where
  "when_parts n =
     (case n of
        Y_MAP _ ps \<Rightarrow>
          (case (map_find ps ''test'', map_find ps ''then'') of (Some t, Some b) \<Rightarrow> Some (t, b) | _ \<Rightarrow> None)
      | _ \<Rightarrow> None)"

lemma when_parts_size:
  assumes "when_parts n = Some (t, b)"
  shows "size t < size n \<and> size b < size n"
  using assms map_find_size [of _ "''test''"] map_find_size [of _ "''then''"]
  by (fastforce simp: when_parts_def split: y_node.splits option.splits)+

function lower_expr :: "allocator \<Rightarrow> block_malloc \<Rightarrow> y_node \<Rightarrow> pb_arena \<Rightarrow> pb_value lowered"
  and lower_call :: "allocator \<Rightarrow> block_malloc \<Rightarrow> y_node list \<Rightarrow> pb_arena \<Rightarrow> pb_value lowered"
  and lower_exprs :: "allocator \<Rightarrow> block_malloc \<Rightarrow> y_node list \<Rightarrow> build_vec lowered \<Rightarrow> build_vec lowered"
  and lower_thread :: "allocator \<Rightarrow> block_malloc \<Rightarrow> y_node \<Rightarrow> pb_arena \<Rightarrow> pb_value lowered"
  and lower_when :: "allocator \<Rightarrow> block_malloc \<Rightarrow> y_node \<Rightarrow> pb_arena \<Rightarrow> pb_value lowered"
  and lower_do :: "allocator \<Rightarrow> block_malloc \<Rightarrow> y_node \<Rightarrow> pb_arena \<Rightarrow> pb_value lowered"
  and lower_bodies :: "allocator \<Rightarrow> block_malloc \<Rightarrow> y_node list \<Rightarrow> build_vec lowered \<Rightarrow> build_vec lowered"
  and lower_body :: "allocator \<Rightarrow> block_malloc \<Rightarrow> y_node \<Rightarrow> pb_arena \<Rightarrow> pb_value lowered"
where
  "lower_expr am bl n arena =
     (case n of
        Y_SCALAR _ sc \<Rightarrow> lower_scalar bl True sc arena
      | Y_LIST _ ns \<Rightarrow> lower_call am bl ns arena
      | Y_MAP _ _ \<Rightarrow> lower_body am bl n arena)"
| "lower_call am bl ns arena =
     (case ns of
        Y_SCALAR _ (Y_TEXT head) # args \<Rightarrow> freeze_pb_vec bl PB_LIST (lower_exprs am bl args (start_form am bl head arena))
      | _ \<Rightarrow> (None, arena))"
| "lower_exprs am bl ns r =
     (case r of
        (None, arena) \<Rightarrow> (None, arena)
      | (Some vec, arena) \<Rightarrow>
          (case ns of
             [] \<Rightarrow> (Some vec, arena)
           | n # ns \<Rightarrow> lower_exprs am bl ns (push_lowered am vec (lower_expr am bl n arena))))"
| "lower_thread am bl n arena =
     (case thread_parts n of
        None \<Rightarrow> (None, arena)
      | Some (from, steps) \<Rightarrow>
          (case start_form am bl ''->'' arena of
             (None, arena) \<Rightarrow> (None, arena)
           | (Some vec, arena) \<Rightarrow>
               freeze_pb_vec bl PB_LIST (lower_exprs am bl steps (push_lowered am vec (lower_expr am bl from arena)))))"
| "lower_when am bl n arena =
     (case when_parts n of
        None \<Rightarrow> (None, arena)
      | Some (test, body) \<Rightarrow>
          (case start_form am bl ''when'' arena of
             (None, arena) \<Rightarrow> (None, arena)
           | (Some vec, arena) \<Rightarrow>
               (case push_lowered am vec (lower_expr am bl test arena) of
                  (None, arena) \<Rightarrow> (None, arena)
                | (Some vec, arena) \<Rightarrow> freeze_pb_vec bl PB_LIST (push_lowered am vec (lower_body am bl body arena)))))"
| "lower_do am bl n arena =
     (case n of
        Y_LIST _ ns \<Rightarrow> freeze_pb_vec bl PB_LIST (lower_bodies am bl ns (start_form am bl ''do'' arena))
      | _ \<Rightarrow> (None, arena))"
| "lower_bodies am bl ns r =
     (case r of
        (None, arena) \<Rightarrow> (None, arena)
      | (Some vec, arena) \<Rightarrow>
          (case ns of
             [] \<Rightarrow> (Some vec, arena)
           | n # ns \<Rightarrow> lower_bodies am bl ns (push_lowered am vec (lower_body am bl n arena))))"
| "lower_body am bl n arena =
     (case n of
        Y_MAP _ ps \<Rightarrow>
          (case map_find ps ''thread'' of
             Some v \<Rightarrow> lower_thread am bl v arena
           | None \<Rightarrow>
          (case map_find ps ''when'' of
             Some v \<Rightarrow> lower_when am bl v arena
           | None \<Rightarrow>
          (case map_find ps ''do'' of
             Some v \<Rightarrow> lower_do am bl v arena
           | None \<Rightarrow>
          (case map_find ps ''form'' of
             Some v \<Rightarrow> lower_expr am bl v arena
           | None \<Rightarrow>
          (case map_find ps ''body'' of
             Some v \<Rightarrow> lower_expr am bl v arena
           | None \<Rightarrow> (None, arena))))))
      | Y_SCALAR _ _ \<Rightarrow> lower_expr am bl n arena
      | Y_LIST _ _ \<Rightarrow> lower_expr am bl n arena)"
  by pat_completeness auto
termination
  by (relation "measure (case_sum
        (case_sum (case_sum (\<lambda>(am, bl, n, arena). 4 * size n + 1) (\<lambda>(am, bl, ns, arena). 4 * size_list size ns + 3))
          (case_sum (\<lambda>(am, bl, ns, r). 4 * size_list size ns + 3) (\<lambda>(am, bl, n, arena). 4 * size n)))
        (case_sum (case_sum (\<lambda>(am, bl, n, arena). 4 * size n) (\<lambda>(am, bl, n, arena). 4 * size n))
          (case_sum (\<lambda>(am, bl, ns, r). 4 * size_list size ns + 3)
             (\<lambda>(am, bl, n, arena). 4 * size n + (case n of Y_MAP _ _ \<Rightarrow> 0 | _ \<Rightarrow> 2)))))")
     (auto dest!: map_find_size thread_parts_size when_parts_size split: y_node.split)

declare lower_expr.simps [simp del] lower_call.simps [simp del] lower_exprs.simps [simp del] lower_thread.simps [simp del]
  lower_when.simps [simp del] lower_do.simps [simp del] lower_bodies.simps [simp del] lower_body.simps [simp del]

text \<open>The value of an option: \<open>env\<close> with a name, a map of options, a list, or a scalar.\<close>

definition lower_env_config_value :: "allocator \<Rightarrow> block_malloc \<Rightarrow> y_pair list \<Rightarrow> pb_arena \<Rightarrow> pb_value lowered" where
  "lower_env_config_value am bl ps arena =
     (case map_find ps ''env'' of
        Some (Y_SCALAR _ (Y_TEXT t)) \<Rightarrow>
          if t = [] \<or> length ps \<noteq> 1 then (None, arena)
          else (case arena_text bl PB_SYMBOL ''env'' arena of
                  (None, arena) \<Rightarrow> (None, arena)
                | (Some head, arena) \<Rightarrow>
                    (case arena_text bl PB_STRING t arena of
                       (None, arena) \<Rightarrow> (None, arena)
                     | (Some name, arena) \<Rightarrow>
                         freeze_pb_vec bl PB_LIST
                           (case vec_push am ([], 0) head of
                              None \<Rightarrow> (None, arena)
                            | Some vec \<Rightarrow> (vec_push am vec name, arena))))
      | _ \<Rightarrow> (None, arena))"

text \<open>Pushing a keyword and the value after it.\<close>

definition push_option :: "allocator \<Rightarrow> build_vec \<Rightarrow> pb_value \<Rightarrow> pb_value lowered \<Rightarrow> build_vec lowered" where
  "push_option am vec key r =
     (case r of
        (None, arena) \<Rightarrow> (None, arena)
      | (Some v, arena) \<Rightarrow> (case vec_push am vec key of None \<Rightarrow> (None, arena) | Some vec \<Rightarrow> (vec_push am vec v, arena)))"

function lower_config_value :: "allocator \<Rightarrow> block_malloc \<Rightarrow> y_node \<Rightarrow> pb_arena \<Rightarrow> pb_value lowered"
  and lower_config_pairs :: "allocator \<Rightarrow> block_malloc \<Rightarrow> y_pair list \<Rightarrow> build_vec lowered \<Rightarrow> build_vec lowered"
  and lower_config_items :: "allocator \<Rightarrow> block_malloc \<Rightarrow> y_node list \<Rightarrow> build_vec lowered \<Rightarrow> build_vec lowered"
where
  "lower_config_value am bl n arena =
     (case n of
        Y_MAP _ ps \<Rightarrow>
          if length ps = 1 \<and> map_find ps ''env'' \<noteq> None then lower_env_config_value am bl ps arena
          else freeze_pb_vec bl PB_VECTOR (lower_config_pairs am bl ps (Some ([], 0), arena))
      | Y_LIST _ ns \<Rightarrow> freeze_pb_vec bl PB_VECTOR (lower_config_items am bl ns (Some ([], 0), arena))
      | Y_SCALAR _ sc \<Rightarrow> lower_scalar bl False sc arena)"
| "lower_config_pairs am bl ps r =
     (case r of
        (None, arena) \<Rightarrow> (None, arena)
      | (Some vec, arena) \<Rightarrow>
          (case ps of
             [] \<Rightarrow> (Some vec, arena)
           | Y_PAIR key n # ps \<Rightarrow>
               lower_config_pairs am bl ps
                 (case arena_text bl PB_KEYWORD key arena of
                    (None, arena) \<Rightarrow> (None, arena)
                  | (Some k, arena) \<Rightarrow> push_option am vec k (lower_config_value am bl n arena))))"
| "lower_config_items am bl ns r =
     (case r of
        (None, arena) \<Rightarrow> (None, arena)
      | (Some vec, arena) \<Rightarrow>
          (case ns of
             [] \<Rightarrow> (Some vec, arena)
           | n # ns \<Rightarrow> lower_config_items am bl ns (push_lowered am vec (lower_config_value am bl n arena))))"
  by pat_completeness auto
termination
  by (relation "measure (case_sum (\<lambda>(am, bl, n, arena). size n)
        (case_sum (\<lambda>(am, bl, ps, r). size_list size ps) (\<lambda>(am, bl, ns, r). size_list size ns)))") auto

declare lower_config_value.simps [simp del] lower_config_pairs.simps [simp del] lower_config_items.simps [simp del]

definition lower_lvc :: "allocator \<Rightarrow> block_malloc \<Rightarrow> y_node \<Rightarrow> pb_arena \<Rightarrow> pb_value lowered" where
  "lower_lvc am bl n arena =
     freeze_pb_vec bl PB_LIST
       (case start_form am bl ''lvc'' arena of
          (None, arena) \<Rightarrow> (None, arena)
        | (Some vec, arena) \<Rightarrow> push_lowered am vec (lower_config_value am bl n arena))"

definition lower_config_form :: "allocator \<Rightarrow> block_malloc \<Rightarrow> bytes \<Rightarrow> y_node \<Rightarrow> pb_arena \<Rightarrow> pb_value lowered" where
  "lower_config_form am bl name n arena =
     (case n of
        Y_MAP _ ps \<Rightarrow> freeze_pb_vec bl PB_LIST (lower_config_pairs am bl ps (start_form am bl name arena))
      | _ \<Rightarrow> (None, arena))"

text \<open>The option \<open>reentrant\<close> of a rule.\<close>

definition lower_reentrant :: "allocator \<Rightarrow> block_malloc \<Rightarrow> y_pair list \<Rightarrow> build_vec \<Rightarrow> pb_arena \<Rightarrow> build_vec lowered" where
  "lower_reentrant am bl ps vec arena =
     (case map_find ps ''reentrant'' of
        None \<Rightarrow> (Some vec, arena)
      | Some (Y_SCALAR _ (Y_BOOL b)) \<Rightarrow>
          (case push_lowered am vec (arena_text bl PB_KEYWORD ''reentrant'' arena) of
             (None, arena) \<Rightarrow> (None, arena)
           | (Some vec, arena) \<Rightarrow> (vec_push am vec (PB_BOOL b), arena))
      | Some _ \<Rightarrow> (None, arena))"

definition lower_on_rule :: "allocator \<Rightarrow> block_malloc \<Rightarrow> y_node \<Rightarrow> pb_arena \<Rightarrow> pb_value lowered" where
  "lower_on_rule am bl n arena =
     (case n of
        Y_MAP _ ps \<Rightarrow>
          (case map_find ps ''sub'' of
             Some (Y_SCALAR _ (Y_TEXT flt)) \<Rightarrow>
               freeze_pb_vec bl PB_LIST
                 (case start_form am bl ''on'' arena of
                    (None, arena) \<Rightarrow> (None, arena)
                  | (Some vec, arena) \<Rightarrow>
                      (case push_lowered am vec (arena_text bl PB_STRING flt arena) of
                         (None, arena) \<Rightarrow> (None, arena)
                       | (Some vec, arena) \<Rightarrow>
                           (case lower_reentrant am bl ps vec arena of
                              (None, arena) \<Rightarrow> (None, arena)
                            | (Some vec, arena) \<Rightarrow> push_lowered am vec (lower_body am bl n arena))))
           | _ \<Rightarrow> (None, arena))
      | _ \<Rightarrow> (None, arena))"

fun lower_rules :: "allocator \<Rightarrow> block_malloc \<Rightarrow> y_node list \<Rightarrow> build_vec lowered \<Rightarrow> build_vec lowered" where
  "lower_rules am bl ns (None, arena) = (None, arena)"
| "lower_rules am bl [] (Some forms, arena) = (Some forms, arena)"
| "lower_rules am bl (n # ns) (Some forms, arena) =
     lower_rules am bl ns (push_lowered am forms (lower_on_rule am bl n arena))"

definition lower_on :: "allocator \<Rightarrow> block_malloc \<Rightarrow> y_node \<Rightarrow> build_vec \<Rightarrow> pb_arena \<Rightarrow> build_vec lowered" where
  "lower_on am bl n forms arena =
     (case n of Y_LIST _ ns \<Rightarrow> lower_rules am bl ns (Some forms, arena) | _ \<Rightarrow> (None, arena))"

text \<open>The names of the configuration forms are shorter than the buffer they are copied to.\<close>

definition lower_root_pair :: "allocator \<Rightarrow> block_malloc \<Rightarrow> bytes \<Rightarrow> y_node \<Rightarrow> build_vec \<Rightarrow> pb_arena \<Rightarrow> build_vec lowered" where
  "lower_root_pair am bl key n forms arena =
     (if pb_slice_eq_lit key ''on'' then lower_on am bl n forms arena
      else if pb_slice_eq_lit key ''lvc'' then push_lowered am forms (lower_lvc am bl n arena)
      else if pb_slice_eq_lit key ''export'' \<or> pb_slice_eq_lit key ''bridge'' \<or> pb_slice_eq_lit key ''import'' then
        if 16 \<le> length key then (None, arena) else push_lowered am forms (lower_config_form am bl key n arena)
      else (None, arena))"

fun lower_root_pairs :: "allocator \<Rightarrow> block_malloc \<Rightarrow> y_pair list \<Rightarrow> build_vec lowered \<Rightarrow> build_vec lowered" where
  "lower_root_pairs am bl ps (None, arena) = (None, arena)"
| "lower_root_pairs am bl [] (Some forms, arena) = (Some forms, arena)"
| "lower_root_pairs am bl (Y_PAIR key n # ps) (Some forms, arena) =
     lower_root_pairs am bl ps (lower_root_pair am bl key n forms arena)"

definition lower_root :: "allocator \<Rightarrow> block_malloc \<Rightarrow> y_node \<Rightarrow> pb_arena \<Rightarrow> pb_value list lowered" where
  "lower_root am bl tree arena =
     (case tree of
        Y_MAP _ ps \<Rightarrow>
          (case lower_root_pairs am bl ps (Some ([], 0), arena) of
             (None, arena) \<Rightarrow> (None, arena)
           | (Some forms, arena) \<Rightarrow>
               (case freeze bl arena (fst forms) of (ok, arena) \<Rightarrow> (if ok then Some (fst forms) else None, arena)))
      | _ \<Rightarrow> (None, arena))"

section \<open>Documents\<close>

definition pb_parse_yaml_patchbay ::
  "allocator \<Rightarrow> block_malloc \<Rightarrow> pb_arena \<Rightarrow> bytes \<Rightarrow> (((pb_parse_error \<times> nat) + pb_value list) \<times> pb_arena) option" where
  "pb_parse_yaml_patchbay am bl arena src =
     (case collect_lines am 0 src ([], 0) of
        Inl err \<Rightarrow> Some (Inl err, arena)
      | Inr (lines, _) \<Rightarrow>
          (case lines of
             [] \<Rightarrow> Some (Inr [], arena)
           | first # _ \<Rightarrow>
               do { (tree, rest, e) \<leftarrow> parse_block (length lines + 1) am (length src) (yl_indent first) (lines, None);
                    let e = (case rest of l # _ \<Rightarrow> set_err e (yl_offset l) | [] \<Rightarrow> e);
                    Some (case e of
                      Some err \<Rightarrow> (Inl err, arena)
                    | None \<Rightarrow>
                        (case tree of
                           None \<Rightarrow> (Inl (PB_PARSE_INVALID_YAML, 0), arena)
                         | Some tree \<Rightarrow>
                             (case lower_root am bl tree arena of
                                (None, arena) \<Rightarrow> (Inl (PB_PARSE_INVALID_YAML, y_offset tree), arena)
                              | (Some forms, arena) \<Rightarrow> (Inr forms, arena)))) }))"

end
