(* ===== verification/Json_Front.thy ===== *)
theory Json_Front
  imports Program_Load Yaml
begin

text \<open>
  The JSON front end (\<open>src/src/patchbay/pb_json.c\<close>): a JSON document becomes the same top-level forms the
  s-expressions give. Reading the document is the library call \<open>js_read\<close>. The conversion recurses on
  the C stack, whose size is not modelled.
\<close>

record json_env =
  js_heap :: allocator
  js_blocks :: block_malloc
  js_read :: "bytes \<Rightarrow> nat + json"

section \<open>Conversion\<close>

text \<open>The arena and the error so far.\<close>

type_synonym json_conv = "pb_arena \<times> pb_parse_error option"

definition text_value :: "json_env \<Rightarrow> (bytes \<Rightarrow> pb_value) \<Rightarrow> bytes \<Rightarrow> json_conv \<Rightarrow> pb_value \<times> json_conv" where
  "text_value env f t c =
     (case pb_arena_memdup (js_blocks env) (fst c) t of
        (None, arena) \<Rightarrow> (PB_NIL, arena, Some PB_PARSE_OOM)
      | (Some t, arena) \<Rightarrow> (f t, arena, snd c))"

definition string_value :: "json_env \<Rightarrow> bytes \<Rightarrow> json_conv \<Rightarrow> pb_value \<times> json_conv" where
  "string_value env t c =
     (if list_ex (pb_slice_eq_lit t) [''subject'', ''payload'', ''payload-float'', ''payload-int'', ''replaying?'']
      then text_value env PB_SYMBOL t c else text_value env PB_STRING t c)"

text \<open>Pushing on the temporary array, and freezing it into the arena.\<close>

definition conv_push :: "json_env \<Rightarrow> pb_value list \<times> nat \<Rightarrow> pb_value \<Rightarrow> json_conv \<Rightarrow> (pb_value list \<times> nat) \<times> json_conv" where
  "conv_push env vec v c =
     (case vec_push (js_heap env) vec v of
        None \<Rightarrow> (vec, fst c, Some PB_PARSE_OOM)
      | Some vec \<Rightarrow> (vec, c))"

definition freeze_vec :: "json_env \<Rightarrow> (pb_value list \<Rightarrow> pb_value) \<Rightarrow> pb_value list \<times> nat \<Rightarrow> json_conv \<Rightarrow> pb_value option \<times> json_conv" where
  "freeze_vec env f vec c =
     (case freeze (js_blocks env) (fst c) (fst vec) of
        (False, arena) \<Rightarrow> (None, arena, Some PB_PARSE_OOM)
      | (True, arena) \<Rightarrow> (Some (f (fst vec)), arena, snd c))"

definition conv_ok :: "pb_value \<times> json_conv \<Rightarrow> pb_value option \<times> json_conv" where
  "conv_ok r = (if snd (snd r) = None then Some (fst r) else None, snd r)"

text \<open>
  \<open>convert_special\<close> is given the only member of an object. \<open>convert_vec\<close> and \<open>convert_items\<close> are the
  loops over the items of a vector and of a form, \<open>convert_members\<close> that over the members of an
  object of options.
\<close>

function convert_expr :: "json_env \<Rightarrow> json \<Rightarrow> json_conv \<Rightarrow> pb_value \<times> json_conv"
  and convert_special :: "json_env \<Rightarrow> bytes \<Rightarrow> json \<Rightarrow> json_conv \<Rightarrow> pb_value option \<times> json_conv"
  and convert_vec :: "json_env \<Rightarrow> json list \<Rightarrow> pb_value list \<times> nat \<Rightarrow> json_conv \<Rightarrow> pb_value option \<times> json_conv"
  and convert_form :: "json_env \<Rightarrow> json list \<Rightarrow> json_conv \<Rightarrow> pb_value option \<times> json_conv"
  and convert_items :: "json_env \<Rightarrow> json list \<Rightarrow> pb_value list \<times> nat \<Rightarrow> json_conv \<Rightarrow> pb_value option \<times> json_conv"
  and convert_members :: "json_env \<Rightarrow> (bytes \<times> json) list \<Rightarrow> pb_value list \<times> nat \<Rightarrow> json_conv \<Rightarrow> (pb_value list \<times> nat) \<times> json_conv"
where
  "convert_expr env x c =
     (case x of
        J_NULL \<Rightarrow> (PB_NIL, c)
      | J_BOOL b \<Rightarrow> (PB_BOOL b, c)
      | J_NUM d \<Rightarrow> (PB_NUMBER d, c)
      | J_STR t \<Rightarrow> string_value env t c
      | J_ARR xs \<Rightarrow> (case convert_form env xs c of (Some v, c) \<Rightarrow> (v, c) | (None, c) \<Rightarrow> (PB_NIL, c))
      | J_OBJ ms \<Rightarrow>
          (case (case ms of [(name, v)] \<Rightarrow> convert_special env name v c | _ \<Rightarrow> (None, c)) of
             (Some v, c) \<Rightarrow> (v, c)
           | (None, c) \<Rightarrow> (PB_NIL, fst c, Some PB_PARSE_INVALID_JSON)))"
| "convert_special env name v c =
     (case v of
        J_STR t \<Rightarrow>
          if name = ''sym'' then conv_ok (text_value env PB_SYMBOL t c)
          else if name = ''str'' then conv_ok (text_value env PB_STRING t c)
          else if name = ''kw'' then conv_ok (text_value env PB_KEYWORD t c)
          else (None, c)
      | J_ARR xs \<Rightarrow> if name = ''vec'' then convert_vec env xs ([], 0) c else (None, c)
      | _ \<Rightarrow> (None, c))"
| "convert_vec env xs vec c =
     (case xs of
        [] \<Rightarrow> freeze_vec env PB_VECTOR vec c
      | x # xs \<Rightarrow>
          (case convert_expr env x c of
             (v, c) \<Rightarrow>
               (case conv_push env vec v c of
                  (vec, c) \<Rightarrow> if snd c = None then convert_vec env xs vec c else (None, c))))"
| "convert_form env xs c =
     (case xs of
        J_STR t # xs \<Rightarrow>
          (case text_value env PB_SYMBOL t c of
             (v, c) \<Rightarrow>
               (case conv_push env ([], 0) v c of
                  (vec, c) \<Rightarrow> if snd c = None then convert_items env xs vec c else (None, c)))
      | _ \<Rightarrow> (None, fst c, Some PB_PARSE_INVALID_LIST_HEAD))"
| "convert_items env xs vec c =
     (case xs of
        [] \<Rightarrow> freeze_vec env PB_LIST vec c
      | x # xs \<Rightarrow>
          (case (case x of
                   J_OBJ ms \<Rightarrow>
                     (case (case ms of [(name, v)] \<Rightarrow> convert_special env name v c | _ \<Rightarrow> (None, c)) of
                        (Some special, c) \<Rightarrow> conv_push env vec special c
                      | (None, c) \<Rightarrow> convert_members env ms vec c)
                 | _ \<Rightarrow> (case convert_expr env x c of (v, c) \<Rightarrow> conv_push env vec v c)) of
             (vec, c) \<Rightarrow> if snd c = None then convert_items env xs vec c else (None, c)))"
| "convert_members env ms vec c =
     (case ms of
        [] \<Rightarrow> (vec, c)
      | (key, v) # ms \<Rightarrow>
          (case text_value env PB_KEYWORD key c of
             (k, c) \<Rightarrow>
               (case vec_push (js_heap env) vec k of
                  None \<Rightarrow> (vec, fst c, Some PB_PARSE_OOM)
                | Some vec \<Rightarrow>
                    (case (case v of J_ARR xs \<Rightarrow> convert_vec env xs ([], 0) c | _ \<Rightarrow> conv_ok (convert_expr env v c)) of
                       (None, c) \<Rightarrow> (vec, fst c, Some (case snd c of None \<Rightarrow> PB_PARSE_OOM | Some err \<Rightarrow> err))
                     | (Some ast, c) \<Rightarrow>
                         (case vec_push (js_heap env) vec ast of
                            None \<Rightarrow> (vec, fst c, Some (case snd c of None \<Rightarrow> PB_PARSE_OOM | Some err \<Rightarrow> err))
                          | Some vec \<Rightarrow> convert_members env ms vec c)))))"
  by pat_completeness auto
termination
  by (relation "measure (case_sum
        (case_sum (\<lambda>(env, x, c). 2 * size x) (case_sum (\<lambda>(env, name, v, c). 2 * size v) (\<lambda>(env, xs, vec, c). 2 * size_list size xs + 1)))
        (case_sum (\<lambda>(env, xs, c). 2 * size_list size xs + 1) (case_sum (\<lambda>(env, xs, vec, c). 2 * size_list size xs) (\<lambda>(env, ms, vec, c). 2 * size_list (size_prod (\<lambda>_. 0) size) ms))))")
     auto

declare convert_expr.simps [simp del] convert_special.simps [simp del] convert_vec.simps [simp del] convert_form.simps [simp del]
  convert_items.simps [simp del] convert_members.simps [simp del]

section \<open>Documents\<close>

definition ends_with :: "bytes \<Rightarrow> bytes \<Rightarrow> bool" where
  "ends_with path ext = (length ext \<le> length path \<and> drop (length path - length ext) path = ext)"

definition looks_json :: "bytes \<Rightarrow> bytes \<Rightarrow> bool" where
  "looks_json path src \<longleftrightarrow>
     ends_with path ''.json'' \<or>
     (case dropWhile ws_char src of [] \<Rightarrow> False | c # _ \<Rightarrow> c = CHR ''['' \<or> c = CHR ''{'')"

definition looks_yaml :: "bytes \<Rightarrow> bool" where
  "looks_yaml path \<longleftrightarrow> ends_with path ''.yml'' \<or> ends_with path ''.yaml''"

text \<open>The items of a document of several forms.\<close>

fun convert_forms :: "json_env \<Rightarrow> json list \<Rightarrow> pb_value list \<times> nat \<Rightarrow> json_conv \<Rightarrow> (pb_value list \<times> nat) \<times> json_conv" where
  "convert_forms env [] forms c = (forms, c)"
| "convert_forms env (x # xs) forms c =
     (case (case x of J_ARR items \<Rightarrow> convert_form env items c | _ \<Rightarrow> (None, fst c, Some PB_PARSE_INVALID_LIST_HEAD)) of
        (None, c) \<Rightarrow> (forms, fst c, Some (case snd c of None \<Rightarrow> PB_PARSE_OOM | Some err \<Rightarrow> err))
      | (Some form, c) \<Rightarrow>
          (case vec_push (js_heap env) forms form of
             None \<Rightarrow> (forms, fst c, Some (case snd c of None \<Rightarrow> PB_PARSE_OOM | Some err \<Rightarrow> err))
           | Some forms \<Rightarrow> convert_forms env xs forms c))"

definition convert_document :: "json_env \<Rightarrow> json list \<Rightarrow> json_conv \<Rightarrow> (pb_value list \<times> nat) \<times> json_conv" where
  "convert_document env items c =
     (case items of
        J_STR _ # _ \<Rightarrow>
          (case convert_form env items c of
             (None, c) \<Rightarrow> (([], 0), c)
           | (Some form, c) \<Rightarrow> conv_push env ([], 0) form c)
      | _ \<Rightarrow> convert_forms env items ([], 0) c)"

definition parse_json_patchbay :: "json_env \<Rightarrow> pb_arena \<Rightarrow> bytes \<Rightarrow> ((pb_parse_error \<times> nat) + pb_value list) \<times> pb_arena" where
  "parse_json_patchbay env arena src =
     (if \<not> js_heap env (if length src = 0 then 1 else length src) then (Inl (PB_PARSE_OOM, 0), arena)
      else case js_read env src of
        Inl pos \<Rightarrow> (Inl (PB_PARSE_INVALID_JSON, pos), arena)
      | Inr (J_ARR items) \<Rightarrow>
          (case convert_document env items (arena, None) of
             (forms, arena, Some err) \<Rightarrow> (Inl (err, 0), arena)
           | (forms, arena, None) \<Rightarrow>
               (case freeze (js_blocks env) arena (fst forms) of
                  (False, arena) \<Rightarrow> (Inl (PB_PARSE_OOM, 0), arena)
                | (True, arena) \<Rightarrow> (Inr (fst forms), arena)))
      | Inr _ \<Rightarrow> (Inl (PB_PARSE_INVALID_JSON, 0), arena))"

definition pb_parse_patchbay_source ::
  "json_env \<Rightarrow> pb_arena \<Rightarrow> bytes \<Rightarrow> bytes \<Rightarrow> (((pb_parse_error \<times> nat) + pb_value list) \<times> pb_arena) option" where
  "pb_parse_patchbay_source env arena path src =
     (if looks_yaml path then pb_parse_yaml_patchbay (js_heap env) (js_blocks env) arena src
      else if looks_json path src then Some (parse_json_patchbay env arena src)
      else pb_parse_all (js_heap env) (js_blocks env) arena src)"

definition pb_program_load_source :: "load_env \<Rightarrow> json_env \<Rightarrow> bytes \<Rightarrow> bytes \<Rightarrow> (bool \<times> pb_program) option" where
  "pb_program_load_source env jenv label src = map_option (load_source env) (pb_parse_patchbay_source jenv [] label src)"

end
