(* ===== verification/Sexpr_Correct.thy ===== *)
theory Sexpr_Correct
  imports Sexpr
begin

text \<open>The parser of the patchbay syntax ends on every input, and it reads back what is written in its notation.\<close>

section \<open>Totality\<close>

lemma skip_ws_length: "length (skip_ws s) \<le> length s"
  by (induction s rule: skip_ws.induct) (auto intro: le_trans [OF _ length_dropWhile_le] le_SucI)

lemma string_loop_length:
  "string_loop am opn tmp cap s = (Inr t, rest) \<Longrightarrow> length rest < length s"
proof (induction am opn tmp cap s rule: string_loop.induct)
  case (2 am opn tmp cap c s)
  show ?case
  proof (cases s)
    case Nil
    then show ?thesis using 2(3) by (auto split: if_splits option.splits)
  next
    case (Cons e t)
    then show ?thesis using 2 by (fastforce split: if_splits option.splits)
  qed
qed simp

lemma owned_text_rest: "owned_text malloc arena f s rest = (r, arena', rest') \<Longrightarrow> rest' = rest"
  by (auto simp: owned_text_def split: prod.splits option.splits)

lemma parse_atom_length:
  assumes "parse_atom am malloc arena input = (Inr v, arena', rest)"
  shows "length rest < length input"
proof -
  have "takeWhile (\<lambda>c. \<not> atom_end c) input \<noteq> []" "rest = dropWhile (\<lambda>c. \<not> atom_end c) input"
    using assms by (auto simp: parse_atom_def Let_def dest: owned_text_rest split: if_splits option.splits)
  then show ?thesis
    by (metis append_is_Nil_conv leD length_append less_add_same_cancel2 length_greater_0_conv takeWhile_dropWhile_id)
qed

lemma parse_string_length:
  assumes "parse_string am malloc arena input = (Inr v, arena', rest)" "input \<noteq> []"
  shows "length rest < length input"
proof -
  obtain s r where "string_loop am input [] 0 (tl input) = (Inr s, r)" "rest = r"
    using assms(1) by (auto simp: parse_string_def dest: owned_text_rest split: prod.splits sum.splits)
  then show ?thesis using string_loop_length [of am input "[]" 0 "tl input" s r] assms(2) by (cases input) auto
qed

lemma parse_total:
  "2 * length input + 1 \<le> fuel \<Longrightarrow>
     \<exists>r arena' rest. parse_one fuel am malloc arena input = Some (r, arena', rest) \<and>
       ((\<exists>v. r = Inr v) \<longrightarrow> length rest < length input)"
  "2 * length input + 2 \<le> fuel \<Longrightarrow>
     \<exists>r arena' rest. parse_seq fuel am malloc is_list opn items arena input = Some (r, arena', rest) \<and>
       ((\<exists>v. r = Inr v) \<longrightarrow> length rest < length input)"
proof (induction fuel arbitrary: input arena is_list opn items)
  case (Suc fuel)
  {
    case 1
    have l: "length (skip_ws input) \<le> length input" by (rule skip_ws_length)
    show ?case
    proof (cases "skip_ws input")
      case (Cons c rest)
      have "2 * length rest + 2 \<le> fuel" using 1 l Cons by simp
      note ih = Suc.IH(2) [OF this, of _ _ "([], 0)" arena]
      have brackets: "\<exists>r arena' rest'. parse_seq fuel am malloc b (c # rest) ([], 0) arena rest = Some (r, arena', rest') \<and>
          ((\<exists>v. r = Inr v) \<longrightarrow> length rest' < length input)" for b
        using ih [of b "c # rest"] l Cons by fastforce
      obtain r1 a1 s1 where p1: "parse_string am malloc arena (c # rest) = (r1, a1, s1)" by (metis prod_cases3)
      obtain r2 a2 s2 where p2: "parse_atom am malloc arena (c # rest) = (r2, a2, s2)" by (metis prod_cases3)
      have "\<exists>v. r1 = Inr v \<Longrightarrow> length s1 < length input" using parse_string_length [of am malloc arena "c # rest"] p1 l Cons by fastforce
      moreover have "\<exists>v. r2 = Inr v \<Longrightarrow> length s2 < length input" using parse_atom_length [of am malloc arena "c # rest"] p2 l Cons by fastforce
      ultimately show ?thesis using Cons brackets [of True] brackets [of False] p1 p2 by (auto simp: Let_def)
    qed (simp add: Let_def)
  next
    case 2
    have l: "length (skip_ws input) \<le> length input" by (rule skip_ws_length)
    show ?case
    proof (cases "skip_ws input")
      case (Cons c rest)
      obtain r1 a1 s1 where p: "parse_one fuel am malloc arena (c # rest) = Some (r1, a1, s1)"
          "(\<exists>v. r1 = Inr v) \<longrightarrow> length s1 < length (c # rest)"
        using Suc.IH(1) [of "c # rest" arena] 2 l Cons by auto
      have seq: "\<exists>r arena' rest'. parse_seq fuel am malloc is_list opn items' a1 s1 = Some (r, arena', rest') \<and>
          ((\<exists>v. r = Inr v) \<longrightarrow> length rest' < length input)" if "r1 = Inr v" for v items'
      proof -
        have s1: "length s1 < length input" using p(2) that l Cons by auto
        then have "2 * length s1 + 2 \<le> fuel" using 2 by linarith
        then show ?thesis using Suc.IH(2) [of s1 is_list opn items' a1] s1 by fastforce
      qed
      show ?thesis
        using Cons p seq l by (auto simp: Let_def split: sum.split option.split prod.split bool.split)
    qed (simp add: Let_def)
  }
qed simp_all

lemma parse_forms_total:
  "2 * length input + 2 \<le> fuel \<Longrightarrow> \<exists>r. parse_forms fuel am malloc forms arena input = Some r"
proof (induction fuel arbitrary: input arena forms)
  case (Suc fuel)
  have l: "length (skip_ws input) \<le> length input" by (rule skip_ws_length)
  show ?case
  proof (cases "skip_ws input = []")
    case False
    obtain r1 a1 s1 where p: "parse_one fuel am malloc arena (skip_ws input) = Some (r1, a1, s1)"
        "(\<exists>v. r1 = Inr v) \<longrightarrow> length s1 < length (skip_ws input)"
      using parse_total(1) [of "skip_ws input" fuel am malloc arena] Suc.prems l by auto
    have "\<exists>r. parse_forms fuel am malloc forms' a1 s1 = Some r" if "r1 = Inr v" for v forms'
      using Suc.IH [of s1 forms' a1] p(2) that l Suc.prems by fastforce
    then show ?thesis using False p by (auto simp: Let_def split: sum.split option.split)
  qed (auto simp: Let_def split: prod.split bool.split)
qed simp

text \<open>The parser is total: on every input, whatever memory it gets, it returns.\<close>

lemma pb_parse_all_total: "\<exists>result arena'. pb_parse_all am malloc arena src = Some (result, arena')"
  using parse_forms_total [of src "2 * length src + 2" am malloc "([], 0)" arena] by (auto simp: pb_parse_all_def)

section \<open>Reading back\<close>

text \<open>The notation of a value: strings with their escapes, whole numbers in decimal, sequences in brackets.\<close>

definition show_char :: "char \<Rightarrow> bytes" where
  "show_char c =
     (if c = LF then [CHR 0x5C, CHR ''n''] else if c = CR then [CHR 0x5C, CHR ''r''] else if c = TAB then [CHR 0x5C, CHR ''t'']
      else if c = CHR 0x5C \<or> c = CHR 0x22 then [CHR 0x5C, c] else [c])"

fun show_value :: "pb_value \<Rightarrow> bytes" where
  "show_value PB_NIL = ''nil''"
| "show_value (PB_BOOL b) = (if b then ''true'' else ''false'')"
| "show_value (PB_NUMBER d) = format_f 0 d"
| "show_value (PB_SYMBOL s) = s"
| "show_value (PB_KEYWORD s) = CHR '':'' # s"
| "show_value (PB_STRING s) = CHR 0x22 # concat (map show_char s) @ [CHR 0x22]"
| "show_value (PB_LIST vs) = CHR ''('' # concat (map (\<lambda>v. show_value v @ '' '') vs) @ '')''"
| "show_value (PB_VECTOR vs) = CHR ''['' # concat (map (\<lambda>v. show_value v @ '' '') vs) @ '']''"

definition atom_text :: "bytes \<Rightarrow> bool" where
  "atom_text s \<longleftrightarrow> s \<noteq> [] \<and> (\<forall>c \<in> set s. \<not> atom_end c)"

definition number_start :: "bytes \<Rightarrow> bool" where
  "number_start s \<longleftrightarrow>
     is_digit (hd s) \<or> (hd s = CHR ''-'' \<or> hd s = CHR ''+'') \<and> 1 < length s \<and> is_digit (s ! 1) \<or> hd s = CHR ''.''"

text \<open>The values that have a notation.\<close>

fun notable :: "pb_value \<Rightarrow> bool" where
  "notable PB_NIL \<longleftrightarrow> True"
| "notable (PB_BOOL b) \<longleftrightarrow> True"
| "notable (PB_NUMBER d) \<longleftrightarrow> (\<exists>n. 0 \<le> n \<and> n < 2 ^ 53 \<and> d = d_of_int n)"
| "notable (PB_SYMBOL s) \<longleftrightarrow>
     atom_text s \<and> \<not> number_start s \<and> hd s \<noteq> CHR 0x22 \<and> hd s \<noteq> CHR '':'' \<and> s \<noteq> ''nil'' \<and> s \<noteq> ''true'' \<and> s \<noteq> ''false''"
| "notable (PB_KEYWORD s) \<longleftrightarrow> atom_text s"
| "notable (PB_STRING s) \<longleftrightarrow> True"
| "notable (PB_LIST vs) \<longleftrightarrow> vs \<noteq> [] \<and> is_symbol (hd vs) \<and> (\<forall>v \<in> set vs. notable v)"
| "notable (PB_VECTOR vs) \<longleftrightarrow> (\<forall>v \<in> set vs. notable v)"

lemma atom_end_space [simp]: "atom_end (CHR '' '')"
  by (simp add: atom_end_def ws_char_def)

text \<open>What parsing the notation of \<open>v\<close> gives: \<open>v\<close>, unless memory runs out.\<close>

definition reads :: "pb_value parsed \<Rightarrow> pb_value \<Rightarrow> bytes \<Rightarrow> bool" where
  "reads r v rest \<longleftrightarrow> (case r of (Inl err, _, _) \<Rightarrow> err = PB_PARSE_OOM | (Inr u, _, rest') \<Rightarrow> u = v \<and> rest' = rest)"

lemma reads_owned: "reads (owned_text malloc arena f s rest) (f s) rest"
  by (auto simp: owned_text_def reads_def pb_arena_memdup_def split: prod.split option.split)

lemma string_loop_reads:
  assumes "string_loop am opn tmp cap (concat (map show_char s) @ CHR 0x22 # rest) = (r, rest')"
  shows "r = Inl PB_PARSE_OOM \<or> r = Inr (tmp @ s) \<and> rest' = rest"
  using assms
proof (induction s arbitrary: tmp cap)
  case (Cons c s)
  let ?tail = "concat (map show_char s) @ CHR 0x22 # rest"
  have step: "string_loop am opn tmp cap (show_char c @ ?tail) =
      (case mb_array_reserve am cap (length tmp + 1) 1 16 of
         None \<Rightarrow> (Inl PB_PARSE_OOM, (if length (show_char c) = 2 then tl (show_char c @ ?tail) else show_char c @ ?tail))
       | Some cap \<Rightarrow> string_loop am opn (tmp @ [c]) cap ?tail)"
    by (auto simp: show_char_def escape_char_def LF_def CR_def TAB_def split: option.split)
  then show ?case
    using Cons.prems Cons.IH [of "tmp @ [c]"] by (auto split: option.splits)
qed simp

lemma atom_split:
  assumes "atom_text s"
  shows "takeWhile (\<lambda>c. \<not> atom_end c) (s @ CHR '' '' # rest) = s" "dropWhile (\<lambda>c. \<not> atom_end c) (s @ CHR '' '' # rest) = CHR '' '' # rest"
  using assms by (auto simp: atom_text_def takeWhile_append dropWhile_append)

lemma digit_not_atom_end: "is_digit c \<Longrightarrow> \<not> atom_end c"
  by (auto simp: is_digit_def atom_end_def ws_char_def byte_val_def TAB_def CR_def LF_def)

lemma parse_atom_reads:
  assumes am: "\<And>n. am n" and v: "notable v" and atom: "\<And>s. v \<noteq> PB_STRING s" "\<And>vs. v \<noteq> PB_LIST vs" "\<And>vs. v \<noteq> PB_VECTOR vs"
  shows "atom_text (show_value v)" "reads (parse_atom am malloc arena (show_value v @ CHR '' '' # rest)) v (CHR '' '' # rest)"
    "hd (show_value v) \<noteq> CHR 0x22"
proof -
  have num: "atom_text (int_digits n)" "parse_number am (int_digits n) = Some (d_of_int n)" "is_digit (hd (int_digits n))"
    "int_digits n \<noteq> ''nil''" "int_digits n \<noteq> ''true''" "int_digits n \<noteq> ''false''"
    if n: "0 \<le> n" "n < 2 ^ 53" for n
  proof -
    note ds = int_digits_props [OF n(1)]
    show h: "is_digit (hd (int_digits n))" using ds by simp
    show "atom_text (int_digits n)" using ds digit_not_atom_end by (auto simp: atom_text_def)
    show "parse_number am (int_digits n) = Some (d_of_int n)"
      using h ds(1) am strtod_int [OF n] by (simp add: parse_number_def Let_def)
    show "int_digits n \<noteq> ''nil''" "int_digits n \<noteq> ''true''" "int_digits n \<noteq> ''false''"
      using h by (auto simp: is_digit_def byte_val_def)
  qed
  show t: "atom_text (show_value v)"
  proof (cases v)
    case (PB_NUMBER d)
    then show ?thesis using v num(1) by (auto simp: format_f_int)
  next
    case (PB_KEYWORD s)
    then show ?thesis using v by (simp add: atom_text_def atom_end_def ws_char_def TAB_def CR_def LF_def)
  qed (use v atom in \<open>simp_all add: atom_text_def atom_end_def ws_char_def TAB_def CR_def LF_def\<close>)
  show "hd (show_value v) \<noteq> CHR 0x22"
  proof (cases v)
    case (PB_NUMBER d)
    then show ?thesis using v num(3) by (fastforce simp: format_f_int is_digit_def byte_val_def)
  qed (use v atom in simp_all)
  note sp = atom_split [OF t, of rest]
  have none: "parse_number am s = None" if "s \<noteq> []" "\<not> number_start s" for s
    using that by (simp add: parse_number_def number_start_def Let_def)
  have t0: "show_value v \<noteq> []" using t by (simp add: atom_text_def)
  show "reads (parse_atom am malloc arena (show_value v @ CHR '' '' # rest)) v (CHR '' '' # rest)"
  proof (cases v)
    case (PB_NUMBER d)
    then obtain n where n: "0 \<le> n" "n < 2 ^ 53" "d = d_of_int n" using v by auto
    show ?thesis
      unfolding parse_atom_def Let_def sp using num(2,4-6) [OF n(1,2)] t0 n PB_NUMBER by (simp add: format_f_int reads_def)
  next
    case (PB_SYMBOL s)
    then show ?thesis
      unfolding parse_atom_def Let_def sp using v none [of s] t0 reads_owned [of malloc arena PB_SYMBOL s] by simp
  next
    case (PB_KEYWORD s)
    have "parse_number am (CHR '':'' # s) = None" by (rule none) (simp_all add: number_start_def is_digit_def byte_val_def)
    then show ?thesis
      unfolding parse_atom_def Let_def sp
      using v PB_KEYWORD reads_owned [of malloc arena PB_KEYWORD s] by (cases s) (simp_all add: atom_text_def)
  qed (use v atom sp in \<open>auto simp: parse_atom_def Let_def reads_def\<close>)
qed

lemma show_value_start:
  assumes "notable v"
  shows "\<exists>c s. show_value v = c # s \<and> \<not> ws_char c \<and> c \<noteq> CHR '';'' \<and> c \<noteq> CHR '')'' \<and> c \<noteq> CHR '']''"
proof (cases "\<exists>s vs. v = PB_STRING s \<or> v = PB_LIST vs \<or> v = PB_VECTOR vs")
  case True
  then show ?thesis by (auto simp: ws_char_def TAB_def CR_def LF_def)
next
  case False
  then have "atom_text (show_value v)" using parse_atom_reads(1) [of "\<lambda>_. True" v] assms by blast
  then show ?thesis by (cases "show_value v") (auto simp: atom_text_def atom_end_def)
qed

lemma skip_ws_show:
  assumes "notable v"
  shows "skip_ws (show_value v @ rest) = show_value v @ rest"
proof -
  obtain c s where "show_value v = c # s" "\<not> ws_char c" "c \<noteq> CHR '';''" using show_value_start [OF assms] by blast
  then show ?thesis by simp
qed

lemma parse_one_atom:
  assumes am: "\<And>n. am n" and v: "notable v" and atom: "\<And>s. v \<noteq> PB_STRING s" "\<And>vs. v \<noteq> PB_LIST vs" "\<And>vs. v \<noteq> PB_VECTOR vs"
    and p: "parse_one fuel am malloc arena (show_value v @ CHR '' '' # rest) = Some r"
  shows "reads r v (CHR '' '' # rest)"
proof -
  have a: "atom_text (show_value v)" "reads (parse_atom am malloc arena (show_value v @ CHR '' '' # rest)) v (CHR '' '' # rest)"
      "hd (show_value v) \<noteq> CHR 0x22"
    by (rule parse_atom_reads [of am]; use am v atom in blast)+
  obtain f where f: "fuel = Suc f" using p by (cases fuel) auto
  obtain c s where cs: "show_value v = c # s" using a(1) by (cases "show_value v") (auto simp: atom_text_def)
  have c: "\<not> atom_end c" "c \<noteq> CHR 0x22" using a(1,3) cs by (auto simp: atom_text_def)
  have sk: "skip_ws (show_value v @ CHR '' '' # rest) = show_value v @ CHR '' '' # rest" by (rule skip_ws_show [OF v])
  have "r = parse_atom am malloc arena (show_value v @ CHR '' '' # rest)"
    using p c cs sk unfolding f by (auto simp: Let_def atom_end_def split: if_splits)
  then show ?thesis using a(2) by simp
qed

lemma parse_seq_space: "parse_seq fuel am malloc is_list opn items arena (CHR '' '' # s) = parse_seq fuel am malloc is_list opn items arena s"
  by (cases fuel) (simp_all add: ws_char_def)

lemma parse_forms_space: "parse_forms fuel am malloc forms arena (CHR '' '' # s) = parse_forms fuel am malloc forms arena s"
  by (cases fuel) (simp_all add: ws_char_def)

definition seq_value :: "bool \<Rightarrow> pb_value list \<Rightarrow> pb_value" where
  "seq_value is_list vs = (if is_list then PB_LIST vs else PB_VECTOR vs)"

text \<open>The items of a sequence, one after the other.\<close>

lemma parse_seq_reads:
  assumes am: "\<And>n. am n"
    and items: "\<And>v fuel arena rest r. v \<in> set vs \<Longrightarrow>
      parse_one fuel am malloc arena (show_value v @ CHR '' '' # rest) = Some r \<Longrightarrow> reads r v (CHR '' '' # rest)"
    and ok: "\<And>v. v \<in> set vs \<Longrightarrow> notable v" "is_list \<Longrightarrow> acc @ vs \<noteq> [] \<and> is_symbol (hd (acc @ vs))"
    and p: "parse_seq fuel am malloc is_list opn (acc, cap) arena
      (concat (map (\<lambda>v. show_value v @ '' '') vs) @ (if is_list then CHR '')'' else CHR '']'') # rest) = Some r"
  shows "reads r (seq_value is_list (acc @ vs)) rest"
  using items ok p
proof (induction vs arbitrary: fuel acc cap arena)
  case Nil
  obtain f where f: "fuel = Suc f" using Nil.prems(4) by (cases fuel) auto
  show ?case
    using Nil.prems(3,4) unfolding f
    by (cases is_list) (auto simp: ws_char_def TAB_def CR_def LF_def reads_def seq_value_def split: prod.splits bool.splits if_splits)
next
  case (Cons v vs)
  let ?tail = "concat (map (\<lambda>v. show_value v @ '' '') vs) @ (if is_list then CHR '')'' else CHR '']'') # rest"
  obtain f where f: "fuel = Suc f" using Cons.prems(4) by (cases fuel) auto
  have in_eq: "concat (map (\<lambda>v. show_value v @ '' '') (v # vs)) @ (if is_list then CHR '')'' else CHR '']'') # rest =
      show_value v @ CHR '' '' # ?tail" by simp
  obtain c s where cs: "show_value v = c # s" "\<not> ws_char c" "c \<noteq> CHR '';''" "c \<noteq> CHR '')''" "c \<noteq> CHR '']''"
    using show_value_start [of v] Cons.prems(2) by auto
  have sk: "skip_ws (show_value v @ CHR '' '' # ?tail) = c # s @ CHR '' '' # ?tail" using cs by simp
  obtain r1 where r1: "parse_one f am malloc arena (show_value v @ CHR '' '' # ?tail) = Some r1"
    using Cons.prems(4) cs unfolding f in_eq by (auto simp: Let_def sk split: option.splits if_splits)
  have rd: "reads r1 v (CHR '' '' # ?tail)" by (rule Cons.prems(1) [OF _ r1]) simp
  obtain res1 a1 rest1 where r1': "r1 = (res1, a1, rest1)" by (metis prod_cases3)
  show ?case
  proof (cases res1)
    case (Inl err)
    then have "r = r1" using Cons.prems(4) cs r1 unfolding f in_eq r1' by (auto simp: Let_def sk split: if_splits)
    then show ?thesis using rd Inl by (simp add: reads_def r1')
  next
    case (Inr u)
    then have u: "u = v" "rest1 = CHR '' '' # ?tail" using rd by (simp_all add: reads_def r1')
    obtain q where q: "vec_push am (acc, cap) v = q" by blast
    show ?thesis
    proof (cases q)
      case None
      then have "r = (Inl PB_PARSE_OOM, a1, rest1)"
        using Cons.prems(4) cs r1 q Inr u unfolding f in_eq r1' by (auto simp: Let_def sk split: if_splits)
      then show ?thesis by (simp add: reads_def)
    next
      case (Some items')
      then obtain cap' where it: "items' = (acc @ [v], cap')" using q by (auto simp: vec_push_def)
      have "parse_seq f am malloc is_list opn (acc @ [v], cap') a1 ?tail = Some r"
        using Cons.prems(4) cs r1 q Inr u Some unfolding f in_eq r1' it
        by (auto simp: Let_def sk parse_seq_space split: if_splits)
      from Cons.IH [OF _ _ _ this] show ?thesis using Cons.prems(1-3) by simp
    qed
  qed
qed

lemma parse_one_reads:
  assumes am: "\<And>n. am n"
  shows "notable v \<Longrightarrow> parse_one fuel am malloc arena (show_value v @ CHR '' '' # rest) = Some r \<Longrightarrow> reads r v (CHR '' '' # rest)"
proof (induction v arbitrary: fuel arena rest r)
  case (PB_LIST vs)
  obtain f where f: "fuel = Suc f" using PB_LIST.prems by (cases fuel) auto
  have "parse_seq f am malloc True (show_value (PB_LIST vs) @ CHR '' '' # rest) ([], 0) arena
      (concat (map (\<lambda>v. show_value v @ '' '') vs) @ (if True then CHR '')'' else CHR '']'') # CHR '' '' # rest) = Some r"
    using PB_LIST.prems(2) unfolding f by (simp add: Let_def ws_char_def TAB_def CR_def LF_def)
  from parse_seq_reads [OF am _ _ _ this] PB_LIST show ?case by (simp add: seq_value_def)
next
  case (PB_VECTOR vs)
  obtain f where f: "fuel = Suc f" using PB_VECTOR.prems by (cases fuel) auto
  have "parse_seq f am malloc False (show_value (PB_VECTOR vs) @ CHR '' '' # rest) ([], 0) arena
      (concat (map (\<lambda>v. show_value v @ '' '') vs) @ (if False then CHR '')'' else CHR '']'') # CHR '' '' # rest) = Some r"
    using PB_VECTOR.prems(2) unfolding f by (simp add: Let_def ws_char_def TAB_def CR_def LF_def)
  from parse_seq_reads [OF am _ _ _ this] PB_VECTOR show ?case by (simp add: seq_value_def)
next
  case (PB_STRING s)
  obtain f where f: "fuel = Suc f" using PB_STRING.prems by (cases fuel) auto
  let ?in = "CHR 0x22 # concat (map show_char s) @ CHR 0x22 # CHR '' '' # rest"
  have r: "r = parse_string am malloc arena ?in"
    using PB_STRING.prems(2) unfolding f by (simp add: Let_def ws_char_def TAB_def CR_def LF_def)
  obtain res rest' where l: "string_loop am ?in [] 0 (concat (map show_char s) @ CHR 0x22 # CHR '' '' # rest) = (res, rest')"
    by fastforce
  show ?case
    using string_loop_reads [OF l] l reads_owned [of malloc arena PB_STRING s "CHR '' '' # rest"]
    by (auto simp: r parse_string_def reads_def)
next
  case PB_NIL
  show ?case by (rule parse_one_atom [OF am PB_NIL.prems(1) _ _ _ PB_NIL.prems(2)]) simp_all
next
  case (PB_BOOL b)
  show ?case by (rule parse_one_atom [OF am PB_BOOL.prems(1) _ _ _ PB_BOOL.prems(2)]) simp_all
next
  case (PB_NUMBER d)
  show ?case by (rule parse_one_atom [OF am PB_NUMBER.prems(1) _ _ _ PB_NUMBER.prems(2)]) simp_all
next
  case (PB_SYMBOL s)
  show ?case by (rule parse_one_atom [OF am PB_SYMBOL.prems(1) _ _ _ PB_SYMBOL.prems(2)]) simp_all
next
  case (PB_KEYWORD s)
  show ?case by (rule parse_one_atom [OF am PB_KEYWORD.prems(1) _ _ _ PB_KEYWORD.prems(2)]) simp_all
qed

lemma parse_forms_reads:
  assumes am: "\<And>n. am n"
    and "\<And>v. v \<in> set vs \<Longrightarrow> notable v"
    and "parse_forms fuel am malloc (acc, cap) arena (concat (map (\<lambda>v. show_value v @ '' '') vs)) = Some (res, arena', rest)"
  shows "res = Inl PB_PARSE_OOM \<or> res = Inr (acc @ vs)"
  using assms(2,3)
proof (induction vs arbitrary: fuel acc cap arena)
  case Nil
  then show ?case by (cases fuel) (auto simp: Let_def split: prod.splits bool.splits)
next
  case (Cons v vs)
  let ?tail = "concat (map (\<lambda>v. show_value v @ '' '') vs)"
  obtain f where f: "fuel = Suc f" using Cons.prems(2) by (cases fuel) auto
  have in_eq: "concat (map (\<lambda>v. show_value v @ '' '') (v # vs)) = show_value v @ CHR '' '' # ?tail" by simp
  have v: "notable v" using Cons.prems(1) by simp
  have ne: "show_value v \<noteq> []" using show_value_start [OF v] by auto
  have sk: "skip_ws (show_value v @ CHR '' '' # ?tail) = show_value v @ CHR '' '' # ?tail" by (rule skip_ws_show [OF v])
  have pf: "parse_forms (Suc f) am malloc (acc, cap) arena (show_value v @ CHR '' '' # ?tail) = Some (res, arena', rest)"
    using Cons.prems(2) unfolding f in_eq .
  obtain res1 a1 rest1 where r1: "parse_one f am malloc arena (show_value v @ CHR '' '' # ?tail) = Some (res1, a1, rest1)"
    using pf ne by (auto simp: Let_def sk split: option.splits)
  have rd: "reads (res1, a1, rest1) v (CHR '' '' # ?tail)" by (rule parse_one_reads [OF am v r1])
  show ?case
  proof (cases res1)
    case (Inl err)
    then show ?thesis using pf r1 rd ne by (simp add: Let_def sk reads_def)
  next
    case (Inr u)
    then have u: "u = v" "rest1 = CHR '' '' # ?tail" using rd by (simp_all add: reads_def)
    show ?thesis
    proof (cases "vec_push am (acc, cap) v")
      case None
      then show ?thesis using pf r1 ne Inr u by (simp add: Let_def sk)
    next
      case (Some forms)
      then obtain cap' where it: "forms = (acc @ [v], cap')" by (auto simp: vec_push_def)
      have "parse_forms f am malloc (acc @ [v], cap') a1 ?tail = Some (res, arena', rest)"
        using pf r1 ne Inr u Some it by (simp add: Let_def sk parse_forms_space)
      from Cons.IH [OF _ this] show ?thesis using Cons.prems(1) by simp
    qed
  qed
qed

section \<open>Reading with enough memory\<close>

lemma string_loop_room:
  "length tmp + length s \<le> 2 ^ 48 \<Longrightarrow> fst (string_loop (\<lambda>_. True) opn tmp cap s) \<noteq> Inl PB_PARSE_OOM"
proof (induction "\<lambda>_ :: nat. True" opn tmp cap s rule: string_loop.induct)
  case (2 opn tmp cap c s)
  obtain cap' where r: "mb_array_reserve (\<lambda>_. True) cap (length tmp + 1) 1 16 = Some cap'"
    by (rule array_reserve_with_memory [of "length tmp + 1" 1 16 cap]) (use "2.prems" in simp_all)
  show ?case
  proof (cases "c = CHR 0x5C")
    case True
    then show ?thesis using 2 r by (auto split: list.split option.split)
  next
    case False
    then show ?thesis using 2 r by auto
  qed
qed simp

lemma owned_text_room:
  assumes "plenty malloc" "arena_room arena" "length s \<le> 2 ^ 48"
  shows "\<exists>arena'. owned_text malloc arena f s rest = (Inr (f s), arena', rest) \<and> arena_room arena'"
proof -
  obtain p arena' where "pb_arena_alloc malloc arena (if s = [] then 1 else length s) 1 = (Some p, arena')" "arena_room arena'"
    by (rule arena_alloc_room [OF assms(1,2), of 1 "if s = [] then 1 else length s"]) (use assms(3) in \<open>auto simp: is_power_of_two_def\<close>)
  then show ?thesis by (simp add: owned_text_def pb_arena_memdup_def)
qed

lemma freeze_room:
  assumes "plenty malloc" "arena_room arena" "length items \<le> 2 ^ 48"
  shows "\<exists>arena'. freeze malloc arena items = (True, arena') \<and> arena_room arena'"
proof -
  obtain p arena' where "pb_arena_alloc malloc arena (length items * PB_VALUE_SIZE) PB_VALUE_ALIGN = (Some p, arena')" "arena_room arena'"
    by (rule arena_alloc_room [OF assms(1,2), of PB_VALUE_ALIGN "length items * PB_VALUE_SIZE"])
       (use assms(3) in \<open>auto simp: is_power_of_two_def PB_VALUE_SIZE_def PB_VALUE_ALIGN_def\<close>)
  then show ?thesis by (simp add: freeze_def)
qed

lemma vec_push_room: "length (fst v) < 2 ^ 48 \<Longrightarrow> \<exists>cap. vec_push (\<lambda>_. True) v item = Some (fst v @ [item], cap)"
  using array_reserve_with_memory [of "length (fst v) + 1" PB_VALUE_SIZE 8 "snd v"] by (auto simp: vec_push_def PB_VALUE_SIZE_def)

text \<open>No step of the parser reports that memory ran out.\<close>

lemma parse_leaf_room:
  assumes "plenty malloc" "arena_room arena" "length input \<le> 2 ^ 48"
  shows "\<exists>r arena' rest. parse_atom (\<lambda>_. True) malloc arena input = (r, arena', rest) \<and> arena_room arena' \<and> r \<noteq> Inl PB_PARSE_OOM"
    "\<exists>r arena' rest. parse_string (\<lambda>_. True) malloc arena input = (r, arena', rest) \<and> arena_room arena' \<and> r \<noteq> Inl PB_PARSE_OOM"
proof -
  let ?tok = "takeWhile (\<lambda>c. \<not> atom_end c) input" and ?rest = "dropWhile (\<lambda>c. \<not> atom_end c) input"
  have len: "length ?tok \<le> 2 ^ 48" using length_takeWhile_le [of "\<lambda>c. \<not> atom_end c" input] assms(3) by linarith
  then have "length (tl ?tok) \<le> 2 ^ 48" by (metis diff_le_self le_trans length_tl)
  with len show "\<exists>r arena' rest. parse_atom (\<lambda>_. True) malloc arena input = (r, arena', rest) \<and> arena_room arena' \<and> r \<noteq> Inl PB_PARSE_OOM"
    using owned_text_room [OF assms(1,2), of ?tok PB_SYMBOL ?rest] owned_text_room [OF assms(1,2), of "tl ?tok" PB_KEYWORD ?rest] assms(2)
    by (auto simp: parse_atom_def Let_def split: option.split)
  obtain r s where l: "string_loop (\<lambda>_. True) input [] 0 (tl input) = (r, s)" by fastforce
  have ok: "r \<noteq> Inl PB_PARSE_OOM" using string_loop_room [of "[]" "tl input" input 0] assms(3) l by simp
  have "length t \<le> 2 ^ 48" if "r = Inr t" for t
  proof -
    have "length t \<le> length tmp + length u" if "string_loop am opn tmp cap u = (Inr t, v)" for am opn tmp cap u v
      using that by (induction am opn tmp cap u rule: string_loop.induct) (fastforce split: if_splits option.splits list.splits)+
    from this [of "\<lambda>_. True" input "[]" 0 "tl input" s] show ?thesis using l that assms(3) by simp
  qed
  then show "\<exists>r arena' rest. parse_string (\<lambda>_. True) malloc arena input = (r, arena', rest) \<and> arena_room arena' \<and> r \<noteq> Inl PB_PARSE_OOM"
    using owned_text_room [OF assms(1,2), of _ PB_STRING s] ok assms(2) l by (cases r) (fastforce simp: parse_string_def)+
qed

lemma parse_room:
  assumes plenty: "plenty malloc"
  shows "arena_room arena \<Longrightarrow> length input \<le> 2 ^ 48 \<Longrightarrow> parse_one fuel (\<lambda>_. True) malloc arena input = Some (r, arena', rest) \<Longrightarrow>
      arena_room arena' \<and> r \<noteq> Inl PB_PARSE_OOM \<and> ((\<exists>v. r = Inr v) \<longrightarrow> length rest < length input)"
    "arena_room arena \<Longrightarrow> length (fst items) + length input \<le> 2 ^ 48 \<Longrightarrow>
      parse_seq fuel (\<lambda>_. True) malloc is_list opn items arena input = Some (r, arena', rest) \<Longrightarrow>
      arena_room arena' \<and> r \<noteq> Inl PB_PARSE_OOM \<and> ((\<exists>v. r = Inr v) \<longrightarrow> length rest < length input)"
proof (induction fuel arbitrary: input arena is_list opn items r arena' rest)
  case (Suc fuel)
  {
    case 1
    have l: "length (skip_ws input) \<le> length input" by (rule skip_ws_length)
    show ?case
    proof (cases "skip_ws input")
      case Nil
      then show ?thesis using 1 by (auto simp: Let_def)
    next
      case (Cons c t)
      have t: "length t < length input" using l Cons by simp
      have seq: ?thesis if "parse_seq fuel (\<lambda>_. True) malloc b (c # t) ([], 0) arena t = Some (r, arena', rest)" for b
        using Suc.IH(2) [OF "1.prems"(1) _ that] "1.prems"(2) t by fastforce
      note leaf = parse_leaf_room [OF plenty "1.prems"(1), of "c # t"]
      have b: "length (c # t) \<le> 2 ^ 48" using "1.prems"(2) l Cons by simp
      have str: ?thesis if "parse_string (\<lambda>_. True) malloc arena (c # t) = (r, arena', rest)"
        using leaf(2) [OF b] that parse_string_length [of "\<lambda>_. True" malloc arena "c # t"] l Cons by fastforce
      have atm: ?thesis if "parse_atom (\<lambda>_. True) malloc arena (c # t) = (r, arena', rest)"
        using leaf(1) [OF b] that parse_atom_length [of "\<lambda>_. True" malloc arena "c # t"] l Cons by fastforce
      show ?thesis
        using "1.prems"(1,3) Cons seq str atm by (auto simp: Let_def split: if_splits)
    qed
  next
    case 2
    have l: "length (skip_ws input) \<le> length input" by (rule skip_ws_length)
    show ?case
    proof (cases "skip_ws input")
      case Nil
      then show ?thesis using 2 by (auto simp: Let_def)
    next
      case (Cons c t)
      obtain a1 where fr: "freeze malloc arena (fst items) = (True, a1)" "arena_room a1"
        using freeze_room [OF plenty "2.prems"(1), of "fst items"] "2.prems"(2) by auto
      have step: ?thesis if p: "parse_one fuel (\<lambda>_. True) malloc arena (c # t) = Some (r1, a2, s1)"
        and q: "(case r1 of Inl err \<Rightarrow> Some (Inl err, a2, s1)
          | Inr item \<Rightarrow> (case vec_push (\<lambda>_. True) items item of
                         None \<Rightarrow> Some (Inl PB_PARSE_OOM, a2, s1)
                       | Some items \<Rightarrow> parse_seq fuel (\<lambda>_. True) malloc is_list opn items a2 s1)) = Some (r, arena', rest)" for r1 a2 s1
      proof -
        have one: "arena_room a2" "r1 \<noteq> Inl PB_PARSE_OOM" "(\<exists>v. r1 = Inr v) \<longrightarrow> length s1 < length (c # t)"
          using Suc.IH(1) [OF "2.prems"(1) _ p] "2.prems"(2) l Cons by auto
        show ?thesis
        proof (cases r1)
          case (Inl err)
          then show ?thesis using q one by auto
        next
          case (Inr item)
          have s1: "length s1 < length input" using one(3) Inr l Cons by auto
          obtain cap where v: "vec_push (\<lambda>_. True) items item = Some (fst items @ [item], cap)"
            using vec_push_room [of items item] "2.prems"(2) l Cons by auto
          have "parse_seq fuel (\<lambda>_. True) malloc is_list opn (fst items @ [item], cap) a2 s1 = Some (r, arena', rest)"
            using q Inr v by simp
          from Suc.IH(2) [OF one(1) _ this] show ?thesis using "2.prems"(2) s1 by fastforce
        qed
      qed
      show ?thesis
        using "2.prems"(1,3) Cons fr l step
        by (auto simp: Let_def split: if_splits option.splits prod.splits sum.splits)
    qed
  }
qed simp_all

lemma parse_forms_room:
  assumes "plenty malloc" "arena_room arena" "length (fst forms) + length input \<le> 2 ^ 48"
    "parse_forms fuel (\<lambda>_. True) malloc forms arena input = Some (r, arena', rest)"
  shows "r \<noteq> Inl PB_PARSE_OOM"
  using assms(2-4)
proof (induction fuel arbitrary: forms arena input)
  case (Suc fuel)
  have l: "length (skip_ws input) \<le> length input" by (rule skip_ws_length)
  show ?case
  proof (cases "skip_ws input = []")
    case True
    then show ?thesis using Suc.prems freeze_room [OF assms(1) Suc.prems(1), of "fst forms"] by (auto simp: Let_def)
  next
    case False
    obtain r1 a1 s1 where p: "parse_one fuel (\<lambda>_. True) malloc arena (skip_ws input) = Some (r1, a1, s1)"
      using Suc.prems(3) False by (auto simp: Let_def split: option.splits)
    have one: "arena_room a1" "r1 \<noteq> Inl PB_PARSE_OOM" "(\<exists>v. r1 = Inr v) \<longrightarrow> length s1 < length (skip_ws input)"
      using parse_room(1) [OF assms(1) Suc.prems(1) _ p] Suc.prems(2) l by auto
    show ?thesis
    proof (cases r1)
      case (Inl err)
      then show ?thesis using Suc.prems(3) False p one by (auto simp: Let_def)
    next
      case (Inr v)
      have s1: "length s1 < length input" using one(3) Inr l by auto
      obtain cap where q: "vec_push (\<lambda>_. True) forms v = Some (fst forms @ [v], cap)"
        using vec_push_room [of forms v] Suc.prems(2) s1 by auto
      have "parse_forms fuel (\<lambda>_. True) malloc (fst forms @ [v], cap) a1 s1 = Some (r, arena', rest)"
        using Suc.prems(3) False p Inr q by (simp add: Let_def)
      from Suc.IH [OF one(1) _ this] show ?thesis using Suc.prems(2) s1 by simp
    qed
  qed
qed simp

text \<open>
  \<^bold>\<open>C27\<close> Reading back: forms written in the notation of the language are parsed to exactly these
  forms. The forms are \<open>nil\<close>, Booleans, whole numbers from 0 up to \<open>2^53\<close>, symbols that cannot be taken
  for a number, a keyword or a string (\<open>->\<close> is one), keywords, strings with any bytes, lists that start
  with a symbol and vectors, nested in any way, of up to \<open>2^48\<close> bytes; memory is not refused.
\<close>

theorem sexpr_round_trip:
  assumes "plenty malloc" "arena_room arena" "\<forall>v \<in> set vs. notable v"
    and "length (concat (map (\<lambda>v. show_value v @ '' '') vs)) \<le> 2 ^ 48"
  shows "\<exists>arena'. pb_parse_all (\<lambda>_. True) malloc arena (concat (map (\<lambda>v. show_value v @ '' '') vs)) = Some (Inr vs, arena')"
proof -
  let ?src = "concat (map (\<lambda>v. show_value v @ '' '') vs)"
  obtain res arena' rest where p: "parse_forms (2 * length ?src + 2) (\<lambda>_. True) malloc ([], 0) arena ?src = Some (res, arena', rest)"
    using parse_forms_total [of ?src "2 * length ?src + 2" "\<lambda>_. True" malloc "([], 0)" arena] by auto
  have "res = Inl PB_PARSE_OOM \<or> res = Inr vs" using parse_forms_reads [OF _ _ p] assms(3) by simp
  moreover have "res \<noteq> Inl PB_PARSE_OOM" using parse_forms_room [OF assms(1,2) _ p] assms(4) by simp
  ultimately show ?thesis using p by (auto simp: pb_parse_all_def)
qed

definition sample_forms :: "pb_value list" where
  "sample_forms = [PB_LIST [PB_SYMBOL ''on'', PB_STRING [LF], PB_LIST [PB_SYMBOL ''->'', PB_VECTOR [PB_KEYWORD ''ms'', PB_NIL]]]]"

theorem sexpr_round_trip_witness:
  "\<exists>arena'. pb_parse_all (\<lambda>_. True) (\<lambda>_ _. Some 64) [] (concat (map (\<lambda>v. show_value v @ '' '') sample_forms)) = Some (Inr sample_forms, arena')"
proof (rule sexpr_round_trip)
  show "plenty (\<lambda>_ _. Some 64)" by (simp add: plenty_def)
  show "arena_room []" by (simp add: arena_room_def)
  show "\<forall>v \<in> set sample_forms. notable v"
    by (simp add: sample_forms_def is_symbol_def atom_text_def atom_end_def ws_char_def number_start_def is_digit_def byte_val_def LF_def TAB_def CR_def)
  show "length (concat (map (\<lambda>v. show_value v @ '' '') sample_forms)) \<le> 2 ^ 48" by (simp add: sample_forms_def show_char_def)
qed


end
