(* ===== verification/Yaml_Correct.thy ===== *)
theory Yaml_Correct
  imports Yaml
begin

text \<open>
  The YAML reader returns on every document: a flow value ends within its text, and every block
  takes at least one line.
\<close>

section \<open>Flow values\<close>

lemma flow_skip_le: "length (snd (flow_skip k cur)) \<le> length (snd cur)" "length (snd (flow_skip_ws cur)) \<le> length (snd cur)"
  by (simp_all add: flow_skip_def flow_skip_ws_def)

text \<open>A result that leaves at most \<open>m\<close> characters, and fewer than \<open>m\<close> with a value.\<close>

definition flow_ret :: "nat \<Rightarrow> (y_node option \<times> y_cursor \<times> y_err) option \<Rightarrow> bool" where
  "flow_ret m r \<longleftrightarrow>
     (\<exists>n cur e. r = Some (n, cur, e) \<and> length (snd cur) \<le> m \<and> (n \<noteq> None \<longrightarrow> length (snd cur) < m))"

lemma flow_retI: "length (snd cur) \<le> m \<Longrightarrow> (n \<noteq> None \<Longrightarrow> length (snd cur) < m) \<Longrightarrow> flow_ret m (Some (n, cur, e))"
  unfolding flow_ret_def by blast

lemma flow_retE:
  assumes "flow_ret m r"
  obtains n cur e where "r = Some (n, cur, e)" "length (snd cur) \<le> m" "n \<noteq> None \<longrightarrow> length (snd cur) < m"
  using assms unfolding flow_ret_def by blast

lemma flow_ret_mono: "flow_ret m r \<Longrightarrow> m \<le> m' \<Longrightarrow> flow_ret m' r"
  by (force simp: flow_ret_def)

text \<open>A parser of values that returns on texts of at most \<open>k\<close> characters, and takes one when it succeeds.\<close>

definition flow_ok :: "nat \<Rightarrow> y_flow \<Rightarrow> bool" where
  "flow_ok k val \<longleftrightarrow> (\<forall>cur e. length (snd cur) \<le> k \<longrightarrow> flow_ret (length (snd cur)) (val cur e))"

lemma flow_next_le:
  "length (snd (flow_skip_ws (flow_skip 1 (flow_skip_ws cur)))) \<le> length (snd cur)"
  "length (snd (flow_skip 1 (flow_skip_ws cur))) \<le> length (snd cur)"
  using flow_skip_le(1) [of 1 "flow_skip_ws cur"] flow_skip_le(2) [of cur] flow_skip_le(2) [of "flow_skip 1 (flow_skip_ws cur)"]
  by linarith+

lemma flow_items_returns:
  assumes "flow_ok k val"
  shows "length (snd cur) \<le> k \<Longrightarrow> length (snd cur) < n \<Longrightarrow> flow_ret (length (snd cur)) (flow_items n val am off items cur e)"
proof (induction n arbitrary: items cur e)
  case (Suc n)
  have "flow_ret (length (snd cur)) (val cur e)" using assms Suc.prems(1) unfolding flow_ok_def by blast
  then obtain item cur1 e1 where v: "val cur e = Some (item, cur1, e1)" "length (snd cur1) \<le> length (snd cur)"
      "item \<noteq> None \<longrightarrow> length (snd cur1) < length (snd cur)"
    by (rule flow_retE)
  let ?next = "flow_skip_ws (flow_skip 1 (flow_skip_ws cur1))"
  show ?case
  proof (cases item)
    case None
    then show ?thesis using v(1,2) by (auto intro!: flow_retI)
  next
    case (Some x)
    then have lt: "length (snd cur1) < length (snd cur)" using v(3) by simp
    have next_lt: "length (snd ?next) < length (snd cur)" using lt flow_next_le(1) [of cur1] by simp
    then have "flow_ret (length (snd ?next)) (flow_items n val am off its ?next e2)" for its e2
      using Suc.IH [of ?next its e2] Suc.prems by simp
    then have go: "flow_ret (length (snd cur)) (flow_items n val am off its ?next e2)" for its e2
      by (rule flow_ret_mono) (use next_lt in simp)
    show ?thesis using v(1) Some go lt flow_skip_le(2) [of cur1] flow_next_le(2) [of cur1]
      by (auto simp: Let_def intro!: flow_retI split: prod.split option.split list.split)
  qed
qed simp

lemma parse_flow_array_ok:
  assumes "flow_ok k val" "length (snd cur) \<le> Suc k" "snd cur \<noteq> []"
  shows "flow_ret (length (snd cur)) (parse_flow_array val am cur e)"
proof (cases "am Y_NODE_SIZE")
  case True
  let ?cur = "flow_skip_ws (flow_skip 1 cur)"
  have lt: "length (snd ?cur) < length (snd cur)"
    using flow_skip_le(2) [of "flow_skip 1 cur"] assms(3) by (cases "snd cur") (auto simp: flow_skip_def)
  have new: "parse_flow_array val am cur e =
      (if snd ?cur \<noteq> [] \<and> hd (snd ?cur) = CHR '']'' then Some (Some (Y_LIST (fst cur) []), flow_skip 1 ?cur, e)
       else flow_items (length (snd ?cur) + 1) val am (fst cur) ([], 0) ?cur e)"
    using True by (simp add: parse_flow_array_def node_new_def Let_def del: flow_items.simps)
  have "flow_ret (length (snd ?cur)) (flow_items (length (snd ?cur) + 1) val am (fst cur) ([], 0) ?cur e)"
    using flow_items_returns [OF assms(1), of ?cur "length (snd ?cur) + 1"] lt assms(2) by simp
  then have "flow_ret (length (snd cur)) (flow_items (length (snd ?cur) + 1) val am (fst cur) ([], 0) ?cur e)"
    by (rule flow_ret_mono) (use lt in simp)
  then show ?thesis unfolding new using lt flow_skip_le(1) [of 1 ?cur] by (auto intro!: flow_retI simp del: flow_items.simps)
qed (auto simp: parse_flow_array_def node_new_def intro!: flow_retI)

lemma rtrim_Nil [simp]: "rtrim [] = []"
  by (simp add: rtrim_def)

lemma parse_flow_scalar_ok: "flow_ret (length (snd cur)) (Some (parse_flow_scalar am cur e))"
  by (cases "snd cur")
    (auto simp: parse_flow_scalar_def Let_def flow_skip_def trim_slice_def split: option.split prod.split intro!: flow_retI)

lemma parse_flow_value_ok: "flow_ok k (parse_flow_value (Suc k) am)"
proof (induction k)
  case 0
  show ?case using parse_flow_scalar_ok [of "flow_skip_ws (_, [])"] unfolding flow_ok_def
    by (auto simp: flow_skip_ws_def flow_skip_def Let_def)
next
  case (Suc k)
  show ?case unfolding flow_ok_def
  proof (intro allI impI)
    fix cur :: y_cursor and e :: y_err assume k: "length (snd cur) \<le> Suc k"
    let ?cur = "flow_skip_ws cur"
    have le: "length (snd ?cur) \<le> length (snd cur)" by (rule flow_skip_le)
    have "flow_ret (length (snd ?cur)) (parse_flow_array (parse_flow_value (Suc k) am) am ?cur e)" if "snd ?cur \<noteq> []"
      by (rule parse_flow_array_ok [OF Suc.IH order_trans [OF le k] that])
    then have "flow_ret (length (snd ?cur)) (parse_flow_value (Suc (Suc k)) am cur e)"
      using parse_flow_scalar_ok [of ?cur am e] unfolding parse_flow_value.simps(2) [of "Suc k"] Let_def by simp
    then show "flow_ret (length (snd cur)) (parse_flow_value (Suc (Suc k)) am cur e)" using le by (rule flow_ret_mono)
  qed
qed

lemma parse_inline_value_returns: "\<exists>n e'. parse_inline_value am e raw off = Some (n, e')"
proof (cases "trim_slice raw")
  case (Cons c s)
  have "flow_ret (length (c # s)) (parse_flow_array (parse_flow_value (length (c # s)) am) am (off, c # s) e)"
    using parse_flow_array_ok [OF parse_flow_value_ok [of "length s" am], of "(off, c # s)" am e] by simp
  then obtain n cur' e' where "parse_flow_array (parse_flow_value (length (c # s)) am) am (off, c # s) e = Some (n, cur', e')"
    by (rule flow_retE)
  then show ?thesis unfolding parse_inline_value_def Let_def Cons
    by (cases "scalar_from_slice am e (c # s) off") (auto simp del: parse_flow_value.simps)
qed (simp add: parse_inline_value_def)

section \<open>Blocks\<close>

definition block_ok :: "nat \<Rightarrow> y_block \<Rightarrow> bool" where
  "block_ok k blk \<longleftrightarrow>
     (\<forall>indent st. length (fst st) \<le> k \<longrightarrow> (\<exists>n st'. blk indent st = Some (n, st') \<and> length (fst st') \<le> length (fst st)))"

text \<open>A step of the parser returns and leaves no more lines than it was given.\<close>

definition returns :: "('a \<times> y_st) option \<Rightarrow> y_line list \<Rightarrow> bool" where
  "returns r ls \<longleftrightarrow> (\<exists>x st'. r = Some (x, st') \<and> length (fst st') \<le> length ls)"

lemma returnsI: "length (fst st) \<le> length ls \<Longrightarrow> returns (Some (x, st)) ls"
  by (simp add: returns_def)

lemma block_okD: "block_ok k blk \<Longrightarrow> length (fst st) \<le> k \<Longrightarrow> returns (blk indent st) (fst st)"
  unfolding block_ok_def returns_def by blast

lemma returns_bind:
  assumes "returns r ls" "\<And>x st. length (fst st) \<le> length ls \<Longrightarrow> returns (f (x, st)) ls"
  shows "returns (r \<bind> f) ls"
  using assms by (auto simp: returns_def)

lemma returns_weaken: "returns r ls \<Longrightarrow> length ls \<le> length ls' \<Longrightarrow> returns r ls'"
  unfolding returns_def using le_trans by blast

lemma block_below_returns: "block_ok k blk \<Longrightarrow> length (fst st) \<le> k \<Longrightarrow> returns (block_below blk indent off st) (fst st)"
  unfolding block_below_def using block_okD [of k blk st] by (auto intro: returnsI split: list.split)

lemma inline_returns: "returns (do { (v, e) \<leftarrow> parse_inline_value am e raw off; Some (v, ls, e) }) ls"
  using parse_inline_value_returns [of am e raw off] by (auto simp: returns_def)

lemma put_value_returns: "length (fst st) \<le> length ls \<Longrightarrow> returns (Some (put_value am ps key v st)) ls"
  by (cases st) (auto simp: returns_def put_value_def split: option.split prod.split)

lemma map_pair_returns:
  assumes "block_ok k blk" "length (fst st) \<le> k"
  shows "returns (parse_map_pair_from_line blk am ps line st) (fst st)"
proof (cases "find_key_colon (yl_text line)")
  case (Some colon)
  show ?thesis unfolding parse_map_pair_from_line_def Let_def Some option.case
    by (rule returns_bind) (auto intro: put_value_returns inline_returns block_below_returns [OF assms])
qed (simp add: parse_map_pair_from_line_def returns_def)

text \<open>A pair and then the rest of a loop, which takes a line in every round.\<close>

lemma pair_then_returns:
  assumes "block_ok k blk" "length rest \<le> k"
    and "\<And>ps st. length (fst st) \<le> length rest \<Longrightarrow> returns (f ps st) (fst st)"
  shows "returns (do { (ps, st) \<leftarrow> parse_map_pair_from_line blk am ps line (rest, e);
     case ps of None \<Rightarrow> Some (None, st) | Some ps \<Rightarrow> f ps st }) rest"
proof (rule returns_bind)
  show "returns (parse_map_pair_from_line blk am ps line (rest, e)) rest"
    using map_pair_returns [OF assms(1), of "(rest, e)"] assms(2) by simp
next
  fix x st assume "length (fst (st :: y_st)) \<le> length rest"
  then show "returns (case (x, st) of (ps, st) \<Rightarrow> (case ps of None \<Rightarrow> Some (None, st) | Some ps \<Rightarrow> f ps st)) rest"
    using assms(3) [of st] by (auto intro: returnsI returns_weaken split: option.split)
qed

lemma map_loop_returns:
  assumes "block_ok k blk"
  shows "length (fst st) \<le> Suc k \<Longrightarrow> length (fst st) < n \<Longrightarrow> returns (map_loop n blk am indent ps st) (fst st)"
proof (induction n arbitrary: ps st)
  case (Suc n)
  show ?case
  proof (cases "fst st")
    case (Cons line rest)
    then show ?thesis
      using pair_then_returns [OF assms, of rest "map_loop n blk am indent" am ps line "snd st"] Suc
      by (auto intro: returnsI returns_weaken)
  qed (simp add: returns_def)
qed simp

lemma child_loop_returns:
  assumes "block_ok k blk"
  shows "length (fst st) \<le> Suc k \<Longrightarrow> length (fst st) < n \<Longrightarrow> returns (child_loop n blk am indent ps st) (fst st)"
proof (induction n arbitrary: ps st)
  case (Suc n)
  show ?case
  proof (cases "fst st")
    case (Cons child rest)
    then show ?thesis
      using pair_then_returns [OF assms, of rest "child_loop n blk am indent" am ps child "snd st"] Suc
      by (auto intro: returnsI returns_weaken)
  qed (simp add: returns_def)
qed simp

lemma parse_map_returns:
  assumes "block_ok k blk" "length (fst st) \<le> Suc k"
  shows "returns (parse_map blk am indent line st) (fst st)"
proof (cases "am Y_NODE_SIZE")
  case True
  have "returns (map_loop (length (fst st) + 1) blk am indent ([], 0) st) (fst st)"
    by (rule map_loop_returns [OF assms]) simp
  then obtain ps st' where "map_loop (length (fst st) + 1) blk am indent ([], 0) st = Some (ps, st')" "length (fst st') \<le> length (fst st)"
    unfolding returns_def by blast
  then show ?thesis using True
    by (cases ps) (auto simp: parse_map_def node_new_def intro!: returnsI simp del: map_loop.simps)
qed (simp add: parse_map_def node_new_def returns_def)

lemma parse_seq_map_item_returns:
  assumes "block_ok k blk" "length (fst st) \<le> k"
  shows "returns (parse_seq_map_item blk am line rest rest_at colon indent st) (fst st)"
proof (cases "am Y_NODE_SIZE")
  case True
  let ?got = "if trim_slice (drop (colon + 1) rest) \<noteq> []
      then do { (v, e) \<leftarrow> parse_inline_value am (snd st) (trim_slice (drop (colon + 1) rest))
                   (yl_offset line + (rest_at + colon + 1 + length (takeWhile blank (drop (colon + 1) rest)))); Some (v, fst st, e) }
      else block_below blk indent (yl_offset line + rest_at + colon) st"
  have "returns ?got (fst st)" using inline_returns block_below_returns [OF assms] by auto
  then obtain v st' where v: "?got = Some (v, st')" "length (fst st') \<le> length (fst st)" unfolding returns_def by blast
  obtain r st2 where p: "put_value am ([], 0) (trim_slice (take colon rest)) v st' = (r, st2)" "length (fst st2) \<le> length (fst st)"
    using put_value_returns [OF v(2), of am "([], 0)" "trim_slice (take colon rest)" v] unfolding returns_def by force
  have "returns (child_loop (length (fst st2) + 1) blk am indent ps st2) (fst st2)" for ps
    by (rule child_loop_returns [OF assms(1)]) (use p(2) assms(2) in simp_all)
  then have loop: "returns (child_loop (length (fst st2) + 1) blk am indent ps st2) (fst st)" for ps
    using p(2) by (rule returns_weaken)
  have "returns (case put_value am ([], 0) (trim_slice (take colon rest)) v st' of
                    (None, st) \<Rightarrow> Some (None, st)
                  | (Some ps, st) \<Rightarrow>
                      do { (ps, st) \<leftarrow> child_loop (length (fst st) + 1) blk am indent ps st;
                           Some (map_option (\<lambda>ps. Y_MAP (yl_offset line) (fst ps)) ps, st) }) (fst st)"
  proof (cases r)
    case (Some ps)
    show ?thesis unfolding p(1) Some prod.case option.case by (rule returns_bind [OF loop]) (simp add: returnsI)
  qed (use p in \<open>simp add: returnsI\<close>)
  then show ?thesis
    unfolding parse_seq_map_item_def node_new_def if_P [OF True] Let_def prod.case bool.case prod.collapse v(1) Option.bind_lunit .
qed (simp add: parse_seq_map_item_def node_new_def returns_def)

lemma parse_seq_item_returns:
  assumes "block_ok k blk" "length (fst st) \<le> k"
  shows "returns (parse_seq_item blk am indent line st) (fst st)"
  unfolding parse_seq_item_def Let_def
  using block_below_returns [OF assms] parse_seq_map_item_returns [OF assms] inline_returns by (auto split: option.split)

lemma seq_loop_returns:
  assumes "block_ok k blk"
  shows "length (fst st) \<le> Suc k \<Longrightarrow> length (fst st) < n \<Longrightarrow> returns (seq_loop n blk am indent items st) (fst st)"
proof (induction n arbitrary: items st)
  case (Suc n)
  show ?case
  proof (cases "fst st")
    case (Cons line rest)
    have "returns (parse_seq_item blk am indent line (rest, snd st)) rest"
      using parse_seq_item_returns [OF assms, of "(rest, snd st)"] Suc.prems(1) Cons by simp
    then have "returns (do { (item, st) \<leftarrow> parse_seq_item blk am indent line (rest, snd st);
                    case item of
                      None \<Rightarrow> Some (None, st)
                    | Some item \<Rightarrow>
                        (case node_list_push am (snd st) items item of
                           (None, e) \<Rightarrow> Some (None, fst st, e)
                         | (Some items, e) \<Rightarrow> seq_loop n blk am indent items (fst st, e)) }) rest"
    proof (rule returns_bind)
      fix x st' assume st': "length (fst (st' :: y_st)) \<le> length rest"
      have "returns (seq_loop n blk am indent items' (fst st', e)) rest" for items' e
        using Suc.IH [of "(fst st', e)" items'] Suc.prems st' Cons returns_weaken [OF _ st'] by simp
      then show "returns (case (x, st') of (item, st) \<Rightarrow> (case item of None \<Rightarrow> Some (None, st)
          | Some item \<Rightarrow> (case node_list_push am (snd st) items item of (None, e) \<Rightarrow> Some (None, fst st, e)
                         | (Some items, e) \<Rightarrow> seq_loop n blk am indent items (fst st, e)))) rest"
        using st' by (auto intro: returnsI split: option.split prod.split)
    qed
    then show ?thesis using Cons by (auto intro: returnsI returns_weaken)
  qed (simp add: returns_def)
qed simp

lemma parse_yaml_seq_returns:
  assumes "block_ok k blk" "length (fst st) \<le> Suc k"
  shows "returns (parse_yaml_seq blk am indent line st) (fst st)"
proof (cases "am Y_NODE_SIZE")
  case True
  have "returns (seq_loop (length (fst st) + 1) blk am indent ([], 0) st) (fst st)"
    by (rule seq_loop_returns [OF assms]) simp
  then obtain items st' where "seq_loop (length (fst st) + 1) blk am indent ([], 0) st = Some (items, st')" "length (fst st') \<le> length (fst st)"
    unfolding returns_def by blast
  then show ?thesis using True
    by (cases items) (auto simp: parse_yaml_seq_def node_new_def intro!: returnsI simp del: seq_loop.simps)
qed (simp add: parse_yaml_seq_def node_new_def returns_def)

lemma parse_block_ok: "block_ok k (parse_block (Suc k) am len)"
proof (induction k)
  case 0
  show ?case by (auto simp: block_ok_def)
next
  case (Suc k)
  have "returns (parse_block (Suc (Suc k)) am len indent st) (fst st)" if "length (fst st) \<le> Suc k" for indent st
    using parse_map_returns [OF Suc.IH that] parse_yaml_seq_returns [OF Suc.IH that]
    unfolding parse_block.simps(2) [of "Suc k"] by (auto intro!: returnsI split: list.split simp del: parse_block.simps)
  then show ?case unfolding block_ok_def returns_def by blast
qed

lemma yaml_total: "\<exists>result arena'. pb_parse_yaml_patchbay am bl arena src = Some (result, arena')"
proof (cases "collect_lines am 0 src ([], 0)")
  case (Inr r)
  show ?thesis
  proof (cases "fst r")
    case (Cons first rest)
    have "returns (parse_block (length (fst r) + 1) am (length src) (yl_indent first) (fst r, None)) (fst r)"
      using block_okD [OF parse_block_ok, of "(fst r, None)" "length (fst r)"] by simp
    then obtain tree ls e where "parse_block (length (fst r) + 1) am (length src) (yl_indent first) (fst r, None) = Some (tree, ls, e)"
      unfolding returns_def by (metis prod.collapse)
    then show ?thesis using Inr Cons
      by (cases r) (auto simp: pb_parse_yaml_patchbay_def Let_def simp del: parse_block.simps split: option.split prod.split)
  qed (cases r, use Inr in \<open>simp add: pb_parse_yaml_patchbay_def\<close>)
qed (simp add: pb_parse_yaml_patchbay_def)

section \<open>Scalars\<close>

text \<open>A scalar that C reads as a number is one, names of infinity and hexadecimal ones too.\<close>

lemma infinite_scalar: "scalar_of ''inf'' = Y_NUMBER (D_INF False)" "scalar_of ''0x10'' \<noteq> Y_TEXT ''0x10''"
  by code_simp+

text \<open>Quotes are not kept: a quoted name of a bound symbol is that symbol in an expression.\<close>

lemma quoted_symbol: "scalar_of (DQUOTE # ''payload'' @ [DQUOTE]) = Y_TEXT ''payload'' \<and> scalar_is_bound ''payload''"
  by code_simp

end
