(* ===== verification/Front_Correct.thy ===== *)
theory Front_Correct
  imports Json_Front Sexpr_Correct Yaml_Correct
begin

text \<open>The three front ends together.\<close>

lemma patchbay_source_total: "\<exists>result arena'. pb_parse_patchbay_source env arena path src = Some (result, arena')"
  using yaml_total [of "js_heap env" "js_blocks env" arena src] pb_parse_all_total [of "js_heap env" "js_blocks env" arena src]
  by (cases "parse_json_patchbay env arena src") (simp add: pb_parse_patchbay_source_def)

text \<open>
  \<^bold>\<open>C38\<close> Loading a program returns on every text and whatever memory it gets, in each of the three
  notations: no nesting of forms, flow values or blocks is too deep for the parsers.
\<close>

theorem program_load_returns: "\<exists>ok p. pb_program_load_source env jenv label src = Some (ok, p)"
  using patchbay_source_total [of jenv "[]" label src] by (auto simp: pb_program_load_source_def)

end
