(* ===== verification/Importer_Correct.thy ===== *)
theory Importer_Correct
  imports Importer "HOL-Library.Sublist"
begin

text \<open>
  The worker and the event loop together: whatever the interleaving of their sections, the messages
  reach the handler in the order they were accepted, none is lost and none is handled twice, no
  copy leaves its buffer, and no wake-up is lost.
\<close>

section \<open>The two threads\<close>

datatype worker_pc = W_CHECK | W_POLL | W_DONE

text \<open>Where the event loop is: outside a drain, or before a section of it.\<close>

datatype loop_pc = L_IDLE | L_PEEK | L_RESERVE nat | L_COPY nat | L_FAIL | L_HANDLE "nat \<times> nat" | L_JOIN | L_CLOSED

text \<open>With the importer, what was accepted into the ring, and what left it: handed to the handler, or given up for want of memory.\<close>

record import_sys =
  sy_imp :: mb_importer
  sy_worker :: worker_pc
  sy_loop :: loop_pc
  sy_accepted :: "(bytes \<times> bytes) list"
  sy_removed :: "((bytes \<times> bytes) \<times> bool) list"

text \<open>The messages of the ring, oldest first.\<close>

definition slot_message :: "mb_import_slot \<Rightarrow> bytes \<times> bytes" where
  "slot_message slot = (take (sl_subject_len slot) (sl_bytes slot), drop (sl_subject_len slot) (sl_bytes slot))"

definition ring_slot :: "mb_importer \<Rightarrow> nat \<Rightarrow> mb_import_slot" where
  "ring_slot p i = ip_ring p ! ((ip_head p + i) mod length (ip_ring p))"

definition ring_messages :: "mb_importer \<Rightarrow> (bytes \<times> bytes) list" where
  "ring_messages p = map (\<lambda>i. slot_message (ring_slot p i)) [0..<ip_len p]"

text \<open>What a poll adds to the ring.\<close>

definition newly_accepted :: "mb_importer \<Rightarrow> mb_importer \<Rightarrow> (bytes \<times> bytes) list" where
  "newly_accepted p p' = drop (ip_len p) (ring_messages p')"

inductive import_step :: "allocator \<Rightarrow> import_sys \<Rightarrow> import_sys \<Rightarrow> bool" for am where
  worker_check:
    "sy_worker s = W_CHECK \<Longrightarrow>
     import_step am s (s\<lparr>sy_worker := if ip_closing (sy_imp s) then W_DONE else W_POLL\<rparr>)"
| worker_poll:
    "sy_worker s = W_POLL \<Longrightarrow> p' = import_poll am (sy_imp s) status msg \<Longrightarrow>
     import_step am s (s\<lparr>sy_imp := p', sy_worker := W_CHECK, sy_accepted := sy_accepted s @ newly_accepted (sy_imp s) p'\<rparr>)"
| loop_async:
    "sy_loop s = L_IDLE \<Longrightarrow> ip_async_pending (sy_imp s) \<Longrightarrow>
     import_step am s (s\<lparr>sy_imp := (sy_imp s)\<lparr>ip_async_pending := False\<rparr>, sy_loop := L_PEEK\<rparr>)"
| loop_empty:
    "sy_loop s = L_PEEK \<Longrightarrow> drain_peek (sy_imp s) = (None, p') \<Longrightarrow>
     import_step am s (s\<lparr>sy_imp := p', sy_loop := L_IDLE\<rparr>)"
| loop_peek:
    "sy_loop s = L_PEEK \<Longrightarrow> drain_peek (sy_imp s) = (Some n, p') \<Longrightarrow>
     import_step am s (s\<lparr>sy_imp := p', sy_loop := L_RESERVE n\<rparr>)"
| loop_reserve:
    "sy_loop s = L_RESERVE n \<Longrightarrow> drain_reserve am (sy_imp s) n = (ok, p') \<Longrightarrow>
     import_step am s (s\<lparr>sy_imp := p', sy_loop := if ok then L_COPY n else L_FAIL\<rparr>)"
| loop_fail:
    "sy_loop s = L_FAIL \<Longrightarrow>
     import_step am s (s\<lparr>sy_imp := drain_fail (sy_imp s), sy_loop := L_PEEK,
       sy_removed := sy_removed s @ (case ring_messages (sy_imp s) of [] \<Rightarrow> [] | m # _ \<Rightarrow> [(m, False)])\<rparr>)"
| loop_copy_empty:
    "sy_loop s = L_COPY n \<Longrightarrow> drain_copy (sy_imp s) = Some (None, p') \<Longrightarrow>
     import_step am s (s\<lparr>sy_imp := p', sy_loop := L_PEEK\<rparr>)"
| loop_copy:
    "sy_loop s = L_COPY n \<Longrightarrow> drain_copy (sy_imp s) = Some (Some lens, p') \<Longrightarrow>
     import_step am s (s\<lparr>sy_imp := p', sy_loop := L_HANDLE lens, sy_removed := sy_removed s @ [(drain_message p' lens, True)]\<rparr>)"
| loop_handle:
    "sy_loop s = L_HANDLE lens \<Longrightarrow>
     import_step am s (s\<lparr>sy_imp := drain_count (sy_imp s) ok, sy_loop := L_PEEK\<rparr>)"
| loop_close:
    "sy_loop s = L_IDLE \<Longrightarrow> import_step am s (s\<lparr>sy_imp := close_mark (sy_imp s), sy_loop := L_JOIN\<rparr>)"
| loop_join:
    "sy_loop s = L_JOIN \<Longrightarrow> sy_worker s = W_DONE \<Longrightarrow>
     import_step am s (s\<lparr>sy_imp := fst (close_release (sy_imp s) u), sy_loop := L_CLOSED\<rparr>)"

definition import_init :: "mb_importer \<Rightarrow> import_sys" where
  "import_init p = \<lparr>sy_imp = p, sy_worker = W_CHECK, sy_loop = L_IDLE, sy_accepted = [], sy_removed = []\<rparr>"

section \<open>The ring\<close>

definition slot_ok :: "mb_import_slot \<Rightarrow> bool" where
  "slot_ok slot \<longleftrightarrow> sl_subject_len slot + sl_payload_len slot = length (sl_bytes slot) \<and> length (sl_bytes slot) \<le> sl_cap slot"

definition import_ring_ok :: "mb_importer \<Rightarrow> bool" where
  "import_ring_ok p \<longleftrightarrow>
     ip_len p \<le> length (ip_ring p) \<and> (ip_ring p \<noteq> [] \<longrightarrow> ip_head p < length (ip_ring p)) \<and>
     (\<forall>i < ip_len p. slot_ok (ring_slot p i))"

text \<open>The sections that do not touch the ring.\<close>

definition same_ring :: "mb_importer \<Rightarrow> mb_importer \<Rightarrow> bool" where
  "same_ring p q \<longleftrightarrow> ip_ring q = ip_ring p \<and> ip_head q = ip_head p \<and> ip_len q = ip_len p"

lemma same_ring_messages: "same_ring p q \<Longrightarrow> ring_messages q = ring_messages p"
  by (simp add: same_ring_def ring_messages_def ring_slot_def)

lemma same_ring_ok: "same_ring p q \<Longrightarrow> import_ring_ok q = import_ring_ok p"
  by (simp add: same_ring_def import_ring_ok_def ring_slot_def)

lemma same_ring_simps [simp]:
  "same_ring p p" "same_ring p (import_flush_pending_counters p)" "same_ring p (drain_count p ok)" "same_ring p (import_wake p)"
  "same_ring p (import_record_drop p)" "same_ring p (close_mark p)" "same_ring p (p\<lparr>ip_async_pending := b\<rparr>)"
  by (simp_all add: same_ring_def import_flush_pending_counters_def drain_count_def import_wake_def import_record_drop_def
      import_wake_open_def close_mark_def)

lemma ring_messages_append:
  assumes "import_ring_ok p" "ip_len p < length (ip_ring p)" "slot_ok slot"
  defines "q \<equiv> p\<lparr>ip_ring := (ip_ring p)[(ip_head p + ip_len p) mod length (ip_ring p) := slot], ip_len := ip_len p + 1\<rparr>"
  shows "import_ring_ok q" "ring_messages q = ring_messages p @ [slot_message slot]"
    "0 < ip_len p \<Longrightarrow> ring_slot q 0 = ring_slot p 0"
proof -
  let ?n = "length (ip_ring p)"
  have old: "ring_slot q i = ring_slot p i" if "i < ip_len p" for i
  proof -
    have "(ip_head p + ip_len p) mod ?n \<noteq> (ip_head p + i) mod ?n"
      using that assms(2) ring_cells_distinct [of "ip_len p" ?n i "ip_head p"] by auto
    then show ?thesis by (simp add: q_def ring_slot_def)
  qed
  have "(ip_head p + ip_len p) mod ?n < ?n" using assms(2) by (intro mod_less_divisor) linarith
  then have new: "ring_slot q (ip_len p) = slot" by (simp add: q_def ring_slot_def)
  show "import_ring_ok q" using assms(1-3) old new by (auto simp: import_ring_ok_def q_def less_Suc_eq)
  show "ring_messages q = ring_messages p @ [slot_message slot]" using old new by (simp add: ring_messages_def q_def)
  show "0 < ip_len p \<Longrightarrow> ring_slot q 0 = ring_slot p 0" by (rule old)
qed

lemma ring_pop:
  assumes "import_ring_ok p" "0 < ip_len p"
  shows "import_ring_ok (drain_pop p)" "ring_messages p = slot_message (ip_ring p ! ip_head p) # ring_messages (drain_pop p)"
    "ring_slot p 0 = ip_ring p ! ip_head p"
proof -
  let ?n = "length (ip_ring p)"
  have n: "0 < ?n" "ip_head p < ?n" using assms by (auto simp: import_ring_ok_def)
  have next_slot: "ring_slot (drain_pop p) i = ring_slot p (Suc i)" for i
    using n by (simp add: ring_slot_def drain_pop_def mod_add_left_eq)
  show slot0: "ring_slot p 0 = ip_ring p ! ip_head p" using n by (simp add: ring_slot_def)
  show "import_ring_ok (drain_pop p)"
    using assms n next_slot unfolding import_ring_ok_def by (auto simp: drain_pop_def)
  have "[0..<ip_len p] = 0 # map Suc [0..<ip_len p - 1]" using assms(2) by (simp add: map_Suc_upt upt_conv_Cons)
  then show "ring_messages p = slot_message (ip_ring p ! ip_head p) # ring_messages (drain_pop p)"
    using next_slot slot0 by (simp add: ring_messages_def drain_pop_def comp_def)
qed

section \<open>The worker\<close>

definition importable :: "bytes \<Rightarrow> bool" where
  "importable subject \<longleftrightarrow>
     mb_proto_subject_valid subject False \<and> \<not> mb_router_subject_has_lvc_prefix subject \<and> \<not> mb_router_subject_has_stats_prefix subject"

text \<open>What a step of the worker may do to an importer, adding \<open>ms\<close> to the ring.\<close>

definition worker_adds :: "mb_importer \<Rightarrow> (bytes \<times> bytes) list \<Rightarrow> mb_importer \<Rightarrow> bool" where
  "worker_adds p ms q \<longleftrightarrow>
     import_ring_ok q \<and> ring_messages q = ring_messages p @ ms \<and> (0 < ip_len p \<longrightarrow> ring_slot q 0 = ring_slot p 0) \<and>
     ip_drain_scratch q = ip_drain_scratch p \<and> ip_closing q = ip_closing p \<and> ip_async_started q = ip_async_started p \<and>
     (ip_async_pending p \<or> ms \<noteq> [] \<and> ip_async_started p \<longrightarrow> ip_async_pending q) \<and>
     list_all (\<lambda>m. importable (fst m)) ms"

lemma worker_adds_nothing:
  assumes "import_ring_ok p" "same_ring p q" "ip_drain_scratch q = ip_drain_scratch p" "ip_closing q = ip_closing p"
    "ip_async_started q = ip_async_started p" "ip_async_pending p \<Longrightarrow> ip_async_pending q"
  shows "worker_adds p [] q"
  using assms same_ring_ok [OF assms(2)] same_ring_messages [OF assms(2)]
  by (simp add: worker_adds_def same_ring_def ring_slot_def)

lemma worker_adds_drop: "import_ring_ok p \<Longrightarrow> worker_adds p [] (import_record_drop p)"
  by (rule worker_adds_nothing) (simp_all add: import_record_drop_def import_wake_open_def import_wake_def same_ring_def)

lemma worker_adds_cong:
  assumes "worker_adds p ms q" "same_ring p0 p" "ip_drain_scratch p0 = ip_drain_scratch p" "ip_closing p0 = ip_closing p"
    "ip_async_started p0 = ip_async_started p" "ip_async_pending p0 = ip_async_pending p"
  shows "worker_adds p0 ms q"
  using assms same_ring_messages [OF assms(2)] by (simp add: worker_adds_def same_ring_def ring_slot_def)

lemma import_enqueue_adds:
  assumes "import_ring_ok p" "importable subject"
  shows "\<exists>ms. worker_adds p ms (import_enqueue am p subject payload)"
proof -
  let ?p = "p\<lparr>ip_pending_received := ip_pending_received p + 1\<rparr>"
  let ?drop = "import_wake_open (?p\<lparr>ip_pending_dropped := ip_pending_dropped p + 1\<rparr>)"
  let ?idx = "(ip_head p + ip_len p) mod length (ip_ring p)"
  have drop: "worker_adds p [] ?drop"
    by (rule worker_adds_nothing [OF assms(1)]) (simp_all add: import_wake_open_def import_wake_def same_ring_def)
  show ?thesis
  proof (cases "ip_closing p \<or> length (ip_ring p) \<le> ip_len p \<or> \<not> fst (slot_reserve am (ip_ring p ! ?idx) (length subject + length payload))")
    case True
    then have "import_enqueue am p subject payload = ?drop"
      by (auto simp: import_enqueue_def Let_def split: prod.split bool.split)
    then show ?thesis using drop by auto
  next
    case False
    then obtain slot where slot: "slot_reserve am (ip_ring p ! ?idx) (length subject + length payload) = (True, slot)"
      by (cases "slot_reserve am (ip_ring p ! ?idx) (length subject + length payload)") simp
    let ?slot = "slot\<lparr>sl_bytes := subject @ payload, sl_subject_len := length subject, sl_payload_len := length payload\<rparr>"
    let ?q = "?p\<lparr>ip_ring := (ip_ring ?p)[(ip_head ?p + ip_len ?p) mod length (ip_ring ?p) := ?slot], ip_len := ip_len ?p + 1\<rparr>"
    have "slot_ok ?slot" using slot by (auto simp: slot_ok_def slot_reserve_def split: if_splits)
    moreover have ok: "import_ring_ok ?p" using assms(1) same_ring_ok [of p ?p] by (simp add: same_ring_def)
    ultimately have q: "import_ring_ok ?q" "ring_messages ?q = ring_messages ?p @ [slot_message ?slot]"
      "0 < ip_len ?p \<Longrightarrow> ring_slot ?q 0 = ring_slot ?p 0"
      using ring_messages_append [of ?p ?slot] False by simp_all
    have enq: "import_enqueue am p subject payload = import_wake ?q"
      using False slot by (simp add: import_enqueue_def Let_def)
    have wake: "same_ring ?q (import_wake ?q)" by simp
    have "worker_adds p [(subject, payload)] (import_wake ?q)"
      using q same_ring_ok [OF wake] same_ring_messages [OF wake] same_ring_messages [of p ?p] assms(2)
      by (simp add: worker_adds_def slot_message_def) (simp add: same_ring_def import_wake_def ring_slot_def)
    then show ?thesis using enq by auto
  qed
qed

lemma import_queue_msg_adds:
  assumes "import_ring_ok p"
  shows "\<exists>ms. worker_adds p ms (import_queue_msg am p subject payload n)"
  using worker_adds_drop [OF assms] import_enqueue_adds [OF assms]
  by (auto simp: import_queue_msg_def importable_def split: option.split)

lemma import_poll_adds:
  assumes "import_ring_ok p"
  shows "\<exists>ms. worker_adds p ms (import_poll am p status msg)"
proof -
  have status: "worker_adds p ms q" if "worker_adds (p\<lparr>ip_last_status := st\<rparr>) ms q" for st ms q
    by (rule worker_adds_cong [OF that]) (simp_all add: same_ring_def)
  have ok: "import_ring_ok (p\<lparr>ip_last_status := st\<rparr>)" for st using assms same_ring_ok [of p "p\<lparr>ip_last_status := st\<rparr>"] by (simp add: same_ring_def)
  have handle: "\<exists>ms. worker_adds p ms (import_handle_nats_msg am p (Some m))" for m
  proof -
    obtain b q where q: "import_has_origin_header p m = (b, q)" by (cases "import_has_origin_header p m")
    then have "q = p \<or> (\<exists>st. q = p\<lparr>ip_last_status := st\<rparr>)"
      by (auto simp: import_has_origin_header_def split: option.split_asm if_split_asm prod.split_asm nats_status.split_asm)
    moreover have "\<exists>ms. worker_adds q ms (import_handle_nats_msg am p (Some m))" if "import_ring_ok q"
      using q worker_adds_drop [OF that] import_queue_msg_adds [OF that] by (cases b) (auto simp: import_handle_nats_msg_def)
    ultimately show ?thesis using assms ok status by metis
  qed
  have "worker_adds p [] p" using assms by (simp add: worker_adds_nothing)
  moreover have "worker_adds p [] (p\<lparr>ip_last_status := st\<rparr>)" for st
    by (rule worker_adds_nothing [OF assms]) (simp_all add: same_ring_def)
  ultimately show ?thesis using handle by (cases msg) (auto simp: import_poll_def import_handle_nats_msg_def)
qed

lemma worker_adds_len: "worker_adds p ms q \<Longrightarrow> ip_len q = ip_len p + length ms"
proof -
  have "length (ring_messages p) = ip_len p" for p by (simp add: ring_messages_def)
  then show "worker_adds p ms q \<Longrightarrow> ip_len q = ip_len p + length ms" unfolding worker_adds_def by (metis length_append)
qed

section \<open>The invariant\<close>

definition head_bytes :: "mb_importer \<Rightarrow> nat" where
  "head_bytes p = sl_subject_len (ring_slot p 0) + sl_payload_len (ring_slot p 0)"

text \<open>What holds at each place of the event loop: the size found by the first section is still that of the oldest message.\<close>

fun loop_ok :: "loop_pc \<Rightarrow> mb_importer \<Rightarrow> bool" where
  "loop_ok L_IDLE p \<longleftrightarrow> (0 < ip_len p \<longrightarrow> ip_async_pending p)"
| "loop_ok (L_RESERVE n) p \<longleftrightarrow> 0 < ip_len p \<and> head_bytes p = n"
| "loop_ok (L_COPY n) p \<longleftrightarrow> 0 < ip_len p \<and> head_bytes p = n \<and> n \<le> buf_cap (ip_drain_scratch p)"
| "loop_ok L_FAIL p \<longleftrightarrow> 0 < ip_len p"
| "loop_ok _ p \<longleftrightarrow> True"

definition import_inv :: "import_sys \<Rightarrow> bool" where
  "import_inv s \<longleftrightarrow>
     list_all (\<lambda>m. importable (fst m)) (sy_accepted s) \<and>
     (if sy_loop s = L_CLOSED then sy_worker s = W_DONE
      else import_ring_ok (sy_imp s) \<and> ip_async_started (sy_imp s) \<and> loop_ok (sy_loop s) (sy_imp s) \<and>
           sy_accepted s = map fst (sy_removed s) @ ring_messages (sy_imp s))"

lemma worker_keeps_loop_ok:
  assumes "worker_adds p ms q" "loop_ok pc p" "ip_async_started p"
  shows "loop_ok pc q"
  using assms worker_adds_len [OF assms(1)] by (cases pc) (auto simp: worker_adds_def head_bytes_def)

lemma inv_poll:
  assumes "import_inv s" "sy_worker s = W_POLL" "p' = import_poll am (sy_imp s) status msg"
  shows "import_inv (s\<lparr>sy_imp := p', sy_worker := W_CHECK, sy_accepted := sy_accepted s @ newly_accepted (sy_imp s) p'\<rparr>)"
proof -
  have not_closed: "sy_loop s \<noteq> L_CLOSED" using assms(1,2) by (auto simp: import_inv_def)
  then have inv: "import_ring_ok (sy_imp s)" "ip_async_started (sy_imp s)" "loop_ok (sy_loop s) (sy_imp s)"
      "sy_accepted s = map fst (sy_removed s) @ ring_messages (sy_imp s)" using assms(1) by (simp_all add: import_inv_def)
  obtain ms where ms: "worker_adds (sy_imp s) ms p'" using import_poll_adds [OF inv(1)] assms(3) by blast
  have "ring_messages p' = ring_messages (sy_imp s) @ ms" using ms by (simp add: worker_adds_def)
  moreover have "length (ring_messages (sy_imp s)) = ip_len (sy_imp s)" by (simp add: ring_messages_def)
  ultimately have "newly_accepted (sy_imp s) p' = ms" by (simp add: newly_accepted_def)
  then show ?thesis using assms(1) not_closed inv ms worker_keeps_loop_ok [OF ms inv(3,2)] by (simp add: import_inv_def worker_adds_def)
qed

lemma loop_ok_flush [simp]: "loop_ok pc (import_flush_pending_counters p) = loop_ok pc p"
  by (cases pc) (simp_all add: import_flush_pending_counters_def head_bytes_def ring_slot_def)

lemma flush_fields [simp]:
  "ip_len (import_flush_pending_counters p) = ip_len p" "ip_ring (import_flush_pending_counters p) = ip_ring p"
  "ip_head (import_flush_pending_counters p) = ip_head p" "ip_drain_scratch (import_flush_pending_counters p) = ip_drain_scratch p"
  "ip_async_started (import_flush_pending_counters p) = ip_async_started p"
  "ring_messages (import_flush_pending_counters p) = ring_messages p"
  "import_ring_ok (import_flush_pending_counters p) = import_ring_ok p"
  by (simp_all add: same_ring_messages same_ring_ok) (simp_all add: import_flush_pending_counters_def)

lemma same_ring_inv:
  assumes "import_inv s" "sy_loop s \<noteq> L_CLOSED" "same_ring (sy_imp s) q" "ip_async_started q = ip_async_started (sy_imp s)"
    "pc \<noteq> L_CLOSED" "loop_ok pc q"
  shows "import_inv (s\<lparr>sy_imp := q, sy_loop := pc\<rparr>)"
  using assms same_ring_ok [OF assms(3)] same_ring_messages [OF assms(3)] by (auto simp: import_inv_def)

lemma inv_fail:
  assumes "import_inv s" "sy_loop s = L_FAIL"
  shows "import_inv (s\<lparr>sy_imp := drain_fail (sy_imp s), sy_loop := L_PEEK,
       sy_removed := sy_removed s @ (case ring_messages (sy_imp s) of [] \<Rightarrow> [] | m # _ \<Rightarrow> [(m, False)])\<rparr>)"
proof -
  let ?p = "import_flush_pending_counters (sy_imp s)"
  let ?q = "(drain_pop ?p)\<lparr>ip_failed := ip_failed ?p + 1\<rparr>"
  have inv: "import_ring_ok ?p" "0 < ip_len ?p" using assms by (simp_all add: import_inv_def)
  have q: "same_ring (drain_pop ?p) ?q" by (simp add: same_ring_def)
  have "drain_fail (sy_imp s) = ?q" using inv(2) by (simp add: drain_fail_def Let_def)
  moreover have "ip_async_started ?q" using assms by (simp add: import_inv_def drain_pop_def)
  moreover have "import_ring_ok ?q" "ring_messages (sy_imp s) = slot_message (ip_ring ?p ! ip_head ?p) # ring_messages ?q"
    using ring_pop(1,2) [OF inv] same_ring_ok [OF q] same_ring_messages [OF q] by simp_all
  ultimately show ?thesis using assms by (auto simp: import_inv_def)
qed

lemma copy_fits:
  assumes "import_ring_ok p" "0 < ip_len p" "head_bytes p \<le> buf_cap (ip_drain_scratch p)"
  shows "\<exists>lens p'. drain_copy p = Some (Some lens, p') \<and> import_ring_ok p' \<and> ip_async_started p' = ip_async_started p \<and>
           ring_messages p = drain_message p' lens # ring_messages p'"
proof -
  let ?p = "import_flush_pending_counters p"
  let ?slot = "ip_ring ?p ! ip_head ?p"
  let ?q = "?p\<lparr>ip_drain_scratch := (ip_drain_scratch ?p)\<lparr>buf_data := sl_bytes ?slot\<rparr>\<rparr>"
  have inv: "import_ring_ok ?p" "0 < ip_len ?p" using assms(1,2) by simp_all
  have slot: "ring_slot ?p 0 = ?slot" using ring_pop(3) [OF inv] .
  then have ok: "sl_subject_len ?slot + sl_payload_len ?slot = length (sl_bytes ?slot)"
    using inv unfolding import_ring_ok_def slot_ok_def by metis
  have same: "same_ring (drain_pop ?p) (drain_pop ?q)" by (simp add: same_ring_def drain_pop_def)
  have "ring_slot p 0 = ?slot" using slot by (simp add: ring_slot_def)
  then have fits: "sl_subject_len ?slot + sl_payload_len ?slot \<le> buf_cap (ip_drain_scratch ?p)" using assms(3) by (simp add: head_bytes_def)
  have "drain_copy p = Some (Some (sl_subject_len ?slot, sl_payload_len ?slot), drain_pop ?q)"
    using inv(2) ok fits by (simp add: drain_copy_def Let_def)
  moreover have "drain_message (drain_pop ?q) (sl_subject_len ?slot, sl_payload_len ?slot) = slot_message ?slot"
    using ok by (simp add: drain_message_def drain_pop_def slot_message_def)
  moreover have "ip_async_started (drain_pop ?q) = ip_async_started p" by (simp add: drain_pop_def)
  ultimately show ?thesis
    using ring_pop [OF inv] same_ring_ok [OF same] same_ring_messages [OF same] by force
qed

lemma inv_copy_fits:
  assumes "import_inv s" "sy_loop s = L_COPY n"
  shows "\<exists>lens p'. drain_copy (sy_imp s) = Some (Some lens, p') \<and> import_ring_ok p' \<and> ip_async_started p' \<and>
           ring_messages (sy_imp s) = drain_message p' lens # ring_messages p'"
  using copy_fits [of "sy_imp s"] assms by (auto simp: import_inv_def)

lemma inv_copy:
  assumes "import_inv s" "sy_loop s = L_COPY n" "drain_copy (sy_imp s) = Some (Some lens, p')"
  shows "import_inv (s\<lparr>sy_imp := p', sy_loop := L_HANDLE lens, sy_removed := sy_removed s @ [(drain_message p' lens, True)]\<rparr>)"
  using assms inv_copy_fits [OF assms(1,2)] by (auto simp: import_inv_def)

lemma inv_peek:
  assumes "import_inv s" "sy_loop s = L_PEEK" "drain_peek (sy_imp s) = (r, p')"
  shows "import_inv (s\<lparr>sy_imp := p', sy_loop := (case r of None \<Rightarrow> L_IDLE | Some n \<Rightarrow> L_RESERVE n)\<rparr>)"
proof -
  have ok: "import_ring_ok (sy_imp s)" using assms(1,2) by (simp add: import_inv_def)
  have p': "p' = import_flush_pending_counters (sy_imp s)" using assms(3) by (auto simp: drain_peek_def Let_def split: if_splits)
  show ?thesis
  proof (rule same_ring_inv [OF assms(1)])
    show "loop_ok (case r of None \<Rightarrow> L_IDLE | Some n \<Rightarrow> L_RESERVE n) p'"
    proof (cases "ip_len (sy_imp s) = 0")
      case False
      then show ?thesis using assms(3) p' ring_pop(3) [OF ok] by (auto simp: drain_peek_def Let_def head_bytes_def)
    qed (use assms(3) p' in \<open>auto simp: drain_peek_def Let_def\<close>)
  qed (use assms p' in \<open>simp_all split: option.split\<close>)
qed

lemma inv_reserve:
  assumes "import_inv s" "sy_loop s = L_RESERVE n" "drain_reserve am (sy_imp s) n = (ok, p')"
  shows "import_inv (s\<lparr>sy_imp := p', sy_loop := if ok then L_COPY n else L_FAIL\<rparr>)"
proof -
  obtain b where b: "mb_buf_reserve am (mb_buf_clear (ip_drain_scratch (sy_imp s))) n = (ok, b)" "p' = (sy_imp s)\<lparr>ip_drain_scratch := b\<rparr>"
    using assms(3) by (auto simp: drain_reserve_def split: prod.splits)
  have cap: "n \<le> buf_cap b" if ok
    using that b(1) mb_buf_reserve_cap [of am "mb_buf_clear (ip_drain_scratch (sy_imp s))" n] by simp
  have head: "0 < ip_len (sy_imp s) \<and> head_bytes (sy_imp s) = n" using assms(1,2) by (simp add: import_inv_def)
  show ?thesis
    by (rule same_ring_inv [OF assms(1)])
      (use assms(2) b head cap in \<open>auto simp: same_ring_def head_bytes_def ring_slot_def\<close>)
qed

theorem import_step_inv: "import_step am s s' \<Longrightarrow> import_inv s \<Longrightarrow> import_inv s'"
proof (induction rule: import_step.induct)
  case (worker_check s)
  then show ?case by (auto simp: import_inv_def)
next
  case (worker_poll s p' status msg)
  then show ?case using inv_poll by blast
next
  case (loop_async s)
  then show ?case by (intro same_ring_inv) simp_all
next
  case (loop_empty s p')
  then show ?case using inv_peek [of s None p'] by simp
next
  case (loop_peek s n p')
  then show ?case using inv_peek [of s "Some n" p'] by simp
next
  case (loop_reserve s n ok p')
  then show ?case using inv_reserve by blast
next
  case (loop_fail s)
  then show ?case using inv_fail by blast
next
  case (loop_copy_empty s n p')
  then show ?case using inv_copy_fits [of s n] by auto
next
  case (loop_copy s n lens p')
  then show ?case using inv_copy by blast
next
  case (loop_handle s lens ok)
  moreover have "ip_async_started (drain_count (sy_imp s) ok) = ip_async_started (sy_imp s)" by (simp add: drain_count_def)
  ultimately show ?case by (intro same_ring_inv) simp_all
next
  case (loop_close s)
  moreover have "ip_async_started (close_mark (sy_imp s)) = ip_async_started (sy_imp s)" by (simp add: close_mark_def)
  ultimately show ?case by (intro same_ring_inv) simp_all
next
  case (loop_join s u)
  then show ?case by (auto simp: import_inv_def)
qed

interpretation importing: state_machine "import_step am" import_inv for am
  by unfold_locales (rule import_step_inv)

section \<open>A drain that is not interrupted\<close>

lemma drain_peek_some:
  assumes "import_ring_ok p" "0 < ip_len p"
  shows "drain_peek p = (Some (head_bytes p), import_flush_pending_counters p)"
  using assms ring_pop(3) [OF assms] by (simp add: drain_peek_def Let_def head_bytes_def)

lemma drain_reserve_same:
  assumes "drain_reserve am p n = (ok, p')"
  shows "same_ring p p'" "ok \<Longrightarrow> n \<le> buf_cap (ip_drain_scratch p')" "ip_lock_started p' = ip_lock_started p"
  using assms mb_buf_reserve_cap [of am "mb_buf_clear (ip_drain_scratch p)" n]
  by (auto simp: drain_reserve_def same_ring_def split: prod.splits)

lemma same_ring_head: "same_ring p q \<Longrightarrow> head_bytes q = head_bytes p \<and> ip_len q = ip_len p"
  by (simp add: same_ring_def head_bytes_def ring_slot_def)

lemma ring_messages_length: "length (ring_messages p) = ip_len p"
  by (simp add: ring_messages_def)

lemma drain_fail_pops:
  assumes "import_ring_ok p" "0 < ip_len p"
  shows "import_ring_ok (drain_fail p)" "ip_len (drain_fail p) = ip_len p - 1" "ring_messages (drain_fail p) = tl (ring_messages p)"
proof -
  let ?p = "import_flush_pending_counters p"
  let ?q = "(drain_pop ?p)\<lparr>ip_failed := ip_failed ?p + 1\<rparr>"
  have q: "same_ring (drain_pop ?p) ?q" by (simp add: same_ring_def)
  have eq: "drain_fail p = ?q" using assms(2) by (simp add: drain_fail_def Let_def)
  have inv: "import_ring_ok ?p" "0 < ip_len ?p" using assms by simp_all
  show "import_ring_ok (drain_fail p)" using ring_pop(1) [OF inv] same_ring_ok [OF q] eq by simp
  show "ip_len (drain_fail p) = ip_len p - 1" unfolding eq by (simp add: drain_pop_def)
  show "ring_messages (drain_fail p) = tl (ring_messages p)"
    using ring_pop(2) [OF inv] same_ring_messages [OF q] eq by simp
qed

text \<open>
  The handler sees a subsequence of the messages, oldest first (the others found no memory), and an
  invariant of its state that every call keeps holds in the end.
\<close>

lemma drain_loop_spec:
  assumes keeps: "\<And>subject payload w. I w \<Longrightarrow> I (snd (handler subject payload w))"
  shows "import_ring_ok p \<Longrightarrow> ip_len p < n \<Longrightarrow> I w \<Longrightarrow>
    \<exists>p' w' ms. drain_loop n am handler p w = Some (p', w') \<and> I w' \<and> ring_messages p' = [] \<and>
      subseq ms (ring_messages p) \<and> w' = fold (\<lambda>m w. snd (handler (fst m) (snd m) w)) ms w"
proof (induction n arbitrary: p w)
  case (Suc n)
  let ?p = "import_flush_pending_counters p"
  show ?case
  proof (cases "ip_len p = 0")
    case True
    then have "drain_loop (Suc n) am handler p w = Some (?p, w)" by (simp add: drain_peek_def)
    then show ?thesis using Suc.prems True by (intro exI [of _ ?p] exI [of _ w] exI [of _ "[]"]) (simp add: ring_messages_def)
  next
    case False
    then have pos: "0 < ip_len p" by simp
    obtain ok p1 where r: "drain_reserve am ?p (head_bytes p) = (ok, p1)" by (cases "drain_reserve am ?p (head_bytes p)")
    note same = drain_reserve_same(1) [OF r]
    have p1: "import_ring_ok p1" "0 < ip_len p1" "head_bytes p1 = head_bytes p" "ring_messages p1 = ring_messages p" "ip_len p1 = ip_len p"
      using same_ring_ok [OF same] same_ring_messages [OF same] same_ring_head [OF same] same_ring_head [of p ?p] Suc.prems(1) pos by simp_all
    show ?thesis
    proof (cases ok)
      case False
      have loop: "drain_loop (Suc n) am handler p w = drain_loop n am handler (drain_fail p1) w"
        using drain_peek_some [OF Suc.prems(1) pos] r False by simp
      note f = drain_fail_pops [OF p1(1,2)]
      from Suc.IH [OF f(1) _ Suc.prems(3)] f(2) p1(5) Suc.prems(2) pos obtain p' w' ms where
        "drain_loop n am handler (drain_fail p1) w = Some (p', w')" "I w'" "ring_messages p' = []" "subseq ms (tl (ring_messages p))"
        "w' = fold (\<lambda>m w. snd (handler (fst m) (snd m) w)) ms w"
        using f(3) p1(4) by fastforce
      moreover have "subseq (tl (ring_messages p)) (ring_messages p)" by (cases "ring_messages p") auto
      ultimately show ?thesis unfolding loop using subseq_order.trans by blast
    next
      case True
      obtain lens p2 where c: "drain_copy p1 = Some (Some lens, p2)" "import_ring_ok p2" "ring_messages p1 = drain_message p2 lens # ring_messages p2"
        using copy_fits [OF p1(1,2)] drain_reserve_same(2) [OF r True] p1(3) by auto
      obtain subject payload where m: "drain_message p2 lens = (subject, payload)" by (cases "drain_message p2 lens")
      obtain h w1 where h: "handler subject payload w = (h, w1)" by (cases "handler subject payload w")
      have loop: "drain_loop (Suc n) am handler p w = drain_loop n am handler (drain_count p2 h) w1"
        using drain_peek_some [OF Suc.prems(1) pos] r True c(1) m h by simp
      have same2: "same_ring p2 (drain_count p2 h)" by simp
      have "import_ring_ok (drain_count p2 h)" using c(2) same_ring_ok [OF same2] by simp
      moreover have "ip_len (drain_count p2 h) < n"
        using ring_messages_length [of p1] ring_messages_length [of p2] c(3) p1(5) Suc.prems(2) same_ring_head [OF same2] by simp
      moreover have "I w1" using keeps [OF Suc.prems(3), of subject payload] h by simp
      ultimately obtain p' w' ms where l: "drain_loop n am handler (drain_count p2 h) w1 = Some (p', w')" "I w'" "ring_messages p' = []"
        "subseq ms (ring_messages (drain_count p2 h))" "w' = fold (\<lambda>m w. snd (handler (fst m) (snd m) w)) ms w1"
        using Suc.IH by blast
      have "subseq ((subject, payload) # ms) (ring_messages p)"
        using l(4) same_ring_messages [OF same2] c(3) p1(4) m by simp
      moreover have "w' = fold (\<lambda>m w. snd (handler (fst m) (snd m) w)) ((subject, payload) # ms) w" using l(5) h by simp
      ultimately show ?thesis unfolding loop using l(1,2,3) by blast
    qed
  qed
qed simp

section \<open>A started importer\<close>

definition start_ok :: "mb_importer \<Rightarrow> bool" where
  "start_ok p \<longleftrightarrow> ip_len p = 0 \<and> ip_head p = 0 \<and> ip_async_started p"

lemma import_subscribe_ok: "start_ok p \<Longrightarrow> start_ok (snd (import_subscribe am io ts strings p))"
proof (induction am io ts strings p rule: import_subscribe.induct)
  case (2 am io t ts strings p)
  have append: "start_ok p'" if "sub_vec_append am p x = Some p'" for x p'
    using that "2.prems" by (auto simp: sub_vec_append_def start_ok_def split: option.splits)
  show ?case
    using "2.prems" "2.IH" append
    by (cases "mb_nats_track_cstr am strings t") (auto split: option.split)
qed simp

lemma import_open_ok:
  assumes "start_ok p"
  shows "start_ok (fst (snd (import_open am io c p u)))"
proof -
  obtain ok opts strings where o: "mb_nats_set_options am (nc_set (ii_client io)) (mb_nats_options_from_import c) ([], ([], 0)) = (ok, opts, strings)"
    by (metis prod_cases3)
  obtain ok2 p2 u2 where c: "import_connect io c opts p u = (ok2, p2, u2)" by (metis prod_cases3)
  have p2: "start_ok p2" using c assms by (auto simp: import_connect_def Let_def start_ok_def split: if_splits)
  obtain ok3 p3 where s: "import_subscribe am io (fst (im_subjects c)) strings p2 = (ok3, p3)" by (cases "import_subscribe am io (fst (im_subjects c)) strings p2")
  have "start_ok p3" using import_subscribe_ok [OF p2] s by (metis snd_conv)
  then show ?thesis
    using assms o c p2 s by (cases ok; cases ok2; cases ok3) (auto simp: import_open_def start_ok_def)
qed

lemma started_importer_ok:
  assumes "mb_importer_start am io (Some c) u = (True, p, u')"
  shows "start_ok p"
proof -
  let ?n = "case im_max_pending c of Some n \<Rightarrow> n | None \<Rightarrow> MB_IMPORT_DEFAULT_MAX_PENDING"
  let ?p = "(importer_new (Some c))\<lparr>ip_ring := replicate ?n slot_zero, ip_lock_started := True, ip_async_started := True\<rparr>"
  have "import_open am io c ?p u = (True, p, u')"
    using assms by (auto simp: mb_importer_start_def Let_def split: if_splits prod.splits bool.splits)
  moreover have "start_ok ?p" by (simp add: start_ok_def importer_new_def)
  ultimately show ?thesis using import_open_ok [of ?p am io c u] by simp
qed

lemma import_init_inv: "start_ok p \<Longrightarrow> import_inv (import_init p)"
  by (auto simp: start_ok_def import_inv_def import_init_def import_ring_ok_def ring_messages_def)

section \<open>Nothing lost, nothing twice, in order\<close>

text \<open>
  \<^bold>\<open>C21\<close> However the worker and the event loop interleave after a successful start, the messages
  that left the ring, in the order they left it, followed by those still in it, are exactly the
  accepted ones in the order of acceptance, until the importer is closed; the oldest message fits the buffer reserved for it and it is
  that message the copy yields; a non-empty ring always has its wake-up outstanding while the loop is
  idle; the ring is released only after the worker has stopped; and no accepted subject is malformed or reserved.
\<close>

theorem import_fifo:
  assumes "mb_importer_start am io (Some c) u = (True, p, u')" "(import_step am')\<^sup>*\<^sup>* (import_init p) s"
  shows "(sy_loop s \<noteq> L_CLOSED \<longrightarrow> sy_accepted s = map fst (sy_removed s) @ ring_messages (sy_imp s)) \<and>
         (\<forall>n. sy_loop s = L_COPY n \<longrightarrow>
            (\<exists>lens p'. drain_copy (sy_imp s) = Some (Some lens, p') \<and> hd (ring_messages (sy_imp s)) = drain_message p' lens)) \<and>
         (sy_loop s = L_IDLE \<and> ring_messages (sy_imp s) \<noteq> [] \<longrightarrow> ip_async_pending (sy_imp s)) \<and>
         (sy_loop s = L_CLOSED \<longrightarrow> sy_worker s = W_DONE) \<and>
         list_all (\<lambda>m. importable (fst m)) (sy_accepted s)"
proof -
  have inv: "import_inv s" using importing.reachable_inv [OF assms(2)] import_init_inv [OF started_importer_ok [OF assms(1)]] by blast
  have "\<exists>lens p'. drain_copy (sy_imp s) = Some (Some lens, p') \<and> hd (ring_messages (sy_imp s)) = drain_message p' lens"
    if "sy_loop s = L_COPY n" for n
    using inv_copy_fits [OF inv that] by auto
  moreover have "ip_async_pending (sy_imp s)" if "sy_loop s = L_IDLE" "ring_messages (sy_imp s) \<noteq> []"
    using inv that by (simp add: import_inv_def ring_messages_def)
  ultimately show ?thesis using inv by (simp add: import_inv_def)
qed

definition sample_import :: pb_import_config where
  "sample_import =
     \<lparr>im_servers = ([''nats://a''], 1), im_subjects = ([''a''], 1), im_name = None, im_creds = None, im_user = None, im_password = None,
      im_token = None, im_tls_ca = None, im_tls_cert = None, im_tls_key = None, im_connect_timeout_ms = None,
      im_ping_interval_ms = None, im_reconnect_wait_ms = None, im_max_reconnect = None, im_max_pending = Some 2, im_tls = False,
      im_tls_skip_verify = False, im_origin_header = False\<rparr>"

definition sample_import_io :: import_io where
  "sample_import_io =
     \<lparr>ii_client = \<lparr>nc_create_options = NATS_OK, nc_set = (\<lambda>_ _. NATS_OK), nc_connect = (\<lambda>_. NATS_OK), nc_header_support = NATS_OK,
                   nc_create_msg = (\<lambda>_. NATS_OK), nc_set_header = (\<lambda>_ _. NATS_OK), nc_publish = (\<lambda>_. NATS_OK)\<rparr>,
      ii_mutex_init = True, ii_async_init = True, ii_subscribe = (\<lambda>_. NATS_OK), ii_thread_create = True\<rparr>"

definition sample_importer :: mb_importer where
  "sample_importer = fst (snd (mb_importer_start (\<lambda>_. True) sample_import_io (Some sample_import) (0, 0)))"

definition sample_received :: import_msg where
  "sample_received = \<lparr>rm_subject = Some ''a'', rm_data = Some ''xy'', rm_len = 2, rm_origin = (NATS_NOT_FOUND, None)\<rparr>"

text \<open>The worker checks once, accepts the message, and checks again; the loop takes the wake-up in between.\<close>

definition sample_polled :: import_sys where
  "sample_polled =
     (let p = sample_importer; p' = import_poll (\<lambda>_. True) p NATS_OK (Some sample_received)
      in (import_init p)\<lparr>sy_imp := p', sy_worker := W_CHECK, sy_accepted := newly_accepted p p'\<rparr>)"

lemma sample_polled_reached: "(import_step (\<lambda>_. True))\<^sup>*\<^sup>* (import_init sample_importer) sample_polled"
proof -
  let ?s = "import_init sample_importer"
  have "import_step (\<lambda>_. True) ?s (?s\<lparr>sy_worker := if ip_closing (sy_imp ?s) then W_DONE else W_POLL\<rparr>)"
    by (rule worker_check) (simp add: import_init_def)
  moreover have "\<not> ip_closing (sy_imp ?s)" by code_simp
  ultimately have step1: "import_step (\<lambda>_. True) ?s (?s\<lparr>sy_worker := W_POLL\<rparr>)" by simp
  have "import_step (\<lambda>_. True) (?s\<lparr>sy_worker := W_POLL\<rparr>) sample_polled"
    using worker_poll [of "?s\<lparr>sy_worker := W_POLL\<rparr>", OF _ refl, of "\<lambda>_. True" NATS_OK "Some sample_received"]
    by (simp add: sample_polled_def import_init_def Let_def)
  with step1 show ?thesis by (rule two_steps)
qed

lemma sample_polled_inv:
  "import_inv sample_polled \<and> sy_loop sample_polled = L_IDLE \<and> sy_accepted sample_polled = [(''a'', ''xy'')] \<and> sy_removed sample_polled = []"
proof -
  have "ip_len sample_importer = 0 \<and> ip_head sample_importer = 0 \<and> ip_async_started sample_importer" by code_simp
  then have "start_ok sample_importer" by (simp add: start_ok_def)
  moreover have "sy_loop sample_polled = L_IDLE" "sy_accepted sample_polled = [(''a'', ''xy'')]" "sy_removed sample_polled = []" by code_simp+
  ultimately show ?thesis using importing.reachable_inv [OF sample_polled_reached import_init_inv] by simp
qed

theorem import_fifo_witness:
  "fst (mb_importer_start (\<lambda>_. True) sample_import_io (Some sample_import) (0, 0)) \<and>
   sy_accepted sample_polled = [(''a'', ''xy'')] \<and> sy_removed sample_polled = [] \<and>
   ring_messages (sy_imp sample_polled) = [(''a'', ''xy'')] \<and> ip_async_pending (sy_imp sample_polled)"
proof -
  have started: "fst (mb_importer_start (\<lambda>_. True) sample_import_io (Some sample_import) (0, 0))" by code_simp
  then obtain u' where "mb_importer_start (\<lambda>_. True) sample_import_io (Some sample_import) (0, 0) = (True, sample_importer, u')"
    unfolding sample_importer_def by (metis prod.collapse)
  note reached = import_fifo [OF this sample_polled_reached]
  have "sy_accepted sample_polled = [(''a'', ''xy'')]" "sy_loop sample_polled = L_IDLE" "sy_removed sample_polled = []"
    using sample_polled_inv by blast+
  then show ?thesis using reached started by simp
qed

end
