(* ===== verification/Jetstream_Correct.thy ===== *)
theory Jetstream_Correct
  imports Jetstream
begin

text \<open>
  The worker and the event loop of a JetStream consumer together: every message that was fetched is destroyed
  once, none is used after that, and a sleeping worker is always woken.
\<close>

section \<open>The two threads\<close>

text \<open>Where the worker is, with the messages of its list it has not handed over yet.\<close>

datatype js_worker =
    JW_TOP | JW_FETCH | JW_LIST "js_msg list" | JW_POST js_msg "js_msg list" | JW_WAIT js_msg "js_msg list"
  | JW_DROP js_msg "js_msg list" | JW_END "js_msg list" | JW_DONE

datatype js_loop = JL_IDLE | JL_TAKE | JL_PROCESS js_msg | JL_TOLD bool | JL_JOIN | JL_CLOSED

text \<open>
  \<open>hs_asleep\<close>: the worker waits for a broadcast; \<open>hs_async\<close>: the wake-up of the loop is outstanding;
  \<open>hs_live\<close>: the addresses of the messages fetched and not destroyed.
\<close>

record js_sys =
  hs_stream :: mb_js_stream
  hs_worker :: js_worker
  hs_loop :: js_loop
  hs_asleep :: bool
  hs_async :: bool
  hs_live :: "nat set"

text \<open>What the worker does after the handoff of \<open>m\<close> returned.\<close>

definition after_handoff :: "bool \<Rightarrow> bool \<Rightarrow> js_msg \<Rightarrow> js_msg list \<Rightarrow> js_worker" where
  "after_handoff consumed ok m ms = (if ok then JW_LIST ms else if consumed then JW_END ms else JW_DROP m ms)"

definition handoff_next :: "handoff_step \<Rightarrow> js_msg \<Rightarrow> js_msg list \<Rightarrow> js_sys \<Rightarrow> js_sys" where
  "handoff_next r m ms s =
     (case r of
        H_SLEEP \<Rightarrow> s\<lparr>hs_asleep := True\<rparr>
      | H_POSTED \<Rightarrow> s\<lparr>hs_worker := JW_WAIT m ms, hs_async := True\<rparr>
      | H_RETURN consumed ok \<Rightarrow> s\<lparr>hs_worker := after_handoff consumed ok m ms\<rparr>)"

inductive js_step :: "'w js_env \<Rightarrow> js_sys \<Rightarrow> js_sys \<Rightarrow> bool" for env where
  w_top:
    "hs_worker s = JW_TOP \<Longrightarrow> js_step env s (s\<lparr>hs_worker := if jt_closing (hs_stream s) then JW_DONE else JW_FETCH\<rparr>)"
| w_fetch_none:
    "hs_worker s = JW_FETCH \<Longrightarrow> status \<noteq> NATS_OK \<Longrightarrow>
     js_step env s (s\<lparr>hs_worker := JW_TOP,
       hs_stream := if status = NATS_TIMEOUT \<or> status = NATS_NOT_FOUND then hs_stream s else snd (js_set_status (hs_stream s) status)\<rparr>)"
| w_fetch:
    "hs_worker s = JW_FETCH \<Longrightarrow> distinct (map jm_ptr ms) \<Longrightarrow> jm_ptr ` set ms \<inter> hs_live s = {} \<Longrightarrow>
     js_step env s (s\<lparr>hs_worker := JW_LIST ms, hs_live := hs_live s \<union> jm_ptr ` set ms\<rparr>)"
| w_list_end:
    "hs_worker s = JW_LIST [] \<Longrightarrow> js_step env s (s\<lparr>hs_worker := JW_END []\<rparr>)"
| w_list:
    "hs_worker s = JW_LIST (m # ms) \<Longrightarrow> js_step env s (s\<lparr>hs_worker := JW_POST m ms\<rparr>)"
| w_post:
    "hs_worker s = JW_POST m ms \<Longrightarrow> \<not> hs_asleep s \<Longrightarrow> handoff_post sent m (hs_stream s) = (r, st) \<Longrightarrow>
     js_step env s (handoff_next r m ms (s\<lparr>hs_stream := st\<rparr>))"
| w_wait:
    "hs_worker s = JW_WAIT m ms \<Longrightarrow> \<not> hs_asleep s \<Longrightarrow> handoff_wait m (hs_stream s) = (r, st) \<Longrightarrow>
     js_step env s (handoff_next r m ms (s\<lparr>hs_stream := st\<rparr>))"
| w_drop:
    "hs_worker s = JW_DROP m ms \<Longrightarrow> js_step env s (s\<lparr>hs_worker := JW_END ms, hs_live := hs_live s - {jm_ptr m}\<rparr>)"
| w_end:
    "hs_worker s = JW_END ms \<Longrightarrow> js_step env s (s\<lparr>hs_worker := JW_TOP, hs_live := hs_live s - jm_ptr ` set ms\<rparr>)"
| l_async:
    "hs_loop s = JL_IDLE \<Longrightarrow> hs_async s \<Longrightarrow> js_step env s (s\<lparr>hs_loop := JL_TAKE, hs_async := False\<rparr>)"
| l_take:
    "hs_loop s = JL_TAKE \<Longrightarrow> async_take (hs_stream s) = (r, st) \<Longrightarrow>
     js_step env s (s\<lparr>hs_stream := st, hs_loop := (case r of None \<Rightarrow> JL_IDLE | Some m \<Rightarrow> JL_PROCESS m)\<rparr>)"
| l_process:
    "hs_loop s = JL_PROCESS m \<Longrightarrow> js_stream_process_msg env (hs_stream s) m False w = (ok, st, w') \<Longrightarrow>
     js_step env s (s\<lparr>hs_stream := st, hs_loop := JL_TOLD ok, hs_live := hs_live s - {jm_ptr m}\<rparr>)"
| l_told:
    "hs_loop s = JL_TOLD ok \<Longrightarrow> js_step env s (s\<lparr>hs_stream := async_done ok (hs_stream s), hs_loop := JL_IDLE, hs_asleep := False\<rparr>)"
| l_close:
    "hs_loop s = JL_IDLE \<Longrightarrow> js_step env s (s\<lparr>hs_stream := js_close_mark (hs_stream s), hs_loop := JL_JOIN, hs_asleep := False\<rparr>)"
| l_join:
    "hs_loop s = JL_JOIN \<Longrightarrow> hs_worker s = JW_DONE \<Longrightarrow> js_close_release (hs_stream s) u = (left, st, u') \<Longrightarrow>
     js_step env s (s\<lparr>hs_stream := st, hs_loop := JL_CLOSED, hs_live := hs_live s - (case left of None \<Rightarrow> {} | Some m \<Rightarrow> {jm_ptr m})\<rparr>)"

definition js_live_init :: "mb_js_stream \<Rightarrow> js_sys" where
  "js_live_init st = \<lparr>hs_stream = st, hs_worker = JW_TOP, hs_loop = JL_IDLE, hs_asleep = False, hs_async = False, hs_live = {}\<rparr>"

section \<open>The invariant\<close>

text \<open>The messages each thread will destroy or hand over.\<close>

fun worker_holds :: "js_worker \<Rightarrow> js_msg list" where
  "worker_holds (JW_LIST ms) = ms"
| "worker_holds (JW_POST m ms) = m # ms"
| "worker_holds (JW_WAIT m ms) = ms"
| "worker_holds (JW_DROP m ms) = m # ms"
| "worker_holds (JW_END ms) = ms"
| "worker_holds _ = []"

fun loop_holds :: "js_loop \<Rightarrow> js_msg list" where
  "loop_holds (JL_PROCESS m) = [m]"
| "loop_holds _ = []"

definition held :: "js_sys \<Rightarrow> nat list" where
  "held s = map jm_ptr (worker_holds (hs_worker s) @ (case jt_pending_msg (hs_stream s) of None \<Rightarrow> [] | Some m \<Rightarrow> [m]) @ loop_holds (hs_loop s))"

fun loop_busy :: "js_loop \<Rightarrow> bool" where
  "loop_busy (JL_PROCESS m) = True"
| "loop_busy (JL_TOLD ok) = True"
| "loop_busy _ = False"

lemma idle_holds [simp]: "\<not> loop_busy pc \<Longrightarrow> loop_holds pc = []"
  by (cases pc) simp_all

text \<open>The shared fields, as what the two threads are doing determines them.\<close>

definition nothing_pending :: "mb_js_stream \<Rightarrow> bool" where
  "nothing_pending st \<longleftrightarrow> jt_pending_msg st = None \<and> \<not> jt_pending_ready st \<and> \<not> jt_pending_in_process st"

definition posted :: "js_msg \<Rightarrow> mb_js_stream \<Rightarrow> bool" where
  "posted m st \<longleftrightarrow> jt_pending_msg st = Some m \<and> jt_pending_ready st \<and> \<not> jt_pending_in_process st \<and> \<not> jt_pending_done st"

definition in_process :: "mb_js_stream \<Rightarrow> bool" where
  "in_process st \<longleftrightarrow> jt_pending_msg st = None \<and> \<not> jt_pending_ready st \<and> jt_pending_in_process st \<and> \<not> jt_pending_done st"

definition handoff_phase :: "js_sys \<Rightarrow> js_msg \<Rightarrow> bool" where
  "handoff_phase s m \<longleftrightarrow>
     posted m (hs_stream s) \<and> \<not> loop_busy (hs_loop s) \<and> (hs_async s \<or> hs_loop s = JL_TAKE \<or> jt_closing (hs_stream s))
   \<or> in_process (hs_stream s) \<and> loop_busy (hs_loop s) \<and> (\<forall>m'. hs_loop s = JL_PROCESS m' \<longrightarrow> m' = m)
   \<or> nothing_pending (hs_stream s) \<and> jt_pending_done (hs_stream s) \<and> \<not> loop_busy (hs_loop s)"

definition js_inv :: "js_sys \<Rightarrow> bool" where
  "js_inv s \<longleftrightarrow>
     hs_live s = set (held s) \<and> distinct (held s) \<and>
     (jt_closing (hs_stream s) \<longleftrightarrow> hs_loop s = JL_JOIN \<or> hs_loop s = JL_CLOSED) \<and>
     (case hs_worker s of
        JW_WAIT m ms \<Rightarrow> handoff_phase s m
      | _ \<Rightarrow> nothing_pending (hs_stream s) \<and> \<not> loop_busy (hs_loop s)) \<and>
     (hs_asleep s \<longrightarrow> (\<exists>m ms. hs_worker s = JW_WAIT m ms) \<and> \<not> jt_pending_done (hs_stream s) \<and> \<not> jt_closing (hs_stream s)) \<and>
     (hs_loop s = JL_CLOSED \<longrightarrow> hs_worker s = JW_DONE)"

lemmas js_inv_defs = js_inv_def handoff_phase_def held_def nothing_pending_def posted_def in_process_def

text \<open>Processing a message does not touch the handoff.\<close>

definition same_handoff :: "mb_js_stream \<Rightarrow> mb_js_stream \<Rightarrow> bool" where
  "same_handoff st st' \<longleftrightarrow>
     jt_pending_msg st' = jt_pending_msg st \<and> jt_pending_ready st' = jt_pending_ready st \<and>
     jt_pending_in_process st' = jt_pending_in_process st \<and> jt_pending_done st' = jt_pending_done st \<and> jt_closing st' = jt_closing st"

lemma same_handoff_trans: "same_handoff a b \<Longrightarrow> same_handoff b c \<Longrightarrow> same_handoff a c"
  by (simp add: same_handoff_def)

lemma js_set_status_handoff: "js_set_status st status = (ok, st') \<Longrightarrow> same_handoff st st'"
  by (auto simp: js_set_status_def same_handoff_def split: if_splits)

lemma event_time_handoff: "event_time_from_msg st msg = (r, st') \<Longrightarrow> same_handoff st st'"
  by (auto simp: event_time_from_msg_def js_set_status_def same_handoff_def Let_def split: if_splits prod.splits bool.splits)

lemma failed_handoff: "same_handoff st (js_failed st)" "same_handoff st (st\<lparr>jt_redelivered := n\<rparr>)" "same_handoff st (st\<lparr>jt_received := n\<rparr>)"
  by (simp_all add: js_failed_def same_handoff_def)

lemma acknowledge_handoff: "js_acknowledge env st msg meta now wall w = (ok, st', w') \<Longrightarrow> same_handoff st st'"
  by (auto simp: js_acknowledge_def js_set_status_def js_failed_def same_handoff_def split: prod.splits if_splits)

text \<open>The cases of processing a message: refused before the handler, refused by it, or acknowledged.\<close>

lemma process_msg_cases:
  assumes "js_stream_process_msg env st msg replaying w = (ok, st', w')"
  obtains (refused) st1 x where "same_handoff st st1" "\<not> ok" "st' = js_failed st1" "w' = w"
      "st1 = st\<lparr>jt_received := jt_received st + 1, jt_last_status := x\<rparr>"
  | (failed) st1 meta now wall subject payload where "same_handoff st st1" "\<not> ok" "st' = js_failed st1" "jt_config st1 = jt_config st"
      "event_time_from_msg (st\<lparr>jt_received := jt_received st + 1\<rparr>) msg = (Some (meta, now, wall), st\<lparr>jt_received := jt_received st + 1\<rparr>)"
      "js_frame msg = Some (subject, payload)" "subject_allowed subject" "je_handler env (jt_config st) subject payload now wall replaying w = (False, w')"
      "st1 = st\<lparr>jt_received := jt_received st + 1\<rparr> \<or> st1 = st\<lparr>jt_received := jt_received st + 1, jt_redelivered := jt_redelivered st + 1\<rparr>"
  | (handled) st1 w1 meta now wall subject payload where "same_handoff st st1" "jt_config st1 = jt_config st"
      "event_time_from_msg (st\<lparr>jt_received := jt_received st + 1\<rparr>) msg = (Some (meta, now, wall), st\<lparr>jt_received := jt_received st + 1\<rparr>)"
      "js_frame msg = Some (subject, payload)" "subject_allowed subject" "je_handler env (jt_config st) subject payload now wall replaying w = (True, w1)"
      "js_acknowledge env st1 msg meta now wall w1 = (ok, st', w')"
      "st1 = st\<lparr>jt_received := jt_received st + 1\<rparr> \<or> st1 = st\<lparr>jt_received := jt_received st + 1, jt_redelivered := jt_redelivered st + 1\<rparr>"
proof -
  let ?st = "st\<lparr>jt_received := jt_received st + 1\<rparr>"
  obtain r st0 where r: "event_time_from_msg ?st msg = (r, st0)" by (cases "event_time_from_msg ?st msg")
  have st0: "same_handoff st st0" using event_time_handoff [OF r] failed_handoff(3) same_handoff_trans by blast
  have "st0 = ?st \<or> (\<exists>x. st0 = ?st\<lparr>jt_last_status := x\<rparr>)"
    using r by (auto simp: event_time_from_msg_def js_set_status_def Let_def split: if_splits)
  then obtain x where x: "st0 = ?st\<lparr>jt_last_status := x\<rparr>" by (metis mb_js_stream.surjective mb_js_stream.update_convs(14))
  show thesis
  proof (cases r)
    case None
    then show thesis using assms r st0 refused [OF st0 _ _ _ x] by (simp add: js_stream_process_msg_def)
  next
    case (Some t)
    then obtain meta now wall where t: "r = Some (meta, now, wall)" by (cases t) auto
    then have eq: "st0 = ?st" using r by (auto simp: event_time_from_msg_def js_set_status_def Let_def split: if_splits)
    have time: "event_time_from_msg ?st msg = (Some (meta, now, wall), ?st)" using r t eq by simp
    let ?st1 = "if 1 < mt_num_delivered meta then ?st\<lparr>jt_redelivered := jt_redelivered ?st + 1\<rparr> else ?st"
    have st1: "same_handoff st ?st1" "jt_config ?st1 = jt_config st" by (simp_all add: same_handoff_def)
    have delivered: "?st1 = ?st \<or> ?st1 = st\<lparr>jt_received := jt_received st + 1, jt_redelivered := jt_redelivered st + 1\<rparr>" by simp
    show thesis
    proof (cases "\<exists>subject payload. js_frame msg = Some (subject, payload) \<and> subject_allowed subject")
      case False
      then have "\<not> ok \<and> st' = js_failed st0 \<and> w' = w" using assms r t by (auto simp: js_stream_process_msg_def split: option.split_asm if_split_asm)
      then show thesis using refused [OF st0 _ _ _ x] by blast
    next
      case True
      then obtain subject payload where f: "js_frame msg = Some (subject, payload)" "subject_allowed subject" by blast
      obtain h w1 where h: "je_handler env (jt_config st) subject payload now wall replaying w = (h, w1)"
        by (cases "je_handler env (jt_config st) subject payload now wall replaying w")
      show thesis
      proof (cases h)
        case True
        then have "js_acknowledge env ?st1 msg meta now wall w1 = (ok, st', w')"
          using assms r t eq f h by (simp add: js_stream_process_msg_def Let_def split: if_splits)
        with h True delivered show thesis by (intro handled [OF st1 time f]) simp_all
      next
        case False
        then have "\<not> ok \<and> st' = js_failed ?st1 \<and> w' = w1"
          using assms r t eq f h by (simp add: js_stream_process_msg_def Let_def split: if_splits)
        with h False delivered show thesis by (intro failed [OF st1(1) _ _ st1(2) time f]) simp_all
      qed
    qed
  qed
qed

lemma process_msg_handoff: "js_stream_process_msg env st msg replaying w = (ok, st', w') \<Longrightarrow> same_handoff st st'"
  by (erule process_msg_cases) (blast intro: same_handoff_trans failed_handoff acknowledge_handoff)+

lemma same_handoff_phase:
  assumes "same_handoff (hs_stream s) st"
  shows "handoff_phase (s\<lparr>hs_stream := st\<rparr>) m = handoff_phase s m" "held (s\<lparr>hs_stream := st\<rparr>) = held s"
    "nothing_pending st = nothing_pending (hs_stream s)"
  using assms by (simp_all add: js_inv_defs same_handoff_def)

lemma js_inv_post:
  assumes "js_inv s" "hs_worker s = JW_POST m ms" "handoff_post sent m (hs_stream s) = (r, st)"
  shows "js_inv (handoff_next r m ms (s\<lparr>hs_stream := st\<rparr>))"
  using assms
  by (auto simp: js_inv_defs handoff_post_def handoff_next_def after_handoff_def Let_def split: if_splits) (metis imageI)

lemma js_inv_wait:
  assumes "js_inv s" "hs_worker s = JW_WAIT m ms" "handoff_wait m (hs_stream s) = (r, st)"
  shows "js_inv (handoff_next r m ms (s\<lparr>hs_stream := st\<rparr>))"
  using assms
  by (auto simp: js_inv_defs handoff_wait_def handoff_next_def after_handoff_def split: if_splits)

lemma js_inv_take:
  assumes "js_inv s" "hs_loop s = JL_TAKE" "async_take (hs_stream s) = (r, st)"
  shows "js_inv (s\<lparr>hs_stream := st, hs_loop := (case r of None \<Rightarrow> JL_IDLE | Some m \<Rightarrow> JL_PROCESS m)\<rparr>)"
  using assms
  by (cases "hs_worker s") (auto simp: js_inv_defs async_take_def split: if_splits option.splits)

lemma js_inv_process:
  assumes "js_inv s" "hs_loop s = JL_PROCESS m" "js_stream_process_msg env (hs_stream s) m False w = (ok, st, w')"
  shows "js_inv (s\<lparr>hs_stream := st, hs_loop := JL_TOLD ok, hs_live := hs_live s - {jm_ptr m}\<rparr>)"
  using assms(1,2) process_msg_handoff [OF assms(3)]
  by (cases "hs_worker s") (auto simp: js_inv_defs same_handoff_def)

theorem js_step_inv: "js_step env s s' \<Longrightarrow> js_inv s \<Longrightarrow> js_inv s'"
proof (induction rule: js_step.induct)
  case (w_fetch_none s status)
  have "same_handoff (hs_stream s) (snd (js_set_status (hs_stream s) status))"
    by (auto simp: js_set_status_def same_handoff_def)
  then show ?case using w_fetch_none by (auto simp: js_inv_defs same_handoff_def)
next
  case (w_post s m ms sent r st)
  then show ?case using js_inv_post by blast
next
  case (w_wait s m ms r st)
  then show ?case using js_inv_wait by blast
next
  case (l_take s r st)
  then show ?case using js_inv_take by blast
next
  case (l_process s m w ok st w')
  then show ?case by (intro js_inv_process)
next
  case (w_top s)
  then show ?case by (simp add: js_inv_defs)
next
  case (w_fetch s ms)
  then have "held (s\<lparr>hs_worker := JW_LIST ms, hs_live := hs_live s \<union> jm_ptr ` set ms\<rparr>) = map jm_ptr ms" "held s = []" by (auto simp: js_inv_defs)
  then show ?case using w_fetch by (auto simp: js_inv_def nothing_pending_def)
next
  case (w_list_end s)
  then show ?case by (simp add: js_inv_defs)
next
  case (w_list s m ms)
  then show ?case by (simp add: js_inv_defs)
next
  case (w_drop s m ms)
  then show ?case by (auto simp: js_inv_defs)
next
  case (w_end s ms)
  then show ?case by (auto simp: js_inv_defs)
next
  case (l_async s)
  then show ?case by (cases "hs_worker s") (auto simp: js_inv_defs)
next
  case (l_told s ok)
  then show ?case by (cases "hs_worker s") (auto simp: js_inv_defs async_done_def)
next
  case (l_close s)
  then show ?case by (cases "hs_worker s") (auto simp: js_inv_defs js_close_mark_def)
next
  case (l_join s u left st u')
  then show ?case by (auto simp: js_inv_defs js_close_release_def)
qed

interpretation consuming: state_machine "js_step env" js_inv for env :: "'w js_env"
  by unfold_locales (rule js_step_inv)

section \<open>A started importer\<close>

definition js_quiet :: "mb_js_stream \<Rightarrow> bool" where
  "js_quiet st \<longleftrightarrow> nothing_pending st \<and> \<not> jt_closing st"

lemma same_handoff_quiet: "same_handoff st st' \<Longrightarrow> js_quiet st \<Longrightarrow> js_quiet st'"
  by (simp add: same_handoff_def js_quiet_def nothing_pending_def)

lemma same_handoff_refl [simp]: "same_handoff st st"
  by (simp add: same_handoff_def)

lemma js_open_handoff: "js_open am env opts strings st = (ok, st') \<Longrightarrow> same_handoff st st'"
  by (auto simp: js_open_def js_set_status_def same_handoff_def split: option.splits if_splits)

lemma js_stream_connect_handoff:
  assumes "js_stream_connect am env st u = (ok, st', u')"
  shows "same_handoff st st'"
proof -
  have status: "same_handoff st (st\<lparr>jt_last_status := x\<rparr>)" for x by (simp add: same_handoff_def)
  obtain ok1 opts strings where o: "mb_nats_set_options am (nc_set (je_client env)) (mb_nats_options_from_import (is_source (jt_config st))) ([], ([], 0)) = (ok1, opts, strings)"
    by (metis prod_cases3)
  obtain ok2 st2 where "js_open am env opts strings st = (ok2, st2)" by (cases "js_open am env opts strings st")
  then show ?thesis
    using assms o status js_open_handoff [of am env opts strings st ok2 st2]
    by (cases ok1; cases ok2) (auto simp: js_stream_connect_def js_set_status_def Let_def split: if_splits)
qed

lemma js_stream_init_quiet: "js_stream_init am env c u = (ok, st, u') \<Longrightarrow> js_quiet st"
proof -
  have zero: "js_quiet (js_stream_zero c)" by (simp add: js_stream_zero_def js_quiet_def nothing_pending_def)
  have flags: "same_handoff (js_stream_zero c) (js_stream_zero c\<lparr>jt_lock_started := a\<rparr>)"
    "same_handoff (js_stream_zero c) (js_stream_zero c\<lparr>jt_lock_started := a, jt_cond_started := b\<rparr>)"
    "same_handoff (js_stream_zero c) (js_stream_zero c\<lparr>jt_lock_started := a, jt_cond_started := b, jt_async_started := d\<rparr>)" for a b d
    by (simp_all add: same_handoff_def)
  have quiet: "js_quiet st'" if "js_stream_connect am env (js_stream_zero c\<lparr>jt_lock_started := True, jt_cond_started := True, jt_async_started := True\<rparr>) u = (ok, st', u')" for st'
    using js_stream_connect_handoff [OF that] flags(3) zero same_handoff_quiet by blast
  show "js_stream_init am env c u = (ok, st, u') \<Longrightarrow> js_quiet st"
    using quiet zero same_handoff_quiet [OF flags(1) zero] same_handoff_quiet [OF flags(2) zero]
    by (cases "je_mutex_init env"; cases "je_cond_init env"; cases "je_async_init env") (auto simp: js_stream_init_def Let_def)
qed

lemma process_batch_handoff: "process_batch env replaying msgs ok st w = (ok', st', w') \<Longrightarrow> same_handoff st st'"
proof (induction env replaying msgs ok st w arbitrary: ok' st' w' rule: process_batch.induct)
  case (3 env replaying msg msgs ok st w)
  obtain ok1 st1 w1 where p: "js_stream_process_msg env st msg replaying w = (ok1, st1, w1)" by (metis prod_cases3)
  show ?case using 3(1) [OF p [symmetric] refl] 3(2) p process_msg_handoff [OF p] by (auto intro: same_handoff_trans)
qed simp_all

lemma fetch_handoff:
  assumes "js_stream_fetch_and_process env st batch replaying w = (ok, t, st', w')"
  shows "same_handoff st st'"
proof -
  obtain status msgs w1 where f: "je_fetch env batch w = (status, msgs, w1)" by (metis prod_cases3)
  obtain ok2 st2 w2 where p: "process_batch env replaying msgs True st w1 = (ok2, st2, w2)" by (metis prod_cases3)
  show ?thesis
    using assms f p process_batch_handoff [OF p]
    by (auto simp: js_stream_fetch_and_process_def js_set_status_def same_handoff_def split: if_splits)
qed

lemma pending_zero_handoff: "js_stream_pending_zero am env st w = (r, st') \<Longrightarrow> same_handoff st st'"
  by (auto simp: js_stream_pending_zero_def js_set_status_def same_handoff_def split: prod.splits option.splits if_splits)

text \<open>A stream is caught up when its last event reached the high-water mark, or when the server says that its consumer has nothing pending.\<close>

definition nothing_left :: "allocator \<Rightarrow> 'w js_env \<Rightarrow> 'w \<Rightarrow> mb_js_stream \<Rightarrow> bool" where
  "nothing_left am env w st \<longleftrightarrow> (\<exists>st0. js_stream_pending_zero am env st0 w = (Some True, st))"

definition caught_up :: "allocator \<Rightarrow> 'w js_env \<Rightarrow> 'w \<Rightarrow> mb_js_stream \<Rightarrow> bool" where
  "caught_up am env w st \<longleftrightarrow> jt_catchup_to st = 0 \<or> jt_catchup_to st \<le> jt_last_stream_seq st \<or> nothing_left am env w st"

definition catch_up_result :: "allocator \<Rightarrow> 'w js_env \<Rightarrow> mb_js_stream \<Rightarrow> bool \<times> mb_js_stream \<times> 'w \<Rightarrow> bool" where
  "catch_up_result am env st r \<longleftrightarrow> (case r of (ok, st', w') \<Rightarrow> same_handoff st st' \<and> (ok \<longrightarrow> caught_up am env w' st'))"

text \<open>One round, given what the rest of the loop does.\<close>

lemma catch_up_round:
  assumes rest: "\<And>am env st w r. loop am env st w = Some r \<Longrightarrow> catch_up_result am env st r"
    and round: "(if jt_closing st then Some (False, st, w)
      else if jt_catchup_to st = 0 \<or> jt_catchup_to st \<le> jt_last_stream_seq st then Some (True, st, w)
      else (case js_stream_fetch_and_process env st MB_JS_CATCHUP_BATCH True w of
              (ok, timed_out, st, w) \<Rightarrow>
                if \<not> ok then Some (False, st, w)
                else if jt_catchup_to st \<le> jt_last_stream_seq st then Some (True, st, w)
                else if timed_out \<or> jt_last_stream_seq st < jt_catchup_to st then
                  (case js_stream_pending_zero am env st w of
                     (zero, st) \<Rightarrow> if zero = Some True then Some (True, st, w) else loop am env st w)
                else loop am env st w)) = Some r"
  shows "catch_up_result am env st r"
proof (cases "jt_closing st \<or> jt_catchup_to st = 0 \<or> jt_catchup_to st \<le> jt_last_stream_seq st")
  case True
  then show ?thesis using round by (auto simp: catch_up_result_def caught_up_def split: if_splits)
next
  case False
  obtain ok t st1 w1 where f: "js_stream_fetch_and_process env st MB_JS_CATCHUP_BATCH True w = (ok, t, st1, w1)" by (metis prod_cases4)
  obtain zero st2 where z: "js_stream_pending_zero am env st1 w1 = (zero, st2)" by (cases "js_stream_pending_zero am env st1 w1")
  note st1 = fetch_handoff [OF f]
  note st2 = same_handoff_trans [OF st1 pending_zero_handoff [OF z]]
  have again: "catch_up_result am env st r" if "loop am env st' w1 = Some r" "same_handoff st st'" for st'
    using rest [OF that(1)] that(2) by (auto simp: catch_up_result_def intro: same_handoff_trans)
  have left: "caught_up am env w1 st2" if "zero = Some True" using that z by (auto simp: caught_up_def nothing_left_def)
  have n: "jt_closing st = False" "(jt_catchup_to st = 0 \<or> jt_catchup_to st \<le> jt_last_stream_seq st) = False" using False by auto
  define reached where "reached \<longleftrightarrow> jt_catchup_to st1 \<le> jt_last_stream_seq st1"
  define ask where "ask \<longleftrightarrow> t \<or> jt_last_stream_seq st1 < jt_catchup_to st1"
  have "(if \<not> ok then Some (False, st1, w1) else if reached then Some (True, st1, w1)
         else if ask then (if zero = Some True then Some (True, st2, w1) else loop am env st2 w1) else loop am env st1 w1) = Some r"
    using round unfolding reached_def ask_def by (simp only: n f z prod.case if_False)
  then consider "r = (False, st1, w1)" | "r = (True, st1, w1)" "reached" | "r = (True, st2, w1)" "zero = Some True"
    | "loop am env st1 w1 = Some r" | "loop am env st2 w1 = Some r"
    by (cases ok; cases reached; cases ask; cases "zero = Some True") simp_all
  then show ?thesis
  proof cases
    case 3
    then show ?thesis using st2 left by (simp add: catch_up_result_def)
  next
    case 4
    then show ?thesis using again st1 by blast
  next
    case 5
    then show ?thesis using again st2 by blast
  qed (use st1 in \<open>simp_all add: catch_up_result_def caught_up_def reached_def\<close>)
qed

lemma catch_up_loop_spec:
  assumes "catch_up_loop am env st w = Some r"
  shows "catch_up_result am env st r"
  by (rule catch_up_loop.raw_induct [where P = "\<lambda>am env st w. catch_up_result am env st", OF _ assms]) (rule catch_up_round)

lemma catch_up_spec:
  assumes "js_stream_catch_up am env st w = Some (ok, st', w')"
  shows "same_handoff st st' \<and> (ok \<and> is_catch_up (jt_config st) \<longrightarrow> caught_up am env w' st')"
proof -
  obtain ok1 st1 where h: "js_stream_load_highwater am env st w = (ok1, st1)" by (cases "js_stream_load_highwater am env st w")
  then have st1: "same_handoff st st1"
    by (auto simp: js_stream_load_highwater_def js_set_status_def same_handoff_def split: prod.splits option.splits if_splits)
  show ?thesis
    using assms h st1 catch_up_loop_spec [of am env st1 w "(ok, st', w')"]
    by (cases ok1) (auto simp: js_stream_catch_up_def catch_up_result_def split: if_splits intro: same_handoff_trans)
qed

lemma init_streams_quiet:
  "init_streams i am env cs sts u = (ok, sts', u') \<Longrightarrow> list_all js_quiet sts \<Longrightarrow> list_all js_quiet sts'"
proof (induction i am env cs sts u arbitrary: ok sts' u' rule: init_streams.induct)
  case (2 i am env c cs sts u)
  obtain ok1 st1 u1 where s: "js_stream_init am (env i) c u = (ok1, st1, u1)" by (metis prod_cases3)
  have "js_quiet st1" using js_stream_init_quiet [OF s] .
  then show ?case using 2 s by (cases ok1) auto
qed simp

lemma catch_up_streams_quiet:
  "catch_up_streams i am env acc sts w = Some (ok, sts', w') \<Longrightarrow> list_all js_quiet acc \<Longrightarrow> list_all js_quiet sts \<Longrightarrow> list_all js_quiet sts'"
proof (induction i am env acc sts w arbitrary: ok sts' w' rule: catch_up_streams.induct)
  case (2 i am env acc st sts w)
  obtain ok1 st1 w1 where s: "js_stream_catch_up am (env i) st w = Some (ok1, st1, w1)"
    using 2(2) by (cases "js_stream_catch_up am (env i) st w") auto
  have "js_quiet st1" using catch_up_spec [OF s] 2(4) same_handoff_quiet by auto
  then show ?case using 2 s by (cases ok1) auto
qed simp

lemma start_quiet:
  assumes "mb_js_importer_start js_alloc am env config w u = Some (True, p, w', u')" "st \<in> set (ji_streams p)"
  shows "js_quiet st"
proof -
  obtain c where c: "config = Some c" "fst (ic_streams c) \<noteq> []"
    using assms by (cases config) (auto simp: mb_js_importer_start_def js_importer_zero_def Let_def split: if_splits)
  obtain ok sts u1 where i: "init_streams 0 am env (fst (ic_streams c)) [] u = (ok, sts, u1)" by (metis prod_cases3)
  have started: "js_alloc (length (fst (ic_streams c)))" "ok"
    using assms(1) c i by (cases ok; auto simp: mb_js_importer_start_def Let_def split: if_splits prod.splits)+
  obtain r where r: "catch_up_streams 0 am env [] sts w = Some r"
    using assms(1) c i started by (cases "catch_up_streams 0 am env [] sts w") (simp_all add: mb_js_importer_start_def Let_def)
  obtain ok2 sts2 w2 where "r = (ok2, sts2, w2)" by (metis prod_cases3)
  then have k: "catch_up_streams 0 am env [] sts w = Some (ok2, sts2, w2)" "ji_streams p = sts2"
    using assms(1) c i started r
    by (cases ok2; simp add: mb_js_importer_start_def mb_js_importer_refresh_def Let_def split: prod.splits; force)+
  have "list_all js_quiet sts2" using catch_up_streams_quiet [OF k(1)] init_streams_quiet [OF i] by simp
  then show ?thesis using assms(2) k(2) by (simp add: list_all_iff)
qed

lemma js_live_init_inv: "js_quiet st \<Longrightarrow> js_inv (js_live_init st)"
  by (simp add: js_live_init_def js_quiet_def js_inv_defs)

section \<open>Every message is destroyed once\<close>

text \<open>
  \<^bold>\<open>C22\<close> Take a stream of a started importer and let its worker and the event loop interleave in any way.
  The messages that were fetched and not destroyed are exactly those the two threads hold, each held
  once: so a message is never used after it was destroyed and never destroyed twice; the worker waits
  for the very message the loop is processing; a worker that sleeps always has the loop on its way to wake it,
  also when the stream is being closed; and after the close no message is left.
\<close>

theorem js_handoff_safe:
  assumes "mb_js_importer_start js_alloc am env config w u = Some (True, p, w', u')" "st \<in> set (ji_streams p)"
    "(js_step env')\<^sup>*\<^sup>* (js_live_init st) s"
  shows "hs_live s = set (held s) \<and> distinct (held s) \<and>
    (\<forall>m. hs_loop s = JL_PROCESS m \<longrightarrow> (\<exists>ms. hs_worker s = JW_WAIT m ms)) \<and>
    (hs_asleep s \<longrightarrow> hs_async s \<or> hs_loop s = JL_TAKE \<or> loop_busy (hs_loop s)) \<and>
    (hs_loop s = JL_CLOSED \<longrightarrow> hs_live s = {})"
proof -
  have inv: "js_inv s" using consuming.reachable_inv [OF assms(3)] js_live_init_inv [OF start_quiet [OF assms(1,2)]] by blast
  have "\<exists>ms. hs_worker s = JW_WAIT m ms" if "hs_loop s = JL_PROCESS m" for m
    using inv that by (cases "hs_worker s") (auto simp: js_inv_defs)
  moreover have "hs_async s \<or> hs_loop s = JL_TAKE \<or> loop_busy (hs_loop s)" if "hs_asleep s"
    using inv that by (auto simp: js_inv_defs)
  moreover have "held s = []" if "hs_loop s = JL_CLOSED" using inv that by (auto simp: js_inv_defs)
  ultimately show ?thesis using inv by (simp add: js_inv_def)
qed

definition sample_js_stream :: pb_import_stream_config where
  "sample_js_stream =
     \<lparr>is_source = \<lparr>im_servers = ([''nats://a''], 1), im_subjects = ([''a''], 1), im_name = None, im_creds = None, im_user = None, im_password = None,
        im_token = None, im_tls_ca = None, im_tls_cert = None, im_tls_key = None, im_connect_timeout_ms = None,
        im_ping_interval_ms = None, im_reconnect_wait_ms = None, im_max_reconnect = None, im_max_pending = None, im_tls = False,
        im_tls_skip_verify = False, im_origin_header = False\<rparr>,
      is_stream = Some ''s'', is_consumer = Some ''d'', is_catch_up = True, is_has_catch_up = True\<rparr>"

definition sample_js_msg :: js_msg where
  "sample_js_msg =
     \<lparr>jm_ptr = 7, jm_meta = (NATS_OK, \<lparr>mt_timestamp = 5000000, mt_stream_seq = 1, mt_num_delivered = 1\<rparr>), jm_subject = Some ''a'',
      jm_data = Some ''xy'', jm_len = 2\<rparr>"

text \<open>A server with one message, which a handler accepts; the world is what the handler saw.\<close>

definition sample_js_env :: "(bytes \<times> bytes \<times> int) list js_env" where
  "sample_js_env =
     \<lparr>je_client = \<lparr>nc_create_options = NATS_OK, nc_set = (\<lambda>_ _. NATS_OK), nc_connect = (\<lambda>_. NATS_OK), nc_header_support = NATS_OK,
                   nc_create_msg = (\<lambda>_. NATS_OK), nc_set_header = (\<lambda>_ _. NATS_OK), nc_publish = (\<lambda>_. NATS_OK)\<rparr>,
      je_mutex_init = True, je_cond_init = True, je_async_init = True, je_thread_create = True, je_jetstream = NATS_OK,
      je_sub_options = NATS_OK, je_pull_subscribe = (\<lambda>_ _ _. NATS_OK), je_stream_info = (\<lambda>_ _. (NATS_OK, 1)),
      je_consumer_info = (\<lambda>_ _ _. (NATS_OK, 0, 1)), je_fetch = (\<lambda>_ w. (NATS_OK, [Some sample_js_msg], w)),
      je_handler = (\<lambda>_ subject payload _ wall _ w. (True, w @ [(subject, payload, wall)])), je_ack = (\<lambda>_ w. (NATS_OK, w))\<rparr>"

definition sample_js_start :: "(bool \<times> mb_js_importer \<times> (bytes \<times> bytes \<times> int) list \<times> nats_users) option" where
  "sample_js_start =
     mb_js_importer_start (\<lambda>_. True) (\<lambda>_. True) (\<lambda>_. sample_js_env) (Some \<lparr>ic_cores = ([], 0), ic_streams = ([sample_js_stream], 1)\<rparr>) [] (0, 0)"

definition sample_js_importer :: mb_js_importer where
  "sample_js_importer = fst (snd (the sample_js_start))"

definition sample_js_fetched :: js_sys where
  "sample_js_fetched =
     (js_live_init (hd (ji_streams sample_js_importer)))\<lparr>hs_worker := JW_LIST [sample_js_msg], hs_live := {7}\<rparr>"

lemma sample_js_reached:
  "(js_step sample_js_env)\<^sup>*\<^sup>* (js_live_init (hd (ji_streams sample_js_importer))) sample_js_fetched"
proof -
  let ?s = "js_live_init (hd (ji_streams sample_js_importer))"
  have "\<not> jt_closing (hs_stream ?s)" by code_simp
  then have "js_step sample_js_env ?s (?s\<lparr>hs_worker := JW_FETCH\<rparr>)"
    using w_top [of ?s sample_js_env] by (simp add: js_live_init_def)
  moreover have "js_step sample_js_env (?s\<lparr>hs_worker := JW_FETCH\<rparr>) sample_js_fetched"
    using w_fetch [of "?s\<lparr>hs_worker := JW_FETCH\<rparr>" "[sample_js_msg]" sample_js_env]
    by (simp add: js_live_init_def sample_js_fetched_def sample_js_msg_def)
  ultimately show ?thesis by (rule two_steps)
qed

theorem js_handoff_safe_witness:
  "map_option (\<lambda>r. (fst r, fst (snd (snd r)))) sample_js_start = Some (True, [(''a'', ''xy'', 5)]) \<and>
   hs_live sample_js_fetched = set (held sample_js_fetched) \<and> hs_live sample_js_fetched = {7}"
proof -
  have started: "map_option (\<lambda>r. (fst r, fst (snd (snd r)))) sample_js_start = Some (True, [(''a'', ''xy'', 5)])"
    "ji_streams sample_js_importer \<noteq> []" by code_simp+
  obtain r where r: "sample_js_start = Some r" using started(1) by (cases sample_js_start) simp_all
  have "fst r" "fst (snd (snd r)) = [(''a'', ''xy'', 5)]" using started(1) unfolding r by simp_all
  moreover have "fst (snd r) = sample_js_importer" unfolding sample_js_importer_def r by simp
  ultimately have "r = (True, sample_js_importer, [(''a'', ''xy'', 5)], snd (snd (snd r)))" by (simp add: prod_eq_iff)
  then have st: "sample_js_start = Some (True, sample_js_importer, [(''a'', ''xy'', 5)], snd (snd (snd r)))" using r by simp
  have mem: "hd (ji_streams sample_js_importer) \<in> set (ji_streams sample_js_importer)" using started(2) by simp
  note js_handoff_safe [OF st [unfolded sample_js_start_def] mem sample_js_reached]
  then show ?thesis using started(1) by (simp add: sample_js_fetched_def)
qed

end
