(* ===== verification/Jetstream_Acks.thy ===== *)
theory Jetstream_Acks
  imports Jetstream_Correct "HOL-Library.Sublist"
begin

text \<open>
  What a JetStream importer promises the server: it acknowledges a message only after the patchbay has accepted it, and
  the patchbay sees the accepted events in the order of their times.
\<close>

section \<open>A log of the calls\<close>

datatype js_event = JS_HANDLED bytes bytes int bool | JS_ACKED js_msg nats_status

text \<open>An environment whose world also keeps the calls of the handler and the acknowledgements, in order.\<close>

definition logged :: "'w js_env \<Rightarrow> ('w \<times> js_event list) js_env" where
  "logged env =
     \<lparr>je_client = je_client env, je_mutex_init = je_mutex_init env, je_cond_init = je_cond_init env, je_async_init = je_async_init env,
      je_thread_create = je_thread_create env, je_jetstream = je_jetstream env, je_sub_options = je_sub_options env,
      je_pull_subscribe = je_pull_subscribe env, je_stream_info = (\<lambda>name w. je_stream_info env name (fst w)),
      je_consumer_info = (\<lambda>name consumer w. je_consumer_info env name consumer (fst w)),
      je_fetch = (\<lambda>batch w. case je_fetch env batch (fst w) of (status, msgs, w') \<Rightarrow> (status, msgs, w', snd w)),
      je_handler = (\<lambda>c subject payload now wall replaying w.
         case je_handler env c subject payload now wall replaying (fst w) of
           (ok, w') \<Rightarrow> (ok, w', snd w @ [JS_HANDLED subject payload wall ok])),
      je_ack = (\<lambda>msg w. case je_ack env msg (fst w) of (status, w') \<Rightarrow> (status, w', snd w @ [JS_ACKED msg status]))\<rparr>"

text \<open>A message that reached the handler: its time, whether it was accepted, and the answer to its acknowledgement.\<close>

record js_entry =
  en_msg :: js_msg
  en_wall :: int
  en_accepted :: bool
  en_status :: nats_status

definition entry_events :: "js_entry \<Rightarrow> js_event list" where
  "entry_events e =
     (case js_frame (en_msg e) of
        None \<Rightarrow> []
      | Some (subject, payload) \<Rightarrow>
          JS_HANDLED subject payload (en_wall e) (en_accepted e) # (if en_accepted e then [JS_ACKED (en_msg e) (en_status e)] else []))"

definition entry_ok :: "js_entry \<Rightarrow> bool" where
  "entry_ok e \<longleftrightarrow> (\<exists>subject payload. js_frame (en_msg e) = Some (subject, payload) \<and> subject_allowed subject)"

definition entry_acked :: "js_entry \<Rightarrow> bool" where
  "entry_acked e \<longleftrightarrow> en_accepted e \<and> en_status e = NATS_OK"

definition acked_times :: "js_entry list \<Rightarrow> int list" where
  "acked_times es = map en_wall (filter entry_acked es)"

text \<open>What the messages \<open>ms\<close> did: the entries of those that reached the handler, and what the stream counted.\<close>

definition batch_outcome :: "js_msg list \<Rightarrow> js_entry list \<Rightarrow> bool \<Rightarrow> mb_js_stream \<Rightarrow> mb_js_stream \<Rightarrow> bool" where
  "batch_outcome ms es ok st st' \<longleftrightarrow>
     list_all entry_ok es \<and> subseq (map en_msg es) ms \<and>
     (ok \<longleftrightarrow> map en_msg (filter entry_acked es) = ms) \<and>
     sorted (jt_last_event_wall_ms st # acked_times es) \<and>
     jt_last_event_wall_ms st' = last (jt_last_event_wall_ms st # acked_times es) \<and>
     jt_received st' = jt_received st + of_nat (length ms) \<and>
     jt_acked st' = jt_acked st + of_nat (length (acked_times es)) \<and>
     jt_processed st' = jt_processed st + of_nat (length (acked_times es)) \<and>
     jt_failed st' = jt_failed st + of_nat (length ms - length (acked_times es)) \<and> length (acked_times es) \<le> length ms"

lemma event_time_ge:
  assumes "event_time_from_msg st msg = (Some (meta, now, wall), st')"
  shows "0 \<le> wall" "0 \<le> jt_last_event_wall_ms st \<Longrightarrow> jt_last_event_wall_ms st \<le> wall"
  using assms by (auto simp: event_time_from_msg_def js_set_status_def Let_def split: if_splits)

lemma logged_ack: "je_ack (logged env) msg (w, calls) = (case je_ack env msg w of (status, w') \<Rightarrow> (status, w', calls @ [JS_ACKED msg status]))"
  by (simp add: logged_def)

lemma logged_handler:
  "je_handler (logged env) c subject payload now wall replaying (w, calls) = (ok, v) \<Longrightarrow> \<exists>w'. v = (w', calls @ [JS_HANDLED subject payload wall ok])"
  by (auto simp: logged_def split: prod.splits)

lemma one_message:
  assumes "js_stream_process_msg (logged env) st msg replaying (w, calls) = (ok, st', w', calls')" "0 \<le> jt_last_event_wall_ms st"
  shows "\<exists>es. calls' = calls @ concat (map entry_events es) \<and> batch_outcome [msg] es ok st st'"
  using assms(1)
proof (cases rule: process_msg_cases)
  case (refused st1 x)
  then have "calls' = calls @ concat (map entry_events []) \<and> batch_outcome [msg] [] ok st st'"
    by (simp add: batch_outcome_def acked_times_def js_failed_def)
  then show ?thesis by blast
next
  case (failed st1 meta now wall subject payload)
  let ?e = "\<lparr>en_msg = msg, en_wall = wall, en_accepted = False, en_status = NATS_OK\<rparr>"
  have "calls' = calls @ concat (map entry_events [?e])"
    using logged_handler [OF failed(8)] failed(6) by (auto simp: entry_events_def)
  moreover have "batch_outcome [msg] [?e] ok st st'"
    using failed(2,3,6,7,9) by (auto simp: batch_outcome_def acked_times_def entry_ok_def entry_acked_def js_failed_def)
  ultimately show ?thesis by blast
next
  case (handled st1 w1 meta now wall subject payload)
  obtain v where v: "w1 = (v, calls @ [JS_HANDLED subject payload wall True])" using logged_handler [OF handled(6)] by blast
  obtain status v' where a: "je_ack env msg v = (status, v')" by (cases "je_ack env msg v")
  let ?e = "\<lparr>en_msg = msg, en_wall = wall, en_accepted = True, en_status = status\<rparr>"
  have time: "jt_last_event_wall_ms st \<le> wall" using event_time_ge(2) [OF handled(3)] assms(2) by simp
  have ack: "(if status = NATS_OK
      then (True, st1\<lparr>jt_acked := jt_acked st1 + 1, jt_processed := jt_processed st1 + 1, jt_last_stream_seq := mt_stream_seq meta,
              jt_last_event_now_ms := now, jt_last_event_wall_ms := wall\<rparr>, v', calls @ [JS_HANDLED subject payload wall True, JS_ACKED msg status])
      else (False, js_failed (st1\<lparr>jt_last_status := status\<rparr>), v', calls @ [JS_HANDLED subject payload wall True, JS_ACKED msg status]))
    = (ok, st', w', calls')"
    using handled(7) v a by (simp add: js_acknowledge_def logged_ack js_set_status_def split: if_splits)
  have "calls' = calls @ concat (map entry_events [?e])" using ack handled(4) by (auto simp: entry_events_def split: if_splits)
  moreover have "batch_outcome [msg] [?e] ok st st'"
    using ack handled(4,5,8) time
    by (cases "status = NATS_OK") (auto simp: batch_outcome_def acked_times_def entry_ok_def entry_acked_def js_failed_def)
  ultimately show ?thesis by blast
qed

section \<open>A batch\<close>

lemma acked_times_append [simp]: "acked_times (es @ fs) = acked_times es @ acked_times fs"
  by (simp add: acked_times_def)

text \<open>The acknowledged messages are a subsequence of the messages, so there are at most as many.\<close>

lemma acked_subseq: "subseq (map en_msg es) ms \<Longrightarrow> subseq (map en_msg (filter entry_acked es)) ms"
  by (meson subseq_filter_left subseq_map subseq_order.trans)

lemma acked_all_append:
  assumes "subseq (map en_msg es) ms" "subseq (map en_msg fs) ns"
  shows "map en_msg (filter entry_acked (es @ fs)) = ms @ ns \<longleftrightarrow>
    map en_msg (filter entry_acked es) = ms \<and> map en_msg (filter entry_acked fs) = ns"
proof -
  have e: "subseq (map en_msg (filter entry_acked es)) ms" and f: "subseq (map en_msg (filter entry_acked fs)) ns"
    using acked_subseq assms by blast+
  have "length (map en_msg (filter entry_acked es)) = length ms" if "map en_msg (filter entry_acked (es @ fs)) = ms @ ns"
  proof -
    have "length (filter entry_acked es) + length (filter entry_acked fs) = length ms + length ns"
      using arg_cong [OF that, of length] unfolding length_map filter_append length_append .
    then show ?thesis using list_emb_length [OF e] list_emb_length [OF f] by simp
  qed
  then show ?thesis by (auto simp: append_eq_append_conv)
qed

lemma sorted_last_append:
  assumes "sorted (a # xs)" "sorted (last (a # xs) # ys)"
  shows "sorted (a # xs @ ys)"
proof -
  have le: "x \<le> last (a # xs)" if "x \<in> set (a # xs)" for x
    using sorted_nth_mono [OF assms(1)] that by (metis in_set_conv_nth last_conv_nth le_numeral_extra(4) length_0_conv diff_Suc_less diff_Suc_1 length_Cons less_Suc_eq_le list.distinct(1) not_less_eq order_refl)
  have "x \<le> y" if "x \<in> set (a # xs)" "y \<in> set ys" for x y
    using le [OF that(1)] assms(2) that(2) by (metis dual_order.trans sorted_simps(2))
  then show ?thesis using assms by (auto simp: sorted_append)
qed

lemma batch_outcome_append:
  assumes "batch_outcome ms es ok st st1" "batch_outcome ns fs ok' st1 st'"
  shows "batch_outcome (ms @ ns) (es @ fs) (ok \<and> ok') st st'"
proof -
  note a = assms(1) [unfolded batch_outcome_def] and b = assms(2) [unfolded batch_outcome_def]
  show ?thesis
    unfolding batch_outcome_def
  proof (intro conjI)
    show "jt_last_event_wall_ms st' = last (jt_last_event_wall_ms st # acked_times (es @ fs))"
      using a b by (auto simp: last_append)
    show "sorted (jt_last_event_wall_ms st # acked_times (es @ fs))"
      using sorted_last_append [of "jt_last_event_wall_ms st" "acked_times es" "acked_times fs"] a b by simp
    show "subseq (map en_msg (es @ fs)) (ms @ ns)" using a b by (simp add: list_emb_append_mono)
    show "(ok \<and> ok') = (map en_msg (filter entry_acked (es @ fs)) = ms @ ns)" using acked_all_append a b by blast
    have "length (ms @ ns) - length (acked_times (es @ fs)) = length ms - length (acked_times es) + (length ns - length (acked_times fs))"
      using a b by simp
    then show "jt_failed st' = jt_failed st + of_nat (length (ms @ ns) - length (acked_times (es @ fs)))"
      using a b by (simp only: of_nat_add add.assoc)
  qed (use a b in simp_all)
qed

definition messages_of :: "js_msg option list \<Rightarrow> js_msg list" where
  "messages_of msgs = [m. Some m \<leftarrow> msgs]"

lemma batch_calls:
  "process_batch (logged env) replaying msgs ok st (w, calls) = (ok', st', w', calls') \<Longrightarrow> 0 \<le> jt_last_event_wall_ms st \<Longrightarrow>
   \<exists>es ok1. calls' = calls @ concat (map entry_events es) \<and> batch_outcome (messages_of msgs) es ok1 st st' \<and> ok' = (ok1 \<and> ok)"
proof (induction msgs arbitrary: ok st w calls)
  case Nil
  then have "calls' = calls @ concat (map entry_events []) \<and> batch_outcome (messages_of []) [] True st st' \<and> ok' = (True \<and> ok)"
    by (simp add: batch_outcome_def acked_times_def messages_of_def)
  then show ?case by blast
next
  case (Cons m msgs)
  show ?case
  proof (cases m)
    case None
    then show ?thesis using Cons by (simp add: messages_of_def)
  next
    case (Some msg)
    obtain ok1 st1 w1 calls1 where one: "js_stream_process_msg (logged env) st msg replaying (w, calls) = (ok1, st1, w1, calls1)"
      by (metis prod_cases4)
    obtain es where es: "calls1 = calls @ concat (map entry_events es)" "batch_outcome [msg] es ok1 st st1"
      using one_message [OF one Cons.prems(2)] by blast
    have later: "process_batch (logged env) replaying msgs (ok1 \<and> ok) st1 (w1, calls1) = (ok', st', w', calls')"
      using Cons.prems(1) Some one by simp
    have "0 \<le> jt_last_event_wall_ms st1"
      using es(2) Cons.prems(2) by (cases "acked_times es") (auto simp: batch_outcome_def intro: order_trans)
    from Cons.IH [OF later this] obtain fs ok2 where fs: "calls' = calls1 @ concat (map entry_events fs)"
        "batch_outcome (messages_of msgs) fs ok2 st1 st'" "ok' = (ok2 \<and> ok1 \<and> ok)" by blast
    have "batch_outcome (messages_of (m # msgs)) (es @ fs) (ok1 \<and> ok2) st st'"
      using batch_outcome_append [OF es(2) fs(2)] Some by (simp add: messages_of_def)
    moreover have "calls' = calls @ concat (map entry_events (es @ fs))" using es(1) fs(1) by simp
    moreover have "ok' = ((ok1 \<and> ok2) \<and> ok)" using fs(3) by auto
    ultimately show ?thesis by blast
  qed
qed

text \<open>
  \<^bold>\<open>C23\<close> Whatever batch of messages the server delivers and whatever the handler and the server answer, the calls are made in
  this order: each message that is well-formed and has an importable subject reaches the handler once, in the order of the batch, and
  it is acknowledged right after the handler accepted it and never otherwise. The batch succeeds exactly
  when all its messages were acknowledged; the times given to the handler for the acknowledged ones never
  go back, also across batches; and every message counts as received and either as processed or as failed.
\<close>

theorem js_acks_after_handling:
  assumes "process_batch (logged env) replaying msgs True st (w, []) = (ok, st', w', calls)" "0 \<le> jt_last_event_wall_ms st"
  shows "\<exists>es. calls = concat (map entry_events es) \<and> batch_outcome (messages_of msgs) es ok st st'"
  using batch_calls [OF assms] by auto

definition sample_js_log :: "bool \<times> mb_js_stream \<times> (bytes \<times> bytes \<times> int) list \<times> js_event list" where
  "sample_js_log = process_batch (logged sample_js_env) True [Some sample_js_msg, None] True (js_stream_zero sample_js_stream) ([], [])"

theorem js_acks_after_handling_witness:
  "fst sample_js_log \<and> snd (snd (snd sample_js_log)) = [JS_HANDLED ''a'' ''xy'' 5 True, JS_ACKED sample_js_msg NATS_OK] \<and>
   (\<exists>es. snd (snd (snd sample_js_log)) = concat (map entry_events es) \<and>
      batch_outcome [sample_js_msg] es True (js_stream_zero sample_js_stream) (fst (snd sample_js_log)))"
proof -
  have ok: "fst sample_js_log" "snd (snd (snd sample_js_log)) = [JS_HANDLED ''a'' ''xy'' 5 True, JS_ACKED sample_js_msg NATS_OK]"
    "0 \<le> jt_last_event_wall_ms (js_stream_zero sample_js_stream)" by code_simp+
  have "process_batch (logged sample_js_env) True [Some sample_js_msg, None] True (js_stream_zero sample_js_stream) ([], [])
      = (True, fst (snd sample_js_log), fst (snd (snd sample_js_log)), snd (snd (snd sample_js_log)))"
    using ok(1) unfolding sample_js_log_def by (simp add: prod_eq_iff)
  from js_acks_after_handling [OF this ok(3)] show ?thesis using ok(1,2) by (simp add: messages_of_def)
qed

end
