(* ===== verification/Bridge_Correct.thy ===== *)
theory Bridge_Correct
  imports Bridge "HOL-Library.Sublist"
begin

text \<open>What the bridge exports of a sequence of publishes.\<close>

section \<open>One publish\<close>

definition export_message :: "mb_bridge \<Rightarrow> pb_bridge_config \<Rightarrow> bytes \<times> bytes \<times> mb_router_publish_options \<Rightarrow> nats_msg" where
  "export_message b c p =
     (case p of (subject, payload, options) \<Rightarrow>
        \<lparr>nm_subject = c_string subject, nm_payload = payload, nm_headers = bridge_headers b c options\<rparr>)"

definition accepting :: "nats_client \<Rightarrow> bool" where
  "accepting nc \<longleftrightarrow> (\<forall>m h. nc_create_msg nc m = NATS_OK \<and> nc_set_header nc m h = NATS_OK \<and> nc_publish nc m = NATS_OK)"

lemma accepting_create: "accepting nc \<Longrightarrow> nc_create_msg nc m = NATS_OK"
  by (simp add: accepting_def)

lemma send_with_headers_spec:
  "send_with_headers nc msg hs = (status, sent) \<Longrightarrow>
   (status = NATS_OK \<longrightarrow> sent = [msg\<lparr>nm_headers := nm_headers msg @ hs\<rparr>]) \<and> (status \<noteq> NATS_OK \<longrightarrow> sent = []) \<and> (accepting nc \<longrightarrow> status = NATS_OK)"
  by (induction nc msg hs rule: send_with_headers.induct) (auto simp: Let_def accepting_def split: if_splits)

lemma bridge_send_spec:
  assumes "bridge_send nc msg hs = (status, sent)"
  shows "(status = NATS_OK \<longrightarrow> sent = [msg\<lparr>nm_headers := nm_headers msg @ hs\<rparr>]) \<and> (status \<noteq> NATS_OK \<longrightarrow> sent = []) \<and> (accepting nc \<longrightarrow> status = NATS_OK)"
proof (cases "hs \<noteq> [] \<and> nc_create_msg nc msg \<noteq> NATS_OK")
  case True
  then have "status = nc_create_msg nc msg" "sent = []" using assms by (simp_all add: bridge_send_def Let_def)
  then show ?thesis using True accepting_create by auto
next
  case False
  then have "send_with_headers nc msg hs = (status, sent)" using assms by (cases "hs = []") (simp_all only: bridge_send_def Let_def simp_thms if_True if_False)
  then show ?thesis by (rule send_with_headers_spec)
qed

text \<open>What stays the same while a bridge runs.\<close>

definition same_bridge :: "mb_bridge \<Rightarrow> mb_bridge \<Rightarrow> bool" where
  "same_bridge b b' \<longleftrightarrow>
     bg_config b' = bg_config b \<and> bg_conn b' = bg_conn b \<and> bg_started b' = bg_started b \<and> bg_origin_header_value b' = bg_origin_header_value b"

lemma same_bridge_headers: "same_bridge b b' \<Longrightarrow> bridge_headers b' c options = bridge_headers b c options"
  by (simp add: same_bridge_def bridge_headers_def)

definition publish_outcome :: "mb_bridge \<Rightarrow> pb_bridge_config \<Rightarrow> bytes \<times> bytes \<times> mb_router_publish_options \<Rightarrow> mb_bridge \<Rightarrow> nats_msg list \<Rightarrow> bool" where
  "publish_outcome b c p b' sent \<longleftrightarrow>
     (if bridge_matches_export c (fst p)
      then sent = [export_message b c p] \<and> bg_published b' = bg_published b + 1 \<and> bg_dropped b' = bg_dropped b
         \<or> sent = [] \<and> bg_published b' = bg_published b \<and> bg_dropped b' = bg_dropped b + 1
      else sent = [] \<and> b' = b)"

definition running :: "mb_bridge \<Rightarrow> pb_bridge_config \<Rightarrow> bool" where
  "running b c \<longleftrightarrow> bg_config b = Some c \<and> bg_started b \<and> bg_conn b \<noteq> None"

definition small_publish :: "bytes \<times> bytes \<times> mb_router_publish_options \<Rightarrow> bool" where
  "small_publish p \<longleftrightarrow> length (fst p) < 2 ^ 48 \<and> length (fst (snd p)) < 2 ^ 31"

lemma publish_once:
  assumes "mb_bridge_publish_with_options am nc b subject payload options = (b', sent)" "running b c"
  shows "same_bridge b b' \<and> publish_outcome b c (subject, payload, options) b' sent"
proof (cases "bridge_matches_export c subject \<and> length payload \<le> 2 ^ 31 - 1 \<and> mb_array_reserve am (bg_subject_scratch_cap b) (length subject + 1) 1 64 \<noteq> None")
  case False
  then show ?thesis
    using assms by (auto simp: mb_bridge_publish_with_options_def running_def same_bridge_def publish_outcome_def split: if_splits option.splits)
next
  case True
  then obtain cap where cap: "mb_array_reserve am (bg_subject_scratch_cap b) (length subject + 1) 1 64 = Some cap" by blast
  let ?b = "b\<lparr>bg_subject_scratch_cap := cap\<rparr>" and ?msg = "\<lparr>nm_subject = c_string subject, nm_payload = payload, nm_headers = []\<rparr>"
  have headers: "bridge_headers ?b c options = bridge_headers b c options" by (simp add: bridge_headers_def)
  obtain status out where r: "bridge_send nc ?msg (bridge_headers b c options) = (status, out)"
    by (cases "bridge_send nc ?msg (bridge_headers b c options)")
  have "(if status = NATS_OK then (?b\<lparr>bg_published := bg_published b + 1\<rparr>, out)
         else (?b\<lparr>bg_dropped := bg_dropped b + 1, bg_last_status := status\<rparr>, out)) = (b', sent)"
    using assms True cap r headers by (simp add: mb_bridge_publish_with_options_def running_def Let_def split: if_splits)
  then show ?thesis
    using bridge_send_spec [OF r] True
    by (cases "status = NATS_OK") (auto simp: same_bridge_def publish_outcome_def export_message_def)
qed

lemma publish_accepted:
  assumes "mb_bridge_publish_with_options (\<lambda>_. True) nc b subject payload options = (b', sent)" "running b c" "accepting nc"
    "small_publish (subject, payload, options)"
  shows "sent = (if bridge_matches_export c subject then [export_message b c (subject, payload, options)] else [])"
proof (cases "bridge_matches_export c subject")
  case False
  then show ?thesis using publish_once [OF assms(1,2)] by (simp add: publish_outcome_def)
next
  case True
  have "length subject + 1 \<le> 2 ^ 48" using assms(4) by (simp add: small_publish_def)
  then obtain cap where cap: "mb_array_reserve (\<lambda>_. True) (bg_subject_scratch_cap b) (length subject + 1) 1 64 = Some cap"
    using array_reserve_with_memory [of "length subject + 1" 1 64 "bg_subject_scratch_cap b"] by auto
  let ?msg = "\<lparr>nm_subject = c_string subject, nm_payload = payload, nm_headers = []\<rparr>"
  have headers: "bridge_headers (b\<lparr>bg_subject_scratch_cap := cap\<rparr>) c options = bridge_headers b c options" by (simp add: bridge_headers_def)
  obtain status out where r: "bridge_send nc ?msg (bridge_headers b c options) = (status, out)"
    by (cases "bridge_send nc ?msg (bridge_headers b c options)")
  have "sent = out"
    using assms True cap r headers by (simp add: mb_bridge_publish_with_options_def running_def small_publish_def Let_def split: if_splits)
  then show ?thesis using bridge_send_spec [OF r] assms(3) True by (simp add: export_message_def)
qed

section \<open>A sequence of publishes\<close>

fun bridge_run ::
  "allocator \<Rightarrow> nats_client \<Rightarrow> mb_bridge \<Rightarrow> (bytes \<times> bytes \<times> mb_router_publish_options) list \<Rightarrow> mb_bridge \<times> nats_msg list" where
  "bridge_run am nc b [] = (b, [])"
| "bridge_run am nc b ((subject, payload, options) # ps) =
     (case mb_bridge_publish_with_options am nc b subject payload options of
        (b, sent) \<Rightarrow> (case bridge_run am nc b ps of (b, later) \<Rightarrow> (b, sent @ later)))"

definition exported :: "mb_bridge \<Rightarrow> pb_bridge_config \<Rightarrow> (bytes \<times> bytes \<times> mb_router_publish_options) list \<Rightarrow> nats_msg list" where
  "exported b c ps = map (export_message b c) (filter (\<lambda>p. bridge_matches_export c (fst p)) ps)"

lemma exported_same: "same_bridge b b' \<Longrightarrow> exported b' c ps = exported b c ps"
  by (auto simp: exported_def export_message_def same_bridge_headers split: prod.split)

lemma running_same: "same_bridge b b' \<Longrightarrow> running b c \<Longrightarrow> running b' c"
  by (simp add: same_bridge_def running_def)

definition run_outcome :: "mb_bridge \<Rightarrow> pb_bridge_config \<Rightarrow> (bytes \<times> bytes \<times> mb_router_publish_options) list \<Rightarrow> mb_bridge \<Rightarrow> nats_msg list \<Rightarrow> bool" where
  "run_outcome b c ps b' sent \<longleftrightarrow>
     subseq sent (exported b c ps) \<and> bg_published b' = bg_published b + of_nat (length sent) \<and>
     bg_dropped b' = bg_dropped b + of_nat (length (exported b c ps) - length sent)"

lemma run_outcome_Cons:
  assumes "publish_outcome b c p b1 sent" "same_bridge b b1" "run_outcome b1 c ps b' later"
  shows "run_outcome b c (p # ps) b' (sent @ later)"
proof -
  have sub: "subseq later (exported b c ps)" using assms(3) exported_same [OF assms(2)] by (simp add: run_outcome_def)
  then have "length later \<le> length (exported b c ps)" by (rule list_emb_length)
  then show ?thesis
    using assms(1,3) sub exported_same [OF assms(2), of c ps]
    by (auto simp: run_outcome_def publish_outcome_def exported_def Suc_diff_le split: if_splits)
qed

lemma bridge_run_outcome:
  "bridge_run am nc b ps = (b', sent) \<Longrightarrow> running b c \<Longrightarrow> run_outcome b c ps b' sent"
proof (induction ps arbitrary: b b' sent)
  case Nil
  then show ?case by (simp add: run_outcome_def exported_def)
next
  case (Cons p ps)
  obtain subject payload options where p: "p = (subject, payload, options)" by (cases p) auto
  obtain b1 now where one: "mb_bridge_publish_with_options am nc b subject payload options = (b1, now)"
    by (cases "mb_bridge_publish_with_options am nc b subject payload options")
  obtain b2 later where two: "bridge_run am nc b1 ps = (b2, later)" by (cases "bridge_run am nc b1 ps")
  note o = publish_once [OF one Cons.prems(2)]
  have "run_outcome b1 c ps b2 later" using Cons.IH [OF two] o running_same Cons.prems(2) by blast
  then show ?case using run_outcome_Cons o Cons.prems(1) p one two by fastforce
qed

lemma bridge_run_accepted:
  "bridge_run (\<lambda>_. True) nc b ps = (b', sent) \<Longrightarrow> running b c \<Longrightarrow> accepting nc \<Longrightarrow> list_all small_publish ps \<Longrightarrow> sent = exported b c ps"
proof (induction ps arbitrary: b b' sent)
  case Nil
  then show ?case by (simp add: exported_def)
next
  case (Cons p ps)
  obtain subject payload options where p: "p = (subject, payload, options)" by (cases p) auto
  obtain b1 now where one: "mb_bridge_publish_with_options (\<lambda>_. True) nc b subject payload options = (b1, now)"
    by (cases "mb_bridge_publish_with_options (\<lambda>_. True) nc b subject payload options")
  obtain b2 later where two: "bridge_run (\<lambda>_. True) nc b1 ps = (b2, later)" by (cases "bridge_run (\<lambda>_. True) nc b1 ps")
  have same: "same_bridge b b1" using publish_once [OF one Cons.prems(2)] by blast
  have "later = exported b c ps"
    using Cons.IH [OF two running_same [OF same Cons.prems(2)] Cons.prems(3)] Cons.prems(4) exported_same [OF same] by simp
  moreover have "now = (if bridge_matches_export c subject then [export_message b c p] else [])"
    using publish_accepted [OF one Cons.prems(2,3)] Cons.prems(4) p by simp
  ultimately show ?case using Cons.prems(1) p one two by (cases "bridge_matches_export c subject") (auto simp: exported_def)
qed

text \<open>
  \<^bold>\<open>C24\<close> A started bridge exports a sequence of publishes in order and counts each of them once. What it sends is a subsequence of the
  messages for the publishes whose subject matches an export filter, each with its subject, its payload
  and exactly its headers; it counts every message sent as published and every other matching publish as dropped, and a publish that matches no filter
  leaves no trace. With a client that accepts everything and enough memory, it sends all of them.
\<close>

theorem bridge_exports_exactly:
  assumes "mb_bridge_start am nc host (Some c) u = (True, b, u')" "bridge_run am' nc' b ps = (b', sent)"
  shows "subseq sent (exported b c ps) \<and> bg_published b' = of_nat (length sent) \<and>
    bg_dropped b' = of_nat (length (exported b c ps) - length sent) \<and>
    (am' = (\<lambda>_. True) \<and> accepting nc' \<and> list_all small_publish ps \<longrightarrow> sent = exported b c ps)"
proof -
  have b: "running b c" "bg_published b = 0" "bg_dropped b = 0"
    using assms(1)
    by (auto simp: mb_bridge_start_def bridge_connect_def bridge_new_def running_def Let_def split: if_splits prod.splits bool.splits option.splits)
  then show ?thesis
    using bridge_run_outcome [OF assms(2) b(1)] bridge_run_accepted [of nc' b ps b' sent c] assms(2) by (auto simp: run_outcome_def)
qed

definition sample_bridge :: pb_bridge_config where
  "sample_bridge = bridge_zero\<lparr>br_servers := ([''nats://a''], 1), br_exports := ([''a.>''], 1), br_origin_header := True, br_replay_header := True\<rparr>"

definition sample_client :: nats_client where
  "sample_client =
     \<lparr>nc_create_options = NATS_OK, nc_set = (\<lambda>_ _. NATS_OK), nc_connect = (\<lambda>_. NATS_OK), nc_header_support = NATS_OK,
      nc_create_msg = (\<lambda>_. NATS_OK), nc_set_header = (\<lambda>_ _. NATS_OK), nc_publish = (\<lambda>_. NATS_OK)\<rparr>"

definition sample_started :: "bool \<times> mb_bridge \<times> nats_users" where
  "sample_started = mb_bridge_start (\<lambda>_. True) sample_client (Some ''h'') (Some sample_bridge) (0, 0)"

definition sample_publishes :: "(bytes \<times> bytes \<times> mb_router_publish_options) list" where
  "sample_publishes =
     [(''a.b'', ''x'', \<lparr>opt_replaying = True, opt_has_assumed_ts_ms = True, opt_assumed_ts_ms = 12\<rparr>),
      (''c'', ''y'', \<lparr>opt_replaying = False, opt_has_assumed_ts_ms = False, opt_assumed_ts_ms = 0\<rparr>)]"

definition sample_run :: "mb_bridge \<times> nats_msg list" where
  "sample_run = bridge_run (\<lambda>_. True) sample_client (fst (snd sample_started)) sample_publishes"

theorem bridge_exports_exactly_witness:
  "fst sample_started \<and> snd sample_run = exported (fst (snd sample_started)) sample_bridge sample_publishes \<and>
   snd sample_run = [\<lparr>nm_subject = ''a.b'', nm_payload = ''x'',
     nm_headers = [(''x-monoblok'', ''h''), (''x-monoblok-replay'', ''true''), (''x-monoblok-assumed-ts'', ''12'')]\<rparr>] \<and>
   bg_published (fst sample_run) = 1"
proof -
  have started: "fst sample_started" by code_simp
  then have "mb_bridge_start (\<lambda>_. True) sample_client (Some ''h'') (Some sample_bridge) (0, 0) = (True, fst (snd sample_started), snd (snd sample_started))"
    by (simp add: sample_started_def prod_eq_iff)
  moreover have "bridge_run (\<lambda>_. True) sample_client (fst (snd sample_started)) sample_publishes = (fst sample_run, snd sample_run)"
    by (simp add: sample_run_def)
  moreover have "accepting sample_client" by (simp add: accepting_def sample_client_def)
  moreover have "list_all small_publish sample_publishes" by (simp add: sample_publishes_def small_publish_def)
  moreover have "exported (fst (snd sample_started)) sample_bridge sample_publishes = [\<lparr>nm_subject = ''a.b'', nm_payload = ''x'',
     nm_headers = [(''x-monoblok'', ''h''), (''x-monoblok-replay'', ''true''), (''x-monoblok-assumed-ts'', ''12'')]\<rparr>]" by code_simp
  ultimately show ?thesis using started bridge_exports_exactly by fastforce
qed

end
