(* ===== verification/Validate.thy ===== *)
theory Validate
  imports Json_Front Files
begin

text \<open>
  The validator of patchbay files (\<open>src/src/patchbay/pb_validate.c\<close>): it checks the shape of every top-level
  form and runs each rule once on a made-up message. \<open>value_is_env_form\<close> and
  \<open>is_export_config_head\<close> have the same text here and in \<open>src/src/patchbay/pb_program.c\<close> and are modelled there.
  The messages on stderr are not modelled.
\<close>

definition discard_publish :: "bytes \<Rightarrow> bytes \<Rightarrow> 'w eval_st \<Rightarrow> (bool \<times> 'w eval_st) option" where
  "discard_publish subject payload s =
     Some (mb_proto_subject_valid subject False \<and> \<not> mb_router_subject_has_lvc_prefix subject
       \<and> \<not> mb_router_subject_has_stats_prefix subject, s)"

text \<open>\<open>None\<close> is a failed allocation.\<close>

definition env_value_nonempty :: "load_env \<Rightarrow> bytes \<Rightarrow> bool option" where
  "env_value_nonempty env name =
     (if \<not> ld_heap env (length name + 1) then None
      else Some (case ld_getenv env (takeWhile (\<lambda>c. c \<noteq> NUL) name) of None \<Rightarrow> False | Some t \<Rightarrow> t \<noteq> []))"

definition validate_config_string :: "load_env \<Rightarrow> pb_value \<Rightarrow> bool" where
  "validate_config_string env v \<longleftrightarrow>
     (case v of
        PB_STRING t \<Rightarrow> t \<noteq> []
      | _ \<Rightarrow>
          if value_is_env_form v
          then (case v of
                  PB_LIST [_, PB_STRING name] \<Rightarrow>
                    if name = [] then False else (case env_value_nonempty env name of None \<Rightarrow> False | Some nonempty \<Rightarrow> nonempty)
                | _ \<Rightarrow> False)
          else False)"

definition is_string :: "pb_value \<Rightarrow> bool" where
  "is_string v \<longleftrightarrow> (case v of PB_STRING _ \<Rightarrow> True | _ \<Rightarrow> False)"

definition validate_config_string_list :: "load_env \<Rightarrow> pb_value \<Rightarrow> bool" where
  "validate_config_string_list env v \<longleftrightarrow>
     (if is_string v \<or> value_is_env_form v then validate_config_string env v
      else case v of
        PB_VECTOR vs \<Rightarrow> vs \<noteq> [] \<and> list_all (validate_config_string env) vs
      | PB_LIST vs \<Rightarrow> vs \<noteq> [] \<and> list_all (validate_config_string env) vs
      | _ \<Rightarrow> False)"

definition config_string_list_has_one :: "pb_value \<Rightarrow> bool" where
  "config_string_list_has_one v \<longleftrightarrow>
     is_string v \<or> value_is_env_form v \<or> (case v of PB_VECTOR vs \<Rightarrow> length vs = 1 | PB_LIST vs \<Rightarrow> length vs = 1 | _ \<Rightarrow> False)"

definition is_bool :: "pb_value \<Rightarrow> bool" where
  "is_bool v \<longleftrightarrow> (case v of PB_BOOL _ \<Rightarrow> True | _ \<Rightarrow> False)"

definition is_number :: "pb_value \<Rightarrow> bool" where
  "is_number v \<longleftrightarrow> (case v of PB_NUMBER _ \<Rightarrow> True | _ \<Rightarrow> False)"

definition key_in :: "bytes \<Rightarrow> bytes list \<Rightarrow> bool" where
  "key_in key lits \<longleftrightarrow> list_ex (pb_slice_eq_lit key) lits"

section \<open>Imports\<close>

record import_seen =
  seen_servers :: bool
  seen_subjects :: bool
  seen_stream :: bool
  seen_consumer :: bool

text \<open>One option of an entry; \<open>None\<close> rejects it.\<close>

definition validate_import_option :: "load_env \<Rightarrow> bool \<Rightarrow> import_seen \<Rightarrow> bytes \<Rightarrow> pb_value \<Rightarrow> import_seen option" where
  "validate_import_option env stream_entry seen key v =
     (if key_in key [''servers'', ''subject'', ''subjects''] then
        if pb_slice_eq_lit key ''servers'' then
          (if validate_config_string_list env v then Some (seen\<lparr>seen_servers := True\<rparr>) else None)
        else if stream_entry \<and> \<not> config_string_list_has_one v then None
        else if validate_config_string_list env v then Some (seen\<lparr>seen_subjects := True\<rparr>) else None
      else if key_in key [''tls'', ''tls-skip-verify'', ''origin-header'', ''catch-up''] then
        if \<not> stream_entry \<and> pb_slice_eq_lit key ''catch-up'' then None
        else if is_bool v then Some seen else None
      else if key_in key [''connect-timeout-ms'', ''ping-interval-ms'', ''reconnect-wait-ms'', ''max-reconnect'', ''max-pending''] then
        if is_number v then Some seen else None
      else if key_in key [''name'', ''creds'', ''user'', ''password'', ''token'', ''tls-ca'', ''tls-cert'', ''tls-key'']
           \<or> stream_entry \<and> key_in key [''stream'', ''consumer''] then
        let seen = (if pb_slice_eq_lit key ''stream'' then seen\<lparr>seen_stream := True\<rparr>
                    else if pb_slice_eq_lit key ''consumer'' then seen\<lparr>seen_consumer := True\<rparr> else seen)
        in if validate_config_string env v then Some seen else None
      else None)"

fun validate_import_loop :: "load_env \<Rightarrow> bool \<Rightarrow> import_seen \<Rightarrow> pb_value list \<Rightarrow> import_seen option" where
  "validate_import_loop env stream_entry seen (PB_KEYWORD key # v # rest) =
     (case validate_import_option env stream_entry seen key v of
        None \<Rightarrow> None
      | Some seen \<Rightarrow> validate_import_loop env stream_entry seen rest)"
| "validate_import_loop env stream_entry seen [] = Some seen"
| "validate_import_loop env stream_entry seen _ = None"

definition validate_import_entry_options :: "load_env \<Rightarrow> pb_value list \<Rightarrow> bool \<Rightarrow> bool" where
  "validate_import_entry_options env options stream_entry \<longleftrightarrow>
     (if options = [] \<or> odd (length options) then False
      else case validate_import_loop env stream_entry
                  \<lparr>seen_servers = False, seen_subjects = False, seen_stream = False, seen_consumer = False\<rparr> options of
        None \<Rightarrow> False
      | Some seen \<Rightarrow>
          seen_servers seen \<and> seen_subjects seen \<and> (stream_entry \<longrightarrow> seen_stream seen) \<and> (stream_entry \<longrightarrow> seen_consumer seen))"

fun validate_entry :: "load_env \<Rightarrow> bool \<Rightarrow> pb_value \<Rightarrow> bool" where
  "validate_entry env stream_entry (PB_VECTOR options) = validate_import_entry_options env options stream_entry"
| "validate_entry env stream_entry _ = False"

definition validate_import_entries :: "load_env \<Rightarrow> pb_value \<Rightarrow> bool \<Rightarrow> bool" where
  "validate_import_entries env v stream_entry \<longleftrightarrow>
     (case v of PB_VECTOR entries \<Rightarrow> entries \<noteq> [] \<and> list_all (validate_entry env stream_entry) entries | _ \<Rightarrow> False)"

text \<open>The nested form; the second argument is \<open>saw_entry\<close>.\<close>

fun validate_nested :: "load_env \<Rightarrow> bool \<Rightarrow> pb_value list \<Rightarrow> bool" where
  "validate_nested env saw_entry (PB_KEYWORD key # v # rest) =
     (if pb_slice_eq_lit key ''core'' then validate_import_entries env v False \<and> validate_nested env True rest
      else if pb_slice_eq_lit key ''streams'' then validate_import_entries env v True \<and> validate_nested env True rest
      else False)"
| "validate_nested env saw_entry _ = saw_entry"

definition validate_import :: "load_env \<Rightarrow> pb_value list \<Rightarrow> bool" where
  "validate_import env items \<longleftrightarrow>
     (if length items < 3 \<or> even (length items) then False
      else case option_keys (tl items) of
        None \<Rightarrow> False
      | Some keys \<Rightarrow>
          let saw_nested = list_ex import_key_is_nested keys; saw_flat = list_ex (\<lambda>k. \<not> import_key_is_nested k) keys
          in if saw_nested \<and> saw_flat then False
             else if \<not> saw_nested then validate_import_entry_options env (tl items) False
             else validate_nested env False (tl items))"

section \<open>Filters and exports\<close>

definition validate_lvc :: "load_env \<Rightarrow> pb_value list \<Rightarrow> bool" where
  "validate_lvc env items \<longleftrightarrow>
     (case tl items of
        [] \<Rightarrow> False
      | [PB_VECTOR vs] \<Rightarrow> vs \<noteq> [] \<and> list_all (validate_config_string env) vs
      | vs \<Rightarrow> list_all (validate_config_string env) vs)"

text \<open>One option of an export; the result is whether servers were given so far.\<close>

definition validate_export_option :: "load_env \<Rightarrow> bool \<Rightarrow> bytes \<Rightarrow> pb_value \<Rightarrow> bool option" where
  "validate_export_option env has_servers key v =
     (if key_in key [''servers'', ''export''] then
        if validate_config_string_list env v then Some (has_servers \<or> pb_slice_eq_lit key ''servers'') else None
      else if key_in key [''tls'', ''tls-skip-verify'', ''origin-header'', ''replay-header''] then
        if is_bool v then Some has_servers else None
      else if key_in key [''connect-timeout-ms'', ''ping-interval-ms'', ''reconnect-wait-ms'', ''max-reconnect''] then
        if is_number v then Some has_servers else None
      else if key_in key [''name'', ''creds'', ''user'', ''password'', ''token'', ''tls-ca'', ''tls-cert'', ''tls-key''] then
        if validate_config_string env v then Some has_servers else None
      else None)"

fun validate_export_loop :: "load_env \<Rightarrow> bool \<Rightarrow> pb_value list \<Rightarrow> bool option" where
  "validate_export_loop env has_servers (PB_KEYWORD key # v # rest) =
     (case validate_export_option env has_servers key v of
        None \<Rightarrow> None
      | Some has_servers \<Rightarrow> validate_export_loop env has_servers rest)"
| "validate_export_loop env has_servers [] = Some has_servers"
| "validate_export_loop env has_servers _ = None"

definition validate_export :: "load_env \<Rightarrow> pb_value list \<Rightarrow> bool" where
  "validate_export env items \<longleftrightarrow>
     (if length items < 3 \<or> even (length items) then False
      else case validate_export_loop env False (tl items) of None \<Rightarrow> False | Some has_servers \<Rightarrow> has_servers)"

section \<open>Rules\<close>

text \<open>Whether the options between the filter and the body are accepted.\<close>

fun validate_on_options :: "pb_value list \<Rightarrow> bool" where
  "validate_on_options [] = True"
| "validate_on_options (PB_KEYWORD key # v # rest) =
     (if \<not> pb_slice_eq_lit key ''reentrant'' then False
      else if \<not> is_bool v then False
      else validate_on_options rest)"
| "validate_on_options _ = False"

text \<open>
  The body of a rule is evaluated with the payload 1 on the subject x.y.z, on an empty state and at
  time 0; its messages are checked and dropped. \<open>None\<close> is an evaluation deeper than \<open>fuel\<close>.
\<close>

definition validate_ctx :: "nat \<Rightarrow> unit pb_eval_ctx" where
  "validate_ctx rule_id =
     \<lparr>cx_has_state = True, cx_rule_id = rule_id, cx_now_ms = 0, cx_wall_ms = 0, cx_replaying = False,
      cx_subject = ''x.y.z'', cx_payload = ''1'', cx_publish = Some discard_publish, cx_user_symbol = None, cx_user_call = None\<rparr>"

definition validate_state :: "unit eval_st" where
  "validate_state = \<lparr>ev_arena = [], ev_states = (\<lambda>_. eval_state_zero), ev_suppressed = (\<lambda>_. 0), ev_stderr = [], ev_world = ()\<rparr>"

definition validate_body :: "pb_lib \<Rightarrow> nat \<Rightarrow> nat \<Rightarrow> pb_value \<Rightarrow> bool option" where
  "validate_body lib fuel rule_id body =
     do { (r, _) \<leftarrow> pb_eval fuel lib (validate_ctx rule_id) body validate_state;
          Some (case r of Inl err \<Rightarrow> False | Inr _ \<Rightarrow> True) }"

text \<open>The second component is the number of rules so far.\<close>

definition validate_on_form :: "load_env \<Rightarrow> pb_lib \<Rightarrow> nat \<Rightarrow> pb_value \<Rightarrow> nat \<Rightarrow> (bool \<times> nat) option" where
  "validate_on_form env lib fuel form rule_count =
     (case form of
        PB_LIST (PB_SYMBOL head # args) \<Rightarrow>
          (let items = PB_SYMBOL head # args
           in if pb_slice_eq_lit head ''lvc'' then Some (validate_lvc env items, rule_count)
              else if is_export_config_head head then Some (validate_export env items, rule_count)
              else if pb_slice_eq_lit head ''import'' then Some (validate_import env items, rule_count)
              else if \<not> pb_slice_eq_lit head ''on'' then Some (True, rule_count)
              else let rule_count = rule_count + 1
                   in case args of
                        PB_STRING flt # rest \<Rightarrow>
                          if rest = [] then Some (False, rule_count)
                          else if \<not> validate_on_options (butlast rest) then Some (False, rule_count)
                          else do { good \<leftarrow> validate_body lib fuel (rule_count - 1) (last rest); Some (good, rule_count) }
                      | _ \<Rightarrow> Some (False, rule_count))
      | _ \<Rightarrow> Some (False, rule_count))"

text \<open>Every form is checked, whatever the earlier ones gave.\<close>

fun validate_forms :: "load_env \<Rightarrow> pb_lib \<Rightarrow> nat \<Rightarrow> pb_value list \<Rightarrow> bool \<Rightarrow> nat \<Rightarrow> (bool \<times> nat) option" where
  "validate_forms env lib fuel [] good rules = Some (good, rules)"
| "validate_forms env lib fuel (form # forms) good rules =
     do { (valid, rules) \<leftarrow> validate_on_form env lib fuel form rules;
          validate_forms env lib fuel forms (if valid then good else False) rules }"

text \<open>The exit code and what is printed.\<close>

definition pb_validate_file :: "load_env \<Rightarrow> json_env \<Rightarrow> pb_lib \<Rightarrow> nat \<Rightarrow> read_io \<Rightarrow> bytes \<Rightarrow> (nat \<times> bytes) option" where
  "pb_validate_file env jenv lib fuel io path =
     (case mb_read_file (ld_heap env) io mb_buf_zero of
        (False, _) \<Rightarrow> Some (1, [])
      | (True, source) \<Rightarrow>
          do { parsed \<leftarrow> pb_parse_patchbay_source jenv [] path (buf_data source);
               case fst parsed of
                 Inl _ \<Rightarrow> Some (1, [])
               | Inr forms \<Rightarrow>
                   do { (good, rules) \<leftarrow> validate_forms env lib fuel forms True 0;
                        Some (if good
                              then (0, path @ '': ok ('' @ dec_digits rules @ '' rule'' @ (if rules = 1 then [] else ''s'') @ '')'' @ [LF])
                              else (1, [])) } })"

end
