(* ===== verification/Program_Correct.thy ===== *)
theory Program_Correct
  imports Program
begin

text \<open>
  The index of the rules is only an optimisation: the rules a publish evaluates are those whose
  filters match, each once, in the order of the program. The next deadline is the earliest one.
\<close>

section \<open>The index of the rules\<close>

abbreviation filter_at :: "pb_program \<Rightarrow> nat \<Rightarrow> bytes" where
  "filter_at p i \<equiv> rl_filter (pg_rules p ! i)"

text \<open>The rules kept aside for every subject, and those kept under a first token.\<close>

definition is_global :: "pb_program \<Rightarrow> nat \<Rightarrow> bool" where
  "is_global p i \<longleftrightarrow> (case first_subject_token (filter_at p i) of None \<Rightarrow> True | Some t \<Rightarrow> wildcard_token t)"

definition is_under :: "pb_program \<Rightarrow> bytes \<Rightarrow> nat \<Rightarrow> bool" where
  "is_under p key i \<longleftrightarrow> first_subject_token (filter_at p i) = Some key \<and> \<not> wildcard_token key"

definition index_upto :: "nat \<Rightarrow> pb_program \<Rightarrow> bool" where
  "index_upto k p \<longleftrightarrow>
     fst (pg_global p) = filter (is_global p) [0..<k] \<and>
     distinct (map rb_key (pg_buckets p)) \<and>
     (\<forall>b \<in> set (pg_buckets p). fst (rb_rules b) = filter (is_under p (rb_key b)) [0..<k]) \<and>
     (\<forall>i < k. \<forall>key. is_under p key i \<longrightarrow> key \<in> rb_key ` set (pg_buckets p))"

lemma rule_ref_append_items: "rule_ref_append am refs i = Some refs' \<Longrightarrow> fst refs' = fst refs @ [i]"
  by (auto simp: rule_ref_append_def split: option.splits)

lemma rule_bucket_spec:
  assumes "rule_bucket am p key = (Some b, p')" "distinct (map rb_key (pg_buckets p))"
  shows "pg_rules p' = pg_rules p" "pg_global p' = pg_global p" "b < length (pg_buckets p')" "rb_key (pg_buckets p' ! b) = key"
    "pg_buckets p' = pg_buckets p \<or>
     key \<notin> rb_key ` set (pg_buckets p) \<and> pg_buckets p' = pg_buckets p @ [\<lparr>rb_key = key, rb_rules = ([], 0)\<rparr>]"
    "distinct (map rb_key (pg_buckets p'))"
proof -
  let ?i = "length (takeWhile (\<lambda>b. rb_key b \<noteq> key) (pg_buckets p))"
  have all: "key \<notin> rb_key ` set (pg_buckets p)" if "\<not> ?i < length (pg_buckets p)"
    using that by (metis (mono_tags, lifting) imageE length_takeWhile_le le_neq_implies_less takeWhile_eq_take take_all_iff
      nle_le takeWhile_eq_all_conv)
  have nth: "rb_key (pg_buckets p ! ?i) = key" if "?i < length (pg_buckets p)"
    using nth_length_takeWhile [OF that] by simp
  have cases: "(?i < length (pg_buckets p) \<and> b = ?i \<and> p' = p) \<or>
     (\<not> ?i < length (pg_buckets p) \<and> b = ?i \<and>
      (\<exists>cap. p' = p\<lparr>pg_buckets := pg_buckets p @ [\<lparr>rb_key = key, rb_rules = ([], 0)\<rparr>], pg_bucket_cap := cap\<rparr>))"
    using assms(1) by (auto simp: rule_bucket_def Let_def split: if_splits option.splits)
  have full: "?i = length (pg_buckets p)" if "\<not> ?i < length (pg_buckets p)"
    using that length_takeWhile_le [of "\<lambda>b. rb_key b \<noteq> key" "pg_buckets p"] by linarith
  show "pg_rules p' = pg_rules p" "pg_global p' = pg_global p" using cases by auto
  show "b < length (pg_buckets p')" using cases full by (elim disjE) auto
  show "rb_key (pg_buckets p' ! b) = key" using cases full nth by (elim disjE) (auto simp: nth_append)
  show "pg_buckets p' = pg_buckets p \<or>
     key \<notin> rb_key ` set (pg_buckets p) \<and> pg_buckets p' = pg_buckets p @ [\<lparr>rb_key = key, rb_rules = ([], 0)\<rparr>]"
    using cases all by auto
  show "distinct (map rb_key (pg_buckets p'))" using cases all assms(2) by auto
qed

lemma is_under_upd [simp]:
  "is_under (p\<lparr>pg_global := g\<rparr>) = is_under p" "is_under (p\<lparr>pg_buckets := bs\<rparr>) = is_under p"
  "is_global (p\<lparr>pg_global := g\<rparr>) = is_global p" "is_global (p\<lparr>pg_buckets := bs\<rparr>) = is_global p"
  by (simp_all add: fun_eq_iff is_under_def is_global_def)

lemma is_under_same_rules:
  "pg_rules p' = pg_rules p \<Longrightarrow> is_under p' = is_under p" "pg_rules p' = pg_rules p \<Longrightarrow> is_global p' = is_global p"
  by (simp_all add: fun_eq_iff is_under_def is_global_def)

lemma index_rule_global:
  assumes "index_upto i p" "is_global p i" "rule_ref_append am (pg_global p) i = Some g"
  shows "index_upto (i + 1) (p\<lparr>pg_global := g\<rparr>)"
proof -
  have "\<not> is_under p key i" for key using assms(2) by (auto simp: is_global_def is_under_def)
  then show ?thesis
    using assms(1,2) rule_ref_append_items [OF assms(3)] by (auto simp: index_upto_def less_Suc_eq)
qed

lemma index_rule_bucket:
  assumes idx: "index_upto i p" and under: "is_under p key i" and b: "rule_bucket am p key = (Some b, p')"
    and app: "rule_ref_append am (rb_rules (pg_buckets p' ! b)) i = Some refs"
  shows "index_upto (i + 1) (p'\<lparr>pg_buckets := (pg_buckets p')[b := (pg_buckets p' ! b)\<lparr>rb_rules := refs\<rparr>]\<rparr>)"
proof -
  have dist: "distinct (map rb_key (pg_buckets p))" using idx by (simp add: index_upto_def)
  note spec = rule_bucket_spec [OF b dist]
  have same: "is_under p' = is_under p" "is_global p' = is_global p" using spec(1) by (rule is_under_same_rules)+
  have glob: "\<not> is_global p i" using under by (auto simp: is_global_def is_under_def)
  have other: "\<not> is_under p k i" if "k \<noteq> key" for k using under that by (auto simp: is_under_def)
  have old: "fst (rb_rules c) = filter (is_under p (rb_key c)) [0..<i]" if "c \<in> set (pg_buckets p')" for c
    using spec(5) that idx by (auto simp: index_upto_def empty_filter_conv)
  let ?new = "(pg_buckets p' ! b)\<lparr>rb_rules := refs\<rparr>"
  have refs: "fst refs = filter (is_under p key) [0..<i + 1]"
    using rule_ref_append_items [OF app] old [of "pg_buckets p' ! b"] spec(3,4) under by (simp add: nth_mem)
  have keys: "map rb_key ((pg_buckets p')[b := ?new]) = map rb_key (pg_buckets p')"
    using spec(3,4) by (auto intro!: nth_equalityI simp: nth_list_update)
  have bucket: "fst (rb_rules c) = filter (is_under p (rb_key c)) [0..<i + 1]" if c: "c \<in> set ((pg_buckets p')[b := ?new])" for c
  proof (cases "c = ?new")
    case True
    then show ?thesis using refs spec(4) by simp
  next
    case False
    obtain j where j: "j < length (pg_buckets p')" "c = (pg_buckets p')[b := ?new] ! j" using c by (auto simp: in_set_conv_nth)
    then have "j \<noteq> b" using False spec(3) by auto
    then have c': "c = pg_buckets p' ! j" using j by simp
    have "rb_key c \<noteq> key"
      using \<open>j \<noteq> b\<close> j(1) spec(3,4,6) c' by (metis distinct_conv_nth length_map nth_map)
    then show ?thesis using old [of c] c' j(1) other by simp
  qed
  have "k \<in> set (map rb_key (pg_buckets p'))" if k: "is_under p k j" "j < i + 1" for k j
  proof (cases "j = i")
    case True
    then have "k = key" using k(1) other by blast
    then show ?thesis using nth_mem [OF spec(3)] spec(4) by force
  next
    case False
    then have "j < i" using k(2) by simp
    then have "k \<in> rb_key ` set (pg_buckets p)" using idx k(1) by (auto simp: index_upto_def)
    then show ?thesis using spec(5) by auto
  qed
  then show ?thesis
    using idx glob spec(2,6) bucket keys same
    by (simp add: index_upto_def flip: set_map)
qed

lemma index_rule_upto:
  assumes "index_upto i p" "index_rule am p i = (True, p')"
  shows "index_upto (i + 1) p'" "pg_rules p' = pg_rules p"
proof -
  have dist: "distinct (map rb_key (pg_buckets p))" using assms(1) by (simp add: index_upto_def)
  show "index_upto (i + 1) p'"
    using assms index_rule_global [OF assms(1), of am] index_rule_bucket [OF assms(1), of _ am]
    by (auto simp: index_rule_def is_global_def is_under_def split: option.splits if_splits prod.splits)
  show "pg_rules p' = pg_rules p"
    using assms(2) rule_bucket_spec(1) [OF _ dist]
    by (auto simp: index_rule_def split: option.splits if_splits prod.splits)
qed

lemma index_rules_upto:
  "index_rules am [i..<n] p = (True, p') \<Longrightarrow> index_upto i p \<Longrightarrow> i \<le> n \<Longrightarrow> index_upto n p' \<and> pg_rules p' = pg_rules p"
proof (induction "n - i" arbitrary: i p)
  case (Suc d)
  then have "[i..<n] = i # [i + 1..<n]" by (simp add: upt_rec)
  then obtain p1 where "index_rule am p i = (True, p1)" "index_rules am [i + 1..<n] p1 = (True, p')"
    using Suc.prems(1) by (auto split: prod.splits bool.splits)
  with index_rule_upto [OF Suc.prems(2), of am p1] Suc.hyps(1) [of "i + 1" p1] Suc.hyps(2) show ?case by simp
qed simp

lemma build_rule_index_spec:
  assumes "build_rule_index am p = (True, p')"
  shows "index_upto (length (pg_rules p)) p'" "pg_rules p' = pg_rules p"
proof -
  have "index_upto 0 (rule_index_free p)" by (simp add: index_upto_def rule_index_free_def)
  then show "index_upto (length (pg_rules p)) p'" "pg_rules p' = pg_rules p"
    using assms index_rules_upto [of am 0 _ "rule_index_free p" p'] by (auto simp: build_rule_index_def rule_index_free_def)
qed

lemma rule_refs_spec:
  assumes "index_upto n p"
  shows "rule_refs_for_subject p subject =
    (case first_subject_token subject of None \<Rightarrow> [] | Some t \<Rightarrow> filter (is_under p t) [0..<n])"
proof (cases "first_subject_token subject")
  case (Some t)
  show ?thesis
  proof (cases "find (\<lambda>b. rb_key b = t) (pg_buckets p)")
    case None
    then have "t \<notin> rb_key ` set (pg_buckets p)" by (auto simp: find_None_iff)
    then have "filter (is_under p t) [0..<n] = []" using assms by (auto simp: index_upto_def filter_empty_conv)
    then show ?thesis using Some None by (simp add: rule_refs_for_subject_def)
  next
    case (Some b)
    then have "b \<in> set (pg_buckets p)" "rb_key b = t" by (auto simp: find_Some_iff)
    then show ?thesis using \<open>first_subject_token subject = Some t\<close> Some assms
      by (auto simp: rule_refs_for_subject_def index_upto_def)
  qed
qed (simp add: rule_refs_for_subject_def)

section \<open>Rules that cannot match\<close>

lemma next_token_first: "first_subject_token s = map_option fst (next_subject_token s 0)"
  by (auto simp: first_subject_token_def next_subject_token_def Let_def)

lemma matches_under_first_token:
  assumes "slice_match flt subject" "first_subject_token flt = Some t" "\<not> wildcard_token t"
  shows "first_subject_token subject = Some t"
proof -
  obtain fp where fp: "next_subject_token flt 0 = Some (t, fp)" using assms(2) by (auto simp: next_token_first)
  have "\<not> (length t = 1 \<and> hd t = CHR ''>'')" "\<not> (length t = 1 \<and> hd t = CHR ''*'')"
    using assms(3) by (auto simp: wildcard_token_def)
  then show ?thesis
    using assms(1) fp
    by (simp add: slice_match_def mb_router_subject_matches_def subject_matches_def subject_matches_loop.simps [of flt 0] next_token_first
        split: option.splits prod.splits if_splits)
qed

section \<open>Walking the two lists\<close>

text \<open>The plain loop the index replaces: the rules of a list one after the other.\<close>

fun eval_in_order :: "(nat \<Rightarrow> 'w run \<Rightarrow> (bool \<times> 'w run) option) \<Rightarrow> nat list \<Rightarrow> bool \<Rightarrow> 'w run \<Rightarrow> (bool \<times> 'w run) option" where
  "eval_in_order f [] ok s = Some (ok, s)"
| "eval_in_order f (i # is) ok s = do { (r, s) \<leftarrow> f i s; eval_in_order f is (r \<and> ok) s }"

lemma eval_refs_pick:
  assumes "\<forall>g \<in> set gs. i < g"
  shows "eval_refs f (i # bs) gs ok s = do { (r, s) \<leftarrow> f i s; eval_refs f bs gs (r \<and> ok) s }"
    "eval_refs f gs (i # bs) ok s = do { (r, s) \<leftarrow> f i s; eval_refs f gs bs (r \<and> ok) s }"
proof -
  show "eval_refs f (i # bs) gs ok s = do { (r, s) \<leftarrow> f i s; eval_refs f bs gs (r \<and> ok) s }"
    using assms by (cases gs) auto
  show "eval_refs f gs (i # bs) ok s = do { (r, s) \<leftarrow> f i s; eval_refs f gs bs (r \<and> ok) s }"
  proof (cases gs)
    case (Cons g gs')
    then have "\<not> g < i" using assms by force
    then show ?thesis unfolding Cons by (simp only: eval_refs.simps if_False)
  qed simp
qed

lemma eval_refs_merge:
  assumes "\<And>i. \<not> (P i \<and> Q i)"
  shows "eval_refs f (filter P [k..<n]) (filter Q [k..<n]) ok s = eval_in_order f (filter (\<lambda>i. P i \<or> Q i) [k..<n]) ok s"
proof (induction "n - k" arbitrary: k ok s)
  case (Suc d)
  have upt: "[k..<n] = k # [Suc k..<n]" using upt_conv_Cons [of k n] Suc.hyps(2) by simp
  have IH: "eval_refs f (filter P [Suc k..<n]) (filter Q [Suc k..<n]) ok s
      = eval_in_order f (filter (\<lambda>i. P i \<or> Q i) [Suc k..<n]) ok s" for ok s
    using Suc.hyps(1) [of "Suc k"] Suc.hyps(2) by simp
  have pick: "\<forall>g \<in> set (filter R [Suc k..<n]). k < g" for R by auto
  show ?case
  proof (cases "P k")
    case True
    then have "\<not> Q k" using assms by blast
    then show ?thesis using True by (simp add: upt IH eval_refs_pick(1) [OF pick])
  next
    case False
    then show ?thesis by (cases "Q k") (simp_all add: upt IH eval_refs_pick(2) [OF pick])
  qed
qed simp

lemma eval_in_order_filter:
  assumes "\<And>i s. i \<in> set xs \<Longrightarrow> \<not> M i \<Longrightarrow> f i s = Some (True, s)"
  shows "eval_in_order f xs ok s = eval_in_order f (filter M xs) ok s"
  using assms by (induction xs arbitrary: ok s) (auto intro!: Option.bind_cong)

text \<open>The evaluation a reentrant rule starts on what it publishes.\<close>

definition nested_eval :: "'w pb_host \<Rightarrow> pb_program \<Rightarrow> u64 \<Rightarrow> int \<Rightarrow> nat \<Rightarrow> bool \<Rightarrow> bytes \<Rightarrow> bytes \<Rightarrow> 'w run \<Rightarrow> (bool \<times> 'w run) option" where
  "nested_eval host p now_ms wall_ms depth replaying =
     (\<lambda>subject payload s.
        if depth < PB_PROGRAM_MAX_REENTRY_DEPTH
        then eval_publish_slices host p subject payload now_ms wall_ms (depth + 1) replaying s else None)"

text \<open>
  \<^bold>\<open>C4\<close> The index by first tokens never changes what a publish does: on a program whose index was
  built, \<open>eval_publish_slices\<close> does what the loop over all rules would do that evaluates the rules
  whose filters match the subject, each once and in the order of the program, whether or not
  earlier ones fail. The result is true when no evaluated rule failed.
\<close>

theorem rules_in_program_order:
  assumes "build_rule_index am p = (True, p')"
  shows "eval_publish_slices host p' subject payload now_ms wall_ms depth replaying s =
    eval_in_order
      (\<lambda>i. eval_rule_for_publish host p' i subject payload now_ms wall_ms depth replaying
         (nested_eval host p' now_ms wall_ms depth replaying))
      (filter (\<lambda>i. subject_matches (rl_filter (pg_rules p ! i)) subject) [0..<length (pg_rules p)]) True s"
proof (cases "pg_rules p = []")
  case True
  then show ?thesis using build_rule_index_spec(2) [OF assms] by (simp add: eval_publish_slices.simps [of host p'])
next
  case False
  let ?n = "length (pg_rules p)"
  let ?f = "\<lambda>i. eval_rule_for_publish host p' i subject payload now_ms wall_ms depth replaying
         (nested_eval host p' now_ms wall_ms depth replaying)"
  let ?under = "\<lambda>i. case first_subject_token subject of None \<Rightarrow> False | Some t \<Rightarrow> is_under p' t i"
  let ?match = "\<lambda>i. slice_match (filter_at p' i) subject"
  note idx = build_rule_index_spec [OF assms]
  have refs: "rule_refs_for_subject p' subject = filter ?under [0..<?n]" "fst (pg_global p') = filter (is_global p') [0..<?n]"
    using rule_refs_spec [OF idx(1), of subject] idx(1) by (auto simp: index_upto_def split: option.splits)
  have disj: "\<not> (?under i \<and> is_global p' i)" for i
    by (auto simp: is_under_def is_global_def split: option.splits)
  have miss: "?under i \<or> is_global p' i" if "?match i" for i
  proof (cases "is_global p' i")
    case False
    then obtain t where t: "first_subject_token (filter_at p' i) = Some t" "\<not> wildcard_token t"
      by (auto simp: is_global_def split: option.splits)
    then show ?thesis using matches_under_first_token [OF that t] by (simp add: is_under_def)
  qed simp
  have skip: "?f i s = Some (True, s)" if "\<not> ?match i" for i s
    using that by (simp add: eval_rule_for_publish_def Let_def)
  have "eval_publish_slices host p' subject payload now_ms wall_ms depth replaying s
      = eval_refs ?f (filter ?under [0..<?n]) (filter (is_global p') [0..<?n]) True s"
    using False idx(2) by (simp add: eval_publish_slices.simps [of host p' subject] refs nested_eval_def)
  also have "\<dots> = eval_in_order ?f (filter ?match (filter (\<lambda>i. ?under i \<or> is_global p' i) [0..<?n])) True s"
    unfolding eval_refs_merge [OF disj]
    by (rule eval_in_order_filter) (rule skip)
  also have "filter ?match (filter (\<lambda>i. ?under i \<or> is_global p' i) [0..<?n])
      = filter (\<lambda>i. subject_matches (rl_filter (pg_rules p ! i)) subject) [0..<?n]"
    using miss by (auto simp: slice_match_def mb_router_subject_matches_def idx(2) intro!: filter_cong)
  finally show ?thesis .
qed

definition demo_rule :: "bytes \<Rightarrow> pb_rule" where
  "demo_rule flt = \<lparr>rl_filter = flt, rl_body = PB_NIL, rl_emitted = 0, rl_suppressed = 0, rl_reentrant = False, rl_state = eval_state_zero\<rparr>"

definition demo_program :: pb_program where
  "demo_program = program_zero\<lparr>pg_rules := [demo_rule ''b.c'', demo_rule ''a.*'', demo_rule ''>'', demo_rule ''a'']\<rparr>"

theorem rules_in_program_order_witness:
  "\<forall>host s. eval_publish_slices host (snd (build_rule_index (\<lambda>_. True) demo_program)) ''a.b'' [] 0 0 0 False s =
     eval_in_order
       (\<lambda>i. eval_rule_for_publish host (snd (build_rule_index (\<lambda>_. True) demo_program)) i ''a.b'' [] 0 0 0 False
          (nested_eval host (snd (build_rule_index (\<lambda>_. True) demo_program)) 0 0 0 False))
       [1, 2] True s"
proof -
  have "fst (build_rule_index (\<lambda>_. True) demo_program)" by code_simp
  then have "build_rule_index (\<lambda>_. True) demo_program = (True, snd (build_rule_index (\<lambda>_. True) demo_program))"
    by (metis (full_types) prod.collapse)
  moreover have "filter (\<lambda>i. subject_matches (rl_filter (pg_rules demo_program ! i)) ''a.b'') [0..<length (pg_rules demo_program)] = [1, 2]"
    by code_simp
  ultimately show ?thesis using rules_in_program_order [of "\<lambda>_. True" demo_program _ _ "''a.b''"] by metis
qed

section \<open>Deadlines\<close>

text \<open>The least element of a set of times, \<open>None\<close> for the empty set.\<close>

definition least_of :: "u64 option \<Rightarrow> u64 set \<Rightarrow> bool" where
  "least_of d S \<longleftrightarrow> (case d of None \<Rightarrow> S = {} | Some t \<Rightarrow> t \<in> S \<and> (\<forall>u \<in> S. t \<le> u))"

lemma least_of_pick:
  assumes "least_of d (set_option (case x of None \<Rightarrow> best | Some y \<Rightarrow> (case best of None \<Rightarrow> Some y | Some b \<Rightarrow> if y < b then Some y else best)) \<union> S)"
  shows "least_of d (set_option best \<union> set_option x \<union> S)"
proof (cases "\<exists>b y. best = Some b \<and> x = Some y")
  case True
  then obtain b y where bx: "best = Some b" "x = Some y" by blast
  show ?thesis
  proof (cases "y < b")
    case True
    then have "d = Some t \<Longrightarrow> t \<le> y \<Longrightarrow> t \<le> b" for t by simp
    then show ?thesis using assms True by (auto simp: bx least_of_def split: option.splits)
  next
    case False
    then have "d = Some t \<Longrightarrow> t \<le> b \<Longrightarrow> t \<le> y" for t by simp
    then show ?thesis using assms False by (auto simp: bx least_of_def split: option.splits)
  qed
next
  case False
  then show ?thesis using assms by (cases best; cases x) auto
qed

definition due_times :: "pb_eval_state_entry list \<Rightarrow> u64 set" where
  "due_times es = {t. \<exists>e \<in> set es. entry_deadline e = Some (Some t)}"

lemma best_deadline_least: "best_deadline best es = Some d \<Longrightarrow> least_of d (set_option best \<union> due_times es)"
proof (induction es arbitrary: best)
  case Nil
  then show ?case by (auto simp: least_of_def due_times_def split: option.splits)
next
  case (Cons e es)
  then obtain x where x: "entry_deadline e = Some x" by (auto split: bind_splits)
  then have "due_times (e # es) = set_option x \<union> due_times es" by (auto simp: due_times_def elem_set)
  then show ?case using Cons x least_of_pick [where d = d and x = x and best = best and S = "due_times es"] by (simp add: Un_assoc)
qed

text \<open>
  \<^bold>\<open>C35\<close> The timer is set to the earliest deadline: for a program that uses the timer, the next
  deadline is the least of the deadlines of the slots of all its rules, and there is none
  exactly when no slot is due.
\<close>

theorem next_deadline_is_least:
  assumes "pg_uses_clock_timer p" "pb_program_next_clock_deadline p = Some d"
  shows "least_of d {t. \<exists>rule \<in> set (pg_rules p). \<exists>e \<in> set (st_items (rl_state rule)). entry_deadline e = Some (Some t)}"
proof -
  let ?es = "concat (map (\<lambda>rule. st_items (rl_state rule)) (pg_rules p))"
  have "due_times ?es = {t. \<exists>rule \<in> set (pg_rules p). \<exists>e \<in> set (st_items (rl_state rule)). entry_deadline e = Some (Some t)}"
    by (auto simp: due_times_def)
  then show ?thesis using best_deadline_least [of None ?es d] assms by (simp add: pb_program_next_clock_deadline_def)
qed

definition clock_slot :: "u64 \<Rightarrow> bool \<Rightarrow> pb_eval_state_entry" where
  "clock_slot t armed = state_entry_zero\<lparr>se_kind := PB_EVAL_STATE_CLOCK, clock_armed := armed, clock_deadline_ms := t\<rparr>"

definition clock_program :: pb_program where
  "clock_program = program_zero\<lparr>pg_uses_clock_timer := True,
     pg_rules := [(demo_rule ''a'')\<lparr>rl_state := eval_state_zero\<lparr>st_items := [clock_slot 40 True, clock_slot 10 False]\<rparr>\<rparr>,
                  (demo_rule ''b'')\<lparr>rl_state := eval_state_zero\<lparr>st_items := [clock_slot 25 True]\<rparr>\<rparr>]\<rparr>"

theorem next_deadline_is_least_witness:
  "pb_program_next_clock_deadline clock_program = Some (Some 25) \<and>
   least_of (Some 25) {t. \<exists>rule \<in> set (pg_rules clock_program). \<exists>e \<in> set (st_items (rl_state rule)). entry_deadline e = Some (Some t)}"
proof -
  have "pb_program_next_clock_deadline clock_program = Some (Some 25)" by code_simp
  moreover have "pg_uses_clock_timer clock_program" by code_simp
  ultimately show ?thesis using next_deadline_is_least [of clock_program "Some 25"] by simp
qed

end
