(* ===== verification/Load_Correct.thy ===== *)
theory Load_Correct
  imports Program_Load Program_Correct
begin

text \<open>
  Loading is all or nothing, and what a loaded program holds is read off the forms of its source.
\<close>

section \<open>What the forms of a source say\<close>

text \<open>The rule of a form \<open>(on filter :reentrant b ... body)\<close>.\<close>

definition rule_of_form :: "pb_value \<Rightarrow> pb_rule option" where
  "rule_of_form form =
     (case form of
        PB_LIST (PB_SYMBOL head # PB_STRING flt # rest) \<Rightarrow>
          if head = ''on'' \<and> rest \<noteq> [] then map_option (new_rule flt (last rest)) (load_on_options False (butlast rest)) else None
      | _ \<Rightarrow> None)"

text \<open>A top-level form is a call by a symbol, and a call of \<open>on\<close> declares a rule.\<close>

definition form_wf :: "pb_value \<Rightarrow> bool" where
  "form_wf form \<longleftrightarrow>
     (case form of PB_LIST (PB_SYMBOL head # _) \<Rightarrow> head = ''on'' \<longrightarrow> rule_of_form form \<noteq> None | _ \<Rightarrow> False)"

text \<open>A form that needs no configuration: a rule, or a form the loader skips.\<close>

definition plain_form :: "pb_value \<Rightarrow> bool" where
  "plain_form form \<longleftrightarrow>
     form_wf form \<and> (case form of PB_LIST (PB_SYMBOL head # _) \<Rightarrow> head \<notin> {''lvc'', ''bridge'', ''export'', ''import''} | _ \<Rightarrow> False)"

text \<open>A value and everything inside it.\<close>

fun subvalues :: "pb_value \<Rightarrow> pb_value list" where
  "subvalues (PB_LIST vs) = PB_LIST vs # concat (map subvalues vs)"
| "subvalues (PB_VECTOR vs) = PB_VECTOR vs # concat (map subvalues vs)"
| "subvalues v = [v]"

definition is_timer_call :: "pb_value \<Rightarrow> bool" where
  "is_timer_call v \<longleftrightarrow>
     (case v of
        PB_LIST (PB_SYMBOL head # args) \<Rightarrow>
          head \<in> set timer_forms \<or>
          head \<in> set windowed_forms \<and> (\<exists>n rest. args = PB_KEYWORD ''ms'' # n # rest)
      | _ \<Rightarrow> False)"

definition is_now_call :: "pb_value \<Rightarrow> bool" where
  "is_now_call v \<longleftrightarrow> (case v of PB_LIST (PB_SYMBOL head # _) \<Rightarrow> head = ''now'' | _ \<Rightarrow> False)"

section \<open>Clocks\<close>

lemma value_head_eq_iff: "value_head_eq v lit \<longleftrightarrow> (\<exists>args. v = PB_LIST (PB_SYMBOL lit # args))"
  by (auto simp: value_head_eq_def pb_slice_eq_lit_def split: pb_value.splits list.splits)

lemma call_has_ms_window_iff: "call_has_ms_window v \<longleftrightarrow> (\<exists>x n rest. v = PB_LIST (x # PB_KEYWORD ''ms'' # n # rest))"
proof
  show "call_has_ms_window v \<Longrightarrow> \<exists>x n rest. v = PB_LIST (x # PB_KEYWORD ''ms'' # n # rest)"
    by (auto simp: call_has_ms_window_def pb_slice_eq_lit_def split: pb_value.split_asm list.split_asm)
      (metis pb_value.exhaust list.exhaust)+
qed (auto simp: call_has_ms_window_def pb_slice_eq_lit_def)

lemma is_timer_call_iff:
  "is_timer_call v \<longleftrightarrow> (\<exists>head args. v = PB_LIST (PB_SYMBOL head # args) \<and>
     (head \<in> set timer_forms \<or> head \<in> set windowed_forms \<and> (\<exists>n rest. args = PB_KEYWORD ''ms'' # n # rest)))"
  (is "_ \<longleftrightarrow> ?spec")
proof
  show "is_timer_call v \<Longrightarrow> ?spec" 
    by (auto simp: is_timer_call_def split: pb_value.split_asm list.split_asm) (metis pb_value.exhaust)
qed (auto simp: is_timer_call_def)

lemma note_clock_form_eq:
  "note_clock_form v p = p\<lparr>pg_uses_wall_clock := pg_uses_wall_clock p \<or> is_now_call v,
     pg_uses_clock_timer := pg_uses_clock_timer p \<or> is_timer_call v\<rparr>"
proof -
  have "value_head_eq v ''now'' = is_now_call v"
    by (auto simp: value_head_eq_iff is_now_call_def split: pb_value.splits list.splits)
  moreover have "(list_ex (value_head_eq v) windowed_forms \<and> call_has_ms_window v) \<or> list_ex (value_head_eq v) timer_forms \<longleftrightarrow> is_timer_call v"
    unfolding is_timer_call_iff value_head_eq_iff list_ex_iff call_has_ms_window_iff by blast
  ultimately show ?thesis by (simp add: note_clock_form_def disj_assoc)
qed

definition with_clocks :: "pb_value list \<Rightarrow> pb_program \<Rightarrow> pb_program" where
  "with_clocks vs p = p\<lparr>pg_uses_wall_clock := pg_uses_wall_clock p \<or> list_ex is_now_call vs,
     pg_uses_clock_timer := pg_uses_clock_timer p \<or> list_ex is_timer_call vs\<rparr>"

lemma with_clocks_append: "with_clocks ys (with_clocks xs p) = with_clocks (xs @ ys) p"
  by (simp add: with_clocks_def disj_assoc)

lemma with_clocks_note: "note_clock_form v p = with_clocks [v] p"
  by (simp add: note_clock_form_eq with_clocks_def)

lemma scan_clock_forms_eq: "scan_clock_forms v p = with_clocks (subvalues v) p"
proof (induction v p rule: scan_clock_forms.induct)
  case (1 vs p)
  have "fold scan_clock_forms ws q = with_clocks (concat (map subvalues ws)) q" if "set ws \<subseteq> set vs" for ws q
    using that 1 by (induction ws arbitrary: q) (auto simp: with_clocks_append with_clocks_def)
  then show ?case by (simp add: with_clocks_note with_clocks_append)
next
  case (2 vs p)
  have "fold scan_clock_forms ws q = with_clocks (concat (map subvalues ws)) q" if "set ws \<subseteq> set vs" for ws q
    using that 2 by (induction ws arbitrary: q) (auto simp: with_clocks_append with_clocks_def)
  then show ?case by (simp add: with_clocks_note with_clocks_append)
qed (simp_all add: with_clocks_note)

section \<open>Forms\<close>

text \<open>The fields of a program its forms cannot change except through rules.\<close>

definition same_rules :: "pb_program \<Rightarrow> pb_program \<Rightarrow> bool" where
  "same_rules p q \<longleftrightarrow> pg_rules q = pg_rules p \<and> pg_uses_wall_clock q = pg_uses_wall_clock p \<and> pg_uses_clock_timer q = pg_uses_clock_timer p"

lemma same_rules_trans: "same_rules p q \<Longrightarrow> same_rules q r \<Longrightarrow> same_rules p r"
  by (simp add: same_rules_def)

lemma load_lvc_filters_same: "same_rules p (snd (load_lvc_filters env p vs))"
proof (induction vs arbitrary: p)
  case Nil
  then show ?case by (simp add: same_rules_def)
next
  case (Cons v vs)
  have "same_rules p (snd (load_lvc_filter_value env p v))"
    by (auto simp: load_lvc_filter_value_def lvc_vec_append_def same_rules_def Let_def split: option.splits prod.splits)
  moreover obtain ok q where q: "load_lvc_filter_value env p v = (ok, q)" by (cases "load_lvc_filter_value env p v")
  ultimately have "same_rules p q" by simp
  then show ?case using Cons.IH [of q] same_rules_trans [of p q] by (cases ok) (simp_all add: q)
qed

lemma load_lvc_form_same: "same_rules p (snd (load_lvc_form env p items))"
  unfolding load_lvc_form_def
proof (cases "tl items")
  case (Cons v vs)
  have "same_rules p p" by (simp add: same_rules_def)
  then show "same_rules p (snd (case tl items of [] \<Rightarrow> (False, p) | [PB_VECTOR vs] \<Rightarrow> if vs = [] then (False, p) else load_lvc_filters env p vs
        | vs \<Rightarrow> load_lvc_filters env p vs))"
    unfolding Cons by (cases v; cases vs) (simp_all add: load_lvc_filters_same del: load_lvc_filters.simps)
qed (simp add: same_rules_def)

lemma load_bridge_form_same: "same_rules p (snd (load_bridge_form env p items))"
  by (auto simp: load_bridge_form_def same_rules_def split: option.splits prod.splits)

lemma load_import_form_same: "same_rules p (snd (load_import_form env p items))"
  by (auto simp: load_import_form_def same_rules_def Let_def split: option.splits prod.splits)

lemma on_form_same:
  assumes "form = PB_LIST (PB_SYMBOL head # args)" "head \<noteq> ''on''"
  shows "same_rules p (snd (load_on_form env p form))"
  using assms by (simp add: load_on_form_def Let_def pb_slice_eq_lit_def load_lvc_form_same load_bridge_form_same load_import_form_same
      same_rules_def [of p p])

lemma on_form_rule:
  assumes "load_on_form env p (PB_LIST (PB_SYMBOL ''on'' # args)) = (True, p')"
  obtains r where "rule_of_form (PB_LIST (PB_SYMBOL ''on'' # args)) = Some r"
    "pg_rules p' = pg_rules p @ [r]" "pg_uses_wall_clock p' = pg_uses_wall_clock p" "pg_uses_clock_timer p' = pg_uses_clock_timer p"
  using assms
  by (auto simp: load_on_form_def Let_def pb_slice_eq_lit_def is_export_config_head_def rule_of_form_def rule_vec_append_def
      split: list.split_asm pb_value.split_asm if_split_asm option.split_asm)

lemma load_on_form_spec:
  assumes "load_on_form env p form = (True, p')"
  shows "form_wf form" "pg_rules p' = pg_rules p @ List.map_filter rule_of_form [form]"
    "pg_uses_wall_clock p' = pg_uses_wall_clock p" "pg_uses_clock_timer p' = pg_uses_clock_timer p"
proof -
  obtain head args where form: "form = PB_LIST (PB_SYMBOL head # args)"
    using assms by (auto simp: load_on_form_def split: pb_value.split_asm list.split_asm)
  have "form_wf form \<and> pg_rules p' = pg_rules p @ List.map_filter rule_of_form [form] \<and>
    pg_uses_wall_clock p' = pg_uses_wall_clock p \<and> pg_uses_clock_timer p' = pg_uses_clock_timer p"
  proof (cases "head = ''on''")
    case True
    then obtain r where "rule_of_form form = Some r" "pg_rules p' = pg_rules p @ [r]" "pg_uses_wall_clock p' = pg_uses_wall_clock p"
        "pg_uses_clock_timer p' = pg_uses_clock_timer p"
      using on_form_rule [of env p args p'] assms form by metis
    then show ?thesis using True by (simp add: form form_wf_def List.map_filter_def)
  next
    case False
    then have "rule_of_form form = None" by (auto simp: form rule_of_form_def split: list.split pb_value.split)
    then show ?thesis using on_form_same [OF form False, of p env] assms False by (simp add: form form_wf_def same_rules_def List.map_filter_def)
  qed
  then show "form_wf form" "pg_rules p' = pg_rules p @ List.map_filter rule_of_form [form]"
    "pg_uses_wall_clock p' = pg_uses_wall_clock p" "pg_uses_clock_timer p' = pg_uses_clock_timer p" by simp_all
qed

lemma load_forms_Cons:
  assumes "load_forms env (form # forms) p = (True, p')"
  obtains q where "load_on_form env p form = (True, q)" "load_forms env forms (with_clocks (subvalues form) q) = (True, p')"
  using assms by (auto simp: scan_clock_forms_eq split: prod.splits bool.splits)

lemma load_forms_spec:
  "load_forms env forms p = (True, p') \<Longrightarrow>
     list_all form_wf forms \<and> pg_rules p' = pg_rules p @ List.map_filter rule_of_form forms \<and>
     (pg_uses_wall_clock p' \<longleftrightarrow> pg_uses_wall_clock p \<or> list_ex is_now_call (concat (map subvalues forms))) \<and>
     (pg_uses_clock_timer p' \<longleftrightarrow> pg_uses_clock_timer p \<or> list_ex is_timer_call (concat (map subvalues forms)))"
proof (induction forms arbitrary: p)
  case Nil
  then show ?case by (simp add: List.map_filter_def)
next
  case (Cons form forms)
  obtain q where q: "load_on_form env p form = (True, q)" "load_forms env forms (with_clocks (subvalues form) q) = (True, p')"
    using Cons.prems by (rule load_forms_Cons)
  show ?case using Cons.IH [OF q(2)] load_on_form_spec [OF q(1)]
    by (auto simp: with_clocks_def List.map_filter_def)
qed

lemma index_rule_flags:
  assumes "index_rule am p i = (ok, p')"
  shows "pg_uses_wall_clock p' = pg_uses_wall_clock p \<and> pg_uses_clock_timer p' = pg_uses_clock_timer p"
proof -
  have "pg_uses_wall_clock q = pg_uses_wall_clock p \<and> pg_uses_clock_timer q = pg_uses_clock_timer p"
    if "rule_bucket am p key = (b, q)" for key b q
    using that by (auto simp: rule_bucket_def Let_def split: if_split_asm option.split_asm)
  then show ?thesis using assms by (auto simp: index_rule_def split: option.split_asm if_split_asm prod.split_asm)
qed

lemma index_rules_flags:
  "index_rules am is p = (ok, p') \<Longrightarrow>
     pg_uses_wall_clock p' = pg_uses_wall_clock p \<and> pg_uses_clock_timer p' = pg_uses_clock_timer p"
proof (induction "is" arbitrary: p)
  case (Cons i "is")
  obtain b q where q: "index_rule am p i = (b, q)" by (cases "index_rule am p i")
  then show ?case using Cons.IH [of q] Cons.prems index_rule_flags [OF q] by (cases b) simp_all
qed simp

lemma build_rule_index_flags:
  "build_rule_index am p = (ok, p') \<Longrightarrow>
     pg_uses_wall_clock p' = pg_uses_wall_clock p \<and> pg_uses_clock_timer p' = pg_uses_clock_timer p"
  using index_rules_flags [of am "[0..<length (pg_rules p)]" "rule_index_free p" ok p'] by (simp add: build_rule_index_def rule_index_free_def)

section \<open>With memory, rules load\<close>

text \<open>The arrays of the index never hold more than the rules indexed so far.\<close>

definition index_small :: "nat \<Rightarrow> pb_program \<Rightarrow> bool" where
  "index_small k p \<longleftrightarrow> length (fst (pg_global p)) \<le> k \<and> length (pg_buckets p) \<le> k \<and>
     list_all (\<lambda>b. length (fst (rb_rules b)) \<le> k) (pg_buckets p)"

lemma rule_ref_append_with_memory:
  assumes "length (fst refs) < 2 ^ 48"
  obtains refs' where "rule_ref_append (\<lambda>_. True) refs i = Some refs'" "length (fst refs') = Suc (length (fst refs))"
proof -
  obtain c where "mb_array_reserve (\<lambda>_. True) (snd refs) (length (fst refs) + 1) 8 8 = Some c"
    by (rule array_reserve_with_memory [where needed = "length (fst refs) + 1" and cap = "snd refs" and es = 8 and ic = 8])
      (use assms in simp_all)
  then show thesis using that by (simp add: rule_ref_append_def)
qed

lemma rule_bucket_with_memory:
  assumes "index_small k p" "k < 2 ^ 48"
  obtains b p' where "rule_bucket (\<lambda>_. True) p key = (Some b, p')" "b < length (pg_buckets p')" "index_small (Suc k) p'"
    "length (fst (rb_rules (pg_buckets p' ! b))) \<le> k"
proof -
  let ?b = "length (takeWhile (\<lambda>b. \<not> pb_slice_eq (rb_key b) key) (pg_buckets p))"
  show thesis
  proof (cases "?b < length (pg_buckets p)")
    case True
    have "index_small (Suc k) p" using assms(1) by (auto simp: index_small_def list_all_iff le_Suc_eq)
    moreover have "length (fst (rb_rules (pg_buckets p ! ?b))) \<le> k" using assms(1) True by (simp add: index_small_def list_all_length)
    ultimately show thesis using that True by (simp add: rule_bucket_def Let_def)
  next
    case False
    then have b: "?b = length (pg_buckets p)" using length_takeWhile_le [of "\<lambda>b. \<not> pb_slice_eq (rb_key b) key" "pg_buckets p"] by simp
    obtain c where c: "mb_array_reserve (\<lambda>_. True) (pg_bucket_cap p) (length (pg_buckets p) + 1) RULE_BUCKET_SIZE 8 = Some c"
      by (rule array_reserve_with_memory [where needed = "length (pg_buckets p) + 1" and cap = "pg_bucket_cap p"
            and es = RULE_BUCKET_SIZE and ic = 8])
        (use assms in \<open>simp_all add: RULE_BUCKET_SIZE_def index_small_def\<close>)
    let ?p = "p\<lparr>pg_buckets := pg_buckets p @ [\<lparr>rb_key = key, rb_rules = ([], 0)\<rparr>], pg_bucket_cap := c\<rparr>"
    have "index_small (Suc k) ?p" using assms(1) by (auto simp: index_small_def list_all_iff le_Suc_eq)
    then show thesis using that [of ?b ?p] False c b by (simp add: rule_bucket_def Let_def nth_append)
  qed
qed

lemma index_rule_with_memory:
  assumes "index_small k p" "k < 2 ^ 48"
  obtains p' where "index_rule (\<lambda>_. True) p i = (True, p')" "index_small (Suc k) p'"
proof (cases "case first_subject_token (rl_filter (pg_rules p ! i)) of None \<Rightarrow> True | Some t \<Rightarrow> wildcard_token t")
  case True
  have "length (fst (pg_global p)) < 2 ^ 48" using assms by (simp add: index_small_def)
  then obtain g where g: "rule_ref_append (\<lambda>_. True) (pg_global p) i = Some g" "length (fst g) = Suc (length (fst (pg_global p)))"
    by (rule rule_ref_append_with_memory)
  have "index_small (Suc k) (p\<lparr>pg_global := g\<rparr>)" using assms(1) g(2) by (auto simp: index_small_def list_all_iff le_Suc_eq)
  then show thesis using that True g(1) by (auto simp: index_rule_def split: option.splits)
next
  case False
  then obtain t where t: "first_subject_token (rl_filter (pg_rules p ! i)) = Some t" "\<not> wildcard_token t" by (auto split: option.splits)
  obtain b q where b: "rule_bucket (\<lambda>_. True) p t = (Some b, q)" "b < length (pg_buckets q)" "index_small (Suc k) q"
      "length (fst (rb_rules (pg_buckets q ! b))) \<le> k"
    by (rule rule_bucket_with_memory [OF assms])
  obtain refs where refs: "rule_ref_append (\<lambda>_. True) (rb_rules (pg_buckets q ! b)) i = Some refs"
      "length (fst refs) = Suc (length (fst (rb_rules (pg_buckets q ! b))))"
    by (rule rule_ref_append_with_memory [of "rb_rules (pg_buckets q ! b)" i]) (use b(4) assms(2) in simp_all)
  let ?q = "q\<lparr>pg_buckets := (pg_buckets q)[b := (pg_buckets q ! b)\<lparr>rb_rules := refs\<rparr>]\<rparr>"
  have "index_small (Suc k) ?q" using b refs(2) by (auto simp: index_small_def list_all_iff dest!: set_update_subset_insert [THEN subsetD])
  then show thesis using that t b(1) refs(1) by (simp add: index_rule_def)
qed

lemma index_rules_with_memory:
  "index_small k p \<Longrightarrow> k + length is \<le> 2 ^ 48 \<Longrightarrow> \<exists>p'. index_rules (\<lambda>_. True) is p = (True, p')"
proof (induction "is" arbitrary: k p)
  case (Cons i "is")
  obtain q where "index_rule (\<lambda>_. True) p i = (True, q)" "index_small (Suc k) q"
    by (rule index_rule_with_memory [OF Cons.prems(1)]) (use Cons.prems(2) in simp_all)
  then show ?case using Cons.IH [of "Suc k" q] Cons.prems(2) by simp
qed simp

lemma plain_form_loads:
  assumes "ld_heap env = (\<lambda>_. True)" "plain_form form" "length (pg_rules p) < 2 ^ 48"
  obtains q where "load_on_form env p form = (True, q)"
proof -
  obtain head args where form: "form = PB_LIST (PB_SYMBOL head # args)" "head \<notin> {''lvc'', ''bridge'', ''export'', ''import''}"
    using assms(2) by (auto simp: plain_form_def split: pb_value.split_asm list.split_asm)
  show thesis
  proof (cases "head = ''on''")
    case True
    then obtain r where "rule_of_form (PB_LIST (PB_SYMBOL ''on'' # args)) = Some r" using assms(2) by (auto simp: plain_form_def form form_wf_def)
    then obtain flt rest b where args: "args = PB_STRING flt # rest" "rest \<noteq> []" "load_on_options False (butlast rest) = Some b"
      by (auto simp: rule_of_form_def split: pb_value.split_asm list.split_asm if_split_asm)
    obtain c where "mb_array_reserve (\<lambda>_. True) (pg_rules_cap p) (length (pg_rules p) + 1) RULE_SIZE 8 = Some c"
      by (rule array_reserve_with_memory [where needed = "length (pg_rules p) + 1" and cap = "pg_rules_cap p" and es = RULE_SIZE and ic = 8])
        (use assms(3) in \<open>simp_all add: RULE_SIZE_def\<close>)
    then show thesis using that assms(1) True
      by (simp add: form args load_on_form_def pb_slice_eq_lit_def is_export_config_head_def rule_vec_append_def)
  next
    case False
    then show thesis using that form by (simp add: load_on_form_def pb_slice_eq_lit_def is_export_config_head_def)
  qed
qed

lemma map_filter_length: "length (List.map_filter f xs) \<le> length xs"
  by (simp add: List.map_filter_def)

lemma load_forms_with_memory:
  assumes "ld_heap env = (\<lambda>_. True)"
  shows "list_all plain_form forms \<Longrightarrow> length (pg_rules p) + length forms \<le> 2 ^ 48 \<Longrightarrow> \<exists>p'. load_forms env forms p = (True, p')"
proof (induction forms arbitrary: p)
  case (Cons form forms)
  then obtain q where q: "load_on_form env p form = (True, q)"
    using plain_form_loads [OF assms, of form p] by auto
  have "length (pg_rules q) \<le> length (pg_rules p) + 1"
    using load_on_form_spec(2) [OF q] map_filter_length [of rule_of_form "[form]"] by simp
  then show ?case using Cons.IH [of "with_clocks (subvalues form) q"] Cons.prems q by (simp add: scan_clock_forms_eq with_clocks_def)
qed simp

lemma load_source_spec:
  assumes "load_source env parsed = (ok, p)"
  shows "if ok
    then \<exists>forms arena. parsed = (Inr forms, arena) \<and> list_all form_wf forms \<and>
      pg_rules p = List.map_filter rule_of_form forms \<and> index_upto (length (pg_rules p)) p \<and>
      (pg_uses_wall_clock p \<longleftrightarrow> list_ex is_now_call (concat (map subvalues forms))) \<and>
      (pg_uses_clock_timer p \<longleftrightarrow> list_ex is_timer_call (concat (map subvalues forms)))
    else p = program_zero \<and>
      \<not> (\<exists>forms arena. parsed = (Inr forms, arena) \<and> ld_heap env = (\<lambda>_. True) \<and> length forms \<le> 2 ^ 48 \<and>
         list_all plain_form forms)"
proof (cases ok)
  case True
  then obtain forms arena q where q: "parsed = (Inr forms, arena)"
      "load_forms env forms (program_zero\<lparr>pg_parse_arena := arena\<rparr>) = (True, q)" "build_rule_index (ld_heap env) q = (True, p)"
    using assms by (auto simp: load_source_def split: prod.splits sum.splits bool.splits)
  show ?thesis using True q(1) load_forms_spec [OF q(2)] build_rule_index_spec [OF q(3)] build_rule_index_flags [OF q(3)]
    by (simp add: program_zero_def)
next
  case False
  then have "p = program_zero"
    using assms by (auto simp: load_source_def pb_program_free_def split: prod.splits sum.splits bool.splits)
  moreover have "ok" if src: "parsed = (Inr forms, arena)" "ld_heap env = (\<lambda>_. True)" "length forms \<le> 2 ^ 48"
      "list_all plain_form forms" for forms arena
  proof -
    obtain q where q: "load_forms env forms (program_zero\<lparr>pg_parse_arena := arena\<rparr>) = (True, q)"
      using load_forms_with_memory [OF src(2,4), of "program_zero\<lparr>pg_parse_arena := arena\<rparr>"] src(3) by (auto simp: program_zero_def)
    have len: "length (pg_rules q) \<le> length forms"
      using load_forms_spec [OF q] map_filter_length [of rule_of_form forms] by (simp add: program_zero_def)
    have "index_small 0 (rule_index_free q)" by (simp add: index_small_def rule_index_free_def)
    then obtain q' where "build_rule_index (\<lambda>_. True) q = (True, q')"
      using index_rules_with_memory [of 0 "rule_index_free q" "[0..<length (pg_rules q)]"] len src(3) by (auto simp: build_rule_index_def)
    then show ok using assms src(1,2) q by (simp add: load_source_def)
  qed
  ultimately show ?thesis using False by auto
qed

text \<open>
  \<^bold>\<open>C8\<close> Loading is all or nothing. When it succeeds, the source was parsed, each of its forms is
  well formed, the rules are those of the \<open>on\<close> forms, in their order and with empty state, the
  index covers them all, and the flags for the wall clock and the timer are set exactly when a
  form that needs them occurs somewhere in the source. When it fails, nothing of the program
  is left; and with memory it does not fail on a source of well-formed rules without configuration.
\<close>

theorem load_all_or_nothing:
  assumes "load_source env parsed = (ok, p)"
  shows "if ok
    then \<exists>forms arena. parsed = (Inr forms, arena) \<and> list_all form_wf forms \<and>
      pg_rules p = List.map_filter rule_of_form forms \<and> index_upto (length (pg_rules p)) p \<and>
      (pg_uses_wall_clock p \<longleftrightarrow> list_ex is_now_call (concat (map subvalues forms))) \<and>
      (pg_uses_clock_timer p \<longleftrightarrow> list_ex is_timer_call (concat (map subvalues forms)))
    else p = program_zero \<and>
      \<not> (\<exists>forms arena. parsed = (Inr forms, arena) \<and> ld_heap env = (\<lambda>_. True) \<and> length forms \<le> 2 ^ 48 \<and>
         list_all plain_form forms)"
  using assms by (rule load_source_spec)

definition demo_load_env :: load_env where
  "demo_load_env = \<lparr>ld_heap = (\<lambda>_. True), ld_blocks = (\<lambda>_ _. None), ld_getenv = (\<lambda>_. None), ld_i64_oob = (\<lambda>_. 0)\<rparr>"

definition demo_arena :: pb_arena where "demo_arena = pg_parse_arena program_zero"

definition demo_forms :: "pb_value list" where
  "demo_forms =
     [PB_LIST [PB_SYMBOL ''on'', PB_STRING ''a.>'', PB_KEYWORD ''reentrant'', PB_BOOL True,
        PB_LIST [PB_SYMBOL ''dropout'', PB_NUMBER (D_ZERO False)]],
      PB_LIST [PB_SYMBOL ''on'', PB_STRING ''b'', PB_NIL]]"

theorem load_all_or_nothing_witness:
  "\<exists>p. load_source demo_load_env (Inr demo_forms, demo_arena) = (True, p) \<and>
     pg_rules p = [new_rule ''a.>'' (PB_LIST [PB_SYMBOL ''dropout'', PB_NUMBER (D_ZERO False)]) True, new_rule ''b'' PB_NIL False] \<and>
     pg_uses_clock_timer p \<and> \<not> pg_uses_wall_clock p"
proof -
  obtain ok p where eq: "load_source demo_load_env (Inr demo_forms, demo_arena) = (ok, p)"
    by (cases "load_source demo_load_env (Inr demo_forms, demo_arena)")
  have rules: "List.map_filter rule_of_form demo_forms =
      [new_rule ''a.>'' (PB_LIST [PB_SYMBOL ''dropout'', PB_NUMBER (D_ZERO False)]) True, new_rule ''b'' PB_NIL False]"
    "list_all plain_form demo_forms" "length demo_forms = 2"
    by (simp_all add: demo_forms_def List.map_filter_def rule_of_form_def pb_slice_eq_lit_def plain_form_def form_wf_def)
  have clocks: "list_ex is_timer_call (concat (map subvalues demo_forms))" "\<not> list_ex is_now_call (concat (map subvalues demo_forms))"
    by (simp_all add: demo_forms_def is_timer_call_def timer_forms_def is_now_call_def)
  show ?thesis
    using load_all_or_nothing [OF eq] eq rules clocks by (cases ok) (auto simp: demo_load_env_def)
qed

end
