(* ===== verification/Validate_Correct.thy ===== *)
theory Validate_Correct
  imports Validate Load_Correct
begin

text \<open>
  What the validator accepts, the loader loads, as far as rules go. Settings of exports and imports
  are checked less closely than they are loaded.
\<close>

text \<open>The options of a rule are checked by the same rules as they are loaded.\<close>

lemma validate_on_options_iff: "validate_on_options opts \<longleftrightarrow> (\<exists>b. load_on_options b0 opts = Some b)"
proof (induction b0 opts rule: load_on_options.induct)
  case (2 reentrant key v rest)
  then show ?case by (cases v) (simp_all add: is_bool_def)
qed simp_all

text \<open>A configuration form.\<close>

definition is_config_form :: "pb_value \<Rightarrow> bool" where
  "is_config_form form \<longleftrightarrow>
     (case form of PB_LIST (PB_SYMBOL head # _) \<Rightarrow> head \<in> {''lvc'', ''bridge'', ''export'', ''import''} | _ \<Rightarrow> False)"

lemma validate_on_form_plain:
  assumes "validate_on_form env lib fuel form n = Some (True, n')" "\<not> is_config_form form"
  shows "plain_form form" "n' = n + length (List.map_filter rule_of_form [form])"
proof -
  obtain head args where form: "form = PB_LIST (PB_SYMBOL head # args)"
    using assms(1) by (auto simp: validate_on_form_def split: pb_value.split_asm list.split_asm)
  have head: "head \<notin> {''lvc'', ''bridge'', ''export'', ''import''}" using assms(2) by (simp add: is_config_form_def form)
  have "plain_form form \<and> n' = n + length (List.map_filter rule_of_form [form])"
  proof (cases "head = ''on''")
    case True
    obtain flt rest where args: "args = PB_STRING flt # rest" "rest \<noteq> []" "validate_on_options (butlast rest)" "n' = n + 1"
      using assms(1) True
      by (auto simp: validate_on_form_def form pb_slice_eq_lit_def is_export_config_head_def Let_def
          split: list.split_asm pb_value.split_asm if_split_asm bind_split_asm)
    then obtain b where "load_on_options False (butlast rest) = Some b" using validate_on_options_iff by blast
    then show ?thesis using args True by (simp add: form plain_form_def form_wf_def rule_of_form_def List.map_filter_def)
  next
    case False
    then have "rule_of_form form = None" by (auto simp: form rule_of_form_def split: list.split pb_value.split)
    then show ?thesis using assms(1) head False
      by (simp add: form validate_on_form_def pb_slice_eq_lit_def is_export_config_head_def plain_form_def form_wf_def List.map_filter_def)
  qed
  then show "plain_form form" "n' = n + length (List.map_filter rule_of_form [form])" by simp_all
qed

lemma validate_forms_False: "validate_forms env lib fuel forms False n = Some (good, n') \<Longrightarrow> \<not> good"
  by (induction forms arbitrary: n) (auto split: bind_splits)

lemma validate_forms_plain:
  assumes "validate_forms env lib fuel forms True n = Some (True, n')" "list_all (\<lambda>f. \<not> is_config_form f) forms"
  shows "list_all plain_form forms \<and> n' = n + length (List.map_filter rule_of_form forms)"
  using assms
proof (induction forms arbitrary: n)
  case (Cons form forms)
  obtain valid m where m: "validate_on_form env lib fuel form n = Some (valid, m)"
      "validate_forms env lib fuel forms valid m = Some (True, n')"
    using Cons.prems(1) by (auto split: bind_splits if_split_asm)
  have valid using validate_forms_False [of env lib fuel forms m True n'] m(2) by (cases valid) simp_all
  have "plain_form form" "m = n + length (List.map_filter rule_of_form [form])"
    using validate_on_form_plain [of env lib fuel form n m] m(1) \<open>valid\<close> Cons.prems(2) by simp_all
  then show ?case using Cons.IH [of m] m(2) \<open>valid\<close> Cons.prems(2) by (simp add: List.map_filter_def)
qed (simp add: List.map_filter_def)

text \<open>
  \<^bold>\<open>C20\<close> A file of rules that the validator accepts is loaded: when validation exits with 0 on a file
  without configuration forms, then with memory the loader accepts the same text, and the
  number of rules printed by the validator is the number of rules of the program.
\<close>

theorem validated_rules_load:
  assumes "pb_validate_file venv jenv lib fuel io path = Some (0, out)"
    and "mb_read_file (ld_heap venv) io mb_buf_zero = (True, source)"
    and "pb_parse_patchbay_source jenv [] path (buf_data source) = Some (Inr forms, arena)"
    and "list_all (\<lambda>f. \<not> is_config_form f) forms" "length forms \<le> 2 ^ 48" "ld_heap env = (\<lambda>_. True)"
  shows "\<exists>p. pb_program_load_source env jenv path (buf_data source) = Some (True, p) \<and>
    out = path @ '': ok ('' @ dec_digits (length (pg_rules p)) @ '' rule'' @ (if length (pg_rules p) = 1 then [] else ''s'') @ '')'' @ [LF]"
proof -
  obtain rules where v: "validate_forms venv lib fuel forms True 0 = Some (True, rules)"
      "out = path @ '': ok ('' @ dec_digits rules @ '' rule'' @ (if rules = 1 then [] else ''s'') @ '')'' @ [LF]"
    using assms(1-3) by (auto simp: pb_validate_file_def split: bind_split_asm if_split_asm)
  have plain: "list_all plain_form forms" "rules = length (List.map_filter rule_of_form forms)"
    using validate_forms_plain [OF v(1) assms(4)] by simp_all
  obtain ok p where p: "load_source env (Inr forms, arena) = (ok, p)" by (cases "load_source env (Inr forms, arena)")
  have "ok \<and> length (pg_rules p) = rules"
    using load_source_spec [OF p] plain assms(5,6) by (cases ok) auto
  then show ?thesis using p v(2) assms(3) by (auto simp: pb_program_load_source_def)
qed

definition demo_json_env :: json_env where
  "demo_json_env = \<lparr>js_heap = (\<lambda>_. True), js_blocks = stack_malloc, js_read = (\<lambda>_. Inl 0)\<rparr>"

definition demo_lib :: pb_lib where
  "demo_lib = \<lparr>heap = (\<lambda>_. True), blocks = stack_malloc, cast_oob = (\<lambda>_. 0), qsort_doubles = id, yyjson_read = (\<lambda>_ arena. (None, arena))\<rparr>"

definition demo_rules :: bytes where
  "demo_rules = ''(on \"a.>\" :reentrant true subject)(on \"b\" nil)''"

definition demo_io :: read_io where
  "demo_io = \<lparr>ri_reads = Some [FREAD demo_rules True False], ri_close_ok = True, ri_enoent = False\<rparr>"

definition demo_rule_forms :: "pb_value list" where
  "demo_rule_forms =
     [PB_LIST [PB_SYMBOL ''on'', PB_STRING ''a.>'', PB_KEYWORD ''reentrant'', PB_BOOL True, PB_SYMBOL ''subject''],
      PB_LIST [PB_SYMBOL ''on'', PB_STRING ''b'', PB_NIL]]"

lemma demo_rules_parsed:
  "\<exists>arena. pb_parse_patchbay_source demo_json_env [] ''p.edn'' demo_rules = Some (Inr demo_rule_forms, arena)"
proof -
  have "map_option fst (pb_parse_patchbay_source demo_json_env [] ''p.edn'' demo_rules) = Some (Inr demo_rule_forms)"
    by code_simp
  then show ?thesis by auto
qed

theorem validated_rules_load_witness:
  "\<exists>p. pb_program_load_source demo_load_env demo_json_env ''p.edn'' demo_rules = Some (True, p) \<and>
     ''p.edn: ok (2 rules)'' @ [LF] =
       ''p.edn'' @ '': ok ('' @ dec_digits (length (pg_rules p)) @ '' rule'' @ (if length (pg_rules p) = 1 then [] else ''s'') @ '')'' @ [LF]"
proof -
  have valid: "pb_validate_file demo_load_env demo_json_env demo_lib 3 demo_io ''p.edn'' = Some (0, ''p.edn: ok (2 rules)'' @ [LF])"
    by code_simp
  have "fst (mb_read_file (ld_heap demo_load_env) demo_io mb_buf_zero)"
    "buf_data (snd (mb_read_file (ld_heap demo_load_env) demo_io mb_buf_zero)) = demo_rules"
    by code_simp+
  then obtain source where read: "mb_read_file (ld_heap demo_load_env) demo_io mb_buf_zero = (True, source)" "buf_data source = demo_rules"
    by (cases "mb_read_file (ld_heap demo_load_env) demo_io mb_buf_zero") simp
  obtain arena where parsed: "pb_parse_patchbay_source demo_json_env [] ''p.edn'' (buf_data source) = Some (Inr demo_rule_forms, arena)"
    using demo_rules_parsed by (auto simp: read(2))
  have "list_all (\<lambda>f. \<not> is_config_form f) demo_rule_forms" "length demo_rule_forms \<le> 2 ^ 48" "ld_heap demo_load_env = (\<lambda>_. True)"
    by (simp_all add: demo_rule_forms_def is_config_form_def demo_load_env_def)
  then show ?thesis using validated_rules_load [OF valid read(1) parsed] unfolding read(2) by blast
qed

section \<open>What the validator does not see\<close>

text \<open>
  The loader refuses a second export; the validator checks each form alone and accepts both. The
  load fails with every allocator and parse arena.
\<close>

definition two_exports :: "pb_value list" where
  "two_exports = replicate 2 (PB_LIST [PB_SYMBOL ''export'', PB_KEYWORD ''servers'', PB_STRING ''nats://h''])"

lemma second_export_validated: "validate_forms env lib fuel two_exports True 0 = Some (True, 0)"
proof -
  have "odd (length (PB_SYMBOL ''export'' # [PB_KEYWORD ''servers'', PB_STRING ''nats://h'']))" by simp
  then have "validate_export env [PB_SYMBOL ''export'', PB_KEYWORD ''servers'', PB_STRING ''nats://h'']"
    by (simp del: One_nat_def add: validate_export_def validate_export_option_def pb_slice_eq_lit_def key_in_def
        validate_config_string_list_def is_string_def validate_config_string_def)
  then show ?thesis
    by (simp add: two_exports_def numeral_2_eq_2 validate_on_form_def pb_slice_eq_lit_def is_export_config_head_def)
qed

lemma export_once:
  assumes "load_on_form env p (PB_LIST (PB_SYMBOL ''export'' # args)) = (True, q)"
  shows "pg_bridge p = None" "pg_bridge q \<noteq> None"
  using assms
  by (auto simp: load_on_form_def pb_slice_eq_lit_def is_export_config_head_def load_bridge_form_def Let_def
      split: if_split_asm prod.split_asm option.split_asm)

lemma second_export_refused: "\<not> fst (load_source env (Inr two_exports, arena))"
proof -
  have "load_forms env two_exports p \<noteq> (True, q)" for p q
  proof
    let ?form = "PB_LIST [PB_SYMBOL ''export'', PB_KEYWORD ''servers'', PB_STRING ''nats://h'']"
    assume "load_forms env two_exports p = (True, q)"
    then have "load_forms env [?form, ?form] p = (True, q)" by (simp only: two_exports_def numeral_2_eq_2 replicate.simps)
    then obtain p1 p2 where p: "load_on_form env p ?form = (True, p1)" "load_on_form env (with_clocks (subvalues ?form) p1) ?form = (True, p2)"
      by (elim load_forms_Cons)
    show False using export_once(2) [OF p(1)] export_once(1) [OF p(2)] by (simp add: with_clocks_def)
  qed
  then show ?thesis by (auto simp: load_source_def split: prod.splits bool.splits)
qed

end
