(* ===== verification/Windows_Correct.thy ===== *)
theory Windows_Correct
  imports Forms_Windows
begin

text \<open>
  A ring of \<open>n\<close> cells holds the last \<open>n\<close> values pushed, oldest first, whatever the position of its start.
\<close>

definition ring_ok :: "nat \<Rightarrow> pb_eval_state_entry \<Rightarrow> bool" where
  "ring_ok n slot \<longleftrightarrow>
     0 < n \<and> ring_cap slot = n \<and> length (ring_values slot) = n \<and> ring_len slot \<le> n \<and> ring_start slot < n"

definition ring_list :: "pb_eval_state_entry \<Rightarrow> double list" where
  "ring_list slot = map (\<lambda>i. ring_values slot ! ((ring_start slot + i) mod ring_cap slot)) [0..<ring_len slot]"

lemma those_map_Some: "(\<And>i. i \<in> set is \<Longrightarrow> f i = Some (g i)) \<Longrightarrow> those (map f is) = Some (map g is)"
  by (induction "is") auto

lemma ring_contents_list: "ring_ok n slot \<Longrightarrow> ring_contents slot = Some (ring_list slot)"
  unfolding ring_contents_def ring_list_def
  by (rule those_map_Some) (auto simp: ring_ok_def ring_value_at_def cell_def ring_idx_def)

lemma ring_list_length [simp]: "length (ring_list slot) = ring_len slot"
  by (simp add: ring_list_def)

lemma ring_list_nth: "i < ring_len slot \<Longrightarrow> ring_list slot ! i = ring_values slot ! ((ring_start slot + i) mod ring_cap slot)"
  by (simp add: ring_list_def)

lemma ring_push_count_spec:
  assumes ok: "ring_ok n slot"
  obtains slot' where "ring_push_count slot x = Some slot'" "ring_ok n slot'"
    "ring_list slot' = drop (ring_len slot + 1 - n) (ring_list slot @ [x])"
proof (cases "ring_len slot < n")
  case True
  let ?i = "(ring_start slot + ring_len slot) mod n"
  let ?s = "slot\<lparr>ring_values := (ring_values slot)[?i := x], ring_len := ring_len slot + 1, ring_sum := d_add (ring_sum slot) x\<rparr>"
  have i: "?i < n" using ok by (simp add: ring_ok_def)
  have "ring_push_count slot x = Some ?s" using ok True i by (simp add: ring_push_count_def ring_ok_def set_cell_def ring_idx_def)
  moreover have "ring_ok n ?s" using ok True by (simp add: ring_ok_def)
  moreover have "ring_list ?s = ring_list slot @ [x]"
  proof (rule nth_equalityI)
    fix j assume "j < length (ring_list ?s)"
    then have j: "j \<le> ring_len slot" by simp
    then have "?i = (ring_start slot + j) mod n \<longleftrightarrow> j = ring_len slot"
      using ring_cells_distinct [of "ring_len slot" n j "ring_start slot"] True by auto
    then show "ring_list ?s ! j = (ring_list slot @ [x]) ! j"
      using j ok i by (auto simp: ring_list_nth nth_append ring_ok_def nth_list_update)
  qed simp
  ultimately show thesis using that True by simp
next
  case False
  let ?s = "slot\<lparr>ring_values := (ring_values slot)[ring_start slot := x],
      ring_sum := d_add (d_sub (ring_sum slot) (ring_values slot ! ring_start slot)) x, ring_start := (ring_start slot + 1) mod n\<rparr>"
  have len: "ring_len slot = n" using ok False by (simp add: ring_ok_def)
  have "ring_push_count slot x = Some ?s"
    using ok False by (auto simp: ring_push_count_def ring_ok_def set_cell_def cell_def)
  moreover have "ring_ok n ?s" using ok by (simp add: ring_ok_def)
  moreover have "ring_list ?s = drop 1 (ring_list slot @ [x])"
  proof (rule nth_equalityI)
    fix j assume "j < length (ring_list ?s)"
    then have j: "j < n" using len by simp
    have step: "((ring_start slot + 1) mod n + j) mod n = (ring_start slot + (j + 1)) mod n"
      by (simp add: mod_add_left_eq)
    have start: "ring_start slot = (ring_start slot + n) mod n" using ok by (simp add: ring_ok_def)
    have "ring_start slot = (ring_start slot + (j + 1)) mod n \<longleftrightarrow> j + 1 = n"
    proof (cases "j + 1 = n")
      case False
      then have "j + 1 < n" using j by simp
      then show ?thesis using ring_cells_distinct [of 0 n "j + 1" "ring_start slot"] ok by (auto simp: ring_ok_def)
    qed (use start in simp)
    then show "ring_list ?s ! j = drop 1 (ring_list slot @ [x]) ! j"
      using j ok len step by (auto simp: ring_list_nth nth_append ring_ok_def nth_list_update)
  qed (simp add: len)
  ultimately show thesis using that len by simp
qed

text \<open>The pushes of a form over a window of \<open>cnt\<close> values, one evaluation after the other.\<close>

fun push_values :: "allocator \<Rightarrow> nat \<Rightarrow> pb_eval_state_entry \<Rightarrow> (u64 \<times> double) list \<Rightarrow> (bool \<times> pb_eval_state_entry) option" where
  "push_values am cnt slot [] = Some (True, slot)"
| "push_values am cnt slot ((now, x) # xs) =
     (case window_push am slot False cnt 0 now x of
        None \<Rightarrow> None
      | Some (ok, slot) \<Rightarrow> if ok then push_values am cnt slot xs else Some (False, slot))"

lemma push_values_ring:
  assumes "ring_ok n slot"
  shows "\<exists>slot'. push_values am n slot xs = Some (True, slot') \<and> ring_ok n slot' \<and>
    ring_list slot' = drop (ring_len slot + length xs - n) (ring_list slot @ map snd xs)"
  using assms
proof (induction xs arbitrary: slot)
  case Nil
  then show ?case by (simp add: ring_ok_def)
next
  case (Cons tx xs)
  obtain now x where tx: "tx = (now, x)" by (cases tx)
  obtain s1 where s1: "ring_push_count slot x = Some s1" "ring_ok n s1" "ring_list s1 = drop (ring_len slot + 1 - n) (ring_list slot @ [x])"
    by (rule ring_push_count_spec [OF Cons.prems])
  have len1: "ring_len s1 = ring_len slot + 1 - (ring_len slot + 1 - n)" using arg_cong [OF s1(3), of length]
    by (simp only: ring_list_length length_drop length_append list.size add_0_left One_nat_def)
  have "ring_cap slot \<noteq> 0" using Cons.prems by (simp add: ring_ok_def)
  then have "push_values am n slot (tx # xs) = push_values am n s1 xs" using s1(1) by (simp add: tx window_push_def)
  moreover obtain s2 where s2: "push_values am n s1 xs = Some (True, s2)" "ring_ok n s2"
      "ring_list s2 = drop (ring_len s1 + length xs - n) (ring_list s1 @ map snd xs)"
    using Cons.IH [OF s1(2)] by blast
  moreover have "drop (ring_len s1 + length xs - n) (ring_list s1 @ map snd xs) =
      drop (ring_len slot + length (tx # xs) - n) (ring_list slot @ map snd (tx # xs))"
  proof -
    have le: "ring_len slot \<le> n" and n: "Suc 0 - n = 0" using Cons.prems by (simp_all add: ring_ok_def)
    have "ring_list s1 @ map snd xs = drop (ring_len slot + 1 - n) (ring_list slot @ map snd (tx # xs))"
      using s1(3) le by (simp add: tx n)
    moreover have "ring_len s1 + length xs - n + (ring_len slot + 1 - n) = ring_len slot + length (tx # xs) - n"
      using le len1 by simp
    ultimately show ?thesis by (simp only: drop_drop)
  qed
  ultimately show ?case by auto
qed

text \<open>\<^bold>\<open>C19\<close> A window over the last \<open>n\<close> values is exactly that. From a slot that was never pushed to, with memory for the
  ring, any sequence of pushes succeeds and leaves the last \<open>n\<close> of the values in the ring, oldest
  first; the statistics of the window forms are computed from this list. \<open>n\<close> is any count whose
  array fits in the address space.\<close>

theorem window_keeps_last:
  assumes "0 < n" "n < 2 ^ 61" "am (n * 8)" "xs \<noteq> []"
  shows "\<exists>slot'. push_values am n state_entry_zero xs = Some (True, slot') \<and>
    ring_contents slot' = Some (drop (length xs - n) (map snd xs))"
proof -
  obtain now x ys where xs: "xs = (now, x) # ys" using assms(4) by (cases xs) auto
  let ?s0 = "state_entry_zero\<lparr>ring_values := replicate n (D_ZERO False), ring_cap := n\<rparr>"
  have n8: "n * 8 mod 2 ^ 64 = n * 8" using assms(2) by simp
  have "ring_reserve am state_entry_zero n False = Some (True, ?s0)"
    using assms(1,3) unfolding ring_reserve_def Let_def n8 by (simp add: state_entry_zero_def ring_copy_def)
  then have eq: "window_push am state_entry_zero False n 0 now x = map_option (Pair True) (ring_push_count ?s0 x)"
    by (simp add: window_push_def state_entry_zero_def)
  have ok0: "ring_ok n ?s0" and l0: "ring_list ?s0 = []" using assms(1) by (simp_all add: ring_ok_def state_entry_zero_def ring_list_def)
  have "push_values am n state_entry_zero xs = push_values am n ?s0 xs"
    using eq assms(1) by (simp add: xs window_push_def [of am ?s0])
  moreover obtain s' where "push_values am n ?s0 xs = Some (True, s')" "ring_ok n s'" "ring_list s' = drop (ring_len ?s0 + length xs - n) (ring_list ?s0 @ map snd xs)"
    using push_values_ring [OF ok0] by blast
  ultimately show ?thesis using ring_contents_list l0 by (auto simp: state_entry_zero_def)
qed

theorem window_keeps_last_witness:
  "\<exists>slot'. push_values (\<lambda>_. True) 2 state_entry_zero [(0, D_INF False), (5, D_ZERO False), (9, D_ZERO True)] = Some (True, slot') \<and>
     ring_contents slot' = Some [D_ZERO False, D_ZERO True]"
  using window_keeps_last [of 2 "\<lambda>_. True" "[(0, D_INF False), (5, D_ZERO False), (9, D_ZERO True)]"] by simp

end
