(* ===== verification/Eval_State_Correct.thy ===== *)
theory Eval_State_Correct
  imports Eval_State
begin

text \<open>
  The slots of a rule are a finite map from operation and subject to a slot. The proof reuses the
  theory of the router's hash indexes: the hash of a slot is the hash of one byte string made of
  its rule, its operation and its subject.
\<close>

section \<open>Keys as byte strings\<close>

definition state_key :: "nat \<Rightarrow> bytes \<Rightarrow> bytes \<Rightarrow> bytes" where
  "state_key rule_id op subject = size_bytes rule_id @ op @ CHR 0xFF # subject"

definition entry_key :: "pb_eval_state_entry \<Rightarrow> bytes" where
  "entry_key e = state_key (se_rule_id e) (se_op e) (se_subject e)"

lemma state_key_hash_slice: "state_key_hash rule_id op subject = mb_slice_hash (state_key rule_id op subject)"
  by (simp add: state_key_hash_def state_hash_update_def mb_slice_hash_def state_key_def fnv_step_def Let_def byte_val_def)

text \<open>Names of operations are ASCII literals, so the separator never occurs in one.\<close>

definition op_name :: "bytes \<Rightarrow> bool" where
  "op_name op \<longleftrightarrow> CHR 0xFF \<notin> set op"

lemma split_at_separator:
  "op_name a \<Longrightarrow> op_name b \<Longrightarrow> a @ CHR 0xFF # x = b @ CHR 0xFF # y \<Longrightarrow> a = b \<and> x = y"
proof (induction a arbitrary: b)
  case Nil
  then show ?case by (cases b) (auto simp: op_name_def)
next
  case (Cons c a)
  then show ?case by (cases b) (auto simp: op_name_def)
qed

lemma state_key_inj:
  assumes "op_name op" "op_name op'"
  shows "state_key r op subject = state_key r op' subject' \<longleftrightarrow> op = op' \<and> subject = subject'"
  using split_at_separator [OF assms] by (auto simp: state_key_def)

section \<open>The invariant of the slots of a rule\<close>

definition entry_ok :: "nat \<Rightarrow> pb_eval_state_entry \<Rightarrow> bool" where
  "entry_ok rule_id e \<longleftrightarrow> se_rule_id e = rule_id \<and> op_name (se_op e)"

definition state_keys :: "pb_eval_state \<Rightarrow> bytes list" where
  "state_keys st = map entry_key (st_items st)"

definition state_ok :: "nat \<Rightarrow> pb_eval_state \<Rightarrow> bool" where
  "state_ok rule_id st \<longleftrightarrow>
     (\<forall>e \<in> set (st_items st). entry_ok rule_id e) \<and> distinct (state_keys st) \<and>
     (st_index st \<noteq> [] \<longrightarrow> index_ok (state_keys st) (st_index st))"

lemma entry_key_iff:
  assumes "entry_ok rule_id e" "op_name op"
  shows "entry_key e = state_key rule_id op subject \<longleftrightarrow> state_key_eq e rule_id op subject"
    "entry_key e = state_key rule_id op subject \<longleftrightarrow> se_op e = op \<and> se_subject e = subject"
  using assms state_key_inj by (auto simp: entry_ok_def entry_key_def state_key_eq_def)

lemma state_insert_all_keys: "state_insert_all es i items = index_insert_keys es i (map entry_key items)"
  by (induction items arbitrary: es i) (auto simp: state_index_insert_def state_key_hash_slice entry_key_def)

lemma state_find_loop_index:
  assumes "\<forall>e \<in> set (st_items st). entry_ok rule_id e" "op_name op" "length (st_items st) < SIZE_MAX"
  shows "state_find_loop st rule_id op subject hash slot n =
    map_option (\<lambda>i. if i = SIZE_MAX then None else Some i)
      (index_find_loop (state_keys st) (st_index st) (state_key rule_id op subject) hash slot n)"
  using assms
  by (induction n arbitrary: slot) (auto simp: Let_def state_keys_def entry_key_iff(1))

lemma state_index_find_spec:
  assumes ok: "state_ok rule_id st" and op: "op_name op" and ne: "st_index st \<noteq> []"
  shows "state_index_find st rule_id op subject (state_key_hash rule_id op subject) =
    Some (if state_key rule_id op subject \<in> set (state_keys st) then Some (position (state_key rule_id op subject) (state_keys st)) else None)"
proof -
  have idx: "index_ok (state_keys st) (st_index st)" using ok ne by (simp add: state_ok_def)
  have small: "length (state_keys st) < SIZE_MAX" by (rule index_ok_small [OF idx])
  have "position key (state_keys st) \<noteq> SIZE_MAX" if "key \<in> set (state_keys st)" for key
    using position_lt [OF that] small by simp
  then show ?thesis
    using index_find_spec [OF idx, of "state_key rule_id op subject"] ne small op ok
    by (simp add: state_index_find_def state_find_loop_index state_ok_def index_find_def state_key_hash_slice state_keys_def)
qed

lemma state_scan_spec:
  assumes "\<forall>e \<in> set items. entry_ok rule_id e" "op_name op"
  shows "state_scan items i rule_id op subject =
    (if state_key rule_id op subject \<in> set (map entry_key items)
     then Some (i + position (state_key rule_id op subject) (map entry_key items)) else None)"
  using assms
proof (induction items arbitrary: i)
  case (Cons e es)
  then have "state_key_eq e rule_id op subject \<longleftrightarrow> entry_key e = state_key rule_id op subject" using entry_key_iff(1) by simp
  then show ?case using Cons by (auto simp: position_def)
qed simp

section \<open>Building the index\<close>

lemma state_index_cap_for_spec:
  assumes "state_index_cap_for needed \<noteq> 0" "0 < needed"
  shows "index_cap_ok (state_index_cap_for needed)" "4 * needed \<le> state_index_cap_for needed"
proof -
  have "needed * 4 \<le> SIZE_MAX" "state_index_cap_for needed = next_index_cap (needed * 4)"
    using assms by (auto simp: state_index_cap_for_def next_index_cap_def SIZE_MAX_value split: if_splits)
  then show "index_cap_ok (state_index_cap_for needed)" "4 * needed \<le> state_index_cap_for needed"
    using next_index_cap_spec [of "needed * 4"] assms(1) by auto
qed

lemma state_index_rebuild_spec:
  assumes ok: "state_ok rule_id st" and needed: "length (st_items st) \<le> needed" "0 < needed"
  obtains r st' where "state_index_rebuild am st needed = Some (r, st')" "state_ok rule_id st'" "st_items st' = st_items st"
    "st_cap st' = st_cap st" "r \<Longrightarrow> st_index st' \<noteq> [] \<and> 2 * needed \<le> length (st_index st')" "\<not> r \<Longrightarrow> st' = st"
proof (cases "st_index st \<noteq> [] \<and> needed < length (st_index st) div 2")
  case True
  then show thesis using ok that [of True st] by (auto simp: state_index_rebuild_def)
next
  case False
  let ?cap = "state_index_cap_for needed"
  show thesis
  proof (cases "?cap = 0 \<or> \<not> am (?cap * 24)")
    case True
    then have "state_index_rebuild am st needed = Some (False, st)"
      unfolding state_index_rebuild_def if_not_P [OF False] Let_def by auto
    then show thesis using ok that by blast
  next
    case cap: False
    then have c: "index_cap_ok ?cap" "4 * needed \<le> ?cap" using state_index_cap_for_spec needed(2) by auto
    then have "length (state_keys st) < ?cap" using needed by (simp add: state_keys_def)
    then obtain es where es: "index_insert_keys (replicate ?cap index_entry_zero) 0 (state_keys st) = Some es"
        "index_table_ok (state_keys st) es" "length es = ?cap"
      using index_rebuild_spec c(1) by blast
    let ?st = "st\<lparr>st_index := es\<rparr>"
    have "state_index_rebuild am st needed = Some (True, ?st)"
      using cap es(1) unfolding state_index_rebuild_def if_not_P [OF False]
      by (simp add: Let_def state_insert_all_keys state_keys_def)
    moreover have "es \<noteq> []" using es(3) c(2) needed(2) by auto
    moreover have "2 * length (state_keys st) \<le> length es" "2 * needed \<le> length es" using es(3) c(2) needed by (simp_all add: state_keys_def)
    then have "state_ok rule_id ?st" using ok es(2) \<open>es \<noteq> []\<close> by (simp add: state_ok_def state_keys_def index_ok_def)
    ultimately show thesis using that [of True ?st] \<open>2 * needed \<le> length es\<close> by simp
  qed
qed

section \<open>Finding or making a slot\<close>

definition fresh_slot :: "nat \<Rightarrow> bytes \<Rightarrow> bytes \<Rightarrow> pb_eval_state_entry" where
  "fresh_slot rule_id op subject = state_entry_zero\<lparr>se_rule_id := rule_id, se_op := op, se_subject := subject\<rparr>"

text \<open>The abstract state of a rule: the slot of an operation and a subject, if there is one.\<close>

definition slots_of :: "pb_eval_state \<Rightarrow> bytes \<times> bytes \<rightharpoonup> pb_eval_state_entry" where
  "slots_of st = map_of (map (\<lambda>e. ((se_op e, se_subject e), e)) (st_items st))"

lemma entry_key_fresh: "entry_key (fresh_slot rule_id op subject) = state_key rule_id op subject"
  by (simp add: entry_key_def fresh_slot_def)

lemma state_append_spec:
  assumes ok: "state_ok rule_id st" and op: "op_name op" and new: "state_key rule_id op subject \<notin> set (state_keys st)"
    and room: "st_index st \<noteq> [] \<Longrightarrow> 2 * (length (st_items st) + 1) \<le> length (st_index st)"
  obtains pos st' where "state_append am st rule_id op subject (state_key_hash rule_id op subject) = Some (pos, st')"
    "state_ok rule_id st'"
    "pos = None \<and> st_items st' = st_items st \<or>
     pos = Some (length (st_items st)) \<and> st_items st' = st_items st @ [fresh_slot rule_id op subject]"
proof (cases "mb_array_reserve am (st_cap st) (length (st_items st) + 1) STATE_ENTRY_SIZE 8")
  case None
  then show thesis using ok that by (auto simp: state_append_def)
next
  case (Some cap)
  let ?st = "st\<lparr>st_cap := cap\<rparr>"
  have ok1: "state_ok rule_id ?st" using ok by (simp add: state_ok_def state_keys_def)
  show thesis
  proof (cases "heap_dup_slice am op = None \<or> heap_dup_slice am subject = None")
    case True
    then have "state_append am st rule_id op subject (state_key_hash rule_id op subject) = Some (None, ?st)"
      using Some by (auto simp: state_append_def Let_def split: option.splits)
    then show thesis using ok1 that by auto
  next
    case False
    then have dup: "heap_dup_slice am op = Some op" "heap_dup_slice am subject = Some subject"
      by (auto simp: heap_dup_slice_def split: if_splits)
    let ?items = "st_items st @ [fresh_slot rule_id op subject]"
    have items: "\<forall>e \<in> set ?items. entry_ok rule_id e" using ok op by (auto simp: state_ok_def entry_ok_def fresh_slot_def)
    have keys: "map entry_key ?items = state_keys st @ [state_key rule_id op subject]"
      by (simp add: state_keys_def entry_key_fresh)
    have dist: "distinct (map entry_key ?items)" unfolding keys using ok new by (simp add: state_ok_def)
    show thesis
    proof (cases "st_index st = []")
      case True
      then have "state_append am st rule_id op subject (state_key_hash rule_id op subject) =
          Some (Some (length (st_items st)), ?st\<lparr>st_items := ?items\<rparr>)"
        using Some dup by (simp add: state_append_def Let_def fresh_slot_def)
      then show thesis using that items dist True by (auto simp: state_ok_def state_keys_def)
    next
      case False
      obtain es where es: "index_insert (st_index st) (mb_slice_hash (state_key rule_id op subject)) (length (state_keys st)) = Some es"
          "index_ok (state_keys st @ [state_key rule_id op subject]) es"
        using index_ok_append [of "state_keys st" "st_index st"] ok False room new by (auto simp: state_ok_def state_keys_def)
      then have "state_append am st rule_id op subject (state_key_hash rule_id op subject) =
          Some (Some (length (st_items st)), ?st\<lparr>st_items := ?items, st_index := es\<rparr>)"
        using Some dup False
        by (simp add: state_append_def Let_def fresh_slot_def state_index_insert_def state_key_hash_slice state_keys_def)
      then show thesis using that items dist keys es(2) by (auto simp: state_ok_def state_keys_def)
    qed
  qed
qed

text \<open>The outcome of \<open>state_slot\<close> on a well-formed state.\<close>

definition slot_found :: "nat \<Rightarrow> bytes \<Rightarrow> bytes \<Rightarrow> pb_eval_state \<Rightarrow> nat option \<Rightarrow> pb_eval_state \<Rightarrow> bool" where
  "slot_found rule_id op subject st pos st' \<longleftrightarrow>
     (case pos of
        None \<Rightarrow> (op, subject) \<notin> dom (slots_of st) \<and> slots_of st' = slots_of st
      | Some i \<Rightarrow>
          i < length (st_items st') \<and>
          slots_of st' (op, subject) = Some (st_items st' ! i) \<and>
          slots_of st' = (if (op, subject) \<in> dom (slots_of st) then slots_of st
                          else (slots_of st)((op, subject) \<mapsto> fresh_slot rule_id op subject)))"

lemma map_of_slots_append:
  "k \<notin> fst ` set xs \<Longrightarrow> map_of (xs @ [(k, v)]) = (map_of xs)(k \<mapsto> v)"
  by (induction xs) auto

lemma slots_dom:
  assumes "state_ok rule_id st" "op_name op"
  shows "(op, subject) \<in> dom (slots_of st) \<longleftrightarrow> state_key rule_id op subject \<in> set (state_keys st)"
proof -
  have "entry_key e = state_key rule_id op subject \<longleftrightarrow> se_op e = op \<and> se_subject e = subject" if "e \<in> set (st_items st)" for e
    using assms that entry_key_iff(2) [of rule_id e op subject] by (simp add: state_ok_def)
  then show ?thesis
    by (force simp: slots_of_def dom_map_of_conv_image_fst state_keys_def image_iff)
qed

lemma slots_at_position:
  assumes ok: "state_ok rule_id st" and op: "op_name op" and key: "state_key rule_id op subject \<in> set (state_keys st)"
  shows "slots_of st (op, subject) = Some (st_items st ! position (state_key rule_id op subject) (state_keys st))"
proof -
  let ?i = "position (state_key rule_id op subject) (state_keys st)" and ?ks = "\<lambda>e. (se_op e, se_subject e)"
  have i: "?i < length (st_items st)" using position_lt [OF key] by (simp add: state_keys_def)
  then have mem: "st_items st ! ?i \<in> set (st_items st)" by simp
  then have at_i: "?ks (st_items st ! ?i) = (op, subject)"
    using nth_position [OF key] i entry_key_iff(2) [of rule_id _ op subject] ok op by (simp add: state_keys_def state_ok_def)
  have "inj_on ?ks (set (st_items st))"
  proof (rule inj_onI)
    fix a b assume ab: "a \<in> set (st_items st)" "b \<in> set (st_items st)" "?ks a = ?ks b"
    then have "entry_key a = entry_key b" using ok by (auto simp: entry_key_def state_ok_def entry_ok_def)
    moreover have "inj_on entry_key (set (st_items st))" using ok by (simp add: state_ok_def state_keys_def distinct_map)
    ultimately show "a = b" using ab by (simp add: inj_on_def)
  qed
  moreover have "distinct (st_items st)" using ok by (simp add: state_ok_def state_keys_def distinct_map)
  ultimately have "distinct (map ?ks (st_items st))" by (simp add: distinct_map)
  then show ?thesis unfolding slots_of_def using mem at_i by (intro map_of_is_SomeI) (force simp: comp_def)+
qed

lemma slot_found_present:
  assumes ok: "state_ok rule_id st" and op: "op_name op" and key: "state_key rule_id op subject \<in> set (state_keys st)"
  shows "slot_found rule_id op subject st (Some (position (state_key rule_id op subject) (state_keys st))) st"
proof -
  have "position (state_key rule_id op subject) (state_keys st) < length (st_items st)"
    using position_lt [OF key] by (simp add: state_keys_def)
  then show ?thesis using slots_at_position [OF ok op key] slots_dom [OF ok op] key by (simp add: slot_found_def)
qed

lemma slot_found_fresh:
  assumes ok: "state_ok rule_id st" and op: "op_name op" and new: "state_key rule_id op subject \<notin> set (state_keys st)"
    and res: "pos = None \<and> st_items st' = st_items st \<or>
      pos = Some (length (st_items st)) \<and> st_items st' = st_items st @ [fresh_slot rule_id op subject]"
  shows "slot_found rule_id op subject st pos st'"
proof -
  have out: "(op, subject) \<notin> dom (slots_of st)" using slots_dom [OF ok op] new by simp
  then have "slots_of st' = (slots_of st)((op, subject) \<mapsto> fresh_slot rule_id op subject)"
    if "st_items st' = st_items st @ [fresh_slot rule_id op subject]"
    using that map_of_slots_append [of "(op, subject)" "map (\<lambda>e. ((se_op e, se_subject e), e)) (st_items st)"]
    by (simp add: slots_of_def dom_map_of_conv_image_fst fresh_slot_def del: map_of_append)
  then show ?thesis using res out by (auto simp: slot_found_def slots_of_def split: option.split)
qed

text \<open>The lookup in the index when there is one, in the items otherwise, decides the key.\<close>

lemma state_lookup_spec:
  assumes "state_ok rule_id st" "op_name op"
  shows "state_index_find st rule_id op subject (state_key_hash rule_id op subject) =
    Some (if st_index st \<noteq> [] \<and> state_key rule_id op subject \<in> set (state_keys st)
          then Some (position (state_key rule_id op subject) (state_keys st)) else None)"
    "state_scan (st_items st) 0 rule_id op subject =
     (if state_key rule_id op subject \<in> set (state_keys st)
      then Some (position (state_key rule_id op subject) (state_keys st)) else None)"
  using assms state_index_find_spec [OF assms] state_scan_spec [of "st_items st" rule_id op]
  by (auto simp: state_index_find_def state_ok_def state_keys_def)

lemma state_rebuild_if_spec:
  assumes "state_ok rule_id st" "length (st_items st) \<le> needed" "0 < needed"
  obtains r st' where "(if b then state_index_rebuild am st needed else Some (True, st)) = Some (r, st')"
    "state_ok rule_id st'" "st_items st' = st_items st" "r \<Longrightarrow> b \<Longrightarrow> 2 * needed \<le> length (st_index st')" "\<not> b \<Longrightarrow> st' = st"
proof (cases b)
  case True
  then show thesis using state_index_rebuild_spec [OF assms, of am] that by metis
next
  case False
  then show thesis using that [of True st] assms(1) by simp
qed

text \<open>\<^bold>\<open>C25\<close> The state of a rule is a finite map. \<open>state_slot\<close> always returns on a well-formed state and
  keeps it well formed. When the operation already has a slot for the subject, that slot is found
  and no slot changes, even when the index could not be allocated; otherwise either a zeroed
  slot is added under exactly that key or, when memory runs out, nothing changes.\<close>

theorem state_slot_refines:
  assumes ok: "state_ok rule_id st" and op: "op_name op"
  shows "\<exists>pos st'. state_slot_in am st rule_id op subject = Some (pos, st') \<and> state_ok rule_id st' \<and>
    slot_found rule_id op subject st pos st'"
proof -
  let ?key = "state_key rule_id op subject" and ?hash = "state_key_hash rule_id op subject"
  have "\<exists>r st1. (if st_index st = [] \<and> 8 \<le> length (st_items st)
      then state_index_rebuild am st (length (st_items st)) else Some (True, st)) = Some (r, st1) \<and>
      state_ok rule_id st1 \<and> st_items st1 = st_items st"
    proof (cases "st_items st = []")
    case False
    then show ?thesis
      using state_rebuild_if_spec [OF ok order_refl, where am = am and b = "st_index st = [] \<and> 8 \<le> length (st_items st)"]
      by (metis length_greater_0_conv)
  qed (use ok in auto)
  then obtain r st1 where st1: "(if st_index st = [] \<and> 8 \<le> length (st_items st)
      then state_index_rebuild am st (length (st_items st)) else Some (True, st)) = Some (r, st1)"
      "state_ok rule_id st1" "st_items st1 = st_items st" by blast
  have "slots_of st1 = slots_of st" using st1(3) by (simp add: slots_of_def)
  then have same: "slot_found rule_id op subject st pos st' \<longleftrightarrow> slot_found rule_id op subject st1 pos st'" for pos st'
    by (cases pos) (simp_all add: slot_found_def)
  show ?thesis
  proof (cases "?key \<in> set (state_keys st1)")
    case True
    then have "state_slot_in am st rule_id op subject = Some (Some (position ?key (state_keys st1)), st1)"
      using st1(1) state_lookup_spec [OF st1(2) op, of subject] by (cases "st_index st1 = []") (simp_all add: state_slot_in_def Let_def)
    then show ?thesis using st1(2) slot_found_present [OF st1(2) op True] same by blast
  next
    case False
    let ?b = "st_index st1 \<noteq> [] \<or> 8 \<le> length (st_items st1)"
    obtain r2 st2 where st2: "(if ?b then state_index_rebuild am st1 (length (st_items st1) + 1) else Some (True, st1)) = Some (r2, st2)"
        "state_ok rule_id st2" "st_items st2 = st_items st1" "r2 \<Longrightarrow> ?b \<Longrightarrow> 2 * (length (st_items st1) + 1) \<le> length (st_index st2)"
        "\<not> ?b \<Longrightarrow> st2 = st1"
      by (rule state_rebuild_if_spec [OF st1(2), where needed = "length (st_items st1) + 1" and b = ?b and am = am]) (simp, simp, blast)
    have new: "?key \<notin> set (state_keys st2)" using False st2(3) by (simp add: state_keys_def)
    have step: "state_slot_in am st rule_id op subject =
        (if \<not> r2 then Some (None, st2) else state_append am st2 rule_id op subject ?hash)"
      using False st2(1) state_lookup_spec [OF st1(2) op, of subject]
      unfolding state_slot_in_def Let_def st1(1) by (cases "st_index st1 = []") (simp_all split del: if_split)
    have "\<exists>pos st'. state_slot_in am st rule_id op subject = Some (pos, st') \<and> state_ok rule_id st' \<and>
        (pos = None \<and> st_items st' = st_items st2 \<or>
         pos = Some (length (st_items st2)) \<and> st_items st' = st_items st2 @ [fresh_slot rule_id op subject])"
    proof (cases r2)
      case True
      have "st_index st2 \<noteq> [] \<Longrightarrow> 2 * (length (st_items st2) + 1) \<le> length (st_index st2)"
        using st2 True by fastforce
      then show ?thesis using state_append_spec [OF st2(2) op new, of am] step True by metis
    next
      case False
      then show ?thesis using step st2(2) by simp
    qed
    then show ?thesis using slot_found_fresh [OF st1(2) op False] same st2(3) by metis
  qed
qed

definition two_slots :: pb_eval_state where
  "two_slots = \<lparr>st_items = [fresh_slot 3 ''squelch'' ''a'', fresh_slot 3 ''changed?'' ''a''], st_index = [], st_cap = 8\<rparr>"

theorem state_slot_refines_witness:
  "state_ok 3 two_slots \<and> op_name ''squelch'' \<and>
   (\<exists>pos st'. state_slot_in (\<lambda>_. True) two_slots 3 ''squelch'' ''b'' = Some (pos, st') \<and> state_ok 3 st' \<and>
     slot_found 3 ''squelch'' ''b'' two_slots pos st')"
proof -
  have "state_ok 3 two_slots" "op_name ''squelch''"
    by (simp_all add: two_slots_def state_ok_def entry_ok_def op_name_def fresh_slot_def state_keys_def entry_key_def state_key_def)
  then show ?thesis using state_slot_refines [of 3 two_slots "''squelch''" "\<lambda>_. True" "''b''"] by blast
qed

end
