(* ===== verification/Snapshot_Correct.thy ===== *)
theory Snapshot_Correct
  imports Snapshot Router_LVC_Correct Eval_State_Correct
begin

text \<open>
  What is written to a snapshot is what is read back: first field by field, then slot by slot,
  then for the whole router cache and the state of a program.
\<close>

section \<open>Words\<close>

lemma and_0xff: "v AND 0xff = take_bit 8 (v :: 'a::len word)"
  by (simp add: take_bit_eq_mask mask_eq_exp_minus_1)

lemma byte_of_word: "word_of_nat (byte_val (char_of (unat (take_bit 8 v)))) = take_bit 8 (v :: 'a::len word)"
proof -
  have "unat (take_bit 8 v) < 2 ^ 8" unfolding unsigned_take_bit_eq by (rule take_bit_nat_less_exp)
  then show ?thesis by (simp add: byte_val_def)
qed

lemma bytes_word_bytes:
  fixes v :: "'a::len word"
  shows "i \<le> k \<Longrightarrow> bit (bytes_word i (map (\<lambda>j. char_of (unat (take_bit 8 (drop_bit (j * 8) v)))) [i..<k]) :: 'a word) n \<longleftrightarrow>
     i * 8 \<le> n \<and> n < k * 8 \<and> bit v n"
proof (induction "k - i" arbitrary: i)
  case (Suc d)
  then have "[i..<k] = i # [Suc i..<k]" by (simp add: upt_conv_Cons)
  moreover have "bit v n \<Longrightarrow> n < LENGTH('a)" by (rule bit_imp_le_length)
  ultimately show ?case using Suc
    by (auto simp: bit_or_iff byte_of_word bit_push_bit_iff bit_take_bit_iff bit_drop_bit_eq)
qed simp

lemma word_roundtrip:
  "bytes_word 0 (word_bytes 4 (v :: u32)) = v"
  "bytes_word 0 (word_bytes 8 (w :: u64)) = w"
  by (rule bit_word_eqI; simp add: word_bytes_def and_0xff bytes_word_bytes)+

section \<open>Fields\<close>

lemma word_bytes_length [simp]: "length (word_bytes n v) = n"
  by (simp add: word_bytes_def)

lemma read_written [simp]:
  "read_u8 (c # rest) = Some (c, rest)"
  "read_u32 (word_bytes 4 v @ rest) = Some (v, rest)"
  "read_u64 (word_bytes 8 w @ rest) = Some (w, rest)"
  "skip_bytes (length s) (s @ rest) = Some rest"
  by (simp_all add: read_u8_def read_u32_def read_u64_def skip_bytes_def word_roundtrip)

text \<open>What \<open>append_f64\<close> and \<open>append_len_prefixed\<close> write.\<close>

definition f64_bytes :: "bits64 \<Rightarrow> double \<Rightarrow> bytes" where
  "f64_bytes nan d = word_bytes 8 (bits_of_double nan d)"

definition field :: "bytes \<Rightarrow> bytes" where
  "field s = word_bytes 4 (word_of_nat (length s) :: u32) @ s"

definition nan_bits :: "bits64 \<Rightarrow> bool" where
  "nan_bits nan \<longleftrightarrow> double_of_bits nan = D_NAN"

lemma f64_bytes_length [simp]: "length (f64_bytes nan d) = 8"
  by (simp add: f64_bytes_def)

lemma read_f64_written [simp]:
  "nan_bits nan \<Longrightarrow> double_ok d \<Longrightarrow> read_f64 (f64_bytes nan d @ rest) = Some (d, rest)"
  by (simp add: read_f64_def f64_bytes_def double_bits_roundtrip nan_bits_def)

lemma unat_u32 [simp]: "n \<le> UINT32_MAX \<Longrightarrow> unat (word_of_nat n :: u32) = n"
  by (simp add: UINT32_MAX_def unsigned_of_nat take_bit_nat_eq_self)

lemma read_field [simp]:
  assumes "length s \<le> SNAP_MAX_FIELD"
  shows "read_len_prefixed (field s @ rest) = Some (s, rest)"
proof -
  have "unat (word_of_nat (length s) :: u32) = length s"
    using assms by (intro unat_u32) (simp add: SNAP_MAX_FIELD_def UINT32_MAX_def)
  then show ?thesis using assms by (simp add: read_len_prefixed_def field_def)
qed

text \<open>A writer that, when it succeeds, has added exactly \<open>s\<close>.\<close>

definition adds :: "(mb_buf \<Rightarrow> bool \<times> mb_buf) \<Rightarrow> bytes \<Rightarrow> bool" where
  "adds w s \<longleftrightarrow> (\<forall>out out'. w out = (True, out') \<longrightarrow> buf_data out' = buf_data out @ s)"

lemma adds_seq: "list_all2 adds ws ss \<Longrightarrow> adds (buf_seq ws) (concat ss)"
proof (induction ws ss rule: list_all2_induct)
  case (Cons w ws s ss)
  then show ?case by (fastforce simp: adds_def split: prod.splits bool.splits)
qed (simp add: adds_def)

lemma adds_app [simp, intro]: "adds (app am s) s"
  by (simp add: adds_def mb_buf_append_True)

lemma adds_fields [simp, intro]:
  "adds (append_u8 am c) [c]"
  "adds (append_u32 am v) (word_bytes 4 v)"
  "adds (append_u64 am w) (word_bytes 8 w)"
  "adds (append_f64 am nan d) (f64_bytes nan d)"
  by (simp_all add: adds_def append_u8_def mb_buf_append_byte_eq append_u32_def append_u64_def append_f64_def
      f64_bytes_def mb_buf_append_True)

lemma adds_field:
  assumes "append_len_prefixed am s out = (True, out')"
  shows "buf_data out' = buf_data out @ field s" "length s \<le> SNAP_MAX_FIELD"
proof -
  have seq: "buf_seq [append_u32 am (word_of_nat (length s)), app am s] out = (True, out')" and len: "length s \<le> SNAP_MAX_FIELD"
    using assms by (auto simp: append_len_prefixed_def split: if_splits simp del: buf_seq.simps)
  have "adds (buf_seq [append_u32 am (word_of_nat (length s)), app am s]) (concat [word_bytes 4 (word_of_nat (length s) :: u32), s])"
    by (rule adds_seq) simp
  then show "buf_data out' = buf_data out @ field s" using seq by (simp add: adds_def field_def del: buf_seq.simps)
  show "length s \<le> SNAP_MAX_FIELD" by (rule len)
qed

lemma buf_seq_True:
  "buf_seq (w # ws) out = (True, out') \<longleftrightarrow> (\<exists>out1. w out = (True, out1) \<and> buf_seq ws out1 = (True, out'))"
  by (auto split: prod.splits bool.splits)

lemma adds_key:
  assumes "append_key am e out = (True, out')"
  shows "buf_data out' = buf_data out @ field (se_op e @ CHR '':'' # se_subject e)"
    "length (se_op e @ CHR '':'' # se_subject e) \<le> SNAP_MAX_FIELD"
proof -
  let ?n = "length (se_op e) + 1 + length (se_subject e)"
  let ?ws = "[append_u32 am (word_of_nat ?n), app am (se_op e), append_u8 am (CHR '':''), app am (se_subject e)]"
  have seq: "buf_seq ?ws out = (True, out')" and "?n \<le> SNAP_MAX_FIELD"
    using assms by (auto simp: append_key_def Let_def split: if_splits simp del: buf_seq.simps)
  have "adds (buf_seq ?ws) (concat [word_bytes 4 (word_of_nat ?n :: u32), se_op e, '':'', se_subject e])"
    by (rule adds_seq) simp
  then show "buf_data out' = buf_data out @ field (se_op e @ CHR '':'' # se_subject e)"
    using seq by (simp add: adds_def field_def del: buf_seq.simps)
  show "length (se_op e @ CHR '':'' # se_subject e) \<le> SNAP_MAX_FIELD" using \<open>?n \<le> SNAP_MAX_FIELD\<close> by simp
qed

section \<open>The value of a slot\<close>

text \<open>The values of a ring and their times, oldest first, when all of them are inside the arrays.\<close>

definition ring_times :: "pb_eval_state_entry \<Rightarrow> u64 list option" where
  "ring_times e = those (map (\<lambda>i. cell (ring_times_ms e) (ring_idx e i)) [0..<ring_len e])"

fun doubles_of :: "pb_eval_state_entry \<Rightarrow> double list" where
  "doubles_of e =
     [se_number e, ring_sum e, bar_open e, bar_high e, bar_low e, bar_last_close e] @ ring_values e"

text \<open>
  The slots that survive: the name of the operation has no colon, the numbers are numbers of the
  format, the ring fits in a field and a bar over time has a length.
\<close>

definition slot_savable :: "pb_eval_state_entry \<Rightarrow> bool" where
  "slot_savable e \<longleftrightarrow>
     CHR '':'' \<notin> set (se_op e) \<and> list_all double_ok (doubles_of e) \<and>
     ring_cap e \<le> SNAP_MAX_FIELD div 8 \<and> (bar_time_window e \<longrightarrow> bar_window_ms e \<noteq> 0)"

definition restore_value :: "pb_eval_state_entry \<Rightarrow> pb_eval_state_entry \<Rightarrow> pb_eval_state_entry" where
  "restore_value e z =
     (case se_kind e of
        PB_EVAL_STATE_BYTES \<Rightarrow> z\<lparr>se_bytes := se_bytes e, se_bytes_cap := length (se_bytes e), se_kind := PB_EVAL_STATE_BYTES\<rparr>
      | PB_EVAL_STATE_NUMBER \<Rightarrow> z\<lparr>se_kind := PB_EVAL_STATE_NUMBER, se_number := se_number e\<rparr>
      | PB_EVAL_STATE_RING \<Rightarrow>
          (let vs = the (ring_contents e)
           in if ring_time_window e then
                z\<lparr>ring_values := fill_cells (max 1 (ring_len e)) (D_ZERO False) vs,
                  ring_times_ms := fill_cells (max 1 (ring_len e)) 0 (the (ring_times e)), se_kind := PB_EVAL_STATE_RING,
                  ring_cap := ring_len e, ring_len := ring_len e, ring_sum := foldl d_add (D_ZERO False) vs,
                  ring_window_ms := ring_window_ms e, ring_time_window := True\<rparr>
              else
                z\<lparr>ring_values := fill_cells (max 1 (ring_cap e)) (D_ZERO False) vs, se_kind := PB_EVAL_STATE_RING,
                  ring_cap := ring_cap e, ring_len := ring_len e, ring_sum := ring_sum e\<rparr>)
      | PB_EVAL_STATE_BAR \<Rightarrow>
          z\<lparr>se_kind := PB_EVAL_STATE_BAR, bar_open := bar_open e, bar_high := bar_high e, bar_low := bar_low e,
            bar_count := bar_count e, bar_cap := bar_cap e, bar_window_ms := (if bar_time_window e then bar_window_ms e else 0),
            bar_window_start_ms := bar_window_start_ms e, bar_last_close := bar_last_close e, bar_time_window := bar_time_window e\<rparr>
      | _ \<Rightarrow> z\<lparr>se_kind := PB_EVAL_STATE_EMPTY\<rparr>)"

lemma those_Some_iff: "those xs = Some ys \<longleftrightarrow> xs = map Some ys"
proof (induction xs arbitrary: ys)
  case (Cons x xs)
  then show ?case by (cases ys) (auto split: option.splits)
qed auto

lemma append_cells_True:
  assumes "append_cells ws out = Some (True, out')" "list_all2 (\<lambda>w s. \<forall>f. w = Some f \<longrightarrow> adds f s) ws ss"
  shows "buf_data out' = buf_data out @ concat ss \<and> None \<notin> set ws"
  using assms(2,1)
proof (induction ws ss arbitrary: out rule: list_all2_induct)
  case (Cons w ws s ss)
  from Cons.prems obtain f out1 where f: "w = Some f" "f out = (True, out1)" "append_cells ws out1 = Some (True, out')"
    by (auto split: bind_splits prod.splits bool.splits)
  then show ?case using Cons(1) Cons.IH [OF f(3)] by (auto simp: adds_def)
qed auto

lemma read_values_written:
  "nan_bits nan \<Longrightarrow> list_all double_ok vs \<Longrightarrow> read_values (length vs) (concat (map (f64_bytes nan) vs) @ rest) = (True, vs)"
  by (induction vs) auto

lemma read_samples_written:
  "nan_bits nan \<Longrightarrow> list_all double_ok vs \<Longrightarrow> length ts = length vs \<Longrightarrow>
   read_samples (length vs) (concat (map (\<lambda>(v, t). f64_bytes nan v @ word_bytes 8 t) (zip vs ts)) @ rest) = (True, zip vs ts)"
  by (induction vs arbitrary: ts) (auto simp: length_Suc_conv)

lemma concat_length_const: "(\<And>x. x \<in> set xs \<Longrightarrow> length (f x) = n) \<Longrightarrow> length (concat (map f xs)) = length xs * n"
  by (induction xs) auto

lemma u32_zero_iff: "n \<le> UINT32_MAX \<Longrightarrow> (word_of_nat n :: u32) = 0 \<longleftrightarrow> n = 0"
  by (metis unat_u32 unat_eq_zero)

text \<open>Bytes from which the value of \<open>e\<close> is restored, when there is memory.\<close>

definition ring_readable :: "pb_eval_state_entry \<Rightarrow> bool" where
  "ring_readable e \<longleftrightarrow>
     (se_kind e = PB_EVAL_STATE_RING \<longrightarrow>
        ring_contents e \<noteq> None \<and> (if ring_time_window e then ring_times e \<noteq> None else ring_len e \<le> ring_cap e))"

definition value_reads :: "pb_eval_state_entry \<Rightarrow> bytes \<Rightarrow> bool" where
  "value_reads e bs \<longleftrightarrow> ring_readable e \<and>
     (\<exists>variant vb. bs = variant # vb \<and>
        (\<forall>rest. \<exists>store. load_state_value (byte_val variant) (vb @ rest) = Some (store, rest) \<and>
                        (\<forall>z. store (\<lambda>_. True) z = (True, restore_value e z))))"

lemma value_readsI:
  assumes "bs = variant # vb" "ring_readable e"
    and "\<And>rest. \<exists>store. load_state_value (byte_val variant) (vb @ rest) = Some (store, rest) \<and>
                  (\<forall>z. store (\<lambda>_. True) z = (True, restore_value e z))"
  shows "value_reads e bs"
  using assms by (auto simp: value_reads_def)

lemma byte_val_literals [simp]: "byte_val (CHR 0x00) = 0" "byte_val (CHR 0x01) = 1" "byte_val (CHR 0x02) = 2"
  "byte_val (CHR 0x03) = 3" "byte_val (CHR 0x04) = 4" "byte_val (CHR 0x05) = 5"
  by (simp_all add: byte_val_def)

lemma ring_contents_cells: "ring_contents e = those (map (\<lambda>i. cell (ring_values e) (ring_idx e i)) [0..<ring_len e])"
  by (simp add: ring_contents_def ring_value_at_def [abs_def])

lemma cell_in: "cell xs i = Some x \<Longrightarrow> x \<in> set xs"
  by (auto simp: cell_def split: if_splits)

lemma those_cells:
  assumes "\<forall>i < n. cell xs (f i) \<noteq> None"
  obtains vs where "those (map (\<lambda>i. cell xs (f i)) [0..<n]) = Some vs" "length vs = n" "set vs \<subseteq> set xs"
    "\<forall>i < n. cell xs (f i) = Some (vs ! i)"
proof -
  define vs where "vs = map (\<lambda>i. the (cell xs (f i))) [0..<n]"
  have at_i: "\<forall>i < n. cell xs (f i) = Some (vs ! i)" using assms by (auto simp: vs_def)
  then have "map (\<lambda>i. cell xs (f i)) [0..<n] = map Some vs" by (intro nth_equalityI) (auto simp: vs_def)
  moreover have "set vs \<subseteq> set xs"
  proof
    fix x assume "x \<in> set vs"
    then obtain i where "i < n" "x = vs ! i" by (auto simp: in_set_conv_nth vs_def)
    then show "x \<in> set xs" using at_i cell_in by metis
  qed
  moreover have "length vs = n" by (simp add: vs_def)
  ultimately show thesis using that [of vs] at_i by (simp only: those_Some_iff)
qed

lemma doubles_ok_subset: "list_all double_ok (doubles_of e) \<Longrightarrow> set vs \<subseteq> set (ring_values e) \<Longrightarrow> list_all double_ok vs"
  by (auto simp: list_all_iff)

lemma ring_value_reads:
  assumes app: "append_ring_value am nan e out = Some (True, out')" and tw: "\<not> ring_time_window e"
    and ok: "slot_savable e" and nan: "nan_bits nan" and kind: "se_kind e = PB_EVAL_STATE_RING"
  obtains bs where "buf_data out' = buf_data out @ bs" "value_reads e bs"
proof -
  let ?cell = "\<lambda>i. cell (ring_values e) (ring_idx e i)" and ?n = "ring_len e" and ?cap = "ring_cap e"
  let ?d = "\<lambda>i. if i < ?n then the (?cell i) else D_ZERO False"
  let ?ws = "[Some (append_u8 am (CHR 0x03)), Some (append_u32 am (word_of_nat ?cap)), Some (append_u64 am (word_of_nat ?n)),
      Some (append_f64 am nan (ring_sum e))]
    @ map (\<lambda>i. if i < ?n then map_option (append_f64 am nan) (?cell i) else Some (append_f64 am nan (D_ZERO False))) [0..<?cap]
    @ [Some (append_u32 am 0), Some (append_u32 am 0)]"
  let ?ss = "[[CHR 0x03], word_bytes 4 (word_of_nat ?cap :: u32), word_bytes 8 (word_of_nat ?n :: u64), f64_bytes nan (ring_sum e)]
    @ map (\<lambda>i. f64_bytes nan (?d i)) [0..<?cap] @ [word_bytes 4 (0 :: u32), word_bytes 4 (0 :: u32)]"
  have cap: "?cap \<le> UINT32_MAX" "?n \<le> ?cap" and cells: "append_cells ?ws out = Some (True, out')"
    using app tw by (auto simp: append_ring_value_def split: if_splits simp del: append_cells.simps)
  have "list_all2 (\<lambda>w s. \<forall>f. w = Some f \<longrightarrow> adds f s) ?ws ?ss"
    by (intro list_all2_appendI) (auto simp: list_all2_map1 list_all2_map2 list_all2_same)
  from append_cells_True [OF cells this] have data: "buf_data out' = buf_data out @ concat ?ss" and some: "None \<notin> set ?ws" by auto
  have all: "\<forall>i < ?n. ?cell i \<noteq> None"
  proof (intro allI impI)
    fix i assume "i < ?n"
    then have "map_option (append_f64 am nan) (?cell i) \<in> set ?ws" using cap(2) by auto
    then show "?cell i \<noteq> None" using some by force
  qed
  then obtain vs where vs: "ring_contents e = Some vs" "length vs = ?n" "set vs \<subseteq> set (ring_values e)" "\<forall>i < ?n. ?cell i = Some (vs ! i)"
    unfolding ring_contents_cells using those_cells [of ?n "ring_values e" "ring_idx e"] by metis
  let ?vb = "concat (tl ?ss)"
  have split: "map (\<lambda>i. f64_bytes nan (?d i)) [0..<?cap] = map (f64_bytes nan) vs @ replicate (?cap - ?n) (f64_bytes nan (D_ZERO False))"
    using cap(2) vs(2,4) by (intro nth_equalityI) (auto simp: nth_append)
  have vs_ok: "list_all double_ok vs" using ok vs(3) by (auto simp: slot_savable_def intro: doubles_ok_subset)
  have u: "unat (word_of_nat ?cap :: u32) = ?cap" "unat (word_of_nat ?n :: u64) = ?n"
    using cap by (simp_all add: UINT32_MAX_def unsigned_of_nat take_bit_nat_eq_self)
  have chk: "checked_field_bytes (word_of_nat ?cap) 8 = Some (?cap * 8)"
    using ok u(1) by (simp add: checked_field_bytes_def slot_savable_def)
  have skip: "skip_bytes (?cap * 8) (concat (map (\<lambda>i. f64_bytes nan (?d i)) [0..<?cap]) @ rest) = Some rest" for rest
    using concat_length_const [of "[0..<?cap]" "\<lambda>i. f64_bytes nan (?d i)" 8] by (simp add: skip_bytes_def)
  have vals: "read_values ?n (concat (map (\<lambda>i. f64_bytes nan (?d i)) [0..<?cap]) @ rest) = (True, vs)" for rest
    unfolding split using read_values_written [OF nan vs_ok] vs(2) by simp
  have sum_ok: "double_ok (ring_sum e)" using ok by (simp add: slot_savable_def)
  have "\<exists>store. load_ring (?vb @ rest) = Some (store, rest) \<and> (\<forall>z. store (\<lambda>_. True) z = (True, restore_value e z))" for rest
    using cap skip [of "word_bytes 4 (0 :: u32) @ word_bytes 4 (0 :: u32) @ rest"] vals nan sum_ok chk u vs(1) tw kind
      u32_zero_iff [OF cap(1)]
    by (simp add: load_ring_def restore_value_def skip_bytes_def [of 0] Let_def max_def)
  then have "value_reads e (concat ?ss)" using vs(1) cap(2) tw
    by (intro value_readsI [of _ "CHR 0x03" ?vb]) (simp_all add: load_state_value_def ring_readable_def)
  then show thesis using that data by blast
qed

lemma samples_value_reads:
  assumes app: "append_ring_value am nan e out = Some (True, out')" and tw: "ring_time_window e"
    and ok: "slot_savable e" and nan: "nan_bits nan" and kind: "se_kind e = PB_EVAL_STATE_RING"
  obtains bs where "buf_data out' = buf_data out @ bs" "value_reads e bs"
proof -
  let ?v = "\<lambda>i. cell (ring_values e) (ring_idx e i)" and ?t = "\<lambda>i. cell (ring_times_ms e) (ring_idx e i)" and ?n = "ring_len e"
  let ?ws = "[Some (append_u8 am (CHR 0x05)), Some (append_u64 am (ring_window_ms e)), Some (append_u32 am (word_of_nat ?n))]
    @ concat (map (\<lambda>i. [map_option (append_f64 am nan) (?v i), map_option (append_u64 am) (?t i)]) [0..<?n])"
  let ?ss = "[[CHR 0x05], word_bytes 8 (ring_window_ms e), word_bytes 4 (word_of_nat ?n :: u32)]
    @ concat (map (\<lambda>i. [f64_bytes nan (the (?v i)), word_bytes 8 (the (?t i))]) [0..<?n])"
  have len: "?n \<le> UINT32_MAX" and cells: "append_cells ?ws out = Some (True, out')"
    using app tw by (auto simp: append_ring_value_def split: if_splits simp del: append_cells.simps)
  have "list_all2 (\<lambda>w s. \<forall>f. w = Some f \<longrightarrow> adds f s)
      (concat (map (\<lambda>i. [map_option (append_f64 am nan) (?v i), map_option (append_u64 am) (?t i)]) is))
      (concat (map (\<lambda>i. [f64_bytes nan (the (?v i)), word_bytes 8 (the (?t i))]) is))" for "is"
    by (induction "is") auto
  then have "list_all2 (\<lambda>w s. \<forall>f. w = Some f \<longrightarrow> adds f s) ?ws ?ss" by (intro list_all2_appendI) auto
  from append_cells_True [OF cells this] have data: "buf_data out' = buf_data out @ concat ?ss" and some: "None \<notin> set ?ws" by auto
  have "?v i \<noteq> None \<and> ?t i \<noteq> None" if "i < ?n" for i using some that by simp
  then have some_v: "\<forall>i < ?n. ?v i \<noteq> None" and some_t: "\<forall>i < ?n. ?t i \<noteq> None" by simp_all
  obtain vs where vs: "ring_contents e = Some vs" "length vs = ?n" "set vs \<subseteq> set (ring_values e)" "\<forall>i < ?n. ?v i = Some (vs ! i)"
    by (rule those_cells [OF some_v]) (simp add: ring_contents_cells)
  obtain ts where ts: "ring_times e = Some ts" "length ts = ?n" "\<forall>i < ?n. ?t i = Some (ts ! i)"
    by (rule those_cells [OF some_t]) (simp add: ring_times_def)
  let ?body = "concat (map (\<lambda>(v, t). f64_bytes nan v @ word_bytes 8 t) (zip vs ts))"
  have "map (\<lambda>i. f64_bytes nan (the (?v i)) @ word_bytes 8 (the (?t i))) [0..<?n] =
      map (\<lambda>(v, t). f64_bytes nan v @ word_bytes 8 t) (zip vs ts)"
    using vs(2,4) ts(2,3) by (intro nth_equalityI) auto
  moreover have "concat (concat (map (\<lambda>i. [f i, g i]) is)) = concat (map (\<lambda>i. f i @ g i) is)" for f g :: "nat \<Rightarrow> bytes" and "is"
    by (induction "is") auto
  ultimately have ss: "concat ?ss = CHR 0x05 # word_bytes 8 (ring_window_ms e) @ word_bytes 4 (word_of_nat ?n :: u32) @ ?body"
    by (simp flip: append_assoc)
  have vs_ok: "list_all double_ok vs" using ok vs(3) by (auto simp: slot_savable_def intro: doubles_ok_subset)
  have body: "length ?body = ?n * 16"
    using concat_length_const [of "zip vs ts" "\<lambda>(v, t). f64_bytes nan v @ word_bytes 8 t" 16] vs(2) ts(2) by (simp add: case_prod_beta)
  then have skip: "skip_bytes (?n * 16) (?body @ rest) = Some rest" for rest by (simp add: skip_bytes_def)
  have smp: "read_samples ?n (?body @ rest) = (True, zip vs ts)" for rest
    using read_samples_written [OF nan vs_ok, of ts] vs(2) ts(2) by simp
  have "\<exists>store. load_samples (word_bytes 8 (ring_window_ms e) @ word_bytes 4 (word_of_nat ?n :: u32) @ ?body @ rest) = Some (store, rest) \<and>
      (\<forall>z. store (\<lambda>_. True) z = (True, restore_value e z))" for rest
    using skip [of rest] smp [of rest] len vs(1,2) ts(1,2) tw kind u32_zero_iff [OF len] unat_u32 [OF len]
    by (simp add: load_samples_def restore_value_def Let_def max_def)
  then have "value_reads e (concat ?ss)" using vs(1) ts(1) tw
    by (intro value_readsI [OF ss]) (simp_all add: load_state_value_def ring_readable_def)
  then show thesis using that data by blast
qed

lemma bar_value_reads:
  assumes app: "append_bar_value am nan e out = (True, out')" and ok: "slot_savable e" and nan: "nan_bits nan"
    and kind: "se_kind e = PB_EVAL_STATE_BAR"
  obtains bs where "buf_data out' = buf_data out @ bs" "value_reads e bs"
proof -
  let ?w = "if bar_time_window e then bar_window_ms e else 0"
  let ?ss = "[[CHR 0x04], f64_bytes nan (bar_open e), f64_bytes nan (bar_high e), f64_bytes nan (bar_low e), word_bytes 4 (bar_count e),
      word_bytes 4 (bar_cap e), word_bytes 8 ?w, word_bytes 8 (bar_window_start_ms e), f64_bytes nan (bar_last_close e)]"
  have "adds (append_bar_value am nan e) (concat ?ss)" unfolding append_bar_value_def by (rule adds_seq) simp
  then have "buf_data out' = buf_data out @ concat ?ss" using app by (simp add: adds_def)
  moreover have "(?w \<noteq> 0) = bar_time_window e" using ok by (simp add: slot_savable_def)
  then have "value_reads e (concat ?ss)"
    using ok nan kind
    by (intro value_readsI [of _ "CHR 0x04" "concat (tl ?ss)"])
      (simp_all add: load_state_value_def load_bar_def restore_value_def slot_savable_def ring_readable_def)
  ultimately show thesis using that by blast
qed

lemma state_value_reads:
  assumes app: "append_state_value am nan e out = Some (True, out')" and ok: "slot_savable e" and nan: "nan_bits nan"
    and kind: "se_kind e \<noteq> PB_EVAL_STATE_CLOCK"
  obtains bs where "buf_data out' = buf_data out @ bs" "value_reads e bs"
proof (cases "se_kind e")
  case PB_EVAL_STATE_EMPTY
  then have "append_u8 am (CHR 0x00) out = (True, out')" using app by (simp add: append_state_value_def)
  then have "buf_data out' = buf_data out @ [CHR 0x00]" using adds_fields(1) by (auto simp: adds_def)
  moreover have "value_reads e [CHR 0x00]"
    using PB_EVAL_STATE_EMPTY by (intro value_readsI [of _ "CHR 0x00" "[]"]) (simp_all add: load_state_value_def restore_value_def ring_readable_def)
  ultimately show thesis using that by blast
next
  case PB_EVAL_STATE_NUMBER
  then have "buf_seq [append_u8 am (CHR 0x02), append_f64 am nan (se_number e)] out = (True, out')"
    using app by (simp add: append_state_value_def)
  moreover have "adds (buf_seq [append_u8 am (CHR 0x02), append_f64 am nan (se_number e)]) (concat [[CHR 0x02], f64_bytes nan (se_number e)])"
    by (rule adds_seq) simp
  ultimately have "buf_data out' = buf_data out @ CHR 0x02 # f64_bytes nan (se_number e)" by (simp add: adds_def del: buf_seq.simps)
  moreover have "value_reads e (CHR 0x02 # f64_bytes nan (se_number e))"
    using PB_EVAL_STATE_NUMBER nan ok
    by (intro value_readsI [OF refl]) (simp_all add: load_state_value_def load_number_def restore_value_def slot_savable_def ring_readable_def)
  ultimately show thesis using that by blast
next
  case PB_EVAL_STATE_BYTES
  then obtain out1 where "append_u8 am (CHR 0x01) out = (True, out1)" and len: "append_len_prefixed am (se_bytes e) out1 = (True, out')"
    using app by (auto simp: append_state_value_def buf_seq_True simp del: buf_seq.simps(2))
  then have "buf_data out' = buf_data out @ CHR 0x01 # field (se_bytes e)"
    using adds_fields(1) adds_field(1) [OF len] by (auto simp: adds_def)
  moreover have "value_reads e (CHR 0x01 # field (se_bytes e))"
    using PB_EVAL_STATE_BYTES adds_field(2) [OF len]
    by (intro value_readsI [OF refl]) (simp_all add: load_state_value_def load_bytes_def restore_value_def ring_readable_def)
  ultimately show thesis using that by blast
next
  case PB_EVAL_STATE_RING
  then have "append_ring_value am nan e out = Some (True, out')" using app by (simp add: append_state_value_def)
  then show thesis using that ring_value_reads samples_value_reads ok nan PB_EVAL_STATE_RING by blast
next
  case PB_EVAL_STATE_BAR
  then show thesis using that bar_value_reads [OF _ ok nan] app by (force simp: append_state_value_def)
qed (use kind in simp)

section \<open>A slot\<close>

definition restore_slot :: "nat \<Rightarrow> pb_eval_state_entry \<Rightarrow> pb_eval_state_entry" where
  "restore_slot rule_idx e = restore_value e (fresh_slot rule_idx (se_op e) (se_subject e))"

lemma split_key_written: "CHR '':'' \<notin> set op \<Longrightarrow> split_key (op @ CHR '':'' # subject) = Some (op, subject)"
proof -
  assume "CHR '':'' \<notin> set op"
  then have "takeWhile (\<lambda>c. c \<noteq> CHR '':'') (op @ CHR '':'' # subject) = op" by (subst takeWhile_append2) auto
  then show ?thesis by (simp add: split_key_def)
qed

text \<open>The bytes of a slot: read with memory at hand, they add the restored slot to the state of its rule.\<close>

definition slot_reads :: "nat \<Rightarrow> bytes \<Rightarrow> pb_eval_state_entry \<Rightarrow> bytes \<Rightarrow> bool" where
  "slot_reads rule_idx flt e bs \<longleftrightarrow>
     (\<exists>tail. bs = SNAP_KIND_RULE_STATE # tail \<and>
        (\<forall>rest. \<exists>variant vb. read_state_head (tail @ rest) = Some (rule_idx, flt, se_op e @ CHR '':'' # se_subject e, variant, vb @ rest) \<and>
           value_reads e (variant # vb)))"

lemma append_slot_reads:
  assumes app: "append_slot am nan rule_idx flt e out = Some (True, out')" and ok: "slot_savable e" and nan: "nan_bits nan"
    and kind: "se_kind e \<noteq> PB_EVAL_STATE_CLOCK" and idx: "rule_idx \<le> UINT32_MAX"
  obtains bs where "buf_data out' = buf_data out @ bs" "slot_reads rule_idx flt e bs"
proof -
  obtain out1 out2 out3 out4 where ws: "append_u8 am SNAP_KIND_RULE_STATE out = (True, out1)" "append_u32 am (word_of_nat rule_idx) out1 = (True, out2)"
      "append_pb_slice am flt out2 = (True, out3)" "append_key am e out3 = (True, out4)" "append_state_value am nan e out4 = Some (True, out')"
    using app kind by (auto simp: append_slot_def buf_seq_True split: prod.splits bool.splits simp del: buf_seq.simps(2))
  obtain vs where vs: "buf_data out' = buf_data out4 @ vs" "value_reads e vs" using state_value_reads [OF ws(5) ok nan kind] by blast
  then obtain variant vb where v: "vs = variant # vb" by (auto simp: value_reads_def)
  note flt = adds_field [OF ws(3) [unfolded append_pb_slice_def]] and key = adds_key [OF ws(4)]
  let ?tail = "word_bytes 4 (word_of_nat rule_idx :: u32) @ field flt @ field (se_op e @ CHR '':'' # se_subject e) @ vs"
  have "buf_data out' = buf_data out @ SNAP_KIND_RULE_STATE # ?tail"
    using ws(1,2) flt(1) key(1) vs(1) adds_fields(1,2) by (simp add: adds_def)
  moreover have "slot_reads rule_idx flt e (SNAP_KIND_RULE_STATE # ?tail)"
    using vs(2) v flt(2) key(2) idx by (auto simp: slot_reads_def read_state_head_def)
  ultimately show thesis using that by blast
qed

section \<open>Loading the slots\<close>

definition items_of :: "pb_program \<Rightarrow> pb_eval_state_entry list list" where
  "items_of p = map (\<lambda>r. st_items (rl_state r)) (pg_rules p)"

text \<open>A program without the state of its rules.\<close>

definition stateless :: "pb_program \<Rightarrow> pb_program" where
  "stateless p = p\<lparr>pg_rules := map (\<lambda>r. r\<lparr>rl_state := eval_state_zero\<rparr>) (pg_rules p)\<rparr>"

lemma stateless_filters: "stateless p' = stateless p \<Longrightarrow> map rl_filter (pg_rules p') = map rl_filter (pg_rules p)"
proof -
  assume "stateless p' = stateless p"
  then have "map rl_filter (pg_rules (stateless p')) = map rl_filter (pg_rules (stateless p))" by simp
  then show ?thesis by (simp add: stateless_def comp_def)
qed

lemma upd_rule_state:
  assumes "i < length (pg_rules p)"
  shows "stateless (upd_rule i (\<lambda>r. r\<lparr>rl_state := f r\<rparr>) p) = stateless p"
    "items_of (upd_rule i (\<lambda>r. r\<lparr>rl_state := f r\<rparr>) p) = (items_of p)[i := st_items (f (pg_rules p ! i))]"
proof -
  have "(map (rl_state_update (\<lambda>_. eval_state_zero)) (pg_rules p))[i := (pg_rules p ! i)\<lparr>rl_state := eval_state_zero\<rparr>] =
      map (rl_state_update (\<lambda>_. eval_state_zero)) (pg_rules p)"
    using assms by (metis list_update_id nth_map)
  then show "stateless (upd_rule i (\<lambda>r. r\<lparr>rl_state := f r\<rparr>) p) = stateless p"
    by (simp add: upd_rule_def stateless_def map_update)
qed (use assms in \<open>simp add: upd_rule_def items_of_def map_update\<close>)

lemma load_slot:
  assumes reads: "slot_reads i flt e (k # tail)" and i: "i < length (pg_rules p)" and flt: "rl_filter (pg_rules p ! i) = flt"
    and few: "length (items_of p ! i) < 2 ^ 48" and op: "CHR '':'' \<notin> set (se_op e)"
  obtains p' where "load_rule_state (\<lambda>_. True) (tail @ rest) p n = (Some rest, p', n + 1)" "stateless p' = stateless p"
    "items_of p' = (items_of p)[i := items_of p ! i @ [restore_slot i e]]"
proof -
  let ?st = "rl_state (pg_rules p ! i)" and ?z = "fresh_slot i (se_op e) (se_subject e)"
  obtain variant vb where h: "read_state_head (tail @ rest) = Some (i, flt, se_op e @ CHR '':'' # se_subject e, variant, vb @ rest)"
      "value_reads e (variant # vb)" using reads by (simp add: slot_reads_def) blast
  obtain store where s: "load_state_value (byte_val variant) (vb @ rest) = Some (store, rest)" "store (\<lambda>_. True) ?z = (True, restore_value e ?z)"
    using h(2) by (force simp: value_reads_def)
  have "length (st_items ?st) + 1 \<le> 2 ^ 48" using few i by (simp add: items_of_def)
  then obtain c where c: "mb_array_reserve (\<lambda>_. True) (st_cap ?st) (length (st_items ?st) + 1) STATE_ENTRY_SIZE 8 = Some c"
    by (rule array_reserve_with_memory [where es = STATE_ENTRY_SIZE and ic = 8]) (simp_all add: STATE_ENTRY_SIZE_def)
  let ?st1 = "?st\<lparr>st_cap := c, st_items := st_items ?st @ [?z]\<rparr>"
  let ?p1 = "upd_rule i (\<lambda>r. r\<lparr>rl_state := ?st1\<rparr>) p"
  have app: "append_state (\<lambda>_. True) p i flt (se_op e @ CHR '':'' # se_subject e) = (True, ?p1)"
    using i flt c by (simp add: append_state_def split_key_written [OF op] mb_slice_dup_def fresh_slot_def Let_def)
  have st1: "rl_state (pg_rules ?p1 ! i) = ?st1" using i by (simp add: upd_rule_def)
  let ?p2 = "upd_last_slot i (restore_value e ?z) ?p1"
  have "load_rule_state (\<lambda>_. True) (tail @ rest) p n = (Some rest, ?p2, n + 1)"
    using h(1) app s st1 by (simp add: load_rule_state_def)
  moreover have i1: "i < length (pg_rules ?p1)" using i by (simp add: upd_rule_def)
  moreover have "stateless ?p2 = stateless p"
    unfolding upd_last_slot_def using upd_rule_state(1) [OF i1] upd_rule_state(1) [OF i] by simp
  moreover have "items_of ?p2 = (items_of p)[i := items_of p ! i @ [restore_slot i e]]"
    unfolding upd_last_slot_def upd_rule_state(2) [OF i1] upd_rule_state(2) [OF i] using st1 i
    by (simp add: restore_slot_def items_of_def)
  ultimately show thesis using that by blast
qed

section \<open>Loading the last values\<close>

lemma next_index_cap_loop_small: "0 < cap \<Longrightarrow> needed \<le> SIZE_MAX div 2 \<Longrightarrow> next_index_cap_loop cap needed \<noteq> 0"
proof (induction cap needed rule: next_index_cap_loop.induct)
  case (1 cap needed)
  then show ?case by (subst next_index_cap_loop.simps) auto
qed

lemma index_ensure_with_memory:
  assumes "index_ok keys es" "length keys < 2 ^ 40"
  obtains es' where "index_ensure (\<lambda>_. True) keys es (length keys + 1) = Some (True, es')"
proof -
  obtain r es' where e: "index_ensure (\<lambda>_. True) keys es (length keys + 1) = Some (r, es')"
    using index_ensure_spec [OF assms(1), of "\<lambda>_. True"] by metis
  have "(length keys + 1) * 4 \<le> SIZE_MAX div 2" "length keys + 1 \<le> SIZE_MAX div 4" using assms(2) by (simp_all add: SIZE_MAX_value)
  moreover from this(1) have "next_index_cap ((length keys + 1) * 4) \<noteq> 0"
    unfolding next_index_cap_def by (intro next_index_cap_loop_small) simp_all
  ultimately have r using e by (auto simp: index_ensure_def Let_def split: if_splits bind_splits)
  then show thesis using that e by simp
qed

lemma lvc_store_with_memory:
  assumes ok: "lvc_ok v" and w: "lvc_wanted v s" and val: "mb_proto_subject_valid s False" and new: "s \<notin> set (lvc_keys v)"
    and room: "length (lvc_items v) < MB_MAX_LVC_ENTRIES" "lvc_payload_bytes v + length p \<le> MB_MAX_LVC_BYTES"
  obtains v' b where "lvc_store (\<lambda>_. True) v s p = Some (True, v')" "lvc_ok v'" "lvc_filters v' = lvc_filters v" "lvc_enabled v' = lvc_enabled v"
    "lvc_items v' = lvc_items v @ [\<lparr>le_subject = s, le_payload = b\<rparr>]" "buf_data b = p" "lvc_payload_bytes v' = lvc_payload_bytes v + length p"
proof -
  obtain r v1 where add: "lvc_add (\<lambda>_. True) v s = Some (r, v1)" "lvc_ok v1"
      "lvc_items v1 = (if r then lvc_items v @ [\<lparr>le_subject = s, le_payload = mb_buf_zero\<rparr>] else lvc_items v)"
      "lvc_filters v1 = lvc_filters v" "lvc_enabled v1 = lvc_enabled v" "lvc_payload_bytes v1 = lvc_payload_bytes v"
    using lvc_add_spec [OF ok new val, of "\<lambda>_. True"] by metis
  have n: "length (lvc_keys v) = length (lvc_items v)" by (simp add: lvc_keys_def)
  obtain es where es: "index_ensure (\<lambda>_. True) (lvc_keys v) (lvc_index v) (length (lvc_keys v) + 1) = Some (True, es)"
    using index_ensure_with_memory [of "lvc_keys v" "lvc_index v"] ok room(1) n by (auto simp: lvc_ok_def MB_MAX_LVC_ENTRIES_def)
  obtain c where c: "mb_array_reserve (\<lambda>_. True) (lvc_cap v) (length (lvc_items v) + 1) 40 16 = Some c"
  proof (rule array_reserve_with_memory [where needed = "length (lvc_items v) + 1" and cap = "lvc_cap v" and es = 40 and ic = 16])
    have "length (lvc_items v) + 1 \<le> 65536" using room(1) by (simp add: MB_MAX_LVC_ENTRIES_def)
    also have "\<dots> \<le> 2 ^ 48" by simp
    finally show "length (lvc_items v) + 1 \<le> 2 ^ 48" .
  qed simp_all
  have r using add(1) es c room(1) n
    by (auto simp: lvc_add_def lvc_index_ensure_def mb_slice_dup_def Let_def split: bind_splits)
  obtain b where b: "mb_buf_append (\<lambda>_. True) (mb_buf_clear mb_buf_zero) p = (True, b)" "buf_data b = p"
    using buf_append_with_memory [of "mb_buf_clear mb_buf_zero" p] room(2)
    by (auto simp: buf_wf_def mb_buf_clear_def mb_buf_zero_def SIZE_MAX_value MB_MAX_LVC_BYTES_def)
  let ?v' = "v1\<lparr>lvc_items := lvc_items v @ [\<lparr>le_subject = s, le_payload = b\<rparr>], lvc_payload_bytes := lvc_payload_bytes v + length p\<rparr>"
  have put: "lvc_put (\<lambda>_. True) v1 (length (lvc_items v1) - 1) (lvc_payload_bytes v) p = (True, ?v')"
    using add(3) \<open>r\<close> b(1) by (simp add: lvc_put_def)
  have "lvc_store (\<lambda>_. True) v s p = Some (True, ?v')"
    using w val lvc_entry_find_spec [OF ok, of s] new add(1) \<open>r\<close> put room(2) by (auto simp: lvc_store_def Let_def)
  moreover have "lvc_ok ?v'"
    using lvc_put_spec(1) [OF add(2) _ _ _ put] add(3,6) \<open>r\<close> room(2) by (simp add: mb_buf_zero_def)
  ultimately show thesis using that [of ?v' b] add(4,5) b(2) by simp
qed

section \<open>The whole snapshot\<close>

definition lvc_record :: "bytes \<times> bytes \<Rightarrow> bytes" where
  "lvc_record sp = SNAP_KIND_LVC # field (fst sp) @ field (snd sp)"

definition lvc_pairs :: "mb_lvc \<Rightarrow> (bytes \<times> bytes) list" where
  "lvc_pairs v = map (\<lambda>e. (le_subject e, buf_data (le_payload e))) (lvc_items v)"

lemma lvc_map_pairs: "lvc_map v = map_of (lvc_pairs v)"
  by (simp add: lvc_map_def lvc_pairs_def)

text \<open>The slots a snapshot holds, with the number and the filter of their rule.\<close>

fun saved_slots :: "nat \<Rightarrow> pb_rule list \<Rightarrow> (nat \<times> bytes \<times> pb_eval_state_entry) list" where
  "saved_slots i [] = []"
| "saved_slots i (r # rs) =
     map (\<lambda>e. (i, rl_filter r, e)) (filter (\<lambda>e. se_kind e \<noteq> PB_EVAL_STATE_CLOCK) (st_items (rl_state r))) @ saved_slots (i + 1) rs"

lemma append_slots_reads:
  assumes "append_slots am nan i flt es out = Some (True, out')" "list_all slot_savable es" "nan_bits nan" "i \<le> UINT32_MAX"
  shows "\<exists>bss. buf_data out' = buf_data out @ concat bss \<and>
    list_all2 (\<lambda>(i, flt, e) bs. slot_reads i flt e bs) (map (\<lambda>e. (i, flt, e)) (filter (\<lambda>e. se_kind e \<noteq> PB_EVAL_STATE_CLOCK) es)) bss"
  using assms
proof (induction es arbitrary: out)
  case (Cons e es)
  then obtain out1 where one: "append_slot am nan i flt e out = Some (True, out1)" and rest: "append_slots am nan i flt es out1 = Some (True, out')"
    by (auto split: bind_splits if_splits)
  obtain bss where bss: "buf_data out' = buf_data out1 @ concat bss"
      "list_all2 (\<lambda>(i, flt, e) bs. slot_reads i flt e bs) (map (\<lambda>e. (i, flt, e)) (filter (\<lambda>e. se_kind e \<noteq> PB_EVAL_STATE_CLOCK) es)) bss"
    using Cons.IH [OF rest] Cons.prems by auto
  show ?case
  proof (cases "se_kind e = PB_EVAL_STATE_CLOCK")
    case True
    then have "out1 = out" using one by (simp add: append_slot_def)
    then show ?thesis using bss True by auto
  next
    case False
    then obtain bs where "buf_data out1 = buf_data out @ bs" "slot_reads i flt e bs"
      using append_slot_reads [OF one] Cons.prems by auto
    then show ?thesis using bss False by (intro exI [of _ "bs # bss"]) simp
  qed
qed (auto intro: exI [of _ "[]"])

lemma append_rules_reads:
  assumes "append_rules am nan i rs out = Some (True, out')" "list_all (\<lambda>r. list_all slot_savable (st_items (rl_state r))) rs" "nan_bits nan"
    "i + length rs \<le> UINT32_MAX"
  shows "\<exists>bss. buf_data out' = buf_data out @ concat bss \<and> list_all2 (\<lambda>(i, flt, e) bs. slot_reads i flt e bs) (saved_slots i rs) bss"
  using assms
proof (induction rs arbitrary: i out)
  case (Cons r rs)
  then obtain out1 where one: "append_slots am nan i (rl_filter r) (st_items (rl_state r)) out = Some (True, out1)"
      and rest: "append_rules am nan (i + 1) rs out1 = Some (True, out')"
    by (auto split: bind_splits if_splits)
  obtain bss where bss: "buf_data out1 = buf_data out @ concat bss" "list_all2 (\<lambda>(i, flt, e) bs. slot_reads i flt e bs)
      (map (\<lambda>e. (i, rl_filter r, e)) (filter (\<lambda>e. se_kind e \<noteq> PB_EVAL_STATE_CLOCK) (st_items (rl_state r)))) bss"
    using append_slots_reads [OF one] Cons.prems by auto
  obtain bss' where "buf_data out' = buf_data out1 @ concat bss'" "list_all2 (\<lambda>(i, flt, e) bs. slot_reads i flt e bs) (saved_slots (i + 1) rs) bss'"
    using Cons.IH [OF rest] Cons.prems by auto
  then show ?case using bss by (intro exI [of _ "bss @ bss'"]) (simp add: list_all2_appendI)
qed (auto intro: exI [of _ "[]"])

text \<open>Loading slots appends the restored ones to the states of their rules, in order.\<close>

definition add_slot :: "nat \<times> bytes \<times> pb_eval_state_entry \<Rightarrow> pb_eval_state_entry list list \<Rightarrow> pb_eval_state_entry list list" where
  "add_slot x items = (case x of (i, _, e) \<Rightarrow> items[i := items ! i @ [restore_slot i e]])"

lemma load_records_slots:
  assumes "list_all2 (\<lambda>(i, flt, e) bs. slot_reads i flt e bs) xs bss"
    "\<forall>(i, flt, e) \<in> set xs. i < length (pg_rules p) \<and> rl_filter (pg_rules p ! i) = flt \<and> CHR '':'' \<notin> set (se_op e)"
    "\<forall>i < length (pg_rules p). length (items_of p ! i) + length xs < 2 ^ 48"
  shows "\<exists>p'. load_records (\<lambda>_. True) (concat bss) v (Some p) n =
      Some (True, v, Some p', n\<lparr>sc_rule_state := sc_rule_state n + length xs\<rparr>) \<and>
    stateless p' = stateless p \<and> items_of p' = fold add_slot xs (items_of p)"
  using assms
proof (induction xs bss arbitrary: p n rule: list_all2_induct)
  case Nil
  then show ?case by (subst load_records.simps) (simp add: read_u8_def)
next
  case (Cons x xs bs bss)
  obtain i flt e where x: "x = (i, flt, e)" by (cases x)
  obtain tail where bs: "bs = SNAP_KIND_RULE_STATE # tail" using Cons(1) x by (auto simp: slot_reads_def)
  have i: "i < length (pg_rules p)" "rl_filter (pg_rules p ! i) = flt" "CHR '':'' \<notin> set (se_op e)" using Cons.prems(1) x by auto
  have "length (items_of p ! i) < 2 ^ 48" using Cons.prems(2) i(1) by fastforce
  then obtain p1 where p1: "load_rule_state (\<lambda>_. True) (tail @ concat bss) p (sc_rule_state n) = (Some (concat bss), p1, sc_rule_state n + 1)"
      "stateless p1 = stateless p" "items_of p1 = (items_of p)[i := items_of p ! i @ [restore_slot i e]]"
    using load_slot [of i flt e SNAP_KIND_RULE_STATE tail p "concat bss" "sc_rule_state n"] Cons(1) i bs x by auto
  have flt: "map rl_filter (pg_rules p1) = map rl_filter (pg_rules p)" by (rule stateless_filters [OF p1(2)])
  then have len: "length (pg_rules p1) = length (pg_rules p)" by (metis length_map)
  have flt_i: "rl_filter (pg_rules p1 ! j) = rl_filter (pg_rules p ! j)" if "j < length (pg_rules p)" for j
    using flt that len by (metis nth_map)
  have "\<forall>(i, flt, e) \<in> set xs. i < length (pg_rules p1) \<and> rl_filter (pg_rules p1 ! i) = flt \<and> CHR '':'' \<notin> set (se_op e)"
    using Cons.prems(1) len flt_i by auto
  moreover have "\<forall>i < length (pg_rules p1). length (items_of p1 ! i) + length xs < 2 ^ 48"
    using Cons.prems(2) i(1) len by (auto simp: p1(3) nth_list_update items_of_def [of p])
  ultimately obtain p' where p': "load_records (\<lambda>_. True) (concat bss) v (Some p1) (n\<lparr>sc_rule_state := sc_rule_state n + 1\<rparr>) =
      Some (True, v, Some p', n\<lparr>sc_rule_state := sc_rule_state n + 1 + length xs\<rparr>)"
      "stateless p' = stateless p1" "items_of p' = fold add_slot xs (items_of p1)"
    using Cons.IH [of p1 "n\<lparr>sc_rule_state := sc_rule_state n + 1\<rparr>"] by auto
  have "load_records (\<lambda>_. True) (concat (bs # bss)) v (Some p) n = load_records (\<lambda>_. True) (concat bss) v (Some p1) (n\<lparr>sc_rule_state := sc_rule_state n + 1\<rparr>)"
    unfolding bs by (subst load_records.simps) (simp add: p1(1) SNAP_KIND_LVC_def SNAP_KIND_RULE_STATE_def)
  then show ?case using p' p1(2,3) x by (auto simp: add_slot_def [of "(i, flt, e)"])
qed

lemma add_slots_nth:
  assumes "j < length items" "\<forall>x \<in> set xs. fst x < length items"
  shows "fold add_slot xs items ! j = items ! j @ map (\<lambda>(i, _, e). restore_slot i e) (filter (\<lambda>x. fst x = j) xs)"
  using assms
proof (induction xs arbitrary: items)
  case (Cons x xs)
  obtain i flt e where x: "x = (i, flt, e)" by (cases x)
  have "fold add_slot xs (add_slot x items) ! j =
      add_slot x items ! j @ map (\<lambda>(i, _, e). restore_slot i e) (filter (\<lambda>x. fst x = j) xs)"
    using Cons.prems by (intro Cons.IH) (auto simp: add_slot_def x)
  moreover have "add_slot x items ! j = items ! j @ (if i = j then [restore_slot i e] else [])"
    using Cons.prems by (simp add: add_slot_def x)
  ultimately show ?case by (simp add: x)
qed simp

lemma saved_slots_props:
  "\<forall>(j, flt, e) \<in> set (saved_slots i rs). i \<le> j \<and> j < i + length rs \<and> flt = rl_filter (rs ! (j - i)) \<and> e \<in> set (st_items (rl_state (rs ! (j - i))))"
proof (induction rs arbitrary: i)
  case (Cons r rs)
  have "j - i = Suc (j - (i + 1))" if "i + 1 \<le> j" for j using that by simp
  then show ?case using Cons [of "i + 1"] by (fastforce simp: nth_Cons)
qed simp

lemma saved_slots_at:
  "j < length rs \<Longrightarrow> map (\<lambda>(i, _, e). restore_slot i e) (filter (\<lambda>x. fst x = i + j) (saved_slots i rs)) =
     map (restore_slot (i + j)) (filter (\<lambda>e. se_kind e \<noteq> PB_EVAL_STATE_CLOCK) (st_items (rl_state (rs ! j))))"
proof (induction rs arbitrary: i j)
  case (Cons r rs)
  have later: "fst x \<noteq> i" if "x \<in> set (saved_slots (i + 1) rs)" for x using saved_slots_props [of "i + 1" rs] that by fastforce
  show ?case
  proof (cases j)
    case 0
    then show ?thesis using later by (auto simp: filter_map comp_def filter_empty_conv)
  next
    case (Suc k)
    then show ?thesis using Cons.IH [of k "i + 1"] Cons.prems by (simp add: filter_map comp_def)
  qed
qed simp

text \<open>A restored slot answers as the saved one: the arrays of a ring are compacted, nothing else is lost.\<close>

definition same_slot :: "pb_eval_state_entry \<Rightarrow> pb_eval_state_entry \<Rightarrow> bool" where
  "same_slot e e' \<longleftrightarrow>
     se_op e' = se_op e \<and> se_subject e' = se_subject e \<and> se_kind e' = se_kind e \<and>
     (case se_kind e of
        PB_EVAL_STATE_BYTES \<Rightarrow> se_bytes e' = se_bytes e
      | PB_EVAL_STATE_NUMBER \<Rightarrow> se_number e' = se_number e
      | PB_EVAL_STATE_RING \<Rightarrow>
          ring_contents e' = ring_contents e \<and> ring_time_window e' = ring_time_window e \<and>
          (if ring_time_window e then ring_times e' = ring_times e \<and> ring_window_ms e' = ring_window_ms e
           else ring_cap e' = ring_cap e \<and> ring_sum e' = ring_sum e)
      | PB_EVAL_STATE_BAR \<Rightarrow>
          (bar_open e', bar_high e', bar_low e', bar_last_close e') = (bar_open e, bar_high e, bar_low e, bar_last_close e) \<and>
          (bar_count e', bar_cap e', bar_window_start_ms e', bar_time_window e') =
          (bar_count e, bar_cap e, bar_window_start_ms e, bar_time_window e) \<and>
          (bar_time_window e \<longrightarrow> bar_window_ms e' = bar_window_ms e)
      | _ \<Rightarrow> True)"

lemma cells_compacted:
  assumes "length vs \<le> cap" "ring_start e = 0" "ring_cap e = cap"
  shows "those (map (\<lambda>i. cell (fill_cells (max 1 cap) z vs) (ring_idx e i)) [0..<length vs]) = Some vs"
  using assms by (auto simp: those_Some_iff ring_idx_def cell_def fill_cells_def nth_append intro!: nth_equalityI)

lemma restored_same:
  assumes "ring_readable e" "se_kind e \<noteq> PB_EVAL_STATE_CLOCK"
  shows "same_slot e (restore_slot i e)"
proof (cases "se_kind e = PB_EVAL_STATE_RING")
  case False
  then show ?thesis using assms(2)
    by (cases "se_kind e") (auto simp: same_slot_def restore_slot_def restore_value_def fresh_slot_def)
next
  case True
  then obtain vs where vs: "ring_contents e = Some vs" using assms(1) by (auto simp: ring_readable_def)
  then have len: "length vs = ring_len e" by (auto simp: ring_contents_def those_Some_iff dest: map_eq_imp_length_eq)
  show ?thesis
  proof (cases "ring_time_window e")
    case tw: True
    then obtain ts where ts: "ring_times e = Some ts" using assms(1) True by (auto simp: ring_readable_def)
    then have "length ts = ring_len e" by (auto simp: ring_times_def those_Some_iff dest: map_eq_imp_length_eq)
    then show ?thesis using tw True vs ts len cells_compacted [of vs "ring_len e"] cells_compacted [of ts "ring_len e"]
      by (simp add: same_slot_def restore_slot_def restore_value_def fresh_slot_def state_entry_zero_def ring_contents_cells ring_times_def Let_def)
  next
    case tw: False
    then have "ring_len e \<le> ring_cap e" using assms(1) True by (auto simp: ring_readable_def)
    then show ?thesis using tw True vs len cells_compacted [of vs "ring_cap e"]
      by (simp add: same_slot_def restore_slot_def restore_value_def fresh_slot_def state_entry_zero_def ring_contents_cells Let_def)
  qed
qed

lemma buf_seq_map_True:
  assumes "buf_seq (map f is) out = (True, out')"
    and "\<And>i out out'. i \<in> set is \<Longrightarrow> f i out = (True, out') \<Longrightarrow> buf_data out' = buf_data out @ g i \<and> P i"
  shows "buf_data out' = buf_data out @ concat (map g is) \<and> list_all P is"
  using assms
proof (induction "is" arbitrary: out)
  case (Cons i "is")
  then obtain out1 where "f i out = (True, out1)" "buf_seq (map f is) out1 = (True, out')" by (auto simp: buf_seq_True simp del: buf_seq.simps(2))
  then show ?case using Cons by fastforce
qed simp

lemma append_lvc_entry_True:
  assumes "append_lvc_entry am v i out = (True, out')"
  shows "buf_data out' = buf_data out @ lvc_record (lvc_pairs v ! i) \<and>
    length (fst (lvc_pairs v ! i)) \<le> SNAP_MAX_FIELD \<and> length (snd (lvc_pairs v ! i)) \<le> SNAP_MAX_FIELD"
proof -
  have i: "i < length (lvc_items v)" using assms by (auto simp: append_lvc_entry_def mb_router_lvc_entry_def split: if_splits)
  then obtain out1 out2 where "append_u8 am SNAP_KIND_LVC out = (True, out1)" "append_len_prefixed am (fst (lvc_pairs v ! i)) out1 = (True, out2)"
      "append_len_prefixed am (snd (lvc_pairs v ! i)) out2 = (True, out')"
    using assms by (auto simp: append_lvc_entry_def mb_router_lvc_entry_def lvc_pairs_def buf_seq_True Let_def simp del: buf_seq.simps(2))
  then show ?thesis using adds_fields(1) adds_field by (auto simp: adds_def lvc_record_def)
qed

definition snapshot_header :: bytes where
  "snapshot_header = ''MBLK'' @ [CHR 0x04, CHR 0x00, CHR 0x00, CHR 0x00]"

lemma char_of_version: "char_of SNAP_VERSION = CHR 0x04"
  unfolding SNAP_VERSION_def by code_simp

lemma buf_seq_append_True:
  "buf_seq (ws @ ws') out = (True, out') \<longleftrightarrow> (\<exists>out1. buf_seq ws out = (True, out1) \<and> buf_seq ws' out1 = (True, out'))"
  by (induction ws arbitrary: out) (auto simp: buf_seq_True simp del: buf_seq.simps(2))

lemma build_bytes:
  assumes build: "mb_snapshot_build am nan mb_buf_zero v (Some p) = Some (True, out)"
    and ok: "list_all (\<lambda>r. list_all slot_savable (st_items (rl_state r))) (pg_rules p)" "nan_bits nan" "length (pg_rules p) \<le> UINT32_MAX"
  obtains bss where "buf_data out = snapshot_header @ concat (map lvc_record (lvc_pairs v)) @ concat bss"
    "list_all2 (\<lambda>(i, flt, e) bs. slot_reads i flt e bs) (saved_slots 0 (pg_rules p)) bss"
    "list_all (\<lambda>sp. length (fst sp) \<le> SNAP_MAX_FIELD \<and> length (snd sp) \<le> SNAP_MAX_FIELD) (lvc_pairs v)"
proof -
  let ?n = "length (lvc_items v)"
  let ?hs = "[app am ''MBLK'', append_u8 am (char_of SNAP_VERSION), app am [CHR 0x00, CHR 0x00, CHR 0x00]]"
  obtain out2 where "buf_seq (?hs @ map (append_lvc_entry am v) [0..<?n]) mb_buf_zero = (True, out2)"
      and three: "append_rules am nan 0 (pg_rules p) out2 = Some (True, out)"
    using build by (auto simp: mb_snapshot_build_def append_rule_state_def mb_router_lvc_count_def
        simp del: buf_seq.simps(2) split: prod.splits bool.splits)
  then obtain out1 where one: "buf_seq ?hs mb_buf_zero = (True, out1)" and two: "buf_seq (map (append_lvc_entry am v) [0..<?n]) out1 = (True, out2)"
    unfolding buf_seq_append_True by blast
  have "adds (buf_seq ?hs) (concat [''MBLK'', [CHR 0x04], [CHR 0x00, CHR 0x00, CHR 0x00]])"
    unfolding char_of_version by (rule adds_seq) simp
  then have h: "buf_data out1 = snapshot_header" using one by (simp add: adds_def snapshot_header_def mb_buf_zero_def del: buf_seq.simps)
  have pairs: "map (\<lambda>i. lvc_pairs v ! i) [0..<?n] = lvc_pairs v" by (intro nth_equalityI) (simp_all add: lvc_pairs_def)
  have "buf_data out2 = buf_data out1 @ concat (map (\<lambda>i. lvc_record (lvc_pairs v ! i)) [0..<?n]) \<and>
      list_all (\<lambda>i. length (fst (lvc_pairs v ! i)) \<le> SNAP_MAX_FIELD \<and> length (snd (lvc_pairs v ! i)) \<le> SNAP_MAX_FIELD) [0..<?n]"
    by (rule buf_seq_map_True [OF two]) (rule append_lvc_entry_True)
  moreover have "map (\<lambda>i. lvc_record (lvc_pairs v ! i)) [0..<?n] = map lvc_record (lvc_pairs v)"
    using arg_cong [OF pairs, of "map lvc_record"] by (simp add: comp_def)
  ultimately have l: "buf_data out2 = buf_data out1 @ concat (map lvc_record (lvc_pairs v))"
      "list_all (\<lambda>sp. length (fst sp) \<le> SNAP_MAX_FIELD \<and> length (snd sp) \<le> SNAP_MAX_FIELD) (lvc_pairs v)"
    by (simp_all add: list_all_length lvc_pairs_def)
  obtain bss where "buf_data out = buf_data out2 @ concat bss" "list_all2 (\<lambda>(i, flt, e) bs. slot_reads i flt e bs) (saved_slots 0 (pg_rules p)) bss"
    using append_rules_reads [OF three ok(1,2)] ok(3) by auto
  then show thesis using that h l by simp
qed

lemma lvc_wanted_cong: "lvc_filters v' = lvc_filters v \<Longrightarrow> lvc_enabled v' = lvc_enabled v \<Longrightarrow> lvc_wanted v' s = lvc_wanted v s"
  by (simp add: lvc_wanted_def lvc_subject_enabled_def lvc_stats_subject_enabled_def)

lemma load_records_lvc:
  assumes "lvc_ok v" "\<forall>(s, x) \<in> set ps. mb_proto_subject_valid s False \<and> length s \<le> SNAP_MAX_FIELD \<and> length x \<le> SNAP_MAX_FIELD"
    "distinct (map fst ps)" "fst ` set ps \<inter> set (lvc_keys v) = {}" "length (lvc_items v) + length ps \<le> MB_MAX_LVC_ENTRIES"
    "lvc_payload_bytes v + (\<Sum>sp\<leftarrow>ps. length (snd sp)) \<le> MB_MAX_LVC_BYTES"
  shows "\<exists>v'. load_records (\<lambda>_. True) (concat (map lvc_record ps) @ rest) v prog n =
      load_records (\<lambda>_. True) rest v' prog (n\<lparr>sc_lvc := sc_lvc n + length ps\<rparr>) \<and>
    lvc_ok v' \<and> lvc_map v' = lvc_map v ++ (map_of ps |` {s. lvc_wanted v s})"
  using assms
proof (induction ps arbitrary: v n)
  case (Cons sx ps)
  obtain s x where sx: "sx = (s, x)" by (cases sx)
  let ?go = "\<lambda>v1. load_records (\<lambda>_. True) (concat (map lvc_record ps) @ rest) v1 prog (n\<lparr>sc_lvc := sc_lvc n + 1\<rparr>)"
  have valid: "mb_proto_subject_valid s False" "length s \<le> SNAP_MAX_FIELD" "length x \<le> SNAP_MAX_FIELD" using Cons.prems(2) sx by auto
  have "\<exists>v1. lvc_store (\<lambda>_. True) v s x = Some (True, v1) \<and> lvc_ok v1 \<and> lvc_filters v1 = lvc_filters v \<and> lvc_enabled v1 = lvc_enabled v \<and>
      lvc_payload_bytes v1 \<le> lvc_payload_bytes v + length x \<and> length (lvc_items v1) \<le> length (lvc_items v) + 1 \<and>
      set (lvc_keys v1) \<subseteq> insert s (set (lvc_keys v)) \<and>
      lvc_map v1 = (if lvc_wanted v s then (lvc_map v)(s \<mapsto> x) else lvc_map v)"
  proof (cases "lvc_wanted v s")
    case True
    have fresh: "s \<notin> set (lvc_keys v)" using Cons.prems(4) sx by auto
    have "length (lvc_items v) < MB_MAX_LVC_ENTRIES" "lvc_payload_bytes v + length x \<le> MB_MAX_LVC_BYTES" using Cons.prems(5,6) sx by auto
    from lvc_store_with_memory [OF Cons.prems(1) True valid(1) fresh this] obtain v1 b where
        v1: "lvc_store (\<lambda>_. True) v s x = Some (True, v1)" "lvc_ok v1" "lvc_filters v1 = lvc_filters v" "lvc_enabled v1 = lvc_enabled v"
        "lvc_items v1 = lvc_items v @ [\<lparr>le_subject = s, le_payload = b\<rparr>]" "buf_data b = x" "lvc_payload_bytes v1 = lvc_payload_bytes v + length x"
      by blast
    moreover have "lvc_map v1 = (lvc_map v)(s \<mapsto> x)"
      using lvc_store_spec [OF Cons.prems(1), of "\<lambda>_. True" s x] v1(1) True by (metis Pair_inject option.inject)
    ultimately show ?thesis using True by (auto simp: lvc_keys_def)
  next
    case False
    then show ?thesis using Cons.prems(1) by (auto simp: lvc_store_def)
  qed
  then obtain v1 where v1: "lvc_store (\<lambda>_. True) v s x = Some (True, v1)" "lvc_ok v1" "lvc_filters v1 = lvc_filters v" "lvc_enabled v1 = lvc_enabled v"
      "lvc_payload_bytes v1 \<le> lvc_payload_bytes v + length x" "length (lvc_items v1) \<le> length (lvc_items v) + 1"
      "set (lvc_keys v1) \<subseteq> insert s (set (lvc_keys v))" "lvc_map v1 = (if lvc_wanted v s then (lvc_map v)(s \<mapsto> x) else lvc_map v)"
    by blast
  have step: "load_records (\<lambda>_. True) (concat (map lvc_record (sx # ps)) @ rest) v prog n = ?go v1"
    using valid v1(1) by (subst load_records.simps) (simp add: sx lvc_record_def mb_router_store_lvc_def)
  have "\<exists>v'. ?go v1 = load_records (\<lambda>_. True) rest v' prog (n\<lparr>sc_lvc := sc_lvc n + 1 + length ps\<rparr>) \<and>
      lvc_ok v' \<and> lvc_map v' = lvc_map v1 ++ (map_of ps |` {s. lvc_wanted v1 s})"
  proof -
    have "fst ` set ps \<inter> set (lvc_keys v1) = {}" using Cons.prems(3,4) v1(7) sx by auto
    moreover have "length (lvc_items v1) + length ps \<le> MB_MAX_LVC_ENTRIES" using Cons.prems(5) v1(6) by simp
    moreover have "lvc_payload_bytes v1 + (\<Sum>sp\<leftarrow>ps. length (snd sp)) \<le> MB_MAX_LVC_BYTES" using Cons.prems(6) v1(5) sx by (simp add: comp_def)
    ultimately show ?thesis
      using Cons.IH [of v1 "n\<lparr>sc_lvc := sc_lvc n + 1\<rparr>"] Cons.prems(2,3) v1(2) by simp
  qed
  then obtain v' where v': "?go v1 = load_records (\<lambda>_. True) rest v' prog (n\<lparr>sc_lvc := sc_lvc n + 1 + length ps\<rparr>)"
      "lvc_ok v'" "lvc_map v' = lvc_map v1 ++ (map_of ps |` {s. lvc_wanted v1 s})" by blast
  have w: "lvc_wanted v1 = lvc_wanted v" using lvc_wanted_cong [OF v1(3,4)] by blast
  have "map_of ps s = None" using Cons.prems(3) sx by (simp add: map_of_eq_None_iff)
  then have eq: "lvc_map v' = lvc_map v ++ (map_of (sx # ps) |` {s. lvc_wanted v s})"
    unfolding v'(3) v1(8) w sx by (auto simp: map_add_def restrict_map_def fun_eq_iff split: option.splits)
  have cnt: "sc_lvc n + 1 + length ps = sc_lvc n + length (sx # ps)" by simp
  show ?case by (intro exI [of _ v'] conjI) (rule trans [OF step v'(1) [unfolded cnt]], rule v'(2), rule eq)
qed (auto simp: map_add_def)

section \<open>Saving and restarting\<close>

definition savable :: "mb_lvc \<Rightarrow> pb_program \<Rightarrow> bool" where
  "savable v p \<longleftrightarrow>
     lvc_ok v \<and> list_all (\<lambda>r. list_all slot_savable (st_items (rl_state r))) (pg_rules p) \<and>
     length (pg_rules p) \<le> UINT32_MAX \<and> length (saved_slots 0 (pg_rules p)) < 2 ^ 48"

text \<open>A start with the rules of \<open>p\<close>, before anything was cached or evaluated.\<close>

definition restarted :: "mb_lvc \<Rightarrow> pb_program \<Rightarrow> pb_program \<Rightarrow> bool" where
  "restarted v0 p0 p \<longleftrightarrow>
     lvc_ok v0 \<and> lvc_items v0 = [] \<and> lvc_payload_bytes v0 = 0 \<and>
     map rl_filter (pg_rules p0) = map rl_filter (pg_rules p) \<and> list_all (\<lambda>r. st_items (rl_state r) = []) (pg_rules p0)"

definition slots_restored :: "pb_program \<Rightarrow> pb_program \<Rightarrow> bool" where
  "slots_restored p p' \<longleftrightarrow>
     list_all2 (\<lambda>r r'. list_all2 same_slot (filter (\<lambda>e. se_kind e \<noteq> PB_EVAL_STATE_CLOCK) (st_items (rl_state r))) (st_items (rl_state r')))
       (pg_rules p) (pg_rules p')"

lemma saved_slots_readable:
  assumes "list_all2 (\<lambda>(i, flt, e) bs. slot_reads i flt e bs) xs bss" "(i, flt, e) \<in> set xs"
  shows "ring_readable e"
proof -
  obtain k where "k < length xs" "xs ! k = (i, flt, e)" using assms(2) by (auto simp: in_set_conv_nth)
  then have "slot_reads i flt e (bss ! k)" using list_all2_nthD [OF assms(1)] by fastforce
  then show ?thesis by (auto simp: slot_reads_def value_reads_def)
qed

lemma saved_slots_member:
  "j < length rs \<Longrightarrow> e \<in> set (st_items (rl_state (rs ! j))) \<Longrightarrow> se_kind e \<noteq> PB_EVAL_STATE_CLOCK \<Longrightarrow>
   (i + j, rl_filter (rs ! j), e) \<in> set (saved_slots i rs)"
proof (induction rs arbitrary: i j)
  case (Cons r rs)
  show ?case
  proof (cases j)
    case (Suc k)
    then show ?thesis using Cons.IH [of k "i + 1"] Cons.prems by simp
  qed (use Cons.prems in simp)
qed simp

lemma slots_restoredI:
  assumes reads: "list_all2 (\<lambda>(i, flt, e) bs. slot_reads i flt e bs) (saved_slots 0 (pg_rules p)) bss"
    and items: "items_of p' = fold add_slot (saved_slots 0 (pg_rules p)) (items_of p0)"
    and start: "restarted v0 p0 p" and rules: "length (pg_rules p') = length (pg_rules p)"
  shows "slots_restored p p'"
  unfolding slots_restored_def list_all2_conv_all_nth [of _ "pg_rules p"]
proof (intro conjI allI impI)
  show "length (pg_rules p) = length (pg_rules p')" using rules by simp
next
  fix j assume j: "j < length (pg_rules p)"
  have len: "length (items_of p0) = length (pg_rules p)" using start by (metis items_of_def length_map restarted_def)
  have "\<forall>x \<in> set (saved_slots 0 (pg_rules p)). fst x < length (items_of p0)"
    using saved_slots_props [of 0 "pg_rules p"] len by fastforce
  moreover have "items_of p0 ! j = []" using start j len by (simp add: items_of_def restarted_def list_all_length)
  ultimately have "st_items (rl_state (pg_rules p' ! j)) =
      map (restore_slot j) (filter (\<lambda>e. se_kind e \<noteq> PB_EVAL_STATE_CLOCK) (st_items (rl_state (pg_rules p ! j))))"
    using add_slots_nth [of j "items_of p0" "saved_slots 0 (pg_rules p)"] saved_slots_at [OF j, of 0] j len rules items
    by (simp add: items_of_def [of p'] flip: items)
  moreover have "same_slot e (restore_slot j e)"
    if "e \<in> set (st_items (rl_state (pg_rules p ! j)))" "se_kind e \<noteq> PB_EVAL_STATE_CLOCK" for e
    using restored_same saved_slots_readable [OF reads saved_slots_member [OF j that, of 0]] that(2) by simp
  ultimately show "list_all2 same_slot (filter (\<lambda>e. se_kind e \<noteq> PB_EVAL_STATE_CLOCK) (st_items (rl_state (pg_rules p ! j))))
      (st_items (rl_state (pg_rules p' ! j)))"
    by (simp add: list_all2_map2 list_all2_same)
qed

text \<open>\<^bold>\<open>C5\<close> A restart loses nothing that a snapshot keeps. When a snapshot of a cache and of a program was built, then
  reading it at the next start, with memory at hand, succeeds: the last values are exactly the saved
  ones of the subjects that the filters of the new start still cover, and every rule has the
  slots it had, in order, except those of the clocks; each slot answers as the one saved, although the
  rings were compacted. Nothing else of the program changes.\<close>

theorem snapshot_round_trip:
  assumes nan: "nan_bits nan" and save: "savable v p"
    and build: "mb_snapshot_build am nan mb_buf_zero v (Some p) = Some (True, out)"
    and start: "restarted v0 p0 p"
    and disk: "mb_read_file (\<lambda>_. True) io mb_buf_zero = (True, f)" "buf_data f = buf_data out"
  shows "\<exists>v' p' counts. mb_snapshot_load (\<lambda>_. True) io v0 (Some p0) = Some (True, v', Some p', counts) \<and>
    lvc_map v' = lvc_map v |` {s. lvc_wanted v0 s} \<and> slots_restored p p' \<and> stateless p' = stateless p0 \<and>
    counts = \<lparr>sc_lvc = length (lvc_items v), sc_rule_state = length (saved_slots 0 (pg_rules p))\<rparr>"
proof -
  obtain bss where bss: "buf_data out = snapshot_header @ concat (map lvc_record (lvc_pairs v)) @ concat bss"
      "list_all2 (\<lambda>(i, flt, e) bs. slot_reads i flt e bs) (saved_slots 0 (pg_rules p)) bss"
      "list_all (\<lambda>sp. length (fst sp) \<le> SNAP_MAX_FIELD \<and> length (snd sp) \<le> SNAP_MAX_FIELD) (lvc_pairs v)"
    using build_bytes [OF build] save nan by (auto simp: savable_def)
  let ?n0 = "\<lparr>sc_lvc = 0, sc_rule_state = 0\<rparr>" and ?n1 = "\<lparr>sc_lvc = length (lvc_items v), sc_rule_state = 0\<rparr>"
  have "mb_snapshot_load (\<lambda>_. True) io v0 (Some p0) =
      load_records (\<lambda>_. True) (concat (map lvc_record (lvc_pairs v)) @ concat bss) v0 (Some p0) ?n0"
    using disk bss(1) by (simp add: mb_snapshot_load_def snapshot_header_def SNAP_VERSION_def SNAP_MIN_READ_VERSION_def)
  also have "\<exists>v'. \<dots> = load_records (\<lambda>_. True) (concat bss) v' (Some p0) (?n0\<lparr>sc_lvc := sc_lvc ?n0 + length (lvc_pairs v)\<rparr>) \<and>
      lvc_ok v' \<and> lvc_map v' = lvc_map v0 ++ (map_of (lvc_pairs v) |` {s. lvc_wanted v0 s})"
  proof (rule load_records_lvc)
    show "\<forall>(s, x) \<in> set (lvc_pairs v). mb_proto_subject_valid s False \<and> length s \<le> SNAP_MAX_FIELD \<and> length x \<le> SNAP_MAX_FIELD"
      using bss(3) save by (auto simp: lvc_pairs_def savable_def lvc_ok_def list_all_iff)
    show "distinct (map fst (lvc_pairs v))"
      using save by (simp add: lvc_pairs_def savable_def lvc_ok_def index_ok_def lvc_keys_def comp_def)
    show "lvc_payload_bytes v0 + (\<Sum>sp\<leftarrow>lvc_pairs v. length (snd sp)) \<le> MB_MAX_LVC_BYTES"
      using save start by (simp add: lvc_pairs_def savable_def lvc_ok_def lvc_bytes_def restarted_def comp_def)
    show "lvc_ok v0" "fst ` set (lvc_pairs v) \<inter> set (lvc_keys v0) = {}" using start by (simp_all add: restarted_def lvc_keys_def)
    show "length (lvc_items v0) + length (lvc_pairs v) \<le> MB_MAX_LVC_ENTRIES"
      using save start by (simp add: lvc_pairs_def savable_def lvc_ok_def restarted_def)
  qed
  finally obtain v' where v': "mb_snapshot_load (\<lambda>_. True) io v0 (Some p0) = load_records (\<lambda>_. True) (concat bss) v' (Some p0) ?n1"
      "lvc_map v' = lvc_map v0 ++ (map_of (lvc_pairs v) |` {s. lvc_wanted v0 s})" by (auto simp: lvc_pairs_def)
  have flts: "length (pg_rules p0) = length (pg_rules p)" "\<forall>j < length (pg_rules p). rl_filter (pg_rules p0 ! j) = rl_filter (pg_rules p ! j)"
    using start by (metis restarted_def length_map) (metis restarted_def nth_map length_map start)
  have "\<exists>p'. load_records (\<lambda>_. True) (concat bss) v' (Some p0) ?n1 =
      Some (True, v', Some p', ?n1\<lparr>sc_rule_state := sc_rule_state ?n1 + length (saved_slots 0 (pg_rules p))\<rparr>) \<and>
      stateless p' = stateless p0 \<and> items_of p' = fold add_slot (saved_slots 0 (pg_rules p)) (items_of p0)"
  proof (rule load_records_slots [OF bss(2)])
    show "\<forall>(i, flt, e) \<in> set (saved_slots 0 (pg_rules p)). i < length (pg_rules p0) \<and> rl_filter (pg_rules p0 ! i) = flt \<and> CHR '':'' \<notin> set (se_op e)"
      using saved_slots_props [of 0 "pg_rules p"] flts save by (fastforce simp: savable_def list_all_length slot_savable_def in_set_conv_nth)
    show "\<forall>i < length (pg_rules p0). length (items_of p0 ! i) + length (saved_slots 0 (pg_rules p)) < 2 ^ 48"
      using start save by (simp add: items_of_def restarted_def savable_def list_all_length)
  qed
  then obtain p' where p': "load_records (\<lambda>_. True) (concat bss) v' (Some p0) ?n1 =
      Some (True, v', Some p', \<lparr>sc_lvc = length (lvc_items v), sc_rule_state = length (saved_slots 0 (pg_rules p))\<rparr>)"
      "stateless p' = stateless p0" "items_of p' = fold add_slot (saved_slots 0 (pg_rules p)) (items_of p0)" by auto
  have "length (pg_rules p') = length (pg_rules p)" using stateless_filters [OF p'(2)] flts(1) by (metis length_map)
  then have "slots_restored p p'" by (rule slots_restoredI [OF bss(2) p'(3) start])
  moreover have "lvc_map v0 = Map.empty" using start by (simp add: restarted_def lvc_map_def)
  ultimately show ?thesis using v' p' by (simp add: lvc_map_pairs)
qed

definition saved_program :: pb_program where
  "saved_program = program_zero\<lparr>pg_rules :=
     [\<lparr>rl_filter = ''a'', rl_body = PB_NIL, rl_emitted = 0, rl_suppressed = 0, rl_reentrant = False,
       rl_state = eval_state_zero\<lparr>st_items :=
         [(fresh_slot 0 ''delta'' ''a'')\<lparr>se_kind := PB_EVAL_STATE_NUMBER, se_number := d_of_int 5\<rparr>,
          (fresh_slot 0 ''sum/t'' ''a'')\<lparr>se_kind := PB_EVAL_STATE_RING, ring_values := [D_ZERO False, d_of_int 7], ring_cap := 2,
             ring_len := 2, ring_start := 1, ring_sum := d_of_int 7\<rparr>,
          (fresh_slot 0 ''sample'' ''a'')\<lparr>se_kind := PB_EVAL_STATE_CLOCK\<rparr>]\<rparr>\<rparr>]\<rparr>"

definition file_of :: "mb_buf \<Rightarrow> read_io" where
  "file_of b = \<lparr>ri_reads = Some [FREAD (buf_data b) True False], ri_close_ok = True, ri_enoent = False\<rparr>"

theorem snapshot_round_trip_witness:
  "\<exists>out v' p' counts. mb_snapshot_build (\<lambda>_. True) 0x7FF8000000000000 mb_buf_zero lvc_zero (Some saved_program) = Some (True, out) \<and>
     mb_snapshot_load (\<lambda>_. True) (file_of out) lvc_zero (Some (stateless saved_program)) = Some (True, v', Some p', counts) \<and>
     slots_restored saved_program p' \<and> stateless p' = stateless saved_program \<and>
     counts = \<lparr>sc_lvc = length (lvc_items lvc_zero), sc_rule_state = length (saved_slots 0 (pg_rules saved_program))\<rparr>"
proof -
  have "map_option (\<lambda>(ok, out). (ok, length (buf_data out) < 1000)) (mb_snapshot_build (\<lambda>_. True) 0x7FF8000000000000 mb_buf_zero lvc_zero (Some saved_program)) = Some (True, True)"
    by code_simp
  then obtain out where out: "mb_snapshot_build (\<lambda>_. True) 0x7FF8000000000000 mb_buf_zero lvc_zero (Some saved_program) = Some (True, out)"
      "length (buf_data out) < 1000" by auto
  have "double_of_bits 0x7FF8000000000000 = D_NAN" by code_simp
  then have nan: "nan_bits 0x7FF8000000000000" by (simp add: nan_bits_def)
  have save: "savable lvc_zero saved_program"
    by (simp add: savable_def saved_program_def fresh_slot_def state_entry_zero_def slot_savable_def d_of_int_def SNAP_MAX_FIELD_def UINT32_MAX_def)
  have start: "restarted lvc_zero (stateless saved_program) saved_program"
    by (simp add: restarted_def stateless_def saved_program_def eval_state_zero_def lvc_zero_def lvc_ok_zero [unfolded lvc_zero_def])
  obtain f where f: "mb_buf_append (\<lambda>_. True) mb_buf_zero (buf_data out) = (True, f)" "buf_data f = buf_data mb_buf_zero @ buf_data out"
    using buf_append_with_memory [of mb_buf_zero "buf_data out"] out(2) by (auto simp: buf_wf_def mb_buf_zero_def SIZE_MAX_value)
  have "mb_read_file (\<lambda>_. True) (file_of out) mb_buf_zero = (True, f)"
  proof (cases "buf_data out = []")
    case True
    then show ?thesis using f(1) by (simp add: mb_read_file_def file_of_def mb_buf_append_def)
  qed (use f(1) in \<open>simp add: mb_read_file_def file_of_def\<close>)
  moreover have "buf_data f = buf_data out" using f(2) by (simp add: mb_buf_zero_def)
  ultimately have read: "mb_read_file (\<lambda>_. True) (file_of out) mb_buf_zero = (True, f)" "buf_data f = buf_data out" .
  from snapshot_round_trip [OF nan save out(1) start read] show ?thesis using out(1) by (auto simp: stateless_def comp_def)
qed

end
