(* ===== verification/Http_Parse.thy ===== *)
theory Http_Parse
  imports Proto_Write C_Text "HOL-Library.Monad_Syntax"
begin

text \<open>
  The text side of the HTTP interface (\<open>src/src/server/http.c\<close>): request lines and headers, subjects in
  paths, Basic credentials, responses and server-sent events. Literals are C strings without a
  NUL.
\<close>

definition MB_HTTP_MAX_HEADER :: nat where "MB_HTTP_MAX_HEADER = 8 * 1024"
definition MB_HTTP_MAX_TARGET :: nat where "MB_HTTP_MAX_TARGET = 1024"
definition MB_HTTP_READ_CHUNK :: nat where "MB_HTTP_READ_CHUNK = 16 * 1024"

datatype mb_http_method = MB_HTTP_GET | MB_HTTP_POST

record mb_http_request =
  rq_method :: mb_http_method
  rq_target :: bytes
  rq_authorization :: bytes
  rq_content_type :: bytes
  rq_content_length :: nat
  rq_has_authorization :: bool
  rq_has_content_length :: bool
  rq_has_content_type :: bool
  rq_has_transfer_encoding :: bool

definition http_request_zero :: mb_http_request where
  "http_request_zero = \<lparr>rq_method = MB_HTTP_GET, rq_target = [], rq_authorization = [], rq_content_type = [], rq_content_length = 0,
     rq_has_authorization = False, rq_has_content_length = False, rq_has_content_type = False, rq_has_transfer_encoding = False\<rparr>"

section \<open>Slices\<close>

definition append_lit :: "allocator \<Rightarrow> bytes \<Rightarrow> mb_buf \<Rightarrow> bool \<times> mb_buf" where
  "append_lit am lit out = mb_buf_append am out lit"

definition append_usize :: "allocator \<Rightarrow> nat \<Rightarrow> mb_buf \<Rightarrow> bool \<times> mb_buf" where
  "append_usize am n out = mb_buf_append am out (dec_digits n)"

definition trim_ows :: "bytes \<Rightarrow> bytes" where
  "trim_ows s =
     (let s = dropWhile (\<lambda>c. c = CHR '' '' \<or> c = TAB) s
      in rev (dropWhile (\<lambda>c. c = CHR '' '' \<or> c = TAB \<or> c = CR) (rev s)))"

definition slice_eq_lit :: "bytes \<Rightarrow> bytes \<Rightarrow> bool" where
  "slice_eq_lit s lit \<longleftrightarrow> length s = length lit \<and> s = lit"

definition slice_starts_lit :: "bytes \<Rightarrow> bytes \<Rightarrow> bool" where
  "slice_starts_lit s lit \<longleftrightarrow> length lit \<le> length s \<and> take (length lit) s = lit"

definition slice_eq_ci_lit :: "bytes \<Rightarrow> bytes \<Rightarrow> bool" where
  "slice_eq_ci_lit s lit \<longleftrightarrow> length s = length lit \<and> list_all2 (\<lambda>a b. c_tolower a = c_tolower b) s lit"

definition slice_starts_ci_lit :: "bytes \<Rightarrow> bytes \<Rightarrow> bool" where
  "slice_starts_ci_lit s lit \<longleftrightarrow>
     length lit \<le> length s \<and> list_all2 (\<lambda>a b. c_tolower a = c_tolower b) (take (length lit) s) lit"

definition media_type_is :: "bytes \<Rightarrow> bytes \<Rightarrow> bool" where
  "media_type_is value media_type =
     (let value = trim_ows value; n = length media_type
      in if length value < n then False
         else if \<not> list_all2 (\<lambda>a b. c_tolower a = c_tolower b) (take n value) media_type then False
         else if length value = n then True
         else value ! n = CHR '';'' \<or> value ! n = CHR '' '' \<or> value ! n = TAB)"

definition content_type_allowed :: "bytes \<Rightarrow> bool" where
  "content_type_allowed value \<longleftrightarrow> media_type_is value ''text/plain'' \<or> media_type_is value ''application/json''"

definition parse_usize_slice :: "bytes \<Rightarrow> nat option" where
  "parse_usize_slice s =
     (let s = trim_ows s in if length s = 0 then None else parse_usize_loop 0 s)"

section \<open>Headers\<close>

text \<open>The position after the first empty line: one ended by CR LF anywhere, or else by LF alone.\<close>

fun find_crlf :: "nat \<Rightarrow> bytes \<Rightarrow> nat option" where
  "find_crlf i (a # b # c # d # rest) =
     (if a = CR \<and> b = LF \<and> c = CR \<and> d = LF then Some (i + 4) else find_crlf (i + 1) (b # c # d # rest))"
| "find_crlf i _ = None"

fun find_lf :: "nat \<Rightarrow> bytes \<Rightarrow> nat option" where
  "find_lf i (a # b # rest) = (if a = LF \<and> b = LF then Some (i + 2) else find_lf (i + 1) (b # rest))"
| "find_lf i _ = None"

definition find_header_end :: "bytes \<Rightarrow> nat option" where
  "find_header_end buf = (case find_crlf 0 buf of Some n \<Rightarrow> Some n | None \<Rightarrow> find_lf 0 buf)"

text \<open>The next line and what follows it, \<open>None\<close> at the end.\<close>

definition next_line :: "bytes \<Rightarrow> (bytes \<times> bytes) option" where
  "next_line rest =
     (if rest = [] then None
      else let line = takeWhile (\<lambda>c. c \<noteq> LF) rest;
               rest = drop (length line + 1) rest
           in Some (if line \<noteq> [] \<and> last line = CR then butlast line else line, rest))"

lemma next_line_shorter [termination_simp]: "next_line rest = Some (line, rest') \<Longrightarrow> length rest' < length rest"
  by (auto simp: next_line_def Let_def split: if_splits)

definition http_next_token :: "bytes \<Rightarrow> bytes option \<times> bytes" where
  "http_next_token rest =
     (let rest = trim_ows rest
      in if rest = [] then (None, rest)
         else let tok = takeWhile (\<lambda>c. c \<noteq> CHR '' '' \<and> c \<noteq> TAB) rest in (Some tok, drop (length tok) rest))"

definition parse_header_line :: "bytes \<Rightarrow> mb_http_request \<Rightarrow> mb_http_request option" where
  "parse_header_line line req =
     (let name = takeWhile (\<lambda>c. c \<noteq> CHR '':'') line
      in if length name = length line then None
         else let value = trim_ows (drop (length name + 1) line);
                  name = trim_ows name
              in if name = [] then None
                 else if slice_eq_ci_lit name ''authorization'' then Some (req\<lparr>rq_authorization := value, rq_has_authorization := True\<rparr>)
                 else if slice_eq_ci_lit name ''content-type'' then Some (req\<lparr>rq_content_type := value, rq_has_content_type := True\<rparr>)
                 else if slice_eq_ci_lit name ''content-length'' then
                   (if rq_has_content_length req then None
                    else case parse_usize_slice value of
                           None \<Rightarrow> None
                         | Some n \<Rightarrow> Some (req\<lparr>rq_content_length := n, rq_has_content_length := True\<rparr>))
                 else if slice_eq_ci_lit name ''transfer-encoding'' then Some (req\<lparr>rq_has_transfer_encoding := True\<rparr>)
                 else Some req)"

fun parse_header_lines :: "bytes \<Rightarrow> mb_http_request \<Rightarrow> mb_http_request option" where
  "parse_header_lines header req =
     (case next_line header of
        None \<Rightarrow> Some req
      | Some (line, header) \<Rightarrow>
          if length line = 0 then parse_header_lines header req
          else case parse_header_line line req of
                 None \<Rightarrow> None
               | Some req \<Rightarrow> parse_header_lines header req)"

declare parse_header_lines.simps [simp del]

definition parse_method :: "bytes \<Rightarrow> mb_http_method option" where
  "parse_method m =
     (if slice_eq_lit m ''GET'' then Some MB_HTTP_GET else if slice_eq_lit m ''POST'' then Some MB_HTTP_POST else None)"

definition target_ok :: "bytes \<Rightarrow> bool" where
  "target_ok target \<longleftrightarrow>
     length target \<noteq> 0 \<and> length target \<le> MB_HTTP_MAX_TARGET \<and> hd target = CHR ''/'' \<and>
     list_all (\<lambda>c. c \<noteq> CHR ''?'' \<and> c \<noteq> CHR ''#'') target"

definition parse_headers :: "bytes \<Rightarrow> mb_http_request option" where
  "parse_headers header =
     do { (line, header) \<leftarrow> next_line header;
          let (m, rest) = http_next_token line;
          m \<leftarrow> m;
          let (target, rest) = http_next_token rest;
          target \<leftarrow> target;
          let (version, rest) = http_next_token rest;
          version \<leftarrow> version;
          if fst (http_next_token rest) \<noteq> None then None
          else do { meth \<leftarrow> parse_method m;
                    if (\<not> slice_eq_lit version ''HTTP/1.1'' \<and> \<not> slice_eq_lit version ''HTTP/1.0'') \<or> \<not> target_ok target then None
                    else parse_header_lines header (http_request_zero\<lparr>rq_method := meth, rq_target := target\<rparr>) } }"

section \<open>Subjects in paths\<close>

definition hex_value :: "char \<Rightarrow> int" where
  "hex_value c =
     (if byte_val (CHR ''0'') \<le> byte_val c \<and> byte_val c \<le> byte_val (CHR ''9'') then int (byte_val c) - int (byte_val (CHR ''0''))
      else if byte_val (CHR ''a'') \<le> byte_val c \<and> byte_val c \<le> byte_val (CHR ''f'') then int (byte_val c) - int (byte_val (CHR ''a'')) + 10
      else if byte_val (CHR ''A'') \<le> byte_val c \<and> byte_val c \<le> byte_val (CHR ''F'') then int (byte_val c) - int (byte_val (CHR ''A'')) + 10
      else - 1)"

definition append_decoded_path_byte :: "allocator \<Rightarrow> mb_buf \<Rightarrow> char \<Rightarrow> bool \<times> mb_buf" where
  "append_decoded_path_byte am out c =
     (if c = CHR 0x00 \<or> c = CHR ''/'' \<or> c = CHR ''.'' \<or> byte_val c \<le> byte_val (CHR '' '') \<or> c = CHR 0x7F then (False, out)
      else if MB_MAX_CONTROL_LINE \<le> buf_len out then (False, out)
      else mb_buf_append_byte am out c)"

text \<open>The loop over the path; \<open>has\<close> says that the current token has bytes.\<close>

fun decode_path_loop :: "allocator \<Rightarrow> bytes \<Rightarrow> bool \<Rightarrow> mb_buf \<Rightarrow> bool \<times> mb_buf" where
  "decode_path_loop am [] has out = (has, out)"
| "decode_path_loop am (c # path) has out =
     (if c = CHR ''/'' then
        (if \<not> has \<or> MB_MAX_CONTROL_LINE \<le> buf_len out then (False, out)
         else case mb_buf_append_byte am out (CHR ''.'') of
                (False, out) \<Rightarrow> (False, out)
              | (True, out) \<Rightarrow> decode_path_loop am path False out)
      else if c = CHR ''%'' then
        (case path of
           h # l # path' \<Rightarrow>
             (let hi = hex_value h; lo = hex_value l
              in if hi < 0 \<or> lo < 0 then (False, out)
                 else case append_decoded_path_byte am out (char_of (nat hi * 16 + nat lo)) of
                        (False, out) \<Rightarrow> (False, out)
                      | (True, out) \<Rightarrow> decode_path_loop am path' True out)
         | _ \<Rightarrow> (False, out))
      else case append_decoded_path_byte am out c of
             (False, out) \<Rightarrow> (False, out)
           | (True, out) \<Rightarrow> decode_path_loop am path True out)"

definition decode_subject_path :: "allocator \<Rightarrow> bytes \<Rightarrow> bytes \<Rightarrow> bool \<Rightarrow> mb_buf \<Rightarrow> bool \<times> mb_buf" where
  "decode_subject_path am target pfx allow_wildcards out =
     (if length target \<le> length pfx \<or> take (length pfx) target \<noteq> pfx then (False, out)
      else case decode_path_loop am (drop (length pfx) target) False (mb_buf_clear out) of
             (False, out) \<Rightarrow> (False, out)
           | (True, out) \<Rightarrow> (mb_proto_subject_valid (buf_data out) allow_wildcards, out))"

section \<open>Server-sent events\<close>

definition slice_has_nul :: "bytes \<Rightarrow> bool" where
  "slice_has_nul s \<longleftrightarrow> length s \<noteq> 0 \<and> CHR 0x00 \<in> set s"

definition BACKSPACE :: char where "BACKSPACE = CHR 0x08"
definition FORMFEED :: char where "FORMFEED = CHR 0x0C"
definition QUOTE :: char where "QUOTE = CHR 0x22"
definition BACKSLASH :: char where "BACKSLASH = CHR 0x5C"

fun json_string_len :: "nat \<Rightarrow> bytes \<Rightarrow> nat option" where
  "json_string_len tot [] = Some tot"
| "json_string_len tot (c # s) =
     (case add_size tot (if c = QUOTE \<or> c = BACKSLASH \<or> c = LF \<or> c = CR \<or> c = TAB \<or> c = BACKSPACE \<or> c = FORMFEED then 2
                         else if byte_val c < 0x20 then 6 else 1) of
        None \<Rightarrow> None
      | Some tot \<Rightarrow> json_string_len tot s)"

definition http_json_char :: "allocator \<Rightarrow> char \<Rightarrow> mb_buf \<Rightarrow> bool \<times> mb_buf" where
  "http_json_char am c out =
     (if c = QUOTE \<or> c = BACKSLASH then buf_seq [app_byte am BACKSLASH, app_byte am c] out
      else if c = LF then append_lit am [BACKSLASH, CHR ''n''] out
      else if c = CR then append_lit am [BACKSLASH, CHR ''r''] out
      else if c = TAB then append_lit am [BACKSLASH, CHR ''t''] out
      else if c = BACKSPACE then append_lit am [BACKSLASH, CHR ''b''] out
      else if c = FORMFEED then append_lit am [BACKSLASH, CHR ''f''] out
      else if byte_val c < 0x20 then
        mb_buf_append am out [BACKSLASH, CHR ''u'', CHR ''0'', CHR ''0'', hex_char (byte_val c div 16), hex_char (byte_val c mod 16)]
      else mb_buf_append_byte am out c)"

definition http_append_json_string :: "allocator \<Rightarrow> bytes \<Rightarrow> mb_buf \<Rightarrow> bool \<times> mb_buf" where
  "http_append_json_string am s = buf_seq (map (http_json_char am) s)"

definition sse_open :: bytes where
  "sse_open = ''event: msg'' @ [LF] @ ''data: {'' @ [QUOTE] @ ''subject'' @ [QUOTE, CHR '':'', QUOTE]"

definition sse_middle :: bytes where
  "sse_middle = [QUOTE, CHR '',''] @ [QUOTE] @ ''payload'' @ [QUOTE, CHR '':'', QUOTE]"

definition sse_close :: bytes where
  "sse_close = [QUOTE, CHR ''}'', LF, LF]"

definition sse_msg_len :: "bytes \<Rightarrow> bytes \<Rightarrow> bytes \<Rightarrow> bytes \<Rightarrow> bytes \<Rightarrow> nat option" where
  "sse_msg_len pfx subject sid reply_to payload =
     (if slice_has_nul payload then Some 0
      else do { n \<leftarrow> add_size (length sse_open + length sse_middle + length sse_close) (length pfx);
                n \<leftarrow> json_string_len n subject;
                json_string_len n payload })"

definition sse_write_msg :: "allocator \<Rightarrow> mb_buf \<Rightarrow> bytes \<Rightarrow> bytes \<Rightarrow> bytes \<Rightarrow> bytes \<Rightarrow> bytes \<Rightarrow> bool \<times> mb_buf" where
  "sse_write_msg am out pfx subject sid reply_to payload =
     (if slice_has_nul payload then (True, out)
      else buf_seq [append_lit am sse_open, app am pfx, http_append_json_string am subject, append_lit am sse_middle,
                    http_append_json_string am payload, append_lit am sse_close] out)"

section \<open>Credentials\<close>

definition base64_value :: "char \<Rightarrow> int" where
  "base64_value c =
     (if byte_val (CHR ''A'') \<le> byte_val c \<and> byte_val c \<le> byte_val (CHR ''Z'') then int (byte_val c) - int (byte_val (CHR ''A''))
      else if byte_val (CHR ''a'') \<le> byte_val c \<and> byte_val c \<le> byte_val (CHR ''z'') then int (byte_val c) - int (byte_val (CHR ''a'')) + 26
      else if byte_val (CHR ''0'') \<le> byte_val c \<and> byte_val c \<le> byte_val (CHR ''9'') then int (byte_val c) - int (byte_val (CHR ''0'')) + 52
      else if c = CHR ''+'' then 62
      else if c = CHR ''/'' then 63
      else - 1)"

text \<open>\<open>acc\<close> holds the last \<open>bits\<close> bits that were not yet written, \<open>bits\<close> being below 8 between two characters.\<close>

fun base64_loop :: "allocator \<Rightarrow> bytes \<Rightarrow> u32 \<Rightarrow> nat \<Rightarrow> bool \<Rightarrow> mb_buf \<Rightarrow> bool \<times> mb_buf" where
  "base64_loop am [] acc bits padded out = (True, out)"
| "base64_loop am (c # cs) acc bits padded out =
     (if c = CHR ''='' then base64_loop am cs acc bits True out
      else let v = base64_value c
           in if v < 0 \<or> padded then (False, out)
              else let acc = (push_bit 6 acc OR word_of_int v) AND 0xffffff; bits = bits + 6
                   in if 8 \<le> bits then
                        let bits = bits - 8
                        in case mb_buf_append_byte am out (char_of (unat (drop_bit bits acc))) of
                             (False, out) \<Rightarrow> (False, out)
                           | (True, out) \<Rightarrow>
                               base64_loop am cs (if 0 < bits then acc AND (push_bit bits 1 - 1) else 0) bits padded out
                      else base64_loop am cs acc bits padded out)"

definition base64_decode :: "allocator \<Rightarrow> bytes \<Rightarrow> mb_buf \<Rightarrow> bool \<times> mb_buf" where
  "base64_decode am inp out = base64_loop am inp 0 0 False (mb_buf_clear out)"

section \<open>Responses\<close>

definition crlf :: bytes where "crlf = [CR, LF]"

definition response_writers :: "allocator \<Rightarrow> nat \<Rightarrow> bytes \<Rightarrow> bytes option \<Rightarrow> bytes option \<Rightarrow> bytes \<Rightarrow> (mb_buf \<Rightarrow> bool \<times> mb_buf) list" where
  "response_writers am code reason extra_header content_type body =
     [append_lit am ''HTTP/1.1 '', append_usize am code, app_byte am (CHR '' ''), append_lit am reason,
      append_lit am (crlf @ ''Server: monoblok'' @ crlf @ ''Connection: close'' @ crlf @ ''Content-Length: ''),
      append_usize am (length body), append_lit am (crlf @ ''Content-Type: ''),
      append_lit am (case content_type of None \<Rightarrow> ''text/plain; charset=utf-8'' | Some t \<Rightarrow> t), append_lit am crlf]
     @ (case extra_header of None \<Rightarrow> [] | Some h \<Rightarrow> [append_lit am h])
     @ [append_lit am crlf, app am body]"

definition write_response_bytes :: "allocator \<Rightarrow> mb_buf \<Rightarrow> nat \<Rightarrow> bytes \<Rightarrow> bytes option \<Rightarrow> bytes option \<Rightarrow> bytes \<Rightarrow> bool \<times> mb_buf" where
  "write_response_bytes am out code reason extra_header content_type body =
     buf_seq (response_writers am code reason extra_header content_type body) out"

definition write_response :: "allocator \<Rightarrow> mb_buf \<Rightarrow> nat \<Rightarrow> bytes \<Rightarrow> bytes option \<Rightarrow> bytes option \<Rightarrow> bool \<times> mb_buf" where
  "write_response am out code reason extra_header body =
     write_response_bytes am out code reason extra_header None (case body of None \<Rightarrow> [] | Some b \<Rightarrow> b)"

end
