(* ===== verification/Http.thy ===== *)
theory Http
  imports Http_Parse Server
begin

text \<open>
  Connections of the HTTP interface (\<open>src/src/server/http.c\<close>): publishing with POST, reading a last
  value and subscribing with a stream of events. An HTTP connection is also a connection of
  the router. The state of the HTTP side is part of the extension \<open>'x\<close> of the server, so that every
  operation of the server applies to it unchanged; \<open>'y\<close> is what the libraries keep.
\<close>

section \<open>State\<close>

record mb_http_conn =
  hc_rx :: mb_buf
  hc_in_flight :: mb_buf
  hc_subject :: mb_buf
  hc_client_id :: u64
  hc_write_pending :: bool
  hc_close_after_write :: bool
  hc_closing :: bool
  hc_counted :: bool
  hc_sse :: bool
  hc_prev :: "conn_id option"
  hc_next :: "conn_id option"

definition http_conn_zero :: mb_http_conn where
  "http_conn_zero = \<lparr>hc_rx = mb_buf_zero, hc_in_flight = mb_buf_zero, hc_subject = mb_buf_zero, hc_client_id = 0,
     hc_write_pending = False, hc_close_after_write = False, hc_closing = False, hc_counted = False, hc_sse = False,
     hc_prev = None, hc_next = None\<rparr>"

text \<open>\<open>he_http\<close> tells the connections whose callbacks are those of this file.\<close>

record 'y http_ext =
  he_conn :: "conn_id \<Rightarrow> mb_http_conn"
  he_http :: "conn_id \<Rightarrow> bool"
  he_conns :: "conn_id option"
  he_rest :: 'y

type_synonym 'y http_world = "'y http_ext server_world"

definition hx :: "'y http_world \<Rightarrow> 'y http_ext" where
  "hx w = sv_ext (w_server w)"

definition hc :: "conn_id \<Rightarrow> 'y http_world \<Rightarrow> mb_http_conn" where
  "hc c w = he_conn (hx w) c"

definition upd_hx :: "('y http_ext \<Rightarrow> 'y http_ext) \<Rightarrow> 'y http_world \<Rightarrow> 'y http_world" where
  "upd_hx f = ext_do f"

definition upd_hc :: "conn_id \<Rightarrow> (mb_http_conn \<Rightarrow> mb_http_conn) \<Rightarrow> 'y http_world \<Rightarrow> 'y http_world" where
  "upd_hc c f = upd_hx (\<lambda>x. x\<lparr>he_conn := (he_conn x)(c := f (he_conn x c))\<rparr>)"

section \<open>Closing\<close>

definition http_unlink_conn :: "conn_id \<Rightarrow> 'y http_world \<Rightarrow> 'y http_world" where
  "http_unlink_conn c w =
     (if hc_prev (hc c w) = None \<and> hc_next (hc c w) = None \<and> he_conns (hx w) \<noteq> Some c then w
      else let w = (case hc_prev (hc c w) of
                      Some p \<Rightarrow> upd_hc p (\<lambda>k. k\<lparr>hc_next := hc_next (hc c w)\<rparr>) w
                    | None \<Rightarrow> upd_hx (\<lambda>x. x\<lparr>he_conns := hc_next (hc c w)\<rparr>) w);
               w = (case hc_next (hc c w) of
                      Some n \<Rightarrow> upd_hc n (\<lambda>k. k\<lparr>hc_prev := hc_prev (hc c w)\<rparr>) w
                    | None \<Rightarrow> w)
           in upd_hc c (\<lambda>k. k\<lparr>hc_prev := None, hc_next := None\<rparr>) w)"

definition http_close_cb :: "conn_id \<Rightarrow> 'y http_world \<Rightarrow> 'y http_world" where
  "http_close_cb c w =
     (let w = (if hc_counted (hc c w) \<and> 0 < sv_conn_count (w_server w)
               then upd_sv (\<lambda>s. s\<lparr>sv_conn_count := sv_conn_count s - 1\<rparr>) w else w);
          w = upd_hc c (\<lambda>k. k\<lparr>hc_rx := mb_buf_free (hc_rx k)\<rparr>) w;
          w = upd_rc c (\<lambda>k. k\<lparr>conn_out := mb_buf_free (conn_out k)\<rparr>) w;
          w = upd_hc c (\<lambda>k. k\<lparr>hc_in_flight := mb_buf_free (hc_in_flight k)\<rparr>) w
      in upd_hc c (\<lambda>k. k\<lparr>hc_subject := mb_buf_free (hc_subject k)\<rparr>) w)"

definition http_conn_begin_close :: "'y http_ext env \<Rightarrow> conn_id \<Rightarrow> 'y http_world \<Rightarrow> 'y http_world option" where
  "http_conn_begin_close ev c w =
     (if hc_closing (hc c w) then Some w
      else do {
        let w = upd_hc c (\<lambda>k. k\<lparr>hc_closing := True\<rparr>) w;
        let w = upd_rc c (\<lambda>k. k\<lparr>conn_closed := True\<rparr>) w;
        (r, cs) \<leftarrow> mb_router_remove_all_for (w_router w) (w_conns w) c;
        let w = http_unlink_conn c (r, cs, w_server w);
        let w = ext_do (uv_read_stop ev c) w;
        if \<not> uv_is_closing ev c (sv_ext (w_server w)) then Some (ext_do (uv_close ev c) w) else Some w })"

definition close_from_router :: "'y http_ext env \<Rightarrow> conn_id \<Rightarrow> 'y http_world \<Rightarrow> 'y http_world option" where
  "close_from_router ev c w = http_conn_begin_close ev c w"

section \<open>Writing\<close>

definition http_pending_bytes :: "conn_id \<Rightarrow> 'y http_world \<Rightarrow> nat" where
  "http_pending_bytes c w =
     (if SIZE_MAX - buf_len (hc_in_flight (hc c w)) < buf_len (conn_out (rc c w)) then SIZE_MAX
      else buf_len (conn_out (rc c w)) + buf_len (hc_in_flight (hc c w)))"

definition http_close_if_slow_consumer :: "'y http_ext env \<Rightarrow> conn_id \<Rightarrow> 'y http_world \<Rightarrow> (bool \<times> 'y http_world) option" where
  "http_close_if_slow_consumer ev c w =
     (if http_pending_bytes c w \<le> MB_MAX_PENDING then Some (False, w)
      else do { w \<leftarrow> http_conn_begin_close ev c w; Some (True, w) })"

definition write_socket :: "'y http_ext env \<Rightarrow> conn_id \<Rightarrow> 'y http_world \<Rightarrow> (bool \<times> 'y http_world) option" where
  "write_socket ev c w =
     (if hc_closing (hc c w) \<or> hc_write_pending (hc c w) \<or> buf_len (conn_out (rc c w)) = 0 then Some (True, w)
      else case mb_buf_swap (conn_out (rc c w)) (hc_in_flight (hc c w)) of
        (out, fl) \<Rightarrow>
          let w = upd_hc c (\<lambda>k. k\<lparr>hc_in_flight := fl\<rparr>) (upd_rc c (\<lambda>k. k\<lparr>conn_out := out\<rparr>) w)
          in if UINT_MAX < buf_len (hc_in_flight (hc c w))
             then do { w \<leftarrow> http_conn_begin_close ev c w; Some (False, w) }
             else let w = upd_hc c (\<lambda>k. k\<lparr>hc_write_pending := True\<rparr>) w
             in case ext (uv_write ev c (buf_data (hc_in_flight (hc c w)))) w of
                  (True, w) \<Rightarrow> Some (True, w)
                | (False, w) \<Rightarrow>
                    do { w \<leftarrow> http_conn_begin_close ev c (upd_hc c (\<lambda>k. k\<lparr>hc_write_pending := False\<rparr>) w);
                         Some (False, w) })"

definition kick_write :: "'y http_ext env \<Rightarrow> conn_id \<Rightarrow> 'y http_world \<Rightarrow> 'y http_world option" where
  "kick_write ev c w =
     (if hc_closing (hc c w) then Some w
      else do {
        (slow, w) \<leftarrow> http_close_if_slow_consumer ev c w;
        if slow \<or> hc_write_pending (hc c w) then Some w
        else do { (_, w) \<leftarrow> write_socket ev c w; Some w } })"

definition http_write_cb :: "'y http_ext env \<Rightarrow> conn_id \<Rightarrow> int \<Rightarrow> 'y http_world \<Rightarrow> 'y http_world option" where
  "http_write_cb ev c status w =
     (let w = upd_hc c (\<lambda>k. k\<lparr>hc_write_pending := False\<rparr>) w
      in if status < 0 \<or> hc_closing (hc c w) then http_conn_begin_close ev c w
         else let w = upd_hc c (\<lambda>k. k\<lparr>hc_in_flight := mb_buf_clear (hc_in_flight k)\<rparr>) w
         in if hc_close_after_write (hc c w) \<and> buf_len (conn_out (rc c w)) = 0 then http_conn_begin_close ev c w
            else kick_write ev c w)"

text \<open>The callbacks of the router when HTTP connections are among its connections.\<close>

definition http_callbacks :: "allocator \<Rightarrow> 'y http_ext env \<Rightarrow> 'y http_ext mb_server router_callbacks" where
  "http_callbacks am ev =
     \<lparr>cb_close = (\<lambda>c w. if he_http (hx w) c then close_from_router ev c w else close_conn_from_router ev c w),
      cb_kick = (\<lambda>c w. if he_http (hx w) c then kick_write ev c w else mb_conn_kick_write am ev c w),
      cb_bridge = bridge_fn ev\<rparr>"

section \<open>Responses\<close>

text \<open>The end shared by both functions: write, then close after the write.\<close>

definition respond_bytes_and_close ::
  "allocator \<Rightarrow> 'y http_ext env \<Rightarrow> conn_id \<Rightarrow> nat \<Rightarrow> bytes \<Rightarrow> bytes option \<Rightarrow> bytes option \<Rightarrow> bytes \<Rightarrow> 'y http_world \<Rightarrow> 'y http_world option" where
  "respond_bytes_and_close am ev c code reason extra_header content_type body w =
     (case write_response_bytes am (conn_out (rc c w)) code reason extra_header content_type body of
        (ok, b) \<Rightarrow>
          let w = upd_rc c (\<lambda>k. k\<lparr>conn_out := b\<rparr>) w
          in if \<not> ok then http_conn_begin_close ev c w
             else kick_write ev c (upd_hc c (\<lambda>k. k\<lparr>hc_close_after_write := True\<rparr>) w))"

definition respond_and_close ::
  "allocator \<Rightarrow> 'y http_ext env \<Rightarrow> conn_id \<Rightarrow> nat \<Rightarrow> bytes \<Rightarrow> bytes option \<Rightarrow> bytes option \<Rightarrow> 'y http_world \<Rightarrow> 'y http_world option" where
  "respond_and_close am ev c code reason extra_header body w =
     (case write_response am (conn_out (rc c w)) code reason extra_header body of
        (ok, b) \<Rightarrow>
          let w = upd_rc c (\<lambda>k. k\<lparr>conn_out := b\<rparr>) w
          in if \<not> ok then http_conn_begin_close ev c w
             else kick_write ev c (upd_hc c (\<lambda>k. k\<lparr>hc_close_after_write := True\<rparr>) w))"

definition bad_request :: "allocator \<Rightarrow> 'y http_ext env \<Rightarrow> conn_id \<Rightarrow> bytes \<Rightarrow> 'y http_world \<Rightarrow> 'y http_world option" where
  "bad_request am ev c body = respond_and_close am ev c 400 ''Bad Request'' None (Some (body @ [LF]))"

section \<open>Authorization\<close>

definition auth_bearer :: "mb_auth_config \<Rightarrow> bytes \<Rightarrow> bool" where
  "auth_bearer auth value =
     (if \<not> slice_starts_ci_lit value ''Bearer'' then False
      else let value = trim_ows (drop 6 value) in length value \<noteq> 0 \<and> mb_auth_token_matches auth value)"

definition auth_basic :: "allocator \<Rightarrow> mb_auth_config \<Rightarrow> bytes \<Rightarrow> bool" where
  "auth_basic am auth value =
     (if \<not> slice_starts_ci_lit value ''Basic'' then False
      else let value = trim_ows (drop 5 value)
           in if length value = 0 then False
              else case base64_decode am value mb_buf_zero of
                     (False, _) \<Rightarrow> False
                   | (True, decoded) \<Rightarrow>
                       let user = takeWhile (\<lambda>c. c \<noteq> CHR '':'') (buf_data decoded)
                       in if length user = buf_len decoded then False
                          else mb_auth_user_pass_matches auth user (drop (length user + 1) (buf_data decoded)))"

definition request_authorized :: "allocator \<Rightarrow> mb_auth_config \<Rightarrow> mb_http_request \<Rightarrow> bool" where
  "request_authorized am auth req =
     (if auth_mode auth = MB_AUTH_NONE then True
      else if \<not> rq_has_authorization req then False
      else if auth_mode auth = MB_AUTH_TOKEN then auth_bearer auth (rq_authorization req)
      else if auth_mode auth = MB_AUTH_USER_PASS then auth_basic am auth (rq_authorization req)
      else False)"

definition auth_header :: "mb_auth_config \<Rightarrow> bytes option" where
  "auth_header auth =
     (case auth_mode auth of
        MB_AUTH_USER_PASS \<Rightarrow> Some (''WWW-Authenticate: Basic realm='' @ [QUOTE] @ ''monoblok'' @ [QUOTE] @ crlf)
      | MB_AUTH_TOKEN \<Rightarrow> Some (''WWW-Authenticate: Bearer'' @ crlf)
      | MB_AUTH_NONE \<Rightarrow> None)"

section \<open>Requests\<close>

definition handle_latest :: "allocator \<Rightarrow> 'y http_ext env \<Rightarrow> conn_id \<Rightarrow> mb_http_request \<Rightarrow> 'y http_world \<Rightarrow> 'y http_world option" where
  "handle_latest am ev c req w =
     (case decode_subject_path am (rq_target req) ''/latest/'' False (hc_subject (hc c w)) of
        (ok, b) \<Rightarrow>
          let w = upd_hc c (\<lambda>k. k\<lparr>hc_subject := b\<rparr>) w; subject = buf_data (hc_subject (hc c w))
          in if \<not> ok then bad_request am ev c ''invalid latest path'' w
             else if mb_router_subject_has_lvc_prefix subject then bad_request am ev c ''use the unprefixed subject'' w
             else if \<not> sv_lvc_enabled (w_server w)
             then respond_and_close am ev c 409 ''Conflict'' None (Some (''$LVC is disabled'' @ [LF])) w
             else do { found \<leftarrow> mb_router_lvc_latest (rt_lvc (w_router w)) subject;
                       case found of
                         None \<Rightarrow> respond_and_close am ev c 404 ''Not Found'' None (Some (''not cached'' @ [LF])) w
                       | Some payload \<Rightarrow>
                           respond_bytes_and_close am ev c 200 ''OK'' (Some (''Cache-Control: no-cache'' @ crlf))
                             (Some ''text/plain; charset=utf-8'') payload w })"

definition sse_header :: bytes where
  "sse_header = ''HTTP/1.1 200 OK'' @ crlf @ ''Server: monoblok'' @ crlf @ ''Content-Type: text/event-stream'' @ crlf @
     ''Cache-Control: no-cache'' @ crlf @ ''Connection: keep-alive'' @ crlf @ crlf"

definition open_stream :: "allocator \<Rightarrow> 'y http_ext env \<Rightarrow> conn_id \<Rightarrow> bytes \<Rightarrow> 'y http_world \<Rightarrow> 'y http_world option" where
  "open_stream am ev c subject w =
     (let w = upd_hc c (\<lambda>k. k\<lparr>hc_sse := True\<rparr>) w;
          w = upd_rc c (\<lambda>k. k\<lparr>msg_len_fn := Some sse_msg_len, write_msg_fn := Some (sse_write_msg am)\<rparr>) w
      in case append_lit am sse_header (conn_out (rc c w)) of
           (ok, b) \<Rightarrow>
             let w = upd_rc c (\<lambda>k. k\<lparr>conn_out := b\<rparr>) w
             in if \<not> ok then http_conn_begin_close ev c w
                else do { (ok, r, cs) \<leftarrow> mb_router_subscribe am (w_router w) (w_conns w) (Some c) subject ''sse'';
                          let w = (r, cs, w_server w);
                          if \<not> ok then
                            (let w = upd_rc c (\<lambda>k. k\<lparr>conn_out := mb_buf_clear (conn_out k)\<rparr>) w;
                                 w = upd_hc c (\<lambda>k. k\<lparr>hc_sse := False\<rparr>) w
                             in respond_and_close am ev c 500 ''Internal Server Error'' None (Some (''subscribe failed'' @ [LF])) w)
                          else kick_write ev c (upd_hc c (\<lambda>k. k\<lparr>hc_rx := mb_buf_clear (hc_rx k)\<rparr>) w) })"

definition unauthorized :: "allocator \<Rightarrow> 'y http_ext env \<Rightarrow> conn_id \<Rightarrow> 'y http_world \<Rightarrow> 'y http_world option" where
  "unauthorized am ev c w =
     respond_and_close am ev c 401 ''Unauthorized'' (auth_header (sv_auth (w_server w))) (Some (''unauthorized'' @ [LF])) w"

definition handle_get :: "allocator \<Rightarrow> 'y http_ext env \<Rightarrow> conn_id \<Rightarrow> mb_http_request \<Rightarrow> 'y http_world \<Rightarrow> 'y http_world option" where
  "handle_get am ev c req w =
     (if rq_has_content_length req \<and> rq_content_length req \<noteq> 0 then bad_request am ev c ''GET body is not supported'' w
      else if \<not> request_authorized am (sv_auth (w_server w)) req then unauthorized am ev c w
      else if slice_starts_lit (rq_target req) ''/latest/'' then handle_latest am ev c req w
      else if \<not> slice_starts_lit (rq_target req) ''/sub/'' then bad_request am ev c ''invalid GET path'' w
      else case decode_subject_path am (rq_target req) ''/sub/'' True (hc_subject (hc c w)) of
             (ok, b) \<Rightarrow>
               let w = upd_hc c (\<lambda>k. k\<lparr>hc_subject := b\<rparr>) w; subject = buf_data (hc_subject (hc c w))
               in if \<not> ok then bad_request am ev c ''invalid subscription path'' w
                  else if mb_router_subject_has_lvc_prefix subject \<and> \<not> sv_lvc_enabled (w_server w)
                  then respond_and_close am ev c 409 ''Conflict'' None (Some (''$LVC is disabled'' @ [LF])) w
                  else open_stream am ev c subject w)"

definition publish_response ::
  "allocator \<Rightarrow> 'y http_ext env \<Rightarrow> conn_id \<Rightarrow> mb_client_publish_status \<Rightarrow> 'y http_world \<Rightarrow> 'y http_world option" where
  "publish_response am ev c status =
     (case status of
        MB_CLIENT_PUBLISH_OK \<Rightarrow> respond_and_close am ev c 202 ''Accepted'' None None
      | MB_CLIENT_PUBLISH_DISABLED \<Rightarrow> respond_and_close am ev c 403 ''Forbidden'' None (Some (''client publish disabled'' @ [LF]))
      | MB_CLIENT_PUBLISH_LVC_READ_ONLY \<Rightarrow> respond_and_close am ev c 409 ''Conflict'' None (Some (''$LVC is read-only'' @ [LF]))
      | MB_CLIENT_PUBLISH_STATS_READ_ONLY \<Rightarrow> respond_and_close am ev c 409 ''Conflict'' None (Some (''$STATS is read-only'' @ [LF]))
      | MB_CLIENT_PUBLISH_ROUTER_FAILED \<Rightarrow> respond_and_close am ev c 500 ''Internal Server Error'' None (Some (''publish failed'' @ [LF]))
      | MB_CLIENT_PUBLISH_PATCHBAY_FAILED \<Rightarrow> respond_and_close am ev c 500 ''Internal Server Error'' None (Some (''patchbay failed'' @ [LF])))"

definition handle_post ::
  "allocator \<Rightarrow> 'y http_ext env \<Rightarrow> conn_id \<Rightarrow> mb_http_request \<Rightarrow> bytes \<Rightarrow> 'y http_world \<Rightarrow> 'y http_world option" where
  "handle_post am ev c req body w =
     (if \<not> request_authorized am (sv_auth (w_server w)) req then unauthorized am ev c w
      else if \<not> rq_has_content_type req \<or> \<not> content_type_allowed (rq_content_type req)
      then respond_and_close am ev c 415 ''Unsupported Media Type'' None (Some (''use text/plain or application/json'' @ [LF])) w
      else case decode_subject_path am (rq_target req) ''/pub/'' False (hc_subject (hc c w)) of
             (ok, b) \<Rightarrow>
               let w = upd_hc c (\<lambda>k. k\<lparr>hc_subject := b\<rparr>) w
               in if \<not> ok then bad_request am ev c ''invalid publish path'' w
                  else if slice_has_nul body then bad_request am ev c ''binary payloads are not supported'' w
                  else do { (status, w) \<leftarrow> client_publish_via (http_callbacks am ev) am ev (buf_data (hc_subject (hc c w))) body [] w;
                            publish_response am ev c status w })"

definition headers_too_large :: "allocator \<Rightarrow> 'y http_ext env \<Rightarrow> conn_id \<Rightarrow> 'y http_world \<Rightarrow> 'y http_world option" where
  "headers_too_large am ev c =
     respond_and_close am ev c 431 ''Request Header Fields Too Large'' None (Some (''headers too large'' @ [LF]))"

definition process_request :: "allocator \<Rightarrow> 'y http_ext env \<Rightarrow> conn_id \<Rightarrow> 'y http_world \<Rightarrow> 'y http_world option" where
  "process_request am ev c w =
     (let rx = buf_data (hc_rx (hc c w))
      in case find_header_end rx of
           None \<Rightarrow> if MB_HTTP_MAX_HEADER < length rx then headers_too_large am ev c w else Some w
         | Some header_end \<Rightarrow>
             if MB_HTTP_MAX_HEADER < header_end then headers_too_large am ev c w
             else case parse_headers (take header_end rx) of
               None \<Rightarrow> bad_request am ev c ''bad request'' w
             | Some req \<Rightarrow>
                 if rq_has_transfer_encoding req then bad_request am ev c ''transfer encoding is not supported'' w
                 else if rq_method req = MB_HTTP_GET then handle_get am ev c req w
                 else if \<not> rq_has_content_length req
                 then respond_and_close am ev c 411 ''Length Required'' None (Some (''Content-Length is required'' @ [LF])) w
                 else if MB_MAX_PAYLOAD < rq_content_length req
                 then respond_and_close am ev c 413 ''Payload Too Large'' None (Some (''payload too large'' @ [LF])) w
                 else if length rx - header_end < rq_content_length req then Some w
                 else handle_post am ev c req (take (rq_content_length req) (drop header_end rx)) w)"

section \<open>Callbacks of the event loop\<close>

definition http_alloc_cb :: "nat \<Rightarrow> nat" where
  "http_alloc_cb suggested_size = (if suggested_size < MB_HTTP_READ_CHUNK then suggested_size else MB_HTTP_READ_CHUNK)"

definition http_read_cb :: "allocator \<Rightarrow> 'y http_ext env \<Rightarrow> conn_id \<Rightarrow> int \<Rightarrow> bytes \<Rightarrow> 'y http_world \<Rightarrow> 'y http_world option" where
  "http_read_cb am ev c nread data w =
     (if nread < 0 then http_conn_begin_close ev c w
      else if nread = 0 then Some w
      else if hc_sse (hc c w) then http_conn_begin_close ev c w
      else let max_rx = MB_HTTP_MAX_HEADER + MB_MAX_PAYLOAD
           in if max_rx < length data \<or> max_rx - length data < buf_len (hc_rx (hc c w))
              then respond_and_close am ev c 413 ''Payload Too Large'' None (Some (''request too large'' @ [LF])) w
              else case mb_buf_append am (hc_rx (hc c w)) data of
                     (ok, b) \<Rightarrow>
                       let w = upd_hc c (\<lambda>k. k\<lparr>hc_rx := b\<rparr>) w
                       in if \<not> ok then http_conn_begin_close ev c w else process_request am ev c w)"

definition new_http_conn :: "conn_id \<Rightarrow> 'y http_world \<Rightarrow> 'y http_world" where
  "new_http_conn c w =
     (let w = upd_hx (\<lambda>x. x\<lparr>he_http := (he_http x)(c := True)\<rparr>) w;
          w = upd_hc c (\<lambda>_. http_conn_zero\<lparr>hc_client_id := sv_next_client_id (w_server w)\<rparr>) w;
          w = upd_sv (\<lambda>s. s\<lparr>sv_next_client_id := sv_next_client_id s + 1\<rparr>) w
      in upd_rc c (\<lambda>_. \<lparr>conn_out = mb_buf_zero, kick_seen_epoch = 0, close_seen_epoch = 0, conn_sub_count = 0,
           conn_closed = False, msg_len_fn = None, write_msg_fn = None, has_kick_fn = True, has_close_fn = True\<rparr>) w)"

definition http_link_conn :: "conn_id \<Rightarrow> 'y http_world \<Rightarrow> 'y http_world" where
  "http_link_conn c w =
     (let w = upd_hc c (\<lambda>k. k\<lparr>hc_next := he_conns (hx w)\<rparr>) w;
          w = (case he_conns (hx w) of Some h \<Rightarrow> upd_hc h (\<lambda>k. k\<lparr>hc_prev := Some c\<rparr>) w | None \<Rightarrow> w);
          w = upd_hx (\<lambda>x. x\<lparr>he_conns := Some c\<rparr>) w;
          w = upd_hc c (\<lambda>k. k\<lparr>hc_counted := True\<rparr>) w
      in upd_sv (\<lambda>s. s\<lparr>sv_conn_count := sv_conn_count s + 1\<rparr>) w)"

definition http_conn_create :: "'y http_ext env \<Rightarrow> 'y http_world \<Rightarrow> (bool \<times> 'y http_world) option" where
  "http_conn_create ev w =
     (case ext (calloc_conn ev) w of
        (None, w) \<Rightarrow> Some (False, w)
      | (Some c, w) \<Rightarrow>
          let w = new_http_conn c w
          in case ext (uv_tcp_init ev c) w of
               (False, w) \<Rightarrow> Some (False, w)
             | (True, w) \<Rightarrow>
          (case ext (uv_accept ev c) w of
               (False, w) \<Rightarrow> Some (False, ext_do (uv_close ev c) w)
             | (True, w) \<Rightarrow>
          (case ext (uv_read_start ev c) (http_link_conn c w) of
               (False, w) \<Rightarrow> do { w \<leftarrow> http_conn_begin_close ev c w; Some (False, w) }
             | (True, w) \<Rightarrow> Some (True, w))))"

definition http_on_connection :: "'y http_ext env \<Rightarrow> 'y http_ext server_ext \<Rightarrow> int \<Rightarrow> 'y http_world \<Rightarrow> 'y http_world option" where
  "http_on_connection ev sx status w =
     (if status < 0 then Some w
      else if sv_closing (w_server w) then Some w
      else if MB_MAX_CONNECTIONS \<le> sv_conn_count (w_server w) then Some (ext_do (drop_pending sx) w)
      else do { (_, w) \<leftarrow> http_conn_create ev w; Some w })"

text \<open>The loop of \<open>mb_http_close\<close>, which closes the first connection until there is none.\<close>

partial_function (option) mb_http_close :: "'y http_ext env \<Rightarrow> 'y http_world \<Rightarrow> 'y http_world option" where
  "mb_http_close ev w =
     (case he_conns (hx w) of
        None \<Rightarrow> Some w
      | Some c \<Rightarrow> do { w \<leftarrow> http_conn_begin_close ev c w; mb_http_close ev w })"

end
