(* ===== verification/Http_Correct.thy ===== *)
theory Http_Correct
  imports Http
begin

text \<open>
  Facts about the HTTP interface: a message is one event of a stream whatever its bytes, subjects
  survive their encoding in a path, and what happens to bytes that follow a complete request.
\<close>

section \<open>Events\<close>

definition esc_json :: "char \<Rightarrow> bytes" where
  "esc_json c =
     (if c = QUOTE \<or> c = BACKSLASH then [BACKSLASH, c]
      else if c = LF then [BACKSLASH, CHR ''n'']
      else if c = CR then [BACKSLASH, CHR ''r'']
      else if c = TAB then [BACKSLASH, CHR ''t'']
      else if c = BACKSPACE then [BACKSLASH, CHR ''b'']
      else if c = FORMFEED then [BACKSLASH, CHR ''f'']
      else if byte_val c < 0x20 then [BACKSLASH, CHR ''u'', CHR ''0'', CHR ''0'', hex_char (byte_val c div 16), hex_char (byte_val c mod 16)]
      else [c])"

definition sse_event :: "bytes \<Rightarrow> bytes \<Rightarrow> bytes \<Rightarrow> bytes" where
  "sse_event pfx subject payload =
     sse_open @ pfx @ concat (map esc_json subject) @ sse_middle @ concat (map esc_json payload) @ sse_close"

lemma http_json_char_writer: "buf_writer (http_json_char am c) (esc_json c)"
proof -
  have two: "buf_writer (buf_seq [app_byte am BACKSLASH, app_byte am c]) (concat [[BACKSLASH], [c]])"
    by (rule buf_writer_seq) (simp add: buf_writer_append_byte)
  have lit: "buf_writer (append_lit am s) s" for s using buf_writer_append [of am s] by (simp add: append_lit_def [abs_def])
  have eq: "http_json_char am c =
     (if c = QUOTE \<or> c = BACKSLASH then buf_seq [app_byte am BACKSLASH, app_byte am c]
      else if c = LF then append_lit am [BACKSLASH, CHR ''n'']
      else if c = CR then append_lit am [BACKSLASH, CHR ''r'']
      else if c = TAB then append_lit am [BACKSLASH, CHR ''t'']
      else if c = BACKSPACE then append_lit am [BACKSLASH, CHR ''b'']
      else if c = FORMFEED then append_lit am [BACKSLASH, CHR ''f'']
      else if byte_val c < 0x20 then app am [BACKSLASH, CHR ''u'', CHR ''0'', CHR ''0'', hex_char (byte_val c div 16), hex_char (byte_val c mod 16)]
      else app_byte am c)"
    by (rule HOL.ext) (simp add: http_json_char_def)
  show ?thesis unfolding eq esc_json_def using two lit by (auto intro: buf_writer_append buf_writer_append_byte simp del: buf_seq.simps)
qed

lemma http_json_string_writer: "buf_writer (http_append_json_string am s) (concat (map esc_json s))"
  unfolding http_append_json_string_def
  by (rule buf_writer_seq) (simp add: list_all2_map1 list_all2_map2 list_all2_same http_json_char_writer)

lemma esc_json_length:
  "length (esc_json c) = (if c = QUOTE \<or> c = BACKSLASH \<or> c = LF \<or> c = CR \<or> c = TAB \<or> c = BACKSPACE \<or> c = FORMFEED then 2
     else if byte_val c < 0x20 then 6 else 1)"
  by (simp add: esc_json_def)

lemma json_string_len_eq: "json_string_len tot s = Some n \<Longrightarrow> n = tot + length (concat (map esc_json s))"
proof (induction s arbitrary: tot)
  case (Cons c s)
  then obtain t where t: "add_size tot (length (esc_json c)) = Some t" "json_string_len t s = Some n"
    unfolding esc_json_length by (auto split: option.splits)
  then have "t = tot + length (esc_json c)" by (simp add: add_size_def split: if_splits)
  then show ?case using Cons.IH [OF t(2)] by simp
qed simp

lemma sse_writer:
  assumes "\<not> slice_has_nul payload"
  shows "buf_writer (\<lambda>out. sse_write_msg am out pfx subject sid reply_to payload) (sse_event pfx subject payload)"
proof -
  have "buf_writer (buf_seq [append_lit am sse_open, app am pfx, http_append_json_string am subject, append_lit am sse_middle,
      http_append_json_string am payload, append_lit am sse_close])
    (concat [sse_open, pfx, concat (map esc_json subject), sse_middle, concat (map esc_json payload), sse_close])"
    by (rule buf_writer_seq)
      (simp add: append_lit_def [abs_def] buf_writer_append http_json_string_writer)
  then show ?thesis using assms by (simp add: sse_write_msg_def [abs_def] sse_event_def del: buf_seq.simps)
qed

lemma esc_json_no_control: "x \<in> set (esc_json c) \<Longrightarrow> 0x20 \<le> byte_val x"
proof -
  have hexes: "n < 16 \<Longrightarrow> 0x20 \<le> byte_val (hex_char n)" for n
    by (cases n rule: nat.exhaust) (auto simp: hex_char_def byte_val_def less_Suc_eq numeral_eq_Suc)
  have "byte_val c div 16 < 16" "byte_val c mod 16 < 16" using byte_val_lt [of c] by (simp_all add: less_mult_imp_div_less)
  then show "x \<in> set (esc_json c) \<Longrightarrow> 0x20 \<le> byte_val x"
    using hexes by (auto simp: esc_json_def QUOTE_def BACKSLASH_def byte_val_def split: if_splits)
qed

text \<open>\<^bold>\<open>C26\<close> A message is at most one event of an HTTP stream. For a payload without a NUL byte, whatever other bytes
  the payload and the subject hold, what \<open>sse_write_msg\<close> adds is an event line, one data line and the
  empty line that ends the event. The data line is the JSON object with the subject and the payload
  as escaped strings, and it holds no control byte: neither a line feed nor a carriage return, either
  of which would end the line, can be smuggled in. A payload with a NUL adds nothing. In both cases
  the number of bytes is the one \<open>sse_msg_len\<close> announced, on which the router's limit of pending
  bytes relies.\<close>

theorem sse_one_event:
  assumes wf: "buf_wf out" and len: "sse_msg_len pfx subject sid reply_to payload = Some n"
    and wrote: "sse_write_msg am out pfx subject sid reply_to payload = (True, out')" and pfx: "list_all (\<lambda>x. 0x20 \<le> byte_val x) pfx"
  shows "\<exists>d. buf_data out' = buf_data out @ d \<and> length d = n \<and>
    (slice_has_nul payload \<longrightarrow> d = []) \<and>
    (\<not> slice_has_nul payload \<longrightarrow>
      (\<exists>object. d = ''event: msg'' @ [LF] @ ''data: '' @ object @ [LF, LF] \<and> list_all (\<lambda>x. 0x20 \<le> byte_val x) object \<and>
        object = ''{'' @ [QUOTE] @ ''subject'' @ [QUOTE] @ '':'' @ [QUOTE] @ pfx @ concat (map esc_json subject) @ [QUOTE] @ '','' @
          [QUOTE] @ ''payload'' @ [QUOTE] @ '':'' @ [QUOTE] @ concat (map esc_json payload) @ [QUOTE] @ ''}''))"
proof (cases "slice_has_nul payload")
  case True
  then show ?thesis using len wrote by (simp add: sse_msg_len_def sse_write_msg_def)
next
  case False
  let ?d = "sse_event pfx subject payload"
  let ?object = "''{'' @ [QUOTE] @ ''subject'' @ [QUOTE] @ '':'' @ [QUOTE] @ pfx @ concat (map esc_json subject) @ [QUOTE] @ '','' @
    [QUOTE] @ ''payload'' @ [QUOTE] @ '':'' @ [QUOTE] @ concat (map esc_json payload) @ [QUOTE] @ ''}''"
  have "buf_data out' = buf_data out @ ?d" using buf_writer.appends [OF sse_writer [OF False] wf] wrote by (metis fst_conv snd_conv)
  moreover have "length ?d = n"
    using len False by (auto simp: sse_msg_len_def sse_event_def add_size_def split: bind_splits if_splits dest!: json_string_len_eq)
  moreover have "?d = ''event: msg'' @ [LF] @ ''data: '' @ ?object @ [LF, LF]"
    by (simp add: sse_event_def sse_open_def sse_middle_def sse_close_def)
  moreover have esc: "list_all (\<lambda>x. 0x20 \<le> byte_val x) (concat (map esc_json s))" for s
    using esc_json_no_control by (fastforce simp: list_all_iff)
  have "list_all (\<lambda>x. 0x20 \<le> byte_val x) ?object"
    using pfx esc [of subject] esc [of payload] by (simp add: byte_val_def QUOTE_def)
  ultimately show ?thesis using False by blast
qed

theorem sse_one_event_witness:
  "\<exists>out' object. sse_write_msg (\<lambda>_. True) mb_buf_zero [] ''a'' [] [] [LF, CR, QUOTE] = (True, out') \<and>
     buf_data out' = ''event: msg'' @ [LF] @ ''data: '' @ object @ [LF, LF] \<and> list_all (\<lambda>x. 0x20 \<le> byte_val x) object"
proof -
  have "sse_msg_len [] ''a'' [] [] [LF, CR, QUOTE] \<noteq> None" by code_simp
  then obtain n where len: "sse_msg_len [] ''a'' [] [] [LF, CR, QUOTE] = Some n" by blast
  have "fst (sse_write_msg (\<lambda>_. True) mb_buf_zero [] ''a'' [] [] [LF, CR, QUOTE])" by code_simp
  then obtain out' where w: "sse_write_msg (\<lambda>_. True) mb_buf_zero [] ''a'' [] [] [LF, CR, QUOTE] = (True, out')" by (metis prod.collapse)
  have "\<not> slice_has_nul [LF, CR, QUOTE]" by code_simp
  then show ?thesis
    using sse_one_event [OF _ len w] w by (auto simp: buf_wf_def mb_buf_zero_def)
qed

section \<open>Subjects in paths\<close>

text \<open>The bytes a token of a path can carry, and a subject as a path with every byte percent-encoded.\<close>

definition path_byte :: "char \<Rightarrow> bool" where
  "path_byte c \<longleftrightarrow> c \<noteq> CHR ''/'' \<and> c \<noteq> CHR ''.'' \<and> byte_val (CHR '' '') < byte_val c \<and> c \<noteq> CHR 0x7F"

definition http_path :: "bytes \<Rightarrow> bytes" where
  "http_path s =
     concat (map (\<lambda>c. if c = CHR ''.'' then ''/''
                      else [CHR ''%'', hex_char (byte_val c div 16), hex_char (byte_val c mod 16)]) s)"

definition path_subject :: "bytes \<Rightarrow> bool" where
  "path_subject s \<longleftrightarrow> list_all (\<lambda>t. t \<noteq> [] \<and> list_all path_byte t) (split_on (CHR ''.'') s) \<and> length s \<le> MB_MAX_CONTROL_LINE"

lemma hex_value_char: "n < 16 \<Longrightarrow> hex_value (hex_char n) = int n"
proof -
  have "list_all (\<lambda>n. hex_value (hex_char n) = int n) [0..<16]" by code_simp
  then show "n < 16 \<Longrightarrow> hex_value (hex_char n) = int n" by (simp add: list_all_iff del: upt_Suc)
qed

lemma decode_encoded:
  assumes "list_all (list_all path_byte) (split_on (CHR ''.'') s)" "list_all (\<lambda>t. t \<noteq> []) (tl (split_on (CHR ''.'') s))"
    "has \<or> hd (split_on (CHR ''.'') s) \<noteq> []" "buf_wf out" "buf_len out + length s \<le> MB_MAX_CONTROL_LINE"
  shows "\<exists>out'. decode_path_loop (\<lambda>_. True) (http_path s) has out = (True, out') \<and> buf_data out' = buf_data out @ s"
  using assms
proof (induction s arbitrary: has out)
  case Nil
  then show ?case by (simp add: http_path_def)
next
  case (Cons c s)
  have room: "length [c] \<le> SIZE_MAX - buf_len out" using Cons.prems(5) by (simp add: MB_MAX_CONTROL_LINE_def SIZE_MAX_value)
  obtain b where b: "mb_buf_append_byte (\<lambda>_. True) out c = (True, b)" "buf_data b = buf_data out @ [c]"
    using buf_append_with_memory [OF Cons.prems(4) room] by (auto simp: mb_buf_append_byte_eq)
  have wf: "buf_wf b" using mb_buf_append_wf [OF Cons.prems(4), of "\<lambda>_. True" "[c]"] b(1) by (simp add: mb_buf_append_byte_eq)
  have len: "buf_len b + length s \<le> MB_MAX_CONTROL_LINE" using Cons.prems(5) b(2) by simp
  show ?case
  proof (cases "c = CHR ''.''")
    case True
    then have "hd (split_on (CHR ''.'') s) \<noteq> [] \<and> list_all (\<lambda>t. t \<noteq> []) (tl (split_on (CHR ''.'') s)) \<and>
        list_all (list_all path_byte) (split_on (CHR ''.'') s)" and has
      using Cons.prems(1-3) by (cases "split_on (CHR ''.'') s"; auto)+
    then show ?thesis
      using Cons.IH [OF _ _ _ wf len, of False] b True Cons.prems(5) by (auto simp: http_path_def)
  next
    case False
    have d: "byte_val c div 16 < 16" "byte_val c mod 16 < 16" using byte_val_lt [of c] by (simp_all add: less_mult_imp_div_less)
    have c: "char_of (nat (hex_value (hex_char (byte_val c div 16))) * 16 + nat (hex_value (hex_char (byte_val c mod 16)))) = c"
      using d by (simp add: hex_value_char byte_val_def)
    have ok: "path_byte c" "list_all (\<lambda>t. t \<noteq> []) (tl (split_on (CHR ''.'') s))" "list_all (list_all path_byte) (split_on (CHR ''.'') s)"
      using Cons.prems(1,2) False by (cases "split_on (CHR ''.'') s"; auto)+
    have "append_decoded_path_byte (\<lambda>_. True) out c = (True, b)"
      using ok(1) b(1) Cons.prems(5) by (auto simp: append_decoded_path_byte_def path_byte_def byte_val_def)
    then show ?thesis
      using Cons.IH [OF ok(3,2) _ wf len, of True] b(2) False c d by (simp add: http_path_def Let_def hex_value_char)
  qed
qed

lemma hex_percent: "hex_value (CHR ''%'') < 0"
  by code_simp

text \<open>A slash written as \<open>%2F\<close> is refused wherever it stands.\<close>

lemma decode_loop_slash: "\<not> fst (decode_path_loop am (p @ ''%2F'' @ q) has out)"
proof (induction p arbitrary: has out rule: length_induct)
  case (1 p)
  have IH: "\<not> fst (decode_path_loop am (p' @ ''%2F'' @ q) has out)" if "length p' < length p" for p' has out
    using 1 that by blast
  show ?case
  proof (cases p)
    case Nil
    have "hex_value (CHR ''2'') = 2" "hex_value (CHR ''F'') = 15" "(char_of (47 :: nat) :: char) = CHR ''/''" by code_simp+
    then show ?thesis using Nil by (simp add: append_decoded_path_byte_def)
  next
    case c: (Cons c p1)
    show ?thesis
    proof (cases "c = CHR ''%''")
      case False
      then show ?thesis using c IH [of p1] by (auto split: prod.splits bool.splits)
    next
      case True
      show ?thesis
      proof (cases p1)
        case Nil
        then show ?thesis using c True hex_percent by simp
      next
        case h: (Cons h p2)
        then show ?thesis using c True hex_percent IH [of "tl p2"]
          by (cases p2) (auto simp: Let_def split: prod.splits bool.splits)
      qed
    qed
  qed
qed

lemma encoded_slash_refused: "\<not> fst (decode_subject_path am (pfx @ p @ ''%2F'' @ q) pfx wild out)"
  using decode_loop_slash [of am p q False "mb_buf_clear out"] by (auto simp: decode_subject_path_def split: prod.splits bool.splits)

text \<open>\<^bold>\<open>C36\<close> Subjects without a slash travel in paths. A valid subject of at most \<open>MB_MAX_CONTROL_LINE\<close> bytes whose tokens
  hold neither a slash nor a control byte, written as a path with every byte percent-encoded and the
  dots as slashes, is decoded to exactly that subject, with wildcards where the request allows them.
  A subject with a slash has no path: every path with \<open>%2F\<close> in it is refused, although
  \<open>design/http-sse.md\<close> says that a literal slash should be percent-encoded.\<close>

theorem http_path_round_trip:
  assumes "mb_proto_subject_valid s wild" "path_subject s" "buf_wf out"
  shows "(\<exists>out'. decode_subject_path (\<lambda>_. True) (pfx @ http_path s) pfx wild out = (True, out') \<and> buf_data out' = s) \<and>
    \<not> fst (decode_subject_path am (pfx @ p @ ''%2F'' @ q) pfx wild out)"
proof (intro conjI encoded_slash_refused)
  have s: "s \<noteq> []" using assms(1) by (auto simp: mb_proto_subject_valid_def)
  then have "http_path s \<noteq> []" by (cases s) (auto simp: http_path_def)
  moreover have "buf_wf (mb_buf_clear out)" "buf_len (mb_buf_clear out) + length s \<le> MB_MAX_CONTROL_LINE"
    using assms(2,3) by (simp_all add: buf_wf_def mb_buf_clear_def path_subject_def)
  moreover have "list_all (list_all path_byte) (split_on (CHR ''.'') s)" "list_all (\<lambda>t. t \<noteq> []) (tl (split_on (CHR ''.'') s))"
      "hd (split_on (CHR ''.'') s) \<noteq> []"
    using assms(2) by (cases "split_on (CHR ''.'') s"; auto simp: path_subject_def list_all_iff)+
  ultimately show "\<exists>out'. decode_subject_path (\<lambda>_. True) (pfx @ http_path s) pfx wild out = (True, out') \<and> buf_data out' = s"
    using decode_encoded [of s False "mb_buf_clear out"] assms(1) by (auto simp: decode_subject_path_def mb_buf_clear_def)
qed

theorem http_path_round_trip_witness:
  "mb_proto_subject_valid ''a.b'' False \<and> path_subject ''a.b'' \<and>
   (\<exists>out'. decode_subject_path (\<lambda>_. True) (''/pub/'' @ http_path ''a.b'') ''/pub/'' False mb_buf_zero = (True, out') \<and> buf_data out' = ''a.b'') \<and>
   \<not> fst (decode_subject_path (\<lambda>_. True) (''/pub/'' @ ''a'' @ ''%2F'' @ ''b'') ''/pub/'' False mb_buf_zero)"
proof -
  have "mb_proto_subject_valid ''a.b'' False" "path_subject ''a.b''" "buf_wf mb_buf_zero"
    by code_simp (simp_all add: path_subject_def path_byte_def byte_val_def MB_MAX_CONTROL_LINE_def buf_wf_def mb_buf_zero_def)
  then show ?thesis using http_path_round_trip by blast
qed

section \<open>Bytes after a complete request\<close>

lemma find_crlf_bound: "find_crlf i s = Some n \<Longrightarrow> i + 4 \<le> n \<and> n \<le> i + length s"
  by (induction i s rule: find_crlf.induct) (fastforce split: if_splits)+

lemma find_crlf_append: "find_crlf i s = Some n \<Longrightarrow> find_crlf i (s @ t) = Some n"
  by (induction i s rule: find_crlf.induct) (auto split: if_splits)

text \<open>A complete POST request with its body at the front of the received bytes.\<close>

definition complete_post :: "bytes \<Rightarrow> mb_http_request \<Rightarrow> bytes \<Rightarrow> bool" where
  "complete_post rx req body \<longleftrightarrow>
     (\<exists>n. find_crlf 0 rx = Some n \<and> n \<le> MB_HTTP_MAX_HEADER \<and> parse_headers (take n rx) = Some req \<and>
        \<not> rq_has_transfer_encoding req \<and> rq_method req = MB_HTTP_POST \<and> rq_has_content_length req \<and>
        rq_content_length req \<le> MB_MAX_PAYLOAD \<and> n + rq_content_length req \<le> length rx \<and>
        body = take (rq_content_length req) (drop n rx))"

lemma complete_post_append: "complete_post rx req body \<Longrightarrow> complete_post (rx @ data) req body"
  by (auto simp: complete_post_def find_crlf_append dest: find_crlf_bound)

lemma process_complete_post:
  assumes "complete_post (buf_data (hc_rx (hc c w))) req body"
  shows "process_request am ev c w = handle_post am ev c req body w"
  using assms by (auto simp: complete_post_def process_request_def find_header_end_def Let_def)

text \<open>
  The received bytes are kept after a POST, and nothing stops the reading before the connection
  closes: any further bytes the client sends meanwhile run the same request again, publish
  included, even when its response is already on the way (\<open>hc_close_after_write\<close>).
\<close>

lemma post_runs_on_every_read:
  assumes post: "complete_post (buf_data (hc_rx (hc c w))) req body" and "0 < nread" "\<not> hc_sse (hc c w)"
    and room: "buf_len (hc_rx (hc c w)) + length data \<le> MB_HTTP_MAX_HEADER + MB_MAX_PAYLOAD"
    and app: "mb_buf_append am (hc_rx (hc c w)) data = (True, b)"
  shows "http_read_cb am ev c nread data w = handle_post am ev c req body (upd_hc c (\<lambda>k. k\<lparr>hc_rx := b\<rparr>) w)"
proof -
  let ?w = "upd_hc c (\<lambda>k. k\<lparr>hc_rx := b\<rparr>) w"
  have "buf_data (hc_rx (hc c ?w)) = buf_data (hc_rx (hc c w)) @ data"
    using mb_buf_append_True [OF app] by (simp add: upd_hc_def upd_hx_def hc_def hx_def world_simps)
  then have "process_request am ev c ?w = handle_post am ev c req body ?w"
    using process_complete_post complete_post_append [OF post] by metis
  moreover have "\<not> (MB_HTTP_MAX_HEADER + MB_MAX_PAYLOAD < length data \<or>
      MB_HTTP_MAX_HEADER + MB_MAX_PAYLOAD - length data < buf_len (hc_rx (hc c w)))" using room by linarith
  ultimately show ?thesis using assms(2,3) app by (simp add: http_read_cb_def Let_def)
qed

text \<open>
  The end of the headers may move: with lines ended by LF alone, an empty CR LF line later in the
  bytes takes precedence over the empty line found before.
\<close>

lemma header_end_moves:
  "find_header_end [LF, LF] = Some 2 \<and> find_header_end ([LF, LF] @ [CR, LF, CR, LF]) = Some 6"
  by code_simp

end
