(* ===== verification/Spec2Isabelle.thy ===== *)
theory Spec2Isabelle
  imports Proto_Write Wired Front_Correct Importer_Correct Jetstream_Acks Bridge_Correct Validate_Correct Windows_Correct
    Load_Correct Snapshot_Correct Http_Correct
begin

text \<open>
  A verification development of monoblok, a message server in C that speaks the client protocol of NATS and runs a
  program of rules, the patchbay, on every message.

  \<^bold>\<open>The program.\<close> A client connection (\<open>src/src/server/conn.c\<close>) collects bytes, the parser (\<open>src/src/proto.c\<close>) cuts them
  into operations, and the router (\<open>src/src/router.c\<close>) keeps the subscriptions, delivers a publish to the connections
  that match and caches last values. A publish is then given to the patchbay (\<open>src/src/patchbay\<close>): the rules whose filter
  matches are evaluated in the order of the file, with state kept between messages, and may publish again. Around
  this the server (\<open>src/src/server/server.c\<close>) accepts connections, ticks the clocks of the rules, publishes statistics and writes
  snapshots (\<open>src/src/snapshot.c\<close>); \<open>src/src/server/http.c\<close> offers publishing, last values and event streams over HTTP; the
  bridge (\<open>src/src/bridge.c\<close>) exports messages to another NATS server; the importers (\<open>src/src/importer.c\<close>,
  \<open>src/src/jetstream.c\<close>) feed messages of other servers to the patchbay from worker threads.

  \<^bold>\<open>How C is modelled.\<close> Bytes are \<open>char list\<close>s and a slice is the list of its bytes; 64-bit counters are words and wrap around; sizes are
  natural numbers compared with \<open>SIZE_MAX\<close> where the code does. A structure is a record, an enumeration a datatype. A pointer to a
  connection is a number into a store, so aliasing and dangling pointers can be stated. Memory may be refused at
  every allocation: \<open>allocator\<close> is a parameter and its refusals are branches. Each C function is one definition, with helper
  definitions for its loops. Results are tuples of what the function returns and changes; \<open>None\<close> in an option result stands for a call
  that does not return or leaves its memory, so \<open>\<exists>r. f x = Some r\<close> says that it returns safely. \<open>double\<close> is
  modelled exactly (theories \<open>Float64\<close>, \<open>Float_Bits\<close>, and \<open>C_Text\<close> for \<open>strtod\<close> and \<open>printf\<close>).
  The nesting that the readers of the three notations can take on the C stack is not modelled. Libraries (libuv, OpenSSL, yyjson, the NATS client, the C library's files and clocks) are parameters: records of functions
  (\<open>env\<close>, \<open>server_ext\<close>, \<open>pb_lib\<close>, \<open>json_env\<close>, \<open>nats_client\<close>, \<open>import_io\<close>, \<open>js_env\<close>, \<open>read_io\<close>, \<open>write_io\<close>) on a state of their own.

  \<^bold>\<open>Theories and sources.\<close>
  \<^item> \<open>Prelude\<close>: byte lists, tokens, decimal numbers, rings, and the locale \<open>state_machine\<close> with its reachability lemma.
  \<^item> \<open>Array_Buf\<close> (\<open>array.c\<close>, \<open>buf.c\<close>), \<open>Slice\<close> (\<open>slice.c\<close>), \<open>Files\<close> (\<open>fs.c\<close>): storage, hashing, whole files. A file write
    passes through a list of directory states, each holding the old or the new content.
  \<^item> \<open>Proto\<close>, \<open>Proto_Correct\<close>, \<open>Proto_Write\<close> (\<open>proto.c\<close>): the parser against a specification by words; incrementality, well-formed
    results, how much an incomplete frame may ask for; the writers as instances of the locale \<open>buf_writer\<close>.
  \<^item> \<open>Router_Match\<close>, \<open>Hash_Index\<close>, \<open>Router_Table\<close>, \<open>Router_LVC\<close>, \<open>Router\<close>, \<open>Router_Publish\<close> and their \<open>_Correct\<close> theories
    (\<open>router.c\<close>): matching, the open-addressing index (locale \<open>keyed_table\<close>, interpreted for buckets and for the cache), the multiset of subscriptions
    and what each operation does to it, queue groups, delivery within the reserved scratch space (locale \<open>conn_writer\<close>), and
    \<open>Router_Delivery\<close> for what ends up on the wire (locale \<open>router_client\<close>).
  \<^item> \<open>Server_State\<close>, \<open>Conn_Write\<close>, \<open>Conn\<close>, \<open>Server\<close> (\<open>conn.c\<close>, \<open>server.c\<close>) with \<open>Conn_Inv\<close>, \<open>Conn_Correct\<close>, \<open>Conn_Guarded\<close>, \<open>Conn_Events\<close>,
    \<open>Server_Correct\<close>: the linked list of connections, authentication, the byte stream as a sequence of events, the clock. \<open>conn.c\<close> calls the patchbay and the bridge, which
    are modelled in later theories; its lemmas are in two locales: \<open>plain_server\<close> for a server whose calls return (a sublocale of \<open>router_client\<close>), and
    \<open>guarded_server\<close>, which asks only that an evaluation keeps the invariant of the server when it returns.
  \<^item> \<open>Server_Steps\<close>: the callbacks of the event loop and the messages of the importers as a step relation, in the locale \<open>guarded_full\<close>.
  \<^item> \<open>Eval_Frame\<close>: a property of the world that publishes keep is kept by every form, evaluation and tick of the patchbay that returns.
  \<^item> \<open>Wired\<close> (\<open>main.c\<close>, in part): the server connected to the program, the bridge, the importers' counters and the snapshots of the
    repository. \<open>plain_server\<close> is interpreted for the server with an idle program, \<open>guarded_full\<close> for the server with any program, neither with an
    assumption; the properties of the running server follow: no dangling connections, callbacks that return, publishing, the receive buffer.
  \<^item> \<open>Http_Parse\<close>, \<open>Http\<close>, \<open>Http_Correct\<close> (\<open>http.c\<close>).
  \<^item> \<open>Arena\<close> (\<open>pb_arena.c\<close>), \<open>Sexpr\<close>, \<open>Sexpr_Correct\<close> (\<open>pb_sexpr.c\<close>), \<open>Json_Front\<close> (\<open>pb_json.c\<close>), \<open>Yaml\<close>, \<open>Yaml_Correct\<close> (\<open>pb_yaml.c\<close>),
    \<open>Front_Correct\<close>: the three notations and that each reader returns.
  \<^item> \<open>Eval_State\<close>, \<open>Forms\<close>, \<open>Forms_Text\<close>, \<open>Forms_State\<close>, \<open>Forms_Windows\<close>, \<open>Forms_Clocks\<close>, \<open>Forms_Json\<close>, \<open>Eval\<close> (\<open>pb_eval.c\<close>, \<open>pb_forms.c\<close>,
    \<open>pb_form_*.c\<close>) with \<open>Eval_State_Correct\<close> (the slots are a finite map) and \<open>Windows_Correct\<close> (a ring keeps the last values).
  \<^item> \<open>Program\<close>, \<open>Program_Load\<close> (\<open>pb_program.c\<close>) with \<open>Program_Correct\<close> (the rule index evaluates the rules in order; deadlines) and
    \<open>Load_Correct\<close>; \<open>Validate\<close>, \<open>Validate_Correct\<close> (\<open>pb_validate.c\<close>): what the validator accepts, the loader loads.
  \<^item> \<open>Snapshot\<close>, \<open>Snapshot_Correct\<close> (\<open>snapshot.c\<close>): reading back what was written.
  \<^item> \<open>Nats_Common\<close>, \<open>Bridge\<close>, \<open>Bridge_Correct\<close> (\<open>nats_common.c\<close>, \<open>bridge.c\<close>): what is exported, and how it is counted.
  \<^item> \<open>Importer\<close>, \<open>Importer_Correct\<close> (\<open>importer.c\<close>) and \<open>Jetstream\<close>, \<open>Jetstream_Correct\<close>, \<open>Jetstream_Acks\<close> (\<open>jetstream.c\<close>): each section under
    a lock is a definition, and a worker and the event loop interleave these sections in a step relation, both interpretations of \<open>state_machine\<close>.
    No accepted message is lost, reordered, freed twice or used after it was freed; acknowledgements follow the handler. \<open>mb_importer_drain\<close> itself
    is written as the sequence of its sections with no worker between them.
  \<^item> \<open>Ingress\<close> (\<open>main.c\<close>, in part): the handlers between the importers and the server, the group of importers, the authentication settings.

  \<^bold>\<open>Bounds and fuel.\<close> The evaluator (\<open>pb_eval\<close>), the loop over the slots of a rule and \<open>pb_program_tick_until\<close> take fuel from \<open>ho_fuel\<close> or an argument;
  running out is \<open>None\<close>. That the evaluator returns is not claimed; what is proved of the running server holds for the callbacks that return, and that
  they return is proved of those that do not run the program. Reentrant publishes end at depth 8, as in the code. The reader of s-expressions gets
  \<open>2 * length src + 2\<close> steps, the YAML reader one more block level than lines and as many flow brackets as characters, a drain of an importer one
  more round than messages; these are proved enough. Probes of a hash index get as many steps as slots, proved enough too. Catching up a
  JetStream consumer is a \<open>partial_function\<close>: nothing in the code bounds it.

  \<^bold>\<open>Not modelled.\<close> Set-up of libuv handles and listening sockets (\<open>mb_server_init\<close>, \<open>mb_server_listen\<close>, \<open>mb_server_run\<close>, \<open>mb_http_listen\<close>, the
  creation of the TLS context); of \<open>mb_server_close\<close> all but the loop over the connections; the loop of \<open>main\<close> over its arguments, banner and version texts; \<open>pb_dump.c\<close> and \<open>pb_soundcheck.c\<close>, offline
  tools over standard input and output; \<open>bench_patchbay.c\<close>; messages on stderr, except those of the evaluator. Theorems on the event loop assume a server without
  TLS, since there the calls into OpenSSL decide whether a connection makes progress; the TLS branches are modelled. Their events do not include HTTP clients, whose
  handlers are modelled in \<open>Http\<close>.
  Vendored libraries are parameters.
\<close>

end
